(* ===== verification/Prelude.thy ===== *)
theory Prelude
  imports Main "HOL-Library.Word" "HOL-Library.Finite_Map"
begin

text \<open>
  What every component shares: the machine integer types, the result and state-passing
  monads that model \<open>Result\<close> and \<open>&mut self\<close>, little-endian integer encoding
  (\<open>to_le_bytes\<close> and \<open>from_le_bytes\<close> of the Rust standard library), saturating
  arithmetic, order-preserving deduplication with a \<open>HashSet\<close>, and generic lemmas
  on lists, words and finite maps.
\<close>

section \<open>Machine types\<close>

type_synonym u8 = "8 word"
type_synonym u16 = "16 word"
type_synonym u32 = "32 word"
type_synonym u64 = "64 word"
type_synonym usize = "64 word"
type_synonym i32 = "32 word"
type_synonym bytes = "u8 list"

text \<open>A Rust \<open>String\<close> is its UTF-8 bytes; an \<open>f32\<close> is its 32 bits.\<close>

type_synonym ustring = "bytes"
type_synonym f32 = "32 word"

text \<open>
  Rule collections: \<open>op_inv\<close> inverts successful runs of the state-passing operations,
  \<open>op_eval\<close> evaluates them, and \<open>len_simps\<close> holds the lengths of encoded data.
\<close>

named_theorems op_inv
named_theorems op_eval
named_theorems len_simps

section \<open>Results and state-passing operations\<close>

text \<open>
  \<open>Result<T>\<close> is \<open>'e + 'a\<close>. A method on \<open>&mut self\<close> keeps the changes made before
  an early return, so an operation returns the state on its error path too.
\<close>

type_synonym ('e, 's, 'a) op = "'s \<Rightarrow> ('e + 'a) \<times> 's"

definition bindR :: "'e + 'a \<Rightarrow> ('a \<Rightarrow> 'e + 'b) \<Rightarrow> 'e + 'b" where
  "bindR m f = (case m of Inl e \<Rightarrow> Inl e | Inr x \<Rightarrow> f x)"

definition ret :: "'a \<Rightarrow> ('e, 's, 'a) op" where
  "ret x s = (Inr x, s)"

definition fail :: "'e \<Rightarrow> ('e, 's, 'a) op" where
  "fail e s = (Inl e, s)"

definition bindM :: "('e, 's, 'a) op \<Rightarrow> ('a \<Rightarrow> ('e, 's, 'b) op) \<Rightarrow> ('e, 's, 'b) op" where
  "bindM m f s = (case m s of (Inl e, t) \<Rightarrow> (Inl e, t) | (Inr x, t) \<Rightarrow> f x t)"

definition seqM :: "('e, 's, unit) op \<Rightarrow> ('e, 's, 'b) op \<Rightarrow> ('e, 's, 'b) op" where
  "seqM m k = bindM m (\<lambda>_. k)"

text \<open>\<open>attempt\<close> hands the outcome, error included, to the continuation: a \<open>match\<close> on a result.\<close>

definition attempt :: "('e, 's, 'a) op \<Rightarrow> ('e + 'a \<Rightarrow> ('e, 's, 'b) op) \<Rightarrow> ('e, 's, 'b) op" where
  "attempt m h s = (case m s of (r, t) \<Rightarrow> h r t)"

definition getM :: "('s \<Rightarrow> 'a) \<Rightarrow> ('e, 's, 'a) op" where
  "getM f s = (Inr (f s), s)"

definition modM :: "('s \<Rightarrow> 's) \<Rightarrow> ('e, 's, unit) op" where
  "modM g s = (Inr (), g s)"

definition liftM :: "'e + 'a \<Rightarrow> ('e, 's, 'a) op" where
  "liftM r s = (r, s)"

text \<open>An operation on a part of the state, run on the whole.\<close>

definition zoom :: "('s \<Rightarrow> 't) \<Rightarrow> ('t \<Rightarrow> 's \<Rightarrow> 's) \<Rightarrow> ('e, 't, 'a) op \<Rightarrow> ('e, 's, 'a) op" where
  "zoom g p m s = (case m (g s) of (r, t) \<Rightarrow> (r, p t s))"

fun mapM :: "('a \<Rightarrow> ('e, 's, 'b) op) \<Rightarrow> 'a list \<Rightarrow> ('e, 's, 'b list) op" where
  "mapM f [] = ret []"
| "mapM f (x # xs) = bindM (f x) (\<lambda>y. bindM (mapM f xs) (\<lambda>ys. ret (y # ys)))"

fun forM :: "('a \<Rightarrow> ('e, 's, unit) op) \<Rightarrow> 'a list \<Rightarrow> ('e, 's, unit) op" where
  "forM f [] = ret ()"
| "forM f (x # xs) = seqM (f x) (forM f xs)"

lemma bindR_Inr: "bindR m f = Inr y \<longleftrightarrow> (\<exists>x. m = Inr x \<and> f x = Inr y)"
  by (auto simp: bindR_def split: sum.splits)

lemma bindR_simps [simp]: "bindR (Inl e) f = Inl e" "bindR (Inr x) f = f x"
  by (simp_all add: bindR_def)

lemma bindM_Inr [op_inv]:
  "bindM m f s = (Inr y, u) \<longleftrightarrow> (\<exists>x t. m s = (Inr x, t) \<and> f x t = (Inr y, u))"
  by (auto simp: bindM_def split: prod.splits sum.splits)

lemma seqM_Inr [op_inv]:
  "seqM m k s = (Inr y, u) \<longleftrightarrow> (\<exists>t. m s = (Inr (), t) \<and> k t = (Inr y, u))"
  by (simp add: seqM_def bindM_Inr)

lemma ret_Inr [op_inv]: "ret x s = (Inr y, u) \<longleftrightarrow> y = x \<and> u = s"
  by (auto simp: ret_def)

lemma fail_Inr [op_inv]: "fail e s = (Inr y, u) \<longleftrightarrow> False"
  by (simp add: fail_def)

lemma getM_Inr [op_inv]: "getM f s = (Inr y, u) \<longleftrightarrow> y = f s \<and> u = s"
  by (auto simp: getM_def)

lemma modM_Inr [op_inv]: "modM g s = (Inr y, u) \<longleftrightarrow> u = g s"
  by (auto simp: modM_def)

lemma liftM_Inr [op_inv]: "liftM r s = (Inr y, u) \<longleftrightarrow> r = Inr y \<and> u = s"
  by (auto simp: liftM_def)

lemma zoom_Inr [op_inv]:
  "zoom g p m s = (Inr y, u) \<longleftrightarrow> (\<exists>t. m (g s) = (Inr y, t) \<and> u = p t s)"
  by (auto simp: zoom_def split: prod.splits)

lemma bindM_eval [op_eval]:
  "m s = (Inr x, t) \<Longrightarrow> bindM m f s = f x t"
  "m s = (Inl e, t) \<Longrightarrow> bindM m f s = (Inl e, t)"
  by (simp_all add: bindM_def)

lemma seqM_eval [op_eval]:
  "m s = (Inr (), t) \<Longrightarrow> seqM m k s = k t"
  "m s = (Inl e, t) \<Longrightarrow> seqM m k s = (Inl e, t)"
  by (simp_all add: seqM_def bindM_def)

lemma attempt_eval [op_eval]: "m s = (r, t) \<Longrightarrow> attempt m h s = h r t"
  by (simp add: attempt_def)

lemma ops_eval [op_eval]:
  "ret x s = (Inr x, s)" "fail e s = (Inl e, s)" "getM f s = (Inr (f s), s)"
  "modM g s = (Inr (), g s)" "liftM r s = (r, s)"
  by (simp_all add: ret_def fail_def getM_def modM_def liftM_def)

lemma zoom_eval [op_eval]: "m (g s) = (r, t) \<Longrightarrow> zoom g p m s = (r, p t s)"
  by (simp add: zoom_def)

section \<open>Little-endian integers\<close>

fun le_nat :: "bytes \<Rightarrow> nat" where
  "le_nat [] = 0"
| "le_nat (b # bs) = unat b + 256 * le_nat bs"

fun nat_le :: "nat \<Rightarrow> nat \<Rightarrow> bytes" where
  "nat_le 0 n = []"
| "nat_le (Suc k) n = word_of_nat (n mod 256) # nat_le k (n div 256)"

definition u16_to_le :: "u16 \<Rightarrow> bytes" where
  "u16_to_le w = nat_le 2 (unat w)"

definition u32_to_le :: "u32 \<Rightarrow> bytes" where
  "u32_to_le w = nat_le 4 (unat w)"

definition u64_to_le :: "u64 \<Rightarrow> bytes" where
  "u64_to_le w = nat_le 8 (unat w)"

definition u16_from_le :: "bytes \<Rightarrow> u16" where
  "u16_from_le bs = word_of_nat (le_nat bs)"

definition u32_from_le :: "bytes \<Rightarrow> u32" where
  "u32_from_le bs = word_of_nat (le_nat bs)"

definition u64_from_le :: "bytes \<Rightarrow> u64" where
  "u64_from_le bs = word_of_nat (le_nat bs)"

lemma length_nat_le [simp, len_simps]: "length (nat_le k n) = k"
  by (induction k arbitrary: n) simp_all

lemma unat_u8_of_nat: "n < 256 \<Longrightarrow> unat (word_of_nat n :: u8) = n"
  by (simp add: unat_of_nat)

lemma unat_u8_lt: "unat (b :: u8) < 256"
  using unsigned_less [of b] by simp

lemma unat_u16_lt: "unat (b :: u16) < 256 ^ 2"
  using unsigned_less [of b] by simp

lemma unat_u32_lt: "unat (b :: u32) < 256 ^ 4"
  using unsigned_less [of b] by simp

lemma unat_u64_lt: "unat (b :: u64) < 256 ^ 8"
  using unsigned_less [of b] by simp

lemmas unat_lts = unat_u8_lt unat_u16_lt unat_u32_lt unat_u64_lt

lemma le_nat_nat_le: "n < 256 ^ k \<Longrightarrow> le_nat (nat_le k n) = n"
proof (induction k arbitrary: n)
  case 0
  then show ?case by simp
next
  case (Suc k)
  then have "n div 256 < 256 ^ k"
    by (simp add: less_mult_imp_div_less mult.commute)
  with Suc.IH have "le_nat (nat_le k (n div 256)) = n div 256"
    by simp
  then show ?case
    by (simp add: unat_u8_of_nat)
qed

lemma le_nat_bound: "le_nat bs < 256 ^ length bs"
proof (induction bs)
  case Nil
  then show ?case by simp
next
  case (Cons b bs)
  have "unat b < 256"
    by (rule unat_u8_lt)
  with Cons show ?case
    by simp
qed

lemma nat_le_le_nat: "nat_le (length bs) (le_nat bs) = bs"
proof (induction bs)
  case Nil
  then show ?case by simp
next
  case (Cons b bs)
  have "unat b < 256"
    by (rule unat_u8_lt)
  with Cons show ?case
    by simp
qed

lemma length_to_le [simp, len_simps]:
  "length (u16_to_le a) = 2" "length (u32_to_le b) = 4" "length (u64_to_le c) = 8"
  by (simp_all add: u16_to_le_def u32_to_le_def u64_to_le_def)

lemma from_to_le [simp]:
  "u16_from_le (u16_to_le a) = a" "u32_from_le (u32_to_le b) = b" "u64_from_le (u64_to_le c) = c"
  by (simp_all only: u16_from_le_def u16_to_le_def u32_from_le_def u32_to_le_def
      u64_from_le_def u64_to_le_def le_nat_nat_le unat_lts of_nat_unat ucast_id)

lemma to_from_le_u32: "length bs = 4 \<Longrightarrow> u32_to_le (u32_from_le bs) = bs"
  using le_nat_bound [of bs] nat_le_le_nat [of bs]
  by (simp add: u32_from_le_def u32_to_le_def unat_of_nat)

lemma to_from_le_u64: "length bs = 8 \<Longrightarrow> u64_to_le (u64_from_le bs) = bs"
  using le_nat_bound [of bs] nat_le_le_nat [of bs]
  by (simp add: u64_from_le_def u64_to_le_def unat_of_nat)

lemma to_from_le_u16: "length bs = 2 \<Longrightarrow> u16_to_le (u16_from_le bs) = bs"
  using le_nat_bound [of bs] nat_le_le_nat [of bs]
  by (simp add: u16_from_le_def u16_to_le_def unat_of_nat)

section \<open>Word arithmetic without wrap-around\<close>

lemma unat_u32_of_nat: "n < 2 ^ 32 \<Longrightarrow> unat (word_of_nat n :: u32) = n"
  by (simp add: unat_of_nat)

lemma unat_u64_of_nat: "n < 2 ^ 64 \<Longrightarrow> unat (word_of_nat n :: u64) = n"
  by (simp add: unat_of_nat)

lemma unat_u64_add_of_nat:
  "unat (a :: u64) + n < 2 ^ 64 \<Longrightarrow> unat (a + word_of_nat n) = unat a + n"
  by (simp add: unat_word_ariths unat_of_nat)

lemma unat_u64_add: "unat (a :: u64) + unat b < 2 ^ 64 \<Longrightarrow> unat (a + b) = unat a + unat b"
  by (simp add: unat_word_ariths)

lemma unat_ucast_u32_u64: "unat (ucast (a :: u32) :: u64) = unat a"
  by (simp add: unsigned_ucast_eq take_bit_nat_eq_self_iff order_less_trans [OF unsigned_less])

definition saturating_sub :: "u64 \<Rightarrow> u64 \<Rightarrow> u64" where
  "saturating_sub a b = (if a < b then 0 else a - b)"

section \<open>Deduplication with a set of seen keys\<close>

fun dedup_on :: "('a \<Rightarrow> 'k) \<Rightarrow> 'k set \<Rightarrow> 'a list \<Rightarrow> 'a list" where
  "dedup_on f seen [] = []"
| "dedup_on f seen (x # xs) =
     (if f x \<in> seen then dedup_on f seen xs else x # dedup_on f (insert (f x) seen) xs)"

lemma set_dedup_on: "f ` set (dedup_on f seen xs) = f ` set xs - seen"
  by (induction xs arbitrary: seen) auto

lemma distinct_dedup_on: "distinct (map f (dedup_on f seen xs))"
proof (induction xs arbitrary: seen)
  case (Cons x xs)
  have "f x \<notin> f ` set (dedup_on f (insert (f x) seen) xs)"
    by (simp add: set_dedup_on)
  with Cons show ?case by simp
qed simp

lemma dedup_on_subset: "set (dedup_on f seen xs) \<subseteq> set xs"
  by (induction xs arbitrary: seen) auto

lemma dedup_on_insert: "a \<notin> f ` set xs \<Longrightarrow> dedup_on f (insert a seen) xs = dedup_on f seen xs"
proof (induction xs arbitrary: seen)
  case (Cons x xs)
  then have IH: "dedup_on f (insert a s) xs = dedup_on f s xs" for s
    by simp
  from Cons.prems have "f x \<noteq> a" by auto
  then have mem: "f x \<in> insert a seen \<longleftrightarrow> f x \<in> seen" by simp
  have "dedup_on f (insert (f x) (insert a seen)) xs = dedup_on f (insert (f x) seen) xs"
    using IH [of "insert (f x) seen"] by (metis insert_commute)
  with IH [of seen] mem show ?case
    by (simp only: dedup_on.simps)
qed simp

lemma dedup_on_filter:
  "dedup_on f seen (filter P xs) = filter P (dedup_on f seen xs)" if "\<And>x y. f x = f y \<Longrightarrow> P x = P y"
proof (induction xs arbitrary: seen)
  case (Cons x xs)
  show ?case
  proof (cases "P x")
    case True
    then show ?thesis using Cons by simp
  next
    case False
    then have "f x \<notin> f ` set (filter P xs)"
      by (auto dest: that)
    then have "dedup_on f (insert (f x) seen) (filter P xs) = dedup_on f seen (filter P xs)"
      by (rule dedup_on_insert)
    with False Cons [of seen] Cons [of "insert (f x) seen"] show ?thesis
      by simp
  qed
qed simp

section \<open>Finite maps\<close>

text \<open>Inserting a list of entries, later ones winning, as a loop of \<open>HashMap::insert\<close> does.\<close>

definition fminserts :: "('a \<Rightarrow> 'k) \<Rightarrow> ('a \<Rightarrow> 'v) \<Rightarrow> 'a list \<Rightarrow> ('k, 'v) fmap \<Rightarrow> ('k, 'v) fmap" where
  "fminserts k v xs m = fold (\<lambda>x. fmupd (k x) (v x)) xs m"

lemma fminserts_simps [simp]:
  "fminserts k v [] m = m"
  "fminserts k v (x # xs) m = fminserts k v xs (fmupd (k x) (v x) m)"
  by (simp_all add: fminserts_def)

lemma fminserts_append: "fminserts k v (xs @ ys) m = fminserts k v ys (fminserts k v xs m)"
  by (simp add: fminserts_def)

lemma fminserts_lookup_other:
  "a \<notin> k ` set xs \<Longrightarrow> fmlookup (fminserts k v xs m) a = fmlookup m a"
  by (induction xs arbitrary: m) auto

lemma fminserts_lookup_in:
  assumes "a \<in> k ` set xs"
  shows "\<exists>x \<in> set xs. k x = a \<and> fmlookup (fminserts k v xs m) a = Some (v x)"
  using assms
proof (induction xs arbitrary: m)
  case (Cons x xs)
  show ?case
  proof (cases "a \<in> k ` set xs")
    case True
    with Cons.IH show ?thesis by fastforce
  next
    case False
    with Cons.prems have "k x = a" by auto
    with False show ?thesis
      by (simp add: fminserts_lookup_other)
  qed
qed simp

lemma fminserts_lookup_distinct:
  assumes "distinct (map k xs)" "x \<in> set xs"
  shows "fmlookup (fminserts k v xs m) (k x) = Some (v x)"
proof -
  obtain y where "y \<in> set xs" "k y = k x" "fmlookup (fminserts k v xs m) (k x) = Some (v y)"
    using fminserts_lookup_in [of "k x" k xs v m] assms(2) by auto
  moreover from this(1,2) assms have "y = x"
    by (metis distinct_map inj_on_eq_iff)
  ultimately show ?thesis by simp
qed

lemma fmdom'_fminserts: "fmdom' (fminserts k v xs m) = fmdom' m \<union> k ` set xs"
  by (induction xs arbitrary: m) auto

text \<open>Removing a list of keys.\<close>

definition fmremoves :: "'k list \<Rightarrow> ('k, 'v) fmap \<Rightarrow> ('k, 'v) fmap" where
  "fmremoves ks m = fold fmdrop ks m"

lemma fmlookup_fmremoves: "fmlookup (fmremoves ks m) a = (if a \<in> set ks then None else fmlookup m a)"
  unfolding fmremoves_def by (induction ks arbitrary: m) auto

section \<open>Lists\<close>

lemma concat_map_take_drop:
  "take (length xs) (xs @ ys) = xs" "drop (length xs) (xs @ ys) = ys"
  by simp_all

lemma sum_list_map_length: "length (concat xss) = sum_list (map length xss)"
  by (simp add: length_concat)

end
