(* ===== verification/Record_Frame.thy ===== *)
theory Record_Frame
  imports Prelude
begin

text \<open>
  The record frame of the log (\<open>embedding-store/src/record.rs\<close>): the record kinds and
  vector dtypes, the metadata structs, \<open>encode\<close>, \<open>peek_len\<close> and \<open>decode\<close> of a
  frame, and the raw vector encoding. The CRC (\<open>crc32fast\<close>) and the half-precision
  conversions (the \<open>half\<close> crate) are arguments of the definitions that use them.
\<close>

section \<open>Kinds, dtypes and metadata\<close>

datatype record_kind = Doc | Split | Summary | DeleteDoc

fun record_kind_u8 :: "record_kind \<Rightarrow> u8" where
  "record_kind_u8 Doc = 1"
| "record_kind_u8 Split = 2"
| "record_kind_u8 Summary = 3"
| "record_kind_u8 DeleteDoc = 4"

definition record_kind_from_u8 :: "u8 \<Rightarrow> record_kind option" where
  "record_kind_from_u8 v =
     (if v = 1 then Some Doc
      else if v = 2 then Some Split
      else if v = 3 then Some Summary
      else if v = 4 then Some DeleteDoc
      else None)"

datatype vector_dtype = NoVector | F16 | F32

fun dtype_u8 :: "vector_dtype \<Rightarrow> u8" where
  "dtype_u8 NoVector = 0"
| "dtype_u8 F16 = 1"
| "dtype_u8 F32 = 2"

definition dtype_from_u8 :: "u8 \<Rightarrow> vector_dtype option" where
  "dtype_from_u8 v =
     (if v = 0 then Some NoVector
      else if v = 1 then Some F16
      else if v = 2 then Some F32
      else None)"

fun bytes_per_element :: "vector_dtype \<Rightarrow> nat" where
  "bytes_per_element NoVector = 0"
| "bytes_per_element F16 = 2"
| "bytes_per_element F32 = 4"

definition vector_bytes :: "vector_dtype \<Rightarrow> nat \<Rightarrow> nat" where
  "vector_bytes d n_embd = bytes_per_element d * n_embd"

record doc_meta =
  dm_doc_id :: u64
  dm_url :: ustring
  dm_split_ids :: "u64 list"
  dm_summary_ids :: "u64 list option"

record split_meta =
  sm_split_id :: u64
  sm_seq_id :: i32
  sm_doc_id :: u64
  sm_token_len :: usize
  sm_text :: ustring
  sm_summary_ids :: "u64 list"
  sm_model_id :: u64

record summary_meta =
  um_summary_id :: u64
  um_doc_id :: u64
  um_split_id :: u64
  um_split_seq_id :: i32
  um_token_len :: usize
  um_centrality :: f32
  um_text :: ustring
  um_model_id :: u64

record delete_meta =
  xm_doc_id :: u64

section \<open>Encoding and decoding a frame\<close>

datatype decode_error =
    Truncated nat nat
  | BadLength u32
  | BadCrc u32 u32
  | BadKind u8
  | BadDtype u8

record record_view =
  rv_len :: u32
  rv_seq :: u64
  rv_kind :: record_kind
  rv_dtype :: vector_dtype
  rv_meta :: bytes
  rv_vector :: bytes

text \<open>\<open>len(4) + crc(4) + seq(8) + kind(1) + dtype(1) + meta_len(4)\<close>\<close>

definition RECORD_HEADER_LEN :: nat where
  "RECORD_HEADER_LEN = 22"

definition CRC_COVERED_FROM :: nat where
  "CRC_COVERED_FROM = 8"

definition subslice :: "nat \<Rightarrow> nat \<Rightarrow> 'a list \<Rightarrow> 'a list" where
  "subslice i j xs = take (j - i) (drop i xs)"

text \<open>
  The lengths are cast with \<open>as u32\<close>, which keeps the low 32 bits; the checksum is
  patched into bytes 4 to 8 once the rest of the frame is in place.
\<close>

definition encode :: "(bytes \<Rightarrow> u32) \<Rightarrow> u64 \<Rightarrow> record_kind \<Rightarrow> vector_dtype \<Rightarrow> bytes \<Rightarrow> bytes \<Rightarrow> bytes" where
  "encode crc seq kind dtype meta vector =
     (let len = RECORD_HEADER_LEN + length meta + length vector;
          buf = u32_to_le (word_of_nat len) @ u32_to_le 0 @ u64_to_le seq
                @ [record_kind_u8 kind] @ [dtype_u8 dtype]
                @ u32_to_le (word_of_nat (length meta)) @ meta @ vector;
          c = crc (drop CRC_COVERED_FROM buf)
      in take 4 buf @ u32_to_le c @ drop 8 buf)"

definition peek_len :: "bytes \<Rightarrow> u32 option" where
  "peek_len buf = (if length buf < 4 then None else Some (u32_from_le (subslice 0 4 buf)))"

definition decode :: "(bytes \<Rightarrow> u32) \<Rightarrow> bytes \<Rightarrow> decode_error + record_view" where
  "decode crc buf =
     (if length buf < RECORD_HEADER_LEN then Inl (Truncated RECORD_HEADER_LEN (length buf))
      else let len = u32_from_le (subslice 0 4 buf) in
      if unat len < RECORD_HEADER_LEN then Inl (BadLength len)
      else if length buf < unat len then Inl (Truncated (unat len) (length buf))
      else let r = take (unat len) buf;
               expected = u32_from_le (subslice 4 8 r);
               found = crc (drop CRC_COVERED_FROM r) in
      if expected \<noteq> found then Inl (BadCrc expected found)
      else let seq = u64_from_le (subslice 8 16 r) in
      case record_kind_from_u8 (r ! 16) of None \<Rightarrow> Inl (BadKind (r ! 16)) | Some kind \<Rightarrow>
      case dtype_from_u8 (r ! 17) of None \<Rightarrow> Inl (BadDtype (r ! 17)) | Some dtype \<Rightarrow>
      let meta_len = unat (u32_from_le (subslice 18 22 r)) in
      if RECORD_HEADER_LEN + meta_len > unat len then Inl (BadLength len)
      else let meta_end = RECORD_HEADER_LEN + meta_len in
      Inr \<lparr> rv_len = len, rv_seq = seq, rv_kind = kind, rv_dtype = dtype,
            rv_meta = subslice RECORD_HEADER_LEN meta_end r, rv_vector = drop meta_end r \<rparr>)"

section \<open>Vectors\<close>

fun encode_vector :: "(f32 \<Rightarrow> u16) \<Rightarrow> f32 list \<Rightarrow> vector_dtype \<Rightarrow> bytes" where
  "encode_vector to_f16 v NoVector = []"
| "encode_vector to_f16 v F16 = concat (map (\<lambda>x. u16_to_le (to_f16 x)) v)"
| "encode_vector to_f16 v F32 = concat (map u32_to_le v)"

text \<open>\<open>chunks_exact\<close>: whole chunks only, the remainder is left out.\<close>

fun chunks_exact :: "nat \<Rightarrow> 'a list \<Rightarrow> 'a list list" where
  "chunks_exact n xs =
     (if n = 0 \<or> length xs < n then [] else take n xs # chunks_exact n (drop n xs))"

fun decode_vector :: "(u16 \<Rightarrow> f32) \<Rightarrow> bytes \<Rightarrow> vector_dtype \<Rightarrow> f32 list" where
  "decode_vector of_f16 bs NoVector = []"
| "decode_vector of_f16 bs F16 = map (\<lambda>c. of_f16 (u16_from_le c)) (chunks_exact 2 bs)"
| "decode_vector of_f16 bs F32 = map u32_from_le (chunks_exact 4 bs)"

declare chunks_exact.simps [simp del]

section \<open>Facts about kinds, lengths and frames\<close>

lemma record_kind_from_to [simp]: "record_kind_from_u8 (record_kind_u8 k) = Some k"
  by (cases k) (simp_all add: record_kind_from_u8_def)

lemma record_kind_to_from: "record_kind_from_u8 b = Some k \<Longrightarrow> record_kind_u8 k = b"
  by (auto simp: record_kind_from_u8_def split: if_splits)

lemma dtype_from_to [simp]: "dtype_from_u8 (dtype_u8 d) = Some d"
  by (cases d) (simp_all add: dtype_from_u8_def)

lemma dtype_to_from: "dtype_from_u8 b = Some d \<Longrightarrow> dtype_u8 d = b"
  by (auto simp: dtype_from_u8_def split: if_splits)

lemma length_subslice: "n \<le> length r \<Longrightarrow> j \<le> n \<Longrightarrow> length (subslice i j r) = j - i"
  by (simp add: subslice_def)

text \<open>The frame with its checksum, and the part of it the checksum covers.\<close>

definition covered :: "u64 \<Rightarrow> record_kind \<Rightarrow> vector_dtype \<Rightarrow> bytes \<Rightarrow> bytes \<Rightarrow> bytes" where
  "covered seq kind dtype meta vector =
     u64_to_le seq @ [record_kind_u8 kind] @ [dtype_u8 dtype]
     @ u32_to_le (word_of_nat (length meta)) @ meta @ vector"

lemma length_covered [len_simps]:
  "length (covered seq kind dtype meta vector) = 14 + length meta + length vector"
  by (simp add: covered_def)

lemma encode_eq:
  "encode crc seq kind dtype meta vector =
     u32_to_le (word_of_nat (22 + length meta + length vector))
     @ u32_to_le (crc (covered seq kind dtype meta vector)) @ covered seq kind dtype meta vector"
proof -
  have d8: "drop 8 (u32_to_le a @ u32_to_le b @ xs) = xs" for a b xs
    by simp
  have t4: "take 4 (u32_to_le a @ xs) = u32_to_le a" for a xs
    by simp
  show ?thesis
    by (simp only: encode_def Let_def RECORD_HEADER_LEN_def CRC_COVERED_FROM_def d8 t4 covered_def)
qed

lemma length_encode [len_simps]:
  "length (encode crc seq kind dtype meta vector) = 22 + length meta + length vector"
  by (simp add: encode_eq len_simps)

lemma encode_nonempty [simp]: "encode crc seq kind dtype meta vector \<noteq> []"
  using length_encode [of crc seq kind dtype meta vector] by (metis list.size(3) add_is_0 zero_neq_numeral)

text \<open>Where the fields of a frame sit, whatever follows it.\<close>

definition fields :: "bytes \<Rightarrow> bytes \<Rightarrow> bytes \<Rightarrow> u8 \<Rightarrow> u8 \<Rightarrow> bytes \<Rightarrow> bytes \<Rightarrow> bytes" where
  "fields l c s k d m rest = l @ c @ s @ [k] @ [d] @ m @ rest"

lemma fields_read:
  assumes "length l = 4" "length c = 4" "length s = 8" "length m = 4"
  shows "subslice 0 4 (fields l c s k d m rest) = l"
    and "subslice 4 8 (fields l c s k d m rest) = c"
    and "subslice 8 16 (fields l c s k d m rest) = s"
    and "fields l c s k d m rest ! 16 = k"
    and "fields l c s k d m rest ! 17 = d"
    and "subslice 18 22 (fields l c s k d m rest) = m"
    and "drop 8 (fields l c s k d m rest) = s @ [k] @ [d] @ m @ rest"
    and "drop 22 (fields l c s k d m rest) = rest"
    and "length (fields l c s k d m rest) = 22 + length rest"
  using assms by (simp_all add: fields_def subslice_def nth_append)

lemma fields_split:
  assumes "22 \<le> length r"
  shows "r = fields (subslice 0 4 r) (subslice 4 8 r) (subslice 8 16 r) (r ! 16) (r ! 17) (subslice 18 22 r) (drop 22 r)"
proof -
  have s: "drop n xs = subslice n (n + k) xs @ drop (n + k) xs" for n k and xs :: bytes
    by (simp add: subslice_def) (metis add.commute append_take_drop_id drop_drop)
  have one: "n < length xs \<Longrightarrow> drop n xs = xs ! n # drop (Suc n) xs" for n and xs :: bytes
    by (rule Cons_nth_drop_Suc [symmetric])
  have "r = subslice 0 4 r @ drop 4 r"
    using s [of 0 r 4] by simp
  also have "drop 4 r = subslice 4 8 r @ drop 8 r"
    using s [of 4 r 4] by simp
  also have "drop 8 r = subslice 8 16 r @ drop 16 r"
    using s [of 8 r 8] by simp
  also have "drop 16 r = r ! 16 # r ! 17 # drop 18 r"
    using one [of 16 r] one [of 17 r] assms by simp
  also have "drop 18 r = subslice 18 22 r @ drop 22 r"
    using s [of 18 r 4] by simp
  finally show ?thesis
    by (simp add: fields_def)
qed

lemma encode_fields:
  "encode crc seq kind dtype meta vector =
     fields (u32_to_le (word_of_nat (22 + length meta + length vector)))
       (u32_to_le (crc (covered seq kind dtype meta vector))) (u64_to_le seq)
       (record_kind_u8 kind) (dtype_u8 dtype) (u32_to_le (word_of_nat (length meta)))
       (meta @ vector)"
  by (simp add: encode_eq covered_def fields_def)

section \<open>Round trips\<close>

text \<open>A frame whose length fits the \<open>u32\<close> field that records it.\<close>

definition encodable :: "bytes \<Rightarrow> bytes \<Rightarrow> bool" where
  "encodable meta vector \<longleftrightarrow> 22 + length meta + length vector < 2 ^ 32"

lemma encodable_unat:
  assumes "encodable meta vector"
  shows "unat (word_of_nat (22 + length meta + length vector) :: u32) = 22 + length meta + length vector"
    and "unat (word_of_nat (length meta) :: u32) = length meta"
  using assms by (intro unat_u32_of_nat; simp add: encodable_def)+

lemma decode_of_fields:
  assumes l: "length l = 4" "length c = 4" "length s = 8" "length m = 4"
    and len: "unat (u32_from_le l) = 22 + length body"
    and kind: "record_kind_from_u8 k = Some kind" and dt: "dtype_from_u8 d = Some dtype"
    and crc: "u32_from_le c = crc (s @ [k] @ [d] @ m @ body)"
    and ml: "unat (u32_from_le m) \<le> length body"
  shows "decode crc (fields l c s k d m body @ rest) =
    Inr \<lparr> rv_len = u32_from_le l, rv_seq = u64_from_le s, rv_kind = kind, rv_dtype = dtype,
          rv_meta = take (unat (u32_from_le m)) body,
          rv_vector = drop (unat (u32_from_le m)) body \<rparr>"
proof -
  let ?f = "fields l c s k d m body"
  have F: "length ?f = 22 + length body"
    by (rule fields_read(9) [OF l])
  have head: "subslice 0 4 (?f @ rest) = l"
    using l by (simp add: subslice_def fields_def)
  have tk: "take (22 + length body) (?f @ rest) = ?f"
    using F by simp
  have body: "subslice 22 (22 + n) ?f = take n body" "drop (22 + n) ?f = drop n body" for n
    using fields_read(8) [OF l, of k d body] by (simp_all add: subslice_def flip: drop_drop add.commute)
  show ?thesis
    using len kind dt crc ml F
    by (simp add: decode_def Let_def RECORD_HEADER_LEN_def CRC_COVERED_FROM_def head tk
        fields_read [OF l] body)
qed

lemma decode_encode:
  assumes "encodable meta vector"
  shows "decode crc (encode crc seq kind dtype meta vector @ rest) =
    Inr \<lparr> rv_len = word_of_nat (22 + length meta + length vector), rv_seq = seq,
          rv_kind = kind, rv_dtype = dtype, rv_meta = meta, rv_vector = vector \<rparr>"
proof -
  have len: "unat (word_of_nat (22 + length meta + length vector) :: u32) = 22 + length (meta @ vector)"
    unfolding length_append add.assoc [symmetric] by (rule encodable_unat(1) [OF assms])
  have ml: "unat (word_of_nat (length meta) :: u32) = length meta"
    by (rule encodable_unat(2) [OF assms])
  show ?thesis
    unfolding encode_fields
    by (subst decode_of_fields [where kind = kind and dtype = dtype])
      (simp_all only: from_to_le length_to_le len ml record_kind_from_to dtype_from_to,
       simp_all add: covered_def)
qed

text \<open>The other direction: a frame that decodes is exactly the encoding of what was read.\<close>

lemma decode_Inr_fields:
  assumes "decode crc buf = Inr v"
  defines "r \<equiv> take (unat (rv_len v)) buf"
  shows "22 \<le> unat (rv_len v)" "unat (rv_len v) \<le> length buf"
    "rv_len v = u32_from_le (subslice 0 4 buf)"
    "u32_from_le (subslice 4 8 r) = crc (drop 8 r)"
    "rv_seq v = u64_from_le (subslice 8 16 r)"
    "record_kind_from_u8 (r ! 16) = Some (rv_kind v)" "dtype_from_u8 (r ! 17) = Some (rv_dtype v)"
    "22 + unat (u32_from_le (subslice 18 22 r)) \<le> unat (rv_len v)"
    "rv_meta v = take (unat (u32_from_le (subslice 18 22 r))) (drop 22 r)"
    "rv_vector v = drop (unat (u32_from_le (subslice 18 22 r))) (drop 22 r)"
proof -
  define len where "len = u32_from_le (subslice 0 4 buf)"
  define r' where "r' = take (unat len) buf"
  define ml where "ml = unat (u32_from_le (subslice 18 22 r'))"
  have sub: "subslice 22 (22 + n) x = take n (drop 22 x)" "drop (22 + n) x = drop n (drop 22 x)"
    for n and x :: bytes
    by (simp_all add: subslice_def add.commute)
  have "22 \<le> unat len \<and> unat len \<le> length buf \<and> u32_from_le (subslice 4 8 r') = crc (drop 8 r') \<and>
    record_kind_from_u8 (r' ! 16) = Some (rv_kind v) \<and> dtype_from_u8 (r' ! 17) = Some (rv_dtype v) \<and>
    22 + ml \<le> unat len \<and> rv_len v = len \<and> rv_seq v = u64_from_le (subslice 8 16 r') \<and>
    rv_meta v = subslice 22 (22 + ml) r' \<and> rv_vector v = drop (22 + ml) r'"
    using assms(1) unfolding decode_def Let_def RECORD_HEADER_LEN_def CRC_COVERED_FROM_def
      len_def [symmetric] r'_def [symmetric] ml_def [symmetric]
    by (clarsimp split: if_split_asm option.split_asm)
  moreover from this have "r' = r"
    by (simp add: r'_def r_def)
  ultimately show "22 \<le> unat (rv_len v)" "unat (rv_len v) \<le> length buf"
    "rv_len v = u32_from_le (subslice 0 4 buf)"
    "u32_from_le (subslice 4 8 r) = crc (drop 8 r)"
    "rv_seq v = u64_from_le (subslice 8 16 r)"
    "record_kind_from_u8 (r ! 16) = Some (rv_kind v)" "dtype_from_u8 (r ! 17) = Some (rv_dtype v)"
    "22 + unat (u32_from_le (subslice 18 22 r)) \<le> unat (rv_len v)"
    "rv_meta v = take (unat (u32_from_le (subslice 18 22 r))) (drop 22 r)"
    "rv_vector v = drop (unat (u32_from_le (subslice 18 22 r))) (drop 22 r)"
    by (simp_all only: sub ml_def len_def)
qed

lemma encode_decode:
  assumes "decode crc buf = Inr v"
  shows "take (unat (rv_len v)) buf =
      encode crc (rv_seq v) (rv_kind v) (rv_dtype v) (rv_meta v) (rv_vector v)"
    and "unat (rv_len v) = 22 + length (rv_meta v) + length (rv_vector v)"
proof -
  define r where "r = take (unat (rv_len v)) buf"
  define m where "m = subslice 18 22 r"
  note D = decode_Inr_fields [OF assms, folded r_def, folded m_def]
  have lr: "length r = unat (rv_len v)"
    using D(2) by (simp add: r_def)
  with D(1) have ge: "22 \<le> length r" by simp
  note sl = length_subslice [OF ge]
  have body: "drop 22 r = rv_meta v @ rv_vector v"
    by (simp only: D(9,10) append_take_drop_id)
  have "length (rv_meta v) = unat (u32_from_le m)"
    using D(8,9) lr by simp
  then have ml: "u32_to_le (word_of_nat (length (rv_meta v))) = m"
    by (simp add: to_from_le_u32 m_def sl)
  show tot: "unat (rv_len v) = 22 + length (rv_meta v) + length (rv_vector v)"
    using arg_cong [OF body, of length] lr ge by simp
  have s04: "subslice 0 4 r = subslice 0 4 buf"
    using D(1) by (simp add: r_def subslice_def take_take min_def)
  have l: "u32_to_le (word_of_nat (22 + length (rv_meta v) + length (rv_vector v))) = subslice 0 4 r"
    unfolding tot [symmetric] of_nat_unat ucast_id D(3) s04 [symmetric]
    by (rule to_from_le_u32) (simp add: sl)
  have split: "r = fields (subslice 0 4 r) (subslice 4 8 r) (subslice 8 16 r) (r ! 16) (r ! 17) m (drop 22 r)"
    unfolding m_def by (rule fields_split [OF ge])
  have d8: "drop 8 r = subslice 8 16 r @ [r ! 16] @ [r ! 17] @ m @ drop 22 r"
    by (subst split, rule fields_read(7)) (simp_all add: sl m_def)
  have cov: "covered (rv_seq v) (rv_kind v) (rv_dtype v) (rv_meta v) (rv_vector v) = drop 8 r"
    unfolding d8 covered_def ml body D(5)
    by (simp add: to_from_le_u64 sl record_kind_to_from [OF D(6)] dtype_to_from [OF D(7)])
  have c: "u32_to_le (crc (drop 8 r)) = subslice 4 8 r"
    unfolding D(4) [symmetric] by (simp add: to_from_le_u32 sl)
  have "r = subslice 0 4 r @ subslice 4 8 r @ drop 8 r"
    by (subst split) (simp only: fields_def d8)
  then show "take (unat (rv_len v)) buf =
      encode crc (rv_seq v) (rv_kind v) (rv_dtype v) (rv_meta v) (rv_vector v)"
    by (simp only: encode_eq cov c l r_def [symmetric])
qed

lemma decode_len:
  assumes "decode crc buf = Inr v"
  shows "22 \<le> unat (rv_len v)" "unat (rv_len v) \<le> length buf"
  using decode_Inr_fields(1,2) [OF assms] by simp_all

text \<open>Every proper prefix of a frame is reported as truncated, never as corrupt.\<close>

lemma decode_prefix_truncated:
  assumes "encodable meta vector" and "n < 22 + length meta + length vector"
  shows "\<exists>need. decode crc (take n (encode crc seq kind dtype meta vector)) = Inl (Truncated need n)"
proof (cases "n < 22")
  case True
  with assms(2) show ?thesis
    by (simp add: decode_def RECORD_HEADER_LEN_def len_simps)
next
  case False
  let ?e = "encode crc seq kind dtype meta vector"
  have "subslice 0 4 (take n ?e) = subslice 0 4 ?e"
    using False by (simp add: subslice_def take_take min_def)
  also have "\<dots> = u32_to_le (word_of_nat (22 + length meta + length vector))"
    by (simp add: encode_eq subslice_def)
  finally have hd: "unat (u32_from_le (subslice 0 4 (take n ?e))) = 22 + length meta + length vector"
    by (simp only: from_to_le encodable_unat(1) [OF assms(1)])
  with False assms(2) show ?thesis
    by (simp add: decode_def RECORD_HEADER_LEN_def len_simps Let_def)
qed

lemma peek_len_encode:
  "peek_len (encode crc seq kind dtype meta vector @ rest) = Some (word_of_nat (22 + length meta + length vector))"
  by (simp add: peek_len_def encode_eq subslice_def)

section \<open>Vector round trips\<close>

lemma chunks_exact_concat:
  assumes "0 < n" "\<forall>x \<in> set xs. length (f x) = n"
  shows "chunks_exact n (concat (map f xs)) = map f xs"
  using assms(2)
proof (induction xs)
  case Nil
  then show ?case using assms(1) by (simp add: chunks_exact.simps)
next
  case (Cons x xs)
  with assms(1) show ?case
    by (simp add: chunks_exact.simps [of n "f x @ concat (map f xs)"])
qed

lemma decode_encode_f32: "decode_vector of16 (encode_vector to16 v F32) F32 = v"
  by (simp add: chunks_exact_concat comp_def)

lemma decode_encode_f16: "decode_vector of16 (encode_vector to16 v F16) F16 = map (\<lambda>x. of16 (to16 x)) v"
  by (simp add: chunks_exact_concat [where f = "\<lambda>x. u16_to_le (to16 x)"] comp_def)

lemma decode_encode_none: "decode_vector of16 (encode_vector to16 v NoVector) NoVector = []"
  by simp

lemma length_encode_vector [len_simps]:
  "length (encode_vector to16 v d) = vector_bytes d (length v)"
  by (cases d) (induction v, simp_all add: vector_bytes_def)+

end
