(* ===== verification/Filesys.thy ===== *)
theory Filesys
  imports Record_Frame
begin

text \<open>
  The error values of the storage crate and the file system it runs on. A shard owns one
  directory, so a file is named by its role (\<open>records-000001.seg\<close>, \<open>manifest\<close>, \<open>meta.snap\<close>
  and their temporary twins). Every call that writes takes the next entry of a schedule of
  faults: the call works, is refused with nothing done, or fails after some bytes. A crash is
  a schedule that refuses everything from some point on, so statements over all schedules
  cover every point at which the process can die. Reads fail on missing or short files only.
\<close>

section \<open>Errors\<close>

datatype entity_kind = ESplit | ESummary

datatype fname =
    SegFile u32
  | ManifestFile
  | ManifestTmp
  | SnapFile
  | SnapTmp
  | IndexFile entity_kind
  | IndexTmp entity_kind
  | IndexStateFile
  | IndexStateTmp
  | OtherFile ustring

text \<open>
  One constructor per error message of the sources; \<open>Io\<close> is any \<open>std::io::Error\<close>, and
  \<open>Panicked\<close> stands for an \<open>expect\<close> or index that panics.
\<close>

datatype error =
    Io
  | Serialize
  | Deserialize
  | BadRecord decode_error
  | CorruptSegment u32 nat decode_error
  | RecordAt u32 nat error
  | RewindFailed error error
  | NewerManifest u32
  | WrongModel u64 u64
  | WrongDimensions u32 nat
  | WrongDtype u8 u8
  | PastEnd u32 u64 u32 nat
  | SegmentNotOpen u32
  | NoEmbedding entity_kind u64
  | EmbeddingDimensions entity_kind u64 nat nat
  | EmbeddingModel entity_kind u64 u64 u64
  | TooShort u64 u32 nat
  | SnapTruncated nat nat nat
  | SnapTooShort
  | SnapChecksum u32 u32
  | SnapMagic
  | SnapVersion u32
  | BadUtf8
  | SegmentExists u32
  | IndexCreate entity_kind
  | IndexLoad entity_kind
  | IndexView entity_kind
  | IndexReserve entity_kind nat
  | IndexAdd entity_kind u64
  | IndexRemove entity_kind u64
  | IndexSearch entity_kind
  | IndexSave entity_kind
  | IndexDimensions entity_kind nat nat u64
  | IndexVectorBytes entity_kind nat nat u64
  | QueryDimensions entity_kind nat nat
  | NothingToIndex u64
  | LogMoved u64 u64
  | Reranking
  | Panicked

section \<open>Files and faults\<close>

datatype fault = NoFault | Refuse | Partial nat

text \<open>
  \<open>files\<close> is what other openers of the directory see (the page cache); \<open>synced\<close> is what
  the last \<open>fsync\<close> of a file put on the device.
\<close>

record world =
  files :: "(fname, bytes) fmap"
  synced :: "(fname, bytes) fmap"
  faults :: "fault list"

type_synonym 'a io = "(error, world, 'a) op"

definition next_fault :: "world \<Rightarrow> fault \<times> world" where
  "next_fault w = (case faults w of [] \<Rightarrow> (NoFault, w) | f # fs \<Rightarrow> (f, w\<lparr>faults := fs\<rparr>))"

definition io :: "'a io \<Rightarrow> (nat \<Rightarrow> world \<Rightarrow> world) \<Rightarrow> 'a io" where
  "io ok part w =
     (case next_fault w of
        (NoFault, w') \<Rightarrow> ok w'
      | (Refuse, w') \<Rightarrow> (Inl Io, w')
      | (Partial k, w') \<Rightarrow> (Inl Io, part k w'))"

definition put_file :: "fname \<Rightarrow> bytes \<Rightarrow> world \<Rightarrow> world" where
  "put_file f bs w = w\<lparr>files := fmupd f bs (files w)\<rparr>"

definition file_of :: "world \<Rightarrow> fname \<Rightarrow> bytes" where
  "file_of w f = (case fmlookup (files w) f of None \<Rightarrow> [] | Some c \<Rightarrow> c)"

text \<open>A step that can only fail: \<open>metadata\<close>, \<open>seek\<close>, \<open>try_clone\<close>, opening a directory.\<close>

definition fs_check :: "unit io" where
  "fs_check = io (\<lambda>w. (Inr (), w)) (\<lambda>_ w. w)"

definition fs_write :: "fname \<Rightarrow> bytes \<Rightarrow> unit io" where
  "fs_write f bs = io (\<lambda>w. (Inr (), put_file f bs w)) (\<lambda>k w. put_file f (take k bs) w)"

definition fs_append :: "fname \<Rightarrow> bytes \<Rightarrow> unit io" where
  "fs_append f bs =
     io (\<lambda>w. (Inr (), put_file f (file_of w f @ bs) w))
        (\<lambda>k w. put_file f (file_of w f @ take k bs) w)"

text \<open>\<open>File::set_len\<close>: cut, or extend with zeros.\<close>

definition fs_set_len :: "fname \<Rightarrow> nat \<Rightarrow> unit io" where
  "fs_set_len f n =
     io (\<lambda>w. (Inr (), put_file f
           (take n (file_of w f) @ replicate (n - length (file_of w f)) 0) w)) (\<lambda>_ w. w)"

definition fs_sync :: "fname \<Rightarrow> unit io" where
  "fs_sync f =
     io (\<lambda>w. case fmlookup (files w) f of
           None \<Rightarrow> (Inl Io, w)
         | Some c \<Rightarrow> (Inr (), w\<lparr>synced := fmupd f c (synced w)\<rparr>)) (\<lambda>_ w. w)"

definition fs_rename :: "fname \<Rightarrow> fname \<Rightarrow> unit io" where
  "fs_rename f g =
     io (\<lambda>w. case fmlookup (files w) f of
           None \<Rightarrow> (Inl Io, w)
         | Some c \<Rightarrow> (Inr (), w\<lparr>files := fmupd g c (fmdrop f (files w))\<rparr>)) (\<lambda>_ w. w)"

definition fs_remove :: "fname \<Rightarrow> unit io" where
  "fs_remove f =
     io (\<lambda>w. if f \<in> fmdom' (files w) then (Inr (), w\<lparr>files := fmdrop f (files w)\<rparr>)
             else (Inl Io, w)) (\<lambda>_ w. w)"

definition fs_create :: "fname \<Rightarrow> unit io" where
  "fs_create f = io (\<lambda>w. (Inr (), put_file f (file_of w f) w)) (\<lambda>_ w. w)"

definition fs_exists :: "world \<Rightarrow> fname \<Rightarrow> bool" where
  "fs_exists w f \<longleftrightarrow> fmlookup (files w) f \<noteq> None"

definition fs_read :: "world \<Rightarrow> fname \<Rightarrow> error + bytes" where
  "fs_read w f = (case fmlookup (files w) f of None \<Rightarrow> Inl Io | Some c \<Rightarrow> Inr c)"

text \<open>
  \<open>fsync_dir\<close> of \<open>lib.rs\<close>: opening the directory may fail, a failed directory
  \<open>fsync\<close> is only logged.
\<close>

definition fsync_dir :: "unit io" where
  "fsync_dir = seqM fs_check (attempt fs_check (\<lambda>_. ret ()))"

text \<open>
  The write, sync, rename, directory-sync sequence shared by the manifest, the meta snapshot
  and the index state file.
\<close>

definition write_atomically :: "fname \<Rightarrow> fname \<Rightarrow> bytes \<Rightarrow> unit io" where
  "write_atomically tmp f bs =
     seqM (fs_write tmp bs) (seqM fs_check (seqM (fs_sync tmp) (seqM (fs_rename tmp f) fsync_dir)))"

section \<open>Facts\<close>

lemma next_fault_state:
  "next_fault w = (f, v) \<Longrightarrow> files v = files w \<and> synced v = synced w"
  by (auto simp: next_fault_def split: list.splits)

lemma next_fault_clean [op_eval]: "faults w = [] \<Longrightarrow> next_fault w = (NoFault, w)"
  by (simp add: next_fault_def)

lemma io_Inr:
  "io ok part w = (Inr x, u) \<longleftrightarrow> (\<exists>v. next_fault w = (NoFault, v) \<and> ok v = (Inr x, u))"
  by (auto simp: io_def split: prod.splits fault.splits)

lemma io_clean: "faults w = [] \<Longrightarrow> io ok part w = ok w"
  by (simp add: io_def next_fault_clean)

lemma files_put_file [simp]: "files (put_file f bs w) = fmupd f bs (files w)"
  and synced_put_file [simp]: "synced (put_file f bs w) = synced w"
  and faults_put_file [simp]: "faults (put_file f bs w) = faults w"
  by (simp_all add: put_file_def)

lemma file_of_put [simp]: "file_of (put_file f bs w) g = (if g = f then bs else file_of w g)"
  by (simp add: file_of_def)

lemma file_of_cong: "files v = files w \<Longrightarrow> file_of v f = file_of w f"
  by (simp add: file_of_def)

text \<open>Successful runs.\<close>

lemma fs_check_Inr [op_inv]:
  "fs_check w = (Inr x, u) \<Longrightarrow> files u = files w \<and> synced u = synced w"
  by (auto simp: fs_check_def io_Inr dest!: next_fault_state)

lemma fs_write_Inr:
  "fs_write f bs w = (Inr x, u) \<Longrightarrow> files u = fmupd f bs (files w) \<and> synced u = synced w"
  by (auto simp: fs_write_def io_Inr dest!: next_fault_state)

lemma fs_append_Inr:
  "fs_append f bs w = (Inr x, u) \<Longrightarrow>
     files u = fmupd f (file_of w f @ bs) (files w) \<and> synced u = synced w"
  by (auto simp: fs_append_def io_Inr dest!: next_fault_state)
    (metis file_of_cong)

lemma fs_set_len_Inr:
  "fs_set_len f n w = (Inr x, u) \<Longrightarrow>
     files u = fmupd f (take n (file_of w f) @ replicate (n - length (file_of w f)) 0) (files w)
     \<and> synced u = synced w"
  by (auto simp: fs_set_len_def io_Inr dest!: next_fault_state)
    (metis file_of_cong)

lemma fs_sync_Inr:
  "fs_sync f w = (Inr x, u) \<Longrightarrow> \<exists>c. fmlookup (files w) f = Some c \<and> files u = files w
     \<and> synced u = fmupd f c (synced w)"
  by (auto simp: fs_sync_def io_Inr dest!: next_fault_state split: option.splits)

lemma fs_rename_Inr:
  "fs_rename f g w = (Inr x, u) \<Longrightarrow> \<exists>c. fmlookup (files w) f = Some c
     \<and> files u = fmupd g c (fmdrop f (files w)) \<and> synced u = synced w"
  by (auto simp: fs_rename_def io_Inr dest!: next_fault_state split: option.splits)

lemma fs_remove_Inr:
  "fs_remove f w = (Inr x, u) \<Longrightarrow> files u = fmdrop f (files w) \<and> synced u = synced w"
  by (auto simp: fs_remove_def io_Inr dest!: next_fault_state split: if_splits)

lemma fs_create_Inr:
  "fs_create f w = (Inr x, u) \<Longrightarrow> files u = fmupd f (file_of w f) (files w) \<and> synced u = synced w"
  by (auto simp: fs_create_def io_Inr dest!: next_fault_state)
    (metis file_of_cong)

lemma fsync_dir_Inr:
  assumes "fsync_dir w = (r, u)"
  shows "files u = files w \<and> synced u = synced w"
  using assms
  by (auto simp: fsync_dir_def seqM_def bindM_def attempt_def ret_def fs_check_def io_def
      split: prod.splits sum.splits fault.splits dest!: next_fault_state)

lemma write_atomically_Inr:
  assumes "write_atomically tmp f bs w = (Inr x, u)" and "tmp \<noteq> f"
  shows "files u = fmupd f bs (fmdrop tmp (files w)) \<and> synced u = fmupd tmp bs (synced w)"
proof -
  from assms(1) obtain a b c d where
    "fs_write tmp bs w = (Inr (), a)" "fs_check a = (Inr (), b)" "fs_sync tmp b = (Inr (), c)"
    "fs_rename tmp f c = (Inr (), d)" "fsync_dir d = (Inr x, u)"
    by (auto simp: write_atomically_def seqM_Inr)
  then show ?thesis
    by (auto dest!: fs_write_Inr fs_check_Inr fs_sync_Inr fs_rename_Inr fsync_dir_Inr
        simp: fmdrop_fmupd)
qed

text \<open>Whatever the faults, the target holds its old content or the new content, complete.\<close>

lemma io_any:
  assumes "io ok part w = (r, u)"
  obtains v where "files v = files w" "synced v = synced w" "ok v = (r, u)"
  | v k where "files v = files w" "synced v = synced w" "r = Inl Io" "u = part k v"
  | "files u = files w" "synced u = synced w" "r = Inl Io"
  using assms
  by (auto simp: io_def split: prod.splits fault.splits dest: next_fault_state)

lemma fs_any_other:
  "fs_check w = (r, u) \<Longrightarrow> fmlookup (files u) g = fmlookup (files w) g"
  "fs_write f bs w = (r1, u) \<Longrightarrow> g \<noteq> f \<Longrightarrow> fmlookup (files u) g = fmlookup (files w) g"
  "fs_sync f w = (r, u) \<Longrightarrow> fmlookup (files u) g = fmlookup (files w) g"
  "fs_append f bs w = (r, u) \<Longrightarrow> g \<noteq> f \<Longrightarrow> fmlookup (files u) g = fmlookup (files w) g"
  by (auto simp: fs_check_def fs_write_def fs_sync_def fs_append_def elim!: io_any
      split: option.splits)

lemma fs_rename_any:
  "fs_rename f g w = (r, u) \<Longrightarrow>
     files u = files w \<or> (\<exists>c. fmlookup (files w) f = Some c \<and> files u = fmupd g c (fmdrop f (files w)))"
  by (auto simp: fs_rename_def elim!: io_any split: option.splits)

lemma seqM_cases:
  assumes "seqM m k s = (r, u)"
  obtains e where "m s = (Inl e, u)" "r = Inl e"
  | t where "m s = (Inr (), t)" "k t = (r, u)"
  using assms by (auto simp: seqM_def bindM_def split: prod.splits sum.splits)

lemma bindM_cases:
  assumes "bindM m k s = (r, u)"
  obtains e where "m s = (Inl e, u)" "r = Inl e"
  | x t where "m s = (Inr x, t)" "k x t = (r, u)"
  using assms by (auto simp: bindM_def split: prod.splits sum.splits)

lemma write_atomically_any:
  assumes "write_atomically tmp f bs w = (r, u)" "tmp \<noteq> f"
  shows "fmlookup (files u) f = fmlookup (files w) f \<or> fmlookup (files u) f = Some bs"
    and "g \<noteq> tmp \<Longrightarrow> g \<noteq> f \<Longrightarrow> fmlookup (files u) g = fmlookup (files w) g"
proof -
  let ?P = "\<lambda>v. (fmlookup (files v) f = fmlookup (files w) f \<or> fmlookup (files v) f = Some bs) \<and>
    (\<forall>g. g \<noteq> tmp \<longrightarrow> g \<noteq> f \<longrightarrow> fmlookup (files v) g = fmlookup (files w) g)"
  have w1: "?P v" if "fs_write tmp bs w = (q, v)" for q v
    using fs_any_other(2) [OF that] assms(2) by simp
  have "?P u"
    using assms(1) unfolding write_atomically_def
  proof (cases rule: seqM_cases)
    case (1 e)
    then show ?thesis using w1 by blast
  next
    case (2 a)
    then have a: "fmlookup (files a) tmp = Some bs" "?P a"
      using fs_write_Inr [OF 2(1)] w1 by simp_all
    from 2(2) show ?thesis
    proof (cases rule: seqM_cases)
      case (1 e)
      then show ?thesis using a fs_any_other(1) [OF 1(1)] by simp
    next
      case (2 b)
      then have b: "fmlookup (files b) tmp = Some bs" "?P b"
        using a fs_check_Inr [OF 2(1)] by simp_all
      from 2(2) show ?thesis
      proof (cases rule: seqM_cases)
        case (1 e)
        then show ?thesis using b fs_any_other(3) [OF 1(1)] by simp
      next
        case (2 c)
        then have c: "fmlookup (files c) tmp = Some bs" "?P c"
          using b fs_sync_Inr [OF 2(1)] by auto
        have d: "?P v" if "fs_rename tmp f c = (q, v)" for q v
          using fs_rename_any [OF that] c assms(2) by auto
        from 2(2) show ?thesis
        proof (cases rule: seqM_cases)
          case (1 e)
          from d [OF 1(1)] show ?thesis .
        next
          case (2 v)
          then have "files u = files v"
            using fsync_dir_Inr by blast
          with d [OF 2(1)] show ?thesis by simp
        qed
      qed
    qed
  qed
  then show "fmlookup (files u) f = fmlookup (files w) f \<or> fmlookup (files u) f = Some bs"
    and "g \<noteq> tmp \<Longrightarrow> g \<noteq> f \<Longrightarrow> fmlookup (files u) g = fmlookup (files w) g"
    by blast+
qed

text \<open>Without faults the sequence succeeds.\<close>

lemma write_atomically_clean:
  assumes "faults w = []"
  shows "\<exists>u. write_atomically t f b w = (Inr (), u) \<and> faults u = []"
  using assms
  by (simp add: write_atomically_def seqM_def bindM_def fs_write_def io_clean fs_check_def fs_sync_def
      fs_rename_def fsync_dir_def attempt_def ret_def)

end
