(* ===== verification/Segment.thy ===== *)
theory Segment
  imports Filesys
begin

text \<open>
  Segments of the log (\<open>embedding-store/src/segment.rs\<close>): the active segment with its
  \<open>BufWriter\<close>, and sealed, memory-mapped segments. The state of an operation on the active
  segment is the segment and the file system.
\<close>

section \<open>State\<close>

text \<open>
  \<open>aseg_buf\<close> is what the \<open>BufWriter\<close> holds back; the file itself is in the file system.
  The write cursor is always at the end of the file: \<open>open\<close> seeks to the end, \<open>set_len\<close>
  is followed by a seek to the new end, and nothing else moves it.
\<close>

record active_segment =
  aseg_id :: u32
  aseg_buf :: bytes
  aseg_len :: u64
  aseg_first_seq :: "u64 option"
  aseg_last_seq :: u64
  aseg_unflushed :: bool

type_synonym seg_state = "active_segment \<times> world"

record sealed_segment =
  sseg_id :: u32
  sseg_map :: bytes

definition BUF_CAPACITY :: nat where
  "BUF_CAPACITY = 8192"

section \<open>The buffered writer\<close>

text \<open>\<open>BufWriter::flush_buf\<close>: after an error the bytes not yet written stay in the buffer.\<close>

definition flush_buf :: "(error, seg_state, unit) op" where
  "flush_buf = (\<lambda>(a, w).
     if aseg_buf a = [] then (Inr (), (a, w))
     else case next_fault w of
       (NoFault, v) \<Rightarrow>
         (Inr (), (a\<lparr>aseg_buf := []\<rparr>,
                   put_file (SegFile (aseg_id a)) (file_of v (SegFile (aseg_id a)) @ aseg_buf a) v))
     | (Refuse, v) \<Rightarrow> (Inl Io, (a, v))
     | (Partial k, v) \<Rightarrow>
         (Inl Io, (a\<lparr>aseg_buf := drop k (aseg_buf a)\<rparr>,
                   put_file (SegFile (aseg_id a))
                     (file_of v (SegFile (aseg_id a)) @ take k (aseg_buf a)) v)))"

definition buffer_push :: "bytes \<Rightarrow> (error, seg_state, unit) op" where
  "buffer_push bs = modM (\<lambda>(a, w). (a\<lparr>aseg_buf := aseg_buf a @ bs\<rparr>, w))"

definition on_world :: "'a io \<Rightarrow> (error, seg_state, 'a) op" where
  "on_world m = zoom snd (\<lambda>w s. (fst s, w)) m"

definition write_all :: "bytes \<Rightarrow> (error, seg_state, unit) op" where
  "write_all bs = (\<lambda>(a, w).
     let spare = BUF_CAPACITY - length (aseg_buf a) in
     if length bs < spare then buffer_push bs (a, w)
     else seqM (if spare < length bs then flush_buf else ret ())
            (if BUF_CAPACITY \<le> length bs
             then on_world (fs_append (SegFile (aseg_id a)) bs)
             else buffer_push bs) (a, w))"

section \<open>Operations of the active segment\<close>

definition seg_open :: "u32 \<Rightarrow> (error, world, active_segment) op" where
  "seg_open i =
     seqM (fs_create (SegFile i))
    (seqM fs_check
    (bindM (getM (\<lambda>w. word_of_nat (length (file_of w (SegFile i))))) (\<lambda>len.
     seqM fs_check
    (seqM fs_check
    (ret \<lparr> aseg_id = i, aseg_buf = [], aseg_len = len, aseg_first_seq = None,
           aseg_last_seq = 0, aseg_unflushed = False \<rparr>)))))"

definition seg_append :: "bytes \<Rightarrow> u64 \<Rightarrow> (error, seg_state, u64) op" where
  "seg_append bs seq =
     bindM (getM (\<lambda>s. aseg_len (fst s))) (\<lambda>offset.
     seqM (write_all bs)
    (seqM (modM (\<lambda>(a, w).
       (a\<lparr> aseg_len := aseg_len a + word_of_nat (length bs),
           aseg_unflushed := True,
           aseg_first_seq := (case aseg_first_seq a of None \<Rightarrow> Some seq | Some s \<Rightarrow> Some s),
           aseg_last_seq := seq \<rparr>, w)))
    (ret offset)))"

definition seg_flush :: "(error, seg_state, unit) op" where
  "seg_flush = (\<lambda>(a, w).
     if aseg_unflushed a
     then seqM flush_buf (modM (\<lambda>(a, w). (a\<lparr>aseg_unflushed := False\<rparr>, w))) (a, w)
     else (Inr (), (a, w)))"

definition seg_sync :: "(error, seg_state, unit) op" where
  "seg_sync = seqM seg_flush (\<lambda>(a, w). on_world (fs_sync (SegFile (aseg_id a))) (a, w))"

definition seg_truncate_to :: "u64 \<Rightarrow> (error, seg_state, unit) op" where
  "seg_truncate_to len =
     seqM seg_flush
    (seqM (\<lambda>(a, w). on_world (fs_set_len (SegFile (aseg_id a)) (unat len)) (a, w))
    (seqM (on_world fs_check)
    (modM (\<lambda>(a, w). (a\<lparr>aseg_len := len\<rparr>, w)))))"

text \<open>\<open>read_exact_at\<close> sees the file, not the buffer, and fails at the end of the file.\<close>

definition seg_read_at :: "active_segment \<Rightarrow> world \<Rightarrow> u64 \<Rightarrow> u32 \<Rightarrow> error + bytes" where
  "seg_read_at a w offset len =
     (let c = file_of w (SegFile (aseg_id a)) in
      if unat offset + unat len \<le> length c
      then Inr (subslice (unat offset) (unat offset + unat len) c) else Inl Io)"

definition seg_read_all :: "active_segment \<Rightarrow> world \<Rightarrow> error + bytes" where
  "seg_read_all a w =
     (let c = file_of w (SegFile (aseg_id a)) in
      if unat (aseg_len a) \<le> length c then Inr (take (unat (aseg_len a)) c) else Inl Io)"

section \<open>Sealed segments\<close>

definition sealed_open :: "u32 \<Rightarrow> world \<Rightarrow> error + sealed_segment" where
  "sealed_open i w =
     bindR (fs_read w (SegFile i)) (\<lambda>c. Inr \<lparr> sseg_id = i, sseg_map = c \<rparr>)"

definition seg_seal :: "(error, seg_state, sealed_segment) op" where
  "seg_seal = seqM seg_sync (\<lambda>(a, w). liftM (sealed_open (aseg_id a) w) (a, w))"

text \<open>
  \<open>seal\<close> consumes the segment: when it fails the writer is dropped, and a dropped \<open>BufWriter\<close>
  tries once more to write what it still holds.
\<close>

definition drop_writer :: "seg_state \<Rightarrow> world" where
  "drop_writer s = snd (snd (flush_buf s))"

definition seal_segment :: "active_segment \<Rightarrow> sealed_segment io" where
  "seal_segment a w = (case seg_seal (a, w) of (Inl e, s) \<Rightarrow> (Inl e, drop_writer s) | (Inr z, s) \<Rightarrow> (Inr z, snd s))"

definition sealed_slice :: "sealed_segment \<Rightarrow> u64 \<Rightarrow> u32 \<Rightarrow> error + bytes" where
  "sealed_slice s offset len =
     (let start = unat offset; stop = start + unat len in
      if length (sseg_map s) < stop
      then Inl (PastEnd (sseg_id s) offset len (length (sseg_map s)))
      else Inr (subslice start stop (sseg_map s)))"

section \<open>The segment as an append-only byte string\<close>

text \<open>
  The abstraction of an active segment: the file followed by what is still buffered. A
  segment is well formed when its length field counts exactly those bytes and nothing is
  buffered behind the back of \<open>aseg_unflushed\<close>.
\<close>

definition seg_content :: "seg_state \<Rightarrow> bytes" where
  "seg_content s = file_of (snd s) (SegFile (aseg_id (fst s))) @ aseg_buf (fst s)"

definition seg_ok :: "seg_state \<Rightarrow> bool" where
  "seg_ok s \<longleftrightarrow>
     fs_exists (snd s) (SegFile (aseg_id (fst s)))
     \<and> length (seg_content s) = unat (aseg_len (fst s))
     \<and> (\<not> aseg_unflushed (fst s) \<longrightarrow> aseg_buf (fst s) = [])"

text \<open>What every operation on the active segment leaves alone.\<close>

definition seg_frame :: "seg_state \<Rightarrow> seg_state \<Rightarrow> bool" where
  "seg_frame s t \<longleftrightarrow>
     aseg_id (fst t) = aseg_id (fst s)
     \<and> (\<forall>f. f \<noteq> SegFile (aseg_id (fst s)) \<longrightarrow> fmlookup (files (snd t)) f = fmlookup (files (snd s)) f)
     \<and> (fs_exists (snd s) (SegFile (aseg_id (fst s))) \<longrightarrow> fs_exists (snd t) (SegFile (aseg_id (fst s))))"

lemma seg_frame_refl [simp]: "seg_frame s s"
  by (simp add: seg_frame_def)

lemma seg_frame_trans: "seg_frame s t \<Longrightarrow> seg_frame t u \<Longrightarrow> seg_frame s u"
  by (auto simp: seg_frame_def)

lemma flush_buf_Inr:
  assumes "flush_buf s = (Inr x, t)"
  shows "seg_content t = seg_content s \<and> aseg_buf (fst t) = [] \<and> seg_frame s t
    \<and> aseg_len (fst t) = aseg_len (fst s) \<and> aseg_unflushed (fst t) = aseg_unflushed (fst s)
    \<and> aseg_first_seq (fst t) = aseg_first_seq (fst s) \<and> aseg_last_seq (fst t) = aseg_last_seq (fst s)"
  using assms
  by (cases s)
    (auto simp: flush_buf_def seg_content_def seg_frame_def fs_exists_def file_of_def
      split: if_splits prod.splits fault.splits dest!: next_fault_state)

lemma flush_buf_any:
  assumes "flush_buf s = (r, t)"
  shows "seg_content t = seg_content s \<and> seg_frame s t
    \<and> aseg_len (fst t) = aseg_len (fst s) \<and> aseg_unflushed (fst t) = aseg_unflushed (fst s)
    \<and> (aseg_buf (fst s) = [] \<longrightarrow> aseg_buf (fst t) = [])"
  using assms
  by (cases s)
    (auto simp: flush_buf_def seg_content_def seg_frame_def fs_exists_def file_of_def
      split: if_splits prod.splits fault.splits dest!: next_fault_state)

lemma no_spare_empty: "BUF_CAPACITY \<le> n \<Longrightarrow> \<not> BUF_CAPACITY - length b < n \<Longrightarrow> b = []"
  by (cases b) (auto simp: BUF_CAPACITY_def)

lemma write_all_Inr:
  assumes "write_all bs s = (Inr x, t)"
  shows "seg_content t = seg_content s @ bs \<and> seg_frame s t
    \<and> aseg_len (fst t) = aseg_len (fst s) \<and> aseg_unflushed (fst t) = aseg_unflushed (fst s)
    \<and> aseg_first_seq (fst t) = aseg_first_seq (fst s) \<and> aseg_last_seq (fst t) = aseg_last_seq (fst s)"
proof -
  obtain a w where s: "s = (a, w)" by fastforce
  have push: "seg_content t = seg_content u @ bs \<and> seg_frame u t
    \<and> aseg_len (fst t) = aseg_len (fst u) \<and> aseg_unflushed (fst t) = aseg_unflushed (fst u)
    \<and> aseg_first_seq (fst t) = aseg_first_seq (fst u) \<and> aseg_last_seq (fst t) = aseg_last_seq (fst u)"
    if "buffer_push bs u = (Inr x, t)" for u
    using that by (cases u) (auto simp: buffer_push_def modM_def seg_content_def seg_frame_def)
  have direct: "seg_content t = seg_content u @ bs \<and> seg_frame u t
    \<and> aseg_len (fst t) = aseg_len (fst u) \<and> aseg_unflushed (fst t) = aseg_unflushed (fst u)
    \<and> aseg_first_seq (fst t) = aseg_first_seq (fst u) \<and> aseg_last_seq (fst t) = aseg_last_seq (fst u)"
    if "on_world (fs_append (SegFile (aseg_id (fst u))) bs) u = (Inr x, t)" "aseg_buf (fst u) = []" for u
    using that
    by (cases u) (auto simp: on_world_def zoom_Inr seg_content_def seg_frame_def fs_exists_def
        file_of_def dest!: fs_append_Inr)
  show ?thesis
  proof (cases "length bs < BUF_CAPACITY - length (aseg_buf a)")
    case True
    then have "buffer_push bs s = (Inr x, t)"
      using assms by (simp add: write_all_def s)
    then show ?thesis by (rule push)
  next
    case False
    with assms obtain u where
      fl: "(if BUF_CAPACITY - length (aseg_buf a) < length bs then flush_buf else ret ()) s = (Inr (), u)"
      and wr: "(if BUF_CAPACITY \<le> length bs then on_world (fs_append (SegFile (aseg_id a)) bs)
             else buffer_push bs) u = (Inr x, t)"
      by (auto simp: write_all_def s Let_def seqM_Inr)
    have u: "seg_content u = seg_content s \<and> seg_frame s u \<and> aseg_len (fst u) = aseg_len (fst s)
      \<and> aseg_unflushed (fst u) = aseg_unflushed (fst s) \<and> aseg_first_seq (fst u) = aseg_first_seq (fst s)
      \<and> aseg_last_seq (fst u) = aseg_last_seq (fst s)"
      using fl flush_buf_Inr [of s "()" u] by (auto simp: ret_Inr split: if_splits)
    have "aseg_buf (fst u) = []" if "BUF_CAPACITY \<le> length bs"
      using fl that flush_buf_Inr [of s "()" u] by (auto simp: ret_Inr s dest: no_spare_empty split: if_splits)
    moreover have "aseg_id (fst u) = aseg_id a"
      using u by (simp add: seg_frame_def s)
    ultimately show ?thesis
      using wr u push [of u] direct [of u] by (auto split: if_splits intro: seg_frame_trans)
  qed
qed

text \<open>A failed write leaves a prefix of the new bytes behind, never anything else.\<close>

lemma write_all_any:
  assumes "write_all bs s = (r, t)"
  shows "(\<exists>k. seg_content t = seg_content s @ take k bs) \<and> seg_frame s t
    \<and> aseg_len (fst t) = aseg_len (fst s) \<and> aseg_unflushed (fst t) = aseg_unflushed (fst s)
    \<and> (r = Inl e \<longrightarrow> aseg_buf (fst s) = [] \<longrightarrow> aseg_buf (fst t) = [])"
proof (cases r)
  case (Inr x)
  with write_all_Inr [of bs s x t] assms have "seg_content t = seg_content s @ take (length bs) bs"
    by simp
  with Inr write_all_Inr [of bs s x t] assms show ?thesis by blast
next
  case (Inl e')
  obtain a w where s: "s = (a, w)" by fastforce
  from assms Inl have "\<not> length bs < BUF_CAPACITY - length (aseg_buf a)"
    by (auto simp: write_all_def s buffer_push_def modM_def)
  with assms have run: "seqM (if BUF_CAPACITY - length (aseg_buf a) < length bs then flush_buf else ret ())
        (if BUF_CAPACITY \<le> length bs then on_world (fs_append (SegFile (aseg_id a)) bs)
         else buffer_push bs) s = (Inl e', t)"
    by (simp add: write_all_def s Let_def Inl)
  from run show ?thesis
  proof (cases rule: seqM_cases)
    case (1 e)
    then have "flush_buf s = (Inl e, t)"
      by (auto simp: ret_def split: if_splits)
    from flush_buf_any [OF this] show ?thesis
      by (intro conjI exI [of _ 0]) auto
  next
    case (2 u)
    then have u: "seg_content u = seg_content s \<and> seg_frame s u \<and> aseg_len (fst u) = aseg_len (fst s)
      \<and> aseg_unflushed (fst u) = aseg_unflushed (fst s)"
      using flush_buf_Inr [of s "()" u] by (auto simp: ret_Inr split: if_splits)
    from 2(2) have big: "BUF_CAPACITY \<le> length bs"
      and ap: "on_world (fs_append (SegFile (aseg_id a)) bs) u = (Inl e', t)"
      by (auto simp: buffer_push_def modM_def split: if_splits)
    have b: "aseg_buf (fst u) = []" "aseg_id (fst u) = aseg_id a"
      using 2(1) big flush_buf_Inr [of s "()" u] u by (auto simp: ret_Inr s seg_frame_def dest: no_spare_empty split: if_splits)
    obtain v where v: "fs_append (SegFile (aseg_id a)) bs (snd u) = (Inl e', v)" "t = (fst u, v)"
      using ap by (auto simp: on_world_def zoom_def split: prod.splits)
    have "files v = files (snd u) \<or>
        (\<exists>k. files v = fmupd (SegFile (aseg_id a)) (file_of (snd u) (SegFile (aseg_id a)) @ take k bs) (files (snd u)))"
      using v(1) by (auto simp: fs_append_def file_of_def elim!: io_any)
    then show ?thesis
    proof
      assume "files v = files (snd u)"
      then have "seg_content t = seg_content u @ take 0 bs" "seg_frame u t"
        by (simp_all add: seg_content_def v(2) seg_frame_def fs_exists_def file_of_def)
      then show ?thesis
        using u b v(2) seg_frame_trans [of s u t] by (auto intro: exI [of _ 0])
    next
      assume "\<exists>k. files v = fmupd (SegFile (aseg_id a)) (file_of (snd u) (SegFile (aseg_id a)) @ take k bs) (files (snd u))"
      then obtain k where k: "files v = fmupd (SegFile (aseg_id a)) (file_of (snd u) (SegFile (aseg_id a)) @ take k bs) (files (snd u))"
        by blast
      then have "seg_content t = seg_content u @ take k bs" "seg_frame u t"
        by (simp_all add: seg_content_def v(2) seg_frame_def fs_exists_def file_of_def b)
      then show ?thesis
        using u b v(2) seg_frame_trans [of s u t] by (auto intro: exI [of _ k])
    qed
  qed
qed

section \<open>What the operations do to the content\<close>

lemma file_of_content: "aseg_buf (fst s) = [] \<Longrightarrow> file_of (snd s) (SegFile (aseg_id (fst s))) = seg_content s"
  by (simp add: seg_content_def)

lemma seg_open_Inr:
  assumes "seg_open i w = (Inr a, v)"
  shows "aseg_id a = i" "aseg_buf a = []" "aseg_len a = word_of_nat (length (file_of w (SegFile i)))"
    "aseg_first_seq a = None" "aseg_last_seq a = 0" "aseg_unflushed a = False"
    "files v = fmupd (SegFile i) (file_of w (SegFile i)) (files w)"
    "seg_content (a, v) = file_of w (SegFile i)"
proof -
  from assms obtain v1 v2 v3 v4 where
    "fs_create (SegFile i) w = (Inr (), v1)" "fs_check v1 = (Inr (), v2)"
    "fs_check v2 = (Inr (), v3)" "fs_check v3 = (Inr (), v)"
    and a: "a = \<lparr> aseg_id = i, aseg_buf = [], aseg_len = word_of_nat (length (file_of v2 (SegFile i))),
         aseg_first_seq = None, aseg_last_seq = 0, aseg_unflushed = False \<rparr>"
    by (auto simp: seg_open_def seqM_Inr bindM_Inr getM_Inr ret_Inr)
  then have f: "files v = fmupd (SegFile i) (file_of w (SegFile i)) (files w)" "files v2 = files v"
    by (auto dest!: fs_create_Inr fs_check_Inr)
  then have "file_of v (SegFile i) = file_of w (SegFile i)" "file_of v2 (SegFile i) = file_of w (SegFile i)"
    by (simp_all add: file_of_def)
  with a f show "aseg_id a = i" "aseg_buf a = []" "aseg_len a = word_of_nat (length (file_of w (SegFile i)))"
    "aseg_first_seq a = None" "aseg_last_seq a = 0" "aseg_unflushed a = False"
    "files v = fmupd (SegFile i) (file_of w (SegFile i)) (files w)"
    "seg_content (a, v) = file_of w (SegFile i)"
    by (simp_all add: seg_content_def)
qed

lemma seg_append_Inr:
  assumes "seg_append bs seq s = (Inr off, t)"
  shows "off = aseg_len (fst s)" "seg_content t = seg_content s @ bs" "seg_frame s t"
    "aseg_len (fst t) = aseg_len (fst s) + word_of_nat (length bs)" "aseg_unflushed (fst t)"
    "aseg_last_seq (fst t) = seq"
    "aseg_first_seq (fst t) = (case aseg_first_seq (fst s) of None \<Rightarrow> Some seq | Some q \<Rightarrow> Some q)"
  using assms
  by (auto simp: seg_append_def seqM_Inr bindM_Inr getM_Inr modM_Inr ret_Inr seg_content_def seg_frame_def
      dest!: write_all_Inr split: prod.splits)

lemma seg_append_ok:
  assumes "seg_append bs seq s = (Inr off, t)" "seg_ok s"
    and "length (seg_content s) + length bs < 2 ^ 64"
  shows "seg_ok t" "unat off = length (seg_content s)"
proof -
  note A = seg_append_Inr [OF assms(1)]
  from assms(2) have len: "unat (aseg_len (fst s)) = length (seg_content s)"
    by (simp add: seg_ok_def)
  with A(1) show "unat off = length (seg_content s)" by simp
  have "unat (aseg_len (fst t)) = length (seg_content t)"
    using assms(3) len by (simp add: A unat_u64_add_of_nat)
  with A(3,5) assms(2) show "seg_ok t"
    by (auto simp: seg_ok_def seg_frame_def)
qed

lemma seg_flush_Inr:
  assumes "seg_flush s = (Inr x, t)" "seg_ok s"
  shows "seg_ok t" "seg_content t = seg_content s" "aseg_buf (fst t) = []" "seg_frame s t"
    "aseg_len (fst t) = aseg_len (fst s)"
    "aseg_first_seq (fst t) = aseg_first_seq (fst s)" "aseg_last_seq (fst t) = aseg_last_seq (fst s)"
  using assms
  by (auto simp: seg_flush_def seqM_Inr modM_Inr seg_ok_def seg_content_def seg_frame_def
      dest!: flush_buf_Inr split: prod.splits if_splits)

lemma seg_flush_any:
  assumes "seg_flush s = (r, t)"
  shows "seg_content t = seg_content s" "seg_frame s t" "aseg_len (fst t) = aseg_len (fst s)"
    "(\<not> aseg_unflushed (fst s) \<longrightarrow> aseg_buf (fst s) = []) \<Longrightarrow> \<not> aseg_unflushed (fst t) \<Longrightarrow> aseg_buf (fst t) = []"
proof -
  have "seg_content t = seg_content s \<and> seg_frame s t \<and> aseg_len (fst t) = aseg_len (fst s) \<and>
    ((\<not> aseg_unflushed (fst s) \<longrightarrow> aseg_buf (fst s) = []) \<longrightarrow> \<not> aseg_unflushed (fst t) \<longrightarrow> aseg_buf (fst t) = [])"
  proof (cases "aseg_unflushed (fst s)")
    case False
    with assms show ?thesis by (cases s) (auto simp: seg_flush_def)
  next
    case True
    with assms have run: "seqM flush_buf (modM (\<lambda>(a, w). (a\<lparr>aseg_unflushed := False\<rparr>, w))) s = (r, t)"
      by (cases s) (simp add: seg_flush_def)
    then show ?thesis
    proof (cases rule: seqM_cases)
      case (1 e)
      then show ?thesis using flush_buf_any [OF 1(1)] True by simp
    next
      case (2 u)
      then have "t = (case u of (a, w) \<Rightarrow> (a\<lparr>aseg_unflushed := False\<rparr>, w))"
        by (simp add: modM_def)
      then show ?thesis
        using flush_buf_Inr [OF 2(1)]
        by (cases u) (auto simp: seg_content_def seg_frame_def)
    qed
  qed
  then show "seg_content t = seg_content s" "seg_frame s t" "aseg_len (fst t) = aseg_len (fst s)"
    "(\<not> aseg_unflushed (fst s) \<longrightarrow> aseg_buf (fst s) = []) \<Longrightarrow> \<not> aseg_unflushed (fst t) \<Longrightarrow> aseg_buf (fst t) = []"
    by blast+
qed

lemma on_world_Inr:
  "on_world m s = (Inr x, t) \<longleftrightarrow> (\<exists>v. m (snd s) = (Inr x, v) \<and> t = (fst s, v))"
  by (auto simp: on_world_def zoom_Inr)

lemma seg_sync_Inr:
  assumes "seg_sync s = (Inr x, t)" "seg_ok s"
  shows "seg_ok t" "seg_content t = seg_content s" "aseg_buf (fst t) = []" "seg_frame s t"
    "aseg_len (fst t) = aseg_len (fst s)"
    "aseg_first_seq (fst t) = aseg_first_seq (fst s)" "aseg_last_seq (fst t) = aseg_last_seq (fst s)"
    "fmlookup (synced (snd t)) (SegFile (aseg_id (fst s))) = Some (seg_content s)"
proof -
  from assms(1) obtain a u where fl: "seg_flush s = (Inr (), (a, u))"
    and sy: "on_world (fs_sync (SegFile (aseg_id a))) (a, u) = (Inr x, t)"
    by (auto simp: seg_sync_def seqM_Inr split: prod.splits)
  note F = seg_flush_Inr [OF fl assms(2)]
  from sy obtain v c where v: "t = (a, v)" "fmlookup (files u) (SegFile (aseg_id a)) = Some c"
    "files v = files u" "synced v = fmupd (SegFile (aseg_id a)) c (synced u)"
    by (auto simp: on_world_Inr dest!: fs_sync_Inr)
  have eq: "seg_content t = seg_content (a, u)"
    using v by (simp add: seg_content_def file_of_def)
  have c: "c = seg_content s"
    using F(2,3) v(2) by (simp add: seg_content_def file_of_def)
  show "seg_ok t" "seg_content t = seg_content s" "aseg_buf (fst t) = []" "seg_frame s t"
    "aseg_len (fst t) = aseg_len (fst s)"
    "aseg_first_seq (fst t) = aseg_first_seq (fst s)" "aseg_last_seq (fst t) = aseg_last_seq (fst s)"
    "fmlookup (synced (snd t)) (SegFile (aseg_id (fst s))) = Some (seg_content s)"
    using F v eq c by (simp_all add: seg_ok_def seg_frame_def fs_exists_def)
qed

text \<open>Truncation to an earlier length restores the earlier content, whatever was appended since.\<close>

lemma seg_truncate_Inr:
  assumes "seg_truncate_to len s = (Inr x, t)"
    and "\<not> aseg_unflushed (fst s) \<longrightarrow> aseg_buf (fst s) = []"
    and "seg_content s = keep @ rest" "unat len = length keep"
  shows "seg_content t = keep" "aseg_buf (fst t) = []" "aseg_len (fst t) = len" "seg_frame s t" "seg_ok t"
    "\<not> aseg_unflushed (fst t)"
proof -
  from assms(1) obtain a w b u c v where
    fl: "seg_flush s = (Inr (), (a, w))"
    and st: "on_world (fs_set_len (SegFile (aseg_id a)) (unat len)) (a, w) = (Inr (), (b, u))"
    and ck: "on_world fs_check (b, u) = (Inr (), (c, v))"
    and t: "t = (c\<lparr>aseg_len := len\<rparr>, v)"
    by (auto simp: seg_truncate_to_def seqM_Inr modM_Inr split: prod.splits)
  have buf: "aseg_buf a = []" "\<not> aseg_unflushed a"
    using fl assms(2) by (cases s; auto simp: seg_flush_def seqM_Inr modM_Inr dest!: flush_buf_Inr
        split: if_splits prod.splits)+
  have F: "seg_content (a, w) = keep @ rest" "seg_frame s (a, w)"
    using seg_flush_any(1,2) [OF fl] assms(3) by simp_all
  have eqs: "b = a" "c = a" "files v = fmupd (SegFile (aseg_id a)) (take (unat len) (file_of w (SegFile (aseg_id a)))
      @ replicate (unat len - length (file_of w (SegFile (aseg_id a)))) 0) (files w)"
    using st ck by (auto simp: on_world_Inr dest!: fs_set_len_Inr fs_check_Inr)
  have "file_of w (SegFile (aseg_id a)) = keep @ rest"
    using F(1) buf by (simp add: seg_content_def)
  then have v: "files v = fmupd (SegFile (aseg_id a)) keep (files w)"
    using eqs(3) assms(4) by simp
  show "seg_content t = keep" "aseg_buf (fst t) = []" "aseg_len (fst t) = len" "seg_frame s t" "seg_ok t"
    "\<not> aseg_unflushed (fst t)"
    using F v buf assms(4) by (auto simp: t eqs seg_content_def file_of_def seg_frame_def seg_ok_def fs_exists_def)
qed

text \<open>What was appended and flushed can be read back at the offset \<open>append\<close> returned.\<close>

lemma seg_read_back:
  assumes "seg_content s = pre @ bs @ post" "aseg_buf (fst s) = []"
    and "unat off = length pre" "unat len = length bs"
  shows "seg_read_at (fst s) (snd s) off len = Inr bs"
  using assms by (simp add: seg_read_at_def Let_def file_of_content subslice_def)

lemma sealed_read_back:
  assumes "sseg_map s = pre @ bs @ post" "unat off = length pre" "unat len = length bs"
  shows "sealed_slice s off len = Inr bs"
  using assms by (simp add: sealed_slice_def Let_def subslice_def)

lemma seg_read_all_ok:
  assumes "seg_ok s" "aseg_buf (fst s) = []"
  shows "seg_read_all (fst s) (snd s) = Inr (seg_content s)"
  using assms by (simp add: seg_read_all_def Let_def file_of_content seg_ok_def)

lemma seal_segment_Inr:
  "seal_segment a w = (Inr z, w') \<longleftrightarrow> (\<exists>b. seg_seal (a, w) = (Inr z, (b, w')))"
  by (auto simp: seal_segment_def split: prod.splits sum.splits)

lemma seg_seal_Inr:
  assumes "seg_seal s = (Inr z, t)" "seg_ok s"
  shows "sseg_id z = aseg_id (fst s)" "sseg_map z = seg_content s" "seg_frame s t"
    "fmlookup (files (snd t)) (SegFile (aseg_id (fst s))) = Some (seg_content s)"
    "seg_content t = seg_content s"
proof -
  from assms(1) obtain a w where sy: "seg_sync s = (Inr (), (a, w))"
    and se: "sealed_open (aseg_id a) w = Inr z" and t: "t = (a, w)"
    by (auto simp: seg_seal_def seqM_Inr liftM_Inr split: prod.splits)
  note S = seg_sync_Inr [OF sy assms(2)]
  have i: "aseg_id a = aseg_id (fst s)" using S(4) by (simp add: seg_frame_def)
  obtain c where c: "fmlookup (files w) (SegFile (aseg_id (fst s))) = Some c"
    "z = \<lparr> sseg_id = aseg_id (fst s), sseg_map = c \<rparr>"
    using se by (auto simp: sealed_open_def bindR_Inr fs_read_def i split: option.splits)
  have "c = seg_content s"
    using S(2,3) c(1) i by (simp add: seg_content_def file_of_def)
  with c S(2,4) t show "sseg_id z = aseg_id (fst s)" "sseg_map z = seg_content s" "seg_frame s t"
    "fmlookup (files (snd t)) (SegFile (aseg_id (fst s))) = Some (seg_content s)"
    "seg_content t = seg_content s"
    by simp_all
qed

end
