(* ===== verification/Manifest.thy ===== *)
theory Manifest
  imports Filesys
begin

text \<open>
  The manifest (\<open>embedding-store/src/manifest.rs\<close>): the record, its constructor, loading
  and atomically replacing the \<open>manifest\<close> file. The MessagePack serialiser is a codec given
  as an argument.
\<close>

section \<open>Serialisation as a parameter\<close>

text \<open>
  A codec is \<open>rmp_serde::to_vec_named\<close> and \<open>rmp_serde::from_slice\<close> at one type; both
  return a \<open>Result\<close>. What the code relies on is that a serialised value reads back.
\<close>

record 'm codec =
  enc :: "'m \<Rightarrow> bytes option"
  dec :: "bytes \<Rightarrow> 'm option"

definition codec_ok :: "'m codec \<Rightarrow> bool" where
  "codec_ok c \<longleftrightarrow> (\<forall>m. \<exists>b. enc c m = Some b \<and> dec c b = Some m)"

definition to_vec :: "'m codec \<Rightarrow> 'm \<Rightarrow> error + bytes" where
  "to_vec c m = (case enc c m of None \<Rightarrow> Inl Serialize | Some b \<Rightarrow> Inr b)"

definition from_slice :: "'m codec \<Rightarrow> bytes \<Rightarrow> error + 'm" where
  "from_slice c b = (case dec c b of None \<Rightarrow> Inl Deserialize | Some m \<Rightarrow> Inr m)"

lemma codec_roundtrip:
  "codec_ok c \<Longrightarrow> to_vec c m = Inr b \<Longrightarrow> from_slice c b = Inr m"
  by (auto simp: codec_ok_def to_vec_def from_slice_def split: option.splits)
    (metis option.inject option.distinct(1))+

lemma codec_to_vec: "codec_ok c \<Longrightarrow> \<exists>b. to_vec c m = Inr b \<and> from_slice c b = Inr m"
proof -
  assume "codec_ok c"
  then obtain b where "enc c m = Some b" "dec c b = Some m"
    unfolding codec_ok_def by blast
  then show ?thesis by (simp add: to_vec_def from_slice_def)
qed

section \<open>The manifest\<close>

definition MANIFEST_VERSION :: u32 where
  "MANIFEST_VERSION = 1"

record segment_info =
  si_id :: u32
  si_bytes :: u64
  si_first_seq :: u64
  si_last_seq :: u64

record manifest =
  mf_version :: u32
  mf_model_id :: u64
  mf_n_embd :: u32
  mf_dtype :: u8
  mf_sealed :: "segment_info list"
  mf_active :: u32
  mf_next_segment_id :: u32
  mf_next_seq :: u64
  mf_snapshot_seq :: u64
  mf_tombstone_bytes :: u64

definition manifest_new :: "u64 \<Rightarrow> u32 \<Rightarrow> u8 \<Rightarrow> manifest" where
  "manifest_new model_id n_embd dtype =
     \<lparr> mf_version = MANIFEST_VERSION, mf_model_id = model_id, mf_n_embd = n_embd,
       mf_dtype = dtype, mf_sealed = [], mf_active = 0, mf_next_segment_id = 1,
       mf_next_seq = 1, mf_snapshot_seq = 0, mf_tombstone_bytes = 0 \<rparr>"

definition manifest_load :: "manifest codec \<Rightarrow> world \<Rightarrow> error + manifest option" where
  "manifest_load c w =
     (if \<not> fs_exists w ManifestFile then Inr None
      else bindR (fs_read w ManifestFile) (\<lambda>b.
           bindR (from_slice c b) (\<lambda>m.
           if MANIFEST_VERSION < mf_version m then Inl (NewerManifest (mf_version m))
           else Inr (Some m))))"

definition manifest_store :: "manifest codec \<Rightarrow> manifest \<Rightarrow> unit io" where
  "manifest_store c m =
     bindM (liftM (to_vec c m)) (\<lambda>b. write_atomically ManifestTmp ManifestFile b)"

definition manifest_sealed_bytes :: "manifest \<Rightarrow> u64" where
  "manifest_sealed_bytes m = sum_list (map si_bytes (mf_sealed m))"

definition manifest_segment_ids :: "manifest \<Rightarrow> u32 list" where
  "manifest_segment_ids m = map si_id (mf_sealed m)"

section \<open>Facts\<close>

text \<open>A world whose manifest file holds \<open>m\<close>.\<close>

definition manifest_on_disk :: "manifest codec \<Rightarrow> world \<Rightarrow> manifest \<Rightarrow> bool" where
  "manifest_on_disk c w m \<longleftrightarrow> manifest_load c w = Inr (Some m)"

lemma manifest_load_cong:
  "fmlookup (files v) ManifestFile = fmlookup (files w) ManifestFile \<Longrightarrow> manifest_load c v = manifest_load c w"
  by (simp add: manifest_load_def fs_exists_def fs_read_def)

lemma manifest_store_Inr:
  assumes "manifest_store c m w = (Inr x, u)"
  obtains b where "to_vec c m = Inr b" "files u = fmupd ManifestFile b (fmdrop ManifestTmp (files w))"
    "synced u = fmupd ManifestTmp b (synced w)"
  using assms by (auto simp: manifest_store_def bindM_Inr liftM_Inr dest!: write_atomically_Inr)

lemma manifest_store_load:
  assumes "manifest_store c m w = (Inr x, u)" "codec_ok c" "mf_version m = MANIFEST_VERSION"
  shows "manifest_load c u = Inr (Some m)"
  using assms(1)
proof (rule manifest_store_Inr)
  fix b assume "to_vec c m = Inr b" "files u = fmupd ManifestFile b (fmdrop ManifestTmp (files w))"
  then show ?thesis
    using codec_roundtrip [OF assms(2)] assms(3)
    by (simp add: manifest_load_def fs_exists_def fs_read_def)
qed

lemma manifest_store_any:
  assumes "manifest_store c m w = (r, u)" "codec_ok c" "mf_version m = MANIFEST_VERSION"
  shows "manifest_load c u = manifest_load c w \<or> manifest_load c u = Inr (Some m)"
    and "g \<noteq> ManifestTmp \<Longrightarrow> g \<noteq> ManifestFile \<Longrightarrow> fmlookup (files u) g = fmlookup (files w) g"
proof -
  obtain b where b: "to_vec c m = Inr b" "from_slice c b = Inr m"
    using codec_to_vec [OF assms(2)] by blast
  then have "write_atomically ManifestTmp ManifestFile b w = (r, u)"
    using assms(1) by (simp add: manifest_store_def bindM_def liftM_def)
  moreover have "ManifestTmp \<noteq> ManifestFile" by simp
  ultimately have W: "fmlookup (files u) ManifestFile = fmlookup (files w) ManifestFile
      \<or> fmlookup (files u) ManifestFile = Some b"
    "\<And>g. g \<noteq> ManifestTmp \<Longrightarrow> g \<noteq> ManifestFile \<Longrightarrow> fmlookup (files u) g = fmlookup (files w) g"
    by (rule write_atomically_any)+
  from W(1) show "manifest_load c u = manifest_load c w \<or> manifest_load c u = Inr (Some m)"
    using b assms(3)
    by (auto simp: manifest_load_def fs_exists_def fs_read_def)
  show "g \<noteq> ManifestTmp \<Longrightarrow> g \<noteq> ManifestFile \<Longrightarrow> fmlookup (files u) g = fmlookup (files w) g"
    by (rule W(2))
qed

lemma manifest_store_clean:
  assumes "codec_ok c" "faults w = []"
  shows "\<exists>u. manifest_store c m w = (Inr (), u) \<and> faults u = []"
proof -
  obtain b where b: "to_vec c m = Inr b"
    using codec_to_vec [OF assms(1)] by blast
  with write_atomically_clean [OF assms(2), of ManifestTmp ManifestFile b] show ?thesis
    by (simp add: manifest_store_def bindM_def liftM_def)
qed

end
