(* ===== verification/Maps.thy ===== *)
theory Maps
  imports Prelude
begin

text \<open>
  The in-memory maps (\<open>embedding-store/src/maps.rs\<close>): where every live entity's record
  is, the membership lists of a document, and the removal of a document with everything it
  owns. A \<open>HashMap\<close> is a finite map.
\<close>

section \<open>Data\<close>

record loc =
  loc_segment :: u32
  loc_offset :: u64
  loc_len :: u32

record doc_entry =
  de_url :: ustring
  de_split_ids :: "u64 list"
  de_summary_ids :: "u64 list option"
  de_extra_summary_ids :: "u64 list"
  de_seq :: u64
  de_loc :: loc

record split_entry =
  se_doc_id :: u64
  se_loc :: loc

record summary_entry =
  ue_doc_id :: u64
  ue_split_id :: u64
  ue_loc :: loc

record maps =
  docs :: "(u64, doc_entry) fmap"
  splits :: "(u64, split_entry) fmap"
  summaries :: "(u64, summary_entry) fmap"

record removed_doc =
  rd_entry :: doc_entry
  rd_split_ids :: "u64 list"
  rd_summary_ids :: "u64 list"
  rd_sealed_bytes :: u64
  rd_active_bytes :: u64

definition empty_maps :: maps where
  "empty_maps = \<lparr> docs = fmempty, splits = fmempty, summaries = fmempty \<rparr>"

definition maps_is_empty :: "maps \<Rightarrow> bool" where
  "maps_is_empty m \<longleftrightarrow> docs m = fmempty \<and> splits m = fmempty \<and> summaries m = fmempty"

definition opt_list :: "'a list option \<Rightarrow> 'a list" where
  "opt_list xs = (case xs of None \<Rightarrow> [] | Some ys \<Rightarrow> ys)"

definition owned_summary_ids :: "doc_entry \<Rightarrow> u64 list" where
  "owned_summary_ids e = opt_list (de_summary_ids e) @ de_extra_summary_ids e"

section \<open>Removing a document\<close>

text \<open>
  The mutable locals of the loop: the map, the freed bytes in sealed segments and in the
  active one, and the ids removed so far.
\<close>

type_synonym 'e removal = "(u64, 'e) fmap \<times> u64 \<times> u64 \<times> u64 list"

definition account :: "u32 \<Rightarrow> loc \<Rightarrow> u64 \<times> u64 \<Rightarrow> u64 \<times> u64" where
  "account active_segment l b =
     (if loc_segment l = active_segment then (fst b, snd b + ucast (loc_len l))
      else (fst b + ucast (loc_len l), snd b))"

fun remove_entries :: "('e \<Rightarrow> loc) \<Rightarrow> u32 \<Rightarrow> u64 list \<Rightarrow> 'e removal \<Rightarrow> 'e removal" where
  "remove_entries lof seg [] st = st"
| "remove_entries lof seg (i # is) (m, sb, ab, removed) =
     (case fmlookup m i of
        None \<Rightarrow> remove_entries lof seg is (m, sb, ab, removed)
      | Some e \<Rightarrow>
          (case account seg (lof e) (sb, ab) of
             (sb', ab') \<Rightarrow> remove_entries lof seg is (fmdrop i m, sb', ab', removed @ [i])))"

definition remove_doc :: "u64 \<Rightarrow> u32 \<Rightarrow> maps \<Rightarrow> (removed_doc \<times> maps) option" where
  "remove_doc doc_id active_segment m =
     (case fmlookup (docs m) doc_id of
        None \<Rightarrow> None
      | Some entry \<Rightarrow>
          (case account active_segment (de_loc entry) (0, 0) of (sb0, ab0) \<Rightarrow>
           case remove_entries se_loc active_segment (de_split_ids entry) (splits m, sb0, ab0, [])
             of (splits', sb1, ab1, removed_splits) \<Rightarrow>
           case remove_entries ue_loc active_segment (owned_summary_ids entry)
                  (summaries m, sb1, ab1, [])
             of (summaries', sb2, ab2, removed_summaries) \<Rightarrow>
           Some (\<lparr> rd_entry = entry, rd_split_ids = removed_splits,
                   rd_summary_ids = removed_summaries, rd_sealed_bytes = sb2,
                   rd_active_bytes = ab2 \<rparr>,
                 \<lparr> docs = fmdrop doc_id (docs m), splits = splits', summaries = summaries' \<rparr>)))"

text \<open>The removal as the callers that ignore the accounting use it.\<close>

definition drop_doc :: "u64 \<Rightarrow> u32 \<Rightarrow> maps \<Rightarrow> maps" where
  "drop_doc d seg m = (case remove_doc d seg m of None \<Rightarrow> m | Some (_, m') \<Rightarrow> m')"

section \<open>What a removal removes\<close>

definition live_ids :: "(u64, 'e) fmap \<Rightarrow> u64 list \<Rightarrow> u64 list" where
  "live_ids m ids = dedup_on (\<lambda>i. i) {} (filter (\<lambda>i. i \<in> fmdom' m) ids)"

definition removed_bytes :: "('e \<Rightarrow> loc) \<Rightarrow> (u64, 'e) fmap \<Rightarrow> u64 list \<Rightarrow> u64" where
  "removed_bytes lof m ids =
     sum_list (map (\<lambda>i. case fmlookup m i of None \<Rightarrow> 0 | Some e \<Rightarrow> ucast (loc_len (lof e))) ids)"

lemma live_ids_Nil [simp]: "live_ids m [] = []"
  by (simp add: live_ids_def)

lemma live_ids_Cons:
  "live_ids m (i # is) =
     (case fmlookup m i of None \<Rightarrow> live_ids m is | Some e \<Rightarrow> i # live_ids (fmdrop i m) is)"
proof -
  have *: "dedup_on (\<lambda>i. i) (insert i A) (filter (\<lambda>j. j \<in> fmdom' m) js)
      = dedup_on (\<lambda>i. i) A (filter (\<lambda>j. j \<in> fmdom' (fmdrop i m)) js)" for js A
  proof (induction js arbitrary: A)
    case (Cons a js)
    from Cons [of "insert a A"] Cons [of A] show ?case
      by (auto simp: insert_commute [of a i])
  qed simp
  show ?thesis
    using * [of "{}" "is"]
    by (auto simp: live_ids_def fmlookup_dom'_iff split: option.splits)
qed

lemma set_live_ids: "set (live_ids m ids) = set ids \<inter> fmdom' m"
proof -
  have "set (dedup_on (\<lambda>i. i) {} xs) = set xs" for xs :: "u64 list"
    using set_dedup_on [of "\<lambda>i. i" "{}" xs] by simp
  then show ?thesis by (auto simp: live_ids_def)
qed

lemma distinct_live_ids: "distinct (live_ids m ids)"
  using distinct_dedup_on [of "\<lambda>i. i"] by (simp add: live_ids_def)

lemma account_sum: "fst (account seg l b) + snd (account seg l b) = fst b + snd b + ucast (loc_len l)"
  by (simp add: account_def)

lemma remove_entries_spec:
  "remove_entries lof seg ids (m, sb, ab, rem) = (m', sb', ab', rem') \<Longrightarrow>
     m' = fmremoves ids m \<and> rem' = rem @ live_ids m ids
     \<and> sb' + ab' = sb + ab + removed_bytes lof m (live_ids m ids)"
proof (induction ids arbitrary: m sb ab rem)
  case Nil
  then show ?case by (simp add: fmremoves_def removed_bytes_def)
next
  case (Cons i ids)
  show ?case
  proof (cases "fmlookup m i")
    case None
    then have "fmdrop i m = m"
      by (intro fmap_ext) auto
    with None Cons show ?thesis
      by (auto simp: live_ids_Cons fmremoves_def)
  next
    case (Some e)
    obtain sb1 ab1 where a: "account seg (lof e) (sb, ab) = (sb1, ab1)" by fastforce
    with Some Cons.prems have
      "remove_entries lof seg ids (fmdrop i m, sb1, ab1, rem @ [i]) = (m', sb', ab', rem')"
      by simp
    note IH = Cons.IH [OF this]
    have s: "sb1 + ab1 = sb + ab + ucast (loc_len (lof e))"
      using account_sum [of seg "lof e" "(sb, ab)"] by (simp add: a)
    have "i \<notin> set (live_ids (fmdrop i m) ids)"
      by (simp add: set_live_ids)
    then have "removed_bytes lof (fmdrop i m) (live_ids (fmdrop i m) ids)
        = removed_bytes lof m (live_ids (fmdrop i m) ids)"
      unfolding removed_bytes_def by (intro arg_cong [of _ _ sum_list] map_cong) auto
    with IH s Some show ?thesis
      by (auto simp: live_ids_Cons fmremoves_def removed_bytes_def)
  qed
qed

lemma remove_doc_spec:
  assumes "fmlookup (docs m) d = Some e"
  obtains r m' where "remove_doc d seg m = Some (r, m')"
    "rd_entry r = e"
    "rd_split_ids r = live_ids (splits m) (de_split_ids e)"
    "rd_summary_ids r = live_ids (summaries m) (owned_summary_ids e)"
    "m' = \<lparr> docs = fmdrop d (docs m), splits = fmremoves (de_split_ids e) (splits m),
            summaries = fmremoves (owned_summary_ids e) (summaries m) \<rparr>"
    "rd_sealed_bytes r + rd_active_bytes r = ucast (loc_len (de_loc e))
       + removed_bytes se_loc (splits m) (live_ids (splits m) (de_split_ids e))
       + removed_bytes ue_loc (summaries m) (live_ids (summaries m) (owned_summary_ids e))"
proof -
  obtain sb0 ab0 where a: "account seg (de_loc e) (0, 0) = (sb0, ab0)" by fastforce
  obtain sp sb1 ab1 rs where s: "remove_entries se_loc seg (de_split_ids e) (splits m, sb0, ab0, [])
      = (sp, sb1, ab1, rs)" by (metis prod_cases4)
  obtain su sb2 ab2 ru where u: "remove_entries ue_loc seg (owned_summary_ids e) (summaries m, sb1, ab1, [])
      = (su, sb2, ab2, ru)" by (metis prod_cases4)
  have "sb0 + ab0 = ucast (loc_len (de_loc e))"
    using account_sum [of seg "de_loc e" "(0, 0)"] by (simp add: a)
  then have sum: "sb2 + ab2 = ucast (loc_len (de_loc e))
       + removed_bytes se_loc (splits m) (live_ids (splits m) (de_split_ids e))
       + removed_bytes ue_loc (summaries m) (live_ids (summaries m) (owned_summary_ids e))"
    using remove_entries_spec [OF s] remove_entries_spec [OF u] by argo
  show thesis
  proof (rule that)
    show "remove_doc d seg m = Some (\<lparr> rd_entry = e, rd_split_ids = rs, rd_summary_ids = ru,
        rd_sealed_bytes = sb2, rd_active_bytes = ab2 \<rparr>,
        \<lparr> docs = fmdrop d (docs m), splits = sp, summaries = su \<rparr>)"
      using assms by (simp add: remove_doc_def a s u)
  qed (use remove_entries_spec [OF s] remove_entries_spec [OF u] sum in simp_all)
qed

lemma remove_doc_None: "remove_doc d seg m = None \<longleftrightarrow> fmlookup (docs m) d = None"
  by (auto simp: remove_doc_def split: option.splits prod.splits)

lemma drop_doc_eq:
  "drop_doc d seg m =
     (case fmlookup (docs m) d of
        None \<Rightarrow> m
      | Some e \<Rightarrow> \<lparr> docs = fmdrop d (docs m), splits = fmremoves (de_split_ids e) (splits m),
                    summaries = fmremoves (owned_summary_ids e) (summaries m) \<rparr>)"
proof (cases "fmlookup (docs m) d")
  case None
  then show ?thesis by (simp add: drop_doc_def remove_doc_def)
next
  case (Some e)
  then show ?thesis
    by (rule remove_doc_spec [of m d e seg]) (simp add: drop_doc_def Some)
qed

lemma drop_doc_seg: "drop_doc d seg m = drop_doc d seg' m"
  by (simp add: drop_doc_eq)

lemma drop_doc_absent [simp]: "fmlookup (docs m) d = None \<Longrightarrow> drop_doc d seg m = m"
  by (simp add: drop_doc_eq)

lemma drop_doc_docs [simp]: "docs (drop_doc d seg m) = fmdrop d (docs m)"
proof (cases "fmlookup (docs m) d")
  case None
  then have "fmdrop d (docs m) = docs m"
    by (intro fmap_ext) auto
  with None show ?thesis by simp
qed (simp add: drop_doc_eq)

section \<open>Ownership\<close>

text \<open>
  The membership lists and the entity maps agree: an entity in a map is listed by the
  document it names, and everything a document lists is in the maps under that document.
\<close>

definition owns :: "maps \<Rightarrow> bool" where
  "owns m \<longleftrightarrow>
     (\<forall>s e. fmlookup (splits m) s = Some e \<longrightarrow>
        (\<exists>de. fmlookup (docs m) (se_doc_id e) = Some de \<and> s \<in> set (de_split_ids de)))
     \<and> (\<forall>s e. fmlookup (summaries m) s = Some e \<longrightarrow>
        (\<exists>de. fmlookup (docs m) (ue_doc_id e) = Some de \<and> s \<in> set (owned_summary_ids de)))
     \<and> (\<forall>d de. fmlookup (docs m) d = Some de \<longrightarrow>
        (\<forall>s \<in> set (de_split_ids de). \<exists>e. fmlookup (splits m) s = Some e \<and> se_doc_id e = d)
        \<and> (\<forall>s \<in> set (owned_summary_ids de). \<exists>e. fmlookup (summaries m) s = Some e \<and> ue_doc_id e = d))"

lemma owns_empty: "owns empty_maps"
  by (simp add: owns_def empty_maps_def)

lemma owns_drop_doc:
  assumes "owns m"
  shows "owns (drop_doc d seg m)"
proof (cases "fmlookup (docs m) d")
  case None
  with assms show ?thesis by simp
next
  case (Some e)
  then show ?thesis
    using assms unfolding owns_def drop_doc_eq
    by (auto simp: fmlookup_fmremoves) (metis option.sel)+
qed

end
