(* ===== verification/Meta_Snapshot.thy ===== *)
theory Meta_Snapshot
  imports Filesys Maps
begin

text \<open>
  The meta snapshot (\<open>embedding-store/src/meta_snapshot.rs\<close>): the writer and reader of
  \<open>meta.snap\<close>, its checks, and the file operations. The order in which the writer walks
  a \<open>HashMap\<close> is an argument; the reader is an operation on a buffer and a position.
\<close>

section \<open>UTF-8\<close>

text \<open>\<open>String::from_utf8\<close> accepts exactly the well-formed sequences of the Unicode table.\<close>

definition in_range :: "nat \<Rightarrow> nat \<Rightarrow> u8 \<Rightarrow> bool" where
  "in_range lo hi b \<longleftrightarrow> lo \<le> unat b \<and> unat b \<le> hi"

definition utf8_tail :: "u8 \<Rightarrow> (u8 \<Rightarrow> bool) list option" where
  "utf8_tail b =
     (let cont = in_range 128 191 in
      if in_range 0 127 b then Some []
      else if in_range 194 223 b then Some [cont]
      else if in_range 224 224 b then Some [in_range 160 191, cont]
      else if in_range 225 236 b \<or> in_range 238 239 b then Some [cont, cont]
      else if in_range 237 237 b then Some [in_range 128 159, cont]
      else if in_range 240 240 b then Some [in_range 144 191, cont, cont]
      else if in_range 241 243 b then Some [cont, cont, cont]
      else if in_range 244 244 b then Some [in_range 128 143, cont, cont]
      else None)"

function utf8_valid :: "bytes \<Rightarrow> bool" where
  "utf8_valid [] = True"
| "utf8_valid (b # bs) =
     (case utf8_tail b of
        None \<Rightarrow> False
      | Some ps \<Rightarrow> length ps \<le> length bs \<and> list_all2 (\<lambda>p c. p c) ps (take (length ps) bs)
                  \<and> utf8_valid (drop (length ps) bs))"
  by pat_completeness auto
termination by (relation "measure length") auto

section \<open>Writer\<close>

definition META_MAGIC :: u32 where
  "META_MAGIC = 0x4D455441"

definition META_VERSION :: u32 where
  "META_VERSION = 1"

definition w_loc :: "loc \<Rightarrow> bytes" where
  "w_loc l = u32_to_le (loc_segment l) @ u64_to_le (loc_offset l) @ u32_to_le (loc_len l)"

definition w_ids :: "u64 list \<Rightarrow> bytes" where
  "w_ids ids = u32_to_le (word_of_nat (length ids)) @ concat (map u64_to_le ids)"

definition w_ids_opt :: "u64 list option \<Rightarrow> bytes" where
  "w_ids_opt ids = (case ids of None \<Rightarrow> u32_to_le (- 1) | Some ids \<Rightarrow> w_ids ids)"

definition w_string :: "ustring \<Rightarrow> bytes" where
  "w_string s = u32_to_le (word_of_nat (length s)) @ s"

definition w_doc :: "u64 \<Rightarrow> doc_entry \<Rightarrow> bytes" where
  "w_doc i e = u64_to_le i @ u64_to_le (de_seq e) @ w_loc (de_loc e) @ w_string (de_url e)
     @ w_ids (de_split_ids e) @ w_ids_opt (de_summary_ids e) @ w_ids (de_extra_summary_ids e)"

definition w_split :: "u64 \<Rightarrow> split_entry \<Rightarrow> bytes" where
  "w_split i e = u64_to_le i @ u64_to_le (se_doc_id e) @ w_loc (se_loc e)"

definition w_summary :: "u64 \<Rightarrow> summary_entry \<Rightarrow> bytes" where
  "w_summary i e = u64_to_le i @ u64_to_le (ue_doc_id e) @ u64_to_le (ue_split_id e) @ w_loc (ue_loc e)"

definition w_map :: "(u64 fset \<Rightarrow> u64 list) \<Rightarrow> (u64 \<Rightarrow> 'e \<Rightarrow> bytes) \<Rightarrow> (u64, 'e) fmap \<Rightarrow> bytes" where
  "w_map order f m =
     concat (map (\<lambda>i. case fmlookup m i of None \<Rightarrow> [] | Some e \<Rightarrow> f i e) (order (fmdom m)))"

definition snapshot_body :: "(u64 fset \<Rightarrow> u64 list) \<Rightarrow> maps \<Rightarrow> u64 \<Rightarrow> bytes" where
  "snapshot_body order m seq =
     u32_to_le META_MAGIC @ u32_to_le META_VERSION @ u64_to_le seq
     @ u64_to_le (word_of_nat (fcard (fmdom (docs m))))
     @ u64_to_le (word_of_nat (fcard (fmdom (splits m))))
     @ u64_to_le (word_of_nat (fcard (fmdom (summaries m))))
     @ w_map order w_doc (docs m) @ w_map order w_split (splits m)
     @ w_map order w_summary (summaries m)"

definition snapshot_bytes :: "(bytes \<Rightarrow> u32) \<Rightarrow> (u64 fset \<Rightarrow> u64 list) \<Rightarrow> maps \<Rightarrow> u64 \<Rightarrow> bytes" where
  "snapshot_bytes crc order m seq =
     snapshot_body order m seq @ u32_to_le (crc (snapshot_body order m seq))"

section \<open>Reader\<close>

record reader =
  r_buf :: bytes
  r_pos :: nat

type_synonym 'a parser = "(error, reader, 'a) op"

definition r_take :: "nat \<Rightarrow> bytes parser" where
  "r_take n r =
     (if length (r_buf r) < r_pos r + n
      then (Inl (SnapTruncated n (r_pos r) (length (r_buf r))), r)
      else (Inr (subslice (r_pos r) (r_pos r + n) (r_buf r)), r\<lparr>r_pos := r_pos r + n\<rparr>))"

definition r_u32 :: "u32 parser" where
  "r_u32 = bindM (r_take 4) (\<lambda>b. ret (u32_from_le b))"

definition r_u64 :: "u64 parser" where
  "r_u64 = bindM (r_take 8) (\<lambda>b. ret (u64_from_le b))"

definition r_loc :: "loc parser" where
  "r_loc = bindM r_u32 (\<lambda>s. bindM r_u64 (\<lambda>p. bindM r_u32 (\<lambda>n.
     ret \<lparr> loc_segment = s, loc_offset = p, loc_len = n \<rparr>)))"

definition r_many :: "nat \<Rightarrow> 'a parser \<Rightarrow> 'a list parser" where
  "r_many n p = mapM (\<lambda>_. p) [0..<n]"

definition r_ids :: "u64 list parser" where
  "r_ids = bindM r_u32 (\<lambda>n. r_many (unat n) r_u64)"

definition r_ids_opt :: "u64 list option parser" where
  "r_ids_opt = bindM r_u32 (\<lambda>n.
     if n = - 1 then ret None else bindM (r_many (unat n) r_u64) (\<lambda>out. ret (Some out)))"

definition r_string :: "ustring parser" where
  "r_string = bindM r_u32 (\<lambda>n. bindM (r_take (unat n)) (\<lambda>b.
     if utf8_valid b then ret b else fail BadUtf8))"

definition r_doc :: "(u64 \<times> doc_entry) parser" where
  "r_doc =
     bindM r_u64 (\<lambda>doc_id. bindM r_u64 (\<lambda>seq. bindM r_loc (\<lambda>l. bindM r_string (\<lambda>url.
     bindM r_ids (\<lambda>split_ids. bindM r_ids_opt (\<lambda>summary_ids. bindM r_ids (\<lambda>extra.
     ret (doc_id, \<lparr> de_url = url, de_split_ids = split_ids, de_summary_ids = summary_ids,
                    de_extra_summary_ids = extra, de_seq = seq, de_loc = l \<rparr>))))))))"

definition r_split :: "(u64 \<times> split_entry) parser" where
  "r_split = bindM r_u64 (\<lambda>i. bindM r_u64 (\<lambda>d. bindM r_loc (\<lambda>l.
     ret (i, \<lparr> se_doc_id = d, se_loc = l \<rparr>))))"

definition r_summary :: "(u64 \<times> summary_entry) parser" where
  "r_summary = bindM r_u64 (\<lambda>i. bindM r_u64 (\<lambda>d. bindM r_u64 (\<lambda>s. bindM r_loc (\<lambda>l.
     ret (i, \<lparr> ue_doc_id = d, ue_split_id = s, ue_loc = l \<rparr>)))))"

definition r_snapshot :: "(maps \<times> u64) parser" where
  "r_snapshot =
     bindM r_u32 (\<lambda>magic. if magic \<noteq> META_MAGIC then fail SnapMagic else
     bindM r_u32 (\<lambda>version. if version \<noteq> META_VERSION then fail (SnapVersion version) else
     bindM r_u64 (\<lambda>seq. bindM r_u64 (\<lambda>n_docs. bindM r_u64 (\<lambda>n_splits. bindM r_u64 (\<lambda>n_sums.
     bindM (r_many (unat n_docs) r_doc) (\<lambda>ds.
     bindM (r_many (unat n_splits) r_split) (\<lambda>ss.
     bindM (r_many (unat n_sums) r_summary) (\<lambda>us.
     ret (\<lparr> docs = fminserts fst snd ds fmempty, splits = fminserts fst snd ss fmempty,
            summaries = fminserts fst snd us fmempty \<rparr>, seq))))))))))"

definition snapshot_parse :: "(bytes \<Rightarrow> u32) \<Rightarrow> bytes \<Rightarrow> error + (maps \<times> u64)" where
  "snapshot_parse crc bs =
     (if length bs < 4 then Inl SnapTooShort
      else let body = take (length bs - 4) bs;
               expected = u32_from_le (drop (length bs - 4) bs);
               found = crc body in
      if expected \<noteq> found then Inl (SnapChecksum expected found)
      else fst (r_snapshot \<lparr> r_buf = body, r_pos = 0 \<rparr>))"

section \<open>The file\<close>

definition snapshot_store :: "(bytes \<Rightarrow> u32) \<Rightarrow> (u64 fset \<Rightarrow> u64 list) \<Rightarrow> maps \<Rightarrow> u64 \<Rightarrow> unit io" where
  "snapshot_store crc order m seq =
     write_atomically SnapTmp SnapFile (snapshot_bytes crc order m seq)"

definition snapshot_load :: "(bytes \<Rightarrow> u32) \<Rightarrow> world \<Rightarrow> error + (maps \<times> u64) option" where
  "snapshot_load crc w =
     (if \<not> fs_exists w SnapFile then Inr None
      else bindR (fs_read w SnapFile) (\<lambda>b. bindR (snapshot_parse crc b) (\<lambda>r. Inr (Some r))))"

definition snapshot_remove :: "unit io" where
  "snapshot_remove = (\<lambda>w. if fs_exists w SnapFile then fs_remove SnapFile w else (Inr (), w))"

section \<open>Reading back what was written\<close>

text \<open>\<open>reads p bs x\<close>: wherever \<open>bs\<close> sits in the buffer, \<open>p\<close> consumes it and returns \<open>x\<close>.\<close>

definition reads :: "'a parser \<Rightarrow> bytes \<Rightarrow> 'a \<Rightarrow> bool" where
  "reads p bs x \<longleftrightarrow> (\<forall>pre rest. p \<lparr> r_buf = pre @ bs @ rest, r_pos = length pre \<rparr>
     = (Inr x, \<lparr> r_buf = pre @ bs @ rest, r_pos = length pre + length bs \<rparr>))"

lemma reads_ret [intro, simp]: "reads (ret x) [] x"
  by (simp add: reads_def ret_def)

lemma reads_bind [intro]:
  assumes "reads p bs x" "reads (f x) cs y"
  shows "reads (bindM p f) (bs @ cs) y"
  unfolding reads_def
proof (intro allI)
  fix pre rest
  have "p \<lparr> r_buf = pre @ bs @ (cs @ rest), r_pos = length pre \<rparr>
     = (Inr x, \<lparr> r_buf = pre @ bs @ (cs @ rest), r_pos = length pre + length bs \<rparr>)"
    using assms(1) unfolding reads_def by blast
  moreover have "f x \<lparr> r_buf = (pre @ bs) @ cs @ rest, r_pos = length (pre @ bs) \<rparr>
     = (Inr y, \<lparr> r_buf = (pre @ bs) @ cs @ rest, r_pos = length (pre @ bs) + length cs \<rparr>)"
    using assms(2) unfolding reads_def by blast
  ultimately show "bindM p f \<lparr> r_buf = pre @ (bs @ cs) @ rest, r_pos = length pre \<rparr>
     = (Inr y, \<lparr> r_buf = pre @ (bs @ cs) @ rest, r_pos = length pre + length (bs @ cs) \<rparr>)"
    by (simp add: bindM_def add.assoc)
qed

lemma reads_bind_ret: "reads p bs x \<Longrightarrow> reads (bindM p (\<lambda>x. ret (f x))) bs (f x)"
  using reads_bind [of p bs x "\<lambda>x. ret (f x)" "[]" "f x"] by simp

lemma reads_take: "reads (r_take (length bs)) bs bs"
  by (simp add: reads_def r_take_def subslice_def)

lemma reads_u32: "reads r_u32 (u32_to_le v) v"
  using reads_bind_ret [OF reads_take [of "u32_to_le v"], of u32_from_le] by (simp add: r_u32_def)

lemma reads_u64: "reads r_u64 (u64_to_le v) v"
  using reads_bind_ret [OF reads_take [of "u64_to_le v"], of u64_from_le] by (simp add: r_u64_def)

lemma reads_many:
  assumes "\<And>x. x \<in> set xs \<Longrightarrow> reads p (f x) (g x)"
  shows "reads (r_many (length xs) p) (concat (map f xs)) (map g xs)"
proof -
  have "reads (mapM (\<lambda>_. p) ns) (concat (map f xs)) (map g xs)" if "length ns = length xs" for ns :: "nat list"
    using that assms
  proof (induction xs arbitrary: ns)
    case (Cons x xs)
    then obtain n ms where ns: "ns = n # ms" "length ms = length xs"
      by (cases ns) auto
    have "reads (bindM (mapM (\<lambda>_. p) ms) (\<lambda>ys. ret (g x # ys))) (concat (map f xs)) (g x # map g xs)"
      using Cons.IH [OF ns(2)] Cons.prems(2) by (intro reads_bind_ret) simp
    with Cons.prems(2) [of x] show ?case
      by (simp add: ns reads_bind)
  qed simp
  then show ?thesis by (simp add: r_many_def)
qed

text \<open>One step of a reader: the first field is read, the rest remains.\<close>

lemma reads_step:
  "reads p bs x \<Longrightarrow> reads (f x) cs y \<Longrightarrow> reads (bindM p f) (bs @ cs) y"
  by (rule reads_bind)

lemma reads_last: "reads p bs x \<Longrightarrow> f x = ret y \<Longrightarrow> reads (bindM p f) bs y"
  using reads_bind [of p bs x f "[]" y] by simp

lemma reads_loc: "reads r_loc (w_loc l) l"
  unfolding r_loc_def w_loc_def
  by (rule reads_step [OF reads_u32] reads_step [OF reads_u64] reads_last [OF reads_u32])+ (cases l; simp)

lemma reads_ids:
  assumes "length ids < 2 ^ 32"
  shows "reads r_ids (w_ids ids) ids"
proof -
  have "reads (r_many (length ids) r_u64) (concat (map u64_to_le ids)) (map (\<lambda>i. i) ids)"
    by (rule reads_many) (rule reads_u64)
  then show ?thesis
    unfolding r_ids_def w_ids_def using assms
    by (intro reads_bind [OF reads_u32]) (simp add: unat_u32_of_nat)
qed

lemma reads_ids_opt:
  assumes "length (opt_list ids) < 2 ^ 32 - 1"
  shows "reads r_ids_opt (w_ids_opt ids) ids"
proof (cases ids)
  case None
  then show ?thesis
    unfolding r_ids_opt_def w_ids_opt_def
    by (simp add: reads_last [OF reads_u32])
next
  case (Some xs)
  with assms have l: "length xs < 2 ^ 32 - 1" by (simp add: opt_list_def)
  then have u: "unat (word_of_nat (length xs) :: u32) = length xs"
    by (simp add: unat_u32_of_nat)
  have ne: "(word_of_nat (length xs) :: u32) \<noteq> - 1"
  proof
    assume "(word_of_nat (length xs) :: u32) = - 1"
    then have "unat (word_of_nat (length xs) :: u32) = unat (- 1 :: u32)" by simp
    with u l show False by (simp add: unsigned_minus_1_eq_mask mask_eq_exp_minus_1)
  qed
  have "reads (r_many (length xs) r_u64) (concat (map u64_to_le xs)) (map (\<lambda>i. i) xs)"
    by (rule reads_many) (rule reads_u64)
  then have "reads (bindM (r_many (length xs) r_u64) (\<lambda>out. ret (Some out)))
      (concat (map u64_to_le xs)) (Some xs)"
    using reads_bind_ret [of "r_many (length xs) r_u64" _ xs Some] by simp
  with u ne show ?thesis
    unfolding r_ids_opt_def w_ids_opt_def Some option.case w_ids_def
    by (intro reads_bind [OF reads_u32]) simp
qed

lemma reads_string:
  assumes "length s < 2 ^ 32" "utf8_valid s"
  shows "reads r_string (w_string s) s"
proof -
  have "reads (bindM (r_take (length s)) (\<lambda>b. if utf8_valid b then ret b else fail BadUtf8)) (s @ []) s"
    using assms(2) by (intro reads_bind [OF reads_take]) simp
  with assms(1) show ?thesis
    unfolding r_string_def w_string_def
    by (intro reads_bind [OF reads_u32]) (simp add: unat_u32_of_nat)
qed

text \<open>Entries whose lists and url fit their \<open>u32\<close> length fields.\<close>

definition doc_entry_fits :: "doc_entry \<Rightarrow> bool" where
  "doc_entry_fits e \<longleftrightarrow>
     length (de_url e) < 2 ^ 32 \<and> utf8_valid (de_url e) \<and> length (de_split_ids e) < 2 ^ 32
     \<and> length (opt_list (de_summary_ids e)) < 2 ^ 32 - 1 \<and> length (de_extra_summary_ids e) < 2 ^ 32"

lemma reads_doc:
  assumes "doc_entry_fits e"
  shows "reads r_doc (w_doc i e) (i, e)"
proof -
  note f = assms [unfolded doc_entry_fits_def]
  have s: "reads r_string (w_string (de_url e)) (de_url e)"
    and d: "reads r_ids (w_ids (de_split_ids e)) (de_split_ids e)"
    and u: "reads r_ids_opt (w_ids_opt (de_summary_ids e)) (de_summary_ids e)"
    and x: "reads r_ids (w_ids (de_extra_summary_ids e)) (de_extra_summary_ids e)"
    using f by (simp_all add: reads_string reads_ids reads_ids_opt)
  show ?thesis
    unfolding r_doc_def w_doc_def
    by (rule reads_step [OF reads_u64] reads_step [OF reads_loc] reads_step [OF s]
        reads_step [OF d] reads_step [OF u] reads_last [OF x])+ (cases e; simp)
qed

lemma reads_split: "reads r_split (w_split i e) (i, e)"
  unfolding r_split_def w_split_def
  by (rule reads_step [OF reads_u64] reads_last [OF reads_loc])+ (cases e; simp)

lemma reads_summary: "reads r_summary (w_summary i e) (i, e)"
  unfolding r_summary_def w_summary_def
  by (rule reads_step [OF reads_u64] reads_last [OF reads_loc])+ (cases e; simp)

section \<open>The whole snapshot\<close>

text \<open>An iteration order lists every key of the map once.\<close>

definition order_ok :: "(u64 fset \<Rightarrow> u64 list) \<Rightarrow> bool" where
  "order_ok order \<longleftrightarrow> (\<forall>S. distinct (order S) \<and> set (order S) = fset S)"

definition maps_fit :: "maps \<Rightarrow> bool" where
  "maps_fit m \<longleftrightarrow>
     (\<forall>d e. fmlookup (docs m) d = Some e \<longrightarrow> doc_entry_fits e)
     \<and> fcard (fmdom (docs m)) < 2 ^ 64 \<and> fcard (fmdom (splits m)) < 2 ^ 64
     \<and> fcard (fmdom (summaries m)) < 2 ^ 64"

lemma length_order: "order_ok order \<Longrightarrow> length (order S) = fcard S"
  unfolding order_ok_def fcard.rep_eq by (metis distinct_card)

lemma fminserts_order:
  assumes "order_ok order"
  shows "fminserts fst snd (map (\<lambda>i. (i, the (fmlookup m i))) (order (fmdom m))) fmempty = m"
    (is "fminserts fst snd ?xs fmempty = m")
proof (rule fmap_ext)
  fix a
  have o: "distinct (order (fmdom m))" "set (order (fmdom m)) = fmdom' m"
    using assms by (simp_all add: order_ok_def fmdom'_alt_def)
  then have d: "distinct (map fst ?xs)" "fst ` set ?xs = fmdom' m"
    by (simp_all add: comp_def image_image)
  show "fmlookup (fminserts fst snd ?xs fmempty) a = fmlookup m a"
  proof (cases "fmlookup m a")
    case None
    then have "a \<notin> fst ` set ?xs" using d(2) by (auto simp: fmlookup_dom'_iff)
    with None show ?thesis by (simp add: fminserts_lookup_other)
  next
    case (Some e)
    then have "(a, e) \<in> set ?xs"
      using o(2) by (auto simp: fmlookup_dom'_iff image_iff intro!: bexI [of _ a])
    with Some fminserts_lookup_distinct [OF d(1) this, of snd fmempty] show ?thesis by simp
  qed
qed

lemma reads_map:
  assumes "order_ok order" "fcard (fmdom m) < 2 ^ 64"
    and "\<And>i e. fmlookup m i = Some e \<Longrightarrow> reads p (f i e) (i, e)"
  shows "reads (r_many (unat (word_of_nat (fcard (fmdom m)) :: u64)) p) (w_map order f m)
           (map (\<lambda>i. (i, the (fmlookup m i))) (order (fmdom m)))"
proof -
  let ?is = "order (fmdom m)"
  have dom: "\<exists>e. fmlookup m i = Some e" if "i \<in> set ?is" for i
    using that assms(1) by (auto simp: order_ok_def fmdom'_alt_def [symmetric] fmlookup_dom'_iff)
  have "reads (r_many (length ?is) p)
      (concat (map (\<lambda>i. case fmlookup m i of None \<Rightarrow> [] | Some e \<Rightarrow> f i e) ?is))
      (map (\<lambda>i. (i, the (fmlookup m i))) ?is)"
    by (rule reads_many) (use dom assms(3) in fastforce)
  then show ?thesis
    using assms(1,2) by (simp only: w_map_def length_order unat_u64_of_nat)
qed

lemma reads_guard: "reads (f x) bs y \<Longrightarrow> \<not> P \<Longrightarrow> reads (if P then g else f x) bs y"
  by simp

lemma reads_snapshot:
  assumes "order_ok order" "maps_fit m"
  shows "reads r_snapshot (snapshot_body order m seq) (m, seq)"
proof -
  note fit = assms(2) [unfolded maps_fit_def]
  have d: "reads (r_many (unat (word_of_nat (fcard (fmdom (docs m))) :: u64)) r_doc)
      (w_map order w_doc (docs m)) (map (\<lambda>i. (i, the (fmlookup (docs m) i))) (order (fmdom (docs m))))"
    using fit by (intro reads_map assms(1) reads_doc) auto
  have s: "reads (r_many (unat (word_of_nat (fcard (fmdom (splits m))) :: u64)) r_split)
      (w_map order w_split (splits m)) (map (\<lambda>i. (i, the (fmlookup (splits m) i))) (order (fmdom (splits m))))"
    using fit by (intro reads_map assms(1) reads_split) auto
  have u: "reads (r_many (unat (word_of_nat (fcard (fmdom (summaries m))) :: u64)) r_summary)
      (w_map order w_summary (summaries m))
      (map (\<lambda>i. (i, the (fmlookup (summaries m) i))) (order (fmdom (summaries m))))"
    using fit by (intro reads_map assms(1) reads_summary) auto
  show ?thesis
    unfolding r_snapshot_def snapshot_body_def
    apply (rule reads_step [OF reads_u32], simp only: simp_thms if_False)
    apply (rule reads_step [OF reads_u32], simp only: simp_thms if_False)
    apply (rule reads_step [OF reads_u64])+
    apply (rule reads_step [OF d], rule reads_step [OF s], rule reads_last [OF u])
    apply (simp only: fminserts_order [OF assms(1)])
    apply (cases m; simp)
    done
qed

lemma reads_whole: "reads p bs x \<Longrightarrow> fst (p \<lparr> r_buf = bs, r_pos = 0 \<rparr>) = Inr x"
  using reads_def [of p bs x] by (metis append_Nil append_Nil2 fst_conv list.size(3))

lemma snapshot_parse_bytes:
  assumes "order_ok order" "maps_fit m"
  shows "snapshot_parse crc (snapshot_bytes crc order m seq) = Inr (m, seq)"
  using reads_whole [OF reads_snapshot [OF assms]]
  by (simp add: snapshot_parse_def snapshot_bytes_def)

lemma snapshot_store_Inr:
  assumes "snapshot_store crc order m seq w = (Inr x, u)"
  shows "files u = fmupd SnapFile (snapshot_bytes crc order m seq) (fmdrop SnapTmp (files w))"
  using write_atomically_Inr [OF assms [unfolded snapshot_store_def]] by simp

lemma snapshot_store_load:
  assumes "snapshot_store crc order m seq w = (Inr x, u)" "order_ok order" "maps_fit m"
  shows "snapshot_load crc u = Inr (Some (m, seq))"
  using snapshot_store_Inr [OF assms(1)] snapshot_parse_bytes [OF assms(2,3)]
  by (simp add: snapshot_load_def fs_exists_def fs_read_def)

text \<open>A failed store leaves the previous snapshot readable, or already the new one.\<close>

lemma snapshot_store_any:
  assumes "snapshot_store crc order m seq w = (r, u)" "order_ok order" "maps_fit m"
  shows "snapshot_load crc u = snapshot_load crc w \<or> snapshot_load crc u = Inr (Some (m, seq))"
proof -
  have "SnapTmp \<noteq> SnapFile" by simp
  with assms(1) have "fmlookup (files u) SnapFile = fmlookup (files w) SnapFile
      \<or> fmlookup (files u) SnapFile = Some (snapshot_bytes crc order m seq)"
    unfolding snapshot_store_def by (rule write_atomically_any)
  then show ?thesis
    using snapshot_parse_bytes [OF assms(2,3)]
    by (auto simp: snapshot_load_def fs_exists_def fs_read_def)
qed

lemma snapshot_store_other:
  assumes "snapshot_store crc order m seq w = (r, u)" "g \<noteq> SnapTmp" "g \<noteq> SnapFile"
  shows "fmlookup (files u) g = fmlookup (files w) g"
proof -
  have "SnapTmp \<noteq> SnapFile" by simp
  from assms(1) [unfolded snapshot_store_def] this assms(2,3) show ?thesis
    by (rule write_atomically_any)
qed

text \<open>A checksum that does not match is an error, whatever the body.\<close>

lemma snapshot_parse_bad_crc:
  assumes "4 \<le> length bs" "u32_from_le (drop (length bs - 4) bs) \<noteq> crc (take (length bs - 4) bs)"
  shows "snapshot_parse crc bs = Inl (SnapChecksum (u32_from_le (drop (length bs - 4) bs))
           (crc (take (length bs - 4) bs)))"
  using assms by (simp add: snapshot_parse_def Let_def)

end
