(* ===== verification/Externals.thy ===== *)
theory Externals
  imports Manifest Meta_Snapshot
begin

text \<open>
  What the storage crate takes from other crates, gathered in one record: the CRC of
  \<open>crc32fast\<close>, the half-precision conversions of \<open>half\<close>, the MessagePack codecs of
  \<open>rmp_serde\<close> for the metadata structs and the manifest, and the iteration order of a
  \<open>HashMap\<close> and of a directory. \<open>env_ok\<close> states what the code relies on: a serialised value reads back,
  and a hash map or a directory is enumerated once per entry. \<open>sample_env\<close> is one concrete instance.
\<close>

section \<open>The record of externals\<close>

record env =
  e_crc :: "bytes \<Rightarrow> u32"
  e_to_f16 :: "f32 \<Rightarrow> u16"
  e_of_f16 :: "u16 \<Rightarrow> f32"
  e_doc :: "doc_meta codec"
  e_split :: "split_meta codec"
  e_summary :: "summary_meta codec"
  e_delete :: "delete_meta codec"
  e_manifest :: "manifest codec"
  e_order :: "u64 fset \<Rightarrow> u64 list"
  e_dir_order :: "u32 fset \<Rightarrow> u32 list"

definition env_ok :: "env \<Rightarrow> bool" where
  "env_ok E \<longleftrightarrow> codec_ok (e_doc E) \<and> codec_ok (e_split E) \<and> codec_ok (e_summary E)
     \<and> codec_ok (e_delete E) \<and> codec_ok (e_manifest E) \<and> order_ok (e_order E)
     \<and> (\<forall>S. distinct (e_dir_order E S) \<and> set (e_dir_order E S) = fset S)"

section \<open>A concrete instance\<close>

text \<open>
  Field by field little-endian encodings; a list is a sequence of items each preceded by 1,
  closed by 0. A decoder returns the value and what is left of the input.
\<close>

type_synonym 'a dec = "bytes \<Rightarrow> ('a \<times> bytes) option"

definition d_bind :: "'a dec \<Rightarrow> ('a \<Rightarrow> 'b dec) \<Rightarrow> 'b dec" where
  "d_bind p f bs = (case p bs of None \<Rightarrow> None | Some (x, r) \<Rightarrow> f x r)"

definition d_ret :: "'a \<Rightarrow> 'a dec" where
  "d_ret x bs = Some (x, bs)"

definition d_u8 :: "u8 dec" where
  "d_u8 bs = (case bs of [] \<Rightarrow> None | b # r \<Rightarrow> Some (b, r))"

definition d_u32 :: "u32 dec" where
  "d_u32 bs = (if length bs < 4 then None else Some (u32_from_le (take 4 bs), drop 4 bs))"

definition d_u64 :: "u64 dec" where
  "d_u64 bs = (if length bs < 8 then None else Some (u64_from_le (take 8 bs), drop 8 bs))"

fun e_str :: "ustring \<Rightarrow> bytes" where
  "e_str [] = [0]"
| "e_str (c # cs) = 1 # c # e_str cs"

fun d_str :: "ustring dec" where
  "d_str (b # c # r) =
     (if b = 0 then Some ([], c # r)
      else case d_str r of None \<Rightarrow> None | Some (s, r') \<Rightarrow> Some (c # s, r'))"
| "d_str [b] = (if b = 0 then Some ([], []) else None)"
| "d_str [] = None"

fun e_ids :: "u64 list \<Rightarrow> bytes" where
  "e_ids [] = [0]"
| "e_ids (i # is) = 1 # u64_to_le i @ e_ids is"

function d_ids :: "u64 list dec" where
  "d_ids [] = None"
| "d_ids (b # r) =
     (if b = 0 then Some ([], r)
      else if length r < 8 then None
      else case d_ids (drop 8 r) of
             None \<Rightarrow> None
           | Some (is, r') \<Rightarrow> Some (u64_from_le (take 8 r) # is, r'))"
  by pat_completeness auto
termination by (relation "measure length") auto

definition e_ids_opt :: "u64 list option \<Rightarrow> bytes" where
  "e_ids_opt ids = (case ids of None \<Rightarrow> [0] | Some is \<Rightarrow> 1 # e_ids is)"

definition d_ids_opt :: "u64 list option dec" where
  "d_ids_opt = d_bind d_u8 (\<lambda>b. if b = 0 then d_ret None else d_bind d_ids (\<lambda>is. d_ret (Some is)))"

definition e_info :: "segment_info \<Rightarrow> bytes" where
  "e_info i = u32_to_le (si_id i) @ u64_to_le (si_bytes i) @ u64_to_le (si_first_seq i)
     @ u64_to_le (si_last_seq i)"

definition d_info :: "segment_info dec" where
  "d_info = d_bind d_u32 (\<lambda>i. d_bind d_u64 (\<lambda>b. d_bind d_u64 (\<lambda>f. d_bind d_u64 (\<lambda>l.
     d_ret \<lparr> si_id = i, si_bytes = b, si_first_seq = f, si_last_seq = l \<rparr>))))"

fun e_infos :: "segment_info list \<Rightarrow> bytes" where
  "e_infos [] = [0]"
| "e_infos (i # is) = 1 # e_info i @ e_infos is"

function d_infos :: "segment_info list dec" where
  "d_infos [] = None"
| "d_infos (b # r) =
     (if b = 0 then Some ([], r)
      else if length r < 28 then None
      else case d_info (take 28 r) of None \<Rightarrow> None | Some (i, _) \<Rightarrow>
           case d_infos (drop 28 r) of None \<Rightarrow> None | Some (is, r') \<Rightarrow> Some (i # is, r'))"
  by pat_completeness auto
termination by (relation "measure length") auto

definition codec_of :: "('m \<Rightarrow> bytes) \<Rightarrow> 'm dec \<Rightarrow> 'm codec" where
  "codec_of f p = \<lparr> enc = (\<lambda>m. Some (f m)),
     dec = (\<lambda>b. case p b of Some (m, []) \<Rightarrow> Some m | _ \<Rightarrow> None) \<rparr>"

definition sample_doc :: "doc_meta codec" where
  "sample_doc = codec_of
     (\<lambda>m. u64_to_le (dm_doc_id m) @ e_str (dm_url m) @ e_ids (dm_split_ids m)
           @ e_ids_opt (dm_summary_ids m))
     (d_bind d_u64 (\<lambda>i. d_bind d_str (\<lambda>u. d_bind d_ids (\<lambda>s. d_bind d_ids_opt (\<lambda>x.
        d_ret \<lparr> dm_doc_id = i, dm_url = u, dm_split_ids = s, dm_summary_ids = x \<rparr>)))))"

definition sample_split :: "split_meta codec" where
  "sample_split = codec_of
     (\<lambda>m. u64_to_le (sm_split_id m) @ u32_to_le (sm_seq_id m) @ u64_to_le (sm_doc_id m)
           @ u64_to_le (sm_token_len m) @ e_str (sm_text m) @ e_ids (sm_summary_ids m)
           @ u64_to_le (sm_model_id m))
     (d_bind d_u64 (\<lambda>i. d_bind d_u32 (\<lambda>q. d_bind d_u64 (\<lambda>d. d_bind d_u64 (\<lambda>t.
      d_bind d_str (\<lambda>s. d_bind d_ids (\<lambda>x. d_bind d_u64 (\<lambda>m.
        d_ret \<lparr> sm_split_id = i, sm_seq_id = q, sm_doc_id = d, sm_token_len = t, sm_text = s,
                sm_summary_ids = x, sm_model_id = m \<rparr>))))))))"

definition sample_summary :: "summary_meta codec" where
  "sample_summary = codec_of
     (\<lambda>m. u64_to_le (um_summary_id m) @ u64_to_le (um_doc_id m) @ u64_to_le (um_split_id m)
           @ u32_to_le (um_split_seq_id m) @ u64_to_le (um_token_len m) @ u32_to_le (um_centrality m)
           @ e_str (um_text m) @ u64_to_le (um_model_id m))
     (d_bind d_u64 (\<lambda>i. d_bind d_u64 (\<lambda>d. d_bind d_u64 (\<lambda>s. d_bind d_u32 (\<lambda>q.
      d_bind d_u64 (\<lambda>t. d_bind d_u32 (\<lambda>c. d_bind d_str (\<lambda>x. d_bind d_u64 (\<lambda>m.
        d_ret \<lparr> um_summary_id = i, um_doc_id = d, um_split_id = s, um_split_seq_id = q,
                um_token_len = t, um_centrality = c, um_text = x, um_model_id = m \<rparr>)))))))))"

definition sample_delete :: "delete_meta codec" where
  "sample_delete = codec_of (\<lambda>m. u64_to_le (xm_doc_id m)) (d_bind d_u64 (\<lambda>i. d_ret \<lparr> xm_doc_id = i \<rparr>))"

definition sample_manifest :: "manifest codec" where
  "sample_manifest = codec_of
     (\<lambda>m. u32_to_le (mf_version m) @ u64_to_le (mf_model_id m) @ u32_to_le (mf_n_embd m)
           @ [mf_dtype m] @ e_infos (mf_sealed m) @ u32_to_le (mf_active m)
           @ u32_to_le (mf_next_segment_id m) @ u64_to_le (mf_next_seq m)
           @ u64_to_le (mf_snapshot_seq m) @ u64_to_le (mf_tombstone_bytes m))
     (d_bind d_u32 (\<lambda>v. d_bind d_u64 (\<lambda>m. d_bind d_u32 (\<lambda>n. d_bind d_u8 (\<lambda>t.
      d_bind d_infos (\<lambda>s. d_bind d_u32 (\<lambda>a. d_bind d_u32 (\<lambda>i. d_bind d_u64 (\<lambda>q.
      d_bind d_u64 (\<lambda>p. d_bind d_u64 (\<lambda>b.
        d_ret \<lparr> mf_version = v, mf_model_id = m, mf_n_embd = n, mf_dtype = t, mf_sealed = s,
                mf_active = a, mf_next_segment_id = i, mf_next_seq = q, mf_snapshot_seq = p,
                mf_tombstone_bytes = b \<rparr>)))))))))))"

definition sample_crc :: "bytes \<Rightarrow> u32" where
  "sample_crc bs = foldl (\<lambda>c b. c + ucast b) 7 bs"

definition sample_env :: env where
  "sample_env = \<lparr> e_crc = sample_crc, e_to_f16 = (\<lambda>x. ucast (drop_bit 16 x)),
     e_of_f16 = (\<lambda>h. push_bit 16 (ucast h)), e_doc = sample_doc, e_split = sample_split,
     e_summary = sample_summary, e_delete = sample_delete, e_manifest = sample_manifest,
     e_order = (\<lambda>S. sorted_list_of_fset S), e_dir_order = (\<lambda>S. sorted_list_of_fset S) \<rparr>"

section \<open>The instance meets the contract\<close>

definition decodes :: "'a dec \<Rightarrow> bytes \<Rightarrow> 'a \<Rightarrow> bool" where
  "decodes p bs x \<longleftrightarrow> (\<forall>r. p (bs @ r) = Some (x, r))"

lemma decodes_bind: "decodes p bs x \<Longrightarrow> decodes (f x) cs y \<Longrightarrow> decodes (d_bind p f) (bs @ cs) y"
  by (simp add: decodes_def d_bind_def)

lemma decodes_last: "decodes p bs x \<Longrightarrow> f x = d_ret y \<Longrightarrow> decodes (d_bind p f) bs y"
  by (simp add: decodes_def d_bind_def d_ret_def)

lemma decodes_u8: "decodes d_u8 [b] b"
  by (simp add: decodes_def d_u8_def)

lemma decodes_u32: "decodes d_u32 (u32_to_le v) v"
  by (simp add: decodes_def d_u32_def)

lemma decodes_u64: "decodes d_u64 (u64_to_le v) v"
  by (simp add: decodes_def d_u64_def)

lemma e_str_nonempty: "\<exists>b r. e_str s = b # r"
  by (cases s) auto

lemma decodes_str: "decodes d_str (e_str s) s"
  unfolding decodes_def
proof (induction s)
  case Nil
  show ?case
  proof
    fix r show "d_str (e_str [] @ r) = Some ([], r)" by (cases r) simp_all
  qed
qed simp

lemma decodes_ids: "decodes d_ids (e_ids s) s"
  unfolding decodes_def by (induction s) simp_all

lemma decodes_ids_opt: "decodes d_ids_opt (e_ids_opt s) s"
  using decodes_ids
  by (auto simp: decodes_def d_ids_opt_def e_ids_opt_def d_bind_def d_ret_def d_u8_def split: option.splits)

lemma length_e_info: "length (e_info i) = 28"
  by (simp add: e_info_def)

lemma decodes_info: "decodes d_info (e_info i) i"
  unfolding d_info_def e_info_def
  by (rule decodes_bind [OF decodes_u32] decodes_bind [OF decodes_u64] decodes_last [OF decodes_u64])+
    (cases i; simp)

lemma decodes_infos: "decodes d_infos (e_infos s) s"
proof -
  have "d_info (e_info i) = Some (i, [])" for i
    using decodes_info [of i, unfolded decodes_def, rule_format, of "[]"] by simp
  then show ?thesis
    unfolding decodes_def by (induction s) (simp_all add: length_e_info)
qed

lemma codec_of_ok: "(\<And>m. decodes p (f m) m) \<Longrightarrow> codec_ok (codec_of f p)"
  by (simp add: codec_ok_def codec_of_def decodes_def) (metis append_Nil2 case_prod_conv list.simps(4) option.simps(5))

lemmas decodes_steps =
  decodes_bind [OF decodes_u8] decodes_bind [OF decodes_u32] decodes_bind [OF decodes_u64]
  decodes_bind [OF decodes_str] decodes_bind [OF decodes_ids] decodes_bind [OF decodes_ids_opt]
  decodes_bind [OF decodes_infos] decodes_last [OF decodes_u64] decodes_last [OF decodes_ids_opt]

lemma sample_doc_ok: "codec_ok sample_doc"
  unfolding sample_doc_def
proof (rule codec_of_ok, (rule decodes_steps)+)
qed (rule arg_cong [of _ _ d_ret], rule doc_meta.equality; simp)

lemma sample_split_ok: "codec_ok sample_split"
  unfolding sample_split_def
proof (rule codec_of_ok, (rule decodes_steps)+)
qed (rule arg_cong [of _ _ d_ret], rule split_meta.equality; simp)

lemma sample_summary_ok: "codec_ok sample_summary"
  unfolding sample_summary_def
proof (rule codec_of_ok, (rule decodes_steps)+)
qed (rule arg_cong [of _ _ d_ret], rule summary_meta.equality; simp)

lemma sample_delete_ok: "codec_ok sample_delete"
  unfolding sample_delete_def
proof (rule codec_of_ok, (rule decodes_steps)+)
qed (rule arg_cong [of _ _ d_ret], rule delete_meta.equality; simp)

lemma sample_manifest_ok: "codec_ok sample_manifest"
  unfolding sample_manifest_def
proof (rule codec_of_ok, (rule decodes_steps)+)
qed (rule arg_cong [of _ _ d_ret], rule manifest.equality; simp)

lemma sample_env_ok: "env_ok sample_env"
  unfolding env_ok_def sample_env_def order_ok_def
  by (simp add: sample_doc_ok sample_split_ok sample_summary_ok sample_delete_ok sample_manifest_ok sorted_list_of_fset.rep_eq)

end
