(* ===== verification/Replay.thy ===== *)
theory Replay
  imports Externals
begin

text \<open>
  Rebuilding the maps from a segment (\<open>embedding-store/src/replay.rs\<close>): the scan of the
  segment's bytes, the torn-tail rule, and the application of each record kind. Splits and
  summaries are buffered until the \<open>Doc\<close> record of their document.
\<close>

section \<open>State of a scan\<close>

record segment_scan =
  sc_applied :: nat
  sc_skipped :: nat
  sc_good_bytes :: u64
  sc_torn_at :: "u64 option"
  sc_first_seq :: "u64 option"
  sc_last_seq :: u64

datatype pending =
    PSplit u64 u64 "u64 list" loc
  | PSummary u64 u64 u64 loc

fun pending_doc_id :: "pending \<Rightarrow> u64" where
  "pending_doc_id (PSplit split_id doc_id summary_ids l) = doc_id"
| "pending_doc_id (PSummary summary_id doc_id split_id l) = doc_id"

type_synonym rstate = "maps \<times> pending list"

definition empty_scan :: segment_scan where
  "empty_scan = \<lparr> sc_applied = 0, sc_skipped = 0, sc_good_bytes = 0, sc_torn_at = None,
     sc_first_seq = None, sc_last_seq = 0 \<rparr>"

section \<open>Committing a document\<close>

text \<open>The loop that moves this document's entries out of the buffer, in order.\<close>

fun take_mine :: "u64 \<Rightarrow> pending list \<Rightarrow> pending list \<times> pending list" where
  "take_mine doc_id [] = ([], [])"
| "take_mine doc_id (p # ps) =
     (case take_mine doc_id ps of (mine, rest) \<Rightarrow>
        if pending_doc_id p = doc_id then (p # mine, rest) else (mine, p # rest))"

text \<open>The loop over them: the maps, and the summary ids the splits name.\<close>

fun commit_entries :: "pending list \<Rightarrow> maps \<times> u64 list \<Rightarrow> maps \<times> u64 list" where
  "commit_entries [] st = st"
| "commit_entries (PSplit split_id doc_id summary_ids l # ps) (m, ids) =
     commit_entries ps
       (m\<lparr>splits := fmupd split_id \<lparr> se_doc_id = doc_id, se_loc = l \<rparr> (splits m)\<rparr>, ids @ summary_ids)"
| "commit_entries (PSummary summary_id doc_id split_id l # ps) (m, ids) =
     commit_entries ps
       (m\<lparr>summaries := fmupd summary_id \<lparr> ue_doc_id = doc_id, ue_split_id = split_id, ue_loc = l \<rparr>
          (summaries m)\<rparr>, ids)"

definition dedup_preserving_order :: "u64 list \<Rightarrow> u64 list" where
  "dedup_preserving_order ids = dedup_on (\<lambda>i. i) {} ids"

definition commit_doc :: "doc_meta \<Rightarrow> u64 \<Rightarrow> loc \<Rightarrow> rstate \<Rightarrow> rstate" where
  "commit_doc meta seq l st =
     (case st of (m, pending) \<Rightarrow>
      let doc_id = dm_doc_id meta;
          m1 = (if fmlookup (docs m) doc_id \<noteq> None then drop_doc doc_id (- 1) m else m) in
      case take_mine doc_id pending of (mine, rest) \<Rightarrow>
      case commit_entries mine (m1, []) of (m2, split_summary_ids) \<Rightarrow>
      let in_doc_list = set (opt_list (dm_summary_ids meta));
          extra = dedup_preserving_order (filter (\<lambda>i. i \<notin> in_doc_list) split_summary_ids) in
      (m2\<lparr>docs := fmupd doc_id
          \<lparr> de_url = dm_url meta, de_split_ids = dm_split_ids meta,
            de_summary_ids = dm_summary_ids meta, de_extra_summary_ids = extra,
            de_seq = seq, de_loc = l \<rparr> (docs m2)\<rparr>, rest))"

section \<open>Applying a record\<close>

definition apply_record :: "env \<Rightarrow> record_kind \<Rightarrow> u64 \<Rightarrow> bytes \<Rightarrow> loc \<Rightarrow> rstate \<Rightarrow> error + rstate" where
  "apply_record E kind seq meta l st =
     (case st of (m, pending) \<Rightarrow>
      case kind of
        Split \<Rightarrow> bindR (from_slice (e_split E) meta) (\<lambda>s.
          Inr (m, pending @ [PSplit (sm_split_id s) (sm_doc_id s) (sm_summary_ids s) l]))
      | Summary \<Rightarrow> bindR (from_slice (e_summary E) meta) (\<lambda>s.
          Inr (m, pending @ [PSummary (um_summary_id s) (um_doc_id s) (um_split_id s) l]))
      | DeleteDoc \<Rightarrow> bindR (from_slice (e_delete E) meta) (\<lambda>d.
          Inr (drop_doc (xm_doc_id d) (- 1) m,
               filter (\<lambda>p. pending_doc_id p \<noteq> xm_doc_id d) pending))
      | Doc \<Rightarrow> bindR (from_slice (e_doc E) meta) (\<lambda>d. Inr (commit_doc d seq l (m, pending))))"

section \<open>Scanning a segment\<close>

definition is_torn_tail :: "decode_error \<Rightarrow> bytes \<Rightarrow> bool" where
  "is_torn_tail e rest =
     (case e of
        Truncated _ _ \<Rightarrow> True
      | _ \<Rightarrow> (case peek_len rest of None \<Rightarrow> True | Some len \<Rightarrow> length rest \<le> unat len))"

function scan_loop ::
  "env \<Rightarrow> u32 \<Rightarrow> u64 \<Rightarrow> bool \<Rightarrow> bytes \<Rightarrow> nat \<Rightarrow> segment_scan \<Rightarrow> rstate \<Rightarrow> error + segment_scan \<times> rstate" where
  "scan_loop E segment_id snapshot_seq allow_torn_tail bs offset scan st =
     (if length bs \<le> offset then Inr (scan, st)
      else case decode (e_crc E) (drop offset bs) of
        Inl e \<Rightarrow>
          if allow_torn_tail \<and> is_torn_tail e (drop offset bs)
          then Inr (scan\<lparr>sc_torn_at := Some (word_of_nat offset)\<rparr>, st)
          else Inl (CorruptSegment segment_id offset e)
      | Inr view \<Rightarrow>
          let l = \<lparr> loc_segment = segment_id, loc_offset = word_of_nat offset, loc_len = rv_len view \<rparr>;
              scan1 = scan\<lparr>sc_first_seq := (case sc_first_seq scan of None \<Rightarrow> Some (rv_seq view) | Some s \<Rightarrow> Some s),
                           sc_last_seq := rv_seq view\<rparr>;
              offset' = offset + unat (rv_len view) in
          if snapshot_seq < rv_seq view
          then (case apply_record E (rv_kind view) (rv_seq view) (rv_meta view) l st of
                  Inl e \<Rightarrow> Inl (RecordAt segment_id offset e)
                | Inr st' \<Rightarrow>
                    scan_loop E segment_id snapshot_seq allow_torn_tail bs offset'
                      (scan1\<lparr>sc_applied := sc_applied scan1 + 1, sc_good_bytes := word_of_nat offset'\<rparr>) st')
          else scan_loop E segment_id snapshot_seq allow_torn_tail bs offset'
                 (scan1\<lparr>sc_skipped := sc_skipped scan1 + 1, sc_good_bytes := word_of_nat offset'\<rparr>) st)"
  by pat_completeness auto
termination
proof (relation "measure (\<lambda>(E, i, q, a, bs, offset, scan, st). length bs - offset)")
qed (use decode_len in fastforce)+

declare scan_loop.simps [simp del]

text \<open>What is still buffered at the end is dropped.\<close>

definition scan_segment :: "env \<Rightarrow> bytes \<Rightarrow> u32 \<Rightarrow> u64 \<Rightarrow> maps \<Rightarrow> bool \<Rightarrow> error + segment_scan \<times> maps" where
  "scan_segment E bs segment_id snapshot_seq m allow_torn_tail =
     (case scan_loop E segment_id snapshot_seq allow_torn_tail bs 0 empty_scan (m, []) of
        Inl e \<Rightarrow> Inl e
      | Inr (scan, m', _) \<Rightarrow> Inr (scan, m'))"

section \<open>Facts about committing\<close>

lemma take_mine_filter:
  "take_mine d ps = (filter (\<lambda>p. pending_doc_id p = d) ps, filter (\<lambda>p. pending_doc_id p \<noteq> d) ps)"
  by (induction ps) auto

lemma dedup_preserving_order_facts:
  "set (dedup_preserving_order ids) = set ids" "distinct (dedup_preserving_order ids)"
  using set_dedup_on [of "\<lambda>i. i" "{}" ids] distinct_dedup_on [of "\<lambda>i. i" "{}" ids]
  by (simp_all add: dedup_preserving_order_def)

section \<open>The log as a list of records\<close>

text \<open>
  The abstract view of a segment: the records that were appended, in order. A record is what
  \<open>encode\<close> takes; its bytes are the frame.
\<close>

record log_record =
  lr_seq :: u64
  lr_kind :: record_kind
  lr_dtype :: vector_dtype
  lr_meta :: bytes
  lr_vector :: bytes

definition frame :: "env \<Rightarrow> log_record \<Rightarrow> bytes" where
  "frame E r = encode (e_crc E) (lr_seq r) (lr_kind r) (lr_dtype r) (lr_meta r) (lr_vector r)"

definition frame_len :: "log_record \<Rightarrow> nat" where
  "frame_len r = 22 + length (lr_meta r) + length (lr_vector r)"

definition frame_ok :: "log_record \<Rightarrow> bool" where
  "frame_ok r \<longleftrightarrow> encodable (lr_meta r) (lr_vector r)"

definition log_bytes :: "env \<Rightarrow> log_record list \<Rightarrow> bytes" where
  "log_bytes E rs = concat (map (frame E) rs)"

definition log_len :: "log_record list \<Rightarrow> nat" where
  "log_len rs = sum_list (map frame_len rs)"

definition rec_loc :: "u32 \<Rightarrow> nat \<Rightarrow> log_record \<Rightarrow> loc" where
  "rec_loc i off r = \<lparr> loc_segment = i, loc_offset = word_of_nat off, loc_len = word_of_nat (frame_len r) \<rparr>"

text \<open>Replaying records one by one, with the offset each one has.\<close>

definition replay_record :: "env \<Rightarrow> u32 \<Rightarrow> u64 \<Rightarrow> nat \<Rightarrow> log_record \<Rightarrow> rstate \<Rightarrow> error + rstate" where
  "replay_record E i q off r st =
     (if q < lr_seq r
      then (case apply_record E (lr_kind r) (lr_seq r) (lr_meta r) (rec_loc i off r) st of
              Inl e \<Rightarrow> Inl (RecordAt i off e) | Inr st' \<Rightarrow> Inr st')
      else Inr st)"

fun replay_log :: "env \<Rightarrow> u32 \<Rightarrow> u64 \<Rightarrow> nat \<Rightarrow> log_record list \<Rightarrow> rstate \<Rightarrow> error + rstate" where
  "replay_log E i q off [] st = Inr st"
| "replay_log E i q off (r # rs) st =
     bindR (replay_record E i q off r st) (replay_log E i q (off + frame_len r) rs)"

fun scan_stats :: "u64 \<Rightarrow> nat \<Rightarrow> log_record list \<Rightarrow> segment_scan \<Rightarrow> segment_scan" where
  "scan_stats q off [] scan = scan"
| "scan_stats q off (r # rs) scan =
     scan_stats q (off + frame_len r) rs
       (scan\<lparr> sc_applied := sc_applied scan + (if q < lr_seq r then 1 else 0),
              sc_skipped := sc_skipped scan + (if q < lr_seq r then 0 else 1),
              sc_good_bytes := word_of_nat (off + frame_len r),
              sc_first_seq := (case sc_first_seq scan of None \<Rightarrow> Some (lr_seq r) | Some s \<Rightarrow> Some s),
              sc_last_seq := lr_seq r \<rparr>)"

lemma length_frame [len_simps]: "length (frame E r) = frame_len r"
  by (simp add: frame_def frame_len_def length_encode)

lemma length_log_bytes [len_simps]: "length (log_bytes E rs) = log_len rs"
  by (simp add: log_bytes_def log_len_def length_concat comp_def length_frame)

lemma log_simps [simp]:
  "log_bytes E [] = []" "log_bytes E (r # rs) = frame E r @ log_bytes E rs"
  "log_bytes E (rs @ ss) = log_bytes E rs @ log_bytes E ss"
  "log_len [] = 0" "log_len (r # rs) = frame_len r + log_len rs"
  "log_len (rs @ ss) = log_len rs + log_len ss"
  by (simp_all add: log_bytes_def log_len_def)

lemma frame_len_pos: "0 < frame_len r"
  by (simp add: frame_len_def)

lemma decode_frame:
  assumes "frame_ok r"
  shows "decode (e_crc E) (frame E r @ rest) =
    Inr \<lparr> rv_len = word_of_nat (frame_len r), rv_seq = lr_seq r, rv_kind = lr_kind r,
          rv_dtype = lr_dtype r, rv_meta = lr_meta r, rv_vector = lr_vector r \<rparr>"
  unfolding frame_def frame_len_def by (rule decode_encode) (use assms in \<open>simp add: frame_ok_def\<close>)

lemma unat_frame_len: "frame_ok r \<Longrightarrow> unat (word_of_nat (frame_len r) :: u32) = frame_len r"
  unfolding frame_len_def frame_ok_def by (rule encodable_unat)

lemma replay_log_append:
  "replay_log E i q off (rs @ ss) st =
     bindR (replay_log E i q off rs st) (replay_log E i q (off + log_len rs) ss)"
  by (induction rs arbitrary: off st) (auto simp: bindR_def add.assoc split: sum.splits)

lemma scan_stats_append:
  "scan_stats q off (rs @ ss) scan = scan_stats q (off + log_len rs) ss (scan_stats q off rs scan)"
  by (induction rs arbitrary: off scan) (simp_all add: add.assoc)

text \<open>A scan of whole frames is the replay of their records; the scan then goes on behind them.\<close>

lemma scan_loop_frames:
  assumes "list_all frame_ok rs" "replay_log E i q (length pre) rs st = Inr st'"
  shows "scan_loop E i q a (pre @ log_bytes E rs @ rest) (length pre) scan st =
    scan_loop E i q a (pre @ log_bytes E rs @ rest) (length pre + log_len rs)
      (scan_stats q (length pre) rs scan) st'"
  using assms
proof (induction rs arbitrary: pre scan st)
  case Nil
  then show ?case by simp
next
  case (Cons r rs)
  let ?bs = "pre @ log_bytes E (r # rs) @ rest"
  from Cons.prems obtain s1 where s1: "replay_record E i q (length pre) r st = Inr s1"
    "replay_log E i q (length pre + frame_len r) rs s1 = Inr st'"
    by (auto simp: bindR_Inr)
  from Cons.prems have ok: "frame_ok r" "list_all frame_ok rs" by simp_all
  have lt: "\<not> length ?bs \<le> length pre"
    using frame_len_pos [of r] by (simp add: len_simps)
  have dec: "decode (e_crc E) (drop (length pre) ?bs) =
    Inr \<lparr> rv_len = word_of_nat (frame_len r), rv_seq = lr_seq r, rv_kind = lr_kind r,
          rv_dtype = lr_dtype r, rv_meta = lr_meta r, rv_vector = lr_vector r \<rparr>"
    using decode_frame [OF ok(1), of E "log_bytes E rs @ rest"] by simp
  have pl: "length (pre @ frame E r) = length pre + frame_len r"
    by (simp add: len_simps)
  have "scan_loop E i q a ((pre @ frame E r) @ log_bytes E rs @ rest) (length (pre @ frame E r)) sc s1 =
    scan_loop E i q a ((pre @ frame E r) @ log_bytes E rs @ rest) (length (pre @ frame E r) + log_len rs)
      (scan_stats q (length (pre @ frame E r)) rs sc) st'" for sc
    by (rule Cons.IH) (use ok s1(2) pl in simp_all)
  then have IH: "scan_loop E i q a ?bs (length pre + frame_len r) sc s1 =
    scan_loop E i q a ?bs (length pre + frame_len r + log_len rs)
      (scan_stats q (length pre + frame_len r) rs sc) st'" for sc
    unfolding pl by simp
  have step: "scan_loop E i q a ?bs (length pre) scan st =
    scan_loop E i q a ?bs (length pre + frame_len r)
      (scan\<lparr> sc_applied := sc_applied scan + (if q < lr_seq r then 1 else 0),
             sc_skipped := sc_skipped scan + (if q < lr_seq r then 0 else 1),
             sc_good_bytes := word_of_nat (length pre + frame_len r),
             sc_first_seq := (case sc_first_seq scan of None \<Rightarrow> Some (lr_seq r) | Some s \<Rightarrow> Some s),
             sc_last_seq := lr_seq r \<rparr>) s1"
  proof (cases "q < lr_seq r")
    case True
    then have "apply_record E (lr_kind r) (lr_seq r) (lr_meta r) (rec_loc i (length pre) r) st = Inr s1"
      using s1(1) by (auto simp: replay_record_def split: sum.splits)
    with True show ?thesis
      by (subst scan_loop.simps)
        (simp only: lt if_False dec sum.case Let_def record_view.simps unat_frame_len [OF ok(1)]
          if_True rec_loc_def [symmetric], cases scan, simp)
  next
    case False
    then have "s1 = st" using s1(1) by (simp add: replay_record_def)
    with False show ?thesis
      by (subst scan_loop.simps)
        (simp only: lt if_False dec sum.case Let_def record_view.simps unat_frame_len [OF ok(1)]
          if_True rec_loc_def [symmetric], cases scan, simp)
  qed
  show ?case
    unfolding step IH by (simp add: add.assoc)
qed

lemma scan_segment_frames:
  assumes "list_all frame_ok rs" "replay_log E i q 0 rs (m, []) = Inr (m', p)"
  shows "scan_segment E (log_bytes E rs) i q m a = Inr (scan_stats q 0 rs empty_scan, m')"
proof -
  have "scan_loop E i q a (log_bytes E rs) 0 empty_scan (m, []) =
    scan_loop E i q a (log_bytes E rs) (log_len rs) (scan_stats q 0 rs empty_scan) (m', p)"
    using scan_loop_frames [of rs E i q "[]" "(m, [])" "(m', p)" a "[]" empty_scan] assms by simp
  also have "\<dots> = Inr (scan_stats q 0 rs empty_scan, (m', p))"
    by (subst scan_loop.simps) (simp add: len_simps)
  finally show ?thesis by (simp add: scan_segment_def)
qed

text \<open>
  A torn tail: the bytes after the last whole frame are a proper prefix of a frame. The
  active segment reports the offset, a sealed one reports corruption.
\<close>

lemma decode_torn:
  assumes "frame_ok r" "k < frame_len r"
  shows "\<exists>need. decode (e_crc E) (take k (frame E r)) = Inl (Truncated need k)"
  unfolding frame_def
  by (rule decode_prefix_truncated) (use assms in \<open>simp_all add: frame_ok_def frame_len_def\<close>)

lemma scan_segment_torn:
  assumes "list_all frame_ok rs" "replay_log E i q 0 rs (m, []) = Inr (m', p)"
    and "frame_ok r" "0 < k" "k < frame_len r"
  shows "scan_segment E (log_bytes E rs @ take k (frame E r)) i q m True =
      Inr (scan_stats q 0 rs empty_scan\<lparr>sc_torn_at := Some (word_of_nat (log_len rs))\<rparr>, m')"
    and "\<exists>e. scan_segment E (log_bytes E rs @ take k (frame E r)) i q m False =
      Inl (CorruptSegment i (log_len rs) e)"
proof -
  let ?t = "take k (frame E r)"
  obtain need where d: "decode (e_crc E) ?t = Inl (Truncated need k)"
    using decode_torn [OF assms(3,5)] by blast
  have ne: "\<not> length (log_bytes E rs @ ?t) \<le> log_len rs"
    using assms(4,5) by (simp add: len_simps)
  have dr: "drop (log_len rs) (log_bytes E rs @ ?t) = ?t"
    by (simp flip: length_log_bytes [of E])
  have run: "scan_loop E i q a (log_bytes E rs @ ?t) 0 empty_scan (m, []) =
    scan_loop E i q a (log_bytes E rs @ ?t) (log_len rs) (scan_stats q 0 rs empty_scan) (m', p)" for a
    using scan_loop_frames [of rs E i q "[]" "(m, [])" "(m', p)" a ?t empty_scan] assms by simp
  show "scan_segment E (log_bytes E rs @ ?t) i q m True =
      Inr (scan_stats q 0 rs empty_scan\<lparr>sc_torn_at := Some (word_of_nat (log_len rs))\<rparr>, m')"
    unfolding scan_segment_def run
    by (subst scan_loop.simps) (simp only: ne dr d if_False, simp add: is_torn_tail_def)
  show "\<exists>e. scan_segment E (log_bytes E rs @ ?t) i q m False = Inl (CorruptSegment i (log_len rs) e)"
    unfolding scan_segment_def run
    by (subst scan_loop.simps) (simp only: ne dr d if_False, simp)
qed

lemma frame_inj_prefix:
  "take k (frame E r) = frame E r \<longleftrightarrow> frame_len r \<le> k"
  by (simp add: len_simps)

end
