(* ===== verification/Dtos.thy ===== *)
theory Dtos
  imports Prelude
begin

text \<open>
  The data transfer objects (\<open>embedding-common/src/dtos\<close>) and the stored models they
  convert to and from (\<open>embedding-common/src/models\<close>). A float is its bits.
\<close>

section \<open>Transfer objects\<close>

record embedding_dto =
  eb_embedding_id :: u64
  eb_embedding :: "f32 list"
  eb_model_id :: u64

record rank =
  rk_index :: usize
  rk_rank :: "usize option"
  rk_score :: "f32 option"
  rk_text :: "ustring option"

record summary_dto =
  ud_summary_id :: u64
  ud_document_id :: u64
  ud_split_id :: u64
  ud_split_sequence_id :: i32
  ud_text_content :: ustring
  ud_token_len :: usize
  ud_centrality :: f32
  ud_embedding :: "embedding_dto option"
  ud_query_distance :: "f32 option"
  ud_rank :: "rank option"

record split_dto =
  sd_split_id :: u64
  sd_sequence_id :: i32
  sd_doc_id :: u64
  sd_text_content :: ustring
  sd_token_len :: usize
  sd_summaries :: "summary_dto list"
  sd_embedding :: "embedding_dto option"
  sd_query_distance :: "f32 option"
  sd_rank :: "rank option"

record document_dto =
  dd_document_id :: u64
  dd_document_url :: ustring
  dd_splits :: "split_dto list"
  dd_summaries :: "summary_dto list option"

section \<open>Stored models\<close>

datatype embedding_data_type = EmbedSplit | EmbedSummary

record document_model =
  dmod_document_id :: u64
  dmod_document_url :: ustring
  dmod_split_ids :: "u64 list"
  dmod_summary_ids :: "u64 list option"

record split_model =
  smod_split_id :: u64
  smod_sequence_id :: i32
  smod_doc_id :: u64
  smod_text_content :: ustring
  smod_token_len :: usize
  smod_summary_ids :: "u64 list option"

record summary_model =
  umod_summary_id :: u64
  umod_document_id :: u64
  umod_split_id :: u64
  umod_split_sequence_id :: i32
  umod_text_content :: ustring
  umod_token_len :: usize
  umod_centrality :: f32

record embedding_model =
  emod_embedding_id :: u64
  emod_embedding_type :: embedding_data_type
  emod_embedding :: "f32 list"
  emod_model_id :: u64

record embedding_filter_info =
  ef_embed_id :: u64
  ef_doc_id :: u64
  ef_user_uuid :: "128 word"

section \<open>Conversions\<close>

definition document_to_model :: "document_dto \<Rightarrow> document_model" where
  "document_to_model d = \<lparr> dmod_document_id = dd_document_id d, dmod_document_url = dd_document_url d,
     dmod_split_ids = map sd_split_id (dd_splits d),
     dmod_summary_ids = map_option (map ud_summary_id) (dd_summaries d) \<rparr>"

definition document_to_dto :: "document_model \<Rightarrow> split_dto list \<Rightarrow> summary_dto list option \<Rightarrow> document_dto" where
  "document_to_dto m ss us = \<lparr> dd_document_id = dmod_document_id m,
     dd_document_url = dmod_document_url m, dd_splits = ss, dd_summaries = us \<rparr>"

definition split_to_model :: "split_dto \<Rightarrow> split_model" where
  "split_to_model s = \<lparr> smod_split_id = sd_split_id s, smod_sequence_id = sd_sequence_id s,
     smod_doc_id = sd_doc_id s, smod_text_content = sd_text_content s,
     smod_token_len = sd_token_len s,
     smod_summary_ids = (if sd_summaries s = [] then None else Some (map ud_summary_id (sd_summaries s))) \<rparr>"

definition split_to_dto_full ::
  "split_model \<Rightarrow> summary_dto list \<Rightarrow> embedding_dto option \<Rightarrow> f32 option \<Rightarrow> split_dto" where
  "split_to_dto_full m us e score = \<lparr> sd_split_id = smod_split_id m, sd_sequence_id = smod_sequence_id m,
     sd_doc_id = smod_doc_id m, sd_text_content = smod_text_content m, sd_token_len = smod_token_len m,
     sd_summaries = us, sd_embedding = e, sd_query_distance = score, sd_rank = None \<rparr>"

definition summary_to_model :: "summary_dto \<Rightarrow> summary_model" where
  "summary_to_model u = \<lparr> umod_summary_id = ud_summary_id u, umod_document_id = ud_document_id u,
     umod_split_id = ud_split_id u, umod_split_sequence_id = ud_split_sequence_id u,
     umod_text_content = ud_text_content u, umod_token_len = ud_token_len u,
     umod_centrality = ud_centrality u \<rparr>"

definition summary_to_dto :: "summary_model \<Rightarrow> embedding_dto option \<Rightarrow> f32 option \<Rightarrow> summary_dto" where
  "summary_to_dto m e dist = \<lparr> ud_summary_id = umod_summary_id m, ud_document_id = umod_document_id m,
     ud_split_id = umod_split_id m, ud_split_sequence_id = umod_split_sequence_id m,
     ud_text_content = umod_text_content m, ud_token_len = umod_token_len m,
     ud_centrality = umod_centrality m, ud_embedding = e, ud_query_distance = dist, ud_rank = None \<rparr>"

definition embedding_to_model :: "embedding_data_type \<Rightarrow> embedding_dto \<Rightarrow> embedding_model" where
  "embedding_to_model t e = \<lparr> emod_embedding_id = eb_embedding_id e, emod_embedding_type = t,
     emod_embedding = eb_embedding e, emod_model_id = eb_model_id e \<rparr>"

definition embedding_to_dto :: "embedding_model \<Rightarrow> embedding_dto" where
  "embedding_to_dto m = \<lparr> eb_embedding_id = emod_embedding_id m, eb_embedding = emod_embedding m,
     eb_model_id = emod_model_id m \<rparr>"

definition split_to_embedding_model :: "split_dto \<Rightarrow> embedding_model option" where
  "split_to_embedding_model s = map_option (embedding_to_model EmbedSplit) (sd_embedding s)"

definition summary_to_embedding_model :: "summary_dto \<Rightarrow> embedding_model option" where
  "summary_to_embedding_model u = map_option (embedding_to_model EmbedSummary) (ud_embedding u)"

definition split_filter_info :: "split_dto \<Rightarrow> 128 word \<Rightarrow> embedding_filter_info option" where
  "split_filter_info s user = map_option (\<lambda>e. \<lparr> ef_embed_id = eb_embedding_id e,
     ef_doc_id = sd_doc_id s, ef_user_uuid = user \<rparr>) (sd_embedding s)"

definition summary_filter_info :: "summary_dto \<Rightarrow> 128 word \<Rightarrow> embedding_filter_info option" where
  "summary_filter_info u user = map_option (\<lambda>e. \<lparr> ef_embed_id = eb_embedding_id e,
     ef_doc_id = ud_document_id u, ef_user_uuid = user \<rparr>) (ud_embedding u)"

section \<open>Round trips\<close>

lemma embedding_model_roundtrip: "embedding_to_dto (embedding_to_model t e) = e"
  by (cases e) (simp add: embedding_to_dto_def embedding_to_model_def)

lemma summary_model_roundtrip:
  "summary_to_dto (summary_to_model u) (ud_embedding u) (ud_query_distance u) = u\<lparr>ud_rank := None\<rparr>"
  by (cases u) (simp add: summary_to_dto_def summary_to_model_def)

lemma split_model_roundtrip:
  "split_to_dto_full (split_to_model s) (sd_summaries s) (sd_embedding s) (sd_query_distance s)
     = s\<lparr>sd_rank := None\<rparr>"
  by (cases s) (simp add: split_to_dto_full_def split_to_model_def)

lemma document_model_roundtrip:
  "document_to_dto (document_to_model d) (dd_splits d) (dd_summaries d) = d"
  by (cases d) (simp add: document_to_dto_def document_to_model_def)

text \<open>The stored model of a split does not tell an empty summary list from no list.\<close>

lemma split_model_ids: "opt_ids = smod_summary_ids (split_to_model s) \<Longrightarrow>
    (case opt_ids of None \<Rightarrow> [] | Some ids \<Rightarrow> ids) = map ud_summary_id (sd_summaries s)"
  by (simp add: split_to_model_def)

end
