(* ===== verification/Store.thy ===== *)
theory Store
  imports Segment Replay Dtos
begin

text \<open>
  The store of one shard (\<open>embedding-store/src/store.rs\<close>): opening, inserting and deleting
  documents, sealing, durability and reading. The state of an operation is the \<open>Store\<close>
  struct together with the file system; it is kept on the error path.
\<close>

section \<open>State\<close>

record store_options =
  so_model_id :: u64
  so_n_embd :: usize
  so_dtype :: vector_dtype
  so_segment_max_bytes :: u64

definition store_options_new :: "u64 \<Rightarrow> usize \<Rightarrow> store_options" where
  "store_options_new model_id n_embd = \<lparr> so_model_id = model_id, so_n_embd = n_embd,
     so_dtype = F16, so_segment_max_bytes = 256 * 1024 * 1024 \<rparr>"

record replaced =
  rp_existed :: bool
  rp_split_ids :: "u64 list"
  rp_summary_ids :: "u64 list"

record appended =
  ap_replaces :: bool
  ap_summaries :: "(u64 \<times> u64 \<times> u64 \<times> loc) list"
  ap_splits :: "(u64 \<times> u64 \<times> loc) list"
  ap_doc_entry :: doc_entry

record store =
  st_opts :: store_options
  st_manifest :: manifest
  st_sealed :: "(u32, sealed_segment) fmap"
  st_active :: active_segment
  st_maps :: maps
  st_pending_tombstone :: u64

type_synonym sstate = "store \<times> world"
type_synonym 'a sop = "(error, sstate, 'a) op"

definition on_disk :: "'a io \<Rightarrow> 'a sop" where
  "on_disk m = zoom snd (\<lambda>w s. (fst s, w)) m"

definition on_active :: "(error, seg_state, 'a) op \<Rightarrow> 'a sop" where
  "on_active m = zoom (\<lambda>(s, w). (st_active s, w)) (\<lambda>(a, w) (s, _). (s\<lparr>st_active := a\<rparr>, w)) m"

definition on_store :: "(store \<Rightarrow> store) \<Rightarrow> unit sop" where
  "on_store g = modM (\<lambda>(s, w). (g s, w))"

definition the_store :: "(store \<Rightarrow> 'a) \<Rightarrow> 'a sop" where
  "the_store g = getM (\<lambda>(s, w). g s)"

section \<open>Validation\<close>

definition check_embedding :: "store_options \<Rightarrow> entity_kind \<Rightarrow> u64 \<Rightarrow> embedding_dto option \<Rightarrow> error + unit" where
  "check_embedding opts what i embedding =
     (case embedding of
        None \<Rightarrow> Inl (NoEmbedding what i)
      | Some e \<Rightarrow>
          if length (eb_embedding e) \<noteq> unat (so_n_embd opts)
          then Inl (EmbeddingDimensions what i (length (eb_embedding e)) (unat (so_n_embd opts)))
          else if eb_model_id e \<noteq> so_model_id opts
          then Inl (EmbeddingModel what i (eb_model_id e) (so_model_id opts))
          else Inr ())"

text \<open>The loop over one list of summaries, with the ids seen and the distinct summaries so far.\<close>

fun check_summaries :: "store_options \<Rightarrow> summary_dto list \<Rightarrow> u64 set \<times> summary_dto list
    \<Rightarrow> error + (u64 set \<times> summary_dto list)" where
  "check_summaries opts [] st = Inr st"
| "check_summaries opts (u # us) (seen, uniq) =
     bindR (check_embedding opts ESummary (ud_summary_id u) (ud_embedding u)) (\<lambda>_.
       check_summaries opts us
         (if ud_summary_id u \<in> seen then (seen, uniq)
          else (insert (ud_summary_id u) seen, uniq @ [u])))"

fun check_splits :: "store_options \<Rightarrow> split_dto list \<Rightarrow> u64 set \<times> summary_dto list
    \<Rightarrow> error + (u64 set \<times> summary_dto list)" where
  "check_splits opts [] st = Inr st"
| "check_splits opts (s # ss) st =
     bindR (check_embedding opts ESplit (sd_split_id s) (sd_embedding s)) (\<lambda>_.
     bindR (check_summaries opts (sd_summaries s) st) (check_splits opts ss))"

definition validate :: "store_options \<Rightarrow> document_dto \<Rightarrow> error + summary_dto list" where
  "validate opts doc =
     bindR (check_summaries opts (opt_list (dd_summaries doc)) ({}, []))
       (\<lambda>st. bindR (check_splits opts (dd_splits doc) st) (\<lambda>st. Inr (snd st)))"

section \<open>Appending records\<close>

definition next_seq :: "u64 sop" where
  "next_seq = bindM (the_store (\<lambda>s. mf_next_seq (st_manifest s))) (\<lambda>seq.
     seqM (on_store (\<lambda>s. s\<lparr>st_manifest := (st_manifest s)\<lparr>mf_next_seq := mf_next_seq (st_manifest s) + 1\<rparr>\<rparr>))
       (ret seq))"

definition store_append :: "env \<Rightarrow> record_kind \<Rightarrow> bytes \<Rightarrow> bytes \<Rightarrow> loc sop" where
  "store_append E kind meta vector =
     bindM (the_store (\<lambda>s. if vector = [] then NoVector else so_dtype (st_opts s))) (\<lambda>dtype.
     bindM next_seq (\<lambda>seq.
     let bs = encode (e_crc E) seq kind dtype meta vector in
     bindM (on_active (seg_append bs seq)) (\<lambda>offset.
     the_store (\<lambda>s. \<lparr> loc_segment = aseg_id (st_active s), loc_offset = offset,
                       loc_len = word_of_nat (length bs) \<rparr>))))"

definition append_delete :: "env \<Rightarrow> u64 \<Rightarrow> unit sop" where
  "append_delete E doc_id =
     bindM next_seq (\<lambda>seq.
     bindM (liftM (to_vec (e_delete E) \<lparr> xm_doc_id = doc_id \<rparr>)) (\<lambda>meta.
     let bs = encode (e_crc E) seq DeleteDoc NoVector meta [] in
     bindM (on_active (seg_append bs seq)) (\<lambda>_. ret ())))"

definition summary_meta_of :: "store_options \<Rightarrow> summary_dto \<Rightarrow> summary_meta" where
  "summary_meta_of opts u =
     \<lparr> um_summary_id = ud_summary_id u, um_doc_id = ud_document_id u, um_split_id = ud_split_id u,
       um_split_seq_id = ud_split_sequence_id u, um_token_len = ud_token_len u,
       um_centrality = ud_centrality u, um_text = ud_text_content u,
       um_model_id = (case ud_embedding u of None \<Rightarrow> so_model_id opts | Some e \<Rightarrow> eb_model_id e) \<rparr>"

definition split_meta_of :: "store_options \<Rightarrow> split_dto \<Rightarrow> split_meta" where
  "split_meta_of opts s =
     \<lparr> sm_split_id = sd_split_id s, sm_seq_id = sd_sequence_id s, sm_doc_id = sd_doc_id s,
       sm_token_len = sd_token_len s, sm_text = sd_text_content s,
       sm_summary_ids = map ud_summary_id (sd_summaries s),
       sm_model_id = (case sd_embedding s of None \<Rightarrow> so_model_id opts | Some e \<Rightarrow> eb_model_id e) \<rparr>"

text \<open>\<open>expect("checked by validate")\<close>.\<close>

definition expect_vector :: "env \<Rightarrow> store_options \<Rightarrow> embedding_dto option \<Rightarrow> error + bytes" where
  "expect_vector E opts e =
     (case e of None \<Rightarrow> Inl Panicked | Some e \<Rightarrow> Inr (encode_vector (e_to_f16 E) (eb_embedding e) (so_dtype opts)))"

definition append_summary :: "env \<Rightarrow> summary_dto \<Rightarrow> (u64 \<times> u64 \<times> u64 \<times> loc) sop" where
  "append_summary E u =
     bindM (the_store st_opts) (\<lambda>opts.
     bindM (liftM (to_vec (e_summary E) (summary_meta_of opts u))) (\<lambda>meta.
     bindM (liftM (expect_vector E opts (ud_embedding u))) (\<lambda>vector.
     bindM (store_append E Summary meta vector) (\<lambda>l.
     ret (ud_summary_id u, ud_document_id u, ud_split_id u, l)))))"

definition append_split :: "env \<Rightarrow> split_dto \<Rightarrow> (u64 \<times> u64 \<times> loc) sop" where
  "append_split E s =
     bindM (the_store st_opts) (\<lambda>opts.
     bindM (liftM (to_vec (e_split E) (split_meta_of opts s))) (\<lambda>meta.
     bindM (liftM (expect_vector E opts (sd_embedding s))) (\<lambda>vector.
     bindM (store_append E Split meta vector) (\<lambda>l.
     ret (sd_split_id s, sd_doc_id s, l)))))"

definition doc_meta_of :: "document_dto \<Rightarrow> doc_meta" where
  "doc_meta_of doc =
     \<lparr> dm_doc_id = dd_document_id doc, dm_url = dd_document_url doc,
       dm_split_ids = map sd_split_id (dd_splits doc),
       dm_summary_ids = map_option (map ud_summary_id) (dd_summaries doc) \<rparr>"

text \<open>The ids that only the splits name, first occurrences in order.\<close>

definition extra_summary_ids_of :: "document_dto \<Rightarrow> u64 list" where
  "extra_summary_ids_of doc =
     (let in_doc_list = set (opt_list (map_option (map ud_summary_id) (dd_summaries doc))) in
      dedup_on (\<lambda>i. i) {} (filter (\<lambda>i. i \<notin> in_doc_list)
        (concat (map (\<lambda>s. map ud_summary_id (sd_summaries s)) (dd_splits doc)))))"

definition append_document :: "env \<Rightarrow> document_dto \<Rightarrow> summary_dto list \<Rightarrow> appended sop" where
  "append_document E doc us =
     bindM (the_store (\<lambda>s. fmlookup (docs (st_maps s)) (dd_document_id doc) \<noteq> None)) (\<lambda>replaces.
     seqM (if replaces then append_delete E (dd_document_id doc) else ret ())
    (bindM (mapM (append_summary E) us) (\<lambda>summary_locs.
     bindM (mapM (append_split E) (dd_splits doc)) (\<lambda>split_locs.
     bindM (liftM (to_vec (e_doc E) (doc_meta_of doc))) (\<lambda>meta.
     bindM (the_store (\<lambda>s. mf_next_seq (st_manifest s))) (\<lambda>seq.
     bindM (store_append E Doc meta []) (\<lambda>l.
     ret \<lparr> ap_replaces = replaces, ap_summaries = summary_locs, ap_splits = split_locs,
           ap_doc_entry =
             \<lparr> de_url = dd_document_url doc, de_split_ids = map sd_split_id (dd_splits doc),
               de_summary_ids = map_option (map ud_summary_id) (dd_summaries doc),
               de_extra_summary_ids = extra_summary_ids_of doc, de_seq = seq, de_loc = l \<rparr> \<rparr>)))))))"

section \<open>Sealing\<close>

definition store_manifest :: "env \<Rightarrow> unit sop" where
  "store_manifest E = (\<lambda>(s, w). on_disk (manifest_store (e_manifest E) (st_manifest s)) (s, w))"

definition seal_active :: "env \<Rightarrow> unit sop" where
  "seal_active E =
     bindM (the_store (\<lambda>s. aseg_len (st_active s) = 0)) (\<lambda>empty.
     if empty then ret ()
     else
       bindM (the_store (\<lambda>s. mf_next_segment_id (st_manifest s))) (\<lambda>new_id.
       seqM (on_store (\<lambda>s. s\<lparr>st_manifest := (st_manifest s)\<lparr>mf_next_segment_id := mf_next_segment_id (st_manifest s) + 1\<rparr>\<rparr>))
      (bindM (on_disk (seg_open new_id)) (\<lambda>new_active.
       bindM (the_store st_active) (\<lambda>old.
       seqM (on_store (\<lambda>s. s\<lparr>st_active := new_active\<rparr>))
      (let info = \<lparr> si_id = aseg_id old, si_bytes = aseg_len old,
                    si_first_seq = (case aseg_first_seq old of None \<Rightarrow> 0 | Some q \<Rightarrow> q),
                    si_last_seq = aseg_last_seq old \<rparr> in
       bindM (on_disk (seal_segment old)) (\<lambda>sealed.
       seqM (on_store (\<lambda>s. s\<lparr>st_sealed := fmupd (si_id info) sealed (st_sealed s),
           st_manifest := (st_manifest s)\<lparr>mf_sealed := mf_sealed (st_manifest s) @ [info], mf_active := new_id,
             mf_tombstone_bytes := mf_tombstone_bytes (st_manifest s) + st_pending_tombstone s\<rparr>,
           st_pending_tombstone := 0\<rparr>))
      (store_manifest E))))))))"

definition seal_if_needed :: "env \<Rightarrow> unit sop" where
  "seal_if_needed E =
     bindM (the_store (\<lambda>s. aseg_len (st_active s) < so_segment_max_bytes (st_opts s)
                            \<or> aseg_len (st_active s) = 0)) (\<lambda>small.
     if small then ret () else seal_active E)"

section \<open>Inserting and deleting\<close>

text \<open>The bytes a removal frees, moved to the two counters.\<close>

definition count_tombstones :: "removed_doc \<Rightarrow> store \<Rightarrow> store" where
  "count_tombstones r s = s\<lparr>
     st_manifest := (st_manifest s)\<lparr>mf_tombstone_bytes := mf_tombstone_bytes (st_manifest s) + rd_sealed_bytes r\<rparr>,
     st_pending_tombstone := st_pending_tombstone s + rd_active_bytes r\<rparr>"

definition remove_from_maps :: "u64 \<Rightarrow> removed_doc sop" where
  "remove_from_maps doc_id =
     bindM (the_store (\<lambda>s. remove_doc doc_id (aseg_id (st_active s)) (st_maps s))) (\<lambda>r.
     case r of
       None \<Rightarrow> fail Panicked
     | Some (removed, m) \<Rightarrow>
         seqM (on_store (\<lambda>s. count_tombstones removed (s\<lparr>st_maps := m\<rparr>))) (ret removed))"

definition publish :: "appended \<Rightarrow> u64 \<Rightarrow> maps \<Rightarrow> maps" where
  "publish ap doc_id m = m\<lparr>
     summaries := fminserts fst (\<lambda>(_, d, s, l). \<lparr> ue_doc_id = d, ue_split_id = s, ue_loc = l \<rparr>)
       (ap_summaries ap) (summaries m),
     splits := fminserts fst (\<lambda>(_, d, l). \<lparr> se_doc_id = d, se_loc = l \<rparr>) (ap_splits ap) (splits m),
     docs := fmupd doc_id (ap_doc_entry ap) (docs m)\<rparr>"

text \<open>A failed append phase puts the segment and the sequence counter back; a panic does not return.\<close>

definition rewind :: "u64 \<Rightarrow> u64 \<Rightarrow> error \<Rightarrow> 'a sop" where
  "rewind rewind_len rewind_seq e =
     (if e = Panicked then fail Panicked
      else attempt (on_active (seg_truncate_to rewind_len)) (\<lambda>r. case r of
        Inl rewind_err \<Rightarrow> fail (RewindFailed e rewind_err)
      | Inr _ \<Rightarrow>
          seqM (on_store (\<lambda>s. s\<lparr>st_manifest := (st_manifest s)\<lparr>mf_next_seq := rewind_seq\<rparr>\<rparr>)) (fail e)))"

definition retain_removed :: "document_dto \<Rightarrow> summary_dto list \<Rightarrow> replaced \<Rightarrow> replaced" where
  "retain_removed doc us r =
     (let live_splits = set (map sd_split_id (dd_splits doc)); live_summaries = set (map ud_summary_id us) in
      r\<lparr>rp_split_ids := filter (\<lambda>i. i \<notin> live_splits) (rp_split_ids r),
        rp_summary_ids := filter (\<lambda>i. i \<notin> live_summaries) (rp_summary_ids r)\<rparr>)"

definition store_insert :: "env \<Rightarrow> document_dto \<Rightarrow> replaced sop" where
  "store_insert E doc =
     bindM (the_store st_opts) (\<lambda>opts.
     bindM (liftM (validate opts doc)) (\<lambda>us.
     bindM (the_store (\<lambda>s. aseg_len (st_active s))) (\<lambda>rewind_len.
     bindM (the_store (\<lambda>s. mf_next_seq (st_manifest s))) (\<lambda>rewind_seq.
     attempt (append_document E doc us) (\<lambda>r. case r of
       Inl e \<Rightarrow> rewind rewind_len rewind_seq e
     | Inr ap \<Rightarrow>
         bindM (if ap_replaces ap
                then bindM (remove_from_maps (dd_document_id doc)) (\<lambda>removed.
                       ret \<lparr> rp_existed = True, rp_split_ids = rd_split_ids removed,
                             rp_summary_ids = rd_summary_ids removed \<rparr>)
                else ret \<lparr> rp_existed = False, rp_split_ids = [], rp_summary_ids = [] \<rparr>) (\<lambda>replaced.
         seqM (on_store (\<lambda>s. s\<lparr>st_maps := publish ap (dd_document_id doc) (st_maps s)\<rparr>))
        (seqM (on_active seg_flush)
        (seqM (seal_if_needed E)
        (ret (retain_removed doc us replaced))))))))))"

definition store_delete :: "env \<Rightarrow> u64 \<Rightarrow> removed_doc option sop" where
  "store_delete E doc_id =
     bindM (the_store (\<lambda>s. fmlookup (docs (st_maps s)) doc_id \<noteq> None)) (\<lambda>present.
     if \<not> present then ret None
     else
       seqM (append_delete E doc_id)
      (bindM (remove_from_maps doc_id) (\<lambda>removed.
       seqM (on_active seg_flush)
      (seqM (seal_if_needed E)
      (ret (Some removed))))))"

section \<open>Durability\<close>

definition store_fsync :: "unit sop" where
  "store_fsync = on_active seg_sync"

definition snapshot_meta :: "env \<Rightarrow> u64 sop" where
  "snapshot_meta E =
     seqM (on_active seg_sync)
    (bindM (the_store (\<lambda>s. saturating_sub (mf_next_seq (st_manifest s)) 1)) (\<lambda>snapshot_seq.
     seqM (\<lambda>(s, w). on_disk (snapshot_store (e_crc E) (e_order E) (st_maps s) snapshot_seq) (s, w))
    (seqM (on_store (\<lambda>s. s\<lparr>st_manifest := (st_manifest s)\<lparr>mf_snapshot_seq := snapshot_seq\<rparr>\<rparr>))
    (seqM (store_manifest E) (ret snapshot_seq)))))"

section \<open>Opening\<close>

definition fits :: "(u32, sealed_segment) fmap \<Rightarrow> active_segment \<Rightarrow> loc \<Rightarrow> bool" where
  "fits sealed active l =
     (let stop = loc_offset l + ucast (loc_len l) in
      if loc_segment l = aseg_id active then stop \<le> aseg_len active
      else case fmlookup sealed (loc_segment l) of
             None \<Rightarrow> False
           | Some seg \<Rightarrow> unat stop \<le> length (sseg_map seg))"

definition locations_fit :: "maps \<Rightarrow> (u32, sealed_segment) fmap \<Rightarrow> active_segment \<Rightarrow> bool" where
  "locations_fit m sealed active \<longleftrightarrow>
     fBall (fmran (docs m)) (\<lambda>e. fits sealed active (de_loc e))
     \<and> fBall (fmran (splits m)) (\<lambda>e. fits sealed active (se_loc e))
     \<and> fBall (fmran (summaries m)) (\<lambda>e. fits sealed active (ue_loc e))"

text \<open>The segment files of the directory; other names are passed over.\<close>

fun seg_id_of :: "fname \<Rightarrow> u32 option" where
  "seg_id_of (SegFile i) = Some i"
| "seg_id_of _ = None"

definition seg_ids :: "world \<Rightarrow> u32 fset" where
  "seg_ids w = the |`| ffilter (\<lambda>x. x \<noteq> None) (seg_id_of |`| fmdom (files w))"

definition remove_orphan_segments :: "env \<Rightarrow> manifest \<Rightarrow> unit io" where
  "remove_orphan_segments E m =
     seqM fs_check
    (bindM (getM (\<lambda>w. e_dir_order E (seg_ids w))) (\<lambda>ids.
     forM (\<lambda>i. if i \<in> set (manifest_segment_ids m) \<or> i = mf_active m then ret ()
               else fs_remove (SegFile i)) ids))"

definition check_manifest :: "store_options \<Rightarrow> manifest \<Rightarrow> error + unit" where
  "check_manifest opts m =
     (if mf_model_id m \<noteq> so_model_id opts then Inl (WrongModel (mf_model_id m) (so_model_id opts))
      else if ucast (mf_n_embd m) \<noteq> so_n_embd opts then Inl (WrongDimensions (mf_n_embd m) (unat (so_n_embd opts)))
      else if mf_dtype m \<noteq> dtype_u8 (so_dtype opts) then Inl (WrongDtype (mf_dtype m) (dtype_u8 (so_dtype opts)))
      else Inr ())"

definition load_or_create_manifest :: "env \<Rightarrow> store_options \<Rightarrow> manifest io" where
  "load_or_create_manifest E opts =
     bindM (\<lambda>w. (manifest_load (e_manifest E) w, w)) (\<lambda>loaded. case loaded of
       Some m \<Rightarrow> bindM (liftM (check_manifest opts m)) (\<lambda>_. ret m)
     | None \<Rightarrow>
         let m = manifest_new (so_model_id opts) (ucast (so_n_embd opts)) (dtype_u8 (so_dtype opts)) in
         seqM (manifest_store (e_manifest E) m) (ret m))"

fun open_sealed :: "segment_info list \<Rightarrow> (u32, sealed_segment) fmap \<Rightarrow> world \<Rightarrow> error + (u32, sealed_segment) fmap" where
  "open_sealed [] acc w = Inr acc"
| "open_sealed (info # infos) acc w =
     bindR (sealed_open (si_id info) w) (\<lambda>seg. open_sealed infos (fmupd (si_id info) seg acc) w)"

text \<open>The snapshot when it can be trusted, or \<open>None\<close> with the flag that it was rejected.\<close>

definition trusted_snapshot ::
  "env \<Rightarrow> manifest \<Rightarrow> (u32, sealed_segment) fmap \<Rightarrow> active_segment \<Rightarrow> world \<Rightarrow> bool \<times> maps \<times> u64" where
  "trusted_snapshot E m sealed active w =
     (case snapshot_load (e_crc E) w of
        Inr (Some (maps, seq)) \<Rightarrow>
          if seq \<noteq> mf_snapshot_seq m then (True, empty_maps, 0)
          else if \<not> locations_fit maps sealed active then (True, empty_maps, 0)
          else (False, maps, seq)
      | Inr None \<Rightarrow> (False, empty_maps, 0)
      | Inl e \<Rightarrow> (True, empty_maps, 0))"

fun replay_sealed ::
  "env \<Rightarrow> u64 \<Rightarrow> (u32, sealed_segment) fmap \<Rightarrow> segment_info list \<Rightarrow> maps \<times> u64 \<Rightarrow> error + maps \<times> u64" where
  "replay_sealed E snapshot_seq sealed [] st = Inr st"
| "replay_sealed E snapshot_seq sealed (info # infos) (m, max_seq) =
     (if si_last_seq info \<le> snapshot_seq then replay_sealed E snapshot_seq sealed infos (m, max_seq)
      else case fmlookup sealed (si_id info) of
        None \<Rightarrow> Inl Panicked
      | Some seg \<Rightarrow>
          bindR (scan_segment E (sseg_map seg) (si_id info) snapshot_seq m False) (\<lambda>(scan, m').
            replay_sealed E snapshot_seq sealed infos (m', max max_seq (sc_last_seq scan))))"

definition store_open :: "env \<Rightarrow> store_options \<Rightarrow> (error, world, store) op" where
  "store_open E opts =
     seqM fs_check
    (bindM (load_or_create_manifest E opts) (\<lambda>manifest.
     seqM (remove_orphan_segments E manifest)
    (bindM (\<lambda>w. (open_sealed (mf_sealed manifest) fmempty w, w)) (\<lambda>sealed.
     bindM (seg_open (mf_active manifest)) (\<lambda>active.
     bindM (getM (trusted_snapshot E manifest sealed active)) (\<lambda>(rejected, snap_maps, snapshot_seq).
     bindM (if rejected
            then let manifest' = manifest\<lparr>mf_snapshot_seq := 0\<rparr> in
                 seqM snapshot_remove (seqM (manifest_store (e_manifest E) manifest') (ret manifest'))
            else ret manifest) (\<lambda>manifest.
     bindM (liftM (replay_sealed E snapshot_seq sealed (mf_sealed manifest) (snap_maps, snapshot_seq))) (\<lambda>(m1, max1).
     bindM (\<lambda>w. (seg_read_all active w, w)) (\<lambda>active_bytes.
     bindM (liftM (scan_segment E active_bytes (aseg_id active) snapshot_seq m1 True)) (\<lambda>(scan, m2).
     let max_seq = max max1 (sc_last_seq scan);
         active1 = active\<lparr>aseg_first_seq := sc_first_seq scan, aseg_last_seq := sc_last_seq scan\<rparr> in
     bindM (case sc_torn_at scan of
              None \<Rightarrow> ret active1
            | Some torn_at \<Rightarrow>
                (\<lambda>w. case seg_truncate_to torn_at (active1, w) of (r, (a, w')) \<Rightarrow> (bindR r (\<lambda>_. Inr a), w'))) (\<lambda>active2.
     ret \<lparr> st_opts = opts,
           st_manifest = manifest\<lparr>mf_next_seq := max (mf_next_seq manifest) (max_seq + 1)\<rparr>,
           st_sealed = sealed, st_active = active2, st_maps = m2, st_pending_tombstone = 0 \<rparr>)))))))))))"

end
