(* ===== verification/Step_Rel.thy ===== *)
theory Step_Rel
  imports Prelude
begin

text \<open>
  Relational reasoning about state-passing operations. \<open>keeps R m\<close> says that every run of
  \<open>m\<close>, failed ones included, moves the state along \<open>R\<close>. The locale \<open>step_relation\<close> is the
  contract of such an \<open>R\<close>, a preorder, and derives the rules for the sequencing operators;
  each component interprets it for its own frame relation.
\<close>

definition keeps :: "('s \<Rightarrow> 's \<Rightarrow> bool) \<Rightarrow> ('e, 's, 'a) op \<Rightarrow> bool" where
  "keeps R m \<longleftrightarrow> (\<forall>s r t. m s = (r, t) \<longrightarrow> R s t)"

lemma keepsD: "keeps R m \<Longrightarrow> m s = (r, t) \<Longrightarrow> R s t"
  by (simp add: keeps_def)

lemma keepsI: "(\<And>s r t. m s = (r, t) \<Longrightarrow> R s t) \<Longrightarrow> keeps R m"
  by (simp add: keeps_def)

lemma keeps_mono: "keeps R m \<Longrightarrow> (\<And>s t. R s t \<Longrightarrow> Q s t) \<Longrightarrow> keeps Q m"
  by (auto simp: keeps_def)

locale step_relation =
  fixes R :: "'s \<Rightarrow> 's \<Rightarrow> bool"
  assumes rel_refl: "R s s"
    and rel_trans: "R s t \<Longrightarrow> R t u \<Longrightarrow> R s u"
begin

lemma keeps_ret: "keeps R (ret x)"
  by (simp add: keeps_def ret_def rel_refl)

lemma keeps_fail: "keeps R (fail e)"
  by (simp add: keeps_def fail_def rel_refl)

lemma keeps_getM: "keeps R (getM f)"
  by (simp add: keeps_def getM_def rel_refl)

lemma keeps_liftM: "keeps R (liftM r)"
  by (simp add: keeps_def liftM_def rel_refl)

lemma keeps_read: "keeps R (\<lambda>s. (f s, s))"
  by (simp add: keeps_def rel_refl)

lemma keeps_bind:
  assumes "keeps R m" "\<And>x. keeps R (k x)"
  shows "keeps R (bindM m k)"
proof (rule keepsI)
  fix s r u assume run: "bindM m k s = (r, u)"
  obtain p t where m: "m s = (p, t)" by fastforce
  with assms(1) have "R s t" by (rule keepsD)
  moreover have "R t u"
  proof (cases p)
    case (Inl e)
    with run m show ?thesis by (simp add: bindM_def rel_refl)
  next
    case (Inr x)
    with run m have "k x t = (r, u)" by (simp add: bindM_def)
    with assms(2) show ?thesis by (rule keepsD)
  qed
  ultimately show "R s u" by (rule rel_trans)
qed

lemma keeps_seq: "keeps R m \<Longrightarrow> keeps R k \<Longrightarrow> keeps R (seqM m k)"
  by (simp add: seqM_def keeps_bind)

lemma keeps_attempt:
  assumes "keeps R m" "\<And>r. keeps R (h r)"
  shows "keeps R (attempt m h)"
proof (rule keepsI)
  fix s r u assume run: "attempt m h s = (r, u)"
  obtain p t where m: "m s = (p, t)" by fastforce
  with run have "h p t = (r, u)" by (simp add: attempt_def)
  with m show "R s u" using assms keepsD rel_trans by meson
qed

lemma keeps_if: "keeps R m \<Longrightarrow> keeps R k \<Longrightarrow> keeps R (if b then m else k)"
  by simp

lemma keeps_mapM: "(\<And>x. keeps R (f x)) \<Longrightarrow> keeps R (mapM f xs)"
  by (induction xs) (simp_all add: keeps_ret keeps_bind)

lemma keeps_forM: "(\<And>x. keeps R (f x)) \<Longrightarrow> keeps R (forM f xs)"
  by (induction xs) (simp_all add: keeps_ret keeps_seq)

lemmas keeps_rules =
  keeps_ret keeps_fail keeps_getM keeps_liftM keeps_read keeps_bind keeps_seq keeps_attempt
  keeps_if keeps_mapM keeps_forM

end

end
