(* ===== verification/Store_Log.thy ===== *)
theory Store_Log
  imports Store Step_Rel
begin

text \<open>
  The append phase of an insert. The records an insert writes are stated once, as a list; a
  successful append phase puts exactly their frames at the end of the active segment and
  returns their locations, and a failed one leaves the maps alone and adds bytes at the end
  only, so that truncating restores the segment.
\<close>

section \<open>The records of an insert\<close>

definition meta_bytes :: "'m codec \<Rightarrow> 'm \<Rightarrow> bytes" where
  "meta_bytes c m = (case enc c m of None \<Rightarrow> [] | Some b \<Rightarrow> b)"

definition vector_of :: "env \<Rightarrow> store_options \<Rightarrow> embedding_dto option \<Rightarrow> bytes" where
  "vector_of E opts e =
     (case e of None \<Rightarrow> [] | Some e \<Rightarrow> encode_vector (e_to_f16 E) (eb_embedding e) (so_dtype opts))"

definition record_of :: "store_options \<Rightarrow> record_kind \<Rightarrow> bytes \<Rightarrow> bytes \<Rightarrow> u64 \<Rightarrow> log_record" where
  "record_of opts kind meta vector seq =
     \<lparr> lr_seq = seq, lr_kind = kind, lr_dtype = (if vector = [] then NoVector else so_dtype opts),
       lr_meta = meta, lr_vector = vector \<rparr>"

definition delete_record :: "env \<Rightarrow> store_options \<Rightarrow> u64 \<Rightarrow> u64 \<Rightarrow> log_record" where
  "delete_record E opts d = record_of opts DeleteDoc (meta_bytes (e_delete E) \<lparr> xm_doc_id = d \<rparr>) []"

definition summary_record :: "env \<Rightarrow> store_options \<Rightarrow> summary_dto \<Rightarrow> u64 \<Rightarrow> log_record" where
  "summary_record E opts u =
     record_of opts Summary (meta_bytes (e_summary E) (summary_meta_of opts u)) (vector_of E opts (ud_embedding u))"

definition split_record :: "env \<Rightarrow> store_options \<Rightarrow> split_dto \<Rightarrow> u64 \<Rightarrow> log_record" where
  "split_record E opts s =
     record_of opts Split (meta_bytes (e_split E) (split_meta_of opts s)) (vector_of E opts (sd_embedding s))"

definition doc_record :: "env \<Rightarrow> store_options \<Rightarrow> document_dto \<Rightarrow> u64 \<Rightarrow> log_record" where
  "doc_record E opts doc = record_of opts Doc (meta_bytes (e_doc E) (doc_meta_of doc)) []"

text \<open>Consecutive sequence numbers.\<close>

fun number :: "u64 \<Rightarrow> (u64 \<Rightarrow> log_record) list \<Rightarrow> log_record list" where
  "number n [] = []"
| "number n (f # fs) = f n # number (n + 1) fs"

fun locs_from :: "u32 \<Rightarrow> nat \<Rightarrow> log_record list \<Rightarrow> loc list" where
  "locs_from i off [] = []"
| "locs_from i off (r # rs) = rec_loc i off r # locs_from i (off + frame_len r) rs"

definition insert_bodies :: "env \<Rightarrow> store_options \<Rightarrow> bool \<Rightarrow> document_dto \<Rightarrow> summary_dto list \<Rightarrow> (u64 \<Rightarrow> log_record) list" where
  "insert_bodies E opts replaces doc us =
     (if replaces then [delete_record E opts (dd_document_id doc)] else [])
     @ map (summary_record E opts) us @ map (split_record E opts) (dd_splits doc)
     @ [doc_record E opts doc]"

definition insert_records :: "env \<Rightarrow> store_options \<Rightarrow> bool \<Rightarrow> document_dto \<Rightarrow> summary_dto list \<Rightarrow> u64 \<Rightarrow> log_record list" where
  "insert_records E opts replaces doc us seq = number seq (insert_bodies E opts replaces doc us)"

lemma length_number [simp]: "length (number n fs) = length fs"
  by (induction fs arbitrary: n) simp_all

lemma number_append: "number n (fs @ gs) = number n fs @ number (n + word_of_nat (length fs)) gs"
  by (induction fs arbitrary: n) (simp_all add: add.assoc add.commute add.left_commute)

lemma length_locs_from [simp]: "length (locs_from i off rs) = length rs"
  by (induction rs arbitrary: off) simp_all

lemma locs_from_append:
  "locs_from i off (rs @ ss) = locs_from i off rs @ locs_from i (off + log_len rs) ss"
  by (induction rs arbitrary: off) (simp_all add: add.assoc)

lemma meta_bytes_ok:
  assumes "codec_ok c"
  shows "to_vec c m = Inr (meta_bytes c m)" "from_slice c (meta_bytes c m) = Inr m"
proof -
  obtain b where "enc c m = Some b" "dec c b = Some m"
    using assms unfolding codec_ok_def by blast
  then show "to_vec c m = Inr (meta_bytes c m)" "from_slice c (meta_bytes c m) = Inr m"
    by (simp_all add: to_vec_def from_slice_def meta_bytes_def)
qed

section \<open>Appending whole records\<close>

definition seg_of :: "sstate \<Rightarrow> seg_state" where
  "seg_of x = (st_active (fst x), snd x)"

abbreviation active_id :: "sstate \<Rightarrow> u32" where
  "active_id x \<equiv> aseg_id (st_active (fst x))"

abbreviation next_seq_of :: "sstate \<Rightarrow> u64" where
  "next_seq_of x \<equiv> mf_next_seq (st_manifest (fst x))"

text \<open>
  \<open>appends E rs x y\<close>: the frames of \<open>rs\<close> are at the end of the active segment and one
  sequence number per record has been used; nothing else has changed.
\<close>

definition same_but_active :: "sstate \<Rightarrow> sstate \<Rightarrow> bool" where
  "same_but_active x y \<longleftrightarrow>
     st_opts (fst y) = st_opts (fst x) \<and> st_sealed (fst y) = st_sealed (fst x)
     \<and> st_maps (fst y) = st_maps (fst x) \<and> st_pending_tombstone (fst y) = st_pending_tombstone (fst x)
     \<and> (st_manifest (fst y))\<lparr>mf_next_seq := 0\<rparr> = (st_manifest (fst x))\<lparr>mf_next_seq := 0\<rparr>
     \<and> seg_frame (seg_of x) (seg_of y)"

definition appends :: "env \<Rightarrow> log_record list \<Rightarrow> sstate \<Rightarrow> sstate \<Rightarrow> bool" where
  "appends E rs x y \<longleftrightarrow>
     same_but_active x y \<and> next_seq_of y = next_seq_of x + word_of_nat (length rs)
     \<and> seg_content (seg_of y) = seg_content (seg_of x) @ log_bytes E rs
     \<and> aseg_last_seq (st_active (fst y)) =
         (if rs = [] then aseg_last_seq (st_active (fst x)) else lr_seq (last rs))
     \<and> (seg_ok (seg_of x) \<longrightarrow> length (seg_content (seg_of x)) + log_len rs < 2 ^ 64 \<longrightarrow> seg_ok (seg_of y))"

lemma same_but_active_refl [simp]: "same_but_active x x"
  by (simp add: same_but_active_def)

lemma same_but_active_trans: "same_but_active x y \<Longrightarrow> same_but_active y z \<Longrightarrow> same_but_active x z"
  unfolding same_but_active_def by (auto intro: seg_frame_trans)

lemma appends_Nil [simp]: "appends E [] x x"
  by (simp add: appends_def)

lemma appends_append:
  assumes "appends E rs x y" "appends E ss y z"
  shows "appends E (rs @ ss) x z"
proof -
  have "seg_ok (seg_of z)"
    if "seg_ok (seg_of x)" "length (seg_content (seg_of x)) + log_len (rs @ ss) < 2 ^ 64"
  proof -
    have "seg_ok (seg_of y)" "length (seg_content (seg_of y)) + log_len ss < 2 ^ 64"
      using assms(1) that by (auto simp: appends_def len_simps)
    with assms(2) show ?thesis by (simp add: appends_def)
  qed
  then show ?thesis
    using assms same_but_active_trans [of x y z] by (auto simp: appends_def add.assoc)
qed

lemma on_active_Inr:
  "on_active m x = (Inr r, y) \<longleftrightarrow>
     (\<exists>q. m (seg_of x) = (Inr r, q) \<and> y = ((fst x)\<lparr>st_active := fst q\<rparr>, snd q))"
  by (cases x) (auto simp: on_active_def zoom_def seg_of_def split: prod.splits)

lemma on_store_Inr [op_inv]: "on_store g x = (Inr r, y) \<longleftrightarrow> y = (g (fst x), snd x)"
  by (cases x) (auto simp: on_store_def modM_def)

lemma the_store_Inr [op_inv]: "the_store g x = (Inr r, y) \<longleftrightarrow> r = g (fst x) \<and> y = x"
  by (cases x) (auto simp: the_store_def getM_def)

lemma next_seq_Inr [op_inv]:
  "next_seq x = (Inr q, y) \<longleftrightarrow> q = next_seq_of x
     \<and> y = ((fst x)\<lparr>st_manifest := (st_manifest (fst x))\<lparr>mf_next_seq := next_seq_of x + 1\<rparr>\<rparr>, snd x)"
  by (auto simp: next_seq_def bindM_Inr seqM_Inr op_inv)

text \<open>Numbering a record and appending its frame.\<close>

lemma append_frame:
  assumes "next_seq x = (Inr q, y)" "on_active (seg_append (frame E r) q) y = (Inr off, z)"
  shows "lr_seq r = q \<Longrightarrow> appends E [r] x z" "q = next_seq_of x" "active_id z = active_id x"
    "seg_ok (seg_of x) \<Longrightarrow> off = word_of_nat (length (seg_content (seg_of x)))"
    "st_opts (fst z) = st_opts (fst x)"
proof -
  from assms(1) have q: "q = next_seq_of x"
    and y: "y = ((fst x)\<lparr>st_manifest := (st_manifest (fst x))\<lparr>mf_next_seq := next_seq_of x + 1\<rparr>\<rparr>, snd x)"
    by (simp_all add: next_seq_Inr)
  from assms(2) obtain s where s: "seg_append (frame E r) q (seg_of y) = (Inr off, s)"
    "z = ((fst y)\<lparr>st_active := fst s\<rparr>, snd s)"
    by (auto simp: on_active_Inr)
  have sy: "seg_of y = seg_of x" and sz: "seg_of z = s"
    by (simp_all add: y seg_of_def s(2))
  note A = seg_append_Inr [OF s(1), unfolded sy]
  show "q = next_seq_of x" by (rule q)
  show "st_opts (fst z) = st_opts (fst x)" by (simp add: s(2) y)
  show id: "active_id z = active_id x"
    using A(3) by (simp add: s(2) seg_frame_def seg_of_def)
  have "seg_ok (seg_of z)" if "seg_ok (seg_of x)" "length (seg_content (seg_of x)) + log_len [r] < 2 ^ 64"
    unfolding sz by (rule seg_append_ok [OF s(1), unfolded sy]) (use that in \<open>simp_all add: len_simps\<close>)
  moreover have "same_but_active x z"
    using A(3) unfolding same_but_active_def sz by (simp add: s(2) y)
  ultimately show "appends E [r] x z" if "lr_seq r = q"
    using A(2,6) that unfolding appends_def sz by (simp add: s(2) y)
  show "off = word_of_nat (length (seg_content (seg_of x)))" if "seg_ok (seg_of x)"
    using that A(1) by (simp add: seg_ok_def seg_of_def)
qed

lemma store_append_Inr:
  assumes "store_append E kind meta vector x = (Inr l, z)"
  defines "r \<equiv> record_of (st_opts (fst x)) kind meta vector (next_seq_of x)"
  shows "appends E [r] x z" "active_id z = active_id x" "st_opts (fst z) = st_opts (fst x)"
    "seg_ok (seg_of x) \<Longrightarrow> l = rec_loc (active_id x) (length (seg_content (seg_of x))) r"
proof -
  let ?d = "if vector = [] then NoVector else so_dtype (st_opts (fst x))"
  from assms(1) obtain q y off where n: "next_seq x = (Inr q, y)"
    and a: "on_active (seg_append (encode (e_crc E) q kind ?d meta vector) q) y = (Inr off, z)"
    and l: "l = \<lparr> loc_segment = active_id z, loc_offset = off,
          loc_len = word_of_nat (length (encode (e_crc E) q kind ?d meta vector)) \<rparr>"
    by (auto simp: store_append_def bindM_Inr the_store_Inr Let_def)
  have q: "q = next_seq_of x" using n by (simp add: next_seq_Inr)
  have f: "frame E r = encode (e_crc E) q kind ?d meta vector"
    by (simp add: frame_def r_def record_of_def q)
  note F = append_frame [OF n a [folded f]]
  show "appends E [r] x z" by (rule F(1)) (simp add: r_def record_of_def q)
  show "active_id z = active_id x" by (rule F(3))
  show "st_opts (fst z) = st_opts (fst x)" by (rule F(5))
  show "l = rec_loc (active_id x) (length (seg_content (seg_of x))) r" if "seg_ok (seg_of x)"
    using F(3) F(4) [OF that] by (simp add: l rec_loc_def flip: f) (simp add: length_frame)
qed

lemma append_delete_Inr:
  assumes "append_delete E d x = (Inr u, z)" "env_ok E"
  shows "appends E [delete_record E (st_opts (fst x)) d (next_seq_of x)] x z"
    "active_id z = active_id x" "st_opts (fst z) = st_opts (fst x)"
proof -
  have c: "codec_ok (e_delete E)" using assms(2) by (simp add: env_ok_def)
  let ?r = "delete_record E (st_opts (fst x)) d (next_seq_of x)"
  from assms(1) obtain q y off where n: "next_seq x = (Inr q, y)"
    and a: "on_active (seg_append (encode (e_crc E) q DeleteDoc NoVector (meta_bytes (e_delete E) \<lparr>xm_doc_id = d\<rparr>) []) q) y = (Inr off, z)"
    by (auto simp: append_delete_def bindM_Inr liftM_Inr meta_bytes_ok(1) [OF c] Let_def ret_Inr)
  have q: "q = next_seq_of x" using n by (simp add: next_seq_Inr)
  have f: "frame E ?r = encode (e_crc E) q DeleteDoc NoVector (meta_bytes (e_delete E) \<lparr>xm_doc_id = d\<rparr>) []"
    by (simp add: frame_def delete_record_def record_of_def q)
  note F = append_frame [OF n a [folded f]]
  show "appends E [?r] x z" by (rule F(1)) (simp add: delete_record_def record_of_def q)
  show "active_id z = active_id x" by (rule F(3))
  show "st_opts (fst z) = st_opts (fst x)" by (rule F(5))
qed

lemma append_summary_Inr:
  assumes "append_summary E u x = (Inr p, z)" "env_ok E"
  defines "r \<equiv> summary_record E (st_opts (fst x)) u (next_seq_of x)"
  shows "appends E [r] x z" "active_id z = active_id x" "st_opts (fst z) = st_opts (fst x)"
    "seg_ok (seg_of x) \<Longrightarrow> p = (ud_summary_id u, ud_document_id u, ud_split_id u,
       rec_loc (active_id x) (length (seg_content (seg_of x))) r)"
proof -
  have c: "codec_ok (e_summary E)" using assms(2) by (simp add: env_ok_def)
  from assms(1) obtain l where
    a: "store_append E Summary (meta_bytes (e_summary E) (summary_meta_of (st_opts (fst x)) u))
          (vector_of E (st_opts (fst x)) (ud_embedding u)) x = (Inr l, z)"
    and p: "p = (ud_summary_id u, ud_document_id u, ud_split_id u, l)"
    by (auto simp: append_summary_def bindM_Inr liftM_Inr the_store_Inr ret_Inr expect_vector_def vector_of_def
        meta_bytes_ok(1) [OF c] split: option.splits)
  note S = store_append_Inr [OF a, folded summary_record_def, folded r_def]
  show "appends E [r] x z" "active_id z = active_id x" "st_opts (fst z) = st_opts (fst x)"
    using S(1-3) by simp_all
  show "p = (ud_summary_id u, ud_document_id u, ud_split_id u,
       rec_loc (active_id x) (length (seg_content (seg_of x))) r)" if "seg_ok (seg_of x)"
    using S(4) [OF that] by (simp add: p)
qed

lemma append_split_Inr:
  assumes "append_split E sp x = (Inr p, z)" "env_ok E"
  defines "r \<equiv> split_record E (st_opts (fst x)) sp (next_seq_of x)"
  shows "appends E [r] x z" "active_id z = active_id x" "st_opts (fst z) = st_opts (fst x)"
    "seg_ok (seg_of x) \<Longrightarrow> p = (sd_split_id sp, sd_doc_id sp,
       rec_loc (active_id x) (length (seg_content (seg_of x))) r)"
proof -
  have c: "codec_ok (e_split E)" using assms(2) by (simp add: env_ok_def)
  from assms(1) obtain l where
    a: "store_append E Split (meta_bytes (e_split E) (split_meta_of (st_opts (fst x)) sp))
          (vector_of E (st_opts (fst x)) (sd_embedding sp)) x = (Inr l, z)"
    and p: "p = (sd_split_id sp, sd_doc_id sp, l)"
    by (auto simp: append_split_def bindM_Inr liftM_Inr the_store_Inr ret_Inr expect_vector_def vector_of_def
        meta_bytes_ok(1) [OF c] split: option.splits)
  note S = store_append_Inr [OF a, folded split_record_def, folded r_def]
  show "appends E [r] x z" "active_id z = active_id x" "st_opts (fst z) = st_opts (fst x)"
    using S(1-3) by simp_all
  show "p = (sd_split_id sp, sd_doc_id sp,
       rec_loc (active_id x) (length (seg_content (seg_of x))) r)" if "seg_ok (seg_of x)"
    using S(4) [OF that] by (simp add: p)
qed

section \<open>A list of appends\<close>

text \<open>
  \<open>writes E f g op\<close>: a successful run of the operation on an item appends the record \<open>f\<close>
  of it and returns \<open>g\<close> of its location.
\<close>

definition writes :: "env \<Rightarrow> (store_options \<Rightarrow> 'i \<Rightarrow> u64 \<Rightarrow> log_record) \<Rightarrow> ('i \<Rightarrow> loc \<Rightarrow> 'p) \<Rightarrow> ('i \<Rightarrow> 'p sop) \<Rightarrow> bool" where
  "writes E f g op \<longleftrightarrow> (\<forall>i x p z. op i x = (Inr p, z) \<longrightarrow>
     appends E [f (st_opts (fst x)) i (next_seq_of x)] x z
     \<and> active_id z = active_id x \<and> st_opts (fst z) = st_opts (fst x)
     \<and> (seg_ok (seg_of x) \<longrightarrow>
         p = g i (rec_loc (active_id x) (length (seg_content (seg_of x)))
               (f (st_opts (fst x)) i (next_seq_of x)))))"

lemma writes_summary:
  "env_ok E \<Longrightarrow> writes E (summary_record E) (\<lambda>u l. (ud_summary_id u, ud_document_id u, ud_split_id u, l)) (append_summary E)"
  unfolding writes_def using append_summary_Inr by simp

lemma writes_split:
  "env_ok E \<Longrightarrow> writes E (split_record E) (\<lambda>s l. (sd_split_id s, sd_doc_id s, l)) (append_split E)"
  unfolding writes_def using append_split_Inr by simp

lemma appends_next: "appends E rs x y \<Longrightarrow> next_seq_of y = next_seq_of x + word_of_nat (length rs)"
  by (simp add: appends_def)

lemma appends_content:
  "appends E rs x y \<Longrightarrow> seg_content (seg_of y) = seg_content (seg_of x) @ log_bytes E rs"
  by (simp add: appends_def)

lemma appends_length:
  "appends E rs x y \<Longrightarrow> length (seg_content (seg_of y)) = length (seg_content (seg_of x)) + log_len rs"
  by (simp add: appends_def len_simps)

lemma appends_ok:
  "appends E rs x y \<Longrightarrow> seg_ok (seg_of x) \<Longrightarrow> length (seg_content (seg_of x)) + log_len rs < 2 ^ 64
     \<Longrightarrow> seg_ok (seg_of y)"
  by (simp add: appends_def)

lemma mapM_writes:
  assumes "writes E f g op" "mapM op is x = (Inr ps, z)"
  defines "rs \<equiv> number (next_seq_of x) (map (f (st_opts (fst x))) is)"
  shows "appends E rs x z \<and> active_id z = active_id x \<and> st_opts (fst z) = st_opts (fst x)
    \<and> (seg_ok (seg_of x) \<longrightarrow> length (seg_content (seg_of x)) + log_len rs < 2 ^ 64 \<longrightarrow>
        ps = map2 g is (locs_from (active_id x) (length (seg_content (seg_of x))) rs))"
  using assms(2) unfolding rs_def
proof (induction "is" arbitrary: x ps)
  case Nil
  then show ?case by (simp add: ret_Inr)
next
  case (Cons i "is")
  then obtain p y ps' where i: "op i x = (Inr p, y)" and m: "mapM op is y = (Inr ps', z)"
    and ps: "ps = p # ps'"
    by (auto simp: bindM_Inr ret_Inr)
  let ?r = "f (st_opts (fst x)) i (next_seq_of x)"
  from assms(1) i have W: "appends E [?r] x y" "active_id y = active_id x" "st_opts (fst y) = st_opts (fst x)"
    "seg_ok (seg_of x) \<Longrightarrow> p = g i (rec_loc (active_id x) (length (seg_content (seg_of x))) ?r)"
    unfolding writes_def by blast+
  let ?rs = "number (next_seq_of x + 1) (map (f (st_opts (fst x))) is)"
  have IH: "appends E ?rs y z" "active_id z = active_id x" "st_opts (fst z) = st_opts (fst x)"
    "seg_ok (seg_of y) \<Longrightarrow> length (seg_content (seg_of y)) + log_len ?rs < 2 ^ 64 \<Longrightarrow>
      ps' = map2 g is (locs_from (active_id x) (length (seg_content (seg_of y))) ?rs)"
    using Cons.IH [OF m] W(2,3) appends_next [OF W(1)] by simp_all
  have "appends E (?r # ?rs) x z"
    using appends_append [OF W(1) IH(1)] by simp
  moreover have "ps = map2 g (i # is) (locs_from (active_id x) (length (seg_content (seg_of x))) (?r # ?rs))"
    if "seg_ok (seg_of x)" "length (seg_content (seg_of x)) + log_len (?r # ?rs) < 2 ^ 64"
  proof -
    have "seg_ok (seg_of y)" "length (seg_content (seg_of y)) = length (seg_content (seg_of x)) + frame_len ?r"
      using appends_ok [OF W(1) that(1)] appends_length [OF W(1)] that(2) by simp_all
    with IH(4) W(4) that show ?thesis by (simp add: ps)
  qed
  ultimately show ?case using IH(2,3) by simp
qed

section \<open>The whole append phase\<close>

text \<open>What \<open>append_document\<close> returns, as a function of where its records start.\<close>

definition appended_of :: "env \<Rightarrow> store_options \<Rightarrow> u32 \<Rightarrow> nat \<Rightarrow> bool \<Rightarrow> document_dto \<Rightarrow> summary_dto list \<Rightarrow> u64 \<Rightarrow> appended" where
  "appended_of E opts i off replaces doc us seq =
     (let dels = (if replaces then [delete_record E opts (dd_document_id doc)] else []);
          ds = number seq dels;
          n1 = seq + word_of_nat (length dels); o1 = off + log_len ds;
          sums = number n1 (map (summary_record E opts) us);
          n2 = n1 + word_of_nat (length us); o2 = o1 + log_len sums;
          sps = number n2 (map (split_record E opts) (dd_splits doc));
          n3 = n2 + word_of_nat (length (dd_splits doc)); o3 = o2 + log_len sps
      in \<lparr> ap_replaces = replaces,
           ap_summaries = map2 (\<lambda>u l. (ud_summary_id u, ud_document_id u, ud_split_id u, l)) us (locs_from i o1 sums),
           ap_splits = map2 (\<lambda>s l. (sd_split_id s, sd_doc_id s, l)) (dd_splits doc) (locs_from i o2 sps),
           ap_doc_entry =
             \<lparr> de_url = dd_document_url doc, de_split_ids = map sd_split_id (dd_splits doc),
               de_summary_ids = map_option (map ud_summary_id) (dd_summaries doc),
               de_extra_summary_ids = extra_summary_ids_of doc, de_seq = n3,
               de_loc = rec_loc i o3 (doc_record E opts doc n3) \<rparr> \<rparr>)"

lemma insert_records_eq:
  "insert_records E opts replaces doc us seq =
     (let dels = (if replaces then [delete_record E opts (dd_document_id doc)] else []);
          n1 = seq + word_of_nat (length dels);
          n2 = n1 + word_of_nat (length us);
          n3 = n2 + word_of_nat (length (dd_splits doc))
      in number seq dels @ number n1 (map (summary_record E opts) us)
         @ number n2 (map (split_record E opts) (dd_splits doc)) @ [doc_record E opts doc n3])"
  by (simp add: insert_records_def insert_bodies_def number_append Let_def add.assoc)

lemma append_document_Inr:
  assumes "append_document E doc us x = (Inr ap, z)" "env_ok E" "seg_ok (seg_of x)"
  defines "replaces \<equiv> fmlookup (docs (st_maps (fst x))) (dd_document_id doc) \<noteq> None"
  defines "rs \<equiv> insert_records E (st_opts (fst x)) replaces doc us (next_seq_of x)"
  assumes "length (seg_content (seg_of x)) + log_len rs < 2 ^ 64"
  shows "appends E rs x z" "active_id z = active_id x"
    "ap = appended_of E (st_opts (fst x)) (active_id x) (length (seg_content (seg_of x))) replaces doc us (next_seq_of x)"
proof -
  have cd: "codec_ok (e_doc E)" using assms(2) by (simp add: env_ok_def)
  let ?opts = "st_opts (fst x)"
  let ?dels = "if replaces then [delete_record E ?opts (dd_document_id doc)] else []"
  let ?ds = "number (next_seq_of x) ?dels"
  let ?n1 = "next_seq_of x + word_of_nat (length ?dels)"
  let ?n2 = "?n1 + word_of_nat (length us)"
  let ?n3 = "?n2 + word_of_nat (length (dd_splits doc))"
  let ?su = "number ?n1 (map (summary_record E ?opts) us)"
  let ?sp = "number ?n2 (map (split_record E ?opts) (dd_splits doc))"
  let ?doc = "doc_record E ?opts doc ?n3"
  from assms(1) obtain y0 y1 y2 sums sps l where
    d: "(if replaces then append_delete E (dd_document_id doc) else ret ()) x = (Inr (), y0)"
    and su: "mapM (append_summary E) us y0 = (Inr sums, y1)"
    and sp: "mapM (append_split E) (dd_splits doc) y1 = (Inr sps, y2)"
    and dc: "store_append E Doc (meta_bytes (e_doc E) (doc_meta_of doc)) [] y2 = (Inr l, z)"
    and ap: "ap = \<lparr> ap_replaces = replaces, ap_summaries = sums, ap_splits = sps, ap_doc_entry =
             \<lparr> de_url = dd_document_url doc, de_split_ids = map sd_split_id (dd_splits doc),
               de_summary_ids = map_option (map ud_summary_id) (dd_summaries doc),
               de_extra_summary_ids = extra_summary_ids_of doc, de_seq = next_seq_of y2, de_loc = l \<rparr> \<rparr>"
    unfolding replaces_def
    by (auto simp: append_document_def bindM_Inr seqM_Inr the_store_Inr liftM_Inr ret_Inr meta_bytes_ok(1) [OF cd])
  have A0: "appends E ?ds x y0" "active_id y0 = active_id x" "st_opts (fst y0) = ?opts"
    using d append_delete_Inr [OF _ assms(2), of "dd_document_id doc" x "()" y0]
    by (auto simp: ret_Inr split: if_splits)
  note A1 = mapM_writes [OF writes_summary [OF assms(2)] su, unfolded A0(2,3) appends_next [OF A0(1)] length_number]
  have A1': "appends E ?su y0 y1" "active_id y1 = active_id x" "st_opts (fst y1) = ?opts"
    using A1 by simp_all
  note A2 = mapM_writes [OF writes_split [OF assms(2)] sp, unfolded A1'(2,3) appends_next [OF A1'(1)]
      appends_next [OF A0(1)] length_number length_map]
  have A2': "appends E ?sp y1 y2" "active_id y2 = active_id x" "st_opts (fst y2) = ?opts"
    using A2 by simp_all
  have n3: "next_seq_of y2 = ?n3"
    by (simp add: appends_next [OF A2'(1)] appends_next [OF A1'(1)] appends_next [OF A0(1)] add.assoc)
  note A3 = store_append_Inr [OF dc, folded doc_record_def, unfolded A2'(2,3) n3]
  have dr: "record_of ?opts Doc (meta_bytes (e_doc E) (doc_meta_of doc)) [] ?n3 = ?doc"
    by (simp add: doc_record_def)
  have rs: "rs = ?ds @ ?su @ ?sp @ [?doc]"
    unfolding rs_def insert_records_eq by (simp add: Let_def)
  show "appends E rs x z"
    using appends_append [OF A0(1) appends_append [OF A1'(1) appends_append [OF A2'(1) A3(1) [unfolded dr]]]]
    unfolding rs .
  show "active_id z = active_id x" by (rule A3(2))
  have L0: "length (seg_content (seg_of y0)) = length (seg_content (seg_of x)) + log_len ?ds"
    by (rule appends_length [OF A0(1)])
  have L1: "length (seg_content (seg_of y1)) = length (seg_content (seg_of x)) + log_len ?ds + log_len ?su"
    using appends_length [OF A1'(1)] L0 by simp
  have L2: "length (seg_content (seg_of y2)) = length (seg_content (seg_of x)) + log_len ?ds + log_len ?su + log_len ?sp"
    using appends_length [OF A2'(1)] L1 by simp
  have bound: "length (seg_content (seg_of x)) + log_len ?ds + log_len ?su + log_len ?sp + frame_len ?doc < 2 ^ 64"
    using assms(6) unfolding rs by (simp add: add.assoc)
  have ok0: "seg_ok (seg_of y0)" by (rule appends_ok [OF A0(1) assms(3)]) (use bound in linarith)
  have ok1: "seg_ok (seg_of y1)" by (rule appends_ok [OF A1'(1) ok0]) (use bound L0 in linarith)
  have ok2: "seg_ok (seg_of y2)" by (rule appends_ok [OF A2'(1) ok1]) (use bound L1 in linarith)
  have sums: "sums = map2 (\<lambda>u l. (ud_summary_id u, ud_document_id u, ud_split_id u, l)) us
      (locs_from (active_id x) (length (seg_content (seg_of x)) + log_len ?ds) ?su)"
    using A1 ok0 bound by (simp add: L0)
  have sps: "sps = map2 (\<lambda>s l. (sd_split_id s, sd_doc_id s, l)) (dd_splits doc)
      (locs_from (active_id x) (length (seg_content (seg_of x)) + log_len ?ds + log_len ?su) ?sp)"
    using A2 ok1 bound by (simp add: L1)
  have "l = rec_loc (active_id x) (length (seg_content (seg_of x)) + log_len ?ds + log_len ?su + log_len ?sp) ?doc"
    using A3(4) [OF ok2] by (simp add: L2 dr)
  then show "ap = appended_of E ?opts (active_id x) (length (seg_content (seg_of x))) replaces doc us (next_seq_of x)"
    unfolding ap appended_of_def Let_def sums sps n3 by (simp only:)
qed

end
