(* ===== verification/Store_Rewind.thy ===== *)
theory Store_Rewind
  imports Store_Log
begin

text \<open>
  The failure side of the append phase: whatever goes wrong, the maps, the sealed segments and
  everything but the tail of the active segment are untouched, so that \<open>truncate_to\<close> and
  the saved sequence number restore the state the insert started from.
\<close>

section \<open>Growing the tail\<close>

definition buffer_flagged :: "sstate \<Rightarrow> bool" where
  "buffer_flagged x \<longleftrightarrow> (\<not> aseg_unflushed (st_active (fst x)) \<longrightarrow> aseg_buf (st_active (fst x)) = [])"

definition grows :: "sstate \<Rightarrow> sstate \<Rightarrow> bool" where
  "grows x y \<longleftrightarrow> same_but_active x y
     \<and> (\<exists>junk. seg_content (seg_of y) = seg_content (seg_of x) @ junk)
     \<and> (buffer_flagged x \<longrightarrow> buffer_flagged y)"

interpretation gr: step_relation grows
proof
  show "grows x x" for x by (simp add: grows_def)
  show "grows x y \<Longrightarrow> grows y z \<Longrightarrow> grows x z" for x y z
    unfolding grows_def using same_but_active_trans by (metis append.assoc)
qed

lemma grows_active:
  assumes "seg_frame (st_active s, w) (a, v)" "seg_content (a, v) = seg_content (st_active s, w) @ junk"
    and "(\<not> aseg_unflushed (st_active s) \<longrightarrow> aseg_buf (st_active s) = []) \<longrightarrow> (\<not> aseg_unflushed a \<longrightarrow> aseg_buf a = [])"
  shows "grows (s, w) (s\<lparr>st_active := a\<rparr>, v)"
  using assms by (auto simp: grows_def same_but_active_def buffer_flagged_def seg_of_def)

lemma keeps_seg_append: "keeps grows (on_active (seg_append bs q))"
proof (rule keepsI)
  fix x r y assume run: "on_active (seg_append bs q) x = (r, y)"
  obtain s w where x: "x = (s, w)" by fastforce
  obtain p a v where ap: "seg_append bs q (st_active s, w) = (p, (a, v))"
    by (metis prod_cases3)
  with run have y: "y = (s\<lparr>st_active := a\<rparr>, v)"
    by (simp add: on_active_def zoom_def x)
  show "grows x y"
    unfolding x y
  proof (cases p)
    case (Inr off)
    note A = seg_append_Inr [OF ap [unfolded Inr]]
    show "grows (s, w) (s\<lparr>st_active := a\<rparr>, v)"
      by (rule grows_active [of s w a v bs]) (use A in simp_all)
  next
    case (Inl e)
    with ap obtain e' where "write_all bs (st_active s, w) = (Inl e', (a, v))"
      by (auto simp: seg_append_def bindM_def getM_def seqM_def modM_def ret_def split: prod.splits sum.splits)
    note W = write_all_any [OF this, of e']
    then obtain k where "seg_content (a, v) = seg_content (st_active s, w) @ take k bs" by blast
    then show "grows (s, w) (s\<lparr>st_active := a\<rparr>, v)"
      by (rule grows_active [rotated]) (use W in auto)
  qed
qed

lemma keeps_next_seq: "keeps grows next_seq"
  by (rule keepsI) (auto simp: next_seq_def bindM_def seqM_def the_store_def on_store_def getM_def modM_def
      ret_def grows_def same_but_active_def seg_of_def buffer_flagged_def split: prod.splits)

lemma keeps_the_store: "keeps grows (the_store g)"
  unfolding the_store_def by (rule gr.keeps_getM)

lemmas keeps_basic = keeps_seg_append keeps_next_seq keeps_the_store

lemma keeps_store_append: "keeps grows (store_append E kind meta vector)"
  unfolding store_append_def Let_def
  by (intro gr.keeps_rules keeps_basic)

lemma keeps_append_delete: "keeps grows (append_delete E d)"
  unfolding append_delete_def Let_def
  by (intro gr.keeps_rules keeps_basic)

lemma keeps_append_document: "keeps grows (append_document E doc us)"
  unfolding append_document_def append_summary_def append_split_def
  by (intro gr.keeps_rules keeps_basic keeps_append_delete keeps_store_append)

section \<open>Rewinding\<close>

lemma seg_ok_flagged: "seg_ok (seg_of x) \<Longrightarrow> buffer_flagged x"
  by (simp add: seg_ok_def buffer_flagged_def seg_of_def)

text \<open>
  A rewind either restores the contents, the sequence number and the maps, or reports that
  the segment could not be rewound.
\<close>

definition rewound :: "sstate \<Rightarrow> sstate \<Rightarrow> bool" where
  "rewound x y \<longleftrightarrow> seg_content (seg_of y) = seg_content (seg_of x) \<and> seg_ok (seg_of y)
     \<and> aseg_buf (st_active (fst y)) = []
     \<and> seg_frame (seg_of x) (seg_of y) \<and> st_maps (fst y) = st_maps (fst x)
     \<and> st_manifest (fst y) = st_manifest (fst x) \<and> st_sealed (fst y) = st_sealed (fst x)
     \<and> st_opts (fst y) = st_opts (fst x) \<and> st_pending_tombstone (fst y) = st_pending_tombstone (fst x)"

lemma rewind_any:
  assumes "rewind (aseg_len (st_active (fst x))) (next_seq_of x) e y = (r, z)"
    and "grows x y" "seg_ok (seg_of x)" "e \<noteq> Panicked"
  shows "(r = Inl e \<and> rewound x z) \<or> (\<exists>e2. r = Inl (RewindFailed e e2))"
proof -
  let ?len = "aseg_len (st_active (fst x))"
  obtain p y2 where t: "on_active (seg_truncate_to ?len) y = (p, y2)" by (rule prod.exhaust)
  show ?thesis
  proof (cases p)
    case (Inl e2)
    with assms(1,4) t show ?thesis by (auto simp: rewind_def attempt_def fail_def)
  next
    case (Inr u)
    with assms(1,4) t have r: "r = Inl e"
      and z: "z = ((fst y2)\<lparr>st_manifest := (st_manifest (fst y2))\<lparr>mf_next_seq := next_seq_of x\<rparr>\<rparr>, snd y2)"
      by (auto simp: rewind_def attempt_def fail_def seqM_def bindM_def on_store_def modM_def split: prod.splits)
    from t Inr obtain q where q: "seg_truncate_to ?len (seg_of y) = (Inr u, q)"
      and y2: "y2 = ((fst y)\<lparr>st_active := fst q\<rparr>, snd q)"
      by (auto simp: on_active_Inr)
    from assms(2) obtain junk where g: "seg_content (seg_of y) = seg_content (seg_of x) @ junk"
      "same_but_active x y" "buffer_flagged y"
      using seg_ok_flagged [OF assms(3)] by (auto simp: grows_def)
    have len: "unat ?len = length (seg_content (seg_of x))"
      using assms(3) by (simp add: seg_ok_def seg_of_def)
    have fl: "\<not> aseg_unflushed (fst (seg_of y)) \<longrightarrow> aseg_buf (fst (seg_of y)) = []"
      using g(3) by (simp add: buffer_flagged_def seg_of_def)
    note T = seg_truncate_Inr [OF q fl g(1) len]
    have sz: "seg_of z = q" by (simp add: z y2 seg_of_def)
    have man: "(st_manifest (fst y))\<lparr>mf_next_seq := next_seq_of x\<rparr> = st_manifest (fst x)"
    proof -
      have "((st_manifest (fst y))\<lparr>mf_next_seq := 0\<rparr>)\<lparr>mf_next_seq := next_seq_of x\<rparr>
          = ((st_manifest (fst x))\<lparr>mf_next_seq := 0\<rparr>)\<lparr>mf_next_seq := next_seq_of x\<rparr>"
        using g(2) by (simp add: same_but_active_def)
      then show ?thesis by simp
    qed
    have "seg_frame (seg_of x) q"
      using g(2) T(4) seg_frame_trans unfolding same_but_active_def by blast
    moreover have "aseg_buf (st_active (fst z)) = []" using T(2) by (simp add: z y2)
    ultimately show ?thesis using r T(1,5) g(2) man
      unfolding rewound_def sz by (simp add: z y2 same_but_active_def)
  qed
qed

section \<open>Validation\<close>

lemma check_embedding_Inr:
  "check_embedding opts k i e = Inr u \<longleftrightarrow>
     (\<exists>v. e = Some v \<and> length (eb_embedding v) = unat (so_n_embd opts) \<and> eb_model_id v = so_model_id opts)"
  by (auto simp: check_embedding_def split: option.splits)

definition good_embedding :: "store_options \<Rightarrow> embedding_dto option \<Rightarrow> bool" where
  "good_embedding opts e \<longleftrightarrow>
     (\<exists>v. e = Some v \<and> length (eb_embedding v) = unat (so_n_embd opts) \<and> eb_model_id v = so_model_id opts)"

definition all_summaries :: "document_dto \<Rightarrow> summary_dto list" where
  "all_summaries doc = opt_list (dd_summaries doc) @ concat (map sd_summaries (dd_splits doc))"

definition good_document :: "store_options \<Rightarrow> document_dto \<Rightarrow> bool" where
  "good_document opts doc \<longleftrightarrow>
     (\<forall>u \<in> set (all_summaries doc). good_embedding opts (ud_embedding u))
     \<and> (\<forall>s \<in> set (dd_splits doc). good_embedding opts (sd_embedding s))"

lemma check_summaries_Inr:
  "check_summaries opts us (seen, ds) = Inr st \<longleftrightarrow>
     (\<forall>u \<in> set us. good_embedding opts (ud_embedding u))
     \<and> st = (seen \<union> ud_summary_id ` set us, ds @ dedup_on ud_summary_id seen us)"
proof (induction us arbitrary: seen ds)
  case (Cons u us)
  have "seen \<union> ud_summary_id ` set us = insert (ud_summary_id u) (seen \<union> ud_summary_id ` set us)"
    if "ud_summary_id u \<in> seen"
    using that by blast
  with Cons show ?case
    by (auto simp: bindR_Inr check_embedding_Inr good_embedding_def)
qed auto

lemma dedup_on_append:
  "dedup_on f seen (xs @ ys) = dedup_on f seen xs @ dedup_on f (seen \<union> f ` set xs) ys"
proof (induction xs arbitrary: seen)
  case (Cons x xs)
  have "f x \<in> seen \<Longrightarrow> insert (f x) (seen \<union> f ` set xs) = seen \<union> f ` set xs" by blast
  with Cons show ?case by simp
qed simp

lemma check_splits_Inr:
  "check_splits opts ss (seen, ds) = Inr st \<longleftrightarrow>
     (\<forall>s \<in> set ss. good_embedding opts (sd_embedding s)
        \<and> (\<forall>u \<in> set (sd_summaries s). good_embedding opts (ud_embedding u)))
     \<and> st = (seen \<union> ud_summary_id ` set (concat (map sd_summaries ss)),
             ds @ dedup_on ud_summary_id seen (concat (map sd_summaries ss)))"
proof (induction ss arbitrary: seen ds)
  case (Cons s ss)
  show ?case
    by (auto simp: bindR_Inr check_embedding_Inr check_summaries_Inr Cons good_embedding_def
        dedup_on_append Un_assoc image_Un)
qed auto

text \<open>
  \<open>validate\<close> accepts exactly the documents whose every embedding is present, of the right
  width and from the right model, and returns the first summary of each id in list order.
\<close>

lemma validate_Inr:
  "validate opts doc = Inr us \<longleftrightarrow>
     good_document opts doc \<and> us = dedup_on ud_summary_id {} (all_summaries doc)"
  by (auto simp: validate_def bindR_Inr check_summaries_Inr check_splits_Inr good_document_def
      all_summaries_def dedup_on_append)

lemma good_embedding_expect:
  "good_embedding opts e \<Longrightarrow> expect_vector E opts e = Inr (vector_of E opts e)"
  by (auto simp: good_embedding_def expect_vector_def vector_of_def)

end
