(* ===== verification/Store_Replay.thy ===== *)
theory Store_Replay
  imports Store_Rewind
begin

text \<open>
  Replaying the records of one insert gives the maps the insert published: the refinement
  between the in-memory update of \<open>Store::insert\<close> and the rebuild of \<open>replay.rs\<close>.
\<close>

text \<open>Every entity of the document names it; \<open>validate\<close> does not check this.\<close>

definition doc_consistent :: "document_dto \<Rightarrow> bool" where
  "doc_consistent doc \<longleftrightarrow>
     (\<forall>u \<in> set (all_summaries doc). ud_document_id u = dd_document_id doc)
     \<and> (\<forall>s \<in> set (dd_splits doc). sd_doc_id s = dd_document_id doc)"

definition newer :: "u64 \<Rightarrow> log_record list \<Rightarrow> bool" where
  "newer q rs \<longleftrightarrow> (\<forall>r \<in> set rs. q < lr_seq r)"

lemma newer_simps [simp]:
  "newer q []" "newer q (r # rs) \<longleftrightarrow> q < lr_seq r \<and> newer q rs"
  "newer q (rs @ ss) \<longleftrightarrow> newer q rs \<and> newer q ss"
  by (auto simp: newer_def)

lemma record_of_sel [simp]:
  "lr_seq (record_of opts k m v q) = q" "lr_kind (record_of opts k m v q) = k"
  "lr_meta (record_of opts k m v q) = m" "lr_vector (record_of opts k m v q) = v"
  by (simp_all add: record_of_def)

lemma replay_record_newer:
  "q < lr_seq r \<Longrightarrow> apply_record E (lr_kind r) (lr_seq r) (lr_meta r) (rec_loc i off r) st = Inr st'
     \<Longrightarrow> replay_record E i q off r st = Inr st'"
  by (simp add: replay_record_def)

section \<open>Buffering the entities\<close>

definition pend_summary :: "summary_dto \<Rightarrow> loc \<Rightarrow> pending" where
  "pend_summary u l = PSummary (ud_summary_id u) (ud_document_id u) (ud_split_id u) l"

definition pend_split :: "split_dto \<Rightarrow> loc \<Rightarrow> pending" where
  "pend_split s l = PSplit (sd_split_id s) (sd_doc_id s) (map ud_summary_id (sd_summaries s)) l"

lemma replay_summaries:
  assumes "env_ok E" "newer q (number n (map (summary_record E opts) us))"
  shows "replay_log E i q off (number n (map (summary_record E opts) us)) (m, p) =
    Inr (m, p @ map2 pend_summary us (locs_from i off (number n (map (summary_record E opts) us))))"
  using assms(2)
proof (induction us arbitrary: n off p)
  case (Cons u us)
  let ?r = "summary_record E opts u n"
  have c: "codec_ok (e_summary E)" using assms(1) by (simp add: env_ok_def)
  have "replay_record E i q off ?r (m, p) = Inr (m, p @ [pend_summary u (rec_loc i off ?r)])"
    by (rule replay_record_newer)
      (use Cons.prems in \<open>simp_all add: summary_record_def apply_record_def meta_bytes_ok(2) [OF c]
        summary_meta_of_def pend_summary_def\<close>)
  with Cons show ?case by simp
qed simp

lemma replay_splits:
  assumes "env_ok E" "newer q (number n (map (split_record E opts) ss))"
  shows "replay_log E i q off (number n (map (split_record E opts) ss)) (m, p) =
    Inr (m, p @ map2 pend_split ss (locs_from i off (number n (map (split_record E opts) ss))))"
  using assms(2)
proof (induction ss arbitrary: n off p)
  case (Cons s ss)
  let ?r = "split_record E opts s n"
  have c: "codec_ok (e_split E)" using assms(1) by (simp add: env_ok_def)
  have "replay_record E i q off ?r (m, p) = Inr (m, p @ [pend_split s (rec_loc i off ?r)])"
    by (rule replay_record_newer)
      (use Cons.prems in \<open>simp_all add: split_record_def apply_record_def meta_bytes_ok(2) [OF c]
        split_meta_of_def pend_split_def\<close>)
  with Cons show ?case by simp
qed simp

lemma replay_delete_record:
  assumes "env_ok E" "q < n"
  shows "replay_record E i q off (delete_record E opts d n) (m, p) =
    Inr (drop_doc d seg m, filter (\<lambda>x. pending_doc_id x \<noteq> d) p)"
proof -
  have c: "codec_ok (e_delete E)" using assms(1) by (simp add: env_ok_def)
  show ?thesis
    by (rule replay_record_newer)
      (use assms(2) in \<open>simp_all add: delete_record_def apply_record_def meta_bytes_ok(2) [OF c] drop_doc_seg [of d "- 1" m seg]\<close>)
qed

section \<open>Committing them\<close>

lemma commit_entries_append: "commit_entries (ps @ qs) st = commit_entries qs (commit_entries ps st)"
  by (induction ps st rule: commit_entries.induct) simp_all

lemma commit_summaries:
  "commit_entries (map2 pend_summary us ls) (m, ids) =
     (m\<lparr>summaries := fminserts fst (\<lambda>(_, d, s, l). \<lparr> ue_doc_id = d, ue_split_id = s, ue_loc = l \<rparr>)
          (map2 (\<lambda>u l. (ud_summary_id u, ud_document_id u, ud_split_id u, l)) us ls) (summaries m)\<rparr>, ids)"
proof (induction us arbitrary: ls m)
  case (Cons u us)
  then show ?case by (cases ls) (simp_all add: pend_summary_def)
qed simp

lemma commit_splits:
  "length ls = length ss \<Longrightarrow> commit_entries (map2 pend_split ss ls) (m, ids) =
     (m\<lparr>splits := fminserts fst (\<lambda>(_, d, l). \<lparr> se_doc_id = d, se_loc = l \<rparr>)
          (map2 (\<lambda>s l. (sd_split_id s, sd_doc_id s, l)) ss ls) (splits m)\<rparr>,
      ids @ concat (map (\<lambda>s. map ud_summary_id (sd_summaries s)) ss))"
proof (induction ss arbitrary: ls m ids)
  case (Cons s ss)
  then show ?case by (cases ls) (simp_all add: pend_split_def)
qed simp

lemma filter_pend_all:
  assumes "\<forall>u \<in> set us. ud_document_id u = d"
  shows "filter (\<lambda>x. pending_doc_id x = d) (map2 pend_summary us ls) = map2 pend_summary us ls"
    and "filter (\<lambda>x. pending_doc_id x \<noteq> d) (map2 pend_summary us ls) = []"
  using assms by (auto simp: filter_id_conv filter_empty_conv pend_summary_def dest: set_zip_leftD)

lemma filter_pend_all_splits:
  assumes "\<forall>s \<in> set ss. sd_doc_id s = d"
  shows "filter (\<lambda>x. pending_doc_id x = d) (map2 pend_split ss ls) = map2 pend_split ss ls"
    and "filter (\<lambda>x. pending_doc_id x \<noteq> d) (map2 pend_split ss ls) = []"
  using assms by (auto simp: filter_id_conv filter_empty_conv pend_split_def dest: set_zip_leftD)

text \<open>
  A document record commits exactly the buffered entities of its document; here they are the
  ones of the insert, nothing older being in the buffer.
\<close>

lemma commit_insert:
  assumes "fmlookup (docs m) (dd_document_id doc) = None"
    and "\<forall>x \<in> set p. pending_doc_id x \<noteq> dd_document_id doc"
    and "\<forall>u \<in> set us. ud_document_id u = dd_document_id doc"
    and "\<forall>s \<in> set (dd_splits doc). sd_doc_id s = dd_document_id doc"
    and "length sl = length (dd_splits doc)"
  shows "commit_doc (doc_meta_of doc) seq l
      (m, p @ map2 pend_summary us ul @ map2 pend_split (dd_splits doc) sl) =
    (publish \<lparr> ap_replaces = b,
        ap_summaries = map2 (\<lambda>u l. (ud_summary_id u, ud_document_id u, ud_split_id u, l)) us ul,
        ap_splits = map2 (\<lambda>s l. (sd_split_id s, sd_doc_id s, l)) (dd_splits doc) sl,
        ap_doc_entry =
             \<lparr> de_url = dd_document_url doc, de_split_ids = map sd_split_id (dd_splits doc),
               de_summary_ids = map_option (map ud_summary_id) (dd_summaries doc),
               de_extra_summary_ids = extra_summary_ids_of doc, de_seq = seq, de_loc = l \<rparr> \<rparr>
       (dd_document_id doc) m, p)"
proof -
  let ?d = "dd_document_id doc"
  let ?mine = "map2 pend_summary us ul @ map2 pend_split (dd_splits doc) sl"
  have p: "filter (\<lambda>x. pending_doc_id x = ?d) p = []" "filter (\<lambda>x. pending_doc_id x \<noteq> ?d) p = p"
    using assms(2) by (auto simp: filter_empty_conv filter_id_conv)
  have tm: "take_mine ?d (p @ ?mine) = (?mine, p)"
    unfolding take_mine_filter filter_append p filter_pend_all [OF assms(3)] filter_pend_all_splits [OF assms(4)]
    by simp
  show ?thesis
    unfolding commit_doc_def prod.case doc_meta_of_def doc_meta.select_convs Let_def tm
      commit_entries_append commit_summaries commit_splits [OF assms(5)]
    by (simp add: assms(1) publish_def extra_summary_ids_of_def Let_def dedup_preserving_order_def)
qed

section \<open>The refinement\<close>

lemma replay_insert:
  fixes m :: maps and i :: u32 and off :: nat and n q :: u64 and p :: "pending list" and opts :: store_options
  assumes "env_ok E" "doc_consistent doc" "set us \<subseteq> set (all_summaries doc)"
  defines "d \<equiv> dd_document_id doc"
  defines "replaces \<equiv> fmlookup (docs m) d \<noteq> None"
  defines "rs \<equiv> insert_records E opts replaces doc us n"
  assumes "newer q rs"
    and "\<not> replaces \<Longrightarrow> \<forall>x \<in> set p. pending_doc_id x \<noteq> d"
  shows "replay_log E i q off rs (m, p) =
    Inr (publish (appended_of E opts i off replaces doc us n) d (drop_doc d seg m),
         filter (\<lambda>x. pending_doc_id x \<noteq> d) p)"
proof -
  let ?dels = "if replaces then [delete_record E opts d] else []"
  let ?ds = "number n ?dels"
  let ?n1 = "n + word_of_nat (length ?dels)"
  let ?n2 = "?n1 + word_of_nat (length us)"
  let ?n3 = "?n2 + word_of_nat (length (dd_splits doc))"
  let ?su = "number ?n1 (map (summary_record E opts) us)"
  let ?sp = "number ?n2 (map (split_record E opts) (dd_splits doc))"
  let ?doc = "doc_record E opts doc ?n3"
  let ?p = "filter (\<lambda>x. pending_doc_id x \<noteq> d) p"
  let ?m = "drop_doc d seg m"
  let ?o1 = "off + log_len ?ds" let ?o2 = "?o1 + log_len ?su" let ?o3 = "?o2 + log_len ?sp"
  let ?ul = "locs_from i ?o1 ?su" let ?sl = "locs_from i ?o2 ?sp"
  have rs: "rs = ?ds @ ?su @ ?sp @ [?doc]"
    unfolding rs_def d_def insert_records_eq by (simp add: Let_def)
  have nw: "newer q ?ds" "newer q ?su" "newer q ?sp" "q < ?n3"
    using assms(7) unfolding rs by (simp_all add: doc_record_def)
  have cu: "\<forall>u \<in> set us. ud_document_id u = d" and cs: "\<forall>s \<in> set (dd_splits doc). sd_doc_id s = d"
    using assms(2,3) by (auto simp: doc_consistent_def d_def)
  have cd: "codec_ok (e_doc E)" using assms(1) by (simp add: env_ok_def)
  have s0: "replay_log E i q off ?ds (m, p) = Inr (?m, ?p)"
  proof (cases replaces)
    case True
    then have "q < n" using nw(1) by (simp add: delete_record_def)
    with True show ?thesis by (simp add: replay_delete_record [OF assms(1), of q n i off opts d m p seg])
  next
    case False
    then have "fmlookup (docs m) d = None" by (simp add: replaces_def)
    moreover have "?p = p" using False assms(8) by (simp add: filter_id_conv)
    ultimately show ?thesis using False by simp
  qed
  note s1 = replay_summaries [OF assms(1) nw(2), of i ?o1 ?m ?p]
  note s2 = replay_splits [OF assms(1) nw(3), of i ?o2 ?m "?p @ map2 pend_summary us ?ul"]
  have s3: "replay_log E i q ?o3 [?doc] (?m, ?p @ map2 pend_summary us ?ul @ map2 pend_split (dd_splits doc) ?sl)
    = Inr (publish (appended_of E opts i off replaces doc us n) d ?m, ?p)"
  proof -
    have "apply_record E (lr_kind ?doc) (lr_seq ?doc) (lr_meta ?doc) (rec_loc i ?o3 ?doc)
        (?m, ?p @ map2 pend_summary us ?ul @ map2 pend_split (dd_splits doc) ?sl)
      = Inr (commit_doc (doc_meta_of doc) ?n3 (rec_loc i ?o3 ?doc)
        (?m, ?p @ map2 pend_summary us ?ul @ map2 pend_split (dd_splits doc) ?sl))"
      by (simp add: apply_record_def doc_record_def meta_bytes_ok(2) [OF cd])
    also have "commit_doc (doc_meta_of doc) ?n3 (rec_loc i ?o3 ?doc)
        (?m, ?p @ map2 pend_summary us ?ul @ map2 pend_split (dd_splits doc) ?sl)
      = (publish (appended_of E opts i off replaces doc us n) d ?m, ?p)"
      unfolding appended_of_def Let_def d_def
      by (rule commit_insert) (use cu cs in \<open>simp_all add: d_def\<close>)
    finally have "replay_record E i q ?o3 ?doc (?m, ?p @ map2 pend_summary us ?ul @ map2 pend_split (dd_splits doc) ?sl)
      = Inr (publish (appended_of E opts i off replaces doc us n) d ?m, ?p)"
      by (rule replay_record_newer [rotated]) (use nw(4) in \<open>simp add: doc_record_def\<close>)
    then show ?thesis by simp
  qed
  show ?thesis
    unfolding rs replay_log_append s0 bindR_simps s1 s2 append_assoc s3 ..
qed

text \<open>The deletion of a live document.\<close>

lemma replay_delete:
  assumes "env_ok E" "q < n"
  shows "replay_log E i q off [delete_record E opts d n] (m, p) =
    Inr (drop_doc d seg m, filter (\<lambda>x. pending_doc_id x \<noteq> d) p)"
  by (simp add: replay_delete_record [OF assms, of i off opts d m p seg])

end
