(* ===== verification/Store_Read.thy ===== *)
theory Store_Read
  imports Store
begin

text \<open>
  The read side of the store (\<open>embedding-store/src/store.rs\<close>): the bytes at a location,
  stored vectors, and the transfer objects rebuilt from the records. Reads take the store by
  reference, so they are functions of the store and the file system.
\<close>

section \<open>Records and vectors\<close>

definition with_bytes :: "store \<Rightarrow> world \<Rightarrow> loc \<Rightarrow> (bytes \<Rightarrow> 'r) \<Rightarrow> error + 'r" where
  "with_bytes s w l f =
     (if loc_segment l = aseg_id (st_active s)
      then bindR (seg_read_at (st_active s) w (loc_offset l) (loc_len l)) (\<lambda>b. Inr (f b))
      else case fmlookup (st_sealed s) (loc_segment l) of
             None \<Rightarrow> Inl (SegmentNotOpen (loc_segment l))
           | Some seg \<Rightarrow> bindR (sealed_slice seg (loc_offset l) (loc_len l)) (\<lambda>b. Inr (f b)))"

definition read_record :: "store \<Rightarrow> world \<Rightarrow> loc \<Rightarrow> error + bytes" where
  "read_record s w l =
     (if loc_segment l = aseg_id (st_active s)
      then seg_read_at (st_active s) w (loc_offset l) (loc_len l)
      else case fmlookup (st_sealed s) (loc_segment l) of
             None \<Rightarrow> Inl (SegmentNotOpen (loc_segment l))
           | Some seg \<Rightarrow> sealed_slice seg (loc_offset l) (loc_len l))"

definition entity_loc :: "store \<Rightarrow> entity_kind \<Rightarrow> u64 \<Rightarrow> loc option" where
  "entity_loc s kind i =
     (case kind of
        ESplit \<Rightarrow> map_option se_loc (fmlookup (splits (st_maps s)) i)
      | ESummary \<Rightarrow> map_option ue_loc (fmlookup (summaries (st_maps s)) i))"

text \<open>\<open>vector_bytes\<close> multiplies in \<open>usize\<close> and the product is cast to \<open>u32\<close>.\<close>

definition stored_vector_len :: "store_options \<Rightarrow> u32" where
  "stored_vector_len opts = ucast (word_of_nat (bytes_per_element (so_dtype opts)) * so_n_embd opts)"

definition with_vector :: "store \<Rightarrow> world \<Rightarrow> entity_kind \<Rightarrow> u64 \<Rightarrow> (bytes \<Rightarrow> vector_dtype \<Rightarrow> 'r) \<Rightarrow> error + 'r option" where
  "with_vector s w kind i f =
     (case entity_loc s kind i of
        None \<Rightarrow> Inr None
      | Some l \<Rightarrow>
          let vector_len = stored_vector_len (st_opts s) in
          if loc_len l < word_of_nat RECORD_HEADER_LEN + vector_len
          then Inl (TooShort i (loc_len l) (unat vector_len))
          else
            let tail = \<lparr> loc_segment = loc_segment l,
                         loc_offset = loc_offset l + ucast (loc_len l - vector_len),
                         loc_len = vector_len \<rparr> in
            bindR (with_bytes s w tail (\<lambda>b. f b (so_dtype (st_opts s)))) (\<lambda>r. Inr (Some r)))"

section \<open>Entities\<close>

definition lift_decode :: "decode_error + 'a \<Rightarrow> error + 'a" where
  "lift_decode r = (case r of Inl e \<Rightarrow> Inl (BadRecord e) | Inr v \<Rightarrow> Inr v)"

definition read_split :: "env \<Rightarrow> store \<Rightarrow> world \<Rightarrow> u64 \<Rightarrow> bool \<Rightarrow> error + (split_meta \<times> embedding_dto option) option" where
  "read_split E s w split_id with_embedding =
     (case fmlookup (splits (st_maps s)) split_id of
        None \<Rightarrow> Inr None
      | Some entry \<Rightarrow>
          bindR (read_record s w (se_loc entry)) (\<lambda>bs.
          bindR (lift_decode (decode (e_crc E) bs)) (\<lambda>view.
          bindR (from_slice (e_split E) (rv_meta view)) (\<lambda>meta.
          Inr (Some (meta,
            if with_embedding
            then Some \<lparr> eb_embedding_id = split_id,
                        eb_embedding = decode_vector (e_of_f16 E) (rv_vector view) (rv_dtype view),
                        eb_model_id = sm_model_id meta \<rparr>
            else None))))))"

definition read_summary :: "env \<Rightarrow> store \<Rightarrow> world \<Rightarrow> u64 \<Rightarrow> bool \<Rightarrow> error + (summary_meta \<times> embedding_dto option) option" where
  "read_summary E s w summary_id with_embedding =
     (case fmlookup (summaries (st_maps s)) summary_id of
        None \<Rightarrow> Inr None
      | Some entry \<Rightarrow>
          bindR (read_record s w (ue_loc entry)) (\<lambda>bs.
          bindR (lift_decode (decode (e_crc E) bs)) (\<lambda>view.
          bindR (from_slice (e_summary E) (rv_meta view)) (\<lambda>meta.
          Inr (Some (meta,
            if with_embedding
            then Some \<lparr> eb_embedding_id = summary_id,
                        eb_embedding = decode_vector (e_of_f16 E) (rv_vector view) (rv_dtype view),
                        eb_model_id = um_model_id meta \<rparr>
            else None))))))"

definition summary_dto_of :: "summary_meta \<Rightarrow> embedding_dto option \<Rightarrow> summary_dto" where
  "summary_dto_of m e = \<lparr> ud_summary_id = um_summary_id m, ud_document_id = um_doc_id m,
     ud_split_id = um_split_id m, ud_split_sequence_id = um_split_seq_id m, ud_text_content = um_text m,
     ud_token_len = um_token_len m, ud_centrality = um_centrality m, ud_embedding = e,
     ud_query_distance = None, ud_rank = None \<rparr>"

definition split_dto_of :: "split_meta \<Rightarrow> summary_dto list \<Rightarrow> embedding_dto option \<Rightarrow> f32 option \<Rightarrow> split_dto" where
  "split_dto_of m us e dist = \<lparr> sd_split_id = sm_split_id m, sd_sequence_id = sm_seq_id m,
     sd_doc_id = sm_doc_id m, sd_text_content = sm_text m, sd_token_len = sm_token_len m,
     sd_summaries = us, sd_embedding = e, sd_query_distance = dist, sd_rank = None \<rparr>"

definition get_summary :: "env \<Rightarrow> store \<Rightarrow> world \<Rightarrow> u64 \<Rightarrow> bool \<Rightarrow> error + summary_dto option" where
  "get_summary E s w i emb =
     bindR (read_summary E s w i emb) (\<lambda>r. Inr (map_option (\<lambda>(m, e). summary_dto_of m e) r))"

text \<open>A loop of lookups that skips the ids it does not find.\<close>

fun collect :: "('i \<Rightarrow> error + 'a option) \<Rightarrow> 'i list \<Rightarrow> error + 'a list" where
  "collect f [] = Inr []"
| "collect f (i # is) =
     bindR (f i) (\<lambda>r. bindR (collect f is) (\<lambda>out. Inr (case r of None \<Rightarrow> out | Some x \<Rightarrow> x # out)))"

definition get_summaries :: "env \<Rightarrow> store \<Rightarrow> world \<Rightarrow> u64 list \<Rightarrow> bool \<Rightarrow> error + summary_dto list" where
  "get_summaries E s w ids emb = collect (\<lambda>i. get_summary E s w i emb) ids"

definition get_split :: "env \<Rightarrow> store \<Rightarrow> world \<Rightarrow> u64 \<Rightarrow> bool \<Rightarrow> error + split_dto option" where
  "get_split E s w i emb =
     bindR (read_split E s w i emb) (\<lambda>r. case r of
       None \<Rightarrow> Inr None
     | Some (meta, e) \<Rightarrow>
         bindR (get_summaries E s w (sm_summary_ids meta) emb) (\<lambda>us.
         Inr (Some (split_dto_of meta us e None))))"

definition get_split_without_summaries :: "env \<Rightarrow> store \<Rightarrow> world \<Rightarrow> u64 \<Rightarrow> bool \<Rightarrow> error + split_dto option" where
  "get_split_without_summaries E s w i emb =
     bindR (read_split E s w i emb) (\<lambda>r. Inr (map_option (\<lambda>(m, e). split_dto_of m [] e None) r))"

definition get_splits :: "env \<Rightarrow> store \<Rightarrow> world \<Rightarrow> u64 list \<Rightarrow> bool \<Rightarrow> error + split_dto list" where
  "get_splits E s w ids emb = collect (\<lambda>i. get_split E s w i emb) ids"

definition get_doc :: "env \<Rightarrow> store \<Rightarrow> world \<Rightarrow> u64 \<Rightarrow> bool \<Rightarrow> error + document_dto option" where
  "get_doc E s w i emb =
     (case fmlookup (docs (st_maps s)) i of
        None \<Rightarrow> Inr None
      | Some entry \<Rightarrow>
          bindR (get_splits E s w (de_split_ids entry) emb) (\<lambda>ss.
          bindR (case de_summary_ids entry of
                   None \<Rightarrow> Inr None
                 | Some ids \<Rightarrow> bindR (get_summaries E s w ids emb) (\<lambda>us. Inr (Some us))) (\<lambda>us.
          Inr (Some \<lparr> dd_document_id = i, dd_document_url = de_url entry, dd_splits = ss,
                      dd_summaries = us \<rparr>))))"

text \<open>\<open>find\<close> over the iteration order of the map.\<close>

fun find_url :: "maps \<Rightarrow> ustring \<Rightarrow> u64 list \<Rightarrow> u64 option" where
  "find_url m url [] = None"
| "find_url m url (i # is) =
     (case fmlookup (docs m) i of
        None \<Rightarrow> find_url m url is
      | Some e \<Rightarrow> if de_url e = url then Some i else find_url m url is)"

definition doc_id_for_url :: "env \<Rightarrow> store \<Rightarrow> ustring \<Rightarrow> u64 option" where
  "doc_id_for_url E s url = find_url (st_maps s) url (e_order E (fmdom (docs (st_maps s))))"

definition live_locs :: "env \<Rightarrow> store \<Rightarrow> entity_kind \<Rightarrow> (u64 \<times> loc) list" where
  "live_locs E s kind =
     concat (map (\<lambda>i. case entity_loc s kind i of None \<Rightarrow> [] | Some l \<Rightarrow> [(i, l)])
       (e_order E (case kind of ESplit \<Rightarrow> fmdom (splits (st_maps s)) | ESummary \<Rightarrow> fmdom (summaries (st_maps s)))))"

text \<open>The callback runs on a state of its own, a usearch index being built.\<close>

fun visit_vectors :: "env \<Rightarrow> store \<Rightarrow> world \<Rightarrow> (u64 \<Rightarrow> bytes \<Rightarrow> vector_dtype \<Rightarrow> (error, 'b, unit) op)
    \<Rightarrow> (u64 \<times> loc) list \<Rightarrow> (error, 'b, unit) op" where
  "visit_vectors E s w f [] = ret ()"
| "visit_vectors E s w f ((i, l) # ls) =
     bindM (liftM (bindR (read_record s w l) (\<lambda>bs. lift_decode (decode (e_crc E) bs)))) (\<lambda>view.
     seqM (f i (rv_vector view) (rv_dtype view)) (visit_vectors E s w f ls))"

definition for_each_live_vector :: "env \<Rightarrow> store \<Rightarrow> world \<Rightarrow> entity_kind
    \<Rightarrow> (u64 \<Rightarrow> bytes \<Rightarrow> vector_dtype \<Rightarrow> (error, 'b, unit) op) \<Rightarrow> (error, 'b, unit) op" where
  "for_each_live_vector E s w kind f = visit_vectors E s w f (live_locs E s kind)"

definition contains_doc :: "store \<Rightarrow> u64 \<Rightarrow> bool" where
  "contains_doc s i \<longleftrightarrow> fmlookup (docs (st_maps s)) i \<noteq> None"

definition doc_count :: "store \<Rightarrow> nat" where
  "doc_count s = fcard (fmdom (docs (st_maps s)))"

definition split_count :: "store \<Rightarrow> nat" where
  "split_count s = fcard (fmdom (splits (st_maps s)))"

definition summary_count :: "store \<Rightarrow> nat" where
  "summary_count s = fcard (fmdom (summaries (st_maps s)))"

section \<open>Facts\<close>

lemma with_bytes_read: "with_bytes s w l f = bindR (read_record s w l) (\<lambda>b. Inr (f b))"
  by (auto simp: with_bytes_def read_record_def split: option.splits)

lemma collect_Inr:
  assumes "\<And>i. i \<in> set is \<Longrightarrow> f i = Inr (Some (g i))"
  shows "collect f is = Inr (map g is)"
  using assms by (induction "is") simp_all

lemma find_url_Some:
  "find_url m url ids = Some i \<Longrightarrow> i \<in> set ids \<and> (\<exists>e. fmlookup (docs m) i = Some e \<and> de_url e = url)"
  by (induction ids) (auto split: option.splits if_splits)

lemma find_url_None:
  "find_url m url ids = None \<Longrightarrow> i \<in> set ids \<Longrightarrow> fmlookup (docs m) i = Some e \<Longrightarrow> de_url e \<noteq> url"
  by (induction ids) (auto split: option.splits if_splits)

end
