(* ===== verification/Store_Inv.thy ===== *)
theory Store_Inv
  imports Store_Replay Store_Read
begin

text \<open>
  The invariant of a store: its segments hold the frames of a log, its maps are the replay of
  that log, and its counters are ahead of everything in it. Inserting, deleting, flushing,
  syncing and sealing keep it.
\<close>

section \<open>The invariant\<close>

type_synonym seg_log = "u32 \<times> log_record list"

fun replay_segments :: "env \<Rightarrow> u64 \<Rightarrow> seg_log list \<Rightarrow> maps \<Rightarrow> error + maps" where
  "replay_segments E q [] m = Inr m"
| "replay_segments E q ((i, rs) # sl) m =
     bindR (replay_log E i q 0 rs (m, [])) (\<lambda>(m', p). replay_segments E q sl m')"

lemma replay_segments_append:
  "replay_segments E q (sl @ sl') m = bindR (replay_segments E q sl m) (replay_segments E q sl')"
  by (induction sl arbitrary: m) (auto simp: bindR_def split: sum.splits)

definition info_ok :: "segment_info \<Rightarrow> seg_log \<Rightarrow> bool" where
  "info_ok info l \<longleftrightarrow> si_id info = fst l \<and> (\<forall>r \<in> set (snd l). lr_seq r \<le> si_last_seq info)"

definition sealed_ok :: "env \<Rightarrow> seg_log list \<Rightarrow> sstate \<Rightarrow> bool" where
  "sealed_ok E sl x \<longleftrightarrow>
     list_all2 info_ok (mf_sealed (st_manifest (fst x))) sl
     \<and> distinct (active_id x # map fst sl)
     \<and> fmdom' (st_sealed (fst x)) = fst ` set sl
     \<and> (\<forall>l \<in> set sl. list_all frame_ok (snd l)
          \<and> fmlookup (st_sealed (fst x)) (fst l) = Some \<lparr> sseg_id = fst l, sseg_map = log_bytes E (snd l) \<rparr>
          \<and> fmlookup (files (snd x)) (SegFile (fst l)) = Some (log_bytes E (snd l)))"

definition active_ok :: "env \<Rightarrow> log_record list \<Rightarrow> sstate \<Rightarrow> bool" where
  "active_ok E al x \<longleftrightarrow>
     seg_ok (seg_of x) \<and> seg_content (seg_of x) = log_bytes E al \<and> list_all frame_ok al
     \<and> mf_active (st_manifest (fst x)) = active_id x
     \<and> (\<forall>r \<in> set al. lr_seq r \<le> aseg_last_seq (st_active (fst x)))
     \<and> sorted (map lr_seq al)"

definition seqs_below :: "u64 \<Rightarrow> log_record list \<Rightarrow> bool" where
  "seqs_below n rs \<longleftrightarrow> (\<forall>r \<in> set rs. 0 < lr_seq r \<and> lr_seq r < n)"

definition ids_below :: "sstate \<Rightarrow> bool" where
  "ids_below x \<longleftrightarrow>
     (\<forall>i. fs_exists (snd x) (SegFile i) \<longrightarrow> i < mf_next_segment_id (st_manifest (fst x)))"

definition replays_to :: "env \<Rightarrow> u64 \<Rightarrow> seg_log list \<Rightarrow> u32 \<Rightarrow> log_record list \<Rightarrow> maps \<Rightarrow> rstate \<Rightarrow> bool" where
  "replays_to E q sl i al m0 st \<longleftrightarrow>
     (\<exists>m. replay_segments E q sl m0 = Inr m \<and> replay_log E i q 0 al (m, []) = Inr st)"

definition represents :: "env \<Rightarrow> seg_log list \<Rightarrow> log_record list \<Rightarrow> sstate \<Rightarrow> pending list \<Rightarrow> bool" where
  "represents E sl al x p \<longleftrightarrow>
     sealed_ok E sl x \<and> active_ok E al x
     \<and> seqs_below (next_seq_of x) (concat (map snd sl) @ al) \<and> 0 < next_seq_of x
     \<and> ids_below x
     \<and> replays_to E 0 sl (active_id x) al empty_maps (st_maps (fst x), p)"

lemma representsD:
  assumes "represents E sl al x p"
  shows "sealed_ok E sl x" "active_ok E al x" "seqs_below (next_seq_of x) (concat (map snd sl) @ al)"
    "0 < next_seq_of x" "ids_below x" "replays_to E 0 sl (active_id x) al empty_maps (st_maps (fst x), p)"
  using assms by (simp_all add: represents_def)

lemma active_okD:
  assumes "active_ok E al x"
  shows "seg_ok (seg_of x)" "seg_content (seg_of x) = log_bytes E al" "list_all frame_ok al"
    "mf_active (st_manifest (fst x)) = active_id x"
    "r \<in> set al \<Longrightarrow> lr_seq r \<le> aseg_last_seq (st_active (fst x))" "sorted (map lr_seq al)"
  using assms by (simp_all add: active_ok_def)

lemma seqs_below_simps [simp]:
  "seqs_below n []" "seqs_below n (r # rs) \<longleftrightarrow> (0 < lr_seq r \<and> lr_seq r < n) \<and> seqs_below n rs"
  "seqs_below n (rs @ ss) \<longleftrightarrow> seqs_below n rs \<and> seqs_below n ss"
  by (auto simp: seqs_below_def)

lemma seqs_below_mono: "seqs_below n rs \<Longrightarrow> n \<le> n' \<Longrightarrow> seqs_below n' rs"
  by (auto simp: seqs_below_def)

section \<open>Consecutive numbers\<close>

text \<open>A body takes its sequence number as given.\<close>

definition numbered :: "(u64 \<Rightarrow> log_record) list \<Rightarrow> bool" where
  "numbered fs \<longleftrightarrow> (\<forall>f \<in> set fs. \<forall>n. lr_seq (f n) = n)"

lemma numbered_insert: "numbered (insert_bodies E opts b doc us)"
  by (auto simp: numbered_def insert_bodies_def delete_record_def summary_record_def split_record_def
      doc_record_def)

lemma unat_Suc_u64: "unat (n :: u64) + 1 < 2 ^ 64 \<Longrightarrow> unat (n + 1) = unat n + 1"
  using unat_u64_add [of n 1] by simp

lemma number_seqs:
  assumes "numbered fs" "unat n + length fs < 2 ^ 64" "r \<in> set (number n fs)"
  shows "n \<le> lr_seq r \<and> unat (lr_seq r) < unat n + length fs"
  using assms
proof (induction fs arbitrary: n)
  case (Cons f fs)
  have n1: "unat (n + 1) = unat n + 1"
    by (rule unat_Suc_u64) (use Cons.prems(2) in simp)
  show ?case
  proof (cases "r = f n")
    case True
    with Cons.prems(1) have "lr_seq r = n" by (simp add: numbered_def)
    then show ?thesis by simp
  next
    case False
    with Cons.prems have "r \<in> set (number (n + 1) fs)" "numbered fs" by (simp_all add: numbered_def)
    with Cons.IH [of "n + 1"] Cons.prems(2) n1
    have "n + 1 \<le> lr_seq r" "unat (lr_seq r) < unat n + 1 + length fs" by simp_all
    with n1 show ?thesis by (simp add: word_le_nat_alt)
  qed
qed simp

lemma number_sorted:
  assumes "numbered fs" "unat n + length fs < 2 ^ 64"
  shows "sorted (map lr_seq (number n fs))"
  using assms
proof (induction fs arbitrary: n)
  case (Cons f fs)
  have n1: "unat (n + 1) = unat n + 1"
    by (rule unat_Suc_u64) (use Cons.prems(2) in simp)
  have nf: "numbered fs" "lr_seq (f n) = n" using Cons.prems(1) by (simp_all add: numbered_def)
  have b: "unat (n + 1) + length fs < 2 ^ 64" using Cons.prems(2) n1 by simp
  have "n \<le> lr_seq r" if "r \<in> set (number (n + 1) fs)" for r
    using number_seqs [OF nf(1) b that] n1 by (simp add: word_le_nat_alt)
  with Cons.IH [OF nf(1) b] nf(2) show ?case by simp
qed simp

lemma number_last:
  assumes "numbered fs" "fs \<noteq> []" "unat n + length fs < 2 ^ 64" "r \<in> set (number n fs)"
  shows "lr_seq r \<le> lr_seq (last (number n fs))"
  using assms
proof (induction fs arbitrary: n r)
  case (Cons f fs)
  have n1: "unat (n + 1) = unat n + 1"
    by (rule unat_Suc_u64) (use Cons.prems(3) in simp)
  have nf: "numbered fs" "lr_seq (f n) = n" using Cons.prems(1) by (simp_all add: numbered_def)
  show ?case
  proof (cases "fs = []")
    case True
    with Cons.prems show ?thesis by simp
  next
    case False
    then have ne: "number (n + 1) fs \<noteq> []" by (metis length_0_conv length_number)
    then have "last (number (n + 1) fs) \<in> set (number (n + 1) fs)" by simp
    then have "n + 1 \<le> lr_seq (last (number (n + 1) fs))"
      using number_seqs [OF nf(1), of "n + 1"] Cons.prems(3) n1 by simp
    then have "lr_seq (f n) \<le> lr_seq (last (number (n + 1) fs))"
      using nf(2) n1 by (simp add: word_le_nat_alt)
    moreover have "lr_seq r' \<le> lr_seq (last (number (n + 1) fs))" if "r' \<in> set (number (n + 1) fs)" for r'
      using Cons.IH [of "n + 1" r'] nf(1) False that Cons.prems(3) n1 by simp
    ultimately show ?thesis using Cons.prems(4) ne by auto
  qed
qed simp

lemma number_below:
  assumes "numbered fs" "unat n + length fs < 2 ^ 64" "0 < n"
  shows "seqs_below (n + word_of_nat (length fs)) (number n fs)" "newer 0 (number n fs)"
proof -
  have u: "unat (n + word_of_nat (length fs)) = unat n + length fs"
    by (rule unat_u64_add_of_nat) (use assms(2) in simp)
  have "0 < lr_seq r \<and> lr_seq r < n + word_of_nat (length fs)" if "r \<in> set (number n fs)" for r
    using number_seqs [OF assms(1,2) that] assms(3) u by (auto simp: word_less_nat_alt word_le_nat_alt)
  then show "seqs_below (n + word_of_nat (length fs)) (number n fs)" "newer 0 (number n fs)"
    by (simp_all add: seqs_below_def newer_def)
qed

section \<open>Appending and publishing keep the invariant\<close>

lemma sealed_ok_frame:
  assumes "sealed_ok E sl x" "active_id y = active_id x"
    "mf_sealed (st_manifest (fst y)) = mf_sealed (st_manifest (fst x))"
    "st_sealed (fst y) = st_sealed (fst x)"
    and "\<And>i. i \<noteq> active_id x \<Longrightarrow> fmlookup (files (snd y)) (SegFile i) = fmlookup (files (snd x)) (SegFile i)"
  shows "sealed_ok E sl y"
proof -
  have "fst l \<noteq> active_id x" if "l \<in> set sl" for l
  proof -
    have "active_id x \<notin> fst ` set sl" using assms(1) by (simp add: sealed_ok_def)
    then show ?thesis using imageI [OF that, of fst] by metis
  qed
  with assms show ?thesis by (simp add: sealed_ok_def)
qed

lemma same_but_active_sealed:
  assumes "same_but_active x y" "sealed_ok E sl x"
  shows "sealed_ok E sl y" "active_id y = active_id x"
proof -
  from assms(1) have m: "(st_manifest (fst y))\<lparr>mf_next_seq := 0\<rparr> = (st_manifest (fst x))\<lparr>mf_next_seq := 0\<rparr>"
    and fr: "seg_frame (seg_of x) (seg_of y)" and s: "st_sealed (fst y) = st_sealed (fst x)"
    by (simp_all add: same_but_active_def)
  from fr show id: "active_id y = active_id x" by (simp add: seg_frame_def seg_of_def)
  from arg_cong [OF m, of mf_sealed] have "mf_sealed (st_manifest (fst y)) = mf_sealed (st_manifest (fst x))"
    by simp
  from assms(2) id this s show "sealed_ok E sl y"
    by (rule sealed_ok_frame) (use fr in \<open>simp add: seg_frame_def seg_of_def\<close>)
qed

lemma same_but_active_manifest:
  assumes "same_but_active x y"
  shows "mf_active (st_manifest (fst y)) = mf_active (st_manifest (fst x))"
    "mf_next_segment_id (st_manifest (fst y)) = mf_next_segment_id (st_manifest (fst x))"
    "mf_sealed (st_manifest (fst y)) = mf_sealed (st_manifest (fst x))"
    "mf_snapshot_seq (st_manifest (fst y)) = mf_snapshot_seq (st_manifest (fst x))"
proof -
  from assms have m: "(st_manifest (fst y))\<lparr>mf_next_seq := 0\<rparr> = (st_manifest (fst x))\<lparr>mf_next_seq := 0\<rparr>"
    by (simp add: same_but_active_def)
  show "mf_active (st_manifest (fst y)) = mf_active (st_manifest (fst x))"
    "mf_next_segment_id (st_manifest (fst y)) = mf_next_segment_id (st_manifest (fst x))"
    "mf_sealed (st_manifest (fst y)) = mf_sealed (st_manifest (fst x))"
    "mf_snapshot_seq (st_manifest (fst y)) = mf_snapshot_seq (st_manifest (fst x))"
    using arg_cong [OF m, of mf_active] arg_cong [OF m, of mf_next_segment_id]
      arg_cong [OF m, of mf_sealed] arg_cong [OF m, of mf_snapshot_seq] by simp_all
qed

lemma ids_below_frame:
  assumes "ids_below x" "seg_frame (seg_of x) (seg_of y)" "fs_exists (snd x) (SegFile (active_id x))"
    "mf_next_segment_id (st_manifest (fst y)) = mf_next_segment_id (st_manifest (fst x))"
  shows "ids_below y"
  unfolding ids_below_def
proof (intro allI impI)
  fix i assume e: "fs_exists (snd y) (SegFile i)"
  have "fs_exists (snd x) (SegFile i)"
  proof (cases "i = active_id x")
    case True
    with assms(3) show ?thesis by simp
  next
    case False
    with assms(2) e show ?thesis by (simp add: seg_frame_def seg_of_def fs_exists_def)
  qed
  with assms(1,4) show "i < mf_next_segment_id (st_manifest (fst y))" by (simp add: ids_below_def)
qed

text \<open>The maps of \<open>y\<close> are replaced by what replaying the appended records makes of them.\<close>

lemma represents_append:
  assumes "represents E sl al x p" "appends E rs x y" "list_all frame_ok rs"
    and "rs = number (next_seq_of x) fs" "numbered fs" "fs \<noteq> []"
    and "unat (next_seq_of x) + length fs < 2 ^ 64" "log_len al + log_len rs < 2 ^ 64"
    and "replay_log E (active_id x) 0 (log_len al) rs (st_maps (fst x), p) = Inr (m', p')"
    and "fst z = (fst y)\<lparr>st_maps := m', st_manifest := (st_manifest (fst y))\<lparr>mf_tombstone_bytes := tb\<rparr>,
           st_pending_tombstone := pt\<rparr>" "snd z = snd y"
  shows "represents E sl (al @ rs) z p'"
proof -
  note R = representsD [OF assms(1)]
  note A = active_okD [OF R(2)]
  have sb: "same_but_active x y" using assms(2) by (simp add: appends_def)
  note M = same_but_active_manifest [OF sb]
  have sy: "sealed_ok E sl y" and idy: "active_id y = active_id x"
    using same_but_active_sealed [OF sb R(1)] by simp_all
  have z: "active_id z = active_id x" "seg_of z = seg_of y" "next_seq_of z = next_seq_of y"
    using assms(10,11) idy by (simp_all add: seg_of_def)
  have zn: "next_seq_of z = next_seq_of x + word_of_nat (length fs)"
    using appends_next [OF assms(2)] by (simp add: z(3) assms(4))
  have un: "unat (next_seq_of z) = unat (next_seq_of x) + length fs"
    unfolding zn by (rule unat_u64_add_of_nat) (use assms(7) in simp)
  then have nle: "next_seq_of x \<le> next_seq_of z" by (simp add: word_le_nat_alt)
  have 1: "sealed_ok E sl z"
    by (rule sealed_ok_frame [OF sy]) (use assms(10,11) idy z in simp_all)
  have ok: "seg_ok (seg_of y)"
    by (rule appends_ok [OF assms(2) A(1)]) (use assms(8) A(2) in \<open>simp add: len_simps\<close>)
  have last: "aseg_last_seq (st_active (fst z)) = lr_seq (last rs)"
  proof -
    have "rs \<noteq> []" using assms(4,6) by (metis length_0_conv length_number)
    with assms(2,10) show ?thesis by (simp add: appends_def)
  qed
  have lastge: "lr_seq r \<le> lr_seq (last rs)" if "r \<in> set (al @ rs)" for r
  proof (cases "r \<in> set rs")
    case True
    then show ?thesis unfolding assms(4) by (intro number_last [OF assms(5,6,7)])
  next
    case False
    with that R(3) have "lr_seq r < next_seq_of x" by (auto simp: seqs_below_def)
    moreover have "last rs \<in> set rs"
      using assms(4,6) by (metis last_in_set length_0_conv length_number)
    then have "next_seq_of x \<le> lr_seq (last rs)"
      using number_seqs [OF assms(5,7)] unfolding assms(4) by blast
    ultimately show ?thesis by simp
  qed
  have "sorted (map lr_seq (al @ rs))"
  proof -
    have "lr_seq a \<le> lr_seq b" if "a \<in> set al" "b \<in> set rs" for a b
    proof -
      have "lr_seq a < next_seq_of x" using R(3) that(1) by (auto simp: seqs_below_def)
      moreover have "next_seq_of x \<le> lr_seq b"
        using number_seqs [OF assms(5,7)] that(2) unfolding assms(4) by blast
      ultimately show ?thesis by simp
    qed
    then show ?thesis
      using A(6) number_sorted [OF assms(5,7)] by (auto simp: sorted_append assms(4))
  qed
  then have 2: "active_ok E (al @ rs) z"
    unfolding active_ok_def z(2) last
    using ok A appends_content [OF assms(2)] assms(3,10) M(1) lastge idy by (simp add: z(1))
  have 3: "seqs_below (next_seq_of z) (concat (map snd sl) @ al @ rs)"
    using seqs_below_mono [OF R(3) nle] number_below(1) [OF assms(5,7) R(4)]
    by (simp add: zn assms(4))
  have 4: "0 < next_seq_of z" using R(4) nle by simp
  have "ids_below y"
    by (rule ids_below_frame [OF R(5)])
      (use sb A(1) M(2) in \<open>simp_all add: same_but_active_def seg_ok_def seg_of_def\<close>)
  then have 5: "ids_below z" using assms(10,11) by (simp add: ids_below_def)
  have 6: "replays_to E 0 sl (active_id z) (al @ rs) empty_maps (st_maps (fst z), p')"
    using R(6) assms(9,10) by (auto simp: replays_to_def replay_log_append idy)
  show ?thesis unfolding represents_def using 1 2 3 4 5 6 by simp
qed

end
