(* ===== verification/Store_Seal.thy ===== *)
theory Store_Seal
  imports Store_Inv
begin

text \<open>
  Flushing, syncing and sealing keep the invariant, and the manifest on disk stays the one in
  memory up to the sequence counter and the tombstone count.
\<close>

section \<open>The manifest on disk\<close>

definition agrees :: "manifest \<Rightarrow> manifest \<Rightarrow> bool" where
  "agrees md m \<longleftrightarrow> md\<lparr>mf_next_seq := 0, mf_tombstone_bytes := 0\<rparr> = m\<lparr>mf_next_seq := 0, mf_tombstone_bytes := 0\<rparr>
     \<and> mf_next_seq md \<le> mf_next_seq m"

definition durable :: "env \<Rightarrow> seg_log list \<Rightarrow> sstate \<Rightarrow> bool" where
  "durable E sl x \<longleftrightarrow>
     mf_version (st_manifest (fst x)) = MANIFEST_VERSION
     \<and> check_manifest (st_opts (fst x)) (st_manifest (fst x)) = Inr ()
     \<and> (\<exists>md. manifest_load (e_manifest E) (snd x) = Inr (Some md) \<and> agrees md (st_manifest (fst x))
          \<and> seqs_below (mf_next_seq md) (concat (map snd sl)) \<and> 0 < mf_next_seq md)"

lemma agrees_refl [simp]: "agrees m m"
  by (simp add: agrees_def)

lemma agrees_fields:
  assumes "agrees md m"
  shows "mf_version md = mf_version m" "mf_model_id md = mf_model_id m" "mf_n_embd md = mf_n_embd m"
    "mf_dtype md = mf_dtype m" "mf_sealed md = mf_sealed m" "mf_active md = mf_active m"
    "mf_next_segment_id md = mf_next_segment_id m" "mf_snapshot_seq md = mf_snapshot_seq m"
    "mf_next_seq md \<le> mf_next_seq m"
proof -
  from assms have e: "md\<lparr>mf_next_seq := 0, mf_tombstone_bytes := 0\<rparr> = m\<lparr>mf_next_seq := 0, mf_tombstone_bytes := 0\<rparr>"
    by (simp add: agrees_def)
  show "mf_version md = mf_version m" "mf_model_id md = mf_model_id m" "mf_n_embd md = mf_n_embd m"
    "mf_dtype md = mf_dtype m" "mf_sealed md = mf_sealed m" "mf_active md = mf_active m"
    "mf_next_segment_id md = mf_next_segment_id m" "mf_snapshot_seq md = mf_snapshot_seq m"
    using arg_cong [OF e, of mf_version] arg_cong [OF e, of mf_model_id] arg_cong [OF e, of mf_n_embd]
      arg_cong [OF e, of mf_dtype] arg_cong [OF e, of mf_sealed] arg_cong [OF e, of mf_active]
      arg_cong [OF e, of mf_next_segment_id] arg_cong [OF e, of mf_snapshot_seq] by simp_all
  show "mf_next_seq md \<le> mf_next_seq m" using assms by (simp add: agrees_def)
qed

lemma check_manifest_cong:
  "mf_model_id m = mf_model_id m' \<Longrightarrow> mf_n_embd m = mf_n_embd m' \<Longrightarrow> mf_dtype m = mf_dtype m'
    \<Longrightarrow> check_manifest opts m = check_manifest opts m'"
  by (simp add: check_manifest_def)

lemma durable_frame:
  assumes "durable E sl x" "agrees (st_manifest (fst x)) (st_manifest (fst y))" "st_opts (fst y) = st_opts (fst x)"
    and "fmlookup (files (snd y)) ManifestFile = fmlookup (files (snd x)) ManifestFile"
  shows "durable E sl y"
proof -
  note A = agrees_fields [OF assms(2)]
  from assms(1) obtain md where md: "manifest_load (e_manifest E) (snd x) = Inr (Some md)"
    "agrees md (st_manifest (fst x))" "seqs_below (mf_next_seq md) (concat (map snd sl))" "0 < mf_next_seq md"
    by (auto simp: durable_def)
  have "agrees md (st_manifest (fst y))"
    using md(2) assms(2) by (auto simp: agrees_def)
  moreover have "check_manifest (st_opts (fst y)) (st_manifest (fst y)) = Inr ()"
    using assms(1,3) A check_manifest_cong [of "st_manifest (fst y)" "st_manifest (fst x)"]
    by (simp add: durable_def)
  ultimately show ?thesis
    using assms(1) md(1,3,4) manifest_load_cong [OF assms(4)] A(1) by (auto simp: durable_def)
qed

section \<open>Flushing and syncing\<close>

definition flushed :: "sstate \<Rightarrow> bool" where
  "flushed x \<longleftrightarrow> aseg_buf (st_active (fst x)) = []"

lemma represents_active:
  assumes "represents E sl al x p"
    and "seg_ok (a, v)" "seg_content (a, v) = seg_content (seg_of x)" "seg_frame (seg_of x) (a, v)"
    and "aseg_last_seq (st_active (fst x)) \<le> aseg_last_seq a"
  shows "represents E sl al ((fst x)\<lparr>st_active := a\<rparr>, v) p"
proof -
  let ?y = "((fst x)\<lparr>st_active := a\<rparr>, v)"
  note R = representsD [OF assms(1)]
  note A = active_okD [OF R(2)]
  have id: "active_id ?y = active_id x" and sy: "seg_of ?y = (a, v)"
    using assms(4) by (simp_all add: seg_frame_def seg_of_def)
  have "sealed_ok E sl ?y"
    by (rule sealed_ok_frame [OF R(1) id]) (use assms(4) in \<open>simp_all add: seg_frame_def seg_of_def\<close>)
  moreover have "active_ok E al ?y"
    unfolding active_ok_def sy using assms(2,3,5) A id by (auto intro: order_trans)
  moreover have "ids_below ?y"
    by (rule ids_below_frame [OF R(5)]) (use assms(4) A(1) sy in \<open>simp_all add: seg_ok_def seg_of_def\<close>)
  ultimately show ?thesis
    using R id by (simp add: represents_def)
qed

lemma flush_represents:
  assumes "on_active seg_flush x = (Inr u, y)" "represents E sl al x p"
  shows "represents E sl al y p" "flushed y" "st_maps (fst y) = st_maps (fst x)"
    "st_opts (fst y) = st_opts (fst x)" "st_manifest (fst y) = st_manifest (fst x)"
    "active_id y = active_id x" "fmlookup (files (snd y)) ManifestFile = fmlookup (files (snd x)) ManifestFile"
proof -
  have ok: "seg_ok (seg_of x)" using assms(2) by (simp add: represents_def active_ok_def)
  from assms(1) obtain q where q: "seg_flush (seg_of x) = (Inr u, q)" "y = ((fst x)\<lparr>st_active := fst q\<rparr>, snd q)"
    by (auto simp: on_active_Inr)
  note F = seg_flush_Inr [OF q(1) ok]
  show "represents E sl al y p"
    unfolding q(2) by (rule represents_active [OF assms(2)]) (use F in \<open>simp_all add: seg_of_def\<close>)
  show "flushed y" "st_maps (fst y) = st_maps (fst x)"
    "st_opts (fst y) = st_opts (fst x)" "st_manifest (fst y) = st_manifest (fst x)"
    "active_id y = active_id x" "fmlookup (files (snd y)) ManifestFile = fmlookup (files (snd x)) ManifestFile"
    using F(3,4) by (simp_all add: flushed_def q(2) seg_frame_def seg_of_def)
qed

lemma sync_represents:
  assumes "on_active seg_sync x = (Inr u, y)" "represents E sl al x p"
  shows "represents E sl al y p" "flushed y" "st_maps (fst y) = st_maps (fst x)"
    "st_opts (fst y) = st_opts (fst x)" "st_manifest (fst y) = st_manifest (fst x)"
    "active_id y = active_id x" "fmlookup (files (snd y)) ManifestFile = fmlookup (files (snd x)) ManifestFile"
    "fmlookup (synced (snd y)) (SegFile (active_id x)) = Some (log_bytes E al)"
proof -
  have ok: "seg_ok (seg_of x)" and co: "seg_content (seg_of x) = log_bytes E al"
    using assms(2) by (simp_all add: represents_def active_ok_def)
  from assms(1) obtain q where q: "seg_sync (seg_of x) = (Inr u, q)" "y = ((fst x)\<lparr>st_active := fst q\<rparr>, snd q)"
    by (auto simp: on_active_Inr)
  note F = seg_sync_Inr [OF q(1) ok]
  show "represents E sl al y p"
    unfolding q(2) by (rule represents_active [OF assms(2)]) (use F in \<open>simp_all add: seg_of_def\<close>)
  show "flushed y" "st_maps (fst y) = st_maps (fst x)"
    "st_opts (fst y) = st_opts (fst x)" "st_manifest (fst y) = st_manifest (fst x)"
    "active_id y = active_id x" "fmlookup (files (snd y)) ManifestFile = fmlookup (files (snd x)) ManifestFile"
    "fmlookup (synced (snd y)) (SegFile (active_id x)) = Some (log_bytes E al)"
    using F(3,4,8) co by (simp_all add: flushed_def q(2) seg_frame_def seg_of_def)
qed

section \<open>Sealing\<close>

lemma on_disk_Inr: "on_disk m x = (Inr r, y) \<longleftrightarrow> (\<exists>v. m (snd x) = (Inr r, v) \<and> y = (fst x, v))"
  by (cases x) (auto simp: on_disk_def zoom_def split: prod.splits)

lemma seal_active_run:
  assumes "seal_active E x = (Inr u, z)" "aseg_len (st_active (fst x)) \<noteq> 0"
  obtains a w1 sealed old' w2 w3 info where
    "seg_open (mf_next_segment_id (st_manifest (fst x))) (snd x) = (Inr a, w1)"
    "seg_seal (st_active (fst x), w1) = (Inr sealed, (old', w2))"
    "info = \<lparr> si_id = active_id x, si_bytes = aseg_len (st_active (fst x)),
        si_first_seq = (case aseg_first_seq (st_active (fst x)) of None \<Rightarrow> 0 | Some q \<Rightarrow> q),
        si_last_seq = aseg_last_seq (st_active (fst x)) \<rparr>"
    "fst z = (fst x)\<lparr>st_active := a, st_sealed := fmupd (active_id x) sealed (st_sealed (fst x)),
       st_manifest := (st_manifest (fst x))\<lparr>mf_next_segment_id := mf_next_segment_id (st_manifest (fst x)) + 1,
           mf_sealed := mf_sealed (st_manifest (fst x)) @ [info],
           mf_active := mf_next_segment_id (st_manifest (fst x)),
           mf_tombstone_bytes := mf_tombstone_bytes (st_manifest (fst x)) + st_pending_tombstone (fst x)\<rparr>,
       st_pending_tombstone := 0\<rparr>"
    "manifest_store (e_manifest E) (st_manifest (fst z)) w2 = (Inr (), w3)" "snd z = w3"
proof -
  let ?info = "\<lparr> si_id = active_id x, si_bytes = aseg_len (st_active (fst x)),
        si_first_seq = (case aseg_first_seq (st_active (fst x)) of None \<Rightarrow> 0 | Some q \<Rightarrow> q),
        si_last_seq = aseg_last_seq (st_active (fst x)) \<rparr>"
  let ?s = "\<lambda>a sealed. (fst x)\<lparr>st_active := a, st_sealed := fmupd (active_id x) sealed (st_sealed (fst x)),
       st_manifest := (st_manifest (fst x))\<lparr>mf_next_segment_id := mf_next_segment_id (st_manifest (fst x)) + 1,
           mf_sealed := mf_sealed (st_manifest (fst x)) @ [?info],
           mf_active := mf_next_segment_id (st_manifest (fst x)),
           mf_tombstone_bytes := mf_tombstone_bytes (st_manifest (fst x)) + st_pending_tombstone (fst x)\<rparr>,
       st_pending_tombstone := 0\<rparr>"
  from assms have "\<exists>a w1 sealed w2.
      seg_open (mf_next_segment_id (st_manifest (fst x))) (snd x) = (Inr a, w1)
      \<and> seal_segment (st_active (fst x)) w1 = (Inr sealed, w2)
      \<and> store_manifest E (?s a sealed, w2) = (Inr u, z)"
    by (auto simp: seal_active_def bindM_Inr seqM_Inr the_store_Inr on_store_Inr on_disk_Inr Let_def)
  then obtain a w1 sealed w2 y where
    1: "seg_open (mf_next_segment_id (st_manifest (fst x))) (snd x) = (Inr a, w1)"
    and 2: "seal_segment (st_active (fst x)) w1 = (Inr sealed, w2)"
    and y: "fst y = ?s a sealed" "snd y = w2"
    and st: "store_manifest E y = (Inr u, z)"
    using fst_conv snd_conv by metis
  from 2 obtain old' where 3: "seg_seal (st_active (fst x), w1) = (Inr sealed, (old', w2))"
    by (auto simp: seal_segment_Inr)
  from st have "on_disk (manifest_store (e_manifest E) (st_manifest (fst y))) y = (Inr u, z)"
    by (cases y) (simp add: store_manifest_def)
  then obtain w3 where 4: "manifest_store (e_manifest E) (st_manifest (fst y)) w2 = (Inr u, w3)" "z = (fst y, w3)"
    by (auto simp: on_disk_Inr y(2))
  show thesis
    by (rule that [OF 1 3 refl]) (use 4 y in simp_all)
qed

lemma seal_represents:
  assumes "seal_active E x = (Inr u, z)" "aseg_len (st_active (fst x)) \<noteq> 0"
    and "represents E sl al x p" "env_ok E" "durable E sl x"
    and "unat (mf_next_segment_id (st_manifest (fst x))) + 1 < 2 ^ 32"
  shows "represents E (sl @ [(active_id x, al)]) [] z [] \<and> durable E (sl @ [(active_id x, al)]) z \<and> flushed z
    \<and> st_maps (fst z) = st_maps (fst x) \<and> st_opts (fst z) = st_opts (fst x)
    \<and> next_seq_of z = next_seq_of x"
  using assms(1,2)
proof (rule seal_active_run)
  fix a w1 sealed old' w2 w3 info
  let ?m = "st_manifest (fst x)" let ?new = "mf_next_segment_id ?m" let ?old = "st_active (fst x)"
  assume op: "seg_open ?new (snd x) = (Inr a, w1)"
    and se: "seg_seal (?old, w1) = (Inr sealed, (old', w2))"
    and info: "info = \<lparr> si_id = active_id x, si_bytes = aseg_len ?old,
        si_first_seq = (case aseg_first_seq ?old of None \<Rightarrow> 0 | Some q \<Rightarrow> q), si_last_seq = aseg_last_seq ?old \<rparr>"
    and z: "fst z = (fst x)\<lparr>st_active := a, st_sealed := fmupd (active_id x) sealed (st_sealed (fst x)),
       st_manifest := ?m\<lparr>mf_next_segment_id := ?new + 1, mf_sealed := mf_sealed ?m @ [info], mf_active := ?new,
           mf_tombstone_bytes := mf_tombstone_bytes ?m + st_pending_tombstone (fst x)\<rparr>,
       st_pending_tombstone := 0\<rparr>"
    and ms: "manifest_store (e_manifest E) (st_manifest (fst z)) w2 = (Inr (), w3)" and w3: "snd z = w3"
  note R = representsD [OF assms(3)]
  note A = active_okD [OF R(2)]
  note O = seg_open_Inr [OF op]
  have cm: "codec_ok (e_manifest E)" using assms(4) by (simp add: env_ok_def)
  have ex: "fs_exists (snd x) (SegFile (active_id x))" using A(1) by (simp add: seg_ok_def seg_of_def)
  have lt: "active_id x < ?new" using R(5) ex by (simp add: ids_below_def)
  have fresh: "\<not> fs_exists (snd x) (SegFile ?new)" using R(5) by (auto simp: ids_below_def)
  then have empty: "file_of (snd x) (SegFile ?new) = []" by (simp add: fs_exists_def file_of_def)
  have w1: "files w1 = fmupd (SegFile ?new) [] (files (snd x))" using O(7) empty by simp
  have c1: "seg_content (?old, w1) = log_bytes E al" "seg_ok (?old, w1)"
    using A(1,2) lt by (auto simp: seg_content_def seg_of_def seg_ok_def file_of_def w1 fs_exists_def)
  note S = seg_seal_Inr [OF se c1(2), simplified]
  have sealed: "sealed = \<lparr> sseg_id = active_id x, sseg_map = log_bytes E al \<rparr>"
    using S(1,2) c1(1) by simp
  have w2o: "fmlookup (files w2) (SegFile (active_id x)) = Some (log_bytes E al)"
    using S(4) c1(1) by simp
  have w2: "f \<noteq> SegFile (active_id x) \<Longrightarrow> fmlookup (files w2) f = fmlookup (files w1) f" for f
    using S(3) by (simp add: seg_frame_def)
  have ver: "mf_version (st_manifest (fst z)) = MANIFEST_VERSION"
    using assms(5) z by (simp add: durable_def)
  have w3f: "fmlookup (files w3) (SegFile i) = fmlookup (files w2) (SegFile i)" for i
    by (rule manifest_store_any(2) [OF ms cm ver]) simp_all
  have files3: "fmlookup (files w3) (SegFile i) =
      (if i = active_id x then Some (log_bytes E al) else if i = ?new then Some [] else fmlookup (files (snd x)) (SegFile i))" for i
    using w3f [of i] w2o w2 [of "SegFile i"] lt by (auto simp: w1)
  have id: "active_id z = ?new" using z O(1) by simp
  have new1: "unat (?new + 1) = unat ?new + 1"
    using assms(6) by (simp add: unat_word_ariths)
  have sid: "fst l < ?new \<and> fst l \<noteq> active_id x" if "l \<in> set sl" for l
  proof -
    have "fs_exists (snd x) (SegFile (fst l))" using R(1) that by (auto simp: sealed_ok_def fs_exists_def)
    moreover have "active_id x \<notin> fst ` set sl" using R(1) by (simp add: sealed_ok_def)
    then have "fst l \<noteq> active_id x" using imageI [OF that, of fst] by metis
    ultimately show ?thesis using R(5) by (simp add: ids_below_def)
  qed
  have info_ok: "info_ok info (active_id x, al)"
    using A(5) by (simp add: info_ok_def info)
  have nw: "?new \<notin> fst ` set sl"
  proof
    assume "?new \<in> fst ` set sl"
    then obtain l where "l \<in> set sl" "fst l = ?new" by (metis imageE)
    with sid show False by fastforce
  qed
  then have "distinct (?new # map fst sl @ [active_id x])"
    using R(1) lt by (auto simp: sealed_ok_def)
  then have 1: "sealed_ok E (sl @ [(active_id x, al)]) z"
    unfolding sealed_ok_def id w3
    using R(1) z info_ok sealed A(3) files3 sid
    by (auto simp: sealed_ok_def list_all2_appendI dest: sid)
  have 2: "active_ok E [] z"
  proof -
    have "fmlookup (files w3) (SegFile ?new) = Some []" using files3 [of ?new] lt by auto
    moreover have "aseg_len a = 0" using O(3) empty by simp
    ultimately show ?thesis
      unfolding active_ok_def id using z O(1,2,6)
      by (simp add: seg_ok_def seg_content_def seg_of_def w3 fs_exists_def file_of_def)
  qed
  have nx: "next_seq_of z = next_seq_of x" using z by simp
  have 3: "ids_below z"
    unfolding ids_below_def w3 fs_exists_def
  proof (intro allI impI)
    fix i assume "fmlookup (files w3) (SegFile i) \<noteq> None"
    then have "i \<le> ?new" using files3 [of i] lt R(5) by (auto simp: ids_below_def fs_exists_def split: if_splits)
    then show "i < mf_next_segment_id (st_manifest (fst z))"
      using new1 by (simp add: z word_less_nat_alt word_le_nat_alt)
  qed
  have 4: "replays_to E 0 (sl @ [(active_id x, al)]) (active_id z) [] empty_maps (st_maps (fst z), [])"
    using R(6) z by (auto simp: replays_to_def replay_segments_append)
  have rep: "represents E (sl @ [(active_id x, al)]) [] z []"
    unfolding represents_def using 1 2 3 4 R(3,4) nx by simp
  have load: "manifest_load (e_manifest E) w3 = Inr (Some (st_manifest (fst z)))"
    by (rule manifest_store_load [OF ms cm ver])
  have "check_manifest (st_opts (fst z)) (st_manifest (fst z)) = Inr ()"
    using assms(5) z check_manifest_cong [of "st_manifest (fst z)" ?m] by (simp add: durable_def)
  with load ver w3 R(3,4) nx have "durable E (sl @ [(active_id x, al)]) z" by (auto simp: durable_def)
  with rep nx show ?thesis using z O(2) by (simp add: flushed_def)
qed

text \<open>At an insert boundary the segment is either kept or sealed.\<close>

lemma seal_if_needed_represents:
  assumes "seal_if_needed E x = (Inr u, z)"
    and "represents E sl al x p" "env_ok E" "durable E sl x" "flushed x"
    and "unat (mf_next_segment_id (st_manifest (fst x))) + 1 < 2 ^ 32"
  obtains (kept) "z = x" | (sealed) "represents E (sl @ [(active_id x, al)]) [] z []" "durable E (sl @ [(active_id x, al)]) z" "flushed z"
    "st_maps (fst z) = st_maps (fst x)" "st_opts (fst z) = st_opts (fst x)" "next_seq_of z = next_seq_of x"
proof (cases "aseg_len (st_active (fst x)) < so_segment_max_bytes (st_opts (fst x)) \<or> aseg_len (st_active (fst x)) = 0")
  case True
  with assms(1) have "z = x" by (simp add: seal_if_needed_def bindM_def the_store_def getM_def ret_def split: prod.splits)
  then show thesis by (rule kept)
next
  case False
  with assms(1) have "seal_active E x = (Inr u, z)"
    by (cases x) (simp add: seal_if_needed_def bindM_def the_store_def getM_def)
  from seal_represents [OF this _ assms(2,3,4,6)] False show thesis by (intro sealed) simp_all
qed

end
