(* ===== verification/Store_Ops.thy ===== *)
theory Store_Ops
  imports Store_Seal
begin

text \<open>
  The operations of a store against its abstract specification: a store is a log and the maps
  that replaying it gives; an insert appends its records and publishes its entities, a delete
  appends one record and drops the document, and a failed append phase changes nothing.
\<close>

section \<open>The abstract effect of an insert\<close>

definition distinct_summaries :: "document_dto \<Rightarrow> summary_dto list" where
  "distinct_summaries doc = dedup_on ud_summary_id {} (all_summaries doc)"

definition is_live :: "sstate \<Rightarrow> u64 \<Rightarrow> bool" where
  "is_live x d \<longleftrightarrow> fmlookup (docs (st_maps (fst x))) d \<noteq> None"

definition records_of :: "env \<Rightarrow> sstate \<Rightarrow> document_dto \<Rightarrow> log_record list" where
  "records_of E x doc = insert_records E (st_opts (fst x)) (is_live x (dd_document_id doc)) doc
     (distinct_summaries doc) (next_seq_of x)"

definition appended_here :: "env \<Rightarrow> sstate \<Rightarrow> document_dto \<Rightarrow> appended" where
  "appended_here E x doc = appended_of E (st_opts (fst x)) (active_id x) (length (seg_content (seg_of x)))
     (is_live x (dd_document_id doc)) doc (distinct_summaries doc) (next_seq_of x)"

definition maps_after_insert :: "env \<Rightarrow> sstate \<Rightarrow> document_dto \<Rightarrow> maps" where
  "maps_after_insert E x doc =
     publish (appended_here E x doc) (dd_document_id doc)
       (drop_doc (dd_document_id doc) (active_id x) (st_maps (fst x)))"

text \<open>Nothing overflows: the segment offsets, the sequence counter, the frame lengths, the next segment id.\<close>

definition room_for :: "log_record list \<Rightarrow> log_record list \<Rightarrow> sstate \<Rightarrow> bool" where
  "room_for al rs x \<longleftrightarrow>
     unat (next_seq_of x) + length rs < 2 ^ 64 \<and> log_len al + log_len rs < 2 ^ 64
     \<and> list_all frame_ok rs \<and> unat (mf_next_segment_id (st_manifest (fst x))) + 1 < 2 ^ 32"

definition no_pending :: "u64 \<Rightarrow> pending list \<Rightarrow> bool" where
  "no_pending d p \<longleftrightarrow> (\<forall>x \<in> set p. pending_doc_id x \<noteq> d)"

text \<open>The whole log, whatever segment a record is in.\<close>

definition whole_log :: "seg_log list \<Rightarrow> log_record list \<Rightarrow> log_record list" where
  "whole_log sl al = concat (map snd sl) @ al"

text \<open>Where the log of \<open>x\<close> is after an operation ends in \<open>z\<close>: still active, or sealed.\<close>

definition placed :: "sstate \<Rightarrow> seg_log list \<Rightarrow> log_record list \<Rightarrow> sstate \<Rightarrow> seg_log list \<Rightarrow> log_record list \<Rightarrow> bool" where
  "placed x sl al z sl' al' \<longleftrightarrow>
     (sl' = sl \<and> al' = al \<and> active_id z = active_id x)
     \<or> (sl' = sl @ [(active_id x, al)] \<and> al' = [])"

lemma placed_whole_log: "placed x sl al z sl' al' \<Longrightarrow> whole_log sl' al' = whole_log sl al"
  by (auto simp: placed_def whole_log_def)

section \<open>Runs of an insert\<close>

lemma remove_from_maps_Inr:
  "remove_from_maps d x = (Inr r, y) \<longleftrightarrow>
     (\<exists>m. remove_doc d (active_id x) (st_maps (fst x)) = Some (r, m)
        \<and> y = (count_tombstones r ((fst x)\<lparr>st_maps := m\<rparr>), snd x))"
  by (auto simp: remove_from_maps_def bindM_Inr seqM_Inr the_store_Inr on_store_Inr ret_Inr fail_Inr
      split: option.splits)

definition displaced :: "sstate \<Rightarrow> u64 \<Rightarrow> replaced" where
  "displaced x d =
     (case fmlookup (docs (st_maps (fst x))) d of
        None \<Rightarrow> \<lparr> rp_existed = False, rp_split_ids = [], rp_summary_ids = [] \<rparr>
      | Some e \<Rightarrow> \<lparr> rp_existed = True, rp_split_ids = live_ids (splits (st_maps (fst x))) (de_split_ids e),
                    rp_summary_ids = live_ids (summaries (st_maps (fst x))) (owned_summary_ids e) \<rparr>)"

lemma drop_doc_remove:
  "remove_doc d seg m = Some (r, m') \<Longrightarrow> drop_doc d seg m = m'"
  by (simp add: drop_doc_def)

lemma insert_run:
  assumes "store_insert E doc x = (Inr rp, z)"
  obtains us ap y0 y1 y2 replaced where
    "validate (st_opts (fst x)) doc = Inr us"
    "append_document E doc us x = (Inr ap, y0)"
    "(if ap_replaces ap
      then bindM (remove_from_maps (dd_document_id doc)) (\<lambda>removed.
             ret \<lparr> rp_existed = True, rp_split_ids = rd_split_ids removed,
                   rp_summary_ids = rd_summary_ids removed \<rparr>)
      else ret \<lparr> rp_existed = False, rp_split_ids = [], rp_summary_ids = [] \<rparr>) y0 = (Inr replaced, y1)"
    "on_active seg_flush ((fst y1)\<lparr>st_maps := publish ap (dd_document_id doc) (st_maps (fst y1))\<rparr>, snd y1) = (Inr (), y2)"
    "seal_if_needed E y2 = (Inr (), z)" "rp = retain_removed doc us replaced"
proof -
  from assms obtain us where v: "validate (st_opts (fst x)) doc = Inr us"
    and r: "attempt (append_document E doc us) (\<lambda>r. case r of
       Inl e \<Rightarrow> rewind (aseg_len (st_active (fst x))) (next_seq_of x) e
     | Inr ap \<Rightarrow>
         bindM (if ap_replaces ap
                then bindM (remove_from_maps (dd_document_id doc)) (\<lambda>removed.
                       ret \<lparr> rp_existed = True, rp_split_ids = rd_split_ids removed,
                             rp_summary_ids = rd_summary_ids removed \<rparr>)
                else ret \<lparr> rp_existed = False, rp_split_ids = [], rp_summary_ids = [] \<rparr>) (\<lambda>replaced.
         seqM (on_store (\<lambda>s. s\<lparr>st_maps := publish ap (dd_document_id doc) (st_maps s)\<rparr>))
        (seqM (on_active seg_flush)
        (seqM (seal_if_needed E)
        (ret (retain_removed doc us replaced)))))) x = (Inr rp, z)"
    by (auto simp: store_insert_def bindM_Inr the_store_Inr liftM_Inr)
  obtain p y0 where a: "append_document E doc us x = (p, y0)" by (rule prod.exhaust)
  show thesis
  proof (cases p)
    case (Inl e)
    have "fst (rewind len seq e y) \<noteq> Inr q" for len seq y and q :: replaced
      by (auto simp: rewind_def attempt_def fail_def seqM_def bindM_def on_store_def modM_def split: prod.splits sum.splits)
    with r a Inl show ?thesis by (simp add: attempt_def) (metis fst_conv)
  next
    case (Inr ap)
    with r a show ?thesis
      by (auto simp: attempt_def bindM_Inr seqM_Inr on_store_Inr ret_Inr intro!: that [OF v])
  qed
qed

text \<open>The removal of the replaced document, if any, and the publication of the new one.\<close>

lemma removal_run:
  assumes "(if replaces
      then bindM (remove_from_maps d) (\<lambda>removed.
             ret \<lparr> rp_existed = True, rp_split_ids = rd_split_ids removed,
                   rp_summary_ids = rd_summary_ids removed \<rparr>)
      else ret \<lparr> rp_existed = False, rp_split_ids = [], rp_summary_ids = [] \<rparr>) y = (Inr rp, z)"
    and "replaces \<longleftrightarrow> is_live y d"
  obtains tb pt where
    "fst z = (fst y)\<lparr>st_maps := drop_doc d (active_id y) (st_maps (fst y)),
       st_manifest := (st_manifest (fst y))\<lparr>mf_tombstone_bytes := tb\<rparr>, st_pending_tombstone := pt\<rparr>"
    "snd z = snd y" "rp = displaced y d"
proof (cases replaces)
  case True
  then obtain e where e: "fmlookup (docs (st_maps (fst y))) d = Some e"
    using assms(2) by (auto simp: is_live_def)
  from True assms(1) obtain r m where r: "remove_doc d (active_id y) (st_maps (fst y)) = Some (r, m)"
    and z: "z = (count_tombstones r ((fst y)\<lparr>st_maps := m\<rparr>), snd y)"
    and rp: "rp = \<lparr> rp_existed = True, rp_split_ids = rd_split_ids r, rp_summary_ids = rd_summary_ids r \<rparr>"
    by (auto simp: bindM_Inr ret_Inr remove_from_maps_Inr)
  from remove_doc_spec [OF e, of "active_id y"] r
  have ids: "rd_split_ids r = live_ids (splits (st_maps (fst y))) (de_split_ids e)"
    "rd_summary_ids r = live_ids (summaries (st_maps (fst y))) (owned_summary_ids e)"
    by (metis Pair_inject option.inject)+
  show thesis
    by (rule that) (use z rp drop_doc_remove [OF r] ids e in \<open>simp_all add: count_tombstones_def displaced_def\<close>)
next
  case False
  then have n: "fmlookup (docs (st_maps (fst y))) d = None" using assms(2) by (simp add: is_live_def)
  with False assms(1) show thesis
    by (intro that [where tb = "mf_tombstone_bytes (st_manifest (fst y))" and pt = "st_pending_tombstone (fst y)"])
      (simp_all add: ret_Inr displaced_def)
qed

lemma appends_same:
  "appends E rs x y \<Longrightarrow> st_maps (fst y) = st_maps (fst x)"
  "appends E rs x y \<Longrightarrow> st_opts (fst y) = st_opts (fst x)"
  "appends E rs x y \<Longrightarrow> mf_next_segment_id (st_manifest (fst y)) = mf_next_segment_id (st_manifest (fst x))"
  by (simp_all add: appends_def same_but_active_def) (auto dest: arg_cong [of _ _ mf_next_segment_id])

lemma appends_durable:
  assumes "appends E rs x y" "durable E sl x" "unat (next_seq_of x) + length rs < 2 ^ 64"
    and "fst z = (fst y)\<lparr>st_maps := m', st_manifest := (st_manifest (fst y))\<lparr>mf_tombstone_bytes := tb\<rparr>,
           st_pending_tombstone := pt\<rparr>" "snd z = snd y"
  shows "durable E sl z"
proof (rule durable_frame [OF assms(2)])
  have sb: "same_but_active x y" using assms(1) by (simp add: appends_def)
  have "unat (next_seq_of y) = unat (next_seq_of x) + length rs"
    using appends_next [OF assms(1)] assms(3) by (simp add: unat_u64_add_of_nat)
  then have "next_seq_of x \<le> next_seq_of y" by (simp add: word_le_nat_alt)
  moreover have "(st_manifest (fst x))\<lparr>mf_next_seq := 0, mf_tombstone_bytes := 0\<rparr>
      = (st_manifest (fst y))\<lparr>mf_next_seq := 0, mf_tombstone_bytes := 0\<rparr>"
  proof -
    have "(st_manifest (fst y))\<lparr>mf_next_seq := 0\<rparr> = (st_manifest (fst x))\<lparr>mf_next_seq := 0\<rparr>"
      using sb by (simp add: same_but_active_def)
    then have "(st_manifest (fst y))\<lparr>mf_next_seq := 0\<rparr>\<lparr>mf_tombstone_bytes := 0\<rparr>
        = (st_manifest (fst x))\<lparr>mf_next_seq := 0\<rparr>\<lparr>mf_tombstone_bytes := 0\<rparr>" by simp
    then show ?thesis by simp
  qed
  ultimately show "agrees (st_manifest (fst x)) (st_manifest (fst z))"
    using assms(4) by (simp add: agrees_def)
  show "st_opts (fst z) = st_opts (fst x)" using sb assms(4) by (simp add: same_but_active_def)
  show "fmlookup (files (snd z)) ManifestFile = fmlookup (files (snd x)) ManifestFile"
    using sb assms(5) by (simp add: same_but_active_def seg_frame_def seg_of_def)
qed

section \<open>A successful insert\<close>

lemma length_insert_records: "length (insert_records E opts b doc us n) = length (insert_bodies E opts b doc us)"
  by (simp add: insert_records_def)

lemma insert_appends:
  assumes "append_document E doc us x = (Inr ap, y)" "env_ok E" "represents E sl al x p"
    and "us = distinct_summaries doc" "room_for al (records_of E x doc) x"
  shows "appends E (records_of E x doc) x y" "active_id y = active_id x" "ap = appended_here E x doc"
proof -
  have ok: "seg_ok (seg_of x)" and co: "seg_content (seg_of x) = log_bytes E al"
    using assms(3) by (simp_all add: represents_def active_ok_def)
  note D = append_document_Inr [OF assms(1,2) ok, folded is_live_def, unfolded assms(4), folded records_of_def]
  have b: "length (seg_content (seg_of x)) + log_len (records_of E x doc) < 2 ^ 64"
    using assms(5) by (simp add: co len_simps room_for_def)
  show "appends E (records_of E x doc) x y" "active_id y = active_id x" "ap = appended_here E x doc"
    using D [OF b] by (simp_all add: appended_here_def)
qed

text \<open>The state an insert has reached when its records are on the log and its entities in the maps.\<close>

lemma insert_published:
  assumes "represents E sl al x p" "env_ok E" "durable E sl x" "doc_consistent doc"
    and "\<not> is_live x (dd_document_id doc) \<Longrightarrow> no_pending (dd_document_id doc) p"
    and "room_for al (records_of E x doc) x"
    and "appends E (records_of E x doc) x y"
    and "fst z = (fst y)\<lparr>st_maps := maps_after_insert E x doc,
           st_manifest := (st_manifest (fst y))\<lparr>mf_tombstone_bytes := tb\<rparr>, st_pending_tombstone := pt\<rparr>"
    and "snd z = snd y"
  shows "represents E sl (al @ records_of E x doc) z (filter (\<lambda>q. pending_doc_id q \<noteq> dd_document_id doc) p)"
    "durable E sl z"
proof -
  let ?d = "dd_document_id doc" let ?fs = "insert_bodies E (st_opts (fst x)) (is_live x ?d) doc (distinct_summaries doc)"
  have rs: "records_of E x doc = number (next_seq_of x) ?fs"
    by (simp add: records_of_def insert_records_def)
  have nb: "unat (next_seq_of x) + length ?fs < 2 ^ 64" "log_len al + log_len (records_of E x doc) < 2 ^ 64"
    "list_all frame_ok (records_of E x doc)"
    using assms(6) by (simp_all add: room_for_def rs)
  have pos: "0 < next_seq_of x" using assms(1) by (simp add: represents_def)
  have co: "length (seg_content (seg_of x)) = log_len al"
    using assms(1) by (simp add: represents_def active_ok_def len_simps)
  have sub: "set (distinct_summaries doc) \<subseteq> set (all_summaries doc)"
    unfolding distinct_summaries_def by (rule dedup_on_subset)
  have "newer 0 (records_of E x doc)"
    unfolding rs by (rule number_below(2) [OF numbered_insert nb(1) pos])
  then have rep: "replay_log E (active_id x) 0 (log_len al) (records_of E x doc) (st_maps (fst x), p) =
    Inr (maps_after_insert E x doc, filter (\<lambda>q. pending_doc_id q \<noteq> ?d) p)"
    unfolding records_of_def maps_after_insert_def appended_here_def co is_live_def
    by (intro replay_insert [OF assms(2,4) sub]) (use assms(5) in \<open>simp_all add: is_live_def no_pending_def\<close>)
  show "represents E sl (al @ records_of E x doc) z (filter (\<lambda>q. pending_doc_id q \<noteq> ?d) p)"
    by (rule represents_append [OF assms(1,7) nb(3) rs numbered_insert _ nb(1,2) rep assms(8,9)])
      (simp add: insert_bodies_def)
  show "durable E sl z"
    by (rule appends_durable [OF assms(7,3) _ assms(8,9)]) (use nb(1) rs in simp)
qed

lemma filter_no_pending: "no_pending d p \<Longrightarrow> filter (\<lambda>q. pending_doc_id q \<noteq> d) p = p"
  by (simp add: no_pending_def filter_id_conv)

text \<open>Flushing and sealing at the end of an operation.\<close>

lemma finish_represents:
  assumes "on_active seg_flush x = (Inr u, y)" "seal_if_needed E y = (Inr v, z)"
    and "represents E sl al x p" "durable E sl x" "env_ok E"
    and "unat (mf_next_segment_id (st_manifest (fst x))) + 1 < 2 ^ 32"
  shows "\<exists>sl' al' p'. represents E sl' al' z p' \<and> placed x sl al z sl' al'
      \<and> set p' \<subseteq> set p \<and> durable E sl' z \<and> flushed z \<and> st_maps (fst z) = st_maps (fst x)
      \<and> st_opts (fst z) = st_opts (fst x) \<and> next_seq_of z = next_seq_of x"
proof -
  note F = flush_represents [OF assms(1,3)]
  have d: "durable E sl y" by (rule durable_frame [OF assms(4)]) (use F in simp_all)
  from assms(2) F(1) assms(5) d F(2) show ?thesis
  proof (rule seal_if_needed_represents)
    show "unat (mf_next_segment_id (st_manifest (fst y))) + 1 < 2 ^ 32" using assms(6) F(5) by simp
    assume "z = y"
    with F d show ?thesis by (intro exI [of _ sl] exI [of _ al] exI [of _ p]) (simp add: placed_def)
  next
    assume s: "represents E (sl @ [(active_id y, al)]) [] z []" "durable E (sl @ [(active_id y, al)]) z" "flushed z"
      "st_maps (fst z) = st_maps (fst y)" "st_opts (fst z) = st_opts (fst y)" "next_seq_of z = next_seq_of y"
    show ?thesis
      by (intro exI [of _ "sl @ [(active_id y, al)]"] exI [of _ "[]"])
        (use s F in \<open>simp add: placed_def\<close>)
  qed
qed

lemma insert_represents:
  assumes "store_insert E doc x = (Inr rp, z)" "represents E sl al x p" "env_ok E" "durable E sl x"
    and "doc_consistent doc" "\<not> is_live x (dd_document_id doc) \<Longrightarrow> no_pending (dd_document_id doc) p"
    and "room_for al (records_of E x doc) x"
  shows "\<exists>sl' al' p'. represents E sl' al' z p' \<and> placed x sl (al @ records_of E x doc) z sl' al'
      \<and> set p' \<subseteq> set p \<and> durable E sl' z \<and> flushed z \<and> st_maps (fst z) = maps_after_insert E x doc
      \<and> st_opts (fst z) = st_opts (fst x)
      \<and> next_seq_of z = next_seq_of x + word_of_nat (length (records_of E x doc))"
    "good_document (st_opts (fst x)) doc"
    "rp = retain_removed doc (distinct_summaries doc) (displaced x (dd_document_id doc))"
proof -
  let ?d = "dd_document_id doc" let ?rs = "records_of E x doc"
  from assms(1) obtain us ap y0 y1 y2 replaced where
    v: "validate (st_opts (fst x)) doc = Inr us"
    and ad: "append_document E doc us x = (Inr ap, y0)"
    and rm: "(if ap_replaces ap
      then bindM (remove_from_maps ?d) (\<lambda>removed.
             ret \<lparr> rp_existed = True, rp_split_ids = rd_split_ids removed,
                   rp_summary_ids = rd_summary_ids removed \<rparr>)
      else ret \<lparr> rp_existed = False, rp_split_ids = [], rp_summary_ids = [] \<rparr>) y0 = (Inr replaced, y1)"
    and fl: "on_active seg_flush ((fst y1)\<lparr>st_maps := publish ap ?d (st_maps (fst y1))\<rparr>, snd y1) = (Inr (), y2)"
    and sn: "seal_if_needed E y2 = (Inr (), z)" and rp: "rp = retain_removed doc us replaced"
    by (rule insert_run)
  from v have us: "us = distinct_summaries doc" and good: "good_document (st_opts (fst x)) doc"
    by (simp_all add: validate_Inr distinct_summaries_def)
  note D = insert_appends [OF ad assms(3,2) us assms(7)]
  have live: "ap_replaces ap \<longleftrightarrow> is_live y0 ?d"
    using D(3) appends_same(1) [OF D(1)] by (simp add: appended_here_def appended_of_def Let_def is_live_def)
  from removal_run [OF rm live] obtain tb pt where
    y1: "fst y1 = (fst y0)\<lparr>st_maps := drop_doc ?d (active_id y0) (st_maps (fst y0)),
       st_manifest := (st_manifest (fst y0))\<lparr>mf_tombstone_bytes := tb\<rparr>, st_pending_tombstone := pt\<rparr>"
    "snd y1 = snd y0" "replaced = displaced y0 ?d" .
  define z0 where "z0 = ((fst y1)\<lparr>st_maps := publish ap ?d (st_maps (fst y1))\<rparr>, snd y1)"
  have z: "fst z0 = (fst y0)\<lparr>st_maps := maps_after_insert E x doc,
       st_manifest := (st_manifest (fst y0))\<lparr>mf_tombstone_bytes := tb\<rparr>, st_pending_tombstone := pt\<rparr>"
    using y1(1) D(2,3) appends_same(1) [OF D(1)] by (simp add: z0_def maps_after_insert_def)
  have P: "represents E sl (al @ ?rs) z0 (filter (\<lambda>q. pending_doc_id q \<noteq> ?d) p)" "durable E sl z0"
    using insert_published [OF assms(2,3,4,5,6,7) D(1) z] y1(2) by (simp_all add: z0_def)
  have nid: "unat (mf_next_segment_id (st_manifest (fst z0))) + 1 < 2 ^ 32"
    using assms(7) appends_same(3) [OF D(1)] z by (simp add: room_for_def)
  have idz: "active_id z0 = active_id x" using z D(2) by simp
  have nx: "next_seq_of z0 = next_seq_of x + word_of_nat (length ?rs)"
    using z appends_next [OF D(1)] by simp
  from finish_represents [OF fl [folded z0_def] sn P assms(3) nid] obtain sl' al' p' where
    "represents E sl' al' z p'" "placed z0 sl (al @ ?rs) z sl' al'"
    "set p' \<subseteq> set p" "durable E sl' z" "flushed z" "st_maps (fst z) = st_maps (fst z0)"
    "st_opts (fst z) = st_opts (fst z0)" "next_seq_of z = next_seq_of z0"
    by (auto dest: subsetD)
  then show "\<exists>sl' al' p'. represents E sl' al' z p' \<and> placed x sl (al @ ?rs) z sl' al'
      \<and> set p' \<subseteq> set p \<and> durable E sl' z \<and> flushed z \<and> st_maps (fst z) = maps_after_insert E x doc
      \<and> st_opts (fst z) = st_opts (fst x) \<and> next_seq_of z = next_seq_of x + word_of_nat (length ?rs)"
    using z nx appends_same(2) [OF D(1)] idz
    by (intro exI [of _ sl'] exI [of _ al'] exI [of _ p']) (simp add: placed_def)
  show "good_document (st_opts (fst x)) doc" by (rule good)
  show "rp = retain_removed doc (distinct_summaries doc) (displaced x ?d)"
    by (simp only: rp us y1(3) displaced_def appends_same(1) [OF D(1)])
qed

end
