(* ===== verification/Store_Fail.thy ===== *)
theory Store_Fail
  imports Store_Ops
begin

text \<open>
  Failed operations: an insert whose append phase fails leaves the store representing the log
  it represented before, whatever the file system did; no operation panics on a validated
  document.
\<close>

section \<open>Sequence numbers used by an operation\<close>

definition same_last :: "seg_state \<Rightarrow> seg_state \<Rightarrow> bool" where
  "same_last s t \<longleftrightarrow> aseg_last_seq (fst t) = aseg_last_seq (fst s)"

interpretation sl: step_relation same_last
  by unfold_locales (simp_all add: same_last_def)

lemma same_last_write_all: "keeps same_last (write_all bs)"
proof -
  have f: "keeps same_last flush_buf"
    by (rule keepsI) (auto simp: flush_buf_def same_last_def split: prod.splits if_splits fault.splits)
  have b: "keeps same_last (buffer_push bs)"
    by (rule keepsI) (auto simp: buffer_push_def modM_def same_last_def)
  have w: "keeps same_last (on_world m)" for m :: "'a io"
    by (rule keepsI) (auto simp: on_world_def zoom_def same_last_def split: prod.splits)
  show ?thesis
  proof (rule keepsI)
    fix s r t assume run: "write_all bs s = (r, t)"
    obtain a v where s: "s = (a, v)" by fastforce
    let ?m = "if length bs < BUF_CAPACITY - length (aseg_buf a) then buffer_push bs
      else seqM (if BUF_CAPACITY - length (aseg_buf a) < length bs then flush_buf else ret ())
            (if BUF_CAPACITY \<le> length bs then on_world (fs_append (SegFile (aseg_id a)) bs) else buffer_push bs)"
    have "keeps same_last ?m" by (intro sl.keeps_rules f b w)
    moreover have "?m s = (r, t)" using run by (simp add: write_all_def s Let_def if_distribR)
    ultimately show "same_last s t" by (rule keepsD)
  qed
qed

lemma seg_append_last:
  assumes "seg_append bs q s = (r, t)"
  shows "aseg_last_seq (fst t) = aseg_last_seq (fst s) \<or> aseg_last_seq (fst t) = q"
proof -
  obtain p u where w: "write_all bs s = (p, u)" by (rule prod.exhaust)
  then have l: "aseg_last_seq (fst u) = aseg_last_seq (fst s)"
    using keepsD [OF same_last_write_all w] by (simp add: same_last_def)
  from assms w l show ?thesis
    by (cases p; cases u) (auto simp: seg_append_def bindM_def getM_def seqM_def modM_def ret_def)
qed

text \<open>At most \<open>n\<close> numbers from the counter on, the segment's last one among them.\<close>

definition uses :: "nat \<Rightarrow> 'a sop \<Rightarrow> bool" where
  "uses n m \<longleftrightarrow> (\<forall>x r y. m x = (r, y) \<longrightarrow>
     (\<exists>k \<le> n. next_seq_of y = next_seq_of x + word_of_nat k
       \<and> (aseg_last_seq (st_active (fst y)) = aseg_last_seq (st_active (fst x))
          \<or> (\<exists>j < k. aseg_last_seq (st_active (fst y)) = next_seq_of x + word_of_nat j))))"

lemma uses_ret: "uses 0 (ret a)" "uses 0 (fail e)" "uses 0 (the_store g)" "uses 0 (liftM v)"
  by (auto simp: uses_def ret_def fail_def the_store_def getM_def liftM_def)

lemma uses_bind:
  assumes "uses n m" "\<And>a. uses k (f a)"
  shows "uses (n + k) (bindM m f)"
  unfolding uses_def
proof (intro allI impI)
  fix x r z assume run: "bindM m f x = (r, z)"
  obtain p y where m: "m x = (p, y)" by (rule prod.exhaust)
  with assms(1) obtain i where i: "i \<le> n" "next_seq_of y = next_seq_of x + word_of_nat i"
    "aseg_last_seq (st_active (fst y)) = aseg_last_seq (st_active (fst x))
       \<or> (\<exists>j < i. aseg_last_seq (st_active (fst y)) = next_seq_of x + word_of_nat j)"
    unfolding uses_def by blast
  show "\<exists>h \<le> n + k. next_seq_of z = next_seq_of x + word_of_nat h
       \<and> (aseg_last_seq (st_active (fst z)) = aseg_last_seq (st_active (fst x))
          \<or> (\<exists>j < h. aseg_last_seq (st_active (fst z)) = next_seq_of x + word_of_nat j))"
  proof (cases p)
    case (Inl e)
    with run m have "z = y" by (simp add: bindM_def)
    with i show ?thesis by (intro exI [of _ i]) simp
  next
    case (Inr a)
    with run m have "f a y = (r, z)" by (simp add: bindM_def)
    with assms(2) [of a] obtain l where l: "l \<le> k" "next_seq_of z = next_seq_of y + word_of_nat l"
      "aseg_last_seq (st_active (fst z)) = aseg_last_seq (st_active (fst y))
         \<or> (\<exists>j < l. aseg_last_seq (st_active (fst z)) = next_seq_of y + word_of_nat j)"
      unfolding uses_def by blast
    have "aseg_last_seq (st_active (fst z)) = aseg_last_seq (st_active (fst x))
          \<or> (\<exists>j < i + l. aseg_last_seq (st_active (fst z)) = next_seq_of x + word_of_nat j)"
      using l(3)
    proof
      assume "aseg_last_seq (st_active (fst z)) = aseg_last_seq (st_active (fst y))"
      with i(3) show ?thesis by (auto intro: trans_less_add1)
    next
      assume "\<exists>j < l. aseg_last_seq (st_active (fst z)) = next_seq_of y + word_of_nat j"
      then obtain j where "j < l" "aseg_last_seq (st_active (fst z)) = next_seq_of x + word_of_nat (i + j)"
        using i(2) by (auto simp: add.assoc)
      then show ?thesis by (intro disjI2 exI [of _ "i + j"]) simp
    qed
    with i(1,2) l(1,2) show ?thesis
      by (intro exI [of _ "i + l"]) (simp add: add.assoc)
  qed
qed

lemma uses_mono: "uses n m \<Longrightarrow> n \<le> k \<Longrightarrow> uses k m"
  unfolding uses_def by (meson order_trans)

lemma uses_bind0: "uses 0 m \<Longrightarrow> (\<And>a. uses k (f a)) \<Longrightarrow> uses k (bindM m f)"
  using uses_bind [of 0 m k f] by simp

lemma uses_bind0r: "uses k m \<Longrightarrow> (\<And>a. uses 0 (f a)) \<Longrightarrow> uses k (bindM m f)"
  using uses_bind [of k m 0 f] by simp

lemma uses_mapM: "(\<And>a. uses 1 (f a)) \<Longrightarrow> uses (length xs) (mapM f xs)"
proof (induction xs)
  case Nil
  then show ?case by (simp add: uses_ret)
next
  case (Cons a xs)
  have "uses (1 + length xs) (bindM (f a) (\<lambda>y. bindM (mapM f xs) (\<lambda>ys. ret (y # ys))))"
    by (intro uses_bind uses_bind0r uses_ret Cons)
  then show ?case by simp
qed

lemma uses_numbered:
  "uses 1 (bindM next_seq (\<lambda>q. bindM (on_active (seg_append (bs q) q)) (k q)))" if "\<And>q off. uses 0 (k q off)"
  unfolding uses_def
proof (intro allI impI)
  fix x r z
  let ?y = "((fst x)\<lparr>st_manifest := (st_manifest (fst x))\<lparr>mf_next_seq := next_seq_of x + 1\<rparr>\<rparr>, snd x)"
  assume run: "bindM next_seq (\<lambda>q. bindM (on_active (seg_append (bs q) q)) (k q)) x = (r, z)"
  have n: "next_seq x = (Inr (next_seq_of x), ?y)" by (simp add: next_seq_Inr)
  obtain p y' where a: "on_active (seg_append (bs (next_seq_of x)) (next_seq_of x)) ?y = (p, y')" by (rule prod.exhaust)
  then obtain q where q: "seg_append (bs (next_seq_of x)) (next_seq_of x) (st_active (fst x), snd x) = (p, q)"
    "y' = ((fst ?y)\<lparr>st_active := fst q\<rparr>, snd q)"
    by (auto simp: on_active_def zoom_def split: prod.splits)
  have 1: "next_seq_of y' = next_seq_of x + word_of_nat 1"
    "aseg_last_seq (st_active (fst y')) = aseg_last_seq (st_active (fst x))
      \<or> aseg_last_seq (st_active (fst y')) = next_seq_of x + word_of_nat 0"
    using seg_append_last [OF q(1)] by (simp_all add: q(2))
  have "next_seq_of z = next_seq_of y' \<and> aseg_last_seq (st_active (fst z)) = aseg_last_seq (st_active (fst y'))"
  proof (cases p)
    case (Inl e)
    with run n a show ?thesis by (simp add: bindM_def)
  next
    case (Inr off)
    with run n a have "k (next_seq_of x) off y' = (r, z)" by (simp add: bindM_def)
    with that [of "next_seq_of x" off] show ?thesis unfolding uses_def by fastforce
  qed
  with 1 show "\<exists>k \<le> 1. next_seq_of z = next_seq_of x + word_of_nat k
       \<and> (aseg_last_seq (st_active (fst z)) = aseg_last_seq (st_active (fst x))
          \<or> (\<exists>j < k. aseg_last_seq (st_active (fst z)) = next_seq_of x + word_of_nat j))"
    by (intro exI [of _ 1]) auto
qed

lemma uses_store_append: "uses 1 (store_append E kind meta vector)"
  unfolding store_append_def Let_def by (intro uses_bind0 uses_ret uses_numbered)

lemma bind_lift: "bindM (liftM (Inr a)) f = f a"
  by (rule ext) (simp add: bindM_def liftM_def)

lemma uses_append_delete:
  assumes "codec_ok (e_delete E)"
  shows "uses 1 (append_delete E d)"
proof -
  have "append_delete E d = bindM next_seq (\<lambda>seq.
     bindM (on_active (seg_append (encode (e_crc E) seq DeleteDoc NoVector (meta_bytes (e_delete E) \<lparr>xm_doc_id = d\<rparr>) []) seq))
       (\<lambda>_. ret ()))"
    by (simp add: append_delete_def meta_bytes_ok(1) [OF assms] Let_def bind_lift)
  then show ?thesis by (simp only:) (intro uses_numbered uses_ret)
qed

lemma uses_append_document:
  assumes "codec_ok (e_delete E)"
  shows "uses (2 + length us + length (dd_splits doc)) (append_document E doc us)"
proof -
  have s: "uses 1 (append_summary E u)" and p: "uses 1 (append_split E sp)" for u sp
    unfolding append_summary_def append_split_def
    by (intro uses_bind0 uses_bind0r uses_ret uses_store_append)+
  have d: "uses 1 (if b then append_delete E d else ret ())" for b d
    by (cases b) (simp_all only: if_True if_False uses_append_delete [OF assms] uses_mono [OF uses_ret(1)] order.refl zero_le)
  have "uses (1 + (length us + (length (dd_splits doc) + 1))) (append_document E doc us)"
    unfolding append_document_def seqM_def
    by (rule uses_bind0 [OF uses_ret(3)]) (intro uses_bind [OF d] uses_bind [OF uses_mapM [OF s]]
        uses_bind [OF uses_mapM [OF p]] uses_bind0 uses_bind0r uses_ret uses_store_append)
  then show ?thesis by (rule uses_mono) simp
qed

section \<open>The only error of the append phase is an I/O error\<close>

definition only_io :: "(error, 's, 'a) op \<Rightarrow> bool" where
  "only_io m \<longleftrightarrow> (\<forall>s e t. m s = (Inl e, t) \<longrightarrow> e = Io)"

lemma only_ioD: "only_io m \<Longrightarrow> m s = (Inl e, t) \<Longrightarrow> e = Io"
  unfolding only_io_def by blast

lemma only_ioI: "(\<And>s e t. m s = (Inl e, t) \<Longrightarrow> e = Io) \<Longrightarrow> only_io m"
  by (simp add: only_io_def)

lemma only_io_basic:
  "only_io (ret a)" "only_io (getM g)" "only_io (modM h)" "only_io (liftM (Inr a))"
  by (simp_all add: only_io_def ret_def getM_def modM_def liftM_def)

lemma only_io_bind: "only_io m \<Longrightarrow> (\<And>a. only_io (f a)) \<Longrightarrow> only_io (bindM m f)"
  unfolding only_io_def bindM_def by (auto split: prod.splits sum.splits)

lemma only_io_seq: "only_io m \<Longrightarrow> only_io k \<Longrightarrow> only_io (seqM m k)"
  by (simp add: seqM_def only_io_bind)

lemma only_io_mapM: "(\<And>a. a \<in> set xs \<Longrightarrow> only_io (f a)) \<Longrightarrow> only_io (mapM f xs)"
  by (induction xs) (simp_all add: only_io_basic only_io_bind)

lemma only_io_on_active: "only_io m \<Longrightarrow> only_io (on_active m)"
  by (rule only_ioI) (auto simp: on_active_def zoom_def split: prod.splits dest: only_ioD)

lemma only_io_write_all: "only_io (write_all bs)"
proof -
  have f: "only_io flush_buf"
    by (auto simp: only_io_def flush_buf_def split: prod.splits if_splits fault.splits)
  have b: "only_io (buffer_push bs)" by (simp add: buffer_push_def only_io_basic)
  have w: "only_io (on_world (fs_append g bs))" for g
    by (auto simp: only_io_def on_world_def zoom_def fs_append_def io_def split: prod.splits fault.splits)
  show ?thesis
    unfolding only_io_def
  proof (intro allI impI)
    fix s e t assume run: "write_all bs s = (Inl e, t)"
    obtain a v where s: "s = (a, v)" by fastforce
    let ?m = "if length bs < BUF_CAPACITY - length (aseg_buf a) then buffer_push bs
      else seqM (if BUF_CAPACITY - length (aseg_buf a) < length bs then flush_buf else ret ())
            (if BUF_CAPACITY \<le> length bs then on_world (fs_append (SegFile (aseg_id a)) bs) else buffer_push bs)"
    have "only_io ?m" by (auto intro!: only_io_seq simp: f b w only_io_basic)
    moreover have "?m s = (Inl e, t)" using run by (simp add: write_all_def s Let_def if_distribR)
    ultimately show "e = Io" by (rule only_ioD)
  qed
qed

lemma only_io_seg_append: "only_io (seg_append bs q)"
  unfolding seg_append_def
  by (intro only_io_bind only_io_seq only_io_basic only_io_write_all)

lemma only_io_store_append: "only_io (store_append E kind meta vector)"
  unfolding store_append_def next_seq_def Let_def the_store_def on_store_def
  by (intro only_io_bind only_io_seq only_io_basic only_io_on_active only_io_seg_append)

lemma only_io_append_delete: "codec_ok (e_delete E) \<Longrightarrow> only_io (append_delete E d)"
  unfolding append_delete_def next_seq_def Let_def the_store_def on_store_def
  by (simp add: meta_bytes_ok(1) bind_lift)
    (intro only_io_bind only_io_seq only_io_basic only_io_on_active only_io_seg_append)

lemma only_io_append_summary:
  assumes "codec_ok (e_summary E)" "ud_embedding u = Some v"
  shows "only_io (append_summary E u)"
  unfolding append_summary_def the_store_def meta_bytes_ok(1) [OF assms(1)] bind_lift expect_vector_def assms(2) option.case
  by (intro only_io_bind only_io_basic only_io_store_append)

lemma only_io_append_split:
  assumes "codec_ok (e_split E)" "sd_embedding sp = Some v"
  shows "only_io (append_split E sp)"
  unfolding append_split_def the_store_def meta_bytes_ok(1) [OF assms(1)] bind_lift expect_vector_def assms(2) option.case
  by (intro only_io_bind only_io_basic only_io_store_append)

lemma only_io_append_document:
  assumes "env_ok E" "good_document opts doc" "set us \<subseteq> set (all_summaries doc)"
  shows "only_io (append_document E doc us)"
proof -
  have c: "codec_ok (e_doc E)" "codec_ok (e_split E)" "codec_ok (e_summary E)" "codec_ok (e_delete E)"
    using assms(1) by (simp_all add: env_ok_def)
  have u: "only_io (append_summary E a)" if "a \<in> set us" for a
  proof -
    from that assms(3) have "a \<in> set (all_summaries doc)" by blast
    then obtain v where "ud_embedding a = Some v"
      using assms(2) by (auto simp: good_document_def good_embedding_def)
    then show ?thesis by (rule only_io_append_summary [OF c(3)])
  qed
  have p: "only_io (append_split E a)" if "a \<in> set (dd_splits doc)" for a
  proof -
    from that obtain v where "sd_embedding a = Some v"
      using assms(2) by (auto simp: good_document_def good_embedding_def)
    then show ?thesis by (rule only_io_append_split [OF c(2)])
  qed
  have d: "only_io (if b then append_delete E k else ret ())" for b k
    by (simp add: only_io_append_delete c(4) only_io_basic)
  show ?thesis
    unfolding append_document_def the_store_def meta_bytes_ok(1) [OF c(1)] bind_lift
    by (intro only_io_bind only_io_seq only_io_mapM only_io_basic only_io_store_append d u p)
qed

section \<open>A failed insert\<close>

lemma rewound_represents:
  assumes "rewound x z" "represents E sl al x p" "env_ok E"
    and "unat (next_seq_of x) + n < 2 ^ 64"
    and "aseg_last_seq (st_active (fst z)) = aseg_last_seq (st_active (fst x))
      \<or> (\<exists>j < n. aseg_last_seq (st_active (fst z)) = next_seq_of x + word_of_nat j)"
  shows "represents E sl al z p"
proof -
  note R = representsD [OF assms(2)]
  note A = active_okD [OF R(2)]
  have id: "active_id z = active_id x" using assms(1) by (simp add: rewound_def seg_frame_def seg_of_def)
  have "lr_seq r \<le> aseg_last_seq (st_active (fst z))" if "r \<in> set al" for r
    using assms(5)
  proof
    assume "aseg_last_seq (st_active (fst z)) = aseg_last_seq (st_active (fst x))"
    with A(5) [OF that] show ?thesis by simp
  next
    assume "\<exists>j < n. aseg_last_seq (st_active (fst z)) = next_seq_of x + word_of_nat j"
    then obtain j where "j < n" "aseg_last_seq (st_active (fst z)) = next_seq_of x + word_of_nat j" by blast
    moreover from this(1) assms(4) have "unat (next_seq_of x + word_of_nat j) = unat (next_seq_of x) + j"
      by (intro unat_u64_add_of_nat) simp
    moreover have "lr_seq r < next_seq_of x" using R(3) that by (auto simp: seqs_below_def)
    ultimately show ?thesis by (simp add: word_less_nat_alt word_le_nat_alt)
  qed
  then have 1: "active_ok E al z"
    using assms(1) A id by (simp add: rewound_def active_ok_def)
  have 2: "sealed_ok E sl z"
    by (rule sealed_ok_frame [OF R(1) id])
      (use assms(1) in \<open>simp_all add: rewound_def seg_frame_def seg_of_def\<close>)
  have 3: "ids_below z"
    by (rule ids_below_frame [OF R(5)]) (use assms(1) A(1) in \<open>simp_all add: rewound_def seg_ok_def seg_of_def\<close>)
  show ?thesis
    using R 1 2 3 assms(1) id by (simp add: represents_def rewound_def)
qed

lemma seg_truncate_last: "seg_truncate_to len s = (Inr u, t) \<Longrightarrow> aseg_last_seq (fst t) = aseg_last_seq (fst s)"
  by (cases s) (auto simp: seg_truncate_to_def seqM_Inr modM_Inr on_world_Inr seg_flush_def
      split: prod.splits if_splits dest!: flush_buf_Inr)

lemma rewind_last:
  assumes "rewind len seq e y = (Inl e, z)" "e = Io"
  shows "aseg_last_seq (st_active (fst z)) = aseg_last_seq (st_active (fst y))"
proof -
  obtain p y2 where t: "on_active (seg_truncate_to len) y = (p, y2)" by (rule prod.exhaust)
  with assms obtain u where p: "p = Inr u"
    by (cases p) (auto simp: rewind_def attempt_def fail_def)
  with t obtain q where q: "seg_truncate_to len (seg_of y) = (Inr u, q)" "y2 = ((fst y)\<lparr>st_active := fst q\<rparr>, snd q)"
    by (auto simp: on_active_Inr)
  have "st_active (fst z) = st_active (fst y2)"
    using assms t p by (auto simp: rewind_def attempt_def fail_def seqM_def bindM_def on_store_def modM_def split: prod.splits)
  with seg_truncate_last [OF q(1)] q(2) show ?thesis by (simp add: seg_of_def)
qed

text \<open>What the errors of an insert mean, and what they leave behind.\<close>

lemma insert_fails:
  assumes "store_insert E doc x = (Inl e, z)" "represents E sl al x p" "env_ok E"
    and "unat (next_seq_of x) + 2 + length (distinct_summaries doc) + length (dd_splits doc) < 2 ^ 64"
  shows "(z = x \<and> \<not> good_document (st_opts (fst x)) doc)
    \<or> (e = Io \<and> rewound x z \<and> represents E sl al z p)
    \<or> (\<exists>e2. e = RewindFailed Io e2)
    \<or> (\<exists>ap y. append_document E doc (distinct_summaries doc) x = (Inr ap, y))"
proof (cases "validate (st_opts (fst x)) doc")
  case (Inl e')
  then have "z = x" using assms(1)
    by (simp add: store_insert_def bindM_def the_store_def getM_def liftM_def split: prod.splits)
  moreover have "\<not> good_document (st_opts (fst x)) doc"
    using Inl validate_Inr [of "st_opts (fst x)" doc] by auto
  ultimately show ?thesis by simp
next
  case (Inr us)
  then have us: "us = distinct_summaries doc" and good: "good_document (st_opts (fst x)) doc"
    by (simp_all add: validate_Inr distinct_summaries_def)
  have ok: "seg_ok (seg_of x)" using assms(2) by (simp add: represents_def active_ok_def)
  obtain q y where a: "append_document E doc us x = (q, y)" by (rule prod.exhaust)
  show ?thesis
  proof (cases q)
    case (Inr ap)
    with a us show ?thesis by blast
  next
    case (Inl e')
    have io: "e' = Io"
      by (rule only_ioD [OF only_io_append_document [OF assms(3) good] a [unfolded Inl]])
        (simp add: us distinct_summaries_def dedup_on_subset)
    from assms(1) Inr a Inl have run: "rewind (aseg_len (st_active (fst x))) (next_seq_of x) Io y = (Inl e :: error + replaced, z)"
      by (simp add: store_insert_def bindM_def the_store_def getM_def liftM_def attempt_def io split: prod.splits)
    have g: "grows x y" using keepsD [OF keeps_append_document a] .
    from rewind_any [OF run g ok] consider "e = Io" "rewound x z" | e2 where "e = RewindFailed Io e2" by auto
    then show ?thesis
    proof cases
      case 1
      have ce: "codec_ok (e_delete E)" using assms(3) by (simp add: env_ok_def)
      obtain k where k: "k \<le> 2 + length us + length (dd_splits doc)"
        "aseg_last_seq (st_active (fst y)) = aseg_last_seq (st_active (fst x))
          \<or> (\<exists>j < k. aseg_last_seq (st_active (fst y)) = next_seq_of x + word_of_nat j)"
        using uses_append_document [OF ce, of us doc] a unfolding uses_def by blast
      have lz: "aseg_last_seq (st_active (fst z)) = aseg_last_seq (st_active (fst y))"
        using run 1(1) rewind_last by simp
      have "represents E sl al z p"
        by (rule rewound_represents [OF 1(2) assms(2,3), of "2 + length us + length (dd_splits doc)"])
          (use assms(4) k lz us in \<open>auto intro: order_less_le_trans\<close>)
      with 1 show ?thesis by simp
    qed simp
  qed
qed

end
