(* ===== verification/Store_Delete.thy ===== *)
theory Store_Delete
  imports Store_Fail
begin

text \<open>
  Deleting a document and publishing a meta snapshot, with the same contract as an insert: the
  log grows by the records the operation writes, and the maps are what replaying it gives.
\<close>

section \<open>Deleting\<close>

lemma delete_run:
  assumes "store_delete E d x = (Inr r, z)" "is_live x d"
  obtains y removed y1 y2 where
    "append_delete E d x = (Inr (), y)" "remove_from_maps d y = (Inr removed, y1)"
    "on_active seg_flush y1 = (Inr (), y2)" "seal_if_needed E y2 = (Inr (), z)" "r = Some removed"
  using assms by (auto simp: store_delete_def is_live_def bindM_Inr seqM_Inr the_store_Inr ret_Inr)

lemma delete_absent: "\<not> is_live x d \<Longrightarrow> store_delete E d x = (Inr None, x)"
  by (cases x) (simp add: store_delete_def is_live_def bindM_def the_store_def getM_def ret_def)

definition delete_log :: "env \<Rightarrow> sstate \<Rightarrow> u64 \<Rightarrow> log_record list" where
  "delete_log E x d = [delete_record E (st_opts (fst x)) d (next_seq_of x)]"

lemma length_delete_log: "length (delete_log E x d) = 1"
  by (simp add: delete_log_def)

lemma delete_represents:
  assumes "store_delete E d x = (Inr r, z)" "is_live x d"
    and "represents E sl al x p" "env_ok E" "durable E sl x" "room_for al (delete_log E x d) x"
  shows "\<exists>sl' al' p'. represents E sl' al' z p' \<and> placed x sl (al @ delete_log E x d) z sl' al'
      \<and> set p' \<subseteq> set p \<and> durable E sl' z \<and> flushed z
      \<and> st_maps (fst z) = drop_doc d (active_id x) (st_maps (fst x)) \<and> st_opts (fst z) = st_opts (fst x)
      \<and> next_seq_of z = next_seq_of x + 1"
    "\<exists>e m. remove_doc d (active_id x) (st_maps (fst x)) = Some (e, m) \<and> r = Some e"
proof -
  let ?rs = "delete_log E x d"
  from assms(1,2) obtain y removed y1 y2 where
    ad: "append_delete E d x = (Inr (), y)" and rm: "remove_from_maps d y = (Inr removed, y1)"
    and fl: "on_active seg_flush y1 = (Inr (), y2)" and sn: "seal_if_needed E y2 = (Inr (), z)"
    and r: "r = Some removed"
    by (rule delete_run)
  note D = append_delete_Inr [OF ad assms(4), folded delete_log_def]
  from rm obtain m where m: "remove_doc d (active_id y) (st_maps (fst y)) = Some (removed, m)"
    and y1: "y1 = (count_tombstones removed ((fst y)\<lparr>st_maps := m\<rparr>), snd y)"
    by (auto simp: remove_from_maps_Inr)
  have m': "remove_doc d (active_id x) (st_maps (fst x)) = Some (removed, m)"
    using m appends_same(1) [OF D(1)] D(2) by simp
  then have dm: "m = drop_doc d (active_id x) (st_maps (fst x))"
    by (simp add: drop_doc_remove)
  let ?tb = "mf_tombstone_bytes (st_manifest (fst y)) + rd_sealed_bytes removed"
  let ?pt = "st_pending_tombstone (fst y) + rd_active_bytes removed"
  have f1: "fst y1 = (fst y)\<lparr>st_maps := m, st_manifest := (st_manifest (fst y))\<lparr>mf_tombstone_bytes := ?tb\<rparr>,
      st_pending_tombstone := ?pt\<rparr>" "snd y1 = snd y"
    by (simp_all add: y1 count_tombstones_def)
  have num: "?rs = number (next_seq_of x) [delete_record E (st_opts (fst x)) d]"
    by (simp add: delete_log_def)
  have nb: "numbered [delete_record E (st_opts (fst x)) d]"
    by (simp add: numbered_def delete_record_def)
  have ro: "unat (next_seq_of x) + 1 < 2 ^ 64" "log_len al + log_len ?rs < 2 ^ 64" "list_all frame_ok ?rs"
    "unat (mf_next_segment_id (st_manifest (fst x))) + 1 < 2 ^ 32"
    using assms(6) by (simp_all add: room_for_def delete_log_def)
  have pos: "0 < next_seq_of x" using assms(3) by (simp add: represents_def)
  have rep: "replay_log E (active_id x) 0 (log_len al) ?rs (st_maps (fst x), p) =
      Inr (m, filter (\<lambda>q. pending_doc_id q \<noteq> d) p)"
    unfolding delete_log_def dm by (rule replay_delete [OF assms(4) pos])
  have P: "represents E sl (al @ ?rs) y1 (filter (\<lambda>q. pending_doc_id q \<noteq> d) p)"
    by (rule represents_append [OF assms(3) D(1) ro(3) num nb _ _ ro(2) rep f1]) (use ro(1) in simp_all)
  have Q: "durable E sl y1"
    by (rule appends_durable [OF D(1) assms(5) _ f1]) (use ro(1) in \<open>simp add: delete_log_def\<close>)
  have nid: "unat (mf_next_segment_id (st_manifest (fst y1))) + 1 < 2 ^ 32"
    using ro(4) appends_same(3) [OF D(1)] f1 by simp
  from finish_represents [OF fl sn P Q assms(4) nid] obtain sl' al' p' where
    "represents E sl' al' z p'" "placed y1 sl (al @ ?rs) z sl' al'"
    "set p' \<subseteq> set p" "durable E sl' z" "flushed z" "st_maps (fst z) = st_maps (fst y1)"
    "st_opts (fst z) = st_opts (fst y1)" "next_seq_of z = next_seq_of y1"
    by (auto dest: subsetD)
  then show "\<exists>sl' al' p'. represents E sl' al' z p' \<and> placed x sl (al @ ?rs) z sl' al'
      \<and> set p' \<subseteq> set p \<and> durable E sl' z \<and> flushed z
      \<and> st_maps (fst z) = drop_doc d (active_id x) (st_maps (fst x)) \<and> st_opts (fst z) = st_opts (fst x)
      \<and> next_seq_of z = next_seq_of x + 1"
    using f1 dm appends_same(2) [OF D(1)] D(2) appends_next [OF D(1)] length_delete_log
    by (intro exI [of _ sl'] exI [of _ al'] exI [of _ p']) (simp add: placed_def)
  show "\<exists>e m. remove_doc d (active_id x) (st_maps (fst x)) = Some (e, m) \<and> r = Some e"
    using m' r by blast
qed

section \<open>Publishing a snapshot\<close>

lemma snapshot_meta_run:
  assumes "snapshot_meta E x = (Inr q, z)"
  obtains y w1 w2 where "on_active seg_sync x = (Inr (), y)"
    "q = saturating_sub (next_seq_of y) 1"
    "snapshot_store (e_crc E) (e_order E) (st_maps (fst y)) q (snd y) = (Inr (), w1)"
    "manifest_store (e_manifest E) ((st_manifest (fst y))\<lparr>mf_snapshot_seq := q\<rparr>) w1 = (Inr (), w2)"
    "z = ((fst y)\<lparr>st_manifest := (st_manifest (fst y))\<lparr>mf_snapshot_seq := q\<rparr>\<rparr>, w2)"
  using assms
  by (auto simp: snapshot_meta_def bindM_Inr seqM_Inr the_store_Inr on_store_Inr ret_Inr on_disk_Inr
      store_manifest_def split: prod.splits)

lemma snapshot_load_cong:
  "fmlookup (files v) SnapFile = fmlookup (files w) SnapFile \<Longrightarrow> snapshot_load crc v = snapshot_load crc w"
  by (simp add: snapshot_load_def fs_exists_def fs_read_def)

lemma represents_files:
  assumes "represents E sl al x p" "z = ((fst x)\<lparr>st_manifest := m'\<rparr>, w)"
    and "\<And>i. fmlookup (files w) (SegFile i) = fmlookup (files (snd x)) (SegFile i)"
    and "mf_sealed m' = mf_sealed (st_manifest (fst x))" "mf_active m' = mf_active (st_manifest (fst x))"
    "mf_next_segment_id m' = mf_next_segment_id (st_manifest (fst x))" "mf_next_seq m' = next_seq_of x"
  shows "represents E sl al z p"
proof -
  note R = representsD [OF assms(1)]
  have 1: "sealed_ok E sl z"
    by (rule sealed_ok_frame [OF R(1)]) (use assms in simp_all)
  have c: "seg_content (seg_of z) = seg_content (seg_of x)" "seg_ok (seg_of z) = seg_ok (seg_of x)"
    using assms(2,3) by (simp_all add: seg_of_def seg_content_def seg_ok_def file_of_def fs_exists_def)
  have 2: "active_ok E al z"
    using R(2) assms(2,5) unfolding active_ok_def c by simp
  have 3: "ids_below z"
    using R(5) assms(2,3,6) by (simp add: ids_below_def fs_exists_def)
  show ?thesis
    using R 1 2 3 assms(2,7) by (simp add: represents_def)
qed

lemma snapshot_meta_represents:
  assumes "snapshot_meta E x = (Inr q, z)"
    and "represents E sl al x p" "env_ok E" "durable E sl x" "maps_fit (st_maps (fst x))"
  shows "represents E sl al z p \<and> durable E sl z \<and> flushed z \<and> st_maps (fst z) = st_maps (fst x)
    \<and> q = next_seq_of x - 1 \<and> mf_snapshot_seq (st_manifest (fst z)) = q
    \<and> snapshot_load (e_crc E) (snd z) = Inr (Some (st_maps (fst x), q))
    \<and> next_seq_of z = next_seq_of x \<and> st_opts (fst z) = st_opts (fst x) \<and> active_id z = active_id x
    \<and> seqs_below (next_seq_of x) (whole_log sl al)"
  using assms(1)
proof (rule snapshot_meta_run)
  fix y w1 w2
  assume sy: "on_active seg_sync x = (Inr (), y)" and q: "q = saturating_sub (next_seq_of y) 1"
    and ss: "snapshot_store (e_crc E) (e_order E) (st_maps (fst y)) q (snd y) = (Inr (), w1)"
    and ms: "manifest_store (e_manifest E) ((st_manifest (fst y))\<lparr>mf_snapshot_seq := q\<rparr>) w1 = (Inr (), w2)"
    and z: "z = ((fst y)\<lparr>st_manifest := (st_manifest (fst y))\<lparr>mf_snapshot_seq := q\<rparr>\<rparr>, w2)"
  note S = sync_represents [OF sy assms(2)]
  have cm: "codec_ok (e_manifest E)" and oo: "order_ok (e_order E)" using assms(3) by (simp_all add: env_ok_def)
  let ?m = "(st_manifest (fst y))\<lparr>mf_snapshot_seq := q\<rparr>"
  have ver: "mf_version ?m = MANIFEST_VERSION" using assms(4) S(5) by (simp add: durable_def)
  have f1: "g \<noteq> SnapTmp \<Longrightarrow> g \<noteq> SnapFile \<Longrightarrow> fmlookup (files w1) g = fmlookup (files (snd y)) g" for g
    using snapshot_store_other [OF ss] by simp
  have f2: "g \<noteq> ManifestTmp \<Longrightarrow> g \<noteq> ManifestFile \<Longrightarrow> fmlookup (files w2) g = fmlookup (files w1) g" for g
    by (rule manifest_store_any(2) [OF ms cm ver])
  have seg: "fmlookup (files w2) (SegFile i) = fmlookup (files (snd y)) (SegFile i)" for i
    using f1 [of "SegFile i"] f2 [of "SegFile i"] by simp
  have load: "snapshot_load (e_crc E) w2 = Inr (Some (st_maps (fst x), q))"
  proof -
    have "snapshot_load (e_crc E) w1 = Inr (Some (st_maps (fst y), q))"
      by (rule snapshot_store_load [OF ss oo]) (use assms(5) S(3) in simp)
    moreover have "fmlookup (files w2) SnapFile = fmlookup (files w1) SnapFile"
      by (rule f2) simp_all
    ultimately show ?thesis using S(3) snapshot_load_cong [of w2 w1] by simp
  qed
  have rep: "represents E sl al z p"
    by (rule represents_files [OF S(1) z]) (use seg in simp_all)
  have ml: "manifest_load (e_manifest E) w2 = Inr (Some ?m)"
    by (rule manifest_store_load [OF ms cm ver])
  have R3: "seqs_below (next_seq_of x) (concat (map snd sl) @ al)" and pos: "0 < next_seq_of x"
    using assms(2) by (simp_all add: represents_def)
  have "check_manifest (st_opts (fst z)) (st_manifest (fst z)) = Inr ()"
    using assms(4) S(4,5) check_manifest_cong [of ?m "st_manifest (fst x)"] by (simp add: durable_def z)
  then have dur: "durable E sl z"
    using ml ver R3 pos S(5) by (auto simp: durable_def z)
  have q': "q = next_seq_of x - 1"
    using q S(5) pos by (auto simp: saturating_sub_def word_less_nat_alt)
  show "represents E sl al z p \<and> durable E sl z \<and> flushed z \<and> st_maps (fst z) = st_maps (fst x)
    \<and> q = next_seq_of x - 1 \<and> mf_snapshot_seq (st_manifest (fst z)) = q
    \<and> snapshot_load (e_crc E) (snd z) = Inr (Some (st_maps (fst x), q))
    \<and> next_seq_of z = next_seq_of x \<and> st_opts (fst z) = st_opts (fst x) \<and> active_id z = active_id x
    \<and> seqs_below (next_seq_of x) (whole_log sl al)"
    using rep dur S load q' R3 by (simp add: z flushed_def whole_log_def)
qed

end
