(* ===== verification/Store_Get.thy ===== *)
theory Store_Get
  imports Store_Delete
begin

text \<open>
  Reading back what an insert stored: every record is found at the location the maps hold, in
  the active segment or in the one sealed behind the insert, and the document comes back with
  its splits and summaries in recorded order.
\<close>

section \<open>What is stored of a document\<close>

text \<open>Vectors come back through the shard's dtype; query distances and ranks are not stored.\<close>

definition stored_embedding :: "env \<Rightarrow> store_options \<Rightarrow> bool \<Rightarrow> u64 \<Rightarrow> embedding_dto option \<Rightarrow> embedding_dto option" where
  "stored_embedding E opts emb i e =
     (if emb then Some \<lparr> eb_embedding_id = i,
        eb_embedding = decode_vector (e_of_f16 E) (vector_of E opts e)
          (if vector_of E opts e = [] then NoVector else so_dtype opts),
        eb_model_id = (case e of None \<Rightarrow> so_model_id opts | Some v \<Rightarrow> eb_model_id v) \<rparr>
      else None)"

definition stored_summary :: "env \<Rightarrow> store_options \<Rightarrow> bool \<Rightarrow> summary_dto \<Rightarrow> summary_dto" where
  "stored_summary E opts emb u =
     u\<lparr>ud_embedding := stored_embedding E opts emb (ud_summary_id u) (ud_embedding u),
       ud_query_distance := None, ud_rank := None\<rparr>"

definition stored_split :: "env \<Rightarrow> store_options \<Rightarrow> bool \<Rightarrow> split_dto \<Rightarrow> split_dto" where
  "stored_split E opts emb s =
     s\<lparr>sd_summaries := map (stored_summary E opts emb) (sd_summaries s),
       sd_embedding := stored_embedding E opts emb (sd_split_id s) (sd_embedding s),
       sd_query_distance := None, sd_rank := None\<rparr>"

definition stored_doc :: "env \<Rightarrow> store_options \<Rightarrow> bool \<Rightarrow> document_dto \<Rightarrow> document_dto" where
  "stored_doc E opts emb doc =
     doc\<lparr>dd_splits := map (stored_split E opts emb) (dd_splits doc),
         dd_summaries := map_option (map (stored_summary E opts emb)) (dd_summaries doc)\<rparr>"

section \<open>Finding a record\<close>

lemma read_placed:
  assumes "represents E sl' al' z p'" "flushed z" "placed x sl al z sl' al'"
    and "al = pre @ r # post" "frame_ok r" "log_len al < 2 ^ 64"
  shows "read_record (fst z) (snd z) (rec_loc (active_id x) (log_len pre) r) = Inr (frame E r)"
proof -
  note R = representsD [OF assms(1)]
  note A = active_okD [OF R(2)]
  have bytes: "log_bytes E al = log_bytes E pre @ frame E r @ log_bytes E post"
    by (simp add: assms(4))
  have off: "unat (word_of_nat (log_len pre) :: u64) = length (log_bytes E pre)"
    unfolding length_log_bytes by (rule unat_u64_of_nat) (use assms(4,6) in simp)
  have len: "unat (word_of_nat (frame_len r) :: u32) = length (frame E r)"
    by (simp add: unat_frame_len [OF assms(5)] len_simps)
  from assms(3) consider "al' = al" "active_id z = active_id x" | "sl' = sl @ [(active_id x, al)]"
    by (auto simp: placed_def)
  then show ?thesis
  proof cases
    case 1
    have "seg_content (seg_of z) = log_bytes E pre @ frame E r @ log_bytes E post"
      using A(2) 1(1) bytes by simp
    moreover have "aseg_buf (fst (seg_of z)) = []" using assms(2) by (simp add: flushed_def seg_of_def)
    ultimately have "seg_read_at (fst (seg_of z)) (snd (seg_of z)) (word_of_nat (log_len pre)) (word_of_nat (frame_len r)) = Inr (frame E r)"
      by (rule seg_read_back [OF _ _ off len])
    then show ?thesis using 1(2) by (simp add: read_record_def rec_loc_def seg_of_def)
  next
    case 2
    then have "(active_id x, al) \<in> set sl'" by simp
    with R(1) have lk: "fmlookup (st_sealed (fst z)) (active_id x) = Some \<lparr> sseg_id = active_id x, sseg_map = log_bytes E al \<rparr>"
      and ne: "active_id z \<notin> fst ` set sl'"
      by (auto simp: sealed_ok_def dest!: bspec)
    have "active_id x \<noteq> active_id z" using ne 2 by auto
    moreover have "sealed_slice \<lparr> sseg_id = active_id x, sseg_map = log_bytes E al \<rparr> (word_of_nat (log_len pre)) (word_of_nat (frame_len r)) = Inr (frame E r)"
      by (rule sealed_read_back [OF _ off len]) (simp add: bytes)
    ultimately show ?thesis using lk by (simp add: read_record_def rec_loc_def)
  qed
qed

lemma decode_whole_frame:
  "frame_ok r \<Longrightarrow> lift_decode (decode (e_crc E) (frame E r)) =
    Inr \<lparr> rv_len = word_of_nat (frame_len r), rv_seq = lr_seq r, rv_kind = lr_kind r,
          rv_dtype = lr_dtype r, rv_meta = lr_meta r, rv_vector = lr_vector r \<rparr>"
  using decode_frame [of r E "[]"] by (simp add: lift_decode_def)

lemma zip_locs:
  "(a, l) \<in> set (zip xs (locs_from i off (number n (map f xs)))) \<Longrightarrow>
     \<exists>pre q post. number n (map f xs) = pre @ f a q # post \<and> l = rec_loc i (off + log_len pre) (f a q)"
proof (induction xs arbitrary: off n)
  case (Cons b xs)
  show ?case
  proof (cases "(a, l) = (b, rec_loc i off (f b n))")
    case True
    then have "number n (map f (b # xs)) = [] @ f a n # number (n + 1) (map f xs) \<and> l = rec_loc i (off + log_len []) (f a n)"
      by simp
    then show ?thesis by blast
  next
    case False
    with Cons.prems have "(a, l) \<in> set (zip xs (locs_from i (off + frame_len (f b n)) (number (n + 1) (map f xs))))"
      by auto
    from Cons.IH [OF this] obtain pre q post where
      "number (n + 1) (map f xs) = pre @ f a q # post" "l = rec_loc i (off + frame_len (f b n) + log_len pre) (f a q)"
      by blast
    then have "number n (map f (b # xs)) = (f b n # pre) @ f a q # post \<and> l = rec_loc i (off + log_len (f b n # pre)) (f a q)"
      by (simp add: add.assoc)
    then show ?thesis by blast
  qed
qed simp

lemma zip_mem: "x \<in> set xs \<Longrightarrow> length ys = length xs \<Longrightarrow> \<exists>y. (x, y) \<in> set (zip xs ys)"
  by (metis in_set_impl_in_set_zip1)

section \<open>The maps after an insert\<close>

text \<open>Every entity of the document has its record at its location, behind \<open>al\<close>.\<close>

definition located :: "log_record list \<Rightarrow> u32 \<Rightarrow> loc \<Rightarrow> (u64 \<Rightarrow> log_record) \<Rightarrow> bool" where
  "located al i l f \<longleftrightarrow> (\<exists>pre q post. al = pre @ f q # post \<and> l = rec_loc i (log_len pre) (f q))"

lemma locatedI:
  assumes "(a, l) \<in> set (zip xs (locs_from i (off + log_len before) (number n (map f xs))))"
    and "whole = al @ before @ number n (map f xs) @ after" "off = log_len al"
  shows "located whole i l (f a)"
proof -
  from zip_locs [OF assms(1)] obtain pre q post where
    "number n (map f xs) = pre @ f a q # post" "l = rec_loc i (off + log_len before + log_len pre) (f a q)"
    by blast
  then have "whole = (al @ before @ pre) @ f a q # (post @ after) \<and> l = rec_loc i (log_len (al @ before @ pre)) (f a q)"
    unfolding assms(2,3) by (simp add: add.assoc)
  then show ?thesis unfolding located_def by blast
qed

lemma publish_located:
  fixes doc :: document_dto
  assumes "ap = appended_of E opts i (log_len al) replaces doc us seq"
    and "distinct (map ud_summary_id us)" "distinct (map sd_split_id (dd_splits doc))"
    and "whole = al @ insert_records E opts replaces doc us seq"
  shows "u \<in> set us \<Longrightarrow> \<exists>e. fmlookup (summaries (publish ap d m)) (ud_summary_id u) = Some e
      \<and> located whole i (ue_loc e) (summary_record E opts u)"
    and "s \<in> set (dd_splits doc) \<Longrightarrow> \<exists>e. fmlookup (splits (publish ap d m)) (sd_split_id s) = Some e
      \<and> located whole i (se_loc e) (split_record E opts s)"
    and "fmlookup (docs (publish ap d m)) d = Some (ap_doc_entry ap)"
    and "de_url (ap_doc_entry ap) = dd_document_url doc"
      "de_split_ids (ap_doc_entry ap) = map sd_split_id (dd_splits doc)"
      "de_summary_ids (ap_doc_entry ap) = map_option (map ud_summary_id) (dd_summaries doc)"
proof -
  let ?dels = "if replaces then [delete_record E opts (dd_document_id doc)] else []"
  let ?ds = "number seq ?dels"
  let ?n1 = "seq + word_of_nat (length ?dels)"
  let ?n2 = "?n1 + word_of_nat (length us)"
  let ?n3 = "?n2 + word_of_nat (length (dd_splits doc))"
  let ?su = "number ?n1 (map (summary_record E opts) us)"
  let ?sp = "number ?n2 (map (split_record E opts) (dd_splits doc))"
  let ?ul = "locs_from i (log_len al + log_len ?ds) ?su"
  let ?sl = "locs_from i (log_len al + log_len ?ds + log_len ?su) ?sp"
  have wh: "whole = al @ ?ds @ ?su @ ?sp @ [doc_record E opts doc ?n3]"
    unfolding assms(4) insert_records_eq by (simp add: Let_def)
  have ap: "ap_summaries ap = map2 (\<lambda>u l. (ud_summary_id u, ud_document_id u, ud_split_id u, l)) us ?ul"
    "ap_splits ap = map2 (\<lambda>s l. (sd_split_id s, sd_doc_id s, l)) (dd_splits doc) ?sl"
    unfolding assms(1) appended_of_def Let_def by simp_all
  have fst1: "map fst (ap_summaries ap) = map ud_summary_id us"
    by (simp add: ap(1) split_def comp_def flip: map_map [of ud_summary_id fst, unfolded comp_def])
  have fst2: "map fst (ap_splits ap) = map sd_split_id (dd_splits doc)"
    by (simp add: ap(2) split_def comp_def flip: map_map [of sd_split_id fst, unfolded comp_def])
  show "\<exists>e. fmlookup (summaries (publish ap d m)) (ud_summary_id u) = Some e
      \<and> located whole i (ue_loc e) (summary_record E opts u)" if u: "u \<in> set us"
  proof -
    obtain l where l: "(u, l) \<in> set (zip us ?ul)" using zip_mem [OF u, of ?ul] by auto
    then have "(ud_summary_id u, ud_document_id u, ud_split_id u, l) \<in> set (ap_summaries ap)"
      unfolding ap(1) by force
    from fminserts_lookup_distinct [OF _ this, of fst "\<lambda>(_, d, s, l). \<lparr> ue_doc_id = d, ue_split_id = s, ue_loc = l \<rparr>" "summaries m"]
    have "fmlookup (summaries (publish ap d m)) (ud_summary_id u) =
        Some \<lparr> ue_doc_id = ud_document_id u, ue_split_id = ud_split_id u, ue_loc = l \<rparr>"
      using fst1 assms(2) by (simp add: publish_def)
    moreover have "located whole i l (summary_record E opts u)"
      by (rule locatedI [OF l wh refl])
    ultimately show ?thesis by simp
  qed
  show "\<exists>e. fmlookup (splits (publish ap d m)) (sd_split_id s) = Some e
      \<and> located whole i (se_loc e) (split_record E opts s)" if u: "s \<in> set (dd_splits doc)"
  proof -
    obtain l where l: "(s, l) \<in> set (zip (dd_splits doc) ?sl)" using zip_mem [OF u, of ?sl] by auto
    then have "(sd_split_id s, sd_doc_id s, l) \<in> set (ap_splits ap)"
      unfolding ap(2) by force
    from fminserts_lookup_distinct [OF _ this, of fst "\<lambda>(_, d, l). \<lparr> se_doc_id = d, se_loc = l \<rparr>" "splits m"]
    have "fmlookup (splits (publish ap d m)) (sd_split_id s) = Some \<lparr> se_doc_id = sd_doc_id s, se_loc = l \<rparr>"
      using fst2 assms(3) by (simp add: publish_def)
    moreover have "located whole i l (split_record E opts s)"
      by (rule locatedI [of s l _ i "log_len al" "?ds @ ?su", OF _ _ refl]) (use l wh in \<open>simp_all add: add.assoc\<close>)
    ultimately show ?thesis by simp
  qed
  show "fmlookup (docs (publish ap d m)) d = Some (ap_doc_entry ap)"
    by (simp add: publish_def)
  show "de_url (ap_doc_entry ap) = dd_document_url doc"
      "de_split_ids (ap_doc_entry ap) = map sd_split_id (dd_splits doc)"
      "de_summary_ids (ap_doc_entry ap) = map_option (map ud_summary_id) (dd_summaries doc)"
    unfolding assms(1) appended_of_def Let_def by simp_all
qed

section \<open>Reading the document back\<close>

lemma summary_meta_dto: "summary_dto_of (summary_meta_of opts u) e = u\<lparr>ud_embedding := e, ud_query_distance := None, ud_rank := None\<rparr>"
  by (cases u) (simp add: summary_dto_of_def summary_meta_of_def)

lemma split_meta_dto: "split_dto_of (split_meta_of opts s) us e None =
    s\<lparr>sd_summaries := us, sd_embedding := e, sd_query_distance := None, sd_rank := None\<rparr>"
  by (cases s) (simp add: split_dto_of_def split_meta_of_def)

text \<open>A store whose log has the record of an entity where the maps say it is.\<close>

lemma get_summary_located:
  assumes "represents E sl' al' z p'" "flushed z" "placed x sl al z sl' al'" "log_len al < 2 ^ 64"
    and "list_all frame_ok al" "env_ok E"
    and "fmlookup (summaries (st_maps (fst z))) (ud_summary_id u) = Some e"
    and "located al (active_id x) (ue_loc e) (summary_record E opts u)"
  shows "get_summary E (fst z) (snd z) (ud_summary_id u) emb = Inr (Some (stored_summary E opts emb u))"
proof -
  have c: "codec_ok (e_summary E)" using assms(6) by (simp add: env_ok_def)
  from assms(8) obtain pre q post where l: "al = pre @ summary_record E opts u q # post"
    "ue_loc e = rec_loc (active_id x) (log_len pre) (summary_record E opts u q)"
    unfolding located_def by blast
  let ?r = "summary_record E opts u q"
  have ok: "frame_ok ?r" using assms(5) l(1) by simp
  have view: "lift_decode (decode (e_crc E) (frame E ?r)) =
      Inr \<lparr> rv_len = word_of_nat (frame_len ?r), rv_seq = q, rv_kind = Summary,
            rv_dtype = (if vector_of E opts (ud_embedding u) = [] then NoVector else so_dtype opts),
            rv_meta = meta_bytes (e_summary E) (summary_meta_of opts u), rv_vector = vector_of E opts (ud_embedding u) \<rparr>"
    unfolding decode_whole_frame [OF ok] by (simp add: summary_record_def record_of_def)
  have "read_record (fst z) (snd z) (ue_loc e) = Inr (frame E ?r)"
    unfolding l(2) by (rule read_placed [OF assms(1-3) l(1) ok assms(4)])
  then show ?thesis
    using assms(7) meta_bytes_ok(2) [OF c, of "summary_meta_of opts u"]
    by (simp add: get_summary_def read_summary_def view stored_summary_def stored_embedding_def summary_meta_dto)
      (simp add: summary_meta_of_def)
qed

lemma read_split_located:
  assumes "represents E sl' al' z p'" "flushed z" "placed x sl al z sl' al'" "log_len al < 2 ^ 64"
    and "list_all frame_ok al" "env_ok E"
    and "fmlookup (splits (st_maps (fst z))) (sd_split_id s) = Some e"
    and "located al (active_id x) (se_loc e) (split_record E opts s)"
  shows "read_split E (fst z) (snd z) (sd_split_id s) emb =
    Inr (Some (split_meta_of opts s, stored_embedding E opts emb (sd_split_id s) (sd_embedding s)))"
proof -
  have c: "codec_ok (e_split E)" using assms(6) by (simp add: env_ok_def)
  from assms(8) obtain pre q post where l: "al = pre @ split_record E opts s q # post"
    "se_loc e = rec_loc (active_id x) (log_len pre) (split_record E opts s q)"
    unfolding located_def by blast
  let ?r = "split_record E opts s q"
  have ok: "frame_ok ?r" using assms(5) l(1) by simp
  have view: "lift_decode (decode (e_crc E) (frame E ?r)) =
      Inr \<lparr> rv_len = word_of_nat (frame_len ?r), rv_seq = q, rv_kind = Split,
            rv_dtype = (if vector_of E opts (sd_embedding s) = [] then NoVector else so_dtype opts),
            rv_meta = meta_bytes (e_split E) (split_meta_of opts s), rv_vector = vector_of E opts (sd_embedding s) \<rparr>"
    unfolding decode_whole_frame [OF ok] by (simp add: split_record_def record_of_def)
  have "read_record (fst z) (snd z) (se_loc e) = Inr (frame E ?r)"
    unfolding l(2) by (rule read_placed [OF assms(1-3) l(1) ok assms(4)])
  then show ?thesis
    using assms(7) meta_bytes_ok(2) [OF c, of "split_meta_of opts s"]
    by (simp add: read_split_def view stored_embedding_def)
      (simp add: split_meta_of_def)
qed

text \<open>Entities with one id are one entity.\<close>

definition ids_distinct :: "document_dto \<Rightarrow> bool" where
  "ids_distinct doc \<longleftrightarrow> distinct (map sd_split_id (dd_splits doc))
     \<and> inj_on ud_summary_id (set (all_summaries doc))"

lemma distinct_summaries_mem:
  assumes "ids_distinct doc" "u \<in> set (all_summaries doc)"
  shows "u \<in> set (distinct_summaries doc)"
proof -
  have "ud_summary_id u \<in> ud_summary_id ` set (distinct_summaries doc)"
    using assms(2) set_dedup_on [of ud_summary_id "{}" "all_summaries doc"] by (simp add: distinct_summaries_def)
  then obtain v where v: "v \<in> set (distinct_summaries doc)" "ud_summary_id v = ud_summary_id u" by auto
  have "v \<in> set (all_summaries doc)"
    using v(1) subsetD [OF dedup_on_subset] unfolding distinct_summaries_def by metis
  with v assms have "v = u" by (auto simp: ids_distinct_def inj_on_def)
  with v(1) show ?thesis by simp
qed

lemma get_doc_placed:
  fixes doc :: document_dto
  defines "us \<equiv> distinct_summaries doc" and "d \<equiv> dd_document_id doc"
  assumes "represents E sl' al' z p'" "flushed z" "placed x sl whole z sl' al'" "log_len whole < 2 ^ 64"
    and "list_all frame_ok whole" "env_ok E" "ids_distinct doc"
    and "whole = al @ insert_records E opts replaces doc us seq"
    and "st_maps (fst z) = publish (appended_of E opts (active_id x) (log_len al) replaces doc us seq) d m"
  shows "get_doc E (fst z) (snd z) d emb = Inr (Some (stored_doc E opts emb doc))"
proof -
  let ?s = "fst z" and ?w = "snd z"
  have du: "distinct (map ud_summary_id us)" unfolding us_def distinct_summaries_def by (rule distinct_dedup_on)
  have ds: "distinct (map sd_split_id (dd_splits doc))" using assms(9) by (simp add: ids_distinct_def)
  note P = publish_located(1-3) [where i = "active_id x" and d = d and m = m, OF refl du ds assms(10), folded assms(11)]
  note Q = publish_located(4-6) [where i = "active_id x", OF refl du ds assms(10)]
  note base = assms(3-8)
  have gu: "get_summary E ?s ?w (ud_summary_id u) emb = Inr (Some (stored_summary E opts emb u))"
    if "u \<in> set (all_summaries doc)" for u
  proof -
    have "u \<in> set us" unfolding us_def by (rule distinct_summaries_mem [OF assms(9) that])
    with P(1) obtain e where "fmlookup (summaries (st_maps ?s)) (ud_summary_id u) = Some e"
      "located whole (active_id x) (ue_loc e) (summary_record E opts u)" by blast
    then show ?thesis by (rule get_summary_located [OF base])
  qed
  have gus: "get_summaries E ?s ?w (map ud_summary_id vs) emb = Inr (map (stored_summary E opts emb) vs)"
    if "set vs \<subseteq> set (all_summaries doc)" for vs
    unfolding get_summaries_def using that by (induction vs) (simp_all add: gu)
  have gs: "get_split E ?s ?w (sd_split_id s) emb = Inr (Some (stored_split E opts emb s))"
    if "s \<in> set (dd_splits doc)" for s
  proof -
    from P(2) [OF that] obtain e where "fmlookup (splits (st_maps ?s)) (sd_split_id s) = Some e"
      "located whole (active_id x) (se_loc e) (split_record E opts s)" by blast
    then have r: "read_split E ?s ?w (sd_split_id s) emb =
      Inr (Some (split_meta_of opts s, stored_embedding E opts emb (sd_split_id s) (sd_embedding s)))"
      by (rule read_split_located [OF base])
    have "set (sd_summaries s) \<subseteq> set (all_summaries doc)" using that by (auto simp: all_summaries_def)
    from gus [OF this] r show ?thesis
      by (simp add: get_split_def split_meta_dto stored_split_def) (simp add: split_meta_of_def)
  qed
  have gss: "get_splits E ?s ?w (map sd_split_id ss) emb = Inr (map (stored_split E opts emb) ss)"
    if "set ss \<subseteq> set (dd_splits doc)" for ss
    unfolding get_splits_def using that by (induction ss) (simp_all add: gs)
  have opt: "(case map_option (map ud_summary_id) (dd_summaries doc) of None \<Rightarrow> Inr None
       | Some ids \<Rightarrow> bindR (get_summaries E ?s ?w ids emb) (\<lambda>us. Inr (Some us)))
     = Inr (map_option (map (stored_summary E opts emb)) (dd_summaries doc))"
  proof (cases "dd_summaries doc")
    case (Some vs)
    then have "set vs \<subseteq> set (all_summaries doc)" by (simp add: all_summaries_def opt_list_def)
    from gus [OF this] Some show ?thesis by simp
  qed simp
  have fin: "\<lparr> dd_document_id = d, dd_document_url = dd_document_url doc,
      dd_splits = map (stored_split E opts emb) (dd_splits doc),
      dd_summaries = map_option (map (stored_summary E opts emb)) (dd_summaries doc) \<rparr> = stored_doc E opts emb doc"
    by (cases doc) (simp add: stored_doc_def d_def)
  show ?thesis
    by (simp only: get_doc_def P(3) option.case Q gss [OF subset_refl] bindR_simps opt fin)
qed

lemma get_doc_after_insert:
  assumes "store_insert E doc x = (Inr rp, z)" "represents E sl al x p" "env_ok E" "durable E sl x"
    and "doc_consistent doc" "\<not> is_live x (dd_document_id doc) \<Longrightarrow> no_pending (dd_document_id doc) p"
    and "room_for al (records_of E x doc) x" "ids_distinct doc"
  shows "get_doc E (fst z) (snd z) (dd_document_id doc) emb = Inr (Some (stored_doc E (st_opts (fst x)) emb doc))"
proof -
  from insert_represents(1) [OF assms(1-4,5,6,7)] obtain sl' al' p' where
    r: "represents E sl' al' z p'" "placed x sl (al @ records_of E x doc) z sl' al'" "flushed z"
    "st_maps (fst z) = maps_after_insert E x doc" by blast
  have A: "list_all frame_ok al" "length (seg_content (seg_of x)) = log_len al"
    using assms(2) by (simp_all add: represents_def active_ok_def len_simps)
  show ?thesis
    by (rule get_doc_placed [OF r(1,3,2) _ _ assms(3,8)])
      (use assms(7) A r(4) in \<open>simp_all add: room_for_def records_of_def maps_after_insert_def appended_here_def\<close>)
qed

end
