(* ===== verification/Store_Open.thy ===== *)
theory Store_Open
  imports Store_Delete
begin

text \<open>
  Recovery: opening a directory whose files are those of a log, the last frame possibly cut
  short, gives back a store that represents the whole records of that log. A crash leaves such
  a directory, because the active file only ever grows by frames.
\<close>

section \<open>Cut logs\<close>

text \<open>Every prefix of a log's bytes is a shorter log followed by a proper prefix of the next frame.\<close>

lemma log_prefix:
  "k \<le> log_len rs \<Longrightarrow> \<exists>n j. take k (log_bytes E rs) = log_bytes E (take n rs) @ (if n < length rs then take j (frame E (rs ! n)) else [])
      \<and> n \<le> length rs \<and> (n < length rs \<longrightarrow> j < frame_len (rs ! n))"
proof (induction rs arbitrary: k)
  case Nil
  then show ?case by simp
next
  case (Cons r rs)
  show ?case
  proof (cases "k < frame_len r")
    case True
    then show ?thesis
      by (intro exI [of _ 0] exI [of _ k]) (simp add: len_simps)
  next
    case False
    then have "k - frame_len r \<le> log_len rs" using Cons.prems by simp
    from Cons.IH [OF this] obtain n j where
      "take (k - frame_len r) (log_bytes E rs) = log_bytes E (take n rs) @ (if n < length rs then take j (frame E (rs ! n)) else [])"
      "n \<le> length rs" "n < length rs \<longrightarrow> j < frame_len (rs ! n)" by blast
    with False show ?thesis
      by (intro exI [of _ "Suc n"] exI [of _ j]) (simp add: len_simps)
  qed
qed

text \<open>What may follow the whole frames of the active segment: nothing, or a cut frame.\<close>

definition torn_tail :: "env \<Rightarrow> bytes \<Rightarrow> bool" where
  "torn_tail E t \<longleftrightarrow> t = [] \<or> (\<exists>r k. frame_ok r \<and> 0 < k \<and> k < frame_len r \<and> t = take k (frame E r))"

section \<open>The directory of a log\<close>

definition disk_log :: "env \<Rightarrow> store_options \<Rightarrow> world \<Rightarrow> manifest \<Rightarrow> seg_log list \<Rightarrow> log_record list \<Rightarrow> bytes \<Rightarrow> bool" where
  "disk_log E opts w md sl al t \<longleftrightarrow>
     manifest_load (e_manifest E) w = Inr (Some md) \<and> check_manifest opts md = Inr ()
     \<and> mf_version md = MANIFEST_VERSION
     \<and> list_all2 info_ok (mf_sealed md) sl \<and> distinct (mf_active md # map fst sl)
     \<and> (\<forall>l \<in> set sl. list_all frame_ok (snd l) \<and> fmlookup (files w) (SegFile (fst l)) = Some (log_bytes E (snd l)))
     \<and> list_all frame_ok al \<and> sorted (map lr_seq al)
     \<and> file_of w (SegFile (mf_active md)) = log_bytes E al @ t \<and> torn_tail E t
     \<and> log_len al + length t < 2 ^ 64
     \<and> (\<forall>i \<in> insert (mf_active md) (fst ` set sl). i < mf_next_segment_id md)
     \<and> seqs_below (mf_next_seq md) (concat (map snd sl)) \<and> 0 < mf_next_seq md
     \<and> (\<forall>r \<in> set al. 0 < lr_seq r \<and> lr_seq r < - 1)"

definition sealed_map :: "env \<Rightarrow> seg_log list \<Rightarrow> (u32, sealed_segment) fmap" where
  "sealed_map E sl = fminserts fst (\<lambda>l. \<lparr> sseg_id = fst l, sseg_map = log_bytes E (snd l) \<rparr>) sl fmempty"

lemma sealed_map_lookup:
  "distinct (map fst sl) \<Longrightarrow> l \<in> set sl \<Longrightarrow>
     fmlookup (sealed_map E sl) (fst l) = Some \<lparr> sseg_id = fst l, sseg_map = log_bytes E (snd l) \<rparr>"
  unfolding sealed_map_def by (rule fminserts_lookup_distinct)

lemma fmdom'_sealed_map: "fmdom' (sealed_map E sl) = fst ` set sl"
  by (simp add: sealed_map_def fmdom'_fminserts)

lemma open_sealed_all:
  assumes "list_all2 info_ok infos sl"
    and "\<forall>l \<in> set sl. fmlookup (files w) (SegFile (fst l)) = Some (log_bytes E (snd l))"
  shows "open_sealed infos acc w =
    Inr (fminserts fst (\<lambda>l. \<lparr> sseg_id = fst l, sseg_map = log_bytes E (snd l) \<rparr>) sl acc)"
  using assms
proof (induction infos sl arbitrary: acc rule: list_all2_induct)
  case (Cons info infos l sl)
  then show ?case by (simp add: info_ok_def sealed_open_def fs_read_def)
qed simp

section \<open>Replaying the sealed segments\<close>

lemma replay_log_skip:
  "\<forall>r \<in> set rs. lr_seq r \<le> q \<Longrightarrow> replay_log E i q off rs st = Inr st"
proof (induction rs arbitrary: off)
  case (Cons r rs)
  then have "\<not> q < lr_seq r" by auto
  with Cons show ?case by (simp add: replay_record_def)
qed simp

lemma scan_last: "rs \<noteq> [] \<Longrightarrow> sc_last_seq (scan_stats q off rs scan) = lr_seq (last rs)"
proof (induction rs arbitrary: off scan)
  case (Cons r rs)
  then show ?case by (cases "rs = []") simp_all
qed simp

lemma replay_sealed_all:
  assumes "list_all2 info_ok infos sl" "\<forall>l \<in> set sl. list_all frame_ok (snd l)"
    and "\<forall>l \<in> set sl. fmlookup sealed (fst l) = Some \<lparr> sseg_id = fst l, sseg_map = log_bytes E (snd l) \<rparr>"
    and "replay_segments E q sl m = Inr m'"
    and "\<forall>r \<in> set (concat (map snd sl)). lr_seq r < n" "mx < n"
  shows "\<exists>mx'. replay_sealed E q sealed infos (m, mx) = Inr (m', mx') \<and> mx \<le> mx' \<and> mx' < n"
  using assms
proof (induction infos sl arbitrary: m mx rule: list_all2_induct)
  case (Cons info infos l sl)
  obtain i rs where l: "l = (i, rs)" by fastforce
  from Cons.hyps(1) have info: "si_id info = i" "\<forall>r \<in> set rs. lr_seq r \<le> si_last_seq info"
    by (simp_all add: info_ok_def l)
  from Cons.prems(3) obtain m1 p where m1: "replay_log E i q 0 rs (m, []) = Inr (m1, p)"
    "replay_segments E q sl m1 = Inr m'"
    by (auto simp: l bindR_Inr)
  show ?case
  proof (cases "si_last_seq info \<le> q")
    case True
    then have "\<forall>r \<in> set rs. lr_seq r \<le> q" using info(2) by (meson order_trans)
    with m1(1) have "m1 = m" by (simp add: replay_log_skip)
    moreover have "\<exists>mx'. replay_sealed E q sealed infos (m1, mx) = Inr (m', mx') \<and> mx \<le> mx' \<and> mx' < n"
      by (rule Cons.IH) (use Cons.prems m1 in \<open>simp_all add: l\<close>)
    ultimately show ?thesis using True by simp
  next
    case False
    have sc: "scan_segment E (log_bytes E rs) i q m False = Inr (scan_stats q 0 rs empty_scan, m1)"
      by (rule scan_segment_frames [OF _ m1(1)]) (use Cons.prems(1) in \<open>simp add: l\<close>)
    have "sc_last_seq (scan_stats q 0 rs empty_scan) < n"
    proof (cases "rs = []")
      case True
      have "0 < n" using Cons.prems(5) by (rule order_le_less_trans [OF word_zero_le])
      with True show ?thesis by (simp add: empty_scan_def)
    next
      case False
      then have "sc_last_seq (scan_stats q 0 rs empty_scan) = lr_seq (last rs)" by (rule scan_last)
      with False Cons.prems(4) show ?thesis by (simp add: l)
    qed
    then have mx: "max mx (sc_last_seq (scan_stats q 0 rs empty_scan)) < n" using Cons.prems(5) by simp
    have "\<exists>mx'. replay_sealed E q sealed infos (m1, max mx (sc_last_seq (scan_stats q 0 rs empty_scan))) = Inr (m', mx')
        \<and> max mx (sc_last_seq (scan_stats q 0 rs empty_scan)) \<le> mx' \<and> mx' < n"
      by (rule Cons.IH) (use Cons.prems m1 mx in \<open>simp_all add: l\<close>)
    then obtain mx' where "replay_sealed E q sealed infos (m1, max mx (sc_last_seq (scan_stats q 0 rs empty_scan))) = Inr (m', mx')"
      "mx \<le> mx'" "mx' < n" by auto
    with False sc info(1) Cons.prems(2) show ?thesis by (simp add: l)
  qed
qed auto

section \<open>The steps of an open\<close>

lemma forM_remove_Inr:
  assumes "forM (\<lambda>i. if P i then ret () else fs_remove (SegFile i)) is w = (Inr u, v)"
  shows "\<forall>g. (\<forall>i \<in> set is. \<not> P i \<longrightarrow> g \<noteq> SegFile i) \<longrightarrow> fmlookup (files v) g = fmlookup (files w) g"
    "\<forall>i \<in> set is. \<not> P i \<longrightarrow> fmlookup (files v) (SegFile i) = None"
proof -
  have "(\<forall>g. (\<forall>i \<in> set is. \<not> P i \<longrightarrow> g \<noteq> SegFile i) \<longrightarrow> fmlookup (files v) g = fmlookup (files w) g)
    \<and> (\<forall>i. (i \<in> set is \<and> \<not> P i) \<or> fmlookup (files w) (SegFile i) = None \<longrightarrow> fmlookup (files v) (SegFile i) = None)"
    using assms
  proof (induction "is" arbitrary: w)
    case (Cons i "is")
    then obtain x where x: "(if P i then ret () else fs_remove (SegFile i)) w = (Inr (), x)"
      "forM (\<lambda>i. if P i then ret () else fs_remove (SegFile i)) is x = (Inr u, v)"
      by (auto simp: seqM_Inr)
    have "files x = (if P i then files w else fmdrop (SegFile i) (files w))"
      using x(1) by (auto simp: ret_Inr dest: fs_remove_Inr split: if_splits)
    with Cons.IH [OF x(2)] show ?case by auto
  qed (simp add: ret_Inr)
  then show "\<forall>g. (\<forall>i \<in> set is. \<not> P i \<longrightarrow> g \<noteq> SegFile i) \<longrightarrow> fmlookup (files v) g = fmlookup (files w) g"
    "\<forall>i \<in> set is. \<not> P i \<longrightarrow> fmlookup (files v) (SegFile i) = None" by blast+
qed

lemma seg_ids_iff: "i \<in> fset (seg_ids w) \<longleftrightarrow> fs_exists w (SegFile i)"
proof -
  have "i \<in> fset (seg_ids w) \<longleftrightarrow> (\<exists>g \<in> fmdom' (files w). seg_id_of g = Some i)"
    by (force simp: seg_ids_def fmdom'_alt_def)
  also have "\<dots> \<longleftrightarrow> SegFile i \<in> fmdom' (files w)"
  proof -
    have "seg_id_of g = Some i \<longleftrightarrow> g = SegFile i" for g by (cases g) auto
    then show ?thesis by auto
  qed
  finally show ?thesis by (simp add: fs_exists_def fmlookup_dom'_iff)
qed

lemma remove_orphans_Inr:
  assumes "remove_orphan_segments E md w = (Inr u, v)" "env_ok E"
  shows "g \<notin> SegFile ` (- insert (mf_active md) (set (manifest_segment_ids md))) \<Longrightarrow>
      fmlookup (files v) g = fmlookup (files w) g"
    "fs_exists v (SegFile i) \<Longrightarrow> i \<in> insert (mf_active md) (set (manifest_segment_ids md))"
proof -
  let ?P = "\<lambda>i. i \<in> set (manifest_segment_ids md) \<or> i = mf_active md"
  from assms(1) obtain w1 where w1: "files w1 = files w"
    and f: "forM (\<lambda>i. if ?P i then ret () else fs_remove (SegFile i)) (e_dir_order E (seg_ids w1)) w1 = (Inr u, v)"
    by (auto simp: remove_orphan_segments_def seqM_Inr bindM_Inr getM_Inr dest!: fs_check_Inr)
  note F = forM_remove_Inr [OF f]
  have all: "set (e_dir_order E (seg_ids w1)) = {i. fs_exists w1 (SegFile i)}"
    using assms(2) by (auto simp: env_ok_def seg_ids_iff)
  show "fmlookup (files v) g = fmlookup (files w) g"
    if "g \<notin> SegFile ` (- insert (mf_active md) (set (manifest_segment_ids md)))"
    using F(1) that w1 by auto
  show "i \<in> insert (mf_active md) (set (manifest_segment_ids md))" if e: "fs_exists v (SegFile i)"
  proof (rule ccontr)
    assume n: "i \<notin> insert (mf_active md) (set (manifest_segment_ids md))"
    show False
    proof (cases "fs_exists w1 (SegFile i)")
      case True
      with all n F(2) have "fmlookup (files v) (SegFile i) = None" by auto
      with e show False by (simp add: fs_exists_def)
    next
      case False
      then have "fmlookup (files v) (SegFile i) = fmlookup (files w1) (SegFile i)"
        using F(1) all by auto
      with False e show False by (simp add: fs_exists_def)
    qed
  qed
qed

text \<open>The rejected snapshot is deleted and the manifest says so.\<close>

definition settle :: "env \<Rightarrow> bool \<Rightarrow> manifest \<Rightarrow> manifest io" where
  "settle E rejected manifest =
     (if rejected
      then let manifest' = manifest\<lparr>mf_snapshot_seq := 0\<rparr> in
           seqM snapshot_remove (seqM (manifest_store (e_manifest E) manifest') (ret manifest'))
      else ret manifest)"

definition cut :: "u64 option \<Rightarrow> active_segment \<Rightarrow> (error, world, active_segment) op" where
  "cut torn a =
     (case torn of None \<Rightarrow> ret a
      | Some torn_at \<Rightarrow>
          (\<lambda>w. case seg_truncate_to torn_at (a, w) of (r, (a, w')) \<Rightarrow> (bindR r (\<lambda>_. Inr a), w')))"

lemma open_run:
  assumes "store_open E opts w = (Inr s, w')"
    "manifest_load (e_manifest E) w = Inr (Some md)" "check_manifest opts md = Inr ()"
  obtains w0 w1 sealed a w2 rej m0 q md' w3 m1 max1 bs scan m2 a2 where
    "files w0 = files w" "remove_orphan_segments E md w0 = (Inr (), w1)"
    "open_sealed (mf_sealed md) fmempty w1 = Inr sealed"
    "seg_open (mf_active md) w1 = (Inr a, w2)"
    "trusted_snapshot E md sealed a w2 = (rej, m0, q)"
    "settle E rej md w2 = (Inr md', w3)"
    "replay_sealed E q sealed (mf_sealed md') (m0, q) = Inr (m1, max1)"
    "seg_read_all a w3 = Inr bs"
    "scan_segment E bs (aseg_id a) q m1 True = Inr (scan, m2)"
    "cut (sc_torn_at scan) (a\<lparr>aseg_first_seq := sc_first_seq scan, aseg_last_seq := sc_last_seq scan\<rparr>) w3 = (Inr a2, w')"
    "s = \<lparr> st_opts = opts,
       st_manifest = md'\<lparr>mf_next_seq := max (mf_next_seq md') (max max1 (sc_last_seq scan) + 1)\<rparr>,
       st_sealed = sealed, st_active = a2, st_maps = m2, st_pending_tombstone = 0 \<rparr>"
proof -
  have ld: "manifest_load (e_manifest E) v = manifest_load (e_manifest E) w" if "files v = files w" for v
    using that by (intro manifest_load_cong) simp
  from assms(1) obtain w0 where w0: "fs_check w = (Inr (), w0)"
    and r0: "bindM (load_or_create_manifest E opts) (\<lambda>manifest.
     seqM (remove_orphan_segments E manifest)
    (bindM (\<lambda>w. (open_sealed (mf_sealed manifest) fmempty w, w)) (\<lambda>sealed.
     bindM (seg_open (mf_active manifest)) (\<lambda>active.
     bindM (getM (trusted_snapshot E manifest sealed active)) (\<lambda>(rejected, snap_maps, snapshot_seq).
     bindM (settle E rejected manifest) (\<lambda>manifest.
     bindM (liftM (replay_sealed E snapshot_seq sealed (mf_sealed manifest) (snap_maps, snapshot_seq))) (\<lambda>(m1, max1).
     bindM (\<lambda>w. (seg_read_all active w, w)) (\<lambda>active_bytes.
     bindM (liftM (scan_segment E active_bytes (aseg_id active) snapshot_seq m1 True)) (\<lambda>(scan, m2).
     bindM (cut (sc_torn_at scan) (active\<lparr>aseg_first_seq := sc_first_seq scan, aseg_last_seq := sc_last_seq scan\<rparr>)) (\<lambda>active2.
     ret \<lparr> st_opts = opts,
           st_manifest = manifest\<lparr>mf_next_seq := max (mf_next_seq manifest) (max max1 (sc_last_seq scan) + 1)\<rparr>,
           st_sealed = sealed, st_active = active2, st_maps = m2, st_pending_tombstone = 0 \<rparr>)))))))))) w0 = (Inr s, w')"
    by (auto simp: store_open_def seqM_Inr settle_def cut_def Let_def)
  have f0: "files w0 = files w" using fs_check_Inr [OF w0] by simp
  have "load_or_create_manifest E opts w0 = (Inr md, w0)"
    using assms(2,3) ld [OF f0] by (simp add: load_or_create_manifest_def bindM_def liftM_def ret_def)
  with r0 obtain w1 sealed a w2 where
    1: "remove_orphan_segments E md w0 = (Inr (), w1)" "open_sealed (mf_sealed md) fmempty w1 = Inr sealed"
    "seg_open (mf_active md) w1 = (Inr a, w2)"
    and r1: "bindM (getM (trusted_snapshot E md sealed a)) (\<lambda>(rejected, snap_maps, snapshot_seq).
     bindM (settle E rejected md) (\<lambda>manifest.
     bindM (liftM (replay_sealed E snapshot_seq sealed (mf_sealed manifest) (snap_maps, snapshot_seq))) (\<lambda>(m1, max1).
     bindM (\<lambda>w. (seg_read_all a w, w)) (\<lambda>active_bytes.
     bindM (liftM (scan_segment E active_bytes (aseg_id a) snapshot_seq m1 True)) (\<lambda>(scan, m2).
     bindM (cut (sc_torn_at scan) (a\<lparr>aseg_first_seq := sc_first_seq scan, aseg_last_seq := sc_last_seq scan\<rparr>)) (\<lambda>active2.
     ret \<lparr> st_opts = opts,
           st_manifest = manifest\<lparr>mf_next_seq := max (mf_next_seq manifest) (max max1 (sc_last_seq scan) + 1)\<rparr>,
           st_sealed = sealed, st_active = active2, st_maps = m2, st_pending_tombstone = 0 \<rparr>)))))) w2 = (Inr s, w')"
    by (auto simp: bindM_Inr seqM_Inr)
  obtain rej m0 q where t: "trusted_snapshot E md sealed a w2 = (rej, m0, q)" by (metis prod_cases3)
  from r1 obtain md' w3 m1 max1 bs scan m2 a2 where
    2: "settle E rej md w2 = (Inr md', w3)"
    "replay_sealed E q sealed (mf_sealed md') (m0, q) = Inr (m1, max1)"
    "seg_read_all a w3 = Inr bs" "scan_segment E bs (aseg_id a) q m1 True = Inr (scan, m2)"
    "cut (sc_torn_at scan) (a\<lparr>aseg_first_seq := sc_first_seq scan, aseg_last_seq := sc_last_seq scan\<rparr>) w3 = (Inr a2, w')"
    "s = \<lparr> st_opts = opts,
       st_manifest = md'\<lparr>mf_next_seq := max (mf_next_seq md') (max max1 (sc_last_seq scan) + 1)\<rparr>,
       st_sealed = sealed, st_active = a2, st_maps = m2, st_pending_tombstone = 0 \<rparr>"
    by (auto simp: bindM_Inr getM_Inr liftM_Inr ret_Inr t split: prod.splits)
  show thesis by (rule that [OF f0 1 t 2])
qed

lemma settle_Inr:
  assumes "settle E rej md w = (Inr md', v)" "env_ok E" "mf_version md = MANIFEST_VERSION"
    and "manifest_load (e_manifest E) w = Inr (Some md)"
  shows "md' = md \<or> md' = md\<lparr>mf_snapshot_seq := 0\<rparr>"
    "\<And>i. fmlookup (files v) (SegFile i) = fmlookup (files w) (SegFile i)"
    "manifest_load (e_manifest E) v = Inr (Some md')"
    "if rej then fmlookup (files v) SnapFile = None else md' = md \<and> v = w"
proof -
  have cm: "codec_ok (e_manifest E)" using assms(2) by (simp add: env_ok_def)
  have "(md' = md \<or> md' = md\<lparr>mf_snapshot_seq := 0\<rparr>) \<and> (\<forall>i. fmlookup (files v) (SegFile i) = fmlookup (files w) (SegFile i))
    \<and> manifest_load (e_manifest E) v = Inr (Some md')
    \<and> (if rej then fmlookup (files v) SnapFile = None else md' = md \<and> v = w)"
  proof (cases rej)
    case True
    then obtain x where x: "snapshot_remove w = (Inr (), x)"
      "manifest_store (e_manifest E) (md\<lparr>mf_snapshot_seq := 0\<rparr>) x = (Inr (), v)" "md' = md\<lparr>mf_snapshot_seq := 0\<rparr>"
      using assms(1) by (auto simp: settle_def seqM_Inr ret_Inr Let_def)
    have ver: "mf_version (md\<lparr>mf_snapshot_seq := 0\<rparr>) = MANIFEST_VERSION" using assms(3) by simp
    have "fmlookup (files x) (SegFile i) = fmlookup (files w) (SegFile i)" for i
      using x(1) by (auto simp: snapshot_remove_def dest: fs_remove_Inr split: if_splits)
    moreover have "fmlookup (files v) (SegFile i) = fmlookup (files x) (SegFile i)" for i
      by (rule manifest_store_any(2) [OF x(2) cm ver]) simp_all
    moreover have "fmlookup (files x) SnapFile = None"
      using x(1) by (auto simp: snapshot_remove_def fs_exists_def dest: fs_remove_Inr split: if_splits)
    moreover have "fmlookup (files v) SnapFile = fmlookup (files x) SnapFile"
      by (rule manifest_store_any(2) [OF x(2) cm ver]) simp_all
    ultimately show ?thesis using True x(3) manifest_store_load [OF x(2) cm ver] by simp
  next
    case False
    with assms(1,4) show ?thesis by (simp add: settle_def ret_Inr)
  qed
  then show "md' = md \<or> md' = md\<lparr>mf_snapshot_seq := 0\<rparr>"
    "\<And>i. fmlookup (files v) (SegFile i) = fmlookup (files w) (SegFile i)"
    "manifest_load (e_manifest E) v = Inr (Some md')"
    "if rej then fmlookup (files v) SnapFile = None else md' = md \<and> v = w" by blast+
qed

end
