(* ===== verification/Store_Recover.thy ===== *)
theory Store_Recover
  imports Store_Open
begin

text \<open>
  The recovery theorem: whatever the faults on the way, an open that succeeds on the directory
  of a log has the maps of that log, keeps exactly its whole records, and starts again with the
  store invariant.
\<close>

text \<open>
  A snapshot the manifest names is sound when replaying the newer records onto it gives the
  maps of the log.
\<close>

definition snapshot_sound :: "env \<Rightarrow> world \<Rightarrow> manifest \<Rightarrow> seg_log list \<Rightarrow> log_record list \<Rightarrow> maps \<Rightarrow> bool" where
  "snapshot_sound E w md sl al m \<longleftrightarrow>
     (\<forall>m0 q. snapshot_load (e_crc E) w = Inr (Some (m0, q)) \<longrightarrow> q = mf_snapshot_seq md \<longrightarrow>
        q < - 1 \<and> (\<exists>p. replays_to E q sl (mf_active md) al m0 (m, p)))"

lemma trusted_snapshot_cases:
  assumes "trusted_snapshot E md sealed a w = (rej, m0, q)"
  obtains "m0 = empty_maps" "q = 0" | "snapshot_load (e_crc E) w = Inr (Some (m0, q))" "q = mf_snapshot_seq md"
  using assms by (auto simp: trusted_snapshot_def split: sum.splits option.splits prod.splits if_splits)

lemma scan_torn:
  assumes "list_all frame_ok rs" "replay_log E i q 0 rs (m, []) = Inr (m', p)" "torn_tail E t"
  shows "\<exists>scan. scan_segment E (log_bytes E rs @ t) i q m True = Inr (scan, m')
    \<and> sc_torn_at scan = (if t = [] then None else Some (word_of_nat (log_len rs)))
    \<and> sc_last_seq scan = (if rs = [] then 0 else lr_seq (last rs))"
proof -
  have none: "sc_torn_at (scan_stats q off rs sc) = sc_torn_at sc" for off sc
    by (induction rs arbitrary: off sc) simp_all
  have last: "sc_last_seq (scan_stats q 0 rs empty_scan) = (if rs = [] then 0 else lr_seq (last rs))"
    by (simp add: scan_last empty_scan_def)
  from assms(3) consider "t = []" | r k where "frame_ok r" "0 < k" "k < frame_len r" "t = take k (frame E r)"
    by (auto simp: torn_tail_def)
  then show ?thesis
  proof cases
    case 1
    with scan_segment_frames [OF assms(1,2), of True] none last show ?thesis by (simp add: empty_scan_def)
  next
    case 2
    have "t \<noteq> []" using 2(2-4) frame_len_pos [of r] by (simp flip: length_0_conv add: len_simps)
    with scan_segment_torn(1) [OF assms(1,2) 2(1,2,3)] last 2(4) show ?thesis by simp
  qed
qed

text \<open>The last step: the active segment ends up holding exactly the whole frames.\<close>

lemma cut_Inr:
  assumes "cut torn a w = (Inr b, v)" "seg_content (a, w) = keep @ t"
    and "aseg_buf a = []" "\<not> aseg_unflushed a" "fs_exists w (SegFile (aseg_id a))"
    and "torn = (if t = [] then None else Some (word_of_nat (length keep)))" "length keep + length t < 2 ^ 64"
    and "unat (aseg_len a) = length (keep @ t)"
  shows "seg_ok (b, v)" "seg_content (b, v) = keep" "aseg_buf b = []" "seg_frame (a, w) (b, v)"
    "aseg_last_seq b = aseg_last_seq a"
proof -
  have "seg_ok (b, v) \<and> seg_content (b, v) = keep \<and> aseg_buf b = [] \<and> seg_frame (a, w) (b, v)
    \<and> aseg_last_seq b = aseg_last_seq a"
  proof (cases "t = []")
    case True
    then have "b = a" "v = w" using assms(1,6) by (simp_all add: cut_def ret_Inr)
    with True assms show ?thesis by (simp add: seg_ok_def)
  next
    case False
    let ?n = "word_of_nat (length keep) :: u64"
    have un: "unat ?n = length keep" by (rule unat_u64_of_nat) (use assms(7) in simp)
    obtain r c v' where tr: "seg_truncate_to ?n (a, w) = (r, (c, v'))" by (metis prod_cases3)
    with assms(1,6) False have r: "bindR r (\<lambda>_. Inr c) = Inr b" "v' = v"
      by (simp_all add: cut_def)
    then have run: "seg_truncate_to ?n (a, w) = (Inr (), (b, v))"
      using tr by (cases r) auto
    have T: "seg_content (b, v) = keep" "aseg_buf (fst (b, v)) = []" "aseg_len (fst (b, v)) = ?n"
      "seg_frame (a, w) (b, v)" "seg_ok (b, v)" "\<not> aseg_unflushed (fst (b, v))"
      by (rule seg_truncate_Inr [OF run _ assms(2) un]; simp add: assms(3))+
    show ?thesis using T seg_truncate_last [OF run] by simp
  qed
  then show "seg_ok (b, v)" "seg_content (b, v) = keep" "aseg_buf b = []" "seg_frame (a, w) (b, v)"
    "aseg_last_seq b = aseg_last_seq a" by blast+
qed

lemma sorted_le_last: "sorted (map f xs) \<Longrightarrow> x \<in> set xs \<Longrightarrow> (f x :: u64) \<le> f (last xs)"
  by (induction xs) (auto split: if_splits)

lemma info_ids: "list_all2 info_ok infos sl \<Longrightarrow> si_id ` set infos = fst ` set sl"
  by (induction rule: list_all2_induct) (auto simp: info_ok_def)

lemma word_less_add1:
  assumes "(a :: u64) \<le> b" "b \<noteq> - 1"
  shows "a < b + 1"
proof -
  have "unat b \<noteq> unat (- 1 :: u64)" using assms(2) by (simp only: word_unat_eq_iff) simp
  then have "unat b + 1 < 2 ^ 64"
    using unat_lts(4) [of b] by (simp add: unsigned_minus_1_eq_mask mask_eq_exp_minus_1)
  then have "unat (b + 1) = unat b + 1" by (rule unat_Suc_u64)
  with assms(1) show ?thesis by (simp add: word_less_nat_alt word_le_nat_alt)
qed

section \<open>The theorem\<close>

lemma open_represents:
  assumes "store_open E opts w = (Inr s, w')" "env_ok E" "disk_log E opts w md sl al t"
    and "replays_to E 0 sl (mf_active md) al empty_maps (m, p)" "snapshot_sound E w md sl al m"
  shows "represents E sl al (s, w') p" "st_maps s = m" "durable E sl (s, w')" "flushed (s, w')"
    "st_opts s = opts" "aseg_id (st_active s) = mf_active md"
    "snapshot_load (e_crc E) w' = Inr None
     \<or> snapshot_load (e_crc E) w' = snapshot_load (e_crc E) w
       \<and> mf_snapshot_seq (st_manifest s) = mf_snapshot_seq md
       \<and> (\<forall>m0 q. snapshot_load (e_crc E) w = Inr (Some (m0, q)) \<longrightarrow> q < mf_next_seq (st_manifest s))"
proof -
  note D = assms(3) [unfolded disk_log_def]
  have md: "manifest_load (e_manifest E) w = Inr (Some md)" "check_manifest opts md = Inr ()"
    "mf_version md = MANIFEST_VERSION"
    and infos: "list_all2 info_ok (mf_sealed md) sl" and dist: "distinct (mf_active md # map fst sl)"
    and segs: "\<forall>l \<in> set sl. list_all frame_ok (snd l) \<and> fmlookup (files w) (SegFile (fst l)) = Some (log_bytes E (snd l))"
    and al: "list_all frame_ok al" "sorted (map lr_seq al)"
    and act: "file_of w (SegFile (mf_active md)) = log_bytes E al @ t" "torn_tail E t" "log_len al + length t < 2 ^ 64"
    and idl: "\<forall>i \<in> insert (mf_active md) (fst ` set sl). i < mf_next_segment_id md"
    and sq: "seqs_below (mf_next_seq md) (concat (map snd sl))" "0 < mf_next_seq md"
    and aq: "\<forall>r \<in> set al. 0 < lr_seq r \<and> lr_seq r < - 1"
    using D by blast+
  from assms(1) md(1,2) obtain w0 w1 sealed a w2 rej m0 q md' w3 m1 max1 bs scan m2 a2 where
    f0: "files w0 = files w" and ro: "remove_orphan_segments E md w0 = (Inr (), w1)"
    and os: "open_sealed (mf_sealed md) fmempty w1 = Inr sealed"
    and so: "seg_open (mf_active md) w1 = (Inr a, w2)"
    and tr: "trusted_snapshot E md sealed a w2 = (rej, m0, q)"
    and se: "settle E rej md w2 = (Inr md', w3)"
    and rs: "replay_sealed E q sealed (mf_sealed md') (m0, q) = Inr (m1, max1)"
    and ra: "seg_read_all a w3 = Inr bs"
    and sc: "scan_segment E bs (aseg_id a) q m1 True = Inr (scan, m2)"
    and cu: "cut (sc_torn_at scan) (a\<lparr>aseg_first_seq := sc_first_seq scan, aseg_last_seq := sc_last_seq scan\<rparr>) w3 = (Inr a2, w')"
    and s: "s = \<lparr> st_opts = opts,
       st_manifest = md'\<lparr>mf_next_seq := max (mf_next_seq md') (max max1 (sc_last_seq scan) + 1)\<rparr>,
       st_sealed = sealed, st_active = a2, st_maps = m2, st_pending_tombstone = 0 \<rparr>"
    by (rule open_run)
  let ?i = "mf_active md"
  have ids: "set (manifest_segment_ids md) = fst ` set sl"
    using info_ids [OF infos] by (simp add: manifest_segment_ids_def)
  have known: "fmlookup (files w1) g = fmlookup (files w) g"
    if "g \<notin> SegFile ` (- insert ?i (fst ` set sl))" for g
    using remove_orphans_Inr(1) [OF ro assms(2), of g] that f0 by (simp add: ids)
  have kn: "fmlookup (files w1) (SegFile ?i) = fmlookup (files w) (SegFile ?i)"
    "fmlookup (files w1) ManifestFile = fmlookup (files w) ManifestFile"
    "fmlookup (files w1) SnapFile = fmlookup (files w) SnapFile"
    by (rule known; auto)+
  have only: "i \<in> insert ?i (fst ` set sl)" if "fs_exists w1 (SegFile i)" for i
    using remove_orphans_Inr(2) [OF ro assms(2) that] by (simp add: ids)
  have segs1: "\<forall>l \<in> set sl. fmlookup (files w1) (SegFile (fst l)) = Some (log_bytes E (snd l))"
  proof
    fix l assume l: "l \<in> set sl"
    then have "fst l \<in> fst ` set sl" by (rule imageI)
    then have "SegFile (fst l) \<notin> SegFile ` (- insert ?i (fst ` set sl))" by auto
    with known segs l show "fmlookup (files w1) (SegFile (fst l)) = Some (log_bytes E (snd l))" by simp
  qed
  have sealed: "sealed = sealed_map E sl"
    using open_sealed_all [OF infos segs1, of fmempty] os by (simp add: sealed_map_def)
  note O = seg_open_Inr [OF so]
  have act1: "file_of w1 (SegFile ?i) = log_bytes E al @ t"
    using act(1) kn(1) by (simp add: file_of_def)
  have w2: "fmlookup (files w2) g = (if g = SegFile ?i then Some (log_bytes E al @ t) else fmlookup (files w1) g)" for g
    using O(7) act1 by simp
  have len: "unat (aseg_len a) = length (log_bytes E al @ t)"
    unfolding O(3) act1 by (rule unat_u64_of_nat) (use act(3) in \<open>simp add: len_simps\<close>)
  have mdl: "manifest_load (e_manifest E) w2 = Inr (Some md)"
    using md(1) w2 [of ManifestFile] kn(2) manifest_load_cong [of w2 w] by simp
  note S = settle_Inr [OF se assms(2) md(3) mdl]
  have md': "mf_sealed md' = mf_sealed md" "mf_active md' = ?i" "mf_next_segment_id md' = mf_next_segment_id md"
    "mf_next_seq md' = mf_next_seq md" "mf_version md' = mf_version md" "check_manifest opts md' = Inr ()"
    using S(1) md(2) check_manifest_cong [of md' md opts] by auto
  have snapw: "snapshot_load (e_crc E) w2 = snapshot_load (e_crc E) w"
    by (rule snapshot_load_cong) (use w2 [of SnapFile] kn(3) in simp)
  have "\<exists>p'. replays_to E q sl ?i al m0 (m, p') \<and> q \<noteq> - 1"
    using tr
  proof (rule trusted_snapshot_cases)
    assume "m0 = empty_maps" "q = 0"
    with assms(4) show ?thesis by auto
  next
    assume "snapshot_load (e_crc E) w2 = Inr (Some (m0, q))" "q = mf_snapshot_seq md"
    moreover from this(1) have "snapshot_load (e_crc E) w = Inr (Some (m0, q))" by (simp only: snapw)
    ultimately show ?thesis using assms(5) unfolding snapshot_sound_def by (metis less_irrefl)
  qed
  then obtain p' mm where mm: "replay_segments E q sl m0 = Inr mm" "replay_log E ?i q 0 al (mm, []) = Inr (m, p')"
    and q1: "q \<noteq> - 1" by (auto simp: replays_to_def)
  have q: "q < max (mf_next_seq md) (q + 1)"
    using word_less_add1 [OF order_refl q1] by (simp add: less_max_iff_disj)
  have "\<exists>mx'. replay_sealed E q sealed (mf_sealed md) (m0, q) = Inr (mm, mx') \<and> q \<le> mx' \<and> mx' < max (mf_next_seq md) (q + 1)"
    by (rule replay_sealed_all [OF infos _ _ mm(1) _ q])
      (use segs sq dist in \<open>auto simp: sealed sealed_map_lookup seqs_below_def less_max_iff_disj\<close>)
  with rs md'(1) have m1: "m1 = mm" "max1 < max (mf_next_seq md) (q + 1)" "q \<le> max1" by auto
  have files3: "fmlookup (files w3) (SegFile i) = (if i = ?i then Some (log_bytes E al @ t) else fmlookup (files w1) (SegFile i))" for i
    using S(2) [of i] w2 [of "SegFile i"] by auto
  have c3: "seg_content (a\<lparr>aseg_first_seq := sc_first_seq scan, aseg_last_seq := sc_last_seq scan\<rparr>, w3) = log_bytes E al @ t"
    using files3 [of ?i] O(1,2) by (simp add: seg_content_def file_of_def)
  have bs: "bs = log_bytes E al @ t"
    using ra len files3 [of ?i] O(1) by (simp add: seg_read_all_def Let_def file_of_def)
  from scan_torn [OF al(1) mm(2) act(2)] sc m1(1) O(1) bs
  have m2: "m2 = m" and torn: "sc_torn_at scan = (if t = [] then None else Some (word_of_nat (length (log_bytes E al))))"
    and lst: "sc_last_seq scan = (if al = [] then 0 else lr_seq (last al))"
    by (auto simp: len_simps)
  have ex3: "fs_exists w3 (SegFile (aseg_id (a\<lparr>aseg_first_seq := sc_first_seq scan, aseg_last_seq := sc_last_seq scan\<rparr>)))"
    using files3 [of ?i] O(1) by (simp add: fs_exists_def)
  have C: "seg_ok (a2, w')" "seg_content (a2, w') = log_bytes E al" "aseg_buf a2 = []"
    "seg_frame (a\<lparr>aseg_first_seq := sc_first_seq scan, aseg_last_seq := sc_last_seq scan\<rparr>, w3) (a2, w')"
    "aseg_last_seq a2 = aseg_last_seq (a\<lparr>aseg_first_seq := sc_first_seq scan, aseg_last_seq := sc_last_seq scan\<rparr>)"
    by (rule cut_Inr [OF cu c3 _ _ ex3 torn]; use O len act(3) in \<open>simp add: len_simps\<close>)+
  have id2: "aseg_id a2 = ?i" using C(4) O(1) by (simp add: seg_frame_def)
  have filesw: "fmlookup (files w') (SegFile i) = fmlookup (files w1) (SegFile i)" if "i \<noteq> ?i" for i
    using C(4) O(1) files3 [of i] that by (simp add: seg_frame_def)
  let ?n = "max (mf_next_seq md') (max max1 (sc_last_seq scan) + 1)"
  have nle: "mf_next_seq md \<le> ?n" using md'(4) by simp
  have top: "max max1 (sc_last_seq scan) \<noteq> - 1"
  proof -
    have "max1 \<noteq> - 1" using m1(2) leD [OF max_word_max] by blast
    moreover have "sc_last_seq scan \<noteq> - 1"
    proof (cases "al = []")
      case False
      then have "lr_seq (last al) < - 1" using aq by simp
      with False lst show ?thesis by auto
    qed (simp add: lst)
    ultimately show ?thesis by (metis max_def)
  qed
  have aln: "lr_seq r < ?n" if "r \<in> set al" for r
  proof -
    have le: "lr_seq r \<le> max max1 (sc_last_seq scan)"
      using sorted_le_last [OF al(2) that] lst that by (auto simp: le_max_iff_disj)
    from word_less_add1 [OF this top] show ?thesis by (simp add: less_max_iff_disj)
  qed
  have qn: "q < ?n"
  proof -
    have "q \<le> max max1 (sc_last_seq scan)" using m1(3) by (simp add: le_max_iff_disj)
    from word_less_add1 [OF this top] show ?thesis by (simp add: less_max_iff_disj)
  qed
  have 1: "sealed_ok E sl (s, w')"
  proof -
    have "fmlookup (files w') (SegFile (fst l)) = Some (log_bytes E (snd l))" if "l \<in> set sl" for l
    proof -
      have "?i \<notin> fst ` set sl" using dist by simp
      with imageI [OF that, of fst] have "fst l \<noteq> ?i" by metis
      with filesw segs1 that show ?thesis by simp
    qed
    moreover have "fmlookup sealed (fst l) = Some \<lparr> sseg_id = fst l, sseg_map = log_bytes E (snd l) \<rparr>" if "l \<in> set sl" for l
      unfolding sealed by (rule sealed_map_lookup [OF _ that]) (use dist in simp)
    ultimately show ?thesis
      unfolding sealed_ok_def using infos dist segs by (simp add: s md'(1) id2 sealed fmdom'_sealed_map)
  qed
  have 2: "active_ok E al (s, w')"
    unfolding active_ok_def
    using C(1,2,5) al sorted_le_last [OF al(2)] lst by (auto simp: s seg_of_def md'(2) id2)
  have 3: "seqs_below ?n (concat (map snd sl) @ al)"
    using seqs_below_mono [OF sq(1) nle] aln aq by (auto simp: seqs_below_def)
  have 4: "0 < ?n" using sq(2) nle by simp
  have 5: "ids_below (s, w')"
    unfolding ids_below_def
  proof (intro allI impI)
    fix i assume e: "fs_exists (snd (s, w')) (SegFile i)"
    have "i \<in> insert ?i (fst ` set sl)"
    proof (cases "i = ?i")
      case False
      then have "fs_exists w1 (SegFile i)" using e filesw [of i] by (simp add: fs_exists_def)
      then show ?thesis by (rule only)
    qed simp
    with idl show "i < mf_next_segment_id (st_manifest (fst (s, w')))" by (auto simp: s md'(3))
  qed
  show "represents E sl al (s, w') p"
    unfolding represents_def using 1 2 3 4 5 assms(4) by (simp add: s id2 m2)
  show "st_maps s = m" "st_opts s = opts" "aseg_id (st_active s) = ?i" "flushed (s, w')"
    using m2 id2 C(3) by (simp_all add: s flushed_def)
  have "manifest_load (e_manifest E) w' = Inr (Some md')"
    using S(3) C(4) O(1) manifest_load_cong [of w' w3] by (simp add: seg_frame_def)
  moreover have "check_manifest opts (md'\<lparr>mf_next_seq := ?n\<rparr>) = Inr ()"
    using md'(6) check_manifest_cong [of "md'\<lparr>mf_next_seq := ?n\<rparr>" md' opts] by simp
  ultimately show "durable E sl (s, w')"
    using md(3) md'(4,5) sq by (auto simp: durable_def s agrees_def)
  have snap3: "fmlookup (files w') SnapFile = fmlookup (files w3) SnapFile"
    using C(4) by (simp add: seg_frame_def)
  show "snapshot_load (e_crc E) w' = Inr None
     \<or> snapshot_load (e_crc E) w' = snapshot_load (e_crc E) w
       \<and> mf_snapshot_seq (st_manifest s) = mf_snapshot_seq md
       \<and> (\<forall>m0 q. snapshot_load (e_crc E) w = Inr (Some (m0, q)) \<longrightarrow> q < mf_next_seq (st_manifest s))"
  proof (cases rej)
    case True
    with S(4) snap3 show ?thesis by (simp add: snapshot_load_def fs_exists_def)
  next
    case False
    with S(4) have e: "md' = md" "w3 = w2" by simp_all
    have l: "snapshot_load (e_crc E) w' = snapshot_load (e_crc E) w"
      using snapw snapshot_load_cong [OF snap3] e(2) by simp
    have "q' < ?n" if "snapshot_load (e_crc E) w = Inr (Some (m', q'))" for m' q'
      using tr that False qn snapw
      by (auto simp: trusted_snapshot_def split: if_splits)
    with l e(1) show ?thesis by (simp add: s)
  qed
qed

end
