(* ===== verification/Store_Crash.thy ===== *)
theory Store_Crash
  imports Store_Recover
begin

text \<open>
  Crashes. A crash leaves the files of the store with the active segment cut at some byte; the
  directory is then that of a prefix of the log. An insert that did not reach its document
  record leaves the maps alone unless it was replacing a document, and a snapshot followed by
  the newer records rebuilds the same maps as the whole log.
\<close>

section \<open>The directory after a crash\<close>

definition crash_of :: "sstate \<Rightarrow> world \<Rightarrow> bool" where
  "crash_of x w \<longleftrightarrow>
     (\<forall>g. g \<noteq> SegFile (active_id x) \<longrightarrow> fmlookup (files w) g = fmlookup (files (snd x)) g)
     \<and> (\<exists>k. file_of w (SegFile (active_id x)) = take k (seg_content (seg_of x)))"

lemma crash_refl: "crash_of x (snd x)"
proof -
  have "file_of (snd x) (SegFile (active_id x)) =
    take (length (file_of (snd x) (SegFile (active_id x)))) (seg_content (seg_of x))"
    by (simp add: seg_content_def seg_of_def)
  then show ?thesis unfolding crash_of_def by blast
qed

lemma torn_tail_take: "frame_ok r \<Longrightarrow> j < frame_len r \<Longrightarrow> torn_tail E (take j (frame E r))"
  by (cases "j = 0") (auto simp: torn_tail_def)

lemma torn_tail_Nil: "torn_tail E []"
  by (simp add: torn_tail_def)

lemma crash_disk_log:
  assumes "represents E sl al x p" "durable E sl x" "crash_of x w"
    and "next_seq_of x < - 1"
  shows "\<exists>md n t. agrees md (st_manifest (fst x)) \<and> disk_log E (st_opts (fst x)) w md sl (take n al) t
      \<and> mf_active md = active_id x \<and> n \<le> length al \<and> log_bytes E (take n al) @ t = file_of w (SegFile (active_id x))
      \<and> (n < length al \<longrightarrow> length t < frame_len (al ! n))"
proof -
  note R = representsD [OF assms(1)]
  note A = active_okD [OF R(2)]
  from assms(2) obtain md where md: "manifest_load (e_manifest E) (snd x) = Inr (Some md)"
    "agrees md (st_manifest (fst x))" "seqs_below (mf_next_seq md) (concat (map snd sl))"
    and ck: "check_manifest (st_opts (fst x)) (st_manifest (fst x)) = Inr ()"
    and ver: "mf_version (st_manifest (fst x)) = MANIFEST_VERSION" "0 < mf_next_seq md"
    by (auto simp: durable_def)
  note G = agrees_fields [OF md(2)]
  have ac: "mf_active md = active_id x" using G(6) A(4) by simp
  obtain k where k: "file_of w (SegFile (active_id x)) = take k (log_bytes E al)"
    using assms(3) A(2) by (auto simp: crash_of_def)
  define k' where "k' = min k (log_len al)"
  have k': "take k (log_bytes E al) = take k' (log_bytes E al)" "k' \<le> log_len al"
    by (simp_all add: k'_def len_simps min_def)
  from log_prefix [OF k'(2), of E] obtain n j where
    n: "take k' (log_bytes E al) = log_bytes E (take n al) @ (if n < length al then take j (frame E (al ! n)) else [])"
    "n \<le> length al" "n < length al \<longrightarrow> j < frame_len (al ! n)" by blast
  let ?t = "if n < length al then take j (frame E (al ! n)) else []"
  have t: "torn_tail E ?t"
    using n(3) A(3) by (auto simp: torn_tail_take list_all_length torn_tail_Nil)
  have len: "log_len (take n al) + length ?t < 2 ^ 64"
  proof -
    have "log_len (take n al) + length ?t = length (take k' (log_bytes E al))"
      unfolding n(1) by (simp add: len_simps)
    also have "\<dots> \<le> length (seg_content (seg_of x))" using A(2) by simp
    also have "\<dots> < 2 ^ 64"
      using A(1) unsigned_less [of "aseg_len (st_active (fst x))"] by (simp add: seg_ok_def seg_of_def)
    finally show ?thesis .
  qed
  have fn: "fmlookup (files w) g = fmlookup (files (snd x)) g" if "g \<noteq> SegFile (active_id x)" for g
    using assms(3) that by (simp add: crash_of_def)
  have segs: "fmlookup (files w) (SegFile (fst l)) = Some (log_bytes E (snd l))" if "l \<in> set sl" for l
  proof -
    have "active_id x \<notin> fst ` set sl" using R(1) by (simp add: sealed_ok_def)
    with imageI [OF that, of fst] have "fst l \<noteq> active_id x" by metis
    with fn [of "SegFile (fst l)"] R(1) that show ?thesis by (simp add: sealed_ok_def)
  qed
  have idl: "i < mf_next_segment_id md" if "i \<in> insert (mf_active md) (fst ` set sl)" for i
  proof -
    have "fs_exists (snd x) (SegFile i)"
      using that R(1) A(1) ac by (auto simp: sealed_ok_def fs_exists_def seg_ok_def seg_of_def)
    then show ?thesis using R(5) G(7) by (simp add: ids_below_def)
  qed
  have seq: "0 < lr_seq r \<and> lr_seq r < - 1" if "r \<in> set (take n al)" for r
  proof -
    have "r \<in> set al" using that by (rule in_set_takeD)
    then have "0 < lr_seq r" "lr_seq r < next_seq_of x" using R(3) by (auto simp: seqs_below_def)
    with assms(4) show ?thesis by simp
  qed
  have tk: "list_all frame_ok (take n al)" "sorted (map lr_seq (take n al))"
    using A(3,6) by (auto simp: list_all_iff sorted_wrt_take simp flip: take_map dest: in_set_takeD)
  have "disk_log E (st_opts (fst x)) w md sl (take n al) ?t"
    unfolding disk_log_def
    using md(1,3) fn [of ManifestFile] manifest_load_cong [of w "snd x"] ck check_manifest_cong [of md "st_manifest (fst x)"]
      G ver R(1) tk ac segs k k'(1) n(1) t len idl seq
    by (auto simp: sealed_ok_def)
  moreover have "log_bytes E (take n al) @ ?t = file_of w (SegFile (active_id x))"
    unfolding k k'(1) n(1) ..
  moreover have "n < length al \<longrightarrow> length ?t < frame_len (al ! n)"
    using n(3) by (simp add: len_simps)
  ultimately show ?thesis using md(2) ac n(2) by blast
qed

text \<open>
  Without a snapshot, an open after a crash gives the maps of some prefix of the log; the
  records it keeps are the whole frames that are in the file.
\<close>

lemma replays_to_prefix:
  assumes "replays_to E q sl i al m0 st"
  shows "\<exists>st'. replays_to E q sl i (take n al) m0 st'"
proof -
  from assms obtain m where m: "replay_segments E q sl m0 = Inr m" "replay_log E i q 0 al (m, []) = Inr st"
    by (auto simp: replays_to_def)
  have "replay_log E i q 0 (take n al @ drop n al) (m, []) = Inr st" using m(2) by simp
  then obtain st' where "replay_log E i q 0 (take n al) (m, []) = Inr st'"
    unfolding replay_log_append bindR_Inr by blast
  with m(1) show ?thesis by (auto simp: replays_to_def)
qed

lemma open_after_crash:
  assumes "represents E sl al x p" "durable E sl x" "env_ok E" "crash_of x w" "next_seq_of x < - 1"
    and "snapshot_load (e_crc E) w = Inr None" "store_open E (st_opts (fst x)) w = (Inr s, w')"
  shows "\<exists>n p' t. n \<le> length al \<and> represents E sl (take n al) (s, w') p'
      \<and> durable E sl (s, w') \<and> flushed (s, w')
      \<and> file_of w (SegFile (active_id x)) = log_bytes E (take n al) @ t
      \<and> (n < length al \<longrightarrow> length t < frame_len (al ! n))
      \<and> replays_to E 0 sl (active_id x) (take n al) empty_maps (st_maps s, p')"
proof -
  from crash_disk_log [OF assms(1,2,4,5)] obtain md n t where
    md: "agrees md (st_manifest (fst x))" "disk_log E (st_opts (fst x)) w md sl (take n al) t"
    "mf_active md = active_id x" "n \<le> length al" "log_bytes E (take n al) @ t = file_of w (SegFile (active_id x))"
    "n < length al \<longrightarrow> length t < frame_len (al ! n)" by blast
  have "replays_to E 0 sl (active_id x) al empty_maps (st_maps (fst x), p)"
    using assms(1) by (simp add: represents_def)
  then obtain m p' where r: "replays_to E 0 sl (active_id x) (take n al) empty_maps (m, p')"
    using replays_to_prefix by (metis surj_pair)
  have ss: "snapshot_sound E w md sl (take n al) m"
    using assms(6) by (simp add: snapshot_sound_def)
  note O = open_represents [OF assms(7,3) md(2) r [folded md(3)] ss]
  show ?thesis
    using O(1-4) md(4-6) r by (intro exI [of _ n] exI [of _ p'] exI [of _ t]) auto
qed

section \<open>Snapshots\<close>

lemma replay_segments_skip:
  "\<forall>r \<in> set (concat (map snd sl)). lr_seq r \<le> q \<Longrightarrow> replay_segments E q sl m = Inr m"
proof (induction sl arbitrary: m)
  case (Cons l sl)
  obtain i rs where l: "l = (i, rs)" by fastforce
  with Cons show ?case by (simp add: replay_log_skip)
qed simp

lemma replay_log_newer:
  assumes "newer q rs" "q' \<le> q"
  shows "replay_log E i q off rs st = replay_log E i q' off rs st"
  using assms(1)
proof (induction rs arbitrary: off st)
  case (Cons r rs)
  then have "q < lr_seq r" "q' < lr_seq r" using assms(2) by auto
  then have "replay_record E i q off r st = replay_record E i q' off r st"
    by (simp add: replay_record_def)
  with Cons show ?case by (auto simp: bindR_def split: sum.splits)
qed simp

lemma replay_segments_newer:
  assumes "newer q (concat (map snd sl))" "q' \<le> q"
  shows "replay_segments E q sl m = replay_segments E q' sl m"
  using assms(1)
proof (induction sl arbitrary: m)
  case (Cons l sl)
  obtain i rs where l: "l = (i, rs)" by fastforce
  with Cons assms(2) show ?case
    by (auto simp: replay_log_newer [of q rs q'] bindR_def split: sum.splits)
qed simp

text \<open>
  The snapshot was taken when the log was \<open>L1\<close> and \<open>a1\<close> in the segment then active; \<open>a2\<close> was
  appended to that segment and \<open>L2\<close> followed. Nothing was pending when it was taken.
\<close>

lemma snapshot_replays:
  assumes "\<forall>r \<in> set (concat (map snd L1) @ a1). lr_seq r \<le> q" "newer q (a2 @ concat (map snd L2))"
    and "\<exists>m. replay_segments E 0 L1 empty_maps = Inr m \<and> replay_log E i 0 0 a1 (m, []) = Inr (m0, [])"
  shows "replay_segments E q (L1 @ (i, a1 @ a2) # L2) m0 = replay_segments E 0 (L1 @ (i, a1 @ a2) # L2) empty_maps"
proof -
  from assms(3) obtain m where m: "replay_segments E 0 L1 empty_maps = Inr m"
    "replay_log E i 0 0 a1 (m, []) = Inr (m0, [])" by blast
  have nw: "newer q a2" "newer q (concat (map snd L2))" using assms(2) by simp_all
  have seg2: "replay_segments E q L2 = replay_segments E 0 L2"
    by (rule ext) (rule replay_segments_newer [OF nw(2)], simp)
  have "replay_segments E q (L1 @ (i, a1 @ a2) # L2) m0
      = bindR (replay_log E i q (log_len a1) a2 (m0, [])) (\<lambda>(m', p). replay_segments E 0 L2 m')"
    using assms(1) by (simp add: replay_segments_append replay_segments_skip replay_log_append replay_log_skip seg2)
  also have "\<dots> = bindR (replay_log E i 0 (log_len a1) a2 (m0, [])) (\<lambda>(m', p). replay_segments E 0 L2 m')"
    using replay_log_newer [OF nw(1), of 0] by simp
  also have "\<dots> = replay_segments E 0 (L1 @ (i, a1 @ a2) # L2) empty_maps"
    using m by (simp add: replay_segments_append replay_log_append)
  finally show ?thesis .
qed

section \<open>Torn inserts\<close>

text \<open>Records of entities only fill the buffer.\<close>

definition entity_record :: "env \<Rightarrow> log_record \<Rightarrow> bool" where
  "entity_record E r \<longleftrightarrow>
     (lr_kind r = Split \<and> (\<exists>m. from_slice (e_split E) (lr_meta r) = Inr m))
     \<or> (lr_kind r = Summary \<and> (\<exists>m. from_slice (e_summary E) (lr_meta r) = Inr m))"

lemma replay_entities:
  "list_all (entity_record E) rs \<Longrightarrow> \<exists>p'. replay_log E i q off rs (m, p) = Inr (m, p @ p')"
proof (induction rs arbitrary: off p)
  case (Cons r rs)
  then have "entity_record E r" by simp
  then have "\<exists>p1. replay_record E i q off r (m, p) = Inr (m, p @ p1)"
    by (auto simp: entity_record_def replay_record_def apply_record_def)
  then obtain p1 where p1: "replay_record E i q off r (m, p) = Inr (m, p @ p1)" ..
  from Cons.prems have "list_all (entity_record E) rs" by simp
  from Cons.IH [OF this, of "off + frame_len r" "p @ p1"] obtain p2 where
    "replay_log E i q (off + frame_len r) rs (m, p @ p1) = Inr (m, (p @ p1) @ p2)" ..
  with p1 show ?case by auto
qed simp

lemma entity_numbered:
  assumes "env_ok E"
  shows "list_all (entity_record E) (number n (map (summary_record E opts) us))"
    "list_all (entity_record E) (number n (map (split_record E opts) ss))"
proof -
  have c: "codec_ok (e_split E)" "codec_ok (e_summary E)" using assms by (simp_all add: env_ok_def)
  show "list_all (entity_record E) (number n (map (summary_record E opts) us))"
    by (induction us arbitrary: n)
      (auto simp: entity_record_def summary_record_def meta_bytes_ok(2) [OF c(2)])
  show "list_all (entity_record E) (number n (map (split_record E opts) ss))"
    by (induction ss arbitrary: n)
      (auto simp: entity_record_def split_record_def meta_bytes_ok(2) [OF c(1)])
qed

lemma list_all_takeI: "list_all P xs \<Longrightarrow> list_all P (take n xs)"
  by (auto simp: list_all_iff dest: in_set_takeD)

text \<open>An insert of a new document cut anywhere before its last record changes nothing.\<close>

lemma torn_insert_nothing:
  assumes "env_ok E" "n < length (insert_records E opts False doc us seq)"
  shows "\<exists>p'. replay_log E i q off (take n (insert_records E opts False doc us seq)) (m, p) = Inr (m, p @ p')"
proof -
  let ?n2 = "seq + word_of_nat (length us)"
  let ?body = "number seq (map (summary_record E opts) us) @ number ?n2 (map (split_record E opts) (dd_splits doc))"
  have rs: "insert_records E opts False doc us seq = ?body @ [doc_record E opts doc (?n2 + word_of_nat (length (dd_splits doc)))]"
    by (simp add: insert_records_eq Let_def)
  have "take n (insert_records E opts False doc us seq) = take n ?body"
    using assms(2) unfolding rs by simp
  moreover have "list_all (entity_record E) (take n ?body)"
    using entity_numbered [OF assms(1)] by (intro list_all_takeI) simp
  ultimately show ?thesis using replay_entities by metis
qed

text \<open>
  A replacing insert writes its delete record first, so cutting it after that record loses the
  old document without adding the new one.
\<close>

lemma torn_replacement_loses:
  assumes "env_ok E" "0 < n" "n < length (insert_records E opts True doc us seq)" "q < seq"
  shows "\<exists>p'. replay_log E i q off (take n (insert_records E opts True doc us seq)) (m, p)
    = Inr (drop_doc (dd_document_id doc) seg m, p')"
proof -
  let ?d = "dd_document_id doc"
  have rs: "insert_records E opts True doc us seq = delete_record E opts ?d seq # insert_records E opts False doc us (seq + 1)"
    by (simp add: insert_records_def insert_bodies_def)
  obtain k where k: "n = Suc k" "k < length (insert_records E opts False doc us (seq + 1))"
    using assms(2,3) unfolding rs by (cases n) auto
  show ?thesis
    unfolding rs k(1) take_Suc_Cons replay_log.simps
      replay_delete_record [OF assms(1,4), of i off opts ?d m p seg] bindR_simps
    using torn_insert_nothing [OF assms(1) k(2)] by blast
qed

end
