(* ===== verification/Store_Live.thy ===== *)
theory Store_Live
  imports Store_Recover
begin

text \<open>
  Progress: when the file system does not fail, the operations succeed. \<open>runs P m\<close> says that
  from every state with \<open>P\<close> the operation returns a value and \<open>P\<close> holds again.
\<close>

definition runs :: "('s \<Rightarrow> bool) \<Rightarrow> ('e, 's, 'a) op \<Rightarrow> bool" where
  "runs P m \<longleftrightarrow> (\<forall>s. P s \<longrightarrow> (\<exists>r t. m s = (Inr r, t) \<and> P t))"

lemma runsD: "runs P m \<Longrightarrow> P s \<Longrightarrow> \<exists>r t. m s = (Inr r, t) \<and> P t"
  by (simp add: runs_def)

lemma runsI: "(\<And>s. P s \<Longrightarrow> \<exists>r t. m s = (Inr r, t) \<and> P t) \<Longrightarrow> runs P m"
  by (simp add: runs_def)

lemma runs_basic: "runs P (ret a)" "runs P (getM g)" "runs P (liftM (Inr a))"
  by (simp_all add: runs_def ret_def getM_def liftM_def)

lemma runs_modM: "(\<And>s. P s \<Longrightarrow> P (g s)) \<Longrightarrow> runs P (modM g)"
  by (simp add: runs_def modM_def)

lemma runs_bind:
  assumes "runs P m" "\<And>a. runs P (f a)"
  shows "runs P (bindM m f)"
proof (rule runsI)
  fix s assume "P s"
  with assms(1) obtain r t where 1: "m s = (Inr r, t)" "P t" unfolding runs_def by blast
  with assms(2) [of r] obtain r' u where "f r t = (Inr r', u)" "P u" unfolding runs_def by blast
  with 1 show "\<exists>r t. bindM m f s = (Inr r, t) \<and> P t" by (simp add: bindM_def)
qed

lemma runs_seq: "runs P m \<Longrightarrow> runs P k \<Longrightarrow> runs P (seqM m k)"
  by (simp add: seqM_def runs_bind)

lemma runs_if: "(b \<Longrightarrow> runs P m) \<Longrightarrow> (\<not> b \<Longrightarrow> runs P k) \<Longrightarrow> runs P (if b then m else k)"
  by simp

lemma runs_mapM: "(\<And>a. a \<in> set xs \<Longrightarrow> runs P (f a)) \<Longrightarrow> runs P (mapM f xs)"
  by (induction xs) (simp_all add: runs_basic runs_bind)

lemma runs_on: "(\<And>s. P s \<Longrightarrow> runs P (m s)) \<Longrightarrow> runs P (\<lambda>s. m s s)"
  by (auto simp: runs_def)

lemmas runs_rules = runs_basic runs_bind runs_seq runs_mapM

section \<open>The segment\<close>

definition seg_fine :: "seg_state \<Rightarrow> bool" where
  "seg_fine s \<longleftrightarrow> faults (snd s) = [] \<and> fs_exists (snd s) (SegFile (aseg_id (fst s)))"

lemma fs_clean:
  "faults w = [] \<Longrightarrow> fs_check w = (Inr (), w)"
  "faults w = [] \<Longrightarrow> fs_append f bs w = (Inr (), put_file f (file_of w f @ bs) w)"
  "faults w = [] \<Longrightarrow> fs_write f bs w = (Inr (), put_file f bs w)"
  "faults w = [] \<Longrightarrow> fs_create f w = (Inr (), put_file f (file_of w f) w)"
  "faults w = [] \<Longrightarrow> fs_exists w f \<Longrightarrow> \<exists>v. fs_sync f w = (Inr (), v) \<and> faults v = [] \<and> files v = files w"
  by (auto simp: fs_check_def fs_append_def fs_write_def fs_create_def fs_sync_def io_clean fs_exists_def)

lemma runs_flush_buf: "runs seg_fine flush_buf"
  by (rule runsI) (auto simp: flush_buf_def seg_fine_def next_fault_clean fs_exists_def split: prod.splits)

lemma runs_buffer_push: "runs seg_fine (buffer_push bs)"
  unfolding buffer_push_def by (rule runs_modM) (auto simp: seg_fine_def)

lemma runs_write_all: "runs seg_fine (write_all bs)"
proof (rule runsI)
  fix s assume s: "seg_fine s"
  obtain a w where aw: "s = (a, w)" by fastforce
  let ?f = "SegFile (aseg_id a)"
  have d: "\<exists>r t. (if BUF_CAPACITY \<le> length bs then on_world (fs_append ?f bs) else buffer_push bs) u = (Inr r, t) \<and> seg_fine t"
    if "seg_fine u" "aseg_id (fst u) = aseg_id a" for u
  proof (cases "BUF_CAPACITY \<le> length bs")
    case True
    with that show ?thesis by (simp add: on_world_def zoom_def fs_clean seg_fine_def fs_exists_def)
  next
    case False
    then show ?thesis using runsD [OF runs_buffer_push that(1)] by simp
  qed
  have e: "\<exists>r t. (if BUF_CAPACITY - length (aseg_buf a) < length bs then flush_buf else ret ()) s = (Inr r, t)
      \<and> seg_fine t \<and> aseg_id (fst t) = aseg_id a"
    using runsD [OF runs_flush_buf s] s aw flush_buf_Inr [of s] by (auto simp: ret_def seg_frame_def)
  show "\<exists>r t. write_all bs s = (Inr r, t) \<and> seg_fine t"
  proof (cases "length bs < BUF_CAPACITY - length (aseg_buf a)")
    case True
    then show ?thesis using runsD [OF runs_buffer_push s] by (simp add: write_all_def aw)
  next
    case False
    from e obtain t where t: "(if BUF_CAPACITY - length (aseg_buf a) < length bs then flush_buf else ret ()) s = (Inr (), t)"
      "seg_fine t" "aseg_id (fst t) = aseg_id a" by auto
    from d [OF t(2,3)] t(1) False show ?thesis
      by (simp add: write_all_def aw Let_def seqM_def bindM_def)
  qed
qed

lemma runs_seg_append: "runs seg_fine (seg_append bs q)"
  unfolding seg_append_def
  by (intro runs_rules runs_write_all runs_modM) (auto simp: seg_fine_def)

lemma runs_seg_flush: "runs seg_fine seg_flush"
proof (rule runsI)
  fix s assume s: "seg_fine s"
  have "runs seg_fine (seqM flush_buf (modM (\<lambda>(a, w). (a\<lparr>aseg_unflushed := False\<rparr>, w))))"
    by (intro runs_rules runs_flush_buf runs_modM) (auto simp: seg_fine_def)
  from runsD [OF this s] s show "\<exists>r t. seg_flush s = (Inr r, t) \<and> seg_fine t"
    by (cases s) (auto simp: seg_flush_def)
qed

lemma runs_seg_sync: "runs seg_fine seg_sync"
proof -
  have "runs seg_fine (\<lambda>(a, w). on_world (fs_sync (SegFile (aseg_id a))) (a, w))"
  proof (rule runsI)
    fix s assume s: "seg_fine s"
    obtain a w where aw: "s = (a, w)" by fastforce
    with s obtain v where "fs_sync (SegFile (aseg_id a)) w = (Inr (), v)" "faults v = []" "files v = files w"
      using fs_clean(5) [of w "SegFile (aseg_id a)"] by (auto simp: seg_fine_def)
    with s aw show "\<exists>r t. (\<lambda>(a, w). on_world (fs_sync (SegFile (aseg_id a))) (a, w)) s = (Inr r, t) \<and> seg_fine t"
      by (simp add: on_world_def zoom_def seg_fine_def fs_exists_def)
  qed
  then show ?thesis unfolding seg_sync_def by (intro runs_seq runs_seg_flush)
qed

section \<open>The store\<close>

definition fine :: "sstate \<Rightarrow> bool" where
  "fine x \<longleftrightarrow> seg_fine (seg_of x)"

lemma runs_on_active: "runs seg_fine m \<Longrightarrow> runs fine (on_active m)"
proof (rule runsI)
  fix x assume m: "runs seg_fine m" and x: "fine x"
  then have "seg_fine (seg_of x)" by (simp add: fine_def)
  from runsD [OF m this] obtain r t where "m (seg_of x) = (Inr r, t)" "seg_fine t" by blast
  then have "on_active m x = (Inr r, ((fst x)\<lparr>st_active := fst t\<rparr>, snd t))" "fine ((fst x)\<lparr>st_active := fst t\<rparr>, snd t)"
    by (auto simp: on_active_Inr fine_def seg_of_def)
  then show "\<exists>r t. on_active m x = (Inr r, t) \<and> fine t" by blast
qed

lemma runs_the_store: "runs fine (the_store g)"
  unfolding the_store_def by (rule runs_basic)

lemma runs_on_store: "(\<And>s. st_active (g s) = st_active s) \<Longrightarrow> runs fine (on_store g)"
  unfolding on_store_def by (rule runs_modM) (auto simp: fine_def seg_of_def)

lemma runs_next_seq: "runs fine next_seq"
  unfolding next_seq_def by (intro runs_rules runs_the_store runs_on_store) simp

lemma runs_store_append: "runs fine (store_append E kind meta vector)"
  unfolding store_append_def Let_def
  by (intro runs_rules runs_the_store runs_next_seq runs_on_active runs_seg_append)

lemma runs_append_delete: "codec_ok (e_delete E) \<Longrightarrow> runs fine (append_delete E d)"
  unfolding append_delete_def Let_def
  by (simp add: meta_bytes_ok(1)) (intro runs_rules runs_next_seq runs_on_active runs_seg_append)

lemma runs_append_summary:
  "codec_ok (e_summary E) \<Longrightarrow> ud_embedding u = Some v \<Longrightarrow> runs fine (append_summary E u)"
  unfolding append_summary_def
  by (simp add: meta_bytes_ok(1) expect_vector_def) (intro runs_rules runs_the_store runs_store_append)

lemma runs_append_split:
  "codec_ok (e_split E) \<Longrightarrow> sd_embedding s = Some v \<Longrightarrow> runs fine (append_split E s)"
  unfolding append_split_def
  by (simp add: meta_bytes_ok(1) expect_vector_def) (intro runs_rules runs_the_store runs_store_append)

lemma runs_append_document:
  assumes "env_ok E" "good_document opts doc" "set us \<subseteq> set (all_summaries doc)"
  shows "runs fine (append_document E doc us)"
proof -
  have c: "codec_ok (e_doc E)" "codec_ok (e_split E)" "codec_ok (e_summary E)" "codec_ok (e_delete E)"
    using assms(1) by (simp_all add: env_ok_def)
  have u: "runs fine (append_summary E a)" if "a \<in> set us" for a
  proof -
    from that assms(3) have "a \<in> set (all_summaries doc)" by blast
    with assms(2) obtain v where "ud_embedding a = Some v"
      by (auto simp: good_document_def good_embedding_def)
    then show ?thesis by (rule runs_append_summary [OF c(3)])
  qed
  have p: "runs fine (append_split E a)" if "a \<in> set (dd_splits doc)" for a
  proof -
    from that assms(2) obtain v where "sd_embedding a = Some v"
      by (auto simp: good_document_def good_embedding_def)
    then show ?thesis by (rule runs_append_split [OF c(2)])
  qed
  have d: "runs fine (if b then append_delete E k else ret ())" for b k
    by (intro runs_if runs_append_delete c(4) runs_basic)
  show ?thesis
    unfolding append_document_def meta_bytes_ok(1) [OF c(1)]
    by (intro runs_rules runs_the_store runs_store_append d u p)
qed

lemma runs_manifest_store:
  assumes "codec_ok c" "faults w = []"
  shows "\<exists>u. manifest_store c m w = (Inr (), u) \<and> faults u = []"
  by (rule manifest_store_clean [OF assms])

lemma seal_active_fine:
  assumes "fine x" "codec_ok (e_manifest E)" "mf_version (st_manifest (fst x)) = MANIFEST_VERSION"
  shows "\<exists>z. seal_active E x = (Inr (), z) \<and> faults (snd z) = []"
proof (cases "aseg_len (st_active (fst x)) = 0")
  case True
  with assms(1) show ?thesis
    by (cases x) (simp add: seal_active_def bindM_def the_store_def getM_def ret_def fine_def seg_fine_def seg_of_def)
next
  case False
  let ?new = "mf_next_segment_id (st_manifest (fst x))" let ?old = "st_active (fst x)"
  have fl: "faults (snd x) = []" and ex: "fs_exists (snd x) (SegFile (aseg_id ?old))"
    using assms(1) by (simp_all add: fine_def seg_fine_def seg_of_def)
  define w1 where "w1 = put_file (SegFile ?new) (file_of (snd x) (SegFile ?new)) (snd x)"
  have w1: "faults w1 = []" "fs_exists w1 (SegFile (aseg_id ?old))"
    using fl ex by (simp_all add: w1_def fs_exists_def)
  obtain a where op: "seg_open ?new (snd x) = (Inr a, w1)"
    using fl by (simp add: seg_open_def seqM_def bindM_def fs_clean w1_def getM_def ret_def)
  have "seg_fine (?old, w1)" using w1 by (simp add: seg_fine_def)
  from runsD [OF runs_seg_sync this] obtain b w2 where sy: "seg_sync (?old, w1) = (Inr (), (b, w2))" "seg_fine (b, w2)"
    by auto
  then obtain c where c: "fmlookup (files w2) (SegFile (aseg_id b)) = Some c" "faults w2 = []"
    by (auto simp: seg_fine_def fs_exists_def)
  then have se: "seg_seal (?old, w1) = (Inr \<lparr> sseg_id = aseg_id b, sseg_map = c \<rparr>, (b, w2))"
    using sy by (simp add: seg_seal_def seqM_def bindM_def liftM_def sealed_open_def fs_read_def)
  have "\<exists>r z. seal_active E x = (Inr r, z) \<and> faults (snd z) = []"
    using False op se manifest_store_clean [OF assms(2) c(2)]
    by (cases x) (simp add: seal_active_def seal_segment_def bindM_def seqM_def the_store_def on_store_def modM_def getM_def
        on_disk_def zoom_def Let_def store_manifest_def, metis case_prod_conv snd_conv)
  then show ?thesis by auto
qed

text \<open>A good document is always stored when the file system works.\<close>

lemma insert_succeeds_calmly:
  assumes "good_document (st_opts (fst x)) doc" "fine x" "env_ok E"
    and "mf_version (st_manifest (fst x)) = MANIFEST_VERSION"
  shows "\<exists>rp z. store_insert E doc x = (Inr rp, z) \<and> faults (snd z) = []"
proof -
  let ?d = "dd_document_id doc"
  define us where "us = distinct_summaries doc"
  have v: "validate (st_opts (fst x)) doc = Inr us"
    using assms(1) by (simp add: validate_Inr us_def distinct_summaries_def)
  have cm: "codec_ok (e_manifest E)" using assms(3) by (simp add: env_ok_def)
  have "set us \<subseteq> set (all_summaries doc)"
    unfolding us_def distinct_summaries_def by (rule dedup_on_subset)
  from runsD [OF runs_append_document [OF assms(3,1) this] assms(2)] obtain ap y0 where
    ap: "append_document E doc us x = (Inr ap, y0)" "fine y0" by blast
  have sb: "same_but_active x y0" using keepsD [OF keeps_append_document ap(1)] by (simp add: grows_def)
  then have y0: "st_maps (fst y0) = st_maps (fst x)" "st_manifest (fst y0)\<lparr>mf_next_seq := 0\<rparr> = (st_manifest (fst x))\<lparr>mf_next_seq := 0\<rparr>"
    by (simp_all add: same_but_active_def)
  have ver: "mf_version (st_manifest (fst y0)) = MANIFEST_VERSION"
    using arg_cong [OF y0(2), of mf_version] assms(4) by simp
  have rep: "ap_replaces ap \<longleftrightarrow> fmlookup (docs (st_maps (fst y0))) ?d \<noteq> None"
    using ap(1) y0(1) by (auto simp: append_document_def bindM_Inr seqM_Inr the_store_Inr ret_Inr liftM_Inr)
  obtain replaced y1 where y1: "(if ap_replaces ap
      then bindM (remove_from_maps ?d) (\<lambda>removed.
             ret \<lparr> rp_existed = True, rp_split_ids = rd_split_ids removed, rp_summary_ids = rd_summary_ids removed \<rparr>)
      else ret \<lparr> rp_existed = False, rp_split_ids = [], rp_summary_ids = [] \<rparr>) y0 = (Inr replaced, y1)"
    "fine y1" "mf_version (st_manifest (fst y1)) = MANIFEST_VERSION"
  proof (cases "ap_replaces ap")
    case True
    with rep obtain r m where "remove_doc ?d (active_id y0) (st_maps (fst y0)) = Some (r, m)"
      by (metis not_None_eq remove_doc_None surj_pair)
    then have "remove_from_maps ?d y0 = (Inr r, (count_tombstones r ((fst y0)\<lparr>st_maps := m\<rparr>), snd y0))"
      by (simp add: remove_from_maps_Inr)
    with True show thesis
      by (intro that [of "\<lparr> rp_existed = True, rp_split_ids = rd_split_ids r, rp_summary_ids = rd_summary_ids r \<rparr>"
            "(count_tombstones r ((fst y0)\<lparr>st_maps := m\<rparr>), snd y0)"])
        (use ap(2) ver in \<open>simp_all add: bindM_def ret_def count_tombstones_def fine_def seg_of_def\<close>)
  next
    case False
    then show thesis by (intro that [of _ y0]) (use ap(2) ver in \<open>simp_all add: ret_def\<close>)
  qed
  define y2 where "y2 = ((fst y1)\<lparr>st_maps := publish ap ?d (st_maps (fst y1))\<rparr>, snd y1)"
  have "fine y2" using y1(2) by (simp add: y2_def fine_def seg_of_def)
  from runsD [OF runs_on_active [OF runs_seg_flush] this] obtain y3 where
    y3: "on_active seg_flush y2 = (Inr (), y3)" "fine y3" by auto
  have ver3: "mf_version (st_manifest (fst y3)) = MANIFEST_VERSION"
    using y3(1) y1(3) by (auto simp: on_active_Inr y2_def)
  have "\<exists>z. seal_if_needed E y3 = (Inr (), z) \<and> faults (snd z) = []"
    using seal_active_fine [OF y3(2) cm ver3] y3(2)
    by (cases y3) (simp add: seal_if_needed_def bindM_def the_store_def getM_def ret_def fine_def seg_fine_def seg_of_def)
  then obtain z where "seal_if_needed E y3 = (Inr (), z)" "faults (snd z) = []" by blast
  with v ap(1) y1(1) y3(1) show ?thesis
    by (cases x) (simp add: store_insert_def bindM_def seqM_def attempt_def the_store_def getM_def liftM_def
        on_store_def modM_def ret_def y2_def us_def split_def del: if_split)
qed

lemma insert_succeeds:
  assumes "good_document (st_opts (fst x)) doc" "fine x" "env_ok E"
    and "mf_version (st_manifest (fst x)) = MANIFEST_VERSION"
  shows "\<exists>rp z. store_insert E doc x = (Inr rp, z)"
  using insert_succeeds_calmly [OF assms] by blast

end
