(* ===== verification/Samples.thy ===== *)
theory Samples
  imports Store_Get Store_Crash Store_Live
begin

text \<open>
  Concrete states for the witnesses: an empty shard as \<open>open\<close> leaves it, a small document with
  one split and one summary, and the facts that make the hypotheses of the store's properties
  hold of them.
\<close>

section \<open>A document and an empty shard\<close>

definition opts1 :: store_options where
  "opts1 = \<lparr> so_model_id = 7, so_n_embd = 1, so_dtype = F32, so_segment_max_bytes = 100000 \<rparr>"

definition emb1 :: embedding_dto where
  "emb1 = \<lparr> eb_embedding_id = 5, eb_embedding = [3], eb_model_id = 7 \<rparr>"

definition sum1 :: summary_dto where
  "sum1 = \<lparr> ud_summary_id = 30, ud_document_id = 10, ud_split_id = 20, ud_split_sequence_id = 0,
     ud_text_content = [97], ud_token_len = 1, ud_centrality = 0, ud_embedding = Some emb1,
     ud_query_distance = None, ud_rank = None \<rparr>"

definition spl1 :: split_dto where
  "spl1 = \<lparr> sd_split_id = 20, sd_sequence_id = 0, sd_doc_id = 10, sd_text_content = [97, 98],
     sd_token_len = 2, sd_summaries = [sum1], sd_embedding = Some emb1, sd_query_distance = None,
     sd_rank = None \<rparr>"

definition doc1 :: document_dto where
  "doc1 = \<lparr> dd_document_id = 10, dd_document_url = [104], dd_splits = [spl1], dd_summaries = None \<rparr>"

definition man1 :: manifest where
  "man1 = manifest_new 7 1 2"

definition seg1 :: active_segment where
  "seg1 = \<lparr> aseg_id = 0, aseg_buf = [], aseg_len = 0, aseg_first_seq = None, aseg_last_seq = 0,
     aseg_unflushed = False \<rparr>"

definition store1 :: store where
  "store1 = \<lparr> st_opts = opts1, st_manifest = man1, st_sealed = fmempty, st_active = seg1,
     st_maps = empty_maps, st_pending_tombstone = 0 \<rparr>"

definition world1 :: "fault list \<Rightarrow> world" where
  "world1 fs = \<lparr> files = fmupd ManifestFile (meta_bytes sample_manifest man1) (fmupd (SegFile 0) [] fmempty),
     synced = fmempty, faults = fs \<rparr>"

abbreviation x1 :: sstate where
  "x1 \<equiv> (store1, world1 [])"

section \<open>They meet the contract\<close>

lemma sample_codecs [simp]:
  "e_manifest sample_env = sample_manifest" "e_doc sample_env = sample_doc"
  "e_split sample_env = sample_split" "e_summary sample_env = sample_summary"
  "e_delete sample_env = sample_delete"
  by (simp_all add: sample_env_def)

lemma store1_fields:
  "st_opts store1 = opts1" "mf_next_seq (st_manifest store1) = 1" "mf_next_segment_id (st_manifest store1) = 1"
  "mf_version (st_manifest store1) = MANIFEST_VERSION" "st_active store1 = seg1" "aseg_id seg1 = 0"
  "st_maps store1 = empty_maps"
  by (simp_all add: store1_def man1_def manifest_new_def seg1_def)

lemma represents1: "represents sample_env [] [] (store1, world1 fs) []"
proof -
  have "seg_ok (seg_of (store1, world1 fs))" "seg_content (seg_of (store1, world1 fs)) = []"
    by (simp_all add: seg_ok_def seg_of_def seg_content_def store1_def seg1_def world1_def fs_exists_def file_of_def)
  then show ?thesis
    unfolding represents_def sealed_ok_def active_ok_def ids_below_def replays_to_def
    by (auto simp: store1_def man1_def manifest_new_def seg1_def world1_def fs_exists_def split: if_splits)
qed

lemma manifest1: "manifest_load sample_manifest (world1 fs) = Inr (Some man1)"
  using meta_bytes_ok(2) [OF sample_manifest_ok, of man1]
  by (simp add: manifest_load_def world1_def fs_exists_def fs_read_def man1_def manifest_new_def)

lemma durable1: "durable sample_env [] (store1, world1 fs)"
  using manifest1
  by (simp add: durable_def store1_def check_manifest_def man1_def manifest_new_def opts1_def)

lemma fine1: "fine x1"
  by (simp add: fine_def seg_fine_def seg_of_def store1_def seg1_def world1_def fs_exists_def)

lemma snapshot1: "snapshot_load crc (world1 fs) = Inr None"
  by (simp add: snapshot_load_def world1_def fs_exists_def)

lemma good1: "good_document opts1 doc1"
  by (simp add: good_document_def good_embedding_def all_summaries_def doc1_def spl1_def sum1_def emb1_def opts1_def opt_list_def)

lemma consistent1: "doc_consistent doc1" "ids_distinct doc1"
  by (simp_all add: doc_consistent_def ids_distinct_def all_summaries_def doc1_def spl1_def sum1_def opt_list_def)

lemma distinct1: "distinct_summaries doc1 = [sum1]"
  by (simp add: distinct_summaries_def all_summaries_def doc1_def spl1_def opt_list_def)

lemma not_live1: "\<not> is_live (store1, world1 fs) d"
  by (simp add: is_live_def store1_def empty_maps_def)

lemma meta_bytes_sample: "meta_bytes (codec_of f p) m = f m"
  by (simp add: meta_bytes_def codec_of_def)

lemma records1:
  "records_of sample_env (store1, world1 fs) doc1 =
     [summary_record sample_env opts1 sum1 1, split_record sample_env opts1 spl1 2, doc_record sample_env opts1 doc1 3]"
proof -
  have "st_opts store1 = opts1" "mf_next_seq (st_manifest store1) = 1" "dd_splits doc1 = [spl1]"
    by (simp_all add: store1_def man1_def manifest_new_def doc1_def)
  then show ?thesis
    by (simp add: records_of_def insert_records_def insert_bodies_def distinct1 not_live1)
qed

lemma records1_small: "r \<in> set (records_of sample_env (store1, world1 fs) doc1) \<Longrightarrow> frame_len r < 200"
proof -
  have "frame_len (summary_record sample_env opts1 sum1 1) < 200"
    by (simp add: frame_len_def summary_record_def record_of_def sample_summary_def meta_bytes_sample
        summary_meta_of_def sum1_def vector_of_def emb1_def opts1_def)
  moreover have "frame_len (split_record sample_env opts1 spl1 2) < 200"
    by (simp add: frame_len_def split_record_def record_of_def sample_split_def meta_bytes_sample
        split_meta_of_def spl1_def sum1_def vector_of_def emb1_def opts1_def)
  moreover have "frame_len (doc_record sample_env opts1 doc1 3) < 200"
    by (simp add: frame_len_def doc_record_def record_of_def sample_doc_def meta_bytes_sample
        doc_meta_of_def doc1_def spl1_def e_ids_opt_def)
  ultimately show "r \<in> set (records_of sample_env (store1, world1 fs) doc1) \<Longrightarrow> frame_len r < 200"
    by (auto simp: records1)
qed

lemma room1: "room_for [] (records_of sample_env (store1, world1 fs) doc1) (store1, world1 fs)"
proof -
  have s: "frame_len r < 200" if "r \<in> set (records_of sample_env (store1, world1 fs) doc1)" for r
    using that by (rule records1_small)
  then have "list_all frame_ok (records_of sample_env (store1, world1 fs) doc1)"
    by (fastforce simp: list_all_iff frame_ok_def encodable_def frame_len_def)
  moreover have "log_len (records_of sample_env (store1, world1 fs) doc1) < 2 ^ 64"
  proof -
    have "frame_len (summary_record sample_env opts1 sum1 1) < 200" "frame_len (split_record sample_env opts1 spl1 2) < 200"
      "frame_len (doc_record sample_env opts1 doc1 3) < 200"
      by (rule s; simp add: records1)+
    then show ?thesis by (simp add: records1)
  qed
  ultimately show ?thesis
    by (simp add: room_for_def store1_fields) (simp add: records1)
qed

lemma insert1: "\<exists>rp z. store_insert sample_env doc1 x1 = (Inr rp, z)"
  by (rule insert_succeeds) (use good1 fine1 sample_env_ok in \<open>simp_all add: store1_def man1_def manifest_new_def\<close>)

end
