(* ===== verification/Torn_Inserts.thy ===== *)
theory Torn_Inserts
  imports Store_Crash
begin

text \<open>
  What a torn insert leaves behind. Its whole records stay in the log, and replay buffers them;
  a later insert of the same document commits them together with its own records, so an entity
  the new version does not have comes back at the next open.
\<close>

lemma commit_entries_keep:
  "fmlookup (splits m) s \<noteq> None \<Longrightarrow> fmlookup (splits (fst (commit_entries ps (m, ids)))) s \<noteq> None"
proof (induction ps arbitrary: m ids)
  case (Cons p ps)
  then show ?case by (cases p) auto
qed simp

lemma commit_entries_mem:
  "PSplit s d is l \<in> set ps \<Longrightarrow> fmlookup (splits (fst (commit_entries ps (m, ids)))) s \<noteq> None"
proof (induction ps arbitrary: m ids)
  case (Cons p ps)
  show ?case
  proof (cases "p = PSplit s d is l")
    case True
    then show ?thesis by (simp add: commit_entries_keep)
  next
    case False
    with Cons show ?thesis by (cases p) auto
  qed
qed simp

lemma commit_doc_stale:
  assumes "PSplit s (dm_doc_id meta) is l \<in> set p"
  shows "fmlookup (splits (fst (commit_doc meta q l' (m, p)))) s \<noteq> None"
    "fmlookup (docs (fst (commit_doc meta q l' (m, p)))) (dm_doc_id meta) \<noteq> None"
proof -
  obtain mine rest where t: "take_mine (dm_doc_id meta) p = (mine, rest)" by fastforce
  then have mem: "PSplit s (dm_doc_id meta) is l \<in> set mine"
    using assms by (auto simp: take_mine_filter)
  define m1 where "m1 = (if fmlookup (docs m) (dm_doc_id meta) \<noteq> None then drop_doc (dm_doc_id meta) (- 1) m else m)"
  obtain m2 ids where c: "commit_entries mine (m1, []) = (m2, ids)" by fastforce
  have "splits (fst (commit_doc meta q l' (m, p))) = splits m2"
    using t c by (simp add: commit_doc_def Let_def m1_def)
  moreover have "fmlookup (splits m2) s \<noteq> None"
    using commit_entries_mem [OF mem, of m1 "[]"] c by simp
  ultimately show "fmlookup (splits (fst (commit_doc meta q l' (m, p)))) s \<noteq> None" by simp
  show "fmlookup (docs (fst (commit_doc meta q l' (m, p)))) (dm_doc_id meta) \<noteq> None"
    by (simp add: commit_doc_def Let_def split: prod.splits)
qed

text \<open>The live store after the insert, and what the next replay of the same log gives.\<close>

lemma stale_split:
  assumes "env_ok E" "newer q (insert_records E opts False doc us n)"
    and "PSplit s (dd_document_id doc) is l \<in> set p" "s \<notin> sd_split_id ` set (dd_splits doc)"
    and "fmlookup (splits m) s = None"
  shows "fmlookup (splits (publish (appended_of E opts i off False doc us n) (dd_document_id doc) m)) s = None"
    "\<exists>m' p'. replay_log E i q off (insert_records E opts False doc us n) (m, p) = Inr (m', p')
      \<and> fmlookup (splits m') s \<noteq> None"
proof -
  have "fst ` set (ap_splits (appended_of E opts i off False doc us n)) \<subseteq> sd_split_id ` set (dd_splits doc)"
    by (auto simp: appended_of_def Let_def dest: set_zip_leftD)
  then have "s \<notin> fst ` set (ap_splits (appended_of E opts i off False doc us n))" using assms(4) by blast
  with assms(5) show "fmlookup (splits (publish (appended_of E opts i off False doc us n) (dd_document_id doc) m)) s = None"
    by (simp add: publish_def fminserts_lookup_other)
  let ?n2 = "n + word_of_nat (length us)" let ?n3 = "?n2 + word_of_nat (length (dd_splits doc))"
  let ?su = "number n (map (summary_record E opts) us)"
  let ?sp = "number ?n2 (map (split_record E opts) (dd_splits doc))"
  let ?doc = "doc_record E opts doc ?n3"
  have rs: "insert_records E opts False doc us n = (?su @ ?sp) @ [?doc]"
    by (simp add: insert_records_eq Let_def)
  have ent: "list_all (entity_record E) (?su @ ?sp)"
    using entity_numbered [OF assms(1)] by simp
  obtain p1 where p1: "replay_log E i q off (?su @ ?sp) (m, p) = Inr (m, p @ p1)"
    using replay_entities [OF ent] by blast
  have cd: "codec_ok (e_doc E)" using assms(1) by (simp add: env_ok_def)
  have nw: "q < lr_seq ?doc" using assms(2) unfolding rs by simp
  let ?l = "rec_loc i (off + log_len (?su @ ?sp)) ?doc"
  let ?c = "commit_doc (doc_meta_of doc) ?n3 ?l (m, p @ p1)"
  have "replay_record E i q (off + log_len (?su @ ?sp)) ?doc (m, p @ p1) = Inr ?c"
    by (rule replay_record_newer [OF nw]) (simp add: apply_record_def doc_record_def meta_bytes_ok(2) [OF cd])
  then have run: "replay_log E i q off (insert_records E opts False doc us n) (m, p) = Inr ?c"
  proof -
    assume r: "replay_record E i q (off + log_len (?su @ ?sp)) ?doc (m, p @ p1) = Inr ?c"
    have "replay_log E i q (off + log_len (?su @ ?sp)) [?doc] (m, p @ p1) = Inr ?c"
      by (simp only: replay_log.simps r bindR_simps)
    then show ?thesis by (simp only: rs replay_log_append [of E i q off "?su @ ?sp" "[?doc]"] p1 bindR_simps)
  qed
  have "PSplit s (dm_doc_id (doc_meta_of doc)) is l \<in> set (p @ p1)"
    using assms(3) by (simp add: doc_meta_of_def)
  from commit_doc_stale(1) [OF this, of ?n3 ?l m] run
  show "\<exists>m' p'. replay_log E i q off (insert_records E opts False doc us n) (m, p) = Inr (m', p')
      \<and> fmlookup (splits m') s \<noteq> None"
    by (intro exI [of _ "fst ?c"] exI [of _ "snd ?c"]) simp
qed

end
