(* ===== verification/Log_Properties.thy ===== *)
theory Log_Properties
  imports Samples Torn_Inserts
begin

text \<open>
  The properties of the record log: frames, segments, the scan and the replay of a log, the
  manifest, the meta snapshot and the maps, each with a concrete instance.
\<close>

section \<open>Records\<close>

abbreviation rec1 :: log_record where
  "rec1 \<equiv> \<lparr> lr_seq = 5, lr_kind = Doc, lr_dtype = NoVector, lr_meta = [1, 2], lr_vector = [] \<rparr>"

lemma rec1_ok: "frame_ok rec1"
  by (simp add: frame_ok_def encodable_def)

text \<open>
  C29: Decoding the bytes of a buffer that starts with an encoded record returns exactly the
  sequence number, kind, vector type, metadata and vector that were encoded, and the length of
  the record, whatever bytes follow it.
\<close>

theorem record_read_back:
  assumes "encodable meta vector"
  shows "decode crc (encode crc seq kind dtype meta vector @ rest) =
    Inr \<lparr> rv_len = word_of_nat (22 + length meta + length vector), rv_seq = seq,
          rv_kind = kind, rv_dtype = dtype, rv_meta = meta, rv_vector = vector \<rparr>"
  by (rule decode_encode [OF assms])

lemma record_read_back_witness:
  "decode sample_crc (encode sample_crc 9 Split F16 [1, 2, 3] [4, 5] @ [0, 0]) =
    Inr \<lparr> rv_len = 27, rv_seq = 9, rv_kind = Split, rv_dtype = F16, rv_meta = [1, 2, 3], rv_vector = [4, 5] \<rparr>"
  using record_read_back [of "[1, 2, 3]" "[4, 5]" sample_crc 9 Split F16 "[0, 0]"] by (simp add: encodable_def)

text \<open>
  Decoding accepts nothing but records: when it succeeds, the bytes it consumed are the
  encoding of what it returned, so a record has one representation on disk and its checksum
  has been checked.
\<close>

theorem record_is_canonical:
  assumes "decode crc buf = Inr v"
  shows "take (unat (rv_len v)) buf =
      encode crc (rv_seq v) (rv_kind v) (rv_dtype v) (rv_meta v) (rv_vector v)
    \<and> unat (rv_len v) = 22 + length (rv_meta v) + length (rv_vector v)"
  using encode_decode [OF assms] by blast

lemma record_is_canonical_witness:
  "take 24 (frame sample_env rec1 @ [7]) = frame sample_env rec1"
proof -
  have d: "decode sample_crc (frame sample_env rec1 @ [7]) = Inr \<lparr> rv_len = word_of_nat 24, rv_seq = 5,
          rv_kind = Doc, rv_dtype = NoVector, rv_meta = [1, 2], rv_vector = [] \<rparr>"
    using decode_encode [of "[1, 2]" "[]" sample_crc 5 Doc NoVector "[7]"]
    by (simp add: encodable_def frame_def sample_env_def)
  show ?thesis using record_is_canonical [OF d] by (simp add: frame_def sample_env_def)
qed

text \<open>
  A record cut anywhere short of its end decodes to the truncation error, never to a
  corruption error or to a record: the scan can tell a torn write from damage.
\<close>

theorem cut_record_is_truncated:
  assumes "encodable meta vector" "n < 22 + length meta + length vector"
  shows "\<exists>need. decode crc (take n (encode crc seq kind dtype meta vector)) = Inl (Truncated need n)"
  by (rule decode_prefix_truncated [OF assms])

lemma cut_record_is_truncated_witness:
  "\<exists>need. decode sample_crc (take 23 (encode sample_crc 5 Doc NoVector [1, 2] [])) = Inl (Truncated need 23)"
  by (rule cut_record_is_truncated) (simp_all add: encodable_def)

text \<open>
  Vectors survive storage: as f32 exactly, as f16 up to the rounding of each component,
  and the stored bytes have the length the header's vector type says.
\<close>

theorem vector_round_trip:
  "decode_vector of16 (encode_vector to16 v F32) F32 = v
    \<and> decode_vector of16 (encode_vector to16 v F16) F16 = map (\<lambda>x. of16 (to16 x)) v
    \<and> length (encode_vector to16 v d) = vector_bytes d (length v)"
  using decode_encode_f32 decode_encode_f16 length_encode_vector by blast

section \<open>Segments\<close>

text \<open>
  What is appended to the active segment and flushed is read back at the offset the append
  returned, and nothing before it has moved.
\<close>

theorem append_flush_read:
  assumes "seg_append bs q s = (Inr off, t)" "seg_flush t = (Inr x, u)" "seg_ok s"
    and "length (seg_content s) + length bs < 2 ^ 64" "length bs < 2 ^ 32"
  shows "seg_read_at (fst u) (snd u) off (word_of_nat (length bs)) = Inr bs
    \<and> file_of (snd u) (SegFile (aseg_id (fst u))) = seg_content s @ bs"
proof -
  note A = seg_append_ok [OF assms(1,3,4)]
  note F = seg_flush_Inr [OF assms(2) A(1)]
  have c: "seg_content u = seg_content s @ bs @ []"
    using F(2) seg_append_Inr(2) [OF assms(1)] by simp
  have "seg_read_at (fst u) (snd u) off (word_of_nat (length bs)) = Inr bs"
    by (rule seg_read_back [OF c F(3) A(2)]) (rule unat_u32_of_nat [OF assms(5)])
  moreover have "file_of (snd u) (SegFile (aseg_id (fst u))) = seg_content s @ bs"
    using c F(3) file_of_content [of u] by simp
  ultimately show ?thesis ..
qed

lemma append_flush_read_witness:
  "\<exists>off t u. seg_append [4, 5] 1 (seg1, world1 []) = (Inr off, t) \<and> seg_flush t = (Inr (), u)
     \<and> seg_read_at (fst u) (snd u) off 2 = Inr [4, 5]"
proof -
  have fn: "seg_fine (seg1, world1 [])"
    using fine1 by (simp add: fine_def seg_of_def store1_def)
  from runsD [OF runs_seg_append fn, of "[4, 5]" 1] obtain off t where
    a: "seg_append [4, 5] 1 (seg1, world1 []) = (Inr off, t)" "seg_fine t" by blast
  from runsD [OF runs_seg_flush a(2)] obtain u where f: "seg_flush t = (Inr (), u)" by auto
  have ok: "seg_ok (seg1, world1 [])" "seg_content (seg1, world1 []) = []"
    by (simp_all add: seg_ok_def seg_content_def seg1_def world1_def fs_exists_def file_of_def)
  from append_flush_read [OF a(1) f ok(1)] ok(2)
  have "seg_read_at (fst u) (snd u) off 2 = Inr [4, 5]" by simp
  with a(1) f show ?thesis by blast
qed

text \<open>
  Truncating a segment, with bytes still in the writer's buffer or not, leaves exactly the
  requested number of leading bytes, in the file and in the segment's own length.
\<close>

theorem truncate_keeps_prefix:
  assumes "seg_truncate_to len s = (Inr x, t)" "seg_ok s" "seg_content s = keep @ rest" "unat len = length keep"
  shows "file_of (snd t) (SegFile (aseg_id (fst t))) = keep \<and> aseg_len (fst t) = len \<and> seg_ok t"
proof -
  have "\<not> aseg_unflushed (fst s) \<longrightarrow> aseg_buf (fst s) = []" using assms(2) by (simp add: seg_ok_def)
  note T = seg_truncate_Inr [OF assms(1) this assms(3,4)]
  show ?thesis using T(1,2,3,5) file_of_content [of t] by simp
qed

lemma truncate_keeps_prefix_witness:
  "let s = (seg1\<lparr>aseg_buf := [1, 2, 3], aseg_len := 3, aseg_unflushed := True\<rparr>, world1 []) in
   \<exists>t. seg_truncate_to 2 s = (Inr (), t) \<and> file_of (snd t) (SegFile (aseg_id (fst t))) = [1, 2]"
proof -
  let ?s = "(seg1\<lparr>aseg_buf := [1, 2, 3], aseg_len := 3, aseg_unflushed := True\<rparr>, world1 [])"
  have "\<exists>t. seg_truncate_to 2 ?s = (Inr (), t)"
    by (simp add: seg_truncate_to_def seg_flush_def flush_buf_def next_fault_def seqM_def bindM_def
        on_world_def zoom_def modM_def fs_set_len_def fs_check_def io_clean world1_def)
  then obtain t where t: "seg_truncate_to 2 ?s = (Inr (), t)" ..
  have "seg_ok ?s" "seg_content ?s = [1, 2] @ [3]"
    by (simp_all add: seg_ok_def seg_content_def seg1_def world1_def fs_exists_def file_of_def)
  from truncate_keeps_prefix [OF t this]
  have "file_of (snd t) (SegFile (aseg_id (fst t))) = [1, 2]" by simp
  with t show ?thesis unfolding Let_def by blast
qed

section \<open>Scanning and replaying\<close>

text \<open>
  Scanning a segment that holds whole records applies exactly those newer than the
  snapshot, in order, at the locations where they lie, and reports no torn tail.
\<close>

theorem scan_replays_records:
  assumes "list_all frame_ok rs" "replay_log E i q 0 rs (m, []) = Inr (m', p)"
  shows "scan_segment E (log_bytes E rs) i q m torn_allowed = Inr (scan_stats q 0 rs empty_scan, m')"
  by (rule scan_segment_frames [OF assms])

lemma del1_replay:
  "replay_log sample_env 0 0 0 [delete_record sample_env opts1 10 1] (empty_maps, []) = Inr (drop_doc 10 0 empty_maps, [])"
  using replay_delete [OF sample_env_ok, of 0 1 0 0 opts1 10 empty_maps "[]" 0] by simp

lemma del1_ok: "frame_ok (delete_record sample_env opts1 10 1)"
  by (simp add: frame_ok_def encodable_def delete_record_def sample_delete_def meta_bytes_sample record_of_def)

lemma scan_replays_records_witness:
  "\<exists>scan. scan_segment sample_env (log_bytes sample_env [delete_record sample_env opts1 10 1]) 0 0 empty_maps False
     = Inr (scan, drop_doc 10 0 empty_maps)"
  using scan_replays_records [OF _ del1_replay, of False] del1_ok by simp

text \<open>
  When the segment ends in a record cut short, the active segment's scan keeps every whole
  record, reports the offset where the cut record starts, and does not fail; the same bytes in
  a sealed segment are reported as corruption at that offset.
\<close>

theorem scan_stops_at_torn_tail:
  assumes "list_all frame_ok rs" "replay_log E i q 0 rs (m, []) = Inr (m', p)"
    and "frame_ok r" "0 < k" "k < frame_len r"
  shows "scan_segment E (log_bytes E rs @ take k (frame E r)) i q m True =
      Inr (scan_stats q 0 rs empty_scan\<lparr>sc_torn_at := Some (word_of_nat (log_len rs))\<rparr>, m')
    \<and> (\<exists>e. scan_segment E (log_bytes E rs @ take k (frame E r)) i q m False =
      Inl (CorruptSegment i (log_len rs) e))"
  using scan_segment_torn [OF assms] by blast

lemma scan_stops_at_torn_tail_witness:
  "\<exists>scan. scan_segment sample_env (log_bytes sample_env [delete_record sample_env opts1 10 1] @ take 9 (frame sample_env rec1))
       0 0 empty_maps True = Inr (scan, drop_doc 10 0 empty_maps)"
  using scan_stops_at_torn_tail [OF _ del1_replay rec1_ok, of 9] del1_ok by (simp add: frame_len_def)

text \<open>
  C26: Replaying the records an insert writes gives the maps the insert itself publishes,
  whether the document is new or replaces one, provided nothing older of that document is
  still buffered.
\<close>

theorem insert_records_replay:
  assumes "env_ok E" "doc_consistent doc" "set us \<subseteq> set (all_summaries doc)"
    and "newer q (insert_records E opts (fmlookup (docs m) (dd_document_id doc) \<noteq> None) doc us n)"
    and "\<forall>x \<in> set p. pending_doc_id x \<noteq> dd_document_id doc"
  shows "replay_log E i q off (insert_records E opts (fmlookup (docs m) (dd_document_id doc) \<noteq> None) doc us n) (m, p) =
    Inr (publish (appended_of E opts i off (fmlookup (docs m) (dd_document_id doc) \<noteq> None) doc us n)
           (dd_document_id doc) (drop_doc (dd_document_id doc) i m), p)"
  using replay_insert [OF assms(1-3), of q opts m n p i off i] assms(4,5) by (simp add: filter_id_conv)

lemma insert_records_replay_witness:
  "\<exists>m'. replay_log sample_env 0 0 0 (insert_records sample_env opts1 False doc1 [sum1] 1) (empty_maps, []) = Inr (m', [])"
proof -
  have "newer 0 (insert_records sample_env opts1 False doc1 [sum1] 1)"
    by (simp add: insert_records_def insert_bodies_def doc1_def newer_def summary_record_def split_record_def doc_record_def)
  then have n: "newer 0 (insert_records sample_env opts1 (fmlookup (docs empty_maps) (dd_document_id doc1) \<noteq> None) doc1 [sum1] 1)"
    by (simp add: empty_maps_def)
  have s: "set [sum1] \<subseteq> set (all_summaries doc1)" by (simp add: all_summaries_def doc1_def spl1_def opt_list_def)
  from insert_records_replay [OF sample_env_ok consistent1(1) s n, of "[]" 0 0] show ?thesis
    by (simp add: empty_maps_def)
qed

text \<open>
  An insert of a new document that is cut anywhere before its last record replays as
  nothing: the maps are those before it.
\<close>

theorem torn_insert_is_nothing:
  assumes "env_ok E" "n < length (insert_records E opts False doc us seq)"
  shows "\<exists>p'. replay_log E i q off (take n (insert_records E opts False doc us seq)) (m, p) = Inr (m, p @ p')"
  by (rule torn_insert_nothing [OF assms])

lemma torn_insert_is_nothing_witness:
  "\<exists>p'. replay_log sample_env 0 0 0 (take 2 (insert_records sample_env opts1 False doc1 [sum1] 1)) (empty_maps, [])
     = Inr (empty_maps, p')"
  using torn_insert_is_nothing [OF sample_env_ok, of 2 opts1 doc1 "[sum1]" 1 0 0 0 empty_maps "[]"]
  by (simp add: insert_records_def insert_bodies_def doc1_def)

text \<open>
  C27: An insert that replaces a document, cut anywhere after its first record, replays as the
  deletion of the old version: the document is gone, though the library's overview says that a
  torn insert replays as if it never happened.
\<close>

theorem torn_replacement_deletes:
  assumes "env_ok E" "0 < n" "n < length (insert_records E opts True doc us seq)" "q < seq"
  shows "\<exists>p'. replay_log E i q off (take n (insert_records E opts True doc us seq)) (m, p)
    = Inr (drop_doc (dd_document_id doc) seg m, p')"
  by (rule torn_replacement_loses [OF assms])

lemma torn_replacement_deletes_witness:
  "\<exists>p'. replay_log sample_env 0 0 0 (take 2 (insert_records sample_env opts1 True doc1 [sum1] 1)) (empty_maps, [])
     = Inr (drop_doc 10 0 empty_maps, p')"
  using torn_replacement_deletes [OF sample_env_ok, of 2 opts1 doc1 "[sum1]" 1 0 0 0 empty_maps "[]" 0]
  by (simp add: insert_records_def insert_bodies_def doc1_def)

text \<open>
  C28: The split of a torn insert comes back: when the document is inserted again without it,
  the maps of the running store do not have the split, but replaying the log commits it with
  the new version, as an entity no document lists.
\<close>

theorem torn_split_comes_back:
  assumes "env_ok E" "newer q (insert_records E opts False doc us n)"
    and "PSplit s (dd_document_id doc) is l \<in> set p" "s \<notin> sd_split_id ` set (dd_splits doc)"
    and "fmlookup (splits m) s = None"
  shows "fmlookup (splits (publish (appended_of E opts i off False doc us n) (dd_document_id doc) m)) s = None
    \<and> (\<exists>m' p'. replay_log E i q off (insert_records E opts False doc us n) (m, p) = Inr (m', p')
      \<and> fmlookup (splits m') s \<noteq> None)"
  using stale_split [OF assms] by blast

lemma torn_split_comes_back_witness:
  "let doc = doc1\<lparr>dd_splits := []\<rparr> in
   \<exists>p m' p'. replay_log sample_env 0 0 0 [split_record sample_env opts1 spl1 1] (empty_maps, []) = Inr (empty_maps, p)
     \<and> replay_log sample_env 0 0 100 (insert_records sample_env opts1 False doc [] 2) (empty_maps, p) = Inr (m', p')
     \<and> fmlookup (splits m') 20 \<noteq> None"
proof -
  let ?doc = "doc1\<lparr>dd_splits := []\<rparr>"
  have nw: "newer 0 (number 1 (map (split_record sample_env opts1) [spl1]))" by (simp add: newer_def split_record_def)
  have r: "replay_log sample_env 0 0 0 [split_record sample_env opts1 spl1 1] (empty_maps, [])
      = Inr (empty_maps, [pend_split spl1 (rec_loc 0 0 (split_record sample_env opts1 spl1 1))])"
    using replay_splits [OF sample_env_ok nw, of 0 0 empty_maps "[]"] by simp
  have n2: "newer 0 (insert_records sample_env opts1 False ?doc [] 2)"
    by (simp add: insert_records_def insert_bodies_def newer_def doc_record_def)
  have "PSplit 20 (dd_document_id ?doc) [30] (rec_loc 0 0 (split_record sample_env opts1 spl1 1))
      \<in> set [pend_split spl1 (rec_loc 0 0 (split_record sample_env opts1 spl1 1))]"
    by (simp add: pend_split_def spl1_def sum1_def doc1_def)
  from torn_split_comes_back [OF sample_env_ok n2 this, of empty_maps 0 100] r show ?thesis
    by (simp add: Let_def empty_maps_def)
qed

section \<open>The manifest and the snapshot\<close>

text \<open>
  Storing the manifest is atomic: whatever fails on the way, a later load sees the manifest
  that was there or the new one, and when the store succeeds it sees the new one. No other file
  of the directory changes but the temporary one.
\<close>

theorem manifest_store_is_atomic:
  assumes "manifest_store c m w = (r, u)" "codec_ok c" "mf_version m = MANIFEST_VERSION"
  shows "(manifest_load c u = manifest_load c w \<or> manifest_load c u = Inr (Some m))
    \<and> (r = Inr () \<longrightarrow> manifest_load c u = Inr (Some m))
    \<and> (\<forall>g. g \<noteq> ManifestTmp \<longrightarrow> g \<noteq> ManifestFile \<longrightarrow> fmlookup (files u) g = fmlookup (files w) g)"
  using manifest_store_any [OF assms] manifest_store_load [OF _ assms(2,3)] assms(1) by blast

lemma manifest_store_is_atomic_witness:
  "\<exists>u. manifest_store sample_manifest (man1\<lparr>mf_active := 3\<rparr>) (world1 []) = (Inr (), u)
     \<and> manifest_load sample_manifest u = Inr (Some (man1\<lparr>mf_active := 3\<rparr>))"
proof -
  obtain u where u: "manifest_store sample_manifest (man1\<lparr>mf_active := 3\<rparr>) (world1 []) = (Inr (), u)"
    using manifest_store_clean [OF sample_manifest_ok, of "world1 []"] by (auto simp: world1_def)
  from manifest_store_is_atomic [OF u sample_manifest_ok] u show ?thesis by (simp add: man1_def manifest_new_def)
qed

text \<open>
  C30: The meta snapshot is atomic and faithful: after a store that succeeds a load returns the
  same maps and sequence number, in whatever order the maps were written; after one that fails
  it returns what it returned before, or already the new snapshot.
\<close>

theorem snapshot_store_is_atomic:
  assumes "snapshot_store crc order m seq w = (r, u)" "order_ok order" "maps_fit m"
  shows "(snapshot_load crc u = snapshot_load crc w \<or> snapshot_load crc u = Inr (Some (m, seq)))
    \<and> (r = Inr () \<longrightarrow> snapshot_load crc u = Inr (Some (m, seq)))"
  using snapshot_store_any [OF assms] snapshot_store_load [OF _ assms(2,3)] assms(1) by blast

lemma maps_fit_empty: "maps_fit empty_maps"
  by (simp add: maps_fit_def empty_maps_def fcard_fempty)

lemma snapshot_store_is_atomic_witness:
  "snapshot_load sample_crc (snd (snapshot_store sample_crc (e_order sample_env) empty_maps 4 (world1 [])))
     = Inr (Some (empty_maps, 4))"
proof -
  obtain r u where u: "snapshot_store sample_crc (e_order sample_env) empty_maps 4 (world1 []) = (r, u)" by fastforce
  have "r = Inr ()"
    using u by (simp add: snapshot_store_def write_atomically_def seqM_def bindM_def fs_write_def fs_check_def
        fs_sync_def fs_rename_def fsync_dir_def attempt_def io_clean world1_def ret_def)
  moreover have "order_ok (e_order sample_env)" using sample_env_ok by (simp add: env_ok_def)
  ultimately show ?thesis using snapshot_store_is_atomic [OF u _ maps_fit_empty] u by simp
qed

text \<open>
  A snapshot file whose trailing checksum does not match its body is refused, so a damaged
  snapshot is never taken for the maps.
\<close>

theorem damaged_snapshot_refused:
  assumes "4 \<le> length bs" "u32_from_le (drop (length bs - 4) bs) \<noteq> crc (take (length bs - 4) bs)"
    and "fmlookup (files w) SnapFile = Some bs"
  shows "snapshot_load crc w = Inl (SnapChecksum (u32_from_le (drop (length bs - 4) bs)) (crc (take (length bs - 4) bs)))"
  using snapshot_parse_bad_crc [of bs crc, OF assms(1,2)] assms(3)
  by (simp add: snapshot_load_def fs_exists_def fs_read_def)

lemma damaged_snapshot_refused_witness:
  "\<exists>e. snapshot_load sample_crc (put_file SnapFile [9, 0, 0, 0, 0] (world1 [])) = Inl e"
  using damaged_snapshot_refused [of "[9, 0, 0, 0, 0]" sample_crc "put_file SnapFile [9, 0, 0, 0, 0] (world1 [])"]
  by (simp add: sample_crc_def u32_from_le_def)

section \<open>The maps\<close>

text \<open>
  Removing a document takes it and everything it owns out of the maps, reports exactly the
  splits and summaries that were there, and accounts every byte of their records to the sealed
  or the active segments.
\<close>

theorem remove_doc_removes:
  assumes "fmlookup (docs m) d = Some e" "remove_doc d seg m = Some (r, m')"
  shows "m' = \<lparr> docs = fmdrop d (docs m), splits = fmremoves (de_split_ids e) (splits m),
            summaries = fmremoves (owned_summary_ids e) (summaries m) \<rparr>
    \<and> rd_split_ids r = live_ids (splits m) (de_split_ids e)
    \<and> rd_summary_ids r = live_ids (summaries m) (owned_summary_ids e)
    \<and> rd_sealed_bytes r + rd_active_bytes r = ucast (loc_len (de_loc e))
       + removed_bytes se_loc (splits m) (live_ids (splits m) (de_split_ids e))
       + removed_bytes ue_loc (summaries m) (live_ids (summaries m) (owned_summary_ids e))"
  by (rule remove_doc_spec [OF assms(1), of seg]) (use assms(2) in simp)

definition maps1 :: maps where
  "maps1 = \<lparr> docs = fmupd 10 \<lparr> de_url = [], de_split_ids = [20, 21], de_summary_ids = None, de_extra_summary_ids = [],
       de_seq = 1, de_loc = \<lparr> loc_segment = 0, loc_offset = 0, loc_len = 30 \<rparr> \<rparr> fmempty,
     splits = fmupd 20 \<lparr> se_doc_id = 10, se_loc = \<lparr> loc_segment = 1, loc_offset = 0, loc_len = 40 \<rparr> \<rparr> fmempty,
     summaries = fmempty \<rparr>"

lemma remove_doc_removes_witness:
  "\<exists>r m'. remove_doc 10 1 maps1 = Some (r, m') \<and> rd_split_ids r = [20] \<and> rd_sealed_bytes r + rd_active_bytes r = 70"
proof -
  let ?e = "\<lparr> de_url = [], de_split_ids = [20, 21], de_summary_ids = None, de_extra_summary_ids = [],
       de_seq = 1, de_loc = \<lparr> loc_segment = 0, loc_offset = 0, loc_len = 30 \<rparr> \<rparr>"
  have e: "fmlookup (docs maps1) 10 = Some ?e" by (simp add: maps1_def)
  then have "remove_doc 10 1 maps1 \<noteq> None" by (simp add: remove_doc_None)
  then obtain r m' where r: "remove_doc 10 1 maps1 = Some (r, m')" by auto
  note R = remove_doc_removes [OF e r]
  have l: "live_ids (splits maps1) [20, 21] = [20]" "live_ids (summaries maps1) [] = []"
    by (simp_all add: maps1_def live_ids_Cons)
  have "rd_split_ids r = [20]" using R l(1) by simp
  moreover have "rd_sealed_bytes r + rd_active_bytes r = 70"
    using R l by (simp add: removed_bytes_def owned_summary_ids_def opt_list_def) (simp add: maps1_def)
  ultimately show ?thesis using r by blast
qed

text \<open>Removing documents keeps the agreement of the membership lists with the entity maps.\<close>

theorem remove_doc_keeps_ownership:
  assumes "owns m"
  shows "owns (drop_doc d seg m)"
  by (rule owns_drop_doc [OF assms])

lemma remove_doc_keeps_ownership_witness: "owns (drop_doc 10 1 empty_maps)"
  by (rule remove_doc_keeps_ownership [OF owns_empty])

end
