(* ===== verification/Store_Frame.thy ===== *)
theory Store_Frame
  imports Store_Crash Store_Live
begin

text \<open>
  What the operations other than \<open>snapshot_meta\<close> leave alone, whatever their outcome: the
  published snapshot, the sequence number the manifest gives it and the options. A file system
  without faults stays so.
\<close>

section \<open>Worlds\<close>

definition calm :: "world \<Rightarrow> world \<Rightarrow> bool" where
  "calm v w \<longleftrightarrow> fmlookup (files w) SnapFile = fmlookup (files v) SnapFile \<and> (faults v = [] \<longrightarrow> faults w = [])"

interpretation cw: step_relation calm
  by unfold_locales (simp_all add: calm_def)

definition calm_seg :: "seg_state \<Rightarrow> seg_state \<Rightarrow> bool" where
  "calm_seg s t \<longleftrightarrow> calm (snd s) (snd t)"

interpretation cs: step_relation calm_seg
  by unfold_locales (auto simp: calm_seg_def calm_def)

definition calm_store :: "sstate \<Rightarrow> sstate \<Rightarrow> bool" where
  "calm_store x y \<longleftrightarrow> calm (snd x) (snd y) \<and> st_opts (fst y) = st_opts (fst x)
     \<and> mf_snapshot_seq (st_manifest (fst y)) = mf_snapshot_seq (st_manifest (fst x))"

interpretation ct: step_relation calm_store
  by unfold_locales (auto simp: calm_store_def calm_def)

lemma next_fault_calm: "next_fault w = (f, v) \<Longrightarrow> calm w v"
  by (auto simp: next_fault_def calm_def split: list.splits)

lemma calm_io:
  assumes "\<And>w. calm w (snd (ok w))" "\<And>k w. calm w (part k w)"
  shows "keeps calm (io ok part)"
proof (rule keepsI)
  fix w r u assume run: "io ok part w = (r, u)"
  obtain f v where f: "next_fault w = (f, v)" by fastforce
  have "calm v u"
    using run f assms(1) [of v] assms(2) by (cases f) (auto simp: io_def cw.rel_refl)
  with next_fault_calm [OF f] show "calm w u" by (rule cw.rel_trans)
qed

lemma calm_fs:
  "keeps calm fs_check" "keeps calm (fs_sync f)" "keeps calm fsync_dir"
  "f \<noteq> SnapFile \<Longrightarrow> keeps calm (fs_write f bs)" "f \<noteq> SnapFile \<Longrightarrow> keeps calm (fs_append f bs)"
  "f \<noteq> SnapFile \<Longrightarrow> keeps calm (fs_set_len f n)" "f \<noteq> SnapFile \<Longrightarrow> keeps calm (fs_create f)"
  "f \<noteq> SnapFile \<Longrightarrow> keeps calm (fs_remove f)"
  "f \<noteq> SnapFile \<Longrightarrow> g \<noteq> SnapFile \<Longrightarrow> keeps calm (fs_rename f g)"
proof -
  show c: "keeps calm fs_check" unfolding fs_check_def by (rule calm_io) (simp_all add: calm_def)
  show "keeps calm fsync_dir" unfolding fsync_dir_def by (intro cw.keeps_rules c)
qed (unfold fs_sync_def fs_write_def fs_append_def fs_set_len_def fs_create_def fs_remove_def fs_rename_def,
  (rule calm_io; simp add: calm_def split: option.splits)+)

lemma calm_write_atomically: "f \<noteq> SnapFile \<Longrightarrow> t \<noteq> SnapFile \<Longrightarrow> keeps calm (write_atomically t f bs)"
  unfolding write_atomically_def by (intro cw.keeps_rules calm_fs)

lemma calm_manifest_store: "keeps calm (manifest_store c m)"
  unfolding manifest_store_def by (intro cw.keeps_rules calm_write_atomically) simp_all

lemma calm_seg_open: "keeps calm (seg_open i)"
  unfolding seg_open_def by (intro cw.keeps_rules calm_fs) simp

section \<open>Segments\<close>

lemma calm_on_world: "keeps calm m \<Longrightarrow> keeps calm_seg (on_world m)"
  by (rule keepsI) (auto simp: on_world_def zoom_def calm_seg_def dest: keepsD split: prod.splits)

lemma calm_flush_buf: "keeps calm_seg flush_buf"
proof (rule keepsI)
  fix s r t assume run: "flush_buf s = (r, t)"
  obtain a w where s: "s = (a, w)" by fastforce
  obtain f v where f: "next_fault w = (f, v)" by fastforce
  have "calm v (snd t) \<or> t = s"
    using run f by (cases f) (auto simp: s flush_buf_def calm_def split: if_splits)
  with cw.rel_trans [OF next_fault_calm [OF f]] show "calm_seg s t"
    by (auto simp: calm_seg_def s cw.rel_refl)
qed

lemma calm_modM: "(\<And>a w. snd (g (a, w)) = w) \<Longrightarrow> keeps calm_seg (modM g)"
  by (rule keepsI) (auto simp: modM_def calm_seg_def cw.rel_refl)

lemma keeps_split: "(\<And>a w. keeps R (\<lambda>s. f a w s)) \<Longrightarrow> keeps R (\<lambda>(a, w). f a w (a, w))"
  by (auto simp: keeps_def)

lemma keeps_branch: "keeps R m \<Longrightarrow> keeps R k \<Longrightarrow> keeps R (\<lambda>s. if b then m s else k s)"
  by (auto simp: keeps_def)

lemma calm_buffer_push: "keeps calm_seg (buffer_push bs)"
  unfolding buffer_push_def by (rule calm_modM) simp

lemma calm_write_all: "keeps calm_seg (write_all bs)"
  unfolding write_all_def Let_def
  by (intro keeps_split keeps_branch cs.keeps_seq cs.keeps_if cs.keeps_ret calm_flush_buf calm_on_world
      calm_fs calm_buffer_push) simp

lemma calm_seg_ops:
  "keeps calm_seg seg_flush" "keeps calm_seg seg_sync" "keeps calm_seg seg_seal"
  "keeps calm_seg (seg_append bs q)" "keeps calm_seg (seg_truncate_to n)"
proof -
  have r: "keeps calm_seg (\<lambda>s. (Inr (), s))" by (rule cs.keeps_read)
  show f: "keeps calm_seg seg_flush"
    unfolding seg_flush_def
    by (rule keepsI) (auto simp: calm_seg_def cw.rel_refl modM_def seqM_def bindM_def
        dest: calm_flush_buf [THEN keepsD] split: if_splits prod.splits sum.splits)
  show s: "keeps calm_seg seg_sync"
    unfolding seg_sync_def by (intro cs.keeps_rules keeps_split f calm_on_world calm_fs)
  show "keeps calm_seg seg_seal"
    unfolding seg_seal_def by (intro cs.keeps_rules keeps_split s)
  show "keeps calm_seg (seg_append bs q)"
    unfolding seg_append_def by (intro cs.keeps_rules calm_write_all calm_modM) auto
  show "keeps calm_seg (seg_truncate_to n)"
    unfolding seg_truncate_to_def by (intro cs.keeps_rules keeps_split f calm_on_world calm_fs calm_modM) auto
qed

section \<open>The store\<close>

lemma calm_on_active: "keeps calm_seg m \<Longrightarrow> keeps calm_store (on_active m)"
  by (rule keepsI) (auto simp: on_active_def zoom_def calm_store_def calm_seg_def dest!: keepsD split: prod.splits)

lemma calm_on_disk: "keeps calm m \<Longrightarrow> keeps calm_store (on_disk m)"
  by (rule keepsI) (auto simp: on_disk_def zoom_def calm_store_def dest: keepsD split: prod.splits)

lemma calm_on_store:
  "(\<And>s. st_opts (g s) = st_opts s) \<Longrightarrow> (\<And>s. mf_snapshot_seq (st_manifest (g s)) = mf_snapshot_seq (st_manifest s))
    \<Longrightarrow> keeps calm_store (on_store g)"
  by (rule keepsI) (auto simp: on_store_def modM_def calm_store_def cw.rel_refl)

lemma calm_the_store: "keeps calm_store (the_store g)"
  unfolding the_store_def by (rule ct.keeps_getM)

lemma calm_next_seq: "keeps calm_store next_seq"
  unfolding next_seq_def by (intro ct.keeps_rules calm_the_store calm_on_store) simp_all

lemma calm_store_append: "keeps calm_store (store_append E kind meta vector)"
  unfolding store_append_def Let_def
  by (intro ct.keeps_rules calm_the_store calm_next_seq calm_on_active calm_seg_ops)

lemma calm_append_delete: "keeps calm_store (append_delete E d)"
  unfolding append_delete_def Let_def
  by (intro ct.keeps_rules calm_next_seq calm_on_active calm_seg_ops)

lemma calm_append_document: "keeps calm_store (append_document E doc us)"
  unfolding append_document_def append_summary_def append_split_def
  by (intro ct.keeps_rules calm_the_store calm_append_delete calm_store_append)

lemma calm_seal_old: "keeps calm (seal_segment old)"
proof (rule keepsI)
  fix w r v assume run: "seal_segment old w = (r, v)"
  obtain p s where s: "seg_seal (old, w) = (p, s)" by (cases "seg_seal (old, w)") blast
  with calm_seg_ops(3) have c: "calm_seg (old, w) s" by (rule keepsD)
  show "calm w v"
  proof (cases p)
    case (Inl e)
    obtain q t where f: "flush_buf s = (q, t)" by (cases "flush_buf s") blast
    with calm_flush_buf have "calm_seg s t" by (rule keepsD)
    with c have "calm_seg (old, w) t" by (rule cs.rel_trans)
    with run s Inl f show ?thesis by (simp add: seal_segment_def drop_writer_def calm_seg_def)
  next
    case (Inr z)
    with run s c show ?thesis by (cases s) (simp add: seal_segment_def calm_seg_def)
  qed
qed

lemma calm_store_manifest: "keeps calm_store (store_manifest E)"
  unfolding store_manifest_def
  by (rule keepsI) (auto dest: keepsD [OF calm_on_disk [OF calm_manifest_store]])

lemma calm_seal_active: "keeps calm_store (seal_active E)"
  unfolding seal_active_def Let_def
  by (intro ct.keeps_rules calm_the_store calm_on_store calm_on_disk calm_seg_open calm_seal_old
      calm_store_manifest) simp_all

lemma calm_seal_if_needed: "keeps calm_store (seal_if_needed E)"
  unfolding seal_if_needed_def by (intro ct.keeps_rules calm_the_store calm_seal_active)

lemma calm_remove_from_maps: "keeps calm_store (remove_from_maps d)"
  unfolding remove_from_maps_def
proof (intro ct.keeps_bind calm_the_store)
  show "keeps calm_store (case r of None \<Rightarrow> fail Panicked
     | Some (removed, m) \<Rightarrow> seqM (on_store (\<lambda>s. count_tombstones removed (s\<lparr>st_maps := m\<rparr>))) (ret removed))" for r
    by (cases r) (auto simp: count_tombstones_def intro!: ct.keeps_rules calm_on_store)
qed

lemma calm_rewind: "keeps calm_store (rewind n q e)"
  unfolding rewind_def
proof (intro ct.keeps_rules calm_on_active calm_seg_ops)
  show "keeps calm_store (case r of Inl rewind_err \<Rightarrow> fail (RewindFailed e rewind_err)
     | Inr x \<Rightarrow> seqM (on_store (\<lambda>s. s\<lparr>st_manifest := (st_manifest s)\<lparr>mf_next_seq := q\<rparr>\<rparr>)) (fail e))" for r
    by (cases r) (auto intro!: ct.keeps_rules calm_on_store)
qed

lemma calm_insert: "keeps calm_store (store_insert E doc)"
  unfolding store_insert_def
proof (intro ct.keeps_bind ct.keeps_attempt calm_the_store ct.keeps_liftM calm_append_document)
  fix n q us r
  show "keeps calm_store (case r of Inl e \<Rightarrow> rewind n q e
     | Inr ap \<Rightarrow>
         bindM (if ap_replaces ap
                then bindM (remove_from_maps (dd_document_id doc)) (\<lambda>removed.
                       ret \<lparr> rp_existed = True, rp_split_ids = rd_split_ids removed,
                             rp_summary_ids = rd_summary_ids removed \<rparr>)
                else ret \<lparr> rp_existed = False, rp_split_ids = [], rp_summary_ids = [] \<rparr>) (\<lambda>replaced.
         seqM (on_store (\<lambda>s. s\<lparr>st_maps := publish ap (dd_document_id doc) (st_maps s)\<rparr>))
        (seqM (on_active seg_flush)
        (seqM (seal_if_needed E)
        (ret (retain_removed doc us replaced))))))"
    by (cases r) (auto intro!: ct.keeps_rules calm_rewind calm_remove_from_maps calm_on_store calm_on_active
        calm_seg_ops calm_seal_if_needed)
qed

lemma calm_delete: "keeps calm_store (store_delete E d)"
  unfolding store_delete_def
  by (intro ct.keeps_rules calm_the_store calm_append_delete calm_remove_from_maps calm_on_active
      calm_seg_ops calm_seal_if_needed)

lemma calm_fsync: "keeps calm_store store_fsync"
  unfolding store_fsync_def by (intro calm_on_active calm_seg_ops)

end
