(* ===== verification/Store_History.thy ===== *)
theory Store_History
  imports Store_Frame Store_Get
begin

text \<open>
  Histories of a store: what a directory goes through from its first open on, as a step
  relation over the public operations, and the invariant of every state it reaches.
\<close>

section \<open>The first open\<close>

lemma open_created:
  assumes "store_open E opts w = (Inr s, w')" "manifest_load (e_manifest E) w = Inr None" "env_ok E"
    and "check_manifest opts (manifest_new (so_model_id opts) (ucast (so_n_embd opts)) (dtype_u8 (so_dtype opts))) = Inr ()"
  obtains v where
    "store_open E opts v = (Inr s, w')"
    "manifest_load (e_manifest E) v = Inr (Some (manifest_new (so_model_id opts) (ucast (so_n_embd opts)) (dtype_u8 (so_dtype opts))))"
    "\<And>g. g \<noteq> ManifestTmp \<Longrightarrow> g \<noteq> ManifestFile \<Longrightarrow> fmlookup (files v) g = fmlookup (files w) g"
proof -
  let ?m = "manifest_new (so_model_id opts) (ucast (so_n_embd opts)) (dtype_u8 (so_dtype opts))"
  have cm: "codec_ok (e_manifest E)" using assms(3) by (simp add: env_ok_def)
  obtain r w0 where w0: "fs_check w = (r, w0)" by fastforce
  with assms(1) have r: "r = Inr ()"
    by (cases r) (auto simp: store_open_def seqM_def bindM_def)
  have f0: "files w0 = files w" using fs_check_Inr [OF w0 [unfolded r]] by simp
  have ld0: "manifest_load (e_manifest E) w0 = Inr None"
    using assms(2) manifest_load_cong [of w0 w] f0 by simp
  obtain k u where k: "store_open E opts = seqM fs_check (bindM (load_or_create_manifest E opts) k)"
    and "u = (0 :: nat)"
    unfolding store_open_def by blast
  from assms(1) w0 r have "bindM (load_or_create_manifest E opts) k w0 = (Inr s, w')"
    by (simp add: k seqM_def bindM_def)
  then obtain u where st: "manifest_store (e_manifest E) ?m w0 = (Inr (), u)" and run: "k ?m u = (Inr s, w')"
    using ld0 by (auto simp: load_or_create_manifest_def bindM_Inr seqM_Inr ret_Inr Let_def)
  have ver: "mf_version ?m = MANIFEST_VERSION" by (simp add: manifest_new_def)
  define v where "v = u\<lparr>faults := NoFault # faults u\<rparr>"
  have c: "fs_check v = (Inr (), u)"
    by (cases u) (simp add: v_def fs_check_def io_def next_fault_def)
  have ld: "manifest_load (e_manifest E) u = Inr (Some ?m)"
    by (rule manifest_store_load [OF st cm ver])
  then have "load_or_create_manifest E opts u = (Inr ?m, u)"
    using assms(4) by (simp add: load_or_create_manifest_def bindM_def liftM_def ret_def)
  then have 1: "store_open E opts v = (Inr s, w')"
    using c run by (simp add: k seqM_def bindM_def)
  have 2: "manifest_load (e_manifest E) v = Inr (Some ?m)"
    using ld manifest_load_cong [of v u] by (simp add: v_def)
  have 3: "fmlookup (files v) g = fmlookup (files w) g" if "g \<noteq> ManifestTmp" "g \<noteq> ManifestFile" for g
    using manifest_store_any(2) [OF st cm ver, of g] that f0 by (simp add: v_def)
  from 1 2 3 show thesis by (rule that)
qed

lemma check_new_manifest:
  assumes "unat (so_n_embd opts) < 2 ^ 32"
  shows "check_manifest opts (manifest_new (so_model_id opts) (ucast (so_n_embd opts)) (dtype_u8 (so_dtype opts))) = Inr ()"
proof -
  have "ucast (ucast (so_n_embd opts) :: u32) = so_n_embd opts"
    using assms by (simp add: word_unat_eq_iff unsigned_ucast_eq unsigned_take_bit_eq take_bit_nat_eq_self_iff)
  then show ?thesis by (simp add: check_manifest_def manifest_new_def)
qed

text \<open>Opening an empty directory gives an empty shard; the only bound is that the dimension fits the manifest's 32 bits.\<close>

lemma open_fresh:
  assumes "store_open E opts w = (Inr s, w')" "files w = fmempty" "env_ok E" "unat (so_n_embd opts) < 2 ^ 32"
  shows "represents E [] [] (s, w') []" "st_maps s = empty_maps" "durable E [] (s, w')" "flushed (s, w')"
    "st_opts s = opts" "snapshot_load (e_crc E) w' = Inr None"
proof -
  let ?m = "manifest_new (so_model_id opts) (ucast (so_n_embd opts)) (dtype_u8 (so_dtype opts))"
  have ck: "check_manifest opts ?m = Inr ()" by (rule check_new_manifest [OF assms(4)])
  have none: "manifest_load (e_manifest E) w = Inr None"
    using assms(2) by (simp add: manifest_load_def fs_exists_def)
  from open_created [OF assms(1) none assms(3) ck] obtain v where
    v: "store_open E opts v = (Inr s, w')" "manifest_load (e_manifest E) v = Inr (Some ?m)"
    "\<And>g. g \<noteq> ManifestTmp \<Longrightarrow> g \<noteq> ManifestFile \<Longrightarrow> fmlookup (files v) g = None"
    using assms(2) by auto
  have D: "disk_log E opts v ?m [] [] []"
    using v(2) ck v(3) [of "SegFile 0"]
    by (simp add: disk_log_def manifest_new_def torn_tail_Nil file_of_def)
  have R: "replays_to E 0 [] (mf_active ?m) [] empty_maps (empty_maps, [])"
    by (simp add: replays_to_def)
  have S: "snapshot_sound E v ?m [] [] empty_maps"
    using v(3) [of SnapFile] by (simp add: snapshot_sound_def snapshot_load_def fs_exists_def)
  note O = open_represents [OF v(1) assms(3) D R S]
  show "represents E [] [] (s, w') []" "st_maps s = empty_maps" "durable E [] (s, w')" "flushed (s, w')"
    "st_opts s = opts"
    using O(1-5) by blast+
  have "snapshot_load (e_crc E) v = Inr None"
    using v(3) [of SnapFile] by (simp add: snapshot_load_def fs_exists_def)
  with O(7) show "snapshot_load (e_crc E) w' = Inr None" by auto
qed

section \<open>Closing and opening again\<close>

text \<open>The snapshot the manifest names covers a part of the log, and replaying the rest onto it gives the maps.\<close>

definition snapshot_ok :: "env \<Rightarrow> seg_log list \<Rightarrow> log_record list \<Rightarrow> sstate \<Rightarrow> bool" where
  "snapshot_ok E sl al x \<longleftrightarrow>
     (\<forall>m0 q. snapshot_load (e_crc E) (snd x) = Inr (Some (m0, q)) \<longrightarrow> q = mf_snapshot_seq (st_manifest (fst x)) \<longrightarrow>
        q < next_seq_of x \<and> replays_to E q sl (active_id x) al m0 (st_maps (fst x), []))"

definition store_inv :: "env \<Rightarrow> seg_log list \<Rightarrow> log_record list \<Rightarrow> sstate \<Rightarrow> bool" where
  "store_inv E sl al x \<longleftrightarrow>
     represents E sl al x [] \<and> durable E sl x \<and> flushed x \<and> snapshot_ok E sl al x"

lemma store_invD:
  assumes "store_inv E sl al x"
  shows "represents E sl al x []" "durable E sl x" "flushed x" "snapshot_ok E sl al x"
  using assms by (simp_all add: store_inv_def)

lemma disk_log_self:
  assumes "represents E sl al x p" "durable E sl x" "flushed x" "next_seq_of x < - 1"
  shows "\<exists>md. agrees md (st_manifest (fst x)) \<and> disk_log E (st_opts (fst x)) (snd x) md sl al [] \<and> mf_active md = active_id x"
proof -
  note R = representsD [OF assms(1)]
  note A = active_okD [OF R(2)]
  from crash_disk_log [OF assms(1,2) crash_refl assms(4)] obtain md n t where
    d: "agrees md (st_manifest (fst x))" "disk_log E (st_opts (fst x)) (snd x) md sl (take n al) t"
    "mf_active md = active_id x" "n \<le> length al"
    "log_bytes E (take n al) @ t = file_of (snd x) (SegFile (active_id x))"
    "n < length al \<longrightarrow> length t < frame_len (al ! n)" by blast
  have f: "file_of (snd x) (SegFile (active_id x)) = log_bytes E al"
    using assms(3) A(2) file_of_content [of "seg_of x"] by (simp add: flushed_def seg_of_def)
  have "log_bytes E al = log_bytes E (take n al) @ log_bytes E (drop n al)"
    by (metis append_take_drop_id log_simps(3))
  with d(5) f have t: "t = log_bytes E (drop n al)" by simp
  have "n = length al"
  proof (rule ccontr)
    assume "n \<noteq> length al"
    with d(4) have n: "n < length al" by simp
    then have "drop n al = al ! n # drop (Suc n) al" by (rule Cons_nth_drop_Suc [symmetric])
    then have "frame_len (al ! n) \<le> length t" by (simp add: t len_simps)
    with d(6) n show False by simp
  qed
  with d(1-3) t show ?thesis by auto
qed

lemma snapshot_ok_sound:
  assumes "snapshot_ok E sl al x" "agrees md (st_manifest (fst x))" "mf_active md = active_id x" "next_seq_of x < - 1"
  shows "snapshot_sound E (snd x) md sl al (st_maps (fst x))"
  unfolding snapshot_sound_def
proof (intro allI impI)
  fix m0 q assume l: "snapshot_load (e_crc E) (snd x) = Inr (Some (m0, q))" and q: "q = mf_snapshot_seq md"
  with assms(1,3) agrees_fields(8) [OF assms(2)]
  have "q < next_seq_of x" "replays_to E q sl (mf_active md) al m0 (st_maps (fst x), [])"
    by (simp_all add: snapshot_ok_def)
  with assms(4) show "q < - 1 \<and> (\<exists>p. replays_to E q sl (mf_active md) al m0 (st_maps (fst x), p))"
    by (auto dest: less_trans)
qed

text \<open>A store that is closed and opened again is the same store.\<close>

lemma reopen_inv:
  assumes "store_inv E sl al x" "env_ok E" "next_seq_of x < - 1"
    and "store_open E (st_opts (fst x)) (snd x) = (Inr s, w')"
  shows "represents E sl al (s, w') []" "durable E sl (s, w')" "flushed (s, w')" "st_maps s = st_maps (fst x)"
    "st_opts s = st_opts (fst x)" "snapshot_ok E sl al (s, w')" "aseg_id (st_active s) = active_id x"
proof -
  note I = store_invD [OF assms(1)]
  from disk_log_self [OF I(1-3) assms(3)] obtain md where
    md: "agrees md (st_manifest (fst x))" "disk_log E (st_opts (fst x)) (snd x) md sl al []" "mf_active md = active_id x"
    by blast
  have r: "replays_to E 0 sl (mf_active md) al empty_maps (st_maps (fst x), [])"
    using I(1) md(3) by (simp add: represents_def)
  note O = open_represents [OF assms(4,2) md(2) r snapshot_ok_sound [OF I(4) md(1,3) assms(3)]]
  show "represents E sl al (s, w') []" "durable E sl (s, w')" "flushed (s, w')" "st_maps s = st_maps (fst x)"
    "st_opts s = st_opts (fst x)"
    using O(1-5) by blast+
  show "aseg_id (st_active s) = active_id x" using O(6) md(3) by simp
  show "snapshot_ok E sl al (s, w')"
    unfolding snapshot_ok_def
  proof (intro allI impI)
    fix m0 q assume l: "snapshot_load (e_crc E) (snd (s, w')) = Inr (Some (m0, q))"
      and q: "q = mf_snapshot_seq (st_manifest (fst (s, w')))"
    with O(7) have e: "snapshot_load (e_crc E) (snd x) = Inr (Some (m0, q))" "q = mf_snapshot_seq md"
      and a: "\<forall>m0 q. snapshot_load (e_crc E) (snd x) = Inr (Some (m0, q)) \<longrightarrow> q < mf_next_seq (st_manifest s)"
      by auto
    from a e(1) have b: "snapshot_load (e_crc E) (snd x) = Inr (Some (m0, q))" "q = mf_snapshot_seq md"
      "q < mf_next_seq (st_manifest s)"
      using e by blast+
    with I(4) md(1,3) agrees_fields(8) [OF md(1)] O(2,6)
    show "q < next_seq_of (s, w') \<and> replays_to E q sl (active_id (s, w')) al m0 (st_maps (fst (s, w')), [])"
      by (simp add: snapshot_ok_def)
  qed
qed

section \<open>Operations keep the invariant\<close>

text \<open>
  Records newer than the snapshot replay onto it as they replay onto the whole log, wherever
  the operation left them.
\<close>

lemma replays_extend:
  assumes "replays_to E 0 sl i al empty_maps (m, [])" "replays_to E q sl i al m0 (m, [])" "newer q rs"
    and "(sl' = sl \<and> al' = al @ rs \<and> i' = i) \<or> (sl' = sl @ [(i, al @ rs)] \<and> al' = [])"
    and "replays_to E 0 sl' i' al' empty_maps (m', [])"
  shows "replays_to E q sl' i' al' m0 (m', [])"
proof -
  from assms(1) obtain a where a: "replay_segments E 0 sl empty_maps = Inr a" "replay_log E i 0 0 al (a, []) = Inr (m, [])"
    by (auto simp: replays_to_def)
  from assms(2) obtain b where b: "replay_segments E q sl m0 = Inr b" "replay_log E i q 0 al (b, []) = Inr (m, [])"
    by (auto simp: replays_to_def)
  have same: "replay_log E i q 0 (al @ rs) (b, []) = replay_log E i 0 0 (al @ rs) (a, [])"
    using a(2) b(2) replay_log_newer [OF assms(3), of 0 E i] by (simp add: replay_log_append)
  show ?thesis
    using assms(4)
  proof
    assume "sl' = sl \<and> al' = al @ rs \<and> i' = i"
    with assms(5) a(1) b(1) same show ?thesis by (auto simp: replays_to_def)
  next
    assume "sl' = sl @ [(i, al @ rs)] \<and> al' = []"
    with assms(5) a(1) b(1) same show ?thesis
      by (auto simp: replays_to_def replay_segments_append bindR_Inr)
  qed
qed

lemma snapshot_ok_extend:
  assumes "store_inv E sl al x" "calm_store x z" "represents E sl' al' z []" "placed x sl (al @ rs) z sl' al'"
    and "\<forall>r \<in> set rs. next_seq_of x \<le> lr_seq r" "next_seq_of x \<le> next_seq_of z"
  shows "snapshot_ok E sl' al' z"
  unfolding snapshot_ok_def
proof (intro allI impI)
  fix m0 q assume l: "snapshot_load (e_crc E) (snd z) = Inr (Some (m0, q))" and q: "q = mf_snapshot_seq (st_manifest (fst z))"
  note I = store_invD [OF assms(1)]
  have "snapshot_load (e_crc E) (snd x) = Inr (Some (m0, q))"
    using l assms(2) snapshot_load_cong [of "snd z" "snd x"] by (simp add: calm_store_def calm_def)
  with I(4) q assms(2) have s: "q < next_seq_of x" "replays_to E q sl (active_id x) al m0 (st_maps (fst x), [])"
    by (simp_all add: snapshot_ok_def calm_store_def)
  have n: "newer q rs" using assms(5) s(1) unfolding newer_def by (meson less_le_trans)
  have r: "replays_to E 0 sl (active_id x) al empty_maps (st_maps (fst x), [])"
    "replays_to E 0 sl' (active_id z) al' empty_maps (st_maps (fst z), [])"
    using I(1) assms(3) by (simp_all add: represents_def)
  have "replays_to E q sl' (active_id z) al' m0 (st_maps (fst z), [])"
    by (rule replays_extend [OF r(1) s(2) n _ r(2)]) (use assms(4) in \<open>auto simp: placed_def\<close>)
  with s(1) assms(6) show "q < next_seq_of z \<and> replays_to E q sl' (active_id z) al' m0 (st_maps (fst z), [])"
    by (meson less_le_trans)
qed

text \<open>The bounds an operation needs, read off the state: no offset, counter or segment id wraps.\<close>

definition has_room :: "sstate \<Rightarrow> log_record list \<Rightarrow> bool" where
  "has_room x rs \<longleftrightarrow>
     unat (next_seq_of x) + length rs < 2 ^ 64 \<and> length (seg_content (seg_of x)) + log_len rs < 2 ^ 64
     \<and> list_all frame_ok rs \<and> unat (mf_next_segment_id (st_manifest (fst x))) + 1 < 2 ^ 32"

lemma has_room: "represents E sl al x p \<Longrightarrow> has_room x rs \<longleftrightarrow> room_for al rs x"
  by (simp add: has_room_def room_for_def represents_def active_ok_def len_simps)

lemma next_seq_mono: "unat (n :: u64) + k < 2 ^ 64 \<Longrightarrow> n \<le> n + word_of_nat k"
  by (simp add: word_le_nat_alt unat_u64_add_of_nat)

lemma insert_snapshot_ok:
  assumes "store_inv E sl al x" "store_insert E doc x = (Inr rp, z)" "room_for al (records_of E x doc) x"
    and "represents E sl' al' z p'" "placed x sl (al @ records_of E x doc) z sl' al'" "set p' \<subseteq> {}"
    and "next_seq_of z = next_seq_of x + word_of_nat (length (records_of E x doc))"
  shows "snapshot_ok E sl' al' z"
proof -
  have p': "p' = []" using assms(6) by simp
  have fits: "unat (next_seq_of x) + length (records_of E x doc) < 2 ^ 64" using assms(3) by (simp add: room_for_def)
  have "next_seq_of x \<le> lr_seq q" if "q \<in> set (records_of E x doc)" for q
    using number_seqs [OF numbered_insert _ that [unfolded records_of_def insert_records_def]] fits
    by (simp add: records_of_def length_insert_records)
  then show ?thesis
    using snapshot_ok_extend [OF assms(1) keepsD [OF calm_insert assms(2)] assms(4) [unfolded p'] assms(5)]
      next_seq_mono [OF fits] assms(7) by simp
qed

lemma insert_inv:
  assumes "store_inv E sl al x" "env_ok E" "doc_consistent doc" "has_room x (records_of E x doc)"
    and "store_insert E doc x = (Inr rp, z)"
  shows "\<exists>sl' al'. store_inv E sl' al' z \<and> whole_log sl' al' = whole_log sl al @ records_of E x doc
    \<and> st_maps (fst z) = maps_after_insert E x doc \<and> st_opts (fst z) = st_opts (fst x)"
proof -
  note I = store_invD [OF assms(1)]
  have room: "room_for al (records_of E x doc) x" using assms(4) has_room [OF I(1)] by simp
  from insert_represents(1) [OF assms(5) I(1) assms(2) I(2) assms(3) _ room] obtain sl' al' p' where
    r: "represents E sl' al' z p'" "placed x sl (al @ records_of E x doc) z sl' al'" "set p' \<subseteq> {}"
    "durable E sl' z" "flushed z" "st_maps (fst z) = maps_after_insert E x doc" "st_opts (fst z) = st_opts (fst x)"
    "next_seq_of z = next_seq_of x + word_of_nat (length (records_of E x doc))"
    by (auto simp: no_pending_def)
  have p': "p' = []" using r(3) by simp
  have "snapshot_ok E sl' al' z" by (rule insert_snapshot_ok [OF assms(1,5) room r(1,2,3,8)])
  with r p' have "store_inv E sl' al' z" by (simp add: store_inv_def)
  moreover have "whole_log sl' al' = whole_log sl al @ records_of E x doc"
    using placed_whole_log [OF r(2)] by (simp add: whole_log_def)
  ultimately show ?thesis using r(6,7) by blast
qed

lemma delete_inv:
  assumes "store_inv E sl al x" "env_ok E" "has_room x (delete_log E x d)"
    and "store_delete E d x = (Inr r, z)"
  shows "\<exists>sl' al'. store_inv E sl' al' z
    \<and> whole_log sl' al' = whole_log sl al @ (if is_live x d then delete_log E x d else [])
    \<and> st_maps (fst z) = drop_doc d (active_id x) (st_maps (fst x)) \<and> st_opts (fst z) = st_opts (fst x)"
proof (cases "is_live x d")
  case False
  then have "z = x" "drop_doc d (active_id x) (st_maps (fst x)) = st_maps (fst x)"
    using assms(4) delete_absent [OF False, of E] by (simp_all add: is_live_def)
  with assms(1) False show ?thesis by auto
next
  case True
  note I = store_invD [OF assms(1)]
  have room: "room_for al (delete_log E x d) x" using assms(3) has_room [OF I(1)] by simp
  from delete_represents(1) [OF assms(4) True I(1) assms(2) I(2) room] obtain sl' al' p' where
    r: "represents E sl' al' z p'" "placed x sl (al @ delete_log E x d) z sl' al'" "set p' \<subseteq> {}"
    "durable E sl' z" "flushed z" "st_maps (fst z) = drop_doc d (active_id x) (st_maps (fst x))"
    "st_opts (fst z) = st_opts (fst x)" "next_seq_of z = next_seq_of x + 1"
    by auto
  have p': "p' = []" using r(3) by simp
  have fits: "unat (next_seq_of x) + 1 < 2 ^ 64" using room by (simp add: room_for_def length_delete_log)
  have "\<forall>q \<in> set (delete_log E x d). next_seq_of x \<le> lr_seq q"
    by (simp add: delete_log_def delete_record_def)
  then have "snapshot_ok E sl' al' z"
    using snapshot_ok_extend [OF assms(1) keepsD [OF calm_delete assms(4)] r(1) [unfolded p'] r(2)]
      next_seq_mono [OF fits] r(8) by simp
  with r p' have "store_inv E sl' al' z" by (simp add: store_inv_def)
  moreover have "whole_log sl' al' = whole_log sl al @ delete_log E x d"
    using placed_whole_log [OF r(2)] by (simp add: whole_log_def)
  ultimately show ?thesis using True r(6,7) by auto
qed

lemma fsync_inv:
  assumes "store_inv E sl al x" "store_fsync x = (Inr u, z)"
  shows "store_inv E sl al z" "st_maps (fst z) = st_maps (fst x)" "st_opts (fst z) = st_opts (fst x)"
    "active_id z = active_id x" "next_seq_of z = next_seq_of x"
    "fmlookup (synced (snd z)) (SegFile (active_id x)) = Some (log_bytes E al)"
proof -
  note I = store_invD [OF assms(1)]
  note S = sync_represents [OF assms(2) [unfolded store_fsync_def] I(1)]
  have d: "durable E sl z" by (rule durable_frame [OF I(2)]) (use S in simp_all)
  have "snapshot_ok E sl al z"
    by (rule snapshot_ok_extend [OF assms(1) keepsD [OF calm_fsync assms(2)] S(1), of "[]"])
      (use S in \<open>simp_all add: placed_def\<close>)
  with S d show "store_inv E sl al z" by (simp add: store_inv_def)
  show "st_maps (fst z) = st_maps (fst x)" "st_opts (fst z) = st_opts (fst x)"
    "active_id z = active_id x" "next_seq_of z = next_seq_of x"
    "fmlookup (synced (snd z)) (SegFile (active_id x)) = Some (log_bytes E al)"
    using S by simp_all
qed

text \<open>A sync that fails leaves the log and the files as they were.\<close>

lemma fsync_failed_inv:
  assumes "store_inv E sl al x" "store_fsync x = (Inl e, z)"
  shows "store_inv E sl al z" "st_maps (fst z) = st_maps (fst x)" "st_opts (fst z) = st_opts (fst x)"
proof -
  note I = store_invD [OF assms(1)]
  obtain s w where x: "x = (s, w)" by fastforce
  let ?a = "st_active s"
  have buf: "aseg_buf ?a = []" using I(3) by (simp add: flushed_def x)
  obtain b where b: "seg_flush (?a, w) = (Inr (), (b, w))" "aseg_buf b = []" "aseg_id b = aseg_id ?a" "aseg_len b = aseg_len ?a"
    "aseg_last_seq b = aseg_last_seq ?a"
    using buf by (cases "aseg_unflushed ?a") (auto simp: seg_flush_def flush_buf_def seqM_def bindM_def modM_def)
  obtain v where v: "fs_sync (SegFile (aseg_id b)) w = (Inl e, v)" "z = (s\<lparr>st_active := b\<rparr>, v)"
    using assms(2) b(1) by (auto simp: x store_fsync_def on_active_def zoom_def seg_sync_def seqM_def bindM_def on_world_def
        split: prod.splits)
  have files: "files v = files w"
    using v(1) by (auto simp: fs_sync_def io_def next_fault_def split: list.splits fault.splits option.splits)
  then have content: "seg_content (b, v) = seg_content (seg_of x)"
    using buf b(2,3) by (simp add: seg_content_def seg_of_def x file_of_def)
  have "seg_ok (seg_of x)" using I(1) by (simp add: represents_def active_ok_def)
  then have ok: "seg_ok (b, v)"
    using content files b by (simp add: seg_ok_def seg_of_def x fs_exists_def)
  have R: "represents E sl al z []"
    unfolding v(2) using represents_active [OF I(1) ok content] files b by (simp add: seg_frame_def seg_of_def x fs_exists_def)
  have d: "durable E sl z" by (rule durable_frame [OF I(2)]) (simp_all add: v(2) x files)
  have "snapshot_ok E sl al z"
    by (rule snapshot_ok_extend [OF assms(1) keepsD [OF calm_fsync assms(2)] R, of "[]"])
      (simp_all add: placed_def v(2) x b(3))
  with R d show "store_inv E sl al z" by (simp add: store_inv_def flushed_def v(2) b(2))
  show "st_maps (fst z) = st_maps (fst x)" "st_opts (fst z) = st_opts (fst x)" by (simp_all add: v(2) x)
qed

lemma fsync_any_inv:
  assumes "store_inv E sl al x" "store_fsync x = (r, z)"
  shows "store_inv E sl al z" "st_maps (fst z) = st_maps (fst x)" "st_opts (fst z) = st_opts (fst x)"
  using assms fsync_inv [OF assms(1)] fsync_failed_inv [OF assms(1)] by (cases r; blast)+

lemma seal_inv:
  assumes "store_inv E sl al x" "env_ok E" "has_room x []" "seal_active E x = (Inr u, z)"
  shows "\<exists>sl' al'. store_inv E sl' al' z \<and> whole_log sl' al' = whole_log sl al
    \<and> st_maps (fst z) = st_maps (fst x) \<and> st_opts (fst z) = st_opts (fst x)"
proof (cases "aseg_len (st_active (fst x)) = 0")
  case True
  then have "z = x" using assms(4)
    by (cases x) (simp add: seal_active_def bindM_def the_store_def getM_def ret_def)
  with assms(1) show ?thesis by blast
next
  case False
  note I = store_invD [OF assms(1)]
  have "represents E (sl @ [(active_id x, al)]) [] z [] \<and> durable E (sl @ [(active_id x, al)]) z \<and> flushed z
    \<and> st_maps (fst z) = st_maps (fst x) \<and> st_opts (fst z) = st_opts (fst x)
    \<and> next_seq_of z = next_seq_of x"
    by (rule seal_represents [OF assms(4) False I(1) assms(2) I(2)]) (use assms(3) in \<open>simp add: has_room_def\<close>)
  then have r: "represents E (sl @ [(active_id x, al)]) [] z []" "durable E (sl @ [(active_id x, al)]) z" "flushed z"
    "st_maps (fst z) = st_maps (fst x)" "st_opts (fst z) = st_opts (fst x)" "next_seq_of z = next_seq_of x"
    by blast+
  have "snapshot_ok E (sl @ [(active_id x, al)]) [] z"
    by (rule snapshot_ok_extend [OF assms(1) keepsD [OF calm_seal_active assms(4)] r(1), of "[]"])
      (use r in \<open>simp_all add: placed_def\<close>)
  with r have "store_inv E (sl @ [(active_id x, al)]) [] z" by (simp add: store_inv_def)
  with r show ?thesis by (intro exI [of _ "sl @ [(active_id x, al)]"] exI [of _ "[]"]) (simp add: whole_log_def)
qed

lemma snapshot_inv:
  assumes "store_inv E sl al x" "env_ok E" "maps_fit (st_maps (fst x))" "snapshot_meta E x = (Inr q, z)"
  shows "store_inv E sl al z" "st_maps (fst z) = st_maps (fst x)" "st_opts (fst z) = st_opts (fst x)"
    "snapshot_load (e_crc E) (snd z) = Inr (Some (st_maps (fst x), q))"
proof -
  note I = store_invD [OF assms(1)]
  note S = snapshot_meta_represents [OF assms(4) I(1) assms(2) I(2) assms(3)]
  have q: "q = next_seq_of x - 1" "next_seq_of z = next_seq_of x" using S by blast+
  have pos: "0 < next_seq_of x" using I(1) by (simp add: represents_def)
  have "next_seq_of x \<noteq> 0" using pos by auto
  then have lt: "q < next_seq_of z"
    using q measure_unat [of "next_seq_of x"] by (simp add: word_less_nat_alt)
  have old: "lr_seq r \<le> q" if "r \<in> set (whole_log sl al)" for r
  proof -
    have "lr_seq r < next_seq_of x" using S that by (auto simp: seqs_below_def)
    with \<open>next_seq_of x \<noteq> 0\<close> q(1) show ?thesis by (simp add: word_less_nat_alt word_le_nat_alt unat_minus_one)
  qed
  have skip: "replays_to E q sl i al m (m, [])" for i m
    unfolding replays_to_def
    by (intro exI [of _ m] conjI replay_segments_skip replay_log_skip ballI old) (simp_all add: whole_log_def)
  have "snapshot_ok E sl al z"
    unfolding snapshot_ok_def using S skip lt by auto
  with S show "store_inv E sl al z" by (simp add: store_inv_def)
  show "st_maps (fst z) = st_maps (fst x)" "st_opts (fst z) = st_opts (fst x)"
    "snapshot_load (e_crc E) (snd z) = Inr (Some (st_maps (fst x), q))"
    using S by blast+
qed

text \<open>An insert that is refused, or fails while appending and is rewound, changes nothing.\<close>

lemma refused_inv:
  assumes "store_inv E sl al x" "env_ok E" "store_insert E doc x = (Inl e, z)"
    and "unat (next_seq_of x) + 2 + length (distinct_summaries doc) + length (dd_splits doc) < 2 ^ 64"
    and "\<forall>a b. e \<noteq> RewindFailed a b" "\<forall>ap y. append_document E doc (distinct_summaries doc) x \<noteq> (Inr ap, y)"
  shows "store_inv E sl al z" "st_maps (fst z) = st_maps (fst x)" "st_opts (fst z) = st_opts (fst x)"
proof -
  note I = store_invD [OF assms(1)]
  from insert_fails [OF assms(3) I(1) assms(2,4)] assms(5,6)
  consider "z = x" | "rewound x z" "represents E sl al z []" by blast
  then have "store_inv E sl al z \<and> st_maps (fst z) = st_maps (fst x) \<and> st_opts (fst z) = st_opts (fst x)"
  proof cases
    case 1
    with assms(1) show ?thesis by simp
  next
    case 2
    note w = 2(1) [unfolded rewound_def]
    have id: "active_id z = active_id x" using w by (simp add: seg_frame_def seg_of_def)
    have "durable E sl z"
      by (rule durable_frame [OF I(2)]) (use w in \<open>simp_all add: seg_frame_def seg_of_def\<close>)
    moreover have "snapshot_ok E sl al z"
      by (rule snapshot_ok_extend [OF assms(1) keepsD [OF calm_insert assms(3)] 2(2), of "[]"])
        (use w id in \<open>simp_all add: placed_def\<close>)
    ultimately show ?thesis using w 2(2) by (simp add: store_inv_def flushed_def)
  qed
  then show "store_inv E sl al z" "st_maps (fst z) = st_maps (fst x)" "st_opts (fst z) = st_opts (fst x)"
    by blast+
qed

section \<open>Reachable states\<close>

text \<open>
  The undisturbed life of a directory: a first open, then inserts of documents whose parts name
  them, inserts that are refused or whose records are rewound, deletions, syncs that work or fail,
  seals, snapshots and reopenings, in any order. It has no compaction, no crash inside an insert,
  and no deletion, seal, snapshot or rewind that failed: after a failed seal the next open can
  remove acknowledged records, after a torn insert replay and the running process can disagree,
  and neither is a state of this relation.
\<close>

inductive reachable :: "env \<Rightarrow> store_options \<Rightarrow> sstate \<Rightarrow> bool" for E opts where
  opened: "files w = fmempty \<Longrightarrow> store_open E opts w = (Inr s, w') \<Longrightarrow> reachable E opts (s, w')"
| inserted: "reachable E opts x \<Longrightarrow> doc_consistent doc \<Longrightarrow> has_room x (records_of E x doc)
    \<Longrightarrow> store_insert E doc x = (Inr rp, z) \<Longrightarrow> reachable E opts z"
| refused: "reachable E opts x
    \<Longrightarrow> unat (next_seq_of x) + 2 + length (distinct_summaries doc) + length (dd_splits doc) < 2 ^ 64
    \<Longrightarrow> store_insert E doc x = (Inl e, z) \<Longrightarrow> \<forall>a b. e \<noteq> RewindFailed a b
    \<Longrightarrow> \<forall>ap y. append_document E doc (distinct_summaries doc) x \<noteq> (Inr ap, y) \<Longrightarrow> reachable E opts z"
| deleted: "reachable E opts x \<Longrightarrow> has_room x (delete_log E x d)
    \<Longrightarrow> store_delete E d x = (Inr r, z) \<Longrightarrow> reachable E opts z"
| synced: "reachable E opts x \<Longrightarrow> store_fsync x = (u, z) \<Longrightarrow> reachable E opts z"
| sealed: "reachable E opts x \<Longrightarrow> has_room x [] \<Longrightarrow> seal_active E x = (Inr u, z) \<Longrightarrow> reachable E opts z"
| snapped: "reachable E opts x \<Longrightarrow> maps_fit (st_maps (fst x))
    \<Longrightarrow> snapshot_meta E x = (Inr q, z) \<Longrightarrow> reachable E opts z"
| reopened: "reachable E opts x \<Longrightarrow> next_seq_of x < - 1
    \<Longrightarrow> store_open E opts (snd x) = (Inr s, w') \<Longrightarrow> reachable E opts (s, w')"

lemma reachable_inv:
  assumes "reachable E opts x" "env_ok E" "unat (so_n_embd opts) < 2 ^ 32"
  shows "st_opts (fst x) = opts \<and> (\<exists>sl al. store_inv E sl al x)"
  using assms(1)
proof (induction rule: reachable.induct)
  case (opened w s w')
  note O = open_fresh [OF opened(2,1) assms(2,3)]
  have "snapshot_ok E [] [] (s, w')"
    using O(6) by (simp add: snapshot_ok_def)
  with O(1-4) have "store_inv E [] [] (s, w')" by (simp add: store_inv_def)
  with O(5) show ?case by auto
next
  case (inserted x doc rp z)
  then obtain sl al where i: "store_inv E sl al x" "st_opts (fst x) = opts" by blast
  from insert_inv [OF i(1) assms(2) inserted(2,3,4)] i(2) show ?case by metis
next
  case (refused x doc e z)
  then obtain sl al where i: "store_inv E sl al x" "st_opts (fst x) = opts" by blast
  from refused_inv [OF i(1) assms(2) refused(3,2,4,5)] i(2) show ?case by metis
next
  case (deleted x d r z)
  then obtain sl al where i: "store_inv E sl al x" "st_opts (fst x) = opts" by blast
  from delete_inv [OF i(1) assms(2) deleted(2,3)] i(2) show ?case by metis
next
  case (synced x u z)
  then obtain sl al where i: "store_inv E sl al x" "st_opts (fst x) = opts" by blast
  from fsync_any_inv(1,3) [OF i(1) synced(2)] i(2) show ?case by metis
next
  case (sealed x u z)
  then obtain sl al where i: "store_inv E sl al x" "st_opts (fst x) = opts" by blast
  from seal_inv [OF i(1) assms(2) sealed(2,3)] i(2) show ?case by metis
next
  case (snapped x q z)
  then obtain sl al where i: "store_inv E sl al x" "st_opts (fst x) = opts" by blast
  from snapshot_inv(1,3) [OF i(1) assms(2) snapped(2,3)] i(2) show ?case by metis
next
  case (reopened x s w')
  then obtain sl al where i: "store_inv E sl al x" "st_opts (fst x) = opts" by blast
  note R = reopen_inv [OF i(1) assms(2) reopened(2) reopened(3) [folded i(2)]]
  have "store_inv E sl al (s, w')" using R by (simp add: store_inv_def)
  with R(5) i(2) show ?case by auto
qed

end
