(* ===== verification/Store_Progress.thy ===== *)
theory Store_Progress
  imports Store_History
begin

text \<open>
  Progress of an open and of the operations that end a session: on the directory of a log, when
  no file operation fails, they return.
\<close>

section \<open>The steps of an open\<close>

lemma fs_remove_clean:
  "faults w = [] \<Longrightarrow> fs_exists w f \<Longrightarrow> fs_remove f w = (Inr (), w\<lparr>files := fmdrop f (files w)\<rparr>)"
  by (simp add: fs_remove_def io_clean fs_exists_def fmlookup_dom'_iff)

lemma forM_remove_clean:
  assumes "distinct is" "\<forall>i \<in> set is. fs_exists w (SegFile i)" "faults w = []"
  shows "\<exists>v. forM (\<lambda>i. if P i then ret () else fs_remove (SegFile i)) is w = (Inr (), v) \<and> faults v = []"
  using assms
proof (induction "is" arbitrary: w)
  case (Cons i "is")
  let ?v = "if P i then w else w\<lparr>files := fmdrop (SegFile i) (files w)\<rparr>"
  have h: "(if P i then ret () else fs_remove (SegFile i)) w = (Inr (), ?v)"
    using Cons.prems by (simp add: ret_def fs_remove_clean)
  have "\<forall>j \<in> set is. fs_exists ?v (SegFile j)" "faults ?v = []"
    using Cons.prems by (auto simp: fs_exists_def)
  with Cons.IH [of ?v] Cons.prems(1) obtain v where
    "forM (\<lambda>i. if P i then ret () else fs_remove (SegFile i)) is ?v = (Inr (), v)" "faults v = []" by auto
  with h show ?case by (simp add: seqM_def bindM_def)
qed (simp add: ret_def)

lemma remove_orphans_clean:
  assumes "env_ok E" "faults w = []"
  shows "\<exists>v. remove_orphan_segments E md w = (Inr (), v) \<and> faults v = []"
proof -
  have "distinct (e_dir_order E (seg_ids w))" "\<forall>i \<in> set (e_dir_order E (seg_ids w)). fs_exists w (SegFile i)"
    using assms(1) by (simp_all add: env_ok_def seg_ids_iff)
  from forM_remove_clean [OF this assms(2)] assms(2) show ?thesis
    by (simp add: remove_orphan_segments_def seqM_def bindM_def getM_def fs_clean)
qed

lemma seg_open_clean:
  assumes "faults w = []"
  shows "\<exists>a v. seg_open i w = (Inr a, v) \<and> faults v = []"
  using assms by (simp add: seg_open_def seqM_def bindM_def getM_def ret_def fs_clean)

lemma settle_clean:
  assumes "env_ok E" "faults w = []"
  shows "\<exists>md' v. settle E rej md w = (Inr md', v) \<and> faults v = []"
proof (cases rej)
  case True
  have cm: "codec_ok (e_manifest E)" using assms(1) by (simp add: env_ok_def)
  obtain v where v: "snapshot_remove w = (Inr (), v)" "faults v = []"
    using assms(2) by (cases "fs_exists w SnapFile") (simp_all add: snapshot_remove_def fs_remove_clean)
  from manifest_store_clean [OF cm v(2)] obtain u where
    "manifest_store (e_manifest E) (md\<lparr>mf_snapshot_seq := 0\<rparr>) v = (Inr (), u)" "faults u = []" by blast
  with v(1) True show ?thesis
    by (simp add: settle_def seqM_def bindM_def ret_def Let_def)
qed (use assms in \<open>simp add: settle_def ret_def\<close>)

lemma cut_clean:
  assumes "faults w = []" "\<not> aseg_unflushed a"
  shows "\<exists>b v. cut torn a w = (Inr b, v) \<and> faults v = []"
proof (cases torn)
  case (Some n)
  have "seg_flush (a, w) = (Inr (), (a, w))" using assms(2) by (simp add: seg_flush_def)
  then show ?thesis
    using assms Some
    by (simp add: cut_def seg_truncate_to_def seqM_def bindM_def on_world_def zoom_def modM_def
        fs_set_len_def fs_check_def io_clean)
qed (use assms in \<open>simp add: cut_def ret_def\<close>)

section \<open>An open succeeds\<close>

lemma store_open_steps:
  "store_open E opts =
     seqM fs_check
    (bindM (load_or_create_manifest E opts) (\<lambda>manifest.
     seqM (remove_orphan_segments E manifest)
    (bindM (\<lambda>w. (open_sealed (mf_sealed manifest) fmempty w, w)) (\<lambda>sealed.
     bindM (seg_open (mf_active manifest)) (\<lambda>active.
     bindM (getM (trusted_snapshot E manifest sealed active)) (\<lambda>(rejected, snap_maps, snapshot_seq).
     bindM (settle E rejected manifest) (\<lambda>manifest.
     bindM (liftM (replay_sealed E snapshot_seq sealed (mf_sealed manifest) (snap_maps, snapshot_seq))) (\<lambda>(m1, max1).
     bindM (\<lambda>w. (seg_read_all active w, w)) (\<lambda>active_bytes.
     bindM (liftM (scan_segment E active_bytes (aseg_id active) snapshot_seq m1 True)) (\<lambda>(scan, m2).
     bindM (cut (sc_torn_at scan) (active\<lparr>aseg_first_seq := sc_first_seq scan, aseg_last_seq := sc_last_seq scan\<rparr>)) (\<lambda>active2.
     ret \<lparr> st_opts = opts,
           st_manifest = manifest\<lparr>mf_next_seq := max (mf_next_seq manifest) (max max1 (sc_last_seq scan) + 1)\<rparr>,
           st_sealed = sealed, st_active = active2, st_maps = m2, st_pending_tombstone = 0 \<rparr>)))))))))))"
  by (simp only: store_open_def settle_def cut_def Let_def)

lemma open_succeeds:
  assumes "env_ok E" "disk_log E opts w md sl al t"
    and "replays_to E 0 sl (mf_active md) al empty_maps (m, p)" "snapshot_sound E w md sl al m"
    and "faults w = []"
  shows "\<exists>s w'. store_open E opts w = (Inr s, w') \<and> faults w' = []"
proof -
  note D = assms(2) [unfolded disk_log_def]
  let ?i = "mf_active md"
  have infos: "list_all2 info_ok (mf_sealed md) sl" and dist: "distinct (?i # map fst sl)"
    and segs: "\<forall>l \<in> set sl. list_all frame_ok (snd l) \<and> fmlookup (files w) (SegFile (fst l)) = Some (log_bytes E (snd l))"
    and al: "list_all frame_ok al"
    and act: "file_of w (SegFile ?i) = log_bytes E al @ t" "torn_tail E t" "log_len al + length t < 2 ^ 64"
    and sq: "seqs_below (mf_next_seq md) (concat (map snd sl))"
    and md: "manifest_load (e_manifest E) w = Inr (Some md)" "check_manifest opts md = Inr ()" "mf_version md = MANIFEST_VERSION"
    using D by blast+
  have lo: "load_or_create_manifest E opts w = (Inr md, w)"
    using md by (simp add: load_or_create_manifest_def bindM_def liftM_def ret_def)
  from remove_orphans_clean [OF assms(1,5)] obtain w1 where
    ro: "remove_orphan_segments E md w = (Inr (), w1)" "faults w1 = []" by blast
  have ids: "set (manifest_segment_ids md) = fst ` set sl"
    using info_ids [OF infos] by (simp add: manifest_segment_ids_def)
  have known: "fmlookup (files w1) g = fmlookup (files w) g"
    if "g \<notin> SegFile ` (- insert ?i (fst ` set sl))" for g
    using remove_orphans_Inr(1) [OF ro(1) assms(1), of g] that by (simp add: ids)
  have kn: "fmlookup (files w1) (SegFile ?i) = fmlookup (files w) (SegFile ?i)"
    "fmlookup (files w1) ManifestFile = fmlookup (files w) ManifestFile"
    "fmlookup (files w1) SnapFile = fmlookup (files w) SnapFile"
    by (rule known; auto)+
  have segs1: "\<forall>l \<in> set sl. fmlookup (files w1) (SegFile (fst l)) = Some (log_bytes E (snd l))"
  proof
    fix l assume l: "l \<in> set sl"
    then have "fst l \<in> fst ` set sl" by (rule imageI)
    then have "SegFile (fst l) \<notin> SegFile ` (- insert ?i (fst ` set sl))" by auto
    with known segs l show "fmlookup (files w1) (SegFile (fst l)) = Some (log_bytes E (snd l))" by simp
  qed
  have os: "open_sealed (mf_sealed md) fmempty w1 = Inr (sealed_map E sl)"
    using open_sealed_all [OF infos segs1, of fmempty] by (simp add: sealed_map_def)
  from seg_open_clean [OF ro(2)] obtain a w2 where so: "seg_open ?i w1 = (Inr a, w2)" "faults w2 = []" by blast
  note O = seg_open_Inr [OF so(1)]
  have act1: "file_of w1 (SegFile ?i) = log_bytes E al @ t"
    using act(1) kn(1) by (simp add: file_of_def)
  obtain rej m0 q where tr: "trusted_snapshot E md (sealed_map E sl) a w2 = (rej, m0, q)" by (metis prod_cases3)
  from settle_clean [OF assms(1) so(2)] obtain md' w3 where se: "settle E rej md w2 = (Inr md', w3)" "faults w3 = []" by blast
  have mdl: "manifest_load (e_manifest E) w2 = Inr (Some md)"
    using md(1) O(7) kn(2) manifest_load_cong [of w2 w] by simp
  note S = settle_Inr [OF se(1) assms(1) md(3) mdl]
  have md': "mf_sealed md' = mf_sealed md" using S(1) by auto
  have snapw: "snapshot_load (e_crc E) w2 = snapshot_load (e_crc E) w"
    by (rule snapshot_load_cong) (use O(7) kn(3) in simp)
  have "\<exists>p'. replays_to E q sl ?i al m0 (m, p') \<and> q \<noteq> - 1"
    using tr
  proof (rule trusted_snapshot_cases)
    assume "m0 = empty_maps" "q = 0"
    with assms(3) show ?thesis by auto
  next
    assume "snapshot_load (e_crc E) w2 = Inr (Some (m0, q))" "q = mf_snapshot_seq md"
    with assms(4) snapw show ?thesis unfolding snapshot_sound_def by (metis less_irrefl)
  qed
  then obtain p' mm where mm: "replay_segments E q sl m0 = Inr mm" "replay_log E ?i q 0 al (mm, []) = Inr (m, p')"
    and q1: "q \<noteq> - 1" by (auto simp: replays_to_def)
  have q: "q < max (mf_next_seq md) (q + 1)"
    using word_less_add1 [OF order_refl q1] by (simp add: less_max_iff_disj)
  have "\<exists>mx'. replay_sealed E q (sealed_map E sl) (mf_sealed md) (m0, q) = Inr (mm, mx') \<and> q \<le> mx' \<and> mx' < max (mf_next_seq md) (q + 1)"
    by (rule replay_sealed_all [OF infos _ _ mm(1) _ q])
      (use segs sq dist in \<open>auto simp: sealed_map_lookup seqs_below_def less_max_iff_disj\<close>)
  then obtain max1 where rs: "replay_sealed E q (sealed_map E sl) (mf_sealed md') (m0, q) = Inr (mm, max1)"
    by (auto simp: md')
  have f3: "file_of w3 (SegFile ?i) = log_bytes E al @ t"
    using S(2) [of ?i] O(7) act1 by (simp add: file_of_def)
  have len: "unat (aseg_len a) = length (log_bytes E al @ t)"
    unfolding O(3) act1 by (rule unat_u64_of_nat) (use act(3) in \<open>simp add: len_simps\<close>)
  have ra: "seg_read_all a w3 = Inr (log_bytes E al @ t)"
    using len f3 O(1) by (simp add: seg_read_all_def Let_def)
  from scan_torn [OF al mm(2) act(2)] O(1) obtain scan where
    sc: "scan_segment E (log_bytes E al @ t) (aseg_id a) q mm True = Inr (scan, m)" by auto
  have "\<not> aseg_unflushed (a\<lparr>aseg_first_seq := sc_first_seq scan, aseg_last_seq := sc_last_seq scan\<rparr>)"
    using O(6) by simp
  from cut_clean [OF se(2) this] obtain b w4 where
    cu: "cut (sc_torn_at scan) (a\<lparr>aseg_first_seq := sc_first_seq scan, aseg_last_seq := sc_last_seq scan\<rparr>) w3 = (Inr b, w4)" "faults w4 = []"
    by blast
  show ?thesis
    by (simp add: store_open_steps seqM_def bindM_def getM_def liftM_def fs_clean assms(5) lo ro(1) os so(1) tr
        se(1) rs ra sc cu(1) cu(2) ret_def)
qed

text \<open>A store in a reachable state can always be opened again, with the same maps.\<close>

lemma reopen_succeeds:
  assumes "store_inv E sl al x" "env_ok E" "next_seq_of x < - 1" "faults (snd x) = []"
  shows "\<exists>s w'. store_open E (st_opts (fst x)) (snd x) = (Inr s, w') \<and> faults w' = []"
proof -
  note I = store_invD [OF assms(1)]
  from disk_log_self [OF I(1-3) assms(3)] obtain md where
    md: "agrees md (st_manifest (fst x))" "disk_log E (st_opts (fst x)) (snd x) md sl al []" "mf_active md = active_id x"
    by blast
  have r: "replays_to E 0 sl (mf_active md) al empty_maps (st_maps (fst x), [])"
    using I(1) md(3) by (simp add: represents_def)
  have "snapshot_sound E (snd x) md sl al (st_maps (fst x))"
    by (rule snapshot_ok_sound [OF I(4) md(1,3) assms(3)])
  from open_succeeds [OF assms(2) md(2) r this assms(4)] show ?thesis .
qed

text \<open>So does the first open of a directory.\<close>

lemma open_fresh_succeeds:
  assumes "files w = fmempty" "env_ok E" "unat (so_n_embd opts) < 2 ^ 32" "faults w = []"
  shows "\<exists>s w'. store_open E opts w = (Inr s, w') \<and> faults w' = []"
proof -
  let ?m = "manifest_new (so_model_id opts) (ucast (so_n_embd opts)) (dtype_u8 (so_dtype opts))"
  have cm: "codec_ok (e_manifest E)" using assms(2) by (simp add: env_ok_def)
  have ver: "mf_version ?m = MANIFEST_VERSION" by (simp add: manifest_new_def)
  from manifest_store_clean [OF cm assms(4)] obtain v where
    st: "manifest_store (e_manifest E) ?m w = (Inr (), v)" "faults v = []" by blast
  have none: "manifest_load (e_manifest E) w = Inr None"
    using assms(1) by (simp add: manifest_load_def fs_exists_def)
  have ld: "manifest_load (e_manifest E) v = Inr (Some ?m)" by (rule manifest_store_load [OF st(1) cm ver])
  have ck: "check_manifest opts ?m = Inr ()" by (rule check_new_manifest [OF assms(3)])
  have fl: "fmlookup (files v) g = None" if "g \<noteq> ManifestTmp" "g \<noteq> ManifestFile" for g
    using manifest_store_any(2) [OF st(1) cm ver, of g] that assms(1) by simp
  have lo: "load_or_create_manifest E opts w = (Inr ?m, v)" "load_or_create_manifest E opts v = (Inr ?m, v)"
    using none st(1) ld ck by (simp_all add: load_or_create_manifest_def bindM_def seqM_def liftM_def ret_def Let_def)
  have D: "disk_log E opts v ?m [] [] []"
    using ld ck fl [of "SegFile 0"] by (simp add: disk_log_def manifest_new_def torn_tail_Nil file_of_def)
  have R: "replays_to E 0 [] (mf_active ?m) [] empty_maps (empty_maps, [])" by (simp add: replays_to_def)
  have S: "snapshot_sound E v ?m [] [] empty_maps"
    using fl [of SnapFile] by (simp add: snapshot_sound_def snapshot_load_def fs_exists_def)
  have "store_open E opts w = store_open E opts v"
    by (simp add: store_open_steps seqM_def bindM_def fs_clean assms(4) st(2) lo)
  with open_succeeds [OF assms(2) D R S st(2)] show ?thesis by simp
qed

text \<open>An empty shard starts its counters at one.\<close>

lemma open_fresh_counters:
  assumes "store_open E opts w = (Inr s, w')" "files w = fmempty" "env_ok E" "unat (so_n_embd opts) < 2 ^ 32"
  shows "mf_next_seq (st_manifest s) = 1" "mf_next_segment_id (st_manifest s) = 1"
proof -
  let ?m = "manifest_new (so_model_id opts) (ucast (so_n_embd opts)) (dtype_u8 (so_dtype opts))"
  have ck: "check_manifest opts ?m = Inr ()" by (rule check_new_manifest [OF assms(4)])
  have none: "manifest_load (e_manifest E) w = Inr None"
    using assms(2) by (simp add: manifest_load_def fs_exists_def)
  from open_created [OF assms(1) none assms(3) ck] obtain v where
    v: "store_open E opts v = (Inr s, w')" "manifest_load (e_manifest E) v = Inr (Some ?m)"
    "\<And>g. g \<noteq> ManifestTmp \<Longrightarrow> g \<noteq> ManifestFile \<Longrightarrow> fmlookup (files v) g = None"
    using assms(2) by auto
  from v(1,2) ck obtain w0 w1 sealed a w2 rej m0 q md' w3 m1 max1 bs scan m2 a2 where
    f0: "files w0 = files v" and ro: "remove_orphan_segments E ?m w0 = (Inr (), w1)"
    and "open_sealed (mf_sealed ?m) fmempty w1 = Inr sealed"
    and so: "seg_open (mf_active ?m) w1 = (Inr a, w2)"
    and tr: "trusted_snapshot E ?m sealed a w2 = (rej, m0, q)"
    and se: "settle E rej ?m w2 = (Inr md', w3)"
    and rs: "replay_sealed E q sealed (mf_sealed md') (m0, q) = Inr (m1, max1)"
    and ra: "seg_read_all a w3 = Inr bs"
    and sc: "scan_segment E bs (aseg_id a) q m1 True = Inr (scan, m2)"
    and "cut (sc_torn_at scan) (a\<lparr>aseg_first_seq := sc_first_seq scan, aseg_last_seq := sc_last_seq scan\<rparr>) w3 = (Inr a2, w')"
    and s: "s = \<lparr> st_opts = opts,
       st_manifest = md'\<lparr>mf_next_seq := max (mf_next_seq md') (max max1 (sc_last_seq scan) + 1)\<rparr>,
       st_sealed = sealed, st_active = a2, st_maps = m2, st_pending_tombstone = 0 \<rparr>"
    by (rule open_run)
  note O = seg_open_Inr [OF so]
  have f: "fmlookup (files w1) g = None" if "g = SegFile 0 \<or> g = SnapFile" for g
  proof -
    have "g \<notin> SegFile ` (- insert (mf_active ?m) (set (manifest_segment_ids ?m)))"
      using that by (auto simp: manifest_new_def)
    from remove_orphans_Inr(1) [OF ro assms(3) this] that v(3) f0 show ?thesis by auto
  qed
  have act: "mf_active ?m = 0" "mf_sealed ?m = []" "mf_next_seq ?m = 1" "mf_next_segment_id ?m = 1"
    by (simp_all add: manifest_new_def)
  have "fmlookup (files w2) SnapFile = None" using O(7) f by simp
  then have t: "rej = False" "q = 0"
    using tr by (auto simp: trusted_snapshot_def snapshot_load_def fs_exists_def)
  then have md': "md' = ?m" "w3 = w2" using se by (simp_all add: settle_def ret_Inr)
  have "aseg_len a = 0" using O(3) f act(1) by (simp add: file_of_def)
  then have "bs = []" using ra by (simp add: seg_read_all_def Let_def split: if_splits)
  moreover have "scan_segment E [] (aseg_id a) q m1 True = Inr (scan_stats q 0 [] empty_scan, m1)"
    using scan_segment_frames [of "[]" E "aseg_id a" q m1 m1 "[]" True] by simp
  ultimately have "sc_last_seq scan = 0" using sc by (auto simp: empty_scan_def)
  moreover have "max1 = 0" using rs md'(1) t(2) act(2) by simp
  ultimately show "mf_next_seq (st_manifest s) = 1" "mf_next_segment_id (st_manifest s) = 1"
    using md'(1) act by (simp_all add: s)
qed

text \<open>A snapshot can always be published.\<close>

lemma snapshot_meta_returns:
  assumes "fine x" "env_ok E"
  shows "\<exists>q z. snapshot_meta E x = (Inr q, z)"
proof -
  have cm: "codec_ok (e_manifest E)" using assms(2) by (simp add: env_ok_def)
  from runsD [OF runs_on_active [OF runs_seg_sync] assms(1)] obtain y where
    y: "on_active seg_sync x = (Inr (), y)" "faults (snd y) = []"
    by (auto simp: fine_def seg_fine_def seg_of_def)
  let ?q = "saturating_sub (next_seq_of y) 1"
  have "\<exists>w. snapshot_store (e_crc E) (e_order E) (st_maps (fst y)) ?q (snd y) = (Inr (), w) \<and> faults w = []"
    unfolding snapshot_store_def by (rule write_atomically_clean [OF y(2)])
  then obtain w where w: "snapshot_store (e_crc E) (e_order E) (st_maps (fst y)) ?q (snd y) = (Inr (), w)" "faults w = []" by blast
  let ?m = "(st_manifest (fst y))\<lparr>mf_snapshot_seq := ?q\<rparr>"
  from manifest_store_clean [OF cm w(2)] obtain v where v: "manifest_store (e_manifest E) ?m w = (Inr (), v)" by blast
  show ?thesis
    using y w(1) v
    by (cases y) (simp add: snapshot_meta_def seqM_def bindM_def the_store_def getM_def on_disk_def zoom_def
        on_store_def modM_def ret_def store_manifest_def)
qed

section \<open>What another process finds\<close>

text \<open>The invariant is about the files of the directory, not about the faults to come.\<close>

lemma store_inv_world:
  assumes "store_inv E sl al x" "files w = files (snd x)"
  shows "store_inv E sl al (fst x, w)"
proof -
  note I = store_invD [OF assms(1)]
  have 1: "represents E sl al (fst x, w) []"
    by (rule represents_files [OF I(1), of _ "st_manifest (fst x)" w]) (simp_all add: assms(2))
  have 2: "durable E sl (fst x, w)" by (rule durable_frame [OF I(2)]) (simp_all add: assms(2))
  have "snapshot_load (e_crc E) w = snapshot_load (e_crc E) (snd x)"
    by (rule snapshot_load_cong) (simp add: assms(2))
  with I 1 2 show ?thesis by (simp add: store_inv_def flushed_def snapshot_ok_def)
qed

lemma reopen_world:
  assumes "store_inv E sl al x" "env_ok E" "next_seq_of x < - 1" "files w = files (snd x)"
    and "store_open E (st_opts (fst x)) w = (Inr s, w')"
  shows "store_inv E sl al (s, w')" "st_maps s = st_maps (fst x)" "st_opts s = st_opts (fst x)"
    "aseg_id (st_active s) = active_id x"
proof -
  have i: "store_inv E sl al (fst x, w)" by (rule store_inv_world [OF assms(1,4)])
  have o: "store_open E (st_opts (fst (fst x, w))) (snd (fst x, w)) = (Inr s, w')" using assms(5) by simp
  have n: "next_seq_of (fst x, w) < - 1" using assms(3) by simp
  note R = reopen_inv [OF i assms(2) n o]
  show "store_inv E sl al (s, w')" "st_maps s = st_maps (fst x)" "st_opts s = st_opts (fst x)"
    using R by (simp_all add: store_inv_def)
  show "aseg_id (st_active s) = active_id x" using R(7) by simp
qed

end
