(* ===== verification/Store_Samples.thy ===== *)
theory Store_Samples
  imports Samples Store_Progress
begin

text \<open>
  A life of a shard for the witnesses: a directory is opened for the first time, a document is
  inserted, and another process opens the directory.
\<close>

definition world0 :: world where
  "world0 = \<lparr> files = fmempty, synced = fmempty, faults = [] \<rparr>"

definition first_state :: "sstate \<Rightarrow> bool" where
  "first_state x \<longleftrightarrow> reachable sample_env opts1 x \<and> store_inv sample_env [] [] x \<and> st_opts (fst x) = opts1
     \<and> st_maps (fst x) = empty_maps \<and> next_seq_of x = 1 \<and> mf_next_segment_id (st_manifest (fst x)) = 1
     \<and> faults (snd x) = []"

lemma small_seqs [simp]: "1 < (- 1 :: u64)" "4 < (- 1 :: u64)"
  by (simp_all add: word_less_nat_alt unsigned_minus_1_eq_mask mask_eq_exp_minus_1)

lemma doc1_id: "dd_document_id doc1 = 10"
  by (simp add: doc1_def)

lemma opts1_dim: "unat (so_n_embd opts1) < 2 ^ 32"
  by (simp add: opts1_def)

lemma first_state_exists: "\<exists>x. first_state x \<and> store_open sample_env opts1 world0 = (Inr (fst x), snd x)"
proof -
  have w: "files world0 = fmempty" "faults world0 = []" by (simp_all add: world0_def)
  from open_fresh_succeeds [OF w(1) sample_env_ok opts1_dim w(2)] obtain s w' where
    o: "store_open sample_env opts1 world0 = (Inr s, w')" "faults w' = []" by blast
  note F = open_fresh [OF o(1) w(1) sample_env_ok opts1_dim]
  have "store_inv sample_env [] [] (s, w')"
    using F(1-4) F(6) by (simp add: store_inv_def snapshot_ok_def)
  with F(2,5) o open_fresh_counters [OF o(1) w(1) sample_env_ok opts1_dim] reachable.opened [OF w(1) o(1)]
  show ?thesis by (intro exI [of _ "(s, w')"]) (simp add: first_state_def)
qed

lemma first_records: "first_state x \<Longrightarrow> records_of sample_env x doc1 = records_of sample_env (store1, world1 []) doc1"
  by (simp add: records_of_def first_state_def is_live_def store1_fields)

lemma first_room:
  assumes "first_state x"
  shows "has_room x (records_of sample_env x doc1)" "has_room x []"
proof -
  have i: "represents sample_env [] [] x []" "mf_next_segment_id (st_manifest (fst x)) = 1" "next_seq_of x = 1"
    using assms by (simp_all add: first_state_def store_inv_def)
  from room1 [of "[]"] show "has_room x (records_of sample_env x doc1)"
    using has_room [OF i(1)] i(2,3) by (simp add: room_for_def first_records [OF assms] store1_fields)
  then show "has_room x []" by (simp add: has_room_def)
qed

lemma first_fine: "first_state x \<Longrightarrow> fine x"
  by (simp add: first_state_def store_inv_def represents_def active_ok_def seg_ok_def fine_def seg_fine_def seg_of_def)

lemma first_insert:
  assumes "first_state x"
  shows "\<exists>rp z. store_insert sample_env doc1 x = (Inr rp, z) \<and> next_seq_of z = 4"
proof -
  have "durable sample_env [] x" using assms by (simp add: first_state_def store_inv_def)
  then have v: "mf_version (st_manifest (fst x)) = MANIFEST_VERSION" by (simp add: durable_def)
  have g: "good_document (st_opts (fst x)) doc1" using good1 assms by (simp add: first_state_def)
  from insert_succeeds [OF g first_fine [OF assms] sample_env_ok v] obtain rp z where
    i: "store_insert sample_env doc1 x = (Inr rp, z)" by blast
  have I: "represents sample_env [] [] x []" "durable sample_env [] x"
    using assms by (simp_all add: first_state_def store_inv_def)
  have room: "room_for [] (records_of sample_env x doc1) x"
    using has_room [OF I(1)] first_room(1) [OF assms] by simp
  from insert_represents(1) [OF i I(1) sample_env_ok I(2) consistent1(1) _ room]
  have "next_seq_of z = next_seq_of x + word_of_nat (length (records_of sample_env x doc1))"
    by (auto simp: no_pending_def)
  with assms have "next_seq_of z = 4" by (simp add: first_records [OF assms] records1 first_state_def)
  with i show ?thesis by blast
qed

text \<open>A process that opens the same files without faults.\<close>

lemma second_open:
  assumes "store_inv sample_env sl al z" "st_opts (fst z) = opts1" "next_seq_of z < - 1"
  shows "\<exists>s w'. store_open sample_env opts1 ((snd z)\<lparr>faults := []\<rparr>) = (Inr s, w')"
proof -
  let ?z = "(fst z, (snd z)\<lparr>faults := []\<rparr>)"
  have i: "store_inv sample_env sl al ?z" by (rule store_inv_world [OF assms(1)]) simp
  have "next_seq_of ?z < - 1" "faults (snd ?z) = []" using assms(3) by simp_all
  from reopen_succeeds [OF i sample_env_ok this] assms(2) show ?thesis by auto
qed

text \<open>An insert seals at most one segment.\<close>

lemma insert_next_segment:
  assumes "store_insert E doc x = (Inr rp, z)"
  shows "mf_next_segment_id (st_manifest (fst z)) \<in>
    {mf_next_segment_id (st_manifest (fst x)), mf_next_segment_id (st_manifest (fst x)) + 1}"
proof -
  let ?id = "\<lambda>y :: sstate. mf_next_segment_id (st_manifest (fst y))"
  obtain us ap y0 y1 y2 replaced where
    ad: "append_document E doc us x = (Inr ap, y0)"
    and rm: "(if ap_replaces ap
      then bindM (remove_from_maps (dd_document_id doc)) (\<lambda>removed.
             ret \<lparr> rp_existed = True, rp_split_ids = rd_split_ids removed,
                   rp_summary_ids = rd_summary_ids removed \<rparr>)
      else ret \<lparr> rp_existed = False, rp_split_ids = [], rp_summary_ids = [] \<rparr>) y0 = (Inr replaced, y1)"
    and fl: "on_active seg_flush ((fst y1)\<lparr>st_maps := publish ap (dd_document_id doc) (st_maps (fst y1))\<rparr>, snd y1) = (Inr (), y2)"
    and sl: "seal_if_needed E y2 = (Inr (), z)"
    by (rule insert_run [OF assms]) blast
  have "same_but_active x y0" using keepsD [OF keeps_append_document ad] by (simp add: grows_def)
  then have "st_manifest (fst y0)\<lparr>mf_next_seq := 0\<rparr> = (st_manifest (fst x))\<lparr>mf_next_seq := 0\<rparr>"
    by (simp add: same_but_active_def)
  from arg_cong [OF this, of mf_next_segment_id] have a: "?id y0 = ?id x" by simp
  have b: "?id y1 = ?id y0"
    using rm by (auto simp: bindM_Inr ret_Inr remove_from_maps_Inr count_tombstones_def split: if_splits)
  have c: "?id y2 = ?id y1" using fl by (auto simp: on_active_Inr)
  from sl consider "z = y2" | "aseg_len (st_active (fst y2)) \<noteq> 0" "seal_active E y2 = (Inr (), z)"
    by (auto simp: seal_if_needed_def bindM_Inr the_store_Inr ret_Inr split: if_splits)
  then show ?thesis
  proof cases
    case 2
    then show ?thesis by (rule_tac seal_active_run [OF 2(2,1)]) (simp add: a b c)
  qed (simp add: a b c)
qed

end
