(* ===== verification/Store_Holds.thy ===== *)
theory Store_Holds
  imports Store_Samples
begin

text \<open>
  A document a store holds: \<open>holds_doc\<close> says that the records an insert appended to \<open>x\<close> are where
  the maps of \<open>z\<close> say. An insert establishes it, a sync, a reopening and a power loss after a sync
  keep it, and reading gives the document back.
\<close>

definition holds_doc :: "env \<Rightarrow> sstate \<Rightarrow> document_dto \<Rightarrow> sstate \<Rightarrow> bool" where
  "holds_doc E x doc z \<longleftrightarrow>
     (\<exists>sl al sl' al'. room_for al (records_of E x doc) x \<and> list_all frame_ok al \<and> length (seg_content (seg_of x)) = log_len al
        \<and> store_inv E sl' al' z \<and> placed x sl (al @ records_of E x doc) z sl' al'
        \<and> st_maps (fst z) = maps_after_insert E x doc \<and> st_opts (fst z) = st_opts (fst x))"

lemma insert_holds:
  assumes "store_inv E sl al x" "env_ok E" "doc_consistent doc" "has_room x (records_of E x doc)"
    and "store_insert E doc x = (Inr rp, z)"
  shows "holds_doc E x doc z"
proof -
  note I = store_invD [OF assms(1)]
  have room: "room_for al (records_of E x doc) x" using assms(4) has_room [OF I(1)] by simp
  from insert_represents(1) [OF assms(5) I(1) assms(2) I(2) assms(3) _ room] obtain sl' al' p' where
    r: "represents E sl' al' z p'" "placed x sl (al @ records_of E x doc) z sl' al'" "set p' \<subseteq> {}"
    "durable E sl' z" "flushed z" "st_maps (fst z) = maps_after_insert E x doc" "st_opts (fst z) = st_opts (fst x)"
    "next_seq_of z = next_seq_of x + word_of_nat (length (records_of E x doc))"
    by (auto simp: no_pending_def)
  have "snapshot_ok E sl' al' z" by (rule insert_snapshot_ok [OF assms(1,5) room r(1,2,3,8)])
  then have "store_inv E sl' al' z" using r by (simp add: store_inv_def)
  moreover have "list_all frame_ok al" "length (seg_content (seg_of x)) = log_len al"
    using I(1) by (simp_all add: represents_def active_ok_def len_simps)
  ultimately show ?thesis using room r by (auto simp: holds_doc_def)
qed

lemma holds_get_doc:
  assumes "holds_doc E x doc z" "env_ok E" "ids_distinct doc"
  shows "get_doc E (fst z) (snd z) (dd_document_id doc) emb = Inr (Some (stored_doc E (st_opts (fst x)) emb doc))"
proof -
  from assms(1) obtain sl al sl' al' where h: "room_for al (records_of E x doc) x" "list_all frame_ok al"
    "length (seg_content (seg_of x)) = log_len al" "store_inv E sl' al' z" "placed x sl (al @ records_of E x doc) z sl' al'"
    "st_maps (fst z) = maps_after_insert E x doc" "st_opts (fst z) = st_opts (fst x)"
    unfolding holds_doc_def by blast
  note J = store_invD [OF h(4)]
  show ?thesis
    by (rule get_doc_placed [OF J(1,3) h(5) _ _ assms(2,3)])
      (use h in \<open>simp_all add: room_for_def records_of_def maps_after_insert_def appended_here_def\<close>)
qed

lemma holds_step:
  assumes "holds_doc E x doc z" "\<And>sl al. store_inv E sl al z \<Longrightarrow> store_inv E sl al y"
    and "st_maps (fst y) = st_maps (fst z)" "st_opts (fst y) = st_opts (fst z)" "active_id y = active_id z"
  shows "holds_doc E x doc y"
proof -
  from assms(1) obtain sl al sl' al' where h: "room_for al (records_of E x doc) x" "list_all frame_ok al"
    "length (seg_content (seg_of x)) = log_len al" "store_inv E sl' al' z" "placed x sl (al @ records_of E x doc) z sl' al'"
    "st_maps (fst z) = maps_after_insert E x doc" "st_opts (fst z) = st_opts (fst x)"
    unfolding holds_doc_def by blast
  have "store_inv E sl' al' y" by (rule assms(2) [OF h(4)])
  moreover have "placed x sl (al @ records_of E x doc) y sl' al'" using h(5) assms(5) by (simp add: placed_def)
  ultimately show ?thesis using h assms(3,4) unfolding holds_doc_def by metis
qed

lemma holds_inv: "holds_doc E x doc z \<Longrightarrow> \<exists>sl al. store_inv E sl al z"
  unfolding holds_doc_def by blast

lemma fsync_holds:
  assumes "holds_doc E x doc z" "store_fsync z = (Inr u, y)"
  shows "holds_doc E x doc y"
proof -
  from holds_inv [OF assms(1)] obtain sl al where i: "store_inv E sl al z" by blast
  show ?thesis
    by (rule holds_step [OF assms(1) fsync_inv(1) [OF _ assms(2)]]) (use fsync_inv [OF i assms(2)] in simp_all)
qed

lemma reopen_holds:
  assumes "holds_doc E x doc z" "env_ok E" "next_seq_of z < - 1" "files w = files (snd z)"
    and "store_open E (st_opts (fst z)) w = (Inr s, w')"
  shows "holds_doc E x doc (s, w')"
proof -
  from holds_inv [OF assms(1)] obtain sl al where i: "store_inv E sl al z" by blast
  show ?thesis
    by (rule holds_step [OF assms(1) reopen_world(1) [OF _ assms(2-5)]])
      (use reopen_world [OF i assms(2-5)] in simp_all)
qed

text \<open>After a sync a crash that keeps what is on the device keeps every file.\<close>

lemma power_loss_files:
  assumes "store_inv E sl al x" "store_fsync x = (Inr u, z)" "crash_of z w"
    and "length (the (fmlookup (synced (snd z)) (SegFile (active_id z)))) \<le> length (file_of w (SegFile (active_id z)))"
    and "fs_exists w (SegFile (active_id z))"
  shows "files w = files (snd z)"
proof -
  note F = fsync_inv [OF assms(1,2)]
  note Z = store_invD [OF F(1)]
  have c: "seg_content (seg_of z) = log_bytes E al" using Z(1) by (simp add: represents_def active_ok_def)
  from assms(3) obtain k where k: "file_of w (SegFile (active_id z)) = take k (log_bytes E al)"
    using c by (auto simp: crash_of_def)
  have "length (log_bytes E al) \<le> length (file_of w (SegFile (active_id z)))"
    using assms(4) F(4,6) by simp
  with k have fw: "file_of w (SegFile (active_id z)) = log_bytes E al" by simp
  have fz: "file_of (snd z) (SegFile (active_id z)) = log_bytes E al"
    using Z(3) c file_of_content [of "seg_of z"] by (simp add: flushed_def seg_of_def)
  have ez: "fs_exists (snd z) (SegFile (active_id z))"
    using Z(1) by (simp add: represents_def active_ok_def seg_ok_def seg_of_def)
  have "fmlookup (files w) g = fmlookup (files (snd z)) g" for g
  proof (cases "g = SegFile (active_id z)")
    case True
    with fw fz ez assms(5) show ?thesis by (auto simp: file_of_def fs_exists_def)
  next
    case False
    with assms(3) show ?thesis by (simp add: crash_of_def)
  qed
  then show ?thesis by (intro fmap_ext) blast
qed

end
