(* ===== verification/Store_Filled.thy ===== *)
theory Store_Filled
  imports Store_Holds
begin

text \<open>
  A store with a document for the witnesses, with its three records still in the active segment;
  and that a deletion, and an open after a crash, return when the file system works.
\<close>

section \<open>Progress\<close>

lemma version_first:
  assumes "store_inv E sl al z"
  shows "mf_version (st_manifest (fst z)) = MANIFEST_VERSION"
  using assms by (simp add: store_inv_def durable_def)

lemma fineI: "store_inv E sl al z \<Longrightarrow> faults (snd z) = [] \<Longrightarrow> fine z"
  by (simp add: store_inv_def represents_def active_ok_def seg_ok_def fine_def seg_fine_def seg_of_def)

text \<open>A deletion returns when the file system works.\<close>

lemma delete_succeeds:
  assumes "fine x" "env_ok E" "mf_version (st_manifest (fst x)) = MANIFEST_VERSION"
  shows "\<exists>r z. store_delete E d x = (Inr r, z) \<and> faults (snd z) = []"
proof (cases "fmlookup (docs (st_maps (fst x))) d = None")
  case True
  with assms(1) show ?thesis
    by (cases x) (simp add: store_delete_def bindM_def the_store_def getM_def ret_def fine_def seg_fine_def seg_of_def)
next
  case False
  have cm: "codec_ok (e_manifest E)" "codec_ok (e_delete E)" using assms(2) by (simp_all add: env_ok_def)
  from runsD [OF runs_append_delete [OF cm(2)] assms(1)] obtain u y0 where
    ap: "append_delete E d x = (Inr u, y0)" "fine y0" by blast
  have sb: "same_but_active x y0" using keepsD [OF keeps_append_delete ap(1)] by (simp add: grows_def)
  then have m: "st_maps (fst y0) = st_maps (fst x)"
    and y0: "st_manifest (fst y0)\<lparr>mf_next_seq := 0\<rparr> = (st_manifest (fst x))\<lparr>mf_next_seq := 0\<rparr>"
    by (simp_all add: same_but_active_def)
  have v: "mf_version (st_manifest (fst y0)) = MANIFEST_VERSION"
    using arg_cong [OF y0, of mf_version] assms(3) by simp
  obtain r mm where "remove_doc d (active_id y0) (st_maps (fst y0)) = Some (r, mm)"
    using False m by (metis not_None_eq remove_doc_None surj_pair)
  then have rm: "remove_from_maps d y0 = (Inr r, (count_tombstones r ((fst y0)\<lparr>st_maps := mm\<rparr>), snd y0))"
    by (simp add: remove_from_maps_Inr)
  define y1 where "y1 = (count_tombstones r ((fst y0)\<lparr>st_maps := mm\<rparr>), snd y0)"
  have y1: "fine y1" "mf_version (st_manifest (fst y1)) = MANIFEST_VERSION"
    using ap(2) v by (simp_all add: y1_def count_tombstones_def fine_def seg_of_def)
  from runsD [OF runs_on_active [OF runs_seg_flush] y1(1)] obtain y3 where
    y3: "on_active seg_flush y1 = (Inr (), y3)" "fine y3" by auto
  have ver3: "mf_version (st_manifest (fst y3)) = MANIFEST_VERSION"
    using y3(1) y1(2) by (auto simp: on_active_Inr)
  have "\<exists>z. seal_if_needed E y3 = (Inr (), z) \<and> faults (snd z) = []"
    using seal_active_fine [OF y3(2) cm(1) ver3] y3(2)
    by (cases y3) (simp add: seal_if_needed_def bindM_def the_store_def getM_def ret_def fine_def seg_fine_def seg_of_def)
  then obtain z where "seal_if_needed E y3 = (Inr (), z)" "faults (snd z) = []" by blast
  with ap(1) rm y3(1) False show ?thesis
    by (cases x) (simp add: store_delete_def bindM_def seqM_def the_store_def getM_def ret_def y1_def)
qed

text \<open>So does an open of a directory that a crash has left, when there is no snapshot.\<close>

lemma crash_opens:
  assumes "represents E sl al x p" "durable E sl x" "env_ok E" "crash_of x w" "next_seq_of x < - 1"
    and "snapshot_load (e_crc E) w = Inr None" "faults w = []"
  shows "\<exists>s w'. store_open E (st_opts (fst x)) w = (Inr s, w')"
proof -
  from crash_disk_log [OF assms(1,2,4,5)] obtain md n t where
    md: "disk_log E (st_opts (fst x)) w md sl (take n al) t" "mf_active md = active_id x" by blast
  have "replays_to E 0 sl (active_id x) al empty_maps (st_maps (fst x), p)"
    using assms(1) by (simp add: represents_def)
  then obtain m p' where r: "replays_to E 0 sl (active_id x) (take n al) empty_maps (m, p')"
    using replays_to_prefix by (metis surj_pair)
  have "snapshot_sound E w md sl (take n al) m" using assms(6) by (simp add: snapshot_sound_def)
  from open_succeeds [OF assms(3) md(1) r [folded md(2)] this assms(7)] show ?thesis by blast
qed

section \<open>The sample\<close>

text \<open>The three records take less than 600 bytes, so the insert does not seal the segment.\<close>

abbreviation log1 :: "log_record list" where
  "log1 \<equiv> records_of sample_env (store1, world1 []) doc1"

lemma log1_small: "log_len log1 < 600"
proof -
  note small = records1_small [of _ "[]", unfolded records1]
  have "frame_len (summary_record sample_env opts1 sum1 1) < 200" "frame_len (split_record sample_env opts1 spl1 2) < 200"
    "frame_len (doc_record sample_env opts1 doc1 3) < 200"
    by (rule small; simp)+
  then show ?thesis by (simp add: records1)
qed

lemma small_active:
  assumes "seg_ok (seg_of y)" "length (seg_content (seg_of y)) < 600" "st_opts (fst y) = opts1" "seal_if_needed E y = (Inr (), z)"
  shows "z = y"
proof -
  have "unat (aseg_len (st_active (fst y))) < 600" using assms(1,2) by (simp add: seg_ok_def seg_of_def)
  then have "aseg_len (st_active (fst y)) < 100000" by (simp add: word_less_nat_alt)
  with assms(3,4) show ?thesis
    by (auto simp: seal_if_needed_def bindM_Inr the_store_Inr ret_Inr opts1_def split: if_splits)
qed

lemma filled_log:
  assumes x: "first_state x" and run: "store_insert sample_env doc1 x = (Inr rp, z)"
  shows "store_inv sample_env [] log1 z"
proof -
  note F = x [unfolded first_state_def]
  have I: "represents sample_env [] [] x []" "durable sample_env [] x" using F by (simp_all add: store_inv_def)
  have room: "room_for [] (records_of sample_env x doc1) x" using has_room [OF I(1)] first_room(1) [OF x] by simp
  note A = active_okD [OF representsD(2) [OF I(1)]]
  from run obtain us ap y0 y1 y2 replaced where
    v: "validate (st_opts (fst x)) doc1 = Inr us"
    and ad: "append_document sample_env doc1 us x = (Inr ap, y0)"
    and rm: "(if ap_replaces ap
      then bindM (remove_from_maps (dd_document_id doc1)) (\<lambda>removed.
             ret \<lparr> rp_existed = True, rp_split_ids = rd_split_ids removed,
                   rp_summary_ids = rd_summary_ids removed \<rparr>)
      else ret \<lparr> rp_existed = False, rp_split_ids = [], rp_summary_ids = [] \<rparr>) y0 = (Inr replaced, y1)"
    and fl: "on_active seg_flush ((fst y1)\<lparr>st_maps := publish ap (dd_document_id doc1) (st_maps (fst y1))\<rparr>, snd y1) = (Inr (), y2)"
    and sn: "seal_if_needed sample_env y2 = (Inr (), z)"
    by (rule insert_run)
  from v have us: "us = distinct_summaries doc1" by (simp add: validate_Inr distinct_summaries_def)
  note D = insert_appends [OF ad sample_env_ok I(1) us room]
  have same: "st_active (fst y1) = st_active (fst y0) \<and> snd y1 = snd y0 \<and> st_opts (fst y1) = st_opts (fst y0)"
    using rm by (auto simp: bindM_Inr ret_Inr remove_from_maps_Inr count_tombstones_def split: if_splits)
  define z0 where "z0 = ((fst y1)\<lparr>st_maps := publish ap (dd_document_id doc1) (st_maps (fst y1))\<rparr>, snd y1)"
  have z0: "seg_of z0 = seg_of y0" "st_opts (fst z0) = opts1"
    using same appends_same(2) [OF D(1)] F by (simp_all add: z0_def seg_of_def)
  have small: "length (seg_content (seg_of x)) + log_len (records_of sample_env x doc1) < 600"
    using A(2) log1_small by (simp add: first_records [OF x])
  have ok0: "seg_ok (seg_of z0)" "length (seg_content (seg_of z0)) < 600"
    using D(1) A(1) small unfolding z0 by (simp_all add: appends_def len_simps)
  from fl obtain q where q: "seg_flush (seg_of z0) = (Inr (), q)" "y2 = ((fst z0)\<lparr>st_active := fst q\<rparr>, snd q)"
    by (auto simp: on_active_Inr z0_def)
  note Q = seg_flush_Inr [OF q(1) ok0(1)]
  have q2: "seg_of y2 = q" "st_opts (fst y2) = opts1" using q(2) z0(2) by (simp_all add: seg_of_def)
  have "z = y2"
    by (rule small_active [OF _ _ q2(2) sn]) (use Q ok0(2) q2(1) in simp_all)
  then have content: "length (seg_content (seg_of z)) = log_len log1"
    using Q q2(1) D(1) A(2) z0(1) by (simp add: appends_def len_simps first_records [OF x])
  have si: "store_inv sample_env [] [] x" using F by blast
  from insert_represents(1) [OF run I(1) sample_env_ok I(2) consistent1(1) _ room] obtain sl' al' p' where
    r: "represents sample_env sl' al' z p'" "placed x [] (records_of sample_env x doc1) z sl' al'" "set p' \<subseteq> {}"
    "durable sample_env sl' z" "flushed z" "next_seq_of z = next_seq_of x + word_of_nat (length (records_of sample_env x doc1))"
    by (auto simp: no_pending_def)
  have "snapshot_ok sample_env sl' al' z"
    by (rule insert_snapshot_ok [OF si run _ r(1) _ r(3,6)]) (use room r(2) in simp_all)
  then have inv: "store_inv sample_env sl' al' z" using r by (simp add: store_inv_def)
  have "length (seg_content (seg_of z)) = log_len al'" using r(1) by (simp add: represents_def active_ok_def len_simps)
  moreover have "0 < log_len log1" using frame_len_pos by (simp add: records1)
  ultimately have "al' \<noteq> []" using content by auto
  with r(2) have "sl' = []" "al' = log1" by (auto simp: placed_def first_records [OF x])
  with inv show ?thesis by simp
qed

lemma filled_room:
  assumes x: "first_state x" and run: "store_insert sample_env doc1 x = (Inr rp, z)"
  shows "has_room z (delete_log sample_env z 10)"
proof -
  note I = store_invD [OF filled_log [OF assms]]
  have "unat (mf_next_segment_id (st_manifest (fst z))) \<le> 2"
    using insert_next_segment [OF run] x by (auto simp: first_state_def)
  moreover have "length (seg_content (seg_of z)) < 600"
    using I(1) log1_small by (simp add: represents_def active_ok_def len_simps)
  moreover have "next_seq_of z = 4" using first_insert [OF x] run by auto
  moreover have "frame_len (delete_record sample_env (st_opts (fst z)) 10 4) = 30"
    by (simp add: frame_len_def delete_record_def record_of_def sample_delete_def meta_bytes_sample)
  ultimately show ?thesis by (simp add: has_room_def delete_log_def frame_ok_def encodable_def frame_len_def)
qed

lemma filled_sample:
  obtains x rp z where "first_state x" "store_insert sample_env doc1 x = (Inr rp, z)" "reachable sample_env opts1 z"
    "faults (snd z) = []" "store_inv sample_env [] log1 z" "st_opts (fst z) = opts1" "next_seq_of z = 4"
    "st_maps (fst z) = maps_after_insert sample_env x doc1" "snapshot_load (e_crc sample_env) (snd z) = Inr None"
    "has_room z (delete_log sample_env z 10)"
proof -
  obtain x where x: "first_state x" "store_open sample_env opts1 world0 = (Inr (fst x), snd x)"
    using first_state_exists by blast
  note F = x(1) [unfolded first_state_def]
  have ver: "mf_version (st_manifest (fst x)) = MANIFEST_VERSION" using version_first F by blast
  have "good_document (st_opts (fst x)) doc1" using good1 F by simp
  from insert_succeeds_calmly [OF this first_fine [OF x(1)] sample_env_ok ver] obtain rp z where
    z: "store_insert sample_env doc1 x = (Inr rp, z)" "faults (snd z) = []" by blast
  have r: "reachable sample_env opts1 z"
    by (rule reachable.inserted [OF _ consistent1(1) first_room(1) [OF x(1)] z(1)]) (use F in blast)
  have si: "store_inv sample_env [] [] x" using F by blast
  from insert_inv [OF si sample_env_ok consistent1(1) first_room(1) [OF x(1)] z(1)] F have
    m: "st_maps (fst z) = maps_after_insert sample_env x doc1" "st_opts (fst z) = opts1" by auto
  have w0: "files world0 = fmempty" by (simp add: world0_def)
  have "snapshot_load (e_crc sample_env) (snd x) = Inr None"
    using open_fresh(6) [OF x(2) w0 sample_env_ok opts1_dim] .
  moreover have "calm (snd x) (snd z)" using keepsD [OF calm_insert z(1)] by (simp add: calm_store_def)
  ultimately have l: "snapshot_load (e_crc sample_env) (snd z) = Inr None"
    using snapshot_load_cong [of "snd z" "snd x"] by (simp add: calm_def)
  have n: "next_seq_of z = 4" using first_insert [OF x(1)] z(1) by auto
  show thesis by (rule that [OF x(1) z(1) r z(2) filled_log [OF x(1) z(1)] m(2) n m(1) l filled_room [OF x(1) z(1)]])
qed

end
