(* ===== verification/Store_Properties.thy ===== *)
theory Store_Properties
  imports Store_Filled
begin

text \<open>
  The properties of the store: the states of an undisturbed shard satisfy the invariant, the
  operations do what they promise, and whatever process opens the directory next finds the
  acknowledged state, after a crash a prefix of it. \<open>reachable\<close> says which histories are undisturbed:
  no compaction, no crash inside an insert, and no deletion, seal, snapshot or rewind that failed.
\<close>

section \<open>The state\<close>

text \<open>
  C5: The store's invariant holds in every state of an undisturbed shard: one that was opened on an
  empty directory and then went through acknowledged inserts of documents whose parts name them,
  inserts that were refused or whose records were rewound, acknowledged deletions, seals and
  snapshots, syncs that worked or failed, and reopenings, in any order. The segments hold the
  frames of a log, the maps are the replay of that log, the manifest on disk describes the
  segments, and the snapshot that the manifest names, if it is there, is of a prefix of it.
  Compactions, crashes inside an insert, and failed deletions, seals, snapshots and rewinds are
  not steps of such a history; the counters are assumed to have room for what is written, and the
  embedding dimension to be below 2 ^ 32.
\<close>

theorem reachable_states_are_logs:
  assumes "reachable E opts x" "env_ok E" "unat (so_n_embd opts) < 2 ^ 32"
  shows "st_opts (fst x) = opts \<and> (\<exists>sl al. store_inv E sl al x)"
  by (rule reachable_inv [OF assms])

lemma reachable_states_are_logs_witness:
  "\<exists>x. reachable sample_env opts1 x \<and> (\<exists>sl al. store_inv sample_env sl al x)"
proof -
  obtain x where "first_state x" using first_state_exists by blast
  then have "reachable sample_env opts1 x" by (simp add: first_state_def)
  with reachable_states_are_logs [OF this sample_env_ok opts1_dim] show ?thesis by blast
qed

section \<open>Durability\<close>

text \<open>
  C2: A store is what its files say: whatever became of the process of an undisturbed shard (reachable:
  no compaction, no crash inside an insert, no failed deletion, seal, snapshot or rewind; failed
  syncs, and inserts refused or rewound, are allowed), a process that opens the same files, when
  its open returns, has the same maps. The sequence counter must not be at its end, and the
  embedding dimension is below 2 ^ 32.
\<close>

theorem reopen_has_same_maps:
  assumes "reachable E opts x" "env_ok E" "unat (so_n_embd opts) < 2 ^ 32" "next_seq_of x < - 1"
    and "files w = files (snd x)" "store_open E opts w = (Inr s, w')"
  shows "st_maps s = st_maps (fst x)"
proof -
  from reachable_inv [OF assms(1-3)] obtain sl al where i: "store_inv E sl al x" "st_opts (fst x) = opts" by blast
  from reopen_world(2) [OF i(1) assms(2,4,5) assms(6) [folded i(2)]] show ?thesis .
qed

lemma reopen_has_same_maps_witness:
  "\<exists>s w' s2 w2. store_open sample_env opts1 world0 = (Inr s, w')
     \<and> store_open sample_env opts1 (w'\<lparr>faults := []\<rparr>) = (Inr s2, w2) \<and> st_maps s2 = st_maps s"
proof -
  obtain x where x: "first_state x" "store_open sample_env opts1 world0 = (Inr (fst x), snd x)"
    using first_state_exists by blast
  then have r: "reachable sample_env opts1 x" "next_seq_of x < - 1" "store_inv sample_env [] [] x" "st_opts (fst x) = opts1"
    by (simp_all add: first_state_def)
  from second_open [OF r(3,4,2)] obtain s w' where o: "store_open sample_env opts1 ((snd x)\<lparr>faults := []\<rparr>) = (Inr s, w')"
    by blast
  have "files ((snd x)\<lparr>faults := []\<rparr>) = files (snd x)" by simp
  from reopen_has_same_maps [OF r(1) sample_env_ok opts1_dim r(2) this o] x(2) o show ?thesis by blast
qed

text \<open>
  C14: Opening always works again: from every reachable state the next open of the directory
  returns a store, when the file system does not fail, and the store has the same maps.
\<close>

theorem reopen_returns:
  assumes "reachable E opts x" "env_ok E" "unat (so_n_embd opts) < 2 ^ 32" "next_seq_of x < - 1"
    and "files w = files (snd x)" "faults w = []"
  shows "\<exists>s w'. store_open E opts w = (Inr s, w') \<and> st_maps s = st_maps (fst x)"
proof -
  from reachable_inv [OF assms(1-3)] obtain sl al where i: "store_inv E sl al x" "st_opts (fst x) = opts" by blast
  have j: "store_inv E sl al (fst x, w)" by (rule store_inv_world [OF i(1) assms(5)])
  have n: "next_seq_of (fst x, w) < - 1" "faults (snd (fst x, w)) = []" using assms(4,6) by simp_all
  from reopen_succeeds [OF j assms(2) n] i(2) obtain s w' where o: "store_open E opts w = (Inr s, w')" by auto
  with reopen_world(2) [OF i(1) assms(2,4,5)] i(2) show ?thesis by blast
qed

lemma reopen_returns_witness:
  "\<exists>x s w'. reachable sample_env opts1 x \<and> store_open sample_env opts1 (snd x) = (Inr s, w') \<and> st_maps s = empty_maps"
proof -
  obtain x where "first_state x" using first_state_exists by blast
  then have r: "reachable sample_env opts1 x" "next_seq_of x < - 1" "faults (snd x) = []" "st_maps (fst x) = empty_maps"
    by (simp_all add: first_state_def)
  from reopen_returns [OF r(1) sample_env_ok opts1_dim r(2) refl r(3)] r(4) r(1) show ?thesis by metis
qed

text \<open>
  C1: An acknowledged document is not lost. When an insert into an undisturbed shard has returned,
  whoever opens the same files next, if the open returns, reads the document back as it was
  stored, with its splits and summaries, their texts and, when asked for, their vectors as the
  shard keeps them. It is stated for a document whose parts name it and in which no two splits,
  and no two different summaries, have the same id, when the counters have room for its records
  and one more, and the embedding dimension is below 2 ^ 32;
  undisturbed (reachable) means no compaction, no crash inside an insert, and no deletion, seal,
  snapshot or rewind that failed. After a failed seal an acknowledged document can be lost.
\<close>

theorem acknowledged_insert_survives:
  assumes "reachable E opts x" "env_ok E" "unat (so_n_embd opts) < 2 ^ 32"
    and "doc_consistent doc" "ids_distinct doc" "has_room x (records_of E x doc)"
    and "store_insert E doc x = (Inr rp, z)" "next_seq_of z < - 1"
    and "files w = files (snd z)" "store_open E opts w = (Inr s, w')"
  shows "get_doc E s w' (dd_document_id doc) emb = Inr (Some (stored_doc E opts emb doc))"
proof -
  from reachable_inv [OF assms(1-3)] obtain sl al where i: "store_inv E sl al x" "st_opts (fst x) = opts" by blast
  note H = insert_holds [OF i(1) assms(2,4,6,7)]
  then have "st_opts (fst z) = opts" using i(2) by (auto simp: holds_doc_def)
  with holds_get_doc [OF reopen_holds [OF H assms(2,8,9)] assms(2,5)] assms(10) i(2) show ?thesis by simp
qed

lemma acknowledged_insert_survives_witness:
  "\<exists>x rp z s w'. reachable sample_env opts1 x \<and> store_insert sample_env doc1 x = (Inr rp, z)
     \<and> store_open sample_env opts1 ((snd z)\<lparr>faults := []\<rparr>) = (Inr s, w')
     \<and> get_doc sample_env s w' 10 True = Inr (Some (stored_doc sample_env opts1 True doc1))"
proof -
  obtain x where x: "first_state x" using first_state_exists by blast
  then have r: "reachable sample_env opts1 x" "store_inv sample_env [] [] x" "st_opts (fst x) = opts1"
    by (simp_all add: first_state_def)
  from first_insert [OF x] obtain rp z where i: "store_insert sample_env doc1 x = (Inr rp, z)" "next_seq_of z = 4" by blast
  have n: "next_seq_of z < - 1" using i(2) by simp
  from insert_inv [OF r(2) sample_env_ok consistent1(1) first_room(1) [OF x] i(1)] obtain sl' al' where
    z: "store_inv sample_env sl' al' z" "st_opts (fst z) = st_opts (fst x)" by blast
  from second_open [OF z(1) _ n] z(2) r(3) obtain s w' where
    o: "store_open sample_env opts1 ((snd z)\<lparr>faults := []\<rparr>) = (Inr s, w')" by auto
  have "files ((snd z)\<lparr>faults := []\<rparr>) = files (snd z)" by simp
  from acknowledged_insert_survives [OF r(1) sample_env_ok opts1_dim consistent1 first_room(1) [OF x] i(1) n this o] r(1) i(1) o
  show ?thesis unfolding doc1_id by blast
qed

text \<open>
  C3: Without a snapshot on disk a crash costs at most the tail of the log: in a state whose segments
  and manifest are those of a log, also in the middle of an insert, cut the active segment at any
  byte; the next open that returns has the maps of a prefix of the log, keeps every record that
  is whole in the file, discards less than one record of it, and its segments and manifest are
  those of that prefix. Entities of an insert that was cut may be left waiting for their document.
  The sequence counter must not be at its end.
\<close>

theorem crash_leaves_prefix:
  assumes "represents E sl al x p" "durable E sl x" "env_ok E" "crash_of x w" "next_seq_of x < - 1"
    and "snapshot_load (e_crc E) w = Inr None" "store_open E (st_opts (fst x)) w = (Inr s, w')"
  shows "\<exists>n p' t. n \<le> length al \<and> represents E sl (take n al) (s, w') p'
      \<and> durable E sl (s, w') \<and> flushed (s, w')
      \<and> file_of w (SegFile (active_id x)) = log_bytes E (take n al) @ t
      \<and> (n < length al \<longrightarrow> length t < frame_len (al ! n))
      \<and> replays_to E 0 sl (active_id x) (take n al) empty_maps (st_maps s, p')"
  by (rule open_after_crash [OF assms])

lemma crash_leaves_prefix_witness:
  "\<exists>x rp z w s w' n p'. first_state x \<and> store_insert sample_env doc1 x = (Inr rp, z) \<and> crash_of z w
     \<and> length (file_of w (SegFile (active_id z))) < length (file_of (snd z) (SegFile (active_id z)))
     \<and> store_open sample_env opts1 w = (Inr s, w') \<and> n < length log1 \<and> represents sample_env [] (take n log1) (s, w') p'"
proof -
  obtain x rp z where f: "first_state x" "store_insert sample_env doc1 x = (Inr rp, z)" "faults (snd z) = []"
    "store_inv sample_env [] log1 z" "st_opts (fst z) = opts1" "next_seq_of z = 4" "snapshot_load (e_crc sample_env) (snd z) = Inr None"
    by (rule filled_sample)
  note I = store_invD [OF f(4)]
  let ?g = "SegFile (active_id z)" let ?c = "log_bytes sample_env log1"
  let ?w = "put_file ?g (take (length ?c - 1) ?c) (snd z)"
  have c: "seg_content (seg_of z) = ?c" using I(1) by (simp add: represents_def active_ok_def)
  have fz: "file_of (snd z) ?g = ?c" using I(3) c file_of_content [of "seg_of z"] by (simp add: flushed_def seg_of_def)
  have fw: "file_of ?w ?g = take (length ?c - 1) ?c" by (simp add: put_file_def file_of_def)
  have pos: "0 < log_len log1" using frame_len_pos by (simp add: records1)
  then have less: "length (file_of ?w ?g) < log_len log1" by (simp add: fw len_simps)
  have crash: "crash_of z ?w" unfolding crash_of_def fw c by (auto simp: put_file_def)
  have l: "snapshot_load (e_crc sample_env) ?w = Inr None"
    using f(7) snapshot_load_cong [of ?w "snd z"] by (simp add: put_file_def)
  have n: "next_seq_of z < - 1" "faults ?w = []" using f(3,6) by (simp_all add: put_file_def)
  from crash_opens [OF I(1,2) sample_env_ok crash n(1) l n(2)] obtain s w' where
    o: "store_open sample_env (st_opts (fst z)) ?w = (Inr s, w')" by blast
  from crash_leaves_prefix [OF I(1,2) sample_env_ok crash n(1) l o] obtain m p' t where
    m: "m \<le> length log1" "represents sample_env [] (take m log1) (s, w') p'" "file_of ?w ?g = log_bytes sample_env (take m log1) @ t"
    by blast
  have "m \<noteq> length log1" using m(3) less by (auto simp: len_simps)
  with m(1,2) have "m < length log1 \<and> represents sample_env [] (take m log1) (s, w') p'" by simp
  moreover have "length (file_of ?w ?g) < length (file_of (snd z) ?g)" using less by (simp add: fz len_simps)
  ultimately show ?thesis using f(1,2) crash o f(5) by metis
qed

text \<open>
  C4: After an fsync of an undisturbed shard nothing acknowledged depends on the page cache: if every
  file but the active segment is as it was, and the active segment has at least the bytes the
  fsync put on the device, then the next open that returns has all the maps. Undisturbed (reachable)
  means no compaction, no crash inside an insert, and no deletion, seal, snapshot or rewind that
  failed: after a failed seal an fsync covers records that the next open removes. The sequence
  counter must not be at its end, and the embedding dimension is below 2 ^ 32.
\<close>

theorem fsync_survives_power_loss:
  assumes "reachable E opts x" "env_ok E" "unat (so_n_embd opts) < 2 ^ 32" "next_seq_of x < - 1"
    and "store_fsync x = (Inr u, z)" "crash_of z w"
    and "length (the (fmlookup (synced (snd z)) (SegFile (active_id z)))) \<le> length (file_of w (SegFile (active_id z)))"
    and "fs_exists w (SegFile (active_id z))" "store_open E opts w = (Inr s, w')"
  shows "st_maps s = st_maps (fst x)"
proof -
  from reachable_inv [OF assms(1-3)] obtain sl al where i: "store_inv E sl al x" "st_opts (fst x) = opts" by blast
  note F = fsync_inv [OF i(1) assms(5)]
  have "files w = files (snd z)" by (rule power_loss_files [OF i(1) assms(5-8)])
  moreover have "next_seq_of z < - 1" using assms(4) F(5) by simp
  moreover have "store_open E (st_opts (fst z)) w = (Inr s, w')" using assms(9) F(3) i(2) by simp
  ultimately have "st_maps s = st_maps (fst z)" using reopen_world(2) [OF F(1) assms(2)] by blast
  then show ?thesis using F(2) by simp
qed

lemma fsync_survives_power_loss_witness:
  "\<exists>x z s w'. reachable sample_env opts1 x \<and> store_fsync x = (Inr (), z)
     \<and> store_open sample_env opts1 ((snd z)\<lparr>faults := []\<rparr>) = (Inr s, w') \<and> st_maps s = st_maps (fst x)
     \<and> fmlookup (docs (st_maps s)) 10 \<noteq> None"
proof -
  obtain x0 rp x where f: "faults (snd x) = []" "store_inv sample_env [] log1 x" and r: "reachable sample_env opts1 x"
    and o1: "st_opts (fst x) = opts1" and n4: "next_seq_of x = 4" and m: "st_maps (fst x) = maps_after_insert sample_env x0 doc1"
    by (rule filled_sample)
  from runsD [OF runs_on_active [OF runs_seg_sync] fineI [OF f(2,1)]] obtain z where
    fs: "store_fsync x = (Inr (), z)" unfolding store_fsync_def by auto
  note F = fsync_inv [OF f(2) fs]
  have nx: "next_seq_of x < - 1" using n4 by simp
  then have n: "next_seq_of z < - 1" using F(5) by simp
  let ?w = "(snd z)\<lparr>faults := []\<rparr>"
  from second_open [OF F(1) _ n] F(3) o1 obtain s w' where o: "store_open sample_env opts1 ?w = (Inr s, w')" by auto
  have c: "crash_of z ?w" using crash_refl [of z] by (simp add: crash_of_def file_of_def)
  have l: "length (the (fmlookup (synced (snd z)) (SegFile (active_id z)))) \<le> length (file_of ?w (SegFile (active_id z)))"
  proof -
    have "seg_content (seg_of z) = log_bytes sample_env log1" "flushed z"
      using F(1) by (simp_all add: store_inv_def represents_def active_ok_def)
    then have "file_of (snd z) (SegFile (active_id z)) = log_bytes sample_env log1"
      using file_of_content [of "seg_of z"] by (simp add: flushed_def seg_of_def)
    then show ?thesis using F(4,6) by (simp add: file_of_def)
  qed
  have e: "fs_exists ?w (SegFile (active_id z))"
    using F(1) by (simp add: store_inv_def represents_def active_ok_def seg_ok_def seg_of_def fs_exists_def)
  note S = fsync_survives_power_loss [OF r sample_env_ok opts1_dim nx fs c l e o]
  have "fmlookup (docs (maps_after_insert sample_env x0 doc1)) 10 \<noteq> None"
    by (simp add: maps_after_insert_def publish_def doc1_id)
  with S m have "fmlookup (docs (st_maps s)) 10 \<noteq> None" by simp
  with S r fs o show ?thesis by blast
qed

section \<open>Operations\<close>



text \<open>
  C7: An insert is all or nothing up to the last record: when validation refuses the document,
  or writing its records fails and the segment is rewound, the maps are unchanged, the log is
  the same, and the invariant holds.
\<close>

theorem failed_insert_changes_nothing:
  assumes "store_inv E sl al x" "env_ok E" "store_insert E doc x = (Inl e, z)"
    and "unat (next_seq_of x) + 2 + length (distinct_summaries doc) + length (dd_splits doc) < 2 ^ 64"
    and "\<forall>a b. e \<noteq> RewindFailed a b" "\<forall>ap y. append_document E doc (distinct_summaries doc) x \<noteq> (Inr ap, y)"
  shows "store_inv E sl al z \<and> st_maps (fst z) = st_maps (fst x)"
  using refused_inv [OF assms] by blast

definition doc_bad :: document_dto where
  "doc_bad = doc1\<lparr>dd_splits := [spl1\<lparr>sd_embedding := None\<rparr>]\<rparr>"

lemma doc_bad_refused:
  assumes "st_opts (fst x) = opts1"
  shows "store_insert sample_env doc_bad x = (Inl (NoEmbedding ESplit 20), x)"
    "append_document sample_env doc_bad (distinct_summaries doc_bad) x \<noteq> (Inr ap, y)"
proof -
  have v: "validate opts1 doc_bad = Inl (NoEmbedding ESplit 20)"
    by (simp add: validate_def doc_bad_def doc1_def spl1_def sum1_def emb1_def opts1_def check_embedding_def opt_list_def)
  then show "store_insert sample_env doc_bad x = (Inl (NoEmbedding ESplit 20), x)"
    using assms by (cases x) (simp add: store_insert_def bindM_def the_store_def getM_def liftM_def)
  show "append_document sample_env doc_bad (distinct_summaries doc_bad) x \<noteq> (Inr ap, y)"
    by (auto simp: append_document_def append_split_def expect_vector_def doc_bad_def bindM_Inr seqM_Inr liftM_Inr)
qed

lemma failed_insert_changes_nothing_witness:
  "\<exists>x e z. first_state x \<and> store_insert sample_env doc_bad x = (Inl e, z) \<and> store_inv sample_env [] [] z"
proof -
  obtain x where x: "first_state x" using first_state_exists by blast
  then have r: "store_inv sample_env [] [] x" "st_opts (fst x) = opts1" "next_seq_of x = 1" by (simp_all add: first_state_def)
  have b: "unat (next_seq_of x) + 2 + length (distinct_summaries doc_bad) + length (dd_splits doc_bad) < 2 ^ 64"
  proof -
    have "length (distinct_summaries doc_bad) \<le> 1"
      by (simp add: distinct_summaries_def all_summaries_def doc_bad_def doc1_def spl1_def opt_list_def)
    then show ?thesis using r(3) by (simp add: doc_bad_def)
  qed
  from failed_insert_changes_nothing [OF r(1) sample_env_ok doc_bad_refused(1) [OF r(2)] b] doc_bad_refused [OF r(2)] x
  show ?thesis by blast
qed

text \<open>
  Validation is exactly the shard's contract: a document is accepted if and only if every
  split and every summary, in the document's list or in a split's, has an embedding of the
  shard's model and dimension; the accepted summaries are then written once each, in order of
  first appearance.
\<close>

theorem validate_is_the_contract:
  "validate opts doc = Inr us \<longleftrightarrow>
     good_document opts doc \<and> us = dedup_on ud_summary_id {} (all_summaries doc)"
  by (rule validate_Inr)

text \<open>
  C15: Writing a document that meets the contract cannot fail on its own account: when the file
  system does not fail, the insert returns.
\<close>

theorem good_insert_returns:
  assumes "good_document (st_opts (fst x)) doc" "store_inv E sl al x" "env_ok E" "faults (snd x) = []"
  shows "\<exists>rp z. store_insert E doc x = (Inr rp, z)"
proof (rule insert_succeeds [OF assms(1) _ assms(3)])
  show "fine x"
    using assms(2,4)
    by (simp add: store_inv_def represents_def active_ok_def seg_ok_def fine_def seg_fine_def seg_of_def)
  show "mf_version (st_manifest (fst x)) = MANIFEST_VERSION"
    using assms(2) by (simp add: store_inv_def durable_def)
qed

lemma good_insert_returns_witness:
  "\<exists>x rp z. first_state x \<and> store_insert sample_env doc1 x = (Inr rp, z)"
proof -
  obtain x where x: "first_state x" using first_state_exists by blast
  then have r: "store_inv sample_env [] [] x" "good_document (st_opts (fst x)) doc1" "faults (snd x) = []"
    using good1 by (simp_all add: first_state_def)
  from good_insert_returns [OF r(2,1) sample_env_ok r(3)] x show ?thesis by blast
qed

text \<open>
  C8: Deleting a document logs one record and takes out of the maps the document, the splits its
  entry lists and the summaries its entry lists, whether in the document's own list or in those
  of its splits only; every other document, split and summary keeps its entry. Deleting one that is not there
  logs and changes nothing. The invariant is kept and a later read does not find the document.
\<close>

theorem delete_does_its_job:
  assumes "store_inv E sl al x" "env_ok E" "has_room x (delete_log E x d)" "store_delete E d x = (Inr r, z)"
  shows "(\<exists>sl' al'. store_inv E sl' al' z
      \<and> whole_log sl' al' = whole_log sl al @ (if is_live x d then delete_log E x d else []))
    \<and> docs (st_maps (fst z)) = fmdrop d (docs (st_maps (fst x)))
    \<and> (\<forall>i. fmlookup (splits (st_maps (fst z))) i =
        (if \<exists>e. fmlookup (docs (st_maps (fst x))) d = Some e \<and> i \<in> set (de_split_ids e) then None
         else fmlookup (splits (st_maps (fst x))) i))
    \<and> (\<forall>i. fmlookup (summaries (st_maps (fst z))) i =
        (if \<exists>e. fmlookup (docs (st_maps (fst x))) d = Some e
              \<and> (i \<in> set (opt_list (de_summary_ids e)) \<or> i \<in> set (de_extra_summary_ids e)) then None
         else fmlookup (summaries (st_maps (fst x))) i))
    \<and> get_doc E (fst z) (snd z) d emb = Inr None"
proof -
  from delete_inv [OF assms] have
    i: "\<exists>sl' al'. store_inv E sl' al' z \<and> whole_log sl' al' = whole_log sl al @ (if is_live x d then delete_log E x d else [])"
    and m: "st_maps (fst z) = drop_doc d (active_id x) (st_maps (fst x))" by blast+
  have "fmlookup (docs (st_maps (fst z))) d = None" by (simp add: m)
  then have g: "get_doc E (fst z) (snd z) d emb = Inr None" by (simp add: get_doc_def)
  have "docs (st_maps (fst z)) = fmdrop d (docs (st_maps (fst x)))" by (simp add: m)
  with i g show ?thesis unfolding m
    by (cases "fmlookup (docs (st_maps (fst x))) d") (simp_all add: drop_doc_eq fmlookup_fmremoves owned_summary_ids_def)
qed

lemma delete_does_its_job_witness:
  "\<exists>x r z. reachable sample_env opts1 x \<and> store_delete sample_env 10 x = (Inr r, z)
     \<and> fmlookup (splits (st_maps (fst x))) 20 \<noteq> None \<and> fmlookup (splits (st_maps (fst z))) 20 = None
     \<and> fmlookup (summaries (st_maps (fst x))) 30 \<noteq> None \<and> fmlookup (summaries (st_maps (fst z))) 30 = None
     \<and> get_doc sample_env (fst z) (snd z) 10 True = Inr None"
proof -
  obtain x0 rp x where f: "faults (snd x) = []" "store_inv sample_env [] log1 x" "has_room x (delete_log sample_env x 10)"
    and r: "reachable sample_env opts1 x" and m: "st_maps (fst x) = maps_after_insert sample_env x0 doc1"
    by (rule filled_sample)
  from delete_succeeds [OF fineI [OF f(2,1)] sample_env_ok version_first [OF f(2)]] obtain q z where
    z: "store_delete sample_env 10 x = (Inr q, z)" by blast
  let ?e = "ap_doc_entry (appended_here sample_env x0 doc1)"
  have e: "fmlookup (docs (st_maps (fst x))) 10 = Some ?e"
    unfolding m by (simp add: maps_after_insert_def publish_def doc1_id)
  have l: "20 \<in> set (de_split_ids ?e)" "30 \<in> set (opt_list (de_summary_ids ?e)) \<or> 30 \<in> set (de_extra_summary_ids ?e)"
    by (simp_all add: appended_here_def appended_of_def Let_def doc1_def spl1_def sum1_def opt_list_def extra_summary_ids_of_def)
  have before: "fmlookup (splits (st_maps (fst x))) 20 \<noteq> None" "fmlookup (summaries (st_maps (fst x))) 30 \<noteq> None"
    unfolding m by (simp_all add: maps_after_insert_def publish_def appended_here_def appended_of_def Let_def doc1_def spl1_def
        sum1_def distinct_summaries_def all_summaries_def opt_list_def)
  note D = delete_does_its_job [OF f(2) sample_env_ok f(3) z, of True]
  have "fmlookup (splits (st_maps (fst z))) 20 = None" "fmlookup (summaries (st_maps (fst z))) 30 = None"
    using D e l by simp_all
  with before D r z show ?thesis by blast
qed

text \<open>
  Publishing a snapshot loses nothing and replay agrees with it: afterwards the snapshot on
  disk is the maps, its sequence number covers the whole log and is the one the manifest names,
  and the invariant holds, so the next open may start from it.
\<close>

theorem snapshot_is_the_maps:
  assumes "store_inv E sl al x" "env_ok E" "maps_fit (st_maps (fst x))" "snapshot_meta E x = (Inr q, z)"
  shows "store_inv E sl al z \<and> st_maps (fst z) = st_maps (fst x)
    \<and> snapshot_load (e_crc E) (snd z) = Inr (Some (st_maps (fst x), q))
    \<and> mf_snapshot_seq (st_manifest (fst z)) = q \<and> (\<forall>r \<in> set (whole_log sl al). lr_seq r \<le> q)"
proof -
  note I = store_invD [OF assms(1)]
  note S = snapshot_meta_represents [OF assms(4) I(1) assms(2) I(2) assms(3)]
  have "lr_seq r \<le> q" if "r \<in> set (whole_log sl al)" for r
  proof -
    have "lr_seq r < next_seq_of x" "q = next_seq_of x - 1" using S that by (auto simp: seqs_below_def)
    moreover from this(1) have "next_seq_of x \<noteq> 0" by auto
    ultimately show ?thesis by (simp add: word_less_nat_alt word_le_nat_alt unat_minus_one)
  qed
  with snapshot_inv [OF assms] S show ?thesis by blast
qed

lemma snapshot_is_the_maps_witness:
  "\<exists>x q z. first_state x \<and> snapshot_meta sample_env x = (Inr q, z)
     \<and> snapshot_load sample_crc (snd z) = Inr (Some (empty_maps, q))"
proof -
  obtain x where x: "first_state x" using first_state_exists by blast
  then have r: "store_inv sample_env [] [] x" "maps_fit (st_maps (fst x))" "st_maps (fst x) = empty_maps"
    by (simp_all add: first_state_def maps_fit_def empty_maps_def fcard_fempty)
  from snapshot_meta_returns [OF first_fine [OF x] sample_env_ok] obtain q z where
    s: "snapshot_meta sample_env x = (Inr q, z)" by blast
  have "e_crc sample_env = sample_crc" by (simp add: sample_env_def)
  with snapshot_is_the_maps [OF r(1) sample_env_ok r(2) s] r(3)
  have "snapshot_load sample_crc (snd z) = Inr (Some (empty_maps, q))" by simp
  with x s show ?thesis by blast
qed

end
