(* ===== verification/Soft_Float.thy ===== *)
theory Soft_Float
  imports Prelude
begin

text \<open>
  IEEE 754 binary floating point, as the \<open>f32\<close> and \<open>f64\<close> operations of the Rust language
  round: a number is its bits, an operation is exact arithmetic followed by one rounding to
  nearest, ties to even. Used for vector distances, result ordering and the compaction ratio.
  Rust leaves the sign and payload of a NaN result open; the model takes the positive quiet one.
\<close>

section \<open>Formats and values\<close>

text \<open>\<open>ff_width\<close> bits, \<open>ff_prec\<close> of them significant, and the exponent of the least subnormal.\<close>

record float_format =
  ff_width :: nat
  ff_prec :: nat
  ff_emin :: int

definition F32_format :: float_format where
  "F32_format = \<lparr> ff_width = 32, ff_prec = 24, ff_emin = - 149 \<rparr>"

definition F64_format :: float_format where
  "F64_format = \<lparr> ff_width = 64, ff_prec = 53, ff_emin = - 1074 \<rparr>"

text \<open>\<open>FFin s m e\<close> is \<open>m * 2 ^ e\<close>, negated when \<open>s\<close>.\<close>

datatype fval = FNan | FInf bool | FFin bool nat int

definition sign_weight :: "float_format \<Rightarrow> nat" where
  "sign_weight F = 2 ^ (ff_width F - 1)"

definition hidden_bit :: "float_format \<Rightarrow> nat" where
  "hidden_bit F = 2 ^ (ff_prec F - 1)"

text \<open>The magnitude bits of infinity: all exponent bits set.\<close>

definition inf_bits :: "float_format \<Rightarrow> nat" where
  "inf_bits F = sign_weight F - hidden_bit F"

definition nan_bits :: "float_format \<Rightarrow> nat" where
  "nan_bits F = inf_bits F + hidden_bit F div 2"

definition with_sign :: "float_format \<Rightarrow> bool \<Rightarrow> nat \<Rightarrow> nat" where
  "with_sign F s mag = (if s then sign_weight F + mag else mag)"

definition fdecode :: "float_format \<Rightarrow> nat \<Rightarrow> fval" where
  "fdecode F bits =
     (let s = sign_weight F \<le> bits; mag = bits mod sign_weight F;
          ex = mag div hidden_bit F; fr = mag mod hidden_bit F in
      if inf_bits F < mag then FNan
      else if mag = inf_bits F then FInf s
      else if ex = 0 then FFin s fr (ff_emin F)
      else FFin s (hidden_bit F + fr) (ff_emin F + int ex - 1))"

section \<open>Rounding\<close>

fun ilog2 :: "nat \<Rightarrow> nat" where
  "ilog2 n = (if n < 2 then 0 else Suc (ilog2 (n div 2)))"

declare ilog2.simps [simp del]

text \<open>The integer part of the base-two logarithm of a positive fraction.\<close>

definition scale :: "nat \<Rightarrow> nat \<Rightarrow> int \<Rightarrow> nat \<times> nat" where
  "scale num den e = (if 0 \<le> e then (num, den * 2 ^ nat e) else (num * 2 ^ nat (- e), den))"

definition flog2 :: "nat \<Rightarrow> nat \<Rightarrow> int" where
  "flog2 num den =
     (let k = int (ilog2 num) - int (ilog2 den); (n, d) = scale num den k in if n < d then k - 1 else k)"

definition half_even :: "nat \<Rightarrow> nat \<Rightarrow> nat" where
  "half_even n d =
     (let q = n div d; r = n mod d in
      if 2 * r < d then q else if d < 2 * r then q + 1 else q + q mod 2)"

text \<open>The nearest number of the format; a carry out of the significand moves to the exponent by itself.\<close>

definition fround :: "float_format \<Rightarrow> bool \<Rightarrow> nat \<Rightarrow> nat \<Rightarrow> nat" where
  "fround F s num den =
     (if num = 0 then with_sign F s 0
      else let e = max (ff_emin F) (flog2 num den - int (ff_prec F) + 1);
               (n, d) = scale num den e in
           with_sign F s (min (inf_bits F) (nat (e - ff_emin F) * hidden_bit F + half_even n d)))"

text \<open>A finite value as a fraction, and the rounding of a signed one.\<close>

definition fraction :: "nat \<Rightarrow> int \<Rightarrow> nat \<times> nat" where
  "fraction m e = (if 0 \<le> e then (m * 2 ^ nat e, 1) else (m, 2 ^ nat (- e)))"

definition fround_bin :: "float_format \<Rightarrow> bool \<Rightarrow> nat \<Rightarrow> int \<Rightarrow> nat" where
  "fround_bin F s m e = (case fraction m e of (n, d) \<Rightarrow> fround F s n d)"

section \<open>Arithmetic\<close>

definition fneg :: "float_format \<Rightarrow> nat \<Rightarrow> nat" where
  "fneg F a = (if sign_weight F \<le> a then a - sign_weight F else a + sign_weight F)"

definition signed :: "bool \<Rightarrow> nat \<Rightarrow> int" where
  "signed s m = (if s then - int m else int m)"

definition fadd :: "float_format \<Rightarrow> nat \<Rightarrow> nat \<Rightarrow> nat" where
  "fadd F a b =
     (case (fdecode F a, fdecode F b) of
        (FNan, _) \<Rightarrow> nan_bits F
      | (_, FNan) \<Rightarrow> nan_bits F
      | (FInf s, FInf t) \<Rightarrow> if s = t then a else nan_bits F
      | (FInf s, FFin t m e) \<Rightarrow> a
      | (FFin s m e, FInf t) \<Rightarrow> b
      | (FFin s m e, FFin t n g) \<Rightarrow>
          let low = min e g;
              v = signed s (m * 2 ^ nat (e - low)) + signed t (n * 2 ^ nat (g - low)) in
          if v = 0 then with_sign F (s \<and> t) 0
          else fround_bin F (v < 0) (nat \<bar>v\<bar>) low)"

definition fsub :: "float_format \<Rightarrow> nat \<Rightarrow> nat \<Rightarrow> nat" where
  "fsub F a b = (if fdecode F b = FNan then nan_bits F else fadd F a (fneg F b))"

definition fmul :: "float_format \<Rightarrow> nat \<Rightarrow> nat \<Rightarrow> nat" where
  "fmul F a b =
     (case (fdecode F a, fdecode F b) of
        (FNan, _) \<Rightarrow> nan_bits F
      | (_, FNan) \<Rightarrow> nan_bits F
      | (FInf s, FInf t) \<Rightarrow> with_sign F (s \<noteq> t) (inf_bits F)
      | (FInf s, FFin t m e) \<Rightarrow> if m = 0 then nan_bits F else with_sign F (s \<noteq> t) (inf_bits F)
      | (FFin s m e, FInf t) \<Rightarrow> if m = 0 then nan_bits F else with_sign F (s \<noteq> t) (inf_bits F)
      | (FFin s m e, FFin t n g) \<Rightarrow> fround_bin F (s \<noteq> t) (m * n) (e + g))"

definition fdiv :: "float_format \<Rightarrow> nat \<Rightarrow> nat \<Rightarrow> nat" where
  "fdiv F a b =
     (case (fdecode F a, fdecode F b) of
        (FNan, _) \<Rightarrow> nan_bits F
      | (_, FNan) \<Rightarrow> nan_bits F
      | (FInf s, FInf t) \<Rightarrow> nan_bits F
      | (FInf s, FFin t m e) \<Rightarrow> with_sign F (s \<noteq> t) (inf_bits F)
      | (FFin s m e, FInf t) \<Rightarrow> with_sign F (s \<noteq> t) 0
      | (FFin s m e, FFin t n g) \<Rightarrow>
          if n = 0 then (if m = 0 then nan_bits F else with_sign F (s \<noteq> t) (inf_bits F))
          else (case fraction m (e - g) of (num, den) \<Rightarrow> fround F (s \<noteq> t) num (den * n)))"

text \<open>
  The square root: the integer root of the significand scaled to an even exponent with enough
  digits, and one sticky digit below it, so that one rounding gives the correctly rounded root.
\<close>

fun isqrt_from :: "nat \<Rightarrow> nat \<Rightarrow> nat \<Rightarrow> nat" where
  "isqrt_from 0 n r = r"
| "isqrt_from (Suc k) n r =
     isqrt_from k n (if (r + 2 ^ k) * (r + 2 ^ k) \<le> n then r + 2 ^ k else r)"

definition isqrt :: "nat \<Rightarrow> nat" where
  "isqrt n = isqrt_from (ilog2 n div 2 + 1) n 0"

definition fsqrt :: "float_format \<Rightarrow> nat \<Rightarrow> nat" where
  "fsqrt F a =
     (case fdecode F a of
        FNan \<Rightarrow> nan_bits F
      | FInf s \<Rightarrow> if s then nan_bits F else a
      | FFin s m e \<Rightarrow>
          if m = 0 then a
          else if s then nan_bits F
          else let m' = (if even e then m else 2 * m) * 4 ^ (ff_prec F + 2);
                   e' = (if even e then e else e - 1) - 2 * int (ff_prec F + 2);
                   r = isqrt m' in
               fround_bin F False (2 * r + (if r * r = m' then 0 else 1)) (e' div 2 - 1))"

text \<open>\<open>as f64\<close> on an unsigned integer.\<close>

definition f_of_nat :: "float_format \<Rightarrow> nat \<Rightarrow> nat" where
  "f_of_nat F n = fround F False n 1"

section \<open>Comparison\<close>

datatype ordering = Lt | Eq | Gt

definition cmp_int :: "int \<Rightarrow> int \<Rightarrow> ordering" where
  "cmp_int a b = (if a < b then Lt else if a = b then Eq else Gt)"

text \<open>\<open>partial_cmp\<close>: no answer when a NaN is involved.\<close>

definition fcmp :: "float_format \<Rightarrow> nat \<Rightarrow> nat \<Rightarrow> ordering option" where
  "fcmp F a b =
     (case (fdecode F a, fdecode F b) of
        (FNan, _) \<Rightarrow> None
      | (_, FNan) \<Rightarrow> None
      | (FInf s, FInf t) \<Rightarrow> Some (if s = t then Eq else if s then Lt else Gt)
      | (FInf s, FFin t m e) \<Rightarrow> Some (if s then Lt else Gt)
      | (FFin s m e, FInf t) \<Rightarrow> Some (if t then Gt else Lt)
      | (FFin s m e, FFin t n g) \<Rightarrow>
          let low = min e g in
          Some (cmp_int (signed s (m * 2 ^ nat (e - low))) (signed t (n * 2 ^ nat (g - low)))))"

section \<open>The two widths of the sources\<close>

type_synonym f64 = "64 word"

definition f32_op :: "(nat \<Rightarrow> nat \<Rightarrow> nat) \<Rightarrow> f32 \<Rightarrow> f32 \<Rightarrow> f32" where
  "f32_op f a b = word_of_nat (f (unat a) (unat b))"

definition f32_add :: "f32 \<Rightarrow> f32 \<Rightarrow> f32" where "f32_add = f32_op (fadd F32_format)"
definition f32_sub :: "f32 \<Rightarrow> f32 \<Rightarrow> f32" where "f32_sub = f32_op (fsub F32_format)"
definition f32_mul :: "f32 \<Rightarrow> f32 \<Rightarrow> f32" where "f32_mul = f32_op (fmul F32_format)"
definition f32_div :: "f32 \<Rightarrow> f32 \<Rightarrow> f32" where "f32_div = f32_op (fdiv F32_format)"

definition f32_sqrt :: "f32 \<Rightarrow> f32" where
  "f32_sqrt a = word_of_nat (fsqrt F32_format (unat a))"

definition f32_partial_cmp :: "f32 \<Rightarrow> f32 \<Rightarrow> ordering option" where
  "f32_partial_cmp a b = fcmp F32_format (unat a) (unat b)"

definition f32_is_nan :: "f32 \<Rightarrow> bool" where
  "f32_is_nan a \<longleftrightarrow> fdecode F32_format (unat a) = FNan"

definition f32_le :: "f32 \<Rightarrow> f32 \<Rightarrow> bool" where
  "f32_le a b \<longleftrightarrow> f32_partial_cmp a b = Some Lt \<or> f32_partial_cmp a b = Some Eq"

definition f32_zero :: f32 where "f32_zero = 0"
definition f32_neg_zero :: f32 where "f32_neg_zero = 0x80000000"
definition f32_one :: f32 where "f32_one = 0x3F800000"
definition f32_epsilon :: f32 where "f32_epsilon = 0x34000000"
definition f32_infinity :: f32 where "f32_infinity = 0x7F800000"

text \<open>\<open>f32::min\<close>: the other operand when one is a NaN.\<close>

definition f32_min :: "f32 \<Rightarrow> f32 \<Rightarrow> f32" where
  "f32_min a b = (if f32_is_nan a then b else if f32_is_nan b then a else if f32_le a b then a else b)"

text \<open>\<open>Iterator::sum\<close> over \<open>f32\<close> folds from the left, starting at negative zero.\<close>

definition f32_sum :: "f32 list \<Rightarrow> f32" where
  "f32_sum xs = fold (\<lambda>x acc. f32_add acc x) xs f32_neg_zero"

text \<open>\<open>f32::total_cmp\<close>: the bits, with the magnitude flipped below zero, compared as signed integers.\<close>

definition total_key :: "nat \<Rightarrow> int" where
  "total_key n = (if n < 2 ^ 31 then int n else - int (n - 2 ^ 31) - 1)"

definition f32_total_key :: "f32 \<Rightarrow> int" where
  "f32_total_key a = total_key (unat a)"

definition f32_total_cmp :: "f32 \<Rightarrow> f32 \<Rightarrow> ordering" where
  "f32_total_cmp a b = cmp_int (f32_total_key a) (f32_total_key b)"

definition f64_of_u64 :: "u64 \<Rightarrow> f64" where
  "f64_of_u64 n = word_of_nat (f_of_nat F64_format (unat n))"

definition f64_div :: "f64 \<Rightarrow> f64 \<Rightarrow> f64" where
  "f64_div a b = word_of_nat (fdiv F64_format (unat a) (unat b))"

definition f64_gt :: "f64 \<Rightarrow> f64 \<Rightarrow> bool" where
  "f64_gt a b \<longleftrightarrow> fcmp F64_format (unat a) (unat b) = Some Gt"

definition f64_ge :: "f64 \<Rightarrow> f64 \<Rightarrow> bool" where
  "f64_ge a b \<longleftrightarrow> fcmp F64_format (unat a) (unat b) \<in> {Some Gt, Some Eq}"

section \<open>Comparison is an order on the numbers\<close>

text \<open>
  Every number of a format is an integer multiple of its least subnormal; infinity is the next
  multiple of the pattern. The multiple grows with the magnitude bits, so comparing numbers is
  comparing integers.
\<close>

definition fmag :: "float_format \<Rightarrow> nat \<Rightarrow> nat" where
  "fmag F mag =
     (let ex = mag div hidden_bit F; fr = mag mod hidden_bit F in
      if ex = 0 then fr else (hidden_bit F + fr) * 2 ^ (ex - 1))"

definition fnum :: "float_format \<Rightarrow> nat \<Rightarrow> int" where
  "fnum F bits = signed (sign_weight F \<le> bits) (fmag F (bits mod sign_weight F))"

lemma hidden_bit_pos [simp]: "0 < hidden_bit F"
  by (simp add: hidden_bit_def)

lemma fmag_mono:
  assumes "x < y"
  shows "fmag F x < fmag F y"
proof -
  let ?h = "hidden_bit F"
  let ?ex = "x div ?h" and ?ey = "y div ?h" and ?fx = "x mod ?h" and ?fy = "y mod ?h"
  have h: "0 < ?h" by simp
  have fx: "?fx < ?h" and fy: "?fy < ?h" by simp_all
  have le: "?ex \<le> ?ey" using assms by (simp add: div_le_mono)
  show ?thesis
  proof (cases "?ex = ?ey")
    case True
    have "?fx < ?fy"
    proof -
      have "x = ?ex * ?h + ?fx" "y = ?ey * ?h + ?fy" by simp_all
      with assms True show ?thesis by (metis add_less_cancel_left)
    qed
    with True show ?thesis by (simp add: fmag_def Let_def)
  next
    case False
    with le have lt: "?ex < ?ey" by simp
    show ?thesis
    proof (cases "?ex = 0")
      case True
      have "?fx < (?h + ?fy) * 2 ^ (?ey - 1)"
      proof -
        have "?h + ?fy \<le> (?h + ?fy) * 2 ^ (?ey - 1)" by simp
        with fx show ?thesis by linarith
      qed
      with True lt show ?thesis by (simp add: fmag_def Let_def)
    next
      case False
      have "(?h + ?fx) * 2 ^ (?ex - 1) < (2 * ?h) * 2 ^ (?ex - 1)" using fx by simp
      also have "\<dots> = ?h * 2 ^ ?ex" using False by (cases "?ex") simp_all
      also have "\<dots> \<le> ?h * 2 ^ (?ey - 1)" using lt by (simp add: power_increasing)
      also have "\<dots> \<le> (?h + ?fy) * 2 ^ (?ey - 1)" by simp
      finally show ?thesis using False lt by (simp add: fmag_def Let_def)
    qed
  qed
qed

lemma fmag_less_iff: "fmag F x < fmag F y \<longleftrightarrow> x < y"
  using fmag_mono [of x y F] fmag_mono [of y x F] by (cases x y rule: linorder_cases) auto

lemma fdecode_fin:
  assumes "fdecode F bits = FFin s m e"
  shows "s = (sign_weight F \<le> bits)" "ff_emin F \<le> e" "m * 2 ^ nat (e - ff_emin F) = fmag F (bits mod sign_weight F)"
    "bits mod sign_weight F < inf_bits F"
proof -
  let ?mag = "bits mod sign_weight F"
  let ?ex = "?mag div hidden_bit F"
  show "s = (sign_weight F \<le> bits)" "bits mod sign_weight F < inf_bits F"
    using assms by (auto simp: fdecode_def Let_def split: if_splits)
  have "ff_emin F \<le> e \<and> m * 2 ^ nat (e - ff_emin F) = fmag F ?mag"
  proof (cases "?ex = 0")
    case True
    with assms show ?thesis by (auto simp: fdecode_def fmag_def Let_def split: if_splits)
  next
    case False
    with assms have e: "e = ff_emin F + int ?ex - 1" "m = hidden_bit F + ?mag mod hidden_bit F"
      by (auto simp: fdecode_def Let_def split: if_splits)
    have "nat (e - ff_emin F) = ?ex - 1" using e(1) False by simp
    with e False show ?thesis by (simp add: fmag_def Let_def)
  qed
  then show "ff_emin F \<le> e" "m * 2 ^ nat (e - ff_emin F) = fmag F ?mag" by blast+
qed

lemma fdecode_inf:
  assumes "fdecode F bits = FInf s"
  shows "s = (sign_weight F \<le> bits)" "bits mod sign_weight F = inf_bits F"
  using assms by (auto simp: fdecode_def Let_def split: if_splits)

lemma cmp_int_scale: "0 < k \<Longrightarrow> cmp_int (a * k) (b * k) = cmp_int a b"
  by (simp add: cmp_int_def)

lemma signed_mult: "signed s (m * k) = signed s m * int k"
  by (simp add: signed_def)

lemma cmp_fin:
  assumes "l \<le> min e g"
  shows "cmp_int (signed s (m * 2 ^ nat (e - min e g))) (signed t (n * 2 ^ nat (g - min e g)))
    = cmp_int (signed s (m * 2 ^ nat (e - l))) (signed t (n * 2 ^ nat (g - l)))"
proof -
  let ?k = "2 ^ nat (min e g - l) :: nat"
  have sp: "(2 :: nat) ^ nat (x - l) = 2 ^ nat (x - min e g) * ?k" if "min e g \<le> x" for x
  proof -
    have "nat (x - l) = nat (x - min e g) + nat (min e g - l)"
      using that assms unfolding nat_add_distrib [symmetric] by (subst nat_add_distrib [symmetric]) simp_all
    then show ?thesis by (simp only: power_add)
  qed
  have "cmp_int (signed s (m * 2 ^ nat (e - l))) (signed t (n * 2 ^ nat (g - l)))
    = cmp_int (signed s (m * 2 ^ nat (e - min e g)) * int ?k) (signed t (n * 2 ^ nat (g - min e g)) * int ?k)"
    using sp [of e] sp [of g] by (simp add: signed_mult mult.assoc)
  also have "\<dots> = cmp_int (signed s (m * 2 ^ nat (e - min e g))) (signed t (n * 2 ^ nat (g - min e g)))"
    by (rule cmp_int_scale) simp
  finally show ?thesis by simp
qed

lemma fcmp_fnum:
  assumes "fdecode F a \<noteq> FNan" "fdecode F b \<noteq> FNan" "0 < inf_bits F"
  shows "fcmp F a b = Some (cmp_int (fnum F a) (fnum F b))"
proof -
  have inf: "fmag F (c mod sign_weight F) < fmag F (inf_bits F)" if "fdecode F c = FFin s m e" for c s m e
    using fdecode_fin(4) [OF that] by (simp add: fmag_less_iff)
  have pos: "0 < fmag F (inf_bits F)" if "fdecode F c = FFin s m e" for c s m e
    using inf [OF that] by (rule le_less_trans [rotated]) simp
  show ?thesis
  proof (cases "fdecode F a")
    case FNan
    with assms show ?thesis by simp
  next
    case a: (FInf s)
    note A = fdecode_inf [OF a]
    show ?thesis
    proof (cases "fdecode F b")
      case FNan
      with assms show ?thesis by simp
    next
      case b: (FInf t)
      note B = fdecode_inf [OF b]
      show ?thesis
      proof (cases "s = t")
        case True
        with a b A B show ?thesis by (simp add: fcmp_def fnum_def cmp_int_def)
      next
        case False
        have "0 < fmag F (inf_bits F)"
          by (rule le_less_trans [OF _ fmag_mono [OF assms(3)]]) simp
        with False a b A B show ?thesis
          by (cases s; cases t) (auto simp: fcmp_def fnum_def cmp_int_def signed_def split: if_splits)
      qed
    next
      case b: (FFin t n g)
      note B = fdecode_fin [OF b]
      show ?thesis
        using inf [OF b] pos [OF b] unfolding fcmp_def fnum_def A(1) [symmetric] B(1) [symmetric] A(2)
        by (cases s; cases t) (simp_all add: a b cmp_int_def signed_def)
    qed
  next
    case a: (FFin s m e)
    note A = fdecode_fin [OF a]
    show ?thesis
    proof (cases "fdecode F b")
      case FNan
      with assms show ?thesis by simp
    next
      case b: (FInf t)
      note B = fdecode_inf [OF b]
      show ?thesis
        using inf [OF a] pos [OF a] unfolding fcmp_def fnum_def A(1) [symmetric] B(1) [symmetric] B(2)
        by (cases s; cases t) (simp_all add: a b cmp_int_def signed_def)
    next
      case b: (FFin t n g)
      note B = fdecode_fin [OF b]
      have "ff_emin F \<le> min e g" using A(2) B(2) by simp
      from cmp_fin [OF this, of s m t n] A(3) B(3) a b A(1) B(1) show ?thesis
        by (simp add: fcmp_def Let_def fnum_def)
    qed
  qed
qed

text \<open>So the numbers are ordered: a preorder in which only the two zeros are equivalent.\<close>

lemma F32_shape [simp]:
  "sign_weight F32_format = 2 ^ 31" "hidden_bit F32_format = 2 ^ 23" "inf_bits F32_format = 2139095040"
  by (simp_all add: sign_weight_def hidden_bit_def inf_bits_def F32_format_def)

definition f32_num :: "f32 \<Rightarrow> int" where
  "f32_num a = fnum F32_format (unat a)"

lemma f32_partial_cmp_num:
  "\<not> f32_is_nan a \<Longrightarrow> \<not> f32_is_nan b \<Longrightarrow> f32_partial_cmp a b = Some (cmp_int (f32_num a) (f32_num b))"
  by (simp add: f32_partial_cmp_def f32_is_nan_def f32_num_def fcmp_fnum)

lemma f32_le_num:
  "\<not> f32_is_nan a \<Longrightarrow> \<not> f32_is_nan b \<Longrightarrow> f32_le a b \<longleftrightarrow> f32_num a \<le> f32_num b"
  by (simp add: f32_le_def f32_partial_cmp_num cmp_int_def)

lemma f32_le_not_nan: "f32_le a b \<Longrightarrow> \<not> f32_is_nan a \<and> \<not> f32_is_nan b"
  by (auto simp: f32_le_def f32_partial_cmp_def f32_is_nan_def fcmp_def split: fval.splits)

lemma f32_total_key_inj: "f32_total_key a = f32_total_key b \<longleftrightarrow> a = b"
proof
  assume e: "f32_total_key a = f32_total_key b"
  have "x = y" if "total_key x = total_key y" for x y
    using that by (auto simp: total_key_def split: if_splits)
  with e have "unat a = unat b" unfolding f32_total_key_def by blast
  then show "a = b" by (simp add: unsigned_word_eqI)
qed simp

text \<open>\<open>total_cmp\<close> refines the order of the numbers.\<close>

lemma f32_total_num:
  assumes "f32_num a < f32_num b"
  shows "f32_total_key a < f32_total_key b"
proof -
  have m: "n mod 2 ^ 31 = (if n < 2 ^ 31 then n else n - 2 ^ 31)" if "n < 2 ^ 32" for n :: nat
    using that by (simp add: le_mod_geq)
  have "total_key x < total_key y" if "fnum F32_format x < fnum F32_format y" "x < 2 ^ 32" "y < 2 ^ 32" for x y
    using that fmag_less_iff [of F32_format x y] fmag_less_iff [of F32_format "y - 2 ^ 31" "x - 2 ^ 31"]
    unfolding fnum_def total_key_def signed_def F32_shape(1) m [OF that(2)] m [OF that(3)]
    by (auto split: if_splits)
  with assms show ?thesis
    using unsigned_less [of a] unsigned_less [of b] by (simp add: f32_num_def f32_total_key_def)
qed

section \<open>Rounding is exact on the numbers of the format\<close>

text \<open>The integer logarithm, and its extension to fractions.\<close>

lemma ilog2_bounds: "0 < n \<Longrightarrow> 2 ^ ilog2 n \<le> n \<and> n < 2 ^ Suc (ilog2 n)"
proof (induction n rule: ilog2.induct)
  case (1 n)
  show ?case
  proof (cases "n < 2")
    case True
    with 1(2) show ?thesis by (subst (1 2) ilog2.simps) simp
  next
    case False
    with 1(1) have "2 ^ ilog2 (n div 2) \<le> n div 2 \<and> n div 2 < 2 ^ Suc (ilog2 (n div 2))" by simp
    with False show ?thesis by (subst (1 2) ilog2.simps) auto
  qed
qed

lemma ilog2_unique: "2 ^ k \<le> n \<Longrightarrow> n < 2 ^ Suc k \<Longrightarrow> ilog2 n = k"
proof -
  assume a: "2 ^ k \<le> n" "n < 2 ^ Suc k"
  then have "0 < n" by (metis gr_zeroI not_numeral_le_zero power_not_zero linorder_not_le zero_less_power zero_less_numeral order_less_le_trans)
  from ilog2_bounds [OF this] have b: "2 ^ ilog2 n \<le> n" "n < 2 ^ Suc (ilog2 n)" by simp_all
  have "(2 :: nat) ^ k < 2 ^ Suc (ilog2 n)" "(2 :: nat) ^ ilog2 n < 2 ^ Suc k" using a b by linarith+
  then have "k < Suc (ilog2 n)" "ilog2 n < Suc k" by (simp_all only: power_strict_increasing_iff one_less_numeral_iff semiring_norm)
  then show ?thesis by simp
qed

lemma ilog2_power [simp]: "ilog2 (2 ^ k) = k"
  by (rule ilog2_unique) simp_all

lemma ilog2_shift: "0 < m \<Longrightarrow> ilog2 (m * 2 ^ k) = ilog2 m + k"
  by (rule ilog2_unique) (use ilog2_bounds [of m] in \<open>simp_all add: power_add\<close>)

lemma flog2_bin:
  assumes "0 < m" "fraction m e = (n, d)"
  shows "flog2 n d = int (ilog2 m) + e"
proof (cases "0 \<le> e")
  case True
  with assms have nd: "n = m * 2 ^ nat e" "d = 1" by (simp_all add: fraction_def)
  have k: "int (ilog2 n) - int (ilog2 d) = int (ilog2 m) + e"
    using True nd assms(1) ilog2_power [of 0] by (simp add: ilog2_shift)
  have "2 ^ nat (int (ilog2 m) + e) \<le> n"
    using True nd ilog2_bounds [OF assms(1)] by (simp add: nat_add_distrib power_add)
  then show ?thesis
    unfolding flog2_def Let_def k using True nd by (simp add: scale_def)
next
  case False
  with assms have nd: "n = m" "d = 2 ^ nat (- e)" by (simp_all add: fraction_def)
  have k: "int (ilog2 n) - int (ilog2 d) = int (ilog2 m) + e"
    using False nd by simp
  have b: "2 ^ ilog2 m \<le> m" using ilog2_bounds [OF assms(1)] by simp
  have "\<not> fst (scale n d (int (ilog2 m) + e)) < snd (scale n d (int (ilog2 m) + e))"
  proof (cases "0 \<le> int (ilog2 m) + e")
    case True
    have "d * 2 ^ nat (int (ilog2 m) + e) = 2 ^ (nat (- e) + nat (int (ilog2 m) + e))"
      by (simp add: nd power_add)
    also have "nat (- e) + nat (int (ilog2 m) + e) = ilog2 m" using True False by simp
    finally show ?thesis using True b by (simp add: scale_def nd(1))
  next
    case neg: False
    have "(2 :: nat) ^ nat (- e) = 2 ^ (ilog2 m + nat (- (int (ilog2 m) + e)))"
      using neg by (intro arg_cong [of _ _ "\<lambda>k. 2 ^ k"]) simp
    also have "\<dots> = 2 ^ ilog2 m * 2 ^ nat (- (int (ilog2 m) + e))" by (rule power_add)
    finally have p: "(2 :: nat) ^ nat (- e) = 2 ^ ilog2 m * 2 ^ nat (- (int (ilog2 m) + e))" .
    then have "2 ^ nat (- e) \<le> m * 2 ^ nat (- (int (ilog2 m) + e))"
      using b by (metis mult_le_mono1)
    then show ?thesis using neg by (simp add: scale_def nd)
  qed
  then show ?thesis
    unfolding flog2_def Let_def k by (simp add: case_prod_unfold)
qed

lemma half_even_exact: "0 < d \<Longrightarrow> half_even (q * d) d = q"
  by (simp add: half_even_def Let_def)

lemma scale_fraction:
  assumes "fraction m e = (n, d)" "scale n d g = (n', d')" "g \<le> e"
  shows "n' = m * 2 ^ nat (e - g) * d'" "0 < d'"
proof -
  have "n' = m * 2 ^ nat (e - g) * d' \<and> 0 < d'"
  proof (cases "0 \<le> g")
    case True
    then have e: "0 \<le> e" using assms(3) by simp
    with assms True have nd: "n' = m * 2 ^ nat e" "d' = 2 ^ nat g" by (auto simp: fraction_def scale_def)
    have "nat e = nat (e - g) + nat g" using True assms(3) by simp
    with nd show ?thesis by (simp add: power_add)
  next
    case g: False
    show ?thesis
    proof (cases "0 \<le> e")
      case True
      with assms g have nd: "n' = m * 2 ^ nat e * 2 ^ nat (- g)" "d' = 1" by (auto simp: fraction_def scale_def)
      have "nat (e - g) = nat e + nat (- g)" using True g by simp
      with nd show ?thesis by (simp add: power_add)
    next
      case False
      with assms g have nd: "n' = m * 2 ^ nat (- g)" "d' = 2 ^ nat (- e)" by (auto simp: fraction_def scale_def)
      have "nat (- g) = nat (e - g) + nat (- e)" using False g assms(3) by simp
      with nd show ?thesis by (simp add: power_add)
    qed
  qed
  then show "n' = m * 2 ^ nat (e - g) * d'" "0 < d'" by blast+
qed

lemma fround_decode:
  assumes "fdecode F bits = FFin s m e" "0 < m" "bits < 2 * sign_weight F" "0 < ff_prec F"
  shows "fround_bin F s m e = bits"
proof -
  let ?mag = "bits mod sign_weight F"
  let ?ex = "?mag div hidden_bit F" and ?fr = "?mag mod hidden_bit F"
  note D = fdecode_fin [OF assms(1)]
  obtain n d where nd: "fraction m e = (n, d)" by fastforce
  have frl: "?fr < hidden_bit F" by simp
  have split: "?mag = ?ex * hidden_bit F + ?fr" by simp
  have lg: "flog2 n d = int (ilog2 m) + e" by (rule flog2_bin [OF assms(2) nd])
  have "max (ff_emin F) (flog2 n d - int (ff_prec F) + 1) = e
    \<and> nat (e - ff_emin F) * hidden_bit F + m = ?mag"
  proof (cases "?ex = 0")
    case True
    with assms(1) have me: "m = ?fr" "e = ff_emin F" by (auto simp: fdecode_def Let_def split: if_splits)
    have "2 ^ ilog2 m \<le> m" using ilog2_bounds [OF assms(2)] by simp
    also have "m < 2 ^ (ff_prec F - 1)" using me(1) frl by (simp add: hidden_bit_def)
    finally have "ilog2 m < ff_prec F - 1" by (simp only: power_strict_increasing_iff one_less_numeral_iff semiring_norm)
    with lg me True split show ?thesis by simp
  next
    case False
    with assms(1) have me: "m = hidden_bit F + ?fr" "e = ff_emin F + int ?ex - 1"
      by (auto simp: fdecode_def Let_def split: if_splits)
    have "ilog2 m = ff_prec F - 1"
      by (rule ilog2_unique) (use me(1) frl in \<open>simp_all add: hidden_bit_def\<close>)
    with lg have "flog2 n d - int (ff_prec F) + 1 = e" using assms(4) by simp
    moreover have "nat (e - ff_emin F) = ?ex - 1" using me(2) False by simp
    moreover have "(?ex - 1) * hidden_bit F + m = ?mag"
      using False split me(1) by (cases ?ex) simp_all
    ultimately show ?thesis using D(2) by simp
  qed
  then have e: "max (ff_emin F) (flog2 n d - int (ff_prec F) + 1) = e"
    and mag: "nat (e - ff_emin F) * hidden_bit F + m = ?mag" by simp_all
  obtain n' d' where nd': "scale n d e = (n', d')" by fastforce
  from scale_fraction [OF nd nd'] have "n' = m * d'" "0 < d'" by simp_all
  then have h: "half_even n' d' = m" by (simp add: half_even_exact)
  have n0: "n \<noteq> 0" using assms(2) nd by (auto simp: fraction_def split: if_splits)
  have "fround_bin F s m e = with_sign F s (min (inf_bits F) ?mag)"
    using n0 by (simp add: fround_bin_def nd fround_def Let_def e nd' h mag)
  also have "\<dots> = with_sign F s ?mag" using D(4) by simp
  also have "\<dots> = bits"
  proof (cases s)
    case True
    then have "?mag = bits - sign_weight F"
      using D(1) assms(3) by (simp add: le_mod_geq)
    with True D(1) show ?thesis by (simp add: with_sign_def)
  next
    case False
    with D(1) show ?thesis by (simp add: with_sign_def)
  qed
  finally show ?thesis .
qed

end
