(* ===== verification/Compact.thy ===== *)
theory Compact
  imports Store_Read Soft_Float
begin

text \<open>
  Compaction (\<open>embedding-store/src/compact.rs\<close>): the live records of the sealed segments are
  copied, document by document, into a new segment that replaces them all, and the test that
  asks for it. The new segment's writer is local to the operation, so it is a part of the state
  while records are copied, and is dropped when that fails.
\<close>

section \<open>Copying records\<close>

text \<open>The writer, the range of sequence numbers, and the new locations by entity kind.\<close>

record copier =
  cp_writer :: active_segment
  cp_first :: u64
  cp_last :: u64
  cp_splits :: "(u64 \<times> loc) list"
  cp_summaries :: "(u64 \<times> loc) list"
  cp_docs :: "(u64 \<times> loc) list"

type_synonym cstate = "copier \<times> sstate"
type_synonym 'a cop = "(error, cstate, 'a) op"

definition copier_new :: "active_segment \<Rightarrow> copier" where
  "copier_new writer = \<lparr> cp_writer = writer, cp_first = - 1, cp_last = 0,
     cp_splits = [], cp_summaries = [], cp_docs = [] \<rparr>"

definition on_writer :: "(error, seg_state, 'a) op \<Rightarrow> 'a cop" where
  "on_writer m = zoom (\<lambda>(c, s, w). (cp_writer c, w)) (\<lambda>(a, w) (c, s, _). (c\<lparr>cp_writer := a\<rparr>, s, w)) m"

definition on_copier :: "(copier \<Rightarrow> copier) \<Rightarrow> unit cop" where
  "on_copier g = modM (\<lambda>(c, x). (g c, x))"

text \<open>One record, verbatim, with its sequence number.\<close>

definition copy_record :: "env \<Rightarrow> loc \<Rightarrow> loc cop" where
  "copy_record E l =
     bindM (\<lambda>(c, s, w). (read_record s w l, (c, s, w))) (\<lambda>bs.
     bindM (liftM (bindR (lift_decode (decode (e_crc E) bs)) (\<lambda>view. Inr (rv_seq view)))) (\<lambda>seq.
     bindM (on_writer (seg_append bs seq)) (\<lambda>offset.
     seqM (on_copier (\<lambda>c. c\<lparr>cp_first := min (cp_first c) seq, cp_last := max (cp_last c) seq\<rparr>))
     (getM (\<lambda>(c, x). \<lparr> loc_segment = aseg_id (cp_writer c), loc_offset = offset,
                       loc_len = word_of_nat (length bs) \<rparr>)))))"

text \<open>An entity that is not in the maps is passed over.\<close>

definition copy_summary :: "env \<Rightarrow> u64 \<Rightarrow> unit cop" where
  "copy_summary E i =
     bindM (getM (\<lambda>(c, s, w). fmlookup (summaries (st_maps s)) i)) (\<lambda>r. case r of
       None \<Rightarrow> ret ()
     | Some e \<Rightarrow> bindM (copy_record E (ue_loc e)) (\<lambda>l.
         on_copier (\<lambda>c. c\<lparr>cp_summaries := cp_summaries c @ [(i, l)]\<rparr>)))"

definition copy_split :: "env \<Rightarrow> u64 \<Rightarrow> unit cop" where
  "copy_split E i =
     bindM (getM (\<lambda>(c, s, w). fmlookup (splits (st_maps s)) i)) (\<lambda>r. case r of
       None \<Rightarrow> ret ()
     | Some e \<Rightarrow> bindM (copy_record E (se_loc e)) (\<lambda>l.
         on_copier (\<lambda>c. c\<lparr>cp_splits := cp_splits c @ [(i, l)]\<rparr>)))"

definition copy_document :: "env \<Rightarrow> u64 \<Rightarrow> unit cop" where
  "copy_document E d =
     bindM (getM (\<lambda>(c, s, w). fmlookup (docs (st_maps s)) d)) (\<lambda>r. case r of
       None \<Rightarrow> fail Panicked
     | Some entry \<Rightarrow>
         seqM (forM (copy_summary E) (owned_summary_ids entry))
        (seqM (forM (copy_split E) (de_split_ids entry))
        (bindM (copy_record E (de_loc entry)) (\<lambda>l.
         on_copier (\<lambda>c. c\<lparr>cp_docs := cp_docs c @ [(d, l)]\<rparr>)))))"

section \<open>The swap\<close>

text \<open>\<open>get_mut\<close> and assign: ids no longer in the map are passed over.\<close>

definition relocate :: "('e \<Rightarrow> loc \<Rightarrow> 'e) \<Rightarrow> (u64 \<times> loc) list \<Rightarrow> (u64, 'e) fmap \<Rightarrow> (u64, 'e) fmap" where
  "relocate f ls m =
     fold (\<lambda>(i, l) m. case fmlookup m i of None \<Rightarrow> m | Some e \<Rightarrow> fmupd i (f e l) m) ls m"

definition relocate_maps :: "copier \<Rightarrow> maps \<Rightarrow> maps" where
  "relocate_maps c m =
     \<lparr> docs = relocate (\<lambda>e l. e\<lparr>de_loc := l\<rparr>) (cp_docs c) (docs m),
       splits = relocate (\<lambda>e l. e\<lparr>se_loc := l\<rparr>) (cp_splits c) (splits m),
       summaries = relocate (\<lambda>e l. e\<lparr>ue_loc := l\<rparr>) (cp_summaries c) (summaries m) \<rparr>"

text \<open>Old segment files: a removal that fails is only logged.\<close>

definition remove_segments :: "u32 list \<Rightarrow> unit sop" where
  "remove_segments ids = forM (\<lambda>i. attempt (on_disk (fs_remove (SegFile i))) (\<lambda>_. ret ())) ids"

text \<open>The manifest drops the snapshot and names \<open>infos\<close> as its sealed segments.\<close>

definition swap_manifest :: "env \<Rightarrow> segment_info list \<Rightarrow> unit sop" where
  "swap_manifest E infos =
     seqM (on_disk snapshot_remove)
    (seqM (on_store (\<lambda>s. s\<lparr>st_manifest := (st_manifest s)\<lparr>mf_snapshot_seq := 0\<rparr>\<rparr>))
    (seqM (on_store (\<lambda>s. s\<lparr>st_manifest := (st_manifest s)\<lparr>mf_sealed := infos, mf_tombstone_bytes := 0\<rparr>\<rparr>))
    (store_manifest E)))"

definition drop_sealed :: "env \<Rightarrow> unit sop" where
  "drop_sealed E =
     bindM (the_store (\<lambda>s. map si_id (mf_sealed (st_manifest s)))) (\<lambda>old_ids.
     seqM (swap_manifest E [])
    (seqM (on_store (\<lambda>s. s\<lparr>st_sealed := fmempty\<rparr>))
    (seqM (remove_segments old_ids)
    (bindM (snapshot_meta E) (\<lambda>_. ret ())))))"

definition swap_in :: "env \<Rightarrow> copier \<Rightarrow> unit sop" where
  "swap_in E c =
     (let new_id = aseg_id (cp_writer c);
          info = \<lparr> si_id = new_id, si_bytes = aseg_len (cp_writer c),
                   si_first_seq = (if cp_first c = - 1 then 0 else cp_first c), si_last_seq = cp_last c \<rparr> in
      bindM (on_disk (seal_segment (cp_writer c))) (\<lambda>sealed_segment.
      bindM (the_store (\<lambda>s. map si_id (mf_sealed (st_manifest s)))) (\<lambda>old_ids.
      seqM (swap_manifest E [info])
     (seqM (on_store (\<lambda>s. s\<lparr>st_maps := relocate_maps c (st_maps s)\<rparr>))
     (seqM (on_store (\<lambda>s. s\<lparr>st_sealed := fmupd new_id sealed_segment fmempty\<rparr>))
     (seqM (remove_segments old_ids)
     (bindM (snapshot_meta E) (\<lambda>_. ret ()))))))))"

section \<open>Compaction\<close>

definition sealed_docs :: "u32 fset \<Rightarrow> maps \<Rightarrow> u64 list" where
  "sealed_docs sealed_ids m =
     sorted_list_of_fset (fmdom (fmfilter (\<lambda>d. case fmlookup (docs m) d of
       None \<Rightarrow> False | Some e \<Rightarrow> loc_segment (de_loc e) |\<in>| sealed_ids) (docs m)))"

text \<open>The copying, with the writer dropped when it fails.\<close>

definition copy_all :: "env \<Rightarrow> active_segment \<Rightarrow> u64 list \<Rightarrow> copier sop" where
  "copy_all E writer doc_ids x =
     (case forM (copy_document E) doc_ids (copier_new writer, x) of
        (Inl e, (c, s, w)) \<Rightarrow> (Inl e, (s, drop_writer (cp_writer c, w)))
      | (Inr (), (c, y)) \<Rightarrow> (Inr c, y))"

definition compact_into :: "env \<Rightarrow> u32 \<Rightarrow> u32 fset \<Rightarrow> unit sop" where
  "compact_into E new_id sealed_ids =
     bindM (the_store (\<lambda>s. sealed_docs sealed_ids (st_maps s))) (\<lambda>doc_ids.
     bindM (on_disk (seg_open new_id)) (\<lambda>writer.
     if aseg_len writer \<noteq> 0 then fail (SegmentExists new_id)
     else
       bindM (copy_all E writer doc_ids) (\<lambda>c.
       if aseg_len (cp_writer c) = 0
       then seqM (attempt (on_disk (fs_remove (SegFile new_id))) (\<lambda>_. ret ())) (drop_sealed E)
       else swap_in E c)))"

definition compact :: "env \<Rightarrow> unit sop" where
  "compact E =
     bindM (the_store (\<lambda>s. fmdom (st_sealed s))) (\<lambda>sealed_ids.
     if sealed_ids = {||} then ret ()
     else
       bindM (the_store (\<lambda>s. mf_next_segment_id (st_manifest s))) (\<lambda>new_id.
       seqM (on_store (\<lambda>s. s\<lparr>st_manifest := (st_manifest s)\<lparr>mf_next_segment_id := mf_next_segment_id (st_manifest s) + 1\<rparr>\<rparr>))
      (attempt (compact_into E new_id sealed_ids) (\<lambda>r. case r of
        Inr _ \<Rightarrow> ret ()
      | Inl e \<Rightarrow>
          seqM (\<lambda>x. if fs_exists (snd x) (SegFile new_id)
                    then attempt (on_disk (fs_remove (SegFile new_id))) (\<lambda>_. ret ()) x
                    else ret () x)
          (fail e)))))"

section \<open>When to compact\<close>

definition needs_compaction :: "store \<Rightarrow> f64 \<Rightarrow> bool" where
  "needs_compaction s ratio \<longleftrightarrow>
     (let sealed_bytes = manifest_sealed_bytes (st_manifest s) in
      0 < sealed_bytes \<and> f64_gt (f64_div (f64_of_u64 (mf_tombstone_bytes (st_manifest s))) (f64_of_u64 sealed_bytes)) ratio)"

definition store_compact_if_needed :: "env \<Rightarrow> f64 \<Rightarrow> bool sop" where
  "store_compact_if_needed E ratio =
     bindM (the_store (\<lambda>s. needs_compaction s ratio)) (\<lambda>needed.
     if \<not> needed then ret False else seqM (compact E) (ret True))"

end
