(* ===== verification/Compact_Facts.thy ===== *)
theory Compact_Facts
  imports Compact Store_Holds
begin

text \<open>
  Compaction keeps what the store holds: every record of a live document is copied byte for byte
  and found at the location the maps then have, so that whatever is read of a document before the
  compaction is read after it. What makes it true is that a document and what it lists are in one
  segment, which inserting, deleting and sealing keep.
\<close>

section \<open>Documents in one segment\<close>

definition grouped :: "maps \<Rightarrow> bool" where
  "grouped m \<longleftrightarrow>
     (\<forall>i e. fmlookup (splits m) i = Some e \<longrightarrow> (\<exists>d. fmlookup (docs m) (se_doc_id e) = Some d
        \<and> i \<in> set (de_split_ids d) \<and> loc_segment (de_loc d) = loc_segment (se_loc e)))
     \<and> (\<forall>i e. fmlookup (summaries m) i = Some e \<longrightarrow> (\<exists>d. fmlookup (docs m) (ue_doc_id e) = Some d
        \<and> i \<in> set (owned_summary_ids d) \<and> loc_segment (de_loc d) = loc_segment (ue_loc e)))"

section \<open>Bytes at a location\<close>

definition bytes_at :: "u32 \<Rightarrow> bytes \<Rightarrow> loc \<Rightarrow> bytes \<Rightarrow> bool" where
  "bytes_at seg content l bs \<longleftrightarrow> loc_segment l = seg \<and> unat (loc_len l) = length bs
     \<and> (\<exists>pre post. content = pre @ bs @ post \<and> unat (loc_offset l) = length pre)"

lemma bytes_at_append: "bytes_at seg content l bs \<Longrightarrow> bytes_at seg (content @ rest) l bs"
  unfolding bytes_at_def by (metis append.assoc)

lemma bytes_at_slice: "bytes_at seg (sseg_map z) l bs \<Longrightarrow> sealed_slice z (loc_offset l) (loc_len l) = Inr bs"
  unfolding bytes_at_def using sealed_read_back by blast

lemma read_record_length:
  assumes "read_record s w l = Inr bs"
  shows "length bs = unat (loc_len l)"
  using assms
  by (auto simp: read_record_def seg_read_at_def sealed_slice_def Let_def subslice_def split: if_splits option.splits)

text \<open>A record is read from the active segment's file or from a mapped one.\<close>

lemma read_record_cong:
  assumes "aseg_id (st_active t) = aseg_id (st_active s)"
    and "loc_segment l = aseg_id (st_active s) \<Longrightarrow>
      file_of v (SegFile (aseg_id (st_active s))) = file_of w (SegFile (aseg_id (st_active s)))"
    and "loc_segment l \<noteq> aseg_id (st_active s) \<Longrightarrow>
      fmlookup (st_sealed t) (loc_segment l) = fmlookup (st_sealed s) (loc_segment l)"
  shows "read_record t v l = read_record s w l"
  using assms by (simp add: read_record_def seg_read_at_def)

section \<open>Copying\<close>

definition content_of :: "cstate \<Rightarrow> bytes" where
  "content_of z = seg_content (cp_writer (fst z), snd (snd z))"

text \<open>
  What holds while records are copied from \<open>x\<close> to segment \<open>n\<close>: the store and every other file are
  as they were, and, as long as the new segment's length is a \<open>u64\<close>, each new location has the
  bytes of the old one.
\<close>

definition copies :: "sstate \<Rightarrow> u32 \<Rightarrow> cstate \<Rightarrow> bool" where
  "copies x n z \<longleftrightarrow> fst (snd z) = fst x \<and> aseg_id (cp_writer (fst z)) = n
     \<and> (\<forall>f. f \<noteq> SegFile n \<longrightarrow> fmlookup (files (snd (snd z))) f = fmlookup (files (snd x)) f)"

definition copied_from :: "sstate \<Rightarrow> u32 \<Rightarrow> bytes \<Rightarrow> (u64 \<Rightarrow> loc option) \<Rightarrow> (u64 \<times> loc) list \<Rightarrow> bool" where
  "copied_from x n content old ls \<longleftrightarrow> (\<forall>(i, l) \<in> set ls. \<exists>k bs. old i = Some k
     \<and> read_record (fst x) (snd x) k = Inr bs \<and> bs \<noteq> [] \<and> bytes_at n content l bs)"

definition doc_loc :: "maps \<Rightarrow> u64 \<Rightarrow> loc option" where
  "doc_loc m i = map_option de_loc (fmlookup (docs m) i)"

definition split_loc :: "maps \<Rightarrow> u64 \<Rightarrow> loc option" where
  "split_loc m i = map_option se_loc (fmlookup (splits m) i)"

definition summary_loc :: "maps \<Rightarrow> u64 \<Rightarrow> loc option" where
  "summary_loc m i = map_option ue_loc (fmlookup (summaries m) i)"

definition copy_ok :: "sstate \<Rightarrow> u32 \<Rightarrow> cstate \<Rightarrow> bool" where
  "copy_ok x n z \<longleftrightarrow> copies x n z
     \<and> (length (content_of z) < 2 ^ 64 \<longrightarrow> seg_ok (cp_writer (fst z), snd (snd z))
       \<and> copied_from x n (content_of z) (doc_loc (st_maps (fst x))) (cp_docs (fst z))
       \<and> copied_from x n (content_of z) (split_loc (st_maps (fst x))) (cp_splits (fst z))
       \<and> copied_from x n (content_of z) (summary_loc (st_maps (fst x))) (cp_summaries (fst z)))"

text \<open>The lists of new locations and the content only grow.\<close>

definition extends :: "cstate \<Rightarrow> cstate \<Rightarrow> bool" where
  "extends y z \<longleftrightarrow> set (cp_docs (fst y)) \<subseteq> set (cp_docs (fst z)) \<and> set (cp_splits (fst y)) \<subseteq> set (cp_splits (fst z))
     \<and> set (cp_summaries (fst y)) \<subseteq> set (cp_summaries (fst z)) \<and> (\<exists>rest. content_of z = content_of y @ rest)"

lemma extends_refl [simp]: "extends z z"
  by (simp add: extends_def)

lemma extends_trans:
  assumes "extends x y" "extends y z"
  shows "extends x z"
proof -
  obtain r1 r2 where "content_of y = content_of x @ r1" "content_of z = content_of y @ r2"
    using assms unfolding extends_def by blast
  then have "content_of z = content_of x @ (r1 @ r2)" by simp
  with assms show ?thesis unfolding extends_def by (meson subset_trans)
qed

lemma copied_from_append: "copied_from x n content old ls \<Longrightarrow> copied_from x n (content @ rest) old ls"
  unfolding copied_from_def by (fast intro: bytes_at_append)

lemma copied_from_add:
  "copied_from x n content old ls \<Longrightarrow> old i = Some k \<Longrightarrow> read_record (fst x) (snd x) k = Inr bs
    \<Longrightarrow> bs \<noteq> [] \<Longrightarrow> bytes_at n content l bs \<Longrightarrow> copied_from x n content old (ls @ [(i, l)])"
  by (auto simp: copied_from_def)

lemma on_writer_Inr:
  "on_writer m (c, s, w) = (Inr r, z) \<longleftrightarrow> (\<exists>a v. m (cp_writer c, w) = (Inr r, (a, v)) \<and> z = (c\<lparr>cp_writer := a\<rparr>, s, v))"
  by (auto simp: on_writer_def zoom_def split: prod.splits)

lemma copy_record_run:
  assumes run: "copy_record E k (c, s, w) = (Inr l, z)" and n: "aseg_id (cp_writer c) = n"
  obtains bs seq off a v where "read_record s w k = Inr bs" "bs \<noteq> []" "\<exists>r. decode (e_crc E) bs = Inr r \<and> rv_seq r = seq" "seg_append bs seq (cp_writer c, w) = (Inr off, (a, v))"
    "z = (c\<lparr>cp_writer := a, cp_first := min (cp_first c) seq, cp_last := max (cp_last c) seq\<rparr>, s, v)"
    "l = \<lparr> loc_segment = n, loc_offset = off, loc_len = word_of_nat (length bs) \<rparr>"
proof -
  from run obtain bs view off a v where r: "read_record s w k = Inr bs" "lift_decode (decode (e_crc E) bs) = Inr view"
    and a: "seg_append bs (rv_seq view) (cp_writer c, w) = (Inr off, (a, v))"
    and z: "z = (c\<lparr>cp_writer := a, cp_first := min (cp_first c) (rv_seq view), cp_last := max (cp_last c) (rv_seq view)\<rparr>, s, v)"
    and l: "l = \<lparr> loc_segment = aseg_id a, loc_offset = off, loc_len = word_of_nat (length bs) \<rparr>"
    by (auto simp: copy_record_def bindM_Inr seqM_Inr liftM_Inr bindR_Inr getM_Inr on_writer_Inr on_copier_def modM_Inr)
  have "aseg_id a = n" using seg_append_Inr(3) [OF a] n by (simp add: seg_frame_def)
  moreover have "\<exists>r. decode (e_crc E) bs = Inr r \<and> rv_seq r = rv_seq view"
    using r(2) by (auto simp: lift_decode_def split: sum.splits)
  moreover have "bs \<noteq> []"
    using r(2) decode_len [of "e_crc E" bs] by (auto simp: lift_decode_def split: sum.splits)
  ultimately show thesis using r a z l by (intro that) auto
qed

lemma copy_record_ok:
  assumes ok: "copy_ok x n z" and run: "copy_record E k z = (Inr l, z')" and na: "n \<noteq> active_id x"
  shows "copy_ok x n z'" "extends z z'"
    and "cp_docs (fst z') = cp_docs (fst z)" "cp_splits (fst z') = cp_splits (fst z)" "cp_summaries (fst z') = cp_summaries (fst z)"
    and "length (content_of z') = length (content_of z) + unat (loc_len k)"
    and "\<exists>bs. read_record (fst x) (snd x) k = Inr bs \<and> bs \<noteq> [] \<and> (length (content_of z') < 2 ^ 64 \<longrightarrow> bytes_at n (content_of z') l bs)"
proof -
  obtain c s w where z: "z = (c, s, w)" by (metis prod.collapse)
  have C: "s = fst x" "aseg_id (cp_writer c) = n" "\<And>f. f \<noteq> SegFile n \<Longrightarrow> fmlookup (files w) f = fmlookup (files (snd x)) f"
    using ok by (simp_all add: copy_ok_def copies_def z)
  from run [unfolded z] C(2) obtain bs seq off a v where
    r: "read_record s w k = Inr bs" and ne: "bs \<noteq> []" and a: "seg_append bs seq (cp_writer c, w) = (Inr off, (a, v))"
    and z': "z' = (c\<lparr>cp_writer := a, cp_first := min (cp_first c) seq, cp_last := max (cp_last c) seq\<rparr>, s, v)"
    and l: "l = \<lparr> loc_segment = n, loc_offset = off, loc_len = word_of_nat (length bs) \<rparr>"
    by (rule copy_record_run)
  note A = seg_append_Inr [OF a]
  have content: "content_of z' = content_of z @ bs" using A(2) by (simp add: content_of_def z z')
  then show "length (content_of z') = length (content_of z) + unat (loc_len k)"
    using read_record_length [OF r] by simp
  show ls: "cp_docs (fst z') = cp_docs (fst z)" "cp_splits (fst z') = cp_splits (fst z)" "cp_summaries (fst z') = cp_summaries (fst z)"
    by (simp_all add: z z')
  show "extends z z'" unfolding extends_def ls using content by auto
  have "copies x n z'"
    using A(3) C by (simp add: copies_def z' seg_frame_def)
  moreover have ok': "seg_ok (a, v)" "unat off = length (content_of z)" if b: "length (content_of z') < 2 ^ 64"
  proof -
    have "length (content_of z) < 2 ^ 64" using b content by simp
    with ok have "seg_ok (cp_writer c, w)" by (simp add: copy_ok_def z)
    from seg_append_ok [OF a this] b content show "seg_ok (a, v)" "unat off = length (content_of z)"
      by (simp_all add: content_of_def z)
  qed
  moreover have "copied_from x n (content_of z') old ls" if "copied_from x n (content_of z) old ls" for old ls
    unfolding content by (rule copied_from_append [OF that])
  moreover have "length (content_of z') < 2 ^ 64 \<Longrightarrow> length (content_of z) < 2 ^ 64" using content by simp
  ultimately show "copy_ok x n z'"
    using ok unfolding copy_ok_def ls by (auto simp: z' content_of_def)
  have "read_record s w k = read_record (fst x) (snd x) k"
    unfolding C(1) by (rule read_record_cong) (use na C(3) in \<open>auto simp: file_of_def\<close>)
  moreover have "bytes_at n (content_of z') l bs" if "length (content_of z') < 2 ^ 64"
  proof -
    have "length bs < 2 ^ 32" using read_record_length [OF r] unat_u32_lt [of "loc_len k"] by simp
    then have "unat (loc_len l) = length bs" by (simp add: l unat_u32_of_nat)
    moreover have "content_of z' = content_of z @ bs @ [] \<and> unat (loc_offset l) = length (content_of z)"
      using content ok'(2) [OF that] by (simp add: l)
    ultimately show ?thesis unfolding bytes_at_def by (metis l loc.select_convs(1))
  qed
  ultimately show "\<exists>bs. read_record (fst x) (snd x) k = Inr bs \<and> bs \<noteq> [] \<and> (length (content_of z') < 2 ^ 64 \<longrightarrow> bytes_at n (content_of z') l bs)"
    using r ne by metis
qed

section \<open>Copying a document\<close>

text \<open>Every id of the list that the maps have gets a new location.\<close>

definition relocated :: "(u64 \<Rightarrow> loc option) \<Rightarrow> (u64 \<times> loc) list \<Rightarrow> u64 \<Rightarrow> bool" where
  "relocated old ls i \<longleftrightarrow> old i = None \<or> i \<in> fst ` set ls"

lemma relocated_mono: "relocated old ls i \<Longrightarrow> set ls \<subseteq> set ls' \<Longrightarrow> relocated old ls' i"
  by (auto simp: relocated_def)

lemma on_copier_Inr: "on_copier g (c, x) = (Inr r, z) \<longleftrightarrow> z = (g c, x)"
  by (auto simp: on_copier_def modM_def)

text \<open>A record is copied and its new location noted.\<close>

lemma copy_noted:
  assumes ok: "copy_ok x n z" and na: "n \<noteq> active_id x" and run: "copy_record E k z = (Inr l, z')"
    and z'': "z'' = (g (fst z'), snd z')" and w: "cp_writer (g (fst z')) = cp_writer (fst z')"
    and kept: "\<And>bs. copied_from x n (content_of z') (doc_loc (st_maps (fst x))) (cp_docs (fst z'))
        \<Longrightarrow> copied_from x n (content_of z') (split_loc (st_maps (fst x))) (cp_splits (fst z'))
        \<Longrightarrow> copied_from x n (content_of z') (summary_loc (st_maps (fst x))) (cp_summaries (fst z'))
        \<Longrightarrow> read_record (fst x) (snd x) k = Inr bs \<Longrightarrow> bs \<noteq> [] \<Longrightarrow> bytes_at n (content_of z') l bs
        \<Longrightarrow> copied_from x n (content_of z') (doc_loc (st_maps (fst x))) (cp_docs (g (fst z')))
          \<and> copied_from x n (content_of z') (split_loc (st_maps (fst x))) (cp_splits (g (fst z')))
          \<and> copied_from x n (content_of z') (summary_loc (st_maps (fst x))) (cp_summaries (g (fst z')))"
  shows "copy_ok x n z''"
proof -
  note R = copy_record_ok [OF ok run na]
  have c: "content_of z'' = content_of z'" using w by (simp add: content_of_def z'')
  obtain bs where bs: "read_record (fst x) (snd x) k = Inr bs" "bs \<noteq> []" "length (content_of z') < 2 ^ 64 \<Longrightarrow> bytes_at n (content_of z') l bs"
    using R(7) by blast
  show ?thesis
    using R(1) kept [OF _ _ _ bs(1,2)] bs(3) w c unfolding copy_ok_def copies_def by (simp add: z'')
qed

lemma copy_summary_ok:
  assumes ok: "copy_ok x n z" and na: "n \<noteq> active_id x" and run: "copy_summary E i z = (Inr r, z')"
  shows "copy_ok x n z'" "extends z z'" "relocated (summary_loc (st_maps (fst x))) (cp_summaries (fst z')) i"
proof -
  obtain c s w where z: "z = (c, s, w)" by (metis prod.collapse)
  have s: "s = fst x" using ok by (simp add: copy_ok_def copies_def z)
  have "copy_ok x n z' \<and> extends z z' \<and> relocated (summary_loc (st_maps (fst x))) (cp_summaries (fst z')) i"
  proof (cases "fmlookup (summaries (st_maps s)) i")
    case None
    with run ok s show ?thesis by (auto simp: copy_summary_def z bindM_Inr getM_Inr ret_Inr relocated_def summary_loc_def)
  next
    case (Some e)
    with run obtain l y where c: "copy_record E (ue_loc e) z = (Inr l, y)"
      and z': "z' = ((fst y)\<lparr>cp_summaries := cp_summaries (fst y) @ [(i, l)]\<rparr>, snd y)"
      by (auto simp: copy_summary_def z bindM_Inr getM_Inr on_copier_def modM_def split: prod.splits)
    note R = copy_record_ok [OF ok c na]
    have k: "summary_loc (st_maps (fst x)) i = Some (ue_loc e)" using Some s by (simp add: summary_loc_def)
    have "copy_ok x n z'"
      by (rule copy_noted [OF ok na c, where g = "\<lambda>c. c\<lparr>cp_summaries := cp_summaries c @ [(i, l)]\<rparr>"]) (use k z' in \<open>auto intro: copied_from_add\<close>)
    moreover have "content_of z' = content_of y" by (simp add: content_of_def z')
    ultimately show ?thesis using R(2-5) by (auto simp: extends_def relocated_def z')
  qed
  then show "copy_ok x n z'" "extends z z'" "relocated (summary_loc (st_maps (fst x))) (cp_summaries (fst z')) i" by auto
qed

lemma copy_split_ok:
  assumes ok: "copy_ok x n z" and na: "n \<noteq> active_id x" and run: "copy_split E i z = (Inr r, z')"
  shows "copy_ok x n z'" "extends z z'" "relocated (split_loc (st_maps (fst x))) (cp_splits (fst z')) i"
proof -
  obtain c s w where z: "z = (c, s, w)" by (metis prod.collapse)
  have s: "s = fst x" using ok by (simp add: copy_ok_def copies_def z)
  have "copy_ok x n z' \<and> extends z z' \<and> relocated (split_loc (st_maps (fst x))) (cp_splits (fst z')) i"
  proof (cases "fmlookup (splits (st_maps s)) i")
    case None
    with run ok s show ?thesis by (auto simp: copy_split_def z bindM_Inr getM_Inr ret_Inr relocated_def split_loc_def)
  next
    case (Some e)
    with run obtain l y where c: "copy_record E (se_loc e) z = (Inr l, y)"
      and z': "z' = ((fst y)\<lparr>cp_splits := cp_splits (fst y) @ [(i, l)]\<rparr>, snd y)"
      by (auto simp: copy_split_def z bindM_Inr getM_Inr on_copier_def modM_def split: prod.splits)
    note R = copy_record_ok [OF ok c na]
    have k: "split_loc (st_maps (fst x)) i = Some (se_loc e)" using Some s by (simp add: split_loc_def)
    have "copy_ok x n z'"
      by (rule copy_noted [OF ok na c, where g = "\<lambda>c. c\<lparr>cp_splits := cp_splits c @ [(i, l)]\<rparr>"]) (use k z' in \<open>auto intro: copied_from_add\<close>)
    moreover have "content_of z' = content_of y" by (simp add: content_of_def z')
    ultimately show ?thesis using R(2-5) by (auto simp: extends_def relocated_def z')
  qed
  then show "copy_ok x n z'" "extends z z'" "relocated (split_loc (st_maps (fst x))) (cp_splits (fst z')) i" by auto
qed

text \<open>A loop of copies that each establish something that only grows.\<close>

lemma forM_copies:
  assumes "copy_ok x n z" "forM f ids z = (Inr r, z')"
    and step: "\<And>i y y' r. i \<in> set ids \<Longrightarrow> copy_ok x n y \<Longrightarrow> f i y = (Inr r, y') \<Longrightarrow> copy_ok x n y' \<and> extends y y' \<and> Q i (fst y')"
    and mono: "\<And>i y y'. Q i (fst y) \<Longrightarrow> extends y y' \<Longrightarrow> Q i (fst y')"
  shows "copy_ok x n z' \<and> extends z z' \<and> (\<forall>i \<in> set ids. Q i (fst z'))"
  using assms(1,2) step
proof (induction ids arbitrary: z)
  case (Cons i js)
  from Cons.prems(2) obtain y where y: "f i z = (Inr (), y)" "forM f js y = (Inr r, z')" by (auto simp: seqM_Inr)
  have 1: "copy_ok x n y" "extends z y" "Q i (fst y)" using Cons.prems(3) [OF _ Cons.prems(1) y(1)] by simp_all
  have "copy_ok x n z' \<and> extends y z' \<and> (\<forall>i \<in> set js. Q i (fst z'))"
    by (rule Cons.IH [OF 1(1) y(2)]) (rule Cons.prems(3), simp)
  then have 2: "copy_ok x n z'" "extends y z'" "\<forall>i \<in> set js. Q i (fst z')" by blast+
  show ?case using 2 1 mono [OF 1(3) 2(2)] extends_trans [OF 1(2) 2(2)] by simp
qed (simp add: ret_Inr)

section \<open>How long the new segment gets\<close>

definition entity_bytes :: "loc option \<Rightarrow> nat" where
  "entity_bytes r = (case r of None \<Rightarrow> 0 | Some l \<Rightarrow> unat (loc_len l))"

definition doc_bytes :: "maps \<Rightarrow> u64 \<Rightarrow> nat" where
  "doc_bytes m d =
     (case fmlookup (docs m) d of
        None \<Rightarrow> 0
      | Some e \<Rightarrow> sum_list (map (\<lambda>i. entity_bytes (summary_loc m i)) (owned_summary_ids e))
          + sum_list (map (\<lambda>i. entity_bytes (split_loc m i)) (de_split_ids e)) + unat (loc_len (de_loc e)))"

definition live_bytes :: "store \<Rightarrow> nat" where
  "live_bytes s = sum_list (map (doc_bytes (st_maps s)) (sealed_docs (fmdom (st_sealed s)) (st_maps s)))"

lemma forM_adds:
  assumes "I z" "forM f ids z = (Inr r, z')"
    and "\<And>i y y' r. I y \<Longrightarrow> f i y = (Inr r, y') \<Longrightarrow> I y' \<and> length (content_of y') = length (content_of y) + (g i :: nat)"
  shows "length (content_of z') = length (content_of z) + sum_list (map g ids)"
  using assms(1,2)
proof (induction ids arbitrary: z)
  case (Cons i js)
  from Cons.prems(2) obtain y where y: "f i z = (Inr (), y)" "forM f js y = (Inr r, z')" by (auto simp: seqM_Inr)
  have 1: "I y" "length (content_of y) = length (content_of z) + g i" using assms(3) [OF Cons.prems(1) y(1)] by simp_all
  show ?case using Cons.IH [OF 1(1) y(2)] 1(2) by simp
qed (simp add: ret_Inr)

lemma on_copier_content: "on_copier g y = (Inr r, z) \<Longrightarrow> cp_writer (g (fst y)) = cp_writer (fst y) \<Longrightarrow> content_of z = content_of y"
  by (cases y) (auto simp: on_copier_Inr content_of_def)

lemma copy_summary_len:
  assumes ok: "copy_ok x n z" and na: "n \<noteq> active_id x" and run: "copy_summary E i z = (Inr r, z')"
  shows "length (content_of z') = length (content_of z) + entity_bytes (summary_loc (st_maps (fst x)) i)"
proof -
  obtain c s w where z: "z = (c, s, w)" by (metis prod.collapse)
  have s: "s = fst x" using ok by (simp add: copy_ok_def copies_def z)
  show ?thesis
  proof (cases "fmlookup (summaries (st_maps s)) i")
    case None
    with run s show ?thesis by (auto simp: copy_summary_def z bindM_Inr getM_Inr ret_Inr entity_bytes_def summary_loc_def)
  next
    case (Some e)
    with run obtain l y where c: "copy_record E (ue_loc e) z = (Inr l, y)"
      and n: "on_copier (\<lambda>c. c\<lparr>cp_summaries := cp_summaries c @ [(i, l)]\<rparr>) y = (Inr r, z')"
      by (auto simp: copy_summary_def z bindM_Inr getM_Inr)
    have "content_of z' = content_of y" by (rule on_copier_content [OF n]) simp
    with copy_record_ok(6) [OF ok c na] Some s show ?thesis by (simp add: entity_bytes_def summary_loc_def)
  qed
qed

lemma copy_split_len:
  assumes ok: "copy_ok x n z" and na: "n \<noteq> active_id x" and run: "copy_split E i z = (Inr r, z')"
  shows "length (content_of z') = length (content_of z) + entity_bytes (split_loc (st_maps (fst x)) i)"
proof -
  obtain c s w where z: "z = (c, s, w)" by (metis prod.collapse)
  have s: "s = fst x" using ok by (simp add: copy_ok_def copies_def z)
  show ?thesis
  proof (cases "fmlookup (splits (st_maps s)) i")
    case None
    with run s show ?thesis by (auto simp: copy_split_def z bindM_Inr getM_Inr ret_Inr entity_bytes_def split_loc_def)
  next
    case (Some e)
    with run obtain l y where c: "copy_record E (se_loc e) z = (Inr l, y)"
      and n: "on_copier (\<lambda>c. c\<lparr>cp_splits := cp_splits c @ [(i, l)]\<rparr>) y = (Inr r, z')"
      by (auto simp: copy_split_def z bindM_Inr getM_Inr)
    have "content_of z' = content_of y" by (rule on_copier_content [OF n]) simp
    with copy_record_ok(6) [OF ok c na] Some s show ?thesis by (simp add: entity_bytes_def split_loc_def)
  qed
qed

section \<open>Copying the documents\<close>

definition doc_copied :: "maps \<Rightarrow> u64 \<Rightarrow> copier \<Rightarrow> bool" where
  "doc_copied m d c \<longleftrightarrow> (\<exists>e. fmlookup (docs m) d = Some e \<and> d \<in> fst ` set (cp_docs c)
     \<and> (\<forall>i \<in> set (owned_summary_ids e). relocated (summary_loc m) (cp_summaries c) i)
     \<and> (\<forall>i \<in> set (de_split_ids e). relocated (split_loc m) (cp_splits c) i))"

lemma doc_copied_mono: "doc_copied m d (fst y) \<Longrightarrow> extends y z \<Longrightarrow> doc_copied m d (fst z)"
  unfolding doc_copied_def extends_def by (meson image_mono relocated_mono subsetD)

lemma copy_document_run:
  assumes ok: "copy_ok x n z" and run: "copy_document E d z = (Inr r, z')"
  obtains e y1 y2 y3 l where "fmlookup (docs (st_maps (fst x))) d = Some e"
    "forM (copy_summary E) (owned_summary_ids e) z = (Inr (), y1)" "forM (copy_split E) (de_split_ids e) y1 = (Inr (), y2)"
    "copy_record E (de_loc e) y2 = (Inr l, y3)" "z' = ((fst y3)\<lparr>cp_docs := cp_docs (fst y3) @ [(d, l)]\<rparr>, snd y3)"
proof -
  let ?m = "st_maps (fst x)"
  obtain c s w where z: "z = (c, s, w)" by (metis prod.collapse)
  have s: "s = fst x" using ok by (simp add: copy_ok_def copies_def z)
  obtain e where e: "fmlookup (docs ?m) d = Some e"
    using run s by (cases "fmlookup (docs ?m) d") (auto simp: copy_document_def z bindM_def getM_def fail_def)
  have "seqM (forM (copy_summary E) (owned_summary_ids e)) (seqM (forM (copy_split E) (de_split_ids e))
      (bindM (copy_record E (de_loc e)) (\<lambda>l. on_copier (\<lambda>c. c\<lparr>cp_docs := cp_docs c @ [(d, l)]\<rparr>)))) z = (Inr r, z')"
    using run e s by (simp add: copy_document_def z bindM_def [of "getM _"] getM_def)
  then obtain y1 y2 where 1: "forM (copy_summary E) (owned_summary_ids e) z = (Inr (), y1)"
    and 2: "forM (copy_split E) (de_split_ids e) y1 = (Inr (), y2)"
    and b: "bindM (copy_record E (de_loc e)) (\<lambda>l. on_copier (\<lambda>c. c\<lparr>cp_docs := cp_docs c @ [(d, l)]\<rparr>)) y2 = (Inr r, z')"
    unfolding seqM_Inr by blast
  from b obtain l y3 where 3: "copy_record E (de_loc e) y2 = (Inr l, y3)"
    and n: "on_copier (\<lambda>c. c\<lparr>cp_docs := cp_docs c @ [(d, l)]\<rparr>) y3 = (Inr r, z')" unfolding bindM_Inr by blast
  from n have "z' = ((fst y3)\<lparr>cp_docs := cp_docs (fst y3) @ [(d, l)]\<rparr>, snd y3)"
    by (cases y3) (simp add: on_copier_def modM_def)
  with e 1 2 3 show thesis by (rule that)
qed

lemma copy_document_ok:
  assumes ok: "copy_ok x n z" and na: "n \<noteq> active_id x" and run: "copy_document E d z = (Inr r, z')"
  shows "copy_ok x n z' \<and> extends z z' \<and> doc_copied (st_maps (fst x)) d (fst z')
    \<and> length (content_of z') = length (content_of z) + doc_bytes (st_maps (fst x)) d"
proof -
  let ?m = "st_maps (fst x)"
  from ok run obtain e y1 y2 y3 l where e: "fmlookup (docs ?m) d = Some e"
    and 1: "forM (copy_summary E) (owned_summary_ids e) z = (Inr (), y1)"
    and 2: "forM (copy_split E) (de_split_ids e) y1 = (Inr (), y2)"
    and 3: "copy_record E (de_loc e) y2 = (Inr l, y3)"
    and z': "z' = ((fst y3)\<lparr>cp_docs := cp_docs (fst y3) @ [(d, l)]\<rparr>, snd y3)"
    by (rule copy_document_run)
  have S: "copy_ok x n y1 \<and> extends z y1 \<and> (\<forall>i \<in> set (owned_summary_ids e). relocated (summary_loc ?m) (cp_summaries (fst y1)) i)"
    by (rule forM_copies [OF ok 1, where Q = "\<lambda>i c. relocated (summary_loc ?m) (cp_summaries c) i"])
      (use copy_summary_ok [OF _ na] in \<open>auto simp: extends_def intro: relocated_mono\<close>)
  have P: "copy_ok x n y2 \<and> extends y1 y2 \<and> (\<forall>i \<in> set (de_split_ids e). relocated (split_loc ?m) (cp_splits (fst y2)) i)"
    by (rule forM_copies [OF _ 2, where Q = "\<lambda>i c. relocated (split_loc ?m) (cp_splits c) i"])
      (use S copy_split_ok [OF _ na] in \<open>auto simp: extends_def intro: relocated_mono\<close>)
  then have ok2: "copy_ok x n y2" by simp
  note R = copy_record_ok [OF ok2 3 na]
  have k: "doc_loc ?m d = Some (de_loc e)" using e by (simp add: doc_loc_def)
  have "copy_ok x n z'"
    by (rule copy_noted [OF ok2 na 3, where g = "\<lambda>c. c\<lparr>cp_docs := cp_docs c @ [(d, l)]\<rparr>"])
      (use k z' in \<open>auto intro: copied_from_add\<close>)
  moreover have "extends y2 z'" using R(2-5) by (auto simp: extends_def z' content_of_def)
  moreover have "doc_copied ?m d (fst z')"
    unfolding doc_copied_def
  proof (intro exI conjI ballI)
    show "fmlookup (docs ?m) d = Some e" by (rule e)
    show "d \<in> fst ` set (cp_docs (fst z'))" by (simp add: z')
    show "relocated (summary_loc ?m) (cp_summaries (fst z')) i" if "i \<in> set (owned_summary_ids e)" for i
    proof (rule relocated_mono)
      show "relocated (summary_loc ?m) (cp_summaries (fst y1)) i" using S that by blast
      show "set (cp_summaries (fst y1)) \<subseteq> set (cp_summaries (fst z'))" using P R(5) by (simp add: extends_def z')
    qed
    show "relocated (split_loc ?m) (cp_splits (fst z')) i" if "i \<in> set (de_split_ids e)" for i
      using P that R(4) by (simp add: z')
  qed
  moreover have "extends z z'" using extends_trans [OF extends_trans [of z y1 y2]] S P calculation(2) by blast
  moreover have "length (content_of y1) = length (content_of z) + sum_list (map (\<lambda>i. entity_bytes (summary_loc ?m i)) (owned_summary_ids e))"
    by (rule forM_adds [where I = "copy_ok x n", OF ok 1]) (use copy_summary_ok [OF _ na] copy_summary_len [OF _ na] in blast)
  moreover have "length (content_of y2) = length (content_of y1) + sum_list (map (\<lambda>i. entity_bytes (split_loc ?m i)) (de_split_ids e))"
    by (rule forM_adds [where I = "copy_ok x n", OF conjunct1 [OF S] 2]) (use copy_split_ok [OF _ na] copy_split_len [OF _ na] in blast)
  moreover have "content_of z' = content_of y3" by (simp add: content_of_def z')
  ultimately show ?thesis using R(6) e by (simp add: doc_bytes_def)
qed

lemma copy_all_ok:
  assumes run: "copy_all E writer ds x = (Inr c, y)" and na: "aseg_id writer \<noteq> active_id x"
    and w: "seg_ok (writer, snd x)"
  shows "copy_ok x (aseg_id writer) (c, y)" "\<forall>d \<in> set ds. doc_copied (st_maps (fst x)) d c"
    and "length (content_of (c, y)) = length (seg_content (writer, snd x)) + sum_list (map (doc_bytes (st_maps (fst x))) ds)"
proof -
  let ?n = "aseg_id writer" and ?m = "st_maps (fst x)"
  have 0: "copy_ok x ?n (copier_new writer, x)"
    using w by (simp add: copy_ok_def copies_def copier_new_def copied_from_def)
  obtain q c' s v where q: "forM (copy_document E) ds (copier_new writer, x) = (q, (c', s, v))" by (metis prod.collapse)
  with run have f: "forM (copy_document E) ds (copier_new writer, x) = (Inr (), (c, y))"
    by (cases q) (auto simp: copy_all_def split: unit.splits)
  have "copy_ok x ?n (c, y) \<and> extends (copier_new writer, x) (c, y) \<and> (\<forall>d \<in> set ds. doc_copied ?m d (fst (c, y)))"
  proof (rule forM_copies [OF 0 f])
    show "copy_ok x ?n y' \<and> extends y y' \<and> doc_copied ?m i (fst y')"
      if "copy_ok x ?n y" "copy_document E i y = (Inr r, y')" for i y y' r
      using copy_document_ok [OF that(1) na that(2)] by blast
    show "doc_copied ?m i (fst y')" if "doc_copied ?m i (fst y)" "extends y y'" for i y y'
      by (rule doc_copied_mono [OF that])
  qed
  then show "copy_ok x ?n (c, y)" "\<forall>d \<in> set ds. doc_copied ?m d c" by simp_all
  have "length (content_of (c, y)) = length (content_of (copier_new writer, x)) + sum_list (map (doc_bytes ?m) ds)"
    by (rule forM_adds [where I = "copy_ok x ?n", OF 0 f]) (use copy_document_ok [OF _ na] in blast)
  then show "length (content_of (c, y)) = length (seg_content (writer, snd x)) + sum_list (map (doc_bytes ?m) ds)"
    by (simp add: content_of_def copier_new_def)
qed

section \<open>The maps after the swap\<close>

lemma relocate_simps [simp]:
  "relocate f [] m = m"
  "relocate f ((i, l) # ls) m = relocate f ls (case fmlookup m i of None \<Rightarrow> m | Some e \<Rightarrow> fmupd i (f e l) m)"
  by (simp_all add: relocate_def)

lemma relocate_none: "i \<notin> fst ` set ls \<Longrightarrow> fmlookup (relocate f ls m) i = fmlookup m i"
proof (induction ls arbitrary: m)
  case (Cons jl ls)
  obtain j l where "jl = (j, l)" by fastforce
  with Cons show ?case by (cases "fmlookup m j") auto
qed simp

lemma relocate_dom: "fmlookup (relocate f ls m) i = None \<longleftrightarrow> fmlookup m i = None"
proof (induction ls arbitrary: m)
  case (Cons jl ls)
  obtain j l where "jl = (j, l)" by fastforce
  with Cons show ?case by (cases "fmlookup m j") auto
qed simp

lemma relocate_some:
  assumes "\<And>e l l'. f (f e l) l' = f e l'" "i \<in> fst ` set ls"
  shows "\<exists>l. (i, l) \<in> set ls \<and> fmlookup (relocate f ls m) i = map_option (\<lambda>e. f e l) (fmlookup m i)"
  using assms(2)
proof (induction ls arbitrary: m)
  case (Cons jl ls)
  obtain j l where jl: "jl = (j, l)" by fastforce
  let ?m = "case fmlookup m j of None \<Rightarrow> m | Some e \<Rightarrow> fmupd j (f e l) m"
  have r: "relocate f (jl # ls) m = relocate f ls ?m" by (simp add: jl)
  have v: "fmlookup ?m i = (if i = j then map_option (\<lambda>e. f e l) (fmlookup m i) else fmlookup m i)"
    by (auto split: option.splits)
  show ?case
  proof (cases "i \<in> fst ` set ls")
    case True
    from Cons.IH [OF this, of ?m] obtain l' where "(i, l') \<in> set ls"
      "fmlookup (relocate f ls ?m) i = map_option (\<lambda>e. f e l') (fmlookup ?m i)" by blast
    then show ?thesis unfolding r v using assms(1) by (cases "fmlookup m i") auto
  next
    case False
    with Cons.prems jl have "i = j" by auto
    with relocate_none [OF False, of f ?m] v show ?thesis unfolding r by (auto simp: jl)
  qed
qed simp

end
