(* ===== verification/Compact_Swap.thy ===== *)
theory Compact_Swap
  imports Compact_Facts
begin

text \<open>
  The second half of a compaction: the new segment takes the place of the sealed ones, and what
  the maps name afterwards reads as it did before.
\<close>

section \<open>What the swap leaves alone\<close>

definition unmoved :: "sstate \<Rightarrow> sstate \<Rightarrow> bool" where
  "unmoved x y \<longleftrightarrow> st_active (fst y) = st_active (fst x) \<and> st_opts (fst y) = st_opts (fst x)
     \<and> fmlookup (files (snd y)) (SegFile (active_id x)) = fmlookup (files (snd x)) (SegFile (active_id x))"

lemma unmoved_refl [simp]: "unmoved x x"
  by (simp add: unmoved_def)

lemma unmoved_trans: "unmoved x y \<Longrightarrow> unmoved y z \<Longrightarrow> unmoved x z"
  by (simp add: unmoved_def)

lemma unmoved_seg:
  assumes "unmoved x y"
  shows "seg_ok (seg_of y) = seg_ok (seg_of x)" "flushed y = flushed x" "active_id y = active_id x"
    "file_of (snd y) (SegFile (active_id x)) = file_of (snd x) (SegFile (active_id x))"
  using assms by (simp_all add: unmoved_def seg_ok_def seg_of_def seg_content_def file_of_def fs_exists_def flushed_def)

lemma swap_manifest_keeps:
  assumes "swap_manifest E infos x = (Inr u, y)"
  shows "unmoved x y" "st_maps (fst y) = st_maps (fst x)" "st_sealed (fst y) = st_sealed (fst x)"
    "fmlookup (files (snd y)) (SegFile i) = fmlookup (files (snd x)) (SegFile i)"
proof -
  let ?s = "(fst x)\<lparr>st_manifest := (st_manifest (fst x))\<lparr>mf_snapshot_seq := 0, mf_sealed := infos, mf_tombstone_bytes := 0\<rparr>\<rparr>"
  from assms obtain v w where 1: "snapshot_remove (snd x) = (Inr (), v)"
    and 2: "manifest_store (e_manifest E) (st_manifest ?s) v = (Inr u, w)" and y: "y = (?s, w)"
    by (auto simp: swap_manifest_def seqM_Inr on_disk_Inr on_store_Inr store_manifest_def split: prod.splits)
  have "fmlookup (files v) (SegFile j) = fmlookup (files (snd x)) (SegFile j)" for j
    using 1 by (auto simp: snapshot_remove_def dest!: fs_remove_Inr split: if_splits)
  moreover have "fmlookup (files w) (SegFile j) = fmlookup (files v) (SegFile j)" for j
    using 2 by (rule manifest_store_Inr) simp
  ultimately show "unmoved x y" "st_maps (fst y) = st_maps (fst x)" "st_sealed (fst y) = st_sealed (fst x)"
    "fmlookup (files (snd y)) (SegFile i) = fmlookup (files (snd x)) (SegFile i)"
    by (simp_all add: unmoved_def y)
qed

lemma fs_remove_other:
  "fs_remove f w = (r, v) \<Longrightarrow> g \<noteq> f \<Longrightarrow> fmlookup (files v) g = fmlookup (files w) g"
  by (auto simp: fs_remove_def io_def dest!: next_fault_state split: if_splits prod.splits fault.splits)

lemma attempt_remove:
  assumes "attempt (on_disk (fs_remove f)) (\<lambda>_. ret ()) x = (Inr u, y)"
  shows "fst y = fst x" "g \<noteq> f \<Longrightarrow> fmlookup (files (snd y)) g = fmlookup (files (snd x)) g"
proof -
  obtain s w where x: "x = (s, w)" by fastforce
  obtain r v where "fs_remove f w = (r, v)" by fastforce
  then have "y = (s, v)" "g \<noteq> f \<Longrightarrow> fmlookup (files v) g = fmlookup (files w) g"
    using assms fs_remove_other by (auto simp: attempt_def on_disk_def zoom_def x ret_def)
  then show "fst y = fst x" "g \<noteq> f \<Longrightarrow> fmlookup (files (snd y)) g = fmlookup (files (snd x)) g" by (simp_all add: x)
qed

lemma remove_segments_keeps:
  assumes "remove_segments ids x = (Inr u, y)"
  shows "fst y = fst x \<and> (\<forall>i. i \<notin> set ids \<longrightarrow> fmlookup (files (snd y)) (SegFile i) = fmlookup (files (snd x)) (SegFile i))"
  using assms
proof (induction ids arbitrary: x)
  case (Cons j js)
  from Cons.prems obtain z where z: "attempt (on_disk (fs_remove (SegFile j))) (\<lambda>_. ret ()) x = (Inr (), z)"
    "remove_segments js z = (Inr u, y)" by (auto simp: remove_segments_def seqM_Inr)
  show ?case using Cons.IH [OF z(2)] attempt_remove [OF z(1)] by simp
qed (simp add: remove_segments_def ret_Inr)

lemma snapshot_meta_keeps:
  assumes "snapshot_meta E x = (Inr q, z)" "seg_ok (seg_of x)" "flushed x"
  shows "active_id z = active_id x" "st_opts (fst z) = st_opts (fst x)" "st_maps (fst z) = st_maps (fst x)"
    "st_sealed (fst z) = st_sealed (fst x)" "file_of (snd z) (SegFile (active_id x)) = file_of (snd x) (SegFile (active_id x))"
proof -
  from assms(1) obtain y w1 w2 where sy: "on_active seg_sync x = (Inr (), y)"
    and ss: "snapshot_store (e_crc E) (e_order E) (st_maps (fst y)) q (snd y) = (Inr (), w1)"
    and ms: "manifest_store (e_manifest E) ((st_manifest (fst y))\<lparr>mf_snapshot_seq := q\<rparr>) w1 = (Inr (), w2)"
    and z: "z = ((fst y)\<lparr>st_manifest := (st_manifest (fst y))\<lparr>mf_snapshot_seq := q\<rparr>\<rparr>, w2)"
    by (rule snapshot_meta_run)
  from sy obtain p where p: "seg_sync (seg_of x) = (Inr (), p)" and y: "y = ((fst x)\<lparr>st_active := fst p\<rparr>, snd p)"
    by (auto simp: on_active_Inr)
  note S = seg_sync_Inr [OF p assms(2)]
  have "file_of (snd p) (SegFile (active_id x)) = file_of (snd x) (SegFile (active_id x))"
    using S(2-4) assms(3) by (simp add: seg_content_def seg_of_def seg_frame_def flushed_def)
  moreover have "fmlookup (files w1) (SegFile i) = fmlookup (files (snd y)) (SegFile i)" for i
    using snapshot_store_other [OF ss] by simp
  moreover have "fmlookup (files w2) (SegFile i) = fmlookup (files w1) (SegFile i)" for i
    using ms by (rule manifest_store_Inr) simp
  ultimately show "active_id z = active_id x" "st_opts (fst z) = st_opts (fst x)" "st_maps (fst z) = st_maps (fst x)"
    "st_sealed (fst z) = st_sealed (fst x)" "file_of (snd z) (SegFile (active_id x)) = file_of (snd x) (SegFile (active_id x))"
    using S(4) by (simp_all add: z y seg_frame_def seg_of_def file_of_def)
qed

section \<open>Where the copies are\<close>

text \<open>Every new location reads as the old one did.\<close>

definition carried :: "sstate \<Rightarrow> sstate \<Rightarrow> (u64 \<Rightarrow> loc option) \<Rightarrow> (u64 \<times> loc) list \<Rightarrow> bool" where
  "carried x y old ls \<longleftrightarrow> (\<forall>(i, l) \<in> set ls. \<exists>k. old i = Some k
     \<and> read_record (fst y) (snd y) l = read_record (fst x) (snd x) k)"

definition carries :: "sstate \<Rightarrow> sstate \<Rightarrow> copier \<Rightarrow> bool" where
  "carries x y c \<longleftrightarrow> carried x y (doc_loc (st_maps (fst x))) (cp_docs c)
     \<and> carried x y (split_loc (st_maps (fst x))) (cp_splits c)
     \<and> carried x y (summary_loc (st_maps (fst x))) (cp_summaries c)"

lemma copied_carried:
  assumes "copied_from x n (sseg_map z) old ls" "fmlookup (st_sealed (fst y)) n = Some z" "n \<noteq> active_id y"
  shows "carried x y old ls"
proof -
  have "\<exists>k. old i = Some k \<and> read_record (fst y) (snd y) l = read_record (fst x) (snd x) k" if il: "(i, l) \<in> set ls" for i l
  proof -
    obtain k bs where k: "old i = Some k" "read_record (fst x) (snd x) k = Inr bs" "bytes_at n (sseg_map z) l bs"
      using assms(1) il unfolding copied_from_def by blast
    have "loc_segment l = n" using k(3) by (simp add: bytes_at_def)
    then have "read_record (fst y) (snd y) l = Inr bs"
      using bytes_at_slice [OF k(3)] assms(2,3) by (simp add: read_record_def)
    with k show ?thesis by auto
  qed
  then show ?thesis unfolding carried_def by blast
qed

lemma copied_from_nothing: "copied_from x n [] old ls \<Longrightarrow> ls = []"
  by (cases ls) (auto simp: copied_from_def bytes_at_def)

lemma relocate_nothing: "cp_docs c = [] \<Longrightarrow> cp_splits c = [] \<Longrightarrow> cp_summaries c = [] \<Longrightarrow> relocate_maps c m = m"
  by (simp add: relocate_maps_def)

text \<open>The store \<open>y\<close> after a compaction of \<open>x\<close> that copied \<open>c\<close>.\<close>

definition compacted :: "sstate \<Rightarrow> copier \<Rightarrow> sstate \<Rightarrow> bool" where
  "compacted x c y \<longleftrightarrow> st_maps (fst y) = relocate_maps c (st_maps (fst x)) \<and> carries x y c
     \<and> active_id y = active_id x \<and> st_opts (fst y) = st_opts (fst x)
     \<and> file_of (snd y) (SegFile (active_id x)) = file_of (snd x) (SegFile (active_id x))
     \<and> fcard (fmdom (st_sealed (fst y))) \<le> 1"

lemma drop_sealed_compacted:
  assumes run: "drop_sealed E x = (Inr u, y)" and ok: "seg_ok (seg_of x)" "flushed x"
    and na: "active_id x \<notin> si_id ` set (mf_sealed (st_manifest (fst x)))"
  shows "active_id y = active_id x" "st_opts (fst y) = st_opts (fst x)" "st_maps (fst y) = st_maps (fst x)"
    "file_of (snd y) (SegFile (active_id x)) = file_of (snd x) (SegFile (active_id x))" "st_sealed (fst y) = fmempty"
proof -
  let ?ids = "map si_id (mf_sealed (st_manifest (fst x)))"
  from run obtain x1 x2 q where 1: "swap_manifest E [] x = (Inr (), x1)"
    and 2: "remove_segments ?ids ((fst x1)\<lparr>st_sealed := fmempty\<rparr>, snd x1) = (Inr (), x2)"
    and 3: "snapshot_meta E x2 = (Inr q, y)"
    by (auto simp: drop_sealed_def bindM_Inr seqM_Inr the_store_Inr on_store_Inr ret_Inr)
  note M = swap_manifest_keeps [OF 1] and R = remove_segments_keeps [OF 2]
  have id: "active_id x1 = active_id x" using unmoved_seg(3) [OF M(1)] .
  have u: "unmoved x x2" using M(1) R na id by (simp add: unmoved_def)
  note S = snapshot_meta_keeps [OF 3] and U = unmoved_seg [OF u]
  have ok2: "seg_ok (seg_of x2)" "flushed x2" using U(1,2) ok by simp_all
  show "active_id y = active_id x" "st_opts (fst y) = st_opts (fst x)" "st_maps (fst y) = st_maps (fst x)"
    "file_of (snd y) (SegFile (active_id x)) = file_of (snd x) (SegFile (active_id x))" "st_sealed (fst y) = fmempty"
    using S [OF ok2] U(3,4) u M(2) R by (simp_all add: unmoved_def)
qed

lemma swap_in_compacted:
  assumes run: "swap_in E c x = (Inr u, y)" and ok: "seg_ok (seg_of x)" "flushed x" "seg_ok (cp_writer c, snd x)"
    and na: "active_id x \<notin> si_id ` set (mf_sealed (st_manifest (fst x)))" and n: "aseg_id (cp_writer c) \<noteq> active_id x"
  shows "active_id y = active_id x" "st_opts (fst y) = st_opts (fst x)" "st_maps (fst y) = relocate_maps c (st_maps (fst x))"
    "file_of (snd y) (SegFile (active_id x)) = file_of (snd x) (SegFile (active_id x))"
    "\<exists>z. st_sealed (fst y) = fmupd (aseg_id (cp_writer c)) z fmempty \<and> sseg_map z = content_of (c, x)"
proof -
  let ?ids = "map si_id (mf_sealed (st_manifest (fst x)))" and ?n = "aseg_id (cp_writer c)"
  from run obtain z w info x1 x2 q where 0: "seal_segment (cp_writer c) (snd x) = (Inr z, w)"
    and 1: "swap_manifest E [info] (fst x, w) = (Inr (), x1)"
    and 2: "remove_segments ?ids ((fst x1)\<lparr>st_maps := relocate_maps c (st_maps (fst x1)), st_sealed := fmupd ?n z fmempty\<rparr>, snd x1) = (Inr (), x2)"
    and 3: "snapshot_meta E x2 = (Inr q, y)"
    by (auto simp: swap_in_def Let_def bindM_Inr seqM_Inr the_store_Inr on_store_Inr ret_Inr on_disk_Inr)
  from 0 obtain b where b: "seg_seal (cp_writer c, snd x) = (Inr z, (b, w))" by (auto simp: seal_segment_Inr)
  note B = seg_seal_Inr [OF b ok(3)]
  note M = swap_manifest_keeps [OF 1] and R = remove_segments_keeps [OF 2]
  have "unmoved x (fst x, w)" using B(3) n by (simp add: unmoved_def seg_frame_def)
  then have u1: "unmoved x x1" using M(1) by (rule unmoved_trans)
  have u: "unmoved x x2" using u1 R na by (simp add: unmoved_def)
  note S = snapshot_meta_keeps [OF 3] and U = unmoved_seg [OF u]
  have ok2: "seg_ok (seg_of x2)" "flushed x2" using U(1,2) ok by simp_all
  show "active_id y = active_id x" "st_opts (fst y) = st_opts (fst x)" "st_maps (fst y) = relocate_maps c (st_maps (fst x))"
    "file_of (snd y) (SegFile (active_id x)) = file_of (snd x) (SegFile (active_id x))"
    using S [OF ok2] U(3,4) u M(2) R by (simp_all add: unmoved_def)
  have "st_sealed (fst y) = fmupd ?n z fmempty" using S(4) [OF ok2] R by simp
  with B(2) show "\<exists>z. st_sealed (fst y) = fmupd ?n z fmempty \<and> sseg_map z = content_of (c, x)"
    by (intro exI [of _ z]) (simp add: content_of_def)
qed

section \<open>A compaction\<close>

lemma seg_open_fresh:
  assumes "seg_open n w = (Inr a, v)" "\<not> fs_exists w (SegFile n)"
  shows "aseg_id a = n" "seg_content (a, v) = []" "seg_ok (a, v)" "f \<noteq> SegFile n \<Longrightarrow> fmlookup (files v) f = fmlookup (files w) f"
proof -
  note S = seg_open_Inr [OF assms(1)]
  have e: "file_of w (SegFile n) = []" using assms(2) by (simp add: file_of_def fs_exists_def)
  show "aseg_id a = n" "seg_content (a, v) = []" "f \<noteq> SegFile n \<Longrightarrow> fmlookup (files v) f = fmlookup (files w) f"
    using S e by simp_all
  show "seg_ok (a, v)" using S e by (simp add: seg_ok_def fs_exists_def)
qed

lemma compact_into_parts:
  assumes run: "compact_into E n ids x = (Inr u, y)"
    and n: "n \<noteq> active_id x" "\<not> fs_exists (snd x) (SegFile n)"
    and len: "sum_list (map (doc_bytes (st_maps (fst x))) (sealed_docs ids (st_maps (fst x)))) < 2 ^ 64"
  obtains a v c x2 where "unmoved x (fst x, v)" "aseg_id a = n"
    "copy_all E a (sealed_docs ids (st_maps (fst x))) (fst x, v) = (Inr c, x2)"
    "(if aseg_len (cp_writer c) = 0
      then seqM (attempt (on_disk (fs_remove (SegFile n))) (\<lambda>_. ret ())) (drop_sealed E)
      else swap_in E c) x2 = (Inr u, y)"
    "unmoved x x2" "fst x2 = fst x" "aseg_id (cp_writer c) = n" "seg_ok (cp_writer c, snd x2)"
    "copied_from x n (content_of (c, x2)) (doc_loc (st_maps (fst x))) (cp_docs c)"
    "copied_from x n (content_of (c, x2)) (split_loc (st_maps (fst x))) (cp_splits c)"
    "copied_from x n (content_of (c, x2)) (summary_loc (st_maps (fst x))) (cp_summaries c)"
    "\<forall>d \<in> set (sealed_docs ids (st_maps (fst x))). doc_copied (st_maps (fst x)) d c"
    "length (content_of (c, x2)) < 2 ^ 64"
proof -
  let ?m = "st_maps (fst x)"
  from run obtain a v where o: "seg_open n (snd x) = (Inr a, v)"
    and r: "(if aseg_len a \<noteq> 0 then fail (SegmentExists n)
      else bindM (copy_all E a (sealed_docs ids ?m)) (\<lambda>c.
        if aseg_len (cp_writer c) = 0
        then seqM (attempt (on_disk (fs_remove (SegFile n))) (\<lambda>_. ret ())) (drop_sealed E)
        else swap_in E c)) (fst x, v) = (Inr u, y)"
    by (auto simp: compact_into_def bindM_Inr the_store_Inr on_disk_Inr)
  note O = seg_open_fresh [OF o n(2)]
  let ?x = "(fst x, v)"
  have ux: "unmoved x ?x" using O(4) [of "SegFile (active_id x)"] n(1) by (simp add: unmoved_def)
  note X = unmoved_seg [OF ux]
  from r obtain c x2 where c: "copy_all E a (sealed_docs ids ?m) ?x = (Inr c, x2)"
    and s: "(if aseg_len (cp_writer c) = 0
        then seqM (attempt (on_disk (fs_remove (SegFile n))) (\<lambda>_. ret ())) (drop_sealed E)
        else swap_in E c) x2 = (Inr u, y)"
    by (auto simp: fail_def bindM_Inr split: if_splits)
  have aid: "aseg_id a \<noteq> active_id ?x" using O(1) n(1) by simp
  have wa: "seg_ok (a, snd ?x)" using O(3) by simp
  note C = copy_all_ok [OF c aid wa]
  have lt: "length (content_of (c, x2)) < 2 ^ 64" using C(3) O(2) len by simp
  from C(1) have cp: "copies ?x n (c, x2)" and wok: "seg_ok (cp_writer c, snd x2)"
    and cf: "copied_from ?x n (content_of (c, x2)) (doc_loc ?m) (cp_docs c)"
      "copied_from ?x n (content_of (c, x2)) (split_loc ?m) (cp_splits c)"
      "copied_from ?x n (content_of (c, x2)) (summary_loc ?m) (cp_summaries c)"
    using lt O(1) by (simp_all add: copy_ok_def)
  have "unmoved ?x x2" using cp n(1) by (simp add: copies_def unmoved_def)
  with ux have u2: "unmoved x x2" by (rule unmoved_trans)
  have "read_record (fst x) v k = read_record (fst x) (snd x) k" for k
    by (rule read_record_cong) (use X(4) in simp_all)
  then have "copied_from ?x n content old ls = copied_from x n content old ls" for content old ls
    by (simp add: copied_from_def)
  with cf cp C(2) show thesis
    by (intro that [OF ux O(1) c s u2 _ _ wok _ _ _ _ lt]) (simp_all add: copies_def)
qed

lemma compact_into_compacted:
  assumes run: "compact_into E n ids x = (Inr u, y)" and ok: "seg_ok (seg_of x)" "flushed x"
    and na: "active_id x \<notin> si_id ` set (mf_sealed (st_manifest (fst x)))"
    and n: "n \<noteq> active_id x" "\<not> fs_exists (snd x) (SegFile n)"
    and len: "sum_list (map (doc_bytes (st_maps (fst x))) (sealed_docs ids (st_maps (fst x)))) < 2 ^ 64"
  shows "\<exists>c. compacted x c y \<and> (\<forall>d \<in> set (sealed_docs ids (st_maps (fst x))). doc_copied (st_maps (fst x)) d c)"
  using run n len
proof (rule compact_into_parts)
  fix a v c x2
  assume s: "(if aseg_len (cp_writer c) = 0
        then seqM (attempt (on_disk (fs_remove (SegFile n))) (\<lambda>_. ret ())) (drop_sealed E)
        else swap_in E c) x2 = (Inr u, y)"
    and u2: "unmoved x x2" and f2: "fst x2 = fst x" and cid: "aseg_id (cp_writer c) = n" and wok: "seg_ok (cp_writer c, snd x2)"
    and cf: "copied_from x n (content_of (c, x2)) (doc_loc (st_maps (fst x))) (cp_docs c)"
    "copied_from x n (content_of (c, x2)) (split_loc (st_maps (fst x))) (cp_splits c)"
    "copied_from x n (content_of (c, x2)) (summary_loc (st_maps (fst x))) (cp_summaries c)"
    and all: "\<forall>d \<in> set (sealed_docs ids (st_maps (fst x))). doc_copied (st_maps (fst x)) d c"
  note U = unmoved_seg [OF u2]
  have ok2: "seg_ok (seg_of x2)" "flushed x2" using U(1,2) ok by simp_all
  have na2: "active_id x2 \<notin> si_id ` set (mf_sealed (st_manifest (fst x2)))" using na f2 by simp
  have "compacted x c y"
  proof (cases "aseg_len (cp_writer c) = 0")
    case True
    then have "content_of (c, x2) = []" using wok by (simp add: seg_ok_def content_of_def)
    with cf have none: "cp_docs c = []" "cp_splits c = []" "cp_summaries c = []"
      using copied_from_nothing by auto
    from s True obtain x3 where 3: "attempt (on_disk (fs_remove (SegFile n))) (\<lambda>_. ret ()) x2 = (Inr (), x3)"
      "drop_sealed E x3 = (Inr u, y)" by (auto simp: seqM_Inr)
    have f3: "fst x3 = fst x2" by (rule attempt_remove(1) [OF 3(1)])
    have "unmoved x2 x3" using attempt_remove(2) [OF 3(1), of "SegFile (active_id x2)"] f3 n(1) U(3) by (simp add: unmoved_def)
    with u2 have u3: "unmoved x x3" by (rule unmoved_trans)
    note V = unmoved_seg [OF u3]
    have "seg_ok (seg_of x3)" "flushed x3" "active_id x3 \<notin> si_id ` set (mf_sealed (st_manifest (fst x3)))"
      using V ok na f2 f3 by simp_all
    from drop_sealed_compacted [OF 3(2) this] V(3,4) f2 f3 show ?thesis
      by (simp add: compacted_def carries_def carried_def none relocate_nothing fcard_fempty)
  next
    case False
    with s have "swap_in E c x2 = (Inr u, y)" by simp
    from swap_in_compacted [OF this ok2 wok na2] cid n(1) U(3)
    have W: "active_id y = active_id x2" "st_opts (fst y) = st_opts (fst x2)" "st_maps (fst y) = relocate_maps c (st_maps (fst x2))"
      "file_of (snd y) (SegFile (active_id x2)) = file_of (snd x2) (SegFile (active_id x2))"
      "\<exists>z. st_sealed (fst y) = fmupd n z fmempty \<and> sseg_map z = content_of (c, x2)" by simp_all
    then obtain z where se: "st_sealed (fst y) = fmupd n z fmempty" and z2: "sseg_map z = content_of (c, x2)" by blast
    then have z: "fmlookup (st_sealed (fst y)) n = Some z" by simp
    have ny: "n \<noteq> active_id y" using W(1) U(3) n(1) by simp
    have "carried x y old ls" if "copied_from x n (content_of (c, x2)) old ls" for old ls
      by (rule copied_carried [OF _ z ny]) (use that z2 in simp)
    with cf have "carries x y c" by (simp add: carries_def)
    with W(1-4) U(3,4) f2 se show ?thesis by (simp add: compacted_def fcard_finsert_disjoint)
  qed
  with all show ?thesis by blast
qed

section \<open>What is read afterwards\<close>

definition same_entry :: "sstate \<Rightarrow> sstate \<Rightarrow> ('e \<Rightarrow> loc \<Rightarrow> 'e) \<Rightarrow> ('e \<Rightarrow> loc) \<Rightarrow> 'e \<Rightarrow> 'e \<Rightarrow> bool" where
  "same_entry x y f get e e' \<longleftrightarrow> f e' (get e) = e
     \<and> read_record (fst y) (snd y) (get e') = read_record (fst x) (snd x) (get e)"

text \<open>The same entities with the same records, wherever those are.\<close>

definition same_records :: "sstate \<Rightarrow> sstate \<Rightarrow> bool" where
  "same_records x y \<longleftrightarrow>
     (\<forall>i. rel_option (same_entry x y (\<lambda>e l. e\<lparr>de_loc := l\<rparr>) de_loc)
        (fmlookup (docs (st_maps (fst x))) i) (fmlookup (docs (st_maps (fst y))) i))
     \<and> (\<forall>i. rel_option (same_entry x y (\<lambda>e l. e\<lparr>se_loc := l\<rparr>) se_loc)
        (fmlookup (splits (st_maps (fst x))) i) (fmlookup (splits (st_maps (fst y))) i))
     \<and> (\<forall>i. rel_option (same_entry x y (\<lambda>e l. e\<lparr>ue_loc := l\<rparr>) ue_loc)
        (fmlookup (summaries (st_maps (fst x))) i) (fmlookup (summaries (st_maps (fst y))) i))"

lemma same_records_refl: "same_records x x"
proof -
  have "rel_option (same_entry x x (\<lambda>e l. e\<lparr>de_loc := l\<rparr>) de_loc) r r" for r by (cases r) (simp_all add: same_entry_def)
  moreover have "rel_option (same_entry x x (\<lambda>e l. e\<lparr>se_loc := l\<rparr>) se_loc) r r" for r by (cases r) (simp_all add: same_entry_def)
  moreover have "rel_option (same_entry x x (\<lambda>e l. e\<lparr>ue_loc := l\<rparr>) ue_loc) r r" for r by (cases r) (simp_all add: same_entry_def)
  ultimately show ?thesis unfolding same_records_def by blast
qed

lemma relocated_same:
  assumes f: "\<And>e l l'. f (f e l) l' = f e l'" "\<And>e l. get (f e l) = l" "\<And>e. f e (get e) = e"
    and ls: "carried x y (\<lambda>i. map_option get (fmlookup m i)) ls"
    and act: "active_id y = active_id x" "file_of (snd y) (SegFile (active_id x)) = file_of (snd x) (SegFile (active_id x))"
    and rest: "\<And>e. fmlookup m i = Some e \<Longrightarrow> i \<notin> fst ` set ls \<Longrightarrow> loc_segment (get e) = active_id x"
  shows "rel_option (same_entry x y f get) (fmlookup m i) (fmlookup (relocate f ls m) i)"
proof (cases "fmlookup m i")
  case None
  then show ?thesis by (simp add: relocate_dom)
next
  case (Some e)
  show ?thesis
  proof (cases "i \<in> fst ` set ls")
    case True
    obtain l where l: "(i, l) \<in> set ls" "fmlookup (relocate f ls m) i = map_option (\<lambda>e. f e l) (fmlookup m i)"
      using relocate_some [of f, OF f(1) True] by blast
    have "read_record (fst y) (snd y) l = read_record (fst x) (snd x) (get e)"
      using ls l(1) Some unfolding carried_def by fastforce
    with l(2) Some f show ?thesis by (simp add: same_entry_def)
  next
    case False
    have "read_record (fst y) (snd y) (get e) = read_record (fst x) (snd x) (get e)"
      by (rule read_record_cong) (use act rest [OF Some False] in simp_all)
    with Some False f show ?thesis by (simp add: same_entry_def relocate_none)
  qed
qed

text \<open>Every location is in a segment of the store.\<close>

definition homed :: "sstate \<Rightarrow> bool" where
  "homed x \<longleftrightarrow> (\<forall>i l. l \<in> set_option (doc_loc (st_maps (fst x)) i) \<union> set_option (split_loc (st_maps (fst x)) i)
       \<union> set_option (summary_loc (st_maps (fst x)) i)
     \<longrightarrow> loc_segment l = active_id x \<or> loc_segment l |\<in>| fmdom (st_sealed (fst x)))"

lemma sealed_docs_iff:
  "d \<in> set (sealed_docs ids m) \<longleftrightarrow> (\<exists>e. fmlookup (docs m) d = Some e \<and> loc_segment (de_loc e) |\<in>| ids)"
  by (auto simp: sealed_docs_def fmdomI dest!: fmdomE split: option.splits if_splits)

lemma compacted_same_records:
  assumes "compacted x c y" "grouped (st_maps (fst x))" "homed x"
    and all: "\<forall>d \<in> set (sealed_docs (fmdom (st_sealed (fst x))) (st_maps (fst x))). doc_copied (st_maps (fst x)) d c"
  shows "same_records x y"
proof -
  let ?m = "st_maps (fst x)" and ?sealed = "fmdom (st_sealed (fst x))"
  have c: "st_maps (fst y) = relocate_maps c ?m" "active_id y = active_id x"
    "file_of (snd y) (SegFile (active_id x)) = file_of (snd x) (SegFile (active_id x))"
    "carried x y (doc_loc ?m) (cp_docs c)" "carried x y (split_loc ?m) (cp_splits c)" "carried x y (summary_loc ?m) (cp_summaries c)"
    using assms(1) by (simp_all add: compacted_def carries_def)
  have d: "loc_segment (de_loc e) = active_id x" if e: "fmlookup (docs ?m) i = Some e" "i \<notin> fst ` set (cp_docs c)" for i e
  proof -
    have "loc_segment (de_loc e) |\<notin>| ?sealed"
      using all e sealed_docs_iff [of i ?sealed ?m] by (auto simp: doc_copied_def)
    moreover have "de_loc e \<in> set_option (doc_loc ?m i)" using e(1) by (simp add: doc_loc_def)
    ultimately show ?thesis using assms(3) unfolding homed_def by blast
  qed
  have s: "loc_segment (se_loc e) = active_id x" if e: "fmlookup (splits ?m) i = Some e" "i \<notin> fst ` set (cp_splits c)" for i e
  proof -
    obtain d where d: "fmlookup (docs ?m) (se_doc_id e) = Some d" "i \<in> set (de_split_ids d)" "loc_segment (de_loc d) = loc_segment (se_loc e)"
      using assms(2) e(1) unfolding grouped_def by blast
    have "loc_segment (se_loc e) |\<notin>| ?sealed"
    proof
      assume "loc_segment (se_loc e) |\<in>| ?sealed"
      with d have "doc_copied ?m (se_doc_id e) c" using all sealed_docs_iff by metis
      with d have "relocated (split_loc ?m) (cp_splits c) i" by (simp add: doc_copied_def)
      with e show False by (simp add: relocated_def split_loc_def)
    qed
    moreover have "se_loc e \<in> set_option (split_loc ?m i)" using e(1) by (simp add: split_loc_def)
    ultimately show ?thesis using assms(3) unfolding homed_def by blast
  qed
  have u: "loc_segment (ue_loc e) = active_id x" if e: "fmlookup (summaries ?m) i = Some e" "i \<notin> fst ` set (cp_summaries c)" for i e
  proof -
    obtain d where d: "fmlookup (docs ?m) (ue_doc_id e) = Some d" "i \<in> set (owned_summary_ids d)" "loc_segment (de_loc d) = loc_segment (ue_loc e)"
      using assms(2) e(1) unfolding grouped_def by blast
    have "loc_segment (ue_loc e) |\<notin>| ?sealed"
    proof
      assume "loc_segment (ue_loc e) |\<in>| ?sealed"
      with d have "doc_copied ?m (ue_doc_id e) c" using all sealed_docs_iff by metis
      with d have "relocated (summary_loc ?m) (cp_summaries c) i" by (simp add: doc_copied_def)
      with e show False by (simp add: relocated_def summary_loc_def)
    qed
    moreover have "ue_loc e \<in> set_option (summary_loc ?m i)" using e(1) by (simp add: summary_loc_def)
    ultimately show ?thesis using assms(3) unfolding homed_def by blast
  qed
  show ?thesis
    unfolding same_records_def c(1) relocate_maps_def
    by (intro conjI allI; simp only: maps.select_convs; rule relocated_same)
      (use c d s u in \<open>simp_all add: doc_loc_def [abs_def] split_loc_def [abs_def] summary_loc_def [abs_def]\<close>)
qed

end
