(* ===== verification/Compact_Reads.thy ===== *)
theory Compact_Reads
  imports Compact_Swap
begin

text \<open>
  What compaction needs of a store, kept by its operations, and what reading a store gives
  afterwards.
\<close>

section \<open>Steps on the store\<close>

lemma bind_the_store: "bindM (the_store g) k x = k (g (fst x)) x"
  by (cases x) (simp add: bindM_def the_store_def getM_def)

lemma seq_on_store: "seqM (on_store g) k x = k (g (fst x), snd x)"
  by (cases x) (simp add: seqM_def bindM_def on_store_def modM_def)

section \<open>What the maps name\<close>

text \<open>
  \<open>all_named N m\<close>: every entry of the maps is under an id and at a location that \<open>N\<close> relates, by the
  kind of its record. It is kept by a replay when \<open>N\<close> holds of the id that each record carries.
\<close>

type_synonym naming = "record_kind \<Rightarrow> u64 \<Rightarrow> loc \<Rightarrow> bool"

definition all_named :: "naming \<Rightarrow> maps \<Rightarrow> bool" where
  "all_named N m \<longleftrightarrow> (\<forall>i e. fmlookup (docs m) i = Some e \<longrightarrow> N Doc i (de_loc e))
     \<and> (\<forall>i e. fmlookup (splits m) i = Some e \<longrightarrow> N Split i (se_loc e))
     \<and> (\<forall>i e. fmlookup (summaries m) i = Some e \<longrightarrow> N Summary i (ue_loc e))"

fun pending_name :: "naming \<Rightarrow> pending \<Rightarrow> bool" where
  "pending_name N (PSplit i d us l) = N Split i l"
| "pending_name N (PSummary i d s l) = N Summary i l"

definition pending_named :: "naming \<Rightarrow> pending list \<Rightarrow> bool" where
  "pending_named N ps \<longleftrightarrow> (\<forall>p \<in> set ps. pending_name N p)"

text \<open>The id a record carries.\<close>

definition bears_id :: "env \<Rightarrow> record_kind \<Rightarrow> bytes \<Rightarrow> u64 \<Rightarrow> bool" where
  "bears_id E kind meta i \<longleftrightarrow>
     (case kind of
        Doc \<Rightarrow> (\<exists>d. from_slice (e_doc E) meta = Inr d \<and> dm_doc_id d = i)
      | Split \<Rightarrow> (\<exists>s. from_slice (e_split E) meta = Inr s \<and> sm_split_id s = i)
      | Summary \<Rightarrow> (\<exists>u. from_slice (e_summary E) meta = Inr u \<and> um_summary_id u = i)
      | DeleteDoc \<Rightarrow> False)"

definition names_record :: "env \<Rightarrow> naming \<Rightarrow> loc \<Rightarrow> log_record \<Rightarrow> bool" where
  "names_record E N l r \<longleftrightarrow> (\<forall>i. bears_id E (lr_kind r) (lr_meta r) i \<longrightarrow> N (lr_kind r) i l)"

lemma named_empty: "all_named N empty_maps"
  by (simp add: all_named_def empty_maps_def)

lemma named_drop_doc: "all_named N m \<Longrightarrow> all_named N (drop_doc d seg m)"
  by (cases "fmlookup (docs m) d") (auto simp: all_named_def drop_doc_eq fmlookup_fmremoves)

lemma named_commit_entries:
  "all_named N m \<Longrightarrow> pending_named N ps \<Longrightarrow> all_named N (fst (commit_entries ps (m, ids)))"
proof (induction ps arbitrary: m ids)
  case (Cons p ps)
  show ?case
  proof (cases p)
    case (PSplit i d us l)
    have "all_named N (m\<lparr>splits := fmupd i \<lparr> se_doc_id = d, se_loc = l \<rparr> (splits m)\<rparr>)"
      using Cons.prems by (simp add: PSplit all_named_def pending_named_def)
    with Cons show ?thesis by (simp add: PSplit pending_named_def)
  next
    case (PSummary i d s l)
    have "all_named N (m\<lparr>summaries := fmupd i \<lparr> ue_doc_id = d, ue_split_id = s, ue_loc = l \<rparr> (summaries m)\<rparr>)"
      using Cons.prems by (simp add: PSummary all_named_def pending_named_def)
    with Cons show ?thesis by (simp add: PSummary pending_named_def)
  qed
qed simp

lemma named_commit_doc:
  assumes "all_named N m" "pending_named N p" "N Doc (dm_doc_id meta) l" "commit_doc meta seq l (m, p) = (m', p')"
  shows "all_named N m' \<and> pending_named N p'"
proof -
  let ?m1 = "if fmlookup (docs m) (dm_doc_id meta) \<noteq> None then drop_doc (dm_doc_id meta) (- 1) m else m"
  let ?mine = "filter (\<lambda>p. pending_doc_id p = dm_doc_id meta) p"
  obtain m2 ids where c: "commit_entries ?mine (?m1, []) = (m2, ids)" by fastforce
  let ?e = "\<lparr> de_url = dm_url meta, de_split_ids = dm_split_ids meta, de_summary_ids = dm_summary_ids meta,
    de_extra_summary_ids = dedup_preserving_order (filter (\<lambda>i. i \<notin> set (opt_list (dm_summary_ids meta))) ids),
    de_seq = seq, de_loc = l \<rparr>"
  have "all_named N (fst (commit_entries ?mine (?m1, [])))"
    by (rule named_commit_entries) (use assms in \<open>auto simp: named_drop_doc pending_named_def\<close>)
  then have "all_named N m2" unfolding c by simp
  moreover have "p' = filter (\<lambda>p. pending_doc_id p \<noteq> dm_doc_id meta) p"
    and "m' = m2\<lparr>docs := fmupd (dm_doc_id meta) ?e (docs m2)\<rparr>"
    using assms(4) c by (simp_all add: commit_doc_def take_mine_filter Let_def del: not_None_eq)
  ultimately show ?thesis
    using assms(2,3) by (simp add: all_named_def pending_named_def)
qed

lemma named_replay_record:
  assumes "replay_record E i q off r (m, p) = Inr (m', p')" "all_named N m" "pending_named N p"
    and "names_record E N (rec_loc i off r) r"
  shows "all_named N m' \<and> pending_named N p'"
proof (cases "q < lr_seq r")
  case True
  with assms(1) have a: "apply_record E (lr_kind r) (lr_seq r) (lr_meta r) (rec_loc i off r) (m, p) = Inr (m', p')"
    by (auto simp: replay_record_def split: sum.splits)
  show ?thesis
  proof (cases "lr_kind r")
    case Doc
    with a obtain d where d: "from_slice (e_doc E) (lr_meta r) = Inr d"
      "commit_doc d (lr_seq r) (rec_loc i off r) (m, p) = (m', p')"
      by (auto simp: apply_record_def bindR_Inr)
    with assms(4) Doc have "N Doc (dm_doc_id d) (rec_loc i off r)" by (simp add: names_record_def bears_id_def)
    from named_commit_doc [OF assms(2,3) this d(2)] show ?thesis .
  qed (use a assms(2-4) in \<open>auto simp: apply_record_def bindR_Inr pending_named_def named_drop_doc names_record_def bears_id_def\<close>)
qed (use assms in \<open>simp add: replay_record_def\<close>)

text \<open>The same of all the records of a segment, from \<open>off\<close> on.\<close>

definition names_log :: "env \<Rightarrow> naming \<Rightarrow> u32 \<Rightarrow> nat \<Rightarrow> log_record list \<Rightarrow> bool" where
  "names_log E N i off rs \<longleftrightarrow>
     (\<forall>pre r post. rs = pre @ r # post \<longrightarrow> names_record E N (rec_loc i (off + log_len pre) r) r)"

lemma names_log_Cons:
  assumes "names_log E N i off (r # rs)"
  shows "names_record E N (rec_loc i off r) r" "names_log E N i (off + frame_len r) rs"
proof -
  have a: "r # rs = pre @ s # post \<Longrightarrow> names_record E N (rec_loc i (off + log_len pre) s) s" for pre s post
    using assms unfolding names_log_def by blast
  from a [of "[]" r rs] show "names_record E N (rec_loc i off r) r" by simp
  have "names_record E N (rec_loc i (off + frame_len r + log_len pre) s) s" if "rs = pre @ s # post" for pre s post
    using a [of "r # pre" s post] that by (simp add: add.assoc)
  then show "names_log E N i (off + frame_len r) rs" unfolding names_log_def by blast
qed

lemma named_replay_log:
  assumes "replay_log E i q off rs (m, p) = Inr (m', p')" "all_named N m" "pending_named N p" "names_log E N i off rs"
  shows "all_named N m' \<and> pending_named N p'"
  using assms
proof (induction rs arbitrary: off m p)
  case (Cons r rs)
  from Cons.prems(1) obtain m1 p1 where r: "replay_record E i q off r (m, p) = Inr (m1, p1)"
    "replay_log E i q (off + frame_len r) rs (m1, p1) = Inr (m', p')" by (auto simp: bindR_Inr)
  note n = names_log_Cons [OF Cons.prems(4)]
  from named_replay_record [OF r(1) Cons.prems(2,3) n(1)] Cons.IH [OF r(2) _ _ n(2)] show ?case by blast
qed simp

lemma named_replay_segments:
  assumes "replay_segments E q sl m = Inr m'" "all_named N m" "\<forall>l \<in> set sl. names_log E N (fst l) 0 (snd l)"
  shows "all_named N m'"
  using assms
proof (induction sl arbitrary: m)
  case (Cons l sl)
  obtain i rs where l: "l = (i, rs)" by fastforce
  with Cons.prems(1) obtain m1 p1 where r: "replay_log E i q 0 rs (m, []) = Inr (m1, p1)" "replay_segments E q sl m1 = Inr m'"
    by (auto simp: bindR_Inr)
  have "all_named N m1" using named_replay_log [OF r(1) Cons.prems(2)] Cons.prems(3) l by (simp add: pending_named_def)
  with Cons.IH [OF r(2)] Cons.prems(3) show ?case by simp
qed simp

lemma represents_named:
  assumes "represents E sl al x p" "names_log E N (active_id x) 0 al" "\<forall>l \<in> set sl. names_log E N (fst l) 0 (snd l)"
  shows "all_named N (st_maps (fst x))"
proof -
  obtain m where m: "replay_segments E 0 sl empty_maps = Inr m"
    "replay_log E (active_id x) 0 0 al (m, []) = Inr (st_maps (fst x), p)"
    using representsD(6) [OF assms(1)] unfolding replays_to_def by blast
  have "all_named N m" by (rule named_replay_segments [OF m(1) named_empty assms(3)])
  with named_replay_log [OF m(2) _ _ assms(2)] show ?thesis by (simp add: pending_named_def)
qed

section \<open>Locations are in the store's segments\<close>

definition sites :: "(loc \<Rightarrow> bool) \<Rightarrow> maps \<Rightarrow> bool" where
  "sites P m \<longleftrightarrow> (\<forall>i e. fmlookup (docs m) i = Some e \<longrightarrow> P (de_loc e))
     \<and> (\<forall>i e. fmlookup (splits m) i = Some e \<longrightarrow> P (se_loc e))
     \<and> (\<forall>i e. fmlookup (summaries m) i = Some e \<longrightarrow> P (ue_loc e))"

lemma named_sites: "all_named N m \<Longrightarrow> (\<And>kind i l. N kind i l \<Longrightarrow> P l) \<Longrightarrow> sites P m"
  unfolding all_named_def sites_def by blast

lemma locs_from_segment: "l \<in> set (locs_from i off rs) \<Longrightarrow> loc_segment l = i"
  by (induction rs arbitrary: off) (auto simp: rec_loc_def)

lemma represents_homed:
  assumes "represents E sl al x p"
  shows "homed x"
proof -
  let ?P = "\<lambda>l. loc_segment l = active_id x \<or> loc_segment l |\<in>| fmdom (st_sealed (fst x))"
  have sl: "fst l |\<in>| fmdom (st_sealed (fst x))" if "l \<in> set sl" for l
    using representsD(1) [OF assms] that by (force simp: sealed_ok_def fmdom'_alt_def)
  have "all_named (\<lambda>_ _. ?P) (st_maps (fst x))"
    by (rule represents_named [OF assms]) (auto simp: names_log_def names_record_def rec_loc_def dest: sl)
  from named_sites [OF this, of ?P] show ?thesis
    unfolding homed_def sites_def by (auto simp: doc_loc_def split_loc_def summary_loc_def)
qed

text \<open>
  Every location is that of a whole record with a sequence number the store has given out, when
  the mapped segments have \<open>u64\<close> lengths.
\<close>

definition mapped_fits :: "sstate \<Rightarrow> bool" where
  "mapped_fits x \<longleftrightarrow> (\<forall>i z. fmlookup (st_sealed (fst x)) i = Some z \<longrightarrow> length (sseg_map z) < 2 ^ 64)"

definition readable :: "env \<Rightarrow> sstate \<Rightarrow> loc \<Rightarrow> bool" where
  "readable E x l \<longleftrightarrow> (\<exists>bs v. read_record (fst x) (snd x) l = Inr bs \<and> decode (e_crc E) bs = Inr v
     \<and> rv_seq v < next_seq_of x)"

text \<open>The record is moreover one of its kind, and the id it carries is the one it is found under.\<close>

definition found_as :: "env \<Rightarrow> sstate \<Rightarrow> naming" where
  "found_as E x kind i l \<longleftrightarrow> (\<exists>bs v. read_record (fst x) (snd x) l = Inr bs \<and> decode (e_crc E) bs = Inr v
     \<and> rv_seq v < next_seq_of x \<and> rv_kind v = kind \<and> bears_id E kind (rv_meta v) i)"

lemma found_as_record:
  assumes "read_record (fst x) (snd x) l = Inr (frame E r)" "frame_ok r" "lr_seq r < next_seq_of x"
  shows "names_record E (found_as E x) l r"
  using assms decode_frame [OF assms(2), of E "[]"] by (simp add: names_record_def found_as_def)

lemma represents_found:
  assumes "represents E sl al x p" "flushed x" "mapped_fits x"
  shows "all_named (found_as E x) (st_maps (fst x))"
proof (rule represents_named [OF assms(1)])
  note R = representsD [OF assms(1)]
  note A = active_okD [OF R(2)]
  have seq: "lr_seq r < next_seq_of x" if "r \<in> set (concat (map snd sl) @ al)" for r
    using R(3) that by (auto simp: seqs_below_def)
  have "length (log_bytes E al) < 2 ^ 64"
    using A(1,2) unsigned_less [of "aseg_len (st_active (fst x))", where 'a = nat] by (simp add: seg_ok_def seg_of_def)
  then have len: "log_len al < 2 ^ 64" by (simp add: len_simps)
  have "names_record E (found_as E x) (rec_loc (active_id x) (log_len pre) r) r" if al: "al = pre @ r # post" for pre r post
  proof -
    have ok: "frame_ok r" using A(3) al by simp
    have "read_record (fst x) (snd x) (rec_loc (active_id x) (log_len pre) r) = Inr (frame E r)"
      by (rule read_placed [OF assms(1,2) _ al ok len, where sl = sl]) (simp add: placed_def)
    from found_as_record [OF this ok seq] al show ?thesis by simp
  qed
  then show "names_log E (found_as E x) (active_id x) 0 al" by (simp add: names_log_def)
  show "\<forall>l \<in> set sl. names_log E (found_as E x) (fst l) 0 (snd l)"
  proof
    fix l assume l: "l \<in> set sl"
    have S: "list_all frame_ok (snd l)" "fmlookup (st_sealed (fst x)) (fst l) = Some \<lparr> sseg_id = fst l, sseg_map = log_bytes E (snd l) \<rparr>"
      "fst l \<noteq> active_id x"
      using R(1) l unfolding sealed_ok_def by force+
    have n: "log_len (snd l) < 2 ^ 64" using assms(3) S(2) by (fastforce simp: mapped_fits_def len_simps)
    have "names_record E (found_as E x) (rec_loc (fst l) (log_len pre) r) r" if sn: "snd l = pre @ r # post" for pre r post
    proof -
      have ok: "frame_ok r" using S(1) sn by simp
      have "sealed_slice \<lparr> sseg_id = fst l, sseg_map = log_bytes E (snd l) \<rparr> (word_of_nat (log_len pre)) (word_of_nat (frame_len r)) = Inr (frame E r)"
        by (rule sealed_read_back [of _ "log_bytes E pre" _ "log_bytes E post"])
          (use sn n ok in \<open>simp_all add: len_simps unat_u64_of_nat unat_frame_len\<close>)
      then have rd: "read_record (fst x) (snd x) (rec_loc (fst l) (log_len pre) r) = Inr (frame E r)"
        using S(2,3) by (simp add: read_record_def rec_loc_def)
      have "r \<in> set (concat (map snd sl) @ al)" using l sn by force
      from found_as_record [OF rd ok seq [OF this]] show ?thesis .
    qed
    then show "names_log E (found_as E x) (fst l) 0 (snd l)" by (simp add: names_log_def)
  qed
qed

lemma represents_readable:
  "represents E sl al x p \<Longrightarrow> flushed x \<Longrightarrow> mapped_fits x \<Longrightarrow> sites (readable E x) (st_maps (fst x))"
  by (rule named_sites [OF represents_found]) (auto simp: found_as_def readable_def)

section \<open>A document and its entities stay together\<close>

lemma grouped_empty: "grouped empty_maps"
  by (simp add: grouped_def empty_maps_def)

lemma grouped_drop_doc:
  assumes "grouped m"
  shows "grouped (drop_doc d seg m)"
proof (cases "fmlookup (docs m) d")
  case None
  with assms show ?thesis by simp
next
  case (Some e)
  with assms show ?thesis
    unfolding grouped_def drop_doc_eq by (auto simp: fmlookup_fmremoves) (metis option.sel)+
qed

lemma grouped_owner:
  assumes "grouped m" "fmlookup (docs m) d = None"
  shows "fmlookup (splits m) i = Some e \<Longrightarrow> se_doc_id e \<noteq> d"
    "fmlookup (summaries m) i = Some u \<Longrightarrow> ue_doc_id u \<noteq> d"
  using assms unfolding grouped_def by fastforce+

text \<open>What is published of a document is its own, listed, and in one segment.\<close>

lemma grouped_publish:
  assumes m: "grouped m" "fmlookup (docs m) d = None"
    and us: "\<forall>(i, d', s, l) \<in> set (ap_summaries ap). d' = d \<and> i \<in> set (owned_summary_ids (ap_doc_entry ap))
      \<and> loc_segment l = loc_segment (de_loc (ap_doc_entry ap))"
    and ss: "\<forall>(i, d', l) \<in> set (ap_splits ap). d' = d \<and> i \<in> set (de_split_ids (ap_doc_entry ap))
      \<and> loc_segment l = loc_segment (de_loc (ap_doc_entry ap))"
  shows "grouped (publish ap d m)"
proof -
  let ?p = "publish ap d m" and ?e = "ap_doc_entry ap"
  have d: "fmlookup (docs ?p) d = Some ?e" "d' \<noteq> d \<Longrightarrow> fmlookup (docs ?p) d' = fmlookup (docs m) d'" for d'
    by (simp_all add: publish_def)
  have "\<exists>de. fmlookup (docs ?p) (se_doc_id e) = Some de \<and> i \<in> set (de_split_ids de) \<and> loc_segment (de_loc de) = loc_segment (se_loc e)"
    if e: "fmlookup (splits ?p) i = Some e" for i e
  proof (cases "i \<in> fst ` set (ap_splits ap)")
    case True
    from fminserts_lookup_in [OF this, of "\<lambda>(_, d, l). \<lparr> se_doc_id = d, se_loc = l \<rparr>" "splits m"] e
    obtain q where "q \<in> set (ap_splits ap)" "fst q = i" "e = (case q of (_, d, l) \<Rightarrow> \<lparr> se_doc_id = d, se_loc = l \<rparr>)"
      by (auto simp: publish_def)
    then show ?thesis using ss d(1) by auto
  next
    case False
    then have "fmlookup (splits m) i = Some e" using e by (simp add: publish_def fminserts_lookup_other)
    with m d(2) grouped_owner(1) [OF m] show ?thesis unfolding grouped_def by metis
  qed
  moreover have "\<exists>de. fmlookup (docs ?p) (ue_doc_id e) = Some de \<and> i \<in> set (owned_summary_ids de) \<and> loc_segment (de_loc de) = loc_segment (ue_loc e)"
    if e: "fmlookup (summaries ?p) i = Some e" for i e
  proof (cases "i \<in> fst ` set (ap_summaries ap)")
    case True
    from fminserts_lookup_in [OF this, of "\<lambda>(_, d, s, l). \<lparr> ue_doc_id = d, ue_split_id = s, ue_loc = l \<rparr>" "summaries m"] e
    obtain q where "q \<in> set (ap_summaries ap)" "fst q = i" "e = (case q of (_, d, s, l) \<Rightarrow> \<lparr> ue_doc_id = d, ue_split_id = s, ue_loc = l \<rparr>)"
      by (auto simp: publish_def)
    then show ?thesis using us d(1) by auto
  next
    case False
    then have "fmlookup (summaries m) i = Some e" using e by (simp add: publish_def fminserts_lookup_other)
    with m d(2) grouped_owner(2) [OF m] show ?thesis unfolding grouped_def by metis
  qed
  ultimately show ?thesis unfolding grouped_def by blast
qed

lemma grouped_insert:
  assumes "grouped (st_maps (fst x))" "doc_consistent doc"
  shows "grouped (maps_after_insert E x doc)"
proof -
  let ?d = "dd_document_id doc" and ?ap = "appended_here E x doc"
  have all: "u \<in> set (distinct_summaries doc) \<Longrightarrow> u \<in> set (all_summaries doc)" for u
    using dedup_on_subset by (fastforce simp: distinct_summaries_def)
  have owned: "ud_summary_id u \<in> set (owned_summary_ids (ap_doc_entry ?ap))" if "u \<in> set (all_summaries doc)" for u
    using that set_dedup_on [of "\<lambda>i :: u64. i" "{}"]
    by (fastforce simp: appended_here_def appended_of_def Let_def owned_summary_ids_def extra_summary_ids_of_def
        all_summaries_def opt_list_def split: option.splits)
  have us: "d' = ?d \<and> i \<in> set (owned_summary_ids (ap_doc_entry ?ap)) \<and> loc_segment l = loc_segment (de_loc (ap_doc_entry ?ap))"
    if "(i, d', s, l) \<in> set (ap_summaries ?ap)" for i d' s l
  proof -
    from that obtain u where u: "u \<in> set (distinct_summaries doc)" "i = ud_summary_id u" "d' = ud_document_id u" "loc_segment l = active_id x"
      by (auto simp: appended_here_def appended_of_def Let_def dest: set_zip_leftD locs_from_segment [OF set_zip_rightD])
    moreover have "loc_segment (de_loc (ap_doc_entry ?ap)) = active_id x"
      by (simp add: appended_here_def appended_of_def Let_def rec_loc_def)
    ultimately show ?thesis using all owned assms(2) by (simp add: doc_consistent_def)
  qed
  have ss: "d' = ?d \<and> i \<in> set (de_split_ids (ap_doc_entry ?ap)) \<and> loc_segment l = loc_segment (de_loc (ap_doc_entry ?ap))"
    if "(i, d', l) \<in> set (ap_splits ?ap)" for i d' l
  proof -
    from that obtain s where "s \<in> set (dd_splits doc)" "i = sd_split_id s" "d' = sd_doc_id s" "loc_segment l = active_id x"
      by (auto simp: appended_here_def appended_of_def Let_def dest: set_zip_leftD locs_from_segment [OF set_zip_rightD])
    then show ?thesis using assms(2) by (simp add: doc_consistent_def appended_here_def appended_of_def Let_def rec_loc_def)
  qed
  show ?thesis
    unfolding maps_after_insert_def
    by (rule grouped_publish [OF grouped_drop_doc [OF assms(1)]]) (use us ss in auto)
qed

lemma reachable_grouped:
  assumes "reachable E opts x" "env_ok E" "unat (so_n_embd opts) < 2 ^ 32"
  shows "grouped (st_maps (fst x))"
  using assms(1)
proof (induction rule: reachable.induct)
  case (opened w s w')
  show ?case using open_fresh(2) [OF opened(2,1) assms(2,3)] by (simp add: grouped_empty)
next
  case (inserted x doc rp z)
  obtain sl al where i: "store_inv E sl al x" using reachable_inv [OF inserted(1) assms(2,3)] by blast
  from insert_inv [OF i assms(2) inserted(2,3,4)] grouped_insert [OF inserted(5,2)] show ?case by metis
next
  case (refused x doc e z)
  obtain sl al where i: "store_inv E sl al x" using reachable_inv [OF refused(1) assms(2,3)] by blast
  from refused_inv(2) [OF i assms(2) refused(3,2,4,5)] refused(6) show ?case by metis
next
  case (deleted x d r z)
  obtain sl al where i: "store_inv E sl al x" using reachable_inv [OF deleted(1) assms(2,3)] by blast
  from delete_inv [OF i assms(2) deleted(2,3)] grouped_drop_doc [OF deleted(4)] show ?case by metis
next
  case (synced x u z)
  obtain sl al where i: "store_inv E sl al x" using reachable_inv [OF synced(1) assms(2,3)] by blast
  from fsync_any_inv(2) [OF i synced(2)] synced(3) show ?case by metis
next
  case (sealed x u z)
  obtain sl al where i: "store_inv E sl al x" using reachable_inv [OF sealed(1) assms(2,3)] by blast
  from seal_inv [OF i assms(2) sealed(2,3)] sealed(4) show ?case by metis
next
  case (snapped x q z)
  obtain sl al where i: "store_inv E sl al x" using reachable_inv [OF snapped(1) assms(2,3)] by blast
  from snapshot_inv(2) [OF i assms(2) snapped(2,3)] snapped(4) show ?case by metis
next
  case (reopened x s w')
  obtain sl al where i: "store_inv E sl al x" "st_opts (fst x) = opts" using reachable_inv [OF reopened(1) assms(2,3)] by blast
  from reopen_inv(4) [OF i(1) assms(2) reopened(2) reopened(3) [folded i(2)]] reopened(4) show ?case by simp
qed

text \<open>The segments of a reachable store have \<open>u64\<close> lengths.\<close>

lemma represents_mapped:
  assumes "represents E sl al x p"
  shows "mapped_fits x \<longleftrightarrow> (\<forall>l \<in> set sl. log_len (snd l) < 2 ^ 64)"
proof -
  note S = representsD(1) [OF assms, unfolded sealed_ok_def]
  have "\<exists>l \<in> set sl. fst l = i \<and> sseg_map z = log_bytes E (snd l)" if z: "fmlookup (st_sealed (fst x)) i = Some z" for i z
  proof -
    have "i \<in> fst ` set sl" using S z by (metis fmdom'I)
    then obtain l where "l \<in> set sl" "fst l = i" by auto
    with S z show ?thesis by force
  qed
  moreover have "fmlookup (st_sealed (fst x)) (fst l) = Some \<lparr> sseg_id = fst l, sseg_map = log_bytes E (snd l) \<rparr>" if "l \<in> set sl" for l
    using S that by blast
  ultimately show ?thesis unfolding mapped_fits_def by (fastforce simp: len_simps)
qed

lemma placed_mapped:
  assumes "represents E sl al x p" "mapped_fits x" "placed x sl (al @ rs) z sl' al'" "represents E sl' al' z p'"
    and "log_len al + log_len rs < 2 ^ 64"
  shows "mapped_fits z"
  using assms(2,3,5) unfolding represents_mapped [OF assms(1)] represents_mapped [OF assms(4)] by (auto simp: placed_def)

lemma seal_placed:
  assumes "store_inv E sl al z" "env_ok E" "has_room z []" "seal_active E z = (Inr u, y)"
  shows "\<exists>sl' al'. store_inv E sl' al' y \<and> st_maps (fst y) = st_maps (fst z) \<and> st_opts (fst y) = st_opts (fst z)
    \<and> next_seq_of y = next_seq_of z
    \<and> (aseg_len (st_active (fst z)) = 0 \<and> y = z \<and> sl' = sl \<and> al' = al
       \<or> aseg_len (st_active (fst z)) \<noteq> 0 \<and> sl' = sl @ [(active_id z, al)] \<and> al' = [])"
proof (cases "aseg_len (st_active (fst z)) = 0")
  case True
  then have "y = z" using assms(4) by (simp add: seal_active_def bind_the_store ret_def)
  with True assms(1) show ?thesis by blast
next
  case False
  let ?sl = "sl @ [(active_id z, al)]"
  note I = store_invD [OF assms(1)]
  have r: "represents E ?sl [] y [] \<and> durable E ?sl y \<and> flushed y
    \<and> st_maps (fst y) = st_maps (fst z) \<and> st_opts (fst y) = st_opts (fst z) \<and> next_seq_of y = next_seq_of z"
    by (rule seal_represents [OF assms(4) False I(1) assms(2) I(2)]) (use assms(3) in \<open>simp add: has_room_def\<close>)
  then have ry: "represents E ?sl [] y []" by blast
  have "snapshot_ok E ?sl [] y"
    by (rule snapshot_ok_extend [OF assms(1) keepsD [OF calm_seal_active assms(4)] ry, of "[]"])
      (use r in \<open>simp_all add: placed_def\<close>)
  with r have "store_inv E ?sl [] y" by (simp add: store_inv_def)
  with r False show ?thesis by blast
qed

lemma active_len_bound:
  assumes "represents E sl al x p"
  shows "log_len al < 2 ^ 64"
proof -
  note A = active_okD [OF representsD(2) [OF assms]]
  have "length (log_bytes E al) < 2 ^ 64"
    using A(1,2) unsigned_less [of "aseg_len (st_active (fst x))", where 'a = nat] by (simp add: seg_ok_def seg_of_def)
  then show ?thesis by (simp add: len_simps)
qed

lemma reachable_mapped:
  assumes "reachable E opts x" "env_ok E" "unat (so_n_embd opts) < 2 ^ 32"
  shows "mapped_fits x"
  using assms(1)
proof (induction rule: reachable.induct)
  case (opened w s w')
  show ?case using represents_mapped [OF open_fresh(1) [OF opened(2,1) assms(2,3)]] by simp
next
  case (inserted x doc rp z)
  obtain sl al where i: "store_inv E sl al x" using reachable_inv [OF inserted(1) assms(2,3)] by blast
  note I = store_invD [OF i]
  have room: "room_for al (records_of E x doc) x" using inserted(3) has_room [OF I(1)] by simp
  from insert_represents(1) [OF inserted(4) I(1) assms(2) I(2) inserted(2) _ room] obtain sl' al' p' where
    r: "represents E sl' al' z p'" "placed x sl (al @ records_of E x doc) z sl' al'" by (auto simp: no_pending_def)
  show ?case by (rule placed_mapped [OF I(1) inserted(5) r(2,1)]) (use room in \<open>simp add: room_for_def\<close>)
next
  case (refused x doc e z)
  obtain sl al where i: "store_inv E sl al x" using reachable_inv [OF refused(1) assms(2,3)] by blast
  from represents_mapped [OF store_invD(1) [OF refused_inv(1) [OF i assms(2) refused(3,2,4,5)]]]
    represents_mapped [OF store_invD(1) [OF i]] refused(6) show ?case by simp
next
  case (deleted x d r z)
  obtain sl al where i: "store_inv E sl al x" using reachable_inv [OF deleted(1) assms(2,3)] by blast
  note I = store_invD [OF i]
  show ?case
  proof (cases "is_live x d")
    case False
    with deleted show ?thesis using delete_absent [OF False, of E] by simp
  next
    case True
    have room: "room_for al (delete_log E x d) x" using deleted(2) has_room [OF I(1)] by simp
    from delete_represents(1) [OF deleted(3) True I(1) assms(2) I(2) room] obtain sl' al' p' where
      r: "represents E sl' al' z p'" "placed x sl (al @ delete_log E x d) z sl' al'" by blast
    show ?thesis by (rule placed_mapped [OF I(1) deleted(4) r(2,1)]) (use room in \<open>simp add: room_for_def\<close>)
  qed
next
  case (synced x u z)
  obtain sl al where i: "store_inv E sl al x" using reachable_inv [OF synced(1) assms(2,3)] by blast
  from represents_mapped [OF store_invD(1) [OF fsync_any_inv(1) [OF i synced(2)]]]
    represents_mapped [OF store_invD(1) [OF i]] synced(3) show ?case by simp
next
  case (sealed x u z)
  obtain sl al where i: "store_inv E sl al x" using reachable_inv [OF sealed(1) assms(2,3)] by blast
  from seal_placed [OF i assms(2) sealed(2,3)] obtain sl' al' where s: "store_inv E sl' al' z"
    "sl' = sl \<or> sl' = sl @ [(active_id x, al)]" by blast
  from represents_mapped [OF store_invD(1) [OF s(1)]] represents_mapped [OF store_invD(1) [OF i]]
    active_len_bound [OF store_invD(1) [OF i]] s(2) sealed(4) show ?case by auto
next
  case (snapped x q z)
  obtain sl al where i: "store_inv E sl al x" using reachable_inv [OF snapped(1) assms(2,3)] by blast
  from represents_mapped [OF store_invD(1) [OF snapshot_inv(1) [OF i assms(2) snapped(2,3)]]]
    represents_mapped [OF store_invD(1) [OF i]] snapped(4) show ?case by simp
next
  case (reopened x s w')
  obtain sl al where i: "store_inv E sl al x" "st_opts (fst x) = opts" using reachable_inv [OF reopened(1) assms(2,3)] by blast
  from represents_mapped [OF reopen_inv(1) [OF i(1) assms(2) reopened(2) reopened(3) [folded i(2)]]]
    represents_mapped [OF store_invD(1) [OF i(1)]] reopened(4) show ?case by simp
qed

section \<open>A compaction keeps every record\<close>

lemma represents_fresh:
  assumes "represents E sl al x p"
  shows "seg_ok (seg_of x)" "active_id x \<notin> si_id ` set (mf_sealed (st_manifest (fst x)))"
    "mf_next_segment_id (st_manifest (fst x)) \<noteq> active_id x" "\<not> fs_exists (snd x) (SegFile (mf_next_segment_id (st_manifest (fst x))))"
proof -
  note R = representsD [OF assms]
  show ok: "seg_ok (seg_of x)" by (rule active_okD(1) [OF R(2)])
  have "list_all2 info_ok (mf_sealed (st_manifest (fst x))) sl" "active_id x \<notin> fst ` set sl"
    using R(1) by (simp_all add: sealed_ok_def)
  then show "active_id x \<notin> si_id ` set (mf_sealed (st_manifest (fst x)))"
    by (fastforce simp: info_ok_def list_all2_conv_all_nth in_set_conv_nth)
  have e: "fs_exists (snd x) (SegFile (active_id x))" using ok by (simp add: seg_ok_def seg_of_def)
  show f: "\<not> fs_exists (snd x) (SegFile (mf_next_segment_id (st_manifest (fst x))))"
    using R(5) unfolding ids_below_def by blast
  show "mf_next_segment_id (st_manifest (fst x)) \<noteq> active_id x" using e f by metis
qed

lemma compact_run:
  assumes "compact E x = (Inr u, y)" "st_sealed (fst x) \<noteq> fmempty"
  obtains v where "compact_into E (mf_next_segment_id (st_manifest (fst x))) (fmdom (st_sealed (fst x)))
      ((fst x)\<lparr>st_manifest := (st_manifest (fst x))\<lparr>mf_next_segment_id := mf_next_segment_id (st_manifest (fst x)) + 1\<rparr>\<rparr>, snd x)
    = (Inr v, y)"
proof -
  let ?n = "mf_next_segment_id (st_manifest (fst x))"
  let ?x = "((fst x)\<lparr>st_manifest := (st_manifest (fst x))\<lparr>mf_next_segment_id := ?n + 1\<rparr>\<rparr>, snd x)"
  obtain r z where r: "compact_into E ?n (fmdom (st_sealed (fst x))) ?x = (r, z)" by (rule prod.exhaust)
  have "fmdom (st_sealed (fst x)) \<noteq> {||}" using assms(2) by (metis fmrestrict_fset_dom fmrestrict_fset_null)
  with assms(1) have "attempt (compact_into E ?n (fmdom (st_sealed (fst x)))) (\<lambda>r. case r of
        Inr _ \<Rightarrow> ret ()
      | Inl e \<Rightarrow>
          seqM (\<lambda>x. if fs_exists (snd x) (SegFile ?n)
                    then attempt (on_disk (fs_remove (SegFile ?n))) (\<lambda>_. ret ()) x
                    else ret () x)
          (fail e)) ?x = (Inr u, y)"
    by (simp only: compact_def bind_the_store seq_on_store if_False fst_conv snd_conv)
  with r that show thesis
    by (cases r) (auto simp: attempt_def ret_Inr seqM_Inr fail_Inr)
qed

lemma same_records_reads:
  assumes "\<And>l. read_record (fst x') (snd x') l = read_record (fst x) (snd x) l" "st_maps (fst x') = st_maps (fst x)"
  shows "same_records x' y = same_records x y"
  by (simp add: same_records_def same_entry_def [abs_def] assms)

lemma compact_same_records:
  assumes "represents E sl al x p" "flushed x" "grouped (st_maps (fst x))" "live_bytes (fst x) < 2 ^ 64"
    and run: "compact E x = (Inr u, y)"
  shows "same_records x y" "fcard (fmdom (st_sealed (fst y))) \<le> 1"
proof -
  have "same_records x y \<and> fcard (fmdom (st_sealed (fst y))) \<le> 1"
  proof (cases "st_sealed (fst x) = fmempty")
    case True
    with run have "y = x" by (auto simp: compact_def bindM_Inr the_store_Inr ret_Inr)
    with True show ?thesis by (simp add: same_records_refl fcard_fempty)
  next
    case False
    let ?n = "mf_next_segment_id (st_manifest (fst x))"
    let ?x = "((fst x)\<lparr>st_manifest := (st_manifest (fst x))\<lparr>mf_next_segment_id := ?n + 1\<rparr>\<rparr>, snd x)"
    from run False obtain v where v: "compact_into E ?n (fmdom (st_sealed (fst x))) ?x = (Inr v, y)" by (rule compact_run)
    note F = represents_fresh [OF assms(1)]
    have u: "unmoved x ?x" by (simp add: unmoved_def)
    note U = unmoved_seg [OF u]
    have "\<exists>c. compacted ?x c y \<and> (\<forall>d \<in> set (sealed_docs (fmdom (st_sealed (fst x))) (st_maps (fst ?x))). doc_copied (st_maps (fst ?x)) d c)"
      by (rule compact_into_compacted [OF v]) (use F U assms(2,4) in \<open>simp_all add: live_bytes_def\<close>)
    then obtain c where c: "compacted ?x c y"
      "\<forall>d \<in> set (sealed_docs (fmdom (st_sealed (fst x))) (st_maps (fst x))). doc_copied (st_maps (fst x)) d c" by auto
    have h: "homed ?x" using represents_homed [OF assms(1)] by (simp add: homed_def)
    have "same_records ?x y" by (rule compacted_same_records [OF c(1) _ h]) (use assms(3) c(2) in simp_all)
    moreover have "same_records ?x y = same_records x y"
      by (rule same_records_reads) (simp_all add: read_record_def seg_read_at_def)
    ultimately show ?thesis using c(1) by (simp add: compacted_def)
  qed
  then show "same_records x y" "fcard (fmdom (st_sealed (fst y))) \<le> 1" by simp_all
qed

section \<open>Reading a document\<close>

lemma read_split_same:
  assumes "same_records x y"
  shows "read_split E (fst y) (snd y) i emb = read_split E (fst x) (snd x) i emb"
proof -
  have "rel_option (same_entry x y (\<lambda>e l. e\<lparr>se_loc := l\<rparr>) se_loc)
    (fmlookup (splits (st_maps (fst x))) i) (fmlookup (splits (st_maps (fst y))) i)"
    using assms by (simp add: same_records_def)
  then show ?thesis
    by (cases "fmlookup (splits (st_maps (fst x))) i"; cases "fmlookup (splits (st_maps (fst y))) i")
      (simp_all add: read_split_def same_entry_def)
qed

lemma read_summary_same:
  assumes "same_records x y"
  shows "read_summary E (fst y) (snd y) i emb = read_summary E (fst x) (snd x) i emb"
proof -
  have "rel_option (same_entry x y (\<lambda>e l. e\<lparr>ue_loc := l\<rparr>) ue_loc)
    (fmlookup (summaries (st_maps (fst x))) i) (fmlookup (summaries (st_maps (fst y))) i)"
    using assms by (simp add: same_records_def)
  then show ?thesis
    by (cases "fmlookup (summaries (st_maps (fst x))) i"; cases "fmlookup (summaries (st_maps (fst y))) i")
      (simp_all add: read_summary_def same_entry_def)
qed

lemma same_entry_doc:
  "same_entry x y (\<lambda>e l. e\<lparr>de_loc := l\<rparr>) de_loc e e' \<Longrightarrow> de_url e' = de_url e \<and> de_split_ids e' = de_split_ids e \<and> de_summary_ids e' = de_summary_ids e"
  by (cases e; cases e') (auto simp: same_entry_def)

lemma get_doc_same:
  assumes "same_records x y"
  shows "get_doc E (fst y) (snd y) d emb = get_doc E (fst x) (snd x) d emb"
proof -
  have us: "get_summaries E (fst y) (snd y) = get_summaries E (fst x) (snd x)"
    by (intro ext) (simp add: get_summaries_def get_summary_def read_summary_same [OF assms])
  have ss: "get_splits E (fst y) (snd y) = get_splits E (fst x) (snd x)"
    unfolding get_splits_def [abs_def] get_split_def us read_split_same [OF assms] by (rule refl)
  have "rel_option (same_entry x y (\<lambda>e l. e\<lparr>de_loc := l\<rparr>) de_loc)
    (fmlookup (docs (st_maps (fst x))) d) (fmlookup (docs (st_maps (fst y))) d)"
    using assms by (simp add: same_records_def)
  then show ?thesis
    unfolding get_doc_def us ss
    by (cases "fmlookup (docs (st_maps (fst x))) d"; cases "fmlookup (docs (st_maps (fst y))) d")
      (simp_all add: same_entry_doc)
qed

text \<open>What the rebuild of an index visits: the same ids in the same order with the same vectors.\<close>

lemma live_locs_same:
  assumes "same_records x y"
  shows "visit_vectors E (fst y) (snd y) f (live_locs E (fst y) kind) = visit_vectors E (fst x) (snd x) f (live_locs E (fst x) kind)"
proof -
  have d: "rel_option (\<lambda>l l'. read_record (fst y) (snd y) l' = read_record (fst x) (snd x) l)
      (entity_loc (fst x) kind i) (entity_loc (fst y) kind i)" for i
    using assms by (cases kind) (auto simp: same_records_def entity_loc_def option.rel_map same_entry_def elim!: option.rel_mono_strong allE [of _ i])
  have n: "entity_loc (fst y) kind i = None \<longleftrightarrow> entity_loc (fst x) kind i = None" for i
    using d [of i] by (cases "entity_loc (fst x) kind i"; cases "entity_loc (fst y) kind i") simp_all
  have "fmdom (splits (st_maps (fst y))) = fmdom (splits (st_maps (fst x)))" if "kind = ESplit"
    by (rule fset_eqI) (use n that in \<open>auto simp: entity_loc_def fmlookup_dom_iff; metis not_None_eq\<close>)
  moreover have "fmdom (summaries (st_maps (fst y))) = fmdom (summaries (st_maps (fst x)))" if "kind = ESummary"
    by (rule fset_eqI) (use n that in \<open>auto simp: entity_loc_def fmlookup_dom_iff; metis not_None_eq\<close>)
  moreover have "visit_vectors E (fst y) (snd y) f (concat (map (\<lambda>i. case entity_loc (fst y) kind i of None \<Rightarrow> [] | Some l \<Rightarrow> [(i, l)]) ids))
      = visit_vectors E (fst x) (snd x) f (concat (map (\<lambda>i. case entity_loc (fst x) kind i of None \<Rightarrow> [] | Some l \<Rightarrow> [(i, l)]) ids))" for ids
  proof (induction ids)
    case (Cons i ids)
    then show ?case using d [of i] by (cases "entity_loc (fst x) kind i"; cases "entity_loc (fst y) kind i") simp_all
  qed simp
  ultimately show ?thesis by (cases kind) (simp_all add: live_locs_def)
qed

end
