(* ===== verification/Compact_Live.thy ===== *)
theory Compact_Live
  imports Compact_Reads
begin

text \<open>
  A compaction of a store whose file system does not fail returns: every record it copies can be
  read and decoded, and the new segment's file is free.
\<close>

section \<open>Copying\<close>

definition copying :: "sstate \<Rightarrow> u32 \<Rightarrow> cstate \<Rightarrow> bool" where
  "copying x n z \<longleftrightarrow> copies x n z \<and> seg_fine (cp_writer (fst z), snd (snd z))"

lemma runs_bind_known:
  assumes "\<And>s. P s \<Longrightarrow> m s = (Inr a, s)" "runs P (f a)"
  shows "runs P (bindM m f)"
  using assms by (simp add: runs_def bindM_def)

lemma runs_forM: "(\<And>a. a \<in> set xs \<Longrightarrow> runs P (f a)) \<Longrightarrow> runs P (forM f xs)"
  by (induction xs) (simp_all add: runs_basic runs_seq)

lemma runs_on_writer:
  assumes "n \<noteq> active_id x"
  shows "runs (copying x n) (on_writer (seg_append bs q))"
proof (rule runsI)
  fix z assume z: "copying x n z"
  obtain c s w where e: "z = (c, s, w)" by (metis prod.collapse)
  have f: "seg_fine (cp_writer c, w)" using z by (simp add: copying_def e)
  from runsD [OF runs_seg_append f] obtain r a v where r: "seg_append bs q (cp_writer c, w) = (Inr r, (a, v))" "seg_fine (a, v)"
    by (metis prod.collapse)
  have "on_writer (seg_append bs q) z = (Inr r, (c\<lparr>cp_writer := a\<rparr>, s, v))"
    using r(1) by (simp add: on_writer_def zoom_def e)
  moreover have "copying x n (c\<lparr>cp_writer := a\<rparr>, s, v)"
    using z r(2) seg_append_Inr(3) [OF r(1)] by (simp add: copying_def copies_def e seg_frame_def)
  ultimately show "\<exists>r t. on_writer (seg_append bs q) z = (Inr r, t) \<and> copying x n t" by blast
qed

lemma runs_on_copier: "(\<And>c. cp_writer (g c) = cp_writer c) \<Longrightarrow> runs (copying x n) (on_copier g)"
  unfolding on_copier_def by (rule runs_modM) (auto simp: copying_def copies_def)

lemma runs_copy_record:
  assumes "n \<noteq> active_id x" "readable E x k"
  shows "runs (copying x n) (copy_record E k)"
proof -
  from assms(2) obtain bs v where r: "read_record (fst x) (snd x) k = Inr bs" and d: "decode (e_crc E) bs = Inr v"
    by (auto simp: readable_def)
  have rd: "(\<lambda>(c, s, w). (read_record s w k, (c, s, w))) z = (Inr bs, z)" if "copying x n z" for z
  proof -
    obtain c s w where e: "z = (c, s, w)" by (metis prod.collapse)
    have "read_record s w k = read_record (fst x) (snd x) k"
      using that assms(1) by (auto simp: copying_def copies_def e file_of_def intro!: read_record_cong)
    with r show ?thesis by (simp add: e)
  qed
  show ?thesis
    unfolding copy_record_def
    by (rule runs_bind_known [OF rd])
      (use d in \<open>auto simp: lift_decode_def bindR_def intro!: runs_bind runs_seq runs_basic runs_on_writer runs_on_copier assms(1)\<close>)
qed

lemma runs_copy_summary:
  assumes "n \<noteq> active_id x" "sites (readable E x) (st_maps (fst x))"
  shows "runs (copying x n) (copy_summary E i)"
  unfolding copy_summary_def
proof (rule runs_bind_known)
  show "getM (\<lambda>(c, s, w). fmlookup (summaries (st_maps s)) i) z = (Inr (fmlookup (summaries (st_maps (fst x))) i), z)"
    if "copying x n z" for z
    using that by (cases z) (simp add: copying_def copies_def getM_def split_beta)
  have "readable E x (ue_loc e)" if "fmlookup (summaries (st_maps (fst x))) i = Some e" for e
    using assms(2) that by (simp add: sites_def)
  then show "runs (copying x n) (case fmlookup (summaries (st_maps (fst x))) i of None \<Rightarrow> ret ()
      | Some e \<Rightarrow> bindM (copy_record E (ue_loc e)) (\<lambda>l. on_copier (\<lambda>c. c\<lparr>cp_summaries := cp_summaries c @ [(i, l)]\<rparr>)))"
    by (auto split: option.split intro!: runs_basic runs_bind runs_copy_record runs_on_copier assms(1))
qed

lemma runs_copy_split:
  assumes "n \<noteq> active_id x" "sites (readable E x) (st_maps (fst x))"
  shows "runs (copying x n) (copy_split E i)"
  unfolding copy_split_def
proof (rule runs_bind_known)
  show "getM (\<lambda>(c, s, w). fmlookup (splits (st_maps s)) i) z = (Inr (fmlookup (splits (st_maps (fst x))) i), z)"
    if "copying x n z" for z
    using that by (cases z) (simp add: copying_def copies_def getM_def split_beta)
  have "readable E x (se_loc e)" if "fmlookup (splits (st_maps (fst x))) i = Some e" for e
    using assms(2) that by (simp add: sites_def)
  then show "runs (copying x n) (case fmlookup (splits (st_maps (fst x))) i of None \<Rightarrow> ret ()
      | Some e \<Rightarrow> bindM (copy_record E (se_loc e)) (\<lambda>l. on_copier (\<lambda>c. c\<lparr>cp_splits := cp_splits c @ [(i, l)]\<rparr>)))"
    by (auto split: option.split intro!: runs_basic runs_bind runs_copy_record runs_on_copier assms(1))
qed

lemma runs_copy_document:
  assumes "n \<noteq> active_id x" "sites (readable E x) (st_maps (fst x))" "fmlookup (docs (st_maps (fst x))) d = Some e"
  shows "runs (copying x n) (copy_document E d)"
  unfolding copy_document_def
proof (rule runs_bind_known)
  show "getM (\<lambda>(c, s, w). fmlookup (docs (st_maps s)) d) z = (Inr (Some e), z)" if "copying x n z" for z
    using that assms(3) by (cases z) (simp add: copying_def copies_def getM_def split_beta)
  have "readable E x (de_loc e)" using assms(2,3) by (simp add: sites_def)
  then show "runs (copying x n) (case Some e of None \<Rightarrow> fail Panicked | Some entry \<Rightarrow>
         seqM (forM (copy_summary E) (owned_summary_ids entry))
        (seqM (forM (copy_split E) (de_split_ids entry))
        (bindM (copy_record E (de_loc entry)) (\<lambda>l. on_copier (\<lambda>c. c\<lparr>cp_docs := cp_docs c @ [(d, l)]\<rparr>)))))"
    by (auto intro!: runs_seq runs_bind runs_forM runs_copy_summary runs_copy_split runs_copy_record runs_on_copier assms(1,2))
qed

lemma copy_all_returns:
  assumes "aseg_id a \<noteq> active_id x" "sites (readable E x) (st_maps (fst x))" "seg_fine (a, snd x)"
    and "\<forall>d \<in> set ds. fmlookup (docs (st_maps (fst x))) d \<noteq> None"
  shows "\<exists>c y. copy_all E a ds x = (Inr c, y) \<and> copying x (aseg_id a) (c, y)"
proof -
  have "copying x (aseg_id a) (copier_new a, x)"
    using assms(3) by (simp add: copying_def copies_def copier_new_def)
  moreover have "runs (copying x (aseg_id a)) (forM (copy_document E) ds)"
    by (rule runs_forM) (use assms runs_copy_document in blast)
  ultimately obtain r z where z: "forM (copy_document E) ds (copier_new a, x) = (Inr r, z)" "copying x (aseg_id a) z"
    unfolding runs_def by blast
  obtain c y where "z = (c, y)" by (rule prod.exhaust)
  have "copy_all E a ds x = (Inr c, y)" using z(1) by (simp add: copy_all_def \<open>z = (c, y)\<close> split: unit.split)
  with z(2) show ?thesis by (auto simp: \<open>z = (c, y)\<close>)
qed

section \<open>The swap\<close>

lemma swap_manifest_returns:
  assumes "codec_ok (e_manifest E)" "faults (snd x) = []"
  shows "\<exists>z. swap_manifest E infos x = (Inr (), z) \<and> faults (snd z) = []"
proof -
  let ?s = "(fst x)\<lparr>st_manifest := (st_manifest (fst x))\<lparr>mf_snapshot_seq := 0, mf_sealed := infos, mf_tombstone_bytes := 0\<rparr>\<rparr>"
  have "\<exists>v. snapshot_remove (snd x) = (Inr (), v) \<and> faults v = []"
    using assms(2) by (simp add: snapshot_remove_def fs_remove_clean)
  then obtain v where v: "snapshot_remove (snd x) = (Inr (), v)" "faults v = []" by blast
  from manifest_store_clean [OF assms(1) v(2)] obtain w where w: "manifest_store (e_manifest E) (st_manifest ?s) v = (Inr (), w)" "faults w = []"
    by blast
  have "swap_manifest E infos x = (Inr (), (?s, w))"
    using v(1) w(1) by (cases x) (simp add: swap_manifest_def seqM_Inr on_disk_Inr on_store_Inr store_manifest_def)
  with w(2) show ?thesis by simp
qed

lemma attempt_remove_returns:
  assumes "faults (snd x) = []"
  shows "\<exists>z. attempt (on_disk (fs_remove f)) (\<lambda>_. ret ()) x = (Inr (), z) \<and> faults (snd z) = []"
  using assms by (cases x) (simp add: attempt_def on_disk_def zoom_def fs_remove_def io_clean ret_def)

lemma remove_segments_returns:
  assumes "faults (snd x) = []"
  shows "\<exists>z. remove_segments ids x = (Inr (), z) \<and> faults (snd z) = []"
  using assms
proof (induction ids arbitrary: x)
  case (Cons i ids)
  from attempt_remove_returns [OF Cons.prems] obtain y where
    y: "attempt (on_disk (fs_remove (SegFile i))) (\<lambda>_. ret ()) x = (Inr (), y)" "faults (snd y) = []" by blast
  from Cons.IH [OF y(2)] obtain z where "remove_segments ids y = (Inr (), z)" "faults (snd z) = []" by blast
  with y(1) show ?case by (simp add: remove_segments_def seqM_def bindM_def)
qed (simp add: remove_segments_def ret_def)

lemma unmoved_fine: "unmoved x y \<Longrightarrow> fine x \<Longrightarrow> faults (snd y) = [] \<Longrightarrow> fine y"
  by (simp add: unmoved_def fine_def seg_fine_def seg_of_def fs_exists_def)

lemma drop_sealed_returns:
  assumes "fine x" "env_ok E" "active_id x \<notin> si_id ` set (mf_sealed (st_manifest (fst x)))"
  shows "\<exists>z. drop_sealed E x = (Inr (), z)"
proof -
  let ?ids = "map si_id (mf_sealed (st_manifest (fst x)))"
  have cm: "codec_ok (e_manifest E)" and f: "faults (snd x) = []" using assms(1,2) by (simp_all add: env_ok_def fine_def seg_fine_def seg_of_def)
  from swap_manifest_returns [OF cm f, of "[]"] obtain x1 where 1: "swap_manifest E [] x = (Inr (), x1)" "faults (snd x1) = []" by blast
  let ?x1 = "((fst x1)\<lparr>st_sealed := fmempty\<rparr>, snd x1)"
  from remove_segments_returns [of ?x1 ?ids] 1(2) obtain x2 where 2: "remove_segments ?ids ?x1 = (Inr (), x2)" "faults (snd x2) = []" by auto
  note M = swap_manifest_keeps [OF 1(1)]
  have "unmoved x x2" using M(1) unmoved_seg(3) [OF M(1)] remove_segments_keeps [OF 2(1)] assms(3) by (simp add: unmoved_def)
  then have "fine x2" using assms(1) 2(2) by (rule unmoved_fine)
  from snapshot_meta_returns [OF this assms(2)] obtain q z where 3: "snapshot_meta E x2 = (Inr q, z)" by blast
  have "drop_sealed E x = (Inr (), z)"
    using 1(1) 2(1) 3 by (simp add: drop_sealed_def bind_the_store seq_on_store seqM_eval bindM_eval ret_def)
  then show ?thesis by blast
qed

lemma seal_segment_returns:
  assumes "seg_fine (a, w)"
  shows "\<exists>z v. seal_segment a w = (Inr z, v) \<and> faults v = []"
proof -
  from runsD [OF runs_seg_sync assms] obtain r t where t: "seg_sync (a, w) = (Inr r, t)" "seg_fine t" by blast
  obtain b v where bv: "t = (b, v)" by (rule prod.exhaust)
  obtain c where "fmlookup (files v) (SegFile (aseg_id b)) = Some c" using t(2) by (auto simp: seg_fine_def fs_exists_def bv)
  then have "seg_seal (a, w) = (Inr \<lparr> sseg_id = aseg_id b, sseg_map = c \<rparr>, (b, v))"
    using t(1) by (simp add: seg_seal_def seqM_def bindM_def liftM_def sealed_open_def fs_read_def bv)
  with t(2) bv show ?thesis by (auto simp: seal_segment_Inr seg_fine_def)
qed

lemma swap_in_returns:
  assumes "fine x" "env_ok E" "active_id x \<notin> si_id ` set (mf_sealed (st_manifest (fst x)))"
    and c: "seg_fine (cp_writer c, snd x)" "aseg_id (cp_writer c) \<noteq> active_id x" "seg_ok (cp_writer c, snd x)"
  shows "\<exists>z. swap_in E c x = (Inr (), z)"
proof -
  let ?ids = "map si_id (mf_sealed (st_manifest (fst x)))" and ?n = "aseg_id (cp_writer c)"
  let ?info = "\<lparr> si_id = ?n, si_bytes = aseg_len (cp_writer c),
    si_first_seq = (if cp_first c = - 1 then 0 else cp_first c), si_last_seq = cp_last c \<rparr>"
  have cm: "codec_ok (e_manifest E)" using assms(2) by (simp add: env_ok_def)
  from seal_segment_returns [OF c(1)] obtain z w where 0: "seal_segment (cp_writer c) (snd x) = (Inr z, w)" "faults w = []" by blast
  then obtain b where b: "seg_seal (cp_writer c, snd x) = (Inr z, (b, w))" by (auto simp: seal_segment_Inr)
  let ?x0 = "(fst x, w)"
  have u0: "unmoved x ?x0" using seg_seal_Inr(3) [OF b c(3)] c(2) by (simp add: unmoved_def seg_frame_def)
  from swap_manifest_returns [OF cm, of ?x0 "[?info]"] 0(2) obtain x1 where 1: "swap_manifest E [?info] ?x0 = (Inr (), x1)" "faults (snd x1) = []" by auto
  let ?x1 = "((fst x1)\<lparr>st_maps := relocate_maps c (st_maps (fst x1)), st_sealed := fmupd ?n z fmempty\<rparr>, snd x1)"
  from remove_segments_returns [of ?x1 ?ids] 1(2) obtain x2 where 2: "remove_segments ?ids ?x1 = (Inr (), x2)" "faults (snd x2) = []" by auto
  have u1: "unmoved x x1" using u0 swap_manifest_keeps(1) [OF 1(1)] by (rule unmoved_trans)
  have "unmoved x x2" using u1 unmoved_seg(3) [OF u1] remove_segments_keeps [OF 2(1)] assms(3) by (simp add: unmoved_def)
  then have "fine x2" using assms(1) 2(2) by (rule unmoved_fine)
  from snapshot_meta_returns [OF this assms(2)] obtain q y where 3: "snapshot_meta E x2 = (Inr q, y)" by blast
  have od: "on_disk (seal_segment (cp_writer c)) x = (Inr z, ?x0)" using 0(1) by (simp add: on_disk_Inr)
  have "swap_in E c x = (Inr (), y)"
    using od 1(1) 2(1) 3 by (simp add: swap_in_def Let_def bind_the_store seq_on_store seqM_eval bindM_eval ret_def)
  then show ?thesis by blast
qed


section \<open>The compaction\<close>

lemma compact_into_returns:
  assumes f: "fine x" and E: "env_ok E" and na: "active_id x \<notin> si_id ` set (mf_sealed (st_manifest (fst x)))"
    and n: "n \<noteq> active_id x" "\<not> fs_exists (snd x) (SegFile n)" and r: "sites (readable E x) (st_maps (fst x))"
    and len: "sum_list (map (doc_bytes (st_maps (fst x))) (sealed_docs ids (st_maps (fst x)))) < 2 ^ 64"
  shows "\<exists>z. compact_into E n ids x = (Inr (), z)"
proof -
  let ?ds = "sealed_docs ids (st_maps (fst x))"
  have fl: "faults (snd x) = []" using f by (simp add: fine_def seg_fine_def seg_of_def)
  from seg_open_clean [OF fl] obtain a v where o: "seg_open n (snd x) = (Inr a, v)" "faults v = []" by blast
  note O = seg_open_fresh [OF o(1) n(2)]
  let ?x = "(fst x, v)"
  have u: "unmoved x ?x" using O(4) [of "SegFile (active_id x)"] n(1) by (simp add: unmoved_def)
  note U = unmoved_seg [OF u]
  have aid: "aseg_id a \<noteq> active_id ?x" using O(1) n(1) by simp
  have "read_record (fst x) v k = read_record (fst x) (snd x) k" for k
    by (rule read_record_cong) (use U(4) in simp_all)
  then have r': "sites (readable E ?x) (st_maps (fst ?x))" using r by (simp add: readable_def [abs_def])
  have af: "seg_fine (a, snd ?x)" using O(3) o(2) by (simp add: seg_fine_def seg_ok_def)
  have live: "\<forall>d \<in> set ?ds. fmlookup (docs (st_maps (fst ?x))) d \<noteq> None" by (auto simp: sealed_docs_iff)
  from copy_all_returns [OF aid r' af live] obtain c y where c: "copy_all E a ?ds ?x = (Inr c, y)" "copying ?x (aseg_id a) (c, y)"
    by auto
  have wa: "seg_ok (a, snd ?x)" using O(3) by simp
  note C = copy_all_ok [OF c(1) aid wa]
  have "length (content_of (c, y)) < 2 ^ 64" using C(3) O(2) len by simp
  then have wok: "seg_ok (cp_writer c, snd y)" using C(1) by (simp add: copy_ok_def)
  have cy: "fst y = fst x" "aseg_id (cp_writer c) = n" "seg_fine (cp_writer c, snd y)" "unmoved ?x y"
    using c(2) O(1) n(1) by (simp_all add: copying_def copies_def unmoved_def)
  then have uy: "unmoved x y" using u unmoved_trans by blast
  have fy: "fine y" by (rule unmoved_fine [OF uy f]) (use cy(3) in \<open>simp add: seg_fine_def\<close>)
  have nay: "active_id y \<notin> si_id ` set (mf_sealed (st_manifest (fst y)))" "aseg_id (cp_writer c) \<noteq> active_id y"
    using na n(1) cy(1,2) by simp_all
  have "\<exists>z. (if aseg_len (cp_writer c) = 0
        then seqM (attempt (on_disk (fs_remove (SegFile n))) (\<lambda>_. ret ())) (drop_sealed E)
        else swap_in E c) y = (Inr (), z)"
  proof (cases "aseg_len (cp_writer c) = 0")
    case True
    have "faults (snd y) = []" using cy(3) by (simp add: seg_fine_def)
    from attempt_remove_returns [OF this] obtain y2 where
      y2: "attempt (on_disk (fs_remove (SegFile n))) (\<lambda>_. ret ()) y = (Inr (), y2)" "faults (snd y2) = []" by blast
    have f2: "fst y2 = fst y" by (rule attempt_remove(1) [OF y2(1)])
    have "unmoved y y2" using attempt_remove(2) [OF y2(1), of "SegFile (active_id y)"] f2 nay(2) cy(2) by (simp add: unmoved_def)
    then have "fine y2" using fy y2(2) by (rule unmoved_fine)
    moreover have "active_id y2 \<notin> si_id ` set (mf_sealed (st_manifest (fst y2)))" using nay(1) f2 by simp
    ultimately obtain z where "drop_sealed E y2 = (Inr (), z)" using drop_sealed_returns [OF _ E] by blast
    with True y2(1) show ?thesis by (simp add: seqM_eval)
  next
    case False
    from swap_in_returns [OF fy E nay(1) cy(3) nay(2) wok] obtain z where "swap_in E c y = (Inr (), z)" by blast
    with False show ?thesis by simp
  qed
  then obtain z where z: "(if aseg_len (cp_writer c) = 0
        then seqM (attempt (on_disk (fs_remove (SegFile n))) (\<lambda>_. ret ())) (drop_sealed E)
        else swap_in E c) y = (Inr (), z)" by blast
  have od: "on_disk (seg_open n) x = (Inr a, ?x)" using o(1) by (simp add: on_disk_Inr)
  have "aseg_len a = 0" using O(2,3) by (simp add: seg_ok_def unsigned_eq_0_iff)
  with od c(1) z have "compact_into E n ids x = (Inr (), z)"
    by (simp add: compact_into_def bind_the_store bindM_eval)
  then show ?thesis by blast
qed

lemma compact_returns:
  assumes "represents E sl al x p" "flushed x" "env_ok E" "faults (snd x) = []" "mapped_fits x" "live_bytes (fst x) < 2 ^ 64"
  shows "\<exists>y. compact E x = (Inr (), y)"
proof (cases "st_sealed (fst x) = fmempty")
  case True
  then show ?thesis by (simp add: compact_def bind_the_store ret_def)
next
  case False
  let ?n = "mf_next_segment_id (st_manifest (fst x))"
  let ?x = "((fst x)\<lparr>st_manifest := (st_manifest (fst x))\<lparr>mf_next_segment_id := ?n + 1\<rparr>\<rparr>, snd x)"
  note F = represents_fresh [OF assms(1)]
  have f: "fine ?x" using F(1) assms(4) by (simp add: fine_def seg_fine_def seg_of_def seg_ok_def)
  have "readable E ?x = readable E x" by (intro ext) (simp add: readable_def read_record_def seg_read_at_def)
  then have s: "sites (readable E ?x) (st_maps (fst ?x))" using represents_readable [OF assms(1,2,5)] by simp
  have "\<exists>z. compact_into E ?n (fmdom (st_sealed (fst x))) ?x = (Inr (), z)"
    by (rule compact_into_returns [OF f assms(3) _ _ _ s]) (use F assms(6) in \<open>simp_all add: live_bytes_def\<close>)
  then obtain z where z: "compact_into E ?n (fmdom (st_sealed (fst x))) ?x = (Inr (), z)" by blast
  have "fmdom (st_sealed (fst x)) \<noteq> {||}" using False by (metis fmrestrict_fset_dom fmrestrict_fset_null)
  with z have "compact E x = (Inr (), z)"
    by (simp only: compact_def bind_the_store seq_on_store if_False fst_conv snd_conv) (simp add: attempt_def ret_def)
  then show ?thesis by blast
qed

end
