(* ===== verification/Compact_Samples.thy ===== *)
theory Compact_Samples
  imports Compact_Live Store_Filled
begin

text \<open>
  A store with a sealed segment for the witnesses: the document of \<open>Store_Samples\<close> is inserted
  and its segment sealed, so that a compaction has something to copy.
\<close>

section \<open>Sealing behind a document\<close>

text \<open>A document in the active segment is in a sealed one afterwards; one that is there stays.\<close>

lemma seal_holds:
  assumes "holds_doc E x doc z" "env_ok E" "has_room z []" "seal_active E z = (Inr u, y)"
  shows "holds_doc E x doc y \<and> st_sealed (fst y) \<noteq> fmempty \<and> next_seq_of y = next_seq_of z"
proof -
  from assms(1) obtain sl al sl' al' where h: "room_for al (records_of E x doc) x" "list_all frame_ok al"
    "length (seg_content (seg_of x)) = log_len al" "store_inv E sl' al' z" "placed x sl (al @ records_of E x doc) z sl' al'"
    "st_maps (fst z) = maps_after_insert E x doc" "st_opts (fst z) = st_opts (fst x)"
    unfolding holds_doc_def by blast
  note I = store_invD [OF h(4)]
  note A = active_okD [OF representsD(2) [OF I(1)]]
  have ne: "records_of E x doc \<noteq> []" by (simp add: records_of_def insert_records_eq Let_def)
  have some: "st_sealed (fst v) \<noteq> fmempty" if "store_inv E (sl0 @ [l]) al0 v" for v sl0 l al0
    using representsD(1) [OF store_invD(1) [OF that]] by (auto simp: sealed_ok_def)
  from seal_placed [OF h(4) assms(2-4)] obtain sl2 al2 where s: "store_inv E sl2 al2 y"
    "st_maps (fst y) = st_maps (fst z)" "st_opts (fst y) = st_opts (fst z)" "next_seq_of y = next_seq_of z"
    "aseg_len (st_active (fst z)) = 0 \<and> y = z \<and> sl2 = sl' \<and> al2 = al'
       \<or> aseg_len (st_active (fst z)) \<noteq> 0 \<and> sl2 = sl' @ [(active_id z, al')] \<and> al2 = []" by blast
  have len: "aseg_len (st_active (fst z)) = 0 \<longleftrightarrow> log_len al' = 0"
    using A(1,2) by (auto simp: seg_ok_def seg_of_def len_simps unsigned_eq_0_iff)
  from h(5) consider "sl' = sl" "al' = al @ records_of E x doc" "active_id z = active_id x"
    | "sl' = sl @ [(active_id x, al @ records_of E x doc)]" "al' = []" by (auto simp: placed_def)
  then show ?thesis
  proof cases
    case 1
    have "0 < log_len al'" using 1(2) ne frame_len_pos by (cases "records_of E x doc") (auto simp: log_len_def)
    with s(5) len have e: "sl2 = sl' @ [(active_id z, al')]" "al2 = []" by auto
    then have "placed x sl (al @ records_of E x doc) y sl2 al2" using 1 by (simp add: placed_def)
    with s(1-3) h(1-3,6,7) have "holds_doc E x doc y" unfolding holds_doc_def by metis
    with some s(1,4) e show ?thesis by blast
  next
    case 2
    with s(5) len have "y = z" by simp
    with assms(1) some h(4) 2(1) show ?thesis by blast
  qed
qed

section \<open>How much a document takes\<close>

lemma entity_bytes_bound: "entity_bytes r \<le> 2 ^ 32"
  using unat_u32_lt by (cases r) (simp_all add: entity_bytes_def less_imp_le)

lemma sum_entities_bound: "sum_list (map (\<lambda>i. entity_bytes (f i)) is) \<le> length is * 2 ^ 32"
proof (induction "is")
  case (Cons i js)
  with entity_bytes_bound [of "f i"] show ?case by simp
qed simp

lemma doc_bytes_bound:
  assumes "fmlookup (docs m) d = Some e"
  shows "doc_bytes m d \<le> (length (owned_summary_ids e) + length (de_split_ids e) + 1) * 2 ^ 32"
proof -
  have "unat (loc_len (de_loc e)) \<le> 2 ^ 32" using unat_u32_lt [of "loc_len (de_loc e)"] by simp
  with sum_entities_bound [of "summary_loc m" "owned_summary_ids e"] sum_entities_bound [of "split_loc m" "de_split_ids e"]
  show ?thesis using assms by (simp add: doc_bytes_def)
qed

lemma one_doc_live_bytes:
  assumes "docs (st_maps s) = fmupd d e fmempty" "length (owned_summary_ids e) + length (de_split_ids e) + 1 < 2 ^ 31"
  shows "live_bytes s < 2 ^ 64"
proof -
  let ?ds = "sealed_docs (fmdom (st_sealed s)) (st_maps s)"
  have "set ?ds \<subseteq> {d}" using assms(1) by (auto simp: sealed_docs_iff split: if_splits)
  moreover have "distinct ?ds" by (simp add: sealed_docs_def sorted_list_of_fset.rep_eq)
  ultimately have "?ds = [] \<or> ?ds = [d]" by (cases ?ds; cases "tl ?ds") auto
  moreover have "doc_bytes (st_maps s) d < 2 ^ 64"
    using doc_bytes_bound [of "st_maps s" d e] assms by simp
  ultimately show ?thesis by (auto simp: live_bytes_def)
qed

section \<open>The sample\<close>

lemma fcard_fminserts: "fcard (fmdom (fminserts k v xs fmempty)) \<le> length xs"
proof -
  have "fcard (fmdom (fminserts k v xs fmempty)) = card (k ` set xs)"
    by (simp add: fcard.rep_eq fmdom'_fminserts flip: fmdom'_alt_def)
  also have "\<dots> \<le> length xs" using card_image_le [of "set xs" k] card_length [of xs] by simp
  finally show ?thesis .
qed

lemma utf8_sample: "utf8_valid [104]"
  by (simp add: utf8_tail_def in_range_def)

lemma sample_maps_fit:
  assumes "st_maps (fst x) = empty_maps"
  shows "maps_fit (maps_after_insert sample_env x doc1)"
proof -
  let ?ap = "appended_here sample_env x doc1"
  have m: "maps_after_insert sample_env x doc1 = publish ?ap 10 empty_maps"
    by (simp add: maps_after_insert_def assms doc1_id empty_maps_def)
  have e: "doc_entry_fits (ap_doc_entry ?ap)"
    by (simp add: doc_entry_fits_def appended_here_def appended_of_def Let_def opt_list_def extra_summary_ids_of_def
        doc1_def spl1_def sum1_def utf8_sample del: utf8_valid.simps)
  have us: "length (ap_summaries ?ap) < 2 ^ 64"
    by (simp add: appended_here_def appended_of_def Let_def distinct_summaries_def all_summaries_def doc1_def spl1_def opt_list_def)
  have ss: "length (ap_splits ?ap) < 2 ^ 64"
    by (simp add: appended_here_def appended_of_def Let_def doc1_def)
  show ?thesis
    unfolding m maps_fit_def
    using e us ss fcard_fminserts [of fst "\<lambda>(_, d, s, l). \<lparr> ue_doc_id = d, ue_split_id = s, ue_loc = l \<rparr>" "ap_summaries ?ap"]
      fcard_fminserts [of fst "\<lambda>(_, d, l). \<lparr> se_doc_id = d, se_loc = l \<rparr>" "ap_splits ?ap"]
    by (auto simp: publish_def empty_maps_def fcard_finsert_disjoint fcard_fempty split: if_splits)
qed

lemma sealed_sample:
  "\<exists>x z. reachable sample_env opts1 z \<and> faults (snd z) = [] \<and> holds_doc sample_env x doc1 z \<and> st_opts (fst x) = opts1
     \<and> st_sealed (fst z) \<noteq> fmempty \<and> live_bytes (fst z) < 2 ^ 64 \<and> next_seq_of z = 4 \<and> maps_fit (st_maps (fst z))"
proof -
  obtain x rp y where x: "first_state x" and y: "store_insert sample_env doc1 x = (Inr rp, y)" "faults (snd y) = []"
    and ry: "reachable sample_env opts1 y" and iy: "store_inv sample_env [] log1 y" by (rule filled_sample)
  from x have r: "store_inv sample_env [] [] x" "st_opts (fst x) = opts1" "st_maps (fst x) = empty_maps"
    "mf_next_segment_id (st_manifest (fst x)) = 1"
    by (simp_all add: first_state_def)
  have hy: "holds_doc sample_env x doc1 y" by (rule insert_holds [OF r(1) sample_env_ok consistent1(1) first_room(1) [OF x] y(1)])
  note Y = store_invD [OF iy]
  have ok: "seg_ok (seg_of y)" by (rule represents_fresh(1) [OF Y(1)])
  have "length (seg_content (seg_of y)) < 2 ^ 64"
    using ok unsigned_less [of "aseg_len (st_active (fst y))", where 'a = nat] by (simp add: seg_ok_def seg_of_def)
  moreover have "unat (next_seq_of y) < 2 ^ 64" using unsigned_less [of "next_seq_of y", where 'a = nat] by simp
  moreover have "unat (mf_next_segment_id (st_manifest (fst y))) \<le> 2"
    using insert_next_segment [OF y(1)] r(4) by auto
  ultimately have room: "has_room y []" by (simp add: has_room_def)
  have "fine y" using ok y(2) by (simp add: fine_def seg_fine_def seg_ok_def seg_of_def)
  moreover have "codec_ok (e_manifest sample_env)" using sample_env_ok by (simp add: env_ok_def)
  moreover have "mf_version (st_manifest (fst y)) = MANIFEST_VERSION" using Y(2) by (simp add: durable_def)
  ultimately obtain z where z: "seal_active sample_env y = (Inr (), z)" "faults (snd z) = []"
    using seal_active_fine by blast
  have rz: "reachable sample_env opts1 z" by (rule reachable.sealed [OF ry room z(1)])
  note H = seal_holds [OF hy sample_env_ok room z(1)]
  then have hz: "holds_doc sample_env x doc1 z" by blast
  from hz have mz: "st_maps (fst z) = maps_after_insert sample_env x doc1" by (auto simp: holds_doc_def)
  let ?e = "ap_doc_entry (appended_here sample_env x doc1)"
  have "docs (st_maps (fst z)) = fmupd 10 ?e fmempty"
    unfolding mz maps_after_insert_def by (simp add: publish_def r(3) empty_maps_def doc1_id)
  moreover have "length (owned_summary_ids ?e) + length (de_split_ids ?e) + 1 < 2 ^ 31"
    by (simp add: appended_here_def appended_of_def Let_def owned_summary_ids_def opt_list_def extra_summary_ids_of_def
        doc1_def spl1_def sum1_def)
  ultimately have live: "live_bytes (fst z) < 2 ^ 64" by (rule one_doc_live_bytes)
  have "next_seq_of y = 4" using first_insert [OF x] y(1) by auto
  with H have "next_seq_of z = 4" by simp
  moreover have "maps_fit (st_maps (fst z))" unfolding mz by (rule sample_maps_fit [OF r(3)])
  moreover have "st_sealed (fst z) \<noteq> fmempty" using H by simp
  ultimately show ?thesis using rz z(2) hz r(2) live by blast
qed

end
