(* ===== verification/Compact_Reopen.thy ===== *)
theory Compact_Reopen
  imports Compact_Live
begin

text \<open>
  What the next process finds after a compaction: the snapshot that ends it covers every record,
  so the open trusts it, skips the new segment and reads the same records.
\<close>

section \<open>Sequence numbers of the copies\<close>

definition preserves :: "('s \<Rightarrow> bool) \<Rightarrow> ('e, 's, 'a) op \<Rightarrow> bool" where
  "preserves P m \<longleftrightarrow> (\<forall>s r t. P s \<longrightarrow> m s = (Inr r, t) \<longrightarrow> P t)"

lemma preservesD: "preserves P m \<Longrightarrow> P s \<Longrightarrow> m s = (Inr r, t) \<Longrightarrow> P t"
  unfolding preserves_def by blast

lemma preserves_ret: "preserves P (ret a)"
  by (simp add: preserves_def ret_def)

lemma preserves_bind: "preserves P m \<Longrightarrow> (\<And>a. preserves P (f a)) \<Longrightarrow> preserves P (bindM m f)"
  unfolding preserves_def bindM_Inr by blast

lemma preserves_bind_known:
  "(\<And>s r t. P s \<Longrightarrow> m s = (Inr r, t) \<Longrightarrow> r = a \<and> t = s) \<Longrightarrow> preserves P (f a) \<Longrightarrow> preserves P (bindM m f)"
  unfolding preserves_def bindM_Inr by blast

lemma preserves_seq: "preserves P m \<Longrightarrow> preserves P k \<Longrightarrow> preserves P (seqM m k)"
  by (simp add: seqM_def preserves_bind)

lemma preserves_forM: "(\<And>a. a \<in> set xs \<Longrightarrow> preserves P (f a)) \<Longrightarrow> preserves P (forM f xs)"
  by (induction xs) (simp_all add: preserves_ret preserves_seq)

definition dated :: "sstate \<Rightarrow> u32 \<Rightarrow> cstate \<Rightarrow> bool" where
  "dated x n z \<longleftrightarrow> copies x n z \<and> cp_last (fst z) < next_seq_of x"

lemma dated_on_copier:
  "(\<And>c. cp_writer (g c) = cp_writer c \<and> cp_last (g c) = cp_last c) \<Longrightarrow> preserves (dated x n) (on_copier g)"
  by (auto simp: preserves_def on_copier_def modM_def dated_def copies_def)

lemma dated_copy_record:
  assumes "n \<noteq> active_id x" "readable E x k"
  shows "preserves (dated x n) (copy_record E k)"
  unfolding preserves_def
proof (intro allI impI)
  fix z l z' assume z: "dated x n z" and run: "copy_record E k z = (Inr l, z')"
  obtain c s w where e: "z = (c, s, w)" by (metis prod.collapse)
  have C: "aseg_id (cp_writer c) = n" "copies x n z" using z by (simp_all add: dated_def copies_def e)
  from run [unfolded e] C(1) obtain bs seq off a v where r: "read_record s w k = Inr bs"
    and d: "\<exists>r. decode (e_crc E) bs = Inr r \<and> rv_seq r = seq" and a: "seg_append bs seq (cp_writer c, w) = (Inr off, (a, v))"
    and z': "z' = (c\<lparr>cp_writer := a, cp_first := min (cp_first c) seq, cp_last := max (cp_last c) seq\<rparr>, s, v)"
    by (rule copy_record_run)
  have "read_record s w k = read_record (fst x) (snd x) k"
    using C(2) assms(1) by (auto simp: copies_def e file_of_def intro!: read_record_cong)
  with r d assms(2) have "seq < next_seq_of x" by (auto simp: readable_def)
  with z seg_append_Inr(3) [OF a] show "dated x n z'"
    by (simp add: dated_def copies_def e z' seg_frame_def)
qed

lemma dated_copy_summary:
  assumes "n \<noteq> active_id x" "sites (readable E x) (st_maps (fst x))"
  shows "preserves (dated x n) (copy_summary E i)"
  unfolding copy_summary_def
proof (rule preserves_bind_known [where a = "fmlookup (summaries (st_maps (fst x))) i"])
  show "r = fmlookup (summaries (st_maps (fst x))) i \<and> t = z"
    if "dated x n z" "getM (\<lambda>(c, s, w). fmlookup (summaries (st_maps s)) i) z = (Inr r, t)" for z r t
    using that by (cases z) (simp add: dated_def copies_def getM_def split_beta)
  have "readable E x (ue_loc e)" if "fmlookup (summaries (st_maps (fst x))) i = Some e" for e
    using assms(2) that by (simp add: sites_def)
  then show "preserves (dated x n) (case fmlookup (summaries (st_maps (fst x))) i of None \<Rightarrow> ret ()
      | Some e \<Rightarrow> bindM (copy_record E (ue_loc e)) (\<lambda>l. on_copier (\<lambda>c. c\<lparr>cp_summaries := cp_summaries c @ [(i, l)]\<rparr>)))"
    by (auto split: option.split intro!: preserves_ret preserves_bind dated_copy_record dated_on_copier assms(1))
qed

lemma dated_copy_split:
  assumes "n \<noteq> active_id x" "sites (readable E x) (st_maps (fst x))"
  shows "preserves (dated x n) (copy_split E i)"
  unfolding copy_split_def
proof (rule preserves_bind_known [where a = "fmlookup (splits (st_maps (fst x))) i"])
  show "r = fmlookup (splits (st_maps (fst x))) i \<and> t = z"
    if "dated x n z" "getM (\<lambda>(c, s, w). fmlookup (splits (st_maps s)) i) z = (Inr r, t)" for z r t
    using that by (cases z) (simp add: dated_def copies_def getM_def split_beta)
  have "readable E x (se_loc e)" if "fmlookup (splits (st_maps (fst x))) i = Some e" for e
    using assms(2) that by (simp add: sites_def)
  then show "preserves (dated x n) (case fmlookup (splits (st_maps (fst x))) i of None \<Rightarrow> ret ()
      | Some e \<Rightarrow> bindM (copy_record E (se_loc e)) (\<lambda>l. on_copier (\<lambda>c. c\<lparr>cp_splits := cp_splits c @ [(i, l)]\<rparr>)))"
    by (auto split: option.split intro!: preserves_ret preserves_bind dated_copy_record dated_on_copier assms(1))
qed

lemma dated_copy_document:
  assumes "n \<noteq> active_id x" "sites (readable E x) (st_maps (fst x))"
  shows "preserves (dated x n) (copy_document E d)"
  unfolding copy_document_def
proof (rule preserves_bind_known [where a = "fmlookup (docs (st_maps (fst x))) d"])
  show "r = fmlookup (docs (st_maps (fst x))) d \<and> t = z"
    if "dated x n z" "getM (\<lambda>(c, s, w). fmlookup (docs (st_maps s)) d) z = (Inr r, t)" for z r t
    using that by (cases z) (simp add: dated_def copies_def getM_def split_beta)
  have "readable E x (de_loc e)" if "fmlookup (docs (st_maps (fst x))) d = Some e" for e
    using assms(2) that by (simp add: sites_def)
  moreover have "preserves (dated x n) (fail Panicked :: unit cop)" by (simp add: preserves_def fail_def)
  ultimately show "preserves (dated x n) (case fmlookup (docs (st_maps (fst x))) d of None \<Rightarrow> fail Panicked | Some entry \<Rightarrow>
         seqM (forM (copy_summary E) (owned_summary_ids entry))
        (seqM (forM (copy_split E) (de_split_ids entry))
        (bindM (copy_record E (de_loc entry)) (\<lambda>l. on_copier (\<lambda>c. c\<lparr>cp_docs := cp_docs c @ [(d, l)]\<rparr>)))))"
    by (auto split: option.split intro!: preserves_seq preserves_bind preserves_forM dated_copy_summary dated_copy_split
        dated_copy_record dated_on_copier assms)
qed

lemma copy_all_dated:
  assumes run: "copy_all E writer ds x = (Inr c, y)" and na: "aseg_id writer \<noteq> active_id x"
    and s: "sites (readable E x) (st_maps (fst x))" and pos: "0 < next_seq_of x"
  shows "cp_last c < next_seq_of x"
proof -
  obtain q c' s v where q: "forM (copy_document E) ds (copier_new writer, x) = (q, (c', s, v))" by (metis prod.collapse)
  with run have f: "forM (copy_document E) ds (copier_new writer, x) = (Inr (), (c, y))"
    by (cases q) (auto simp: copy_all_def split: unit.splits)
  have 0: "dated x (aseg_id writer) (copier_new writer, x)" using pos by (simp add: dated_def copies_def copier_new_def)
  have "preserves (dated x (aseg_id writer)) (forM (copy_document E) ds)"
    by (rule preserves_forM) (rule dated_copy_document [OF na s])
  from preservesD [OF this 0 f] show ?thesis by (simp add: dated_def)
qed

section \<open>The snapshot that ends a compaction\<close>

lemma snapshot_meta_publishes:
  assumes "snapshot_meta E x = (Inr q, z)" "env_ok E" "maps_fit (st_maps (fst x))" "mf_version (st_manifest (fst x)) = MANIFEST_VERSION"
    and "seg_ok (seg_of x)"
  shows "st_manifest (fst z) = (st_manifest (fst x))\<lparr>mf_snapshot_seq := q\<rparr>" "q = saturating_sub (next_seq_of x) 1"
    "manifest_load (e_manifest E) (snd z) = Inr (Some (st_manifest (fst z)))"
    "snapshot_load (e_crc E) (snd z) = Inr (Some (st_maps (fst x), q))"
    "i \<noteq> active_id x \<Longrightarrow> fmlookup (files (snd z)) (SegFile i) = fmlookup (files (snd x)) (SegFile i)"
proof -
  from assms(1) obtain y w1 w2 where sy: "on_active seg_sync x = (Inr (), y)" and q: "q = saturating_sub (next_seq_of y) 1"
    and ss: "snapshot_store (e_crc E) (e_order E) (st_maps (fst y)) q (snd y) = (Inr (), w1)"
    and ms: "manifest_store (e_manifest E) ((st_manifest (fst y))\<lparr>mf_snapshot_seq := q\<rparr>) w1 = (Inr (), w2)"
    and z: "z = ((fst y)\<lparr>st_manifest := (st_manifest (fst y))\<lparr>mf_snapshot_seq := q\<rparr>\<rparr>, w2)"
    by (rule snapshot_meta_run)
  from sy obtain p where p: "seg_sync (seg_of x) = (Inr (), p)" and y: "y = ((fst x)\<lparr>st_active := fst p\<rparr>, snd p)"
    by (auto simp: on_active_Inr)
  have cm: "codec_ok (e_manifest E)" and oo: "order_ok (e_order E)" using assms(2) by (simp_all add: env_ok_def)
  have ver: "mf_version ((st_manifest (fst y))\<lparr>mf_snapshot_seq := q\<rparr>) = MANIFEST_VERSION" using assms(4) by (simp add: y)
  note other = manifest_store_any(2) [OF ms cm ver]
  show "st_manifest (fst z) = (st_manifest (fst x))\<lparr>mf_snapshot_seq := q\<rparr>" "q = saturating_sub (next_seq_of x) 1"
    using q by (simp_all add: z y)
  show "manifest_load (e_manifest E) (snd z) = Inr (Some (st_manifest (fst z)))"
    using manifest_store_load [OF ms cm ver] by (simp add: z)
  have "snapshot_load (e_crc E) w1 = Inr (Some (st_maps (fst y), q))"
    by (rule snapshot_store_load [OF ss oo]) (use assms(3) in \<open>simp add: y\<close>)
  then show "snapshot_load (e_crc E) (snd z) = Inr (Some (st_maps (fst x), q))"
    using snapshot_load_cong [of w2 w1] other [of SnapFile] by (simp add: z y)
  show "fmlookup (files (snd z)) (SegFile i) = fmlookup (files (snd x)) (SegFile i)" if "i \<noteq> active_id x"
  proof -
    have "seg_frame (seg_of x) p" by (rule seg_sync_Inr(4) [OF p assms(5)])
    then show ?thesis
      using that snapshot_store_other [OF ss, of "SegFile i"] other [of "SegFile i"] by (simp add: z y seg_frame_def seg_of_def)
  qed
qed

section \<open>The directory after a compaction\<close>

definition settled :: "env \<Rightarrow> sstate \<Rightarrow> bool" where
  "settled E y \<longleftrightarrow>
     (let m = st_manifest (fst y) in
        manifest_load (e_manifest E) (snd y) = Inr (Some m)
      \<and> snapshot_load (e_crc E) (snd y) = Inr (Some (st_maps (fst y), mf_snapshot_seq m))
      \<and> mf_snapshot_seq m = saturating_sub (mf_next_seq m) 1
      \<and> (\<forall>info \<in> set (mf_sealed m). si_last_seq info \<le> mf_snapshot_seq m \<and> si_id info \<noteq> active_id y)
      \<and> (\<forall>v. (\<forall>info \<in> set (mf_sealed m). fmlookup (files v) (SegFile (si_id info)) = fmlookup (files (snd y)) (SegFile (si_id info)))
           \<longrightarrow> open_sealed (mf_sealed m) fmempty v = Inr (st_sealed (fst y))))"

text \<open>What of the manifest a compaction leaves alone.\<close>

definition same_manifest :: "manifest \<Rightarrow> manifest \<Rightarrow> bool" where
  "same_manifest m m' \<longleftrightarrow> mf_version m' = mf_version m \<and> mf_model_id m' = mf_model_id m \<and> mf_n_embd m' = mf_n_embd m
     \<and> mf_dtype m' = mf_dtype m \<and> mf_active m' = mf_active m \<and> mf_next_seq m' = mf_next_seq m"

lemma swap_manifest_sets:
  assumes "swap_manifest E infos x = (Inr u, y)"
  shows "st_manifest (fst y) = (st_manifest (fst x))\<lparr>mf_snapshot_seq := 0, mf_sealed := infos, mf_tombstone_bytes := 0\<rparr>"
  using assms by (auto simp: swap_manifest_def seqM_Inr on_disk_Inr on_store_Inr store_manifest_def split: prod.splits)

lemma drop_sealed_settled:
  assumes run: "drop_sealed E x = (Inr u, y)" and E: "env_ok E" and ok: "seg_ok (seg_of x)" "flushed x"
    and m: "maps_fit (st_maps (fst x))" "mf_version (st_manifest (fst x)) = MANIFEST_VERSION"
    and na: "active_id x \<notin> si_id ` set (mf_sealed (st_manifest (fst x)))"
  shows "settled E y \<and> same_manifest (st_manifest (fst x)) (st_manifest (fst y))"
proof -
  let ?ids = "map si_id (mf_sealed (st_manifest (fst x)))"
  from run obtain x1 x2 q where 1: "swap_manifest E [] x = (Inr (), x1)"
    and 2: "remove_segments ?ids ((fst x1)\<lparr>st_sealed := fmempty\<rparr>, snd x1) = (Inr (), x2)"
    and 3: "snapshot_meta E x2 = (Inr q, y)"
    by (auto simp: drop_sealed_def bindM_Inr seqM_Inr the_store_Inr on_store_Inr ret_Inr)
  note M = swap_manifest_keeps [OF 1] and R = remove_segments_keeps [OF 2]
  have id: "active_id x1 = active_id x" using unmoved_seg(3) [OF M(1)] .
  have u: "unmoved x x2" using M(1) R na id by (simp add: unmoved_def)
  have x2: "st_maps (fst x2) = st_maps (fst x)" "st_sealed (fst x2) = fmempty"
    "st_manifest (fst x2) = (st_manifest (fst x))\<lparr>mf_snapshot_seq := 0, mf_sealed := [], mf_tombstone_bytes := 0\<rparr>"
    using R M(2) swap_manifest_sets [OF 1] by simp_all
  have ok2: "seg_ok (seg_of x2)" "flushed x2" using unmoved_seg(1,2) [OF u] ok by simp_all
  have v2: "maps_fit (st_maps (fst x2))" "mf_version (st_manifest (fst x2)) = MANIFEST_VERSION" using m x2 by simp_all
  note P = snapshot_meta_publishes [OF 3 E v2 ok2(1)] and K = snapshot_meta_keeps [OF 3 ok2]
  show ?thesis
    unfolding settled_def Let_def using P(1-4) K(3,4) x2 by (simp add: same_manifest_def)
qed

lemma saturating_sub_below: "a < n \<Longrightarrow> a \<le> saturating_sub n 1"
proof -
  assume a: "a < n"
  then have "n \<noteq> 0" by auto
  with a show ?thesis
    by (auto simp: saturating_sub_def word_less_nat_alt word_le_nat_alt unat_minus_one)
qed

lemma swap_in_settled:
  assumes run: "swap_in E c x = (Inr u, y)" and E: "env_ok E" and ok: "seg_ok (seg_of x)" "flushed x" "seg_ok (cp_writer c, snd x)"
    and m: "maps_fit (relocate_maps c (st_maps (fst x)))" "mf_version (st_manifest (fst x)) = MANIFEST_VERSION"
    and na: "active_id x \<notin> si_id ` set (mf_sealed (st_manifest (fst x)))" and n: "aseg_id (cp_writer c) \<noteq> active_id x"
    and fresh: "aseg_id (cp_writer c) \<notin> si_id ` set (mf_sealed (st_manifest (fst x)))"
    and last: "cp_last c < next_seq_of x"
  shows "settled E y \<and> same_manifest (st_manifest (fst x)) (st_manifest (fst y))"
proof -
  let ?ids = "map si_id (mf_sealed (st_manifest (fst x)))" and ?n = "aseg_id (cp_writer c)"
  let ?info = "\<lparr> si_id = ?n, si_bytes = aseg_len (cp_writer c),
    si_first_seq = (if cp_first c = - 1 then 0 else cp_first c), si_last_seq = cp_last c \<rparr>"
  from run obtain z w x1 x2 q where 0: "seal_segment (cp_writer c) (snd x) = (Inr z, w)"
    and 1: "swap_manifest E [?info] (fst x, w) = (Inr (), x1)"
    and 2: "remove_segments ?ids ((fst x1)\<lparr>st_maps := relocate_maps c (st_maps (fst x1)), st_sealed := fmupd ?n z fmempty\<rparr>, snd x1) = (Inr (), x2)"
    and 3: "snapshot_meta E x2 = (Inr q, y)"
    by (auto simp: swap_in_def Let_def bindM_Inr seqM_Inr the_store_Inr on_store_Inr ret_Inr on_disk_Inr)
  from 0 obtain b where b: "seg_seal (cp_writer c, snd x) = (Inr z, (b, w))" by (auto simp: seal_segment_Inr)
  note B = seg_seal_Inr [OF b ok(3)]
  note M = swap_manifest_keeps [OF 1] and R = remove_segments_keeps [OF 2]
  have "unmoved x (fst x, w)" using B(3) n by (simp add: unmoved_def seg_frame_def)
  then have u1: "unmoved x x1" using M(1) by (rule unmoved_trans)
  have u: "unmoved x x2" using u1 R na by (simp add: unmoved_def)
  have x2: "st_maps (fst x2) = relocate_maps c (st_maps (fst x))" "st_sealed (fst x2) = fmupd ?n z fmempty"
    "st_manifest (fst x2) = (st_manifest (fst x))\<lparr>mf_snapshot_seq := 0, mf_sealed := [?info], mf_tombstone_bytes := 0\<rparr>"
    using R M(2) swap_manifest_sets [OF 1] by simp_all
  have zf: "z = \<lparr> sseg_id = ?n, sseg_map = content_of (c, x) \<rparr>" using B(1,2) by (cases z) (simp add: content_of_def)
  have "fmlookup (files (snd x2)) (SegFile ?n) = Some (content_of (c, x))"
    using R M(4) [of ?n] B(4) fresh by (simp add: content_of_def)
  moreover have ok2: "seg_ok (seg_of x2)" "flushed x2" "active_id x2 = active_id x" using unmoved_seg(1-3) [OF u] ok by simp_all
  moreover have v2: "maps_fit (st_maps (fst x2))" "mf_version (st_manifest (fst x2)) = MANIFEST_VERSION" using m x2 by simp_all
  note P = snapshot_meta_publishes [OF 3 E v2 ok2(1)] and K = snapshot_meta_keeps [OF 3 ok2(1,2)]
  ultimately have fy: "fmlookup (files (snd y)) (SegFile ?n) = Some (content_of (c, x))" using P(5) [of ?n] n by simp
  have "cp_last c \<le> saturating_sub (next_seq_of x) 1" by (rule saturating_sub_below [OF last])
  then show ?thesis
    unfolding settled_def Let_def using P(1-4) K(1,3,4) x2 ok2(3) n fy zf
    by (simp add: same_manifest_def sealed_open_def fs_read_def)
qed

lemma relocate_same:
  assumes "\<And>e l. g (f e l) = g e"
  shows "map_option g (fmlookup (relocate f ls m) i) = map_option g (fmlookup m i)"
proof (induction ls arbitrary: m)
  case (Cons jl ls)
  obtain j l where "jl = (j, l)" by fastforce
  with Cons assms show ?case by (cases "fmlookup m j") auto
qed simp

lemma relocate_fmdom: "fmdom (relocate f ls m) = fmdom m"
  by (rule fset_eqI) (simp add: fmlookup_dom_iff relocate_dom not_None_eq [symmetric] del: not_None_eq)

lemma relocate_maps_fit:
  assumes "maps_fit m"
  shows "maps_fit (relocate_maps c m)"
proof -
  have "doc_entry_fits e" if e: "fmlookup (docs (relocate_maps c m)) d = Some e" for d e
  proof -
    have "map_option doc_entry_fits (fmlookup (docs (relocate_maps c m)) d) = map_option doc_entry_fits (fmlookup (docs m) d)"
      unfolding relocate_maps_def maps.select_convs by (rule relocate_same) (simp add: doc_entry_fits_def)
    with e have "map_option doc_entry_fits (fmlookup (docs m) d) = Some (doc_entry_fits e)" by simp
    then show ?thesis using assms unfolding maps_fit_def by (cases "fmlookup (docs m) d") auto
  qed
  then show ?thesis using assms by (simp add: maps_fit_def relocate_maps_def relocate_fmdom)
qed

lemma compact_into_settled:
  assumes run: "compact_into E n ids x = (Inr u, y)" and E: "env_ok E" and ok: "seg_ok (seg_of x)" "flushed x"
    and na: "active_id x \<notin> si_id ` set (mf_sealed (st_manifest (fst x)))"
    and n: "n \<noteq> active_id x" "\<not> fs_exists (snd x) (SegFile n)" "n \<notin> si_id ` set (mf_sealed (st_manifest (fst x)))"
    and len: "sum_list (map (doc_bytes (st_maps (fst x))) (sealed_docs ids (st_maps (fst x)))) < 2 ^ 64"
    and s: "sites (readable E x) (st_maps (fst x))" "0 < next_seq_of x" "maps_fit (st_maps (fst x))"
    and ver: "mf_version (st_manifest (fst x)) = MANIFEST_VERSION"
  shows "settled E y \<and> same_manifest (st_manifest (fst x)) (st_manifest (fst y)) \<and> mapped_fits y"
  using run n(1,2) len
proof (rule compact_into_parts)
  fix a v c x2
  assume sw: "(if aseg_len (cp_writer c) = 0
        then seqM (attempt (on_disk (fs_remove (SegFile n))) (\<lambda>_. ret ())) (drop_sealed E)
        else swap_in E c) x2 = (Inr u, y)"
    and u1: "unmoved x (fst x, v)" and aid: "aseg_id a = n"
    and run: "copy_all E a (sealed_docs ids (st_maps (fst x))) (fst x, v) = (Inr c, x2)"
    and u2: "unmoved x x2" and f2: "fst x2 = fst x" and cid: "aseg_id (cp_writer c) = n" and wok: "seg_ok (cp_writer c, snd x2)"
    and lt: "length (content_of (c, x2)) < 2 ^ 64"
  note U = unmoved_seg [OF u2]
  have ok2: "seg_ok (seg_of x2)" "flushed x2" using U(1,2) ok by simp_all
  have na2: "active_id x2 \<notin> si_id ` set (mf_sealed (st_manifest (fst x2)))" using na f2 by simp
  show ?thesis
  proof (cases "aseg_len (cp_writer c) = 0")
    case True
    from sw True have "seqM (attempt (on_disk (fs_remove (SegFile n))) (\<lambda>_. ret ())) (drop_sealed E) x2 = (Inr u, y)" by simp
    then obtain x3 where 3: "attempt (on_disk (fs_remove (SegFile n))) (\<lambda>_. ret ()) x2 = (Inr (), x3)"
      "drop_sealed E x3 = (Inr u, y)" unfolding seqM_Inr by blast
    have f3: "fst x3 = fst x2" by (rule attempt_remove(1) [OF 3(1)])
    have "unmoved x2 x3" using attempt_remove(2) [OF 3(1), of "SegFile (active_id x2)"] f3 n(1) U(3) by (simp add: unmoved_def)
    with u2 have u3: "unmoved x x3" by (rule unmoved_trans)
    have o3: "seg_ok (seg_of x3)" "flushed x3" "active_id x3 \<notin> si_id ` set (mf_sealed (st_manifest (fst x3)))"
      using unmoved_seg [OF u3] ok na f2 f3 by simp_all
    have m3: "maps_fit (st_maps (fst x3))" "mf_version (st_manifest (fst x3)) = MANIFEST_VERSION" using s(3) ver f2 f3 by simp_all
    from drop_sealed_settled [OF 3(2) E o3(1,2) m3 o3(3)] drop_sealed_compacted(5) [OF 3(2) o3] f2 f3
    show ?thesis by (simp add: mapped_fits_def)
  next
    case False
    with sw have r: "swap_in E c x2 = (Inr u, y)" by simp
    have c2: "aseg_id (cp_writer c) \<noteq> active_id x2" "aseg_id (cp_writer c) \<notin> si_id ` set (mf_sealed (st_manifest (fst x2)))"
      using cid n(1,3) f2 by simp_all
    have "read_record (fst x) v k = read_record (fst x) (snd x) k" for k
      by (rule read_record_cong) (use unmoved_seg(4) [OF u1] in simp_all)
    then have s': "sites (readable E (fst x, v)) (st_maps (fst (fst x, v)))" using s(1) by (simp add: readable_def [abs_def])
    have "cp_last c < next_seq_of (fst x, v)"
      by (rule copy_all_dated [OF run _ s']) (use aid n(1) s(2) in simp_all)
    then have l: "cp_last c < next_seq_of x2" using f2 by simp
    have m2: "maps_fit (relocate_maps c (st_maps (fst x2)))" "mf_version (st_manifest (fst x2)) = MANIFEST_VERSION"
      using relocate_maps_fit s(3) ver f2 by simp_all
    from swap_in_compacted(5) [OF r ok2 wok na2 c2(1)] obtain z where
      "st_sealed (fst y) = fmupd (aseg_id (cp_writer c)) z fmempty" "sseg_map z = content_of (c, x2)" by blast
    with lt have "mapped_fits y" by (simp add: mapped_fits_def)
    with swap_in_settled [OF r E ok2 wok m2 na2 c2 l] f2 show ?thesis by simp
  qed
qed

section \<open>The open that follows\<close>

lemma replay_sealed_skip:
  "\<forall>info \<in> set infos. si_last_seq info \<le> q \<Longrightarrow> replay_sealed E q sealed infos st = Inr st"
  by (induction infos) (cases st; simp)+

text \<open>What can be read fits.\<close>

lemma read_fits:
  assumes "read_record (fst y) (snd y) l = Inr bs" "mapped_fits y"
    and "aseg_id a = active_id y" "aseg_len a = word_of_nat (length (file_of (snd y) (SegFile (active_id y))))"
    and "length (file_of (snd y) (SegFile (active_id y))) < 2 ^ 64"
  shows "fits (st_sealed (fst y)) a l"
proof -
  have stop: "unat (loc_offset l + ucast (loc_len l)) = unat (loc_offset l) + unat (loc_len l)"
    if "unat (loc_offset l) + unat (loc_len l) < 2 ^ 64"
  proof -
    have "unat (ucast (loc_len l) :: u64) = unat (loc_len l)" by (simp add: unsigned_ucast_eq unsigned_take_bit_eq take_bit_nat_eq_self_iff less_trans [OF unat_u32_lt])
    with that show ?thesis using unat_u64_add by metis
  qed
  show ?thesis
  proof (cases "loc_segment l = active_id y")
    case True
    with assms(1) have le: "unat (loc_offset l) + unat (loc_len l) \<le> length (file_of (snd y) (SegFile (active_id y)))"
      by (auto simp: read_record_def seg_read_at_def Let_def split: if_splits)
    with assms(5) have "unat (loc_offset l + ucast (loc_len l)) \<le> length (file_of (snd y) (SegFile (active_id y)))"
      using stop by simp
    then show ?thesis using True assms(3-5) by (simp add: fits_def Let_def word_le_nat_alt unat_u64_of_nat)
  next
    case False
    with assms(1) obtain z where z: "fmlookup (st_sealed (fst y)) (loc_segment l) = Some z" "sealed_slice z (loc_offset l) (loc_len l) = Inr bs"
      by (auto simp: read_record_def split: option.splits)
    then have "unat (loc_offset l) + unat (loc_len l) \<le> length (sseg_map z)"
      by (auto simp: sealed_slice_def Let_def split: if_splits)
    moreover have "length (sseg_map z) < 2 ^ 64" using assms(2) z(1) by (simp add: mapped_fits_def)
    ultimately show ?thesis using False assms(3) z(1) stop by (simp add: fits_def Let_def)
  qed
qed

lemma sites_fit: "sites (fits sealed a) m \<Longrightarrow> locations_fit m sealed a"
  unfolding sites_def locations_fit_def by (blast elim: fmranE)

lemma settled_reopens:
  assumes S: "settled E y" and E: "env_ok E" and m: "check_manifest opts (st_manifest (fst y)) = Inr ()"
    "mf_version (st_manifest (fst y)) = MANIFEST_VERSION" "mf_active (st_manifest (fst y)) = active_id y"
    and al: "file_of (snd y) (SegFile (active_id y)) = log_bytes E al" "list_all frame_ok al" "log_len al < 2 ^ 64"
    "\<forall>r \<in> set al. lr_seq r < next_seq_of y"
    and rd: "sites (\<lambda>l. \<exists>bs. read_record (fst y) (snd y) l = Inr bs) (st_maps (fst y))" "mapped_fits y"
    and w: "files w = files (snd y)" and run: "store_open E opts w = (Inr s, w')"
  shows "same_records y (s, w')"
proof -
  let ?m = "st_manifest (fst y)" and ?i = "active_id y"
  let ?q = "mf_snapshot_seq ?m"
  note D = S [unfolded settled_def Let_def]
  have md: "manifest_load (e_manifest E) w = Inr (Some ?m)" using D manifest_load_cong [of w "snd y"] w by simp
  from run md m(1) obtain w0 w1 sealed a w2 rej m0 q md' w3 m1 max1 bs scan m2 a2 where
    f0: "files w0 = files w" and ro: "remove_orphan_segments E ?m w0 = (Inr (), w1)"
    and os: "open_sealed (mf_sealed ?m) fmempty w1 = Inr sealed"
    and so: "seg_open (mf_active ?m) w1 = (Inr a, w2)"
    and tr: "trusted_snapshot E ?m sealed a w2 = (rej, m0, q)"
    and se: "settle E rej ?m w2 = (Inr md', w3)"
    and rs: "replay_sealed E q sealed (mf_sealed md') (m0, q) = Inr (m1, max1)"
    and ra: "seg_read_all a w3 = Inr bs"
    and sc: "scan_segment E bs (aseg_id a) q m1 True = Inr (scan, m2)"
    and cu: "cut (sc_torn_at scan) (a\<lparr>aseg_first_seq := sc_first_seq scan, aseg_last_seq := sc_last_seq scan\<rparr>) w3 = (Inr a2, w')"
    and s: "s = \<lparr> st_opts = opts,
       st_manifest = md'\<lparr>mf_next_seq := max (mf_next_seq md') (max max1 (sc_last_seq scan) + 1)\<rparr>,
       st_sealed = sealed, st_active = a2, st_maps = m2, st_pending_tombstone = 0 \<rparr>"
    by (rule open_run)
  have known: "fmlookup (files w1) g = fmlookup (files (snd y)) g"
    if "g \<notin> SegFile ` (- insert ?i (si_id ` set (mf_sealed ?m)))" for g
    using remove_orphans_Inr(1) [OF ro E, of g] that m(3) f0 w by (simp add: manifest_segment_ids_def)
  have segs: "fmlookup (files w1) (SegFile (si_id info)) = fmlookup (files (snd y)) (SegFile (si_id info))"
    if "info \<in> set (mf_sealed ?m)" for info
    by (rule known) (use that in auto)
  then have sealed: "sealed = st_sealed (fst y)" using D os by auto
  have kn: "fmlookup (files w1) (SegFile ?i) = fmlookup (files (snd y)) (SegFile ?i)"
    "fmlookup (files w1) SnapFile = fmlookup (files (snd y)) SnapFile"
    by (rule known; auto)+
  note O = seg_open_Inr [OF so, unfolded m(3)]
  have act1: "file_of w1 (SegFile ?i) = log_bytes E al" using kn(1) al(1) by (simp add: file_of_def)
  have lenb: "length (log_bytes E al) < 2 ^ 64" using al(3) by (simp add: len_simps)
  have snapw: "snapshot_load (e_crc E) w2 = Inr (Some (st_maps (fst y), ?q))"
    using D snapshot_load_cong [of w2 "snd y"] O(7) kn(2) by simp
  have fit: "fits (st_sealed (fst y)) a l" if "read_record (fst y) (snd y) l = Inr b" for l b
    by (rule read_fits [OF that rd(2) O(1)]) (use O(3) act1 al(1) lenb in simp_all)
  have "sites (fits sealed a) (st_maps (fst y))"
    unfolding sealed using rd(1) fit by (simp add: sites_def) blast
  then have "locations_fit (st_maps (fst y)) sealed a" by (rule sites_fit)
  then have t: "rej = False" "m0 = st_maps (fst y)" "q = ?q"
    using tr snapw by (simp_all add: trusted_snapshot_def)
  have e: "md' = ?m" "w3 = w2" using se t(1) by (simp_all add: settle_def ret_Inr)
  have "replay_sealed E ?q sealed (mf_sealed ?m) (m0, q) = Inr (m0, q)"
    by (rule replay_sealed_skip) (use D in blast)
  with rs e(1) t have m1: "m1 = st_maps (fst y)" by simp
  have old: "\<forall>r \<in> set al. lr_seq r \<le> ?q" using al(4) D saturating_sub_below by metis
  have f2: "file_of w2 (SegFile ?i) = log_bytes E al" using O(7) act1 by (simp add: file_of_def)
  have len: "unat (aseg_len a) = length (log_bytes E al)" using O(3) act1 lenb by (simp add: unat_u64_of_nat)
  have bs: "bs = log_bytes E al" using ra e(2) f2 O(1) len by (simp add: seg_read_all_def Let_def)
  have "replay_log E ?i ?q 0 al (m1, []) = Inr (m1, [])" by (rule replay_log_skip [OF old])
  from scan_torn [OF al(2) this, of "[]"] sc bs O(1) t(3)
  have m2: "m2 = m1" "sc_torn_at scan = None" by (auto simp: torn_tail_Nil)
  have c: "a2 = a\<lparr>aseg_first_seq := sc_first_seq scan, aseg_last_seq := sc_last_seq scan\<rparr>" "w' = w2"
    using cu m2(2) e(2) by (simp_all add: cut_def ret_Inr)
  have "read_record s w' l = read_record (fst y) (snd y) l" for l
    by (rule read_record_cong) (use c O(1) f2 al(1) sealed in \<open>simp_all add: s\<close>)
  then have "same_records y (s, w') = same_records y y"
    using m1 m2(1) by (simp add: same_records_def same_entry_def [abs_def] s)
  then show ?thesis by (simp add: same_records_refl)
qed

text \<open>That open goes through when the file system does not fail.\<close>

lemma settled_opens:
  assumes S: "settled E y" and E: "env_ok E" and m: "check_manifest opts (st_manifest (fst y)) = Inr ()"
    "mf_active (st_manifest (fst y)) = active_id y"
    and al: "file_of (snd y) (SegFile (active_id y)) = log_bytes E al" "list_all frame_ok al" "log_len al < 2 ^ 64"
    "\<forall>r \<in> set al. lr_seq r < next_seq_of y"
    and rd: "sites (\<lambda>l. \<exists>bs. read_record (fst y) (snd y) l = Inr bs) (st_maps (fst y))" "mapped_fits y"
    and w: "files w = files (snd y)" "faults w = []"
  shows "\<exists>s w'. store_open E opts w = (Inr s, w')"
proof -
  let ?m = "st_manifest (fst y)" and ?i = "active_id y"
  let ?q = "mf_snapshot_seq ?m"
  note D = S [unfolded settled_def Let_def]
  have md: "manifest_load (e_manifest E) w = Inr (Some ?m)" using D manifest_load_cong [of w "snd y"] w(1) by simp
  have lo: "load_or_create_manifest E opts w = (Inr ?m, w)"
    using md m(1) by (simp add: load_or_create_manifest_def bindM_def liftM_def ret_def)
  from remove_orphans_clean [OF E w(2)] obtain w1 where ro: "remove_orphan_segments E ?m w = (Inr (), w1)" "faults w1 = []" by blast
  have known: "fmlookup (files w1) g = fmlookup (files (snd y)) g"
    if "g \<notin> SegFile ` (- insert ?i (si_id ` set (mf_sealed ?m)))" for g
    using remove_orphans_Inr(1) [OF ro(1) E, of g] that m(2) w(1) by (simp add: manifest_segment_ids_def)
  have "fmlookup (files w1) (SegFile (si_id info)) = fmlookup (files (snd y)) (SegFile (si_id info))"
    if "info \<in> set (mf_sealed ?m)" for info
    by (rule known) (use that in auto)
  then have os: "open_sealed (mf_sealed ?m) fmempty w1 = Inr (st_sealed (fst y))" using D by blast
  have kn: "fmlookup (files w1) (SegFile ?i) = fmlookup (files (snd y)) (SegFile ?i)"
    "fmlookup (files w1) SnapFile = fmlookup (files (snd y)) SnapFile"
    by (rule known; auto)+
  from seg_open_clean [OF ro(2)] obtain a w2 where so: "seg_open ?i w1 = (Inr a, w2)" "faults w2 = []" by blast
  note O = seg_open_Inr [OF so(1)]
  have act1: "file_of w1 (SegFile ?i) = log_bytes E al" using kn(1) al(1) by (simp add: file_of_def)
  have lenb: "length (log_bytes E al) < 2 ^ 64" using al(3) by (simp add: len_simps)
  have snapw: "snapshot_load (e_crc E) w2 = Inr (Some (st_maps (fst y), ?q))"
    using D snapshot_load_cong [of w2 "snd y"] O(7) kn(2) by simp
  have fit: "fits (st_sealed (fst y)) a l" if "read_record (fst y) (snd y) l = Inr b" for l b
    by (rule read_fits [OF that rd(2) O(1)]) (use O(3) act1 al(1) lenb in simp_all)
  have "sites (fits (st_sealed (fst y)) a) (st_maps (fst y))"
    using rd(1) fit by (simp add: sites_def) blast
  then have "locations_fit (st_maps (fst y)) (st_sealed (fst y)) a" by (rule sites_fit)
  then have tr: "trusted_snapshot E ?m (st_sealed (fst y)) a w2 = (False, st_maps (fst y), ?q)"
    using snapw by (simp add: trusted_snapshot_def)
  have se: "settle E False ?m w2 = (Inr ?m, w2)" by (simp add: settle_def ret_def)
  have rs: "replay_sealed E ?q (st_sealed (fst y)) (mf_sealed ?m) (st_maps (fst y), ?q) = Inr (st_maps (fst y), ?q)"
    by (rule replay_sealed_skip) (use D in blast)
  have old: "\<forall>r \<in> set al. lr_seq r \<le> ?q" using al(4) D saturating_sub_below by metis
  have f2: "file_of w2 (SegFile ?i) = log_bytes E al" using O(7) act1 by (simp add: file_of_def)
  have len: "unat (aseg_len a) = length (log_bytes E al)" using O(3) act1 lenb by (simp add: unat_u64_of_nat)
  have ra: "seg_read_all a w2 = Inr (log_bytes E al)" using f2 O(1) len by (simp add: seg_read_all_def Let_def)
  have "replay_log E ?i ?q 0 al (st_maps (fst y), []) = Inr (st_maps (fst y), [])" by (rule replay_log_skip [OF old])
  from scan_torn [OF al(2) this, of "[]"] O(1) obtain scan where
    sc: "scan_segment E (log_bytes E al) (aseg_id a) ?q (st_maps (fst y)) True = Inr (scan, st_maps (fst y))" "sc_torn_at scan = None"
    by (auto simp: torn_tail_Nil)
  show ?thesis
    by (simp add: store_open_steps seqM_def bindM_def getM_def liftM_def fs_clean w(2) lo ro(1) os m(2) so(1) tr se rs ra sc
        cut_def ret_def)
qed

section \<open>After a compaction\<close>

lemma same_entry_trans:
  assumes "same_entry x y f get e e'" "same_entry y z f get e' e''" "\<And>e l l'. f (f e l) l' = f e l'"
  shows "same_entry x z f get e e''"
proof -
  have "f e'' (get e) = f (f e'' (get e')) (get e)" using assms(3) by simp
  with assms(1,2) show ?thesis by (simp add: same_entry_def)
qed

lemma same_option_trans:
  assumes "rel_option (same_entry x y f get) p q" "rel_option (same_entry y z f get) q r" "\<And>e l l'. f (f e l) l' = f e l'"
  shows "rel_option (same_entry x z f get) p r"
  using assms(1,2) by (cases p; cases q; cases r) (auto intro: same_entry_trans [OF _ _ assms(3)])

lemma same_records_trans:
  assumes "same_records x y" "same_records y z"
  shows "same_records x z"
  using assms unfolding same_records_def by (elim conjE, intro conjI allI) (rule same_option_trans, blast, blast, simp)+

text \<open>Two stores with the same log read the same.\<close>

lemma same_log_reads:
  assumes "represents E sl al x p" "represents E sl al z p'" "flushed x" "flushed z" "active_id z = active_id x"
  shows "read_record (fst z) (snd z) l = read_record (fst x) (snd x) l"
proof (rule read_record_cong [OF assms(5)])
  have "file_of (snd v) (SegFile (active_id v)) = log_bytes E al" if "represents E sl al v q" "flushed v" for v q
    using active_okD(2) [OF representsD(2) [OF that(1)]] that(2) by (simp add: seg_content_def seg_of_def flushed_def)
  from this [OF assms(1,3)] this [OF assms(2,4)] assms(5)
  show "file_of (snd z) (SegFile (active_id x)) = file_of (snd x) (SegFile (active_id x))" by simp
  note X = representsD(1) [OF assms(1), unfolded sealed_ok_def] and Z = representsD(1) [OF assms(2), unfolded sealed_ok_def]
  show "fmlookup (st_sealed (fst z)) (loc_segment l) = fmlookup (st_sealed (fst x)) (loc_segment l)"
  proof (cases "loc_segment l \<in> fst ` set sl")
    case True
    then obtain k where "k \<in> set sl" "loc_segment l = fst k" by auto
    with X Z show ?thesis by simp
  next
    case False
    with X Z have "loc_segment l \<notin> fmdom' (st_sealed (fst x))" "loc_segment l \<notin> fmdom' (st_sealed (fst z))" by simp_all
    then show ?thesis by (simp add: fmlookup_dom'_iff)
  qed
qed

lemma same_option_read:
  assumes "rel_option (same_entry x y f get) p (Some e')" "\<And>e. p = Some e \<Longrightarrow> readable E x (get e)"
  shows "\<exists>bs. read_record (fst y) (snd y) (get e') = Inr bs"
  using assms by (cases p) (auto simp: same_entry_def readable_def)

lemma same_records_read:
  assumes "same_records x y" "sites (readable E x) (st_maps (fst x))"
  shows "sites (\<lambda>l. \<exists>bs. read_record (fst y) (snd y) l = Inr bs) (st_maps (fst y))"
  unfolding sites_def
proof (intro conjI allI impI)
  show "\<exists>bs. read_record (fst y) (snd y) (de_loc e) = Inr bs" if e: "fmlookup (docs (st_maps (fst y))) i = Some e" for i e
    by (rule same_option_read [where p = "fmlookup (docs (st_maps (fst x))) i" and f = "\<lambda>e l. e\<lparr>de_loc := l\<rparr>"])
      (use assms e in \<open>auto simp: same_records_def sites_def dest: spec [of _ i]\<close>)
  show "\<exists>bs. read_record (fst y) (snd y) (se_loc e) = Inr bs" if e: "fmlookup (splits (st_maps (fst y))) i = Some e" for i e
    by (rule same_option_read [where p = "fmlookup (splits (st_maps (fst x))) i" and f = "\<lambda>e l. e\<lparr>se_loc := l\<rparr>"])
      (use assms e in \<open>auto simp: same_records_def sites_def dest: spec [of _ i]\<close>)
  show "\<exists>bs. read_record (fst y) (snd y) (ue_loc e) = Inr bs" if e: "fmlookup (summaries (st_maps (fst y))) i = Some e" for i e
    by (rule same_option_read [where p = "fmlookup (summaries (st_maps (fst x))) i" and f = "\<lambda>e l. e\<lparr>ue_loc := l\<rparr>"])
      (use assms e in \<open>auto simp: same_records_def sites_def dest: spec [of _ i]\<close>)
qed

lemma compact_settled:
  assumes i: "store_inv E sl al x" and E: "env_ok E" and fit: "mapped_fits x" "maps_fit (st_maps (fst x))"
    and len: "live_bytes (fst x) < 2 ^ 64" and run: "compact E x = (Inr u, y)" and ne: "st_sealed (fst x) \<noteq> fmempty"
  shows "settled E y \<and> same_manifest (st_manifest (fst x)) (st_manifest (fst y)) \<and> mapped_fits y
    \<and> active_id y = active_id x \<and> file_of (snd y) (SegFile (active_id x)) = file_of (snd x) (SegFile (active_id x))"
proof -
  let ?n = "mf_next_segment_id (st_manifest (fst x))"
  let ?x = "((fst x)\<lparr>st_manifest := (st_manifest (fst x))\<lparr>mf_next_segment_id := ?n + 1\<rparr>\<rparr>, snd x)"
  note I = store_invD [OF i] and F = represents_fresh [OF store_invD(1) [OF i]]
  from run ne obtain v where v: "compact_into E ?n (fmdom (st_sealed (fst x))) ?x = (Inr v, y)" by (rule compact_run)
  have u: "unmoved x ?x" by (simp add: unmoved_def)
  note U = unmoved_seg [OF u]
  have S: "list_all2 info_ok (mf_sealed (st_manifest (fst x))) sl" "\<forall>l \<in> set sl. fs_exists (snd x) (SegFile (fst l))"
    using representsD(1) [OF I(1)] by (auto simp: sealed_ok_def fs_exists_def)
  have fresh: "?n \<notin> si_id ` set (mf_sealed (st_manifest (fst x)))"
  proof
    assume "?n \<in> si_id ` set (mf_sealed (st_manifest (fst x)))"
    then obtain info where info: "info \<in> set (mf_sealed (st_manifest (fst x)))" "?n = si_id info" by blast
    with S(1) obtain l where "l \<in> set sl" "fst l = ?n"
      by (metis in_set_conv_nth info_ok_def list_all2_conv_all_nth nth_mem)
    with S(2) F(4) show False by metis
  qed
  have "readable E ?x = readable E x" by (intro ext) (simp add: readable_def read_record_def seg_read_at_def)
  then have st: "sites (readable E ?x) (st_maps (fst ?x))" using represents_readable [OF I(1,3) fit(1)] by simp
  have ver: "mf_version (st_manifest (fst x)) = MANIFEST_VERSION" and pos: "0 < next_seq_of x"
    using I(1,2) by (simp_all add: durable_def represents_def)
  have "settled E y \<and> same_manifest (st_manifest (fst ?x)) (st_manifest (fst y)) \<and> mapped_fits y"
    by (rule compact_into_settled [OF v E _ _ _ _ _ _ _ st])
      (use F U I(3) fresh len pos fit(2) ver in \<open>simp_all add: live_bytes_def\<close>)
  moreover have "\<exists>c. compacted ?x c y \<and> (\<forall>d \<in> set (sealed_docs (fmdom (st_sealed (fst x))) (st_maps (fst ?x))). doc_copied (st_maps (fst ?x)) d c)"
    by (rule compact_into_compacted [OF v]) (use F U I(3) len in \<open>simp_all add: live_bytes_def\<close>)
  ultimately show ?thesis by (auto simp: compacted_def same_manifest_def)
qed

lemma compacted_opening:
  assumes i: "store_inv E sl al x" and E: "env_ok E" and g: "grouped (st_maps (fst x))"
    and fit: "mapped_fits x" "maps_fit (st_maps (fst x))" and len: "live_bytes (fst x) < 2 ^ 64"
    and run: "compact E x = (Inr u, y)" and ne: "st_sealed (fst x) \<noteq> fmempty"
  shows "check_manifest (st_opts (fst x)) (st_manifest (fst y)) = Inr ()" "mf_version (st_manifest (fst y)) = MANIFEST_VERSION"
    "mf_active (st_manifest (fst y)) = active_id y" "file_of (snd y) (SegFile (active_id y)) = log_bytes E al"
    "list_all frame_ok al" "log_len al < 2 ^ 64" "\<forall>r \<in> set al. lr_seq r < next_seq_of y"
    "sites (\<lambda>l. \<exists>bs. read_record (fst y) (snd y) l = Inr bs) (st_maps (fst y))" "mapped_fits y"
proof -
  note I = store_invD [OF i] and C = compact_settled [OF i E fit len run ne]
  note A = active_okD [OF representsD(2) [OF I(1)]]
  have xy: "same_records x y" by (rule compact_same_records(1) [OF I(1,3) g len run])
  show "check_manifest (st_opts (fst x)) (st_manifest (fst y)) = Inr ()" "mf_version (st_manifest (fst y)) = MANIFEST_VERSION"
    "mf_active (st_manifest (fst y)) = active_id y"
    using C I(2) A(4) check_manifest_cong [of "st_manifest (fst y)" "st_manifest (fst x)"] by (auto simp: durable_def same_manifest_def)
  show "file_of (snd y) (SegFile (active_id y)) = log_bytes E al" "\<forall>r \<in> set al. lr_seq r < next_seq_of y"
    using C A(2) I(3) representsD(3) [OF I(1)] by (auto simp: seg_content_def seg_of_def flushed_def seqs_below_def same_manifest_def)
  show "list_all frame_ok al" "log_len al < 2 ^ 64" by (rule A(3), rule active_len_bound [OF I(1)])
  show "sites (\<lambda>l. \<exists>bs. read_record (fst y) (snd y) l = Inr bs) (st_maps (fst y))" "mapped_fits y"
    using same_records_read [OF xy represents_readable [OF I(1,3) fit(1)]] C by blast+
qed

lemma same_log_records:
  assumes "store_inv E sl al x" "store_inv E sl al z" "st_maps (fst z) = st_maps (fst x)" "active_id z = active_id x"
  shows "same_records x z"
proof -
  note I = store_invD [OF assms(1)] and Z = store_invD [OF assms(2)]
  have "same_records z z = same_records x z"
    by (rule same_records_reads) (use same_log_reads [OF I(1) Z(1) I(3) Z(3) assms(4)] assms(3) in simp_all)
  then show ?thesis by (simp add: same_records_refl)
qed

lemma compact_reopen_same:
  assumes i: "store_inv E sl al x" and E: "env_ok E" and seq: "next_seq_of x < - 1" and g: "grouped (st_maps (fst x))"
    and fit: "mapped_fits x" "maps_fit (st_maps (fst x))" and len: "live_bytes (fst x) < 2 ^ 64"
    and run: "compact E x = (Inr u, y)" and w: "files w = files (snd y)" and o: "store_open E (st_opts (fst x)) w = (Inr s, w')"
  shows "same_records x (s, w')"
proof (cases "st_sealed (fst x) = fmempty")
  case True
  with run have y: "y = x" by (auto simp: compact_def bindM_Inr the_store_Inr ret_Inr)
  note R = reopen_world [OF i E seq w [unfolded y] o]
  show ?thesis by (rule same_log_records [OF i R(1)]) (use R in simp_all)
next
  case False
  have xy: "same_records x y" by (rule compact_same_records(1) [OF store_invD(1,3) [OF i] g len run])
  note C = compact_settled [OF i E fit len run False] and P = compacted_opening [OF i E g fit len run False]
  have "same_records y (s, w')" by (rule settled_reopens [OF conjunct1 [OF C] E P w o])
  with xy show ?thesis by (rule same_records_trans)
qed

lemma compact_reopens:
  assumes i: "store_inv E sl al x" and E: "env_ok E" and g: "grouped (st_maps (fst x))"
    and fit: "mapped_fits x" "maps_fit (st_maps (fst x))" and len: "live_bytes (fst x) < 2 ^ 64"
    and run: "compact E x = (Inr u, y)" and ne: "st_sealed (fst x) \<noteq> fmempty" and w: "files w = files (snd y)" "faults w = []"
  shows "\<exists>s w'. store_open E (st_opts (fst x)) w = (Inr s, w')"
proof -
  note C = compact_settled [OF i E fit len run ne] and P = compacted_opening [OF i E g fit len run ne]
  show ?thesis by (rule settled_opens [OF conjunct1 [OF C] E P(1,3-9) w])
qed

end
