(* ===== verification/Compact_Properties.thy ===== *)
theory Compact_Properties
  imports Compact_Samples Compact_Reopen
begin

text \<open>
  The properties of compaction, on a shard that was never compacted and whose history was
  undisturbed (\<open>reachable\<close>): all that compaction relies on holds; a compaction then returns when
  the file system does not fail, and one that returns leaves every document as it reads.
\<close>

text \<open>
  C12: In every state of an undisturbed shard (reachable: acknowledged inserts of documents whose
  parts name them, inserts refused or rewound, acknowledged deletions, seals and snapshots, syncs
  and reopenings; no compaction, no crash inside an insert, no deletion, seal, snapshot or rewind
  that failed) every location in the maps is that of a whole record that reads and decodes, is of
  the kind and carries the very id it is found under, with a sequence number the store gave out;
  and every split and every summary is listed by the document it names, with its record in the
  segment of that document's record. The embedding dimension is below 2 ^ 32.
\<close>

theorem live_records_are_readable:
  assumes "reachable E opts x" "env_ok E" "unat (so_n_embd opts) < 2 ^ 32"
  shows "all_named (found_as E x) (st_maps (fst x)) \<and> grouped (st_maps (fst x))"
proof -
  from reachable_inv [OF assms] obtain sl al where i: "store_inv E sl al x" by blast
  from represents_found [OF store_invD(1,3) [OF i] reachable_mapped [OF assms]] reachable_grouped [OF assms]
  show ?thesis by blast
qed

lemma live_records_are_readable_witness:
  "\<exists>z e. reachable sample_env opts1 z \<and> fmlookup (docs (st_maps (fst z))) 10 = Some e
     \<and> (\<exists>bs v. read_record (fst z) (snd z) (de_loc e) = Inr bs \<and> decode (e_crc sample_env) bs = Inr v
          \<and> rv_kind v = Doc \<and> bears_id sample_env Doc (rv_meta v) 10)"
proof -
  obtain x z where z: "reachable sample_env opts1 z" "holds_doc sample_env x doc1 z" using sealed_sample by blast
  have "\<exists>e. fmlookup (docs (st_maps (fst z))) 10 = Some e"
    using z(2) by (auto simp: holds_doc_def maps_after_insert_def publish_def doc1_id)
  then obtain e where e: "fmlookup (docs (st_maps (fst z))) 10 = Some e" by blast
  with live_records_are_readable [OF z(1) sample_env_ok opts1_dim] have "found_as sample_env z Doc 10 (de_loc e)"
    by (simp add: all_named_def)
  with z(1) e show ?thesis unfolding found_as_def by blast
qed

text \<open>
  C9: The first compaction of an undisturbed shard changes no answer: in every reachable state (no
  earlier compaction, no crash inside an insert, no deletion, seal, snapshot or rewind that
  failed), when a compaction of less than 2 ^ 64 live bytes returns, at most one sealed segment is
  left, every document reads as before, texts and vectors, and a rebuild of the indexes visits the
  same ids in the same order with the same vectors. A shard that replayed a torn insert can have
  a split that no document lists; its record is not kept, and this does not speak of that shard.
  The embedding dimension is below 2 ^ 32.
\<close>

theorem compaction_keeps_documents:
  assumes "reachable E opts x" "env_ok E" "unat (so_n_embd opts) < 2 ^ 32" "live_bytes (fst x) < 2 ^ 64"
    and "compact E x = (Inr u, y)"
  shows "get_doc E (fst y) (snd y) d emb = get_doc E (fst x) (snd x) d emb
    \<and> for_each_live_vector E (fst y) (snd y) kind f = for_each_live_vector E (fst x) (snd x) kind f
    \<and> fcard (fmdom (st_sealed (fst y))) \<le> 1"
proof -
  from reachable_inv [OF assms(1-3)] obtain sl al where i: "store_inv E sl al x" by blast
  note C = compact_same_records [OF store_invD(1,3) [OF i] reachable_grouped [OF assms(1-3)] assms(4,5)]
  show ?thesis
    using get_doc_same [OF C(1)] live_locs_same [OF C(1)] C(2) by (simp add: for_each_live_vector_def)
qed

lemma compaction_keeps_documents_witness:
  "\<exists>x y. reachable sample_env opts1 x \<and> st_sealed (fst x) \<noteq> fmempty \<and> compact sample_env x = (Inr (), y)
     \<and> get_doc sample_env (fst y) (snd y) 10 True = Inr (Some (stored_doc sample_env opts1 True doc1))"
proof -
  obtain x0 x where x: "reachable sample_env opts1 x" "faults (snd x) = []" "holds_doc sample_env x0 doc1 x"
    "st_opts (fst x0) = opts1" "st_sealed (fst x) \<noteq> fmempty" "live_bytes (fst x) < 2 ^ 64" using sealed_sample by blast
  from holds_inv [OF x(3)] obtain sl al where i: "store_inv sample_env sl al x" by blast
  from compact_returns [OF store_invD(1,3) [OF i] sample_env_ok x(2) reachable_mapped [OF x(1) sample_env_ok opts1_dim] x(6)]
  obtain y where y: "compact sample_env x = (Inr (), y)" by blast
  from holds_get_doc [OF x(3) sample_env_ok consistent1(2)] x(4)
  have "get_doc sample_env (fst x) (snd x) 10 True = Inr (Some (stored_doc sample_env opts1 True doc1))" by (simp add: doc1_id)
  with compaction_keeps_documents [OF x(1) sample_env_ok opts1_dim x(6) y] x(1,5) y show ?thesis by metis
qed

text \<open>
  C11: A compaction goes through: in every state an undisturbed shard reaches, when the file system
  does not fail and there are less than 2 ^ 64 live bytes to copy, it returns without an error, every
  record it reads decoding and the file of the new segment being free.
\<close>

theorem compaction_returns:
  assumes "reachable E opts x" "env_ok E" "unat (so_n_embd opts) < 2 ^ 32" "faults (snd x) = []" "live_bytes (fst x) < 2 ^ 64"
  shows "\<exists>y. compact E x = (Inr (), y)"
proof -
  from reachable_inv [OF assms(1-3)] obtain sl al where i: "store_inv E sl al x" by blast
  show ?thesis
    by (rule compact_returns [OF store_invD(1,3) [OF i] assms(2,4) reachable_mapped [OF assms(1-3)] assms(5)])
qed

lemma compaction_returns_witness:
  "\<exists>x y. reachable sample_env opts1 x \<and> st_sealed (fst x) \<noteq> fmempty \<and> compact sample_env x = (Inr (), y)"
proof -
  obtain x where x: "reachable sample_env opts1 x" "faults (snd x) = []" "st_sealed (fst x) \<noteq> fmempty"
    "live_bytes (fst x) < 2 ^ 64" using sealed_sample by blast
  from compaction_returns [OF x(1) sample_env_ok opts1_dim x(2,4)] x show ?thesis by blast
qed

text \<open>
  C10: A shard after its first compaction is what its files say: when the compaction of an undisturbed
  shard (reachable: no earlier compaction, no crash inside an insert, no deletion, seal, snapshot
  or rewind that failed) has returned, whoever opens the same files, if the open returns, reads
  every document as it read before the compaction, texts and vectors, and rebuilds the indexes
  from the same vectors. The live bytes are less than 2 ^ 64, the embedding dimension less than
  2 ^ 32, the sequence counter is not at its end, and the maps fit the fields of the snapshot that
  ends the compaction.
\<close>

theorem compaction_survives_reopening:
  assumes "reachable E opts x" "env_ok E" "unat (so_n_embd opts) < 2 ^ 32" "next_seq_of x < - 1"
    and "maps_fit (st_maps (fst x))" "live_bytes (fst x) < 2 ^ 64" "compact E x = (Inr u, y)"
    and "files w = files (snd y)" "store_open E opts w = (Inr s, w')"
  shows "get_doc E s w' d emb = get_doc E (fst x) (snd x) d emb
    \<and> for_each_live_vector E s w' kind f = for_each_live_vector E (fst x) (snd x) kind f"
proof -
  from reachable_inv [OF assms(1-3)] obtain sl al where i: "store_inv E sl al x" "st_opts (fst x) = opts" by blast
  have "same_records x (s, w')"
    by (rule compact_reopen_same [OF i(1) assms(2,4) reachable_grouped [OF assms(1-3)] reachable_mapped [OF assms(1-3)]
          assms(5-8)]) (use assms(9) i(2) in simp)
  from get_doc_same [OF this] live_locs_same [OF this] show ?thesis by (simp add: for_each_live_vector_def)
qed

lemma compaction_survives_reopening_witness:
  "\<exists>x y s w'. reachable sample_env opts1 x \<and> st_sealed (fst x) \<noteq> fmempty \<and> compact sample_env x = (Inr (), y)
     \<and> store_open sample_env opts1 ((snd y)\<lparr>faults := []\<rparr>) = (Inr s, w')
     \<and> get_doc sample_env s w' 10 True = Inr (Some (stored_doc sample_env opts1 True doc1))"
proof -
  obtain x0 x where x: "reachable sample_env opts1 x" "faults (snd x) = []" "holds_doc sample_env x0 doc1 x"
    "st_opts (fst x0) = opts1" "st_sealed (fst x) \<noteq> fmempty" "live_bytes (fst x) < 2 ^ 64" "next_seq_of x = 4"
    "maps_fit (st_maps (fst x))" using sealed_sample by blast
  from reachable_inv [OF x(1) sample_env_ok opts1_dim] obtain sl al where
    i: "store_inv sample_env sl al x" "st_opts (fst x) = opts1" by blast
  note M = reachable_mapped [OF x(1) sample_env_ok opts1_dim] and G = reachable_grouped [OF x(1) sample_env_ok opts1_dim]
  from compact_returns [OF store_invD(1,3) [OF i(1)] sample_env_ok x(2) M x(6)] obtain y where
    y: "compact sample_env x = (Inr (), y)" by blast
  have w: "files ((snd y)\<lparr>faults := []\<rparr>) = files (snd y)" "faults ((snd y)\<lparr>faults := []\<rparr>) = []" by simp_all
  from compact_reopens [OF i(1) sample_env_ok G M x(8,6) y x(5) w] obtain s w' where
    o: "store_open sample_env opts1 ((snd y)\<lparr>faults := []\<rparr>) = (Inr s, w')" using i(2) by auto
  have n: "next_seq_of x < - 1" using x(7) by simp
  from holds_get_doc [OF x(3) sample_env_ok consistent1(2)] x(4)
  have "get_doc sample_env (fst x) (snd x) 10 True = Inr (Some (stored_doc sample_env opts1 True doc1))" by (simp add: doc1_id)
  with compaction_survives_reopening [OF x(1) sample_env_ok opts1_dim n x(8,6) y w(1) o] x(1,5) y o show ?thesis by metis
qed

end
