(* ===== verification/Vector_Index.thy ===== *)
theory Vector_Index
  imports Filesys Soft_Float
begin

text \<open>
  The usearch side of a shard (\<open>embedding-store/src/vector_index.rs\<close>, with the configuration
  types of \<open>embedding-common/src/config/index_config.rs\<close>): one approximate-nearest-neighbour
  index per entity kind, its file, and the distances the code computes itself. The usearch
  library is not part of the sources; its calls are the fields of a record.
\<close>

section \<open>Configuration\<close>

datatype metric_kind = IP | L2sq | Cos

datatype scalar_kind = SF64 | SF32 | SF16 | SBF16 | SI8 | SB1

record index_config =
  ic_index_dir :: ustring
  ic_dimensions :: nat
  ic_metric_kind :: metric_kind
  ic_scalar_kind :: scalar_kind
  ic_connectivity :: nat
  ic_expansion_add :: nat
  ic_expansion_search :: nat

definition default_metric_kind :: metric_kind where "default_metric_kind = L2sq"
definition default_scalar_kind :: scalar_kind where "default_scalar_kind = SF32"

section \<open>The library\<close>

text \<open>Its own metrics are more than the configuration exposes; \<open>U_Other\<close> stands for the rest.\<close>

datatype u_metric = U_IP | U_L2sq | U_Cos | U_Other

datatype u_scalar = U_F64 | U_F32 | U_F16 | U_BF16 | U_I8 | U_B1

record index_options =
  io_dimensions :: nat
  io_metric :: u_metric
  io_quantization :: u_scalar
  io_connectivity :: nat
  io_expansion_add :: nat
  io_expansion_search :: nat
  io_multi :: bool

record memory_stats =
  ms_graph_allocated :: nat
  ms_graph_reserved :: nat
  ms_vectors_allocated :: nat
  ms_vectors_reserved :: nat

text \<open>
  A call that may fail says whether it worked; the index it leaves is returned either way. A
  search returns the keys and the distances as two lists.
\<close>

record 'x usearch =
  us_new :: "index_options \<Rightarrow> 'x option"
  us_load :: "bytes \<Rightarrow> 'x \<Rightarrow> bool \<times> 'x"
  us_view :: "bytes \<Rightarrow> 'x \<Rightarrow> bool \<times> 'x"
  us_save :: "'x \<Rightarrow> bytes option"
  us_size :: "'x \<Rightarrow> nat"
  us_capacity :: "'x \<Rightarrow> nat"
  us_connectivity :: "'x \<Rightarrow> nat"
  us_expansion_add :: "'x \<Rightarrow> nat"
  us_expansion_search :: "'x \<Rightarrow> nat"
  us_reserve :: "nat \<Rightarrow> 'x \<Rightarrow> bool \<times> 'x"
  us_add_f32 :: "u64 \<Rightarrow> f32 list \<Rightarrow> 'x \<Rightarrow> bool \<times> 'x"
  us_add_f16 :: "u64 \<Rightarrow> u16 list \<Rightarrow> 'x \<Rightarrow> bool \<times> 'x"
  us_remove :: "u64 \<Rightarrow> 'x \<Rightarrow> bool \<times> 'x"
  us_search :: "'x \<Rightarrow> f32 list \<Rightarrow> nat \<Rightarrow> (u64 list \<times> f32 list) option"
  us_filtered_search :: "'x \<Rightarrow> f32 list \<Rightarrow> nat \<Rightarrow> (u64 \<Rightarrow> bool) \<Rightarrow> (u64 list \<times> f32 list) option"
  us_memory_stats :: "'x \<Rightarrow> memory_stats"

section \<open>Options\<close>

fun to_u_metric :: "metric_kind \<Rightarrow> u_metric" where
  "to_u_metric IP = U_IP"
| "to_u_metric L2sq = U_L2sq"
| "to_u_metric Cos = U_Cos"

fun to_u_scalar :: "scalar_kind \<Rightarrow> u_scalar" where
  "to_u_scalar SF64 = U_F64"
| "to_u_scalar SF32 = U_F32"
| "to_u_scalar SF16 = U_F16"
| "to_u_scalar SBF16 = U_BF16"
| "to_u_scalar SI8 = U_I8"
| "to_u_scalar SB1 = U_B1"

definition index_options :: "index_config \<Rightarrow> index_options" where
  "index_options c = \<lparr> io_dimensions = ic_dimensions c, io_metric = to_u_metric (ic_metric_kind c),
     io_quantization = to_u_scalar (ic_scalar_kind c), io_connectivity = ic_connectivity c,
     io_expansion_add = ic_expansion_add c, io_expansion_search = ic_expansion_search c, io_multi = False \<rparr>"

section \<open>The index\<close>

text \<open>The kind is the index's name and fixes its path; \<open>vi_viewed\<close> is the atomic flag.\<close>

record 'x vector_index =
  vi_index :: 'x
  vi_kind :: entity_kind
  vi_metric :: u_metric
  vi_dimensions :: nat
  vi_viewed :: bool

type_synonym ('x, 'a) xop = "(error, 'x vector_index \<times> world, 'a) op"

definition vi_path :: "'x vector_index \<Rightarrow> fname" where
  "vi_path i = IndexFile (vi_kind i)"

definition vi_create :: "'x usearch \<Rightarrow> entity_kind \<Rightarrow> index_config \<Rightarrow> error + 'x vector_index" where
  "vi_create U kind config =
     (let options = index_options config in
      case us_new U options of
        None \<Rightarrow> Inl (IndexCreate kind)
      | Some x \<Rightarrow> Inr \<lparr> vi_index = x, vi_kind = kind, vi_metric = io_metric options,
                        vi_dimensions = io_dimensions options, vi_viewed = False \<rparr>)"

definition vi_exists :: "'x vector_index \<Rightarrow> world \<Rightarrow> bool" where
  "vi_exists i w = fs_exists w (vi_path i)"

definition vi_size :: "'x usearch \<Rightarrow> 'x vector_index \<Rightarrow> nat" where
  "vi_size U i = us_size U (vi_index i)"

definition vi_connectivity :: "'x usearch \<Rightarrow> 'x vector_index \<Rightarrow> nat" where
  "vi_connectivity U i = us_connectivity U (vi_index i)"

definition vi_expansion_add :: "'x usearch \<Rightarrow> 'x vector_index \<Rightarrow> nat" where
  "vi_expansion_add U i = us_expansion_add U (vi_index i)"

definition vi_expansion_search :: "'x usearch \<Rightarrow> 'x vector_index \<Rightarrow> nat" where
  "vi_expansion_search U i = us_expansion_search U (vi_index i)"

text \<open>One call of the library: the index it leaves is kept, a failure becomes the error.\<close>

definition call :: "error \<Rightarrow> ('x \<Rightarrow> bool \<times> 'x) \<Rightarrow> ('x, unit) xop" where
  "call e f = (\<lambda>(i, w). case f (vi_index i) of (ok, x) \<Rightarrow>
     (if ok then Inr () else Inl e, (i\<lparr>vi_index := x\<rparr>, w)))"

definition set_viewed :: "bool \<Rightarrow> ('x, unit) xop" where
  "set_viewed b = modM (\<lambda>(i, w). (i\<lparr>vi_viewed := b\<rparr>, w))"

text \<open>A missing file fails before the library changes anything.\<close>

definition vi_load :: "'x usearch \<Rightarrow> ('x, unit) xop" where
  "vi_load U = (\<lambda>(i, w).
     case fmlookup (files w) (vi_path i) of
       None \<Rightarrow> (Inl (IndexLoad (vi_kind i)), (i, w))
     | Some bs \<Rightarrow> seqM (call (IndexLoad (vi_kind i)) (us_load U bs)) (set_viewed False) (i, w))"

definition vi_view :: "'x usearch \<Rightarrow> ('x, unit) xop" where
  "vi_view U = (\<lambda>(i, w).
     case fmlookup (files w) (vi_path i) of
       None \<Rightarrow> (Inl (IndexView (vi_kind i)), (i, w))
     | Some bs \<Rightarrow> seqM (call (IndexView (vi_kind i)) (us_view U bs)) (set_viewed True) (i, w))"

definition vi_is_viewed :: "'x vector_index \<Rightarrow> bool" where
  "vi_is_viewed i = vi_viewed i"

definition vi_reserve_for :: "'x usearch \<Rightarrow> nat \<Rightarrow> ('x, unit) xop" where
  "vi_reserve_for U additional = (\<lambda>(i, w).
     let wanted = us_size U (vi_index i) + max additional 64 in
     if wanted < us_capacity U (vi_index i) then (Inr (), (i, w))
     else call (IndexReserve (vi_kind i) wanted) (us_reserve U wanted) (i, w))"

definition vi_remove :: "'x usearch \<Rightarrow> u64 \<Rightarrow> ('x, unit) xop" where
  "vi_remove U key = (\<lambda>(i, w). call (IndexRemove (vi_kind i) key) (us_remove U key) (i, w))"

definition vi_upsert :: "'x usearch \<Rightarrow> u64 \<Rightarrow> f32 list \<Rightarrow> ('x, unit) xop" where
  "vi_upsert U key vector = (\<lambda>(i, w).
     if length vector \<noteq> vi_dimensions i
     then (Inl (IndexDimensions (vi_kind i) (vi_dimensions i) (length vector) key), (i, w))
     else seqM (vi_remove U key)
         (seqM (vi_reserve_for U 1)
         (call (IndexAdd (vi_kind i) key) (us_add_f32 U key vector))) (i, w))"

definition vi_add_raw :: "'x usearch \<Rightarrow> (u16 \<Rightarrow> f32) \<Rightarrow> u64 \<Rightarrow> bytes \<Rightarrow> vector_dtype \<Rightarrow> ('x, unit) xop" where
  "vi_add_raw U of_f16 key bs dtype = (\<lambda>(i, w).
     let expected = vector_bytes dtype (vi_dimensions i) in
     if length bs \<noteq> expected
     then (Inl (IndexVectorBytes (vi_kind i) expected (length bs) key), (i, w))
     else (case dtype of
             F16 \<Rightarrow> call (IndexAdd (vi_kind i) key) (us_add_f16 U key (map u16_from_le (chunks_exact 2 bs))) (i, w)
           | F32 \<Rightarrow> call (IndexAdd (vi_kind i) key) (us_add_f32 U key (decode_vector of_f16 bs dtype)) (i, w)
           | NoVector \<Rightarrow> (Inl (NothingToIndex key), (i, w))))"

definition check_query :: "'x vector_index \<Rightarrow> f32 list \<Rightarrow> error + unit" where
  "check_query i query =
     (if length query \<noteq> vi_dimensions i
      then Inl (QueryDimensions (vi_kind i) (vi_dimensions i) (length query)) else Inr ())"

definition matches_of :: "entity_kind \<Rightarrow> (u64 list \<times> f32 list) option \<Rightarrow> error + (u64 \<times> f32) list" where
  "matches_of kind r = (case r of None \<Rightarrow> Inl (IndexSearch kind) | Some (keys, distances) \<Rightarrow> Inr (zip keys distances))"

definition vi_search :: "'x usearch \<Rightarrow> 'x vector_index \<Rightarrow> f32 list \<Rightarrow> nat \<Rightarrow> error + (u64 \<times> f32) list" where
  "vi_search U i query k =
     bindR (check_query i query) (\<lambda>_. matches_of (vi_kind i) (us_search U (vi_index i) query k))"

definition vi_filtered_search :: "'x usearch \<Rightarrow> 'x vector_index \<Rightarrow> f32 list \<Rightarrow> nat \<Rightarrow> (u64 \<Rightarrow> bool)
    \<Rightarrow> error + (u64 \<times> f32) list" where
  "vi_filtered_search U i query k keep =
     bindR (check_query i query) (\<lambda>_. matches_of (vi_kind i) (us_filtered_search U (vi_index i) query k keep))"

text \<open>The library writes the temporary file; then it is opened, synced and renamed.\<close>

definition save_as :: "'x usearch \<Rightarrow> 'x vector_index \<Rightarrow> unit io" where
  "save_as U i =
     (case us_save U (vi_index i) of
        None \<Rightarrow> fail (IndexSave (vi_kind i))
      | Some bs \<Rightarrow>
          attempt (fs_write (IndexTmp (vi_kind i)) bs) (\<lambda>r. case r of
            Inl _ \<Rightarrow> fail (IndexSave (vi_kind i)) | Inr _ \<Rightarrow> ret ()))"

definition vi_save_atomically :: "'x usearch \<Rightarrow> 'x vector_index \<Rightarrow> unit io" where
  "vi_save_atomically U i =
     seqM (save_as U i)
    (seqM fs_check
    (seqM (fs_sync (IndexTmp (vi_kind i)))
    (fs_rename (IndexTmp (vi_kind i)) (vi_path i))))"

definition vi_remove_file :: "'x vector_index \<Rightarrow> unit io" where
  "vi_remove_file i = (\<lambda>w. if fs_exists w (vi_path i) then fs_remove (vi_path i) w else (Inr (), w))"

definition vi_memory_bytes :: "'x usearch \<Rightarrow> 'x vector_index \<Rightarrow> nat" where
  "vi_memory_bytes U i =
     (let stats = us_memory_stats U (vi_index i) in
      (ms_graph_allocated stats - ms_graph_reserved stats)
      + (ms_vectors_allocated stats - ms_vectors_reserved stats))"

section \<open>Distances\<close>

definition dot :: "f32 list \<Rightarrow> f32 list \<Rightarrow> f32" where
  "dot a b = f32_sum (map (\<lambda>(x, y). f32_mul x y) (zip a b))"

definition norm_squared :: "f32 list \<Rightarrow> f32" where
  "norm_squared a = f32_sum (map (\<lambda>x. f32_mul x x) a)"

definition distance :: "u_metric \<Rightarrow> f32 list \<Rightarrow> f32 list \<Rightarrow> f32" where
  "distance metric a b =
     (case metric of
        U_L2sq \<Rightarrow> f32_sum (map (\<lambda>(x, y). f32_mul (f32_sub x y) (f32_sub x y)) (zip a b))
      | U_IP \<Rightarrow> f32_sub f32_one (dot a b)
      | U_Cos \<Rightarrow>
          let denom = f32_sqrt (f32_mul (norm_squared a) (norm_squared b)) in
          if f32_le denom f32_epsilon then f32_one
          else f32_sub f32_one (f32_div (dot a b) denom)
      | U_Other \<Rightarrow> f32_infinity)"

section \<open>What the code relies on\<close>

text \<open>
  The documented behaviour of the library, over the abstract content of an index: the vectors by
  key as the index keeps them (\<open>q32\<close> and \<open>q16\<close> quantise the two input formats) and whether it
  is mapped. Adding needs a resident index with room, a key not in use; removing an absent key
  is not an error; a saved index reads back; a search returns distinct keys the index holds and
  the filter accepts, at most as many as asked for, one distance for each.
\<close>

record ('x, 'v) us_model =
  um_vectors :: "'x \<Rightarrow> (u64, 'v) fmap"
  um_mapped :: "'x \<Rightarrow> bool"
  um_q32 :: "f32 list \<Rightarrow> 'v"
  um_q16 :: "u16 list \<Rightarrow> 'v"

definition search_result_ok :: "(u64, 'v) fmap \<Rightarrow> nat \<Rightarrow> (u64 \<Rightarrow> bool) \<Rightarrow> u64 list \<times> f32 list \<Rightarrow> bool" where
  "search_result_ok m k keep r \<longleftrightarrow>
     distinct (fst r) \<and> length (fst r) \<le> k \<and> length (snd r) = length (fst r)
     \<and> (\<forall>i \<in> set (fst r). i |\<in>| fmdom m \<and> keep i)"

definition usearch_ok :: "'x usearch \<Rightarrow> ('x, 'v) us_model \<Rightarrow> bool" where
  "usearch_ok U A \<longleftrightarrow>
     (\<forall>opts x. us_new U opts = Some x \<longrightarrow> um_vectors A x = fmempty \<and> \<not> um_mapped A x)
     \<and> (\<forall>x. us_size U x = fcard (fmdom (um_vectors A x)))
     \<and> (\<forall>n x x'. us_reserve U n x = (True, x') \<longrightarrow>
          um_vectors A x' = um_vectors A x \<and> um_mapped A x' = um_mapped A x)
     \<and> (\<forall>k v x x'. us_add_f32 U k v x = (True, x') \<longrightarrow>
          k |\<notin>| fmdom (um_vectors A x) \<and>
          \<not> um_mapped A x \<and> \<not> um_mapped A x' \<and> um_vectors A x' = fmupd k (um_q32 A v) (um_vectors A x))
     \<and> (\<forall>k v x x'. us_add_f16 U k v x = (True, x') \<longrightarrow>
          k |\<notin>| fmdom (um_vectors A x) \<and>
          \<not> um_mapped A x \<and> \<not> um_mapped A x' \<and> um_vectors A x' = fmupd k (um_q16 A v) (um_vectors A x))
     \<and> (\<forall>k x x'. us_remove U k x = (True, x') \<longrightarrow>
          um_mapped A x' = um_mapped A x \<and> um_vectors A x' = fmdrop k (um_vectors A x))
     \<and> (\<forall>x bs y y'. us_save U x = Some bs \<longrightarrow> us_load U bs y = (True, y') \<longrightarrow>
          um_vectors A y' = um_vectors A x \<and> \<not> um_mapped A y')
     \<and> (\<forall>x bs y y'. us_save U x = Some bs \<longrightarrow> us_view U bs y = (True, y') \<longrightarrow>
          um_vectors A y' = um_vectors A x \<and> um_mapped A y')
     \<and> (\<forall>x q k r. us_search U x q k = Some r \<longrightarrow> search_result_ok (um_vectors A x) k (\<lambda>_. True) r)
     \<and> (\<forall>x q k keep r. us_filtered_search U x q k keep = Some r \<longrightarrow> search_result_ok (um_vectors A x) k keep r)"

end
