(* ===== verification/Ordered.thy ===== *)
theory Ordered
  imports Soft_Float "HOL-Library.Multiset" "HOL-Library.AList"
begin

text \<open>
  Ordering results: the stable sort of the standard library under a comparison, the laws it
  needs, the orders the sources sort by, and \<open>IndexMap\<close>, a map that remembers the order of
  insertion.
\<close>

section \<open>Stable sorting\<close>

text \<open>\<open>sort_by\<close> with \<open>le x y\<close> meaning that the comparison does not answer \<open>Greater\<close>.\<close>

fun insort_by :: "('a \<Rightarrow> 'a \<Rightarrow> bool) \<Rightarrow> 'a \<Rightarrow> 'a list \<Rightarrow> 'a list" where
  "insort_by le x [] = [x]"
| "insort_by le x (y # ys) = (if le x y then x # y # ys else y # insort_by le x ys)"

definition sort_by :: "('a \<Rightarrow> 'a \<Rightarrow> bool) \<Rightarrow> 'a list \<Rightarrow> 'a list" where
  "sort_by le xs = foldr (insort_by le) xs []"

lemma sort_by_simps [simp]: "sort_by le [] = []" "sort_by le (x # xs) = insort_by le x (sort_by le xs)"
  by (simp_all add: sort_by_def)

lemma mset_insort_by: "mset (insort_by le x xs) = add_mset x (mset xs)"
  by (induction xs) auto

lemma mset_sort_by [simp]: "mset (sort_by le xs) = mset xs"
  by (induction xs) (simp_all add: mset_insort_by)

lemma set_sort_by [simp]: "set (sort_by le xs) = set xs"
  by (metis mset_sort_by set_mset_mset)

lemma length_sort_by [simp]: "length (sort_by le xs) = length xs"
  by (metis mset_sort_by size_mset)

lemma set_insort_by [simp]: "set (insort_by le x xs) = insert x (set xs)"
  by (induction xs) auto

text \<open>The contract of a comparison, on the values that are compared.\<close>

locale total_preorder_on =
  fixes A :: "'a set" and le :: "'a \<Rightarrow> 'a \<Rightarrow> bool"
  assumes le_total: "x \<in> A \<Longrightarrow> y \<in> A \<Longrightarrow> le x y \<or> le y x"
    and le_trans: "x \<in> A \<Longrightarrow> y \<in> A \<Longrightarrow> z \<in> A \<Longrightarrow> le x y \<Longrightarrow> le y z \<Longrightarrow> le x z"
begin

lemma insort_sorted:
  "sorted_wrt le xs \<Longrightarrow> insert x (set xs) \<subseteq> A \<Longrightarrow> sorted_wrt le (insort_by le x xs)"
proof (induction xs)
  case (Cons y ys)
  show ?case
  proof (cases "le x y")
    case True
    with Cons.prems show ?thesis by (auto intro: le_trans [of x y])
  next
    case False
    with Cons.prems le_total [of x y] have "le y x" by auto
    with Cons False show ?thesis by auto
  qed
qed simp

lemma sort_sorted: "set xs \<subseteq> A \<Longrightarrow> sorted_wrt le (sort_by le xs)"
  by (induction xs) (auto intro!: insort_sorted)

text \<open>A sorted list is left alone, so sorting twice is sorting once.\<close>

lemma sort_of_sorted: "sorted_wrt le xs \<Longrightarrow> sort_by le xs = xs"
proof (induction xs)
  case (Cons x xs)
  then have "sort_by le xs = xs" by simp
  with Cons.prems show ?case by (cases xs) auto
qed simp

text \<open>Equal elements keep their order.\<close>

lemma insort_stable:
  assumes "insert x (set xs) \<subseteq> A" "a \<in> A"
  shows "filter (\<lambda>y. le a y \<and> le y a) (insort_by le x xs) = filter (\<lambda>y. le a y \<and> le y a) (x # xs)"
  using assms(1)
proof (induction xs)
  case (Cons y ys)
  have A: "x \<in> A" "y \<in> A" using Cons.prems by simp_all
  show ?case
  proof (cases "le x y")
    case False
    have "\<not> ((le a x \<and> le x a) \<and> (le a y \<and> le y a))"
      using False A assms(2) le_trans [of x a y] by blast
    with False Cons show ?thesis by auto
  qed simp
qed simp

lemma sort_stable:
  "set xs \<subseteq> A \<Longrightarrow> a \<in> A \<Longrightarrow>
     filter (\<lambda>y. le a y \<and> le y a) (sort_by le xs) = filter (\<lambda>y. le a y \<and> le y a) xs"
proof (induction xs)
  case (Cons x xs)
  then have "filter (\<lambda>y. le a y \<and> le y a) (insort_by le x (sort_by le xs))
    = filter (\<lambda>y. le a y \<and> le y a) (x # sort_by le xs)"
    by (intro insort_stable) simp_all
  with Cons show ?case by simp
qed simp

text \<open>Cutting a sorted list keeps the least elements.\<close>

lemma take_sort_least:
  assumes "set xs \<subseteq> A" "x \<in> set (take k (sort_by le xs))" "y \<in> set (drop k (sort_by le xs))"
  shows "le x y"
proof -
  have "sorted_wrt le (take k (sort_by le xs) @ drop k (sort_by le xs))"
    using sort_sorted [OF assms(1)] by simp
  with assms(2,3) show ?thesis by (simp only: sorted_wrt_append)
qed

end

text \<open>When only equal values are equivalent, the result does not depend on the order of the input.\<close>

locale total_order_on = total_preorder_on A le for A :: "'a set" and le +
  assumes le_antisym: "x \<in> A \<Longrightarrow> y \<in> A \<Longrightarrow> le x y \<Longrightarrow> le y x \<Longrightarrow> x = y"
begin

lemma sorted_unique:
  "sorted_wrt le xs \<Longrightarrow> sorted_wrt le ys \<Longrightarrow> mset xs = mset ys \<Longrightarrow> set xs \<subseteq> A \<Longrightarrow> xs = ys"
proof (induction xs arbitrary: ys)
  case (Cons x xs)
  then obtain y ys' where ys: "ys = y # ys'" by (cases ys) auto
  have sets: "set (x # xs) = set ys" using Cons.prems(3) by (metis set_mset_mset)
  have "x = y"
  proof (rule ccontr)
    assume ne: "x \<noteq> y"
    with sets ys have "y \<in> set xs" "x \<in> set ys'" by auto
    with Cons.prems(1,2,4) ys sets have "le x y" "le y x" "x \<in> A" "y \<in> A" by auto
    with ne show False using le_antisym by blast
  qed
  moreover have "xs = ys'"
    by (rule Cons.IH) (use Cons.prems ys \<open>x = y\<close> in auto)
  ultimately show ?case using ys by simp
qed simp

lemma sort_by_mset: "mset xs = mset ys \<Longrightarrow> set xs \<subseteq> A \<Longrightarrow> sort_by le xs = sort_by le ys"
proof -
  assume m: "mset xs = mset ys" and A: "set xs \<subseteq> A"
  have "set ys \<subseteq> A" using m A by (metis set_mset_mset)
  with A m show ?thesis by (intro sorted_unique sort_sorted) simp_all
qed

end

section \<open>The orders of the sources\<close>

text \<open>Scored candidates: by distance under \<open>total_cmp\<close>, ties by id.\<close>

definition hit_le :: "u64 \<times> f32 \<Rightarrow> u64 \<times> f32 \<Rightarrow> bool" where
  "hit_le a b =
     (case f32_total_cmp (snd a) (snd b) of Lt \<Rightarrow> True | Gt \<Rightarrow> False | Eq \<Rightarrow> fst a \<le> fst b)"

text \<open>\<open>partial_cmp\<close> with \<open>Equal\<close> for want of an answer.\<close>

definition near_le :: "f32 \<Rightarrow> f32 \<Rightarrow> bool" where
  "near_le a b \<longleftrightarrow> f32_partial_cmp a b \<noteq> Some Gt"

lemma hit_le_key:
  "hit_le a b \<longleftrightarrow> f32_total_key (snd a) < f32_total_key (snd b)
     \<or> (snd a = snd b \<and> fst a \<le> fst b)"
  using f32_total_key_inj [of "snd a" "snd b"] by (auto simp: hit_le_def f32_total_cmp_def cmp_int_def)

interpretation hits: total_order_on UNIV hit_le
  by unfold_locales (auto simp: hit_le_key f32_total_key_inj not_less_iff_gr_or_eq intro: prod_eqI)

lemma near_le_num: "\<not> f32_is_nan a \<Longrightarrow> \<not> f32_is_nan b \<Longrightarrow> near_le a b \<longleftrightarrow> f32_num a \<le> f32_num b"
  by (auto simp: near_le_def f32_partial_cmp_num cmp_int_def)

interpretation near: total_preorder_on "{d. \<not> f32_is_nan d}" near_le
  by unfold_locales (auto simp: near_le_num)

text \<open>The same order on values that carry their distance.\<close>

lemma near_on: "total_preorder_on {x. \<not> f32_is_nan (f x)} (\<lambda>x y. near_le (f x) (f y))"
  by unfold_locales (auto simp: near_le_num)

section \<open>Insertion-ordered maps\<close>

text \<open>
  An \<open>IndexMap\<close> is its entries in order. Inserting a key it has replaces the value in place;
  \<open>collect\<close> and \<open>extend\<close> insert one entry after the other.
\<close>

type_synonym ('k, 'v) index_map = "('k \<times> 'v) list"

definition im_insert :: "'k \<Rightarrow> 'v \<Rightarrow> ('k, 'v) index_map \<Rightarrow> ('k, 'v) index_map" where
  "im_insert = AList.update"

definition im_extend :: "('k \<times> 'v) list \<Rightarrow> ('k, 'v) index_map \<Rightarrow> ('k, 'v) index_map" where
  "im_extend ps m = fold (\<lambda>(k, v). im_insert k v) ps m"

definition im_collect :: "('k \<times> 'v) list \<Rightarrow> ('k, 'v) index_map" where
  "im_collect ps = im_extend ps []"

definition im_get :: "('k, 'v) index_map \<Rightarrow> 'k \<Rightarrow> 'v option" where
  "im_get m k = map_of m k"

definition im_keys :: "('k, 'v) index_map \<Rightarrow> 'k list" where
  "im_keys m = map fst m"

definition im_ok :: "('k, 'v) index_map \<Rightarrow> bool" where
  "im_ok m \<longleftrightarrow> distinct (map fst m)"

lemma im_insert_new: "k \<notin> set (im_keys m) \<Longrightarrow> im_insert k v m = m @ [(k, v)]"
  unfolding im_insert_def im_keys_def by (induction m) auto

lemma im_insert_keys: "set (im_keys (im_insert k v m)) = insert k (set (im_keys m))"
  unfolding im_insert_def im_keys_def by (induction m) auto

lemma im_insert_ok [simp]: "im_ok m \<Longrightarrow> im_ok (im_insert k v m)"
  by (simp add: im_ok_def im_insert_def distinct_update)

lemma im_insert_get [simp]: "im_get (im_insert k v m) = (im_get m)(k \<mapsto> v)"
  by (simp add: im_get_def im_insert_def update_conv' fun_eq_iff)

lemma im_extend_ok: "im_ok m \<Longrightarrow> im_ok (im_extend ps m)"
  unfolding im_extend_def by (induction ps arbitrary: m) auto

lemma im_collect_ok: "im_ok (im_collect ps)"
  unfolding im_collect_def by (rule im_extend_ok) (simp add: im_ok_def)

lemma im_extend_keys: "set (im_keys (im_extend ps m)) = set (im_keys m) \<union> fst ` set ps"
proof (induction ps arbitrary: m)
  case Nil
  then show ?case by (simp add: im_extend_def)
next
  case (Cons p ps)
  have "im_extend (p # ps) m = im_extend ps (im_insert (fst p) (snd p) m)"
    by (simp add: im_extend_def case_prod_unfold)
  with Cons [of "im_insert (fst p) (snd p) m"] show ?case by (auto simp: im_insert_keys)
qed

text \<open>Collecting pairs with distinct keys keeps them as they are.\<close>

lemma im_extend_distinct:
  "distinct (map fst ps) \<Longrightarrow> fst ` set ps \<inter> set (im_keys m) = {} \<Longrightarrow> im_extend ps m = m @ ps"
proof (induction ps arbitrary: m)
  case Nil
  then show ?case by (simp add: im_extend_def)
next
  case (Cons p ps)
  have s: "im_extend (p # ps) m = im_extend ps (im_insert (fst p) (snd p) m)"
    by (simp add: im_extend_def case_prod_unfold)
  have i: "im_insert (fst p) (snd p) m = m @ [p]"
    using Cons.prems(2) im_insert_new [of "fst p" m "snd p"] by auto
  have "im_extend ps (m @ [p]) = (m @ [p]) @ ps"
    by (rule Cons.IH) (use Cons.prems in \<open>auto simp: im_keys_def\<close>)
  then show ?case by (simp add: s i)
qed

lemma im_collect_distinct: "distinct (map fst ps) \<Longrightarrow> im_collect ps = ps"
  using im_extend_distinct [of ps "[]"] by (simp add: im_collect_def im_keys_def)

lemma im_collect_keys: "set (im_keys (im_collect ps)) = fst ` set ps"
  using im_extend_keys [of ps "[]"] by (simp add: im_collect_def im_keys_def)

end
