(* ===== verification/Shard.thy ===== *)
theory Shard
  imports Compact Vector_Index Ordered
begin

text \<open>
  A shard (\<open>embedding-store/src/shard.rs\<close>): the store of one workspace and the two indexes over
  it, behind one lock. An operation that takes the write lock once is one step on the shard's
  inner state and the directory; the two operations that take it twice are sequences of such
  steps, so that what happens between them can be stated.
\<close>

section \<open>The index state file\<close>

record index_state =
  ix_version :: u32
  ix_seq :: u64
  ix_splits :: u64
  ix_summaries :: u64

definition INDEX_STATE_VERSION :: u32 where
  "INDEX_STATE_VERSION = 1"

text \<open>The externals of a shard: those of the store, the usearch library and one more codec.\<close>

record 'x senv =
  se_env :: env
  se_us :: "'x usearch"
  se_state :: "index_state codec"

definition index_state_load :: "'x senv \<Rightarrow> world \<Rightarrow> index_state option" where
  "index_state_load S w =
     (case fs_read w IndexStateFile of
        Inl _ \<Rightarrow> None
      | Inr bs \<Rightarrow>
          (case from_slice (se_state S) bs of
             Inl _ \<Rightarrow> None
           | Inr state \<Rightarrow> if ix_version state = INDEX_STATE_VERSION then Some state else None))"

definition index_state_store :: "'x senv \<Rightarrow> index_state \<Rightarrow> unit io" where
  "index_state_store S state =
     bindM (liftM (to_vec (se_state S) state)) (\<lambda>bs. write_atomically IndexStateTmp IndexStateFile bs)"

definition index_state_remove :: "unit io" where
  "index_state_remove = (\<lambda>w. if fs_exists w IndexStateFile then fs_remove IndexStateFile w else (Inr (), w))"

section \<open>Options and state\<close>

record shard_options =
  sho_model_id :: u64
  sho_index :: index_config
  sho_segment_max_bytes :: u64
  sho_brute_force_max :: nat

definition shard_options_new :: "u64 \<Rightarrow> index_config \<Rightarrow> shard_options" where
  "shard_options_new model_id index =
     (let store_defaults = store_options_new model_id (word_of_nat (ic_dimensions index)) in
      \<lparr> sho_model_id = model_id, sho_index = index,
        sho_segment_max_bytes = so_segment_max_bytes store_defaults, sho_brute_force_max = 4096 \<rparr>)"

definition shard_store_options :: "shard_options \<Rightarrow> store_options" where
  "shard_store_options o' =
     (store_options_new (sho_model_id o') (word_of_nat (ic_dimensions (sho_index o'))))
       \<lparr>so_segment_max_bytes := sho_segment_max_bytes o'\<rparr>"

record shard_stats =
  ss_docs :: nat
  ss_splits :: nat
  ss_summaries :: nat
  ss_split_index_size :: nat
  ss_summary_index_size :: nat
  ss_index_memory_bytes :: nat
  ss_snapshot_seq :: u64
  ss_next_seq :: u64
  ss_sealed_bytes :: u64
  ss_tombstone_bytes :: u64

datatype residency = Loaded | Viewed

record 'x shard_inner =
  in_store :: store
  in_splits :: "'x vector_index"
  in_summaries :: "'x vector_index"

record 'x shard =
  sh_opts :: shard_options
  sh_inner :: "'x shard_inner"
  sh_from_snapshot :: bool

type_synonym 'x istate = "'x shard_inner \<times> world"
type_synonym ('x, 'a) iop = "(error, 'x istate, 'a) op"

definition index_of :: "entity_kind \<Rightarrow> 'x shard_inner \<Rightarrow> 'x vector_index" where
  "index_of kind n = (case kind of ESplit \<Rightarrow> in_splits n | ESummary \<Rightarrow> in_summaries n)"

definition set_index :: "entity_kind \<Rightarrow> 'x vector_index \<Rightarrow> 'x shard_inner \<Rightarrow> 'x shard_inner" where
  "set_index kind i n = (case kind of ESplit \<Rightarrow> n\<lparr>in_splits := i\<rparr> | ESummary \<Rightarrow> n\<lparr>in_summaries := i\<rparr>)"

definition in_log :: "'a sop \<Rightarrow> ('x, 'a) iop" where
  "in_log m = zoom (\<lambda>(n, w). (in_store n, w)) (\<lambda>(s, w) (n, _). (n\<lparr>in_store := s\<rparr>, w)) m"

definition in_index :: "entity_kind \<Rightarrow> ('x, 'a) xop \<Rightarrow> ('x, 'a) iop" where
  "in_index kind m = zoom (\<lambda>(n, w). (index_of kind n, w)) (\<lambda>(i, w) (n, _). (set_index kind i n, w)) m"

definition in_dir :: "'a io \<Rightarrow> ('x, 'a) iop" where
  "in_dir m = zoom snd (\<lambda>w (n, _). (n, w)) m"

section \<open>Opening\<close>

text \<open>Why saved indexes are not used.\<close>

datatype unusable = NoSavedIndexes | NoIndexState | SavedAt u64 u64 | ReplayedAfter u64

definition snapshot_is_usable :: "'x senv \<Rightarrow> 'x shard_inner \<Rightarrow> world \<Rightarrow> unusable + unit" where
  "snapshot_is_usable S n w =
     (if \<not> vi_exists (in_splits n) w \<or> \<not> vi_exists (in_summaries n) w then Inl NoSavedIndexes
      else case index_state_load S w of
        None \<Rightarrow> Inl NoIndexState
      | Some state \<Rightarrow>
          let manifest = st_manifest (in_store n) in
          if ix_seq state \<noteq> mf_snapshot_seq manifest then Inl (SavedAt (ix_seq state) (mf_snapshot_seq manifest))
          else if mf_snapshot_seq manifest + 1 \<noteq> mf_next_seq manifest
          then Inl (ReplayedAfter (mf_next_seq manifest - mf_snapshot_seq manifest - 1))
          else Inr ())"

text \<open>Every live vector of one kind, as the log holds it, into its index.\<close>

definition fill_index :: "'x senv \<Rightarrow> entity_kind \<Rightarrow> ('x, unit) iop" where
  "fill_index S kind = (\<lambda>(n, w).
     in_index kind (for_each_live_vector (se_env S) (in_store n) w kind
       (\<lambda>i bs dtype. if dtype = NoVector then fail (NothingToIndex i)
                     else vi_add_raw (se_us S) (e_of_f16 (se_env S)) i bs dtype)) (n, w))"

definition rebuild :: "'x senv \<Rightarrow> ('x, unit) iop" where
  "rebuild S =
     bindM (getM (\<lambda>(n, w). split_count (in_store n))) (\<lambda>split_n.
     seqM (in_index ESplit (vi_reserve_for (se_us S) split_n))
    (bindM (getM (\<lambda>(n, w). summary_count (in_store n))) (\<lambda>summary_n.
     seqM (in_index ESummary (vi_reserve_for (se_us S) summary_n))
    (seqM (fill_index S ESplit) (fill_index S ESummary)))))"

definition read_back :: "'x senv \<Rightarrow> residency \<Rightarrow> ('x, unit) xop" where
  "read_back S residency = (case residency of Loaded \<Rightarrow> vi_load (se_us S) | Viewed \<Rightarrow> vi_view (se_us S))"

text \<open>Both read-backs run, whatever the first one returned; then the sizes are compared.\<close>

definition read_indexes :: "'x senv \<Rightarrow> residency \<Rightarrow> ('x, bool) iop" where
  "read_indexes S residency =
     bindM (\<lambda>(n, w). (Inr (snapshot_is_usable S n w), (n, w))) (\<lambda>usable. case usable of
       Inl _ \<Rightarrow> ret False
     | Inr _ \<Rightarrow>
         attempt (in_index ESplit (read_back S residency)) (\<lambda>splits_result.
         attempt (in_index ESummary (read_back S residency)) (\<lambda>summaries_result.
         case (splits_result, summaries_result) of
           (Inr _, Inr _) \<Rightarrow>
             getM (\<lambda>(n, w). \<not> (vi_size (se_us S) (in_splits n) < split_count (in_store n)
                               \<or> vi_size (se_us S) (in_summaries n) < summary_count (in_store n)))
         | _ \<Rightarrow> ret False)))"

definition start_over :: "'x senv \<Rightarrow> ('x, unit) iop" where
  "start_over S =
     seqM (\<lambda>(n, w). in_dir (vi_remove_file (in_splits n)) (n, w))
    (seqM (\<lambda>(n, w). in_dir (vi_remove_file (in_summaries n)) (n, w))
    (seqM (in_dir index_state_remove) (rebuild S)))"

definition shard_open_with :: "'x senv \<Rightarrow> shard_options \<Rightarrow> residency \<Rightarrow> (error, world, 'x shard) op" where
  "shard_open_with S opts residency =
     bindM (store_open (se_env S) (shard_store_options opts)) (\<lambda>store.
     bindM (liftM (vi_create (se_us S) ESplit (sho_index opts))) (\<lambda>splits.
     bindM (liftM (vi_create (se_us S) ESummary (sho_index opts))) (\<lambda>summaries.
     (\<lambda>w. case bindM (read_indexes S residency) (\<lambda>from_snapshot.
               seqM (if from_snapshot then ret () else start_over S) (ret from_snapshot))
            (\<lparr> in_store = store, in_splits = splits, in_summaries = summaries \<rparr>, w) of
        (Inl e, (n, w')) \<Rightarrow> (Inl e, w')
      | (Inr from_snapshot, (n, w')) \<Rightarrow>
          (Inr \<lparr> sh_opts = opts, sh_inner = n, sh_from_snapshot = from_snapshot \<rparr>, w')))))"

definition shard_open :: "'x senv \<Rightarrow> shard_options \<Rightarrow> (error, world, 'x shard) op" where
  "shard_open S opts = shard_open_with S opts Loaded"

section \<open>Residency\<close>

definition shard_residency :: "'x shard_inner \<Rightarrow> residency" where
  "shard_residency n =
     (if vi_is_viewed (in_splits n) \<or> vi_is_viewed (in_summaries n) then Viewed else Loaded)"

definition promote_index :: "'x senv \<Rightarrow> entity_kind \<Rightarrow> ('x, unit) iop" where
  "promote_index S kind =
     bindM (getM (\<lambda>(n, w). vi_is_viewed (index_of kind n))) (\<lambda>viewed.
     if viewed then in_index kind (vi_load (se_us S)) else ret ())"

definition promote :: "'x senv \<Rightarrow> ('x, unit) iop" where
  "promote S = seqM (promote_index S ESplit) (promote_index S ESummary)"

section \<open>Writing\<close>

definition remove_keys :: "'x senv \<Rightarrow> entity_kind \<Rightarrow> u64 list \<Rightarrow> ('x, unit) iop" where
  "remove_keys S kind ids = forM (\<lambda>i. in_index kind (vi_remove (se_us S) i)) ids"

definition upsert_split :: "'x senv \<Rightarrow> split_dto \<Rightarrow> ('x, unit) iop" where
  "upsert_split S s =
     (case sd_embedding s of
        None \<Rightarrow> fail (NoEmbedding ESplit (sd_split_id s))
      | Some e \<Rightarrow> in_index ESplit (vi_upsert (se_us S) (sd_split_id s) (eb_embedding e)))"

fun upsert_summaries :: "'x senv \<Rightarrow> summary_dto list \<Rightarrow> u64 set \<Rightarrow> ('x, unit) iop" where
  "upsert_summaries S [] seen = ret ()"
| "upsert_summaries S (u # us) seen =
     (if ud_summary_id u \<in> seen then upsert_summaries S us seen
      else case ud_embedding u of
        None \<Rightarrow> fail (NoEmbedding ESummary (ud_summary_id u))
      | Some e \<Rightarrow>
          seqM (in_index ESummary (vi_upsert (se_us S) (ud_summary_id u) (eb_embedding e)))
            (upsert_summaries S us (insert (ud_summary_id u) seen)))"

definition shard_insert :: "'x senv \<Rightarrow> document_dto \<Rightarrow> ('x, replaced) iop" where
  "shard_insert S doc =
     seqM (promote S)
    (bindM (in_log (store_insert (se_env S) doc)) (\<lambda>replaced.
     seqM (remove_keys S ESplit (rp_split_ids replaced))
    (seqM (remove_keys S ESummary (rp_summary_ids replaced))
    (seqM (in_index ESplit (vi_reserve_for (se_us S) (length (dd_splits doc))))
    (seqM (forM (upsert_split S) (dd_splits doc))
    (seqM (upsert_summaries S (opt_list (dd_summaries doc) @ concat (map sd_summaries (dd_splits doc))) {})
    (ret replaced)))))))"

definition shard_delete :: "'x senv \<Rightarrow> u64 \<Rightarrow> ('x, bool) iop" where
  "shard_delete S doc_id =
     bindM (getM (\<lambda>(n, w). contains_doc (in_store n) doc_id)) (\<lambda>present.
     if \<not> present then ret False
     else
       seqM (promote S)
      (bindM (in_log (store_delete (se_env S) doc_id)) (\<lambda>r. case r of
        None \<Rightarrow> ret False
      | Some removed \<Rightarrow>
          seqM (remove_keys S ESplit (rd_split_ids removed))
         (seqM (remove_keys S ESummary (rd_summary_ids removed))
         (ret True)))))"

section \<open>Searching\<close>

definition entity_count :: "entity_kind \<Rightarrow> doc_entry \<Rightarrow> nat" where
  "entity_count kind entry =
     (case kind of
        ESplit \<Rightarrow> length (de_split_ids entry)
      | ESummary \<Rightarrow> (case de_summary_ids entry of None \<Rightarrow> 0 | Some ids \<Rightarrow> length ids) + length (de_extra_summary_ids entry))"

definition filtered_entries :: "env \<Rightarrow> store \<Rightarrow> u64 fset \<Rightarrow> doc_entry list" where
  "filtered_entries E s doc_ids = List.map_filter (\<lambda>d. fmlookup (docs (st_maps s)) d) (e_order E doc_ids)"

definition candidate_count :: "env \<Rightarrow> store \<Rightarrow> entity_kind \<Rightarrow> u64 fset \<Rightarrow> nat" where
  "candidate_count E s kind doc_ids = sum_list (map (entity_count kind) (filtered_entries E s doc_ids))"

definition candidates_of :: "env \<Rightarrow> store \<Rightarrow> entity_kind \<Rightarrow> u64 fset \<Rightarrow> u64 list" where
  "candidates_of E s kind doc_ids =
     concat (map (\<lambda>entry. case kind of ESplit \<Rightarrow> de_split_ids entry | ESummary \<Rightarrow> owned_summary_ids entry)
       (filtered_entries E s doc_ids))"

definition score :: "env \<Rightarrow> store \<Rightarrow> world \<Rightarrow> u_metric \<Rightarrow> entity_kind \<Rightarrow> f32 list \<Rightarrow> u64 \<Rightarrow> error + (u64 \<times> f32) option" where
  "score E s w metric kind query i =
     bindR (with_vector s w kind i (\<lambda>bs dtype. distance metric query (decode_vector (e_of_f16 E) bs dtype)))
       (\<lambda>r. Inr (map_option (\<lambda>d. (i, d)) r))"

definition brute_force :: "'x senv \<Rightarrow> 'x shard_inner \<Rightarrow> world \<Rightarrow> entity_kind \<Rightarrow> f32 list \<Rightarrow> nat \<Rightarrow> u64 fset
    \<Rightarrow> error + (u64 \<times> f32) list" where
  "brute_force S n w kind query top_k doc_ids =
     bindR (collect (score (se_env S) (in_store n) w (vi_metric (index_of kind n)) kind query)
              (candidates_of (se_env S) (in_store n) kind doc_ids))
       (\<lambda>scored. Inr (take top_k (sort_by hit_le scored)))"

text \<open>The filter the graph walk is given: is this key an entity of one of the documents?\<close>

definition in_documents :: "store \<Rightarrow> entity_kind \<Rightarrow> u64 fset \<Rightarrow> u64 \<Rightarrow> bool" where
  "in_documents s kind doc_ids key =
     (case kind of
        ESplit \<Rightarrow> (case fmlookup (splits (st_maps s)) key of None \<Rightarrow> False | Some e \<Rightarrow> se_doc_id e |\<in>| doc_ids)
      | ESummary \<Rightarrow> (case fmlookup (summaries (st_maps s)) key of None \<Rightarrow> False | Some e \<Rightarrow> ue_doc_id e |\<in>| doc_ids))"

definition shard_search :: "'x senv \<Rightarrow> nat \<Rightarrow> 'x shard_inner \<Rightarrow> world \<Rightarrow> entity_kind \<Rightarrow> f32 list \<Rightarrow> nat \<Rightarrow> u64 fset option
    \<Rightarrow> error + (u64, f32) index_map" where
  "shard_search S brute_force_max n w kind query top_k doc_filter =
     (if top_k = 0 then Inr []
      else bindR (case doc_filter of
          None \<Rightarrow> vi_search (se_us S) (index_of kind n) query top_k
        | Some doc_ids \<Rightarrow>
            let candidates = candidate_count (se_env S) (in_store n) kind doc_ids in
            if candidates = 0 then Inr []
            else if candidates \<le> brute_force_max then brute_force S n w kind query top_k doc_ids
            else vi_filtered_search (se_us S) (index_of kind n) query top_k (in_documents (in_store n) kind doc_ids))
        (\<lambda>hits. Inr (im_collect hits)))"

definition search_splits :: "'x senv \<Rightarrow> 'x shard \<Rightarrow> world \<Rightarrow> f32 list \<Rightarrow> nat \<Rightarrow> u64 fset option \<Rightarrow> error + (u64, f32) index_map" where
  "search_splits S sh w query top_k doc_filter =
     shard_search S (sho_brute_force_max (sh_opts sh)) (sh_inner sh) w ESplit query top_k doc_filter"

definition search_summaries :: "'x senv \<Rightarrow> 'x shard \<Rightarrow> world \<Rightarrow> f32 list \<Rightarrow> nat \<Rightarrow> u64 fset option \<Rightarrow> error + (u64, f32) index_map" where
  "search_summaries S sh w query top_k doc_filter =
     shard_search S (sho_brute_force_max (sh_opts sh)) (sh_inner sh) w ESummary query top_k doc_filter"

section \<open>Reading\<close>

definition load_summaries :: "env \<Rightarrow> store \<Rightarrow> world \<Rightarrow> u64 list \<Rightarrow> (u64, f32) index_map option \<Rightarrow> bool
    \<Rightarrow> error + summary_dto list" where
  "load_summaries E s w ids distances emb =
     collect (\<lambda>i. bindR (get_summary E s w i emb) (\<lambda>r. Inr (map_option (\<lambda>u.
       u\<lparr>ud_query_distance := (case distances of None \<Rightarrow> None | Some d \<Rightarrow> im_get d i)\<rparr>) r))) ids"

definition load_splits :: "env \<Rightarrow> store \<Rightarrow> world \<Rightarrow> u64 list \<Rightarrow> (u64, f32) index_map option
    \<Rightarrow> (u64, summary_dto list) index_map option \<Rightarrow> bool \<Rightarrow> error + split_dto list" where
  "load_splits E s w ids direct_distances hit_summaries emb =
     collect (\<lambda>i. bindR (case hit_summaries of
           Some _ \<Rightarrow> get_split_without_summaries E s w i emb
         | None \<Rightarrow> get_split E s w i emb) (\<lambda>r. Inr (map_option (\<lambda>sp.
       (case hit_summaries of
          None \<Rightarrow> sp
        | Some hits \<Rightarrow> sp\<lparr>sd_summaries := (case im_get hits i of None \<Rightarrow> [] | Some us \<Rightarrow> us)\<rparr>)
       \<lparr>sd_query_distance := (case direct_distances of None \<Rightarrow> None | Some d \<Rightarrow> im_get d i)\<rparr>) r))) ids"

definition load_doc :: "env \<Rightarrow> store \<Rightarrow> world \<Rightarrow> u64 \<Rightarrow> split_dto list \<Rightarrow> bool \<Rightarrow> error + document_dto option" where
  "load_doc E s w doc_id ss emb =
     (case fmlookup (docs (st_maps s)) doc_id of
        None \<Rightarrow> Inr None
      | Some entry \<Rightarrow>
          bindR (case de_summary_ids entry of
              Some ids \<Rightarrow> bindR (get_summaries E s w ids emb) (\<lambda>us. Inr (Some us))
            | None \<Rightarrow> Inr None) (\<lambda>us.
          Inr (Some \<lparr> dd_document_id = doc_id, dd_document_url = de_url entry, dd_splits = ss, dd_summaries = us \<rparr>)))"

definition doc_entry_of :: "store \<Rightarrow> u64 \<Rightarrow> doc_entry option" where
  "doc_entry_of s doc_id = fmlookup (docs (st_maps s)) doc_id"

section \<open>Durability and housekeeping\<close>

definition shard_fsync :: "('x, unit) iop" where
  "shard_fsync = in_log store_fsync"

definition shard_snapshot :: "'x senv \<Rightarrow> ('x, u64) iop" where
  "shard_snapshot S =
     seqM (in_log store_fsync)
    (bindM (getM (\<lambda>(n, w). saturating_sub (mf_next_seq (st_manifest (in_store n))) 1)) (\<lambda>seq.
     bindM (getM (\<lambda>(n, w). seq = mf_snapshot_seq (st_manifest (in_store n)) \<and> index_state_load S w \<noteq> None)) (\<lambda>saved.
     if saved then ret seq
     else
       seqM (\<lambda>(n, w). in_dir (vi_save_atomically (se_us S) (in_splits n)) (n, w))
      (seqM (\<lambda>(n, w). in_dir (vi_save_atomically (se_us S) (in_summaries n)) (n, w))
      (seqM (\<lambda>(n, w). in_dir (index_state_store S
           \<lparr> ix_version = INDEX_STATE_VERSION, ix_seq = seq,
             ix_splits = word_of_nat (vi_size (se_us S) (in_splits n)),
             ix_summaries = word_of_nat (vi_size (se_us S) (in_summaries n)) \<rparr>) (n, w))
      (bindM (in_log (snapshot_meta (se_env S))) (\<lambda>published.
       if published \<noteq> seq
       then seqM (in_dir index_state_remove) (fail (LogMoved seq published))
       else ret seq)))))))"

definition shard_seal_active :: "'x senv \<Rightarrow> ('x, unit) iop" where
  "shard_seal_active S = in_log (seal_active (se_env S))"

text \<open>The second lock section of a demotion.\<close>

definition demote_view :: "'x senv \<Rightarrow> ('x, unit) iop" where
  "demote_view S =
     bindM (getM (\<lambda>(n, w). vi_is_viewed (in_splits n) \<and> vi_is_viewed (in_summaries n))) (\<lambda>viewed.
     if viewed then ret ()
     else seqM (in_index ESplit (vi_view (se_us S))) (in_index ESummary (vi_view (se_us S))))"

definition shard_demote :: "'x senv \<Rightarrow> ('x, unit) iop" where
  "shard_demote S = bindM (shard_snapshot S) (\<lambda>_. demote_view S)"

text \<open>The first lock section of a compaction, and the whole.\<close>

definition compact_section :: "'x senv \<Rightarrow> f64 \<Rightarrow> ('x, bool) iop" where
  "compact_section S ratio =
     bindM (getM (\<lambda>(n, w). needs_compaction (in_store n) ratio)) (\<lambda>needed.
     if \<not> needed then ret False
     else seqM (promote S) (bindM (in_log (store_compact_if_needed (se_env S) ratio)) (\<lambda>_. ret True)))"

definition shard_compact_if_needed :: "'x senv \<Rightarrow> f64 \<Rightarrow> ('x, bool) iop" where
  "shard_compact_if_needed S ratio =
     bindM (compact_section S ratio) (\<lambda>compacted.
     if \<not> compacted then ret False else bindM (shard_snapshot S) (\<lambda>_. ret True))"

definition stats_of :: "'x senv \<Rightarrow> 'x shard_inner \<Rightarrow> shard_stats" where
  "stats_of S n =
     (let manifest = st_manifest (in_store n) in
      \<lparr> ss_docs = doc_count (in_store n), ss_splits = split_count (in_store n),
        ss_summaries = summary_count (in_store n),
        ss_split_index_size = vi_size (se_us S) (in_splits n),
        ss_summary_index_size = vi_size (se_us S) (in_summaries n),
        ss_index_memory_bytes = vi_memory_bytes (se_us S) (in_splits n) + vi_memory_bytes (se_us S) (in_summaries n),
        ss_snapshot_seq = mf_snapshot_seq manifest, ss_next_seq = mf_next_seq manifest,
        ss_sealed_bytes = manifest_sealed_bytes manifest, ss_tombstone_bytes = mf_tombstone_bytes manifest \<rparr>)"

end
