(* ===== verification/Pool.thy ===== *)
theory Pool
  imports Shard
begin

text \<open>
  The shard pool (\<open>embedding-store/src/pool.rs\<close>): one shard per workspace directory under one
  memory budget. An \<open>Arc<Shard>\<close> is the number of an allocation; its strong count is one for the
  map, when the map has it, and one for each holder outside. \<open>lv_busy\<close> says that another thread
  has the shard's own lock, so that measuring it would block. This theory runs one caller's
  operations; the interleaving of several openers and closers is \<open>Pool_Threads\<close>.
\<close>

section \<open>State\<close>

type_synonym uuid = "128 word"

record entry =
  en_shard :: nat
  en_last_used :: u64
  en_bytes :: nat

record pool_inner =
  pi_shards :: "(uuid, entry) fmap"
  pi_opening :: "(uuid, nat) fmap"
  pi_tick :: u64

record 'x allocation =
  lv_workspace :: uuid
  lv_shard :: "'x shard"
  lv_held :: nat
  lv_busy :: bool

text \<open>\<open>pl_dirs\<close> are the workspace directories that exist, each with what is in it.\<close>

record 'x pool =
  pl_opts :: shard_options
  pl_budget_bytes :: nat
  pl_inner :: pool_inner
  pl_heap :: "(nat, 'x allocation) fmap"
  pl_next :: nat
  pl_dirs :: "(uuid, world) fmap"

text \<open>The externals: those of a shard, the iteration order of a hash map, the faults of a new directory.\<close>

record 'x penv =
  pe_shard :: "'x senv"
  pe_order :: "uuid fset \<Rightarrow> uuid list"
  pe_faults :: "uuid \<Rightarrow> fault list"

type_synonym ('x, 'a) pop = "(error, 'x pool, 'a) op"

record pool_stats =
  pst_loaded :: nat
  pst_viewed :: nat
  pst_memory_bytes :: nat
  pst_budget_bytes :: nat

definition USIZE_MAX :: nat where
  "USIZE_MAX = 2 ^ 64 - 1"

definition pool_new :: "shard_options \<Rightarrow> 'x pool" where
  "pool_new opts = \<lparr> pl_opts = opts, pl_budget_bytes = USIZE_MAX,
     pl_inner = \<lparr> pi_shards = fmempty, pi_opening = fmempty, pi_tick = 0 \<rparr>,
     pl_heap = fmempty, pl_next = 0, pl_dirs = fmempty \<rparr>"

definition with_memory_budget_bytes :: "nat \<Rightarrow> 'x pool \<Rightarrow> 'x pool" where
  "with_memory_budget_bytes bytes p = p\<lparr>pl_budget_bytes := bytes\<rparr>"

definition with_memory_budget_mb :: "nat \<Rightarrow> 'x pool \<Rightarrow> 'x pool" where
  "with_memory_budget_mb mb p = with_memory_budget_bytes (min USIZE_MAX (mb * 2 ^ 20)) p"

definition entry_of :: "'x pool \<Rightarrow> uuid \<Rightarrow> entry option" where
  "entry_of p ws = fmlookup (pi_shards (pl_inner p)) ws"

definition allocation_of :: "'x pool \<Rightarrow> nat \<Rightarrow> 'x allocation option" where
  "allocation_of p a = fmlookup (pl_heap p) a"

definition set_entry :: "uuid \<Rightarrow> entry \<Rightarrow> 'x pool \<Rightarrow> 'x pool" where
  "set_entry ws e p = p\<lparr>pl_inner := (pl_inner p)\<lparr>pi_shards := fmupd ws e (pi_shards (pl_inner p))\<rparr>\<rparr>"

definition in_map :: "'x pool \<Rightarrow> nat \<Rightarrow> bool" where
  "in_map p a \<longleftrightarrow> (\<exists>e \<in> fmran' (pi_shards (pl_inner p)). en_shard e = a)"

section \<open>Reference counts\<close>

definition held :: "'x pool \<Rightarrow> nat \<Rightarrow> nat" where
  "held p a = (case allocation_of p a of None \<Rightarrow> 0 | Some l \<Rightarrow> lv_held l)"

text \<open>\<open>Arc::strong_count\<close> of an entry's shard: the map's reference and the holders'.\<close>

definition strong_count :: "'x pool \<Rightarrow> entry \<Rightarrow> nat" where
  "strong_count p e = 1 + held p (en_shard e)"

definition map_allocation :: "('x allocation \<Rightarrow> 'x allocation) \<Rightarrow> nat \<Rightarrow> 'x pool \<Rightarrow> 'x pool" where
  "map_allocation f a p =
     (case allocation_of p a of None \<Rightarrow> p | Some l \<Rightarrow> p\<lparr>pl_heap := fmupd a (f l) (pl_heap p)\<rparr>)"

definition clone_arc :: "nat \<Rightarrow> 'x pool \<Rightarrow> 'x pool" where
  "clone_arc a = map_allocation (\<lambda>l. l\<lparr>lv_held := lv_held l + 1\<rparr>) a"

text \<open>Dropping the last reference frees the shard.\<close>

definition drop_arc :: "nat \<Rightarrow> 'x pool \<Rightarrow> 'x pool" where
  "drop_arc a p =
     (let q = map_allocation (\<lambda>l. l\<lparr>lv_held := lv_held l - 1\<rparr>) a p in
      if held q a = 0 \<and> \<not> in_map q a then q\<lparr>pl_heap := fmdrop a (pl_heap q)\<rparr> else q)"

section \<open>Running a shard's operation\<close>

definition dir_world :: "'x penv \<Rightarrow> 'x pool \<Rightarrow> uuid \<Rightarrow> world" where
  "dir_world P p ws =
     (case fmlookup (pl_dirs p) ws of
        Some w \<Rightarrow> w
      | None \<Rightarrow> \<lparr> files = fmempty, synced = fmempty, faults = pe_faults P ws \<rparr>)"

definition on_shard :: "'x penv \<Rightarrow> nat \<Rightarrow> ('x, 'a) iop \<Rightarrow> ('x, 'a) pop" where
  "on_shard P a m = (\<lambda>p.
     case allocation_of p a of
       None \<Rightarrow> (Inl Panicked, p)
     | Some l \<Rightarrow>
         (case m (sh_inner (lv_shard l), dir_world P p (lv_workspace l)) of
            (r, (n, w)) \<Rightarrow>
              (r, p\<lparr>pl_heap := fmupd a (l\<lparr>lv_shard := (lv_shard l)\<lparr>sh_inner := n\<rparr>\<rparr>) (pl_heap p),
                    pl_dirs := fmupd (lv_workspace l) w (pl_dirs p)\<rparr>)))"

definition try_stats :: "'x penv \<Rightarrow> 'x pool \<Rightarrow> nat \<Rightarrow> shard_stats option" where
  "try_stats P p a =
     (case allocation_of p a of
        None \<Rightarrow> None
      | Some l \<Rightarrow> if lv_busy l then None else Some (stats_of (pe_shard P) (sh_inner (lv_shard l))))"

definition residency_of :: "'x pool \<Rightarrow> nat \<Rightarrow> residency" where
  "residency_of p a =
     (case allocation_of p a of None \<Rightarrow> Viewed | Some l \<Rightarrow> shard_residency (sh_inner (lv_shard l)))"

section \<open>Under the pool lock\<close>

definition tick_up :: "'x pool \<Rightarrow> 'x pool" where
  "tick_up p = p\<lparr>pl_inner := (pl_inner p)\<lparr>pi_tick := pi_tick (pl_inner p) + 1\<rparr>\<rparr>"

definition touch :: "uuid \<Rightarrow> 'x pool \<Rightarrow> nat option \<times> 'x pool" where
  "touch ws p =
     (let p1 = tick_up p in
      case entry_of p1 ws of
        None \<Rightarrow> (None, p1)
      | Some e \<Rightarrow>
          (Some (en_shard e),
           clone_arc (en_shard e) (set_entry ws (e\<lparr>en_last_used := pi_tick (pl_inner p1)\<rparr>) p1)))"

definition peek :: "uuid \<Rightarrow> ('x, nat option) pop" where
  "peek ws = (\<lambda>p. case touch ws p of (r, p') \<Rightarrow> (Inr r, p'))"

definition is_loaded :: "'x pool \<Rightarrow> uuid \<Rightarrow> bool" where
  "is_loaded p ws \<longleftrightarrow> entry_of p ws \<noteq> None"

definition entries :: "'x penv \<Rightarrow> 'x pool \<Rightarrow> (uuid \<times> entry) list" where
  "entries P p =
     List.map_filter (\<lambda>ws. map_option (\<lambda>e. (ws, e)) (entry_of p ws)) (pe_order P (fmdom (pi_shards (pl_inner p))))"

definition loaded :: "'x penv \<Rightarrow> 'x pool \<Rightarrow> (uuid \<times> nat) list" where
  "loaded P p = map (\<lambda>(ws, e). (ws, en_shard e)) (entries P p)"

definition refresh_entry :: "'x penv \<Rightarrow> uuid \<Rightarrow> 'x pool \<Rightarrow> 'x pool" where
  "refresh_entry P ws p =
     (case entry_of p ws of
        None \<Rightarrow> p
      | Some e \<Rightarrow>
          (case try_stats P p (en_shard e) of
             None \<Rightarrow> p
           | Some st \<Rightarrow> set_entry ws (e\<lparr>en_bytes := ss_index_memory_bytes st\<rparr>) p))"

definition refresh_bytes :: "'x penv \<Rightarrow> 'x pool \<Rightarrow> 'x pool" where
  "refresh_bytes P p = fold (refresh_entry P) (map fst (entries P p)) p"

definition total_bytes :: "'x penv \<Rightarrow> 'x pool \<Rightarrow> nat" where
  "total_bytes P p = sum_list (map (\<lambda>(ws, e). en_bytes e) (entries P p))"

definition claim_for_eviction :: "uuid \<Rightarrow> ('x, nat option) pop" where
  "claim_for_eviction ws = (\<lambda>p.
     case entry_of p ws of
       None \<Rightarrow> (Inr None, p)
     | Some e \<Rightarrow>
         if strong_count p e = 1 then (Inr (Some (en_shard e)), clone_arc (en_shard e) p) else (Inr None, p))"

definition retire_gates :: "'x pool \<Rightarrow> 'x pool" where
  "retire_gates p = p\<lparr>pl_inner := (pl_inner p)\<lparr>pi_opening := fmfilter
     (\<lambda>ws. case fmlookup (pi_opening (pl_inner p)) ws of None \<Rightarrow> False | Some n \<Rightarrow> 0 < n) (pi_opening (pl_inner p))\<rparr>\<rparr>"

text \<open>Taking a clone of the workspace's gate, made when there is none; and dropping it.\<close>

definition take_gate :: "uuid \<Rightarrow> 'x pool \<Rightarrow> 'x pool" where
  "take_gate ws p = p\<lparr>pl_inner := (pl_inner p)\<lparr>pi_opening :=
     fmupd ws (case fmlookup (pi_opening (pl_inner p)) ws of None \<Rightarrow> 1 | Some n \<Rightarrow> n + 1) (pi_opening (pl_inner p))\<rparr>\<rparr>"

definition drop_gate :: "uuid \<Rightarrow> 'x pool \<Rightarrow> 'x pool" where
  "drop_gate ws p =
     (case fmlookup (pi_opening (pl_inner p)) ws of
        None \<Rightarrow> p
      | Some n \<Rightarrow> p\<lparr>pl_inner := (pl_inner p)\<lparr>pi_opening := fmupd ws (n - 1) (pi_opening (pl_inner p))\<rparr>\<rparr>)"

section \<open>Demoting\<close>

text \<open>The claimed reference is dropped on every way out.\<close>

definition demote :: "'x penv \<Rightarrow> uuid \<Rightarrow> nat \<Rightarrow> ('x, bool) pop" where
  "demote P ws a = (\<lambda>p.
     if residency_of p a = Viewed then (Inr False, drop_arc a p)
     else case on_shard P a (shard_demote (pe_shard P)) p of
       (Inl e, q) \<Rightarrow> (Inl e, drop_arc a q)
     | (Inr _, q) \<Rightarrow> (Inr True, drop_arc a (refresh_entry P ws q)))"

definition evict :: "'x penv \<Rightarrow> uuid \<Rightarrow> ('x, bool) pop" where
  "evict P ws =
     bindM (claim_for_eviction ws) (\<lambda>r. case r of None \<Rightarrow> ret False | Some a \<Rightarrow> demote P ws a)"

text \<open>Closing: the entry leaves the map only when the map and this call are its only holders.\<close>

definition remove_entry :: "uuid \<Rightarrow> 'x pool \<Rightarrow> 'x pool" where
  "remove_entry ws p = p\<lparr>pl_inner := (pl_inner p)\<lparr>pi_shards := fmdrop ws (pi_shards (pl_inner p))\<rparr>\<rparr>"

definition pool_close :: "'x penv \<Rightarrow> uuid \<Rightarrow> ('x, bool) pop" where
  "pool_close P ws =
     bindM (claim_for_eviction ws) (\<lambda>r. case r of
       None \<Rightarrow> ret False
     | Some a \<Rightarrow> (\<lambda>p. case on_shard P a (shard_snapshot (pe_shard P)) p of
           (Inl e, q) \<Rightarrow> (Inl e, drop_arc a q)
         | (Inr _, q) \<Rightarrow>
             (case entry_of q ws of
                None \<Rightarrow> (Inr False, drop_arc a q)
              | Some e \<Rightarrow>
                  if 2 < strong_count q e then (Inr False, drop_arc a q)
                  else (Inr True, drop_arc a (remove_entry ws q)))))"

section \<open>The budget\<close>

text \<open>The least recently used entry that is unheld and not passed over.\<close>

definition victim :: "'x penv \<Rightarrow> uuid set \<Rightarrow> 'x pool \<Rightarrow> (uuid \<times> entry) option" where
  "victim P skip p =
     (case filter (\<lambda>(ws, e). ws \<notin> skip \<and> strong_count p e = 1) (entries P p) of
        [] \<Rightarrow> None
      | c # cs \<Rightarrow> Some (fold (\<lambda>c best. if en_last_used (snd c) < en_last_used (snd best) then c else best) cs c))"

partial_function (option) enforce_loop ::
  "'x penv \<Rightarrow> uuid set \<Rightarrow> nat \<Rightarrow> 'x pool \<Rightarrow> ((error + nat) \<times> 'x pool) option" where
  "enforce_loop P skip evicted p0 =
     (let p = refresh_bytes P p0 in
      if total_bytes P p \<le> pl_budget_bytes p then Some (Inr evicted, p)
      else case victim P skip p of
        None \<Rightarrow> Some (Inr evicted, p)
      | Some (ws, e) \<Rightarrow>
          (case demote P ws (en_shard e) (clone_arc (en_shard e) p) of
             (Inl err, q) \<Rightarrow> Some (Inl err, q)
           | (Inr demoted, q) \<Rightarrow>
               if demoted then enforce_loop P skip (evicted + 1) q
               else enforce_loop P (insert ws skip) evicted q))"

definition enforce_budget :: "'x penv \<Rightarrow> 'x pool \<Rightarrow> ((error + nat) \<times> 'x pool) option" where
  "enforce_budget P p = enforce_loop P {} 0 p"

section \<open>Opening\<close>

definition open_and_insert :: "'x penv \<Rightarrow> uuid \<Rightarrow> residency \<Rightarrow> ('x, nat) pop" where
  "open_and_insert P ws residency =
     bindM (peek ws) (\<lambda>r. case r of
       Some a \<Rightarrow> ret a
     | None \<Rightarrow> (\<lambda>p.
         case shard_open_with (pe_shard P) (pl_opts p) residency (dir_world P p ws) of
           (Inl e, w) \<Rightarrow> (Inl e, p\<lparr>pl_dirs := fmupd ws w (pl_dirs p)\<rparr>)
         | (Inr sh, w) \<Rightarrow>
             let a = pl_next p;
                 bytes = ss_index_memory_bytes (stats_of (pe_shard P) (sh_inner sh));
                 q = tick_up (p\<lparr>pl_dirs := fmupd ws w (pl_dirs p), pl_next := a + 1,
                   pl_heap := fmupd a \<lparr> lv_workspace = ws, lv_shard = sh, lv_held = 1, lv_busy = False \<rparr> (pl_heap p)\<rparr>) in
             (Inr a, set_entry ws \<lparr> en_shard = a, en_last_used = pi_tick (pl_inner q), en_bytes = bytes \<rparr> q)))"

text \<open>A failure to get back under budget is only logged.\<close>

definition get_with :: "'x penv \<Rightarrow> uuid \<Rightarrow> residency \<Rightarrow> ('x, nat) pop" where
  "get_with P ws residency =
     bindM (peek ws) (\<lambda>r. case r of
       Some a \<Rightarrow> ret a
     | None \<Rightarrow>
         bindM (peek ws) (\<lambda>r. case r of
           Some a \<Rightarrow> ret a
         | None \<Rightarrow>
             seqM (modM (take_gate ws))
            (attempt (open_and_insert P ws residency) (\<lambda>opened.
             seqM (modM (\<lambda>p. drop_gate ws (retire_gates p)))
            (case opened of
               Inl e \<Rightarrow> fail e
             | Inr a \<Rightarrow> (\<lambda>p. (Inr a, case enforce_budget P p of None \<Rightarrow> p | Some (_, q) \<Rightarrow> q)))))))"

definition pool_get :: "'x penv \<Rightarrow> uuid \<Rightarrow> ('x, nat) pop" where
  "pool_get P ws = get_with P ws Loaded"

definition get_existing :: "'x penv \<Rightarrow> uuid \<Rightarrow> ('x, nat option) pop" where
  "get_existing P ws =
     bindM (peek ws) (\<lambda>r. case r of
       Some a \<Rightarrow> ret (Some a)
     | None \<Rightarrow>
         bindM (getM (\<lambda>p. fmlookup (pl_dirs p) ws \<noteq> None)) (\<lambda>is_dir.
         if \<not> is_dir then ret None else bindM (get_with P ws Viewed) (\<lambda>a. ret (Some a))))"

section \<open>Passes over every shard\<close>

text \<open>
  Every shard is attempted even when one fails; the first error is returned afterwards. The
  clones of the shards still to come pin them.
\<close>

fun pass_over :: "'x penv \<Rightarrow> ('x, 'a) iop \<Rightarrow> ('a \<Rightarrow> bool) \<Rightarrow> nat list \<Rightarrow> nat \<Rightarrow> error option \<Rightarrow> ('x, nat) pop" where
  "pass_over P m counts [] done None = ret done"
| "pass_over P m counts [] done (Some e) = fail e"
| "pass_over P m counts (a # as) done first_error =
     attempt (on_shard P a m) (\<lambda>r.
       seqM (modM (drop_arc a))
         (case r of
            Inr x \<Rightarrow> pass_over P m counts as (if counts x then done + 1 else done) first_error
          | Inl e \<Rightarrow> pass_over P m counts as done (case first_error of None \<Rightarrow> Some e | Some f \<Rightarrow> Some f)))"

definition over_loaded :: "'x penv \<Rightarrow> ('x, 'a) iop \<Rightarrow> ('a \<Rightarrow> bool) \<Rightarrow> ('x, nat) pop" where
  "over_loaded P m counts =
     bindM (getM (\<lambda>p. map snd (loaded P p))) (\<lambda>ids.
     seqM (modM (fold clone_arc ids)) (pass_over P m counts ids 0 None))"

definition snapshot_all :: "'x penv \<Rightarrow> ('x, nat) pop" where
  "snapshot_all P = over_loaded P (shard_snapshot (pe_shard P)) (\<lambda>_. True)"

definition fsync_all :: "'x penv \<Rightarrow> ('x, nat) pop" where
  "fsync_all P = over_loaded P shard_fsync (\<lambda>_. True)"

definition pool_compact_if_needed :: "'x penv \<Rightarrow> f64 \<Rightarrow> ('x, nat) pop" where
  "pool_compact_if_needed P ratio = over_loaded P (shard_compact_if_needed (pe_shard P) ratio) (\<lambda>compacted. compacted)"

section \<open>Statistics and listing\<close>

definition pool_stats_of :: "'x penv \<Rightarrow> 'x pool \<Rightarrow> pool_stats \<times> 'x pool" where
  "pool_stats_of P p =
     (let q = refresh_bytes P p in
      (\<lparr> pst_loaded = fcard (fmdom (pi_shards (pl_inner q))),
         pst_viewed = length (filter (\<lambda>(ws, e). residency_of q (en_shard e) = Viewed) (entries P q)),
         pst_memory_bytes = total_bytes P q, pst_budget_bytes = pl_budget_bytes q \<rparr>, q))"

text \<open>
  A directory entry as \<open>read_dir\<close> yields it: an error, or its name when that is UTF-8, and its
  kind when that can be read. \<open>parse\<close> is \<open>Uuid::parse_str\<close>.
\<close>

record dir_entry =
  dx_name :: "ustring option"
  dx_is_dir :: "bool option"

fun workspaces_of :: "(ustring \<Rightarrow> uuid option) \<Rightarrow> dir_entry option list \<Rightarrow> error + uuid list" where
  "workspaces_of parse [] = Inr []"
| "workspaces_of parse (None # es) = Inl Io"
| "workspaces_of parse (Some d # es) =
     (case dx_is_dir d of
        None \<Rightarrow> Inl Io
      | Some False \<Rightarrow> workspaces_of parse es
      | Some True \<Rightarrow>
          (case Option.bind (dx_name d) parse of
             None \<Rightarrow> workspaces_of parse es
           | Some ws \<Rightarrow> bindR (workspaces_of parse es) (\<lambda>wss. Inr (ws # wss))))"

definition list_workspaces :: "(ustring \<Rightarrow> uuid option) \<Rightarrow> dir_entry option list option \<Rightarrow> error + uuid list" where
  "list_workspaces parse dir =
     (case dir of
        None \<Rightarrow> Inl Io
      | Some es \<Rightarrow> bindR (workspaces_of parse es) (\<lambda>wss. Inr (sort wss)))"

end
