(* ===== verification/Batching.thy ===== *)
theory Batching
  imports Dtos Ordered
begin

unbundle bit_operations_syntax

text \<open>
  The two model workers: \<open>embedding-model/src/embedding_worker.rs\<close> turns texts into vectors,
  \<open>reranking-model/src/reranking_worker.rs\<close> scores texts against a query. Both pack token
  sequences into batches of at most a context window and decode batch by batch. The llama.cpp
  binding is not part of the sources: its calls are the fields of a record.
\<close>

section \<open>The library\<close>

type_synonym token = "32 word"

text \<open>\<open>'b\<close> is a \<open>LlamaBatch\<close>, \<open>'c\<close> a \<open>LlamaContext\<close>; a call that may fail says whether it worked.\<close>

record ('b, 'c) llama =
  ll_tokenize :: "bool \<Rightarrow> ustring \<Rightarrow> token list option"
  ll_bos :: token
  ll_eos :: token
  ll_sep :: token
  ll_n_tokens :: "'b \<Rightarrow> nat"
  ll_add :: "token list \<Rightarrow> nat \<Rightarrow> 'b \<Rightarrow> bool \<times> 'b"
  ll_clear :: "'b \<Rightarrow> 'b"
  ll_clear_kv :: "'c \<Rightarrow> 'c"
  ll_decode :: "'b \<Rightarrow> 'c \<Rightarrow> bool \<times> 'c"
  ll_seq :: "'c \<Rightarrow> nat \<Rightarrow> f32 list option"

datatype worker_error =
    UnpackFailed
  | EmptyQuery
  | QueryTokens
  | QueryTooLong nat nat
  | DecodeFailed
  | AddFailed
  | PackFailed
  | WorkerPanic

text \<open>What one request changes: the batch and the context, which outlive it, and its own locals.\<close>

record ('b, 'c) work =
  wk_batch :: 'b
  wk_ctx :: 'c
  wk_seq :: nat
  wk_output :: "f32 list list"

type_synonym ('b, 'c, 'a) wop = "(worker_error, ('b, 'c) work, 'a) op"

section \<open>Floating point of the workers\<close>

text \<open>\<open>mul_add\<close>: the product and the sum with one rounding.\<close>

definition ffma :: "float_format \<Rightarrow> nat \<Rightarrow> nat \<Rightarrow> nat \<Rightarrow> nat" where
  "ffma F a b c =
     (case (fdecode F a, fdecode F b, fdecode F c) of
        (FFin s m e, FFin t n g, FFin u p k) \<Rightarrow>
          let low = min (e + g) k;
              v = signed (s \<noteq> t) (m * n * 2 ^ nat (e + g - low)) + signed u (p * 2 ^ nat (k - low)) in
          if v = 0 then with_sign F ((s \<noteq> t) \<and> u) 0
          else fround_bin F (v < 0) (nat \<bar>v\<bar>) low
      | (FFin s m e, FFin t n g, FInf u) \<Rightarrow> c
      | _ \<Rightarrow> fadd F (fmul F a b) c)"

definition f32_mul_add :: "f32 \<Rightarrow> f32 \<Rightarrow> f32 \<Rightarrow> f32" where
  "f32_mul_add a b c = word_of_nat (ffma F32_format (unat a) (unat b) (unat c))"

definition f_convert :: "float_format \<Rightarrow> float_format \<Rightarrow> nat \<Rightarrow> nat" where
  "f_convert F G a =
     (case fdecode F a of
        FNan \<Rightarrow> nan_bits G
      | FInf s \<Rightarrow> with_sign G s (inf_bits G)
      | FFin s m e \<Rightarrow> fround_bin G s m e)"

definition f32_to_f64 :: "f32 \<Rightarrow> f64" where
  "f32_to_f64 a = word_of_nat (f_convert F32_format F64_format (unat a))"

definition f64_to_f32 :: "f64 \<Rightarrow> f32" where
  "f64_to_f32 a = word_of_nat (f_convert F64_format F32_format (unat a))"

definition f64_mul :: "f64 \<Rightarrow> f64 \<Rightarrow> f64" where
  "f64_mul a b = word_of_nat (fmul F64_format (unat a) (unat b))"

definition f64_add :: "f64 \<Rightarrow> f64 \<Rightarrow> f64" where
  "f64_add a b = word_of_nat (fadd F64_format (unat a) (unat b))"

definition f64_sqrt :: "f64 \<Rightarrow> f64" where
  "f64_sqrt a = word_of_nat (fsqrt F64_format (unat a))"

definition f64_one :: f64 where "f64_one = 0x3FF0000000000000"

definition f64_sum :: "f64 list \<Rightarrow> f64" where
  "f64_sum xs = foldl f64_add 0x8000000000000000 xs"

definition f32_abs :: "f32 \<Rightarrow> f32" where
  "f32_abs a = a AND 0x7FFFFFFF"

text \<open>\<open>f32::max\<close> returns the number when the other operand is NaN.\<close>

definition f32_max :: "f32 \<Rightarrow> f32 \<Rightarrow> f32" where
  "f32_max a b = (if f32_is_nan a then b else if f32_is_nan b then a else if f32_le a b then b else a)"

section \<open>Normalising\<close>

text \<open>\<open>normalize\<close> of the embedding worker: divide by the Euclidean norm.\<close>

definition normalize :: "f32 list \<Rightarrow> f32 list" where
  "normalize input =
     (let magnitude = f32_sqrt (foldl (\<lambda>acc val. f32_mul_add val val acc) f32_zero input) in
      map (\<lambda>val. f32_div val magnitude) input)"

text \<open>
  \<open>normalize_embeddings\<close> of the reranking worker. The precision of \<open>powi\<close> and \<open>powf\<close> is not
  specified by the standard library, so they are arguments.
\<close>

definition normalize_embeddings ::
  "(f64 \<Rightarrow> int \<Rightarrow> f64) \<Rightarrow> (f64 \<Rightarrow> int \<Rightarrow> f64) \<Rightarrow> f32 list \<Rightarrow> int \<Rightarrow> f32 list" where
  "normalize_embeddings pow_i pow_f input embd_norm =
     (let total =
        (if embd_norm = - 1 then f64_one
         else if embd_norm = 0
         then f32_to_f64 (f32_div (foldl f32_max f32_zero (map f32_abs input)) 0x46FFF000)
         else if embd_norm = 2
         then f64_sqrt (f64_sum (map (\<lambda>x. pow_i (f32_to_f64 x) 2) input))
         else pow_f (f64_sum (map (\<lambda>x. pow_i (f32_to_f64 (f32_abs x)) embd_norm) input)) embd_norm);
      norm = (if f64_gt total 0 then f64_div f64_one total else 0) in
      map (\<lambda>x. f64_to_f32 (f64_mul (f32_to_f64 x) norm)) input)"

section \<open>Batches\<close>

definition clear_batch :: "('b, 'c) llama \<Rightarrow> ('b, 'c, unit) wop" where
  "clear_batch L = modM (\<lambda>s. s\<lparr>wk_batch := ll_clear L (wk_batch s)\<rparr>)"

definition push_embedding :: "('b, 'c) llama \<Rightarrow> (f32 list \<Rightarrow> f32 list) \<Rightarrow> nat \<Rightarrow> ('b, 'c, unit) wop" where
  "push_embedding L norm i = (\<lambda>s.
     case ll_seq L (wk_ctx s) i of
       None \<Rightarrow> (Inl DecodeFailed, s)
     | Some v \<Rightarrow> (Inr (), s\<lparr>wk_output := wk_output s @ [norm v]\<rparr>))"

definition decode_batch :: "('b, 'c) llama \<Rightarrow> ('b, 'c, unit) wop" where
  "decode_batch L = (\<lambda>s.
     case ll_decode L (wk_batch s) (ll_clear_kv L (wk_ctx s)) of
       (ok, c) \<Rightarrow> (if ok then Inr () else Inl DecodeFailed, s\<lparr>wk_ctx := c\<rparr>))"

text \<open>The batch is cleared whatever the decoding returned.\<close>

definition batch_decode :: "('b, 'c) llama \<Rightarrow> (f32 list \<Rightarrow> f32 list) \<Rightarrow> ('b, 'c, unit) wop" where
  "batch_decode L norm =
     bindM (getM wk_seq) (\<lambda>s_batch.
     attempt (seqM (decode_batch L) (forM (push_embedding L norm) [0..<s_batch])) (\<lambda>result.
     seqM (clear_batch L) (liftM result)))"

definition reset_seq :: "('b, 'c, unit) wop" where
  "reset_seq = modM (\<lambda>s. s\<lparr>wk_seq := 0\<rparr>)"

definition add_sequence :: "('b, 'c) llama \<Rightarrow> token list \<Rightarrow> ('b, 'c, unit) wop" where
  "add_sequence L tokens = (\<lambda>s.
     case ll_add L tokens (wk_seq s) (wk_batch s) of
       (ok, b) \<Rightarrow>
         if ok then (Inr (), s\<lparr>wk_batch := b, wk_seq := wk_seq s + 1\<rparr>)
         else (Inl AddFailed, s\<lparr>wk_batch := b\<rparr>))"

text \<open>The batch is decoded first when the next sequence would not fit.\<close>

definition add_tokens :: "('b, 'c) llama \<Rightarrow> nat \<Rightarrow> ('b, 'c, unit) wop \<Rightarrow> token list \<Rightarrow> ('b, 'c, unit) wop" where
  "add_tokens L n_ctx flush tokens =
     bindM (getM (\<lambda>s. n_ctx < ll_n_tokens L (wk_batch s) + length tokens)) (\<lambda>full.
     seqM (if full then flush else ret ()) (add_sequence L tokens))"

text \<open>The loop over the sequences; a failure leaves the batch empty.\<close>

definition add_all :: "('b, 'c) llama \<Rightarrow> nat \<Rightarrow> ('b, 'c, unit) wop \<Rightarrow> token list list \<Rightarrow> ('b, 'c, unit) wop" where
  "add_all L n_ctx flush ts =
     attempt (forM (add_tokens L n_ctx flush) ts) (\<lambda>r. case r of
       Inl e \<Rightarrow> seqM (clear_batch L) (fail e)
     | Inr _ \<Rightarrow> ret ())"

definition start_request :: "'b \<times> 'c \<Rightarrow> ('b, 'c) work" where
  "start_request bc = \<lparr> wk_batch = fst bc, wk_ctx = snd bc, wk_seq = 0, wk_output = [] \<rparr>"

definition end_request :: "('b, 'c) work \<Rightarrow> 'b \<times> 'c" where
  "end_request s = (wk_batch s, wk_ctx s)"

section \<open>The embedding worker\<close>

record embeddings_response =
  er_model_id :: u64
  er_embeddings :: "f32 list list"
  er_error :: "worker_error option"

text \<open>A text that cannot be tokenised, or has no tokens, is left out; a long one is cut.\<close>

definition tokens_of :: "('b, 'c) llama \<Rightarrow> nat \<Rightarrow> ustring \<Rightarrow> token list option" where
  "tokens_of L n_ctx text =
     (case ll_tokenize L True text of
        None \<Rightarrow> None
      | Some ts \<Rightarrow> if ts = [] then None else Some (take n_ctx ts))"

definition flush_embeddings :: "('b, 'c) llama \<Rightarrow> ('b, 'c, unit) wop" where
  "flush_embeddings L = seqM (batch_decode L normalize) reset_seq"

definition embed_texts :: "('b, 'c) llama \<Rightarrow> nat \<Rightarrow> ustring list \<Rightarrow> ('b, 'c, f32 list list) wop" where
  "embed_texts L n_ctx texts =
     seqM (add_all L n_ctx (flush_embeddings L) (List.map_filter (tokens_of L n_ctx) texts))
    (seqM (batch_decode L normalize) (getM wk_output))"

text \<open>One message: \<open>None\<close> is a body that does not unpack; \<open>packs\<close> says whether the answer serialises.\<close>

definition embedding_message ::
  "('b, 'c) llama \<Rightarrow> nat \<Rightarrow> u64 \<Rightarrow> (embeddings_response \<Rightarrow> bool) \<Rightarrow> ustring list option \<Rightarrow> 'b \<times> 'c
     \<Rightarrow> embeddings_response \<times> ('b \<times> 'c)" where
  "embedding_message L n_ctx model_id packs request bc =
     (let failed = (\<lambda>e. \<lparr> er_model_id = model_id, er_embeddings = [], er_error = Some e \<rparr>) in
      case request of
        None \<Rightarrow> (failed UnpackFailed, bc)
      | Some texts \<Rightarrow>
          (case embed_texts L n_ctx texts (start_request bc) of
             (Inl e, s) \<Rightarrow> (failed e, end_request s)
           | (Inr output, s) \<Rightarrow>
               let response = \<lparr> er_model_id = model_id, er_embeddings = output, er_error = None \<rparr> in
               (if packs response then response else failed PackFailed, end_request s)))"

fun embedding_worker ::
  "('b, 'c) llama \<Rightarrow> nat \<Rightarrow> u64 \<Rightarrow> (embeddings_response \<Rightarrow> bool) \<Rightarrow> ustring list option list \<Rightarrow> 'b \<times> 'c
     \<Rightarrow> embeddings_response list" where
  "embedding_worker L n_ctx model_id packs [] bc = []"
| "embedding_worker L n_ctx model_id packs (m # ms) bc =
     (case embedding_message L n_ctx model_id packs m bc of
        (r, bc') \<Rightarrow> r # embedding_worker L n_ctx model_id packs ms bc')"

section \<open>The reranking worker\<close>

record rerank_request =
  rr_query :: ustring
  rr_texts :: "ustring list"
  rr_return_text :: bool

record rerank_response =
  rs_model_id :: "u64 option"
  rs_ranks :: "rank list"
  rs_error :: "worker_error option"

text \<open>One sequence per text that can be tokenised and fits beside the query, by the text's position.\<close>

definition pair_of :: "('b, 'c) llama \<Rightarrow> nat \<Rightarrow> token list \<Rightarrow> ustring \<Rightarrow> token list option" where
  "pair_of L n_ctx query_tokens text =
     (case ll_tokenize L False text of
        None \<Rightarrow> None
      | Some text_tokens \<Rightarrow>
          if n_ctx < length text_tokens + length query_tokens + 4 then None
          else Some ([ll_bos L] @ query_tokens @ [ll_eos L, ll_sep L] @ text_tokens @ [ll_eos L]))"

definition sequence_pairs :: "('b, 'c) llama \<Rightarrow> nat \<Rightarrow> token list \<Rightarrow> ustring list \<Rightarrow> (nat \<times> token list) list" where
  "sequence_pairs L n_ctx query_tokens texts =
     List.map_filter (\<lambda>(i, text). map_option (\<lambda>ts. (i, ts)) (pair_of L n_ctx query_tokens text))
       (enumerate 0 texts)"

text \<open>Descending by score, NaN last: \<open>a\<close> may stand before \<open>b\<close>.\<close>

definition score_le :: "f32 \<Rightarrow> f32 \<Rightarrow> bool" where
  "score_le x y =
     (case f32_partial_cmp y x of
        Some c \<Rightarrow> c \<noteq> Gt
      | None \<Rightarrow> if f32_is_nan x \<and> f32_is_nan y then True else if f32_is_nan x then False else True)"

definition scored_le :: "nat \<times> f32 \<Rightarrow> nat \<times> f32 \<Rightarrow> bool" where
  "scored_le a b \<longleftrightarrow> score_le (snd a) (snd b)"

definition ranks_of :: "(nat \<times> f32) list \<Rightarrow> rank list" where
  "ranks_of scored =
     map (\<lambda>(place, i, score). \<lparr> rk_index = word_of_nat i, rk_rank = Some (word_of_nat place),
            rk_score = Some score, rk_text = None \<rparr>)
       (enumerate 0 (sort_by scored_le scored))"

definition flush_ranks :: "('b, 'c) llama \<Rightarrow> (f32 list \<Rightarrow> f32 list) \<Rightarrow> ('b, 'c, unit) wop" where
  "flush_ranks L norm = seqM (batch_decode L norm) (seqM reset_seq (clear_batch L))"

text \<open>\<open>embeddings[0]\<close> of every output: an empty one panics.\<close>

definition scores_of :: "f32 list list \<Rightarrow> ('b, 'c, f32 list) wop" where
  "scores_of output = (if [] \<in> set output then fail WorkerPanic else ret (map hd output))"

definition rank_pairs ::
  "('b, 'c) llama \<Rightarrow> nat \<Rightarrow> (f32 list \<Rightarrow> f32 list) \<Rightarrow> (nat \<times> token list) list \<Rightarrow> ('b, 'c, rank list) wop" where
  "rank_pairs L n_ctx norm pairs =
     seqM (add_all L n_ctx (flush_ranks L norm) (map snd pairs))
    (seqM (batch_decode L norm)
    (bindM (getM wk_output) (\<lambda>output.
     bindM (scores_of output) (\<lambda>scores.
     ret (ranks_of (zip (map fst pairs) scores))))))"

definition rank_texts ::
  "('b, 'c) llama \<Rightarrow> nat \<Rightarrow> (f32 list \<Rightarrow> f32 list) \<Rightarrow> rerank_request \<Rightarrow> ('b, 'c, rank list) wop" where
  "rank_texts L n_ctx norm request =
     (if rr_query request = [] then fail EmptyQuery
      else case ll_tokenize L False (rr_query request) of
        None \<Rightarrow> fail QueryTokens
      | Some query_tokens \<Rightarrow>
          if n_ctx < length query_tokens + 2 then fail (QueryTooLong (length query_tokens) n_ctx)
          else rank_pairs L n_ctx norm (sequence_pairs L n_ctx query_tokens (rr_texts request)))"

text \<open>\<open>None\<close> as the answer is a panic, which ends the worker.\<close>

definition rerank_message ::
  "('b, 'c) llama \<Rightarrow> nat \<Rightarrow> u64 \<Rightarrow> (f32 list \<Rightarrow> f32 list) \<Rightarrow> (rerank_response \<Rightarrow> bool) \<Rightarrow> rerank_request option
     \<Rightarrow> 'b \<times> 'c \<Rightarrow> rerank_response option \<times> ('b \<times> 'c)" where
  "rerank_message L n_ctx model_id norm packs request bc =
     (let failed = (\<lambda>e. Some \<lparr> rs_model_id = Some model_id, rs_ranks = [], rs_error = Some e \<rparr>) in
      case request of
        None \<Rightarrow> (failed UnpackFailed, bc)
      | Some req \<Rightarrow>
          (case rank_texts L n_ctx norm req (start_request bc) of
             (Inl e, s) \<Rightarrow> (if e = WorkerPanic then None else failed e, end_request s)
           | (Inr ranks, s) \<Rightarrow>
               let response = \<lparr> rs_model_id = Some model_id, rs_ranks = ranks, rs_error = None \<rparr> in
               (if packs response then Some response else failed PackFailed, end_request s)))"

end
