(* ===== verification/Processing.thy ===== *)
theory Processing
  imports Batching Store
begin

text \<open>
  From text to a document and from a question to a vector (\<open>embedding-processing/src/processing\<close>):
  splitting, naming, embedding and ranking sentences, and the two calls to the model services.
  The splitter, the hasher, LexRank and the sockets are not part of the sources; they are the
  fields of the processing context, an exchange over a socket being the reply, if one arrived.
\<close>

section \<open>The context\<close>

record split_result =
  sr_split_string :: ustring
  sr_tokens :: "u32 list"

datatype service_error =
    Exchange
  | Refused worker_error
  | NoSplitEmbedding
  | LexRank
  | ServicePanic

record processing_context =
  pc_embedding :: "ustring list \<Rightarrow> u64 \<Rightarrow> embeddings_response option"
  pc_reranking :: "(rerank_request \<Rightarrow> u64 \<Rightarrow> rerank_response option) option"
  pc_splitter :: "bytes \<Rightarrow> split_result list"
  pc_sentence_splitter :: "bytes \<Rightarrow> split_result list"
  pc_hasher :: "ustring \<Rightarrow> u64"
  pc_lexrank :: "f32 list \<Rightarrow> nat \<Rightarrow> nat \<Rightarrow> (nat \<times> f32) list option"
  pc_n_embd :: nat
  pc_model_id :: u64

section \<open>The services\<close>

definition get_embeddings :: "processing_context \<Rightarrow> ustring list \<Rightarrow> u64 \<Rightarrow> service_error + f32 list list" where
  "get_embeddings ctx texts embed_id =
     (case pc_embedding ctx texts embed_id of
        None \<Rightarrow> Inl Exchange
      | Some response \<Rightarrow>
          (case er_error response of
             Some e \<Rightarrow> Inl (Refused e)
           | None \<Rightarrow> Inr (er_embeddings response)))"

text \<open>The request never asks for the texts back, so the ranks come as they are.\<close>

definition get_rerankings :: "processing_context \<Rightarrow> ustring \<Rightarrow> ustring list \<Rightarrow> u64 \<Rightarrow> service_error + rank list" where
  "get_rerankings ctx query texts req_id =
     (case pc_reranking ctx of
        None \<Rightarrow> Inl ServicePanic
      | Some endpoint \<Rightarrow>
          (case endpoint \<lparr> rr_query = query, rr_texts = texts, rr_return_text = False \<rparr> req_id of
             None \<Rightarrow> Inl Exchange
           | Some response \<Rightarrow>
               (case rs_error response of
                  Some e \<Rightarrow> Inl (Refused e)
                | None \<Rightarrow> Inr (rs_ranks response))))"

definition process_query :: "processing_context \<Rightarrow> ustring \<Rightarrow> service_error + f32 list" where
  "process_query ctx query =
     bindR (get_embeddings ctx [query] (pc_hasher ctx query)) (\<lambda>embedding.
       case embedding of [] \<Rightarrow> Inl ServicePanic | v # _ \<Rightarrow> Inr v)"

section \<open>Names\<close>

text \<open>\<open>Display\<close> of the integer types: decimal digits, a minus sign before a negative one.\<close>

fun digits :: "nat \<Rightarrow> ustring" where
  "digits n = (if n < 10 then [word_of_nat (48 + n)] else digits (n div 10) @ [word_of_nat (48 + n mod 10)])"

declare digits.simps [simp del]

definition show_i32 :: "i32 \<Rightarrow> ustring" where
  "show_i32 i = (if sint i < 0 then 45 # digits (nat (- sint i)) else digits (nat (sint i)))"

definition split_name :: "u64 \<Rightarrow> i32 \<Rightarrow> ustring" where
  "split_name doc_id seq_id = digits (unat doc_id) @ show_i32 seq_id"

definition summary_name :: "u64 \<Rightarrow> nat \<Rightarrow> nat \<Rightarrow> ustring" where
  "summary_name split_id seq_id no_tokens = digits (unat split_id) @ digits seq_id @ digits no_tokens"

section \<open>Sentences and summaries\<close>

definition filter_splits :: "split_result list \<Rightarrow> nat \<Rightarrow> split_result list" where
  "filter_splits rs ln = filter (\<lambda>r. ln \<le> length (sr_tokens r)) rs"

definition get_sentences :: "processing_context \<Rightarrow> ustring \<Rightarrow> ustring list \<times> nat list" where
  "get_sentences ctx text =
     (let rs = filter_splits (pc_sentence_splitter ctx text) 4 in
      (map sr_split_string rs, map (\<lambda>r. length (sr_tokens r)) rs))"

text \<open>\<open>get(..).unwrap()\<close>, the index and the slice all panic out of range.\<close>

definition summary_of :: "processing_context \<Rightarrow> ustring list \<Rightarrow> nat list \<Rightarrow> f32 list \<Rightarrow> u64 \<Rightarrow> u64 \<Rightarrow> nat \<times> f32
    \<Rightarrow> service_error + summary_dto" where
  "summary_of ctx sentences no_tokens embeddings doc_id split_id = (\<lambda>(seq_id, score).
     if seq_id < length sentences \<and> seq_id < length no_tokens
        \<and> (seq_id + 1) * pc_n_embd ctx \<le> length embeddings
     then let sum_id = pc_hasher ctx (summary_name split_id seq_id (no_tokens ! seq_id)) in
       Inr \<lparr> ud_summary_id = sum_id, ud_document_id = doc_id, ud_split_id = split_id,
             ud_split_sequence_id = word_of_nat seq_id, ud_text_content = sentences ! seq_id,
             ud_token_len = word_of_nat (no_tokens ! seq_id), ud_centrality = score,
             ud_embedding = Some \<lparr> eb_embedding_id = sum_id,
               eb_embedding = take (pc_n_embd ctx) (drop (seq_id * pc_n_embd ctx) embeddings),
               eb_model_id = pc_model_id ctx \<rparr>,
             ud_query_distance = None, ud_rank = None \<rparr>
     else Inl ServicePanic)"

fun mapR :: "('a \<Rightarrow> 'e + 'b) \<Rightarrow> 'a list \<Rightarrow> 'e + 'b list" where
  "mapR f [] = Inr []"
| "mapR f (x # xs) = bindR (f x) (\<lambda>y. bindR (mapR f xs) (\<lambda>ys. Inr (y # ys)))"

definition process_summaries :: "processing_context \<Rightarrow> ustring list \<Rightarrow> nat list \<Rightarrow> f32 list \<Rightarrow> u64 \<Rightarrow> u64
    \<Rightarrow> service_error + summary_dto list" where
  "process_summaries ctx sentences no_tokens embeddings doc_id split_id =
     (if sentences = [] then Inr []
      else case pc_lexrank ctx embeddings (length sentences) (pc_n_embd ctx) of
        None \<Rightarrow> Inl LexRank
      | Some lx_ranks \<Rightarrow> mapR (summary_of ctx sentences no_tokens embeddings doc_id split_id) (take 2 lx_ranks))"

section \<open>Splits and documents\<close>

definition process_split :: "processing_context \<Rightarrow> split_result \<Rightarrow> u64 \<Rightarrow> i32 \<Rightarrow> service_error + split_dto" where
  "process_split ctx split_res doc_id seq_id =
     (let split_id = pc_hasher ctx (split_name doc_id seq_id);
          (sentences, no_tokens) = get_sentences ctx (sr_split_string split_res) in
      bindR (get_embeddings ctx (sr_split_string split_res # sentences) split_id) (\<lambda>embeddings.
      case embeddings of
        [] \<Rightarrow> Inl NoSplitEmbedding
      | split_embedding # rest \<Rightarrow>
          bindR (process_summaries ctx sentences no_tokens (concat rest) doc_id split_id) (\<lambda>summaries.
          Inr \<lparr> sd_split_id = split_id, sd_sequence_id = seq_id, sd_doc_id = doc_id,
                sd_text_content = sr_split_string split_res,
                sd_token_len = word_of_nat (length (sr_tokens split_res)), sd_summaries = summaries,
                sd_embedding = Some \<lparr> eb_embedding_id = split_id, eb_embedding = split_embedding,
                  eb_model_id = pc_model_id ctx \<rparr>,
                sd_query_distance = None, sd_rank = None \<rparr>)))"

text \<open>A split that fails is logged and left out, unless its processing panics.\<close>

fun keep_processed :: "(service_error + split_dto) list \<Rightarrow> service_error + split_dto list" where
  "keep_processed [] = Inr []"
| "keep_processed (Inr s # rs) = bindR (keep_processed rs) (\<lambda>ss. Inr (s # ss))"
| "keep_processed (Inl e # rs) = (if e = ServicePanic then Inl ServicePanic else keep_processed rs)"

definition process_document :: "processing_context \<Rightarrow> ustring \<Rightarrow> bytes \<Rightarrow> service_error + document_dto" where
  "process_document ctx url text =
     (let doc_id = pc_hasher ctx url in
      bindR (keep_processed (map (\<lambda>(seq_id, r). process_split ctx r doc_id (word_of_nat seq_id))
               (enumerate 0 (pc_splitter ctx text)))) (\<lambda>split_dtos.
      Inr \<lparr> dd_document_id = doc_id, dd_document_url = url, dd_splits = split_dtos,
            dd_summaries = Some (concat (map sd_summaries split_dtos)) \<rparr>))"

end
