(* ===== verification/Query.thy ===== *)
theory Query
  imports Pool Processing
begin

text \<open>
  The document query (\<open>embedding-server/src/api/query.rs\<close>): the indexes of every requested
  workspace are searched, the hits cut to the nearest over all of them, summary hits are reranked
  and traced to their splits, and documents are returned in the order of their best split.
\<close>

section \<open>Requests\<close>

datatype search_mode = SplitOnly | SummaryOnly | SplitAndSummary

record document_query_request =
  dq_input :: ustring
  dq_model :: ustring
  dq_search_mode :: "search_mode option"
  dq_top_k :: "i32 option"
  dq_workspace_ids :: "uuid list"
  dq_doc_ids :: "u64 list"
  dq_rerank :: "bool option"
  dq_verbose :: "bool option"

datatype query_error = Storage error | Service service_error

definition unwrap_or :: "'a option \<Rightarrow> 'a \<Rightarrow> 'a" where
  "unwrap_or o' d = (case o' of None \<Rightarrow> d | Some x \<Rightarrow> x)"

text \<open>\<open>as usize\<close> extends the sign: a negative count is a huge one.\<close>

definition usize_of_i32 :: "i32 \<Rightarrow> nat" where
  "usize_of_i32 k = unat (scast k :: usize)"

definition query_top_k :: "document_query_request \<Rightarrow> nat" where
  "query_top_k req = usize_of_i32 (unwrap_or (dq_top_k req) 5)"

definition doc_filter_of :: "document_query_request \<Rightarrow> u64 fset option" where
  "doc_filter_of req = (if dq_doc_ids req = [] then None else Some (fset_of_list (dq_doc_ids req)))"

definition storage :: "error + 'a \<Rightarrow> query_error + 'a" where
  "storage r = (case r of Inl e \<Rightarrow> Inl (Storage e) | Inr x \<Rightarrow> Inr x)"

definition service :: "service_error + 'a \<Rightarrow> query_error + 'a" where
  "service r = (case r of Inl e \<Rightarrow> Inl (Service e) | Inr x \<Rightarrow> Inr x)"

section \<open>The cut over all shards\<close>

type_synonym hits = "(u64, f32) index_map"

definition all_hits :: "hits list \<Rightarrow> (nat \<times> u64 \<times> f32) list" where
  "all_hits per_shard = concat (map (\<lambda>(i, hs). map (\<lambda>(k, d). (i, k, d)) hs) (enumerate 0 per_shard))"

definition hit_distance :: "nat \<times> u64 \<times> f32 \<Rightarrow> f32" where
  "hit_distance h = snd (snd h)"

definition nearest :: "hits list \<Rightarrow> nat \<Rightarrow> (nat \<times> u64 \<times> f32) list" where
  "nearest per_shard top_k =
     take top_k (sort_by (\<lambda>a b. near_le (hit_distance a) (hit_distance b)) (all_hits per_shard))"

definition retain_hits :: "(nat \<times> u64 \<times> f32) list \<Rightarrow> nat \<Rightarrow> hits \<Rightarrow> hits" where
  "retain_hits kept i hs = filter (\<lambda>(k, d). (i, k) \<in> (\<lambda>(j, m, e). (j, m)) ` set kept) hs"

definition keep_nearest :: "hits list \<Rightarrow> nat \<Rightarrow> hits list" where
  "keep_nearest per_shard top_k =
     (if sum_list (map length per_shard) \<le> top_k then per_shard
      else map (\<lambda>(i, hs). retain_hits (nearest per_shard top_k) i hs) (enumerate 0 per_shard))"

section \<open>Reranking\<close>

text \<open>\<open>req_uuid\<close> is the text of the random UUID whose hash names the socket.\<close>

definition rerank_summaries :: "processing_context \<Rightarrow> ustring \<Rightarrow> ustring \<Rightarrow> summary_dto list
    \<Rightarrow> service_error + summary_dto list" where
  "rerank_summaries ctx req_uuid query all_summaries =
     bindR (get_rerankings ctx query (map ud_text_content all_summaries) (pc_hasher ctx req_uuid)) (\<lambda>ranks.
     let rerank_map = im_collect (map (\<lambda>r. (rk_index r, r)) ranks) in
     Inr (List.map_filter (\<lambda>(idx, u). map_option (\<lambda>r. u\<lparr>ud_rank := Some r\<rparr>) (im_get rerank_map (word_of_nat idx)))
            (enumerate 0 all_summaries)))"

definition maybe_rerank :: "processing_context \<Rightarrow> (summary_dto list \<Rightarrow> ustring) \<Rightarrow> document_query_request
    \<Rightarrow> summary_dto list \<Rightarrow> query_error + summary_dto list" where
  "maybe_rerank ctx uuids req us =
     (if unwrap_or (dq_rerank req) False \<and> us \<noteq> []
      then service (rerank_summaries ctx (uuids us) (dq_input req) us) else Inr us)"

section \<open>The answers of one shard\<close>

definition im_push :: "'k \<Rightarrow> 'v \<Rightarrow> ('k, 'v list) index_map \<Rightarrow> ('k, 'v list) index_map" where
  "im_push k v m = im_insert k ((case im_get m k of None \<Rightarrow> [] | Some vs \<Rightarrow> vs) @ [v]) m"

definition group_summaries :: "summary_dto list \<Rightarrow> (u64, summary_dto list) index_map" where
  "group_summaries us = fold (\<lambda>u. im_push (ud_split_id u) u) us []"

definition least_distance :: "summary_dto list \<Rightarrow> f32" where
  "least_distance us = foldl f32_min f32_infinity (List.map_filter ud_query_distance us)"

definition splits_min_distances :: "(u64, summary_dto list) index_map \<Rightarrow> hits \<Rightarrow> hits" where
  "splits_min_distances split_summary_map split_hits =
     sort_by (\<lambda>a b. near_le (snd a) (snd b))
       (im_extend split_hits (im_collect (map (\<lambda>(i, us). (i, least_distance us)) split_summary_map)))"

text \<open>A document takes the distance of the first of its splits.\<close>

definition add_doc_split :: "hits \<Rightarrow> split_dto \<Rightarrow> (u64, f32 \<times> split_dto list) index_map
    \<Rightarrow> (u64, f32 \<times> split_dto list) index_map" where
  "add_doc_split distances sp m =
     (let d = unwrap_or (im_get distances (sd_split_id sp)) f32_infinity;
          (d', ss) = unwrap_or (im_get m (sd_doc_id sp)) (d, []) in
      im_insert (sd_doc_id sp) (d', ss @ [sp]) m)"

definition group_splits :: "hits \<Rightarrow> split_dto list \<Rightarrow> (u64, f32 \<times> split_dto list) index_map" where
  "group_splits distances ss = fold (add_doc_split distances) ss []"

text \<open>A document that is gone is passed over.\<close>

definition answer_of :: "env \<Rightarrow> processing_context \<Rightarrow> (summary_dto list \<Rightarrow> ustring) \<Rightarrow> document_query_request
    \<Rightarrow> store \<Rightarrow> world \<Rightarrow> u64 \<times> f32 \<times> split_dto list \<Rightarrow> query_error + (f32 \<times> document_dto) option" where
  "answer_of E ctx uuids req s w = (\<lambda>(doc_id, d, ss).
     bindR (storage (load_doc E s w doc_id ss (unwrap_or (dq_verbose req) False))) (\<lambda>r. case r of
       None \<Rightarrow> Inr None
     | Some document \<Rightarrow>
         (case dd_summaries document of
            None \<Rightarrow> Inr (Some (d, document))
          | Some us \<Rightarrow> bindR (maybe_rerank ctx uuids req us) (\<lambda>us'.
              Inr (Some (d, document\<lparr>dd_summaries := Some us'\<rparr>))))))"

definition answers_of :: "env \<Rightarrow> processing_context \<Rightarrow> (summary_dto list \<Rightarrow> ustring) \<Rightarrow> document_query_request
    \<Rightarrow> store \<Rightarrow> world \<Rightarrow> hits \<Rightarrow> hits \<Rightarrow> query_error + (f32 \<times> document_dto) list" where
  "answers_of E ctx uuids req s w summary_hits split_hits =
     (let with_embeddings = unwrap_or (dq_verbose req) False in
      bindR (storage (load_summaries E s w (im_keys summary_hits) (Some summary_hits) with_embeddings)) (\<lambda>loaded.
      bindR (maybe_rerank ctx uuids req loaded) (\<lambda>all_summaries.
      let split_summary_map = group_summaries all_summaries;
          distances = splits_min_distances split_summary_map split_hits in
      bindR (storage (load_splits E s w (im_keys distances) (Some split_hits) (Some split_summary_map) with_embeddings))
        (\<lambda>ss. bindR (mapR (answer_of E ctx uuids req s w) (group_splits distances ss)) (\<lambda>answers.
      Inr (List.map_filter (\<lambda>a. a) answers))))))"

section \<open>The query\<close>

text \<open>A shard in use, read without changing it.\<close>

definition read_shard :: "'x penv \<Rightarrow> 'x pool \<Rightarrow> nat \<Rightarrow> ('x shard \<Rightarrow> world \<Rightarrow> query_error + 'a) \<Rightarrow> query_error + 'a" where
  "read_shard P p a f =
     (case allocation_of p a of
        None \<Rightarrow> Inl (Storage Panicked)
      | Some l \<Rightarrow> f (lv_shard l) (dir_world P p (lv_workspace l)))"

definition searched :: "(search_mode \<Rightarrow> bool) \<Rightarrow> document_query_request \<Rightarrow> nat list \<Rightarrow> (nat \<Rightarrow> query_error + hits)
    \<Rightarrow> query_error + hits list" where
  "searched wanted req shards search =
     (if wanted (unwrap_or (dq_search_mode req) SplitAndSummary)
      then bindR (mapR search shards) (\<lambda>hs. Inr (keep_nearest hs (query_top_k req)))
      else Inr (map (\<lambda>_. []) shards))"

definition query_shards :: "'x penv \<Rightarrow> processing_context \<Rightarrow> (summary_dto list \<Rightarrow> ustring) \<Rightarrow> document_query_request
    \<Rightarrow> f32 list \<Rightarrow> nat list \<Rightarrow> 'x pool \<Rightarrow> query_error + document_dto list" where
  "query_shards P ctx uuids req query shards p =
     (let S = pe_shard P; E = se_env S; top_k = query_top_k req; doc_filter = doc_filter_of req in
      bindR (searched (\<lambda>m. m = SummaryOnly \<or> m = SplitAndSummary) req shards
               (\<lambda>a. read_shard P p a (\<lambda>sh w. storage (search_summaries S sh w query top_k doc_filter)))) (\<lambda>summary_hits.
      bindR (searched (\<lambda>m. m = SplitOnly \<or> m = SplitAndSummary) req shards
               (\<lambda>a. read_shard P p a (\<lambda>sh w. storage (search_splits S sh w query top_k doc_filter)))) (\<lambda>split_hits.
      bindR (mapR (\<lambda>(a, us, ss). read_shard P p a (\<lambda>sh w. answers_of E ctx uuids req (in_store (sh_inner sh)) w us ss))
               (zip shards (zip summary_hits split_hits))) (\<lambda>answers.
      Inr (map snd (sort_by (\<lambda>a b. near_le (fst a) (fst b)) (concat answers)))))))"

text \<open>The references taken on the way are dropped on every way out.\<close>

fun get_shards :: "'x penv \<Rightarrow> uuid list \<Rightarrow> nat list \<Rightarrow> 'x pool \<Rightarrow> (error option \<times> nat list) \<times> 'x pool" where
  "get_shards P [] shards p = ((None, shards), p)"
| "get_shards P (ws # wss) shards p =
     (case get_existing P ws p of
        (Inl e, q) \<Rightarrow> ((Some e, shards), q)
      | (Inr None, q) \<Rightarrow> get_shards P wss shards q
      | (Inr (Some a), q) \<Rightarrow> get_shards P wss (shards @ [a]) q)"

definition run_query :: "'x penv \<Rightarrow> processing_context \<Rightarrow> (summary_dto list \<Rightarrow> ustring) \<Rightarrow> document_query_request
    \<Rightarrow> f32 list \<Rightarrow> (query_error, 'x pool, document_dto list) op" where
  "run_query P ctx uuids req query = (\<lambda>p.
     case get_shards P (dq_workspace_ids req) [] p of
       ((failed, shards), q) \<Rightarrow>
         (case failed of
            Some e \<Rightarrow> Inl (Storage e)
          | None \<Rightarrow> query_shards P ctx uuids req query shards q,
          fold drop_arc shards q))"

end
