(* ===== verification/Server.thy ===== *)
theory Server
  imports Query
begin

text \<open>
  The server's workers (\<open>embedding-server/src/zmq/server_worker.rs\<close>, the handlers of
  \<open>embedding-server/src/api\<close>, the messages of \<open>embedding-server/src/schema\<close> and the responses of
  \<open>utils/zmq_utils.rs\<close>). A handler takes a header, a body and the pool, and returns what it sent
  with the pool it left. A message text is the case it reports, with the error it prints; a panic
  ends the worker.
\<close>

section \<open>Messages\<close>

datatype message_type =
  DocumentInsertion | DocumentQuery | DocumentRetrieval | DocumentDeletion | Rerank | HealthCheck | Unknown

datatype message_status = StatusSuccess | StatusError

datatype insertion_status = InsertionSuccess | InsertionError

datatype retrieval_status = RetrievalSuccess | RetrievalNotFound | RetrievalError

datatype deletion_status = DeletionSuccess | DeletionNotFound | DeletionError

text \<open>The numbers the enums are serialised as.\<close>

fun message_type_repr :: "message_type \<Rightarrow> u8" where
  "message_type_repr DocumentInsertion = 1"
| "message_type_repr DocumentQuery = 2"
| "message_type_repr DocumentRetrieval = 3"
| "message_type_repr DocumentDeletion = 6"
| "message_type_repr Rerank = 7"
| "message_type_repr HealthCheck = 9"
| "message_type_repr Unknown = 10"

fun message_type_of :: "u8 \<Rightarrow> message_type option" where
  "message_type_of n =
     (if n = 1 then Some DocumentInsertion else if n = 2 then Some DocumentQuery
      else if n = 3 then Some DocumentRetrieval else if n = 6 then Some DocumentDeletion
      else if n = 7 then Some Rerank else if n = 9 then Some HealthCheck
      else if n = 10 then Some Unknown else None)"

datatype server_error =
    BadHeader
  | NoBody message_type
  | Unrecognized message_type
  | BadBody message_type
  | ProcessingDocument service_error
  | ProcessingQuery service_error
  | OpeningShard uuid error
  | SavingDocument error
  | StoredNotDurable error
  | DeletedNotDurable error
  | DeletingDocument error
  | RetrievingDocument error
  | NoWorkspace message_type
  | NoDocument
  | QueryFailure query_error
  | RerankFailure service_error
  | OtherError ustring

record message_header =
  mh_message_id :: uuid
  mh_message_type :: message_type
  mh_status :: "message_status option"
  mh_error_code :: "i32 option"
  mh_error_message :: "server_error option"
  mh_request_ts :: u64
  mh_response_ts :: "u64 option"

definition header_new :: "uuid \<Rightarrow> u64 \<Rightarrow> message_type \<Rightarrow> message_header" where
  "header_new fresh now t = \<lparr> mh_message_id = fresh, mh_message_type = t, mh_status = None,
     mh_error_code = None, mh_error_message = None, mh_request_ts = now, mh_response_ts = None \<rparr>"

definition set_message_type :: "message_type \<Rightarrow> message_header \<Rightarrow> message_header" where
  "set_message_type t h = h\<lparr>mh_message_type := t\<rparr>"

definition set_message_id :: "uuid \<Rightarrow> message_header \<Rightarrow> message_header" where
  "set_message_id i h = h\<lparr>mh_message_id := i\<rparr>"

definition set_status :: "message_status \<Rightarrow> message_header \<Rightarrow> message_header" where
  "set_status s h = h\<lparr>mh_status := Some s\<rparr>"

definition set_error :: "server_error option \<Rightarrow> i32 option \<Rightarrow> message_header \<Rightarrow> message_header" where
  "set_error m c h = (set_status StatusError h)\<lparr>mh_error_message := m, mh_error_code := c\<rparr>"

definition set_response_ts :: "u64 \<Rightarrow> message_header \<Rightarrow> message_header" where
  "set_response_ts now h = h\<lparr>mh_response_ts := Some now\<rparr>"

record insertion_request =
  ir_input :: ustring
  ir_model :: ustring
  ir_workspace_id :: uuid
  ir_doc_url :: ustring
  ir_verbose :: "bool option"

record insertion_response =
  ip_status :: insertion_status
  ip_document :: "document_dto option"

record retrieval_request =
  rq_document_id :: "u64 option"
  rq_document_url :: "ustring option"
  rq_user :: "uuid option"
  rq_verbose :: "bool option"

record retrieval_response =
  rp_status :: retrieval_status
  rp_document :: "document_dto option"

record deletion_request =
  xr_document_id :: u64
  xr_user :: "uuid option"

record query_response =
  qp_documents :: "document_dto list"
  qp_model :: "ustring option"
  qp_query_embeddings :: "f32 list option"

record health_response =
  hp_status :: ustring
  hp_host :: "ustring \<times> u16"
  hp_worker_count :: nat

datatype response =
    Inserted insertion_response
  | Retrieved retrieval_response
  | Deleted deletion_status
  | Queried query_response
  | Reranked rerank_response
  | Healthy health_response

section \<open>Sending\<close>

text \<open>
  What the workers take from elsewhere: the unpacking of each message, whether an answer packs,
  the clock, fresh UUIDs, and the host and worker count of the configuration.
\<close>

record server_env =
  sv_header :: "bytes \<Rightarrow> message_header option"
  sv_insertion :: "bytes \<Rightarrow> insertion_request option"
  sv_query :: "bytes \<Rightarrow> document_query_request option"
  sv_retrieval :: "bytes \<Rightarrow> retrieval_request option"
  sv_deletion :: "bytes \<Rightarrow> deletion_request option"
  sv_rerank :: "bytes \<Rightarrow> rerank_request option"
  sv_packs :: "message_header \<Rightarrow> response option \<Rightarrow> bool"
  sv_now :: u64
  sv_fresh :: uuid
  sv_req_uuid :: "summary_dto list \<Rightarrow> ustring"
  sv_host :: ustring
  sv_frontend_port :: u16
  sv_num_workers :: nat

text \<open>\<open>Sent\<close>: the header, and the body of a success. \<open>Silent\<close>: the answer did not pack.\<close>

datatype outcome = Sent message_header "response option" | Silent | Died

definition send_exception :: "server_env \<Rightarrow> server_error \<Rightarrow> message_header \<Rightarrow> outcome" where
  "send_exception V e h =
     (let h' = set_error (Some e) None h in if sv_packs V h' None then Sent h' None else Silent)"

definition send_success :: "server_env \<Rightarrow> response \<Rightarrow> message_header \<Rightarrow> outcome" where
  "send_success V r h =
     (let h' = set_response_ts (sv_now V) (set_status StatusSuccess h) in
      if sv_packs V h' (Some r) then Sent h' (Some r) else Silent)"

definition handle_error_and_respond :: "server_env \<Rightarrow> server_error \<Rightarrow> message_type \<Rightarrow> outcome" where
  "handle_error_and_respond V e t =
     send_exception V e (set_error (Some e) None (header_new (sv_fresh V) (sv_now V) t))"

text \<open>An operation that panicked has no error to report.\<close>

definition storage_failed :: "server_env \<Rightarrow> (error \<Rightarrow> server_error) \<Rightarrow> error \<Rightarrow> message_header \<Rightarrow> outcome" where
  "storage_failed V report e h = (if e = Panicked then Died else send_exception V (report e) h)"

definition service_failed :: "server_env \<Rightarrow> (service_error \<Rightarrow> server_error) \<Rightarrow> service_error \<Rightarrow> message_header \<Rightarrow> outcome" where
  "service_failed V report e h = (if e = ServicePanic then Died else send_exception V (report e) h)"

definition query_failed :: "server_env \<Rightarrow> query_error \<Rightarrow> message_header \<Rightarrow> outcome" where
  "query_failed V e h =
     (case e of
        Storage e' \<Rightarrow> storage_failed V (\<lambda>x. QueryFailure (Storage x)) e' h
      | Service e' \<Rightarrow> service_failed V (\<lambda>x. QueryFailure (Service x)) e' h)"

section \<open>Insertion\<close>

text \<open>The shard of a handler is referenced until the handler returns.\<close>

definition save_document :: "'x penv \<Rightarrow> bool \<Rightarrow> nat \<Rightarrow> document_dto \<Rightarrow> ((error \<Rightarrow> server_error) \<times> error, 'x pool, unit) op" where
  "save_document P sync_on_write a dto = (\<lambda>p.
     case on_shard P a (shard_insert (pe_shard P) dto) p of
       (Inl e, q) \<Rightarrow> (Inl (SavingDocument, e), q)
     | (Inr _, q) \<Rightarrow>
         if \<not> sync_on_write then (Inr (), q)
         else case on_shard P a shard_fsync q of
           (Inl e, u) \<Rightarrow> (Inl (StoredNotDurable, e), u)
         | (Inr _, u) \<Rightarrow> (Inr (), u))"

definition insertion_response_of :: "insertion_request \<Rightarrow> document_dto \<Rightarrow> response" where
  "insertion_response_of req dto = Inserted \<lparr> ip_status = InsertionSuccess,
     ip_document = (if unwrap_or (ir_verbose req) False then Some dto else None) \<rparr>"

definition document_insertion :: "server_env \<Rightarrow> 'x penv \<Rightarrow> processing_context \<Rightarrow> bool \<Rightarrow> message_header \<Rightarrow> bytes
    \<Rightarrow> 'x pool \<Rightarrow> outcome \<times> 'x pool" where
  "document_insertion V P ctx sync_on_write h body p =
     (case sv_insertion V body of
        None \<Rightarrow> (send_exception V (BadBody DocumentInsertion) h, p)
      | Some req \<Rightarrow>
          (case process_document ctx (ir_doc_url req) (ir_input req) of
             Inl e \<Rightarrow> (service_failed V ProcessingDocument e h, p)
           | Inr dto \<Rightarrow>
               (case pool_get P (ir_workspace_id req) p of
                  (Inl e, q) \<Rightarrow> (storage_failed V (OpeningShard (ir_workspace_id req)) e h, q)
                | (Inr a, q) \<Rightarrow>
                    (case save_document P sync_on_write a dto q of
                       (Inl (report, e), u) \<Rightarrow> (storage_failed V report e h, drop_arc a u)
                     | (Inr _, u) \<Rightarrow> (send_success V (insertion_response_of req dto) h, drop_arc a u)))))"

section \<open>Deletion\<close>

definition delete_document :: "'x penv \<Rightarrow> bool \<Rightarrow> nat \<Rightarrow> u64 \<Rightarrow> ((error \<Rightarrow> server_error) \<times> error, 'x pool, bool) op" where
  "delete_document P sync_on_write a doc_id = (\<lambda>p.
     case on_shard P a (shard_delete (pe_shard P) doc_id) p of
       (Inl e, q) \<Rightarrow> (Inl (DeletingDocument, e), q)
     | (Inr removed, q) \<Rightarrow>
         if removed \<and> sync_on_write
         then (case on_shard P a shard_fsync q of
                 (Inl e, u) \<Rightarrow> (Inl (DeletedNotDurable, e), u)
               | (Inr _, u) \<Rightarrow> (Inr removed, u))
         else (Inr removed, q))"

definition deletion_response_of :: "bool \<Rightarrow> response" where
  "deletion_response_of removed = Deleted (if removed then DeletionSuccess else DeletionNotFound)"

definition document_deletion :: "server_env \<Rightarrow> 'x penv \<Rightarrow> bool \<Rightarrow> message_header \<Rightarrow> bytes
    \<Rightarrow> 'x pool \<Rightarrow> outcome \<times> 'x pool" where
  "document_deletion V P sync_on_write h body p =
     (case sv_deletion V body of
        None \<Rightarrow> (send_exception V (BadBody DocumentDeletion) h, p)
      | Some req \<Rightarrow>
          (case xr_user req of
             None \<Rightarrow> (send_exception V (NoWorkspace DocumentDeletion) h, p)
           | Some workspace_id \<Rightarrow>
               (case get_existing P workspace_id p of
                  (Inr None, q) \<Rightarrow> (send_success V (deletion_response_of False) h, q)
                | (Inl e, q) \<Rightarrow> (storage_failed V (OpeningShard workspace_id) e h, q)
                | (Inr (Some a), q) \<Rightarrow>
                    (case delete_document P sync_on_write a (xr_document_id req) q of
                       (Inl (report, e), u) \<Rightarrow> (storage_failed V report e h, drop_arc a u)
                     | (Inr removed, u) \<Rightarrow> (send_success V (deletion_response_of removed) h, drop_arc a u)))))"

section \<open>Retrieval\<close>

text \<open>No id, or the id 0, stands for the hash of the url.\<close>

definition retrieval_id :: "(ustring \<Rightarrow> u64) \<Rightarrow> retrieval_request \<Rightarrow> u64" where
  "retrieval_id hasher req =
     (let i = unwrap_or (rq_document_id req) 0 in
      if i = 0 then hasher (unwrap_or (rq_document_url req) []) else i)"

definition retrieval_response_of :: "document_dto option \<Rightarrow> response" where
  "retrieval_response_of document = Retrieved (case document of
     Some doc \<Rightarrow> \<lparr> rp_status = RetrievalSuccess, rp_document = Some doc \<rparr>
   | None \<Rightarrow> \<lparr> rp_status = RetrievalError, rp_document = None \<rparr>)"

definition document_retrieval :: "server_env \<Rightarrow> 'x penv \<Rightarrow> (ustring \<Rightarrow> u64) \<Rightarrow> message_header \<Rightarrow> bytes
    \<Rightarrow> 'x pool \<Rightarrow> outcome \<times> 'x pool" where
  "document_retrieval V P hasher h body p =
     (case sv_retrieval V body of
        None \<Rightarrow> (send_exception V (BadBody DocumentRetrieval) h, p)
      | Some req \<Rightarrow>
          (case rq_user req of
             None \<Rightarrow> (send_exception V (NoWorkspace DocumentRetrieval) h, p)
           | Some workspace_id \<Rightarrow>
               if rq_document_id req = None \<and> rq_document_url req = None
               then (send_exception V NoDocument h, p)
               else case get_existing P workspace_id p of
                 (Inr None, q) \<Rightarrow> (send_success V (retrieval_response_of None) h, q)
               | (Inl e, q) \<Rightarrow> (storage_failed V (OpeningShard workspace_id) e h, q)
               | (Inr (Some a), q) \<Rightarrow>
                   (case read_shard P q a (\<lambda>sh w. storage (get_doc (se_env (pe_shard P)) (in_store (sh_inner sh)) w
                        (retrieval_id hasher req) (unwrap_or (rq_verbose req) False))) of
                      Inr doc \<Rightarrow> (send_success V (retrieval_response_of doc) h, drop_arc a q)
                    | Inl (Storage e) \<Rightarrow> (storage_failed V RetrievingDocument e h, drop_arc a q)
                    | Inl (Service e) \<Rightarrow> (Died, drop_arc a q))))"

section \<open>Query, reranking and health\<close>

definition query_response_of :: "document_query_request \<Rightarrow> document_dto list \<Rightarrow> f32 list \<Rightarrow> response" where
  "query_response_of req documents query_embeddings = Queried \<lparr> qp_documents = documents,
     qp_model = Some (dq_model req),
     qp_query_embeddings = (if unwrap_or (dq_verbose req) False then Some query_embeddings else None) \<rparr>"

definition document_query :: "server_env \<Rightarrow> 'x penv \<Rightarrow> processing_context \<Rightarrow> message_header \<Rightarrow> bytes
    \<Rightarrow> 'x pool \<Rightarrow> outcome \<times> 'x pool" where
  "document_query V P ctx h body p =
     (case sv_query V body of
        None \<Rightarrow> (send_exception V (BadBody DocumentQuery) h, p)
      | Some req \<Rightarrow>
          (case process_query ctx (dq_input req) of
             Inl e \<Rightarrow> (service_failed V ProcessingQuery e h, p)
           | Inr query_embeddings \<Rightarrow>
               (case run_query P ctx (sv_req_uuid V) req query_embeddings p of
                  (Inl e, q) \<Rightarrow> (query_failed V e h, q)
                | (Inr documents, q) \<Rightarrow> (send_success V (query_response_of req documents query_embeddings) h, q))))"

text \<open>The texts are put back by index; an index out of range panics.\<close>

definition with_texts :: "rerank_request \<Rightarrow> rank list \<Rightarrow> rank list option" where
  "with_texts req ranks =
     (if \<not> rr_return_text req then Some ranks
      else if \<forall>r \<in> set ranks. unat (rk_index r) < length (rr_texts req)
      then Some (map (\<lambda>r. r\<lparr>rk_text := Some (rr_texts req ! unat (rk_index r))\<rparr>) ranks) else None)"

definition process_rerank :: "server_env \<Rightarrow> processing_context \<Rightarrow> message_header \<Rightarrow> bytes \<Rightarrow> outcome" where
  "process_rerank V ctx h body =
     (case sv_rerank V body of
        None \<Rightarrow> send_exception V (BadBody Rerank) h
      | Some req \<Rightarrow>
          (case get_rerankings ctx (rr_query req) (rr_texts req) (pc_hasher ctx (sv_req_uuid V [])) of
             Inl e \<Rightarrow> service_failed V RerankFailure e h
           | Inr ranks \<Rightarrow>
               (case with_texts req ranks of
                  None \<Rightarrow> Died
                | Some ranks' \<Rightarrow>
                    send_success V (Reranked \<lparr> rs_model_id = None, rs_ranks = ranks', rs_error = None \<rparr>) h)))"

definition health_check :: "server_env \<Rightarrow> message_header \<Rightarrow> outcome" where
  "health_check V h =
     send_success V (Healthy \<lparr> hp_status = [79, 75], hp_host = (sv_host V, sv_frontend_port V),
       hp_worker_count = sv_num_workers V \<rparr>) h"

section \<open>The worker\<close>

definition handle_request :: "server_env \<Rightarrow> 'x penv \<Rightarrow> processing_context \<Rightarrow> bool \<Rightarrow> message_header \<Rightarrow> bytes
    \<Rightarrow> 'x pool \<Rightarrow> outcome \<times> 'x pool" where
  "handle_request V P ctx sync_on_write h body p =
     (case mh_message_type h of
        DocumentInsertion \<Rightarrow> document_insertion V P ctx sync_on_write h body p
      | DocumentQuery \<Rightarrow> document_query V P ctx h body p
      | DocumentRetrieval \<Rightarrow> document_retrieval V P (pc_hasher ctx) h body p
      | DocumentDeletion \<Rightarrow> document_deletion V P sync_on_write h body p
      | Rerank \<Rightarrow> (process_rerank V ctx h body, p)
      | t \<Rightarrow> (handle_error_and_respond V (Unrecognized t) t, p))"

text \<open>The frames after the identity: a missing header panics.\<close>

definition handle_message :: "server_env \<Rightarrow> 'x penv \<Rightarrow> processing_context \<Rightarrow> bool \<Rightarrow> bytes list
    \<Rightarrow> 'x pool \<Rightarrow> outcome \<times> 'x pool" where
  "handle_message V P ctx sync_on_write frames p =
     (case frames of
        [] \<Rightarrow> (Died, p)
      | header # rest \<Rightarrow>
          (case sv_header V header of
             None \<Rightarrow> (handle_error_and_respond V BadHeader Unknown, p)
           | Some h \<Rightarrow>
               if mh_message_type h = HealthCheck then (health_check V h, p)
               else (case rest of
                       [] \<Rightarrow> (handle_error_and_respond V (NoBody (mh_message_type h)) (mh_message_type h), p)
                     | body # _ \<Rightarrow> handle_request V P ctx sync_on_write h body p)))"

text \<open>A worker's messages, each with the environment of its time, until one kills it.\<close>

fun worker_routine :: "'x penv \<Rightarrow> processing_context \<Rightarrow> bool \<Rightarrow> (server_env \<times> bytes list) list
    \<Rightarrow> 'x pool \<Rightarrow> outcome list \<times> 'x pool" where
  "worker_routine P ctx sync_on_write [] p = ([], p)"
| "worker_routine P ctx sync_on_write ((V, frames) # ms) p =
     (case handle_message V P ctx sync_on_write frames p of
        (r, q) \<Rightarrow>
          if r = Died then ([Died], q)
          else case worker_routine P ctx sync_on_write ms q of (rs, u) \<Rightarrow> (r # rs, u))"

end
