(* ===== verification/Maintenance.thy ===== *)
theory Maintenance
  imports Server
begin

text \<open>
  The storage settings (\<open>embedding-common/src/config/storage_config.rs\<close>), the housekeeping they
  drive (\<open>embedding-server/src/maintenance.rs\<close>) and the way \<open>main\<close> puts pool, workers and timer
  together. Times are milliseconds; the clock is an argument.
\<close>

section \<open>Settings\<close>

record storage_config =
  sc_dir :: ustring
  sc_memory_budget_mb :: usize
  sc_fsync_interval_ms :: u64
  sc_snapshot_interval_s :: u64
  sc_segment_max_mb :: u64
  sc_compact_ratio :: f64

definition default_storage_config :: storage_config where
  "default_storage_config = \<lparr> sc_dir = [115, 116, 111, 114, 97, 103, 101], sc_memory_budget_mb = 4096,
     sc_fsync_interval_ms = 1000, sc_snapshot_interval_s = 300, sc_segment_max_mb = 256,
     sc_compact_ratio = 0x3FD3333333333333 \<rparr>"

datatype config_error =
  EmptyDir | NoMemoryBudget | NoSegmentSize | NoSnapshotInterval | CompactRatio f64

text \<open>\<open>get_directory\<close>: a relative directory is taken from the working directory, when there is one.\<close>

definition get_directory :: "ustring option \<Rightarrow> ustring \<Rightarrow> ustring option" where
  "get_directory cur_dir sub_dir =
     map_option (\<lambda>cwd.
       if sub_dir \<noteq> [] \<and> hd sub_dir = 47 then sub_dir
       else if cwd \<noteq> [] \<and> last cwd = 47 then cwd @ sub_dir
       else cwd @ 47 # sub_dir) cur_dir"

definition storage_dir :: "ustring option \<Rightarrow> storage_config \<Rightarrow> ustring option" where
  "storage_dir cur_dir c = get_directory cur_dir (sc_dir c)"

definition saturating_mul :: "u64 \<Rightarrow> nat \<Rightarrow> nat" where
  "saturating_mul a k = min (2 ^ 64 - 1) (unat a * k)"

definition memory_budget_bytes :: "storage_config \<Rightarrow> nat" where
  "memory_budget_bytes c = saturating_mul (sc_memory_budget_mb c) (2 ^ 20)"

definition segment_max_bytes :: "storage_config \<Rightarrow> u64" where
  "segment_max_bytes c = word_of_nat (saturating_mul (sc_segment_max_mb c) (2 ^ 20))"

definition fsync_interval :: "storage_config \<Rightarrow> nat option" where
  "fsync_interval c = (if 0 < sc_fsync_interval_ms c then Some (unat (sc_fsync_interval_ms c)) else None)"

definition snapshot_interval :: "storage_config \<Rightarrow> nat" where
  "snapshot_interval c = unat (sc_snapshot_interval_s c) * 1000"

definition validate_config :: "storage_config \<Rightarrow> config_error + unit" where
  "validate_config c =
     (if sc_dir c = [] then Inl EmptyDir
      else if sc_memory_budget_mb c = 0 then Inl NoMemoryBudget
      else if sc_segment_max_mb c = 0 then Inl NoSegmentSize
      else if sc_snapshot_interval_s c = 0 then Inl NoSnapshotInterval
      else if \<not> (f64_gt (sc_compact_ratio c) 0 \<and> f64_ge f64_one (sc_compact_ratio c))
      then Inl (CompactRatio (sc_compact_ratio c))
      else Inr ())"

section \<open>The pass\<close>

record maintenance_policy =
  mp_fsync_interval :: "nat option"
  mp_snapshot_interval :: nat
  mp_compact_ratio :: f64

definition policy_from_config :: "storage_config \<Rightarrow> maintenance_policy" where
  "policy_from_config c = \<lparr> mp_fsync_interval = fsync_interval c,
     mp_snapshot_interval = snapshot_interval c, mp_compact_ratio = sc_compact_ratio c \<rparr>"

definition policy_tick :: "maintenance_policy \<Rightarrow> nat" where
  "policy_tick m = max 50 (min (unwrap_or (mp_fsync_interval m) (mp_snapshot_interval m)) (mp_snapshot_interval m))"

text \<open>A failure is logged and the pass goes on.\<close>

definition logged :: "('e, 's, 'a) op \<Rightarrow> 's \<Rightarrow> 's" where
  "logged m s = snd (m s)"

definition maintenance_pass :: "'x penv \<Rightarrow> maintenance_policy \<Rightarrow> bool \<Rightarrow> 'x pool \<Rightarrow> 'x pool option" where
  "maintenance_pass P policy snapshot_due p =
     (let p1 = (if mp_fsync_interval policy \<noteq> None then logged (fsync_all P) p else p) in
      if \<not> snapshot_due then Some p1
      else let p2 = logged (snapshot_all P) p1;
               p3 = logged (pool_compact_if_needed P (mp_compact_ratio policy)) p2 in
           map_option snd (enforce_budget P p3))"

section \<open>The timer\<close>

text \<open>One turn: the time it wakes up at, and the time it notes after a snapshot.\<close>

definition timer_turn :: "'x penv \<Rightarrow> maintenance_policy \<Rightarrow> nat \<times> nat \<Rightarrow> nat \<times> 'x pool \<Rightarrow> (nat \<times> 'x pool) option" where
  "timer_turn P policy = (\<lambda>(woke, finished) (last_snapshot, p).
     let snapshot_due = mp_snapshot_interval policy \<le> woke - last_snapshot in
     map_option (\<lambda>q. (if snapshot_due then finished else last_snapshot, q))
       (maintenance_pass P policy snapshot_due p))"

fun timer_loop :: "'x penv \<Rightarrow> maintenance_policy \<Rightarrow> (nat \<times> nat) list \<Rightarrow> nat \<times> 'x pool \<Rightarrow> (nat \<times> 'x pool) option" where
  "timer_loop P policy [] s = Some s"
| "timer_loop P policy (t # ts) s = Option.bind (timer_turn P policy t s) (timer_loop P policy ts)"

section \<open>Starting and stopping\<close>

definition parallel_workers :: "nat \<Rightarrow> nat \<Rightarrow> nat" where
  "parallel_workers num_workers max_cores = min (max num_workers 1) max_cores"

definition sync_on_write :: "storage_config \<Rightarrow> bool" where
  "sync_on_write c \<longleftrightarrow> mp_fsync_interval (policy_from_config c) = None"

definition server_pool :: "storage_config \<Rightarrow> u64 \<Rightarrow> index_config \<Rightarrow> config_error + 'x pool" where
  "server_pool c model_id index =
     bindR (validate_config c) (\<lambda>_.
       Inr (with_memory_budget_mb (unat (sc_memory_budget_mb c))
         (pool_new ((shard_options_new model_id index)\<lparr>sho_segment_max_bytes := segment_max_bytes c\<rparr>))))"

text \<open>The handler snapshots what is loaded and exits, whatever came of it.\<close>

definition shutdown_handler :: "'x penv \<Rightarrow> 'x pool \<Rightarrow> 'x pool" where
  "shutdown_handler P p = logged (snapshot_all P) p"

text \<open>
  \<open>await_shutdown\<close>: \<open>claimed i\<close> is the flag and \<open>elapsed i\<close> the clock at the i-th look. After a
  claim it only waits for the handler to end the process.
\<close>

definition SHUTDOWN_CLAIM_TIMEOUT :: nat where
  "SHUTDOWN_CLAIM_TIMEOUT = 2000"

partial_function (option) await_claim :: "(nat \<Rightarrow> bool) \<Rightarrow> (nat \<Rightarrow> nat) \<Rightarrow> nat \<Rightarrow> bool option" where
  "await_claim claimed elapsed i =
     (if claimed i then Some True
      else if SHUTDOWN_CLAIM_TIMEOUT \<le> elapsed i then Some False
      else await_claim claimed elapsed (i + 1))"

definition await_shutdown :: "(nat \<Rightarrow> bool) \<Rightarrow> (nat \<Rightarrow> nat) \<Rightarrow> bool option" where
  "await_shutdown claimed elapsed = await_claim claimed elapsed 0"

end
