(* ===== verification/Pool_Facts.thy ===== *)
theory Pool_Facts
  imports Pool Step_Rel
begin

text \<open>
  The pool's invariant: the live shards are exactly those in the map, one per workspace, each on
  its own directory. Every operation keeps it. The budget loop ends, whatever the shards do, and
  when it ends the pool is within its budget or every shard in it is held or mapped already.
\<close>

section \<open>The invariant\<close>

definition pool_ok :: "'x pool \<Rightarrow> bool" where
  "pool_ok p \<longleftrightarrow>
     (\<forall>ws e. entry_of p ws = Some e \<longrightarrow>
        (\<exists>l. allocation_of p (en_shard e) = Some l \<and> lv_workspace l = ws))
     \<and> (\<forall>a l. allocation_of p a = Some l \<longrightarrow> a < pl_next p
        \<and> (\<exists>e. entry_of p (lv_workspace l) = Some e \<and> en_shard e = a))"

lemma pool_ok_entry:
  assumes "pool_ok p" "entry_of p ws = Some e"
  obtains l where "allocation_of p (en_shard e) = Some l" "lv_workspace l = ws"
proof -
  from assms have "\<exists>l. allocation_of p (en_shard e) = Some l \<and> lv_workspace l = ws"
    unfolding pool_ok_def by blast
  with that show thesis by blast
qed

lemma pool_ok_alloc:
  assumes "pool_ok p" "allocation_of p a = Some l"
  obtains e where "a < pl_next p" "entry_of p (lv_workspace l) = Some e" "en_shard e = a"
proof -
  from assms have "a < pl_next p \<and> (\<exists>e. entry_of p (lv_workspace l) = Some e \<and> en_shard e = a)"
    unfolding pool_ok_def by blast
  with that show thesis by blast
qed

text \<open>Two live shards are never on the same directory.\<close>

lemma pool_ok_one_shard:
  assumes "pool_ok p" "allocation_of p a = Some l" "allocation_of p b = Some k" "lv_workspace l = lv_workspace k"
  shows "a = b"
proof -
  obtain e where "entry_of p (lv_workspace l) = Some e" "en_shard e = a" using pool_ok_alloc [OF assms(1,2)] by blast
  moreover obtain f where "entry_of p (lv_workspace k) = Some f" "en_shard f = b" using pool_ok_alloc [OF assms(1,3)] by blast
  ultimately show ?thesis using assms(4) by simp
qed

text \<open>What all steps but opening and closing leave alone: which allocation each workspace has.\<close>

definition same_shards :: "'x pool \<Rightarrow> 'x pool \<Rightarrow> bool" where
  "same_shards p q \<longleftrightarrow>
     (\<forall>ws. map_option en_shard (entry_of q ws) = map_option en_shard (entry_of p ws))
     \<and> (\<forall>a. map_option lv_workspace (allocation_of q a) = map_option lv_workspace (allocation_of p a))
     \<and> pl_next q = pl_next p \<and> pl_budget_bytes q = pl_budget_bytes p"

lemma same_shards_refl [simp]: "same_shards p p"
  by (simp add: same_shards_def)

lemma same_shards_trans: "same_shards p q \<Longrightarrow> same_shards q r \<Longrightarrow> same_shards p r"
  by (simp add: same_shards_def)

interpretation sh: step_relation same_shards
  by unfold_locales (auto intro: same_shards_trans)

lemma same_shards_ok:
  assumes "same_shards p q" "pool_ok p"
  shows "pool_ok q"
  unfolding pool_ok_def
proof (intro conjI allI impI)
  note S = assms(1) [unfolded same_shards_def]
  fix ws e assume "entry_of q ws = Some e"
  with S have "map_option en_shard (entry_of p ws) = Some (en_shard e)" by (metis option.simps(9))
  then obtain e' where "entry_of p ws = Some e'" "en_shard e' = en_shard e" by auto
  with pool_ok_entry [OF assms(2)] obtain l where "allocation_of p (en_shard e) = Some l" "lv_workspace l = ws"
    by metis
  with S have "map_option lv_workspace (allocation_of q (en_shard e)) = Some ws" by simp
  then show "\<exists>l. allocation_of q (en_shard e) = Some l \<and> lv_workspace l = ws" by auto
next
  note S = assms(1) [unfolded same_shards_def]
  fix a l assume "allocation_of q a = Some l"
  with S have "map_option lv_workspace (allocation_of p a) = Some (lv_workspace l)" by (metis option.simps(9))
  then obtain l' where "allocation_of p a = Some l'" "lv_workspace l' = lv_workspace l" by auto
  with pool_ok_alloc [OF assms(2)] obtain e where e: "a < pl_next p" "entry_of p (lv_workspace l) = Some e" "en_shard e = a"
    by metis
  then show "a < pl_next q" using S by simp
  from e S have "map_option en_shard (entry_of q (lv_workspace l)) = Some a" by simp
  then show "\<exists>e. entry_of q (lv_workspace l) = Some e \<and> en_shard e = a" by auto
qed

section \<open>Small steps\<close>

lemma entry_of_simps [simp]:
  "entry_of (set_entry ws e p) v = (if v = ws then Some e else entry_of p v)"
  "entry_of (tick_up p) v = entry_of p v"
  "entry_of (p\<lparr>pl_heap := h\<rparr>) v = entry_of p v"
  "entry_of (p\<lparr>pl_dirs := ds\<rparr>) v = entry_of p v"
  "entry_of (p\<lparr>pl_next := n\<rparr>) v = entry_of p v"
  "entry_of (remove_entry ws p) v = (if v = ws then None else entry_of p v)"
  by (simp_all add: entry_of_def set_entry_def tick_up_def remove_entry_def)

lemma allocation_of_simps [simp]:
  "allocation_of (set_entry ws e p) a = allocation_of p a"
  "allocation_of (tick_up p) a = allocation_of p a"
  "allocation_of (p\<lparr>pl_heap := h\<rparr>) a = fmlookup h a"
  "allocation_of (p\<lparr>pl_dirs := ds\<rparr>) a = allocation_of p a"
  "allocation_of (p\<lparr>pl_next := n\<rparr>) a = allocation_of p a"
  "allocation_of (remove_entry ws p) a = allocation_of p a"
  by (simp_all add: allocation_of_def set_entry_def tick_up_def remove_entry_def)

lemma pl_simps [simp]:
  "pl_next (set_entry ws e p) = pl_next p" "pl_next (tick_up p) = pl_next p" "pl_next (remove_entry ws p) = pl_next p"
  "pl_budget_bytes (set_entry ws e p) = pl_budget_bytes p" "pl_budget_bytes (tick_up p) = pl_budget_bytes p"
  "pl_budget_bytes (remove_entry ws p) = pl_budget_bytes p"
  by (simp_all add: set_entry_def tick_up_def remove_entry_def)

lemma map_allocation_simps [simp]:
  "entry_of (map_allocation f a p) v = entry_of p v"
  "pl_next (map_allocation f a p) = pl_next p"
  "pl_budget_bytes (map_allocation f a p) = pl_budget_bytes p"
  "allocation_of (map_allocation f a p) b = (if b = a then map_option f (allocation_of p a) else allocation_of p b)"
  by (auto simp: map_allocation_def allocation_of_def entry_of_def split: option.splits)

lemma same_set_entry:
  "entry_of p ws = Some e \<Longrightarrow> en_shard e' = en_shard e \<Longrightarrow> same_shards p (set_entry ws e' p)"
  by (simp add: same_shards_def)

lemma same_tick_up [simp]: "same_shards p (tick_up p)"
  by (simp add: same_shards_def)

lemma same_map_allocation:
  "(\<And>l. lv_workspace (f l) = lv_workspace l) \<Longrightarrow> same_shards p (map_allocation f a p)"
  by (auto simp: same_shards_def option.map_comp comp_def)

lemma same_clone [simp]: "same_shards p (clone_arc a p)"
  unfolding clone_arc_def by (rule same_map_allocation) simp

lemma in_mapI: "entry_of p ws = Some e \<Longrightarrow> in_map p (en_shard e)"
  unfolding in_map_def entry_of_def by (blast intro: fmran'I)

lemma in_map_cong:
  assumes "\<And>ws. entry_of q ws = entry_of p ws"
  shows "in_map q a = in_map p a"
proof -
  have "pi_shards (pl_inner q) = pi_shards (pl_inner p)"
    by (rule fmap_ext) (use assms in \<open>simp add: entry_of_def\<close>)
  then show ?thesis by (simp add: in_map_def)
qed

lemma same_drop:
  assumes "pool_ok p"
  shows "same_shards p (drop_arc a p)"
proof -
  let ?q = "map_allocation (\<lambda>l. l\<lparr>lv_held := lv_held l - 1\<rparr>) a p"
  have s: "same_shards p ?q" by (rule same_map_allocation) simp
  have "drop_arc a p = ?q"
  proof (cases "allocation_of p a")
    case None
    then have "fmdrop a (pl_heap p) = pl_heap p"
      by (intro fmap_ext) (auto simp: allocation_of_def)
    moreover have "?q = p" using None by (simp add: map_allocation_def)
    ultimately show ?thesis by (cases p) (simp add: drop_arc_def Let_def)
  next
    case (Some l)
    with pool_ok_alloc [OF assms] obtain e where "entry_of p (lv_workspace l) = Some e" "en_shard e = a"
      by metis
    then have "in_map ?q a" using in_mapI [of p] in_map_cong [of ?q p a] by auto
    then show ?thesis by (simp add: drop_arc_def Let_def)
  qed
  with s show ?thesis by simp
qed

lemma same_touch: "same_shards p (snd (touch ws p))"
proof (cases "entry_of p ws")
  case None
  then show ?thesis by (simp add: touch_def Let_def)
next
  case (Some e)
  have "same_shards p (set_entry ws (e\<lparr>en_last_used := pi_tick (pl_inner (tick_up p))\<rparr>) (tick_up p))"
    by (rule same_shards_trans [OF same_tick_up same_set_entry]) (use Some in simp_all)
  with Some show ?thesis by (simp add: touch_def Let_def) (rule same_shards_trans [OF _ same_clone])
qed

lemma same_peek: "keeps same_shards (peek ws)"
proof (rule keepsI)
  fix s r t assume "peek ws s = (r, t)"
  then have "t = snd (touch ws s)" by (auto simp: peek_def split: prod.splits)
  then show "same_shards s t" by (simp add: same_touch)
qed

lemma same_refresh_entry: "same_shards p (refresh_entry P ws p)"
  by (auto simp: refresh_entry_def same_set_entry split: option.splits)

lemma same_refresh_bytes [simp]: "same_shards p (refresh_bytes P p)"
proof -
  have "same_shards p (fold (refresh_entry P) ids p)" for ids and p :: "'a pool"
  proof (induction ids arbitrary: p)
    case (Cons i ids)
    show ?case using same_shards_trans [OF same_refresh_entry Cons] by simp
  qed simp
  then show ?thesis by (simp add: refresh_bytes_def)
qed

lemma same_claim: "keeps same_shards (claim_for_eviction ws)"
  by (rule keepsI) (auto simp: claim_for_eviction_def split: option.splits if_splits)

lemma same_on_shard: "keeps same_shards (on_shard P a m)"
  by (rule keepsI) (auto simp: on_shard_def same_shards_def allocation_of_def [of p for p] entry_of_def [of p for p]
      split: option.splits prod.splits)

lemma same_gates [simp]:
  "same_shards p (take_gate ws p)" "same_shards p (retire_gates p)" "same_shards p (drop_gate ws p)"
  by (simp_all add: same_shards_def take_gate_def retire_gates_def drop_gate_def entry_of_def allocation_of_def
      split: option.splits)

section \<open>The budget loop ends\<close>

text \<open>Along the loop entries keep their shards, and a shard only ever goes from loaded to mapped.\<close>

definition settles :: "'x pool \<Rightarrow> 'x pool \<Rightarrow> bool" where
  "settles p q \<longleftrightarrow>
     (\<forall>ws. map_option en_shard (entry_of q ws) = map_option en_shard (entry_of p ws))
     \<and> (\<forall>a. residency_of q a = residency_of p a \<or> residency_of q a = Viewed)"

interpretation se: step_relation settles
  by unfold_locales (auto simp: settles_def; metis)+

lemma settles_viewed: "settles p q \<Longrightarrow> residency_of p a = Viewed \<Longrightarrow> residency_of q a = Viewed"
  unfolding settles_def by metis

lemma settles_same_heap:
  "pl_heap q = pl_heap p \<Longrightarrow> (\<And>ws. map_option en_shard (entry_of q ws) = map_option en_shard (entry_of p ws))
    \<Longrightarrow> settles p q"
  by (simp add: settles_def residency_of_def allocation_of_def)

lemma settles_map_allocation:
  "(\<And>l. lv_shard (f l) = lv_shard l) \<Longrightarrow> settles p (map_allocation f a p)"
  by (auto simp: settles_def residency_of_def split: option.splits)

lemma settles_drop: "settles p (drop_arc a p)"
proof -
  let ?q = "map_allocation (\<lambda>l. l\<lparr>lv_held := lv_held l - 1\<rparr>) a p"
  have "settles ?q (?q\<lparr>pl_heap := fmdrop a (pl_heap ?q)\<rparr>)"
    by (simp add: settles_def residency_of_def allocation_of_def del: map_allocation_simps)
  moreover have "settles p ?q" by (rule settles_map_allocation) simp
  ultimately show ?thesis
    unfolding drop_arc_def Let_def using se.rel_trans by auto
qed

lemma settles_clone: "settles p (clone_arc a p)"
  unfolding clone_arc_def by (rule settles_map_allocation) simp

lemma settles_refresh_entry: "settles p (refresh_entry P ws p)"
  by (auto simp: refresh_entry_def split: option.splits intro!: settles_same_heap) (simp add: set_entry_def)

lemma settles_refresh_bytes: "settles p (refresh_bytes P p)"
proof -
  have "settles p (fold (refresh_entry P) ids p)" for ids and p :: "'a pool"
  proof (induction ids arbitrary: p)
    case Nil
    show ?case by (simp add: se.rel_refl)
  next
    case (Cons i ids)
    show ?case using se.rel_trans [OF settles_refresh_entry Cons] by simp
  qed
  then show ?thesis by (simp add: refresh_bytes_def)
qed

lemma vi_view_viewed: "vi_view U (i, w) = (Inr u, (j, v)) \<Longrightarrow> vi_viewed j"
  by (auto simp: vi_view_def seqM_Inr set_viewed_def modM_Inr split: option.splits)

lemma demote_view_viewed:
  assumes "demote_view S x = (Inr u, y)"
  shows "shard_residency (fst y) = Viewed"
proof -
  obtain n w where x: "x = (n, w)" by fastforce
  show ?thesis
  proof (cases "vi_is_viewed (in_splits n) \<and> vi_is_viewed (in_summaries n)")
    case True
    with assms x show ?thesis
      by (auto simp: demote_view_def bindM_def getM_def ret_def shard_residency_def)
  next
    case False
    with assms x obtain y1 where 1: "in_index ESplit (vi_view (se_us S)) (n, w) = (Inr (), y1)"
      and 2: "in_index ESummary (vi_view (se_us S)) y1 = (Inr u, y)"
      by (auto simp: demote_view_def bindM_def getM_def seqM_Inr split: if_splits)
    from 2 obtain n1 w1 j v where "y1 = (n1, w1)" "vi_view (se_us S) (index_of ESummary n1, w1) = (Inr u, (j, v))"
      "y = (set_index ESummary j n1, v)"
      by (cases y1) (auto simp: in_index_def zoom_Inr split: prod.splits)
    with vi_view_viewed [of "se_us S" "index_of ESummary n1" w1 u j v] show ?thesis
      by (simp add: set_index_def shard_residency_def vi_is_viewed_def)
  qed
qed

lemma demote_settles:
  assumes "demote P ws a p = (Inr b, q)"
  shows "settles p q" "b \<Longrightarrow> residency_of q a = Viewed" "\<not> b \<Longrightarrow> residency_of p a = Viewed"
proof -
  have "settles p q \<and> (b \<longrightarrow> residency_of q a = Viewed) \<and> (\<not> b \<longrightarrow> residency_of p a = Viewed)"
  proof (cases "residency_of p a = Viewed")
    case True
    with assms have "\<not> b" "q = drop_arc a p" by (simp_all add: demote_def)
    with True settles_drop [of p a] show ?thesis by simp
  next
    case False
    with assms obtain r u where run: "on_shard P a (shard_demote (pe_shard P)) p = (Inr r, u)"
      and q: "b" "q = drop_arc a (refresh_entry P ws u)"
      by (auto simp: demote_def split: prod.splits sum.splits)
    from run obtain l x where l: "allocation_of p a = Some l"
      and x: "shard_demote (pe_shard P) (sh_inner (lv_shard l), dir_world P p (lv_workspace l)) = (Inr r, x)"
      and u: "u = p\<lparr>pl_heap := fmupd a (l\<lparr>lv_shard := (lv_shard l)\<lparr>sh_inner := fst x\<rparr>\<rparr>) (pl_heap p),
            pl_dirs := fmupd (lv_workspace l) (snd x) (pl_dirs p)\<rparr>"
      by (auto simp: on_shard_def split: option.splits prod.splits)
    from x have v: "shard_residency (fst x) = Viewed"
      unfolding shard_demote_def bindM_Inr by (blast dest: demote_view_viewed)
    have ra: "residency_of u a = Viewed" by (simp add: u residency_of_def v)
    have pu: "settles p u"
      using v by (auto simp: u settles_def residency_of_def allocation_of_def [of p] split: option.splits)
    have uq: "settles u q" unfolding q(2) by (rule se.rel_trans [OF settles_refresh_entry settles_drop])
    have "residency_of q a = Viewed" using uq ra by (rule settles_viewed)
    with se.rel_trans [OF pu uq] q(1) show ?thesis by simp
  qed
  then show "settles p q" "b \<Longrightarrow> residency_of q a = Viewed" "\<not> b \<Longrightarrow> residency_of p a = Viewed"
    by blast+
qed

text \<open>What is left to do: two visits for each loaded shard, one for each mapped one, none for one passed over.\<close>

definition visits :: "uuid set \<Rightarrow> 'x pool \<Rightarrow> uuid \<Rightarrow> nat" where
  "visits skip p ws =
     (if ws \<in> skip then 0
      else case entry_of p ws of None \<Rightarrow> 0
           | Some e \<Rightarrow> if residency_of p (en_shard e) = Viewed then 1 else 2)"

definition work_left :: "uuid set \<Rightarrow> 'x pool \<Rightarrow> nat" where
  "work_left skip p = sum (visits skip p) (fset (fmdom (pi_shards (pl_inner p))))"

lemma settles_dom: "settles p q \<Longrightarrow> fmdom (pi_shards (pl_inner q)) = fmdom (pi_shards (pl_inner p))"
  by (auto simp: settles_def entry_of_def fmlookup_dom_iff intro!: fset_eqI) (metis option.map_disc_iff not_None_eq)+

lemma settles_visits: "settles p q \<Longrightarrow> skip \<subseteq> skip' \<Longrightarrow> visits skip' q ws \<le> visits skip p ws"
proof -
  assume s: "settles p q" and k: "skip \<subseteq> skip'"
  show ?thesis
  proof (cases "entry_of p ws")
    case None
    with s have "entry_of q ws = None" unfolding settles_def by (metis option.map_disc_iff)
    then show ?thesis by (simp add: visits_def)
  next
    case (Some e)
    with s obtain f where f: "entry_of q ws = Some f" "en_shard f = en_shard e"
      unfolding settles_def by (metis (no_types, lifting) map_option_eq_Some)
    have "residency_of q (en_shard e) = residency_of p (en_shard e) \<or> residency_of q (en_shard e) = Viewed"
      using s by (simp add: settles_def)
    with f Some k show ?thesis by (auto simp: visits_def)
  qed
qed

lemma work_left_less:
  assumes "settles p q" "skip \<subseteq> skip'" "entry_of p ws = Some e" "visits skip' q ws < visits skip p ws"
  shows "work_left skip' q < work_left skip p"
proof -
  have d: "fset (fmdom (pi_shards (pl_inner q))) = fset (fmdom (pi_shards (pl_inner p)))"
    using settles_dom [OF assms(1)] by simp
  show ?thesis
    unfolding work_left_def d
    by (rule sum_strict_mono_ex1) (use assms settles_visits [OF assms(1,2)] in \<open>auto simp: entry_of_def fmlookup_dom_iff\<close>)
qed

definition older :: "uuid \<times> entry \<Rightarrow> uuid \<times> entry \<Rightarrow> uuid \<times> entry" where
  "older c best = (if en_last_used (snd c) < en_last_used (snd best) then c else best)"

lemma victim_older:
  "victim P skip p =
     (case filter (\<lambda>(ws, e). ws \<notin> skip \<and> strong_count p e = 1) (entries P p) of
        [] \<Rightarrow> None | c # cs \<Rightarrow> Some (fold older cs c))"
  unfolding victim_def older_def ..

lemma older_le: "en_last_used (snd (older c d)) \<le> en_last_used (snd c)" "en_last_used (snd (older c d)) \<le> en_last_used (snd d)"
  by (auto simp: older_def not_less less_imp_le)

lemma older_in: "older c d = c \<or> older c d = d"
  by (simp add: older_def)

lemma fold_older:
  "fold older cs c \<in> insert c (set cs)
    \<and> (\<forall>d \<in> insert c (set cs). en_last_used (snd (fold older cs c)) \<le> en_last_used (snd d))"
proof (induction cs arbitrary: c)
  case (Cons d cs)
  from Cons [of "older d c"] have
    1: "fold older cs (older d c) = older d c \<or> fold older cs (older d c) \<in> set cs"
    and 2: "en_last_used (snd (fold older cs (older d c))) \<le> en_last_used (snd (older d c))"
    and 3: "\<forall>x \<in> set cs. en_last_used (snd (fold older cs (older d c))) \<le> en_last_used (snd x)" by simp_all
  from 1 older_in [of d c] have "fold older cs (older d c) \<in> insert c (set (d # cs))" by auto
  with 3 order_trans [OF 2 older_le(1)] order_trans [OF 2 older_le(2)] show ?case by simp
qed simp

lemma victim_Some:
  assumes "victim P skip p = Some (ws, e)"
  shows "(ws, e) \<in> set (entries P p)" "ws \<notin> skip" "strong_count p e = 1"
    "\<And>v f. (v, f) \<in> set (entries P p) \<Longrightarrow> v \<notin> skip \<Longrightarrow> strong_count p f = 1 \<Longrightarrow> en_last_used e \<le> en_last_used f"
proof -
  let ?cs = "filter (\<lambda>(ws, e). ws \<notin> skip \<and> strong_count p e = 1) (entries P p)"
  obtain c cs where cs: "?cs = c # cs"
    using assms by (cases ?cs) (simp_all add: victim_older)
  then have "(ws, e) = fold older cs c" using assms by (simp add: victim_older)
  with fold_older [of cs c] cs have m: "(ws, e) \<in> set ?cs" and l: "\<forall>d \<in> set ?cs. en_last_used e \<le> en_last_used (snd d)"
    by (metis list.set(2), metis list.set(2) snd_conv)
  from m show "(ws, e) \<in> set (entries P p)" "ws \<notin> skip" "strong_count p e = 1" by auto
  fix v f assume "(v, f) \<in> set (entries P p)" "v \<notin> skip" "strong_count p f = 1"
  then have "(v, f) \<in> set ?cs" by simp
  with l show "en_last_used e \<le> en_last_used f" by fastforce
qed

lemma victim_None:
  "victim P skip p = None \<Longrightarrow> (ws, e) \<in> set (entries P p) \<Longrightarrow> ws \<notin> skip \<Longrightarrow> strong_count p e \<noteq> 1"
  by (auto simp: victim_def filter_empty_conv split: list.splits)

lemma entries_entry: "(ws, e) \<in> set (entries P p) \<Longrightarrow> entry_of p ws = Some e"
  by (auto simp: entries_def List.map_filter_def)

lemma demote_less:
  assumes "demote P ws (en_shard e) (clone_arc (en_shard e) (refresh_bytes P p)) = (Inr b, q)"
    and "entry_of (refresh_bytes P p) ws = Some e" "ws \<notin> skip"
  shows "work_left (if b then skip else insert ws skip) q < work_left skip p"
proof -
  let ?r = "refresh_bytes P p"
  note D = demote_settles [OF assms(1)]
  have s: "settles p ?r" "settles ?r (clone_arc (en_shard e) ?r)"
    by (rule settles_refresh_bytes, rule settles_clone)
  have rq: "settles ?r q" using se.rel_trans [OF s(2) D(1)] .
  have pq: "settles p q" using se.rel_trans [OF s(1) rq] .
  obtain e0 where e0: "entry_of p ws = Some e0" "en_shard e0 = en_shard e"
    using s(1) assms(2) unfolding settles_def by (metis (no_types, lifting) map_option_eq_Some)
  obtain f where f: "entry_of q ws = Some f" "en_shard f = en_shard e"
    using rq assms(2) unfolding settles_def by (metis (no_types, lifting) map_option_eq_Some)
  have le: "visits skip q ws \<le> visits skip p ws" by (rule settles_visits [OF pq order_refl])
  have "visits (if b then skip else insert ws skip) q ws < visits skip p ws"
  proof (cases b)
    case True
    have "residency_of p (en_shard e) \<noteq> Viewed"
    proof
      assume v: "residency_of p (en_shard e) = Viewed"
      have "residency_of (clone_arc (en_shard e) ?r) (en_shard e) = Viewed"
        using settles_viewed [OF s(2)] settles_viewed [OF s(1)] v by blast
      with assms(1) True show False by (simp add: demote_def)
    qed
    with True e0 f D(2) assms(3) show ?thesis by (simp add: visits_def)
  next
    case False
    with e0 assms(3) show ?thesis by (simp add: visits_def)
  qed
  then show ?thesis
    by (intro work_left_less [OF pq _ e0(1)]) auto
qed

text \<open>With the invariant, the steps that drop a reference keep the shards too.\<close>

definition stays :: "'x pool \<Rightarrow> 'x pool \<Rightarrow> bool" where
  "stays p q \<longleftrightarrow> (pool_ok p \<longrightarrow> same_shards p q)"

interpretation st: step_relation stays
proof
  show "stays p p" for p :: "'a pool" by (simp add: stays_def)
  show "stays p r" if "stays p q" "stays q r" for p q r :: "'a pool"
    using that same_shards_ok [of p q] same_shards_trans [of p q r] by (auto simp: stays_def)
qed

lemma stays_same: "same_shards p q \<Longrightarrow> stays p q"
  by (simp add: stays_def)

lemma stays_drop: "stays p (drop_arc a p)"
  by (simp add: stays_def same_drop)

lemma stays_keeps: "keeps same_shards m \<Longrightarrow> keeps stays m"
  by (erule keeps_mono) (simp add: stays_same)

lemma stays_ok: "stays p q \<Longrightarrow> pool_ok p \<Longrightarrow> pool_ok q"
  using same_shards_ok by (auto simp: stays_def)

lemma stays_demote: "keeps stays (demote P ws a)"
proof (rule keepsI)
  fix p r q assume d: "demote P ws a p = (r, q)"
  show "stays p q"
  proof (cases "residency_of p a = Viewed")
    case True
    with d show ?thesis by (auto simp: demote_def stays_drop)
  next
    case False
    obtain x u where run: "on_shard P a (shard_demote (pe_shard P)) p = (x, u)" by fastforce
    have u: "stays p u" by (rule stays_same [OF keepsD [OF same_on_shard run]])
    have "stays u q"
    proof (cases x)
      case (Inl e)
      with False run d show ?thesis by (auto simp: demote_def stays_drop)
    next
      case (Inr y)
      with False run d have "q = drop_arc a (refresh_entry P ws u)" by (auto simp: demote_def)
      then show ?thesis
        by (simp add: st.rel_trans [OF stays_same [OF same_refresh_entry] stays_drop])
    qed
    with u show ?thesis by (rule st.rel_trans)
  qed
qed

text \<open>
  The loop ends. When it ends well the pool is within its budget, or every shard left is held by
  a caller or mapped.
\<close>

definition nothing_to_demote :: "'x penv \<Rightarrow> 'x pool \<Rightarrow> bool" where
  "nothing_to_demote P p \<longleftrightarrow>
     (\<forall>(ws, e) \<in> set (entries P p). strong_count p e \<noteq> 1 \<or> residency_of p (en_shard e) = Viewed)"

definition all_viewed :: "uuid set \<Rightarrow> 'x pool \<Rightarrow> bool" where
  "all_viewed skip p \<longleftrightarrow> (\<forall>ws \<in> skip. \<forall>e. entry_of p ws = Some e \<longrightarrow> residency_of p (en_shard e) = Viewed)"

lemma all_viewed_settles: "settles p q \<Longrightarrow> all_viewed skip p \<Longrightarrow> all_viewed skip q"
  unfolding all_viewed_def
proof (intro ballI allI impI)
  fix ws e assume s: "settles p q" "\<forall>ws\<in>skip. \<forall>e. entry_of p ws = Some e \<longrightarrow> residency_of p (en_shard e) = Viewed"
    "ws \<in> skip" "entry_of q ws = Some e"
  then obtain f where "entry_of p ws = Some f" "en_shard f = en_shard e"
    unfolding settles_def by (metis (no_types, lifting) map_option_eq_Some)
  with s settles_viewed [OF s(1)] show "residency_of q (en_shard e) = Viewed" by metis
qed

lemma enforce_loop_done:
  assumes "all_viewed skip p"
  shows "\<exists>r q. enforce_loop P skip evicted p = Some (r, q) \<and> stays p q
    \<and> (\<forall>n. r = Inr n \<longrightarrow> total_bytes P q \<le> pl_budget_bytes q \<or> nothing_to_demote P q)"
  using assms
proof (induction "work_left skip p" arbitrary: skip evicted p rule: less_induct)
  case less
  let ?r = "refresh_bytes P p"
  have pr: "settles p ?r" "stays p ?r" by (rule settles_refresh_bytes, simp add: stays_same)
  note vr = all_viewed_settles [OF pr(1) less.prems]
  show ?case
  proof (cases "total_bytes P ?r \<le> pl_budget_bytes ?r")
    case True
    with pr show ?thesis by (subst enforce_loop.simps) (simp add: Let_def)
  next
    case big: False
    show ?thesis
    proof (cases "victim P skip ?r")
      case None
      have "nothing_to_demote P ?r"
        using victim_None [OF None] vr entries_entry [of _ _ P ?r]
        by (fastforce simp: nothing_to_demote_def all_viewed_def)
      with big None pr show ?thesis by (subst enforce_loop.simps) (simp add: Let_def)
    next
      case (Some v)
      obtain ws e where v: "v = (ws, e)" by fastforce
      note V = victim_Some [OF Some [unfolded v]]
      note ent = entries_entry [OF V(1)]
      let ?c = "clone_arc (en_shard e) ?r"
      obtain r q where d: "demote P ws (en_shard e) ?c = (r, q)" by fastforce
      have rc: "settles ?r ?c" "stays ?r ?c" by (rule settles_clone, simp add: stays_same)
      have st: "stays p q" using pr(2) rc(2) keepsD [OF stays_demote d] st.rel_trans by blast
      show ?thesis
      proof (cases r)
        case (Inl err)
        with big Some v d Inl st show ?thesis
          by (subst enforce_loop.simps) (simp add: Let_def)
      next
        case (Inr b)
        note D = demote_settles [OF d [unfolded Inr]]
        have pq: "settles p q" using pr(1) rc(1) D(1) se.rel_trans by blast
        let ?skip = "if b then skip else insert ws skip"
        have lt: "work_left ?skip q < work_left skip p"
          by (rule demote_less [OF d [unfolded Inr] ent V(2)])
        have "all_viewed ?skip q"
        proof (cases b)
          case True
          with all_viewed_settles [OF pq less.prems] show ?thesis by simp
        next
          case False
          have cq: "settles ?r q" using rc(1) D(1) by (rule se.rel_trans)
          have v: "residency_of q (en_shard e) = Viewed" using settles_viewed [OF D(1)] D(3) False by blast
          have "residency_of q (en_shard f) = Viewed" if f: "entry_of q ws = Some f" for f
          proof -
            have "map_option en_shard (entry_of q ws) = map_option en_shard (entry_of ?r ws)"
              using cq by (simp add: settles_def)
            with f ent have "en_shard f = en_shard e" by simp
            with v show ?thesis by (simp only:)
          qed
          moreover have "all_viewed skip q" using pq less.prems by (rule all_viewed_settles)
          ultimately have "all_viewed (insert ws skip) q" unfolding all_viewed_def by blast
          with False show ?thesis by simp
        qed
        from less.hyps [OF lt this] obtain r' q' where
          "enforce_loop P ?skip (if b then evicted + 1 else evicted) q = Some (r', q')" "stays q q'"
          and good: "\<forall>n. r' = Inr n \<longrightarrow> total_bytes P q' \<le> pl_budget_bytes q' \<or> nothing_to_demote P q'" by blast
        then have loop: "(if b then enforce_loop P skip (evicted + 1) q else enforce_loop P (insert ws skip) evicted q) = Some (r', q')"
          and st': "stays p q'" using st.rel_trans [OF st] by (cases b; simp)+
        have "enforce_loop P skip evicted p = Some (r', q')"
          by (subst enforce_loop.simps) (simp add: Let_def big Some v d Inr loop)
        with st' good show ?thesis by blast
      qed
    qed
  qed
qed

section \<open>Every operation keeps the invariant\<close>

lemma keeps_stays_ok: "keeps stays m \<Longrightarrow> m p = (r, q) \<Longrightarrow> pool_ok p \<Longrightarrow> pool_ok q"
  using keepsD stays_ok by metis

lemma enforce_budget_ok: "enforce_budget P p = Some (r, q) \<Longrightarrow> pool_ok p \<Longrightarrow> pool_ok q"
proof -
  assume e: "enforce_budget P p = Some (r, q)" and ok: "pool_ok p"
  have "all_viewed {} p" by (simp add: all_viewed_def)
  from enforce_loop_done [OF this, of P 0] e have "stays p q" by (auto simp: enforce_budget_def)
  with ok show ?thesis by (rule stays_ok [rotated])
qed

lemma evict_stays: "keeps stays (evict P ws)"
  unfolding evict_def
  by (intro st.keeps_bind stays_keeps [OF same_claim]) (auto split: option.split intro: st.keeps_ret stays_demote)

lemma pass_over_stays: "keeps stays (pass_over P m counts as done err)"
proof (induction as arbitrary: "done" err)
  case Nil
  show ?case by (cases err) (simp_all add: st.keeps_ret st.keeps_fail)
next
  case (Cons a as)
  have d: "keeps stays (modM (drop_arc a))"
    by (rule keepsI) (auto simp: modM_def stays_drop)
  show ?case
    by (simp, intro st.keeps_attempt stays_keeps [OF same_on_shard] st.keeps_seq d)
      (auto split: sum.split intro: Cons)
qed

lemma same_fold_clone: "same_shards p (fold clone_arc ids p)"
proof (induction ids arbitrary: p)
  case (Cons i ids)
  show ?case using same_shards_trans [OF same_clone Cons] by simp
qed simp

lemma over_loaded_stays: "keeps stays (over_loaded P m counts)"
proof -
  have c: "keeps stays (modM (fold clone_arc ids))" for ids
    by (intro keepsI) (auto simp: modM_def intro: stays_same same_fold_clone)
  show ?thesis
    unfolding over_loaded_def by (intro st.keeps_bind st.keeps_getM st.keeps_seq c pass_over_stays)
qed

text \<open>Opening adds one shard for a workspace that had none.\<close>

lemma open_and_insert_ok:
  assumes "open_and_insert P ws res p = (r, q)" "pool_ok p"
  shows "pool_ok q"
proof -
  obtain x p1 where t: "peek ws p = (Inr x, p1)" by (cases "touch ws p") (simp add: peek_def)
  have ok1: "pool_ok p1" using same_shards_ok [OF keepsD [OF same_peek t] assms(2)] .
  show ?thesis
  proof (cases x)
    case (Some a)
    with assms(1) t have "q = p1" by (simp add: open_and_insert_def bindM_def ret_def)
    with ok1 show ?thesis by simp
  next
    case None
    then have none: "entry_of p1 ws = None"
      using t by (auto simp: peek_def touch_def Let_def split: option.splits prod.splits)
    obtain y w where op: "shard_open_with (pe_shard P) (pl_opts p1) res (dir_world P p1 ws) = (y, w)" by fastforce
    show ?thesis
    proof (cases y)
      case (Inl e)
      with assms(1) t None op have "q = p1\<lparr>pl_dirs := fmupd ws w (pl_dirs p1)\<rparr>"
        by (simp add: open_and_insert_def bindM_def)
      with ok1 show ?thesis by (simp add: pool_ok_def)
    next
      case (Inr shd)
      let ?l = "\<lparr> lv_workspace = ws, lv_shard = shd, lv_held = 1, lv_busy = False \<rparr>"
      obtain e where q: "q = set_entry ws e (tick_up (p1\<lparr>pl_dirs := fmupd ws w (pl_dirs p1), pl_next := pl_next p1 + 1,
          pl_heap := fmupd (pl_next p1) ?l (pl_heap p1)\<rparr>))" and e: "en_shard e = pl_next p1"
        using assms(1) t None op Inr by (auto simp: open_and_insert_def bindM_def Let_def)
      have en: "entry_of q v = (if v = ws then Some e else entry_of p1 v)" for v by (simp add: q)
      have al: "allocation_of q a = (if a = pl_next p1 then Some ?l else allocation_of p1 a)" for a
        by (simp add: q allocation_of_def [of p1])
      have nx: "pl_next q = pl_next p1 + 1" by (simp add: q)
      show ?thesis
        unfolding pool_ok_def
      proof (intro conjI allI impI)
        fix v f assume f: "entry_of q v = Some f"
        show "\<exists>l. allocation_of q (en_shard f) = Some l \<and> lv_workspace l = v"
        proof (cases "v = ws")
          case True
          with f e en al show ?thesis by simp
        next
          case False
          with f en obtain l where l: "allocation_of p1 (en_shard f) = Some l" "lv_workspace l = v"
            using pool_ok_entry [OF ok1, of v f] by auto
          moreover have "en_shard f < pl_next p1" using pool_ok_alloc [OF ok1 l(1)] by blast
          ultimately show ?thesis using al by simp
        qed
      next
        fix a l assume l: "allocation_of q a = Some l"
        have "a < pl_next q \<and> (\<exists>f. entry_of q (lv_workspace l) = Some f \<and> en_shard f = a)"
        proof (cases "a = pl_next p1")
          case True
          with l al en e nx show ?thesis by auto
        next
          case False
          with l al have "allocation_of p1 a = Some l" by simp
          from pool_ok_alloc [OF ok1 this] obtain f where
            "a < pl_next p1" "entry_of p1 (lv_workspace l) = Some f" "en_shard f = a" by blast
          moreover from this(2) none have "lv_workspace l \<noteq> ws" by auto
          ultimately show ?thesis using en nx by auto
        qed
        then show "a < pl_next q" "\<exists>f. entry_of q (lv_workspace l) = Some f \<and> en_shard f = a" by blast+
      qed
    qed
  qed
qed

lemma get_with_ok:
  assumes "get_with P ws res p = (r, q)" "pool_ok p"
  shows "pool_ok q"
proof -
  obtain x p1 where t1: "peek ws p = (Inr x, p1)" by (cases "touch ws p") (simp add: peek_def)
  obtain y p2 where t2: "peek ws p1 = (Inr y, p2)" by (cases "touch ws p1") (simp add: peek_def)
  have ok: "pool_ok p1" "pool_ok p2"
    using same_shards_ok [OF keepsD [OF same_peek t1] assms(2)] same_shards_ok [OF keepsD [OF same_peek t2]] by blast+
  show ?thesis
  proof (cases x)
    case (Some a)
    with assms(1) t1 ok show ?thesis by (simp add: get_with_def bindM_def ret_def)
  next
    case None
    show ?thesis
    proof (cases y)
      case (Some a)
      with None assms(1) t1 t2 ok show ?thesis by (simp add: get_with_def bindM_def ret_def)
    next
      case y: None
      obtain z p3 where op: "open_and_insert P ws res (take_gate ws p2) = (z, p3)" by fastforce
      have "pool_ok p3"
        using open_and_insert_ok [OF op] same_shards_ok [OF same_gates(1) ok(2)] by blast
      then have ok4: "pool_ok (drop_gate ws (retire_gates p3))"
        using same_shards_ok [OF same_gates(3) same_shards_ok [OF same_gates(2)]] by blast
      have run: "get_with P ws res p = (case z of Inl e \<Rightarrow> (Inl e, drop_gate ws (retire_gates p3))
          | Inr a \<Rightarrow> (Inr a, case enforce_budget P (drop_gate ws (retire_gates p3)) of
              None \<Rightarrow> drop_gate ws (retire_gates p3) | Some (_, q) \<Rightarrow> q))"
        using None y t1 t2 op
        by (auto simp: get_with_def bindM_def seqM_def modM_def attempt_def fail_def split: sum.splits)
      show ?thesis
        using run assms(1) ok4 enforce_budget_ok [of P "drop_gate ws (retire_gates p3)"]
        by (auto split: sum.splits option.splits prod.splits)
    qed
  qed
qed

lemma get_existing_ok:
  assumes "get_existing P ws p = (r, q)" "pool_ok p"
  shows "pool_ok q"
proof -
  obtain x p1 where t1: "peek ws p = (Inr x, p1)" by (cases "touch ws p") (simp add: peek_def)
  have ok: "pool_ok p1" using same_shards_ok [OF keepsD [OF same_peek t1] assms(2)] .
  show ?thesis
  proof (cases x)
    case (Some a)
    with assms(1) t1 ok show ?thesis by (simp add: get_existing_def bindM_def ret_def)
  next
    case None
    obtain z p2 where g: "get_with P ws Viewed p1 = (z, p2)" by fastforce
    have "q = p1 \<or> q = p2"
      using None assms(1) t1 g by (auto simp: get_existing_def bindM_def getM_def ret_def split: if_splits sum.splits)
    with ok get_with_ok [OF g ok] show ?thesis by blast
  qed
qed

text \<open>Closing removes the entry and, its last reference dropped, the shard.\<close>

lemma pool_close_ok:
  assumes "pool_close P ws p = (r, q)" "pool_ok p"
  shows "pool_ok q"
proof -
  have "\<exists>x p1. claim_for_eviction ws p = (Inr x, p1)"
    by (simp add: claim_for_eviction_def split: option.split)
  then obtain x p1 where c: "claim_for_eviction ws p = (Inr x, p1)" by blast
  have ok1: "pool_ok p1" using same_shards_ok [OF keepsD [OF same_claim c] assms(2)] .
  show ?thesis
  proof (cases x)
    case None
    with assms(1) c ok1 show ?thesis by (simp add: pool_close_def bindM_def ret_def)
  next
    case (Some a)
    obtain y u where run: "on_shard P a (shard_snapshot (pe_shard P)) p1 = (y, u)" by fastforce
    have oku: "pool_ok u" using same_shards_ok [OF keepsD [OF same_on_shard run] ok1] .
    have okd: "pool_ok (drop_arc a u)" using same_shards_ok [OF same_drop [OF oku] oku] .
    from c Some obtain e0 where e0: "entry_of p ws = Some e0" "en_shard e0 = a"
      by (auto simp: claim_for_eviction_def split: option.splits if_splits)
    show ?thesis
    proof (cases "\<exists>v e. y = Inr v \<and> entry_of u ws = Some e \<and> \<not> 2 < strong_count u e")
      case False
      then have "q = drop_arc a u"
        using assms(1) c Some run
        by (auto simp: pool_close_def bindM_def split: sum.splits option.splits if_splits)
      with okd show ?thesis by simp
    next
      case True
      then obtain v e where y: "y = Inr v" and e: "entry_of u ws = Some e" and n: "\<not> 2 < strong_count u e" by blast
      have "same_shards p u" using same_shards_trans [OF keepsD [OF same_claim c] keepsD [OF same_on_shard run]] .
      then have ea: "en_shard e = a" using e e0 unfolding same_shards_def by (metis option.inject option.simps(9))
      let ?s = "remove_entry ws u"
      let ?t = "map_allocation (\<lambda>l. l\<lparr>lv_held := lv_held l - 1\<rparr>) a ?s"
      have q: "q = drop_arc a ?s"
        using assms(1) c Some run y e n by (simp add: pool_close_def bindM_def)
      have "held u a \<le> 1" using n ea by (simp add: strong_count_def)
      then have h: "held ?t a = 0" by (auto simp: held_def split: option.splits)
      have nm: "\<not> in_map ?t a"
      proof
        assume "in_map ?t a"
        then obtain f v where f: "entry_of ?t v = Some f" "en_shard f = a"
          by (auto simp: in_map_def fmran'_def entry_of_def)
        then have v: "v \<noteq> ws" "entry_of u v = Some f" by (auto split: if_splits)
        obtain l where "allocation_of u a = Some l" "lv_workspace l = ws" using pool_ok_entry [OF oku e] ea by metis
        moreover obtain l' where "allocation_of u a = Some l'" "lv_workspace l' = v"
          using pool_ok_entry [OF oku v(2)] f(2) by metis
        ultimately show False using v(1) by simp
      qed
      have q': "q = ?t\<lparr>pl_heap := fmdrop a (pl_heap ?t)\<rparr>" using q h nm by (simp add: drop_arc_def Let_def)
      have en: "entry_of q v = (if v = ws then None else entry_of u v)" for v by (simp add: q')
      have al: "allocation_of q b = (if b = a then None else allocation_of u b)" for b
      proof -
        have "allocation_of q b = (if b = a then None else allocation_of ?t b)"
          unfolding q' by (simp add: allocation_of_def)
        then show ?thesis by (simp only: map_allocation_simps allocation_of_simps if_cancel split: if_split) simp
      qed
      have nx: "pl_next q = pl_next u" by (simp add: q')
      show ?thesis
        unfolding pool_ok_def
      proof (intro conjI allI impI)
        fix v f assume "entry_of q v = Some f"
        then have v: "v \<noteq> ws" "entry_of u v = Some f" using en by (auto split: if_splits)
        obtain l where l: "allocation_of u (en_shard f) = Some l" "lv_workspace l = v"
          using pool_ok_entry [OF oku v(2)] by metis
        have "en_shard f \<noteq> a"
        proof
          assume "en_shard f = a"
          moreover obtain l' where "allocation_of u a = Some l'" "lv_workspace l' = ws"
            using pool_ok_entry [OF oku e] ea by metis
          ultimately show False using l v(1) by simp
        qed
        with l al show "\<exists>l. allocation_of q (en_shard f) = Some l \<and> lv_workspace l = v" by simp
      next
        fix b l assume "allocation_of q b = Some l"
        then have b: "b \<noteq> a" "allocation_of u b = Some l" using al by (auto split: if_splits)
        obtain f where f: "b < pl_next u" "entry_of u (lv_workspace l) = Some f" "en_shard f = b"
          using pool_ok_alloc [OF oku b(2)] by metis
        have "lv_workspace l \<noteq> ws" using f e ea b(1) by auto
        with f en nx show "b < pl_next q" "\<exists>f. entry_of q (lv_workspace l) = Some f \<and> en_shard f = b" by simp_all
      qed
    qed
  qed
qed

section \<open>Reachable pools\<close>

text \<open>
  A pool's life: calls of its operations, whatever they return, operations on a shard a caller
  holds, references dropped by callers, and other threads taking and releasing a shard's lock.
\<close>

inductive pool_reachable :: "'x penv \<Rightarrow> shard_options \<Rightarrow> 'x pool \<Rightarrow> bool" for P opts where
  new: "pool_reachable P opts (with_memory_budget_bytes b (pool_new opts))"
| got: "pool_reachable P opts p \<Longrightarrow> pool_get P ws p = (r, q) \<Longrightarrow> pool_reachable P opts q"
| got_existing: "pool_reachable P opts p \<Longrightarrow> get_existing P ws p = (r', q) \<Longrightarrow> pool_reachable P opts q"
| peeked: "pool_reachable P opts p \<Longrightarrow> peek ws p = (r', q) \<Longrightarrow> pool_reachable P opts q"
| used: "pool_reachable P opts p \<Longrightarrow> 0 < held p a \<Longrightarrow> on_shard P a m p = (r'' :: error + unit, q) \<Longrightarrow> pool_reachable P opts q"
| dropped: "pool_reachable P opts p \<Longrightarrow> 0 < held p a \<Longrightarrow> pool_reachable P opts (drop_arc a p)"
| locked: "pool_reachable P opts p \<Longrightarrow> pool_reachable P opts (map_allocation (\<lambda>l. l\<lparr>lv_busy := b\<rparr>) a p)"
| evicted: "pool_reachable P opts p \<Longrightarrow> evict P ws p = (r3, q) \<Longrightarrow> pool_reachable P opts q"
| closed: "pool_reachable P opts p \<Longrightarrow> pool_close P ws p = (r3, q) \<Longrightarrow> pool_reachable P opts q"
| enforced: "pool_reachable P opts p \<Longrightarrow> enforce_budget P p = Some (r4, q) \<Longrightarrow> pool_reachable P opts q"
| snapped: "pool_reachable P opts p \<Longrightarrow> snapshot_all P p = (r4, q) \<Longrightarrow> pool_reachable P opts q"
| synced: "pool_reachable P opts p \<Longrightarrow> fsync_all P p = (r4, q) \<Longrightarrow> pool_reachable P opts q"
| compacted: "pool_reachable P opts p \<Longrightarrow> pool_compact_if_needed P ratio p = (r4, q) \<Longrightarrow> pool_reachable P opts q"
| measured: "pool_reachable P opts p \<Longrightarrow> pool_reachable P opts (snd (pool_stats_of P p))"

inductive_cases pool_reachableE: "pool_reachable P opts p"

lemma pool_reachable_ok:
  assumes "pool_reachable P opts p"
  shows "pool_ok p"
  using assms
proof (induction rule: pool_reachable.induct)
  case (new b)
  show ?case
    by (simp add: pool_ok_def pool_new_def with_memory_budget_bytes_def entry_of_def allocation_of_def)
next
  case (got p ws r q)
  then show ?case using get_with_ok by (auto simp: pool_get_def)
next
  case (got_existing p ws r' q)
  then show ?case using get_existing_ok by blast
next
  case (peeked p ws r' q)
  then show ?case using same_shards_ok [OF keepsD [OF same_peek]] by blast
next
  case (used p a m r'' q)
  then show ?case using same_shards_ok [OF keepsD [OF same_on_shard]] by blast
next
  case (dropped p a)
  then show ?case using same_shards_ok [OF same_drop] by blast
next
  case (locked p b a)
  have "same_shards p (map_allocation (\<lambda>l. l\<lparr>lv_busy := b\<rparr>) a p)" by (rule same_map_allocation) simp
  with locked show ?case using same_shards_ok by blast
next
  case (evicted p ws r3 q)
  then show ?case using keeps_stays_ok [OF evict_stays] by blast
next
  case (closed p ws r3 q)
  then show ?case using pool_close_ok by blast
next
  case (enforced p r4 q)
  then show ?case using enforce_budget_ok by blast
next
  case (snapped p r4 q)
  then show ?case using keeps_stays_ok [OF over_loaded_stays] by (auto simp: snapshot_all_def)
next
  case (synced p r4 q)
  then show ?case using keeps_stays_ok [OF over_loaded_stays] by (auto simp: fsync_all_def)
next
  case (compacted p ratio r4 q)
  then show ?case using keeps_stays_ok [OF over_loaded_stays] by (auto simp: pool_compact_if_needed_def)
next
  case (measured p)
  then show ?case using same_shards_ok [OF same_refresh_bytes] by (auto simp: pool_stats_of_def Let_def)
qed

end
