(* ===== verification/Pool_Refs.thy ===== *)
theory Pool_Refs
  imports Pool_Facts
begin

text \<open>
  Reference counting in the pool: what each operation does to the number of references held
  outside the map. A lookup takes one, an operation on the budget or on every shard none.
\<close>

section \<open>The counts\<close>

definition same_refs :: "'x pool \<Rightarrow> 'x pool \<Rightarrow> bool" where
  "same_refs p q \<longleftrightarrow> (\<forall>b. held q b = held p b)"

interpretation refs: step_relation same_refs
  by unfold_locales (auto simp: same_refs_def)

text \<open>\<open>takes r p q\<close>: the step takes one reference to \<open>r\<close>, when there is one.\<close>

definition takes :: "nat option \<Rightarrow> 'x pool \<Rightarrow> 'x pool \<Rightarrow> bool" where
  "takes r p q \<longleftrightarrow> (\<forall>b. held q b = held p b + (if r = Some b then 1 else 0))"

lemma takes_None [simp]: "takes None p q \<longleftrightarrow> same_refs p q"
  by (simp add: takes_def same_refs_def)

lemma same_refs_refl [simp]: "same_refs p p"
  by (simp add: same_refs_def)

lemma same_refs_trans: "same_refs p q \<Longrightarrow> same_refs q u \<Longrightarrow> same_refs p u"
  by (simp add: same_refs_def)

lemma takes_trans: "same_refs p q \<Longrightarrow> takes r q u \<Longrightarrow> takes r p u" "takes r p q \<Longrightarrow> same_refs q u \<Longrightarrow> takes r p u"
  by (simp_all add: same_refs_def takes_def)

lemma held_simps [simp]:
  "held (set_entry ws e p) b = held p b" "held (tick_up p) b = held p b"
  "held (p\<lparr>pl_dirs := ds\<rparr>) b = held p b" "held (p\<lparr>pl_next := n\<rparr>) b = held p b"
  "held (remove_entry ws p) b = held p b"
  "held (p\<lparr>pl_inner := i\<rparr>) b = held p b"
  by (simp_all add: held_def allocation_of_def set_entry_def tick_up_def remove_entry_def)

lemma held_clone:
  "held (clone_arc a p) b = (if b = a \<and> allocation_of p a \<noteq> None then held p b + 1 else held p b)"
  by (auto simp: held_def clone_arc_def split: option.splits)

lemma held_drop: "held (drop_arc a p) b = (if b = a then held p b - 1 else held p b)"
proof -
  let ?q = "map_allocation (\<lambda>l. l\<lparr>lv_held := lv_held l - 1\<rparr>) a p"
  have q: "held ?q c = (if c = a then held p c - 1 else held p c)" for c
    by (auto simp: held_def split: option.splits)
  show ?thesis
    using q [of a] q [of b]
    by (auto simp: drop_arc_def Let_def held_def [of "_\<lparr>pl_heap := _\<rparr>"]) (simp add: held_def allocation_of_def)
qed

lemma drop_after_clone: "same_refs p (drop_arc a (clone_arc a p))"
proof (cases "allocation_of p a")
  case None
  then have "held p a = 0" by (simp add: held_def)
  then show ?thesis using None by (auto simp: same_refs_def held_drop held_clone)
qed (simp add: same_refs_def held_drop held_clone)

lemma refs_on_shard: "keeps same_refs (on_shard P a m)"
  by (auto simp: keeps_def same_refs_def on_shard_def held_def allocation_of_def split: option.splits prod.splits)

lemma refs_refresh_entry: "same_refs p (refresh_entry P ws p)"
  by (auto simp: refresh_entry_def same_refs_def split: option.splits)

lemma refs_refresh_bytes: "same_refs p (refresh_bytes P p)"
proof -
  have "same_refs p (fold (refresh_entry P) wss p)" for wss p
    by (induction wss arbitrary: p) (auto intro: same_refs_trans refs_refresh_entry)
  then show ?thesis by (simp add: refresh_bytes_def)
qed

lemma refs_gates: "same_refs p (take_gate ws p)" "same_refs p (retire_gates p)" "same_refs p (drop_gate ws p)"
  by (auto simp: same_refs_def take_gate_def retire_gates_def drop_gate_def split: option.splits)

section \<open>Demotion and the budget\<close>

text \<open>A demotion gives back the reference it was handed.\<close>

lemma demote_drops:
  assumes "demote P ws a p = (r, q)"
  shows "same_refs (drop_arc a p) q"
proof (cases "residency_of p a = Viewed")
  case False
  obtain y u where run: "on_shard P a (shard_demote (pe_shard P)) p = (y, u)" by fastforce
  have s: "same_refs p u" by (rule keepsD [OF refs_on_shard run])
  have t: "same_refs p (refresh_entry P ws u)" using s refs_refresh_entry by (rule same_refs_trans)
  from False run assms have "q = drop_arc a u \<or> q = drop_arc a (refresh_entry P ws u)"
    by (auto simp: demote_def split: sum.splits)
  with s t show ?thesis by (auto simp: same_refs_def held_drop)
qed (use assms in \<open>auto simp: demote_def\<close>)

lemma enforce_step_refs:
  assumes step: "(let p = refresh_bytes P p0 in
      if total_bytes P p \<le> pl_budget_bytes p then Some (Inr evicted, p)
      else case victim P skip p of
        None \<Rightarrow> Some (Inr evicted, p)
      | Some (ws, e) \<Rightarrow>
          (case demote P ws (en_shard e) (clone_arc (en_shard e) p) of
             (Inl err, q) \<Rightarrow> Some (Inl err, q)
           | (Inr demoted, q) \<Rightarrow>
               if demoted then loop P skip (evicted + 1) q
               else loop P (insert ws skip) evicted q)) = Some y"
    and loop: "\<And>skip n q y. loop P skip n q = Some y \<Longrightarrow> same_refs q (snd y)"
  shows "same_refs p0 (snd y)"
proof -
  let ?r = "refresh_bytes P p0"
  have r: "same_refs p0 ?r" by (rule refs_refresh_bytes)
  show ?thesis
  proof (cases "total_bytes P ?r \<le> pl_budget_bytes ?r \<or> victim P skip ?r = None")
    case True
    with step have "snd y = ?r" by (auto simp: Let_def split: if_splits)
    with r show ?thesis by simp
  next
    case False
    then obtain ws e where v: "victim P skip ?r = Some (ws, e)" by (cases "victim P skip ?r") auto
    obtain x u where d: "demote P ws (en_shard e) (clone_arc (en_shard e) ?r) = (x, u)" by fastforce
    have u: "same_refs p0 u"
      using same_refs_trans [OF r same_refs_trans [OF drop_after_clone demote_drops [OF d]]] .
    have "snd y = u \<or> (\<exists>skip n. loop P skip n u = Some y)"
      using step False v d by (cases x) (auto simp: Let_def split: if_splits)
    with u loop show ?thesis by (metis same_refs_trans)
  qed
qed

lemma enforce_loop_refs: "enforce_loop P skip n p = Some y \<Longrightarrow> same_refs p (snd y)"
  by (rule enforce_loop.raw_induct [where Pa = "\<lambda>(((P, skip), n), p) y. same_refs p (snd y)", simplified])
     (blast intro: enforce_step_refs)+

lemma enforce_budget_refs: "enforce_budget P p = Some (r, q) \<Longrightarrow> same_refs p q"
  using enforce_loop_refs [of P "{}" 0 p "(r, q)"] by (simp add: enforce_budget_def)

section \<open>Lookups\<close>

lemma touch_takes:
  assumes "touch ws p = (r, q)" "pool_ok p"
  shows "takes r p q"
proof (cases "entry_of p ws")
  case None
  with assms(1) show ?thesis by (auto simp: touch_def Let_def same_refs_def)
next
  case (Some e)
  with pool_ok_entry [OF assms(2) Some] have "allocation_of p (en_shard e) \<noteq> None" by fastforce
  with Some assms(1) have "r = Some (en_shard e)"
    "q = clone_arc (en_shard e) (set_entry ws (e\<lparr>en_last_used := pi_tick (pl_inner (tick_up p))\<rparr>) (tick_up p))"
    by (auto simp: touch_def Let_def)
  with \<open>allocation_of p (en_shard e) \<noteq> None\<close> show ?thesis
    by (simp only: takes_def held_clone held_simps allocation_of_simps) simp
qed

lemma peek_takes: "peek ws p = (Inr r, q) \<Longrightarrow> pool_ok p \<Longrightarrow> takes r p q"
  by (auto simp: peek_def split: prod.splits intro: touch_takes)

lemma open_and_insert_takes:
  assumes run: "open_and_insert P ws res p = (r, q)" and ok: "pool_ok p"
  shows "takes (case r of Inl _ \<Rightarrow> None | Inr a \<Rightarrow> Some a) p q"
proof -
  obtain x p1 where t: "peek ws p = (Inr x, p1)" by (cases "touch ws p") (simp add: peek_def)
  have k: "takes x p p1" by (rule peek_takes [OF t ok])
  have ok1: "pool_ok p1" using same_shards_ok [OF keepsD [OF same_peek t] ok] .
  show ?thesis
  proof (cases x)
    case (Some a)
    with run t k show ?thesis by (auto simp: open_and_insert_def bindM_def ret_def)
  next
    case None
    then have s: "same_refs p p1" using k by simp
    obtain y w where op: "shard_open_with (pe_shard P) (pl_opts p1) res (dir_world P p1 ws) = (y, w)" by fastforce
    show ?thesis
    proof (cases y)
      case (Inl e)
      with run t None op s show ?thesis by (auto simp: open_and_insert_def bindM_def same_refs_def)
    next
      case (Inr shd)
      have "held p1 (pl_next p1) = 0"
        using pool_ok_alloc [OF ok1, of "pl_next p1"] by (fastforce simp: held_def split: option.splits)
      moreover have "r = Inr (pl_next p1) \<and> (\<forall>b. held q b = (if b = pl_next p1 then 1 else held p1 b))"
        using Inr run t None op
        by (auto simp: open_and_insert_def bindM_def Let_def held_def allocation_of_def set_entry_def tick_up_def)
      ultimately show ?thesis using s by (auto simp: takes_def same_refs_def)
    qed
  qed
qed

lemma get_with_takes:
  assumes run: "get_with P ws res p = (r, q)" and ok: "pool_ok p"
  shows "takes (case r of Inl _ \<Rightarrow> None | Inr a \<Rightarrow> Some a) p q"
proof -
  obtain x p1 where t1: "peek ws p = (Inr x, p1)" by (cases "touch ws p") (simp add: peek_def)
  obtain y p2 where t2: "peek ws p1 = (Inr y, p2)" by (cases "touch ws p1") (simp add: peek_def)
  have ok1: "pool_ok p1" using same_shards_ok [OF keepsD [OF same_peek t1] ok] .
  have ok2: "pool_ok p2" using same_shards_ok [OF keepsD [OF same_peek t2] ok1] .
  have k1: "takes x p p1" by (rule peek_takes [OF t1 ok])
  have k2: "takes y p1 p2" by (rule peek_takes [OF t2 ok1])
  show ?thesis
  proof (cases x)
    case (Some a)
    with run t1 k1 show ?thesis by (auto simp: get_with_def bindM_def ret_def)
  next
    case None
    then have s1: "same_refs p p1" using k1 by simp
    show ?thesis
    proof (cases y)
      case (Some a)
      with None run t1 t2 k2 takes_trans(1) [OF s1] show ?thesis by (auto simp: get_with_def bindM_def ret_def)
    next
      case y: None
      then have s2: "same_refs p p2" using k2 s1 by (auto intro: same_refs_trans)
      obtain z p3 where op: "open_and_insert P ws res (take_gate ws p2) = (z, p3)" by fastforce
      have ok': "pool_ok (take_gate ws p2)" by (rule same_shards_ok [OF same_gates(1) ok2])
      let ?p4 = "drop_gate ws (retire_gates p3)"
      have z: "takes (case z of Inl _ \<Rightarrow> None | Inr a \<Rightarrow> Some a) p ?p4"
        using takes_trans(2) [OF takes_trans(1) [OF same_refs_trans [OF s2 refs_gates(1)]
              open_and_insert_takes [OF op ok']] same_refs_trans [OF refs_gates(2) refs_gates(3)]] .
      have run': "get_with P ws res p = (case z of Inl e \<Rightarrow> (Inl e, ?p4)
          | Inr a \<Rightarrow> (Inr a, case enforce_budget P ?p4 of None \<Rightarrow> ?p4 | Some (_, q) \<Rightarrow> q))"
        using None y t1 t2 op
        by (auto simp: get_with_def bindM_def seqM_def modM_def attempt_def fail_def split: sum.splits)
      show ?thesis
        using run' run z enforce_budget_refs [of P ?p4]
        by (auto split: sum.splits option.splits prod.splits intro: takes_trans(2))
    qed
  qed
qed

lemma get_existing_takes:
  assumes run: "get_existing P ws p = (r, q)" and ok: "pool_ok p"
  shows "takes (case r of Inl _ \<Rightarrow> None | Inr x \<Rightarrow> x) p q"
proof -
  obtain x p1 where t: "peek ws p = (Inr x, p1)" by (cases "touch ws p") (simp add: peek_def)
  have k: "takes x p p1" by (rule peek_takes [OF t ok])
  have ok1: "pool_ok p1" using same_shards_ok [OF keepsD [OF same_peek t] ok] .
  show ?thesis
  proof (cases x)
    case (Some a)
    with run t k show ?thesis by (auto simp: get_existing_def bindM_def ret_def)
  next
    case None
    then have s: "same_refs p p1" using k by simp
    obtain y u where g: "get_with P ws Viewed p1 = (y, u)" by fastforce
    from takes_trans(1) [OF s get_with_takes [OF g ok1]] s None run t g show ?thesis
      by (cases y) (auto simp: get_existing_def bindM_def getM_def ret_def split: if_splits)
  qed
qed

section \<open>Passes\<close>

lemma held_fold_clone:
  assumes "\<forall>a \<in> set as. allocation_of p a \<noteq> None"
  shows "held (fold clone_arc as p) b = held p b + count_list as b"
  using assms
proof (induction as arbitrary: p)
  case (Cons a as)
  have "\<forall>c \<in> set as. allocation_of (clone_arc a p) c \<noteq> None"
    using Cons.prems by (auto simp: clone_arc_def)
  from Cons.IH [OF this] Cons.prems show ?case by (auto simp: held_clone)
qed simp

lemma pass_over_drops:
  "pass_over P m counts as n err p = (r, q) \<Longrightarrow> held q b = held p b - count_list as b"
proof (induction P m counts as n err arbitrary: p rule: pass_over.induct)
  case (3 P m counts a as n err)
  obtain x u where x: "on_shard P a m p = (x, u)" by fastforce
  have s: "same_refs p u" by (rule keepsD [OF refs_on_shard x])
  have "held q b = held (drop_arc a u) b - count_list as b"
    using 3 x by (cases x) (auto simp: attempt_def seqM_def bindM_def modM_def)
  with s show ?case by (auto simp: held_drop same_refs_def)
qed (auto simp: ret_def fail_def)

lemma loaded_allocated:
  assumes "pool_ok p" "a \<in> set (map snd (loaded P p))"
  shows "allocation_of p a \<noteq> None"
proof -
  from assms(2) obtain ws e where "(ws, e) \<in> set (entries P p)" "a = en_shard e"
    by (auto simp: loaded_def)
  from pool_ok_entry [OF assms(1) entries_entry [OF this(1)]] this(2) show ?thesis by (metis option.distinct(1))
qed

lemma over_loaded_refs:
  assumes "over_loaded P m counts p = (r, q)" "pool_ok p"
  shows "same_refs p q"
proof -
  let ?as = "map snd (loaded P p)"
  from assms(1) have "pass_over P m counts ?as 0 None (fold clone_arc ?as p) = (r, q)"
    by (simp add: over_loaded_def bindM_def getM_def seqM_def modM_def)
  from pass_over_drops [OF this] have "held q b = held (fold clone_arc ?as p) b - count_list ?as b" for b .
  moreover have "held (fold clone_arc ?as p) b = held p b + count_list ?as b" for b
    by (rule held_fold_clone) (use loaded_allocated [OF assms(2)] in blast)
  ultimately show ?thesis by (simp only: same_refs_def) simp
qed

end
