(* ===== verification/Server_Facts.thy ===== *)
theory Server_Facts
  imports Maintenance Pool_Refs
begin

text \<open>
  What a worker leaves behind. Every message, whatever came of it, leaves the pool with one shard
  per directory and gives back every reference it took; every answer is addressed to the request
  it answers, and carries a body exactly when it reports success.
\<close>

section \<open>The pool between messages\<close>

text \<open>\<open>settled p q\<close>: a sound pool stays sound and no reference is left taken.\<close>

definition settled :: "'x pool \<Rightarrow> 'x pool \<Rightarrow> bool" where
  "settled p q \<longleftrightarrow> (pool_ok p \<longrightarrow> pool_ok q \<and> same_refs p q)"

interpretation calm: step_relation settled
  by unfold_locales (auto simp: settled_def intro: same_refs_trans)

text \<open>\<open>taken r p q\<close>: the same with one reference taken.\<close>

definition taken :: "nat option \<Rightarrow> 'x pool \<Rightarrow> 'x pool \<Rightarrow> bool" where
  "taken r p q \<longleftrightarrow> (pool_ok p \<longrightarrow> pool_ok q \<and> takes r p q)"

lemma settled_refl [simp]: "settled p p"
  by (simp add: settled_def)

lemma settled_trans: "settled p q \<Longrightarrow> settled q u \<Longrightarrow> settled p u"
  by (rule calm.rel_trans)

lemma taken_None [simp]: "taken None p q \<longleftrightarrow> settled p q"
  by (simp add: taken_def settled_def)

lemma taken_settled: "taken r p q \<Longrightarrow> settled q u \<Longrightarrow> taken r p u"
  by (auto simp: taken_def settled_def intro: takes_trans(2))

lemma settled_on_shard: "keeps settled (on_shard P a m)"
proof (rule keepsI)
  fix p :: "'a pool" and r q assume run: "on_shard P a m p = (r, q)"
  show "settled p q"
    using same_shards_ok [OF keepsD [OF same_on_shard run]] keepsD [OF refs_on_shard run] by (simp add: settled_def)
qed

text \<open>Giving back what was taken.\<close>

lemma taken_drop: "taken (Some a) p q \<Longrightarrow> settled p (drop_arc a q)"
  unfolding settled_def taken_def
  by (auto simp: takes_def same_refs_def held_drop intro: same_shards_ok [OF same_drop])

lemma taken_get: "pool_get P ws p = (Inr a, q) \<Longrightarrow> taken (Some a) p q"
  "pool_get P ws p = (Inl e, q) \<Longrightarrow> settled p q"
  using get_with_takes [of P ws Loaded p _ q] get_with_ok [of P ws Loaded p _ q]
  by (force simp: pool_get_def taken_def settled_def)+

lemma taken_existing: "get_existing P ws p = (Inr r, q) \<Longrightarrow> taken r p q"
  "get_existing P ws p = (Inl e, q) \<Longrightarrow> settled p q"
  using get_existing_takes [of P ws p _ q] get_existing_ok [of P ws p _ q]
  by (force simp: taken_def settled_def)+

section \<open>The handlers\<close>

lemma save_document_settled: "keeps settled (save_document P sync a dto)"
  by (rule keepsI)
     (auto simp: save_document_def split: prod.splits sum.splits if_splits
        intro: keepsD [OF settled_on_shard] settled_trans)

lemma delete_document_settled: "keeps settled (delete_document P sync a d)"
  by (rule keepsI)
     (auto simp: delete_document_def split: prod.splits sum.splits if_splits
        intro: keepsD [OF settled_on_shard] settled_trans)

lemma insertion_settled: "settled p (snd (document_insertion V P ctx sync h body p))"
proof -
  have "settled p (drop_arc a u)"
    if "pool_get P ws p = (Inr a, q)" "save_document P sync a dto q = (r, u)" for ws a q dto r u
    using taken_drop [OF taken_settled [OF taken_get(1) [OF that(1)] keepsD [OF save_document_settled that(2)]]] .
  with taken_get(2) show ?thesis
    by (fastforce simp: document_insertion_def split: option.split sum.split prod.split)
qed

lemma deletion_settled: "settled p (snd (document_deletion V P sync h body p))"
proof -
  have "settled p (drop_arc a u)"
    if "get_existing P ws p = (Inr (Some a), q)" "delete_document P sync a d q = (r, u)" for ws a q d r u
    using taken_drop [OF taken_settled [OF taken_existing(1) [OF that(1)] keepsD [OF delete_document_settled that(2)]]] .
  moreover have "settled p q" if "get_existing P ws p = (Inr None, q)" for ws q
    using taken_existing(1) [OF that] by simp
  ultimately show ?thesis using taken_existing(2)
    by (fastforce simp: document_deletion_def split: option.split sum.split prod.split)
qed

lemma retrieval_settled: "settled p (snd (document_retrieval V P hasher h body p))"
proof -
  have "settled p (drop_arc a q)" if "get_existing P ws p = (Inr (Some a), q)" for ws a q
    by (rule taken_drop [OF taken_existing(1) [OF that]])
  moreover have "settled p q" if "get_existing P ws p = (Inr None, q)" for ws q
    using taken_existing(1) [OF that] by simp
  ultimately show ?thesis using taken_existing(2)
    by (fastforce simp: document_retrieval_def split: option.split sum.split prod.split query_error.split)
qed

text \<open>A query takes the shards one by one, and gives them all back.\<close>

definition takes_all :: "nat list \<Rightarrow> 'x pool \<Rightarrow> 'x pool \<Rightarrow> bool" where
  "takes_all as p q \<longleftrightarrow> (pool_ok p \<longrightarrow> pool_ok q \<and> (\<forall>b. held q b = held p b + count_list as b))"

lemma takes_all_one: "takes_all as p q \<Longrightarrow> taken r q u \<Longrightarrow> takes_all (as @ (case r of None \<Rightarrow> [] | Some a \<Rightarrow> [a])) p u"
  by (auto simp: takes_all_def taken_def takes_def same_refs_def split: option.split)

lemma get_shards_takes:
  "takes_all as0 p0 p \<Longrightarrow> get_shards P wss as0 p = ((e, as), q) \<Longrightarrow> takes_all as p0 q"
proof (induction P wss as0 p arbitrary: e as q rule: get_shards.induct)
  case (2 P ws wss shards p)
  obtain r u where g: "get_existing P ws p = (r, u)" by fastforce
  show ?case
  proof (cases r)
    case (Inl x)
    have "takes_all shards p0 u" using takes_all_one [OF 2(3), of None u] taken_existing(2) [of P ws p x u] g Inl by simp
    with 2(4) g Inl show ?thesis by simp
  next
    case (Inr x)
    have t: "takes_all (shards @ (case x of None \<Rightarrow> [] | Some a \<Rightarrow> [a])) p0 u"
      using takes_all_one [OF 2(3)] taken_existing(1) g Inr by blast
    show ?thesis
    proof (cases x)
      case None
      from 2(1) [OF g [symmetric] Inr None] t 2(4) g Inr None show ?thesis by simp
    next
      case (Some a)
      from 2(2) [OF g [symmetric] Inr Some] t 2(4) g Inr Some show ?thesis by simp
    qed
  qed
qed simp

lemma drop_all:
  assumes "pool_ok p"
  shows "pool_ok (fold drop_arc as p) \<and> held (fold drop_arc as p) b = held p b - count_list as b"
  using assms
proof (induction as arbitrary: p)
  case (Cons a as)
  have "pool_ok (drop_arc a p)" using same_shards_ok [OF same_drop [OF Cons.prems] Cons.prems] .
  from Cons.IH [OF this] show ?case by (auto simp: held_drop)
qed simp

lemma run_query_settled: "keeps settled (run_query P ctx uuids req v)"
proof (rule keepsI)
  fix p :: "'a pool" and r q assume run: "run_query P ctx uuids req v p = (r, q)"
  obtain e as u where g: "get_shards P (dq_workspace_ids req) [] p = ((e, as), u)" by (metis prod.collapse)
  have "takes_all as p u" by (rule get_shards_takes [OF _ g]) (simp add: takes_all_def)
  moreover have "q = fold drop_arc as u" using run g by (simp add: run_query_def)
  ultimately show "settled p q"
    using drop_all [of u as] by (auto simp: settled_def takes_all_def same_refs_def)
qed

lemma query_settled: "settled p (snd (document_query V P ctx h body p))"
  using keepsD [OF run_query_settled]
  by (fastforce simp: document_query_def split: option.split sum.split prod.split)

lemma handle_message_settled: "settled p (snd (handle_message V P ctx sync frames p))"
  by (auto simp: handle_message_def handle_request_def insertion_settled deletion_settled retrieval_settled query_settled
      split: list.split option.split message_type.split)

lemma worker_routine_settled: "settled p (snd (worker_routine P ctx sync ms p))"
proof (induction ms arbitrary: p)
  case (Cons m ms)
  obtain V frames where m: "m = (V, frames)" by fastforce
  obtain r q where h: "handle_message V P ctx sync frames p = (r, q)" by fastforce
  have "settled p q" using handle_message_settled [of p V P ctx sync frames] h by simp
  with Cons [of q] h m show ?case by (auto simp: case_prod_beta intro: settled_trans)
qed simp

section \<open>Maintenance\<close>

lemma over_loaded_settled: "keeps settled (over_loaded P m counts)"
  using over_loaded_refs keeps_stays_ok [OF over_loaded_stays]
  by (intro keepsI) (auto simp: settled_def)

lemma logged_settled: "keeps settled m \<Longrightarrow> settled p (logged m p)"
  by (metis keepsD logged_def prod.collapse)

lemma pass_settled:
  "settled p (logged (fsync_all P) p)" "settled p (logged (snapshot_all P) p)"
  "settled p (logged (pool_compact_if_needed P ratio) p)" "settled p (shutdown_handler P p)"
  by (auto simp: fsync_all_def snapshot_all_def pool_compact_if_needed_def shutdown_handler_def
      intro!: logged_settled over_loaded_settled)

lemma enforce_budget_settled: "enforce_budget P p = Some y \<Longrightarrow> settled p (snd y)"
  using enforce_budget_ok [of P p "fst y" "snd y"] enforce_budget_refs [of P p "fst y" "snd y"]
  by (simp add: settled_def)

end
