(* ===== verification/Shard_Facts.thy ===== *)
theory Shard_Facts
  imports Shard Store_Progress
begin

text \<open>
  A shard keeps its two indexes in step with its log: after every operation an index holds
  exactly the live ids of its kind, each with the vector the operation gave it. The contract of
  the usearch library is a hypothesis; what the shard adds to it is proved.
\<close>

section \<open>One index\<close>

definition vectors :: "('x, 'v) us_model \<Rightarrow> 'x vector_index \<Rightarrow> (u64, 'v) fmap" where
  "vectors A i = um_vectors A (vi_index i)"

text \<open>What no operation on an index changes.\<close>

definition same_shape :: "'x vector_index \<Rightarrow> 'x vector_index \<Rightarrow> bool" where
  "same_shape i j \<longleftrightarrow> vi_kind j = vi_kind i \<and> vi_metric j = vi_metric i \<and> vi_dimensions j = vi_dimensions i"

text \<open>An operation that leaves the directory alone and, when it succeeds, maps the vectors by \<open>f\<close>.\<close>

definition maps_vectors :: "('x, 'v) us_model \<Rightarrow> ((u64, 'v) fmap \<Rightarrow> (u64, 'v) fmap) \<Rightarrow> ('x, 'a) xop \<Rightarrow> bool" where
  "maps_vectors A f m \<longleftrightarrow>
     (\<forall>i w r j v. m (i, w) = (r, (j, v)) \<longrightarrow> v = w \<and> same_shape i j \<and> vi_viewed j = vi_viewed i
        \<and> (\<forall>x. r = Inr x \<longrightarrow> vectors A j = f (vectors A i)))"

lemma maps_vectorsD:
  assumes "maps_vectors A f m" "m (i, w) = (r, (j, v))"
  shows "v = w" "same_shape i j" "vi_viewed j = vi_viewed i" "r = Inr x \<Longrightarrow> vectors A j = f (vectors A i)"
  using assms unfolding maps_vectors_def by blast+

lemma maps_vectors_seq:
  assumes "maps_vectors A f m" "maps_vectors A g k"
  shows "maps_vectors A (g \<circ> f) (seqM m k)"
  unfolding maps_vectors_def
proof (intro allI impI)
  fix i w r j v assume run: "seqM m k (i, w) = (r, (j, v))"
  obtain r1 i1 w1 where m: "m (i, w) = (r1, (i1, w1))" by (metis prod_cases3)
  note M = maps_vectorsD [OF assms(1) m]
  show "v = w \<and> same_shape i j \<and> vi_viewed j = vi_viewed i \<and> (\<forall>x. r = Inr x \<longrightarrow> vectors A j = (g \<circ> f) (vectors A i))"
  proof (cases r1)
    case (Inl e)
    with run m M show ?thesis by (auto simp: seqM_def bindM_def)
  next
    case (Inr u)
    with run m have k: "k (i1, w1) = (r, (j, v))" by (simp add: seqM_def bindM_def)
    from maps_vectorsD [OF assms(2) k] M Inr show ?thesis by (auto simp: same_shape_def)
  qed
qed

lemma call_maps:
  assumes "\<And>x x'. f x = (True, x') \<Longrightarrow> um_vectors A x' = g (um_vectors A x)"
  shows "maps_vectors A g (call e f)"
  using assms
  by (auto simp: maps_vectors_def call_def same_shape_def vectors_def split: prod.splits if_splits)

lemma usearch_okD:
  assumes "usearch_ok U A"
  shows "us_size U x = fcard (fmdom (um_vectors A x))"
    and "us_reserve U n x = (True, x') \<Longrightarrow> um_vectors A x' = um_vectors A x"
    and "us_add_f32 U k v x = (True, x') \<Longrightarrow> um_vectors A x' = fmupd k (um_q32 A v) (um_vectors A x)"
    and "us_add_f16 U k h x = (True, x') \<Longrightarrow> um_vectors A x' = fmupd k (um_q16 A h) (um_vectors A x)"
    and "us_remove U k x = (True, x') \<Longrightarrow> um_vectors A x' = fmdrop k (um_vectors A x)"
    and "us_save U x = Some bs \<Longrightarrow> us_load U bs y = (True, y') \<Longrightarrow> um_vectors A y' = um_vectors A x"
    and "us_save U x = Some bs \<Longrightarrow> us_view U bs y = (True, y') \<Longrightarrow> um_vectors A y' = um_vectors A x"
  using assms unfolding usearch_ok_def by - (elim conjE, (blast | metis))+

text \<open>An operation that reads its own state first is judged at that state.\<close>

lemma maps_vectors_read:
  "(\<And>i w. maps_vectors A f (g i w)) \<Longrightarrow> maps_vectors A f (\<lambda>(i, w). g i w (i, w))"
  unfolding maps_vectors_def by simp

lemma maps_vectors_ret: "maps_vectors A (\<lambda>m. m) (ret x)"
  by (simp add: maps_vectors_def ret_def same_shape_def)

lemma maps_vectors_fail: "maps_vectors A f (fail e)"
  by (simp add: maps_vectors_def fail_def same_shape_def)

lemma remove_maps:
  assumes "usearch_ok U A"
  shows "maps_vectors A (fmdrop key) (vi_remove U key)"
proof -
  have "maps_vectors A (fmdrop key) (call e (us_remove U key))" for e
    by (rule call_maps) (rule usearch_okD(5) [OF assms])
  then show ?thesis unfolding vi_remove_def by (rule maps_vectors_read)
qed

lemma reserve_maps:
  assumes "usearch_ok U A"
  shows "maps_vectors A (\<lambda>m. m) (vi_reserve_for U n)"
proof -
  have "maps_vectors A (\<lambda>m. m) (if b then ret () else call e (us_reserve U k))" for b e k
    using call_maps [of "us_reserve U k" A "\<lambda>m. m" e] usearch_okD(2) [OF assms] maps_vectors_ret by auto
  then have "maps_vectors A (\<lambda>m. m) (\<lambda>(i, w). (if us_size U (vi_index i) + max n 64 < us_capacity U (vi_index i) then ret ()
      else call (IndexReserve (vi_kind i) (us_size U (vi_index i) + max n 64)) (us_reserve U (us_size U (vi_index i) + max n 64))) (i, w))"
    by (rule maps_vectors_read)
  moreover have "vi_reserve_for U n = (\<lambda>(i, w). (if us_size U (vi_index i) + max n 64 < us_capacity U (vi_index i) then ret ()
      else call (IndexReserve (vi_kind i) (us_size U (vi_index i) + max n 64)) (us_reserve U (us_size U (vi_index i) + max n 64))) (i, w))"
    by (auto simp: vi_reserve_for_def Let_def ret_def)
  ultimately show ?thesis by simp
qed

lemma upsert_maps:
  assumes "usearch_ok U A"
  shows "maps_vectors A (fmupd key (um_q32 A vector)) (vi_upsert U key vector)"
proof -
  have add: "maps_vectors A (fmupd key (um_q32 A vector)) (call e (us_add_f32 U key vector))" for e
    by (rule call_maps) (rule usearch_okD(3) [OF assms])
  have "fmupd key (um_q32 A vector) \<circ> (\<lambda>m. m) \<circ> fmdrop key = fmupd key (um_q32 A vector)"
    by (rule ext, rule fmap_ext) simp
  with maps_vectors_seq [OF remove_maps [OF assms, of key] maps_vectors_seq [OF reserve_maps [OF assms, of 1] add]]
  have steps: "maps_vectors A (fmupd key (um_q32 A vector))
      (seqM (vi_remove U key) (seqM (vi_reserve_for U 1) (call e (us_add_f32 U key vector))))" for e
    by (simp add: comp_assoc)
  have "maps_vectors A (fmupd key (um_q32 A vector))
      (if b then fail e' else seqM (vi_remove U key) (seqM (vi_reserve_for U 1) (call e (us_add_f32 U key vector))))" for b e e'
    by (cases b) (simp_all add: steps [simplified] maps_vectors_fail)
  then have "maps_vectors A (fmupd key (um_q32 A vector)) (\<lambda>(i, w).
      (if length vector \<noteq> vi_dimensions i then fail (IndexDimensions (vi_kind i) (vi_dimensions i) (length vector) key)
       else seqM (vi_remove U key) (seqM (vi_reserve_for U 1) (call (IndexAdd (vi_kind i) key) (us_add_f32 U key vector)))) (i, w))"
    by (rule maps_vectors_read)
  moreover have "vi_upsert U key vector = (\<lambda>(i, w).
      (if length vector \<noteq> vi_dimensions i then fail (IndexDimensions (vi_kind i) (vi_dimensions i) (length vector) key)
       else seqM (vi_remove U key) (seqM (vi_reserve_for U 1) (call (IndexAdd (vi_kind i) key) (us_add_f32 U key vector)))) (i, w))"
    by (auto simp: vi_upsert_def fail_def)
  ultimately show ?thesis by simp
qed

lemma add_raw_maps:
  assumes "usearch_ok U A"
  shows "\<exists>q. maps_vectors A (fmupd key q) (vi_add_raw U of_f16 key bs dtype)"
proof (cases dtype)
  case NoVector
  then have "maps_vectors A (fmupd key q) (vi_add_raw U of_f16 key bs dtype)" for q
    by (auto simp: vi_add_raw_def Let_def maps_vectors_def same_shape_def split: if_splits)
  then show ?thesis by blast
next
  case F16
  have "maps_vectors A (fmupd key (um_q16 A (map u16_from_le (chunks_exact 2 bs))))
      (call e (us_add_f16 U key (map u16_from_le (chunks_exact 2 bs))))" for e
    by (rule call_maps) (rule usearch_okD(4) [OF assms])
  from maps_vectorsD [OF this] F16
  have "maps_vectors A (fmupd key (um_q16 A (map u16_from_le (chunks_exact 2 bs)))) (vi_add_raw U of_f16 key bs dtype)"
    unfolding maps_vectors_def by (fastforce simp: vi_add_raw_def Let_def same_shape_def split: if_splits)
  then show ?thesis by blast
next
  case F32
  have "maps_vectors A (fmupd key (um_q32 A (decode_vector of_f16 bs F32)))
      (call e (us_add_f32 U key (decode_vector of_f16 bs F32)))" for e
    by (rule call_maps) (rule usearch_okD(3) [OF assms])
  from maps_vectorsD [OF this] F32
  have "maps_vectors A (fmupd key (um_q32 A (decode_vector of_f16 bs F32))) (vi_add_raw U of_f16 key bs dtype)"
    unfolding maps_vectors_def by (fastforce simp: vi_add_raw_def Let_def same_shape_def split: if_splits)
  then show ?thesis by blast
qed

section \<open>Both indexes\<close>

definition content :: "('x, 'v) us_model \<Rightarrow> entity_kind \<Rightarrow> 'x shard_inner \<Rightarrow> (u64, 'v) fmap" where
  "content A kind n = vectors A (index_of kind n)"

lemma index_of_set [simp]: "index_of k (set_index kind i n) = (if k = kind then i else index_of k n)"
  by (cases k; cases kind) (simp_all add: index_of_def set_index_def)

lemma in_store_set [simp]: "in_store (set_index kind i n) = in_store n"
  by (cases kind) (simp_all add: set_index_def)

lemma content_set [simp]: "content A k (set_index kind i n) = (if k = kind then vectors A i else content A k n)"
  by (simp add: content_def)

text \<open>An operation on the indexes only: the log and the directory stay, each content changes by its function.\<close>

definition changes :: "('x, 'v) us_model \<Rightarrow> (entity_kind \<Rightarrow> (u64, 'v) fmap \<Rightarrow> (u64, 'v) fmap) \<Rightarrow> ('x, 'a) iop \<Rightarrow> bool" where
  "changes A g m \<longleftrightarrow>
     (\<forall>n w r n' v. m (n, w) = (r, (n', v)) \<longrightarrow> v = w \<and> in_store n' = in_store n
        \<and> (\<forall>k. vi_viewed (index_of k n') = vi_viewed (index_of k n) \<and> same_shape (index_of k n) (index_of k n'))
        \<and> (\<forall>x. r = Inr x \<longrightarrow> (\<forall>k. content A k n' = g k (content A k n))))"

lemma changesD:
  assumes "changes A g m" "m (n, w) = (r, (n', v))"
  shows "v = w" "in_store n' = in_store n" "vi_viewed (index_of k n') = vi_viewed (index_of k n)"
    "same_shape (index_of k n) (index_of k n')" "r = Inr x \<Longrightarrow> content A k n' = g k (content A k n)"
  using assms unfolding changes_def by blast+

lemma same_shape_refl [simp]: "same_shape i i"
  by (simp add: same_shape_def)

lemma same_shape_trans: "same_shape i j \<Longrightarrow> same_shape j k \<Longrightarrow> same_shape i k"
  by (simp add: same_shape_def)

lemma changes_ret: "changes A (\<lambda>_ m. m) (ret x)"
  by (simp add: changes_def ret_def)

lemma changes_fail: "changes A g (fail e)"
  by (simp add: changes_def fail_def)

lemma changes_seq:
  assumes "changes A g m" "changes A h k"
  shows "changes A (\<lambda>kind. h kind \<circ> g kind) (seqM m k)"
  unfolding changes_def
proof (intro allI impI)
  fix n w r n' v assume run: "seqM m k (n, w) = (r, (n', v))"
  obtain r1 n1 w1 where m: "m (n, w) = (r1, (n1, w1))" by (metis prod_cases3)
  note M = changesD [OF assms(1) m]
  show "v = w \<and> in_store n' = in_store n
      \<and> (\<forall>k. vi_viewed (index_of k n') = vi_viewed (index_of k n) \<and> same_shape (index_of k n) (index_of k n'))
      \<and> (\<forall>x. r = Inr x \<longrightarrow> (\<forall>k. content A k n' = (h k \<circ> g k) (content A k n)))"
  proof (cases r1)
    case (Inl e)
    with run m M show ?thesis by (auto simp: seqM_def bindM_def)
  next
    case (Inr u)
    with run m have k: "k (n1, w1) = (r, (n', v))" by (simp add: seqM_def bindM_def)
    note K = changesD [OF assms(2) k]
    show ?thesis
      using M(1,2) K(1,2) M(3) K(3) same_shape_trans [OF M(4) K(4)] M(5) [of u] K(5) Inr by (auto simp: comp_def)
  qed
qed

lemma changes_cong: "changes A g m \<Longrightarrow> (\<And>k x. h k x = g k x) \<Longrightarrow> changes A h m"
  by (simp add: changes_def)

lemma in_index_changes:
  assumes "maps_vectors A f m"
  shows "changes A (\<lambda>k. if k = kind then f else (\<lambda>x. x)) (in_index kind m)"
  unfolding changes_def
proof (intro allI impI)
  fix n w r n' v assume run: "in_index kind m (n, w) = (r, (n', v))"
  obtain i where m: "m (index_of kind n, w) = (r, (i, v))" and n': "n' = set_index kind i n"
    using run by (auto simp: in_index_def zoom_def split: prod.splits)
  from maps_vectorsD [OF assms m] n'
  show "v = w \<and> in_store n' = in_store n
      \<and> (\<forall>k. vi_viewed (index_of k n') = vi_viewed (index_of k n) \<and> same_shape (index_of k n) (index_of k n'))
      \<and> (\<forall>x. r = Inr x \<longrightarrow> (\<forall>k. content A k n' = (if k = kind then f else (\<lambda>x. x)) (content A k n)))"
    by (auto simp: content_def)
qed

section \<open>Inserting\<close>

lemma remove_keys_changes:
  assumes "usearch_ok U A" "se_us S = U"
  shows "changes A (\<lambda>k m. if k = kind then fmdrop_set (set ids) m else m) (remove_keys S kind ids)"
  unfolding remove_keys_def
proof (induction ids)
  case Nil
  have "fmdrop_set {} m = m" for m :: "(u64, 'b) fmap" by (rule fmap_ext) simp
  then show ?case by (simp add: changes_def ret_def)
next
  case (Cons i ids)
  have step: "changes A (\<lambda>k. (\<lambda>m. if k = kind then fmdrop_set (set ids) m else m) \<circ> (if k = kind then fmdrop i else (\<lambda>x. x)))
      (forM (\<lambda>i. in_index kind (vi_remove (se_us S) i)) (i # ids))"
    using changes_seq [OF in_index_changes [OF remove_maps [OF assms(1), of i], of kind] Cons] assms(2) by simp
  have "fmdrop_set (set (i # ids)) m = fmdrop_set (set ids) (fmdrop i m)" for m :: "(u64, 'b) fmap"
    by (rule fmap_ext) simp
  then show ?case by (intro changes_cong [OF step]) simp
qed

text \<open>The vectors an insert puts in: the splits in order, and the first summary of each id.\<close>

definition put_splits :: "('x, 'v) us_model \<Rightarrow> split_dto list \<Rightarrow> (u64, 'v) fmap \<Rightarrow> (u64, 'v) fmap" where
  "put_splits A ss m = fold (\<lambda>s. fmupd (sd_split_id s) (um_q32 A (eb_embedding (the (sd_embedding s))))) ss m"

definition put_summaries :: "('x, 'v) us_model \<Rightarrow> summary_dto list \<Rightarrow> (u64, 'v) fmap \<Rightarrow> (u64, 'v) fmap" where
  "put_summaries A us m = fold (\<lambda>u. fmupd (ud_summary_id u) (um_q32 A (eb_embedding (the (ud_embedding u))))) us m"

lemma fmdom_put_splits: "fset (fmdom (put_splits A ss m)) = fset (fmdom m) \<union> sd_split_id ` set ss"
  unfolding put_splits_def by (induction ss arbitrary: m) auto

lemma fmdom_put_summaries: "fset (fmdom (put_summaries A us m)) = fset (fmdom m) \<union> ud_summary_id ` set us"
  unfolding put_summaries_def by (induction us arbitrary: m) auto

lemma upsert_splits_changes:
  assumes "usearch_ok U A" "se_us S = U"
  shows "changes A (\<lambda>k m. if k = ESplit then put_splits A ss m else m) (forM (upsert_split S) ss)"
proof (induction ss)
  case Nil
  then show ?case by (simp add: changes_def ret_def put_splits_def)
next
  case (Cons s ss)
  let ?q = "um_q32 A (eb_embedding (the (sd_embedding s)))"
  have "changes A (\<lambda>k. if k = ESplit then fmupd (sd_split_id s) ?q else (\<lambda>x. x)) (upsert_split S s)"
  proof (cases "sd_embedding s")
    case None
    then show ?thesis by (simp add: upsert_split_def changes_fail)
  next
    case (Some e)
    with in_index_changes [OF upsert_maps [OF assms(1), of "sd_split_id s" "eb_embedding e"], of ESplit] assms(2)
    show ?thesis by (simp add: upsert_split_def cong: if_cong)
  qed
  from changes_seq [OF this Cons]
  have "changes A (\<lambda>k. (\<lambda>m. if k = ESplit then put_splits A ss m else m) \<circ> (if k = ESplit then fmupd (sd_split_id s) ?q else (\<lambda>x. x)))
      (forM (upsert_split S) (s # ss))" by simp
  then show ?case by (rule changes_cong) (simp add: put_splits_def)
qed

lemma upsert_summaries_changes:
  assumes "usearch_ok U A" "se_us S = U"
  shows "changes A (\<lambda>k m. if k = ESummary then put_summaries A (dedup_on ud_summary_id seen us) m else m) (upsert_summaries S us seen)"
proof (induction us arbitrary: seen)
  case Nil
  then show ?case by (simp add: changes_def ret_def put_summaries_def)
next
  case (Cons u us)
  show ?case
  proof (cases "ud_summary_id u \<in> seen")
    case True
    with changes_cong [OF Cons [of seen]] show ?thesis by simp
  next
    case False
    let ?q = "um_q32 A (eb_embedding (the (ud_embedding u)))"
    let ?seen = "insert (ud_summary_id u) seen"
    show ?thesis
    proof (cases "ud_embedding u")
      case None
      with False show ?thesis by (simp add: changes_fail)
    next
      case (Some e)
      have "changes A (\<lambda>k. if k = ESummary then fmupd (ud_summary_id u) ?q else (\<lambda>x. x))
          (in_index ESummary (vi_upsert (se_us S) (ud_summary_id u) (eb_embedding e)))"
        using in_index_changes [OF upsert_maps [OF assms(1), of "ud_summary_id u" "eb_embedding e"], of ESummary] assms(2) Some
        by (simp cong: if_cong)
      from changes_seq [OF this Cons [of ?seen]] False Some
      have "changes A (\<lambda>k. (\<lambda>m. if k = ESummary then put_summaries A (dedup_on ud_summary_id ?seen us) m else m)
            \<circ> (if k = ESummary then fmupd (ud_summary_id u) ?q else (\<lambda>x. x))) (upsert_summaries S (u # us) seen)" by simp
      then show ?thesis by (rule changes_cong) (simp add: put_summaries_def False)
    qed
  qed
qed

text \<open>
  Promotion reads the mapped indexes back from their files. It keeps the content when the files
  are saves of what is mapped, which is so until a file is written that the index does not see.
\<close>

definition files_back :: "'x usearch \<Rightarrow> ('x, 'v) us_model \<Rightarrow> 'x shard_inner \<Rightarrow> world \<Rightarrow> bool" where
  "files_back U A n w \<longleftrightarrow>
     (\<forall>k. vi_viewed (index_of k n) \<longrightarrow>
        (\<exists>bs x. fmlookup (files w) (vi_path (index_of k n)) = Some bs \<and> us_save U x = Some bs
           \<and> um_vectors A x = content A k n))"

lemma load_keeps:
  assumes ok: "usearch_ok U A" and bs: "fmlookup (files w) (vi_path i) = Some bs" "us_save U x = Some bs"
    and run: "vi_load U (i, w) = (r, (j, v))"
  shows "v = w" "same_shape i j" "r = Inr y \<Longrightarrow> vectors A j = um_vectors A x \<and> \<not> vi_viewed j"
  using run bs usearch_okD(6) [OF ok bs(2)]
  by (auto simp: vi_load_def seqM_def bindM_def call_def set_viewed_def modM_def same_shape_def vectors_def
      split: prod.splits if_splits)

lemma promote_index_keeps:
  assumes ok: "usearch_ok U A" "se_us S = U" and backed: "files_back U A n w"
    and run: "promote_index S kind (n, w) = (r, (n', v))"
  shows "v = w" "in_store n' = in_store n" "\<forall>k. k \<noteq> kind \<longrightarrow> index_of k n' = index_of k n"
    "r = Inr u \<Longrightarrow> content A kind n' = content A kind n \<and> \<not> vi_viewed (index_of kind n')"
    "same_shape (index_of kind n) (index_of kind n')"
proof -
  have *: "v = w \<and> in_store n' = in_store n \<and> (\<forall>k. k \<noteq> kind \<longrightarrow> index_of k n' = index_of k n)
    \<and> (\<forall>u. r = Inr u \<longrightarrow> content A kind n' = content A kind n \<and> \<not> vi_viewed (index_of kind n'))
    \<and> same_shape (index_of kind n) (index_of kind n')"
  proof (cases "vi_viewed (index_of kind n)")
    case False
    with run show ?thesis by (auto simp: promote_index_def bindM_def getM_def vi_is_viewed_def ret_def)
  next
    case True
    then obtain i where l: "vi_load U (index_of kind n, w) = (r, (i, v))" and n': "n' = set_index kind i n"
      using run ok(2) by (auto simp: promote_index_def bindM_def getM_def vi_is_viewed_def in_index_def zoom_def split: prod.splits)
    from backed True obtain bs x where b: "fmlookup (files w) (vi_path (index_of kind n)) = Some bs" "us_save U x = Some bs"
      "um_vectors A x = content A kind n" unfolding files_back_def by blast
    from load_keeps [OF ok(1) b(1,2) l] b(3) n' show ?thesis by auto
  qed
  then show "v = w" "in_store n' = in_store n" "\<forall>k. k \<noteq> kind \<longrightarrow> index_of k n' = index_of k n"
    "r = Inr u \<Longrightarrow> content A kind n' = content A kind n \<and> \<not> vi_viewed (index_of kind n')"
    "same_shape (index_of kind n) (index_of kind n')" by blast+
qed

lemma promote_keeps:
  assumes ok: "usearch_ok U A" "se_us S = U" and backed: "files_back U A n w"
    and run: "promote S (n, w) = (Inr u, (n', v))"
  shows "v = w \<and> in_store n' = in_store n \<and> (\<forall>k. content A k n' = content A k n \<and> \<not> vi_viewed (index_of k n')
    \<and> same_shape (index_of k n) (index_of k n'))"
proof -
  from run obtain x n1 w1 where r: "promote_index S ESplit (n, w) = (Inr (), (n1, w1))"
    "promote_index S ESummary (n1, w1) = (Inr u, (n', v))"
    unfolding promote_def by (auto simp: op_inv)
  note P = promote_index_keeps [OF ok backed r(1)]
  have i1: "index_of ESummary n1 = index_of ESummary n" using P(3) by simp
  have backed1: "files_back U A n1 w1"
    unfolding files_back_def
  proof (intro allI impI)
    fix k assume v: "vi_viewed (index_of k n1)"
    with P(4) have "k \<noteq> ESplit" by (cases k) auto
    with i1 have "k = ESummary" "index_of k n1 = index_of k n" by (cases k; simp)+
    with v backed P(1) show "\<exists>bs x. fmlookup (files w1) (vi_path (index_of k n1)) = Some bs \<and> us_save U x = Some bs
           \<and> um_vectors A x = content A k n1"
      unfolding files_back_def content_def by metis
  qed
  note Q = promote_index_keeps [OF ok backed1 r(2)]
  have i2: "index_of ESplit n' = index_of ESplit n1" using Q(3) by simp
  show ?thesis
    using P Q i1 i2 by (auto simp: content_def) (case_tac k; simp)+
qed

section \<open>The log under the indexes\<close>

definition live_ids_of :: "entity_kind \<Rightarrow> store \<Rightarrow> u64 fset" where
  "live_ids_of kind s = (case kind of ESplit \<Rightarrow> fmdom (splits (st_maps s)) | ESummary \<Rightarrow> fmdom (summaries (st_maps s)))"

text \<open>An index holds exactly the live ids of its kind.\<close>

definition in_sync :: "('x, 'v) us_model \<Rightarrow> 'x shard_inner \<Rightarrow> bool" where
  "in_sync A n \<longleftrightarrow> (\<forall>k. fmdom (content A k n) = live_ids_of k (in_store n))"

lemma in_log_run: "in_log m (n, w) = (r, (n', w')) \<longleftrightarrow>
    (\<exists>s. m (in_store n, w) = (r, (s, w')) \<and> n' = n\<lparr>in_store := s\<rparr>)"
  by (auto simp: in_log_def zoom_def split: prod.splits)

lemma index_of_log [simp]: "index_of k (n\<lparr>in_store := s\<rparr>) = index_of k n"
  by (cases k) (simp_all add: index_of_def)

lemma content_log [simp]: "content A k (n\<lparr>in_store := s\<rparr>) = content A k n"
  by (simp add: content_def)

text \<open>The entity maps after an insert: the displaced ids are gone, those of the document are there.\<close>

lemma fminserts_dom: "fset (fmdom (fminserts f g xs m)) = fset (fmdom m) \<union> f ` set xs"
  unfolding fminserts_def by (induction xs arbitrary: m) auto

lemma fmremoves_dom: "fset (fmdom (fmremoves is m)) = fset (fmdom m) - set is"
  unfolding fmremoves_def by (induction "is" arbitrary: m) auto

lemma appended_ids:
  "fst ` set (ap_splits (appended_of E opts i off b doc us seq)) = sd_split_id ` set (dd_splits doc)"
  "fst ` set (ap_summaries (appended_of E opts i off b doc us seq)) = ud_summary_id ` set us"
proof -
  have m: "map (fst \<circ> (\<lambda>(x, l). (f x, g x l))) (zip xs ls) = map f xs" if "length ls = length xs"
    for f :: "'y \<Rightarrow> u64" and g :: "'y \<Rightarrow> loc \<Rightarrow> 'z" and xs and ls :: "loc list"
    using that by (induction xs ls rule: list_induct2') auto
  have "map fst (ap_splits (appended_of E opts i off b doc us seq)) = map sd_split_id (dd_splits doc)"
    unfolding appended_of_def Let_def by (auto intro!: m)
  then show "fst ` set (ap_splits (appended_of E opts i off b doc us seq)) = sd_split_id ` set (dd_splits doc)"
    by (metis list.set_map)
  have "map fst (ap_summaries (appended_of E opts i off b doc us seq)) = map ud_summary_id us"
    unfolding appended_of_def Let_def by (auto intro!: m)
  then show "fst ` set (ap_summaries (appended_of E opts i off b doc us seq)) = ud_summary_id ` set us"
    by (metis list.set_map)
qed

definition displaced_ids :: "entity_kind \<Rightarrow> replaced \<Rightarrow> u64 set" where
  "displaced_ids k rp = (case k of ESplit \<Rightarrow> set (rp_split_ids rp) | ESummary \<Rightarrow> set (rp_summary_ids rp))"

definition document_ids :: "entity_kind \<Rightarrow> document_dto \<Rightarrow> u64 set" where
  "document_ids k doc =
     (case k of ESplit \<Rightarrow> sd_split_id ` set (dd_splits doc) | ESummary \<Rightarrow> ud_summary_id ` set (distinct_summaries doc))"

lemma live_after_insert:
  assumes "st_maps s = maps_after_insert E x doc"
  shows "fset (live_ids_of k s) =
     (fset (live_ids_of k (fst x)) - displaced_ids k (displaced x (dd_document_id doc))) \<union> document_ids k doc"
proof -
  let ?m = "st_maps (fst x)" let ?d = "dd_document_id doc"
  have "fset (fmdom (splits (drop_doc ?d seg ?m))) = fset (fmdom (splits ?m)) - set (rp_split_ids (displaced x ?d))"
    "fset (fmdom (summaries (drop_doc ?d seg ?m))) = fset (fmdom (summaries ?m)) - set (rp_summary_ids (displaced x ?d))" for seg
    by (auto simp: drop_doc_eq displaced_def fmremoves_dom set_live_ids fmdom'_alt_def split: option.splits)
  then show ?thesis
    by (cases k) (simp_all add: assms live_ids_of_def maps_after_insert_def publish_def fminserts_dom appended_here_def
        appended_ids displaced_ids_def document_ids_def)
qed

text \<open>What the index operations of an insert do to the contents.\<close>

definition insert_vectors :: "('x, 'v) us_model \<Rightarrow> document_dto \<Rightarrow> replaced \<Rightarrow> entity_kind \<Rightarrow> (u64, 'v) fmap \<Rightarrow> (u64, 'v) fmap" where
  "insert_vectors A doc rp k m =
     (case k of
        ESplit \<Rightarrow> put_splits A (dd_splits doc) (fmdrop_set (set (rp_split_ids rp)) m)
      | ESummary \<Rightarrow> put_summaries A (distinct_summaries doc) (fmdrop_set (set (rp_summary_ids rp)) m))"

definition index_part :: "'x senv \<Rightarrow> document_dto \<Rightarrow> replaced \<Rightarrow> ('x, replaced) iop" where
  "index_part S doc replaced =
     seqM (remove_keys S ESplit (rp_split_ids replaced))
    (seqM (remove_keys S ESummary (rp_summary_ids replaced))
    (seqM (in_index ESplit (vi_reserve_for (se_us S) (length (dd_splits doc))))
    (seqM (forM (upsert_split S) (dd_splits doc))
    (seqM (upsert_summaries S (opt_list (dd_summaries doc) @ concat (map sd_summaries (dd_splits doc))) {})
    (ret replaced)))))"

lemma index_part_changes:
  assumes "usearch_ok U A" "se_us S = U"
  shows "changes A (insert_vectors A doc rp) (index_part S doc rp)"
proof -
  have r: "changes A (\<lambda>k. if k = ESplit then (\<lambda>m. m) else (\<lambda>m. m)) (in_index ESplit (vi_reserve_for (se_us S) n))" for n
    using in_index_changes [OF reserve_maps [OF assms(1)], of ESplit] assms(2) by simp
  have "changes A (\<lambda>k. (((((\<lambda>m. m)
        \<circ> (\<lambda>m. if k = ESummary then put_summaries A (distinct_summaries doc) m else m))
        \<circ> (\<lambda>m. if k = ESplit then put_splits A (dd_splits doc) m else m))
        \<circ> (if k = ESplit then (\<lambda>m. m) else (\<lambda>m. m)))
        \<circ> (\<lambda>m. if k = ESummary then fmdrop_set (set (rp_summary_ids rp)) m else m))
        \<circ> (\<lambda>m. if k = ESplit then fmdrop_set (set (rp_split_ids rp)) m else m)) (index_part S doc rp)"
    unfolding index_part_def distinct_summaries_def all_summaries_def
    by (intro changes_seq remove_keys_changes [OF assms] upsert_splits_changes [OF assms]
        upsert_summaries_changes [OF assms] changes_ret r)
  then show ?thesis
    by (rule changes_cong) (simp add: insert_vectors_def split: entity_kind.split)
qed

lemma shard_insert_run:
  assumes ok: "usearch_ok U A" "se_us S = U" and backed: "files_back U A n w"
    and run: "shard_insert S doc (n, w) = (Inr rp, (n', w'))"
  shows "store_insert (se_env S) doc (in_store n, w) = (Inr rp, (in_store n', w'))"
    "content A k n' = insert_vectors A doc rp k (content A k n)" "\<not> vi_viewed (index_of k n')"
proof -
  from run obtain n1 w1 n2 w2 where p: "promote S (n, w) = (Inr (), (n1, w1))"
    and l: "in_log (store_insert (se_env S) doc) (n1, w1) = (Inr rp, (n2, w2))"
    and i: "index_part S doc rp (n2, w2) = (Inr rp, (n', w'))"
    by (auto simp: shard_insert_def index_part_def op_inv)
  note P = promote_keeps [OF ok backed p]
  from l P obtain s where s: "store_insert (se_env S) doc (in_store n, w) = (Inr rp, (s, w2))" "n2 = n1\<lparr>in_store := s\<rparr>"
    by (auto simp: in_log_run)
  note C = changesD [OF index_part_changes [OF ok, of doc rp] i]
  from s C(1,2) show "store_insert (se_env S) doc (in_store n, w) = (Inr rp, (in_store n', w'))" by simp
  from C(5) [OF refl, of k] P s(2) show "content A k n' = insert_vectors A doc rp k (content A k n)" by simp
  from C(3) [of k] P s(2) show "\<not> vi_viewed (index_of k n')" by simp
qed

lemma fmdrop_set_dom [simp]: "fset (fmdom (fmdrop_set A m)) = fset (fmdom m) - A"
  by (metis fmdom'_alt_def fmdom'_drop_set)

lemma insert_vectors_dom:
  "fset (fmdom (insert_vectors A doc rp k m)) = (fset (fmdom m) - displaced_ids k rp) \<union> document_ids k doc"
  by (cases k) (simp_all add: insert_vectors_def displaced_ids_def document_ids_def fmdom_put_splits fmdom_put_summaries)

lemma retained_ids:
  "displaced_ids k (retain_removed doc (distinct_summaries doc) rp) = displaced_ids k rp - document_ids k doc"
  by (cases k) (auto simp: displaced_ids_def document_ids_def retain_removed_def Let_def)

lemma shard_insert_keeps_sync:
  assumes ok: "usearch_ok U A" "se_us S = U" and backed: "files_back U A n w"
    and inv: "store_inv (se_env S) sl al (in_store n, w)" "env_ok (se_env S)" "doc_consistent doc"
      "has_room (in_store n, w) (records_of (se_env S) (in_store n, w) doc)"
    and sync: "in_sync A n"
    and run: "shard_insert S doc (n, w) = (Inr rp, (n', w'))"
  shows "in_sync A n'" "\<exists>sl' al'. store_inv (se_env S) sl' al' (in_store n', w')"
    "\<not> vi_viewed (index_of k n')"
proof -
  let ?x = "(in_store n, w)"
  note R = shard_insert_run [OF ok backed run]
  note I = store_invD [OF inv(1)]
  from insert_inv [OF inv(1-4) R(1)] obtain sl' al' where
    j: "store_inv (se_env S) sl' al' (in_store n', w')" "st_maps (in_store n') = maps_after_insert (se_env S) ?x doc" by auto
  have room: "room_for al (records_of (se_env S) ?x doc) ?x" using inv(4) has_room [OF I(1)] by simp
  have rp: "rp = retain_removed doc (distinct_summaries doc) (displaced ?x (dd_document_id doc))"
    by (rule insert_represents(3) [OF R(1) I(1) inv(2) I(2) inv(3) _ room]) (simp add: no_pending_def)
  have "fset (fmdom (content A k n')) = fset (live_ids_of k (in_store n'))" for k
    using sync R(2) [of k] live_after_insert [OF j(2), of k] retained_ids [of k doc] rp
    by (auto simp: insert_vectors_dom in_sync_def)
  then show "in_sync A n'" by (simp add: in_sync_def fset_inject)
  from j(1) show "\<exists>sl' al'. store_inv (se_env S) sl' al' (in_store n', w')" by blast
  show "\<not> vi_viewed (index_of k n')" by (rule R(3))
qed

lemma shard_insert_reads_back:
  assumes ok: "usearch_ok U A" "se_us S = U" and backed: "files_back U A n w"
    and inv: "store_inv (se_env S) sl al (in_store n, w)" "env_ok (se_env S)" "doc_consistent doc" "ids_distinct doc"
      "has_room (in_store n, w) (records_of (se_env S) (in_store n, w) doc)"
    and run: "shard_insert S doc (n, w) = (Inr rp, (n', w'))"
  shows "get_doc (se_env S) (in_store n') w' (dd_document_id doc) emb
    = Inr (Some (stored_doc (se_env S) (st_opts (in_store n)) emb doc))"
proof -
  note I = store_invD [OF inv(1)]
  have room: "room_for al (records_of (se_env S) (in_store n, w) doc) (in_store n, w)" using inv(5) has_room [OF I(1)] by simp
  from get_doc_after_insert [OF shard_insert_run(1) [OF ok backed run] I(1) inv(2) I(2) inv(3) _ room inv(4)]
  show ?thesis by (simp add: no_pending_def)
qed

section \<open>Deleting\<close>

lemma live_after_delete:
  assumes "st_maps s = drop_doc d seg (st_maps (fst x))"
  shows "fset (live_ids_of k s) = fset (live_ids_of k (fst x)) - displaced_ids k (displaced x d)"
proof -
  have "fset (fmdom (splits (drop_doc d seg (st_maps (fst x))))) = fset (fmdom (splits (st_maps (fst x)))) - set (rp_split_ids (displaced x d))"
    "fset (fmdom (summaries (drop_doc d seg (st_maps (fst x))))) = fset (fmdom (summaries (st_maps (fst x)))) - set (rp_summary_ids (displaced x d))"
    by (auto simp: drop_doc_eq displaced_def fmremoves_dom set_live_ids fmdom'_alt_def split: option.splits)
  then show ?thesis by (cases k) (simp_all add: assms live_ids_of_def displaced_ids_def)
qed

lemma shard_delete_keeps_sync:
  assumes ok: "usearch_ok U A" "se_us S = U" and backed: "files_back U A n w"
    and inv: "store_inv (se_env S) sl al (in_store n, w)" "env_ok (se_env S)"
      "has_room (in_store n, w) (delete_log (se_env S) (in_store n, w) d)"
    and sync: "in_sync A n"
    and run: "shard_delete S d (n, w) = (Inr b, (n', w'))"
  shows "in_sync A n' \<and> fmlookup (docs (st_maps (in_store n'))) d = None \<and> (b \<longleftrightarrow> contains_doc (in_store n) d)"
proof (cases "contains_doc (in_store n) d")
  case False
  with run have "n' = n" "\<not> b" by (auto simp: shard_delete_def op_inv)
  with sync False show ?thesis by (simp add: contains_doc_def)
next
  case True
  let ?x = "(in_store n, w)"
  have live: "is_live ?x d" using True by (simp add: is_live_def contains_doc_def)
  from run True obtain n1 w1 n2 w2 r where p: "promote S (n, w) = (Inr (), (n1, w1))"
    and l: "in_log (store_delete (se_env S) d) (n1, w1) = (Inr r, (n2, w2))"
    and i: "(case r of None \<Rightarrow> ret False | Some removed \<Rightarrow>
         seqM (remove_keys S ESplit (rd_split_ids removed))
         (seqM (remove_keys S ESummary (rd_summary_ids removed)) (ret True))) (n2, w2) = (Inr b, (n', w'))"
    by (auto simp: shard_delete_def op_inv)
  note P = promote_keeps [OF ok backed p]
  from l P obtain s where s: "store_delete (se_env S) d ?x = (Inr r, (s, w2))" "n2 = n1\<lparr>in_store := s\<rparr>"
    by (auto simp: in_log_run)
  note I = store_invD [OF inv(1)]
  have room: "room_for al (delete_log (se_env S) ?x d) ?x" using inv(3) has_room [OF I(1)] by simp
  from delete_represents [OF s(1) live I(1) inv(2) I(2) room] obtain removed m where
    m: "st_maps s = drop_doc d (active_id ?x) (st_maps (in_store n))"
    and rm: "remove_doc d (active_id ?x) (st_maps (in_store n)) = Some (removed, m)" "r = Some removed" by auto
  from live obtain e where e: "fmlookup (docs (st_maps (in_store n))) d = Some e" by (auto simp: is_live_def)
  from remove_doc_spec [OF e, of "active_id ?x"] rm(1)
  have ids: "rd_split_ids removed = rp_split_ids (displaced ?x d)" "rd_summary_ids removed = rp_summary_ids (displaced ?x d)"
    using e by (auto simp: displaced_def)
  have "changes A (\<lambda>k. ((\<lambda>m. m) \<circ> (\<lambda>m. if k = ESummary then fmdrop_set (set (rd_summary_ids removed)) m else m))
        \<circ> (\<lambda>m. if k = ESplit then fmdrop_set (set (rd_split_ids removed)) m else m))
      (seqM (remove_keys S ESplit (rd_split_ids removed)) (seqM (remove_keys S ESummary (rd_summary_ids removed)) (ret True)))"
    by (intro changes_seq remove_keys_changes [OF ok] changes_ret)
  note C = changesD [OF this i [unfolded rm(2), simplified]]
  have "fset (fmdom (content A k n')) = fset (live_ids_of k (in_store n'))" for k
  proof -
    have "fset (fmdom (content A k n')) = fset (fmdom (content A k n)) - displaced_ids k (displaced ?x d)"
      using C(5) [OF refl, of k] P s(2) by (cases k) (simp_all add: displaced_ids_def ids)
    moreover have "in_store n' = s" using C(2) s(2) by simp
    ultimately show ?thesis using sync live_after_delete [of s d "active_id ?x" ?x k] m by (simp add: in_sync_def)
  qed
  moreover have "in_store n' = s" using C(2) s(2) by simp
  moreover have "b" using i rm(2) by (auto simp: op_inv)
  ultimately show ?thesis using True m by (simp add: in_sync_def fset_inject)
qed

end
