(* ===== verification/Shard_Search.thy ===== *)
theory Shard_Search
  imports Shard_Facts
begin

text \<open>
  Rebuilding the indexes from the log, which works on empty indexes only, and the exact search
  over a filter: the nearest of the filtered documents' entities, in one order.
\<close>

section \<open>Rebuilding\<close>

lemma add_absent:
  assumes "usearch_ok U A"
  shows "us_add_f32 U k v x = (True, x') \<Longrightarrow> k |\<notin>| fmdom (um_vectors A x)"
    "us_add_f16 U k h x = (True, x') \<Longrightarrow> k |\<notin>| fmdom (um_vectors A x)"
  using assms unfolding usearch_ok_def by - (elim conjE, blast)+

lemma add_raw_absent:
  assumes "usearch_ok U A" "vi_add_raw U of_f16 key bs dtype (i, w) = (Inr u, (j, v))"
  shows "key |\<notin>| fmdom (vectors A i)"
  using assms(2) add_absent [OF assms(1)]
  by (auto simp: vi_add_raw_def Let_def call_def vectors_def split: if_splits vector_dtype.splits prod.splits)

text \<open>A pass over the log adds every id it visits, none of which may be there before.\<close>

definition adds_ids :: "('x, 'v) us_model \<Rightarrow> u64 list \<Rightarrow> ('x, unit) xop \<Rightarrow> bool" where
  "adds_ids A ids m \<longleftrightarrow>
     (\<forall>i w r j v. m (i, w) = (r, (j, v)) \<longrightarrow> v = w \<and> same_shape i j \<and> vi_viewed j = vi_viewed i
        \<and> (\<forall>x. r = Inr x \<longrightarrow> fset (fmdom (vectors A j)) = fset (fmdom (vectors A i)) \<union> set ids
             \<and> set ids \<inter> fset (fmdom (vectors A i)) = {} \<and> distinct ids))"

lemma visit_adds:
  assumes ok: "usearch_ok U A"
  shows "adds_ids A (map fst ls) (visit_vectors E s w0
    (\<lambda>i bs dtype. if dtype = NoVector then fail (NothingToIndex i) else vi_add_raw U of_f16 i bs dtype) ls)"
proof (induction ls)
  case Nil
  then show ?case by (simp add: adds_ids_def ret_def)
next
  case (Cons p ls)
  obtain k l where p: "p = (k, l)" by fastforce
  let ?f = "\<lambda>i bs dtype. if dtype = NoVector then fail (NothingToIndex i) else vi_add_raw U of_f16 i bs dtype"
  let ?r = "bindR (read_record s w0 l) (\<lambda>bs. lift_decode (decode (e_crc E) bs))"
  show ?case
    unfolding adds_ids_def
  proof (intro allI impI)
    fix i w r j v assume run: "visit_vectors E s w0 ?f (p # ls) (i, w) = (r, (j, v))"
    show "v = w \<and> same_shape i j \<and> vi_viewed j = vi_viewed i
        \<and> (\<forall>x. r = Inr x \<longrightarrow> fset (fmdom (vectors A j)) = fset (fmdom (vectors A i)) \<union> set (map fst (p # ls))
             \<and> set (map fst (p # ls)) \<inter> fset (fmdom (vectors A i)) = {} \<and> distinct (map fst (p # ls)))"
    proof (cases ?r)
      case (Inl e)
      with run p show ?thesis by (auto simp: bindM_def liftM_def)
    next
      case (Inr view)
      obtain r1 i1 w1 where a: "?f k (rv_vector view) (rv_dtype view) (i, w) = (r1, (i1, w1))" by (metis prod_cases3)
      show ?thesis
      proof (cases "rv_dtype view = NoVector")
        case True
        with a Inr run p show ?thesis by (auto simp: bindM_def liftM_def seqM_def fail_def)
      next
        case False
        with a have a': "vi_add_raw U of_f16 k (rv_vector view) (rv_dtype view) (i, w) = (r1, (i1, w1))" by simp
        obtain q where "maps_vectors A (fmupd k q) (vi_add_raw U of_f16 k (rv_vector view) (rv_dtype view))"
          using add_raw_maps [OF ok] by blast
        note M = maps_vectorsD [OF this a']
        show ?thesis
        proof (cases r1)
          case (Inl e)
          with a Inr run p M(1-3) show ?thesis by (auto simp: bindM_def liftM_def seqM_def)
        next
          case r1: (Inr u)
          have rest: "visit_vectors E s w0 ?f ls (i1, w1) = (r, (j, v))"
            using a Inr r1 run p by (auto simp: bindM_def liftM_def seqM_def)
          have k: "k \<notin> fset (fmdom (vectors A i))" using add_raw_absent [OF ok] a' r1 by blast
          have d: "fset (fmdom (vectors A i1)) = insert k (fset (fmdom (vectors A i)))" using M(4) [OF r1] by simp
          from Cons rest have "v = w1 \<and> same_shape i1 j \<and> vi_viewed j = vi_viewed i1
            \<and> (\<forall>x. r = Inr x \<longrightarrow> fset (fmdom (vectors A j)) = fset (fmdom (vectors A i1)) \<union> set (map fst ls)
              \<and> set (map fst ls) \<inter> fset (fmdom (vectors A i1)) = {} \<and> distinct (map fst ls))"
            unfolding adds_ids_def by blast
          with M(1-3) k d p show ?thesis by (auto simp: same_shape_def)
        qed
      qed
    qed
  qed
qed

lemma map_fst_live_locs:
  assumes "env_ok E"
  shows "set (map fst (live_locs E s k)) = fset (live_ids_of k s)"
proof -
  have o: "set (e_order E S) = fset S" for S using assms by (simp add: env_ok_def order_ok_def)
  have "set (map fst (live_locs E s k)) = {i. i |\<in>| live_ids_of k s \<and> entity_loc s k i \<noteq> None}"
    by (cases k) (auto simp: live_locs_def live_ids_of_def o entity_loc_def image_iff fmlookup_dom_iff split: option.splits)
  moreover have "entity_loc s k i \<noteq> None" if "i |\<in>| live_ids_of k s" for i
    using that by (cases k) (auto simp: live_ids_of_def entity_loc_def fmlookup_dom_iff)
  ultimately show ?thesis by auto
qed

lemma fill_index_adds:
  assumes ok: "usearch_ok U A" "se_us S = U" and env: "env_ok (se_env S)"
    and run: "fill_index S kind (n, w) = (r, (n', v))"
  shows "v = w" "in_store n' = in_store n" "\<And>k. k \<noteq> kind \<Longrightarrow> index_of k n' = index_of k n"
    "r = Inr u \<Longrightarrow> fset (fmdom (content A kind n')) = fset (fmdom (content A kind n)) \<union> fset (live_ids_of kind (in_store n))
       \<and> fset (live_ids_of kind (in_store n)) \<inter> fset (fmdom (content A kind n)) = {}"
proof -
  let ?m = "for_each_live_vector (se_env S) (in_store n) w kind
       (\<lambda>i bs dtype. if dtype = NoVector then fail (NothingToIndex i) else vi_add_raw (se_us S) (e_of_f16 (se_env S)) i bs dtype)"
  obtain j where m: "?m (index_of kind n, w) = (r, (j, v))" "n' = set_index kind j n"
    using run by (auto simp: fill_index_def in_index_def zoom_def split: prod.splits)
  have "adds_ids A (map fst (live_locs (se_env S) (in_store n) kind)) ?m"
    unfolding for_each_live_vector_def using visit_adds ok by blast
  with m(1) have *: "v = w \<and> (\<forall>x. r = Inr x \<longrightarrow> fset (fmdom (vectors A j)) = fset (fmdom (content A kind n)) \<union> fset (live_ids_of kind (in_store n))
       \<and> fset (live_ids_of kind (in_store n)) \<inter> fset (fmdom (content A kind n)) = {})"
    unfolding adds_ids_def content_def map_fst_live_locs [OF env] by blast
  then show "v = w" "in_store n' = in_store n" "\<And>k. k \<noteq> kind \<Longrightarrow> index_of k n' = index_of k n" using m(2) by simp_all
  show "fset (fmdom (content A kind n')) = fset (fmdom (content A kind n)) \<union> fset (live_ids_of kind (in_store n))
       \<and> fset (live_ids_of kind (in_store n)) \<inter> fset (fmdom (content A kind n)) = {}" if "r = Inr u"
    using * that m(2) by simp
qed

lemma reserve_keeps:
  assumes ok: "usearch_ok U A" "se_us S = U"
    and run: "in_index kind (vi_reserve_for (se_us S) c) (n, w) = (Inr u, (n', v))"
  shows "v = w \<and> in_store n' = in_store n \<and> content A k n' = content A k n"
proof -
  have "changes A (\<lambda>k. if k = kind then (\<lambda>m. m) else (\<lambda>m. m)) (in_index kind (vi_reserve_for (se_us S) c))"
    using in_index_changes [OF reserve_maps [OF ok(1)], of kind] ok(2) by simp
  from changesD [OF this run] show ?thesis by simp
qed

lemma rebuild_fills:
  assumes ok: "usearch_ok U A" "se_us S = U" and env: "env_ok (se_env S)"
    and run: "rebuild S (n, w) = (Inr u, (n', v))"
  shows "v = w \<and> in_store n' = in_store n
    \<and> (\<forall>k. fset (fmdom (content A k n')) = fset (fmdom (content A k n)) \<union> fset (live_ids_of k (in_store n))
         \<and> fset (live_ids_of k (in_store n)) \<inter> fset (fmdom (content A k n)) = {})"
proof -
  obtain n1 w1 n2 w2 n3 w3 c c' where
    r1: "in_index ESplit (vi_reserve_for (se_us S) c) (n, w) = (Inr (), (n1, w1))" and
    r2: "in_index ESummary (vi_reserve_for (se_us S) c') (n1, w1) = (Inr (), (n2, w2))" and
    f1: "fill_index S ESplit (n2, w2) = (Inr (), (n3, w3))" and
    f2: "fill_index S ESummary (n3, w3) = (Inr u, (n', v))"
    using run by (auto simp: rebuild_def op_inv)
  note R1 = reserve_keeps [OF ok r1]  note R2 = reserve_keeps [OF ok r2]
  note F1 = fill_index_adds [OF ok env f1]  note F2 = fill_index_adds [OF ok env f2]
  have s: "v = w" "in_store n' = in_store n" "in_store n2 = in_store n" "in_store n3 = in_store n"
    using R1 R2 F1(1,2) F2(1,2) by simp_all
  have c2: "content A k n2 = content A k n" for k using R1 [of k] R2 [of k] by simp
  have "content A ESummary n3 = content A ESummary n" using F1(3) [of ESummary] c2 by (simp add: content_def)
  moreover have "content A ESplit n' = content A ESplit n3" using F2(3) [of ESplit] by (simp add: content_def)
  ultimately have "fset (fmdom (content A k n')) = fset (fmdom (content A k n)) \<union> fset (live_ids_of k (in_store n))
         \<and> fset (live_ids_of k (in_store n)) \<inter> fset (fmdom (content A k n)) = {}" for k
    using F1(4) [OF refl] F2(4) [OF refl] c2 s by (cases k) simp_all
  with s show ?thesis by blast
qed

lemma rebuild_from_empty:
  assumes "usearch_ok U A" "se_us S = U" "env_ok (se_env S)" "rebuild S (n, w) = (Inr u, (n', v))"
    and "\<forall>k. content A k n = fmempty"
  shows "in_sync A n' \<and> in_store n' = in_store n"
proof -
  from rebuild_fills [OF assms(1-4)] have
    r: "in_store n' = in_store n" "\<forall>k. fset (fmdom (content A k n')) = fset (live_ids_of k (in_store n))"
    using assms(5) by simp_all
  then show ?thesis by (simp add: in_sync_def fset_inject)
qed

text \<open>Starting over does not empty the indexes, so it fails when one still holds a live id.\<close>

lemma start_over_needs_empty:
  assumes ok: "usearch_ok U A" "se_us S = U" and env: "env_ok (se_env S)"
    and held: "i |\<in>| fmdom (content A k n)" "i |\<in>| live_ids_of k (in_store n)"
  shows "fst (start_over S (n, w)) \<noteq> Inr u"
proof
  assume "fst (start_over S (n, w)) = Inr u"
  then obtain z where "start_over S (n, w) = (Inr u, z)" by (cases "start_over S (n, w)") auto
  then obtain x1 x2 x3 where s1: "in_dir (vi_remove_file (in_splits n)) (n, w) = (Inr (), x1)"
    and s2: "in_dir (vi_remove_file (in_summaries (fst x1))) x1 = (Inr (), x2)"
    and s3: "in_dir index_state_remove x2 = (Inr (), x3)"
    and rb: "rebuild S x3 = (Inr u, z)"
    by (auto simp: start_over_def op_inv)
  have "fst x1 = n" "fst x2 = fst x1" "fst x3 = fst x2"
    using s1 s2 s3 by (auto simp: in_dir_def zoom_def split: prod.splits)
  then have "x3 = (n, snd x3)" by (metis prod.collapse)
  with rb have "rebuild S (n, snd x3) = (Inr u, (fst z, snd z))" by simp
  from rebuild_fills [OF ok env this] held show False by auto
qed

section \<open>Exact search\<close>

lemma collect_success:
  "collect f is = Inr out \<Longrightarrow>
     out = List.map_filter (\<lambda>i. case f i of Inl _ \<Rightarrow> None | Inr r \<Rightarrow> r) is \<and> (\<forall>i \<in> set is. \<exists>r. f i = Inr r)"
proof (induction "is" arbitrary: out)
  case (Cons i js)
  from Cons.prems obtain r o' where "f i = Inr r" "collect f js = Inr o'" "out = (case r of None \<Rightarrow> o' | Some x \<Rightarrow> x # o')"
    by (auto simp: bindR_Inr)
  with Cons.IH show ?case by (auto simp: List.map_filter_simps split: option.split)
qed (simp add: List.map_filter_simps)

text \<open>The candidates with the distance of their stored vector.\<close>

definition scored_candidates :: "'x senv \<Rightarrow> 'x shard_inner \<Rightarrow> world \<Rightarrow> entity_kind \<Rightarrow> f32 list \<Rightarrow> u64 fset \<Rightarrow> (u64 \<times> f32) set" where
  "scored_candidates S n w kind query doc_ids =
     {p. \<exists>i \<in> set (candidates_of (se_env S) (in_store n) kind doc_ids).
           score (se_env S) (in_store n) w (vi_metric (index_of kind n)) kind query i = Inr (Some p)}"

lemma score_key: "score E s w m kind q i = Inr (Some p) \<Longrightarrow> fst p = i"
  by (auto simp: score_def bindR_Inr)

lemma length_candidates: "length (candidates_of E s kind ids) = candidate_count E s kind ids"
  by (cases kind) (auto simp: candidates_of_def candidate_count_def entity_count_def owned_summary_ids_def opt_list_def
      length_concat comp_def split: option.split intro!: arg_cong [where f = sum_list] map_cong)

lemma in_map_filter: "y \<in> set (List.map_filter f xs) \<longleftrightarrow> (\<exists>x \<in> set xs. f x = Some y)"
  by (induction xs) (auto simp: List.map_filter_simps split: option.split)

lemma distinct_map_filter_keys:
  assumes "distinct is" "\<And>i p. i \<in> set is \<Longrightarrow> g i = Some p \<Longrightarrow> fst p = i"
  shows "distinct (map fst (List.map_filter g is))"
proof -
  have "map fst (List.map_filter g is) = filter (\<lambda>i. g i \<noteq> None) is"
    using assms(2) by (induction "is") (auto simp: List.map_filter_simps split: option.split)
  with assms(1) show ?thesis by simp
qed

text \<open>The same as a list: an entity that the documents list twice is scored twice.\<close>

definition scored_list :: "'x senv \<Rightarrow> 'x shard_inner \<Rightarrow> world \<Rightarrow> entity_kind \<Rightarrow> f32 list \<Rightarrow> u64 fset \<Rightarrow> (u64 \<times> f32) list" where
  "scored_list S n w kind query doc_ids = List.map_filter
     (\<lambda>i. case score (se_env S) (in_store n) w (vi_metric (index_of kind n)) kind query i of Inl _ \<Rightarrow> None | Inr r \<Rightarrow> r)
     (candidates_of (se_env S) (in_store n) kind doc_ids)"

lemma set_scored_list: "set (scored_list S n w kind query ids) = scored_candidates S n w kind query ids"
proof -
  let ?f = "score (se_env S) (in_store n) w (vi_metric (index_of kind n)) kind query"
  have "(case ?f i of Inl _ \<Rightarrow> None | Inr r \<Rightarrow> r) = Some p \<longleftrightarrow> ?f i = Inr (Some p)" for i p by (auto split: sum.splits)
  then show ?thesis unfolding scored_list_def scored_candidates_def by (auto simp: in_map_filter)
qed

lemma distinct_scored_list:
  "distinct (candidates_of (se_env S) (in_store n) kind ids) \<Longrightarrow> distinct (map fst (scored_list S n w kind query ids))"
  unfolding scored_list_def by (rule distinct_map_filter_keys) (auto split: sum.splits intro: score_key)

lemma brute_force_exact:
  assumes run: "brute_force S n w kind query top_k ids = Inr hits"
    and xs: "mset xs = mset (scored_list S n w kind query ids)"
  shows "hits = take top_k (sort_by hit_le xs)"
proof -
  let ?f = "score (se_env S) (in_store n) w (vi_metric (index_of kind n)) kind query"
  from run obtain scored where c: "collect ?f (candidates_of (se_env S) (in_store n) kind ids) = Inr scored"
    and h: "hits = take top_k (sort_by hit_le scored)"
    by (auto simp: brute_force_def bindR_Inr)
  from collect_success [OF c] have "scored = scored_list S n w kind query ids" by (simp add: scored_list_def)
  with xs have "mset scored = mset xs" by simp
  from hits.sort_by_mset [OF this] h show ?thesis by simp
qed

lemma shard_search_exact:
  assumes run: "shard_search S bound n w kind query top_k (Some ids) = Inr hits"
    and small: "candidate_count (se_env S) (in_store n) kind ids \<le> bound"
    and xs: "mset xs = mset (scored_list S n w kind query ids)"
  shows "hits = im_collect (take top_k (sort_by hit_le xs))"
proof (cases "top_k = 0 \<or> candidate_count (se_env S) (in_store n) kind ids = 0")
  case True
  have "xs = []" if "candidate_count (se_env S) (in_store n) kind ids = 0"
    using that xs length_candidates [of "se_env S" "in_store n" kind ids] by (simp add: scored_list_def List.map_filter_simps)
  with True run show ?thesis by (auto simp: shard_search_def Let_def im_collect_def im_extend_def split: if_splits)
next
  case False
  with run small obtain hs where b: "brute_force S n w kind query top_k ids = Inr hs" "hits = im_collect hs"
    by (auto simp: shard_search_def Let_def bindR_Inr)
  from brute_force_exact [OF b(1) xs] b(2) show ?thesis by simp
qed

lemma distinct_hits:
  assumes "distinct (map fst xs)"
  shows "im_collect (take k (sort_by hit_le xs)) = take k (sort_by hit_le xs)"
proof (rule im_collect_distinct)
  have "mset (map fst (sort_by hit_le xs)) = mset (map fst xs)" by (simp add: mset_map)
  then have "distinct (map fst (sort_by hit_le xs))" using assms mset_eq_imp_distinct_iff by blast
  then show "distinct (map fst (take k (sort_by hit_le xs)))" unfolding take_map [symmetric] by (rule distinct_take)
qed

end
