(* ===== verification/Processing_Facts.thy ===== *)
theory Processing_Facts
  imports Processing Store_Replay
begin

text \<open>
  What document processing gives the store: a document whose parts name it and carry the vectors
  the service answered, with one name per split, and when that document meets the store's
  contract; and where the names of two summaries of one split coincide.
\<close>

section \<open>Names\<close>

fun number_of :: "ustring \<Rightarrow> nat \<Rightarrow> nat" where
  "number_of [] a = a"
| "number_of (c # cs) a = number_of cs (a * 10 + (unat c - 48))"

lemma number_of_append: "number_of (cs @ ds) a = number_of ds (number_of cs a)"
  by (induction cs arbitrary: a) simp_all

lemma unat_digit: "d < 10 \<Longrightarrow> unat (word_of_nat (48 + d) :: u8) = 48 + d"
  by (simp only: unat_of_nat) simp

lemma number_of_digits: "number_of (digits n) 0 = n"
proof (induction n rule: digits.induct)
  case (1 n)
  show ?case
  proof (cases "n < 10")
    case False
    moreover have "unat (word_of_nat (48 + n mod 10) :: u8) = 48 + n mod 10" by (rule unat_digit) simp
    ultimately show ?thesis using 1 by (simp add: digits.simps [of n] number_of_append del: of_nat_add)
  qed (use unat_digit [of n] in \<open>simp add: digits.simps [of n] del: of_nat_add\<close>)
qed

lemma digits_inj [simp]: "digits m = digits n \<longleftrightarrow> m = n"
  by (metis number_of_digits)

lemma digits_head: "\<exists>c cs. digits n = c # cs \<and> 48 \<le> unat c"
proof (induction n rule: digits.induct)
  case (1 n)
  show ?case
  proof (cases "n < 10")
    case True
    then show ?thesis using unat_digit [of n] by (simp add: digits.simps [of n] del: of_nat_add)
  next
    case False
    with 1 obtain c cs where "digits (n div 10) = c # cs" "48 \<le> unat c" by blast
    with False show ?thesis by (simp add: digits.simps [of n])
  qed
qed

lemma digits_no_minus: "digits n \<noteq> 45 # cs"
proof
  assume "digits n = 45 # cs"
  with digits_head [of n] have "48 \<le> unat (45 :: u8)" by auto
  then show False by simp
qed

lemma show_i32_inj: "show_i32 i = show_i32 j \<longleftrightarrow> i = j"
proof
  assume eq: "show_i32 i = show_i32 j"
  have "sint i = sint j"
    using eq digits_no_minus [of "nat (sint i)"] digits_no_minus [of "nat (sint j)"]
    by (auto simp: show_i32_def split: if_splits dest: sym)
  then show "i = j" by (simp add: signed_word_eqI)
qed simp

lemma split_name_inj: "split_name doc_id i = split_name doc_id j \<longleftrightarrow> i = j"
  by (simp add: split_name_def show_i32_inj)

section \<open>What processing returns\<close>

lemma mapR_member: "mapR f xs = Inr ys \<Longrightarrow> y \<in> set ys \<Longrightarrow> \<exists>x \<in> set xs. f x = Inr y"
  by (induction xs arbitrary: ys) (auto simp: bindR_Inr)

text \<open>
  A summary of a split: it names the document and the split, its text is one of the sentences, and
  its vector is the slice of the concatenated vectors of the sentences at that sentence's place.
\<close>

definition summary_fits :: "processing_context \<Rightarrow> u64 \<Rightarrow> split_dto \<Rightarrow> f32 list \<Rightarrow> summary_dto \<Rightarrow> bool" where
  "summary_fits ctx doc_id s embeddings u \<longleftrightarrow>
     ud_document_id u = doc_id \<and> ud_split_id u = sd_split_id s
     \<and> (\<exists>i < length (fst (get_sentences ctx (sd_text_content s))).
          ud_text_content u = fst (get_sentences ctx (sd_text_content s)) ! i
          \<and> (i + 1) * pc_n_embd ctx \<le> length embeddings
          \<and> ud_embedding u = Some \<lparr> eb_embedding_id = ud_summary_id u,
               eb_embedding = take (pc_n_embd ctx) (drop (i * pc_n_embd ctx) embeddings), eb_model_id = pc_model_id ctx \<rparr>)"

text \<open>A split of a document: the service answered its text and its sentences, and it carries that answer.\<close>

definition split_fits :: "processing_context \<Rightarrow> u64 \<Rightarrow> split_dto \<Rightarrow> bool" where
  "split_fits ctx doc_id s \<longleftrightarrow>
     sd_doc_id s = doc_id \<and> sd_split_id s = pc_hasher ctx (split_name doc_id (sd_sequence_id s))
     \<and> (\<exists>v rest. get_embeddings ctx (sd_text_content s # fst (get_sentences ctx (sd_text_content s))) (sd_split_id s) = Inr (v # rest)
          \<and> sd_embedding s = Some \<lparr> eb_embedding_id = sd_split_id s, eb_embedding = v, eb_model_id = pc_model_id ctx \<rparr>
          \<and> (\<forall>u \<in> set (sd_summaries s). summary_fits ctx doc_id s (concat rest) u))"

lemma summary_of_Inr:
  assumes "summary_of ctx sentences no_tokens embeddings doc_id split_id r = Inr u"
  shows "ud_document_id u = doc_id" "ud_split_id u = split_id"
    "fst r < length sentences" "ud_text_content u = sentences ! fst r"
    "(fst r + 1) * pc_n_embd ctx \<le> length embeddings"
    "ud_embedding u = Some \<lparr> eb_embedding_id = ud_summary_id u,
       eb_embedding = take (pc_n_embd ctx) (drop (fst r * pc_n_embd ctx) embeddings), eb_model_id = pc_model_id ctx \<rparr>"
  using assms by (auto simp: summary_of_def Let_def split: prod.splits if_splits)

lemma process_summaries_Inr:
  assumes "process_summaries ctx sentences no_tokens embeddings doc_id split_id = Inr us" "u \<in> set us"
  shows "\<exists>r. summary_of ctx sentences no_tokens embeddings doc_id split_id r = Inr u"
proof -
  from assms obtain rs where "mapR (summary_of ctx sentences no_tokens embeddings doc_id split_id) rs = Inr us"
    by (auto simp: process_summaries_def split: if_splits option.splits)
  from mapR_member [OF this assms(2)] show ?thesis by blast
qed

lemma process_split_fits:
  assumes run: "process_split ctx r doc_id seq_id = Inr s"
  shows "split_fits ctx doc_id s" "sd_sequence_id s = seq_id" "sd_text_content s = sr_split_string r"
proof -
  obtain sentences no_tokens where st: "get_sentences ctx (sr_split_string r) = (sentences, no_tokens)" by fastforce
  let ?id = "pc_hasher ctx (split_name doc_id seq_id)"
  from run st obtain es where es: "get_embeddings ctx (sr_split_string r # sentences) ?id = Inr es"
    by (auto simp: process_split_def Let_def bindR_Inr)
  from run st es obtain v rest us where v: "es = v # rest"
    and us: "process_summaries ctx sentences no_tokens (concat rest) doc_id ?id = Inr us"
    and s: "s = \<lparr> sd_split_id = ?id, sd_sequence_id = seq_id, sd_doc_id = doc_id,
                sd_text_content = sr_split_string r,
                sd_token_len = word_of_nat (length (sr_tokens r)), sd_summaries = us,
                sd_embedding = Some \<lparr> eb_embedding_id = ?id, eb_embedding = v, eb_model_id = pc_model_id ctx \<rparr>,
                sd_query_distance = None, sd_rank = None \<rparr>"
    by (auto simp: process_split_def Let_def bindR_Inr split: list.splits)
  have "summary_fits ctx doc_id s (concat rest) u" if "u \<in> set us" for u
  proof -
    from process_summaries_Inr [OF us that] obtain p where
      p: "summary_of ctx sentences no_tokens (concat rest) doc_id ?id p = Inr u" by blast
    show ?thesis using summary_of_Inr [OF p] st unfolding summary_fits_def by (auto simp: s)
  qed
  with v es st show "split_fits ctx doc_id s" by (simp add: split_fits_def s)
  show "sd_sequence_id s = seq_id" "sd_text_content s = sr_split_string r" by (simp_all add: s)
qed

lemma keep_processed_Inr: "keep_processed (map f xs) = Inr ss \<Longrightarrow>
    ss = List.map_filter (\<lambda>x. case f x of Inl _ \<Rightarrow> None | Inr s \<Rightarrow> Some s) xs"
proof (induction xs arbitrary: ss)
  case (Cons x xs)
  then show ?case
    by (cases "f x") (auto simp: bindR_Inr List.map_filter_simps split: if_splits)
qed (simp add: List.map_filter_simps)

text \<open>A document is its splits in order, less those whose processing failed.\<close>

lemma process_document_splits:
  assumes "process_document ctx url text = Inr doc"
  shows "dd_document_id doc = pc_hasher ctx url" "dd_document_url doc = url"
    "dd_splits doc = List.map_filter (\<lambda>(i, r). case process_split ctx r (pc_hasher ctx url) (word_of_nat i) of
        Inl _ \<Rightarrow> None | Inr s \<Rightarrow> Some s) (enumerate 0 (pc_splitter ctx text))"
    "dd_summaries doc = Some (concat (map sd_summaries (dd_splits doc)))"
proof -
  let ?f = "\<lambda>p. process_split ctx (snd p) (pc_hasher ctx url) (word_of_nat (fst p))"
  from assms obtain ss where ss: "keep_processed (map ?f (enumerate 0 (pc_splitter ctx text))) = Inr ss"
    and doc: "doc = \<lparr> dd_document_id = pc_hasher ctx url, dd_document_url = url, dd_splits = ss,
        dd_summaries = Some (concat (map sd_summaries ss)) \<rparr>"
    by (auto simp: process_document_def Let_def bindR_Inr case_prod_unfold)
  from doc show "dd_document_id doc = pc_hasher ctx url" "dd_document_url doc = url"
    "dd_summaries doc = Some (concat (map sd_summaries (dd_splits doc)))" by simp_all
  from keep_processed_Inr [OF ss] doc
  show "dd_splits doc = List.map_filter (\<lambda>(i, r). case process_split ctx r (pc_hasher ctx url) (word_of_nat i) of
        Inl _ \<Rightarrow> None | Inr s \<Rightarrow> Some s) (enumerate 0 (pc_splitter ctx text))"
    by (simp add: case_prod_unfold)
qed

lemma process_document_fits:
  assumes "process_document ctx url text = Inr doc" "s \<in> set (dd_splits doc)"
  shows "split_fits ctx (dd_document_id doc) s"
proof -
  from assms(2) process_document_splits [OF assms(1)]
  obtain i r where "process_split ctx r (dd_document_id doc) (word_of_nat i) = Inr s"
    by (auto simp: List.map_filter_def split: sum.splits)
  then show ?thesis by (rule process_split_fits(1))
qed

lemma process_document_summaries:
  assumes "process_document ctx url text = Inr doc"
  shows "set (all_summaries doc) = (\<Union>s \<in> set (dd_splits doc). set (sd_summaries s))"
  using process_document_splits(4) [OF assms] by (auto simp: all_summaries_def opt_list_def)

text \<open>
  With the model's options the store's contract is down to the vectors of the splits: those of the
  summaries are slices of the right length.
\<close>

definition splits_in_dim :: "processing_context \<Rightarrow> document_dto \<Rightarrow> bool" where
  "splits_in_dim ctx doc \<longleftrightarrow>
     (\<forall>s \<in> set (dd_splits doc). \<exists>e. sd_embedding s = Some e \<and> length (eb_embedding e) = pc_n_embd ctx)"

lemma process_document_good:
  assumes run: "process_document ctx url text = Inr doc"
    and opts: "unat (so_n_embd opts) = pc_n_embd ctx" "so_model_id opts = pc_model_id ctx"
  shows "good_document opts doc \<longleftrightarrow> splits_in_dim ctx doc"
proof -
  note fits = process_document_fits [OF run]
  have "good_embedding opts (ud_embedding u)" if "u \<in> set (all_summaries doc)" for u
  proof -
    from that obtain s where s: "s \<in> set (dd_splits doc)" "u \<in> set (sd_summaries s)"
      unfolding process_document_summaries [OF run] by blast
    from fits [OF s(1)] s(2) obtain rest where "summary_fits ctx (dd_document_id doc) s (concat rest) u"
      unfolding split_fits_def by blast
    with opts show ?thesis by (auto simp: summary_fits_def good_embedding_def)
  qed
  moreover have "good_embedding opts (sd_embedding s) \<longleftrightarrow>
      (\<exists>e. sd_embedding s = Some e \<and> length (eb_embedding e) = pc_n_embd ctx)" if "s \<in> set (dd_splits doc)" for s
    using fits [OF that] opts by (auto simp: split_fits_def good_embedding_def)
  ultimately show ?thesis by (auto simp: good_document_def splits_in_dim_def)
qed

lemma process_document_consistent:
  assumes run: "process_document ctx url text = Inr doc"
  shows "doc_consistent doc"
  using process_document_fits [OF run]
  by (auto simp: doc_consistent_def process_document_summaries [OF run] split_fits_def summary_fits_def)

lemma sequence_ids:
  assumes run: "process_document ctx url text = Inr doc"
    and small: "length (pc_splitter ctx text) \<le> 2 ^ 32"
  shows "distinct (map sd_sequence_id (dd_splits doc))"
proof -
  let ?f = "\<lambda>p. case process_split ctx (snd p) (pc_hasher ctx url) (word_of_nat (fst p)) of
        Inl _ \<Rightarrow> None | Inr s \<Rightarrow> Some s"
  have "map sd_sequence_id (List.map_filter ?f ps)
      = map (\<lambda>p. word_of_nat (fst p)) (filter (\<lambda>p. ?f p \<noteq> None) ps)" for ps
    by (induction ps) (auto simp: List.map_filter_simps process_split_fits(2) split: sum.splits)
  moreover have "distinct (map (\<lambda>p. word_of_nat (fst p) :: i32) (filter Q (enumerate 0 xs)))"
    if "length xs \<le> 2 ^ 32" for Q and xs :: "split_result list"
  proof -
    have "distinct (map (\<lambda>p. word_of_nat (fst p) :: i32) (enumerate 0 xs))"
    proof -
      have "map (\<lambda>p. word_of_nat (fst p) :: i32) (enumerate 0 xs) = map word_of_nat [0..<length xs]"
        by (rule nth_equalityI) (simp_all add: nth_enumerate_eq)
      moreover have "inj_on (word_of_nat :: nat \<Rightarrow> i32) {0..<length xs}"
        using that by (auto simp: inj_on_def word_of_nat_eq_iff take_bit_nat_eq_self)
      ultimately show ?thesis by (simp add: distinct_map)
    qed
    then show ?thesis by (rule distinct_map_filter)
  qed
  ultimately show ?thesis using process_document_splits(3) [OF run] small by (simp add: case_prod_unfold)
qed

section \<open>Two sentences with one name\<close>

text \<open>The parts of a name are not separated, so sentence 1 with 24 tokens and sentence 12 with 4 are named alike.\<close>

lemma summary_names_collide: "summary_name split_id 1 24 = summary_name split_id 12 4"
  by (simp add: summary_name_def digits.simps)

end
