(* ===== verification/Server_Compose.thy ===== *)
theory Server_Compose
  imports Server_Facts Shard_Search Processing_Facts Store_Holds
begin

text \<open>
  From one end to the other: what a client is told about a document and what the log then says.
  An insertion that was answered with success has put the processed document in the log of the
  workspace's shard, a retrieval of its url answers with it, and when every write is synced it is
  there after a power loss.
\<close>

section \<open>The shard a lookup returns\<close>

definition maps_to :: "uuid \<Rightarrow> nat \<Rightarrow> 'x pool \<Rightarrow> bool" where
  "maps_to ws a p \<longleftrightarrow> map_option en_shard (entry_of p ws) = Some a"

lemma maps_to_same: "same_shards p q \<Longrightarrow> maps_to ws a p \<Longrightarrow> maps_to ws a q"
  by (simp add: maps_to_def same_shards_def)

lemma maps_to_stays: "stays p q \<Longrightarrow> pool_ok p \<Longrightarrow> maps_to ws a p \<Longrightarrow> maps_to ws a q"
  by (auto simp: stays_def intro: maps_to_same)

lemma maps_to_alloc: "maps_to ws a p \<Longrightarrow> pool_ok p \<Longrightarrow> \<exists>l. allocation_of p a = Some l \<and> lv_workspace l = ws"
  using pool_ok_entry by (fastforce simp: maps_to_def)

lemma peek_maps: "peek ws p = (Inr (Some a), q) \<Longrightarrow> maps_to ws a q"
  by (auto simp: peek_def touch_def Let_def maps_to_def clone_arc_def split: option.splits prod.splits)

lemma open_and_insert_maps: "open_and_insert P ws res p = (Inr a, q) \<Longrightarrow> maps_to ws a q"
  by (auto simp: open_and_insert_def bindM_def Let_def ret_def maps_to_def split: prod.splits sum.splits option.splits
      dest: peek_maps [unfolded maps_to_def])

lemma get_with_maps:
  assumes run: "get_with P ws res p = (Inr a, q)" and ok: "pool_ok p"
  shows "maps_to ws a q"
proof -
  obtain x p1 where t1: "peek ws p = (Inr x, p1)" by (cases "touch ws p") (simp add: peek_def)
  obtain y p2 where t2: "peek ws p1 = (Inr y, p2)" by (cases "touch ws p1") (simp add: peek_def)
  have ok2: "pool_ok p2" using same_shards_ok [OF keepsD [OF same_peek t2] same_shards_ok [OF keepsD [OF same_peek t1] ok]] .
  show ?thesis
  proof (cases "x = None \<and> y = None")
    case False
    with run t1 t2 show ?thesis
      by (auto simp: get_with_def bindM_def ret_def dest: peek_maps split: option.splits)
  next
    case True
    obtain z p3 where op: "open_and_insert P ws res (take_gate ws p2) = (z, p3)" by fastforce
    let ?p4 = "drop_gate ws (retire_gates p3)"
    have run': "get_with P ws res p = (case z of Inl e \<Rightarrow> (Inl e, ?p4)
        | Inr a \<Rightarrow> (Inr a, case enforce_budget P ?p4 of None \<Rightarrow> ?p4 | Some (_, q) \<Rightarrow> q))"
      using True t1 t2 op
      by (auto simp: get_with_def bindM_def seqM_def modM_def attempt_def fail_def split: sum.splits)
    with run have z: "z = Inr a" by (cases z) auto
    have ok3: "pool_ok ?p4"
      using same_shards_ok [OF same_gates(3) same_shards_ok [OF same_gates(2) open_and_insert_ok [OF op same_shards_ok [OF same_gates(1) ok2]]]] .
    have m: "maps_to ws a ?p4"
      using maps_to_same [OF same_gates(3) maps_to_same [OF same_gates(2)]] open_and_insert_maps op z by blast
    have "stays ?p4 q"
      using run' run z enforce_loop_done [of "{}" ?p4 P 0]
      by (auto simp: all_viewed_def enforce_budget_def stays_same split: option.splits prod.splits)
    with m ok3 show ?thesis using maps_to_stays by blast
  qed
qed

lemma get_existing_here: "maps_to ws a p \<Longrightarrow> \<exists>q. get_existing P ws p = (Inr (Some a), q) \<and> peek ws p = (Inr (Some a), q)"
  by (auto simp: maps_to_def get_existing_def bindM_def ret_def peek_def touch_def Let_def split: option.splits)

section \<open>One shard, seen through the pool\<close>

text \<open>What the shard of an allocation works on.\<close>

definition shard_state :: "'x penv \<Rightarrow> 'x pool \<Rightarrow> nat \<Rightarrow> ('x shard_inner \<times> world) option" where
  "shard_state P p a =
     map_option (\<lambda>l. (sh_inner (lv_shard l), dir_world P p (lv_workspace l))) (allocation_of p a)"

lemma on_shard_state:
  assumes "on_shard P a m p = (r, q)" "shard_state P p a = Some s"
  shows "m s = (r, the (shard_state P q a))" "shard_state P q a \<noteq> None" "maps_to ws b p \<Longrightarrow> maps_to ws b q" "pool_ok p \<Longrightarrow> pool_ok q"
proof -
  from assms(2) obtain l where l: "allocation_of p a = Some l" "s = (sh_inner (lv_shard l), dir_world P p (lv_workspace l))"
    by (auto simp: shard_state_def)
  obtain n w where m: "m s = (fst (m s), (n, w))" by (metis prod.collapse)
  have q: "r = fst (m s)" "q = p\<lparr>pl_heap := fmupd a (l\<lparr>lv_shard := (lv_shard l)\<lparr>sh_inner := n\<rparr>\<rparr>) (pl_heap p),
                    pl_dirs := fmupd (lv_workspace l) w (pl_dirs p)\<rparr>"
    using assms(1) l m by (auto simp: on_shard_def split: prod.splits)
  then have "shard_state P q a = Some (n, w)" by (simp add: shard_state_def allocation_of_def dir_world_def)
  with m q(1) show "m s = (r, the (shard_state P q a))" "shard_state P q a \<noteq> None" by simp_all
  have s: "same_shards p q" by (rule keepsD [OF same_on_shard assms(1)])
  then show "maps_to ws b p \<Longrightarrow> maps_to ws b q" by (rule maps_to_same)
  show "pool_ok p \<Longrightarrow> pool_ok q" by (rule same_shards_ok [OF s])
qed

lemma same_shard_state:
  assumes "map_option (\<lambda>l. (lv_workspace l, lv_shard l)) (allocation_of q a) = map_option (\<lambda>l. (lv_workspace l, lv_shard l)) (allocation_of p a)"
    and "pl_dirs q = pl_dirs p"
  shows "shard_state P q a = shard_state P p a"
proof -
  have "dir_world P q = dir_world P p" by (rule ext) (simp add: dir_world_def assms(2))
  with assms(1) show ?thesis
    by (cases "allocation_of p a"; cases "allocation_of q a") (simp_all add: shard_state_def)
qed

lemma drop_arc_state:
  assumes "maps_to ws a p" "pool_ok p"
  shows "shard_state P (drop_arc b p) a = shard_state P p a" "maps_to ws a (drop_arc b p)" "pool_ok (drop_arc b p)"
proof -
  show "maps_to ws a (drop_arc b p)" "pool_ok (drop_arc b p)"
    using same_drop [OF assms(2)] assms maps_to_same same_shards_ok by blast+
  have i: "in_map p a" using assms(1) in_mapI by (force simp: maps_to_def)
  show "shard_state P (drop_arc b p) a = shard_state P p a"
  proof (rule same_shard_state)
    show "map_option (\<lambda>l. (lv_workspace l, lv_shard l)) (allocation_of (drop_arc b p) a)
        = map_option (\<lambda>l. (lv_workspace l, lv_shard l)) (allocation_of p a)"
      using i by (auto simp: drop_arc_def Let_def allocation_of_def map_allocation_def in_map_def split: option.splits)
    show "pl_dirs (drop_arc b p) = pl_dirs p"
      by (auto simp: drop_arc_def Let_def map_allocation_def split: option.splits)
  qed
qed

lemma peek_state: "peek ws p = (r, q) \<Longrightarrow> shard_state P q a = shard_state P p a"
  by (rule same_shard_state)
     (auto simp: peek_def touch_def Let_def clone_arc_def map_allocation_def allocation_of_def set_entry_def tick_up_def
        split: option.splits prod.splits)

section \<open>Storing through the pool\<close>

text \<open>A shard that can take the document: sound, with room for it, its mapped indexes backed by files.\<close>

definition can_take :: "('x, 'v) us_model \<Rightarrow> 'x penv \<Rightarrow> store_options \<Rightarrow> document_dto \<Rightarrow> 'x pool \<Rightarrow> nat \<Rightarrow> bool" where
  "can_take A P opts doc p a \<longleftrightarrow>
     (\<exists>n w sl al. shard_state P p a = Some (n, w) \<and> st_opts (in_store n) = opts
        \<and> files_back (se_us (pe_shard P)) A n w \<and> store_inv (se_env (pe_shard P)) sl al (in_store n, w)
        \<and> has_room (in_store n, w) (records_of (se_env (pe_shard P)) (in_store n, w) doc))"

text \<open>The shard of a workspace holds the document.\<close>

definition shard_holds :: "'x penv \<Rightarrow> store_options \<Rightarrow> document_dto \<Rightarrow> uuid \<Rightarrow> 'x pool \<Rightarrow> bool" where
  "shard_holds P opts doc ws p \<longleftrightarrow> pool_ok p \<and>
     (\<exists>a n w x. maps_to ws a p \<and> shard_state P p a = Some (n, w)
        \<and> holds_doc (se_env (pe_shard P)) x doc (in_store n, w) \<and> st_opts (fst x) = opts)"

lemma save_document_holds:
  assumes us: "usearch_ok (se_us (pe_shard P)) A" and E: "env_ok (se_env (pe_shard P))" and c: "doc_consistent doc"
    and take: "can_take A P opts doc p a" and m: "maps_to ws a p" "pool_ok p"
    and run: "save_document P sync a doc p = (Inr (), q)"
  shows "shard_holds P opts doc ws q \<and> maps_to ws a q
    \<and> (sync \<longrightarrow> (\<exists>x z n w. holds_doc (se_env (pe_shard P)) x doc z \<and> st_opts (fst x) = opts
         \<and> store_fsync z = (Inr (), (in_store n, w)) \<and> shard_state P q a = Some (n, w)))"
proof -
  from take obtain n w sl al where t: "shard_state P p a = Some (n, w)" "st_opts (in_store n) = opts"
    "files_back (se_us (pe_shard P)) A n w" "store_inv (se_env (pe_shard P)) sl al (in_store n, w)"
    "has_room (in_store n, w) (records_of (se_env (pe_shard P)) (in_store n, w) doc)"
    unfolding can_take_def by blast
  obtain r u where i: "on_shard P a (shard_insert (pe_shard P) doc) p = (r, u)" by fastforce
  with run obtain rp where r: "r = Inr rp" by (cases r) (auto simp: save_document_def)
  note S = on_shard_state [OF i t(1)]
  then obtain n1 w1 where s1: "shard_state P u a = Some (n1, w1)" by auto
  with S(1) r have ins: "shard_insert (pe_shard P) doc (n, w) = (Inr rp, (n1, w1))" by simp
  have h: "holds_doc (se_env (pe_shard P)) (in_store n, w) doc (in_store n1, w1)"
    by (rule insert_holds [OF t(4) E c t(5) shard_insert_run(1) [OF us refl t(3) ins]])
  have mu: "maps_to ws a u" "pool_ok u" using S(3,4) m by blast+
  show ?thesis
  proof (cases sync)
    case False
    with run i r have "q = u" by (simp add: save_document_def)
    with False s1 h mu t(2) show ?thesis unfolding shard_holds_def by (metis fst_conv)
  next
    case True
    with run i r have f: "on_shard P a shard_fsync u = (Inr (), q)"
      by (auto simp: save_document_def split: prod.splits sum.splits)
    note F = on_shard_state [OF f s1]
    then obtain n2 w2 where s2: "shard_state P q a = Some (n2, w2)" by auto
    with F(1) have "shard_fsync (n1, w1) = (Inr (), (n2, w2))" by simp
    then have fs: "store_fsync (in_store n1, w1) = (Inr (), (in_store n2, w2))"
      by (auto simp: shard_fsync_def in_log_run)
    have "holds_doc (se_env (pe_shard P)) (in_store n, w) doc (in_store n2, w2)" by (rule fsync_holds [OF h fs])
    moreover have "maps_to ws a q" "pool_ok q" using F(3,4) mu by blast+
    ultimately show ?thesis using s2 h fs t(2) unfolding shard_holds_def by (metis fst_conv)
  qed
qed

lemma shard_holds_drop: "shard_holds P opts doc ws p \<Longrightarrow> shard_holds P opts doc ws (drop_arc a p)"
  unfolding shard_holds_def using drop_arc_state by metis

text \<open>Whoever looks the workspace up reads the document.\<close>

lemma shard_holds_read:
  assumes h: "shard_holds P opts doc ws p" and E: "env_ok (se_env (pe_shard P))" "ids_distinct doc"
  shows "\<exists>a q. get_existing P ws p = (Inr (Some a), q)
    \<and> read_shard P q a (\<lambda>sh w. storage (get_doc (se_env (pe_shard P)) (in_store (sh_inner sh)) w (dd_document_id doc) emb))
      = Inr (Some (stored_doc (se_env (pe_shard P)) opts emb doc))"
proof -
  from h obtain a n w x where m: "maps_to ws a p" "shard_state P p a = Some (n, w)"
    "holds_doc (se_env (pe_shard P)) x doc (in_store n, w)" "st_opts (fst x) = opts" "pool_ok p"
    unfolding shard_holds_def by blast
  from get_existing_here [OF m(1)] obtain q where g: "get_existing P ws p = (Inr (Some a), q)" "peek ws p = (Inr (Some a), q)"
    by blast
  have s: "shard_state P q a = Some (n, w)" using peek_state [OF g(2)] m(2) by simp
  from holds_get_doc [OF m(3) E] m(4) have
    "get_doc (se_env (pe_shard P)) (in_store n) w (dd_document_id doc) emb = Inr (Some (stored_doc (se_env (pe_shard P)) opts emb doc))"
    by simp
  then show ?thesis using g(1) s by (auto simp: shard_state_def read_shard_def storage_def)
qed

section \<open>The handlers\<close>

lemma insertion_holds:
  assumes us: "usearch_ok (se_us (pe_shard P)) A" and E: "env_ok (se_env (pe_shard P))" and ok: "pool_ok p"
    and req: "sv_insertion V body = Some req" "process_document ctx (ir_doc_url req) (ir_input req) = Inr doc" "doc_consistent doc"
    and take: "\<And>a u. pool_get P (ir_workspace_id req) p = (Inr a, u) \<Longrightarrow> can_take A P opts doc u a"
    and run: "document_insertion V P ctx sync h body p = (Sent h' (Some r), q)"
  shows "shard_holds P opts doc (ir_workspace_id req) q
    \<and> (sync \<longrightarrow> (\<exists>a x z n w. maps_to (ir_workspace_id req) a q \<and> holds_doc (se_env (pe_shard P)) x doc z \<and> st_opts (fst x) = opts
         \<and> store_fsync z = (Inr (), (in_store n, w)) \<and> shard_state P q a = Some (n, w)))"
proof -
  obtain y u where g: "pool_get P (ir_workspace_id req) p = (y, u)" by fastforce
  have "\<exists>a. y = Inr a"
    using run req(1,2) g by (cases y) (auto simp: document_insertion_def storage_failed_def send_exception_def Let_def split: if_splits)
  then obtain a where a: "y = Inr a" by blast
  obtain x v where s: "save_document P sync a doc u = (x, v)" by fastforce
  have "x = Inr () \<and> q = drop_arc a v"
    using run req(1,2) g a s
    by (cases x) (auto simp: document_insertion_def storage_failed_def send_exception_def Let_def split: if_splits prod.splits)
  then have x: "save_document P sync a doc u = (Inr (), v)" "q = drop_arc a v" using s by simp_all
  have m: "maps_to (ir_workspace_id req) a u" "pool_ok u"
    using get_with_maps get_with_ok g a ok unfolding pool_get_def by blast+
  note H = save_document_holds [OF us E req(3) take m x(1)]
  have H': "shard_holds P opts doc (ir_workspace_id req) v" "maps_to (ir_workspace_id req) a v"
    "sync \<longrightarrow> (\<exists>x z n w. holds_doc (se_env (pe_shard P)) x doc z \<and> st_opts (fst x) = opts
         \<and> store_fsync z = (Inr (), (in_store n, w)) \<and> shard_state P v a = Some (n, w))"
    using H g a by blast+
  have "pool_ok v" using H'(1) by (simp add: shard_holds_def)
  note D = drop_arc_state [OF H'(2) this]
  show ?thesis
    using shard_holds_drop [OF H'(1), of a] H'(3) D unfolding x(2) by metis
qed

end
