(* ===== verification/Service_Runs.thy ===== *)
theory Service_Runs
  imports Server_Compose
begin

text \<open>
  Runs of the service: the pool \<open>main\<close> sets up, the messages its workers handle, the passes of the
  timer and the snapshot of a shutdown, one after the other. Between two of them no shard is
  referenced outside the pool. Then the shape of the answers, and the ends of the loops.
\<close>

section \<open>Runs\<close>

inductive service_run :: "'x penv \<Rightarrow> processing_context \<Rightarrow> storage_config \<Rightarrow> u64 \<Rightarrow> index_config \<Rightarrow> 'x pool \<Rightarrow> bool"
  for P ctx c model_id index where
  started: "server_pool c model_id index = Inr p \<Longrightarrow> service_run P ctx c model_id index p"
| worked: "service_run P ctx c model_id index p
    \<Longrightarrow> worker_routine P ctx (sync_on_write c) ms p = (answers, q) \<Longrightarrow> service_run P ctx c model_id index q"
| maintained: "service_run P ctx c model_id index p
    \<Longrightarrow> timer_turn P (policy_from_config c) t (noted, p) = Some (later, q) \<Longrightarrow> service_run P ctx c model_id index q"
| interrupted: "service_run P ctx c model_id index p \<Longrightarrow> service_run P ctx c model_id index (shutdown_handler P p)"

inductive_cases service_runE: "service_run P ctx c model_id index p"

lemma maintenance_settled: "maintenance_pass P policy due p = Some q \<Longrightarrow> settled p q"
proof -
  let ?p1 = "if mp_fsync_interval policy \<noteq> None then logged (fsync_all P) p else p"
  let ?p3 = "logged (pool_compact_if_needed P (mp_compact_ratio policy)) (logged (snapshot_all P) ?p1)"
  assume run: "maintenance_pass P policy due p = Some q"
  have 1: "settled p ?p1" using pass_settled(1) [of p P] by simp
  have 3: "settled p ?p3" using settled_trans [OF settled_trans [OF 1 pass_settled(2)] pass_settled(3)] .
  show ?thesis
  proof (cases due)
    case True
    with run obtain y where "enforce_budget P ?p3 = Some y" "q = snd y"
      by (auto simp: maintenance_pass_def Let_def)
    with settled_trans [OF 3 enforce_budget_settled] show ?thesis by blast
  qed (use run 1 in \<open>simp add: maintenance_pass_def Let_def\<close>)
qed

text \<open>Every pass ends, whatever the shards do.\<close>

lemma enforce_budget_ends:
  "\<exists>r q. enforce_budget P p = Some (r, q)
     \<and> (\<forall>n. r = Inr n \<longrightarrow> total_bytes P q \<le> pl_budget_bytes q \<or> nothing_to_demote P q)"
  using enforce_loop_done [of "{}" p P 0] by (auto simp: enforce_budget_def all_viewed_def)

lemma maintenance_pass_ends: "\<exists>q. maintenance_pass P policy due p = Some q"
  using enforce_budget_ends by (fastforce simp: maintenance_pass_def Let_def)

lemma service_run_settled:
  assumes "service_run P ctx c model_id index p"
  shows "pool_ok p \<and> (\<forall>a. held p a = 0)"
  using assms
proof (induction rule: service_run.induct)
  case (started p)
  then show ?case
    by (auto simp: server_pool_def bindR_Inr with_memory_budget_mb_def with_memory_budget_bytes_def pool_new_def
        pool_ok_def held_def entry_of_def allocation_of_def)
next
  case (worked p ms answers q)
  then show ?case using worker_routine_settled [of p P ctx "sync_on_write c" ms] by (simp add: settled_def same_refs_def)
next
  case (maintained p t noted later q)
  then have "settled p q"
    by (auto simp: timer_turn_def Let_def split: prod.splits intro: maintenance_settled)
  with maintained show ?case by (simp add: settled_def same_refs_def)
next
  case (interrupted p)
  then show ?case using pass_settled(4) [of p P] by (simp add: settled_def same_refs_def)
qed

section \<open>Answers\<close>

text \<open>The response a request of each type is answered with.\<close>

fun answers_type :: "message_type \<Rightarrow> response \<Rightarrow> bool" where
  "answers_type DocumentInsertion (Inserted r) = True"
| "answers_type DocumentRetrieval (Retrieved r) = True"
| "answers_type DocumentDeletion (Deleted s) = True"
| "answers_type DocumentQuery (Queried r) = True"
| "answers_type Rerank (Reranked r) = True"
| "answers_type HealthCheck (Healthy r) = True"
| "answers_type _ _ = False"

text \<open>
  An answer goes to the request's message id, with its type and time of request. It is a success
  with a response of the request's type and a time, or an error with its message and no body.
\<close>

definition answers_request :: "message_header \<Rightarrow> outcome \<Rightarrow> bool" where
  "answers_request h o' \<longleftrightarrow>
     (case o' of
        Sent h' body \<Rightarrow>
          mh_message_id h' = mh_message_id h \<and> mh_message_type h' = mh_message_type h \<and> mh_request_ts h' = mh_request_ts h
          \<and> (case body of
               None \<Rightarrow> mh_status h' = Some StatusError \<and> mh_error_message h' \<noteq> None
             | Some r \<Rightarrow> mh_status h' = Some StatusSuccess \<and> mh_response_ts h' \<noteq> None \<and> answers_type (mh_message_type h) r)
      | Silent \<Rightarrow> True
      | Died \<Rightarrow> True)"

lemma answers_exception: "answers_request h (send_exception V e h)"
  by (simp add: send_exception_def Let_def answers_request_def set_error_def set_status_def)

lemma answers_success: "answers_type (mh_message_type h) r \<Longrightarrow> answers_request h (send_success V r h)"
  by (simp add: send_success_def Let_def answers_request_def set_status_def set_response_ts_def)

lemma answers_failed:
  "answers_request h (storage_failed V f e h)" "answers_request h (service_failed V g e' h)" "answers_request h (query_failed V e'' h)"
  by (simp_all add: storage_failed_def service_failed_def query_failed_def answers_exception answers_request_def [of _ Died]
      split: query_error.split)

lemma answers_Died: "answers_request h Died"
  by (simp add: answers_request_def)

lemmas answering = answers_exception answers_success answers_failed answers_Died

lemma handlers_answer:
  "mh_message_type h = DocumentInsertion \<Longrightarrow> answers_request h (fst (document_insertion V P ctx sync h body p))"
  "mh_message_type h = DocumentDeletion \<Longrightarrow> answers_request h (fst (document_deletion V P sync h body p))"
  "mh_message_type h = DocumentRetrieval \<Longrightarrow> answers_request h (fst (document_retrieval V P hasher h body p))"
  "mh_message_type h = DocumentQuery \<Longrightarrow> answers_request h (fst (document_query V P ctx h body p))"
  "mh_message_type h = Rerank \<Longrightarrow> answers_request h (process_rerank V ctx h body)"
  "mh_message_type h = HealthCheck \<Longrightarrow> answers_request h (health_check V h)"
  by (auto simp: document_insertion_def document_deletion_def document_retrieval_def document_query_def process_rerank_def
      health_check_def insertion_response_of_def deletion_response_of_def retrieval_response_of_def query_response_of_def
      split: option.split sum.split prod.split query_error.split intro!: answering)

lemma message_answered:
  assumes "sv_header V header = Some h" "rest \<noteq> [] \<or> mh_message_type h = HealthCheck" "mh_message_type h \<noteq> Unknown"
  shows "answers_request h (fst (handle_message V P ctx sync (header # rest) p))"
  using assms handlers_answer
  by (auto simp: handle_message_def handle_request_def split: list.split message_type.split)

section \<open>Waiting for a shutdown\<close>

lemma await_claim_returns:
  assumes "\<forall>j. i \<le> j \<and> j < n \<longrightarrow> \<not> claimed j \<and> elapsed j < SHUTDOWN_CLAIM_TIMEOUT" "i \<le> n"
    and "claimed n \<or> SHUTDOWN_CLAIM_TIMEOUT \<le> elapsed n"
  shows "await_claim claimed elapsed i = Some (claimed n)"
  using assms
proof (induction "n - i" arbitrary: i)
  case 0
  then show ?case by (subst await_claim.simps) auto
next
  case (Suc k)
  have "await_claim claimed elapsed (i + 1) = Some (claimed n)"
    using Suc.hyps(1) [of "i + 1"] Suc.hyps(2) Suc.prems by simp
  moreover have "\<not> claimed i" "elapsed i < SHUTDOWN_CLAIM_TIMEOUT" using Suc.prems(1) Suc.hyps(2) by simp_all
  ultimately show ?case by (subst await_claim.simps) simp
qed

lemma await_shutdown_returns:
  assumes "\<exists>i. claimed i \<or> SHUTDOWN_CLAIM_TIMEOUT \<le> elapsed i"
  shows "\<exists>n. await_shutdown claimed elapsed = Some (claimed n)
    \<and> (claimed n \<or> SHUTDOWN_CLAIM_TIMEOUT \<le> elapsed n) \<and> (\<forall>j < n. \<not> claimed j \<and> elapsed j < SHUTDOWN_CLAIM_TIMEOUT)"
proof -
  from assms obtain n where n: "claimed n \<or> SHUTDOWN_CLAIM_TIMEOUT \<le> elapsed n"
    and b: "\<forall>j < n. \<not> (claimed j \<or> SHUTDOWN_CLAIM_TIMEOUT \<le> elapsed j)"
    unfolding exists_least_iff [of "\<lambda>i. claimed i \<or> SHUTDOWN_CLAIM_TIMEOUT \<le> elapsed i"] by blast
  then have c: "\<forall>j < n. \<not> claimed j \<and> elapsed j < SHUTDOWN_CLAIM_TIMEOUT" by (simp add: not_le)
  then have "await_shutdown claimed elapsed = Some (claimed n)"
    unfolding await_shutdown_def by (intro await_claim_returns n) auto
  with n c show ?thesis by blast
qed

section \<open>Settings\<close>

lemma validated:
  assumes "validate_config c = Inr ()"
  shows "2 ^ 20 \<le> unat (segment_max_bytes c)" "2 ^ 20 \<le> memory_budget_bytes c" "1000 \<le> snapshot_interval c"
proof -
  have p: "0 < unat (sc_segment_max_mb c)" "0 < unat (sc_memory_budget_mb c)" "0 < unat (sc_snapshot_interval_s c)"
    using assms by (auto simp: validate_config_def unat_gt_0 split: if_splits)
  have "saturating_mul a (2 ^ 20) < 2 ^ 64" for a by (simp add: saturating_mul_def)
  then have "unat (segment_max_bytes c) = saturating_mul (sc_segment_max_mb c) (2 ^ 20)"
    unfolding segment_max_bytes_def by (simp add: unsigned_of_nat take_bit_nat_eq_self)
  with p show "2 ^ 20 \<le> unat (segment_max_bytes c)" "2 ^ 20 \<le> memory_budget_bytes c"
    by (auto simp: saturating_mul_def memory_budget_bytes_def)
  show "1000 \<le> snapshot_interval c" using p(3) by (simp add: snapshot_interval_def)
qed

lemma tick_bounds:
  assumes "validate_config c = Inr ()"
  shows "50 \<le> policy_tick (policy_from_config c)" "policy_tick (policy_from_config c) \<le> snapshot_interval c"
    "fsync_interval c = Some n \<Longrightarrow> policy_tick (policy_from_config c) \<le> max 50 n"
  using validated(3) [OF assms] by (auto simp: policy_tick_def policy_from_config_def unwrap_or_def split: option.split)

end
