(* ===== verification/Service_Samples.thy ===== *)
theory Service_Samples
  imports Service_Runs
begin

text \<open>
  Concrete instances for the witnesses: a vector library that keeps the keys of an index, a model
  that answers a sequence with its length, and a pool with one open shard.
\<close>

section \<open>A vector library\<close>

definition sample_usearch :: "(bool \<times> u64 list) usearch" where
  "sample_usearch = \<lparr>
     us_new = (\<lambda>_. Some (False, [])),
     us_load = (\<lambda>bs x. case d_ids bs of Some (ks, []) \<Rightarrow> (True, (False, ks)) | _ \<Rightarrow> (False, x)),
     us_view = (\<lambda>bs x. case d_ids bs of Some (ks, []) \<Rightarrow> (True, (True, ks)) | _ \<Rightarrow> (False, x)),
     us_save = (\<lambda>x. Some (e_ids (snd x))),
     us_size = (\<lambda>x. length (remdups (snd x))), us_capacity = (\<lambda>_. 1000),
     us_connectivity = (\<lambda>_. 16), us_expansion_add = (\<lambda>_. 128), us_expansion_search = (\<lambda>_. 64),
     us_reserve = (\<lambda>_ x. (True, x)),
     us_add_f32 = (\<lambda>k _ x. if fst x \<or> k \<in> set (snd x) then (False, x) else (True, (False, k # snd x))),
     us_add_f16 = (\<lambda>k _ x. if fst x \<or> k \<in> set (snd x) then (False, x) else (True, (False, k # snd x))),
     us_remove = (\<lambda>k x. (True, (fst x, filter (\<lambda>j. j \<noteq> k) (snd x)))),
     us_search = (\<lambda>x _ n. Some (take n (remdups (snd x)), replicate (length (take n (remdups (snd x)))) 0)),
     us_filtered_search = (\<lambda>x _ n keep. Some (take n (filter keep (remdups (snd x))),
        replicate (length (take n (filter keep (remdups (snd x))))) 0)),
     us_memory_stats = (\<lambda>x. \<lparr> ms_graph_allocated = length (snd x), ms_graph_reserved = 0,
        ms_vectors_allocated = length (snd x), ms_vectors_reserved = 0 \<rparr>) \<rparr>"

definition sample_us_model :: "(bool \<times> u64 list, unit) us_model" where
  "sample_us_model = \<lparr> um_vectors = (\<lambda>x. fmap_of_list (map (\<lambda>k. (k, ())) (snd x))), um_mapped = fst,
     um_q32 = (\<lambda>_. ()), um_q16 = (\<lambda>_. ()) \<rparr>"

lemma keys_lookup: "fmlookup (fmap_of_list (map (\<lambda>k. (k, ())) ks)) i = (if i \<in> set ks then Some () else None)"
  by (induction ks) (auto simp: fmlookup_of_list)

lemma keys_dom: "fmdom (fmap_of_list (map (\<lambda>k. (k, ())) ks)) = fset_of_list ks"
  by (rule fset_eqI) (simp add: fmlookup_dom_iff keys_lookup fset_of_list_elem)

lemma sample_search_ok:
  "search_result_ok (fmap_of_list (map (\<lambda>k. (k, ())) ks)) n keep
     (take n (filter keep (remdups ks)), replicate (length (take n (filter keep (remdups ks)))) 0)"
  by (auto simp: search_result_ok_def keys_dom fset_of_list_elem dest: in_set_takeD)

lemma sample_usearch_ok: "usearch_ok sample_usearch sample_us_model"
proof -
  have size: "length (remdups ks) = fcard (fset_of_list ks)" for ks :: "u64 list"
    by (simp add: fcard.rep_eq fset_of_list.rep_eq length_remdups_card_conv)
  have ids: "d_ids (e_ids ks) = Some (ks, [])" for ks
    using decodes_ids [of ks] unfolding decodes_def by (metis append_Nil2)
  have add: "fmap_of_list (map (\<lambda>k. (k, ())) (k # ks)) = fmupd k () (fmap_of_list (map (\<lambda>k. (k, ())) ks))" for k and ks :: "u64 list"
    by (rule fmap_ext) (simp add: keys_lookup)
  have drop: "fmap_of_list (map (\<lambda>k. (k, ())) (filter (\<lambda>j. j \<noteq> k) ks)) = fmdrop k (fmap_of_list (map (\<lambda>k. (k, ())) ks))"
    for k and ks :: "u64 list"
    by (rule fmap_ext) (simp add: keys_lookup)
  have all: "search_result_ok (fmap_of_list (map (\<lambda>k. (k, ())) ks)) n (\<lambda>_. True)
     (take n (remdups ks), replicate (length (take n (remdups ks))) 0)" for ks n
    using sample_search_ok [of ks n "\<lambda>_. True"] by simp
  show ?thesis
    unfolding usearch_ok_def sample_usearch_def sample_us_model_def
    by (auto simp: ids size keys_dom add drop fset_of_list_elem all [simplified, unfolded size] sample_search_ok [simplified] comp_def split: if_splits)
qed

section \<open>A pool with one open shard\<close>

definition sample_index :: index_config where
  "sample_index = \<lparr> ic_index_dir = [], ic_dimensions = 1, ic_metric_kind = L2sq, ic_scalar_kind = SF32,
     ic_connectivity = 16, ic_expansion_add = 128, ic_expansion_search = 64 \<rparr>"

definition empty_index :: "entity_kind \<Rightarrow> (bool \<times> u64 list) vector_index" where
  "empty_index kind = \<lparr> vi_index = (False, []), vi_kind = kind, vi_metric = U_L2sq, vi_dimensions = 1, vi_viewed = False \<rparr>"

definition sample_senv :: "(bool \<times> u64 list) senv" where
  "sample_senv = \<lparr> se_env = sample_env, se_us = sample_usearch,
     se_state = \<lparr> enc = (\<lambda>_. None), dec = (\<lambda>_. None) \<rparr> \<rparr>"

definition sample_penv :: "(bool \<times> u64 list) penv" where
  "sample_penv = \<lparr> pe_shard = sample_senv, pe_order = sorted_list_of_fset, pe_faults = (\<lambda>_. []) \<rparr>"

definition sample_shard :: "sstate \<Rightarrow> (bool \<times> u64 list) shard" where
  "sample_shard x = \<lparr> sh_opts = shard_options_new 7 sample_index,
     sh_inner = \<lparr> in_store = fst x, in_splits = empty_index ESplit, in_summaries = empty_index ESummary \<rparr>,
     sh_from_snapshot = False \<rparr>"

definition sample_pool :: "sstate \<Rightarrow> (bool \<times> u64 list) pool" where
  "sample_pool x = \<lparr> pl_opts = shard_options_new 7 sample_index, pl_budget_bytes = 1000,
     pl_inner = \<lparr> pi_shards = fmupd 5 \<lparr> en_shard = 0, en_last_used = 0, en_bytes = 0 \<rparr> fmempty,
       pi_opening = fmempty, pi_tick = 0 \<rparr>,
     pl_heap = fmupd 0 \<lparr> lv_workspace = 5, lv_shard = sample_shard x, lv_held = 0, lv_busy = False \<rparr> fmempty,
     pl_next = 1, pl_dirs = fmupd 5 (snd x) fmempty \<rparr>"

lemma sample_pool_ok: "pool_ok (sample_pool x)"
  by (auto simp: pool_ok_def sample_pool_def entry_of_def allocation_of_def split: if_splits)

lemma sample_get:
  "\<exists>u. pool_get sample_penv 5 (sample_pool x) = (Inr 0, u)
     \<and> shard_state sample_penv u 0 = Some (sh_inner (sample_shard x), snd x)"
  by (simp add: pool_get_def get_with_def bindM_def ret_def peek_def touch_def Let_def sample_pool_def tick_up_def entry_of_def
      clone_arc_def map_allocation_def set_entry_def allocation_of_def shard_state_def dir_world_def)

text \<open>A document of its url alone, its text having no split.\<close>

definition sample_ctx :: processing_context where
  "sample_ctx = \<lparr> pc_embedding = (\<lambda>texts _. Some \<lparr> er_model_id = 7, er_embeddings = map (\<lambda>_. [0x3F800000]) texts, er_error = None \<rparr>),
     pc_reranking = None, pc_splitter = (\<lambda>_. []), pc_sentence_splitter = (\<lambda>_. []), pc_hasher = (\<lambda>s. word_of_nat (length s)),
     pc_lexrank = (\<lambda>_ _ _. None), pc_n_embd = 1, pc_model_id = 7 \<rparr>"

definition doc0 :: document_dto where
  "doc0 = \<lparr> dd_document_id = 1, dd_document_url = [104], dd_splits = [], dd_summaries = Some [] \<rparr>"

lemma sample_process: "process_document sample_ctx [104] text = Inr doc0"
  by (simp add: process_document_def sample_ctx_def doc0_def Let_def)

lemma doc0_facts: "good_document opts1 doc0" "doc_consistent doc0" "ids_distinct doc0" "distinct_summaries doc0 = []"
  by (simp_all add: good_document_def doc_consistent_def ids_distinct_def all_summaries_def doc0_def opt_list_def
      distinct_summaries_def)

lemma first_records0:
  assumes "first_state x"
  shows "records_of sample_env x doc0 = [doc_record sample_env opts1 doc0 1]"
  using assms by (simp add: records_of_def insert_records_def insert_bodies_def doc0_facts first_state_def is_live_def empty_maps_def)
    (simp add: doc0_def)

lemma first_room0:
  assumes "first_state x"
  shows "has_room x (records_of sample_env x doc0)"
proof -
  have i: "represents sample_env [] [] x []" "mf_next_segment_id (st_manifest (fst x)) = 1" "next_seq_of x = 1"
    using assms by (simp_all add: first_state_def store_inv_def)
  have f: "frame_len (doc_record sample_env opts1 doc0 1) < 200"
    by (simp add: frame_len_def doc_record_def record_of_def sample_doc_def meta_bytes_sample doc_meta_of_def doc0_def e_ids_opt_def)
  then have "frame_ok (doc_record sample_env opts1 doc0 1)"
    by (simp add: frame_ok_def encodable_def frame_len_def)
  with f show ?thesis
    using has_room [OF i(1)] i(2,3) by (simp add: room_for_def first_records0 [OF assms])
qed

lemma first_insert0:
  assumes "first_state x"
  shows "\<exists>rp z. store_insert sample_env doc0 x = (Inr rp, z)"
proof -
  have "durable sample_env [] x" using assms by (simp add: first_state_def store_inv_def)
  then have v: "mf_version (st_manifest (fst x)) = MANIFEST_VERSION" by (simp add: durable_def)
  have g: "good_document (st_opts (fst x)) doc0" using doc0_facts assms by (simp add: first_state_def)
  from insert_succeeds [OF g first_fine [OF assms] sample_env_ok v] show ?thesis by blast
qed

text \<open>No call of the sample library on a resident index fails, but adding a key twice.\<close>

lemma removes_run: "\<exists>i. remove_keys sample_senv kind ids (n, w) = (Inr (), (i, w)) \<and> in_store i = in_store n"
proof (induction ids arbitrary: n)
  case (Cons k ids)
  let ?n = "set_index kind ((index_of kind n)\<lparr>vi_index := (fst (vi_index (index_of kind n)),
      filter (\<lambda>j. j \<noteq> k) (snd (vi_index (index_of kind n))))\<rparr>) n"
  from Cons [of ?n] obtain i where "remove_keys sample_senv kind ids (?n, w) = (Inr (), (i, w))" "in_store i = in_store n" by auto
  then show ?case
    by (auto simp: remove_keys_def seqM_def bindM_def in_index_def zoom_def vi_remove_def call_def sample_senv_def sample_usearch_def)
qed (simp add: remove_keys_def ret_def)

lemma shard_insert0:
  assumes "store_insert sample_env doc0 (in_store n, w) = (Inr rp, z)" "\<And>k. \<not> vi_viewed (index_of k n)"
  shows "\<exists>m. shard_insert sample_senv doc0 (n, w) = (Inr rp, (m, snd z)) \<and> in_store m = fst z"
proof -
  have p: "promote sample_senv (n, w) = (Inr (), (n, w))"
    using assms(2) by (simp add: promote_def promote_index_def seqM_def bindM_def getM_def ret_def vi_is_viewed_def)
  let ?m = "n\<lparr>in_store := fst z\<rparr>"
  have l: "in_log (store_insert sample_env doc0) (n, w) = (Inr rp, (?m, snd z))"
    using assms(1) by (simp add: in_log_def zoom_def split: prod.split)
  obtain i where i: "remove_keys sample_senv ESplit (rp_split_ids rp) (?m, snd z) = (Inr (), (i, snd z))" "in_store i = fst z"
    using removes_run [of ESplit "rp_split_ids rp" ?m "snd z"] by auto
  obtain j where j: "remove_keys sample_senv ESummary (rp_summary_ids rp) (i, snd z) = (Inr (), (j, snd z))" "in_store j = fst z"
    using removes_run [of ESummary "rp_summary_ids rp" i "snd z"] i(2) by auto
  have r: "\<exists>m. in_index ESplit (vi_reserve_for sample_usearch 0) (j, snd z) = (Inr (), (m, snd z)) \<and> in_store m = fst z"
    using j(2) by (auto simp: in_index_def zoom_def vi_reserve_for_def Let_def call_def sample_usearch_def split: prod.split)
  then obtain m where m: "in_index ESplit (vi_reserve_for sample_usearch 0) (j, snd z) = (Inr (), (m, snd z))" "in_store m = fst z"
    by blast
  have e: "se_env sample_senv = sample_env" "se_us sample_senv = sample_usearch" by (simp_all add: sample_senv_def)
  have d: "dd_splits doc0 = []" "dd_summaries doc0 = Some []" by (simp_all add: doc0_def)
  show ?thesis
    using m by (simp add: shard_insert_def seqM_def bindM_def p l i(1) j(1) e d opt_list_def ret_def)
qed

end
