(* ===== verification/Shard_Samples.thy ===== *)
theory Shard_Samples
  imports Service_Samples Shard_Search Store_Filled
begin

text \<open>
  Concrete shards for the witnesses: one that has just been opened and takes a document with a
  split and a summary, and one whose log holds two vectors, with their distances to a query
  worked out in binary floating point.
\<close>

section \<open>Distances of small vectors\<close>

lemma fround_one:
  assumes "0 < k"
  shows "fround F32_format s (2 ^ k) (2 ^ k) = with_sign F32_format s 0x3F800000"
proof -
  have "flog2 (2 ^ k) (2 ^ k) = 0" by (simp add: flog2_def scale_def)
  moreover have "half_even (2 ^ k * 2 ^ 23) (2 ^ k) = 0x800000" by (simp add: half_even_def)
  ultimately show ?thesis
    using assms by (simp add: fround_def scale_def F32_format_def hidden_bit_def sign_weight_def inf_bits_def with_sign_def)
qed

lemma decoded:
    "fdecode F32_format 0x3F800000 = FFin False 0x800000 (- 23)"
    "fdecode F32_format 0x40000000 = FFin False 0x800000 (- 22)"
    "fdecode F32_format 0xBF800000 = FFin True 0x800000 (- 23)"
    "fdecode F32_format 0xC0000000 = FFin True 0x800000 (- 22)"
    "fdecode F32_format 0x80000000 = FFin True 0 (- 149)"
    "fdecode F32_format 0 = FFin False 0 (- 149)"
  by (simp_all add: fdecode_def F32_format_def sign_weight_def hidden_bit_def inf_bits_def Let_def)

lemma negated: "fneg F32_format 0x3F800000 = 0xBF800000" "fneg F32_format 0x40000000 = 0xC0000000"
  by (simp_all add: fneg_def F32_format_def sign_weight_def)

lemma fround_bin_one: "e < 0 \<Longrightarrow> m = 2 ^ nat (- e) \<Longrightarrow> fround_bin F32_format s m e = with_sign F32_format s 0x3F800000"
  by (simp add: fround_bin_def fraction_def fround_one)

lemma sub1: "fsub F32_format 0x3F800000 0x40000000 = 0xBF800000"
  by (simp add: fsub_def fadd_def decoded negated signed_def Let_def fround_bin_one)
   (simp add: with_sign_def F32_format_def sign_weight_def)
lemma sub0: "fsub F32_format 0x3F800000 0x3F800000 = 0"
  by (simp add: fsub_def fadd_def decoded negated signed_def Let_def with_sign_def)
lemma mul1: "fmul F32_format 0xBF800000 0xBF800000 = 0x3F800000"
  by (simp add: fmul_def decoded fround_bin_one with_sign_def)
lemma mul0: "fmul F32_format 0 0 = 0"
  by (simp add: fmul_def decoded fround_bin_def fraction_def fround_def with_sign_def)
lemma add1: "fadd F32_format 0x80000000 0x3F800000 = 0x3F800000"
  by (simp add: fadd_def decoded signed_def Let_def fround_bin_one with_sign_def)
lemma add0: "fadd F32_format 0x80000000 0 = 0"
  by (simp add: fadd_def decoded signed_def Let_def with_sign_def)

lemma sample_distances:
  "distance U_L2sq [0x3F800000] [0x40000000] = 0x3F800000" "distance U_L2sq [0x3F800000] [0x3F800000] = 0"
  by (simp_all add: distance_def f32_sum_def f32_neg_zero_def f32_sub_def f32_mul_def f32_add_def f32_op_def
      sub0 sub1 mul0 mul1 add0 add1)

lemma sample_hits: "\<not> hit_le (20, 0x3F800000) (21, 0)"
  by (simp add: hit_le_def f32_total_cmp_def f32_total_key_def total_key_def cmp_int_def)


section \<open>A shard just opened, and one with two vectors\<close>

definition first_inner :: "sstate \<Rightarrow> (bool \<times> u64 list) shard_inner" where
  "first_inner x = sh_inner (sample_shard x)"

lemma first_inner_facts:
  "in_store (first_inner x) = fst x" "content sample_us_model k (first_inner x) = fmempty"
  "\<not> vi_viewed (index_of k (first_inner x))" "vi_dimensions (index_of k (first_inner x)) = 1"
  "files_back sample_usearch sample_us_model (first_inner x) w"
proof -
  show "in_store (first_inner x) = fst x" by (simp add: first_inner_def sample_shard_def)
  show v: "\<not> vi_viewed (index_of k (first_inner x))" for k
    by (cases k) (simp_all add: first_inner_def sample_shard_def index_of_def empty_index_def)
  show "content sample_us_model k (first_inner x) = fmempty" "vi_dimensions (index_of k (first_inner x)) = 1"
    by (cases k; simp add: first_inner_def sample_shard_def content_def vectors_def index_of_def empty_index_def sample_us_model_def)+
  show "files_back sample_usearch sample_us_model (first_inner x) w" using v by (simp add: files_back_def)
qed

lemma senv_parts: "se_env sample_senv = sample_env" "se_us sample_senv = sample_usearch"
  by (simp_all add: sample_senv_def)

lemma first_in_sync:
  assumes "first_state x"
  shows "in_sync sample_us_model (first_inner x)"
  using assms unfolding in_sync_def
  by (auto simp: first_inner_facts first_state_def live_ids_of_def empty_maps_def split: entity_kind.split)

definition found_maps :: maps where
  "found_maps = empty_maps\<lparr>
     docs := fmupd 10 \<lparr> de_url = [104], de_split_ids = [20, 21], de_summary_ids = None, de_extra_summary_ids = [], de_seq = 3,
       de_loc = \<lparr> loc_segment = 0, loc_offset = 200, loc_len = 50 \<rparr> \<rparr> fmempty,
     splits := fmupd 20 \<lparr> se_doc_id = 10, se_loc = \<lparr> loc_segment = 0, loc_offset = 0, loc_len = 100 \<rparr> \<rparr>
       (fmupd 21 \<lparr> se_doc_id = 10, se_loc = \<lparr> loc_segment = 0, loc_offset = 100, loc_len = 100 \<rparr> \<rparr> fmempty)\<rparr>"

definition found_inner :: "(bool \<times> u64 list) shard_inner" where
  "found_inner = \<lparr> in_store = store1\<lparr>st_maps := found_maps\<rparr>, in_splits = empty_index ESplit,
     in_summaries = empty_index ESummary \<rparr>"

definition found_world :: world where
  "found_world = \<lparr> files = fmupd (SegFile 0)
     (replicate 96 0 @ u32_to_le 0x40000000 @ replicate 96 0 @ u32_to_le 0x3F800000) fmempty,
     synced = fmempty, faults = [] \<rparr>"

lemma found_entries:
  "st_opts (in_store found_inner) = opts1" "st_active (in_store found_inner) = seg1"
  "st_maps (in_store found_inner) = found_maps" "vi_metric (index_of ESplit found_inner) = U_L2sq"
  by (simp_all add: found_inner_def store1_def index_of_def empty_index_def)

lemma found_file:
  "file_of found_world (SegFile 0) = replicate 96 0 @ u32_to_le 0x40000000 @ replicate 96 0 @ u32_to_le 0x3F800000"
  by (simp add: file_of_def found_world_def)

lemma found_vectors:
  "subslice 96 100 (file_of found_world (SegFile 0)) = u32_to_le 0x40000000"
  "subslice 196 200 (file_of found_world (SegFile 0)) = u32_to_le 0x3F800000"
  by (simp_all add: found_file subslice_def)

lemma one_f32: "map u32_from_le (chunks_exact 4 (u32_to_le v)) = [v]"
  using decode_encode_f32 [of _ _ "[v]"] by simp

lemma found_scores:
  "score sample_env (in_store found_inner) found_world U_L2sq ESplit [0x3F800000] 20 = Inr (Some (20, 0x3F800000))"
  "score sample_env (in_store found_inner) found_world U_L2sq ESplit [0x3F800000] 21 = Inr (Some (21, 0))"
proof -
  have l: "length (file_of found_world (SegFile 0)) = 200" by (simp add: found_file)
  show "score sample_env (in_store found_inner) found_world U_L2sq ESplit [0x3F800000] 20 = Inr (Some (20, 0x3F800000))"
    by (simp add: score_def with_vector_def entity_loc_def found_entries found_maps_def stored_vector_len_def opts1_def
      with_bytes_def seg1_def seg_read_at_def l found_vectors bindR_def one_f32 sample_distances RECORD_HEADER_LEN_def Let_def)
  show "score sample_env (in_store found_inner) found_world U_L2sq ESplit [0x3F800000] 21 = Inr (Some (21, 0))"
    by (simp add: score_def with_vector_def entity_loc_def found_entries found_maps_def stored_vector_len_def opts1_def
      with_bytes_def seg1_def seg_read_at_def l found_vectors bindR_def one_f32 sample_distances RECORD_HEADER_LEN_def Let_def)
qed


section \<open>The sample library takes what it is given\<close>

definition takes_vectors :: "store \<Rightarrow> world \<Rightarrow> (bool \<times> u64 list) shard_inner \<times> world \<Rightarrow> bool" where
  "takes_vectors s w y \<longleftrightarrow> in_store (fst y) = s \<and> snd y = w
     \<and> (\<forall>k. vi_dimensions (index_of k (fst y)) = 1 \<and> \<not> fst (vi_index (index_of k (fst y))))"

definition takes_index :: "(bool \<times> u64 list) vector_index \<times> world \<Rightarrow> bool" where
  "takes_index y \<longleftrightarrow> vi_dimensions (fst y) = 1 \<and> \<not> fst (vi_index (fst y))"

lemma runs_in_index:
  assumes "\<And>w. runs (\<lambda>y. takes_index y \<and> snd y = w) m"
  shows "runs (takes_vectors s w) (in_index kind m)"
proof (rule runsI)
  fix y :: "(bool \<times> u64 list) shard_inner \<times> world" assume y: "takes_vectors s w y"
  then have "takes_index (index_of kind (fst y), snd y)" by (simp add: takes_vectors_def takes_index_def)
  then obtain r t where t: "m (index_of kind (fst y), snd y) = (Inr r, t)" "takes_index t \<and> snd t = snd y"
    using runsD [OF assms [of "snd y"], of "(index_of kind (fst y), snd y)"] by auto
  then have "in_index kind m y = (Inr r, (set_index kind (fst t) (fst y), snd t))"
    by (cases y; cases t) (simp add: in_index_def zoom_def)
  with t(2) y show "\<exists>r t. in_index kind m y = (Inr r, t) \<and> takes_vectors s w t"
    by (auto simp: takes_vectors_def takes_index_def)
qed

lemma runs_remove: "runs (\<lambda>y. takes_index y \<and> snd y = w) (vi_remove sample_usearch key)"
  by (rule runsI) (auto simp: vi_remove_def call_def takes_index_def sample_usearch_def)

lemma runs_reserve: "runs (\<lambda>y. takes_index y \<and> snd y = w) (vi_reserve_for sample_usearch n)"
  by (rule runsI) (auto simp: vi_reserve_for_def call_def takes_index_def sample_usearch_def Let_def)

lemma runs_upsert:
  assumes "length v = 1"
  shows "runs (\<lambda>y. takes_index y \<and> snd y = w) (vi_upsert sample_usearch key v)"
proof (rule runsI)
  fix y :: "(bool \<times> u64 list) vector_index \<times> world"
  assume "takes_index y \<and> snd y = w"
  then obtain i where y: "y = (i, w)" "vi_dimensions i = 1" "\<not> fst (vi_index i)" by (cases y) (auto simp: takes_index_def)
  let ?r = "i\<lparr>vi_index := (fst (vi_index i), filter (\<lambda>j. j \<noteq> key) (snd (vi_index i)))\<rparr>"
  have "vi_remove sample_usearch key (i, w) = (Inr (), (?r, w))" by (simp add: vi_remove_def call_def sample_usearch_def)
  moreover have "vi_reserve_for sample_usearch 1 (?r, w) = (Inr (), (?r, w))"
    by (simp add: vi_reserve_for_def call_def sample_usearch_def Let_def)
  moreover have "call e (us_add_f32 sample_usearch key v) (?r, w) = (Inr (), (?r\<lparr>vi_index := (False, key # snd (vi_index ?r))\<rparr>, w))" for e
    using y(3) by (simp add: call_def sample_usearch_def)
  ultimately have "vi_upsert sample_usearch key v y = (Inr (), (?r\<lparr>vi_index := (False, key # snd (vi_index ?r))\<rparr>, w))"
    using y assms by (simp add: vi_upsert_def seqM_def bindM_def)
  with y(2) show "\<exists>r t. vi_upsert sample_usearch key v y = (Inr r, t) \<and> takes_index t \<and> snd t = w"
    by (simp add: takes_index_def)
qed


lemma runs_remove_keys: "runs (takes_vectors s w) (remove_keys sample_senv kind ids)"
  unfolding remove_keys_def
  by (induction ids) (simp_all add: runs_basic runs_seq runs_in_index runs_remove senv_parts)

lemma runs_document_vectors:
  "runs (takes_vectors s w) (index_part sample_senv doc1 rp)"
proof -
  have e: "dd_splits doc1 = [spl1]" "dd_summaries doc1 = None" "sd_summaries spl1 = [sum1]"
    "sd_embedding spl1 = Some emb1" "ud_embedding sum1 = Some emb1" "length (eb_embedding emb1) = 1"
    by (simp_all add: doc1_def spl1_def sum1_def emb1_def)
  show ?thesis
    unfolding index_part_def
    by (simp add: e opt_list_def runs_basic runs_seq runs_remove_keys runs_in_index runs_reserve runs_upsert senv_parts upsert_split_def)
qed

section \<open>A shard with one document\<close>

lemma promote_resident:
  assumes "\<And>k. \<not> vi_viewed (index_of k n)"
  shows "promote S (n, w) = (Inr (), (n, w))"
  using assms by (simp add: promote_def promote_index_def seqM_def bindM_def getM_def ret_def vi_is_viewed_def)

lemma first_shard_insert:
  assumes "first_state x"
  shows "\<exists>rp m w. shard_insert sample_senv doc1 (first_inner x, snd x) = (Inr rp, (m, w))
    \<and> takes_vectors (in_store m) w (m, w) \<and> faults w = []"
proof -
  have i: "store_inv sample_env [] [] x" "good_document (st_opts (fst x)) doc1"
    using assms good1 by (simp_all add: first_state_def)
  from insert_succeeds_calmly [OF i(2) first_fine [OF assms] sample_env_ok version_first [OF i(1)]] obtain rp z where
    z: "store_insert sample_env doc1 x = (Inr rp, z)" "faults (snd z) = []" by blast
  let ?m = "(first_inner x)\<lparr>in_store := fst z\<rparr>"
  have p: "promote sample_senv (first_inner x, snd x) = (Inr (), (first_inner x, snd x))"
    by (rule promote_resident) (rule first_inner_facts)
  have l: "in_log (store_insert sample_env doc1) (first_inner x, snd x) = (Inr rp, (?m, snd z))"
    unfolding in_log_run using z(1) by (intro exI [of _ "fst z"]) (simp add: first_inner_facts)
  have "vi_index (index_of k (first_inner x)) = (False, [])" for k
    by (cases k) (simp_all add: first_inner_def sample_shard_def index_of_def empty_index_def)
  then have "takes_vectors (fst z) (snd z) (?m, snd z)"
    by (simp add: takes_vectors_def first_inner_facts)
  from runsD [OF runs_document_vectors this] obtain r t where
    t: "index_part sample_senv doc1 rp (?m, snd z) = (Inr r, t)" "takes_vectors (fst z) (snd z) t" by blast
  from t(2) have e: "snd t = snd z" "in_store (fst t) = fst z" by (simp_all add: takes_vectors_def)
  have "shard_insert sample_senv doc1 (first_inner x, snd x) = index_part sample_senv doc1 rp (?m, snd z)"
    using l by (simp add: shard_insert_def index_part_def seqM_def bindM_def p senv_parts)
  with t e z(2) have "shard_insert sample_senv doc1 (first_inner x, snd x) = (Inr r, (fst t, snd z))" by (metis prod.collapse)
  with t(2) e z(2) show ?thesis by (metis prod.collapse)
qed

lemma then_shard_delete:
  assumes "takes_vectors (in_store m) w (m, w)" "store_inv sample_env sl al (in_store m, w)" "faults w = []"
    and "\<And>k. \<not> vi_viewed (index_of k m)"
  shows "\<exists>b n v. shard_delete sample_senv d (m, w) = (Inr b, (n, v))"
proof (cases "contains_doc (in_store m) d")
  case True
  from delete_succeeds [OF fineI [OF assms(2)] sample_env_ok version_first [OF assms(2)]] assms(3) obtain r z where
    z: "store_delete sample_env d (in_store m, w) = (Inr r, z)" by fastforce
  show ?thesis
  proof (cases r)
    case None
    with True z promote_resident [OF assms(4)] show ?thesis
      by (auto simp: shard_delete_def bindM_def seqM_def getM_def ret_def in_log_def zoom_def senv_parts split: prod.split)
  next
    case (Some removed)
    let ?n = "m\<lparr>in_store := fst z\<rparr>"
    have "takes_vectors (fst z) (snd z) (?n, snd z)" using assms(1) by (simp add: takes_vectors_def)
    from runsD [OF runs_seq [OF runs_remove_keys runs_remove_keys] this, of ESplit "rd_split_ids removed" ESummary "rd_summary_ids removed"]
    obtain u t where t: "seqM (remove_keys sample_senv ESplit (rd_split_ids removed))
        (remove_keys sample_senv ESummary (rd_summary_ids removed)) (?n, snd z) = (Inr u, t)" by blast
    then obtain y where "remove_keys sample_senv ESplit (rd_split_ids removed) (?n, snd z) = (Inr (), y)"
      "remove_keys sample_senv ESummary (rd_summary_ids removed) y = (Inr (), t)"
      by (auto simp: seqM_Inr)
    with True z promote_resident [OF assms(4)] Some show ?thesis
      by (cases z; cases t; cases y) (auto simp: shard_delete_def bindM_def seqM_def getM_def ret_def in_log_def zoom_def senv_parts)
  qed
qed (auto simp: shard_delete_def bindM_def getM_def ret_def)


text \<open>What the insertion leaves: room for more, and the document in the log and the indexes.\<close>

lemma first_shard_filled:
  assumes x: "first_state x" and run: "shard_insert sample_senv doc1 (first_inner x, snd x) = (Inr rp, (m, w))"
  shows "\<exists>sl al. store_inv sample_env sl al (in_store m, w)
    \<and> has_room (in_store m, w) (delete_log sample_env (in_store m, w) 10)
    \<and> in_sync sample_us_model m \<and> (\<forall>k. \<not> vi_viewed (index_of k m)) \<and> contains_doc (in_store m) 10"
proof -
  note I = x [unfolded first_state_def]
  have inv: "store_inv sample_env [] [] (in_store (first_inner x), snd x)" using I by (simp add: first_inner_facts)
  have room: "has_room (in_store (first_inner x), snd x) (records_of sample_env (in_store (first_inner x), snd x) doc1)"
    using first_room(1) [OF x] by (simp add: first_inner_facts)
  note K = shard_insert_keeps_sync [OF sample_usearch_ok senv_parts(2) first_inner_facts(5), unfolded senv_parts,
      OF inv sample_env_ok consistent1(1) room first_in_sync [OF x] run]
  note R = shard_insert_run [OF sample_usearch_ok senv_parts(2) first_inner_facts(5) run, unfolded senv_parts first_inner_facts prod.collapse]
  have r: "represents sample_env [] [] x []" "durable sample_env [] x" using I by (simp_all add: store_inv_def)
  have rf: "room_for [] (records_of sample_env x doc1) x" using has_room [OF r(1)] first_room(1) [OF x] by simp
  from insert_represents(1) [OF R(1) r(1) sample_env_ok r(2) consistent1(1) _ rf] obtain sl al where
    z: "placed x [] (records_of sample_env x doc1) (in_store m, w) sl al" "represents sample_env sl al (in_store m, w) []"
    "st_maps (in_store m) = maps_after_insert sample_env x doc1" "next_seq_of (in_store m, w) = 4"
    using I by (auto simp: no_pending_def first_records [OF x] records1)
  have "has_room (in_store m, w) (delete_log sample_env (in_store m, w) 10)"
    by (rule filled_room [OF x R(1)])
  moreover have "contains_doc (in_store m) 10"
    by (simp add: contains_doc_def z(3) maps_after_insert_def publish_def doc1_id [symmetric])
  ultimately show ?thesis using K by blast
qed

lemma first_rebuild:
  assumes "st_maps (in_store (first_inner x)) = empty_maps"
  shows "\<exists>n v. rebuild sample_senv (first_inner x, w) = (Inr (), (n, v))"
proof -
  have "vi_index (index_of k (first_inner x)) = (False, [])" for k
    by (cases k) (simp_all add: first_inner_def sample_shard_def index_of_def empty_index_def)
  then have t: "takes_vectors (in_store (first_inner x)) w (first_inner x, w)"
    by (simp add: takes_vectors_def first_inner_facts(4))
  have o: "e_order sample_env {||} = []"
    using sample_env_ok by (simp add: env_ok_def order_ok_def flip: set_empty)
  have f: "fill_index sample_senv kind (n, w) = in_index kind (ret ()) (n, w)" if "in_store n = in_store (first_inner x)" for n kind w
    using assms that o by (cases kind) (simp_all add: fill_index_def for_each_live_vector_def live_locs_def senv_parts empty_maps_def)
  have "runs (takes_vectors (in_store (first_inner x)) w) (fill_index sample_senv kind)" for kind
  proof (rule runsI)
    fix s assume s: "takes_vectors (in_store (first_inner x)) w s"
    then have "fill_index sample_senv kind s = in_index kind (ret ()) s" using f [of "fst s" kind "snd s"] by (cases s) (simp add: takes_vectors_def)
    with runsD [OF runs_in_index [OF runs_basic(1)] s, of kind "()"]
    show "\<exists>r t. fill_index sample_senv kind s = (Inr r, t) \<and> takes_vectors (in_store (first_inner x)) w t" by simp
  qed
  then have "runs (takes_vectors (in_store (first_inner x)) w) (rebuild sample_senv)"
    unfolding rebuild_def senv_parts
    by (intro runs_bind runs_seq runs_basic runs_in_index runs_reserve)
  from runsD [OF this t] show ?thesis by auto
qed

end
