(* ===== verification/Batching_Facts.thy ===== *)
theory Batching_Facts
  imports Batching
begin

text \<open>
  The workers give every sequence the model's own answer for it, whatever the batches: the loop
  over the sequences once for both workers, and no trace of a request left for the next one.
\<close>

section \<open>What the code relies on\<close>

text \<open>
  The documented behaviour of the library: a batch is the list of its sequences by number, a
  cleared batch has none, and a context whose key-value cache was cleared is fresh (\<open>lm_fresh\<close>).
  After a decoding in a fresh context the context gives the model's answer for each sequence
  (\<open>lm_answer\<close>), which does not depend on the others in the batch. Nothing is said of a decoding
  in a context that still holds the sequences of an earlier one, nor is the context fresh after a
  decoding. \<open>llama_live\<close> is what it takes for a request not to fail: room for \<open>n_ctx\<close> tokens, and
  decodings in a fresh context that work.
\<close>

record ('b, 'c) llama_model =
  lm_seqs :: "'b \<Rightarrow> token list list"
  lm_fresh :: "'c \<Rightarrow> bool"
  lm_answer :: "token list \<Rightarrow> f32 list"

definition tokens_in :: "token list list \<Rightarrow> nat" where
  "tokens_in tss = sum_list (map length tss)"

definition llama_ok :: "('b, 'c) llama \<Rightarrow> ('b, 'c) llama_model \<Rightarrow> bool" where
  "llama_ok L M \<longleftrightarrow>
     (\<forall>b. lm_seqs M (ll_clear L b) = [])
     \<and> (\<forall>b. ll_n_tokens L b = tokens_in (lm_seqs M b))
     \<and> (\<forall>ts b b'. ll_add L ts (length (lm_seqs M b)) b = (True, b') \<longrightarrow> lm_seqs M b' = lm_seqs M b @ [ts])
     \<and> (\<forall>c. lm_fresh M (ll_clear_kv L c))
     \<and> (\<forall>b c c' i. lm_fresh M c \<longrightarrow> ll_decode L b c = (True, c') \<longrightarrow> i < length (lm_seqs M b) \<longrightarrow>
          ll_seq L c' i = Some (lm_answer M (lm_seqs M b ! i)))"

definition llama_live :: "('b, 'c) llama \<Rightarrow> ('b, 'c) llama_model \<Rightarrow> nat \<Rightarrow> bool" where
  "llama_live L M n_ctx \<longleftrightarrow>
     (\<forall>ts b. tokens_in (lm_seqs M b) + length ts \<le> n_ctx \<longrightarrow> ts \<noteq> [] \<longrightarrow> fst (ll_add L ts (length (lm_seqs M b)) b))
     \<and> (\<forall>b c. lm_fresh M c \<longrightarrow> tokens_in (lm_seqs M b) \<le> n_ctx \<longrightarrow> lm_seqs M b \<noteq> [] \<longrightarrow> fst (ll_decode L b c))"

lemma llama_okD:
  assumes "llama_ok L M"
  shows "lm_seqs M (ll_clear L b) = []"
    and "ll_n_tokens L b = tokens_in (lm_seqs M b)"
    and "ll_add L ts (length (lm_seqs M b)) b = (True, b') \<Longrightarrow> lm_seqs M b' = lm_seqs M b @ [ts]"
    and "lm_fresh M (ll_clear_kv L c)"
    and "lm_fresh M c \<Longrightarrow> ll_decode L b c = (True, c') \<Longrightarrow> i < length (lm_seqs M b) \<Longrightarrow>
           ll_seq L c' i = Some (lm_answer M (lm_seqs M b ! i))"
  using assms by (auto simp: llama_ok_def)

section \<open>Decoding a batch\<close>

abbreviation seqs_of :: "('b, 'c) llama_model \<Rightarrow> ('b, 'c) work \<Rightarrow> token list list" where
  "seqs_of M s \<equiv> lm_seqs M (wk_batch s)"

text \<open>The counter is the number of sequences in the batch.\<close>

definition in_step :: "('b, 'c) llama_model \<Rightarrow> ('b, 'c) work \<Rightarrow> bool" where
  "in_step M s \<longleftrightarrow> wk_seq s = length (seqs_of M s)"

lemma push_all:
  assumes "\<And>i. i \<in> set is \<Longrightarrow> ll_seq L (wk_ctx s) i = Some (g i)"
  shows "forM (push_embedding L norm) is s = (Inr (), s\<lparr>wk_output := wk_output s @ map (norm \<circ> g) is\<rparr>)"
  using assms
proof (induction "is" arbitrary: s)
  case (Cons i js)
  let ?t = "s\<lparr>wk_output := wk_output s @ [norm (g i)]\<rparr>"
  have "push_embedding L norm i s = (Inr (), ?t)"
    using Cons.prems [of i] by (simp add: push_embedding_def)
  moreover have "forM (push_embedding L norm) js ?t
      = (Inr (), ?t\<lparr>wk_output := wk_output ?t @ map (norm \<circ> g) js\<rparr>)"
    by (rule Cons.IH) (use Cons.prems in auto)
  ultimately show ?case by (simp add: seqM_eval)
qed (simp add: ret_def)

lemma push_frame:
  "forM (push_embedding L norm) is s = (r, t) \<Longrightarrow> wk_batch t = wk_batch s \<and> wk_seq t = wk_seq s"
proof (induction "is" arbitrary: s)
  case (Cons i js)
  then show ?case
    by (auto simp: seqM_def bindM_def push_embedding_def split: option.splits prod.splits sum.splits)
qed (auto simp: ret_def)

lemma decode_outputs:
  assumes ok: "llama_ok L M" and dec: "decode_batch L s = (Inr (), t)" and step: "in_step M s"
  shows "forM (push_embedding L norm) [0..<wk_seq s] t
    = (Inr (), t\<lparr>wk_output := wk_output s @ map (norm \<circ> lm_answer M) (seqs_of M s)\<rparr>)"
proof -
  obtain c where c: "ll_decode L (wk_batch s) (ll_clear_kv L (wk_ctx s)) = (True, c)" "t = s\<lparr>wk_ctx := c\<rparr>"
    using dec by (auto simp: decode_batch_def split: prod.splits if_splits)
  have "forM (push_embedding L norm) [0..<wk_seq s] t
    = (Inr (), t\<lparr>wk_output := wk_output t @ map (norm \<circ> (\<lambda>i. lm_answer M (seqs_of M s ! i))) [0..<wk_seq s]\<rparr>)"
    by (rule push_all) (use llama_okD(5) [OF ok llama_okD(4) [OF ok] c(1)] c(2) step in \<open>simp add: in_step_def\<close>)
  moreover have "map (norm \<circ> (\<lambda>i. lm_answer M (seqs_of M s ! i))) [0..<wk_seq s]
      = map (norm \<circ> lm_answer M) (seqs_of M s)"
    using step by (auto simp: in_step_def intro: nth_equalityI)
  ultimately show ?thesis using c(2) by simp
qed

lemma decode_batch_frame: "decode_batch L s = (r, t) \<Longrightarrow> wk_batch t = wk_batch s \<and> wk_seq t = wk_seq s"
  by (auto simp: decode_batch_def split: prod.splits)

text \<open>Every way out of a decoding leaves the batch empty.\<close>

lemma batch_decode_clears:
  assumes ok: "llama_ok L M" and run: "batch_decode L norm s = (r, t)"
  shows "seqs_of M t = []"
proof -
  obtain r' u where u: "seqM (decode_batch L) (forM (push_embedding L norm) [0..<wk_seq s]) s = (r', u)"
    by (cases "seqM (decode_batch L) (forM (push_embedding L norm) [0..<wk_seq s]) s") blast
  then have "t = u\<lparr>wk_batch := ll_clear L (wk_batch u)\<rparr>"
    using run by (simp add: batch_decode_def bindM_def attempt_def getM_def clear_batch_def seqM_def modM_def liftM_def)
  then show ?thesis using llama_okD(1) [OF ok] by simp
qed

lemma batch_decode_outputs:
  assumes ok: "llama_ok L M" and step: "in_step M s" and run: "batch_decode L norm s = (Inr (), t)"
  shows "wk_output t = wk_output s @ map (norm \<circ> lm_answer M) (seqs_of M s)"
proof -
  obtain r' u where u: "seqM (decode_batch L) (forM (push_embedding L norm) [0..<wk_seq s]) s = (r', u)"
    by (cases "seqM (decode_batch L) (forM (push_embedding L norm) [0..<wk_seq s]) s") blast
  then have t: "r' = Inr ()" "t = u\<lparr>wk_batch := ll_clear L (wk_batch u)\<rparr>"
    using run by (simp_all add: batch_decode_def bindM_def attempt_def getM_def clear_batch_def seqM_def modM_def liftM_def)
  then obtain v where "decode_batch L s = (Inr (), v)" "forM (push_embedding L norm) [0..<wk_seq s] v = (Inr (), u)"
    using u by (auto simp: seqM_Inr)
  with decode_outputs [OF ok _ step, of v norm] t show ?thesis by simp
qed

lemma batch_decode_live:
  assumes ok: "llama_ok L M" and live: "llama_live L M n_ctx" and step: "in_step M s"
    and ne: "seqs_of M s \<noteq> []" "tokens_in (seqs_of M s) \<le> n_ctx"
  shows "fst (batch_decode L norm s) = Inr ()"
proof -
  obtain o' c where "ll_decode L (wk_batch s) (ll_clear_kv L (wk_ctx s)) = (o', c)" by fastforce
  with live ne llama_okD(4) [OF ok, of "wk_ctx s"] have "ll_decode L (wk_batch s) (ll_clear_kv L (wk_ctx s)) = (True, c)"
    unfolding llama_live_def by (metis fst_conv)
  then have dec: "decode_batch L s = (Inr (), s\<lparr>wk_ctx := c\<rparr>)" by (simp add: decode_batch_def)
  from decode_outputs [OF ok dec step, of norm] show ?thesis
    by (simp add: batch_decode_def bindM_def attempt_def getM_def clear_batch_def seqM_def modM_def liftM_def dec)
qed

section \<open>The loop, for both workers\<close>

text \<open>What the loop needs of the flush: it moves the batch's answers to the output.\<close>

locale batch_flush =
  fixes flush :: "('b, 'c) llama \<Rightarrow> ('b, 'c, unit) wop" and norm :: "f32 list \<Rightarrow> f32 list"
  assumes flush_done: "llama_ok L M \<Longrightarrow> in_step M s \<Longrightarrow> flush L s = (Inr (), t) \<Longrightarrow>
      seqs_of M t = [] \<and> wk_seq t = 0 \<and> wk_output t = wk_output s @ map (norm \<circ> lm_answer M) (seqs_of M s)"
    and flush_live: "llama_ok L M \<Longrightarrow> llama_live L M n_ctx \<Longrightarrow> in_step M s \<Longrightarrow> seqs_of M s \<noteq> [] \<Longrightarrow>
      tokens_in (seqs_of M s) \<le> n_ctx \<Longrightarrow> fst (flush L s) = Inr ()"
begin

definition answered :: "('b, 'c) llama_model \<Rightarrow> ('b, 'c) work \<Rightarrow> f32 list list" where
  "answered M s = wk_output s @ map (norm \<circ> lm_answer M) (seqs_of M s)"

lemma add_tokens_done:
  assumes ok: "llama_ok L M" and step: "in_step M s" and run: "add_tokens L n_ctx (flush L) ts s = (Inr (), t)"
  shows "in_step M t \<and> answered M t = answered M s @ [norm (lm_answer M ts)]"
proof -
  let ?full = "n_ctx < ll_n_tokens L (wk_batch s) + length ts"
  from run obtain u where u: "(if ?full then flush L else ret ()) s = (Inr (), u)"
    and add: "add_sequence L ts u = (Inr (), t)"
    by (auto simp: add_tokens_def op_inv)
  have u': "in_step M u \<and> answered M u = answered M s"
    using u flush_done [OF ok step, of u] step
    by (cases ?full) (auto simp: op_inv in_step_def answered_def)
  from add obtain b where b: "ll_add L ts (wk_seq u) (wk_batch u) = (True, b)"
    "t = u\<lparr>wk_batch := b, wk_seq := wk_seq u + 1\<rparr>"
    by (auto simp: add_sequence_def split: prod.splits if_splits)
  then have "lm_seqs M b = seqs_of M u @ [ts]"
    using u' llama_okD(3) [OF ok] by (simp add: in_step_def)
  with b(2) u' show ?thesis by (simp add: in_step_def answered_def)
qed

lemma loop_done:
  "llama_ok L M \<Longrightarrow> in_step M s \<Longrightarrow> forM (add_tokens L n_ctx (flush L)) tss s = (Inr (), t) \<Longrightarrow>
     in_step M t \<and> answered M t = answered M s @ map (norm \<circ> lm_answer M) tss"
proof (induction tss arbitrary: s)
  case (Cons ts tss)
  from Cons.prems(3) obtain u where u: "add_tokens L n_ctx (flush L) ts s = (Inr (), u)"
    "forM (add_tokens L n_ctx (flush L)) tss u = (Inr (), t)"
    by (auto simp: op_inv)
  from add_tokens_done [OF Cons.prems(1,2) u(1)] Cons.IH [OF Cons.prems(1) _ u(2)]
  show ?case by simp
qed (simp add: op_inv)

lemma add_tokens_live:
  assumes ok: "llama_ok L M" and live: "llama_live L M n_ctx" and step: "in_step M s"
    and ts: "ts \<noteq> []" "length ts \<le> n_ctx" and room: "tokens_in (seqs_of M s) \<le> n_ctx"
  shows "\<exists>t. add_tokens L n_ctx (flush L) ts s = (Inr (), t) \<and> in_step M t \<and> seqs_of M t \<noteq> []
    \<and> tokens_in (seqs_of M t) \<le> n_ctx"
proof -
  let ?full = "n_ctx < ll_n_tokens L (wk_batch s) + length ts"
  have n: "ll_n_tokens L (wk_batch s) = tokens_in (seqs_of M s)" by (rule llama_okD(2) [OF ok])
  have "\<exists>u. (if ?full then flush L else ret ()) s = (Inr (), u) \<and> in_step M u
      \<and> tokens_in (seqs_of M u) + length ts \<le> n_ctx"
  proof (cases ?full)
    case True
    with n ts(2) have "seqs_of M s \<noteq> []" by (auto simp: tokens_in_def)
    with flush_live [OF ok live step _ room] obtain u where u: "flush L s = (Inr (), u)"
      by (cases "flush L s") auto
    with flush_done [OF ok step u] ts(2) True show ?thesis by (simp add: in_step_def tokens_in_def)
  qed (use n step in \<open>simp add: ret_def\<close>)
  then obtain u where u: "(if ?full then flush L else ret ()) s = (Inr (), u)" "in_step M u"
      "tokens_in (seqs_of M u) + length ts \<le> n_ctx" by blast
  obtain o' b where "ll_add L ts (wk_seq u) (wk_batch u) = (o', b)" by fastforce
  with live u(2,3) ts(1) have b: "ll_add L ts (wk_seq u) (wk_batch u) = (True, b)"
    unfolding llama_live_def in_step_def by (metis fst_conv)
  let ?t = "u\<lparr>wk_batch := b, wk_seq := wk_seq u + 1\<rparr>"
  have "lm_seqs M b = seqs_of M u @ [ts]" using llama_okD(3) [OF ok] b u(2) by (simp add: in_step_def)
  moreover have "add_tokens L n_ctx (flush L) ts s = (Inr (), ?t)"
    using u(1) b by (simp add: add_tokens_def bindM_def getM_def seqM_def add_sequence_def)
  ultimately show ?thesis using u(2,3) by (intro exI [of _ ?t]) (simp add: in_step_def tokens_in_def)
qed

lemma loop_live:
  "llama_ok L M \<Longrightarrow> llama_live L M n_ctx \<Longrightarrow> in_step M s \<Longrightarrow> tokens_in (seqs_of M s) \<le> n_ctx \<Longrightarrow>
     \<forall>ts \<in> set tss. ts \<noteq> [] \<and> length ts \<le> n_ctx \<Longrightarrow>
     \<exists>t. forM (add_tokens L n_ctx (flush L)) tss s = (Inr (), t) \<and> in_step M t
       \<and> (tss \<noteq> [] \<longrightarrow> seqs_of M t \<noteq> []) \<and> tokens_in (seqs_of M t) \<le> n_ctx"
proof (induction tss arbitrary: s)
  case (Cons ts tss)
  from add_tokens_live [OF Cons.prems(1-3), of ts] Cons.prems(4,5)
  obtain u where u: "add_tokens L n_ctx (flush L) ts s = (Inr (), u)" "in_step M u" "seqs_of M u \<noteq> []"
    "tokens_in (seqs_of M u) \<le> n_ctx" by auto
  from Cons.IH [OF Cons.prems(1,2) u(2,4)] Cons.prems(5)
  obtain t where t: "forM (add_tokens L n_ctx (flush L)) tss u = (Inr (), t)" "in_step M t"
    "tss \<noteq> [] \<longrightarrow> seqs_of M t \<noteq> []" "tokens_in (seqs_of M t) \<le> n_ctx" by auto
  have "seqs_of M t \<noteq> []"
    using t(1,3) u(3) by (cases tss) (auto simp: ret_def)
  with t u(1) show ?case by (simp add: seqM_eval)
qed (simp add: ret_def)

text \<open>The whole request: the loop, then the last batch.\<close>

definition run_all :: "('b, 'c) llama \<Rightarrow> nat \<Rightarrow> token list list \<Rightarrow> ('b, 'c, unit) wop" where
  "run_all L n_ctx tss = seqM (add_all L n_ctx (flush L) tss) (batch_decode L norm)"

lemma run_all_done:
  assumes ok: "llama_ok L M" and s: "seqs_of M s = []" "wk_seq s = 0" "wk_output s = []"
    and run: "run_all L n_ctx tss s = (Inr (), t)"
  shows "wk_output t = map (norm \<circ> lm_answer M) tss"
proof -
  from run obtain u where u: "add_all L n_ctx (flush L) tss s = (Inr (), u)" "batch_decode L norm u = (Inr (), t)"
    by (auto simp: run_all_def op_inv)
  from u(1) have "forM (add_tokens L n_ctx (flush L)) tss s = (Inr (), u)"
    by (cases "forM (add_tokens L n_ctx (flush L)) tss s")
       (auto simp: add_all_def attempt_def op_inv split: sum.splits)
  from loop_done [OF ok _ this] s have "in_step M u" "answered M u = map (norm \<circ> lm_answer M) tss"
    by (simp_all add: in_step_def answered_def)
  with batch_decode_outputs [OF ok _ u(2)] show ?thesis by (simp add: answered_def)
qed

lemma run_all_clears:
  assumes ok: "llama_ok L M" and run: "run_all L n_ctx tss s = (r, t)"
  shows "seqs_of M t = []"
proof -
  obtain r' u where u: "forM (add_tokens L n_ctx (flush L)) tss s = (r', u)"
    by (cases "forM (add_tokens L n_ctx (flush L)) tss s") blast
  show ?thesis
  proof (cases r')
    case (Inl e)
    with u run have "t = u\<lparr>wk_batch := ll_clear L (wk_batch u)\<rparr>"
      by (simp add: run_all_def seqM_def bindM_def add_all_def attempt_def clear_batch_def modM_def fail_def)
    with llama_okD(1) [OF ok] show ?thesis by simp
  next
    case (Inr x)
    with u run have "batch_decode L norm u = (r, t)"
      by (simp add: run_all_def seqM_def bindM_def add_all_def attempt_def ret_def)
    with batch_decode_clears [OF ok] show ?thesis by blast
  qed
qed

lemma run_all_live:
  assumes ok: "llama_ok L M" and live: "llama_live L M n_ctx"
    and s: "seqs_of M s = []" "wk_seq s = 0"
    and tss: "tss \<noteq> []" "\<forall>ts \<in> set tss. ts \<noteq> [] \<and> length ts \<le> n_ctx"
  shows "fst (run_all L n_ctx tss s) = Inr ()"
proof -
  from loop_live [OF ok live _ _ tss(2), of s] s tss(1)
  obtain u where u: "forM (add_tokens L n_ctx (flush L)) tss s = (Inr (), u)" "in_step M u"
    "seqs_of M u \<noteq> []" "tokens_in (seqs_of M u) \<le> n_ctx"
    by (auto simp: in_step_def tokens_in_def)
  from batch_decode_live [OF ok live u(2,3,4)] u(1) show ?thesis
    by (simp add: run_all_def seqM_def bindM_def add_all_def attempt_def ret_def)
qed

end


section \<open>The embedding worker\<close>

lemma flush_embeddings_done:
  assumes ok: "llama_ok L M" and step: "in_step M s" and run: "flush_embeddings L s = (Inr (), t)"
  shows "seqs_of M t = [] \<and> wk_seq t = 0
    \<and> wk_output t = wk_output s @ map (normalize \<circ> lm_answer M) (seqs_of M s)"
proof -
  from run obtain u where u: "batch_decode L normalize s = (Inr (), u)" "t = u\<lparr>wk_seq := 0\<rparr>"
    by (auto simp: flush_embeddings_def reset_seq_def op_inv)
  with batch_decode_clears [OF ok u(1)] batch_decode_outputs [OF ok step u(1)] show ?thesis by simp
qed

lemma seqM_fst: "fst (m s) = Inr () \<Longrightarrow> fst (seqM m k s) = fst (k (snd (m s)))"
  by (cases "m s") (simp add: seqM_def bindM_def)

interpretation embed: batch_flush flush_embeddings normalize
proof
  show "fst (flush_embeddings L s) = Inr ()"
    if "llama_ok L M" "llama_live L M n_ctx" "in_step M s" "seqs_of M s \<noteq> []" "tokens_in (seqs_of M s) \<le> n_ctx"
    for L :: "('a, 'b) llama" and M s n_ctx
    using batch_decode_live [OF that] by (simp add: flush_embeddings_def seqM_fst reset_seq_def modM_def)
qed (rule flush_embeddings_done)

lemma embed_texts_run:
  "embed_texts L n_ctx texts =
     seqM (embed.run_all L n_ctx (List.map_filter (tokens_of L n_ctx) texts)) (getM wk_output)"
  by (rule ext) (simp add: embed_texts_def embed.run_all_def seqM_def bindM_def split: prod.splits sum.splits)

lemma start_request_empty [simp]:
  "wk_seq (start_request bc) = 0" "wk_output (start_request bc) = []" "wk_batch (start_request bc) = fst bc"
  by (simp_all add: start_request_def)

text \<open>What an answer may be: an error with no vectors, or a vector for every text with tokens.\<close>

definition embedding_answer ::
  "('b, 'c) llama \<Rightarrow> ('b, 'c) llama_model \<Rightarrow> nat \<Rightarrow> ustring list option \<Rightarrow> embeddings_response \<Rightarrow> bool" where
  "embedding_answer L M n_ctx m r =
     (case er_error r of
        Some _ \<Rightarrow> er_embeddings r = []
      | None \<Rightarrow>
          (case m of
             None \<Rightarrow> False
           | Some texts \<Rightarrow> er_embeddings r
               = map (\<lambda>ts. normalize (lm_answer M ts)) (List.map_filter (tokens_of L n_ctx) texts)))"

lemma embedding_message_answer:
  assumes ok: "llama_ok L M" and empty: "lm_seqs M (fst bc) = []"
    and run: "embedding_message L n_ctx model_id packs m bc = (r, bc')"
  shows "embedding_answer L M n_ctx m r \<and> lm_seqs M (fst bc') = []"
proof (cases m)
  case None
  with run empty show ?thesis by (auto simp: embedding_message_def embedding_answer_def Let_def)
next
  case (Some texts)
  let ?tss = "List.map_filter (tokens_of L n_ctx) texts"
  obtain r' t where t: "embed.run_all L n_ctx ?tss (start_request bc) = (r', t)"
    by (cases "embed.run_all L n_ctx ?tss (start_request bc)") blast
  have clear: "seqs_of M t = []" by (rule embed.run_all_clears [OF ok t])
  show ?thesis
  proof (cases r')
    case (Inl e)
    with t Some run clear show ?thesis
      by (auto simp: embedding_message_def embed_texts_run seqM_def bindM_def Let_def end_request_def embedding_answer_def)
  next
    case (Inr x)
    with t have "wk_output t = map (normalize \<circ> lm_answer M) ?tss"
      using embed.run_all_done [OF ok _ _ _, of "start_request bc" n_ctx ?tss t] empty by simp
    with Inr t Some run clear show ?thesis
      by (auto simp: embedding_message_def embed_texts_run seqM_def bindM_def getM_def Let_def end_request_def
            embedding_answer_def comp_def split: if_splits)
  qed
qed

lemma embedding_worker_answer:
  "llama_ok L M \<Longrightarrow> lm_seqs M (fst bc) = [] \<Longrightarrow>
     list_all2 (embedding_answer L M n_ctx) ms (embedding_worker L n_ctx model_id packs ms bc)"
proof (induction ms arbitrary: bc)
  case (Cons m ms)
  obtain r bc' where run: "embedding_message L n_ctx model_id packs m bc = (r, bc')"
    by (cases "embedding_message L n_ctx model_id packs m bc") blast
  from embedding_message_answer [OF Cons.prems run] Cons.IH [of bc'] Cons.prems(1) run show ?case by simp
qed simp

text \<open>The tokens of a text fit the context window, so a request fails only if it has none.\<close>

lemma tokens_of_fit:
  "0 < n_ctx \<Longrightarrow> ts \<in> set (List.map_filter (tokens_of L n_ctx) texts) \<Longrightarrow> ts \<noteq> [] \<and> length ts \<le> n_ctx"
  by (auto simp: List.map_filter_def tokens_of_def split: option.splits if_splits)

lemma embedding_message_live:
  assumes ok: "llama_ok L M" and live: "llama_live L M n_ctx" and "0 < n_ctx"
    and empty: "lm_seqs M (fst bc) = []" and some: "List.map_filter (tokens_of L n_ctx) texts \<noteq> []"
    and packs: "\<And>r. packs r"
  shows "er_error (fst (embedding_message L n_ctx model_id packs (Some texts) bc)) = None"
proof -
  let ?tss = "List.map_filter (tokens_of L n_ctx) texts"
  have "fst (embed.run_all L n_ctx ?tss (start_request bc)) = Inr ()"
    by (rule embed.run_all_live [OF ok live]) (use empty some tokens_of_fit [OF assms(3)] in auto)
  then obtain t where "embed.run_all L n_ctx ?tss (start_request bc) = (Inr (), t)"
    by (cases "embed.run_all L n_ctx ?tss (start_request bc)") auto
  then show ?thesis
    by (simp add: embedding_message_def embed_texts_run seqM_def bindM_def getM_def packs Let_def)
qed

section \<open>The reranking worker\<close>

lemma score_le_num:
  "score_le x y \<longleftrightarrow> f32_is_nan y \<or> (\<not> f32_is_nan x \<and> f32_num y \<le> f32_num x)"
proof (cases "f32_is_nan x \<or> f32_is_nan y")
  case True
  then have "f32_partial_cmp y x = None"
    by (auto simp: f32_partial_cmp_def fcmp_def f32_is_nan_def split: fval.splits)
  with True show ?thesis by (auto simp: score_le_def)
next
  case False
  then show ?thesis by (auto simp: score_le_def f32_partial_cmp_num cmp_int_def)
qed

interpretation by_score: total_preorder_on UNIV scored_le
  by unfold_locales (auto simp: scored_le_def score_le_num)

interpretation ranks: batch_flush "\<lambda>L. flush_ranks L norm" norm for norm :: "f32 list \<Rightarrow> f32 list"
proof
  show "seqs_of M t = [] \<and> wk_seq t = 0 \<and> wk_output t = wk_output s @ map (norm \<circ> lm_answer M) (seqs_of M s)"
    if "llama_ok L M" "in_step M s" "flush_ranks L norm s = (Inr (), t)"
    for L :: "('a, 'b) llama" and M s t
  proof -
    from that(3) obtain u where u: "batch_decode L norm s = (Inr (), u)"
      "t = u\<lparr>wk_seq := 0, wk_batch := ll_clear L (wk_batch u)\<rparr>"
      by (auto simp: flush_ranks_def reset_seq_def clear_batch_def op_inv)
    with llama_okD(1) [OF that(1)] batch_decode_outputs [OF that(1,2) u(1)] show ?thesis by simp
  qed
  show "fst (flush_ranks L norm s) = Inr ()"
    if "llama_ok L M" "llama_live L M n_ctx" "in_step M s" "seqs_of M s \<noteq> []" "tokens_in (seqs_of M s) \<le> n_ctx"
    for L :: "('a, 'b) llama" and M s n_ctx
    using batch_decode_live [OF that]
    by (simp add: flush_ranks_def seqM_fst reset_seq_def clear_batch_def modM_def)
qed

lemma rank_pairs_run:
  "rank_pairs L n_ctx norm pairs =
     seqM (ranks.run_all norm L n_ctx (map snd pairs))
    (bindM (getM wk_output) (\<lambda>output. bindM (scores_of output) (\<lambda>scores.
     ret (ranks_of (zip (map fst pairs) scores)))))"
  by (rule ext) (simp add: rank_pairs_def ranks.run_all_def seqM_def bindM_def split: prod.splits sum.splits)

text \<open>The score of a pair: the first number the model gives for its own sequence.\<close>

definition pair_score :: "('b, 'c) llama_model \<Rightarrow> (f32 list \<Rightarrow> f32 list) \<Rightarrow> nat \<times> token list \<Rightarrow> nat \<times> f32" where
  "pair_score M norm p = (fst p, hd (norm (lm_answer M (snd p))))"

lemma rank_pairs_done:
  assumes ok: "llama_ok L M" and s: "seqs_of M s = []" "wk_seq s = 0" "wk_output s = []"
    and run: "rank_pairs L n_ctx norm pairs s = (Inr ranks, t)"
  shows "ranks = ranks_of (map (pair_score M norm) pairs)"
proof -
  from run obtain u where u: "ranks.run_all norm L n_ctx (map snd pairs) s = (Inr (), u)"
    "bindM (scores_of (wk_output u)) (\<lambda>scores. ret (ranks_of (zip (map fst pairs) scores))) u = (Inr ranks, t)"
    unfolding rank_pairs_run by (auto simp: op_inv)
  from ranks.run_all_done [OF ok s u(1)] have out: "wk_output u = map (norm \<circ> lm_answer M) (map snd pairs)" .
  from u(2) have "ranks = ranks_of (zip (map fst pairs) (map hd (wk_output u)))"
    by (auto simp: scores_of_def op_inv split: if_splits)
  also have "zip (map fst pairs) (map hd (wk_output u)) = map (pair_score M norm) pairs"
    unfolding out by (induction pairs) (simp_all add: pair_score_def)
  finally show ?thesis .
qed

lemma rank_pairs_clears:
  assumes ok: "llama_ok L M" and run: "rank_pairs L n_ctx norm pairs s = (r, t)"
  shows "seqs_of M t = []"
proof -
  obtain r' u where u: "ranks.run_all norm L n_ctx (map snd pairs) s = (r', u)"
    by (cases "ranks.run_all norm L n_ctx (map snd pairs) s") blast
  from ranks.run_all_clears [OF ok u] run u show ?thesis
    by (cases r') (auto simp: rank_pairs_run seqM_def bindM_def getM_def scores_of_def fail_def ret_def split: if_splits)
qed

lemma rank_texts_done:
  assumes ok: "llama_ok L M" and s: "seqs_of M s = []" "wk_seq s = 0" "wk_output s = []"
    and run: "rank_texts L n_ctx norm req s = (Inr ranks, t)"
  obtains query_tokens where "ll_tokenize L False (rr_query req) = Some query_tokens"
    "ranks = ranks_of (map (pair_score M norm) (sequence_pairs L n_ctx query_tokens (rr_texts req)))"
  using run rank_pairs_done [OF ok s, of n_ctx norm]
  by (auto simp: rank_texts_def fail_def split: if_splits option.splits)

lemma rank_texts_clears:
  assumes ok: "llama_ok L M" and s: "seqs_of M s = []" and run: "rank_texts L n_ctx norm req s = (r, t)"
  shows "seqs_of M t = []"
  using run s rank_pairs_clears [OF ok]
  by (auto simp: rank_texts_def fail_def split: if_splits option.splits)

lemma rerank_message_clears:
  assumes ok: "llama_ok L M" and empty: "lm_seqs M (fst bc) = []"
    and run: "rerank_message L n_ctx model_id norm packs m bc = (r, bc')"
  shows "lm_seqs M (fst bc') = []"
proof (cases m)
  case (Some req)
  obtain r' t where t: "rank_texts L n_ctx norm req (start_request bc) = (r', t)"
    by (cases "rank_texts L n_ctx norm req (start_request bc)") blast
  have "seqs_of M t = []" by (rule rank_texts_clears [OF ok _ t]) (simp add: empty)
  with t Some run show ?thesis
    by (auto simp: rerank_message_def Let_def end_request_def split: sum.splits)
qed (use run empty in \<open>auto simp: rerank_message_def Let_def\<close>)

text \<open>The places are counted from 0, the scores descend with NaN last, and no text is lost.\<close>

lemma map_enumerate_fst: "map (\<lambda>p. g (fst p)) (enumerate n xs) = map g [n..<n + length xs]"
  by (rule nth_equalityI) (simp_all add: nth_enumerate_eq)

lemma map_enumerate_snd: "map (\<lambda>p. g (snd p)) (enumerate n xs) = map g xs"
  by (rule nth_equalityI) (simp_all add: nth_enumerate_eq)

lemma ranks_of_places: "map rk_rank (ranks_of scored) = map (Some \<circ> word_of_nat) [0..<length scored]"
  using map_enumerate_fst [of "Some \<circ> word_of_nat" 0 "sort_by scored_le scored"]
  by (simp add: ranks_of_def comp_def case_prod_unfold)

lemma ranks_of_entries:
  "map (\<lambda>r. (rk_index r, rk_score r)) (ranks_of scored)
     = map (\<lambda>p. (word_of_nat (fst p), Some (snd p))) (sort_by scored_le scored)"
  using map_enumerate_snd [of "\<lambda>p. (word_of_nat (fst p), Some (snd p))" 0 "sort_by scored_le scored"]
  by (simp add: ranks_of_def comp_def case_prod_unfold)

lemma ranks_of_mset:
  "mset (map (\<lambda>r. (rk_index r, rk_score r)) (ranks_of scored))
     = mset (map (\<lambda>p. (word_of_nat (fst p), Some (snd p))) scored)"
  unfolding ranks_of_entries mset_map by simp

lemma ranks_of_sorted: "sorted_wrt (\<lambda>a b. score_le (the (rk_score a)) (the (rk_score b))) (ranks_of scored)"
proof -
  have s: "sorted_wrt scored_le (sort_by scored_le scored)" by (rule by_score.sort_sorted) simp
  have "sorted_wrt (\<lambda>a b. scored_le (snd a) (snd b)) (enumerate 0 (sort_by scored_le scored))"
    using s by (simp add: sorted_wrt_iff_nth_less nth_enumerate_eq)
  then show ?thesis by (simp add: ranks_of_def sorted_wrt_map case_prod_unfold scored_le_def [abs_def])
qed

end
