(* ===== verification/Query_Facts.thy ===== *)
theory Query_Facts
  imports Query Batching_Facts "HOL-Library.Sublist"
begin

text \<open>
  The query: the cut keeps the nearest hits over all shards and disturbs no shard's order, the
  answers come in the order of their distances, and a reranked summary carries the score the
  model gives its own text.
\<close>

section \<open>The cut\<close>

definition hit_key :: "nat \<times> u64 \<times> f32 \<Rightarrow> nat \<times> u64" where
  "hit_key h = (fst h, fst (snd h))"

definition hits_from :: "nat \<Rightarrow> hits list \<Rightarrow> (nat \<times> u64 \<times> f32) list" where
  "hits_from n ps = concat (map (\<lambda>(i, hs). map (\<lambda>(k, d). (i, k, d)) hs) (enumerate n ps))"

lemma hits_from_simps [simp]:
  "hits_from n [] = []" "hits_from n (hs # ps) = map (Pair n) hs @ hits_from (Suc n) ps"
  by (simp_all add: hits_from_def)

lemma all_hits_from: "all_hits ps = hits_from 0 ps"
  by (simp add: all_hits_def hits_from_def)

lemma length_hits_from: "length (hits_from n ps) = sum_list (map length ps)"
  by (induction ps arbitrary: n) simp_all

lemma hits_from_index: "h \<in> set (hits_from n ps) \<Longrightarrow> n \<le> fst h"
  by (induction ps arbitrary: n) force+

lemma hits_from_member:
  "h \<in> set (hits_from n ps) \<Longrightarrow> \<exists>hs \<in> set ps. (fst (snd h), snd (snd h)) \<in> set hs"
  by (induction ps arbitrary: n) auto

lemma hits_from_distinct: "\<forall>hs \<in> set ps. im_ok hs \<Longrightarrow> distinct (map hit_key (hits_from n ps))"
proof (induction ps arbitrary: n)
  case (Cons hs ps)
  have "map hit_key (map (Pair n) hs) = map (Pair n) (map fst hs)"
    by (simp add: hit_key_def)
  moreover have "distinct (map (Pair n) (map fst hs))"
    using Cons.prems by (simp only: distinct_map) (simp add: im_ok_def inj_on_def distinct_map)
  ultimately have "distinct (map hit_key (map (Pair n) hs))" by (simp only:)
  moreover have "hit_key x \<noteq> hit_key y" if "x \<in> set (map (Pair n) hs)" "y \<in> set (hits_from (Suc n) ps)" for x y
    using that hits_from_index [of y "Suc n" ps] by (auto simp: hit_key_def)
  ultimately show ?case using Cons
    by (simp only: hits_from_simps map_append distinct_append set_map) fastforce
qed simp

lemma retain_hits_key: "retain_hits kept i hs = filter (\<lambda>p. hit_key (i, p) \<in> hit_key ` set kept) hs"
proof -
  have "(\<lambda>(j, m, e). (j, m)) = hit_key" by (auto simp: hit_key_def)
  then show ?thesis by (simp add: retain_hits_def case_prod_unfold hit_key_def)
qed

lemma retain_all_hits:
  "hits_from n (map (\<lambda>(i, hs). retain_hits kept i hs) (enumerate n ps))
     = filter (\<lambda>h. hit_key h \<in> hit_key ` set kept) (hits_from n ps)"
  by (induction ps arbitrary: n) (simp_all add: retain_hits_key filter_map comp_def)

lemma sublist_nearest: "set (nearest ps k) \<subseteq> set (all_hits ps)"
  by (auto simp: nearest_def dest!: in_set_takeD)

lemma keep_nearest_filter:
  assumes ok: "\<forall>hs \<in> set ps. im_ok hs" and cut: "k < sum_list (map length ps)"
  shows "all_hits (keep_nearest ps k) = filter (\<lambda>h. h \<in> set (nearest ps k)) (all_hits ps)"
proof -
  have inj: "inj_on hit_key (set (all_hits ps))"
    using hits_from_distinct [OF ok, of 0] by (simp add: all_hits_from distinct_map)
  have "all_hits (keep_nearest ps k)
      = filter (\<lambda>h. hit_key h \<in> hit_key ` set (nearest ps k)) (all_hits ps)"
    using cut retain_all_hits [of 0 "nearest ps k" ps] by (simp add: keep_nearest_def all_hits_from)
  also have "\<dots> = filter (\<lambda>h. h \<in> set (nearest ps k)) (all_hits ps)"
    using inj sublist_nearest [of ps k] by (intro filter_cong) (auto simp: inj_on_def)
  finally show ?thesis .
qed

lemma length_nearest: "length (nearest ps k) = min k (sum_list (map length ps))"
  by (simp add: nearest_def all_hits_from length_hits_from min.commute)

lemma distinct_nearest:
  assumes "\<forall>hs \<in> set ps. im_ok hs"
  shows "distinct (nearest ps k)"
proof -
  let ?le = "\<lambda>a b. near_le (hit_distance a) (hit_distance b)"
  have "distinct (all_hits ps)"
    using hits_from_distinct [OF assms, of 0] by (simp add: all_hits_from distinct_map)
  then have "distinct (sort_by ?le (all_hits ps))"
    by (simp only: mset_eq_imp_distinct_iff [OF mset_sort_by])
  then show ?thesis by (simp add: nearest_def)
qed

lemma keep_nearest_count:
  assumes ok: "\<forall>hs \<in> set ps. im_ok hs"
  shows "sum_list (map length (keep_nearest ps k)) = min k (sum_list (map length ps))"
proof (cases "k < sum_list (map length ps)")
  case True
  have d: "distinct (all_hits ps)"
    using hits_from_distinct [OF ok, of 0] by (simp add: all_hits_from distinct_map)
  have "sum_list (map length (keep_nearest ps k)) = length (filter (\<lambda>h. h \<in> set (nearest ps k)) (all_hits ps))"
    using keep_nearest_filter [OF ok True] by (metis all_hits_from length_hits_from)
  also have "\<dots> = card (set (all_hits ps) \<inter> set (nearest ps k))"
    using d by (simp flip: distinct_card add: Int_def)
  also have "set (all_hits ps) \<inter> set (nearest ps k) = set (nearest ps k)"
    using sublist_nearest by blast
  also have "card \<dots> = length (nearest ps k)" by (rule distinct_card [OF distinct_nearest [OF ok]])
  finally show ?thesis by (simp add: length_nearest)
qed (simp add: keep_nearest_def)

lemma keep_nearest_length: "length (keep_nearest ps k) = length ps"
  by (simp add: keep_nearest_def)

lemma keep_nearest_subseq: "i < length ps \<Longrightarrow> subseq (keep_nearest ps k ! i) (ps ! i)"
  by (simp add: keep_nearest_def nth_enumerate_eq retain_hits_def subseq_filter_left)

lemma keep_nearest_least:
  assumes ok: "\<forall>hs \<in> set ps. im_ok hs" and num: "\<forall>hs \<in> set ps. \<forall>p \<in> set hs. \<not> f32_is_nan (snd p)"
    and kept: "h \<in> set (all_hits (keep_nearest ps k))"
    and gone: "g \<in> set (all_hits ps)" "g \<notin> set (all_hits (keep_nearest ps k))"
  shows "near_le (hit_distance h) (hit_distance g)"
proof (cases "k < sum_list (map length ps)")
  case True
  let ?le = "\<lambda>a b. near_le (hit_distance a) (hit_distance b)"
  have h: "h \<in> set (nearest ps k)" and g: "g \<notin> set (nearest ps k)"
    using kept gone keep_nearest_filter [OF ok True] by auto
  have "set (all_hits ps) \<subseteq> {x. \<not> f32_is_nan (hit_distance x)}"
    using num hits_from_member [of _ 0 ps] by (fastforce simp: all_hits_from hit_distance_def)
  moreover have "g \<in> set (drop k (sort_by ?le (all_hits ps)))"
  proof -
    have "g \<in> set (take k (sort_by ?le (all_hits ps)) @ drop k (sort_by ?le (all_hits ps)))"
      using gone(1) by (simp only: append_take_drop_id set_sort_by)
    with g show ?thesis unfolding nearest_def set_append by blast
  qed
  ultimately show ?thesis
    using h total_preorder_on.take_sort_least [OF near_on, of "all_hits ps" hit_distance h k g]
    by (simp add: nearest_def)
qed (use gone kept in \<open>simp add: keep_nearest_def\<close>)

section \<open>Reranking across the two processes\<close>

text \<open>
  The endpoint is the reranking worker when every reply is one it gives, on some request stream,
  to this request: the broker between them only carries messages.
\<close>

definition served_by :: "processing_context \<Rightarrow> ('b, 'c) llama \<Rightarrow> ('b, 'c) llama_model \<Rightarrow> nat \<Rightarrow> (f32 list \<Rightarrow> f32 list) \<Rightarrow> bool" where
  "served_by ctx L M n_ctx norm \<longleftrightarrow>
     (\<forall>endpoint req i r. pc_reranking ctx = Some endpoint \<longrightarrow> endpoint req i = Some r \<longrightarrow>
        (\<exists>bc bc' model_id packs. lm_seqs M (fst bc) = [] \<and>
           rerank_message L n_ctx model_id norm packs (Some req) bc = (Some r, bc')))"

definition text_score :: "('b, 'c) llama \<Rightarrow> ('b, 'c) llama_model \<Rightarrow> nat \<Rightarrow> (f32 list \<Rightarrow> f32 list) \<Rightarrow> token list \<Rightarrow> ustring \<Rightarrow> f32 option" where
  "text_score L M n_ctx norm query_tokens text =
     map_option (\<lambda>ts. hd (norm (lm_answer M ts))) (pair_of L n_ctx query_tokens text)"

lemma rerank_message_ranks:
  assumes ok: "llama_ok L M" and empty: "lm_seqs M (fst bc) = []"
    and run: "rerank_message L n_ctx model_id norm packs (Some req) bc = (Some r, bc')" and "rs_error r = None"
  obtains query_tokens where "ll_tokenize L False (rr_query req) = Some query_tokens"
    "rs_ranks r = ranks_of (map (pair_score M norm) (sequence_pairs L n_ctx query_tokens (rr_texts req)))"
proof -
  from run assms(4) obtain ranks t where t: "rank_texts L n_ctx norm req (start_request bc) = (Inr ranks, t)"
    "rs_ranks r = ranks"
    by (auto simp: rerank_message_def Let_def split: sum.splits prod.splits if_splits)
  from rank_texts_done [OF ok _ _ _ t(1)] empty t(2) that show thesis by auto
qed

lemma sequence_pairs_indices: "distinct (map fst (sequence_pairs L n_ctx q texts))"
  "set (map fst (sequence_pairs L n_ctx q texts)) \<subseteq> {0..<length texts}"
proof -
  have f: "map fst (List.map_filter (\<lambda>(i, text). map_option (\<lambda>ts. (i, ts)) (pair_of L n_ctx q text)) ps)
      = map fst (filter (\<lambda>p. pair_of L n_ctx q (snd p) \<noteq> None) ps)" for ps :: "(nat \<times> ustring) list"
    by (induction ps) (auto simp: List.map_filter_simps)
  show "distinct (map fst (sequence_pairs L n_ctx q texts))"
    unfolding sequence_pairs_def f by (rule distinct_map_filter) simp
  show "set (map fst (sequence_pairs L n_ctx q texts)) \<subseteq> {0..<length texts}"
    unfolding sequence_pairs_def f by (auto simp: in_set_enumerate_eq)
qed

lemma mem_map_filter: "y \<in> set (List.map_filter f xs) \<longleftrightarrow> (\<exists>x \<in> set xs. f x = Some y)"
  by (induction xs) (auto simp: List.map_filter_simps split: option.splits)

lemma map_filter_enumerate: "List.map_filter (\<lambda>p. g (snd p)) (enumerate n xs) = List.map_filter g xs"
  by (induction xs arbitrary: n) (auto simp: List.map_filter_simps split: option.splits)

lemma sequence_pairs_member:
  "(i, ts) \<in> set (sequence_pairs L n_ctx q texts) \<longleftrightarrow> i < length texts \<and> pair_of L n_ctx q (texts ! i) = Some ts"
  unfolding sequence_pairs_def mem_map_filter
  by (auto simp: in_set_enumerate_eq intro!: bexI [of _ "(i, texts ! i)"])

text \<open>Collecting ranks by index finds the rank of every text that was scored, and no other.\<close>

lemma rank_lookup:
  assumes small: "length texts < 2 ^ 64" and i: "i < length texts"
    and ranks: "ranks = ranks_of (map (pair_score M norm) (sequence_pairs L n_ctx q texts))"
  shows "map_option rk_score (im_get (im_collect (map (\<lambda>r. (rk_index r, r)) ranks)) (word_of_nat i))
    = map_option Some (text_score L M n_ctx norm q (texts ! i))"
proof -
  let ?sc = "map (pair_score M norm) (sequence_pairs L n_ctx q texts)"
  have inj: "word_of_nat j = (word_of_nat i :: usize) \<longleftrightarrow> j = i" if "j < length texts" for j
    using that i small by (simp add: word_of_nat_eq_iff take_bit_nat_eq_self)
  have mset: "mset (map (\<lambda>r. (rk_index r, rk_score r)) ranks)
      = mset (map (\<lambda>p. (word_of_nat (fst p), Some (snd p))) ?sc)"
    unfolding ranks by (rule ranks_of_mset)
  have idx: "mset (map rk_index ranks) = mset (map (\<lambda>p. word_of_nat (fst p)) ?sc)"
    using arg_cong [OF mset, of "image_mset fst"] by (simp flip: mset_map add: comp_def)
  have dist: "distinct (map (\<lambda>p. word_of_nat (fst p) :: usize) ?sc)"
  proof -
    have "map (\<lambda>p. word_of_nat (fst p) :: usize) ?sc = map word_of_nat (map fst (sequence_pairs L n_ctx q texts))"
      by (simp add: pair_score_def comp_def)
    moreover have "inj_on (word_of_nat :: nat \<Rightarrow> usize) {0..<length texts}"
      using small by (auto simp: inj_on_def word_of_nat_eq_iff take_bit_nat_eq_self)
    ultimately show ?thesis
      using sequence_pairs_indices [of L n_ctx q texts]
      by (simp only: distinct_map [of word_of_nat "map fst (sequence_pairs L n_ctx q texts)"]) (metis inj_on_subset)
  qed
  then have d: "distinct (map rk_index ranks)" using idx by (metis mset_eq_imp_distinct_iff)
  have col: "im_collect (map (\<lambda>r. (rk_index r, r)) ranks) = map (\<lambda>r. (rk_index r, r)) ranks"
    by (rule im_collect_distinct) (use d in \<open>simp add: comp_def\<close>)
  have pairs: "set (map (\<lambda>r. (rk_index r, rk_score r)) ranks) = (\<lambda>p. (word_of_nat (fst p), Some (snd p))) ` set ?sc"
    using arg_cong [OF mset, of set_mset] by (simp add: image_image)
  show ?thesis
  proof (cases "pair_of L n_ctx q (texts ! i)")
    case None
    have "word_of_nat i \<notin> fst ` set (map (\<lambda>r. (rk_index r, r)) ranks)"
    proof
      assume "word_of_nat i \<in> fst ` set (map (\<lambda>r. (rk_index r, r)) ranks)"
      then have "word_of_nat i \<in> fst ` set (map (\<lambda>r. (rk_index r, rk_score r)) ranks)" by (auto simp: image_image)
      then obtain j ts where "(j, ts) \<in> set (sequence_pairs L n_ctx q texts)" "word_of_nat j = (word_of_nat i :: usize)"
        unfolding pairs by (auto simp: pair_score_def)
      with inj None show False by (auto simp: sequence_pairs_member)
    qed
    then have "im_get (map (\<lambda>r. (rk_index r, r)) ranks) (word_of_nat i) = None"
      by (simp add: im_get_def map_of_eq_None_iff)
    with None show ?thesis by (simp add: col text_score_def)
  next
    case (Some ts)
    with i have "(i, ts) \<in> set (sequence_pairs L n_ctx q texts)" by (simp add: sequence_pairs_member)
    then have "(word_of_nat i, Some (hd (norm (lm_answer M ts)))) \<in> set (map (\<lambda>r. (rk_index r, rk_score r)) ranks)"
      unfolding pairs by (force simp: pair_score_def)
    then obtain r where r: "r \<in> set ranks" "rk_index r = word_of_nat i" "rk_score r = Some (hd (norm (lm_answer M ts)))"
      by auto
    then have "im_get (map (\<lambda>r. (rk_index r, r)) ranks) (word_of_nat i) = Some r"
      unfolding im_get_def by (intro map_of_is_SomeI) (use d in \<open>force simp: comp_def\<close>)+
    with r Some show ?thesis by (simp add: col text_score_def)
  qed
qed

text \<open>The server's reranking over the worker's answer.\<close>

lemma rerank_summaries_scores:
  assumes ok: "llama_ok L M" and served: "served_by ctx L M n_ctx norm"
    and run: "rerank_summaries ctx uid query us = Inr vs" and small: "length us < 2 ^ 64"
  obtains q where "ll_tokenize L False query = Some q"
    "map (\<lambda>v. (v\<lparr>ud_rank := None\<rparr>, Option.bind (ud_rank v) rk_score)) vs
       = List.map_filter (\<lambda>u. map_option (\<lambda>d. (u\<lparr>ud_rank := None\<rparr>, Some d)) (text_score L M n_ctx norm q (ud_text_content u))) us"
proof -
  let ?texts = "map ud_text_content us"
  from run obtain ranks where g: "get_rerankings ctx query ?texts (pc_hasher ctx uid) = Inr ranks"
    by (auto simp: rerank_summaries_def bindR_Inr)
  then obtain endpoint r where e: "pc_reranking ctx = Some endpoint"
    "endpoint \<lparr> rr_query = query, rr_texts = ?texts, rr_return_text = False \<rparr> (pc_hasher ctx uid) = Some r"
    "rs_error r = None" "rs_ranks r = ranks"
    by (auto simp: get_rerankings_def split: option.splits)
  with served obtain bc bc' model_id packs where m: "lm_seqs M (fst bc) = []"
    "rerank_message L n_ctx model_id norm packs (Some \<lparr> rr_query = query, rr_texts = ?texts, rr_return_text = False \<rparr>) bc = (Some r, bc')"
    unfolding served_by_def by blast
  from rerank_message_ranks [OF ok m e(3)] e(4) obtain q where q: "ll_tokenize L False query = Some q"
    "ranks = ranks_of (map (pair_score M norm) (sequence_pairs L n_ctx q ?texts))" by auto
  let ?map = "im_collect (map (\<lambda>r. (rk_index r, r)) ranks)"
  let ?F = "\<lambda>(idx, u). map_option (\<lambda>r. u\<lparr>ud_rank := Some r\<rparr>) (im_get ?map (word_of_nat idx))"
  let ?G = "\<lambda>u. map_option (\<lambda>d. (u\<lparr>ud_rank := None\<rparr>, Some d)) (text_score L M n_ctx norm q (ud_text_content u))"
  let ?h = "\<lambda>v. (v\<lparr>ud_rank := None\<rparr>, Option.bind (ud_rank v) rk_score)"
  have vs: "vs = List.map_filter ?F (enumerate 0 us)"
    using run g by (simp add: rerank_summaries_def Let_def)
  have at: "map_option ?h (?F (i, u)) = ?G u" if "i < length us" "u = us ! i" for i u
    using rank_lookup [OF _ _ q(2), of i] small that
    by (cases "im_get ?map (word_of_nat i)"; cases "text_score L M n_ctx norm q (ud_text_content u)") auto
  have "map ?h (List.map_filter ?F ps) = List.map_filter (\<lambda>p. ?G (snd p)) ps"
    if "\<forall>p \<in> set ps. map_option ?h (?F p) = ?G (snd p)" for ps
    using that
  proof (induction ps)
    case (Cons p ps)
    then have "map_option ?h (?F p) = ?G (snd p)" "map ?h (List.map_filter ?F ps) = List.map_filter (\<lambda>p. ?G (snd p)) ps"
      by simp_all
    then show ?case
      by (cases "?F p"; cases "?G (snd p)") (simp_all add: List.map_filter_simps del: map_option_eq_Some)
  qed (simp add: List.map_filter_simps)
  moreover have "\<forall>p \<in> set (enumerate 0 us). map_option ?h (?F p) = ?G (snd p)"
  proof
    fix p assume "p \<in> set (enumerate 0 us)"
    then have "fst p < length us" "snd p = us ! fst p" by (simp_all add: in_set_enumerate_eq)
    from at [OF this] show "map_option ?h (?F p) = ?G (snd p)" by simp
  qed
  ultimately have "map ?h vs = List.map_filter (\<lambda>p. ?G (snd p)) (enumerate 0 us)"
    unfolding vs by blast
  also have "\<dots> = List.map_filter ?G us" by (rule map_filter_enumerate)
  finally show thesis using that q(1) by blast
qed

end
