(* ===== verification/Model_Properties.thy ===== *)
theory Model_Properties
  imports Query_Facts Processing_Facts Store_Replay
begin

text \<open>
  The properties of what stands between a request and the shards: the workers' answers do not
  depend on how texts are batched, processed documents meet the store's contract, the cut over
  all shards keeps the nearest hits, and a reranked summary carries the score of its own text.
\<close>

section \<open>A sample model\<close>

text \<open>
  A byte is a token, a batch is its sequences, and a context is the sequences in its cache with its
  last answers. A sequence is answered with its length and that of all that was in the cache, so
  only a decoding with a cleared cache gives the model's answer.
\<close>

definition sample_llama :: "(token list list, token list list \<times> f32 list list) llama" where
  "sample_llama = \<lparr> ll_tokenize = (\<lambda>_ text. Some (map ucast text)), ll_bos = 1, ll_eos = 2, ll_sep = 3,
     ll_n_tokens = tokens_in, ll_add = (\<lambda>ts _ b. (True, b @ [ts])), ll_clear = (\<lambda>_. []),
     ll_clear_kv = (\<lambda>(cache, answers). ([], answers)),
     ll_decode = (\<lambda>b (cache, answers). (True, cache @ b, map (\<lambda>ts. [word_of_nat (tokens_in cache + length ts)]) b)),
     ll_seq = (\<lambda>(cache, answers) i. if i < length answers then Some (answers ! i) else None) \<rparr>"

definition sample_model :: "(token list list, token list list \<times> f32 list list) llama_model" where
  "sample_model = \<lparr> lm_seqs = (\<lambda>b. b), lm_fresh = (\<lambda>(cache, _). cache = []), lm_answer = (\<lambda>ts. [word_of_nat (length ts)]) \<rparr>"

text \<open>A decoding in a context that was used before does not give the model's answer.\<close>

lemma stale_cache_shows:
  "ll_seq sample_llama (snd (ll_decode sample_llama [[97]] ([[98, 99]], []))) 0 \<noteq> Some (lm_answer sample_model [97])"
  by (simp add: sample_llama_def sample_model_def tokens_in_def)

lemma sample_llama_ok: "llama_ok sample_llama sample_model"
  by (auto simp: llama_ok_def sample_llama_def sample_model_def tokens_in_def)

lemma sample_llama_live: "llama_live sample_llama sample_model n_ctx"
  by (auto simp: llama_live_def sample_llama_def sample_model_def)

lemma sample_tokens: "tokens_of sample_llama 3 [97] = Some [97]" "tokens_of sample_llama 3 [98, 99] = Some [98, 99]"
  "tokens_of sample_llama 3 [] = None"
  by (simp_all add: tokens_of_def sample_llama_def)

section \<open>Embedding\<close>

text \<open>
  C23: Batching is invisible: when the worker starts with an empty batch, in a context in any state,
  it answers each request, whatever the requests, their order, the batches they were packed into
  and the failures in between, with the model's own normalised vector of every text that has
  tokens, in order, or with an error and no vector. All that is relied on of the library is
  llama_ok: a batch holds the sequences added to it and none after a clear, and a decoding
  gives the model's answers only in a context whose key-value cache was just cleared.
\<close>

theorem batching_is_invisible:
  assumes "llama_ok L M" "lm_seqs M (fst bc) = []"
  shows "list_all2 (embedding_answer L M n_ctx) ms (embedding_worker L n_ctx model_id packs ms bc)"
  by (rule embedding_worker_answer [OF assms])

lemma batching_is_invisible_witness:
  "er_embeddings (embedding_worker sample_llama 3 7 (\<lambda>_. True) [None, Some [[97], [], [98, 99]]] ([], [[9]], [[9]]) ! 1)
     = [normalize [1], normalize [2]]"
proof -
  let ?ms = "[None, Some [[97], [], [98, 99]]]" let ?rs = "embedding_worker sample_llama 3 7 (\<lambda>_. True) ?ms ([], [[9]], [[9]])"
  have "lm_seqs sample_model (fst ([], [[9]], [[9]])) = []" by (simp add: sample_model_def)
  from batching_is_invisible [OF sample_llama_ok this, of 3 ?ms 7 "\<lambda>_. True"]
  have a: "embedding_answer sample_llama sample_model 3 (?ms ! 1) (?rs ! 1)" by (auto dest: list_all2_nthD)
  have "er_error (fst (embedding_message sample_llama 3 7 (\<lambda>_. True) (Some [[97], [], [98, 99]]) ([], [[9]], [[9]]))) = None"
    by (rule embedding_message_live [OF sample_llama_ok sample_llama_live])
      (simp_all add: sample_model_def List.map_filter_simps sample_tokens)
  then have "er_error (?rs ! 1) = None" by (auto simp: embedding_message_def [of _ _ _ _ None] split: prod.split)
  with a show ?thesis
    by (simp add: embedding_answer_def List.map_filter_simps sample_tokens sample_model_def)
qed

section \<open>Processing\<close>

text \<open>
  C24: A processed document carries what the embedding service answered: every part names the
  document and its split, a split has the first vector of the answer for its text and its sentences,
  and a summary is one of the sentences with the slice of the other vectors, laid end to end, at
  that sentence's place. Processing checks no dimension, so a store with the configured model and
  dimension accepts the document exactly when every split's vector has that dimension; a summary's
  always has.
\<close>

theorem processed_documents_fit:
  assumes "process_document ctx url text = Inr doc"
    and "unat (so_n_embd opts) = pc_n_embd ctx" "so_model_id opts = pc_model_id ctx"
  shows "doc_consistent doc \<and> (\<forall>s \<in> set (dd_splits doc). split_fits ctx (pc_hasher ctx url) s)
    \<and> ((\<exists>us. validate opts doc = Inr us) \<longleftrightarrow> splits_in_dim ctx doc)"
  using process_document_consistent [OF assms(1)] process_document_fits [OF assms(1)]
    process_document_splits(1) [OF assms(1)] process_document_good [OF assms] by (auto simp: validate_Inr)

definition sample_processing :: processing_context where
  "sample_processing = \<lparr> pc_embedding = (\<lambda>texts _. Some \<lparr> er_model_id = 7,
       er_embeddings = map (\<lambda>t. [word_of_nat (length t)]) texts, er_error = None \<rparr>),
     pc_reranking = Some (\<lambda>req _. fst (rerank_message sample_llama 100 7 (\<lambda>v. v) (\<lambda>_. True) (Some req) ([], [], []))),
     pc_splitter = (\<lambda>text. [\<lparr> sr_split_string = text, sr_tokens = [1, 2] \<rparr>]), pc_sentence_splitter = (\<lambda>_. []),
     pc_hasher = (\<lambda>s. word_of_nat (length s)), pc_lexrank = (\<lambda>_ _ _. None), pc_n_embd = 1, pc_model_id = 7 \<rparr>"

text \<open>One with a sentence in every split, and a service that answers every text with its length.\<close>

definition sample_summarizing :: processing_context where
  "sample_summarizing = sample_processing\<lparr>pc_sentence_splitter := (\<lambda>text. [\<lparr> sr_split_string = 32 # text, sr_tokens = [1, 2, 3, 4] \<rparr>]),
     pc_lexrank := (\<lambda>_ _ _. Some [(0, 5)])\<rparr>"

lemma sample_summarized:
  "\<exists>doc s u. process_document sample_summarizing [104] [97, 98] = Inr doc \<and> dd_splits doc = [s] \<and> sd_summaries s = [u]
     \<and> sd_embedding s = Some \<lparr> eb_embedding_id = sd_split_id s, eb_embedding = [2], eb_model_id = 7 \<rparr>
     \<and> sd_text_content s = [97, 98]"
  by (simp add: process_document_def process_split_def get_sentences_def get_embeddings_def process_summaries_def summary_of_def
      sample_summarizing_def sample_processing_def Let_def filter_splits_def)

lemma processed_documents_fit_witness:
  "\<exists>doc s u us. process_document sample_summarizing [104] [97, 98] = Inr doc \<and> dd_splits doc = [s] \<and> sd_summaries s = [u]
     \<and> validate \<lparr> so_model_id = 7, so_n_embd = 1, so_dtype = F32, so_segment_max_bytes = 9 \<rparr> doc = Inr us
     \<and> ud_document_id u = 1 \<and> ud_text_content u = [32, 97, 98] \<and> map_option eb_embedding (ud_embedding u) = Some [3]"
proof -
  let ?ctx = sample_summarizing and ?opts = "\<lparr> so_model_id = 7, so_n_embd = 1, so_dtype = F32, so_segment_max_bytes = 9 \<rparr>"
  from sample_summarized obtain doc s u where d: "process_document ?ctx [104] [97, 98] = Inr doc" "dd_splits doc = [s]"
    "sd_summaries s = [u]" "sd_embedding s = Some \<lparr> eb_embedding_id = sd_split_id s, eb_embedding = [2], eb_model_id = 7 \<rparr>"
    "sd_text_content s = [97, 98]" by blast
  have c: "pc_n_embd ?ctx = 1" "pc_model_id ?ctx = 7" "pc_hasher ?ctx [104] = 1"
    by (simp_all add: sample_summarizing_def sample_processing_def)
  then have o: "unat (so_n_embd ?opts) = pc_n_embd ?ctx" "so_model_id ?opts = pc_model_id ?ctx" by simp_all
  note P = processed_documents_fit [OF d(1) o]
  moreover have "splits_in_dim ?ctx doc" by (simp add: splits_in_dim_def d(2,4) c(1))
  moreover from P have "split_fits ?ctx 1 s" by (simp add: d(2) c(3))
  then have "ud_document_id u = 1 \<and> ud_text_content u = [32, 97, 98] \<and> map_option eb_embedding (ud_embedding u) = Some [3]"
    by (auto simp: split_fits_def summary_fits_def d(3,5) c get_sentences_def get_embeddings_def filter_splits_def
        sample_summarizing_def sample_processing_def)
  ultimately show ?thesis using d by blast
qed

text \<open>
  C25: Two sentences of one split get the same summary id although they differ: the hashed name
  joins the position and the number of tokens without a separator, so sentence 1 with 24 tokens
  and sentence 12 with 4 have one name.
\<close>

theorem two_summaries_share_an_id:
  assumes "summary_of ctx sentences no_tokens es doc_id split_id (1, x) = Inr u" "no_tokens ! 1 = 24"
    and "summary_of ctx sentences no_tokens es doc_id split_id (12, y) = Inr v" "no_tokens ! 12 = 4"
  shows "ud_summary_id u = ud_summary_id v \<and> ud_text_content u = sentences ! 1 \<and> ud_text_content v = sentences ! 12"
  using assms summary_names_collide [of split_id] by (auto simp: summary_of_def Let_def split: if_splits)

definition many_sentences :: "ustring list" where
  "many_sentences = map (\<lambda>i. [word_of_nat i]) [0..<13]"

lemma two_summaries_share_an_id_witness:
  "\<exists>u v. summary_of sample_processing many_sentences ([5, 24] @ replicate 11 4) (replicate 13 0) 10 20 (1, 0) = Inr u
     \<and> summary_of sample_processing many_sentences ([5, 24] @ replicate 11 4) (replicate 13 0) 10 20 (12, 0) = Inr v
     \<and> ud_summary_id u = ud_summary_id v \<and> ud_text_content u = [1] \<and> ud_text_content v = [12]"
proof -
  let ?s = "\<lambda>i. summary_of sample_processing many_sentences ([5, 24] @ replicate 11 4) (replicate 13 0) 10 20 (i, 0)"
  have "\<exists>u. ?s 1 = Inr u" "\<exists>v. ?s 12 = Inr v"
    by (simp_all add: summary_of_def many_sentences_def sample_processing_def Let_def)
  then obtain u v where uv: "?s 1 = Inr u" "?s 12 = Inr v" by blast
  have "many_sentences ! 1 = [1]" "many_sentences ! 12 = [12]" by (simp_all add: many_sentences_def)
  with two_summaries_share_an_id [OF uv(1) _ uv(2)] uv show ?thesis by auto
qed

section \<open>Queries\<close>

text \<open>
  The cut over all shards keeps, of the hits of every shard in their own order, as many as were
  asked for or all there are, and none that is kept is farther than one that is dropped.
\<close>

theorem cut_keeps_nearest:
  assumes "\<forall>hs \<in> set ps. im_ok hs" "\<forall>hs \<in> set ps. \<forall>p \<in> set hs. \<not> f32_is_nan (snd p)"
  shows "length (keep_nearest ps k) = length ps \<and> (\<forall>i < length ps. subseq (keep_nearest ps k ! i) (ps ! i))
    \<and> sum_list (map length (keep_nearest ps k)) = min k (sum_list (map length ps))
    \<and> (\<forall>h \<in> set (all_hits (keep_nearest ps k)). \<forall>g \<in> set (all_hits ps) - set (all_hits (keep_nearest ps k)).
          near_le (hit_distance h) (hit_distance g))"
  using keep_nearest_length keep_nearest_subseq keep_nearest_count [OF assms(1)] keep_nearest_least [OF assms] by blast

lemma cut_keeps_nearest_witness:
  "sum_list (map length (keep_nearest [[(1, 0x3F800000)], [(2, 0)]] 1)) = 1
     \<and> (1, 2, 0) \<in> set (all_hits (keep_nearest [[(1, 0x3F800000)], [(2, 0)]] 1))"
proof -
  let ?ps = "[[(1, 0x3F800000)], [(2, 0)]] :: hits list"
  have nan: "\<not> f32_is_nan 0x3F800000" "\<not> f32_is_nan 0"
    by (simp_all add: f32_is_nan_def fdecode_def F32_format_def sign_weight_def hidden_bit_def inf_bits_def Let_def)
  have far: "\<not> near_le 0x3F800000 0"
    using near_le_num [OF nan] by (simp add: f32_num_def fnum_def fmag_def F32_format_def hidden_bit_def sign_weight_def signed_def Let_def)
  have ok: "\<forall>hs \<in> set ?ps. im_ok hs" and num: "\<forall>hs \<in> set ?ps. \<forall>p \<in> set hs. \<not> f32_is_nan (snd p)"
    using nan by (auto simp: im_ok_def)
  note C = cut_keeps_nearest [OF ok num, of 1]
  have count: "sum_list (map length (keep_nearest ?ps 1)) = 1" using C by simp
  have a: "all_hits ?ps = [(0, 1, 0x3F800000), (1, 2, 0)]" by (simp add: all_hits_def)
  have "(1, 2, 0) \<in> set (all_hits (keep_nearest ?ps 1))"
  proof (rule ccontr)
    assume n: "(1, 2, 0) \<notin> set (all_hits (keep_nearest ?ps 1))"
    have "(0, 1, 0x3F800000) \<notin> set (all_hits (keep_nearest ?ps 1))"
    proof
      assume "(0, 1, 0x3F800000) \<in> set (all_hits (keep_nearest ?ps 1))"
      with C n a have "near_le (hit_distance (0, 1, 0x3F800000)) (hit_distance (1, 2, 0))" by (metis DiffI list.set_intros)
      with far show False by (simp add: hit_distance_def)
    qed
    moreover have "set (all_hits (keep_nearest ?ps 1)) \<subseteq> set (all_hits ?ps)"
      using keep_nearest_filter [of ?ps 1] ok by auto
    moreover have "S \<subseteq> {x, y} \<Longrightarrow> x \<notin> S \<Longrightarrow> y \<notin> S \<Longrightarrow> S = {}" for x y and S :: "(nat \<times> u64 \<times> f32) set" by blast
    ultimately have "set (all_hits (keep_nearest ?ps 1)) = {}" using n unfolding a list.set by metis
    then have "all_hits (keep_nearest ?ps 1) = []" by simp
    then have "sum_list (map length (keep_nearest ?ps 1)) = 0"
      using length_hits_from [of 0 "keep_nearest ?ps 1"] by (simp add: all_hits_from)
    with count show False by simp
  qed
  with count show ?thesis by simp
qed


text \<open>
  A reranked summary carries the score of its own text: what the endpoint of the reranking
  worker returns, matched by position, gives every summary whose pair with the query fits the
  context window the model's score of that pair, and drops exactly the others.
\<close>

theorem reranked_summaries_keep_their_scores:
  assumes "llama_ok L M" "served_by ctx L M n_ctx norm" "rerank_summaries ctx uuid query us = Inr vs" "length us < 2 ^ 64"
  shows "\<exists>q. ll_tokenize L False query = Some q
    \<and> map (\<lambda>v. (v\<lparr>ud_rank := None\<rparr>, Option.bind (ud_rank v) rk_score)) vs
       = List.map_filter (\<lambda>u. map_option (\<lambda>d. (u\<lparr>ud_rank := None\<rparr>, Some d)) (text_score L M n_ctx norm q (ud_text_content u))) us"
  by (rule rerank_summaries_scores [OF assms]) blast

definition two_summaries :: "summary_dto list" where
  "two_summaries = map (\<lambda>t. \<lparr> ud_summary_id = 30, ud_document_id = 10, ud_split_id = 20, ud_split_sequence_id = 0,
     ud_text_content = t, ud_token_len = 1, ud_centrality = 0, ud_embedding = None, ud_query_distance = None,
     ud_rank = None \<rparr>) [[97], [98, 99]]"

lemma reranked_summaries_keep_their_scores_witness:
  "\<exists>vs. rerank_summaries sample_processing [] [104] two_summaries = Inr vs
     \<and> map (\<lambda>v. Option.bind (ud_rank v) rk_score) vs = [Some 6, Some 7]"
proof -
  have served: "served_by sample_processing sample_llama sample_model 100 (\<lambda>v. v)"
    unfolding served_by_def
  proof (intro allI impI)
    fix endpoint req i r
    assume e: "pc_reranking sample_processing = Some endpoint" "endpoint req i = Some r"
    then have "fst (rerank_message sample_llama 100 7 (\<lambda>v. v) (\<lambda>_. True) (Some req) ([], [], [])) = Some r"
      by (auto simp: sample_processing_def)
    then obtain bc' where "rerank_message sample_llama 100 7 (\<lambda>v. v) (\<lambda>_. True) (Some req) ([], [], []) = (Some r, bc')"
      by (metis prod.collapse)
    then show "\<exists>bc bc' model_id packs. lm_seqs sample_model (fst bc) = []
        \<and> rerank_message sample_llama 100 model_id (\<lambda>v. v) packs (Some req) bc = (Some r, bc')"
      by (intro exI [of _ "([], [], [])"] exI [of _ bc'] exI) (auto simp: sample_model_def)
  qed
  have "\<exists>ranks. fst (rank_texts sample_llama 100 (\<lambda>v. v) req (start_request ([], [], []))) = Inr ranks"
    if "req = \<lparr> rr_query = [104], rr_texts = [[97], [98, 99]], rr_return_text = False \<rparr>" for req
    using that by (simp add: rank_texts_def sample_llama_def rank_pairs_def sequence_pairs_def List.map_filter_simps pair_of_def
        add_all_def add_tokens_def add_sequence_def flush_ranks_def batch_decode_def decode_batch_def push_embedding_def
        attempt_def seqM_def bindM_def getM_def ret_def liftM_def clear_batch_def modM_def start_request_def scores_of_def
        tokens_in_def)
  then obtain ranks s where "rank_texts sample_llama 100 (\<lambda>v. v)
      \<lparr> rr_query = [104], rr_texts = [[97], [98, 99]], rr_return_text = False \<rparr> (start_request ([], [], [])) = (Inr ranks, s)"
    by (metis prod.collapse)
  then have "get_rerankings sample_processing [104] (map ud_text_content two_summaries) i = Inr ranks" for i
    by (simp add: get_rerankings_def sample_processing_def rerank_message_def two_summaries_def Let_def)
  then obtain vs where v: "rerank_summaries sample_processing [] [104] two_summaries = Inr vs"
    by (simp add: rerank_summaries_def Let_def)
  have "length two_summaries < 2 ^ 64" by (simp add: two_summaries_def)
  from reranked_summaries_keep_their_scores [OF sample_llama_ok served v this] have
    r: "map (\<lambda>v. (v\<lparr>ud_rank := None\<rparr>, Option.bind (ud_rank v) rk_score)) vs
       = List.map_filter (\<lambda>u. map_option (\<lambda>d. (u\<lparr>ud_rank := None\<rparr>, Some d))
           (text_score sample_llama sample_model 100 (\<lambda>v. v) [104] (ud_text_content u))) two_summaries"
    by (auto simp: sample_llama_def)
  then have "map (\<lambda>v. Option.bind (ud_rank v) rk_score) vs = map snd
      (List.map_filter (\<lambda>u. map_option (\<lambda>d. (u\<lparr>ud_rank := None\<rparr>, Some d))
           (text_score sample_llama sample_model 100 (\<lambda>v. v) [104] (ud_text_content u))) two_summaries)"
    by (simp only: list.map_comp comp_def snd_conv flip: r)
  also have "\<dots> = [Some 6, Some 7]"
  proof -
    have "text_score sample_llama sample_model 100 (\<lambda>v. v) [104] [97] = Some 6"
      "text_score sample_llama sample_model 100 (\<lambda>v. v) [104] [98, 99] = Some 7"
      by (simp_all add: text_score_def pair_of_def sample_llama_def sample_model_def)
    then show ?thesis by (simp add: two_summaries_def List.map_filter_simps)
  qed
  finally have "map (\<lambda>v. Option.bind (ud_rank v) rk_score) vs = [Some 6, Some 7]" .
  then show ?thesis by (intro exI [of _ vs] conjI v)
qed

end
