(* ===== verification/Server_Properties.thy ===== *)
theory Server_Properties
  imports Service_Samples
begin

text \<open>
  The properties of the running service: what an acknowledged request means for the log, for the
  answers and for the pool, and that its loops end.
\<close>

section \<open>Concrete requests\<close>

definition sample_insertion :: insertion_request where
  "sample_insertion = \<lparr> ir_input = [104, 105], ir_model = [109], ir_workspace_id = 5, ir_doc_url = [104], ir_verbose = None \<rparr>"

definition sample_retrieval :: retrieval_request where
  "sample_retrieval = \<lparr> rq_document_id = None, rq_document_url = Some [104], rq_user = Some 5, rq_verbose = Some True \<rparr>"

definition header_of_type :: "message_type \<Rightarrow> message_header" where
  "header_of_type t = header_new 1 2 t"

definition sample_server :: server_env where
  "sample_server = \<lparr> sv_header = (\<lambda>_. Some (header_of_type DocumentRetrieval)), sv_insertion = (\<lambda>_. Some sample_insertion),
     sv_query = (\<lambda>_. None), sv_retrieval = (\<lambda>_. Some sample_retrieval), sv_deletion = (\<lambda>_. None), sv_rerank = (\<lambda>_. None),
     sv_packs = (\<lambda>_ _. True), sv_now = 3, sv_fresh = 4, sv_req_uuid = (\<lambda>_. []), sv_host = [], sv_frontend_port = 1,
     sv_num_workers = 1 \<rparr>"

lemma sample_us: "usearch_ok (se_us (pe_shard sample_penv)) sample_us_model" "se_env (pe_shard sample_penv) = sample_env"
  by (simp_all add: sample_penv_def sample_senv_def sample_usearch_ok)

lemma sample_can_take:
  assumes "first_state x" "pool_get sample_penv 5 (sample_pool x) = (Inr a, u)"
  shows "can_take sample_us_model sample_penv opts1 doc0 u a"
proof -
  from sample_get [of x] assms(2) have s: "shard_state sample_penv u a = Some (sh_inner (sample_shard x), snd x)" by auto
  have b: "files_back (se_us (pe_shard sample_penv)) sample_us_model (sh_inner (sample_shard x)) (snd x)"
    by (auto simp: files_back_def sample_shard_def empty_index_def index_of_def split: entity_kind.splits)
  have "in_store (sh_inner (sample_shard x)) = fst x" by (simp add: sample_shard_def)
  with s b first_room0 [OF assms(1)] assms(1) show ?thesis
    unfolding can_take_def first_state_def sample_us(2) by (metis prod.collapse)
qed

lemma on_shard_run:
  assumes "shard_state P p a = Some x" "m x = (r, y)"
  shows "\<exists>q. on_shard P a m p = (r, q) \<and> shard_state P q a = Some y"
proof -
  obtain r' q where q: "on_shard P a m p = (r', q)" by fastforce
  from on_shard_state [OF q assms(1)] assms(2) q show ?thesis by auto
qed

lemma fsync_file:
  assumes "store_inv E sl al x" "store_fsync x = (Inr u, z)"
  shows "fmlookup (synced (snd z)) (SegFile (active_id z)) = Some (file_of (snd z) (SegFile (active_id z)))"
proof -
  note F = fsync_inv [OF assms]
  note Z = store_invD [OF F(1)]
  have "seg_content (seg_of z) = log_bytes E al" using Z(1) by (simp add: represents_def active_ok_def)
  then have "file_of (snd z) (SegFile (active_id z)) = log_bytes E al"
    using Z(3) file_of_content [of "seg_of z"] by (simp add: flushed_def seg_of_def)
  then show ?thesis using F(4,6) by simp
qed

lemma sample_inserted:
  assumes x: "first_state x"
  shows "\<exists>h q n w. document_insertion sample_server sample_penv sample_ctx sync (header_of_type DocumentInsertion) [] (sample_pool x)
      = (Sent h (Some (insertion_response_of sample_insertion doc0)), q)
    \<and> maps_to 5 0 q \<and> shard_state sample_penv q 0 = Some (n, w)
    \<and> (\<exists>sl al. store_inv sample_env sl al (in_store n, w)) \<and> st_opts (in_store n) = opts1 \<and> next_seq_of (in_store n, w) < - 1
    \<and> (sync \<longrightarrow> fmlookup (synced w) (SegFile (active_id (in_store n, w))) = Some (file_of w (SegFile (active_id (in_store n, w)))))"
proof -
  have e: "pe_shard sample_penv = sample_senv" by (simp add: sample_penv_def)
  from sample_get [of x] obtain u where u: "pool_get sample_penv 5 (sample_pool x) = (Inr 0, u)"
    "shard_state sample_penv u 0 = Some (sh_inner (sample_shard x), snd x)" by blast
  have inv: "store_inv sample_env [] [] x" "st_opts (fst x) = opts1" using x by (simp_all add: first_state_def)
  have v: "mf_version (st_manifest (fst x)) = MANIFEST_VERSION" using inv(1) by (simp add: store_inv_def durable_def)
  have g: "good_document (st_opts (fst x)) doc0" using doc0_facts(1) inv(2) by simp
  from insert_succeeds_calmly [OF g first_fine [OF x] sample_env_ok v] obtain rp z where
    z: "store_insert sample_env doc0 x = (Inr rp, z)" "faults (snd z) = []" by blast
  have "store_insert sample_env doc0 (in_store (sh_inner (sample_shard x)), snd x) = (Inr rp, z)"
    using z(1) by (simp add: sample_shard_def)
  moreover have "\<not> vi_viewed (index_of k (sh_inner (sample_shard x)))" for k
    by (cases k) (simp_all add: sample_shard_def index_of_def empty_index_def)
  ultimately obtain m where m: "shard_insert sample_senv doc0 (sh_inner (sample_shard x), snd x) = (Inr rp, (m, snd z))"
    "in_store m = fst z" using shard_insert0 by blast
  then obtain q where q: "on_shard sample_penv 0 (shard_insert sample_senv doc0) u = (Inr rp, q)"
    "shard_state sample_penv q 0 = Some (m, snd z)" using on_shard_run [OF u(2)] by blast
  from insert_inv [OF inv(1) sample_env_ok doc0_facts(2) first_room0 [OF x] z(1)] inv(2) obtain sl al where
    i: "store_inv sample_env sl al z" "st_opts (fst z) = opts1" by auto
  then have "fine z" using z(2)
    by (simp add: store_inv_def represents_def active_ok_def seg_ok_def fine_def seg_fine_def seg_of_def)
  from runsD [OF runs_on_active [OF runs_seg_sync] this] obtain y where f: "store_fsync z = (Inr (), y)"
    unfolding store_fsync_def by auto
  then have "shard_fsync (m, snd z) = (Inr (), (m\<lparr>in_store := fst y\<rparr>, snd y))"
    using m(2) by (simp add: shard_fsync_def in_log_def zoom_def split: prod.split)
  then obtain t where t: "on_shard sample_penv 0 shard_fsync q = (Inr (), t)"
    "shard_state sample_penv t 0 = Some (m\<lparr>in_store := fst y\<rparr>, snd y)" using on_shard_run [OF q(2)] by blast
  have room: "room_for [] (records_of sample_env x doc0) x"
    using has_room [OF store_invD(1) [OF inv(1)]] first_room0 [OF x] by simp
  from insert_represents(1) [OF z(1) store_invD(1) [OF inv(1)] sample_env_ok store_invD(2) [OF inv(1)] doc0_facts(2) _ room]
  have "next_seq_of z = next_seq_of x + word_of_nat (length (records_of sample_env x doc0))"
    by (auto simp: no_pending_def)
  then have n: "next_seq_of z = 2" using x by (simp add: first_records0 [OF x] first_state_def)
  note F = fsync_inv [OF i(1) f]
  have mu: "maps_to 5 0 u" "pool_ok u"
    using get_with_maps get_with_ok u(1) sample_pool_ok unfolding pool_get_def by blast+
  have small: "(2 :: u64) < - 1" by (simp add: word_less_nat_alt unsigned_minus_1_eq_mask mask_eq_exp_minus_1)
  define d where "d = (if sync then t else q)"
  define v where "v = (if sync then y else z)"
  have s: "save_document sample_penv sync 0 doc0 u = (Inr (), d)"
    using q(1) t(1) by (simp add: save_document_def e d_def)
  have "keeps same_shards (save_document sample_penv sync 0 doc0)"
    unfolding save_document_def
    by (rule keepsI) (auto split: prod.splits sum.splits if_splits dest!: keepsD [OF same_on_shard] intro: same_shards_trans)
  from keepsD [OF this s] have md: "maps_to 5 0 d" "pool_ok d"
    using mu maps_to_same same_shards_ok by blast+
  have ds: "\<exists>k. shard_state sample_penv d 0 = Some (k, snd v) \<and> in_store k = fst v"
    using q(2) t(2) m(2) by (auto simp: d_def v_def)
  then obtain k where k: "shard_state sample_penv d 0 = Some (k, snd v)" "in_store k = fst v" by blast
  have "sync \<longrightarrow> fmlookup (synced (snd v)) (SegFile (active_id (in_store k, snd v))) = Some (file_of (snd v) (SegFile (active_id (in_store k, snd v))))"
    using fsync_file [OF i(1) f] k(2) by (simp add: v_def)
  moreover have vi: "store_inv sample_env sl al v" "st_opts (fst v) = opts1" "next_seq_of v < - 1"
    using i F n small by (simp_all add: v_def)
  note D = drop_arc_state [OF md]
  moreover have "document_insertion sample_server sample_penv sample_ctx sync (header_of_type DocumentInsertion) [] (sample_pool x)
      = (send_success sample_server (insertion_response_of sample_insertion doc0) (header_of_type DocumentInsertion), drop_arc 0 d)"
    using u(1) s sample_process [of "[104, 105]"]
    by (simp add: document_insertion_def sample_server_def sample_insertion_def)
  moreover have "\<exists>h. send_success sample_server (insertion_response_of sample_insertion doc0) (header_of_type DocumentInsertion)
      = Sent h (Some (insertion_response_of sample_insertion doc0))"
    by (simp add: send_success_def sample_server_def Let_def)
  moreover have "shard_state sample_penv (drop_arc 0 d) 0 = Some (k, snd v)" using D(1) k(1) by simp
  moreover have "store_inv sample_env sl al (in_store k, snd v)" "st_opts (in_store k) = opts1" "next_seq_of (in_store k, snd v) < - 1"
    using vi k(2) by simp_all
  ultimately show ?thesis using D(2) by fastforce
qed

section \<open>Documents end to end\<close>

text \<open>
  C16: A document inserted over the wire is what retrieving its url answers. When the handler has
  answered an insertion with success, a retrieval for the same workspace and url answers, on the
  pool it left, with the processed document as the shard stores it, whatever the insertion found:
  an open shard, a mapped one, or a document it replaced. Two things are assumed: processing gave
  no two splits, and no two different summaries, of the document one id, which it can do (C25);
  and the shard that the pool handed out can take it (can_take): its log satisfies the store's
  invariant, a mapped index has its file behind it, and its counters have room for the records.
\<close>

theorem inserted_then_retrieved:
  assumes "usearch_ok (se_us (pe_shard P)) A" "env_ok (se_env (pe_shard P))" "pool_ok p"
    and "sv_insertion V body = Some req" "process_document ctx (ir_doc_url req) (ir_input req) = Inr doc" "ids_distinct doc"
    and "\<forall>a u. pool_get P (ir_workspace_id req) p = (Inr a, u) \<longrightarrow> can_take A P opts doc u a"
    and "document_insertion V P ctx sync h body p = (Sent h' (Some r), q)"
    and "sv_retrieval V' body' = Some ask" "rq_user ask = Some (ir_workspace_id req)"
      "rq_document_id ask = None" "rq_document_url ask = Some (ir_doc_url req)"
  shows "fst (document_retrieval V' P (pc_hasher ctx) k body' q)
    = send_success V' (Retrieved \<lparr> rp_status = RetrievalSuccess,
        rp_document = Some (stored_doc (se_env (pe_shard P)) opts (unwrap_or (rq_verbose ask) False) doc) \<rparr>) k"
proof -
  have "shard_holds P opts doc (ir_workspace_id req) q"
    using insertion_holds [OF assms(1-5) process_document_consistent [OF assms(5)] _ assms(8)] assms(7) by blast
  from shard_holds_read [OF this assms(2,6), of "unwrap_or (rq_verbose ask) False"] obtain a u where
    "get_existing P (ir_workspace_id req) q = (Inr (Some a), u)"
    "read_shard P u a (\<lambda>sh w. storage (get_doc (se_env (pe_shard P)) (in_store (sh_inner sh)) w (dd_document_id doc)
        (unwrap_or (rq_verbose ask) False)))
      = Inr (Some (stored_doc (se_env (pe_shard P)) opts (unwrap_or (rq_verbose ask) False) doc))" by blast
  moreover have "retrieval_id (pc_hasher ctx) ask = dd_document_id doc"
    using assms(11,12) process_document_splits(1) [OF assms(5)] by (simp add: retrieval_id_def unwrap_or_def)
  ultimately show ?thesis using assms(9-12) by (simp add: document_retrieval_def retrieval_response_of_def)
qed

lemma inserted_then_retrieved_witness:
  "\<exists>x h q. first_state x
     \<and> document_insertion sample_server sample_penv sample_ctx False (header_of_type DocumentInsertion) [] (sample_pool x)
         = (Sent h (Some (insertion_response_of sample_insertion doc0)), q)
     \<and> fst (document_retrieval sample_server sample_penv (pc_hasher sample_ctx) (header_of_type DocumentRetrieval) [] q)
         = send_success sample_server (Retrieved \<lparr> rp_status = RetrievalSuccess,
             rp_document = Some (stored_doc sample_env opts1 True doc0) \<rparr>) (header_of_type DocumentRetrieval)"
proof -
  obtain x where x: "first_state x" using first_state_exists by blast
  from sample_inserted [OF x, of False] obtain h q where
    i: "document_insertion sample_server sample_penv sample_ctx False (header_of_type DocumentInsertion) [] (sample_pool x)
         = (Sent h (Some (insertion_response_of sample_insertion doc0)), q)" by blast
  have req: "sv_insertion sample_server [] = Some sample_insertion" "sv_retrieval sample_server [] = Some sample_retrieval"
    by (simp_all add: sample_server_def)
  have p: "process_document sample_ctx (ir_doc_url sample_insertion) (ir_input sample_insertion) = Inr doc0"
    by (simp add: sample_insertion_def sample_process)
  have t: "\<forall>a u. pool_get sample_penv (ir_workspace_id sample_insertion) (sample_pool x) = (Inr a, u)
      \<longrightarrow> can_take sample_us_model sample_penv opts1 doc0 u a"
    using sample_can_take [OF x] by (simp add: sample_insertion_def)
  from inserted_then_retrieved [OF sample_us(1) _ sample_pool_ok req(1) p doc0_facts(3) t i req(2)]
  have "fst (document_retrieval sample_server sample_penv (pc_hasher sample_ctx) (header_of_type DocumentRetrieval) [] q)
         = send_success sample_server (Retrieved \<lparr> rp_status = RetrievalSuccess,
             rp_document = Some (stored_doc sample_env opts1 True doc0) \<rparr>) (header_of_type DocumentRetrieval)"
    by (simp add: sample_us(2) sample_env_ok sample_retrieval_def sample_insertion_def unwrap_or_def)
  with x i show ?thesis by blast
qed

text \<open>
  C17: With every write synced before it is acknowledged, an acknowledged document survives a
  power loss: if the device keeps of the active segment at least what was synced, and the other
  files, the next open of the directory that returns reads the document back. As for C16 the ids
  of the processed document's splits and of its different summaries must differ, and the shard
  that the pool handed out must be able to take it (can_take): its log satisfies the store's
  invariant, a mapped index has its file behind it, and its counters have room for the records.
\<close>

theorem synced_insertion_survives_power_loss:
  assumes "usearch_ok (se_us (pe_shard P)) A" "env_ok (se_env (pe_shard P))" "pool_ok p"
    and "sv_insertion V body = Some req" "process_document ctx (ir_doc_url req) (ir_input req) = Inr doc" "ids_distinct doc"
    and "\<forall>a u. pool_get P (ir_workspace_id req) p = (Inr a, u) \<longrightarrow> can_take A P opts doc u a"
    and "document_insertion V P ctx True h body p = (Sent h' (Some r), q)"
    and "maps_to (ir_workspace_id req) a q" "shard_state P q a = Some (n, w)" "next_seq_of (in_store n, w) < - 1"
    and "crash_of (in_store n, w) v" "fs_exists v (SegFile (active_id (in_store n, w)))"
      "length (the (fmlookup (synced w) (SegFile (active_id (in_store n, w))))) \<le> length (file_of v (SegFile (active_id (in_store n, w))))"
    and "store_open (se_env (pe_shard P)) opts v = (Inr s, v')"
  shows "get_doc (se_env (pe_shard P)) s v' (dd_document_id doc) emb
    = Inr (Some (stored_doc (se_env (pe_shard P)) opts emb doc))"
proof -
  let ?E = "se_env (pe_shard P)"
  have "\<exists>b x z m u. maps_to (ir_workspace_id req) b q \<and> holds_doc ?E x doc z \<and> st_opts (fst x) = opts
      \<and> store_fsync z = (Inr (), (in_store m, u)) \<and> shard_state P q b = Some (m, u)"
    using insertion_holds [OF assms(1-5) process_document_consistent [OF assms(5)] _ assms(8)] assms(7) by blast
  then obtain b x z where h: "maps_to (ir_workspace_id req) b q" "holds_doc ?E x doc z" "st_opts (fst x) = opts"
    "store_fsync z = (Inr (), (in_store n, w))" using assms(9,10) by (auto simp: maps_to_def)
  from holds_inv [OF h(2)] obtain sl al where "store_inv ?E sl al z" by blast
  from power_loss_files [OF this h(4) assms(12)] assms(13,14) have f: "files v = files w" by simp
  note H = fsync_holds [OF h(2,4)]
  then have o: "st_opts (in_store n) = opts" using h(3) by (auto simp: holds_doc_def)
  have "holds_doc ?E x doc (s, v')"
    by (rule reopen_holds [OF H assms(2,11)]) (use f assms(15) o in simp_all)
  from holds_get_doc [OF this assms(2,6)] h(3) show ?thesis by simp
qed

lemma synced_insertion_survives_power_loss_witness:
  "\<exists>x h q n w s v. first_state x
     \<and> document_insertion sample_server sample_penv sample_ctx True (header_of_type DocumentInsertion) [] (sample_pool x)
         = (Sent h (Some (insertion_response_of sample_insertion doc0)), q)
     \<and> shard_state sample_penv q 0 = Some (n, w) \<and> store_open sample_env opts1 (w\<lparr>faults := []\<rparr>) = (Inr s, v)
     \<and> get_doc sample_env s v 1 True = Inr (Some (stored_doc sample_env opts1 True doc0))"
proof -
  obtain x where x: "first_state x" using first_state_exists by blast
  from sample_inserted [OF x, of True] obtain h q n w sl al where
    i: "document_insertion sample_server sample_penv sample_ctx True (header_of_type DocumentInsertion) [] (sample_pool x)
         = (Sent h (Some (insertion_response_of sample_insertion doc0)), q)"
    and m: "maps_to 5 0 q" and q: "shard_state sample_penv q 0 = Some (n, w)"
    and inv: "store_inv sample_env sl al (in_store n, w)" "st_opts (in_store n) = opts1" "next_seq_of (in_store n, w) < - 1"
    and f: "fmlookup (synced w) (SegFile (active_id (in_store n, w))) = Some (file_of w (SegFile (active_id (in_store n, w))))" by blast
  have req: "sv_insertion sample_server [] = Some sample_insertion" by (simp add: sample_server_def)
  have p: "process_document sample_ctx (ir_doc_url sample_insertion) (ir_input sample_insertion) = Inr doc0"
    by (simp add: sample_insertion_def sample_process)
  have t: "\<forall>a u. pool_get sample_penv (ir_workspace_id sample_insertion) (sample_pool x) = (Inr a, u)
      \<longrightarrow> can_take sample_us_model sample_penv opts1 doc0 u a"
    using sample_can_take [OF x] by (simp add: sample_insertion_def)
  let ?z = "(in_store n, w)" let ?w = "w\<lparr>faults := []\<rparr>"
  from second_open [OF inv(1) _ inv(3)] inv(2) obtain s v where o: "store_open sample_env opts1 ?w = (Inr s, v)" by auto
  have c: "crash_of ?z ?w" using crash_refl [of ?z] by (simp add: crash_of_def file_of_def)
  have e: "fs_exists ?w (SegFile (active_id ?z))"
    using inv(1) by (simp add: store_inv_def represents_def active_ok_def seg_ok_def seg_of_def fs_exists_def)
  have E: "env_ok (se_env (pe_shard sample_penv))" by (simp add: sample_us(2) sample_env_ok)
  have m': "maps_to (ir_workspace_id sample_insertion) 0 q" using m by (simp add: sample_insertion_def)
  have o': "store_open (se_env (pe_shard sample_penv)) opts1 ?w = (Inr s, v)" using o by (simp add: sample_us(2))
  have l: "length (the (fmlookup (synced w) (SegFile (active_id ?z)))) \<le> length (file_of ?w (SegFile (active_id ?z)))"
    using f by (simp add: file_of_def)
  from synced_insertion_survives_power_loss [OF sample_us(1) E sample_pool_ok req p doc0_facts(3) t i m' q inv(3) c e l o', of True]
  have "get_doc sample_env s v 1 True = Inr (Some (stored_doc sample_env opts1 True doc0))"
    by (simp add: sample_us(2) doc0_def)
  with x i q o show ?thesis by blast
qed

text \<open>
  A retrieval never answers NotFound: a document that is not there, in a workspace that is or
  is not there, is answered with the status Error and no document; only a document that was read
  is a Success. A deletion that finds nothing does answer NotFound.
\<close>

theorem missing_document_is_an_error:
  assumes "document_retrieval V P hasher h body p = (Sent h' (Some (Retrieved r)), q)"
  shows "rp_status r \<noteq> RetrievalNotFound \<and> (rp_status r = RetrievalSuccess \<longleftrightarrow> rp_document r \<noteq> None)"
proof -
  obtain d where "retrieval_response_of d = Retrieved r"
    using assms
    by (auto simp: document_retrieval_def send_success_def send_exception_def storage_failed_def Let_def
        split: option.splits sum.splits prod.splits query_error.splits if_splits)
  then show ?thesis by (cases d) (auto simp: retrieval_response_of_def)
qed

definition empty_pool :: "(bool \<times> u64 list) pool" where
  "empty_pool = pool_new (shard_options_new 7 sample_index)"

lemma empty_pool_retrieval:
  "document_retrieval sample_server sample_penv (pc_hasher sample_ctx) (header_of_type DocumentRetrieval) [] empty_pool
     = (send_success sample_server (retrieval_response_of None) (header_of_type DocumentRetrieval), tick_up empty_pool)"
  by (simp add: document_retrieval_def sample_server_def sample_retrieval_def get_existing_def bindM_def peek_def touch_def
      Let_def empty_pool_def pool_new_def tick_up_def entry_of_def getM_def ret_def)

lemma missing_document_is_an_error_witness:
  "\<exists>h. fst (document_retrieval sample_server sample_penv (pc_hasher sample_ctx) (header_of_type DocumentRetrieval) [] empty_pool)
       = Sent h (Some (Retrieved \<lparr> rp_status = RetrievalError, rp_document = None \<rparr>)) \<and> RetrievalError \<noteq> RetrievalNotFound"
proof -
  have "\<exists>h. send_success sample_server (retrieval_response_of None) (header_of_type DocumentRetrieval)
      = Sent h (Some (Retrieved \<lparr> rp_status = RetrievalError, rp_document = None \<rparr>))"
    by (simp add: send_success_def sample_server_def Let_def retrieval_response_of_def)
  then obtain h where h: "send_success sample_server (retrieval_response_of None) (header_of_type DocumentRetrieval)
      = Sent h (Some (Retrieved \<lparr> rp_status = RetrievalError, rp_document = None \<rparr>))" ..
  from missing_document_is_an_error [OF empty_pool_retrieval [unfolded h]] h show ?thesis
    by (simp add: empty_pool_retrieval)
qed

section \<open>Answers\<close>

text \<open>
  Every request with a body is answered to its message id, with its type and time of request:
  a success with a response of the request's type, or an error with its message and no body,
  unless the answer does not serialise or the handler panicked.
\<close>

theorem requests_are_answered:
  assumes "sv_header V header = Some h" "rest \<noteq> [] \<or> mh_message_type h = HealthCheck" "mh_message_type h \<noteq> Unknown"
  shows "answers_request h (fst (handle_message V P ctx sync (header # rest) p))"
  by (rule message_answered [OF assms])

lemma requests_are_answered_witness:
  "answers_request (header_of_type DocumentRetrieval)
     (fst (handle_message sample_server sample_penv sample_ctx False [[1], [2]] empty_pool))"
proof (rule requests_are_answered)
  show "sv_header sample_server [1] = Some (header_of_type DocumentRetrieval)" by (simp add: sample_server_def)
qed (simp_all add: header_of_type_def header_new_def)

section \<open>The pool of a running service\<close>

text \<open>
  C31: At every moment between two messages, passes of the timer or shutdown snapshots of a service
  that was started from its configuration, whatever failed in them, there is at most one open
  shard per workspace and no shard is referenced from outside the pool, so that nothing is kept
  from eviction.
\<close>

theorem nothing_stays_pinned:
  assumes "service_run P ctx c model_id index p"
  shows "pool_ok p \<and> (\<forall>a. held p a = 0)"
  by (rule service_run_settled [OF assms])

lemma default_config_valid: "validate_config default_storage_config = Inr ()"
proof -
  have d: "fdecode F64_format 0 = FFin False 0 (- 1074)"
    "fdecode F64_format 0x3FD3333333333333 = FFin False 0x13333333333333 (- 54)"
    "fdecode F64_format 0x3FF0000000000000 = FFin False 0x10000000000000 (- 52)"
    by (simp_all add: fdecode_def F64_format_def sign_weight_def hidden_bit_def inf_bits_def Let_def)
  have "f64_gt 0x3FD3333333333333 0" "f64_ge f64_one 0x3FD3333333333333"
    by (simp_all add: f64_gt_def f64_ge_def f64_one_def fcmp_def d Let_def signed_def cmp_int_def)
  then show ?thesis by (simp add: validate_config_def default_storage_config_def)
qed

lemma nothing_stays_pinned_witness:
  "\<exists>p. service_run sample_penv sample_ctx default_storage_config 7 sample_index p \<and> pool_ok p \<and> (\<forall>a. held p a = 0)"
proof -
  obtain p where "server_pool default_storage_config 7 sample_index = (Inr p :: config_error + (bool \<times> u64 list) pool)"
    by (simp add: server_pool_def default_config_valid bindR_def)
  then have "service_run sample_penv sample_ctx default_storage_config 7 sample_index p" by (rule service_run.started)
  from nothing_stays_pinned [OF this] this show ?thesis by blast
qed

text \<open>
  C32: A budget pass ends, whatever the shards do and however their snapshots fail, and unless one
  failed it leaves the pool within its budget or every shard in it held or demoted already.
\<close>

theorem budget_pass_ends:
  "\<exists>r q. enforce_budget P p = Some (r, q)
     \<and> (case r of Inl e \<Rightarrow> True | Inr n \<Rightarrow> total_bytes P q \<le> pl_budget_bytes q \<or> nothing_to_demote P q)"
proof -
  from enforce_budget_ends [of P p] obtain r q where
    "enforce_budget P p = Some (r, q)" "\<forall>n. r \<noteq> Inr n \<or> total_bytes P q \<le> pl_budget_bytes q \<or> nothing_to_demote P q" by blast
  then show ?thesis by (auto split: sum.split)
qed

text \<open>
  The wait for a shutdown ends once the clock passes two seconds: it answers at the first look
  that finds the claim or the time up, and says whether there was a claim.
\<close>

theorem shutdown_wait_ends:
  assumes "claimed i \<or> SHUTDOWN_CLAIM_TIMEOUT \<le> elapsed i"
  shows "\<exists>n. await_shutdown claimed elapsed = Some (claimed n)
    \<and> (claimed n \<or> SHUTDOWN_CLAIM_TIMEOUT \<le> elapsed n) \<and> (\<forall>j < n. \<not> claimed j \<and> elapsed j < SHUTDOWN_CLAIM_TIMEOUT)"
  using await_shutdown_returns assms by blast

lemma shutdown_wait_ends_witness: "await_shutdown (\<lambda>i. i = 3) (\<lambda>i. 10 * i) = Some True"
proof -
  from shutdown_wait_ends [of "\<lambda>i. i = 3" 3 "\<lambda>i. 10 * i"] obtain n :: nat where
    n: "await_shutdown (\<lambda>i. i = 3) (\<lambda>i. 10 * i) = Some (n = 3)" "n = 3 \<or> 2000 \<le> 10 * n" "\<forall>j < n. j \<noteq> 3"
    by (auto simp: SHUTDOWN_CLAIM_TIMEOUT_def)
  have "\<not> 3 < n" using n(3) by blast
  with n(2) have "n = 3" by linarith
  with n(1) show ?thesis by simp
qed

text \<open>
  C33: A validated configuration keeps every derived quantity in range: segments and the memory
  budget are at least a megabyte however the multiplication saturates, snapshots are at least a
  second apart, and the timer ticks no faster than fifty milliseconds and no slower than the
  intervals that are set ask for, but that an fsync interval under fifty milliseconds, which
  validates, gets a tick of fifty.
\<close>

theorem validated_settings:
  assumes "validate_config c = Inr ()"
  shows "2 ^ 20 \<le> unat (segment_max_bytes c) \<and> 2 ^ 20 \<le> memory_budget_bytes c \<and> 1000 \<le> snapshot_interval c
    \<and> policy_tick (policy_from_config c) \<in> {50 .. snapshot_interval c}
    \<and> policy_tick (policy_from_config c) \<le> max 50 (unwrap_or (fsync_interval c) (snapshot_interval c))"
  using validated [OF assms] tick_bounds [OF assms] by (auto simp: unwrap_or_def split: option.split)

lemma validated_settings_witness:
  "policy_tick (policy_from_config (default_storage_config\<lparr>sc_fsync_interval_ms := 10\<rparr>)) = 50"
proof -
  have "validate_config (default_storage_config\<lparr>sc_fsync_interval_ms := 10\<rparr>) = Inr ()"
    using default_config_valid by (simp add: validate_config_def default_storage_config_def split: if_splits)
  from validated_settings [OF this] show ?thesis by (simp add: fsync_interval_def unwrap_or_def)
qed

end
