(* ===== verification/Migrate.thy ===== *)
theory Migrate
  imports Maintenance
begin

text \<open>
  The migration (\<open>embedding-store/src/migrate.rs\<close> and its tool): a store of the previous layer,
  kept in the column families of RocksDB, is read document by document and written into one
  shard per workspace. RocksDB and the decoding of its records are not part of the sources: an
  open database is a record of what its calls return.
\<close>

section \<open>The old store\<close>

datatype column_family =
  CF_DEFAULT | CF_DOCUMENTS | CF_SPLITS | CF_SUMMARIES | CF_EMBEDDINGS | CF_FILTER_INFO | CF_MODELS

definition ALL_CFS :: "column_family list" where
  "ALL_CFS = [CF_DEFAULT, CF_DOCUMENTS, CF_SPLITS, CF_SUMMARIES, CF_EMBEDDINGS, CF_FILTER_INFO, CF_MODELS]"

text \<open>
  \<open>db_family\<close> says whether there is a handle; \<open>db_iter\<close> is what an iterator from the start yields,
  \<open>None\<close> being an item that failed; \<open>db_get\<close> fails (\<open>None\<close>), misses (\<open>Some None\<close>) or reads. The last
  five fields decode the value of a record.
\<close>

record old_db =
  db_family :: "column_family \<Rightarrow> bool"
  db_iter :: "column_family \<Rightarrow> (bytes \<times> bytes) option list"
  db_get :: "column_family \<Rightarrow> bytes \<Rightarrow> bytes option option"
  db_filter_info :: "bytes \<Rightarrow> embedding_filter_info option"
  db_document :: "bytes \<Rightarrow> document_model option"
  db_split :: "bytes \<Rightarrow> split_model option"
  db_summary :: "bytes \<Rightarrow> summary_model option"
  db_embedding :: "bytes \<Rightarrow> embedding_model option"

text \<open>A directory: whether it exists, and the database it opens as with the given column families, read-write or not.\<close>

record old_source =
  src_exists :: bool
  src_open :: "column_family list \<Rightarrow> bool \<Rightarrow> old_db option"

datatype old_record = OldSplit | OldSummary

datatype migrate_error =
    NoSource
  | NotRocks
  | NoFamily column_family
  | SourceRead
  | BadFilterRow
  | BadDocumentKey
  | BadOldRecord column_family u64
  | SplitNotStored u64
  | SummaryNotStored u64
  | VectorNotStored old_record u64
  | Destination error

definition key :: "u64 \<Rightarrow> bytes" where
  "key i = u64_to_le i"

definition open_source :: "old_source \<Rightarrow> bool \<Rightarrow> migrate_error + old_db" where
  "open_source src read_write =
     (if \<not> src_exists src then Inl NoSource
      else case src_open src ALL_CFS read_write of None \<Rightarrow> Inl NotRocks | Some db \<Rightarrow> Inr db)"

definition cf_handle :: "old_db \<Rightarrow> column_family \<Rightarrow> migrate_error + unit" where
  "cf_handle db cf = (if db_family db cf then Inr () else Inl (NoFamily cf))"

section \<open>Which document belongs where\<close>

text \<open>A \<open>BTreeMap\<close> of \<open>BTreeSet\<close>s: a finite map, walked in the order of its keys.\<close>

type_synonym workspaces = "(uuid, u64 fset) fmap"

definition docs_in :: "workspaces \<Rightarrow> uuid \<Rightarrow> u64 fset" where
  "docs_in m ws = (case fmlookup m ws of None \<Rightarrow> {||} | Some ds \<Rightarrow> ds)"

definition add_row :: "embedding_filter_info \<Rightarrow> workspaces \<Rightarrow> workspaces" where
  "add_row info m = fmupd (ef_user_uuid info) (finsert (ef_doc_id info) (docs_in m (ef_user_uuid info))) m"

fun scan_rows :: "old_db \<Rightarrow> (bytes \<times> bytes) option list \<Rightarrow> workspaces \<Rightarrow> migrate_error + workspaces" where
  "scan_rows db [] m = Inr m"
| "scan_rows db (None # items) m = Inl SourceRead"
| "scan_rows db (Some (k, v) # items) m =
     (case db_filter_info db v of
        None \<Rightarrow> Inl BadFilterRow
      | Some info \<Rightarrow> scan_rows db items (add_row info m))"

definition scan_workspaces :: "old_db \<Rightarrow> migrate_error + workspaces" where
  "scan_workspaces db =
     bindR (cf_handle db CF_FILTER_INFO) (\<lambda>_. scan_rows db (db_iter db CF_FILTER_INFO) fmempty)"

text \<open>Every item counts, also one that failed.\<close>

definition count_filter_rows :: "old_db \<Rightarrow> migrate_error + nat" where
  "count_filter_rows db = bindR (cf_handle db CF_FILTER_INFO) (\<lambda>_. Inr (length (db_iter db CF_FILTER_INFO)))"

definition named_documents :: "workspaces \<Rightarrow> u64 list" where
  "named_documents m = concat (map (\<lambda>ws. sorted_list_of_fset (docs_in m ws)) (sorted_list_of_fset (fmdom m)))"

definition distinct_documents :: "workspaces \<Rightarrow> nat" where
  "distinct_documents m = fcard (fset_of_list (named_documents m))"

definition note_shared :: "u64 \<Rightarrow> u64 fset \<times> u64 fset \<Rightarrow> u64 fset \<times> u64 fset" where
  "note_shared d = (\<lambda>(seen, shared). if d |\<in>| seen then (seen, finsert d shared) else (finsert d seen, shared))"

definition shared_documents :: "workspaces \<Rightarrow> nat" where
  "shared_documents m = fcard (snd (fold note_shared (named_documents m) ({||}, {||})))"

fun count_orphans :: "u64 fset \<Rightarrow> (bytes \<times> bytes) option list \<Rightarrow> nat \<Rightarrow> migrate_error + nat" where
  "count_orphans named [] orphans = Inr orphans"
| "count_orphans named (None # items) orphans = Inl SourceRead"
| "count_orphans named (Some (k, v) # items) orphans =
     (if length k \<noteq> 8 then Inl BadDocumentKey
      else count_orphans named items (if u64_from_le k |\<in>| named then orphans else orphans + 1))"

definition orphan_documents :: "old_db \<Rightarrow> workspaces \<Rightarrow> migrate_error + nat" where
  "orphan_documents db m =
     bindR (cf_handle db CF_DOCUMENTS) (\<lambda>_.
       count_orphans (fset_of_list (named_documents m)) (db_iter db CF_DOCUMENTS) 0)"

section \<open>Reading a document\<close>

definition old_get :: "(bytes \<Rightarrow> 'a option) \<Rightarrow> old_db \<Rightarrow> column_family \<Rightarrow> u64 \<Rightarrow> migrate_error + 'a option" where
  "old_get unpack db cf i =
     bindR (cf_handle db cf) (\<lambda>_.
       case db_get db cf (key i) of
         None \<Rightarrow> Inl SourceRead
       | Some None \<Rightarrow> Inr None
       | Some (Some bs) \<Rightarrow> (case unpack bs of None \<Rightarrow> Inl (BadOldRecord cf i) | Some v \<Rightarrow> Inr (Some v)))"

definition read_embedding :: "old_db \<Rightarrow> old_record \<Rightarrow> u64 \<Rightarrow> migrate_error + embedding_dto" where
  "read_embedding db what i =
     bindR (old_get (db_embedding db) db CF_EMBEDDINGS i) (\<lambda>r. case r of
       None \<Rightarrow> Inl (VectorNotStored what i)
     | Some m \<Rightarrow> Inr (embedding_to_dto m))"

definition read_old_summary :: "old_db \<Rightarrow> u64 \<Rightarrow> migrate_error + summary_dto" where
  "read_old_summary db i =
     bindR (old_get (db_summary db) db CF_SUMMARIES i) (\<lambda>r. case r of
       None \<Rightarrow> Inl (SummaryNotStored i)
     | Some m \<Rightarrow> bindR (read_embedding db OldSummary i) (\<lambda>e. Inr (summary_to_dto m (Some e) None)))"

definition read_split_of :: "old_db \<Rightarrow> u64 \<Rightarrow> migrate_error + split_dto" where
  "read_split_of db i =
     bindR (old_get (db_split db) db CF_SPLITS i) (\<lambda>r. case r of
       None \<Rightarrow> Inl (SplitNotStored i)
     | Some m \<Rightarrow>
         bindR (mapR (read_old_summary db) (unwrap_or (smod_summary_ids m) [])) (\<lambda>summaries.
         bindR (read_embedding db OldSplit i) (\<lambda>e.
         Inr (split_to_dto_full m summaries (Some e) None))))"

definition read_document :: "old_db \<Rightarrow> u64 \<Rightarrow> migrate_error + document_dto option" where
  "read_document db i =
     bindR (old_get (db_document db) db CF_DOCUMENTS i) (\<lambda>r. case r of
       None \<Rightarrow> Inr None
     | Some doc \<Rightarrow>
         bindR (mapR (read_split_of db) (dmod_split_ids doc)) (\<lambda>splits.
         bindR (case dmod_summary_ids doc of
                  Some ids \<Rightarrow> if ids \<noteq> [] then bindR (mapR (read_old_summary db) ids) (\<lambda>us. Inr (Some us)) else Inr None
                | None \<Rightarrow> Inr None) (\<lambda>doc_summaries.
         Inr (Some (document_to_dto doc splits doc_summaries)))))"

text \<open>A summary named by the document and by its split counts once.\<close>

definition distinct_summaries_of :: "document_dto \<Rightarrow> nat" where
  "distinct_summaries_of doc =
     fcard (fset_of_list (map ud_summary_id (opt_list (dd_summaries doc) @ concat (map sd_summaries (dd_splits doc)))))"

section \<open>Writing the shards\<close>

record counts =
  cn_docs :: nat
  cn_splits :: nat
  cn_summaries :: nat

definition no_counts :: counts where
  "no_counts = \<lparr> cn_docs = 0, cn_splits = 0, cn_summaries = 0 \<rparr>"

definition add_counts :: "counts \<Rightarrow> counts \<Rightarrow> counts" where
  "add_counts a b = \<lparr> cn_docs = cn_docs a + cn_docs b, cn_splits = cn_splits a + cn_splits b,
     cn_summaries = cn_summaries a + cn_summaries b \<rparr>"

definition counts_of :: "document_dto \<Rightarrow> counts" where
  "counts_of dto = \<lparr> cn_docs = 1, cn_splits = length (dd_splits dto), cn_summaries = distinct_summaries_of dto \<rparr>"

record workspace_report =
  wr_workspace :: uuid
  wr_read :: counts
  wr_written :: "counts option"

datatype refusal = NotInDocuments | Unreadable migrate_error | NotInserted error

record migration_report =
  mr_filter_rows :: nat
  mr_distinct_documents :: nat
  mr_shared_documents :: nat
  mr_orphan_documents :: nat
  mr_workspaces :: "workspace_report list"
  mr_totals :: counts
  mr_shards_snapshotted :: nat
  mr_failures :: "(uuid \<times> u64 \<times> refusal) list"

record migration_options =
  mo_shard :: shard_options
  mo_memory_budget_mb :: nat
  mo_dry_run :: bool
  mo_read_write :: bool

text \<open>The pool and the shard that is being written, when there are any: a dry run has neither.\<close>

definition insert_into :: "'x penv \<Rightarrow> nat option \<Rightarrow> document_dto \<Rightarrow> 'x pool option \<Rightarrow> (error + unit) \<times> 'x pool option" where
  "insert_into P shard dto target =
     (case (shard, target) of
        (Some a, Some p) \<Rightarrow>
          (case on_shard P a (shard_insert (pe_shard P) dto) p of
             (Inl e, q) \<Rightarrow> (Inl e, Some q)
           | (Inr _, q) \<Rightarrow> (Inr (), Some q))
      | _ \<Rightarrow> (Inr (), target))"

definition migrate_document :: "'x penv \<Rightarrow> old_db \<Rightarrow> nat option \<Rightarrow> u64 \<Rightarrow> 'x pool option
    \<Rightarrow> (refusal + document_dto) \<times> 'x pool option" where
  "migrate_document P db shard d target =
     (case read_document db d of
        Inl e \<Rightarrow> (Inl (Unreadable e), target)
      | Inr None \<Rightarrow> (Inl NotInDocuments, target)
      | Inr (Some dto) \<Rightarrow>
          (case insert_into P shard dto target of
             (Inl e, t) \<Rightarrow> (Inl (NotInserted e), t)
           | (Inr _, t) \<Rightarrow> (Inr dto, t)))"

text \<open>A document that is refused is noted and the next one is tried; a panic ends the process.\<close>

fun migrate_documents :: "'x penv \<Rightarrow> old_db \<Rightarrow> uuid \<Rightarrow> nat option \<Rightarrow> u64 list \<Rightarrow> counts \<times> (uuid \<times> u64 \<times> refusal) list
    \<Rightarrow> 'x pool option \<Rightarrow> (migrate_error + counts \<times> (uuid \<times> u64 \<times> refusal) list) \<times> 'x pool option" where
  "migrate_documents P db ws shard [] acc target = (Inr acc, target)"
| "migrate_documents P db ws shard (d # ds) (read, failures) target =
     (case migrate_document P db shard d target of
        (Inl r, t) \<Rightarrow>
          if r = NotInserted Panicked then (Inl (Destination Panicked), t)
          else migrate_documents P db ws shard ds (read, failures @ [(ws, d, r)]) t
      | (Inr dto, t) \<Rightarrow> migrate_documents P db ws shard ds (add_counts read (counts_of dto), failures) t)"

text \<open>\<open>stats\<close> waits for the shard's lock; nobody else has it.\<close>

definition written_counts :: "'x penv \<Rightarrow> nat option \<Rightarrow> 'x pool option \<Rightarrow> counts option" where
  "written_counts P shard target =
     (case (shard, target) of
        (Some a, Some p) \<Rightarrow>
          map_option (\<lambda>l. let stats = stats_of (pe_shard P) (sh_inner (lv_shard l)) in
             \<lparr> cn_docs = ss_docs stats, cn_splits = ss_splits stats, cn_summaries = ss_summaries stats \<rparr>)
            (allocation_of p a)
      | _ \<Rightarrow> None)"

definition release :: "nat option \<Rightarrow> 'x pool option \<Rightarrow> 'x pool option" where
  "release shard target = (case shard of None \<Rightarrow> target | Some a \<Rightarrow> map_option (drop_arc a) target)"

definition open_shard_of :: "'x penv \<Rightarrow> uuid \<Rightarrow> 'x pool option \<Rightarrow> (migrate_error + nat option) \<times> 'x pool option" where
  "open_shard_of P ws target =
     (case target of
        None \<Rightarrow> (Inr None, None)
      | Some p \<Rightarrow> (case pool_get P ws p of (Inl e, q) \<Rightarrow> (Inl (Destination e), Some q) | (Inr a, q) \<Rightarrow> (Inr (Some a), Some q)))"

definition add_workspace :: "uuid \<Rightarrow> counts \<times> (uuid \<times> u64 \<times> refusal) list \<Rightarrow> counts option \<Rightarrow> migration_report
    \<Rightarrow> migration_report" where
  "add_workspace ws = (\<lambda>(read, failures) written report.
     report\<lparr>mr_totals := add_counts (mr_totals report) read,
       mr_workspaces := mr_workspaces report @ [\<lparr> wr_workspace = ws, wr_read = read, wr_written = written \<rparr>],
       mr_failures := failures\<rparr>)"

fun migrate_workspaces :: "'x penv \<Rightarrow> old_db \<Rightarrow> workspaces \<Rightarrow> uuid list \<Rightarrow> migration_report \<Rightarrow> 'x pool option
    \<Rightarrow> (migrate_error + migration_report) \<times> 'x pool option" where
  "migrate_workspaces P db m [] report target = (Inr report, target)"
| "migrate_workspaces P db m (ws # wss) report target =
     (case open_shard_of P ws target of
        (Inl e, t) \<Rightarrow> (Inl e, t)
      | (Inr shard, t) \<Rightarrow>
          (case migrate_documents P db ws shard (sorted_list_of_fset (docs_in m ws)) (no_counts, mr_failures report) t of
             (Inl e, u) \<Rightarrow> (Inl e, u)
           | (Inr acc, u) \<Rightarrow>
               migrate_workspaces P db m wss (add_workspace ws acc (written_counts P shard u) report) (release shard u)))"

definition first_report :: "old_db \<Rightarrow> workspaces \<Rightarrow> migrate_error + migration_report" where
  "first_report db m =
     bindR (count_filter_rows db) (\<lambda>rows.
     bindR (orphan_documents db m) (\<lambda>orphans.
     Inr \<lparr> mr_filter_rows = rows, mr_distinct_documents = distinct_documents m,
           mr_shared_documents = shared_documents m, mr_orphan_documents = orphans, mr_workspaces = [],
           mr_totals = no_counts, mr_shards_snapshotted = 0, mr_failures = [] \<rparr>))"

text \<open>\<open>dirs\<close> is what the destination holds, or \<open>None\<close> when it cannot be created.\<close>

definition destination :: "migration_options \<Rightarrow> (uuid, world) fmap option \<Rightarrow> migrate_error + 'x pool option" where
  "destination opts dirs =
     (if mo_dry_run opts then Inr None
      else case dirs of
        None \<Rightarrow> Inl (Destination Io)
      | Some ds \<Rightarrow> Inr (Some ((with_memory_budget_mb (mo_memory_budget_mb opts) (pool_new (mo_shard opts)))\<lparr>pl_dirs := ds\<rparr>)))"

definition snapshot_shards :: "'x penv \<Rightarrow> migration_report \<Rightarrow> 'x pool option
    \<Rightarrow> (migrate_error + migration_report) \<times> 'x pool option" where
  "snapshot_shards P report target =
     (case target of
        None \<Rightarrow> (Inr report, None)
      | Some p \<Rightarrow>
          (case snapshot_all P p of
             (Inl e, q) \<Rightarrow> (Inl (Destination e), Some q)
           | (Inr n, q) \<Rightarrow> (Inr (report\<lparr>mr_shards_snapshotted := n\<rparr>), Some q)))"

definition migrate :: "'x penv \<Rightarrow> old_source \<Rightarrow> (uuid, world) fmap option \<Rightarrow> migration_options
    \<Rightarrow> (migrate_error + migration_report) \<times> 'x pool option" where
  "migrate P src dirs opts =
     (case bindR (open_source src (mo_read_write opts)) (\<lambda>db.
             bindR (scan_workspaces db) (\<lambda>m.
             bindR (first_report db m) (\<lambda>report.
             bindR (destination opts dirs) (\<lambda>target. Inr (db, m, report, target))))) of
        Inl e \<Rightarrow> (Inl e, None)
      | Inr (db, m, report, target) \<Rightarrow>
          (case migrate_workspaces P db m (sorted_list_of_fset (fmdom m)) report target of
             (Inl e, t) \<Rightarrow> (Inl e, t)
           | (Inr r, t) \<Rightarrow> snapshot_shards P r t))"

section \<open>The tool\<close>

record migrate_args =
  ar_to :: "ustring option"
  ar_dry_run :: bool
  ar_read_write :: bool

datatype tool_error = BadSettings config_error | NoWorkingDirectory | MigrationFailed migrate_error

text \<open>The settings of the tool: the destination is the argument, or the configured directory.\<close>

definition tool_options :: "migrate_args \<Rightarrow> storage_config \<Rightarrow> shard_options \<Rightarrow> migration_options" where
  "tool_options args settings shard =
     \<lparr> mo_shard = shard, mo_memory_budget_mb = unat (sc_memory_budget_mb settings), mo_dry_run = ar_dry_run args,
       mo_read_write = ar_read_write args \<rparr>"

definition migration_settings :: "migrate_args \<Rightarrow> storage_config \<Rightarrow> u64 \<Rightarrow> index_config \<Rightarrow> ustring option
    \<Rightarrow> tool_error + ustring \<times> migration_options" where
  "migration_settings args settings model_id index cur_dir =
     (case validate_config settings of
        Inl e \<Rightarrow> Inl (BadSettings e)
      | Inr _ \<Rightarrow>
          bindR (case ar_to args of
                   Some dir \<Rightarrow> Inr dir
                 | None \<Rightarrow> (case storage_dir cur_dir settings of None \<Rightarrow> Inl NoWorkingDirectory | Some dir \<Rightarrow> Inr dir)) (\<lambda>dir.
          Inr (dir, tool_options args settings
            ((shard_options_new model_id index)\<lparr>sho_segment_max_bytes := segment_max_bytes settings\<rparr>))))"

text \<open>The exit status: an error and a document left behind are both a failure.\<close>

definition exit_status :: "(migrate_error + migration_report) \<Rightarrow> nat" where
  "exit_status r = (case r of Inl _ \<Rightarrow> 1 | Inr report \<Rightarrow> if mr_failures report = [] then 0 else 1)"

end
