(* ===== verification/Migrate_Facts.thy ===== *)
theory Migrate_Facts
  imports Migrate Server_Facts Shard_Facts
begin

text \<open>
  The migration: the filter rows decide which workspace gets which document, a document comes out
  of the old records as it went in, every document that is named is either migrated or noted,
  and whatever was migrated is in its shard when the shard is counted.
\<close>

section \<open>Other documents stay\<close>

text \<open>A step of the store that loses no document but \<open>d\<close>, whatever its outcome.\<close>

definition doc_ids :: "store \<Rightarrow> u64 set" where
  "doc_ids s = fset (fmdom (docs (st_maps s)))"

definition others_stay :: "u64 \<Rightarrow> sstate \<Rightarrow> sstate \<Rightarrow> bool" where
  "others_stay d x y \<longleftrightarrow> doc_ids (fst x) - {d} \<subseteq> doc_ids (fst y)"

interpretation os: step_relation "others_stay d"
  by unfold_locales (auto simp: others_stay_def)

definition same_maps :: "sstate \<Rightarrow> sstate \<Rightarrow> bool" where
  "same_maps x y \<longleftrightarrow> st_maps (fst y) = st_maps (fst x)"

interpretation sm: step_relation same_maps
  by unfold_locales (simp_all add: same_maps_def)

lemma same_maps_others: "keeps same_maps m \<Longrightarrow> keeps (others_stay d) m"
  by (erule keeps_mono) (auto simp: same_maps_def others_stay_def doc_ids_def)

lemma same_maps_basic:
  "keeps same_maps (on_active m)" "keeps same_maps (on_disk k)" "keeps same_maps (the_store g)"
  by (auto simp: keeps_def on_active_def on_disk_def zoom_def same_maps_def the_store_def getM_def split: prod.splits)

lemma same_maps_on_store: "(\<And>s. st_maps (g s) = st_maps s) \<Longrightarrow> keeps same_maps (on_store g)"
  by (auto simp: keeps_def on_store_def modM_def same_maps_def)

lemma same_maps_append: "keeps same_maps (append_document E doc us)"
  by (rule keeps_mono [OF keeps_append_document]) (auto simp: grows_def same_but_active_def same_maps_def)

lemma same_maps_store_manifest: "keeps same_maps (store_manifest E)"
  unfolding store_manifest_def by (rule keepsI) (auto dest: keepsD [OF same_maps_basic(2)])

lemma same_maps_seal: "keeps same_maps (seal_if_needed E)"
  unfolding seal_if_needed_def seal_active_def Let_def
  by (intro sm.keeps_rules same_maps_basic same_maps_on_store same_maps_store_manifest) simp_all

lemma same_maps_rewind: "keeps same_maps (rewind n q e)"
  unfolding rewind_def
proof (intro sm.keeps_rules same_maps_basic)
  show "keeps same_maps (case r of Inl rewind_err \<Rightarrow> fail (RewindFailed e rewind_err)
     | Inr x \<Rightarrow> seqM (on_store (\<lambda>s. s\<lparr>st_manifest := (st_manifest s)\<lparr>mf_next_seq := q\<rparr>\<rparr>)) (fail e))" for r
    by (cases r) (auto intro!: sm.keeps_rules same_maps_on_store)
qed

lemma others_remove: "keeps (others_stay d) (remove_from_maps d)"
proof (rule keepsI)
  fix x r y assume run: "remove_from_maps d x = (r, y)"
  show "others_stay d x y"
  proof (cases r)
    case (Inl e)
    with run have "y = x"
      by (auto simp: remove_from_maps_def bindM_def the_store_def getM_def seqM_def on_store_def modM_def ret_def fail_def
          split: option.splits prod.splits)
    then show ?thesis by (simp add: os.rel_refl)
  next
    case (Inr rm)
    with run obtain m where "remove_doc d (active_id x) (st_maps (fst x)) = Some (rm, m)"
      "y = (count_tombstones rm ((fst x)\<lparr>st_maps := m\<rparr>), snd x)"
      by (auto simp: remove_from_maps_Inr)
    then have "st_maps (fst y) = drop_doc d (active_id x) (st_maps (fst x))"
      by (simp add: count_tombstones_def drop_doc_def)
    then show ?thesis
      by (auto simp: others_stay_def doc_ids_def drop_doc_eq split: option.splits)
  qed
qed

lemma others_publish: "keeps (others_stay d) (on_store (\<lambda>s. s\<lparr>st_maps := publish ap d (st_maps s)\<rparr>))"
  by (auto simp: keeps_def on_store_def modM_def others_stay_def doc_ids_def publish_def)

lemma others_insert: "keeps (others_stay (dd_document_id doc)) (store_insert E doc)"
  unfolding store_insert_def
proof (intro os.keeps_bind os.keeps_attempt same_maps_others [OF same_maps_basic(3)] os.keeps_liftM
    same_maps_others [OF same_maps_append])
  fix n q us r
  show "keeps (others_stay (dd_document_id doc)) (case r of Inl e \<Rightarrow> rewind n q e
     | Inr ap \<Rightarrow>
         bindM (if ap_replaces ap
                then bindM (remove_from_maps (dd_document_id doc)) (\<lambda>removed.
                       ret \<lparr> rp_existed = True, rp_split_ids = rd_split_ids removed,
                             rp_summary_ids = rd_summary_ids removed \<rparr>)
                else ret \<lparr> rp_existed = False, rp_split_ids = [], rp_summary_ids = [] \<rparr>) (\<lambda>replaced.
         seqM (on_store (\<lambda>s. s\<lparr>st_maps := publish ap (dd_document_id doc) (st_maps s)\<rparr>))
        (seqM (on_active seg_flush)
        (seqM (seal_if_needed E)
        (ret (retain_removed doc us replaced))))))"
    by (cases r) (auto intro!: os.keeps_rules others_remove others_publish same_maps_others [OF same_maps_rewind]
        same_maps_others [OF same_maps_basic(1)] same_maps_others [OF same_maps_seal])
qed

lemma inserted_present:
  assumes "store_insert E doc x = (Inr rp, z)"
  shows "dd_document_id doc \<in> doc_ids (fst z)"
proof -
  obtain us ap y0 y1 y2 replaced where
    fl: "on_active seg_flush ((fst y1)\<lparr>st_maps := publish ap (dd_document_id doc) (st_maps (fst y1))\<rparr>, snd y1) = (Inr (), y2)"
    and sl: "seal_if_needed E y2 = (Inr (), z)"
    by (rule insert_run [OF assms]) blast
  have "st_maps (fst z) = publish ap (dd_document_id doc) (st_maps (fst y1))"
    using keepsD [OF same_maps_basic(1) fl] keepsD [OF same_maps_seal sl] by (simp add: same_maps_def)
  then show ?thesis by (simp add: doc_ids_def publish_def)
qed

section \<open>The shard\<close>

definition shard_others_stay :: "u64 \<Rightarrow> 'x shard_inner \<times> world \<Rightarrow> 'x shard_inner \<times> world \<Rightarrow> bool" where
  "shard_others_stay d x y \<longleftrightarrow> doc_ids (in_store (fst x)) - {d} \<subseteq> doc_ids (in_store (fst y))"

interpretation ss: step_relation "shard_others_stay d"
  by unfold_locales (auto simp: shard_others_stay_def)

definition same_log :: "'x shard_inner \<times> world \<Rightarrow> 'x shard_inner \<times> world \<Rightarrow> bool" where
  "same_log x y \<longleftrightarrow> in_store (fst y) = in_store (fst x)"

interpretation slog: step_relation same_log
  by unfold_locales (simp_all add: same_log_def)

lemma same_log_in_index: "keeps same_log (in_index kind m)"
  by (auto simp: keeps_def in_index_def zoom_def same_log_def split: prod.splits)

lemma same_log_promote: "keeps same_log (promote S)"
  unfolding promote_def promote_index_def by (intro slog.keeps_rules same_log_in_index)

lemma same_log_remove_keys: "keeps same_log (remove_keys S kind ids)"
  unfolding remove_keys_def by (intro slog.keeps_rules same_log_in_index)

lemma same_log_upsert_split: "keeps same_log (upsert_split S s)"
  unfolding upsert_split_def by (cases "sd_embedding s") (auto intro: slog.keeps_rules same_log_in_index)

lemma same_log_upsert_summaries: "keeps same_log (upsert_summaries S us seen)"
proof (induction us arbitrary: seen)
  case (Cons u us)
  then show ?case
    by (cases "ud_embedding u") (auto intro: slog.keeps_rules same_log_in_index)
qed (simp add: slog.keeps_ret)

lemma same_log_index_part: "keeps same_log (index_part S doc rp)"
  unfolding index_part_def
  by (intro slog.keeps_rules same_log_in_index same_log_remove_keys same_log_upsert_split same_log_upsert_summaries)

lemma same_log_others: "keeps same_log m \<Longrightarrow> keeps (shard_others_stay d) m"
  by (erule keeps_mono) (auto simp: same_log_def shard_others_stay_def)

lemma shard_insert_parts: "shard_insert S doc = seqM (promote S) (bindM (in_log (store_insert (se_env S) doc)) (index_part S doc))"
  unfolding shard_insert_def index_part_def ..

lemma shard_insert_others: "keeps (shard_others_stay (dd_document_id doc)) (shard_insert S doc)"
proof -
  have l: "keeps (shard_others_stay (dd_document_id doc)) (in_log (store_insert (se_env S) doc))"
  proof (rule keepsI)
    fix x r y assume "in_log (store_insert (se_env S) doc) x = (r, y)"
    then obtain s w where "store_insert (se_env S) doc (in_store (fst x), snd x) = (r, (s, w))" "y = ((fst x)\<lparr>in_store := s\<rparr>, w)"
      by (cases x; cases y) (auto simp: in_log_run)
    with keepsD [OF others_insert] show "shard_others_stay (dd_document_id doc) x y"
      by (fastforce simp: others_stay_def shard_others_stay_def)
  qed
  show ?thesis
    unfolding shard_insert_parts
    by (intro ss.keeps_rules l same_log_others [OF same_log_promote] same_log_others [OF same_log_index_part])
qed

lemma shard_inserted_present:
  assumes "shard_insert S doc x = (Inr rp, y)"
  shows "dd_document_id doc \<in> doc_ids (in_store (fst y))"
proof -
  from assms obtain x1 x2 where l: "in_log (store_insert (se_env S) doc) x1 = (Inr rp, x2)"
    and i: "index_part S doc rp x2 = (Inr rp, y)"
    unfolding shard_insert_parts by (auto simp: index_part_def op_inv)
  from l obtain s w where "store_insert (se_env S) doc (in_store (fst x1), snd x1) = (Inr rp, (s, w))" "x2 = ((fst x1)\<lparr>in_store := s\<rparr>, w)"
    by (cases x1; cases x2) (auto simp: in_log_run)
  with inserted_present have "dd_document_id doc \<in> doc_ids (in_store (fst x2))" by fastforce
  with keepsD [OF same_log_index_part i] show ?thesis by (simp add: same_log_def)
qed


section \<open>Who gets what\<close>

definition names :: "old_db \<Rightarrow> (bytes \<times> bytes) option list \<Rightarrow> uuid \<Rightarrow> u64 \<Rightarrow> bool" where
  "names db items ws d \<longleftrightarrow>
     (\<exists>k v info. Some (k, v) \<in> set items \<and> db_filter_info db v = Some info \<and> ef_user_uuid info = ws \<and> ef_doc_id info = d)"

lemma docs_in_add_row: "d |\<in>| docs_in (add_row info m) ws \<longleftrightarrow>
    (ef_user_uuid info = ws \<and> ef_doc_id info = d) \<or> d |\<in>| docs_in m ws"
  by (auto simp: add_row_def docs_in_def split: option.splits)

lemma scan_rows_docs:
  "scan_rows db items m = Inr m' \<Longrightarrow> d |\<in>| docs_in m' ws \<longleftrightarrow> d |\<in>| docs_in m ws \<or> names db items ws d"
proof (induction db items m rule: scan_rows.induct)
  case (3 db k v items m)
  then obtain info where i: "db_filter_info db v = Some info" "scan_rows db items (add_row info m) = Inr m'"
    by (auto split: option.splits)
  from 3 i have "d |\<in>| docs_in m' ws \<longleftrightarrow> d |\<in>| docs_in (add_row info m) ws \<or> names db items ws d" by blast
  with i(1) show ?case by (auto simp: docs_in_add_row names_def)
qed (auto simp: names_def)

lemma scan_rows_dom:
  "scan_rows db items m = Inr m' \<Longrightarrow> \<forall>ws \<in> fset (fmdom m). docs_in m ws \<noteq> {||} \<Longrightarrow> \<forall>ws \<in> fset (fmdom m'). docs_in m' ws \<noteq> {||}"
proof (induction db items m rule: scan_rows.induct)
  case (3 db k v items m)
  then obtain info where i: "db_filter_info db v = Some info" "scan_rows db items (add_row info m) = Inr m'"
    by (auto split: option.splits)
  have "\<forall>ws \<in> fset (fmdom (add_row info m)). docs_in (add_row info m) ws \<noteq> {||}"
    using 3(3) by (auto simp: add_row_def docs_in_def split: if_splits)
  with 3(1) i show ?case by blast
qed simp_all

lemma scan_workspaces_docs:
  assumes "scan_workspaces db = Inr m"
  shows "d |\<in>| docs_in m ws \<longleftrightarrow> names db (db_iter db CF_FILTER_INFO) ws d"
    "ws |\<in>| fmdom m \<longleftrightarrow> docs_in m ws \<noteq> {||}"
proof -
  have s: "scan_rows db (db_iter db CF_FILTER_INFO) fmempty = Inr m"
    using assms by (simp add: scan_workspaces_def bindR_Inr)
  show "d |\<in>| docs_in m ws \<longleftrightarrow> names db (db_iter db CF_FILTER_INFO) ws d"
    using scan_rows_docs [OF s] by (simp add: docs_in_def)
  show "ws |\<in>| fmdom m \<longleftrightarrow> docs_in m ws \<noteq> {||}"
    using scan_rows_dom [OF s] by (auto simp: docs_in_def fmlookup_dom_iff split: option.splits)
qed

lemma set_named: "set (named_documents m) = (\<Union>ws \<in> fset (fmdom m). fset (docs_in m ws))"
  by (simp add: named_documents_def)

text \<open>After the walk, a document is in the second set when it was seen before, or occurs twice.\<close>

lemma fold_note_seen: "x |\<in>| fst (fold note_shared ds ST) \<longleftrightarrow> x |\<in>| fst ST \<or> x \<in> set ds"
  by (induction ds arbitrary: ST) (auto simp: note_shared_def split: prod.split if_splits)

lemma fold_note_shared:
  "x |\<in>| snd (fold note_shared ds ST) \<longleftrightarrow> x |\<in>| snd ST \<or> (x |\<in>| fst ST \<and> x \<in> set ds) \<or> 1 < count_list ds x"
proof (induction ds arbitrary: ST)
  case (Cons d ds)
  obtain S T where ST: "ST = (S, T)" by fastforce
  have n: "note_shared d (S, T) = (finsert d S, if d |\<in>| S then finsert d T else T)"
    by (auto simp: note_shared_def)
  have c: "0 < count_list ds d \<longleftrightarrow> d \<in> set ds" using count_list_0_iff [of ds d] by (metis neq0_conv)
  show ?case unfolding ST
    using Cons.IH [of "note_shared d (S, T)"] c by (cases "x = d") (auto simp: n)
qed simp

lemma count_distinct: "distinct xs \<Longrightarrow> count_list xs d = (if d \<in> set xs then 1 else 0)"
  by (induction xs) auto

lemma distinct_fset_list [simp]: "distinct (sorted_list_of_fset A)"
  by (simp add: sorted_list_of_fset.rep_eq)

lemma count_named: "count_list (named_documents m) d = card {ws \<in> fset (fmdom m). d |\<in>| docs_in m ws}"
proof -
  have one: "count_list (sorted_list_of_fset A) d = (if d |\<in>| A then 1 else 0)" for A :: "u64 fset"
    by (simp add: count_distinct)
  have "count_list (concat (map (\<lambda>ws. sorted_list_of_fset (docs_in m ws)) wss)) d = length (filter (\<lambda>ws. d |\<in>| docs_in m ws) wss)" for wss
    by (induction wss) (simp_all add: one)
  moreover have "length (filter (\<lambda>ws. d |\<in>| docs_in m ws) (sorted_list_of_fset (fmdom m)))
      = card {ws \<in> fset (fmdom m). d |\<in>| docs_in m ws}"
    by (simp flip: distinct_card add: distinct_filter Int_def conj_commute)
  ultimately show ?thesis by (simp add: named_documents_def)
qed


lemma shared_documents_eq:
  "shared_documents m = card {d. \<exists>ws ws'. ws \<noteq> ws' \<and> d |\<in>| docs_in m ws \<and> d |\<in>| docs_in m ws'}"
proof -
  have dom: "d |\<in>| docs_in m ws \<Longrightarrow> ws |\<in>| fmdom m" for d ws
    by (auto simp: docs_in_def fmlookup_dom_iff split: option.splits)
  have two: "1 < count_list (named_documents m) d \<longleftrightarrow> (\<exists>ws ws'. ws \<noteq> ws' \<and> d |\<in>| docs_in m ws \<and> d |\<in>| docs_in m ws')" for d
  proof -
    let ?W = "{ws \<in> fset (fmdom m). d |\<in>| docs_in m ws}"
    have "1 < card ?W \<longleftrightarrow> (\<exists>x \<in> ?W. \<exists>y \<in> ?W. x \<noteq> y)"
      using card_le_Suc0_iff_eq [of ?W] by (auto simp: not_le [symmetric])
    then show ?thesis using dom unfolding count_named by auto
  qed
  have "x |\<in>| snd (fold note_shared (named_documents m) ({||}, {||})) \<longleftrightarrow> 1 < count_list (named_documents m) x" for x
    by (simp add: fold_note_shared)
  then have "fset (snd (fold note_shared (named_documents m) ({||}, {||})))
      = {d. \<exists>ws ws'. ws \<noteq> ws' \<and> d |\<in>| docs_in m ws \<and> d |\<in>| docs_in m ws'}"
    unfolding two by blast
  then show ?thesis by (simp add: shared_documents_def fcard.rep_eq)
qed

section \<open>A document comes out as it went in\<close>

definition old_holds :: "(bytes \<Rightarrow> 'a option) \<Rightarrow> old_db \<Rightarrow> column_family \<Rightarrow> u64 \<Rightarrow> 'a \<Rightarrow> bool" where
  "old_holds unpack db cf i v \<longleftrightarrow> db_family db cf \<and> (\<exists>bs. db_get db cf (key i) = Some (Some bs) \<and> unpack bs = Some v)"

lemma old_get_holds: "old_holds unpack db cf i v \<Longrightarrow> old_get unpack db cf i = Inr (Some v)"
  by (auto simp: old_holds_def old_get_def cf_handle_def)

text \<open>What the old layer kept of a summary, a split and a document that were inserted.\<close>

definition holds_summary :: "old_db \<Rightarrow> summary_dto \<Rightarrow> bool" where
  "holds_summary db u \<longleftrightarrow>
     old_holds (db_summary db) db CF_SUMMARIES (ud_summary_id u) (summary_to_model u)
     \<and> (\<exists>e. ud_embedding u = Some e
          \<and> old_holds (db_embedding db) db CF_EMBEDDINGS (ud_summary_id u) (embedding_to_model EmbedSummary e))
     \<and> ud_query_distance u = None \<and> ud_rank u = None"

definition holds_split :: "old_db \<Rightarrow> split_dto \<Rightarrow> bool" where
  "holds_split db s \<longleftrightarrow>
     old_holds (db_split db) db CF_SPLITS (sd_split_id s) (split_to_model s)
     \<and> (\<exists>e. sd_embedding s = Some e
          \<and> old_holds (db_embedding db) db CF_EMBEDDINGS (sd_split_id s) (embedding_to_model EmbedSplit e))
     \<and> sd_query_distance s = None \<and> sd_rank s = None \<and> (\<forall>u \<in> set (sd_summaries s). holds_summary db u)"

definition holds_document :: "old_db \<Rightarrow> document_dto \<Rightarrow> bool" where
  "holds_document db doc \<longleftrightarrow>
     old_holds (db_document db) db CF_DOCUMENTS (dd_document_id doc) (document_to_model doc)
     \<and> (\<forall>s \<in> set (dd_splits doc). holds_split db s) \<and> (\<forall>u \<in> set (opt_list (dd_summaries doc)). holds_summary db u)"

lemma read_embedding_holds:
  "old_holds (db_embedding db) db CF_EMBEDDINGS i (embedding_to_model t e) \<Longrightarrow> read_embedding db what i = Inr e"
  by (simp add: read_embedding_def old_get_holds embedding_model_roundtrip)

lemma read_old_summary_holds: "holds_summary db u \<Longrightarrow> read_old_summary db (ud_summary_id u) = Inr u"
  using summary_model_roundtrip [of u]
  by (auto simp: holds_summary_def read_old_summary_def old_get_holds read_embedding_holds)

lemma mapR_all: "(\<And>x. x \<in> set xs \<Longrightarrow> f (g x) = Inr x) \<Longrightarrow> mapR f (map g xs) = Inr xs"
  by (induction xs) simp_all

lemma read_split_holds:
  assumes "holds_split db s"
  shows "read_split_of db (sd_split_id s) = Inr s"
proof -
  from assms obtain e where s: "old_holds (db_split db) db CF_SPLITS (sd_split_id s) (split_to_model s)"
    "sd_embedding s = Some e" "old_holds (db_embedding db) db CF_EMBEDDINGS (sd_split_id s) (embedding_to_model EmbedSplit e)"
    "sd_query_distance s = None" "sd_rank s = None" "\<forall>u \<in> set (sd_summaries s). holds_summary db u"
    by (auto simp: holds_split_def)
  have "mapR (read_old_summary db) (map ud_summary_id (sd_summaries s)) = Inr (sd_summaries s)"
    using s(6) by (intro mapR_all) (simp add: read_old_summary_holds)
  moreover have "unwrap_or (smod_summary_ids (split_to_model s)) [] = map ud_summary_id (sd_summaries s)"
    by (simp add: split_to_model_def unwrap_or_def)
  ultimately show ?thesis
    using s split_model_roundtrip [of s]
    by (simp add: read_split_of_def old_get_holds read_embedding_holds)
qed

text \<open>An empty list of summaries of the document itself comes back as none.\<close>

definition without_empty_summaries :: "document_dto \<Rightarrow> document_dto" where
  "without_empty_summaries doc = doc\<lparr>dd_summaries := (if dd_summaries doc = Some [] then None else dd_summaries doc)\<rparr>"

lemma read_document_holds:
  assumes "holds_document db doc"
  shows "read_document db (dd_document_id doc) = Inr (Some (without_empty_summaries doc))"
proof -
  have d: "old_get (db_document db) db CF_DOCUMENTS (dd_document_id doc) = Inr (Some (document_to_model doc))"
    using assms by (simp add: holds_document_def old_get_holds)
  have s: "mapR (read_split_of db) (map sd_split_id (dd_splits doc)) = Inr (dd_splits doc)"
    using assms by (intro mapR_all) (simp add: holds_document_def read_split_holds)
  have u: "dd_summaries doc = Some us \<Longrightarrow> mapR (read_old_summary db) (map ud_summary_id us) = Inr us" for us
    using assms by (intro mapR_all) (simp add: holds_document_def opt_list_def read_old_summary_holds)
  show ?thesis
    using d s u
    by (cases "dd_summaries doc")
      (auto simp: read_document_def document_to_model_def document_to_dto_def without_empty_summaries_def)
qed

section \<open>Every document is accounted for\<close>

text \<open>
  What becomes of a document: it was read, and on a real run inserted, or it was refused for the
  reason that reading it gave, or by its shard.
\<close>

type_synonym fate = "u64 \<times> (refusal + document_dto)"

definition fate_ok :: "old_db \<Rightarrow> bool \<Rightarrow> fate \<Rightarrow> bool" where
  "fate_ok db dry = (\<lambda>(d, out). case out of
       Inr dto \<Rightarrow> read_document db d = Inr (Some dto)
     | Inl NotInDocuments \<Rightarrow> read_document db d = Inr None
     | Inl (Unreadable e) \<Rightarrow> read_document db d = Inl e
     | Inl (NotInserted e) \<Rightarrow> \<not> dry \<and> (\<exists>dto. read_document db d = Inr (Some dto)))"

definition refused_of :: "uuid \<Rightarrow> fate list \<Rightarrow> (uuid \<times> u64 \<times> refusal) list" where
  "refused_of ws fs = concat (map (\<lambda>(d, out). case out of Inl e \<Rightarrow> [(ws, d, e)] | Inr dto \<Rightarrow> []) fs)"

definition read_of :: "fate list \<Rightarrow> document_dto list" where
  "read_of fs = concat (map (\<lambda>(d, out). case out of Inl e \<Rightarrow> [] | Inr dto \<Rightarrow> [dto]) fs)"

lemma fate_simps [simp]:
  "refused_of ws [] = []" "refused_of ws ((d, Inl e) # fs) = (ws, d, e) # refused_of ws fs"
  "refused_of ws ((d, Inr dto) # fs) = refused_of ws fs"
  "read_of [] = []" "read_of ((d, Inl e) # fs) = read_of fs" "read_of ((d, Inr dto) # fs) = dto # read_of fs"
  by (simp_all add: refused_of_def read_of_def)

definition count_all :: "document_dto list \<Rightarrow> counts" where
  "count_all dtos = \<lparr> cn_docs = length dtos, cn_splits = sum_list (map (length \<circ> dd_splits) dtos),
     cn_summaries = sum_list (map distinct_summaries_of dtos) \<rparr>"

lemma count_all_simps [simp]:
  "count_all [] = no_counts" "count_all (dto # dtos) = add_counts (counts_of dto) (count_all dtos)"
  "count_all (xs @ ys) = add_counts (count_all xs) (count_all ys)"
  by (simp_all add: count_all_def no_counts_def add_counts_def counts_of_def)

lemma add_counts_monoid [simp]:
  "add_counts no_counts a = a" "add_counts a no_counts = a" "add_counts (add_counts a b) c = add_counts a (add_counts b c)"
  by (simp_all add: no_counts_def add_counts_def)

lemma migrate_document_fate:
  assumes "migrate_document P db shard d target = (r, t)" "dry \<longrightarrow> shard = None"
  shows "fate_ok db dry (d, r)" "target = None \<longrightarrow> t = None"
  using assms
  by (auto simp: migrate_document_def insert_into_def fate_ok_def split: sum.splits option.splits prod.splits)

lemma migrate_documents_fates:
  assumes "dry \<longrightarrow> shard = None"
  shows "migrate_documents P db ws shard ds (read, failures) target = (Inr (read', failures'), t) \<Longrightarrow>
     \<exists>fs. map fst fs = ds \<and> list_all (fate_ok db dry) fs \<and> failures' = failures @ refused_of ws fs
       \<and> read' = add_counts read (count_all (read_of fs)) \<and> (target = None \<longrightarrow> t = None)"
proof (induction ds arbitrary: read failures target)
  case (Cons d ds)
  obtain r u where m: "migrate_document P db shard d target = (r, u)" by fastforce
  note F = migrate_document_fate [OF m assms]
  show ?case
  proof (cases r)
    case (Inl e)
    with Cons.prems m have "migrate_documents P db ws shard ds (read, failures @ [(ws, d, e)]) u = (Inr (read', failures'), t)"
      by (auto split: if_splits)
    from Cons.IH [OF this] obtain fs where "map fst fs = ds" "list_all (fate_ok db dry) fs"
      "failures' = (failures @ [(ws, d, e)]) @ refused_of ws fs" "read' = add_counts read (count_all (read_of fs))"
      "u = None \<longrightarrow> t = None" by blast
    with F Inl show ?thesis by (intro exI [of _ "(d, Inl e) # fs"]) simp
  next
    case (Inr dto)
    with Cons.prems m have "migrate_documents P db ws shard ds (add_counts read (counts_of dto), failures) u = (Inr (read', failures'), t)"
      by simp
    from Cons.IH [OF this] obtain fs where "map fst fs = ds" "list_all (fate_ok db dry) fs"
      "failures' = failures @ refused_of ws fs" "read' = add_counts (add_counts read (counts_of dto)) (count_all (read_of fs))"
      "u = None \<longrightarrow> t = None" by blast
    with F Inr show ?thesis by (intro exI [of _ "(d, Inr dto) # fs"]) simp
  qed
qed simp

text \<open>The documents of one workspace, each with what became of it.\<close>

definition fates_of :: "old_db \<Rightarrow> bool \<Rightarrow> workspaces \<Rightarrow> uuid \<times> fate list \<Rightarrow> bool" where
  "fates_of db dry m = (\<lambda>(ws, fs). map fst fs = sorted_list_of_fset (docs_in m ws) \<and> list_all (fate_ok db dry) fs)"

lemma add_workspace_fields:
  "mr_failures (add_workspace ws (read, failures) written report) = failures"
  "mr_totals (add_workspace ws (read, failures) written report) = add_counts (mr_totals report) read"
  "map (\<lambda>wr. (wr_workspace wr, wr_read wr)) (mr_workspaces (add_workspace ws (read, failures) written report))
     = map (\<lambda>wr. (wr_workspace wr, wr_read wr)) (mr_workspaces report) @ [(ws, read)]"
  "mr_shared_documents (add_workspace ws (read, failures) written report) = mr_shared_documents report"
  by (simp_all add: add_workspace_def)

lemma migrate_workspaces_fates:
  "migrate_workspaces P db m wss report target = (Inr r, t) \<Longrightarrow> dry \<longrightarrow> target = None \<Longrightarrow>
     \<exists>fates. map fst fates = wss \<and> list_all (fates_of db dry m) fates
       \<and> mr_failures r = mr_failures report @ concat (map (\<lambda>(ws, fs). refused_of ws fs) fates)
       \<and> mr_totals r = add_counts (mr_totals report) (count_all (concat (map (\<lambda>(ws, fs). read_of fs) fates)))
       \<and> map (\<lambda>wr. (wr_workspace wr, wr_read wr)) (mr_workspaces r)
           = map (\<lambda>wr. (wr_workspace wr, wr_read wr)) (mr_workspaces report) @ map (\<lambda>(ws, fs). (ws, count_all (read_of fs))) fates
       \<and> mr_shared_documents r = mr_shared_documents report"
proof (induction wss arbitrary: report target)
  case (Cons ws wss)
  from Cons.prems(1) obtain shard u read failures v where
    o: "open_shard_of P ws target = (Inr shard, u)"
    and d: "migrate_documents P db ws shard (sorted_list_of_fset (docs_in m ws)) (no_counts, mr_failures report) u = (Inr (read, failures), v)"
    and rest: "migrate_workspaces P db m wss (add_workspace ws (read, failures) (written_counts P shard v) report) (release shard v) = (Inr r, t)"
    by (auto split: sum.splits prod.splits)
  have n: "dry \<longrightarrow> shard = None \<and> u = None" using o Cons.prems(2) by (auto simp: open_shard_of_def)
  then have "dry \<longrightarrow> shard = None" by blast
  from migrate_documents_fates [OF this d] obtain fs where fs: "map fst fs = sorted_list_of_fset (docs_in m ws)"
    "list_all (fate_ok db dry) fs" "failures = mr_failures report @ refused_of ws fs" "read = count_all (read_of fs)"
    "u = None \<longrightarrow> v = None" by auto
  have "dry \<longrightarrow> release shard v = None" using n fs(5) by (simp add: release_def)
  from Cons.IH [OF rest this, unfolded add_workspace_fields] obtain fates where F: "map fst fates = wss" "list_all (fates_of db dry m) fates"
    "mr_failures r = failures @ concat (map (\<lambda>(ws, fs). refused_of ws fs) fates)"
    "mr_totals r = add_counts (add_counts (mr_totals report) read) (count_all (concat (map (\<lambda>(ws, fs). read_of fs) fates)))"
    "map (\<lambda>wr. (wr_workspace wr, wr_read wr)) (mr_workspaces r) =
       (map (\<lambda>wr. (wr_workspace wr, wr_read wr)) (mr_workspaces report) @ [(ws, read)]) @ map (\<lambda>(ws, fs). (ws, count_all (read_of fs))) fates"
    "mr_shared_documents r = mr_shared_documents report" by blast
  with fs show ?case by (intro exI [of _ "(ws, fs) # fates"]) (simp add: fates_of_def)
qed simp

section \<open>What was migrated is in its shard\<close>

text \<open>The old layer files a document under its own id.\<close>

definition keyed :: "old_db \<Rightarrow> bool" where
  "keyed db \<longleftrightarrow> (\<forall>d bs doc. db_get db CF_DOCUMENTS (key d) = Some (Some bs) \<longrightarrow> db_document db bs = Some doc
     \<longrightarrow> dmod_document_id doc = d)"

lemma read_document_id:
  assumes "keyed db" "read_document db d = Inr (Some dto)"
  shows "dd_document_id dto = d"
proof -
  from assms(2) obtain r where r: "old_get (db_document db) db CF_DOCUMENTS d = Inr r"
    by (auto simp: read_document_def bindR_Inr)
  with assms(2) obtain doc where "r = Some doc" by (cases r) (auto simp: read_document_def)
  with assms(2) r obtain ss us where doc: "old_get (db_document db) db CF_DOCUMENTS d = Inr (Some doc)"
    and dto: "dto = document_to_dto doc ss us"
    by (auto simp: read_document_def bindR_Inr)
  from doc obtain bs where "db_get db CF_DOCUMENTS (key d) = Some (Some bs)" "db_document db bs = Some doc"
    by (auto simp: old_get_def bindR_Inr split: option.splits)
  with assms(1) dto show ?thesis unfolding keyed_def by (simp add: document_to_dto_def)
qed

definition shard_docs :: "'x pool \<Rightarrow> nat \<Rightarrow> u64 set" where
  "shard_docs p a = (case allocation_of p a of None \<Rightarrow> {} | Some l \<Rightarrow> doc_ids (in_store (sh_inner (lv_shard l))))"

lemma on_shard_docs:
  assumes "on_shard P a (shard_insert S doc) p = (r, q)"
  shows "shard_docs p a - {dd_document_id doc} \<subseteq> shard_docs q a" "r = Inr x \<Longrightarrow> dd_document_id doc \<in> shard_docs q a"
proof -
  have "(shard_docs p a - {dd_document_id doc} \<subseteq> shard_docs q a) \<and> (r = Inr x \<longrightarrow> dd_document_id doc \<in> shard_docs q a)"
  proof (cases "allocation_of p a")
    case None
    with assms show ?thesis by (auto simp: on_shard_def)
  next
    case (Some l)
    let ?y = "(sh_inner (lv_shard l), dir_world P p (lv_workspace l))"
    obtain n w where run: "shard_insert S doc ?y = (r, (n, w))" and q: "allocation_of q a = Some (l\<lparr>lv_shard := (lv_shard l)\<lparr>sh_inner := n\<rparr>\<rparr>)"
      using assms Some by (auto simp: on_shard_def allocation_of_def split: prod.splits)
    have "shard_docs q a = doc_ids (in_store n)" "shard_docs p a = doc_ids (in_store (sh_inner (lv_shard l)))"
      using q Some by (simp_all add: shard_docs_def)
    with keepsD [OF shard_insert_others run] shard_inserted_present [of S doc ?y x "(n, w)"] run show ?thesis
      by (auto simp: shard_others_stay_def)
  qed
  then show "shard_docs p a - {dd_document_id doc} \<subseteq> shard_docs q a" "r = Inr x \<Longrightarrow> dd_document_id doc \<in> shard_docs q a"
    by blast+
qed

lemma migrate_document_docs:
  assumes "keyed db" "migrate_document P db (Some a) d (Some p) = (r, t)"
  shows "\<exists>q. t = Some q \<and> settled p q \<and> shard_docs p a - {d} \<subseteq> shard_docs q a \<and> (\<forall>dto. r = Inr dto \<longrightarrow> d \<in> shard_docs q a)"
proof (cases "\<exists>dto. read_document db d = Inr (Some dto)")
  case True
  then obtain dto where dto: "read_document db d = Inr (Some dto)" by blast
  obtain s q where q: "on_shard P a (shard_insert (pe_shard P) dto) p = (s, q)" by fastforce
  note D = on_shard_docs [OF q, unfolded read_document_id [OF assms(1) dto]]
  from assms(2) dto q have "t = Some q" "\<forall>x. r = Inr x \<longrightarrow> (\<exists>y. s = Inr y)"
    by (auto simp: migrate_document_def insert_into_def split: sum.splits)
  with D keepsD [OF settled_on_shard q] show ?thesis by blast
next
  case False
  with assms(2) have "t = Some p" "\<forall>x. r \<noteq> Inr x"
    by (auto simp: migrate_document_def split: sum.splits option.splits)
  then show ?thesis by auto
qed

lemma migrate_documents_docs:
  assumes "keyed db"
  shows "migrate_documents P db ws (Some a) ds (read, failures) (Some p) = (Inr (read', failures'), t) \<Longrightarrow> distinct ds \<Longrightarrow>
     \<exists>q R. t = Some q \<and> settled p q \<and> shard_docs p a - set ds \<subseteq> shard_docs q a \<and> R \<subseteq> set ds \<and> R \<subseteq> shard_docs q a
       \<and> cn_docs read' = cn_docs read + card R"
proof (induction ds arbitrary: read failures p)
  case (Cons d ds)
  obtain r u where m: "migrate_document P db (Some a) d (Some p) = (r, u)" by fastforce
  from migrate_document_docs [OF assms m] obtain p' where
    u: "u = Some p'" "settled p p'" "shard_docs p a - {d} \<subseteq> shard_docs p' a" "\<forall>dto. r = Inr dto \<longrightarrow> d \<in> shard_docs p' a" by blast
  have d: "distinct ds" "d \<notin> set ds" using Cons.prems(2) by simp_all
  show ?case
  proof (cases r)
    case (Inl e)
    with Cons.prems(1) m u(1) have "migrate_documents P db ws (Some a) ds (read, failures @ [(ws, d, e)]) (Some p') = (Inr (read', failures'), t)"
      by (auto split: if_splits)
    from Cons.IH [OF this d(1)] obtain q R where
      q: "t = Some q" "settled p' q" "shard_docs p' a - set ds \<subseteq> shard_docs q a" "R \<subseteq> set ds" "R \<subseteq> shard_docs q a"
      "cn_docs read' = cn_docs read + card R" by blast
    moreover have "settled p q" by (rule settled_trans [OF u(2) q(2)])
    ultimately show ?thesis using u(3) by (intro exI [of _ q] exI [of _ R]) auto
  next
    case (Inr dto)
    with Cons.prems(1) m u(1) have "migrate_documents P db ws (Some a) ds (add_counts read (counts_of dto), failures) (Some p') = (Inr (read', failures'), t)"
      by simp
    from Cons.IH [OF this d(1)] obtain q R where
      q: "t = Some q" "settled p' q" "shard_docs p' a - set ds \<subseteq> shard_docs q a" "R \<subseteq> set ds" "R \<subseteq> shard_docs q a"
      "cn_docs read' = cn_docs (add_counts read (counts_of dto)) + card R" by blast
    have "d \<in> shard_docs q a" using u(4) Inr q(3) d(2) by blast
    moreover have "card (insert d R) = Suc (card R)" using d(2) q(4) by (metis card_insert_disjoint finite_set finite_subset subsetD)
    ultimately show ?thesis
      using q u(3) settled_trans [OF u(2) q(2)]
      by (intro exI [of _ q] exI [of _ "insert d R"]) (auto simp: add_counts_def counts_of_def)
  qed
qed auto

lemma written_covers:
  assumes "keyed db" "distinct ds"
    and "migrate_documents P db ws (Some a) ds (no_counts, failures) (Some p) = (Inr (read', failures'), t)"
    and "written_counts P (Some a) t = Some w"
  shows "cn_docs read' \<le> cn_docs w"
proof -
  from migrate_documents_docs [OF assms(1,3,2)] obtain q R where
    q: "t = Some q" "R \<subseteq> shard_docs q a" "cn_docs read' = card R" by (auto simp: no_counts_def)
  from assms(4) q(1) obtain l where l: "allocation_of q a = Some l" "cn_docs w = doc_count (in_store (sh_inner (lv_shard l)))"
    by (auto simp: written_counts_def stats_of_def Let_def)
  then have "shard_docs q a = doc_ids (in_store (sh_inner (lv_shard l)))" by (simp add: shard_docs_def)
  then have "card (shard_docs q a) = cn_docs w" "finite (shard_docs q a)"
    by (simp_all add: doc_ids_def l(2) doc_count_def fcard.rep_eq)
  with card_mono [of "shard_docs q a" R] q show ?thesis by simp
qed

lemma migrate_workspaces_written:
  assumes "keyed db"
  shows "migrate_workspaces P db m wss report target = (Inr r, t) \<Longrightarrow>
     \<forall>wr \<in> set (mr_workspaces report). \<forall>w. wr_written wr = Some w \<longrightarrow> cn_docs (wr_read wr) \<le> cn_docs w \<Longrightarrow>
     \<forall>wr \<in> set (mr_workspaces r). \<forall>w. wr_written wr = Some w \<longrightarrow> cn_docs (wr_read wr) \<le> cn_docs w"
proof (induction wss arbitrary: report target)
  case (Cons ws wss)
  from Cons.prems(1) obtain shard u read failures v where
    o: "open_shard_of P ws target = (Inr shard, u)"
    and d: "migrate_documents P db ws shard (sorted_list_of_fset (docs_in m ws)) (no_counts, mr_failures report) u = (Inr (read, failures), v)"
    and rest: "migrate_workspaces P db m wss (add_workspace ws (read, failures) (written_counts P shard v) report) (release shard v) = (Inr r, t)"
    by (auto split: sum.splits prod.splits)
  have "cn_docs read \<le> cn_docs w" if w: "written_counts P shard v = Some w" for w
  proof (cases target)
    case None
    with o w show ?thesis by (simp add: open_shard_of_def written_counts_def)
  next
    case (Some p)
    with o obtain a q where "shard = Some a" "u = Some q"
      by (auto simp: open_shard_of_def split: sum.splits prod.splits)
    with written_covers [OF assms distinct_fset_list] d w show ?thesis by blast
  qed
  with Cons.prems(2) have "\<forall>wr \<in> set (mr_workspaces (add_workspace ws (read, failures) (written_counts P shard v) report)).
      \<forall>w. wr_written wr = Some w \<longrightarrow> cn_docs (wr_read wr) \<le> cn_docs w"
    by (auto simp: add_workspace_def)
  from Cons.IH [OF rest this] show ?case .
qed simp

section \<open>Nothing stays referenced\<close>

lemma migrate_workspaces_settled:
  assumes "keyed db"
  shows "migrate_workspaces P db m wss report (Some p) = (Inr r, t) \<Longrightarrow> \<exists>q. t = Some q \<and> settled p q"
proof (induction wss arbitrary: report p)
  case (Cons ws wss)
  from Cons.prems obtain a q read failures v where
    o: "pool_get P ws p = (Inr a, q)"
    and d: "migrate_documents P db ws (Some a) (sorted_list_of_fset (docs_in m ws)) (no_counts, mr_failures report) (Some q) = (Inr (read, failures), v)"
    and rest: "migrate_workspaces P db m wss (add_workspace ws (read, failures) (written_counts P (Some a) v) report) (release (Some a) v) = (Inr r, t)"
    by (auto simp: open_shard_of_def split: sum.splits prod.splits)
  from migrate_documents_docs [OF assms d distinct_fset_list] obtain u where u: "v = Some u" "settled q u" by blast
  have "settled p (drop_arc a u)"
    by (rule taken_drop [OF taken_settled [OF taken_get(1) [OF o] u(2)]])
  moreover from rest u(1) Cons.IH obtain z where "t = Some z" "settled (drop_arc a u) z"
    by (auto simp: release_def)
  ultimately show ?case by (blast intro: settled_trans)
qed auto

lemma migrate_run:
  assumes "migrate P src dirs opts = (Inr r, t)"
  obtains db m report target r' u where
    "open_source src (mo_read_write opts) = Inr db" "scan_workspaces db = Inr m" "first_report db m = Inr report"
    "destination opts dirs = Inr target"
    "migrate_workspaces P db m (sorted_list_of_fset (fmdom m)) report target = (Inr r', u)"
    "snapshot_shards P r' u = (Inr r, t)"
  using assms by (auto simp: migrate_def bindR_Inr split: sum.splits prod.splits)

lemma snapshot_shards_report:
  assumes "snapshot_shards P r' u = (Inr r, t)"
  shows "mr_workspaces r = mr_workspaces r'" "mr_totals r = mr_totals r'" "mr_failures r = mr_failures r'"
    "mr_shared_documents r = mr_shared_documents r'" "u = Some p \<Longrightarrow> \<exists>q. t = Some q \<and> settled p q"
  using assms keepsD [OF over_loaded_settled [of P "shard_snapshot (pe_shard P)" "\<lambda>_. True"]]
  by (auto simp: snapshot_shards_def snapshot_all_def split: option.splits sum.splits prod.splits)

end
