(* ===== verification/Migrate_Properties.thy ===== *)
theory Migrate_Properties
  imports Migrate_Facts Shard_Samples
begin

text \<open>
  The properties of the migration: every document that a filter row names is accounted for, what
  was counted as migrated is in its shard, and a document comes out of the old records as it
  was put in.
\<close>

section \<open>A small old store\<close>

text \<open>Every record is its key; the only filter row gives document \<open>d\<close> to workspace 5.\<close>

definition sample_old :: "u64 \<Rightarrow> old_db" where
  "sample_old d = \<lparr> db_family = (\<lambda>_. True),
     db_iter = (\<lambda>cf. if cf = CF_FILTER_INFO then [Some ([], [])] else if cf = CF_DOCUMENTS then [Some (key 10, [])] else []),
     db_get = (\<lambda>_ k. Some (Some k)),
     db_filter_info = (\<lambda>_. Some \<lparr> ef_embed_id = 5, ef_doc_id = d, ef_user_uuid = 5 \<rparr>),
     db_document = (\<lambda>bs. if bs = key 10 then Some (document_to_model doc1) else None),
     db_split = (\<lambda>bs. if bs = key 20 then Some (split_to_model spl1) else None),
     db_summary = (\<lambda>bs. if bs = key 30 then Some (summary_to_model sum1) else None),
     db_embedding = (\<lambda>bs. if bs = key 20 then Some (embedding_to_model EmbedSplit emb1)
        else if bs = key 30 then Some (embedding_to_model EmbedSummary emb1) else None) \<rparr>"

lemma key_inj [simp]: "key i = key j \<longleftrightarrow> i = j"
  unfolding key_def by (metis from_to_le(3))

lemma sample_old_keyed: "keyed (sample_old d)"
  by (simp add: keyed_def sample_old_def document_to_model_def doc1_def)

lemma sample_old_holds: "holds_document (sample_old d) doc1"
  by (simp add: holds_document_def holds_split_def holds_summary_def old_holds_def sample_old_def doc1_def spl1_def sum1_def
      opt_list_def)

definition dry_options :: migration_options where
  "dry_options = \<lparr> mo_shard = shard_options_new 7 sample_index, mo_memory_budget_mb = 1, mo_dry_run = True, mo_read_write = False \<rparr>"

lemma one_fset_list: "sorted_list_of_fset {|x|} = [x]"
  by (simp add: sorted_list_of_fset.rep_eq)

section \<open>Accounting\<close>

text \<open>
  C34: A migration that returns accounts for every document: the workspaces of its report are
  those that the filter rows name, in order, and in each of them every document that its rows name
  met exactly one fate, in order. Either it could be read, and then it is in the counts of its
  workspace and in the totals with its splits and its distinct summaries; or it is among the
  failures under its own workspace and id, as absent when it is not in the documents, with the
  error of reading it when it could not be read, and, never on a dry run, as refused by its
  shard. The documents it reports as shared are those that two workspaces name.
\<close>

theorem migration_accounts_for_every_document:
  assumes "migrate P src dirs opts = (Inr r, t)"
  shows "\<exists>db m fates. open_source src (mo_read_write opts) = Inr db \<and> scan_workspaces db = Inr m
    \<and> (\<forall>ws d. d |\<in>| docs_in m ws \<longleftrightarrow> names db (db_iter db CF_FILTER_INFO) ws d)
    \<and> map fst fates = sorted_list_of_fset (fmdom m) \<and> list_all (fates_of db (mo_dry_run opts) m) fates
    \<and> map (\<lambda>wr. (wr_workspace wr, wr_read wr)) (mr_workspaces r) = map (\<lambda>(ws, fs). (ws, count_all (read_of fs))) fates
    \<and> mr_totals r = count_all (concat (map (\<lambda>(ws, fs). read_of fs) fates))
    \<and> mr_failures r = concat (map (\<lambda>(ws, fs). refused_of ws fs) fates)
    \<and> mr_shared_documents r = card {d. \<exists>ws ws'. ws \<noteq> ws' \<and> d |\<in>| docs_in m ws \<and> d |\<in>| docs_in m ws'}"
proof -
  obtain db m report target r' u where
    run: "open_source src (mo_read_write opts) = Inr db" "scan_workspaces db = Inr m" "first_report db m = Inr report"
    "destination opts dirs = Inr target"
    "migrate_workspaces P db m (sorted_list_of_fset (fmdom m)) report target = (Inr r', u)" "snapshot_shards P r' u = (Inr r, t)"
    by (rule migrate_run [OF assms])
  have dry: "mo_dry_run opts \<longrightarrow> target = None" using run(4) by (auto simp: destination_def)
  have "mr_totals report = no_counts" "mr_failures report = []" "mr_workspaces report = []" "mr_shared_documents report = shared_documents m"
    using run(3) by (auto simp: first_report_def bindR_Inr)
  with migrate_workspaces_fates [OF run(5) dry] obtain fates where "map fst fates = sorted_list_of_fset (fmdom m)"
    "list_all (fates_of db (mo_dry_run opts) m) fates" "mr_failures r' = concat (map (\<lambda>(ws, fs). refused_of ws fs) fates)"
    "mr_totals r' = count_all (concat (map (\<lambda>(ws, fs). read_of fs) fates))"
    "map (\<lambda>wr. (wr_workspace wr, wr_read wr)) (mr_workspaces r') = map (\<lambda>(ws, fs). (ws, count_all (read_of fs))) fates"
    "mr_shared_documents r' = shared_documents m" by auto
  with snapshot_shards_report(1-4) [OF run(6)] scan_workspaces_docs(1) [OF run(2)] shared_documents_eq [of m] run(1,2)
  show ?thesis by (intro exI [of _ db] exI [of _ m] exI [of _ fates]) simp
qed

text \<open>An old store that names document 10 for workspace 5 and, in a second row, document 11, which it does not have.\<close>

definition sample_old_two :: old_db where
  "sample_old_two = (sample_old 10)\<lparr>db_iter := (\<lambda>cf. if cf = CF_FILTER_INFO then [Some ([], []), Some ([], [1])]
       else if cf = CF_DOCUMENTS then [Some (key 10, [])] else []),
     db_filter_info := (\<lambda>bs. Some \<lparr> ef_embed_id = 5, ef_doc_id = (if bs = [] then 10 else 11), ef_user_uuid = 5 \<rparr>),
     db_get := (\<lambda>_ k. Some (if k = key 11 then None else Some k))\<rparr>"

lemma sample_two_reads:
  "read_document sample_old_two 10 = Inr (Some doc1)" "read_document sample_old_two 11 = Inr None"
proof -
  have "holds_document sample_old_two doc1"
    by (simp add: holds_document_def holds_split_def holds_summary_def old_holds_def sample_old_two_def sample_old_def doc1_def
        spl1_def sum1_def opt_list_def)
  from read_document_holds [OF this] show "read_document sample_old_two 10 = Inr (Some doc1)"
    by (simp add: without_empty_summaries_def doc1_def)
  show "read_document sample_old_two 11 = Inr None"
    by (simp add: read_document_def old_get_def cf_handle_def sample_old_two_def sample_old_def)
qed

lemma sample_two_workspaces: "scan_workspaces sample_old_two = Inr (fmupd 5 {|10, 11|} fmempty)"
proof -
  have "{|11, 10|} = {|10, 11 :: u64|}" by auto
  then show ?thesis
    by (simp add: scan_workspaces_def cf_handle_def sample_old_two_def sample_old_def add_row_def docs_in_def)
qed

lemma two_fset_list: "sorted_list_of_fset {|10, 11 :: u64|} = [10, 11]"
  by (simp add: sorted_list_of_fset.rep_eq)

lemma migration_accounts_for_every_document_witness:
  "\<exists>src r. migrate sample_penv src None dry_options = (Inr r, None) \<and> cn_docs (mr_totals r) = 1 \<and> cn_splits (mr_totals r) = 1
     \<and> mr_failures r = [(5, 11, NotInDocuments)]"
proof -
  let ?src = "\<lparr> src_exists = True, src_open = (\<lambda>_ _. Some sample_old_two) \<rparr>" and ?m = "fmupd 5 {|10, 11|} fmempty"
  have "\<exists>n. orphan_documents sample_old_two ?m = Inr n"
    by (simp add: orphan_documents_def cf_handle_def sample_old_two_def sample_old_def key_def len_simps)
  then obtain rep where rep: "first_report sample_old_two ?m = Inr rep"
    by (auto simp: first_report_def count_filter_rows_def cf_handle_def sample_old_two_def sample_old_def)
  have o: "open_source ?src (mo_read_write dry_options) = Inr sample_old_two" by (simp add: open_source_def)
  obtain r where r: "migrate sample_penv ?src None dry_options = (Inr r, None)"
    using o rep by (simp add: migrate_def sample_two_workspaces destination_def open_shard_of_def one_fset_list two_fset_list docs_in_def
        migrate_document_def sample_two_reads insert_into_def snapshot_shards_def release_def dry_options_def)
  from migration_accounts_for_every_document [OF r] obtain db m fates where
    D: "open_source ?src (mo_read_write dry_options) = Inr db" "scan_workspaces db = Inr m"
    and G: "map fst fates = sorted_list_of_fset (fmdom m)" "list_all (fates_of db (mo_dry_run dry_options) m) fates"
    "mr_totals r = count_all (concat (map (\<lambda>(ws, fs). read_of fs) fates))"
    "mr_failures r = concat (map (\<lambda>(ws, fs). refused_of ws fs) fates)" by blast
  from D o sample_two_workspaces have "db = sample_old_two" "m = ?m" by auto
  with G have F: "map fst fates = [5]" "list_all (fates_of sample_old_two True ?m) fates"
    "mr_totals r = count_all (concat (map (\<lambda>(ws, fs). read_of fs) fates))"
    "mr_failures r = concat (map (\<lambda>(ws, fs). refused_of ws fs) fates)"
    by (simp_all add: one_fset_list dry_options_def)
  from F(1) obtain fs where f: "fates = [(5, fs)]" by (cases fates) auto
  with F(2) have "map fst fs = [10, 11]" "list_all (fate_ok sample_old_two True) fs"
    by (simp_all add: fates_of_def docs_in_def two_fset_list)
  then obtain out out' where "fs = [(10, out), (11, out')]" "fate_ok sample_old_two True (10, out)" "fate_ok sample_old_two True (11, out')"
    by (auto simp: map_eq_Cons_conv)
  then have "fs = [(10, Inr doc1), (11, Inl NotInDocuments)]"
    by (auto simp: fate_ok_def sample_two_reads split: sum.splits refusal.splits)
  with F(3,4) f have "cn_docs (mr_totals r) = 1 \<and> cn_splits (mr_totals r) = 1 \<and> mr_failures r = [(5, 11, NotInDocuments)]"
    by (simp add: add_counts_def counts_of_def no_counts_def doc1_def)
  with r show ?thesis by blast
qed


section \<open>The shards\<close>

text \<open>
  C35: Whatever fails in between, when the workspaces have been migrated no shard holds fewer
  documents than were counted as read into it, and the pool is sound with no reference left taken.
\<close>

theorem migrated_documents_are_in_their_shards:
  assumes "keyed db" "mr_workspaces report = []"
    and "migrate_workspaces P db m wss report (Some p) = (Inr r, t)" "pool_ok p" "\<forall>a. held p a = 0"
  shows "(\<forall>wr \<in> set (mr_workspaces r). case wr_written wr of None \<Rightarrow> True | Some w \<Rightarrow> cn_docs (wr_read wr) \<le> cn_docs w)
    \<and> (\<exists>q. t = Some q \<and> pool_ok q \<and> (\<forall>a. held q a = 0))"
proof -
  from migrate_workspaces_settled [OF assms(1,3)] assms(4,5)
  have "\<exists>q. t = Some q \<and> pool_ok q \<and> (\<forall>a. held q a = 0)" by (auto simp: settled_def same_refs_def)
  with migrate_workspaces_written [OF assms(1,3)] assms(2) show ?thesis by (auto split: option.split)
qed

lemma tick_up_fields [simp]: "pl_dirs (tick_up p) = pl_dirs p" "pl_opts (tick_up p) = pl_opts p"
  by (simp_all add: tick_up_def)

lemma fresh_shard_opens:
  "\<exists>sh w. shard_open_with sample_senv (shard_options_new 7 sample_index) Loaded world0 = (Inr sh, w)"
proof -
  let ?o = "shard_store_options (shard_options_new 7 sample_index)"
  have w: "files world0 = fmempty" "faults world0 = []" by (simp_all add: world0_def)
  have dim: "unat (so_n_embd ?o) < 2 ^ 32"
    by (simp add: shard_store_options_def shard_options_new_def store_options_new_def sample_index_def)
  from open_fresh_succeeds [OF w(1) sample_env_ok dim w(2)] obtain s w1 where
    s: "store_open sample_env ?o world0 = (Inr s, w1)" "faults w1 = []" by blast
  have maps: "st_maps s = empty_maps" using open_fresh(2) [OF s(1) w(1) sample_env_ok dim] by simp
  let ?n = "\<lparr> in_store = s, in_splits = empty_index ESplit, in_summaries = empty_index ESummary \<rparr>"
  have create: "vi_create sample_usearch k sample_index = Inr (empty_index k)" for k
    by (simp add: vi_create_def sample_usearch_def empty_index_def sample_index_def index_options_def Let_def)
  have rm: "\<exists>v. (if fs_exists u f then fs_remove f u else (Inr (), u)) = (Inr (), v) \<and> faults v = []" if "faults u = []" for u f
    using that by (auto simp: fs_remove_def io_clean fs_exists_def fmdom'_notD dest: fmdom'I)
  have "vi_remove_file (empty_index k) u = (if fs_exists u (vi_path (empty_index k)) then fs_remove (vi_path (empty_index k)) u else (Inr (), u))" for k u
    by (simp add: vi_remove_file_def)
  note vr = this
  obtain w2 where r2: "vi_remove_file (empty_index ESplit) w1 = (Inr (), w2)" "faults w2 = []"
    using rm [OF s(2)] by (auto simp: vr)
  obtain w3 where r3: "vi_remove_file (empty_index ESummary) w2 = (Inr (), w3)" "faults w3 = []"
    using rm [OF r2(2)] by (auto simp: vr)
  obtain w4 where r4: "index_state_remove w3 = (Inr (), w4)"
    using rm [OF r3(2)] by (auto simp: index_state_remove_def)
  note r = r2(1) r3(1) r4
  have "first_inner (s, w4) = ?n" by (simp add: first_inner_def sample_shard_def)
  with first_rebuild [of "(s, w4)" w4] maps obtain n v where "rebuild sample_senv (?n, w4) = (Inr (), (n, v))" by auto
  then have "start_over sample_senv (?n, w1) = (Inr (), (n, v))"
    using r by (simp add: start_over_def seqM_def bindM_def in_dir_def zoom_def)
  moreover have "read_indexes sample_senv Loaded (?n, w1) = (Inr False, (?n, w1))"
  proof -
    have "index_state_load sample_senv w1 = None"
      by (simp add: index_state_load_def sample_senv_def from_slice_def split: sum.split)
    then show ?thesis by (simp add: read_indexes_def bindM_def ret_def snapshot_is_usable_def)
  qed
  ultimately show ?thesis
    using s(1) create by (simp add: shard_open_with_def bindM_def seqM_def liftM_def ret_def senv_parts shard_options_new_def)
qed


definition sample_report :: migration_report where
  "sample_report = \<lparr> mr_filter_rows = 1, mr_distinct_documents = 1, mr_shared_documents = 0, mr_orphan_documents = 0,
     mr_workspaces = [], mr_totals = no_counts, mr_shards_snapshotted = 0, mr_failures = [] \<rparr>"

lemma migrated_documents_are_in_their_shards_witness:
  "\<exists>r q. migrate_workspaces sample_penv (sample_old 11) (fmupd 5 {|11|} fmempty) [5] sample_report
       (Some (pool_new (shard_options_new 7 sample_index))) = (Inr r, Some q) \<and> pool_ok q \<and> (\<forall>a. held q a = 0)
     \<and> mr_failures r = [(5, 11, Unreadable (BadOldRecord CF_DOCUMENTS 11))]"
proof -
  let ?p = "pool_new (shard_options_new 7 sample_index) :: (bool \<times> u64 list) pool"
  have w: "dir_world sample_penv q 5 = world0" if "pl_dirs q = fmempty" for q :: "(bool \<times> u64 list) pool"
    using that by (simp add: dir_world_def sample_penv_def world0_def)
  have ok: "pool_ok ?p" "\<forall>a. held ?p a = 0"
    by (simp_all add: pool_new_def pool_ok_def held_def entry_of_def allocation_of_def)
  have e: "pl_dirs ?p = fmempty" "pl_opts ?p = shard_options_new 7 sample_index" "entry_of ?p 5 = None"
    by (simp_all add: pool_new_def entry_of_def)
  obtain a q where g: "pool_get sample_penv 5 ?p = (Inr a, q)"
  proof -
    have g: "pl_dirs (take_gate 5 u) = pl_dirs u" "pl_opts (take_gate 5 u) = pl_opts u" "entry_of (take_gate 5 u) 5 = entry_of u 5"
      for u :: "(bool \<times> u64 list) pool"
      by (auto simp: take_gate_def entry_of_def split: option.splits)
    obtain sh v where o: "shard_open_with sample_senv (shard_options_new 7 sample_index) Loaded world0 = (Inr sh, v)"
      using fresh_shard_opens by blast
    have "\<exists>a q. open_and_insert sample_penv 5 Loaded u = (Inr a, q)"
      if u: "pl_dirs u = fmempty" "pl_opts u = shard_options_new 7 sample_index" "entry_of u 5 = None" for u
    proof -
      have t: "touch 5 u = (None, tick_up u)" using u(3) by (simp add: touch_def Let_def)
      have "pe_shard sample_penv = sample_senv" by (simp add: sample_penv_def)
      then show ?thesis
        using o u w [of "tick_up u"] by (simp add: open_and_insert_def bindM_def peek_def t Let_def)
    qed
    moreover have t: "touch 5 u = (None, tick_up u)" if "entry_of u 5 = None" for u :: "(bool \<times> u64 list) pool"
      using that by (simp add: touch_def Let_def)
    ultimately obtain a q where "open_and_insert sample_penv 5 Loaded (take_gate 5 (tick_up (tick_up ?p))) = (Inr a, q)"
      using e g by (metis entry_of_simps(2) tick_up_fields)
    then show thesis
      using e(3) that t by (simp add: pool_get_def get_with_def bindM_def peek_def seqM_def attempt_def modM_def)
  qed
  have d: "read_document (sample_old 11) 11 = Inl (BadOldRecord CF_DOCUMENTS 11)"
    by (simp add: read_document_def old_get_def cf_handle_def sample_old_def)
  obtain r t where r: "migrate_workspaces sample_penv (sample_old 11) (fmupd 5 {|11|} fmempty) [5] sample_report (Some ?p) = (Inr r, t)"
    "mr_failures r = [(5, 11, Unreadable (BadOldRecord CF_DOCUMENTS 11))]"
    using g d by (simp add: open_shard_of_def one_fset_list docs_in_def migrate_document_def sample_report_def add_workspace_def)
  have "mr_workspaces sample_report = []" by (simp add: sample_report_def)
  from migrated_documents_are_in_their_shards [OF sample_old_keyed this r(1) ok] r show ?thesis by blast
qed

text \<open>
  C36: A document that the old layer kept, with its splits, their summaries and every vector under
  its own id, is read back as it was inserted, but for an empty list of summaries of the document
  itself, which comes back as none.
\<close>

theorem old_documents_read_back:
  assumes "holds_document db doc"
  shows "read_document db (dd_document_id doc) = Inr (Some (without_empty_summaries doc))"
  by (rule read_document_holds [OF assms])

lemma old_documents_read_back_witness: "read_document (sample_old 10) 10 = Inr (Some doc1)"
  using old_documents_read_back [OF sample_old_holds [of 10]] by (simp add: without_empty_summaries_def doc1_def)

end
