(* ===== verification/Pool_Threads.thy ===== *)
theory Pool_Threads
  imports Pool
begin

text \<open>
  The pool under several threads (\<open>pool.rs\<close>). What one thread does between taking and releasing
  the pool's lock is one step, and so is an operation on a shard, which runs under the shard's own
  lock; the steps of the threads interleave. A gate is an allocation with a mutex: the map
  \<open>opening\<close> has a reference to it and so has every thread that passed the lookup, and the mutex is
  held by the thread that is opening. The counts of \<open>Pool\<close>'s own gates are not used here.
\<close>

section \<open>Threads\<close>

text \<open>
  Who runs a budget pass: a \<open>get_with\<close> that has opened its shard, still with its clone of the gate,
  or a caller of its own. Then what a thread goes on with once it has dropped a reference: the
  call is over, the budget pass goes on, or a pass over all shards does.
\<close>

datatype caller = ForGet uuid nat nat | ForOwner

datatype after = Ended caller | Budget caller "uuid set" | Walk "nat list"

text \<open>Where a thread is: inside \<open>get_existing\<close>, \<open>get_with\<close>, a budget pass, \<open>close\<close>, a pass, or using a shard.\<close>

datatype thread =
  Idle
| Looking uuid
| Asked uuid residency
| Missed uuid residency
| Waiting uuid residency nat
| Locked uuid residency nat
| Building uuid residency nat
| Built uuid nat nat
| Unlocking uuid nat "error + nat"
| Retiring uuid nat "error + nat"
| Budgeting caller "uuid set"
| Demoting uuid nat after
| Mapping uuid nat after
| Refreshing uuid nat after
| Closing uuid nat
| Checking uuid nat
| Walking "nat list"
| Holding nat
| Releasing nat after

fun returned :: "caller \<Rightarrow> thread" where
  "returned (ForGet ws g a) = Holding a"
| "returned ForOwner = Idle"

fun resumed :: "after \<Rightarrow> thread" where
  "resumed (Ended c) = returned c"
| "resumed (Budget c skip) = Budgeting c skip"
| "resumed (Walk as) = Walking as"

text \<open>A shard that could not be demoted is passed over; an error ends the pass.\<close>

fun passed_over :: "uuid \<Rightarrow> after \<Rightarrow> after" where
  "passed_over ws (Budget c skip) = Budget c (insert ws skip)"
| "passed_over ws k = k"

fun gave_up :: "after \<Rightarrow> after" where
  "gave_up (Budget c skip) = Ended c"
| "gave_up k = k"

section \<open>Clones and guards\<close>

text \<open>The shard references a thread has, its clone of a gate, and the gate whose mutex it holds.\<close>

fun refs_of_caller :: "caller \<Rightarrow> nat list" where
  "refs_of_caller (ForGet ws g a) = [a]"
| "refs_of_caller ForOwner = []"

fun refs_after :: "after \<Rightarrow> nat list" where
  "refs_after (Ended c) = refs_of_caller c"
| "refs_after (Budget c skip) = refs_of_caller c"
| "refs_after (Walk as) = as"

fun refs_of :: "thread \<Rightarrow> nat list" where
  "refs_of (Built ws g a) = [a]"
| "refs_of (Unlocking ws g (Inr a)) = [a]"
| "refs_of (Retiring ws g (Inr a)) = [a]"
| "refs_of (Budgeting c skip) = refs_of_caller c"
| "refs_of (Demoting ws a k) = a # refs_after k"
| "refs_of (Mapping ws a k) = a # refs_after k"
| "refs_of (Refreshing ws a k) = a # refs_after k"
| "refs_of (Closing ws a) = [a]"
| "refs_of (Checking ws a) = [a]"
| "refs_of (Walking as) = as"
| "refs_of (Holding a) = [a]"
| "refs_of (Releasing a k) = a # refs_after k"
| "refs_of _ = []"

fun gate_of_caller :: "caller \<Rightarrow> (uuid \<times> nat) option" where
  "gate_of_caller (ForGet ws g a) = Some (ws, g)"
| "gate_of_caller ForOwner = None"

fun gate_after :: "after \<Rightarrow> (uuid \<times> nat) option" where
  "gate_after (Ended c) = gate_of_caller c"
| "gate_after (Budget c skip) = gate_of_caller c"
| "gate_after (Walk as) = None"

fun gate_of :: "thread \<Rightarrow> (uuid \<times> nat) option" where
  "gate_of (Waiting ws res g) = Some (ws, g)"
| "gate_of (Locked ws res g) = Some (ws, g)"
| "gate_of (Building ws res g) = Some (ws, g)"
| "gate_of (Built ws g a) = Some (ws, g)"
| "gate_of (Unlocking ws g r) = Some (ws, g)"
| "gate_of (Retiring ws g r) = Some (ws, g)"
| "gate_of (Budgeting c skip) = gate_of_caller c"
| "gate_of (Demoting ws a k) = gate_after k"
| "gate_of (Mapping ws a k) = gate_after k"
| "gate_of (Refreshing ws a k) = gate_after k"
| "gate_of (Releasing a k) = gate_after k"
| "gate_of _ = None"

fun guard_of :: "thread \<Rightarrow> nat option" where
  "guard_of (Locked ws res g) = Some g"
| "guard_of (Building ws res g) = Some g"
| "guard_of (Built ws g a) = Some g"
| "guard_of (Unlocking ws g r) = Some g"
| "guard_of _ = None"

section \<open>The system\<close>

record 'x sys =
  sy_pool :: "'x pool"
  sy_opening :: "(uuid, nat) fmap"
  sy_next_gate :: nat
  sy_threads :: "thread list"

definition sys_start :: "'x pool \<Rightarrow> nat \<Rightarrow> 'x sys" where
  "sys_start p n = \<lparr> sy_pool = p, sy_opening = fmempty, sy_next_gate = 0, sy_threads = replicate n Idle \<rparr>"

definition at :: "'x sys \<Rightarrow> nat \<Rightarrow> thread \<Rightarrow> bool" where
  "at s i th \<longleftrightarrow> i < length (sy_threads s) \<and> sy_threads s ! i = th"

text \<open>Thread \<open>i\<close> is now at \<open>th\<close>, and the pool is \<open>p\<close>.\<close>

definition moves :: "nat \<Rightarrow> thread \<Rightarrow> 'x pool \<Rightarrow> 'x sys \<Rightarrow> 'x sys" where
  "moves i th p s = s\<lparr>sy_pool := p, sy_threads := (sy_threads s)[i := th]\<rparr>"

text \<open>\<open>Arc::strong_count\<close> of a gate in the map is one and the number of threads with a clone.\<close>

definition clones :: "'x sys \<Rightarrow> nat \<Rightarrow> nat" where
  "clones s g = length (filter (\<lambda>th. \<exists>ws. gate_of th = Some (ws, g)) (sy_threads s))"

definition free :: "'x sys \<Rightarrow> nat \<Rightarrow> bool" where
  "free s g \<longleftrightarrow> (\<forall>th \<in> set (sy_threads s). guard_of th \<noteq> Some g)"

definition gate_entry :: "uuid \<Rightarrow> 'x sys \<Rightarrow> nat \<times> 'x sys" where
  "gate_entry ws s =
     (case fmlookup (sy_opening s) ws of
        Some g \<Rightarrow> (g, s)
      | None \<Rightarrow> (sy_next_gate s,
          s\<lparr>sy_opening := fmupd ws (sy_next_gate s) (sy_opening s), sy_next_gate := sy_next_gate s + 1\<rparr>))"

definition retire :: "'x sys \<Rightarrow> 'x sys" where
  "retire s = s\<lparr>sy_opening := fmfilter
     (\<lambda>ws. case fmlookup (sy_opening s) ws of None \<Rightarrow> False | Some g \<Rightarrow> 1 < 1 + clones s g) (sy_opening s)\<rparr>"

text \<open>The parts of \<open>open_and_insert\<close> outside and inside the pool's lock.\<close>

definition build :: "'x penv \<Rightarrow> uuid \<Rightarrow> residency \<Rightarrow> ('x, nat) pop" where
  "build P ws residency = (\<lambda>p.
     case shard_open_with (pe_shard P) (pl_opts p) residency (dir_world P p ws) of
       (Inl e, w) \<Rightarrow> (Inl e, p\<lparr>pl_dirs := fmupd ws w (pl_dirs p)\<rparr>)
     | (Inr sh, w) \<Rightarrow>
         (Inr (pl_next p), p\<lparr>pl_dirs := fmupd ws w (pl_dirs p), pl_next := pl_next p + 1,
            pl_heap := fmupd (pl_next p) \<lparr> lv_workspace = ws, lv_shard = sh, lv_held = 1, lv_busy = False \<rparr> (pl_heap p)\<rparr>))"

definition insert_entry :: "'x penv \<Rightarrow> uuid \<Rightarrow> nat \<Rightarrow> 'x pool \<Rightarrow> 'x pool" where
  "insert_entry P ws a p =
     (let q = tick_up p;
          bytes = (case try_stats P p a of None \<Rightarrow> 0 | Some st \<Rightarrow> ss_index_memory_bytes st) in
      set_entry ws \<lparr> en_shard = a, en_last_used = pi_tick (pl_inner q), en_bytes = bytes \<rparr> q)"

text \<open>The locked part of \<open>close\<close>: the map's reference and the closer's, or somebody else has one.\<close>

definition close_entry :: "uuid \<Rightarrow> 'x pool \<Rightarrow> 'x pool" where
  "close_entry ws p =
     (case entry_of p ws of
        None \<Rightarrow> p
      | Some e \<Rightarrow> if 2 < strong_count p e then p else remove_entry ws p)"

section \<open>Steps\<close>

inductive pool_step :: "'x penv \<Rightarrow> nat \<Rightarrow> 'x sys \<Rightarrow> 'x sys \<Rightarrow> bool" for P :: "'x penv" where
  existing_hit: "at s i Idle \<Longrightarrow> touch ws (sy_pool s) = (Some a, p) \<Longrightarrow> pool_step P i s (moves i (Holding a) p s)"
| existing_miss: "at s i Idle \<Longrightarrow> touch ws (sy_pool s) = (None, p) \<Longrightarrow> pool_step P i s (moves i (Looking ws) p s)"
| no_directory: "at s i (Looking ws) \<Longrightarrow> fmlookup (pl_dirs (sy_pool s)) ws = None
    \<Longrightarrow> pool_step P i s (moves i Idle (sy_pool s) s)"
| directory: "at s i (Looking ws) \<Longrightarrow> fmlookup (pl_dirs (sy_pool s)) ws \<noteq> None
    \<Longrightarrow> pool_step P i s (moves i (Asked ws Viewed) (sy_pool s) s)"
| ask: "at s i Idle \<Longrightarrow> pool_step P i s (moves i (Asked ws Loaded) (sy_pool s) s)"
| peek_hit: "at s i (Asked ws res) \<Longrightarrow> touch ws (sy_pool s) = (Some a, p) \<Longrightarrow> pool_step P i s (moves i (Holding a) p s)"
| peek_miss: "at s i (Asked ws res) \<Longrightarrow> touch ws (sy_pool s) = (None, p)
    \<Longrightarrow> pool_step P i s (moves i (Missed ws res) p s)"
| gate_hit: "at s i (Missed ws res) \<Longrightarrow> touch ws (sy_pool s) = (Some a, p)
    \<Longrightarrow> pool_step P i s (moves i (Holding a) p s)"
| gate_miss: "at s i (Missed ws res) \<Longrightarrow> touch ws (sy_pool s) = (None, p) \<Longrightarrow> gate_entry ws s = (g, t)
    \<Longrightarrow> pool_step P i s (moves i (Waiting ws res g) p t)"
| gate_lock: "at s i (Waiting ws res g) \<Longrightarrow> free s g \<Longrightarrow> pool_step P i s (moves i (Locked ws res g) (sy_pool s) s)"
| open_hit: "at s i (Locked ws res g) \<Longrightarrow> touch ws (sy_pool s) = (Some a, p)
    \<Longrightarrow> pool_step P i s (moves i (Unlocking ws g (Inr a)) p s)"
| open_miss: "at s i (Locked ws res g) \<Longrightarrow> touch ws (sy_pool s) = (None, p)
    \<Longrightarrow> pool_step P i s (moves i (Building ws res g) p s)"
| build_fails: "at s i (Building ws res g) \<Longrightarrow> build P ws res (sy_pool s) = (Inl e, p)
    \<Longrightarrow> pool_step P i s (moves i (Unlocking ws g (Inl e)) p s)"
| builds: "at s i (Building ws res g) \<Longrightarrow> build P ws res (sy_pool s) = (Inr a, p)
    \<Longrightarrow> pool_step P i s (moves i (Built ws g a) p s)"
| inserts: "at s i (Built ws g a)
    \<Longrightarrow> pool_step P i s (moves i (Unlocking ws g (Inr a)) (insert_entry P ws a (sy_pool s)) s)"
| gate_unlock: "at s i (Unlocking ws g r) \<Longrightarrow> pool_step P i s (moves i (Retiring ws g r) (sy_pool s) s)"
| retire_failed: "at s i (Retiring ws g (Inl e)) \<Longrightarrow> pool_step P i s (moves i Idle (sy_pool s) (retire s))"
| retire_opened: "at s i (Retiring ws g (Inr a))
    \<Longrightarrow> pool_step P i s (moves i (Budgeting (ForGet ws g a) {}) (sy_pool s) (retire s))"
| budget_call: "at s i Idle \<Longrightarrow> pool_step P i s (moves i (Budgeting ForOwner {}) (sy_pool s) s)"
| budget_kept: "at s i (Budgeting c skip) \<Longrightarrow> refresh_bytes P (sy_pool s) = p
    \<Longrightarrow> total_bytes P p \<le> pl_budget_bytes p \<or> victim P skip p = None
    \<Longrightarrow> pool_step P i s (moves i (returned c) p s)"
| budget_victim: "at s i (Budgeting c skip) \<Longrightarrow> refresh_bytes P (sy_pool s) = p
    \<Longrightarrow> pl_budget_bytes p < total_bytes P p \<Longrightarrow> victim P skip p = Some (ws, e)
    \<Longrightarrow> pool_step P i s (moves i (Demoting ws (en_shard e) (Budget c skip)) (clone_arc (en_shard e) p) s)"
| claims_none: "at s i Idle \<Longrightarrow> claim_for_eviction ws (sy_pool s) = (Inr None, p) \<Longrightarrow> pool_step P i s (moves i Idle p s)"
| evict_claims: "at s i Idle \<Longrightarrow> claim_for_eviction ws (sy_pool s) = (Inr (Some a), p)
    \<Longrightarrow> pool_step P i s (moves i (Demoting ws a (Ended ForOwner)) p s)"
| demote_viewed: "at s i (Demoting ws a k) \<Longrightarrow> residency_of (sy_pool s) a = Viewed
    \<Longrightarrow> pool_step P i s (moves i (Releasing a (passed_over ws k)) (sy_pool s) s)"
| demote_fails: "at s i (Demoting ws a k) \<Longrightarrow> residency_of (sy_pool s) a \<noteq> Viewed
    \<Longrightarrow> on_shard P a (shard_snapshot (pe_shard P)) (sy_pool s) = (Inl e, p)
    \<Longrightarrow> pool_step P i s (moves i (Releasing a (gave_up k)) p s)"
| demote_snapshots: "at s i (Demoting ws a k) \<Longrightarrow> residency_of (sy_pool s) a \<noteq> Viewed
    \<Longrightarrow> on_shard P a (shard_snapshot (pe_shard P)) (sy_pool s) = (Inr q, p)
    \<Longrightarrow> pool_step P i s (moves i (Mapping ws a k) p s)"
| map_fails: "at s i (Mapping ws a k) \<Longrightarrow> on_shard P a (demote_view (pe_shard P)) (sy_pool s) = (Inl e, p)
    \<Longrightarrow> pool_step P i s (moves i (Releasing a (gave_up k)) p s)"
| maps: "at s i (Mapping ws a k) \<Longrightarrow> on_shard P a (demote_view (pe_shard P)) (sy_pool s) = (Inr u, p)
    \<Longrightarrow> pool_step P i s (moves i (Refreshing ws a k) p s)"
| refreshes: "at s i (Refreshing ws a k)
    \<Longrightarrow> pool_step P i s (moves i (Releasing a k) (refresh_entry P ws (sy_pool s)) s)"
| measures: "at s i Idle \<Longrightarrow> pool_stats_of P (sy_pool s) = (st, p) \<Longrightarrow> pool_step P i s (moves i Idle p s)"
| close_claims: "at s i Idle \<Longrightarrow> claim_for_eviction ws (sy_pool s) = (Inr (Some a), p)
    \<Longrightarrow> pool_step P i s (moves i (Closing ws a) p s)"
| close_fails: "at s i (Closing ws a) \<Longrightarrow> on_shard P a (shard_snapshot (pe_shard P)) (sy_pool s) = (Inl e, p)
    \<Longrightarrow> pool_step P i s (moves i (Releasing a (Ended ForOwner)) p s)"
| close_snapshots: "at s i (Closing ws a) \<Longrightarrow> on_shard P a (shard_snapshot (pe_shard P)) (sy_pool s) = (Inr q, p)
    \<Longrightarrow> pool_step P i s (moves i (Checking ws a) p s)"
| closes: "at s i (Checking ws a)
    \<Longrightarrow> pool_step P i s (moves i (Releasing a (Ended ForOwner)) (close_entry ws (sy_pool s)) s)"
| walk_starts: "at s i Idle \<Longrightarrow> map snd (loaded P (sy_pool s)) = as
    \<Longrightarrow> pool_step P i s (moves i (Walking as) (fold clone_arc as (sy_pool s)) s)"
| walks: "at s i (Walking (a # as)) \<Longrightarrow> on_shard P a m (sy_pool s) = (r :: error + unit, p)
    \<Longrightarrow> pool_step P i s (moves i (Releasing a (Walk as)) p s)"
| walked: "at s i (Walking []) \<Longrightarrow> pool_step P i s (moves i Idle (sy_pool s) s)"
| uses: "at s i (Holding a) \<Longrightarrow> on_shard P a m (sy_pool s) = (r :: error + unit, p)
    \<Longrightarrow> pool_step P i s (moves i (Holding a) p s)"
| finishes: "at s i (Holding a) \<Longrightarrow> pool_step P i s (moves i (Releasing a (Ended ForOwner)) (sy_pool s) s)"
| drops: "at s i (Releasing a k) \<Longrightarrow> pool_step P i s (moves i (resumed k) (drop_arc a (sy_pool s)) s)"

inductive threads_reach :: "'x penv \<Rightarrow> 'x sys \<Rightarrow> 'x sys \<Rightarrow> bool" for P :: "'x penv" where
  start: "threads_reach P s s"
| step: "threads_reach P s t \<Longrightarrow> pool_step P i t u \<Longrightarrow> threads_reach P s u"

end
