(* ===== verification/Pool_Threads_Facts.thy ===== *)
theory Pool_Threads_Facts
  imports Pool_Threads Pool_Refs
begin

text \<open>
  The invariant of the interleaved pool: references are what the threads have, every live shard is
  in the map, just built or about to be released, a clone of a gate is a clone of the gate in the
  map, a gate's mutex has one holder, and what is being opened is not in the map. Every step of
  every thread keeps it.
\<close>

section \<open>The invariant\<close>

definition refs_count :: "'x sys \<Rightarrow> nat \<Rightarrow> nat" where
  "refs_count s a = sum_list (map (\<lambda>th. count_list (refs_of th) a) (sy_threads s))"

fun opens :: "thread \<Rightarrow> uuid option" where
  "opens (Building ws res g) = Some ws"
| "opens (Built ws g a) = Some ws"
| "opens _ = None"

definition mapped :: "'x pool \<Rightarrow> nat \<Rightarrow> bool" where
  "mapped p a \<longleftrightarrow> (\<exists>ws e. entry_of p ws = Some e \<and> en_shard e = a)"

text \<open>A shard outside the map that the thread has the only reference to, and one it has for a workspace.\<close>

fun outside :: "thread \<Rightarrow> nat option" where
  "outside (Built ws g a) = Some a"
| "outside (Releasing a k) = Some a"
| "outside _ = None"

fun about :: "thread \<Rightarrow> (uuid \<times> nat) option" where
  "about (Built ws g a) = Some (ws, a)"
| "about (Closing ws a) = Some (ws, a)"
| "about (Checking ws a) = Some (ws, a)"
| "about _ = None"

definition sole :: "'x sys \<Rightarrow> nat \<Rightarrow> bool" where
  "sole s a \<longleftrightarrow> held (sy_pool s) a = 1 \<and> (\<exists>th \<in> set (sy_threads s). outside th = Some a)"

definition counted :: "'x sys \<Rightarrow> bool" where
  "counted s \<longleftrightarrow> (\<forall>a. held (sy_pool s) a = refs_count s a)"

definition housed :: "'x sys \<Rightarrow> bool" where
  "housed s \<longleftrightarrow> (\<forall>ws e. entry_of (sy_pool s) ws = Some e \<longrightarrow>
     (\<exists>l. allocation_of (sy_pool s) (en_shard e) = Some l \<and> lv_workspace l = ws))"

definition placed :: "'x sys \<Rightarrow> bool" where
  "placed s \<longleftrightarrow> (\<forall>a l. allocation_of (sy_pool s) a = Some l \<longrightarrow>
     a < pl_next (sy_pool s) \<and> (mapped (sy_pool s) a \<or> sole s a))"

definition gated :: "'x sys \<Rightarrow> bool" where
  "gated s \<longleftrightarrow> (\<forall>th \<in> set (sy_threads s). \<forall>ws g. gate_of th = Some (ws, g) \<longrightarrow> fmlookup (sy_opening s) ws = Some g)"

definition guarded :: "'x sys \<Rightarrow> bool" where
  "guarded s \<longleftrightarrow> (\<forall>i j th th' g. at s i th \<longrightarrow> at s j th' \<longrightarrow> guard_of th = Some g \<longrightarrow> guard_of th' = Some g \<longrightarrow> i = j)"

definition closed_while_opening :: "'x sys \<Rightarrow> bool" where
  "closed_while_opening s \<longleftrightarrow> (\<forall>th \<in> set (sy_threads s). \<forall>ws. opens th = Some ws \<longrightarrow> entry_of (sy_pool s) ws = None)"

definition claimed :: "'x sys \<Rightarrow> bool" where
  "claimed s \<longleftrightarrow> (\<forall>th \<in> set (sy_threads s). \<forall>ws a. about th = Some (ws, a) \<longrightarrow>
     (\<exists>l. allocation_of (sy_pool s) a = Some l \<and> lv_workspace l = ws))"

definition sys_ok :: "'x sys \<Rightarrow> bool" where
  "sys_ok s \<longleftrightarrow> counted s \<and> housed s \<and> placed s \<and> gated s \<and> guarded s \<and> closed_while_opening s \<and> claimed s"

lemma sys_okD:
  assumes "sys_ok s"
  shows "counted s" "housed s" "placed s" "gated s" "guarded s" "closed_while_opening s" "claimed s"
  using assms by (simp_all add: sys_ok_def)

section \<open>Moving one thread\<close>

lemma moves_simps [simp]:
  "sy_pool (moves i th p s) = p" "sy_opening (moves i th p s) = sy_opening s"
  "sy_next_gate (moves i th p s) = sy_next_gate s" "sy_threads (moves i th p s) = (sy_threads s)[i := th]"
  by (simp_all add: moves_def)

lemma at_in: "at s i th \<Longrightarrow> th \<in> set (sy_threads s)"
  by (auto simp: at_def)

lemma in_at: "th \<in> set (sy_threads s) \<Longrightarrow> \<exists>i. at s i th"
  by (auto simp: at_def in_set_conv_nth)

lemma at_same: "at s i th \<Longrightarrow> at s i th' \<Longrightarrow> th' = th"
  by (simp add: at_def)

lemma at_moves: "at s i th \<Longrightarrow> at (moves i th' p s) j x \<longleftrightarrow> (if j = i then x = th' else at s j x)"
  by (auto simp: at_def nth_list_update)

lemma in_moves: "at s i th \<Longrightarrow> x \<in> set (sy_threads (moves i th' p s)) \<Longrightarrow> x = th' \<or> (\<exists>j. j \<noteq> i \<and> at s j x)"
  by (auto simp: at_def in_set_conv_nth nth_list_update split: if_splits)

lemma moves_in:
  assumes "at s j x" "j \<noteq> i"
  shows "x \<in> set (sy_threads (moves i th' p s))"
proof -
  from assms have "j < length ((sy_threads s)[i := th'])" "(sy_threads s)[i := th'] ! j = x" by (simp_all add: at_def)
  then show ?thesis by (metis moves_simps(4) nth_mem)
qed

lemma moved_in: "at s i th \<Longrightarrow> th' \<in> set (sy_threads (moves i th' p s))"
  by (auto simp: at_def intro: set_update_memI)

lemma count_list_append [simp]: "count_list (xs @ ys) a = count_list xs a + count_list ys a"
  by (induction xs) auto

lemma refs_count_moves:
  assumes "at s i th"
  shows "refs_count (moves i th' p s) a + count_list (refs_of th) a = refs_count s a + count_list (refs_of th') a"
proof -
  from assms have i: "i < length (sy_threads s)" "sy_threads s ! i = th" by (simp_all add: at_def)
  have "sy_threads s = take i (sy_threads s) @ th # drop (Suc i) (sy_threads s)"
    using id_take_nth_drop [OF i(1)] i(2) by simp
  moreover have "(sy_threads s)[i := th'] = take i (sy_threads s) @ th' # drop (Suc i) (sy_threads s)"
    by (rule upd_conv_take_nth_drop [OF i(1)])
  moreover have "sum_list (map f (xs @ y # ys)) + f z = sum_list (map f (xs @ z # ys)) + f y" for f :: "thread \<Rightarrow> nat" and xs y ys z
    by simp
  ultimately show ?thesis
    unfolding refs_count_def moves_simps by metis
qed

lemma refs_count_in: "th \<in> set (sy_threads s) \<Longrightarrow> count_list (refs_of th) a \<le> refs_count s a"
  unfolding refs_count_def by (rule member_le_sum_list) auto

text \<open>Two threads with a reference: the count is at least two.\<close>

lemma refs_count_two:
  assumes "at s i th" "at s j x" "i \<noteq> j"
  shows "count_list (refs_of th) a + count_list (refs_of x) a \<le> refs_count s a"
proof -
  have "x \<in> set (sy_threads (moves i Idle (sy_pool s) s))" by (rule moves_in [OF assms(2)]) (use assms(3) in simp)
  from refs_count_in [OF this, of a] refs_count_moves [OF assms(1), of Idle "sy_pool s" a] show ?thesis by simp
qed

lemma held_allocated: "0 < held p a \<Longrightarrow> \<exists>l. allocation_of p a = Some l"
  by (cases "allocation_of p a") (auto simp: held_def)

lemma mapped_option: "mapped p a \<longleftrightarrow> (\<exists>ws. map_option en_shard (entry_of p ws) = Some a)"
  by (auto simp: mapped_def)

lemma same_shards_mapped: "same_shards p q \<Longrightarrow> mapped q a \<longleftrightarrow> mapped p a"
  unfolding mapped_option same_shards_def by simp

lemma same_shards_entry_None: "same_shards p q \<Longrightarrow> entry_of q ws = None \<longleftrightarrow> entry_of p ws = None"
  by (metis option.map_disc_iff same_shards_def)

lemma same_shards_alloc:
  assumes "same_shards p q" "allocation_of q a = Some l"
  obtains k where "allocation_of p a = Some k" "lv_workspace k = lv_workspace l"
proof -
  from assms have "map_option lv_workspace (allocation_of p a) = Some (lv_workspace l)"
    unfolding same_shards_def by (metis option.simps(9))
  with that show thesis by auto
qed

lemma same_shards_sym: "same_shards p q \<Longrightarrow> same_shards q p"
  by (simp add: same_shards_def)

section \<open>Quiet steps\<close>

lemma about_ref: "about th = Some (ws, a) \<Longrightarrow> 0 < count_list (refs_of th) a"
  by (cases th) auto

lemma outside_ref: "outside th = Some a \<Longrightarrow> 0 < count_list (refs_of th) a"
  by (cases th) auto

lemma opens_gate: "opens th = Some ws \<Longrightarrow> \<exists>g. gate_of th = Some (ws, g) \<and> guard_of th = Some g"
  by (cases th) auto

lemma counted_moves:
  assumes "counted s" "at s i th"
    and "\<And>b. held p b + count_list (refs_of th) b = held (sy_pool s) b + count_list (refs_of th') b"
  shows "counted (moves i th' p s)"
  unfolding counted_def
proof
  fix a
  show "held (sy_pool (moves i th' p s)) a = refs_count (moves i th' p s) a"
    using assms(3) [of a] refs_count_moves [OF assms(2), of th' p a] assms(1) by (simp add: counted_def)
qed

lemma gated_moves:
  assumes "gated s" "at s i th" "\<And>ws g. gate_of th' = Some (ws, g) \<Longrightarrow> fmlookup (sy_opening s) ws = Some g"
  shows "gated (moves i th' p s)"
  using in_moves [OF assms(2), of _ th' p] assms(1,3) at_in unfolding gated_def by (metis moves_simps(2))

lemma guarded_moves:
  assumes "guarded s" "at s i th" "\<And>g. guard_of th' = Some g \<Longrightarrow> guard_of th = Some g \<or> free s g"
  shows "guarded (moves i th' p s)"
  unfolding guarded_def
proof (intro allI impI)
  fix j k x y g
  assume a: "at (moves i th' p s) j x" "at (moves i th' p s) k y" "guard_of x = Some g" "guard_of y = Some g"
  have "False" if "guard_of th' = Some g" "at s j z" "j \<noteq> i" "guard_of z = Some g" for j z
    using assms(3) [OF that(1)] assms(1,2) that at_in [OF that(2)] unfolding guarded_def free_def by blast
  with a assms(1) show "j = k" unfolding at_moves [OF assms(2)] guarded_def by (metis (full_types))
qed

lemma housed_same:
  assumes "housed s" "same_shards (sy_pool s) p"
  shows "housed (moves i th p s)"
  unfolding housed_def
proof (intro allI impI)
  fix ws e assume e: "entry_of (sy_pool (moves i th p s)) ws = Some e"
  with assms(2) have "map_option en_shard (entry_of (sy_pool s) ws) = Some (en_shard e)"
    unfolding same_shards_def by (metis moves_simps(1) option.simps(9))
  then obtain e' where "entry_of (sy_pool s) ws = Some e'" "en_shard e' = en_shard e" by auto
  with assms(1) obtain l where "allocation_of (sy_pool s) (en_shard e) = Some l" "lv_workspace l = ws"
    unfolding housed_def by metis
  with same_shards_alloc [OF same_shards_sym [OF assms(2)]]
  show "\<exists>l. allocation_of (sy_pool (moves i th p s)) (en_shard e) = Some l \<and> lv_workspace l = ws"
    by (metis moves_simps(1))
qed

lemma opening_moves:
  assumes "closed_while_opening s" "at s i th"
    and "\<And>ws. opens th' = Some ws \<Longrightarrow> entry_of p ws = None"
    and "\<And>j x ws. at s j x \<Longrightarrow> j \<noteq> i \<Longrightarrow> opens x = Some ws \<Longrightarrow> entry_of (sy_pool s) ws = None \<Longrightarrow> entry_of p ws = None"
  shows "closed_while_opening (moves i th' p s)"
  using in_moves [OF assms(2), of _ th' p] assms(1,3,4) at_in unfolding closed_while_opening_def
  by (metis moves_simps(1))

lemma claimed_moves:
  assumes "claimed s" "at s i th"
    and "\<And>ws a. about th' = Some (ws, a) \<Longrightarrow> \<exists>l. allocation_of p a = Some l \<and> lv_workspace l = ws"
    and "\<And>j x ws a l. at s j x \<Longrightarrow> j \<noteq> i \<Longrightarrow> about x = Some (ws, a) \<Longrightarrow> allocation_of (sy_pool s) a = Some l
      \<Longrightarrow> \<exists>k. allocation_of p a = Some k \<and> lv_workspace k = lv_workspace l"
  shows "claimed (moves i th' p s)"
  using in_moves [OF assms(2), of _ th' p] assms(1,3,4) at_in unfolding claimed_def
  by (metis moves_simps(1))

text \<open>A shard outside the map stays with its thread when another thread moves and takes no reference to it.\<close>

lemma sole_moves:
  assumes "counted s" "at s i th" "sole s a" "outside th \<noteq> Some a"
    and "held p a + count_list (refs_of th) a = held (sy_pool s) a + count_list (refs_of th') a"
    and "count_list (refs_of th') a \<le> count_list (refs_of th) a"
  shows "sole (moves i th' p s) a"
proof -
  obtain x where x: "x \<in> set (sy_threads s)" "outside x = Some a" "held (sy_pool s) a = 1"
    using assms(3) by (auto simp: sole_def)
  then obtain j where j: "at s j x" using in_at by metis
  have ij: "i \<noteq> j" using at_same [OF assms(2)] j assms(4) x(2) by metis
  have "count_list (refs_of th) a + 1 \<le> refs_count s a"
    using refs_count_two [OF assms(2) j ij, of a] outside_ref [OF x(2)] by simp
  then have "count_list (refs_of th) a = 0" using x(3) assms(1) by (simp add: counted_def)
  with assms(5,6) x(3) have "held p a = 1" by simp
  moreover have "x \<in> set (sy_threads (moves i th' p s))" by (rule moves_in [OF j]) (use ij in simp)
  ultimately show ?thesis using x(2) unfolding sole_def by (metis moves_simps(1))
qed

lemma placedI:
  assumes "\<And>a l. allocation_of p a = Some l \<Longrightarrow> a < pl_next p"
    and "\<And>a l. allocation_of p a = Some l \<Longrightarrow> \<not> mapped p a \<Longrightarrow> sole (moves i th' p s) a"
  shows "placed (moves i th' p s)"
  using assms unfolding placed_def by (metis moves_simps(1))

text \<open>
  A step is quiet when entries and allocations stay, references change by what the thread gains
  and loses, and it gains only references to shards in the map, clones of gates in the map, free
  gates, and opens only what is not in the map.
\<close>

lemma quiet_step:
  assumes ok: "sys_ok s" and i: "at s i th" and S: "same_shards (sy_pool s) p"
    and refs: "\<And>b. held p b + count_list (refs_of th) b = held (sy_pool s) b + count_list (refs_of th') b"
    and gain: "\<And>b. count_list (refs_of th) b < count_list (refs_of th') b \<Longrightarrow> mapped (sy_pool s) b"
    and gate: "\<And>ws g. gate_of th' = Some (ws, g) \<Longrightarrow> fmlookup (sy_opening s) ws = Some g"
    and guard: "\<And>g. guard_of th' = Some g \<Longrightarrow> guard_of th = Some g \<or> free s g"
    and op: "\<And>ws. opens th' = Some ws \<Longrightarrow> entry_of p ws = None"
    and ab: "\<And>ws a. about th' = Some (ws, a) \<Longrightarrow> about th = Some (ws, a) \<or> map_option en_shard (entry_of (sy_pool s) ws) = Some a"
    and out: "\<And>a. outside th = Some a \<Longrightarrow> mapped (sy_pool s) a"
  shows "sys_ok (moves i th' p s)"
proof -
  note D = sys_okD [OF ok]
  have next_same: "pl_next p = pl_next (sy_pool s)" using S by (simp add: same_shards_def)
  have "placed (moves i th' p s)"
  proof (rule placedI)
    fix a l assume "allocation_of p a = Some l"
    with same_shards_alloc [OF S] obtain k where k: "allocation_of (sy_pool s) a = Some k" by metis
    with D(3) next_same show "a < pl_next p" by (auto simp: placed_def)
    assume "\<not> mapped p a"
    then have nm: "\<not> mapped (sy_pool s) a" by (simp add: same_shards_mapped [OF S])
    with D(3) k have "sole s a" by (auto simp: placed_def)
    moreover have "outside th \<noteq> Some a" using out nm by blast
    ultimately show "sole (moves i th' p s) a"
      using sole_moves [OF D(1) i _ _ refs] gain [of a] nm not_less by blast
  qed
  moreover have "claimed (moves i th' p s)"
  proof (rule claimed_moves [OF D(7) i])
    have S': "\<exists>k. allocation_of p a = Some k \<and> lv_workspace k = lv_workspace l" if "allocation_of (sy_pool s) a = Some l" for a l
      using same_shards_alloc [OF same_shards_sym [OF S] that] by metis
    fix ws a assume "about th' = Some (ws, a)"
    from ab [OF this] have "\<exists>l. allocation_of (sy_pool s) a = Some l \<and> lv_workspace l = ws"
    proof
      assume "about th = Some (ws, a)"
      then show ?thesis using D(7) at_in [OF i] unfolding claimed_def by blast
    next
      assume "map_option en_shard (entry_of (sy_pool s) ws) = Some a"
      then show ?thesis using D(2) unfolding housed_def by auto
    qed
    with S' show "\<exists>l. allocation_of p a = Some l \<and> lv_workspace l = ws" by metis
  qed (metis same_shards_alloc [OF same_shards_sym [OF S]])
  moreover have "closed_while_opening (moves i th' p s)"
    by (rule opening_moves [OF D(6) i op]) (simp_all add: same_shards_entry_None [OF S])
  ultimately show ?thesis
    using counted_moves [OF D(1) i refs] gated_moves [OF D(4) i gate] guarded_moves [OF D(5) i guard] housed_same [OF D(2) S]
    by (simp add: sys_ok_def)
qed

section \<open>Steps that change the map or the heap\<close>

lemma housed_entry:
  assumes "housed s" "map_option en_shard (entry_of (sy_pool s) ws) = Some a"
  shows "\<exists>l. allocation_of (sy_pool s) a = Some l \<and> lv_workspace l = ws" "mapped (sy_pool s) a"
  using assms unfolding housed_def mapped_def by auto

lemma mapped_entry:
  assumes "housed s" "mapped (sy_pool s) a" "allocation_of (sy_pool s) a = Some l"
  shows "map_option en_shard (entry_of (sy_pool s) (lv_workspace l)) = Some a"
proof -
  obtain ws e where e: "entry_of (sy_pool s) ws = Some e" "en_shard e = a" using assms(2) by (auto simp: mapped_def)
  with assms(1,3) have "lv_workspace l = ws" unfolding housed_def by fastforce
  with e show ?thesis by simp
qed

lemma refs_held: "counted s \<Longrightarrow> at s i th \<Longrightarrow> count_list (refs_of th) a \<le> held (sy_pool s) a"
  using refs_count_in [OF at_in] by (simp add: counted_def)

text \<open>A shard that two threads have references to is in the map.\<close>

lemma two_refs_mapped:
  assumes "counted s" "placed s" "at s i th" "at s j x" "i \<noteq> j"
    and "0 < count_list (refs_of th) a" "0 < count_list (refs_of x) a"
  shows "mapped (sy_pool s) a"
proof -
  have h: "2 \<le> held (sy_pool s) a"
    using refs_count_two [OF assms(3,4,5), of a] assms(1,6,7) by (simp add: counted_def)
  then obtain l where "allocation_of (sy_pool s) a = Some l" using held_allocated [of "sy_pool s" a] by auto
  with assms(2) h show ?thesis by (auto simp: placed_def sole_def)
qed

lemma mapped_simps [simp]:
  "mapped (p\<lparr>pl_dirs := ds\<rparr>) a = mapped p a" "mapped (p\<lparr>pl_heap := h\<rparr>) a = mapped p a"
  "mapped (p\<lparr>pl_next := n\<rparr>) a = mapped p a" "mapped (tick_up p) a = mapped p a"
  by (simp_all add: mapped_def)

lemma builds_ok:
  assumes ok: "sys_ok s" and i: "at s i (Building ws res g)" and run: "build P ws res (sy_pool s) = (Inr a, p)"
  shows "sys_ok (moves i (Built ws g a) p s)"
proof -
  note D = sys_okD [OF ok]
  let ?th = "Building ws res g" let ?th' = "Built ws g a"
  obtain sh w where w: "shard_open_with (pe_shard P) (pl_opts (sy_pool s)) res (dir_world P (sy_pool s) ws) = (Inr sh, w)"
    and a: "a = pl_next (sy_pool s)"
    using run by (auto simp: build_def split: prod.splits sum.splits)
  let ?l = "\<lparr> lv_workspace = ws, lv_shard = sh, lv_held = 1, lv_busy = False \<rparr>"
  have next_p: "pl_next p = a + 1" and ent: "entry_of p v = entry_of (sy_pool s) v"
    and alloc: "allocation_of p b = (if b = a then Some ?l else allocation_of (sy_pool s) b)" for v b
    using run w by (auto simp: build_def allocation_of_def entry_of_def)
  have fresh: "allocation_of (sy_pool s) a = None"
    using D(3) a unfolding placed_def by (metis less_irrefl_nat not_Some_eq)
  have map: "mapped p b = mapped (sy_pool s) b" for b by (simp add: mapped_def ent)
  have refs: "held p b + count_list (refs_of ?th) b = held (sy_pool s) b + count_list (refs_of ?th') b" for b
    using fresh by (auto simp: held_def alloc)
  have "placed (moves i ?th' p s)"
  proof (rule placedI)
    fix b k assume k: "allocation_of p b = Some k"
    then show "b < pl_next p" using D(3) next_p a by (auto simp: alloc placed_def less_Suc_eq split: if_splits)
    assume nm: "\<not> mapped p b"
    show "sole (moves i ?th' p s) b"
    proof (cases "b = a")
      case True
      then have "held p b = 1" by (simp add: held_def alloc)
      then show ?thesis unfolding sole_def using moved_in [OF i, of ?th' p] True by (metis moves_simps(1) outside.simps(1))
    next
      case False
      with k nm D(3) have "sole s b" by (auto simp: alloc map placed_def)
      with False show ?thesis by (intro sole_moves [OF D(1) i _ _ refs]) auto
    qed
  qed
  moreover have "housed (moves i ?th' p s)"
    using D(2) fresh unfolding housed_def moves_simps ent alloc by (metis option.distinct(1))
  moreover have "claimed (moves i ?th' p s)"
    by (rule claimed_moves [OF D(7) i]) (use fresh in \<open>auto simp: alloc\<close>)
  moreover have "closed_while_opening (moves i ?th' p s)"
    by (rule opening_moves [OF D(6) i]) (use D(6) at_in [OF i] in \<open>auto simp: ent closed_while_opening_def\<close>)
  moreover have "gated (moves i ?th' p s)"
    by (rule gated_moves [OF D(4) i]) (use D(4) at_in [OF i] in \<open>auto simp: gated_def\<close>)
  moreover have "guarded (moves i ?th' p s)" by (rule guarded_moves [OF D(5) i]) simp
  ultimately show ?thesis using counted_moves [OF D(1) i refs] by (simp add: sys_ok_def)
qed

lemma opens_once:
  assumes "gated s" "guarded s" "at s i th" "at s j x" "opens th = Some ws" "opens x = Some ws"
  shows "i = j"
proof -
  obtain g h where "gate_of th = Some (ws, g)" "guard_of th = Some g" "gate_of x = Some (ws, h)" "guard_of x = Some h"
    using opens_gate assms(5,6) by metis
  moreover from this have "g = h"
    using assms(1) at_in [OF assms(3)] at_in [OF assms(4)] unfolding gated_def by (metis option.inject)
  ultimately show ?thesis using assms(2-4) unfolding guarded_def by blast
qed

lemma inserts_ok:
  assumes ok: "sys_ok s" and i: "at s i (Built ws g a)"
  shows "sys_ok (moves i (Unlocking ws g (Inr a)) (insert_entry P ws a (sy_pool s)) s)"
proof -
  note D = sys_okD [OF ok]
  let ?th = "Built ws g a" let ?th' = "Unlocking ws g (Inr a)" let ?p = "insert_entry P ws a (sy_pool s)"
  obtain e where e: "en_shard e = a" and p: "?p = set_entry ws e (tick_up (sy_pool s))"
    unfolding insert_entry_def Let_def by (metis entry.select_convs(1))
  have none: "entry_of (sy_pool s) ws = None" using D(6) at_in [OF i] by (fastforce simp: closed_while_opening_def)
  have map: "mapped ?p b \<longleftrightarrow> b = a \<or> mapped (sy_pool s) b" for b
    using e none unfolding mapped_def p entry_of_simps by (metis option.distinct(1) option.inject)
  have refs: "held ?p b + count_list (refs_of ?th) b = held (sy_pool s) b + count_list (refs_of ?th') b" for b
    by (simp add: p)
  have "placed (moves i ?th' ?p s)"
  proof (rule placedI)
    fix b k assume k: "allocation_of ?p b = Some k"
    then show "b < pl_next ?p" using D(3) by (auto simp: p placed_def)
    assume nm: "\<not> mapped ?p b"
    with k D(3) map have "sole s b" "b \<noteq> a" by (auto simp: p placed_def)
    then show "sole (moves i ?th' ?p s) b" by (intro sole_moves [OF D(1) i _ _ refs]) auto
  qed
  moreover have "\<exists>l. allocation_of (sy_pool s) a = Some l \<and> lv_workspace l = ws"
    using D(7) at_in [OF i] by (fastforce simp: claimed_def)
  then have "housed (moves i ?th' ?p s)" using D(2) e by (auto simp: housed_def p)
  moreover have "claimed (moves i ?th' ?p s)" by (rule claimed_moves [OF D(7) i]) (simp_all add: p)
  moreover have "closed_while_opening (moves i ?th' ?p s)"
    by (rule opening_moves [OF D(6) i]) (use opens_once [OF D(4,5) i] in \<open>auto simp: p\<close>)
  moreover have "gated (moves i ?th' ?p s)"
    by (rule gated_moves [OF D(4) i]) (use D(4) at_in [OF i] in \<open>auto simp: gated_def\<close>)
  moreover have "guarded (moves i ?th' ?p s)" by (rule guarded_moves [OF D(5) i]) simp
  ultimately show ?thesis using counted_moves [OF D(1) i refs] by (simp add: sys_ok_def)
qed

text \<open>Closing: what the map has for the workspace is the shard that was claimed.\<close>

lemma checking_entry:
  assumes "sys_ok s" "at s i (Checking ws a)" "entry_of (sy_pool s) ws = Some e"
  shows "en_shard e = a"
proof -
  note D = sys_okD [OF assms(1)]
  obtain l where l: "allocation_of (sy_pool s) a = Some l" "lv_workspace l = ws"
    using D(7) at_in [OF assms(2)] by (fastforce simp: claimed_def)
  have "mapped (sy_pool s) a"
  proof (rule ccontr)
    assume nm: "\<not> mapped (sy_pool s) a"
    with l D(3) have "sole s a" by (auto simp: placed_def)
    then obtain x j where j: "at s j x" "outside x = Some a" using in_at unfolding sole_def by metis
    then have "i \<noteq> j" using j assms(2) by (auto simp: at_def)
    with two_refs_mapped [OF D(1,3) assms(2) j(1)] outside_ref [OF j(2)] nm show False by simp
  qed
  from mapped_entry [OF D(2) this l(1)] l(2) assms(3) show ?thesis by simp
qed

lemma removes_ok:
  assumes ok: "sys_ok s" and i: "at s i (Checking ws a)"
    and e: "entry_of (sy_pool s) ws = Some e" "strong_count (sy_pool s) e \<le> 2"
  shows "sys_ok (moves i (Releasing a (Ended ForOwner)) (remove_entry ws (sy_pool s)) s)"
proof -
  note D = sys_okD [OF ok]
  let ?th = "Checking ws a" let ?th' = "Releasing a (Ended ForOwner)" let ?p = "remove_entry ws (sy_pool s)"
  have a: "en_shard e = a" by (rule checking_entry [OF ok i e(1)])
  have held1: "held (sy_pool s) a = 1"
    using refs_held [OF D(1) i, of a] e(2) a by (simp add: strong_count_def)
  have map: "mapped (sy_pool s) b \<Longrightarrow> b \<noteq> a \<Longrightarrow> mapped ?p b" for b
    using e(1) a unfolding mapped_def entry_of_simps by (metis option.inject)
  have refs: "held ?p b + count_list (refs_of ?th) b = held (sy_pool s) b + count_list (refs_of ?th') b" for b
    by simp
  have "placed (moves i ?th' ?p s)"
  proof (rule placedI)
    fix b k assume k: "allocation_of ?p b = Some k"
    then show "b < pl_next ?p" using D(3) by (auto simp: placed_def)
    assume nm: "\<not> mapped ?p b"
    show "sole (moves i ?th' ?p s) b"
    proof (cases "b = a")
      case True
      then show ?thesis
        unfolding sole_def using moved_in [OF i, of ?th' ?p] held1 by (metis held_simps(5) moves_simps(1) outside.simps(2))
    next
      case False
      with k nm map D(3) have "sole s b" by (auto simp: placed_def)
      then show ?thesis by (intro sole_moves [OF D(1) i _ _ refs]) auto
    qed
  qed
  moreover have "housed (moves i ?th' ?p s)" using D(2) by (auto simp: housed_def)
  moreover have "claimed (moves i ?th' ?p s)" by (rule claimed_moves [OF D(7) i]) simp_all
  moreover have "closed_while_opening (moves i ?th' ?p s)" by (rule opening_moves [OF D(6) i]) simp_all
  moreover have "gated (moves i ?th' ?p s)" by (rule gated_moves [OF D(4) i]) simp
  moreover have "guarded (moves i ?th' ?p s)" by (rule guarded_moves [OF D(5) i]) simp
  ultimately show ?thesis using counted_moves [OF D(1) i refs] by (simp add: sys_ok_def)
qed

text \<open>What a thread goes on with has the references and the gate it had beside the one it drops.\<close>

lemma resumed_simps [simp]:
  "refs_of (resumed k) = refs_after k" "guard_of (resumed k) = None" "opens (resumed k) = None"
  "about (resumed k) = None" "outside (resumed k) = None"
  by (cases k; cases "case k of Ended c \<Rightarrow> c | Budget c skip \<Rightarrow> c | Walk as \<Rightarrow> ForOwner"; simp)+

lemma resumed_gate: "gate_of (resumed k) = Some wg \<Longrightarrow> gate_after k = Some wg"
  by (cases k; cases "case k of Ended c \<Rightarrow> c | Budget c skip \<Rightarrow> c | Walk as \<Rightarrow> ForOwner"; simp)

lemma in_map_mapped: "in_map p a = mapped p a"
  unfolding in_map_def mapped_def entry_of_def fmran'_def by (auto simp: fmran'_def)

lemma drop_mapped: "mapped p a \<Longrightarrow> drop_arc a p = map_allocation (\<lambda>l. l\<lparr>lv_held := lv_held l - 1\<rparr>) a p"
  using in_map_cong [of "map_allocation (\<lambda>l. l\<lparr>lv_held := lv_held l - 1\<rparr>) a p" p a]
  by (simp add: drop_arc_def Let_def in_map_mapped)

lemma drop_last:
  assumes "\<not> mapped p a" "held p a = 1"
  shows "allocation_of (drop_arc a p) b = (if b = a then None else allocation_of p b)"
    "entry_of (drop_arc a p) ws = entry_of p ws" "pl_next (drop_arc a p) = pl_next p"
proof -
  let ?q = "map_allocation (\<lambda>l. l\<lparr>lv_held := lv_held l - 1\<rparr>) a p"
  have "\<not> in_map ?q a" using assms(1) in_map_cong [of ?q p a] by (simp add: in_map_mapped)
  moreover obtain l where "allocation_of p a = Some l" "lv_held l = 1"
    using assms(2) by (auto simp: held_def split: option.splits)
  then have "held ?q a = 0" by (simp add: held_def)
  ultimately have d: "drop_arc a p = ?q\<lparr>pl_heap := fmdrop a (pl_heap ?q)\<rparr>" by (simp add: drop_arc_def Let_def)
  show "allocation_of (drop_arc a p) b = (if b = a then None else allocation_of p b)"
    using map_allocation_simps(4) [of "\<lambda>l. l\<lparr>lv_held := lv_held l - 1\<rparr>" a p b]
    unfolding d by (simp add: allocation_of_def [symmetric])
  show "entry_of (drop_arc a p) ws = entry_of p ws" "pl_next (drop_arc a p) = pl_next p" by (simp_all add: d)
qed

lemma drops_ok:
  assumes ok: "sys_ok s" and i: "at s i (Releasing a k)"
  shows "sys_ok (moves i (resumed k) (drop_arc a (sy_pool s)) s)"
proof -
  note D = sys_okD [OF ok]
  let ?th = "Releasing a k" let ?p = "drop_arc a (sy_pool s)"
  have h: "0 < held (sy_pool s) a" using refs_held [OF D(1) i, of a] by simp
  then have refs: "held ?p b + count_list (refs_of ?th) b = held (sy_pool s) b + count_list (refs_of (resumed k)) b" for b
    by (auto simp: held_drop)
  have gate: "fmlookup (sy_opening s) ws = Some g" if "gate_of (resumed k) = Some (ws, g)" for ws g
    using resumed_gate [OF that] D(4) at_in [OF i] by (fastforce simp: gated_def)
  show ?thesis
  proof (cases "mapped (sy_pool s) a")
    case True
    have "same_shards (sy_pool s) ?p" unfolding drop_mapped [OF True] by (rule same_map_allocation) simp
    then show ?thesis by (rule quiet_step [OF ok i _ refs _ gate]) (use True in \<open>auto split: if_splits\<close>)
  next
    case False
    obtain l where "allocation_of (sy_pool s) a = Some l" using held_allocated [OF h] by blast
    with False D(3) have held1: "held (sy_pool s) a = 1" by (auto simp: placed_def sole_def)
    note dl = drop_last [OF False held1]
    have map: "mapped ?p b = mapped (sy_pool s) b" for b by (simp add: mapped_def dl)
    have "placed (moves i (resumed k) ?p s)"
    proof (rule placedI)
      fix b m assume m: "allocation_of ?p b = Some m"
      then show "b < pl_next ?p" using D(3) by (auto simp: dl placed_def split: if_splits)
      assume nm: "\<not> mapped ?p b"
      with m D(3) have "sole s b" "b \<noteq> a" by (auto simp: dl map placed_def split: if_splits)
      then show "sole (moves i (resumed k) ?p s) b" by (intro sole_moves [OF D(1) i _ _ refs]) auto
    qed
    moreover have "housed (moves i (resumed k) ?p s)"
      using D(2) False by (auto simp: housed_def dl mapped_def)
    moreover have "claimed (moves i (resumed k) ?p s)"
    proof (rule claimed_moves [OF D(7) i])
      fix j x ws b m assume x: "at s j x" "j \<noteq> i" "about x = Some (ws, b)" "allocation_of (sy_pool s) b = Some m"
      have "b \<noteq> a"
      proof
        assume "b = a"
        with two_refs_mapped [OF D(1,3) i x(1)] about_ref [OF x(3)] x(2) False show False by simp
      qed
      with x(4) show "\<exists>m'. allocation_of ?p b = Some m' \<and> lv_workspace m' = lv_workspace m" by (simp add: dl)
    qed simp
    moreover have "closed_while_opening (moves i (resumed k) ?p s)" by (rule opening_moves [OF D(6) i]) (simp_all add: dl)
    ultimately show ?thesis
      using counted_moves [OF D(1) i refs] gated_moves [OF D(4) i gate] guarded_moves [OF D(5) i, of "resumed k"]
      by (simp add: sys_ok_def)
  qed
qed

text \<open>The gates alone.\<close>

lemma gates_ok:
  assumes "sys_ok s" "sy_pool t = sy_pool s" "sy_threads t = sy_threads s"
    and "\<And>th ws g. th \<in> set (sy_threads s) \<Longrightarrow> gate_of th = Some (ws, g) \<Longrightarrow> fmlookup (sy_opening s) ws = Some g
      \<Longrightarrow> fmlookup (sy_opening t) ws = Some g"
  shows "sys_ok t" "at t i th \<longleftrightarrow> at s i th" "free t g \<longleftrightarrow> free s g"
proof -
  have a: "at t i th \<longleftrightarrow> at s i th" for i th by (simp add: at_def assms(3))
  note D = sys_okD [OF assms(1)]
  have "gated t" using D(4) assms(4) unfolding gated_def assms(3) by blast
  moreover have "counted t" using D(1) by (simp add: counted_def refs_count_def assms(2,3))
  moreover have "housed t" using D(2) by (simp add: housed_def assms(2))
  moreover have "placed t" using D(3) unfolding placed_def sole_def assms(2,3) .
  moreover have "guarded t" using D(5) unfolding guarded_def a .
  moreover have "closed_while_opening t" using D(6) unfolding closed_while_opening_def assms(2,3) .
  moreover have "claimed t" using D(7) unfolding claimed_def assms(2,3) .
  ultimately show "sys_ok t" by (simp add: sys_ok_def)
  show "at t i th \<longleftrightarrow> at s i th" by (rule a)
  show "free t g \<longleftrightarrow> free s g" by (simp add: free_def assms(3))
qed

lemma gate_entry_ok:
  assumes "sys_ok s" "gate_entry ws s = (g, t)"
  shows "sys_ok t" "at t i th \<longleftrightarrow> at s i th" "sy_pool t = sy_pool s" "fmlookup (sy_opening t) ws = Some g"
proof -
  have t: "sy_pool t = sy_pool s" "sy_threads t = sy_threads s" "fmlookup (sy_opening t) ws = Some g"
    "\<And>v h. fmlookup (sy_opening s) v = Some h \<Longrightarrow> fmlookup (sy_opening t) v = Some h"
    using assms(2) by (auto simp: gate_entry_def split: option.splits)
  from gates_ok [OF assms(1) t(1,2)] t show "sys_ok t" "at t i th \<longleftrightarrow> at s i th" "sy_pool t = sy_pool s"
    "fmlookup (sy_opening t) ws = Some g" by auto
qed

lemma clones_pos: "th \<in> set (sy_threads s) \<Longrightarrow> gate_of th = Some (ws, g) \<Longrightarrow> 0 < clones s g"
  unfolding clones_def by (auto simp: filter_empty_conv)

lemma retire_ok:
  assumes "sys_ok s"
  shows "sys_ok (retire s)" "at (retire s) i th \<longleftrightarrow> at s i th" "sy_pool (retire s) = sy_pool s"
proof -
  have t: "sy_pool (retire s) = sy_pool s" "sy_threads (retire s) = sy_threads s" by (simp_all add: retire_def)
  have kept: "fmlookup (sy_opening (retire s)) ws = Some g"
    if "th \<in> set (sy_threads s)" "gate_of th = Some (ws, g)" "fmlookup (sy_opening s) ws = Some g" for th ws g
    using clones_pos [OF that(1,2)] that(3) by (simp add: retire_def)
  show "sys_ok (retire s)" by (rule gates_ok(1) [OF assms t]) (rule kept)
  show "at (retire s) i th \<longleftrightarrow> at s i th" by (rule gates_ok(2) [OF assms t]) (rule kept)
  show "sy_pool (retire s) = sy_pool s" by (rule t)
qed

section \<open>Every step\<close>

lemma quiet_same:
  assumes "sys_ok s" "at s i th" "same_shards (sy_pool s) p"
    and "\<And>b. held p b + count_list (refs_of th) b = held (sy_pool s) b + count_list (refs_of th') b"
    and "\<And>b. count_list (refs_of th) b < count_list (refs_of th') b \<Longrightarrow> mapped (sy_pool s) b"
    and "gate_of th' = None \<or> gate_of th' = gate_of th" "guard_of th' = None \<or> guard_of th' = guard_of th"
    and "opens th' = None" "about th' = None \<or> about th' = about th" "outside th = None"
  shows "sys_ok (moves i th' p s)"
proof (rule quiet_step [OF assms(1-5)])
  fix ws g assume "gate_of th' = Some (ws, g)"
  with assms(6) have "gate_of th = Some (ws, g)" by auto
  with sys_okD(4) [OF assms(1)] at_in [OF assms(2)] show "fmlookup (sy_opening s) ws = Some g" by (auto simp: gated_def)
qed (use assms(7-10) in auto)

text \<open>The pool as it was, but for what no count and no lookup depends on.\<close>

lemma quiet_refs:
  assumes "sys_ok s" "at s i th" "same_shards (sy_pool s) p" "same_refs (sy_pool s) p"
    and "\<And>b. count_list (refs_of th') b = count_list (refs_of th) b"
    and "gate_of th' = None \<or> gate_of th' = gate_of th" "guard_of th' = None \<or> guard_of th' = guard_of th"
    and "opens th' = None" "about th' = None \<or> about th' = about th" "outside th = None"
  shows "sys_ok (moves i th' p s)"
  by (rule quiet_same [OF assms(1-3) _ _ assms(6-10)]) (use assms(4,5) in \<open>auto simp: same_refs_def\<close>)

lemma touch_hit:
  assumes "touch ws p = (Some a, q)"
  shows "map_option en_shard (entry_of p ws) = Some a" "same_shards p q"
    "allocation_of p a \<noteq> None \<Longrightarrow> held q b = held p b + (if b = a then 1 else 0)"
proof -
  show "same_shards p q" using same_touch [of p ws] assms by simp
  from assms obtain e where e: "entry_of p ws = Some e" "en_shard e = a"
    "q = clone_arc a (set_entry ws (e\<lparr>en_last_used := pi_tick (pl_inner (tick_up p))\<rparr>) (tick_up p))"
    by (auto simp: touch_def Let_def split: option.splits)
  show "map_option en_shard (entry_of p ws) = Some a" using e by simp
  show "held q b = held p b + (if b = a then 1 else 0)" if "allocation_of p a \<noteq> None"
    unfolding e(3) held_clone held_simps allocation_of_simps using that by simp
qed

lemma touch_miss:
  assumes "touch ws p = (None, q)"
  shows "entry_of p ws = None" "same_shards p q" "same_refs p q"
  using assms by (auto simp: touch_def Let_def same_refs_def split: option.splits)

lemma claim_hit:
  assumes "claim_for_eviction ws p = (Inr (Some a), q)"
  shows "map_option en_shard (entry_of p ws) = Some a" "q = clone_arc a p"
  using assms by (auto simp: claim_for_eviction_def split: option.splits if_splits)

lemma claim_miss: "claim_for_eviction ws p = (Inr None, q) \<Longrightarrow> q = p"
  by (auto simp: claim_for_eviction_def split: option.splits if_splits)

text \<open>A thread that takes a reference out of the map.\<close>

lemma takes_ok:
  assumes ok: "sys_ok s" and i: "at s i th" and e: "map_option en_shard (entry_of (sy_pool s) ws) = Some a"
    and p: "same_shards (sy_pool s) p" "\<And>b. held p b = held (sy_pool s) b + (if b = a then 1 else 0)"
    and refs: "\<And>b. count_list (refs_of th') b = count_list (refs_of th) b + (if b = a then 1 else 0)"
    and th': "gate_of th' = None \<or> gate_of th' = gate_of th" "guard_of th' = None \<or> guard_of th' = guard_of th"
      "opens th' = None" "about th' = None \<or> about th' = Some (ws, a)" "outside th = None"
  shows "sys_ok (moves i th' p s)"
proof (rule quiet_step [OF ok i p(1)])
  fix ws g assume "gate_of th' = Some (ws, g)"
  with th'(1) have "gate_of th = Some (ws, g)" by auto
  with sys_okD(4) [OF ok] at_in [OF i] show "fmlookup (sy_opening s) ws = Some g" by (auto simp: gated_def)
next
  fix b assume "count_list (refs_of th) b < count_list (refs_of th') b"
  with refs [of b] have "b = a" by (auto split: if_splits)
  with housed_entry(2) [OF sys_okD(2) [OF ok] e] show "mapped (sy_pool s) b" by simp
qed (use p(2) refs th' e in auto)

lemma touch_ok:
  assumes "sys_ok s" "at s i th" "touch ws (sy_pool s) = (Some a, p)"
    and "\<And>b. count_list (refs_of th') b = count_list (refs_of th) b + (if b = a then 1 else 0)"
    and "gate_of th' = None \<or> gate_of th' = gate_of th" "guard_of th' = None \<or> guard_of th' = guard_of th"
      "opens th' = None" "about th' = None" "outside th = None"
  shows "sys_ok (moves i th' p s)"
proof -
  note h = touch_hit [OF assms(3)]
  have "allocation_of (sy_pool s) a \<noteq> None" using housed_entry(1) [OF sys_okD(2) [OF assms(1)] h(1)] by auto
  from takes_ok [OF assms(1,2) h(1,2) h(3) [OF this] assms(4-7) _ assms(9)] assms(8) show ?thesis by blast
qed

lemma clone_ok:
  assumes "sys_ok s" "at s i th" "map_option en_shard (entry_of (sy_pool s) ws) = Some a"
    and "same_shards (sy_pool s) p" "same_refs (sy_pool s) p"
    and "\<And>b. count_list (refs_of th') b = count_list (refs_of th) b + (if b = a then 1 else 0)"
    and "gate_of th' = None \<or> gate_of th' = gate_of th" "guard_of th' = None \<or> guard_of th' = guard_of th"
      "opens th' = None" "about th' = None \<or> about th' = Some (ws, a)" "outside th = None"
  shows "sys_ok (moves i th' (clone_arc a p) s)"
proof -
  obtain l where "allocation_of (sy_pool s) a = Some l" using housed_entry(1) [OF sys_okD(2) [OF assms(1)] assms(3)] by blast
  then have a: "allocation_of p a \<noteq> None" using same_shards_alloc [OF same_shards_sym [OF assms(4)]] by (metis option.distinct(1))
  show ?thesis
    by (rule takes_ok [OF assms(1-3) same_shards_trans [OF assms(4) same_clone] _ assms(6-11)])
      (use a assms(5) in \<open>auto simp: held_clone same_refs_def\<close>)
qed

lemma returned_simps [simp]:
  "refs_of (returned c) = refs_of_caller c" "gate_of (returned c) = None" "guard_of (returned c) = None"
  "opens (returned c) = None" "about (returned c) = None" "outside (returned c) = None"
  by (cases c; simp)+

lemma passed_over_simps [simp]:
  "refs_after (passed_over ws k) = refs_after k" "gate_after (passed_over ws k) = gate_after k"
  "refs_after (gave_up k) = refs_after k" "gate_after (gave_up k) = gate_after k"
  by (cases k; simp)+

lemma victim_entry: "victim P skip p = Some (ws, e) \<Longrightarrow> entry_of p ws = Some e"
  by (rule entries_entry) (use victim_Some(1) in blast)

lemma loaded_mapped: "a \<in> set (map snd (loaded P p)) \<Longrightarrow> mapped p a"
  unfolding mapped_def loaded_def using entries_entry by fastforce

lemma walk_starts_ok:
  assumes "sys_ok s" "at s i Idle" "map snd (loaded P (sy_pool s)) = as"
  shows "sys_ok (moves i (Walking as) (fold clone_arc as (sy_pool s)) s)"
proof (rule quiet_same [OF assms(1,2) same_fold_clone])
  have m: "mapped (sy_pool s) a" if "a \<in> set as" for a using loaded_mapped [of a P "sy_pool s"] assms(3) that by simp
  have "\<forall>a \<in> set as. allocation_of (sy_pool s) a \<noteq> None"
    using m sys_okD(2) [OF assms(1)] unfolding mapped_def housed_def by fastforce
  from held_fold_clone [OF this]
  show "held (fold clone_arc as (sy_pool s)) b + count_list (refs_of Idle) b
      = held (sy_pool s) b + count_list (refs_of (Walking as)) b" for b by simp
  show "mapped (sy_pool s) b" if "count_list (refs_of Idle) b < count_list (refs_of (Walking as)) b" for b
    using that m [of b] count_notin [of b as] by (cases "b \<in> set as") auto
qed simp_all

lemma on_shard_same: "on_shard P a m p = (r, q) \<Longrightarrow> same_shards p q" "on_shard P a m p = (r, q) \<Longrightarrow> same_refs p q"
  using keepsD [OF same_on_shard] keepsD [OF refs_on_shard] by blast+

text \<open>A thread that touches no count: it looks, measures, or runs an operation of a shard.\<close>

lemma still_ok:
  assumes "sys_ok s" "at s i th" "count_list (refs_of th') = count_list (refs_of th)"
    and "gate_of th' = None \<or> gate_of th' = gate_of th" "guard_of th' = None \<or> guard_of th' = guard_of th"
    and "opens th' = None" "about th' = None \<or> about th' = about th" "outside th = None"
  shows "touch ws (sy_pool s) = (None, p) \<Longrightarrow> sys_ok (moves i th' p s)"
    and "on_shard P a m (sy_pool s) = (r, p) \<Longrightarrow> sys_ok (moves i th' p s)"
    and "refresh_bytes P (sy_pool s) = p \<Longrightarrow> sys_ok (moves i th' p s)"
    and "sys_ok (moves i th' (refresh_entry P ws (sy_pool s)) s)"
    and "sys_ok (moves i th' (sy_pool s) s)"
proof -
  have quiet: "sys_ok (moves i th' p s)" if "same_shards (sy_pool s) p" "same_refs (sy_pool s) p" for p
    by (rule quiet_refs [OF assms(1,2) that _ assms(4-8)]) (simp add: assms(3))
  show "touch ws (sy_pool s) = (None, p) \<Longrightarrow> sys_ok (moves i th' p s)" by (rule quiet) (rule touch_miss, assumption)+
  show "on_shard P a m (sy_pool s) = (r, p) \<Longrightarrow> sys_ok (moves i th' p s)" by (rule quiet) (rule on_shard_same, assumption)+
  show "refresh_bytes P (sy_pool s) = p \<Longrightarrow> sys_ok (moves i th' p s)"
    using quiet same_refresh_bytes refs_refresh_bytes by blast
  show "sys_ok (moves i th' (refresh_entry P ws (sy_pool s)) s)" by (rule quiet [OF same_refresh_entry refs_refresh_entry])
  show "sys_ok (moves i th' (sy_pool s) s)" by (rule quiet) simp_all
qed

lemma gate_miss_ok:
  assumes "sys_ok s" "at s i (Missed ws res)" "touch ws (sy_pool s) = (None, p)" "gate_entry ws s = (g, t)"
  shows "sys_ok (moves i (Waiting ws res g) p t)"
proof -
  note G = gate_entry_ok [OF assms(1,4)]
  note M = touch_miss [OF assms(3)]
  show ?thesis
    by (rule quiet_step [OF G(1) G(2) [THEN iffD2, OF assms(2)]]) (use M(2,3) in \<open>auto simp: G(3,4) same_refs_def\<close>)
qed

lemma closes_ok:
  assumes "sys_ok s" "at s i (Checking ws a)"
  shows "sys_ok (moves i (Releasing a (Ended ForOwner)) (close_entry ws (sy_pool s)) s)"
proof (cases "close_entry ws (sy_pool s) = sy_pool s")
  case True
  then show ?thesis unfolding True by (intro quiet_refs [OF assms]) auto
next
  case False
  then obtain e where e: "entry_of (sy_pool s) ws = Some e" "strong_count (sy_pool s) e \<le> 2"
    by (auto simp: close_entry_def split: option.splits if_splits)
  with removes_ok [OF assms e] show ?thesis by (simp add: close_entry_def)
qed

lemma pool_step_ok: "pool_step P i s t \<Longrightarrow> sys_ok s \<Longrightarrow> sys_ok t"
proof (induction rule: pool_step.induct)
  case (gate_miss s i ws res p g t)
  from gate_miss_ok [OF gate_miss.prems gate_miss.hyps] show ?case .
next
  case (gate_lock s i ws res g)
  from sys_okD(4) [OF gate_lock.prems] at_in [OF gate_lock.hyps(1)] have "fmlookup (sy_opening s) ws = Some g"
    by (auto simp: gated_def)
  then show ?case by (intro quiet_step [OF gate_lock.prems gate_lock.hyps(1)]) (use gate_lock.hyps(2) in auto)
next
  case (open_miss s i ws res g p)
  note M = touch_miss [OF open_miss.hyps(2)]
  from sys_okD(4) [OF open_miss.prems] at_in [OF open_miss.hyps(1)] have "fmlookup (sy_opening s) ws = Some g"
    by (auto simp: gated_def)
  then show ?case
    by (intro quiet_step [OF open_miss.prems open_miss.hyps(1) M(2)])
      (use M(1,3) same_shards_entry_None [OF M(2)] in \<open>auto simp: same_refs_def\<close>)
next
  case (build_fails s i ws res g e p)
  then have "same_shards (sy_pool s) p" "same_refs (sy_pool s) p"
    by (auto simp: build_def same_shards_def same_refs_def split: prod.splits sum.splits)
  then show ?case by (intro quiet_refs [OF build_fails.prems build_fails.hyps(1)]) auto
next
  case (retire_failed s i ws g e)
  note R = retire_ok [OF retire_failed.prems]
  show ?case by (rule quiet_refs [OF R(1) R(2) [THEN iffD2, OF retire_failed.hyps]]) (simp_all add: R(3))
next
  case (retire_opened s i ws g a)
  note R = retire_ok [OF retire_opened.prems]
  show ?case by (rule quiet_refs [OF R(1) R(2) [THEN iffD2, OF retire_opened.hyps]]) (simp_all add: R(3))
next
  case (budget_victim s i c skip p ws e)
  have p: "same_shards (sy_pool s) p" "same_refs (sy_pool s) p"
    using budget_victim.hyps(2) same_refresh_bytes refs_refresh_bytes by blast+
  have "map_option en_shard (entry_of (sy_pool s) ws) = map_option en_shard (entry_of p ws)"
    using p(1) by (simp add: same_shards_def)
  also have "\<dots> = Some (en_shard e)" using victim_entry [OF budget_victim.hyps(4)] by simp
  finally show ?case by (rule clone_ok [OF budget_victim.prems budget_victim.hyps(1) _ p]) simp_all
next
  case (evict_claims s i ws a p)
  note C = claim_hit [OF evict_claims.hyps(2)]
  show ?case unfolding C(2) by (rule clone_ok [OF evict_claims.prems evict_claims.hyps(1) C(1)]) simp_all
next
  case (close_claims s i ws a p)
  note C = claim_hit [OF close_claims.hyps(2)]
  show ?case unfolding C(2) by (rule clone_ok [OF close_claims.prems close_claims.hyps(1) C(1)]) simp_all
next
  case (claims_none s i ws p)
  show ?case unfolding claim_miss [OF claims_none.hyps(2)] by (rule still_ok(5) [OF claims_none.prems claims_none.hyps(1)]) simp_all
next
  case (measures s i st p)
  then have "refresh_bytes P (sy_pool s) = p" by (simp add: pool_stats_of_def Let_def)
  then show ?case by (rule still_ok(3) [OF measures.prems measures.hyps(1), rotated -1]) simp_all
next
  case (gate_unlock s i ws g r)
  show ?case by (rule still_ok(5) [OF gate_unlock.prems gate_unlock.hyps]) (cases r; simp)+
qed (simp_all add: builds_ok inserts_ok drops_ok closes_ok walk_starts_ok still_ok touch_ok)

lemma sys_start_ok:
  assumes "pool_ok p" "\<forall>a. held p a = 0"
  shows "sys_ok (sys_start p n)"
proof -
  have t: "th = Idle" if "th \<in> set (sy_threads (sys_start p n))" for th using that by (auto simp: sys_start_def)
  have "refs_count (sys_start p n) a = 0" for a by (simp add: refs_count_def sys_start_def sum_list_replicate)
  then have "counted (sys_start p n)" using assms(2) by (simp add: counted_def sys_start_def)
  moreover have "housed (sys_start p n)"
    using assms(1) by (auto simp: housed_def sys_start_def pool_ok_def)
  moreover have "placed (sys_start p n)"
    using assms(1) unfolding placed_def pool_ok_def mapped_def by (fastforce simp: sys_start_def)
  moreover have "gated (sys_start p n)" "guarded (sys_start p n)" "closed_while_opening (sys_start p n)" "claimed (sys_start p n)"
    using t at_in unfolding gated_def guarded_def closed_while_opening_def claimed_def by fastforce+
  ultimately show ?thesis by (simp add: sys_ok_def)
qed

lemma threads_reach_ok: "threads_reach P s t \<Longrightarrow> sys_ok s \<Longrightarrow> sys_ok t"
  by (induction rule: threads_reach.induct) (auto intro: pool_step_ok)

section \<open>What follows\<close>

text \<open>Two live shards of one workspace: one of them is outside the map, and its thread drops its last reference next.\<close>

lemma two_shards:
  assumes ok: "sys_ok s"
    and ab: "allocation_of (sy_pool s) a = Some l" "allocation_of (sy_pool s) b = Some k" "lv_workspace l = lv_workspace k" "a \<noteq> b"
  shows "(held (sy_pool s) a = 1 \<and> (\<exists>k. Releasing a k \<in> set (sy_threads s)))
    \<or> (held (sy_pool s) b = 1 \<and> (\<exists>k. Releasing b k \<in> set (sy_threads s)))"
proof (rule ccontr)
  note D = sys_okD [OF ok]
  assume no: "\<not> ?thesis"
  have place: "mapped (sy_pool s) c \<or> (\<exists>i g. at s i (Built (lv_workspace m) g c))"
    if c: "allocation_of (sy_pool s) c = Some m" "c = a \<or> c = b" for c m
  proof (rule ccontr)
    assume n: "\<not> ?thesis"
    with c(1) D(3) have "sole s c" by (auto simp: placed_def)
    then obtain th where th: "held (sy_pool s) c = 1" "th \<in> set (sy_threads s)" "outside th = Some c" by (auto simp: sole_def)
    show False
    proof (cases th rule: outside.cases)
      case (1 ws g a')
      with th have th': "Built ws g c \<in> set (sy_threads s)" by simp
      with D(7) c(1) have "lv_workspace m = ws" by (fastforce simp: claimed_def)
      with th' n in_at show False by metis
    next
      case (2 a' q)
      with th no c(2) show False by auto
    qed (use th(3) in simp_all)
  qed
  have opened: "entry_of (sy_pool s) ws = None" if "at s i (Built ws g c)" for i ws g c
    using D(6) at_in [OF that] by (fastforce simp: closed_while_opening_def)
  have entry: "map_option en_shard (entry_of (sy_pool s) (lv_workspace m)) = Some c"
    if "allocation_of (sy_pool s) c = Some m" "mapped (sy_pool s) c" for c m
    by (rule mapped_entry [OF D(2) that(2,1)])
  have "\<not> (mapped (sy_pool s) a \<and> mapped (sy_pool s) b)"
    using entry [OF ab(1)] entry [OF ab(2)] ab(3,4) by auto
  moreover have "\<not> (mapped (sy_pool s) a \<and> at s i (Built (lv_workspace k) g b))" for i g
    using entry [OF ab(1)] ab(3) opened [of i "lv_workspace k" g b] by auto
  moreover have "\<not> (mapped (sy_pool s) b \<and> at s i (Built (lv_workspace l) g a))" for i g
    using entry [OF ab(2)] ab(3) opened [of i "lv_workspace l" g a] by auto
  moreover have "\<not> (at s i (Built (lv_workspace l) g a) \<and> at s j (Built (lv_workspace k) h b))" for i j g h
  proof
    assume x: "at s i (Built (lv_workspace l) g a) \<and> at s j (Built (lv_workspace k) h b)"
    with opens_once [OF D(4,5)] ab(3) have "i = j" by fastforce
    with x ab(4) show False by (auto simp: at_def)
  qed
  ultimately show False using place [OF ab(1)] place [OF ab(2)] by blast
qed

text \<open>While a directory is being opened, no other thread opens it, and no shard of it is in the map.\<close>

lemma opening_alone:
  assumes ok: "sys_ok s" and i: "at s i (Building ws res g)"
  shows "entry_of (sy_pool s) ws = None" "at s j th \<Longrightarrow> opens th = Some ws \<Longrightarrow> j = i"
    and "allocation_of (sy_pool s) a = Some l \<Longrightarrow> lv_workspace l = ws
      \<Longrightarrow> held (sy_pool s) a = 1 \<and> (\<exists>k. Releasing a k \<in> set (sy_threads s))"
proof -
  note D = sys_okD [OF ok]
  show none: "entry_of (sy_pool s) ws = None" using D(6) at_in [OF i] by (fastforce simp: closed_while_opening_def)
  show alone: "j = i" if "at s j th" "opens th = Some ws" for j th
    using opens_once [OF D(4,5) that(1) i that(2)] by simp
  show "held (sy_pool s) a = 1 \<and> (\<exists>k. Releasing a k \<in> set (sy_threads s))"
    if a: "allocation_of (sy_pool s) a = Some l" "lv_workspace l = ws" for a l
  proof -
    have "\<not> mapped (sy_pool s) a" using mapped_entry [OF D(2) _ a(1)] a(2) none by auto
    with a D(3) have "sole s a" by (auto simp: placed_def)
    then obtain th where th: "held (sy_pool s) a = 1" "th \<in> set (sy_threads s)" "outside th = Some a" by (auto simp: sole_def)
    show ?thesis
    proof (cases th rule: outside.cases)
      case (1 v h a')
      with th have b: "Built v h a \<in> set (sy_threads s)" by simp
      with D(7) a have "v = ws" by (fastforce simp: claimed_def)
      with b in_at obtain j where j: "at s j (Built ws h a)" by metis
      with alone [OF j] i show ?thesis by (auto simp: at_def)
    qed (use th in auto)
  qed
qed

end
