(* ===== verification/Pool_Threads_Rest.thy ===== *)
theory Pool_Threads_Rest
  imports Pool_Threads_Facts
begin

text \<open>
  How the threads finish: each of them, alone, runs from wherever it is to the end of its call,
  budget pass included, unless it has to wait for a gate; and the threads that have a gate locked
  never wait for another. So from every state there is a run, in which nobody starts a new call,
  to a state in which every thread is idle.
\<close>

section \<open>Runs in which nobody starts a call\<close>

inductive finishing :: "'x penv \<Rightarrow> 'x sys \<Rightarrow> 'x sys \<Rightarrow> bool" for P :: "'x penv" where
  rest: "finishing P s s"
| go: "pool_step P i s t \<Longrightarrow> \<not> at s i Idle \<Longrightarrow> finishing P t u \<Longrightarrow> finishing P s u"

lemma finishing_trans: "finishing P s t \<Longrightarrow> finishing P t u \<Longrightarrow> finishing P s u"
  by (induction rule: finishing.induct) (auto intro: finishing.go)

lemma finishing_reach: "finishing P s t \<Longrightarrow> threads_reach P r s \<Longrightarrow> threads_reach P r t"
  by (induction rule: finishing.induct) (auto intro: threads_reach.step)

text \<open>Thread \<open>i\<close> gets to the end of its call while the others stay where they are.\<close>

definition rests :: "'x penv \<Rightarrow> nat \<Rightarrow> 'x sys \<Rightarrow> bool" where
  "rests P i s \<longleftrightarrow> (\<exists>u. finishing P s u \<and> sy_threads u = (sy_threads s)[i := Idle])"

lemma rests_idle: "at s i Idle \<Longrightarrow> rests P i s"
  unfolding rests_def at_def by (metis finishing.rest list_update_id)

lemma rests_step:
  assumes "at s i th" "th \<noteq> Idle" "pool_step P i s (moves i th' p t)" "sy_threads t = sy_threads s" "rests P i (moves i th' p t)"
  shows "rests P i s"
proof -
  from assms(5) obtain u where u: "finishing P (moves i th' p t) u" "sy_threads u = (sy_threads (moves i th' p t))[i := Idle]"
    by (auto simp: rests_def)
  have "\<not> at s i Idle" using assms(1,2) by (auto simp: at_def)
  with assms(3) u(1) have "finishing P s u" by (blast intro: finishing.go)
  with u(2) assms(4) show ?thesis unfolding rests_def by auto
qed

lemma at_moved [simp]: "at (moves i th p s) i th' \<longleftrightarrow> i < length (sy_threads s) \<and> th' = th"
  by (auto simp: at_def)

lemma at_length: "at s i th \<Longrightarrow> i < length (sy_threads s)"
  by (simp add: at_def)

section \<open>Two lock sections of a shard\<close>

lemma fmupd_twice: "fmupd a y (fmupd a x m) = fmupd a y m"
  by (rule fmap_ext) simp

text \<open>What one section leaves is what the next one finds, when nothing is in between.\<close>

lemma on_shard_bind:
  "on_shard P a (bindM m k) p =
     (case on_shard P a m p of (Inl e, q) \<Rightarrow> (Inl e, q) | (Inr x, q) \<Rightarrow> on_shard P a (k x) q)"
proof (cases "allocation_of p a")
  case (Some l)
  obtain r n w where m: "m (sh_inner (lv_shard l), dir_world P p (lv_workspace l)) = (r, (n, w))"
    by (metis prod.exhaust)
  let ?q = "p\<lparr>pl_heap := fmupd a (l\<lparr>lv_shard := (lv_shard l)\<lparr>sh_inner := n\<rparr>\<rparr>) (pl_heap p), pl_dirs := fmupd (lv_workspace l) w (pl_dirs p)\<rparr>"
  have q: "on_shard P a m p = (r, ?q)" using Some m by (simp add: on_shard_def)
  show ?thesis
  proof (cases r)
    case (Inl e)
    with Some m q show ?thesis by (simp add: on_shard_def bindM_def)
  next
    case (Inr x)
    have a: "allocation_of ?q a = Some (l\<lparr>lv_shard := (lv_shard l)\<lparr>sh_inner := n\<rparr>\<rparr>)" by (simp add: allocation_of_def)
    have d: "dir_world P ?q (lv_workspace l) = w" by (simp add: dir_world_def)
    obtain r' n' w' where "k x (n, w) = (r', (n', w'))" by (metis prod.exhaust)
    with Some m q Inr a d show ?thesis by (simp add: on_shard_def bindM_def fmupd_twice)
  qed
qed (simp add: on_shard_def)

section \<open>From one place to the next\<close>

lemma rests_holding: "at s i (Holding a) \<Longrightarrow> rests P i s"
proof -
  assume a: "at s i (Holding a)"
  let ?t = "moves i (Releasing a (Ended ForOwner)) (sy_pool s) s"
  have t: "at ?t i (Releasing a (Ended ForOwner))" using at_length [OF a] by simp
  have "rests P i ?t"
    by (rule rests_step [OF t _ pool_step.drops [OF t] refl rests_idle]) (use at_length [OF t] in simp_all)
  from rests_step [OF a _ pool_step.finishes [OF a] refl this] show ?thesis by simp
qed

lemma rests_returned: "at s i (returned c) \<Longrightarrow> rests P i s"
  by (cases c) (auto intro: rests_holding rests_idle)

text \<open>One victim: the four lock sections of the thread do what \<open>demote\<close> does.\<close>

definition demoted_to :: "uuid \<Rightarrow> after \<Rightarrow> error + bool \<Rightarrow> after" where
  "demoted_to ws k r = (case r of Inl e \<Rightarrow> gave_up k | Inr b \<Rightarrow> if b then k else passed_over ws k)"

lemma rests_releasing:
  assumes a: "at s i (Releasing a k)" and go: "rests P i (moves i (resumed k) (drop_arc a (sy_pool s)) s)"
  shows "rests P i s"
  by (rule rests_step [OF a _ pool_step.drops [OF a] refl go]) simp

lemma rests_demoting:
  assumes a: "at s i (Demoting ws a k)" and d: "demote P ws a (sy_pool s) = (r, q)"
    and go: "\<And>t. sy_threads t = (sy_threads s)[i := resumed (demoted_to ws k r)] \<Longrightarrow> sy_pool t = q \<Longrightarrow> rests P i t"
  shows "rests P i s"
proof -
  have l: "i < length (sy_threads s)" using a by (rule at_length)
  have release: "rests P i (moves i (Releasing a (demoted_to ws k r)) p t)"
    if "drop_arc a p = q" "sy_threads t = (sy_threads s)[i := th]" for p t th
    by (rule rests_releasing [OF _ go]) (use that l in simp_all)
  show ?thesis
  proof (cases "residency_of (sy_pool s) a = Viewed")
    case True
    with d have "r = Inr False" "drop_arc a (sy_pool s) = q" by (simp_all add: demote_def)
    with release [of "sy_pool s" s "sy_threads s ! i"] have
      "rests P i (moves i (Releasing a (passed_over ws k)) (sy_pool s) s)" by (simp add: demoted_to_def)
    from rests_step [OF a _ pool_step.demote_viewed [OF a True] refl this] show ?thesis by simp
  next
    case False
    obtain r1 p1 where snap: "on_shard P a (shard_snapshot (pe_shard P)) (sy_pool s) = (r1, p1)" by fastforce
    show ?thesis
    proof (cases r1)
      case (Inl e)
      with snap False d have "r = Inl e" "drop_arc a p1 = q"
        by (simp_all add: demote_def shard_demote_def on_shard_bind)
      with release [of p1 s "sy_threads s ! i"] have "rests P i (moves i (Releasing a (gave_up k)) p1 s)" by (simp add: demoted_to_def)
      from rests_step [OF a _ pool_step.demote_fails [OF a False snap [unfolded Inl]] refl this] show ?thesis by simp
    next
      case (Inr n)
      let ?t = "moves i (Mapping ws a k) p1 s"
      have at: "at ?t i (Mapping ws a k)" using l by simp
      obtain r2 p2 where view: "on_shard P a (demote_view (pe_shard P)) (sy_pool ?t) = (r2, p2)" by fastforce
      have "rests P i ?t"
      proof (cases r2)
        case (Inl e)
        with snap Inr view False d have "r = Inl e" "drop_arc a p2 = q"
          by (simp_all add: demote_def shard_demote_def on_shard_bind)
        with release [of p2 ?t "Mapping ws a k"] have "rests P i (moves i (Releasing a (gave_up k)) p2 ?t)" by (simp add: demoted_to_def)
        from rests_step [OF at _ pool_step.map_fails [OF at view [unfolded Inl]] refl this] show ?thesis by simp
      next
        case (Inr u)
        let ?v = "moves i (Refreshing ws a k) p2 ?t"
        have av: "at ?v i (Refreshing ws a k)" using l by simp
        from snap \<open>r1 = Inr n\<close> view Inr False d have "r = Inr True" "drop_arc a (refresh_entry P ws p2) = q"
          by (simp_all add: demote_def shard_demote_def on_shard_bind)
        with release [of "refresh_entry P ws p2" ?v "Refreshing ws a k"] have
          "rests P i (moves i (Releasing a k) (refresh_entry P ws (sy_pool ?v)) ?v)" by (simp add: demoted_to_def)
        from rests_step [OF av _ pool_step.refreshes [OF av] refl this] have "rests P i ?v" by simp
        from rests_step [OF at _ pool_step.maps [OF at view [unfolded Inr]] refl this] show ?thesis by simp
      qed
      from rests_step [OF a _ pool_step.demote_snapshots [OF a False snap [unfolded Inr]] refl this] show ?thesis by simp
    qed
  qed
qed

lemma rests_budgeting: "at s i (Budgeting c skip) \<Longrightarrow> rests P i s" for s :: "'x sys"
proof (induction "work_left skip (sy_pool s)" arbitrary: skip s rule: less_induct)
  case less
  note a = less.prems
  let ?p = "refresh_bytes P (sy_pool s)"
  show ?case
  proof (cases "total_bytes P ?p \<le> pl_budget_bytes ?p \<or> victim P skip ?p = None")
    case True
    from rests_step [OF a _ pool_step.budget_kept [OF a refl True] refl rests_returned] at_length [OF a] show ?thesis by simp
  next
    case False
    then obtain ws e where v: "victim P skip ?p = Some (ws, e)" "pl_budget_bytes ?p < total_bytes P ?p"
      by (cases "victim P skip ?p") auto
    note V = victim_Some [OF v(1)]
    let ?t = "moves i (Demoting ws (en_shard e) (Budget c skip)) (clone_arc (en_shard e) ?p) s"
    have t: "at ?t i (Demoting ws (en_shard e) (Budget c skip))" using at_length [OF a] by simp
    obtain r q where d: "demote P ws (en_shard e) (sy_pool ?t) = (r, q)" by fastforce
    have "rests P i ?t"
    proof (rule rests_demoting [OF t d])
      fix u :: "'x sys" assume u: "sy_threads u = (sy_threads ?t)[i := resumed (demoted_to ws (Budget c skip) r)]" "sy_pool u = q"
      show "rests P i u"
      proof (cases r)
        case (Inl err)
        then have "at u i (returned c)" using u(1) at_length [OF a] by (simp add: at_def demoted_to_def)
        then show ?thesis by (rule rests_returned)
      next
        case (Inr b)
        have "work_left (if b then skip else insert ws skip) (sy_pool u) < work_left skip (sy_pool s)"
          using demote_less [OF _ entries_entry [OF V(1)] V(2), of b q] d Inr u(2) by simp
        moreover have "at u i (Budgeting c (if b then skip else insert ws skip))"
          using u(1) at_length [OF a] Inr by (simp add: at_def demoted_to_def)
        ultimately show ?thesis by (rule less.hyps)
      qed
    qed
    from rests_step [OF a _ pool_step.budget_victim [OF a refl v(2,1)] refl this] show ?thesis by simp
  qed
qed

lemma rests_walking: "at s i (Walking as) \<Longrightarrow> rests P i s"
proof (induction as arbitrary: s)
  case Nil
  from rests_step [OF Nil _ pool_step.walked [OF Nil] refl rests_idle] at_length [OF Nil] show ?case by simp
next
  case (Cons a as)
  obtain r p where w: "on_shard P a (ret ()) (sy_pool s) = (r, p)" by fastforce
  let ?t = "moves i (Releasing a (Walk as)) p s"
  have t: "at ?t i (Releasing a (Walk as))" using at_length [OF Cons.prems] by simp
  have "at (moves i (resumed (Walk as)) (drop_arc a (sy_pool ?t)) ?t) i (Walking as)" using at_length [OF Cons.prems] by simp
  from rests_releasing [OF t Cons.IH [OF this]] have "rests P i ?t" .
  from rests_step [OF Cons.prems _ pool_step.walks [OF Cons.prems w] refl this] show ?case by simp
qed

lemma rests_resumed: "at s i (resumed k) \<Longrightarrow> rests P i s"
  by (cases k) (auto intro: rests_returned rests_budgeting rests_walking)

lemma rests_after:
  "at s i (Releasing a k) \<Longrightarrow> rests P i s" "at s i (Demoting ws a k) \<Longrightarrow> rests P i s"
  "at s i (Refreshing ws a k) \<Longrightarrow> rests P i s" "at s i (Mapping ws a k) \<Longrightarrow> rests P i s"
proof -
  have l: "at (moves i th p s) i th" if "at s i th'" for th th' p and s :: "'a sys" using at_length [OF that] by simp
  show r: "rests P i s" if "at s i (Releasing a k)" for s k
    by (rule rests_releasing [OF that rests_resumed [OF l [OF that]]])
  show "rests P i s" if a: "at s i (Demoting ws a k)"
  proof -
    obtain x q where "demote P ws a (sy_pool s) = (x, q)" by fastforce
    then show ?thesis
      by (rule rests_demoting [OF a]) (rule rests_resumed, use at_length [OF a] in \<open>simp add: at_def\<close>)
  qed
  show f: "rests P i s" if a: "at s i (Refreshing ws a k)" for s
    using rests_step [OF a _ pool_step.refreshes [OF a] refl r [OF l [OF a]]] by simp
  show "rests P i s" if a: "at s i (Mapping ws a k)"
  proof -
    obtain x q where v: "on_shard P a (demote_view (pe_shard P)) (sy_pool s) = (x, q)" by fastforce
    show ?thesis
    proof (cases x)
      case (Inl e)
      from rests_step [OF a _ pool_step.map_fails [OF a v [unfolded Inl]] refl r [OF l [OF a]]] show ?thesis by simp
    next
      case (Inr u)
      from rests_step [OF a _ pool_step.maps [OF a v [unfolded Inr]] refl f [OF l [OF a]]] show ?thesis by simp
    qed
  qed
qed

lemma rests_closing: "at s i (Checking ws a) \<Longrightarrow> rests P i s" "at s i (Closing ws a) \<Longrightarrow> rests P i s"
proof -
  have l: "at (moves i th p s) i th" if "at s i th'" for th th' p and s :: "'a sys" using at_length [OF that] by simp
  show c: "rests P i s" if a: "at s i (Checking ws a)" for s
    using rests_step [OF a _ pool_step.closes [OF a] refl rests_after(1) [OF l [OF a]]] by simp
  show "rests P i s" if a: "at s i (Closing ws a)"
  proof -
    obtain x q where v: "on_shard P a (shard_snapshot (pe_shard P)) (sy_pool s) = (x, q)" by fastforce
    show ?thesis
    proof (cases x)
      case (Inl e)
      from rests_step [OF a _ pool_step.close_fails [OF a v [unfolded Inl]] refl rests_after(1) [OF l [OF a]]] show ?thesis by simp
    next
      case (Inr u)
      from rests_step [OF a _ pool_step.close_snapshots [OF a v [unfolded Inr]] refl c [OF l [OF a]]] show ?thesis by simp
    qed
  qed
qed

section \<open>Opening\<close>

text \<open>A thread that has the gate locked, or had it, finishes whoever waits for it.\<close>

lemma rests_opening:
  "at s i (Retiring ws g r) \<Longrightarrow> rests P i s" "at s i (Unlocking ws g r) \<Longrightarrow> rests P i s"
  "at s i (Built ws g a) \<Longrightarrow> rests P i s" "at s i (Building ws res g) \<Longrightarrow> rests P i s" "at s i (Locked ws res g) \<Longrightarrow> rests P i s"
proof -
  have l: "at (moves i th p t) i th" if "at s i th'" "sy_threads t = sy_threads s" for th th' p and s t :: "'a sys"
    using at_length [OF that(1)] that(2) by simp
  have threads: "sy_threads (retire s) = sy_threads s" for s :: "'a sys" by (simp add: retire_def)
  show r: "rests P i s" if a: "at s i (Retiring ws g r)" for s r
  proof (cases r)
    case (Inl e)
    from rests_step [OF a _ pool_step.retire_failed [OF a [unfolded Inl]] threads rests_idle [OF l [OF a threads]]] show ?thesis by simp
  next
    case (Inr b)
    from rests_step [OF a _ pool_step.retire_opened [OF a [unfolded Inr]] threads rests_budgeting [OF l [OF a threads]]]
    show ?thesis by simp
  qed
  show u: "rests P i s" if a: "at s i (Unlocking ws g r)" for s r
    using rests_step [OF a _ pool_step.gate_unlock [OF a] refl r [OF l [OF a refl]]] by simp
  show b: "rests P i s" if a: "at s i (Built ws g a)" for s a
    using rests_step [OF a _ pool_step.inserts [OF a] refl u [OF l [OF a refl]]] by simp
  show m: "rests P i s" if a: "at s i (Building ws res g)" for s
  proof -
    obtain x q where v: "build P ws res (sy_pool s) = (x, q)" by fastforce
    show ?thesis
    proof (cases x)
      case (Inl e)
      from rests_step [OF a _ pool_step.build_fails [OF a v [unfolded Inl]] refl u [OF l [OF a refl]]] show ?thesis by simp
    next
      case (Inr c)
      from rests_step [OF a _ pool_step.builds [OF a v [unfolded Inr]] refl b [OF l [OF a refl]]] show ?thesis by simp
    qed
  qed
  show "rests P i s" if a: "at s i (Locked ws res g)"
  proof -
    obtain x q where v: "touch ws (sy_pool s) = (x, q)" by fastforce
    show ?thesis
    proof (cases x)
      case None
      from rests_step [OF a _ pool_step.open_miss [OF a v [unfolded None]] refl m [OF l [OF a refl]]] show ?thesis by simp
    next
      case (Some c)
      from rests_step [OF a _ pool_step.open_hit [OF a v [unfolded Some]] refl u [OF l [OF a refl]]] show ?thesis by simp
    qed
  qed
qed

text \<open>One on its way to the gate finishes when no other thread has a gate locked.\<close>

definition unguarded :: "nat \<Rightarrow> 'x sys \<Rightarrow> bool" where
  "unguarded i s \<longleftrightarrow> (\<forall>j th. at s j th \<longrightarrow> j \<noteq> i \<longrightarrow> guard_of th = None)"

lemma unguarded_moves: "unguarded i s \<Longrightarrow> sy_threads t = sy_threads s \<Longrightarrow> unguarded i (moves i th p t)"
  by (auto simp: unguarded_def at_def)

lemma gate_entry_threads: "gate_entry ws s = (g, t) \<Longrightarrow> sy_threads t = sy_threads s \<and> sy_pool t = sy_pool s"
  by (auto simp: gate_entry_def split: option.splits)

lemma rests_asking:
  "at s i (Waiting ws res g) \<Longrightarrow> unguarded i s \<Longrightarrow> rests P i s" "at s i (Missed ws res) \<Longrightarrow> unguarded i s \<Longrightarrow> rests P i s"
  "at s i (Asked ws res) \<Longrightarrow> unguarded i s \<Longrightarrow> rests P i s" "at s i (Looking ws) \<Longrightarrow> unguarded i s \<Longrightarrow> rests P i s"
proof -
  have l: "at (moves i th p t) i th" if "at s i th'" "sy_threads t = sy_threads s" for th th' p and s t :: "'a sys"
    using at_length [OF that(1)] that(2) by simp
  show w: "rests P i s" if a: "at s i (Waiting ws res g)" and n: "unguarded i s" for s res g
  proof -
    have "free s g"
      unfolding free_def
    proof
      fix th assume "th \<in> set (sy_threads s)"
      then obtain j where j: "at s j th" using in_at by blast
      show "guard_of th \<noteq> Some g"
      proof (cases "j = i")
        case True
        with j a at_same have "th = Waiting ws res g" by metis
        then show ?thesis by simp
      next
        case False
        with j n show ?thesis by (simp add: unguarded_def)
      qed
    qed
    from rests_step [OF a _ pool_step.gate_lock [OF a this] refl rests_opening(5) [OF l [OF a refl]]] show ?thesis by simp
  qed
  show m: "rests P i s" if a: "at s i (Missed ws res)" and n: "unguarded i s" for s res
  proof -
    obtain x q where v: "touch ws (sy_pool s) = (x, q)" by fastforce
    show ?thesis
    proof (cases x)
      case None
      obtain g t where g: "gate_entry ws s = (g, t)" by fastforce
      then have t: "sy_threads t = sy_threads s" by (simp add: gate_entry_threads)
      from rests_step [OF a _ pool_step.gate_miss [OF a v [unfolded None] g] t w [OF l [OF a t] unguarded_moves [OF n t]]]
      show ?thesis by simp
    next
      case (Some c)
      from rests_step [OF a _ pool_step.gate_hit [OF a v [unfolded Some]] refl rests_holding [OF l [OF a refl]]] show ?thesis by simp
    qed
  qed
  show k: "rests P i s" if a: "at s i (Asked ws res)" and n: "unguarded i s" for s res
  proof -
    obtain x q where v: "touch ws (sy_pool s) = (x, q)" by fastforce
    show ?thesis
    proof (cases x)
      case None
      from rests_step [OF a _ pool_step.peek_miss [OF a v [unfolded None]] refl m [OF l [OF a refl] unguarded_moves [OF n refl]]]
      show ?thesis by simp
    next
      case (Some c)
      from rests_step [OF a _ pool_step.peek_hit [OF a v [unfolded Some]] refl rests_holding [OF l [OF a refl]]] show ?thesis by simp
    qed
  qed
  show "rests P i s" if a: "at s i (Looking ws)" and n: "unguarded i s"
  proof (cases "fmlookup (pl_dirs (sy_pool s)) ws = None")
    case True
    from rests_step [OF a _ pool_step.no_directory [OF a True] refl rests_idle [OF l [OF a refl]]] show ?thesis by simp
  next
    case False
    from rests_step [OF a _ pool_step.directory [OF a False] refl k [OF l [OF a refl] unguarded_moves [OF n refl]]] show ?thesis by simp
  qed
qed

section \<open>All of them\<close>

lemma guard_rests:
  assumes "at s i th" "guard_of th \<noteq> None"
  shows "rests P i s"
  using assms rests_opening [of s i] by (cases th) auto

lemma thread_rests:
  assumes "at s i th" "unguarded i s"
  shows "rests P i s"
proof (cases th)
qed (use assms in \<open>auto intro: rests_opening rests_asking rests_closing rests_after rests_idle rests_holding rests_budgeting rests_walking\<close>)

text \<open>First those that have a gate locked, then the others, one after the other.\<close>

definition busy :: "'x sys \<Rightarrow> nat" where
  "busy s = length (filter (\<lambda>th. th \<noteq> Idle) (sy_threads s))"

lemma busy_less:
  assumes "at s i th" "th \<noteq> Idle" "sy_threads u = (sy_threads s)[i := Idle]"
  shows "busy u < busy s"
proof -
  have "sy_threads s = take i (sy_threads s) @ th # drop (Suc i) (sy_threads s)" "length (take i (sy_threads s)) = i"
    using assms(1) id_take_nth_drop [of i "sy_threads s"] by (simp_all add: at_def)
  then obtain xs ys where x: "sy_threads s = xs @ th # ys" "length xs = i" by blast
  then have "sy_threads u = xs @ Idle # ys" using assms(3) by (simp add: list_update_append)
  with x assms(2) show ?thesis by (simp add: busy_def)
qed

lemma all_rest: "\<exists>u. finishing P s u \<and> (\<forall>th \<in> set (sy_threads u). th = Idle)"
proof (induction "busy s" arbitrary: s rule: less_induct)
  case less
  have one: ?case if "at s i th" "th \<noteq> Idle" "rests P i s" for i th
  proof -
    from that(3) obtain t where t: "finishing P s t" "sy_threads t = (sy_threads s)[i := Idle]" by (auto simp: rests_def)
    from less [OF busy_less [OF that(1,2) t(2)]] finishing_trans [OF t(1)] show ?thesis by blast
  qed
  show ?case
  proof (cases "\<forall>th \<in> set (sy_threads s). th = Idle")
    case True
    then show ?thesis using finishing.rest by blast
  next
    case False
    then obtain j thj where j: "at s j thj" "thj \<noteq> Idle" using in_at by blast
    show ?thesis
    proof (cases "\<exists>i th. at s i th \<and> guard_of th \<noteq> None")
      case True
      then obtain i th where i: "at s i th" "guard_of th \<noteq> None" by blast
      then have "th \<noteq> Idle" by auto
      with one [OF i(1) _ guard_rests [OF i]] show ?thesis by blast
    next
      case none: False
      then have "unguarded j s" by (auto simp: unguarded_def)
      from one [OF j thread_rests [OF j(1) this]] show ?thesis .
    qed
  qed
qed

text \<open>With the invariant, a system at rest is as good as new.\<close>

lemma idle_pool:
  assumes ok: "sys_ok s" and idle: "\<forall>th \<in> set (sy_threads s). th = Idle"
  shows "pool_ok (sy_pool s)" "held (sy_pool s) a = 0"
proof -
  note D = sys_okD [OF ok]
  have z: "refs_of th = []" if "th \<in> set (sy_threads s)" for th using idle that by auto
  then have "refs_count s a = 0" for a by (auto simp: refs_count_def)
  with D(1) show h: "held (sy_pool s) a = 0" for a by (simp add: counted_def)
  have m: "a < pl_next (sy_pool s) \<and> (\<exists>e. entry_of (sy_pool s) (lv_workspace l) = Some e \<and> en_shard e = a)"
    if al: "allocation_of (sy_pool s) a = Some l" for a l
  proof -
    from D(3) al have "a < pl_next (sy_pool s)" "mapped (sy_pool s) a \<or> sole s a" by (auto simp: placed_def)
    moreover have "\<not> sole s a" using h [of a] by (simp add: sole_def)
    ultimately show ?thesis using mapped_entry [OF D(2) _ al] by (auto simp: map_option_eq_Some)
  qed
  with D(2) show "pool_ok (sy_pool s)" by (auto simp: pool_ok_def housed_def)
qed

declare at_moved [simp del]

end
