(* ===== verification/Pool_Threads_Properties.thy ===== *)
theory Pool_Threads_Properties
  imports Pool_Threads_Rest Service_Samples
begin

text \<open>
  The properties of the pool under interleaving threads, each with a concrete run.
\<close>

section \<open>Runs\<close>

lemma threads_reach_trans: "threads_reach P t u \<Longrightarrow> threads_reach P s t \<Longrightarrow> threads_reach P s u"
  by (induction rule: threads_reach.induct) (auto intro: threads_reach.step)

lemma sys_start_at: "i < n \<Longrightarrow> at (sys_start p n) i Idle"
  by (simp add: at_def sys_start_def)

lemma touch_absent: "entry_of p ws = None \<Longrightarrow> touch ws p = (None, tick_up p)"
  by (simp add: touch_def Let_def)

text \<open>A caller that finds no shard, and nobody at the gates, gets to open the directory itself.\<close>

lemma reaches_building:
  assumes j: "at s j Idle" and none: "entry_of (sy_pool s) ws = None" and guards: "\<forall>th \<in> set (sy_threads s). guard_of th = None"
  obtains u g where "threads_reach P s u" "at u j (Building ws Loaded g)" "sy_threads u = (sy_threads s)[j := Building ws Loaded g]"
    "sy_pool u = tick_up (tick_up (tick_up (sy_pool s)))"
proof -
  let ?p = "sy_pool s"
  let ?s1 = "moves j (Asked ws Loaded) ?p s"
  have r1: "threads_reach P s ?s1" by (rule threads_reach.step [OF threads_reach.start pool_step.ask]) (rule j)
  have a1: "at ?s1 j (Asked ws Loaded)" by (simp add: at_moves [OF j])
  let ?s2 = "moves j (Missed ws Loaded) (tick_up ?p) ?s1"
  have r2: "threads_reach P s ?s2"
    by (rule threads_reach.step [OF r1 pool_step.peek_miss [OF a1]]) (simp add: touch_absent none)
  have a2: "at ?s2 j (Missed ws Loaded)" by (simp add: at_moves [OF a1])
  obtain g t where g: "gate_entry ws ?s2 = (g, t)" by fastforce
  note T = gate_entry_threads [OF g]
  let ?s3 = "moves j (Waiting ws Loaded g) (tick_up (tick_up ?p)) t"
  have r3: "threads_reach P s ?s3"
    by (rule threads_reach.step [OF r2 pool_step.gate_miss [OF a2 _ g]]) (simp add: touch_absent none)
  have l: "j < length (sy_threads s)" using j by (simp add: at_def)
  have a3: "at ?s3 j (Waiting ws Loaded g)" using l T by (simp add: at_def)
  have th: "sy_threads ?s3 = (sy_threads s)[j := Waiting ws Loaded g]" using T by simp
  have "free ?s3 g" using guards set_update_subset_insert [of "sy_threads s" j "Waiting ws Loaded g"] unfolding free_def th by auto
  note r4 = threads_reach.step [OF r3 pool_step.gate_lock [OF a3 this]]
  let ?s4 = "moves j (Locked ws Loaded g) (sy_pool ?s3) ?s3"
  have a4: "at ?s4 j (Locked ws Loaded g)" by (simp add: at_moves [OF a3])
  let ?s5 = "moves j (Building ws Loaded g) (tick_up (sy_pool ?s4)) ?s4"
  have r5: "threads_reach P s ?s5"
    by (rule threads_reach.step [OF r4 pool_step.open_miss [OF a4]]) (simp add: touch_absent none)
  have "at ?s5 j (Building ws Loaded g)" using a4 by (simp add: at_def)
  moreover have "sy_threads ?s5 = (sy_threads s)[j := Building ws Loaded g]" using th by simp
  moreover have "sy_pool ?s5 = tick_up (tick_up (tick_up ?p))" by simp
  ultimately show thesis by (rule that [OF r5])
qed

section \<open>A pool with one shard whose indexes are saved\<close>

definition saved_env :: "(bool \<times> u64 list) penv" where
  "saved_env = sample_penv\<lparr>pe_shard := sample_senv\<lparr>se_state := \<lparr> enc = (\<lambda>_. None),
     dec = (\<lambda>_. Some \<lparr> ix_version = INDEX_STATE_VERSION, ix_seq = 0, ix_splits = 0, ix_summaries = 0 \<rparr>) \<rparr>\<rparr>\<rparr>"

definition saved_world :: world where
  "saved_world = (world1 [])\<lparr>files := fmupd IndexStateFile [] (files (world1 []))\<rparr>"

abbreviation saved_pool :: "(bool \<times> u64 list) pool" where
  "saved_pool \<equiv> sample_pool (store1, saved_world)"

lemma sample_pool_fields:
  "entry_of (sample_pool x) 5 = Some \<lparr> en_shard = 0, en_last_used = 0, en_bytes = 0 \<rparr>" "entry_of (sample_pool x) 6 = None"
  "allocation_of (sample_pool x) 0 = Some \<lparr> lv_workspace = 5, lv_shard = sample_shard x, lv_held = 0, lv_busy = False \<rparr>"
  "held (sample_pool x) a = 0"
  by (auto simp: entry_of_def allocation_of_def sample_pool_def held_def)

lemma saved_snapshot:
  "\<exists>n w. shard_snapshot (pe_shard saved_env) (sh_inner (sample_shard (store1, saved_world)), saved_world) = (Inr 0, (n, w))"
  by (simp add: shard_snapshot_def in_log_def store_fsync_def on_active_def zoom_def seg_sync_def seqM_def bindM_def getM_def
      seg_flush_def flush_buf_def next_fault_def on_world_def modM_def fs_sync_def io_clean sample_shard_def store1_def seg1_def
      saved_world_def world1_def saved_env_def sample_senv_def saturating_sub_def man1_def manifest_new_def index_state_load_def fs_read_def
      from_slice_def ret_def)

text \<open>A thread that has the shard, one that waits for its gate, and one that is about to close it.\<close>

lemma holding_run:
  "threads_reach P (sys_start (sample_pool x) 1)
     (moves 0 (Holding 0) (snd (touch 5 (sample_pool x))) (sys_start (sample_pool x) 1))"
  by (rule threads_reach.step [OF threads_reach.start pool_step.existing_hit [where ws = 5]])
    (simp_all add: sys_start_at, simp add: sys_start_def touch_def Let_def sample_pool_fields)

lemma checking_run:
  obtains s where "threads_reach saved_env (sys_start saved_pool 2) s" "at s 0 (Checking 5 0)" "at s 1 Idle"
    "sy_threads s = [Checking 5 0, Idle]" "map_option en_shard (entry_of (sy_pool s) 5) = Some 0" "held (sy_pool s) 0 = 1"
proof -
  let ?s = "sys_start saved_pool 2"
  have c: "claim_for_eviction 5 (sy_pool ?s) = (Inr (Some 0), clone_arc 0 saved_pool)"
    by (simp add: claim_for_eviction_def sys_start_def sample_pool_fields strong_count_def)
  let ?t = "moves 0 (Closing 5 0) (clone_arc 0 saved_pool) ?s"
  have t: "threads_reach saved_env ?s ?t"
    by (rule threads_reach.step [OF threads_reach.start pool_step.close_claims [OF sys_start_at c]]) simp
  have a: "at ?t 0 (Closing 5 0)" by (simp add: at_def sys_start_def)
  obtain n w where "shard_snapshot (pe_shard saved_env) (sh_inner (sample_shard (store1, saved_world)), saved_world) = (Inr 0, (n, w))"
    using saved_snapshot by blast
  moreover have "dir_world saved_env (clone_arc 0 saved_pool) 5 = saved_world"
    by (simp add: dir_world_def clone_arc_def map_allocation_def sample_pool_def allocation_of_def)
  moreover have "allocation_of (clone_arc 0 saved_pool) 0 = Some \<lparr> lv_workspace = 5, lv_shard = sample_shard (store1, saved_world),
      lv_held = 1, lv_busy = False \<rparr>"
    by (simp add: clone_arc_def sample_pool_fields)
  ultimately obtain q where q: "on_shard saved_env 0 (shard_snapshot (pe_shard saved_env)) (clone_arc 0 saved_pool) = (Inr 0, q)"
    by (simp add: on_shard_def)
  let ?u = "moves 0 (Checking 5 0) q ?t"
  have u: "threads_reach saved_env ?s ?u"
    by (rule threads_reach.step [OF t pool_step.close_snapshots [OF a]]) (simp add: q)
  have "same_shards saved_pool q" by (rule same_shards_trans [OF same_clone on_shard_same(1) [OF q]])
  then have "map_option en_shard (entry_of q 5) = Some 0"
    unfolding same_shards_def by (simp add: sample_pool_fields)
  moreover have "held q 0 = 1"
    using on_shard_same(2) [OF q] by (simp add: same_refs_def held_clone sample_pool_fields)
  moreover have "sy_threads ?u = [Checking 5 0, Idle]" by (simp add: sys_start_def numeral_2_eq_2)
  ultimately show thesis by (intro that [OF u]) (simp_all add: at_def)
qed

section \<open>Safety\<close>

text \<open>
  C37: Whatever the threads do and however they interleave, a workspace has at most one live shard
  that somebody can still use: of any others the last reference is about to be dropped.
\<close>

theorem one_live_shard_per_workspace:
  assumes "threads_reach P (sys_start p n) s" "pool_ok p" "\<forall>a. held p a = 0"
  shows "card {a. \<exists>l. allocation_of (sy_pool s) a = Some l \<and> lv_workspace l = ws
    \<and> \<not> (held (sy_pool s) a = 1 \<and> (\<exists>k. Releasing a k \<in> set (sy_threads s)))} \<le> 1"
proof -
  have ok: "sys_ok s" by (rule threads_reach_ok [OF assms(1) sys_start_ok [OF assms(2,3)]])
  let ?A = "{a. \<exists>l. allocation_of (sy_pool s) a = Some l \<and> lv_workspace l = ws
    \<and> \<not> (held (sy_pool s) a = 1 \<and> (\<exists>k. Releasing a k \<in> set (sy_threads s)))}"
  have eq: "a = b" if "a \<in> ?A" "b \<in> ?A" for a b
  proof (rule ccontr)
    assume "a \<noteq> b"
    with that two_shards [OF ok, of a _ b] show False by fastforce
  qed
  then have "?A = {} \<or> (\<exists>a. ?A = {a})" by blast
  then show ?thesis by (metis (no_types, lifting) card.empty card_1_singleton_iff le_refl zero_le_one One_nat_def)
qed

lemma one_live_shard_per_workspace_witness:
  "\<exists>s. threads_reach sample_penv (sys_start (sample_pool (store1, world1 [])) 1) s \<and> at s 0 (Holding 0)
     \<and> card {a. \<exists>l. allocation_of (sy_pool s) a = Some l \<and> lv_workspace l = 5
          \<and> \<not> (held (sy_pool s) a = 1 \<and> (\<exists>k. Releasing a k \<in> set (sy_threads s)))} \<le> 1"
proof -
  let ?p = "sample_pool (store1, world1 [])"
  let ?s = "moves 0 (Holding 0) (snd (touch 5 ?p)) (sys_start ?p 1)"
  have r: "threads_reach sample_penv (sys_start ?p 1) ?s" by (rule holding_run)
  have h: "\<forall>a. held ?p a = 0" by (simp add: sample_pool_fields)
  have "at ?s 0 (Holding 0)" by (simp add: at_def sys_start_def)
  with r one_live_shard_per_workspace [OF r sample_pool_ok h, of 5] show ?thesis by blast
qed

text \<open>
  C38: While a thread opens a directory nobody else does: no other thread is opening it, the map
  has no shard of it, and a shard of it that is still alive is about to be dropped.
\<close>

theorem openings_are_exclusive:
  assumes "threads_reach P (sys_start p n) s" "pool_ok p" "\<forall>a. held p a = 0" "at s i (Building ws res g)"
  shows "entry_of (sy_pool s) ws = None
    \<and> (\<forall>j th. at s j th \<and> opens th = Some ws \<longrightarrow> j = i)
    \<and> (\<forall>a l. allocation_of (sy_pool s) a = Some l \<and> lv_workspace l = ws
      \<longrightarrow> held (sy_pool s) a = 1 \<and> (\<exists>k. Releasing a k \<in> set (sy_threads s)))"
proof -
  have ok: "sys_ok s" by (rule threads_reach_ok [OF assms(1) sys_start_ok [OF assms(2,3)]])
  note O = opening_alone [OF ok assms(4)]
  from O(1) show ?thesis using O(2,3) by blast
qed

lemma openings_are_exclusive_witness:
  "\<exists>s g. threads_reach sample_penv (sys_start (sample_pool (store1, world1 [])) 2) s \<and> at s 1 (Building 6 Loaded g)
     \<and> entry_of (sy_pool s) 6 = None"
proof -
  let ?s = "sys_start (sample_pool (store1, world1 [])) 2"
  have "entry_of (sy_pool ?s) 6 = None" "\<forall>th \<in> set (sy_threads ?s). guard_of th = None"
    by (simp_all add: sys_start_def sample_pool_fields)
  then obtain u g where u: "threads_reach sample_penv ?s u" "at u 1 (Building 6 Loaded g)"
    using reaches_building [OF sys_start_at] by (metis one_less_numeral_iff semiring_norm(76))
  from openings_are_exclusive [OF u(1) sample_pool_ok _ u(2)] u show ?thesis by (auto simp: sample_pool_fields)
qed

text \<open>
  The references a shard is counted with outside the map are those the threads have, and a
  shard that a thread has a reference to is alive; when every thread is idle, none is held.
\<close>

theorem references_are_what_threads_have:
  assumes "threads_reach P (sys_start p n) s" "pool_ok p" "\<forall>a. held p a = 0"
  shows "held (sy_pool s) a = sum_list (map (\<lambda>th. count_list (refs_of th) a) (sy_threads s))
    \<and> (\<forall>th \<in> set (sy_threads s). a \<in> set (refs_of th) \<longrightarrow> allocation_of (sy_pool s) a \<noteq> None)"
proof -
  note D = sys_okD [OF threads_reach_ok [OF assms(1) sys_start_ok [OF assms(2,3)]]]
  have "allocation_of (sy_pool s) a \<noteq> None" if th: "th \<in> set (sy_threads s)" "a \<in> set (refs_of th)" for th
  proof -
    obtain i where i: "at s i th" using in_at [OF th(1)] ..
    have "0 < count_list (refs_of th) a" using th(2) by (metis count_list_0_iff neq0_conv)
    with refs_held [OF D(1) i, of a] held_allocated [of "sy_pool s" a] show ?thesis by auto
  qed
  with D(1) show ?thesis by (auto simp: counted_def refs_count_def)
qed

lemma references_are_what_threads_have_witness:
  "\<exists>s. threads_reach sample_penv (sys_start (sample_pool (store1, world1 [])) 1) s \<and> at s 0 (Holding 0)
     \<and> held (sy_pool s) 0 = 1 \<and> allocation_of (sy_pool s) 0 \<noteq> None"
proof -
  let ?p = "sample_pool (store1, world1 [])"
  let ?s = "moves 0 (Holding 0) (snd (touch 5 ?p)) (sys_start ?p 1)"
  have r: "threads_reach sample_penv (sys_start ?p 1) ?s" by (rule holding_run)
  have h: "\<forall>a. held ?p a = 0" by (simp add: sample_pool_fields)
  have t: "sy_threads ?s = [Holding 0]" by (simp add: sys_start_def)
  have "at ?s 0 (Holding 0)" by (simp add: at_def sys_start_def)
  moreover have "held (sy_pool ?s) 0 = 1" "allocation_of (sy_pool ?s) 0 \<noteq> None"
    using references_are_what_threads_have [OF r sample_pool_ok h, of 0] unfolding t by simp_all
  ultimately show ?thesis using r by blast
qed

section \<open>Progress\<close>

text \<open>
  C39: The threads can always finish. From every state they reach, by any interleaving, when they
  start idle on a pool that satisfies its invariant and whose shards nobody else holds, there is a
  run in which nobody starts a new call and after which every thread is idle: whoever has a gate
  locked ends its opening and unlocks it, every wait for a gate and every budget pass comes to
  its end, and then nothing is left over: no shard has a reference outside the map, and every
  shard alive is the one in the map under its own workspace. A step is what a thread does
  between taking and releasing the pool's lock, or one operation under a shard's lock, and these
  two are never held from one step to the next; that the code asks for them in one order only,
  gate, pool, shard, is assumed by this and not shown.
\<close>

theorem threads_come_to_rest:
  assumes "threads_reach P (sys_start p n) s" "pool_ok p" "\<forall>a. held p a = 0"
  shows "\<exists>u. finishing P s u \<and> (\<forall>th \<in> set (sy_threads u). th = Idle) \<and> pool_ok (sy_pool u) \<and> (\<forall>a. held (sy_pool u) a = 0)"
proof -
  obtain u where u: "finishing P s u" "\<forall>th \<in> set (sy_threads u). th = Idle" using all_rest by blast
  have "sys_ok u"
    by (rule threads_reach_ok [OF finishing_reach [OF u(1) assms(1)] sys_start_ok [OF assms(2,3)]])
  with u idle_pool [of u] show ?thesis by blast
qed

text \<open>One thread opens a directory and another waits at its gate.\<close>

lemma waiting_run:
  obtains s g h where "threads_reach sample_penv (sys_start (sample_pool (store1, world1 [])) 2) s"
    "at s 1 (Building 6 Loaded g)" "at s 0 (Waiting 6 Loaded h)"
proof -
  let ?s = "sys_start (sample_pool (store1, world1 [])) 2"
  have "entry_of (sy_pool ?s) 6 = None" "\<forall>th \<in> set (sy_threads ?s). guard_of th = None"
    by (simp_all add: sys_start_def sample_pool_fields)
  then obtain u g where u: "threads_reach sample_penv ?s u" "at u 1 (Building 6 Loaded g)" "sy_threads u = (sy_threads ?s)[1 := Building 6 Loaded g]"
    using reaches_building [OF sys_start_at] by (metis one_less_numeral_iff semiring_norm(76))
  have "\<forall>a. held (sample_pool (store1, world1 [])) a = 0" by (simp add: sample_pool_fields)
  from threads_reach_ok [OF u(1) sys_start_ok [OF sample_pool_ok this]] have none: "entry_of (sy_pool u) 6 = None"
    by (rule opening_alone(1) [OF _ u(2)])
  have t: "sy_threads u = [Idle, Building 6 Loaded g]" unfolding u(3) by (simp add: sys_start_def numeral_2_eq_2)
  have a0: "at u 0 Idle" by (simp add: at_def t)
  let ?a = "moves 0 (Asked 6 Loaded) (sy_pool u) u"
  have r1: "threads_reach sample_penv ?s ?a" by (rule threads_reach.step [OF u(1) pool_step.ask [OF a0]])
  have a1: "at ?a 0 (Asked 6 Loaded)" by (simp add: at_def t)
  let ?m = "moves 0 (Missed 6 Loaded) (tick_up (sy_pool ?a)) ?a"
  have r2: "threads_reach sample_penv ?s ?m"
    by (rule threads_reach.step [OF r1 pool_step.peek_miss [OF a1 touch_absent]]) (simp add: none)
  have a2: "at ?m 0 (Missed 6 Loaded)" by (simp add: at_def t)
  obtain h v where h: "gate_entry 6 ?m = (h, v)" by fastforce
  have e: "entry_of (sy_pool ?m) 6 = None" by (simp add: none)
  note r3 = threads_reach.step [OF r2 pool_step.gate_miss [OF a2 touch_absent [OF e] h]]
  have v: "sy_threads v = [Missed 6 Loaded, Building 6 Loaded g]" using gate_entry_threads [OF h] by (simp add: t)
  show thesis by (rule that [OF r3]) (simp_all add: at_def v)
qed

lemma threads_come_to_rest_witness:
  "\<exists>s g h u. threads_reach sample_penv (sys_start (sample_pool (store1, world1 [])) 2) s
     \<and> at s 1 (Building 6 Loaded g) \<and> at s 0 (Waiting 6 Loaded h)
     \<and> finishing sample_penv s u \<and> (\<forall>th \<in> set (sy_threads u). th = Idle) \<and> (\<forall>a. held (sy_pool u) a = 0)"
proof -
  obtain s g h where s: "threads_reach sample_penv (sys_start (sample_pool (store1, world1 [])) 2) s"
    "at s 1 (Building 6 Loaded g)" "at s 0 (Waiting 6 Loaded h)" by (rule waiting_run)
  have "\<forall>a. held (sample_pool (store1, world1 [])) a = 0" by (simp add: sample_pool_fields)
  from threads_come_to_rest [OF s(1) sample_pool_ok this] s show ?thesis by blast
qed

section \<open>Closing\<close>

text \<open>
  C40: Closing a shard takes it out of the map before its last reference is dropped. When another
  thread asks for the workspace just then, it can get to the point of opening the directory while
  the closed shard is still alive.
\<close>

theorem closing_overlaps_opening:
  assumes "threads_reach P (sys_start p n) s" "pool_ok p" "\<forall>a. held p a = 0"
    and "at s i (Checking ws a)" "at s j Idle" "entry_of (sy_pool s) ws = Some e" "strong_count (sy_pool s) e \<le> 2"
    and "\<forall>th \<in> set (sy_threads s). guard_of th = None"
  shows "\<exists>u g l. threads_reach P s u \<and> at u i (Releasing a (Ended ForOwner)) \<and> at u j (Building ws Loaded g)
    \<and> allocation_of (sy_pool u) a = Some l \<and> lv_workspace l = ws"
proof -
  have ok: "sys_ok s" by (rule threads_reach_ok [OF assms(1) sys_start_ok [OF assms(2,3)]])
  obtain l where l: "allocation_of (sy_pool s) a = Some l" "lv_workspace l = ws"
    using sys_okD(7) [OF ok] at_in [OF assms(4)] by (fastforce simp: claimed_def)
  let ?t = "moves i (Releasing a (Ended ForOwner)) (close_entry ws (sy_pool s)) s"
  have p: "close_entry ws (sy_pool s) = remove_entry ws (sy_pool s)" using assms(6,7) by (simp add: close_entry_def)
  have t: "threads_reach P s ?t" by (rule threads_reach.step [OF threads_reach.start pool_step.closes [OF assms(4)]])
  have ij: "i \<noteq> j" using assms(4,5) by (auto simp: at_def)
  have j: "at ?t j Idle" using ij assms(5) by (simp add: at_moves [OF assms(4)])
  have "\<forall>th \<in> set (sy_threads ?t). guard_of th = None"
    using assms(8) set_update_subset_insert [of "sy_threads s" i "Releasing a (Ended ForOwner)"] by auto
  moreover have "entry_of (sy_pool ?t) ws = None" by (simp add: p)
  ultimately obtain u g where
    u: "threads_reach P ?t u" "at u j (Building ws Loaded g)" "sy_threads u = (sy_threads ?t)[j := Building ws Loaded g]"
      "sy_pool u = tick_up (tick_up (tick_up (sy_pool ?t)))" using reaches_building [OF j] by metis
  have "at u i (Releasing a (Ended ForOwner))" using assms(4) ij by (simp add: at_def u(3))
  moreover have "allocation_of (sy_pool u) a = Some l"
    using l(1) by (simp add: u(4) p)
  ultimately show ?thesis using threads_reach_trans [OF u(1) t] u(2) l(2) by blast
qed

lemma closing_overlaps_opening_witness:
  "\<exists>u g. threads_reach saved_env (sys_start saved_pool 2) u \<and> at u 0 (Releasing 0 (Ended ForOwner))
     \<and> at u 1 (Building 5 Loaded g) \<and> allocation_of (sy_pool u) 0 \<noteq> None"
proof -
  obtain s where s: "threads_reach saved_env (sys_start saved_pool 2) s" "at s 0 (Checking 5 0)" "at s 1 Idle"
    "sy_threads s = [Checking 5 0, Idle]" "map_option en_shard (entry_of (sy_pool s) 5) = Some 0" "held (sy_pool s) 0 = 1"
    by (rule checking_run)
  then obtain e where e: "entry_of (sy_pool s) 5 = Some e" "strong_count (sy_pool s) e \<le> 2"
    by (auto simp: strong_count_def)
  have "\<forall>a. held saved_pool a = 0" "\<forall>th \<in> set (sy_threads s). guard_of th = None" by (simp_all add: sample_pool_fields s(4))
  from closing_overlaps_opening [OF s(1) sample_pool_ok this(1) s(2,3) e this(2)] threads_reach_trans [OF _ s(1)]
  show ?thesis by (metis option.distinct(1))
qed

end
