(* ===== verification/Storage_Bench.thy ===== *)
theory Storage_Bench
  imports Query "HOL-Library.Sublist"
begin

text \<open>
  The storage benchmark (\<open>embedding-server/src/bin/storage_bench.rs\<close>) as far as it is a program and
  not a printout: its generator of vectors, its reader of the corpus, the documents it makes, the
  query it runs against one shard, the loop that fills the pool, and the removal of the files a
  shard can rebuild. Time, memory and the report are left out. Text is its UTF-8 bytes; the
  characters the code looks for are ASCII or spelled out in \<open>white_space\<close>.
\<close>

section \<open>Vectors\<close>

text \<open>\<open>splitmix64\<close>: the state is the counter.\<close>

type_synonym rng = u64

definition next_u64 :: "rng \<Rightarrow> u64 \<times> rng" where
  "next_u64 s =
     (let s' = s + 0x9E3779B97F4A7C15;
          z1 = (s' XOR (drop_bit 30 s')) * 0xBF58476D1CE4E5B9;
          z2 = (z1 XOR (drop_bit 27 z1)) * 0x94D049BB133111EB in
      (z2 XOR (drop_bit 31 z2), s'))"

definition f32_of_nat :: "nat \<Rightarrow> f32" where
  "f32_of_nat n = word_of_nat (f_of_nat F32_format n)"

definition next_f32 :: "rng \<Rightarrow> f32 \<times> rng" where
  "next_f32 s =
     (case next_u64 s of (u, s') \<Rightarrow>
        let bits = f32_div (f32_of_nat (unat (drop_bit 40 u))) (f32_of_nat (2 ^ 24)) in
        (f32_sub (f32_mul bits (f32_of_nat 2)) f32_one, s'))"

fun next_f32s :: "nat \<Rightarrow> rng \<Rightarrow> f32 list \<times> rng" where
  "next_f32s 0 s = ([], s)"
| "next_f32s (Suc n) s = (case next_f32 s of (x, s') \<Rightarrow> case next_f32s n s' of (xs, s'') \<Rightarrow> (x # xs, s''))"

text \<open>\<open>f32::max\<close>: the other operand when one is a NaN.\<close>

definition f32_max :: "f32 \<Rightarrow> f32 \<Rightarrow> f32" where
  "f32_max a b = (if f32_is_nan a then b else if f32_is_nan b then a else if f32_le b a then a else b)"

text \<open>\<open>1e-12\<close> in single precision.\<close>

definition TINY :: f32 where
  "TINY = 0x2B8CBCCC"

definition unit_vector :: "nat \<Rightarrow> rng \<Rightarrow> f32 list \<times> rng" where
  "unit_vector dim s =
     (case next_f32s dim s of (v, s') \<Rightarrow>
        let norm = f32_max (f32_sqrt (f32_sum (map (\<lambda>x. f32_mul x x) v))) TINY in
        (map (\<lambda>x. f32_div x norm) v, s'))"

section \<open>The corpus\<close>

text \<open>
  The loop over the characters: whether the position is inside quotes, the field, the row and the
  rows so far. A doubled quote inside quotes is one quote; a carriage return outside is dropped.
\<close>

fun csv_loop :: "bytes \<Rightarrow> bool \<Rightarrow> ustring \<Rightarrow> ustring list \<Rightarrow> ustring list list \<Rightarrow> ustring list list" where
  "csv_loop [] in_quotes field row rows = (if field \<noteq> [] \<or> row \<noteq> [] then rows @ [row @ [field]] else rows)"
| "csv_loop (c # cs) in_quotes field row rows =
     (if in_quotes
      then (if c = 34
            then (case cs of
                    [] \<Rightarrow> csv_loop [] False field row rows
                  | d # ds \<Rightarrow> if d = 34 then csv_loop ds True (field @ [34]) row rows else csv_loop (d # ds) False field row rows)
            else csv_loop cs True (field @ [c]) row rows)
      else if c = 34 then csv_loop cs True field row rows
      else if c = 44 then csv_loop cs False [] (row @ [field]) rows
      else if c = 13 then csv_loop cs False field row rows
      else if c = 10 then csv_loop cs False [] [] (rows @ [row @ [field]])
      else csv_loop cs False (field @ [c]) row rows)"

definition parse_csv :: "bytes \<Rightarrow> ustring list list" where
  "parse_csv content = csv_loop content False [] [] []"

text \<open>The characters of Unicode's \<open>White_Space\<close>, which \<open>trim\<close> and \<open>split_whitespace\<close> go by.\<close>

definition white_space :: "bytes list" where
  "white_space = [[9], [10], [11], [12], [13], [32], [0xC2, 0x85], [0xC2, 0xA0], [0xE1, 0x9A, 0x80]]
     @ map (\<lambda>b. [0xE2, 0x80, b]) [0x80, 0x81, 0x82, 0x83, 0x84, 0x85, 0x86, 0x87, 0x88, 0x89, 0x8A, 0xA8, 0xA9, 0xAF]
     @ [[0xE2, 0x81, 0x9F], [0xE3, 0x80, 0x80]]"

lemma find_white:
  assumes "find P white_space = Some c"
  shows "P c" "c \<noteq> []"
proof -
  have "[] \<notin> set white_space" by (simp add: white_space_def)
  with assms show "P c" "c \<noteq> []" by (auto simp: find_Some_iff in_set_conv_nth)
qed

function trim_start :: "ustring \<Rightarrow> ustring" where
  "trim_start s = (case find (\<lambda>c. prefix c s) white_space of None \<Rightarrow> s | Some c \<Rightarrow> trim_start (drop (length c) s))"
  by pat_completeness auto
termination by (relation "measure length") (use find_white in \<open>fastforce simp: prefix_def\<close>)+

function trim_end :: "ustring \<Rightarrow> ustring" where
  "trim_end s =
     (case find (\<lambda>c. suffix c s) white_space of None \<Rightarrow> s | Some c \<Rightarrow> trim_end (take (length s - length c) s))"
  by pat_completeness auto
termination by (relation "measure length") (use find_white in \<open>fastforce simp: suffix_def\<close>)+

declare trim_start.simps [simp del] trim_end.simps [simp del]

definition trim :: "ustring \<Rightarrow> ustring" where
  "trim s = trim_end (trim_start s)"

text \<open>The number of words; the flag says whether the position is inside one.\<close>

function count_words :: "bool \<Rightarrow> ustring \<Rightarrow> nat" where
  "count_words in_word [] = 0"
| "count_words in_word (b # bs) =
     (case find (\<lambda>c. prefix c (b # bs)) white_space of
        Some c \<Rightarrow> count_words False (drop (length c) (b # bs))
      | None \<Rightarrow> (if in_word then 0 else 1) + count_words True bs)"
  by pat_completeness auto
termination
  by (relation "measure (\<lambda>(_, bs). length bs)") (use find_white in \<open>fastforce simp: prefix_def\<close>)+

definition token_len :: "ustring \<Rightarrow> nat" where
  "token_len s = count_words False s"

datatype corpus_error = Unreadable | EmptyCorpus | NoPassageColumn

definition passage_header :: ustring where
  "passage_header = [112, 97, 115, 115, 97, 103, 101]"

fun position_of :: "('a \<Rightarrow> bool) \<Rightarrow> 'a list \<Rightarrow> nat option" where
  "position_of P [] = None"
| "position_of P (x # xs) = (if P x then Some 0 else map_option Suc (position_of P xs))"

definition load_passages :: "bytes option \<Rightarrow> corpus_error + ustring list" where
  "load_passages content =
     (case content of
        None \<Rightarrow> Inl Unreadable
      | Some bs \<Rightarrow>
          (case parse_csv bs of
             [] \<Rightarrow> Inl EmptyCorpus
           | header # rows \<Rightarrow>
               (case position_of (\<lambda>h. trim h = passage_header) header of
                  None \<Rightarrow> Inl NoPassageColumn
                | Some col \<Rightarrow>
                    Inr (dedup_on (\<lambda>p. p) {}
                      (filter (\<lambda>p. 32 \<le> length p)
                        (map (\<lambda>row. trim (row ! col)) (filter (\<lambda>row. col < length row) rows)))))))"

section \<open>Documents\<close>

definition keep_sentence :: "ustring \<Rightarrow> ustring list" where
  "keep_sentence current = (let s = trim current in if 4 \<le> token_len s then [s] else [])"

fun sentences_from :: "bytes \<Rightarrow> ustring \<Rightarrow> ustring list" where
  "sentences_from [] current = keep_sentence current"
| "sentences_from (c # cs) current =
     (if c = 46 \<or> c = 33 \<or> c = 63
      then keep_sentence (current @ [c]) @ sentences_from cs []
      else sentences_from cs (current @ [c]))"

definition sentences_of :: "ustring \<Rightarrow> ustring list" where
  "sentences_of text = sentences_from text []"

fun build_summaries :: "(ustring \<Rightarrow> u64) \<Rightarrow> nat \<Rightarrow> u64 \<Rightarrow> u64 \<Rightarrow> u64 \<Rightarrow> (nat \<times> ustring) list \<Rightarrow> rng
    \<Rightarrow> summary_dto list \<times> rng" where
  "build_summaries hash dim model_id doc_id split_id [] r = ([], r)"
| "build_summaries hash dim model_id doc_id split_id ((sent_seq, sentence) # ss) r =
     (let no_tokens = token_len sentence;
          summary_id = hash (summary_name split_id sent_seq no_tokens) in
      case unit_vector dim r of (v, r1) \<Rightarrow>
      case build_summaries hash dim model_id doc_id split_id ss r1 of (us, r2) \<Rightarrow>
        (\<lparr> ud_summary_id = summary_id, ud_document_id = doc_id, ud_split_id = split_id,
           ud_split_sequence_id = word_of_nat sent_seq, ud_text_content = sentence, ud_token_len = word_of_nat no_tokens,
           ud_centrality = f32_div f32_one (f32_add (f32_of_nat sent_seq) f32_one),
           ud_embedding = Some \<lparr> eb_embedding_id = summary_id, eb_embedding = v, eb_model_id = model_id \<rparr>,
           ud_query_distance = None, ud_rank = None \<rparr> # us, r2))"

fun build_splits :: "(ustring \<Rightarrow> u64) \<Rightarrow> nat \<Rightarrow> u64 \<Rightarrow> u64 \<Rightarrow> (nat \<times> ustring) list \<Rightarrow> rng \<Rightarrow> split_dto list \<times> rng" where
  "build_splits hash dim model_id doc_id [] r = ([], r)"
| "build_splits hash dim model_id doc_id ((seq_id, passage) # ps) r =
     (let split_id = hash (digits (unat doc_id) @ digits seq_id) in
      case build_summaries hash dim model_id doc_id split_id (enumerate 0 (take 2 (sentences_of passage))) r of (us, r1) \<Rightarrow>
      case unit_vector dim r1 of (v, r2) \<Rightarrow>
      case build_splits hash dim model_id doc_id ps r2 of (ss, r3) \<Rightarrow>
        (\<lparr> sd_split_id = split_id, sd_sequence_id = word_of_nat seq_id, sd_doc_id = doc_id, sd_text_content = passage,
           sd_token_len = word_of_nat (token_len passage), sd_summaries = us,
           sd_embedding = Some \<lparr> eb_embedding_id = split_id, eb_embedding = v, eb_model_id = model_id \<rparr>,
           sd_query_distance = None, sd_rank = None \<rparr> # ss, r3))"

definition build_document :: "(ustring \<Rightarrow> u64) \<Rightarrow> ustring \<Rightarrow> ustring list \<Rightarrow> nat \<Rightarrow> u64 \<Rightarrow> rng \<Rightarrow> document_dto \<times> rng" where
  "build_document hash url passages dim model_id r =
     (let doc_id = hash url in
      case build_splits hash dim model_id doc_id (enumerate 0 passages) r of (ss, r') \<Rightarrow>
        (\<lparr> dd_document_id = doc_id, dd_document_url = url, dd_splits = ss,
           dd_summaries = Some (concat (map sd_summaries ss)) \<rparr>, r'))"

section \<open>The query\<close>

text \<open>\<open>partial_cmp(..).unwrap()\<close>: a sort of two or more looks at every value, and panics at a NaN.\<close>

definition comparable :: "hits \<Rightarrow> bool" where
  "comparable m \<longleftrightarrow> length m < 2 \<or> (\<forall>p \<in> set m. \<not> f32_is_nan (snd p))"

definition group_by_doc :: "split_dto list \<Rightarrow> (u64, split_dto list) index_map" where
  "group_by_doc ss = fold (\<lambda>sp. im_push (sd_doc_id sp) sp) ss []"

definition run_query_shard :: "'x senv \<Rightarrow> 'x shard \<Rightarrow> world \<Rightarrow> u64 list \<Rightarrow> f32 list \<Rightarrow> nat \<Rightarrow> search_mode \<Rightarrow> bool
    \<Rightarrow> error + document_dto list" where
  "run_query_shard S sh w doc_ids query top_k mode with_embeddings =
     (let E = se_env S; s = in_store (sh_inner sh);
          doc_filter = (if doc_ids = [] then None else Some (fset_of_list doc_ids)) in
      bindR (if mode = SummaryOnly \<or> mode = SplitAndSummary
             then bindR (search_summaries S sh w query top_k doc_filter) (\<lambda>hs.
                  bindR (load_summaries E s w (im_keys hs) (Some hs) with_embeddings) (\<lambda>us.
                  Inr (group_summaries us)))
             else Inr []) (\<lambda>split_summary_map.
      bindR (if mode = SplitOnly \<or> mode = SplitAndSummary
             then search_splits S sh w query top_k doc_filter else Inr []) (\<lambda>split_query_res.
      let found = im_extend split_query_res
            (im_collect (map (\<lambda>(k, v). (k, foldl f32_min f32_infinity (List.map_filter ud_query_distance v))) split_summary_map)) in
      bindR (if comparable found then Inr (sort_by (\<lambda>a b. near_le (snd a) (snd b)) found) else Inl Panicked) (\<lambda>distances.
      bindR (load_splits E s w (im_keys distances) (Some split_query_res) (Some split_summary_map) with_embeddings) (\<lambda>ss.
      bindR (mapR (\<lambda>(doc_id, doc_splits). load_doc E s w doc_id doc_splits with_embeddings) (group_by_doc ss)) (\<lambda>docs.
      Inr (List.map_filter (\<lambda>d. d) docs)))))))"

section \<open>Filling the pool\<close>

text \<open>The workspaces are the same in every run: a counter and a constant, as the bytes of a UUID.\<close>

definition bench_workspaces :: "nat \<Rightarrow> uuid list" where
  "bench_workspaces n =
     map (\<lambda>i. word_rcat (u64_to_le (word_of_nat i) @ u64_to_le 0xBE1C400000000001)) [0..<max n 1]"

text \<open>The corpus is read round and round; an empty one is indexed out of range.\<close>

fun next_chunk :: "ustring list \<Rightarrow> nat \<Rightarrow> nat \<Rightarrow> nat \<Rightarrow> error + ustring list \<times> nat \<times> nat" where
  "next_chunk passages 0 cursor cycle = Inr ([], cursor, cycle)"
| "next_chunk passages (Suc n) cursor cycle =
     (let (at, round) = (if length passages \<le> cursor then (0, cycle + 1) else (cursor, cycle)) in
      if length passages \<le> at then Inl Panicked
      else bindR (next_chunk passages n (at + 1) round) (\<lambda>(chunk, rest).
           Inr (passages ! at # chunk, rest)))"

record bench_run =
  br_rng :: rng
  br_splits :: nat
  br_docs :: nat
  br_summaries :: nat
  br_seq :: nat
  br_cursor :: nat
  br_cycle :: nat

definition bench_start :: "u64 \<Rightarrow> bench_run" where
  "bench_start seed = \<lparr> br_rng = seed, br_splits = 0, br_docs = 0, br_summaries = 0, br_seq = 0, br_cursor = 0, br_cycle = 0 \<rparr>"

definition bench_url :: "nat \<Rightarrow> nat \<Rightarrow> ustring" where
  "bench_url cycle doc_seq =
     [98, 101, 110, 99, 104, 58, 47, 47, 99] @ digits cycle @ [47, 100, 111, 99, 47] @ digits doc_seq"

text \<open>\<open>pool.get(workspace)?.insert(&dto)?\<close>; the shard is let go at the end of the statement.\<close>

definition pool_insert :: "'x penv \<Rightarrow> uuid \<Rightarrow> document_dto \<Rightarrow> ('x, unit) pop" where
  "pool_insert P ws dto = (\<lambda>p.
     case pool_get P ws p of
       (Inl e, q) \<Rightarrow> (Inl e, q)
     | (Inr a, q) \<Rightarrow>
         (case on_shard P a (shard_insert (pe_shard P) dto) q of
            (Inl e, u) \<Rightarrow> (Inl e, drop_arc a u)
          | (Inr _, u) \<Rightarrow> (Inr (), drop_arc a u)))"

lemma length_build_splits: "length (fst (build_splits hash dim model_id doc_id ps r)) = length ps"
proof (induction ps arbitrary: r)
  case (Cons q ps)
  then show ?case by (cases q) (simp add: Let_def case_prod_unfold)
qed simp

lemma length_build_document: "length (dd_splits (fst (build_document hash url passages dim model_id r))) = length passages"
  using length_build_splits [of hash dim model_id "hash url" "enumerate 0 passages" r]
  by (simp add: build_document_def Let_def case_prod_unfold)

function insert_corpus :: "'x penv \<Rightarrow> (ustring \<Rightarrow> u64) \<Rightarrow> nat \<Rightarrow> u64 \<Rightarrow> uuid list \<Rightarrow> ustring list \<Rightarrow> nat \<Rightarrow> nat
    \<Rightarrow> bench_run \<Rightarrow> 'x pool \<Rightarrow> (error + bench_run) \<times> 'x pool" where
  "insert_corpus P hash dim model_id wss passages per_doc target b p =
     (if target \<le> br_splits b then (Inr b, p)
      else case next_chunk passages (min per_doc (target - br_splits b)) (br_cursor b) (br_cycle b) of
        Inl e \<Rightarrow> (Inl e, p)
      | Inr (chunk, cursor, cycle) \<Rightarrow>
          if chunk = [] then (Inr (b\<lparr>br_cursor := cursor, br_cycle := cycle\<rparr>), p)
          else
            (let built = build_document hash (bench_url cycle (br_seq b)) chunk dim model_id (br_rng b);
                 ws = wss ! (br_seq b mod length wss) in
             case pool_insert P ws (fst built) p of
               (Inl e, q) \<Rightarrow> (Inl e, q)
             | (Inr _, q) \<Rightarrow>
                 insert_corpus P hash dim model_id wss passages per_doc target
                   \<lparr> br_rng = snd built, br_splits = br_splits b + length (dd_splits (fst built)), br_docs = br_docs b + 1,
                     br_summaries = br_summaries b + sum_list (map (length \<circ> sd_summaries) (dd_splits (fst built))),
                     br_seq = br_seq b + 1, br_cursor = cursor, br_cycle = cycle \<rparr> q))"
  by pat_completeness auto
termination
  by (relation "measure (\<lambda>(P, hash, dim, model_id, wss, passages, per_doc, target, b, p). target - br_splits b)")
    (auto simp: length_build_document intro!: diff_less_mono2 simp flip: length_greater_0_conv)

declare insert_corpus.simps [simp del]

section \<open>Files a shard can rebuild\<close>

definition derived_files :: "fname list" where
  "derived_files = [IndexStateFile, SnapFile, IndexFile ESplit, IndexFile ESummary]"

definition remove_derived :: "unit io" where
  "remove_derived = forM (\<lambda>f. bindM (getM (\<lambda>w. fs_exists w f)) (\<lambda>e. if e then fs_remove f else ret ())) derived_files"

text \<open>Over the workspace directories, in the order \<open>dirs\<close> they are enumerated in.\<close>

definition remove_derived_files :: "'x penv \<Rightarrow> uuid list \<Rightarrow> ('x, unit) pop" where
  "remove_derived_files P dirs =
     forM (\<lambda>ws p. case remove_derived (dir_world P p ws) of (r, w) \<Rightarrow> (r, p\<lparr>pl_dirs := fmupd ws w (pl_dirs p)\<rparr>)) dirs"

end
