(* ===== verification/Bench_Facts.thy ===== *)
theory Bench_Facts
  imports Storage_Bench Query_Facts Shard_Facts Compact_Reopen
begin

text \<open>
  The benchmark against the system it measures: its reader takes back whatever a writer of its
  dialect wrote, its query gives the answers of the server's, and the files it removes are files a
  shard does without.
\<close>

section \<open>Reading the corpus\<close>

text \<open>
  A writer: a field is quoted, its quotes doubled, or as it is when it has none of the characters
  the reader looks for; a row ends in a line feed, with or without a carriage return.
\<close>

definition csv_quoted :: "ustring \<Rightarrow> bytes" where
  "csv_quoted s = 34 # concat (map (\<lambda>c. if c = 34 then [34, 34] else [c]) s) @ [34]"

definition csv_plain :: "ustring \<Rightarrow> bool" where
  "csv_plain s \<longleftrightarrow> set s \<inter> {34, 44, 13, 10} = {}"

definition csv_field :: "bool \<times> ustring \<Rightarrow> bytes" where
  "csv_field f = (if fst f then csv_quoted (snd f) else snd f)"

definition csv_field_ok :: "bool \<times> ustring \<Rightarrow> bool" where
  "csv_field_ok f \<longleftrightarrow> fst f \<or> csv_plain (snd f)"

fun csv_fields :: "(bool \<times> ustring) list \<Rightarrow> bytes" where
  "csv_fields [] = []"
| "csv_fields [f] = csv_field f"
| "csv_fields (f # g # fs) = csv_field f @ 44 # csv_fields (g # fs)"

definition csv_row :: "bool \<times> (bool \<times> ustring) list \<Rightarrow> bytes" where
  "csv_row r = csv_fields (snd r) @ (if fst r then [13, 10] else [10])"

definition csv_row_ok :: "bool \<times> (bool \<times> ustring) list \<Rightarrow> bool" where
  "csv_row_ok r \<longleftrightarrow> snd r \<noteq> [] \<and> list_all csv_field_ok (snd r)"

definition write_csv :: "(bool \<times> (bool \<times> ustring) list) list \<Rightarrow> bytes" where
  "write_csv rs = concat (map csv_row rs)"

definition no_quote :: "bytes \<Rightarrow> bool" where
  "no_quote rest \<longleftrightarrow> rest \<noteq> [] \<and> hd rest \<noteq> 34"

lemma csv_inside:
  "no_quote rest \<Longrightarrow> csv_loop (concat (map (\<lambda>c. if c = 34 then [34, 34] else [c]) s) @ 34 # rest) True field row rows
     = csv_loop rest False (field @ s) row rows"
proof (induction s arbitrary: field)
  case Nil
  then show ?case by (cases rest) (simp_all add: no_quote_def)
qed simp

lemma csv_outside: "csv_plain s \<Longrightarrow> csv_loop (s @ rest) False field row rows = csv_loop rest False (field @ s) row rows"
  by (induction s arbitrary: field) (simp_all add: csv_plain_def)

lemma csv_one_field:
  assumes "csv_field_ok f" "no_quote rest"
  shows "csv_loop (csv_field f @ rest) False [] row rows = csv_loop rest False (snd f) row rows"
proof (cases "fst f")
  case True
  with csv_inside [OF assms(2), of "snd f" "[]"] show ?thesis by (simp add: csv_field_def csv_quoted_def)
next
  case False
  with assms(1) csv_outside [of "snd f" rest "[]"] show ?thesis by (simp add: csv_field_def csv_field_ok_def)
qed

lemma csv_all_fields:
  assumes "fs \<noteq> []" "list_all csv_field_ok fs" "no_quote rest"
  shows "csv_loop (csv_fields fs @ rest) False [] row rows
    = csv_loop rest False (snd (last fs)) (row @ map snd (butlast fs)) rows"
  using assms(1,2)
proof (induction fs arbitrary: row rule: csv_fields.induct)
  case (2 f)
  then show ?case using csv_one_field [OF _ assms(3)] by simp
next
  case (3 f g fs)
  have "no_quote (44 # csv_fields (g # fs) @ rest)" by (simp add: no_quote_def)
  from csv_one_field [OF _ this] 3 show ?case by simp
qed simp

lemma csv_one_row:
  assumes "csv_row_ok r"
  shows "csv_loop (csv_row r @ rest) False [] [] rows = csv_loop rest False [] [] (rows @ [map snd (snd r)])"
proof -
  have ok: "snd r \<noteq> []" "list_all csv_field_ok (snd r)" using assms by (simp_all add: csv_row_ok_def)
  have "no_quote ((if fst r then [13, 10] else [10]) @ rest)" by (simp add: no_quote_def)
  from csv_all_fields [OF ok this, of "[]" rows] have
    "csv_loop (csv_row r @ rest) False [] [] rows
       = csv_loop ((if fst r then [13, 10] else [10]) @ rest) False (snd (last (snd r))) (map snd (butlast (snd r))) rows"
    by (simp add: csv_row_def)
  also have "\<dots> = csv_loop rest False [] [] (rows @ [map snd (butlast (snd r)) @ [snd (last (snd r))]])" by simp
  also have "map snd (butlast (snd r)) @ [snd (last (snd r))] = map snd (snd r)"
    using ok(1) by (metis append_butlast_last_id list.simps(8,9) map_append)
  finally show ?thesis .
qed

lemma parse_written: "list_all csv_row_ok rs \<Longrightarrow> parse_csv (write_csv rs) = map (map snd \<circ> snd) rs"
proof -
  assume ok: "list_all csv_row_ok rs"
  have "csv_loop (write_csv rs) False [] [] rows = rows @ map (map snd \<circ> snd) rs" for rows
    using ok by (induction rs arbitrary: rows) (simp_all add: write_csv_def csv_one_row)
  then show ?thesis by (simp add: parse_csv_def)
qed

section \<open>The query of one shard\<close>

lemma length_im_insert: "length (im_insert k v m) \<le> Suc (length m)"
  unfolding im_insert_def by (induction m) auto

lemma length_im_collect: "length (im_collect ps) \<le> length ps"
proof -
  have "length (im_extend ps m) \<le> length m + length ps" for m
    unfolding im_extend_def
  proof (induction ps arbitrary: m)
    case (Cons p ps)
    show ?case using Cons [of "im_insert (fst p) (snd p) m"] length_im_insert [of "fst p" "snd p" m]
      by (simp add: case_prod_unfold)
  qed simp
  from this [of "[]"] show ?thesis by (simp add: im_collect_def)
qed

text \<open>A shard answers with no more hits than were asked for.\<close>

lemma matches_length:
  assumes "matches_of kind r = Inr hs" "\<And>keys ds. r = Some (keys, ds) \<Longrightarrow> length keys \<le> k"
  shows "length hs \<le> k"
  using assms by (fastforce simp: matches_of_def split: option.splits)

lemma shard_search_length:
  assumes "usearch_ok (se_us S) A" "shard_search S bound n w kind query top_k doc_filter = Inr hs"
  shows "length hs \<le> top_k"
proof -
  have us: "us_search (se_us S) x q k = Some (keys, ds) \<Longrightarrow> length keys \<le> k" for x q k keys ds
    using assms(1) unfolding usearch_ok_def search_result_ok_def by fastforce
  have uf: "us_filtered_search (se_us S) x q k keep = Some (keys, ds) \<Longrightarrow> length keys \<le> k" for x q k keep keys ds
    using assms(1) unfolding usearch_ok_def search_result_ok_def by fastforce
  have "vi_search (se_us S) i q k = Inr ps \<Longrightarrow> length ps \<le> k" for i q k ps
    using us by (auto simp: vi_search_def bindR_Inr intro: matches_length)
  moreover have "vi_filtered_search (se_us S) i q k keep = Inr ps \<Longrightarrow> length ps \<le> k" for i q k keep ps
    using uf by (auto simp: vi_filtered_search_def bindR_Inr intro: matches_length)
  moreover have "brute_force S n w kind q k ids = Inr ps \<Longrightarrow> length ps \<le> k" for q k ids ps
    by (auto simp: brute_force_def bindR_Inr)
  ultimately have "hs = [] \<or> (\<exists>ps. hs = im_collect ps \<and> length ps \<le> top_k)"
    using assms(2) by (fastforce simp: shard_search_def Let_def bindR_Inr im_collect_def im_extend_def split: option.splits if_splits)
  with length_im_collect show ?thesis using le_trans by fastforce
qed

lemma keep_one: "length hs \<le> k \<Longrightarrow> keep_nearest [hs] k = [hs]"
  by (simp add: keep_nearest_def)

text \<open>Grouping splits by document, with and without the distance of the first.\<close>

definition forget :: "(u64, f32 \<times> split_dto list) index_map \<Rightarrow> (u64, split_dto list) index_map" where
  "forget m = map (\<lambda>(d, x, ss). (d, ss)) m"

lemma forget_insert: "forget (im_insert k (x, ss) m) = im_insert k ss (forget m)"
  unfolding im_insert_def forget_def by (induction m) auto

lemma forget_get: "im_get (forget m) k = map_option snd (im_get m k)"
  unfolding im_get_def forget_def by (induction m) auto

lemma forget_step: "forget (add_doc_split distances sp m) = im_push (sd_doc_id sp) sp (forget m)"
  by (cases "im_get m (sd_doc_id sp)")
    (auto simp: add_doc_split_def im_push_def unwrap_or_def forget_insert forget_get split: prod.split)

lemma forget_groups: "forget (group_splits distances ss) = group_by_doc ss"
proof -
  have "forget (fold (add_doc_split distances) ss m) = fold (\<lambda>sp. im_push (sd_doc_id sp) sp) ss (forget m)" for m
    by (induction ss arbitrary: m) (simp_all add: forget_step)
  from this [of "[]"] show ?thesis by (simp add: group_splits_def group_by_doc_def forget_def)
qed

text \<open>Splits that come nearest first are grouped into documents that come nearest first.\<close>

definition split_distance :: "hits \<Rightarrow> split_dto \<Rightarrow> f32" where
  "split_distance distances sp = unwrap_or (im_get distances (sd_split_id sp)) f32_infinity"

lemma im_insert_same_dist:
  assumes "im_get m k = Some (x, ss)"
  shows "map (fst \<circ> snd) (im_insert k (x, ss') m) = map (fst \<circ> snd) m"
  using assms unfolding im_get_def im_insert_def by (induction m) (auto split: if_splits)

lemma add_split_dists:
  "map (fst \<circ> snd) (add_doc_split distances sp m) =
     map (fst \<circ> snd) m @ (if im_get m (sd_doc_id sp) = None then [split_distance distances sp] else [])"
proof (cases "im_get m (sd_doc_id sp)")
  case None
  then have "sd_doc_id sp \<notin> set (im_keys m)" by (simp add: im_get_def im_keys_def map_of_eq_None_iff)
  with None show ?thesis by (simp add: add_doc_split_def unwrap_or_def split_distance_def im_insert_new)
next
  case (Some x)
  moreover obtain d ts where "x = (d, ts)" by (rule prod.exhaust)
  ultimately have s: "im_get m (sd_doc_id sp) = Some (d, ts)" by simp
  then show ?thesis by (simp add: add_doc_split_def unwrap_or_def im_insert_same_dist [OF s])
qed

lemma group_splits_sorted:
  assumes "sorted_wrt (\<lambda>a b. near_le (split_distance distances a) (split_distance distances b)) ss"
  shows "sorted_wrt near_le (map (fst \<circ> snd) (group_splits distances ss))"
proof -
  let ?d = "split_distance distances"
  have "sorted_wrt near_le (map (fst \<circ> snd) m) \<Longrightarrow> \<forall>x \<in> set m. \<forall>s \<in> set ss. near_le (fst (snd x)) (?d s)
    \<Longrightarrow> sorted_wrt near_le (map (fst \<circ> snd) (fold (add_doc_split distances) ss m))" for m
    using assms
  proof (induction ss arbitrary: m)
    case (Cons sp ss)
    let ?m = "add_doc_split distances sp m"
    have new: "sorted_wrt near_le (map (fst \<circ> snd) ?m)"
      using Cons.prems(1,2) unfolding add_split_dists by (auto simp: sorted_wrt_append comp_def)
    have "set (map (fst \<circ> snd) ?m) \<subseteq> set (map (fst \<circ> snd) m) \<union> {?d sp}" unfolding add_split_dists by auto
    then have "near_le (fst (snd x)) (?d s)" if "x \<in> set ?m" "s \<in> set ss" for x s
      using that Cons.prems(2,3) by fastforce
    with Cons.IH [OF new] Cons.prems(3) show ?case by simp
  qed simp
  from this [of "[]"] show ?thesis by (simp add: group_splits_def)
qed

text \<open>The ids in a loop of lookups come out in the order they went in.\<close>

lemma collect_keys:
  "collect f ids = Inr out \<Longrightarrow> (\<And>i x. f i = Inr (Some x) \<Longrightarrow> key x = i) \<Longrightarrow> subseq (map key out) ids"
proof (induction ids arbitrary: out)
  case (Cons i ids)
  from Cons.prems(1) obtain r rest where r: "f i = Inr r" "collect f ids = Inr rest"
    "out = (case r of None \<Rightarrow> rest | Some x \<Rightarrow> x # rest)" by (auto simp: bindR_Inr)
  with Cons.IH [OF r(2) Cons.prems(2)] Cons.prems(2) show ?case by (cases r) auto
qed simp

lemma sorted_wrt_subseq: "subseq xs ys \<Longrightarrow> sorted_wrt R ys \<Longrightarrow> sorted_wrt R xs"
proof -
  assume "subseq xs ys" "sorted_wrt R ys"
  then have "sorted_wrt R xs \<and> set xs \<subseteq> set ys"
    by (induction rule: list_emb.induct) auto
  then show ?thesis by blast
qed

definition splits_named :: "env \<Rightarrow> store \<Rightarrow> world \<Rightarrow> bool" where
  "splits_named E s w \<longleftrightarrow> (\<forall>i emb sp. get_split_without_summaries E s w i emb = Inr (Some sp) \<longrightarrow> sd_split_id sp = i)"

lemma reachable_splits_named:
  assumes "reachable E opts x" "env_ok E" "unat (so_n_embd opts) < 2 ^ 32"
  shows "splits_named E (fst x) (snd x)"
  unfolding splits_named_def
proof (intro allI impI)
  fix i emb sp assume g: "get_split_without_summaries E (fst x) (snd x) i emb = Inr (Some sp)"
  from reachable_inv [OF assms] obtain sl al where "store_inv E sl al x" by blast
  from represents_found [OF store_invD(1,3) [OF this] reachable_mapped [OF assms]] have
    n: "all_named (found_as E x) (st_maps (fst x))" .
  from g obtain entry where e: "fmlookup (splits (st_maps (fst x))) i = Some entry"
    by (auto simp: get_split_without_summaries_def read_split_def bindR_Inr split: option.splits)
  with n have "found_as E x Split i (se_loc entry)" by (simp add: all_named_def)
  with g e show "sd_split_id sp = i"
    by (auto simp: found_as_def bears_id_def get_split_without_summaries_def read_split_def bindR_Inr lift_decode_def split_dto_of_def)
qed

lemma load_splits_ids:
  assumes "splits_named E s w" "load_splits E s w ids dd (Some hits) emb = Inr ss"
  shows "subseq (map sd_split_id ss) ids"
  using assms(2) unfolding load_splits_def
  by (rule collect_keys) (use assms(1) in \<open>auto simp: bindR_Inr splits_named_def\<close>)

text \<open>The split distances, sorted without a NaN in the way.\<close>

lemma sorted_distances:
  assumes "im_ok found" "comparable found"
  defines "distances \<equiv> sort_by (\<lambda>a b. near_le (snd a) (snd b)) found"
  shows "sorted_wrt (\<lambda>i j. near_le (unwrap_or (im_get distances i) f32_infinity) (unwrap_or (im_get distances j) f32_infinity))
    (im_keys distances)"
proof -
  have s: "sorted_wrt (\<lambda>a b. near_le (snd a) (snd b)) distances"
  proof (cases "length found < 2")
    case True
    then have "length distances < 2" by (simp add: distances_def)
    then show ?thesis by (cases distances; cases "tl distances") auto
  next
    case False
    with assms(2) have "set found \<subseteq> {x. \<not> f32_is_nan (snd x)}" by (auto simp: comparable_def)
    then show ?thesis unfolding distances_def by (rule total_preorder_on.sort_sorted [OF near_on])
  qed
  have "mset (map fst distances) = mset (map fst found)" by (simp add: distances_def mset_map)
  with assms(1) have d: "distinct (map fst distances)" unfolding im_ok_def using mset_eq_imp_distinct_iff by blast
  have "unwrap_or (im_get distances (fst p)) f32_infinity = snd p" if "p \<in> set distances" for p
    using map_of_is_SomeI [OF d, of "fst p" "snd p"] that by (simp add: im_get_def unwrap_or_def)
  with s show ?thesis unfolding im_keys_def sorted_wrt_map by (rule_tac sorted_wrt_mono_rel [rotated]) auto
qed

text \<open>Without reranking the answers are the documents, each with its distance.\<close>

lemma answer_plain:
  assumes "\<not> unwrap_or (dq_rerank req) False" "load_doc E s w d ss (unwrap_or (dq_verbose req) False) = Inr r"
  shows "answer_of E ctx uuids req s w (d, x, ss) = Inr (map_option (Pair x) r)"
  using assms by (auto simp: answer_of_def storage_def maybe_rerank_def split: option.splits)

lemma answers_plain:
  assumes "\<not> unwrap_or (dq_rerank req) False"
    and "mapR (\<lambda>(d, ss). load_doc E s w d ss (unwrap_or (dq_verbose req) False)) (forget m) = Inr got"
  shows "\<exists>rs. mapR (answer_of E ctx uuids req s w) m = Inr rs
    \<and> map snd (List.map_filter (\<lambda>a. a) rs) = List.map_filter (\<lambda>d. d) got
    \<and> subseq (map fst (List.map_filter (\<lambda>a. a) rs)) (map (fst \<circ> snd) m)"
  using assms(2)
proof (induction m arbitrary: got)
  case Nil
  then show ?case by (simp add: forget_def List.map_filter_simps)
next
  case (Cons q m)
  obtain d x ss where q: "q = (d, x, ss)" by (rule prod_cases3)
  with Cons.prems obtain r rest where r: "load_doc E s w d ss (unwrap_or (dq_verbose req) False) = Inr r"
    "mapR (\<lambda>(d, ss). load_doc E s w d ss (unwrap_or (dq_verbose req) False)) (forget m) = Inr rest" "got = r # rest"
    by (auto simp: forget_def bindR_Inr)
  from Cons.IH [OF r(2)] obtain rs where rs: "mapR (answer_of E ctx uuids req s w) m = Inr rs"
    "map snd (List.map_filter (\<lambda>a. a) rs) = List.map_filter (\<lambda>d. d) rest"
    "subseq (map fst (List.map_filter (\<lambda>a. a) rs)) (map (fst \<circ> snd) m)" by blast
  from answer_plain [OF assms(1) r(1)] rs r(3) q show ?case
    by (cases r) (auto simp: List.map_filter_simps comp_def intro: list_emb_Cons)
qed

lemma plain_rerank: "\<not> unwrap_or (dq_rerank req) False \<Longrightarrow> maybe_rerank ctx uuids req us = Inr us"
  by (simp add: maybe_rerank_def)

lemma storage_simps [simp]: "storage (Inr x) = Inr x" "storage (Inl e) = Inl (Storage e)"
  by (simp_all add: storage_def)

lemma answers_one_shard:
  fixes summary_hits split_hits :: hits and us :: "summary_dto list"
  assumes named: "splits_named E s w" and plain: "\<not> unwrap_or (dq_rerank req) False"
    and us: "load_summaries E s w (im_keys summary_hits) (Some summary_hits) (unwrap_or (dq_verbose req) False) = Inr us"
  defines "found \<equiv> im_extend split_hits (im_collect (map (\<lambda>(i, v). (i, least_distance v)) (group_summaries us)))"
  defines "distances \<equiv> sort_by (\<lambda>a b. near_le (snd a) (snd b)) found"
  assumes ok: "comparable found"
    and ss: "load_splits E s w (im_keys distances) (Some split_hits) (Some (group_summaries us)) (unwrap_or (dq_verbose req) False) = Inr ss"
    and got: "mapR (\<lambda>(d, ss). load_doc E s w d ss (unwrap_or (dq_verbose req) False)) (group_by_doc ss) = Inr got"
  shows "\<exists>answers. answers_of E ctx uuids req s w summary_hits split_hits = Inr answers
    \<and> map snd (sort_by (\<lambda>a b. near_le (fst a) (fst b)) answers) = List.map_filter (\<lambda>d. d) got"
proof -
  have d: "splits_min_distances (group_summaries us) split_hits = distances"
    by (simp add: splits_min_distances_def distances_def found_def)
  from got have "mapR (\<lambda>(d, ss). load_doc E s w d ss (unwrap_or (dq_verbose req) False)) (forget (group_splits distances ss)) = Inr got"
    by (simp only: forget_groups)
  from answers_plain [OF plain this] obtain rs where rs:
    "mapR (answer_of E ctx uuids req s w) (group_splits distances ss) = Inr rs"
    "map snd (List.map_filter (\<lambda>a. a) rs) = List.map_filter (\<lambda>d. d) got"
    "subseq (map fst (List.map_filter (\<lambda>a. a) rs)) (map (fst \<circ> snd) (group_splits distances ss))" by blast
  have a: "answers_of E ctx uuids req s w summary_hits split_hits = Inr (List.map_filter (\<lambda>a. a) rs)"
    by (simp add: answers_of_def Let_def us plain_rerank [OF plain] d ss rs(1))
  have "im_ok found" unfolding found_def by (intro im_extend_ok im_collect_ok)
  from sorted_distances [OF this ok, folded distances_def] have
    "sorted_wrt (\<lambda>i j. near_le (unwrap_or (im_get distances i) f32_infinity) (unwrap_or (im_get distances j) f32_infinity))
       (map sd_split_id ss)"
    by (rule sorted_wrt_subseq [OF load_splits_ids [OF named ss]])
  then have "sorted_wrt (\<lambda>a b. near_le (split_distance distances a) (split_distance distances b)) ss"
    unfolding sorted_wrt_map split_distance_def .
  from sorted_wrt_subseq [OF rs(3) group_splits_sorted [OF this]] have
    "sorted_wrt (\<lambda>a b. near_le (fst a) (fst b)) (List.map_filter (\<lambda>a. a) rs)" unfolding sorted_wrt_map .
  then have "sort_by (\<lambda>a b. near_le (fst a) (fst b)) (List.map_filter (\<lambda>a. a) rs) = List.map_filter (\<lambda>a. a) rs"
    by (rule total_preorder_on.sort_of_sorted [OF near_on])
  with a rs(2) show ?thesis by simp
qed

text \<open>The server's query of the one workspace gives the benchmark's documents.\<close>

lemma bench_hits:
  "bindR (if wanted then search else Inr []) (\<lambda>hs. Inr (f hs)) = Inr r \<longleftrightarrow>
     (wanted \<and> (\<exists>hs. search = Inr hs \<and> r = f hs)) \<or> (\<not> wanted \<and> r = f [])"
  by (auto simp: bindR_Inr)

lemma searched_one:
  assumes "if wanted (unwrap_or (dq_search_mode req) SplitAndSummary) then search a = Inr hs else hs = []"
    and "length hs \<le> query_top_k req"
  shows "searched wanted req [a] search = Inr [hs]"
  using assms by (simp add: searched_def keep_one split: if_splits)

text \<open>What a query of the benchmark that returned did.\<close>

definition summary_mode :: "search_mode \<Rightarrow> bool" where
  "summary_mode m \<longleftrightarrow> m = SummaryOnly \<or> m = SplitAndSummary"

definition split_mode :: "search_mode \<Rightarrow> bool" where
  "split_mode m \<longleftrightarrow> m = SplitOnly \<or> m = SplitAndSummary"

lemma run_query_shard_Inr:
  assumes "run_query_shard S sh w doc_ids query k mode emb = Inr out"
  defines "doc_filter \<equiv> (if doc_ids = [] then None else Some (fset_of_list doc_ids))"
  obtains summary_hits us split_hits ss got where
    "if summary_mode mode then search_summaries S sh w query k doc_filter = Inr summary_hits else summary_hits = []"
    "load_summaries (se_env S) (in_store (sh_inner sh)) w (im_keys summary_hits) (Some summary_hits) emb = Inr us"
    "if split_mode mode then search_splits S sh w query k doc_filter = Inr split_hits else split_hits = []"
    "comparable (im_extend split_hits (im_collect (map (\<lambda>(i, v). (i, least_distance v)) (group_summaries us))))"
    "load_splits (se_env S) (in_store (sh_inner sh)) w (im_keys (sort_by (\<lambda>a b. near_le (snd a) (snd b))
       (im_extend split_hits (im_collect (map (\<lambda>(i, v). (i, least_distance v)) (group_summaries us))))))
       (Some split_hits) (Some (group_summaries us)) emb = Inr ss"
    "mapR (\<lambda>(d, ss). load_doc (se_env S) (in_store (sh_inner sh)) w d ss emb) (group_by_doc ss) = Inr got"
    "out = List.map_filter (\<lambda>d. d) got"
proof -
  from assms(1) obtain m split_hits distances ss got where
    m: "(if summary_mode mode
         then bindR (search_summaries S sh w query k doc_filter) (\<lambda>hs.
              bindR (load_summaries (se_env S) (in_store (sh_inner sh)) w (im_keys hs) (Some hs) emb) (\<lambda>us.
              Inr (group_summaries us)))
         else Inr []) = Inr m"
    and h: "(if split_mode mode then search_splits S sh w query k doc_filter else Inr []) = Inr split_hits"
    and d: "(if comparable (im_extend split_hits (im_collect (map (\<lambda>(i, v). (i, least_distance v)) m)))
             then Inr (sort_by (\<lambda>a b. near_le (snd a) (snd b)) (im_extend split_hits (im_collect (map (\<lambda>(i, v). (i, least_distance v)) m))))
             else Inl Panicked) = Inr distances"
    and r: "load_splits (se_env S) (in_store (sh_inner sh)) w (im_keys distances) (Some split_hits) (Some m) emb = Inr ss"
      "mapR (\<lambda>(d, ss). load_doc (se_env S) (in_store (sh_inner sh)) w d ss emb) (group_by_doc ss) = Inr got"
      "out = List.map_filter (\<lambda>d. d) got"
    unfolding run_query_shard_def Let_def bindR_Inr doc_filter_def summary_mode_def split_mode_def least_distance_def by blast
  have "\<exists>summary_hits us. (if summary_mode mode then search_summaries S sh w query k doc_filter = Inr summary_hits else summary_hits = [])
      \<and> load_summaries (se_env S) (in_store (sh_inner sh)) w (im_keys summary_hits) (Some summary_hits) emb = Inr us
      \<and> m = group_summaries us"
  proof (cases "summary_mode mode")
    case True
    with m show ?thesis by (auto simp: bindR_Inr)
  next
    case False
    with m show ?thesis
      by (intro exI [of _ "[]"]) (simp add: load_summaries_def im_keys_def group_summaries_def)
  qed
  then obtain summary_hits us where
    "if summary_mode mode then search_summaries S sh w query k doc_filter = Inr summary_hits else summary_hits = []"
    "load_summaries (se_env S) (in_store (sh_inner sh)) w (im_keys summary_hits) (Some summary_hits) emb = Inr us"
    "m = group_summaries us" by blast
  moreover have "if split_mode mode then search_splits S sh w query k doc_filter = Inr split_hits else split_hits = []"
    using h by (auto split: if_splits)
  moreover have "comparable (im_extend split_hits (im_collect (map (\<lambda>(i, v). (i, least_distance v)) m)))"
    "distances = sort_by (\<lambda>a b. near_le (snd a) (snd b)) (im_extend split_hits (im_collect (map (\<lambda>(i, v). (i, least_distance v)) m)))"
    using d by (auto split: if_splits)
  ultimately show thesis using r by (intro that) simp_all
qed

lemma query_one_shard:
  assumes us: "usearch_ok (se_us (pe_shard P)) A" and l: "allocation_of p a = Some l"
    and named: "splits_named (se_env (pe_shard P)) (in_store (sh_inner (lv_shard l))) (dir_world P p (lv_workspace l))"
    and plain: "\<not> unwrap_or (dq_rerank req) False"
    and run: "run_query_shard (pe_shard P) (lv_shard l) (dir_world P p (lv_workspace l)) (dq_doc_ids req) query
      (query_top_k req) (unwrap_or (dq_search_mode req) SplitAndSummary) (unwrap_or (dq_verbose req) False) = Inr out"
  shows "query_shards P ctx uuids req query [a] p = Inr out"
proof -
  from run obtain summary_hits us split_hits ss got where
    sm: "if summary_mode (unwrap_or (dq_search_mode req) SplitAndSummary)
      then search_summaries (pe_shard P) (lv_shard l) (dir_world P p (lv_workspace l)) query (query_top_k req) (doc_filter_of req) = Inr summary_hits
      else summary_hits = []"
    and sp: "if split_mode (unwrap_or (dq_search_mode req) SplitAndSummary)
      then search_splits (pe_shard P) (lv_shard l) (dir_world P p (lv_workspace l)) query (query_top_k req) (doc_filter_of req) = Inr split_hits
      else split_hits = []"
    and rest: "load_summaries (se_env (pe_shard P)) (in_store (sh_inner (lv_shard l))) (dir_world P p (lv_workspace l)) (im_keys summary_hits)
        (Some summary_hits) (unwrap_or (dq_verbose req) False) = Inr us"
      "comparable (im_extend split_hits (im_collect (map (\<lambda>(i, v). (i, least_distance v)) (group_summaries us))))"
      "load_splits (se_env (pe_shard P)) (in_store (sh_inner (lv_shard l))) (dir_world P p (lv_workspace l))
        (im_keys (sort_by (\<lambda>a b. near_le (snd a) (snd b))
          (im_extend split_hits (im_collect (map (\<lambda>(i, v). (i, least_distance v)) (group_summaries us))))))
        (Some split_hits) (Some (group_summaries us)) (unwrap_or (dq_verbose req) False) = Inr ss"
      "mapR (\<lambda>(d, ss). load_doc (se_env (pe_shard P)) (in_store (sh_inner (lv_shard l))) (dir_world P p (lv_workspace l)) d ss
        (unwrap_or (dq_verbose req) False)) (group_by_doc ss) = Inr got"
    and out: "out = List.map_filter (\<lambda>d. d) got"
    unfolding doc_filter_of_def by (rule run_query_shard_Inr)
  from answers_one_shard [OF named plain rest] obtain answers where
    a: "answers_of (se_env (pe_shard P)) ctx uuids req (in_store (sh_inner (lv_shard l))) (dir_world P p (lv_workspace l)) summary_hits split_hits = Inr answers"
    "map snd (sort_by (\<lambda>a b. near_le (fst a) (fst b)) answers) = out" unfolding out by blast
  have len: "length summary_hits \<le> query_top_k req" "length split_hits \<le> query_top_k req"
    using sm sp shard_search_length [OF us] by (auto simp: search_summaries_def search_splits_def split: if_splits)
  have "searched (\<lambda>m. m = SummaryOnly \<or> m = SplitAndSummary) req [a]
      (\<lambda>a. read_shard P p a (\<lambda>sh w. storage (search_summaries (pe_shard P) sh w query (query_top_k req) (doc_filter_of req)))) = Inr [summary_hits]"
    by (rule searched_one [OF _ len(1)]) (use sm in \<open>simp add: summary_mode_def read_shard_def l split: if_splits\<close>)
  moreover have "searched (\<lambda>m. m = SplitOnly \<or> m = SplitAndSummary) req [a]
      (\<lambda>a. read_shard P p a (\<lambda>sh w. storage (search_splits (pe_shard P) sh w query (query_top_k req) (doc_filter_of req)))) = Inr [split_hits]"
    by (rule searched_one [OF _ len(2)]) (use sp in \<open>simp add: split_mode_def read_shard_def l split: if_splits\<close>)
  ultimately show ?thesis using a by (simp add: query_shards_def Let_def read_shard_def l)
qed

text \<open>
  The other way round: what the server answers the benchmark answers, unless it compares a distance
  that is not a number.
\<close>

lemma searched_one_Inr:
  assumes "searched wanted req [a] search = Inr hs" "\<And>h. search a = Inr h \<Longrightarrow> length h \<le> query_top_k req"
  obtains h where "hs = [h]" "if wanted (unwrap_or (dq_search_mode req) SplitAndSummary) then search a = Inr h else h = []"
  using assms(1) assms(2) [THEN keep_one] that by (auto simp: searched_def bindR_Inr split: if_splits)

lemma storage_Inr: "storage r = Inr x \<longleftrightarrow> r = Inr x"
  by (cases r) simp_all

lemma answers_load:
  "mapR (answer_of E ctx uuids req s w) m = Inr rs \<Longrightarrow>
     \<exists>got. mapR (\<lambda>(d, ss). load_doc E s w d ss (unwrap_or (dq_verbose req) False)) (forget m) = Inr got"
proof (induction m arbitrary: rs)
  case Nil
  then show ?case by (simp add: forget_def)
next
  case (Cons q m)
  obtain d x ss where q: "q = (d, x, ss)" by (rule prod_cases3)
  with Cons.prems obtain r rest where r: "answer_of E ctx uuids req s w (d, x, ss) = Inr r"
    "mapR (answer_of E ctx uuids req s w) m = Inr rest" by (auto simp: bindR_Inr)
  from r(1) obtain doc where "load_doc E s w d ss (unwrap_or (dq_verbose req) False) = Inr doc"
    by (auto simp: answer_of_def bindR_Inr storage_Inr)
  with Cons.IH [OF r(2)] q show ?case by (auto simp: forget_def)
qed

lemma answers_of_Inr:
  assumes "answers_of E ctx uuids req s w summary_hits split_hits = Inr answers" "\<not> unwrap_or (dq_rerank req) False"
  obtains us ss got where
    "load_summaries E s w (im_keys summary_hits) (Some summary_hits) (unwrap_or (dq_verbose req) False) = Inr us"
    "load_splits E s w (im_keys (splits_min_distances (group_summaries us) split_hits)) (Some split_hits)
       (Some (group_summaries us)) (unwrap_or (dq_verbose req) False) = Inr ss"
    "mapR (\<lambda>(d, ss). load_doc E s w d ss (unwrap_or (dq_verbose req) False)) (group_by_doc ss) = Inr got"
proof -
  from assms obtain us ss rs where
    a: "load_summaries E s w (im_keys summary_hits) (Some summary_hits) (unwrap_or (dq_verbose req) False) = Inr us"
    "load_splits E s w (im_keys (splits_min_distances (group_summaries us) split_hits)) (Some split_hits)
       (Some (group_summaries us)) (unwrap_or (dq_verbose req) False) = Inr ss"
    "mapR (answer_of E ctx uuids req s w) (group_splits (splits_min_distances (group_summaries us) split_hits) ss) = Inr rs"
    by (auto simp: answers_of_def Let_def bindR_Inr storage_Inr plain_rerank)
  from answers_load [OF a(3)] a(1,2) show thesis unfolding forget_groups by (blast intro: that)
qed

lemma run_query_shard_eval:
  assumes "if summary_mode mode then search_summaries S sh w query k (if doc_ids = [] then None else Some (fset_of_list doc_ids)) = Inr summary_hits
      else summary_hits = []"
    and "if split_mode mode then search_splits S sh w query k (if doc_ids = [] then None else Some (fset_of_list doc_ids)) = Inr split_hits
      else split_hits = []"
    and "load_summaries (se_env S) (in_store (sh_inner sh)) w (im_keys summary_hits) (Some summary_hits) emb = Inr us"
    and "load_splits (se_env S) (in_store (sh_inner sh)) w (im_keys (splits_min_distances (group_summaries us) split_hits)) (Some split_hits)
      (Some (group_summaries us)) emb = Inr ss"
    and "mapR (\<lambda>(d, ss). load_doc (se_env S) (in_store (sh_inner sh)) w d ss emb) (group_by_doc ss) = Inr got"
  shows "(\<exists>out. run_query_shard S sh w doc_ids query k mode emb = Inr out)
    \<or> run_query_shard S sh w doc_ids query k mode emb = Inl Panicked"
proof -
  let ?m = "if summary_mode mode then group_summaries us else []"
  have m: "(if mode = SummaryOnly \<or> mode = SplitAndSummary
         then bindR (search_summaries S sh w query k (if doc_ids = [] then None else Some (fset_of_list doc_ids))) (\<lambda>hs.
              bindR (load_summaries (se_env S) (in_store (sh_inner sh)) w (im_keys hs) (Some hs) emb) (\<lambda>us.
              Inr (group_summaries us)))
         else Inr []) = Inr ?m"
    using assms(1,3) by (auto simp: summary_mode_def split: if_splits)
  have g: "?m = group_summaries us"
    using assms(1,3) by (auto simp: load_summaries_def im_keys_def group_summaries_def split: if_splits)
  have h: "(if mode = SplitOnly \<or> mode = SplitAndSummary
      then search_splits S sh w query k (if doc_ids = [] then None else Some (fset_of_list doc_ids)) else Inr []) = Inr split_hits"
    using assms(2) by (auto simp: split_mode_def split: if_splits)
  show ?thesis
    unfolding run_query_shard_def Let_def m h bindR_simps g
    using assms(4,5) by (simp add: splits_min_distances_def least_distance_def)
qed

lemma bench_answers_the_same:
  assumes us: "usearch_ok (se_us (pe_shard P)) A" and l: "allocation_of p a = Some l"
    and named: "splits_named (se_env (pe_shard P)) (in_store (sh_inner (lv_shard l))) (dir_world P p (lv_workspace l))"
    and plain: "\<not> unwrap_or (dq_rerank req) False"
    and run: "query_shards P ctx uuids req query [a] p = Inr out"
  defines "bench \<equiv> run_query_shard (pe_shard P) (lv_shard l) (dir_world P p (lv_workspace l)) (dq_doc_ids req) query
      (query_top_k req) (unwrap_or (dq_search_mode req) SplitAndSummary) (unwrap_or (dq_verbose req) False)"
  shows "bench = Inr out \<or> bench = Inl Panicked"
proof -
  let ?sum = "\<lambda>a. read_shard P p a (\<lambda>sh w. storage (search_summaries (pe_shard P) sh w query (query_top_k req) (doc_filter_of req)))"
  let ?spl = "\<lambda>a. read_shard P p a (\<lambda>sh w. storage (search_splits (pe_shard P) sh w query (query_top_k req) (doc_filter_of req)))"
  have len: "?sum a = Inr h \<Longrightarrow> length h \<le> query_top_k req" "?spl a = Inr h \<Longrightarrow> length h \<le> query_top_k req" for h
    using shard_search_length [OF us] by (auto simp: read_shard_def l storage_Inr search_summaries_def search_splits_def)
  from run obtain hs ss answers where
    q: "searched (\<lambda>m. m = SummaryOnly \<or> m = SplitAndSummary) req [a] ?sum = Inr hs"
      "searched (\<lambda>m. m = SplitOnly \<or> m = SplitAndSummary) req [a] ?spl = Inr ss"
      "mapR (\<lambda>(a, us, ss). read_shard P p a (\<lambda>sh w. answers_of (se_env (pe_shard P)) ctx uuids req (in_store (sh_inner sh)) w us ss))
         (zip [a] (zip hs ss)) = Inr answers"
    by (auto simp: query_shards_def Let_def bindR_Inr)
  from searched_one_Inr [OF q(1) len(1)] obtain sm where
    sm: "hs = [sm]" "if summary_mode (unwrap_or (dq_search_mode req) SplitAndSummary) then ?sum a = Inr sm else sm = []"
    unfolding summary_mode_def by blast
  from searched_one_Inr [OF q(2) len(2)] obtain sp where
    sp: "ss = [sp]" "if split_mode (unwrap_or (dq_search_mode req) SplitAndSummary) then ?spl a = Inr sp else sp = []"
    unfolding split_mode_def by blast
  from q(3) sm(1) sp(1) obtain rs where
    "answers_of (se_env (pe_shard P)) ctx uuids req (in_store (sh_inner (lv_shard l))) (dir_world P p (lv_workspace l)) sm sp = Inr rs"
    by (auto simp: read_shard_def l bindR_Inr)
  from answers_of_Inr [OF this plain] obtain us ts got where
    r: "load_summaries (se_env (pe_shard P)) (in_store (sh_inner (lv_shard l))) (dir_world P p (lv_workspace l)) (im_keys sm) (Some sm)
        (unwrap_or (dq_verbose req) False) = Inr us"
      "load_splits (se_env (pe_shard P)) (in_store (sh_inner (lv_shard l))) (dir_world P p (lv_workspace l))
        (im_keys (splits_min_distances (group_summaries us) sp)) (Some sp) (Some (group_summaries us)) (unwrap_or (dq_verbose req) False) = Inr ts"
      "mapR (\<lambda>(d, ss). load_doc (se_env (pe_shard P)) (in_store (sh_inner (lv_shard l))) (dir_world P p (lv_workspace l)) d ss
        (unwrap_or (dq_verbose req) False)) (group_by_doc ts) = Inr got" by blast
  have "(\<exists>out. bench = Inr out) \<or> bench = Inl Panicked"
    unfolding bench_def
    by (rule run_query_shard_eval [OF _ _ r])
      (use sm(2) sp(2) in \<open>simp_all add: read_shard_def l storage_Inr doc_filter_of_def split: if_splits\<close>)
  then show ?thesis
    using query_one_shard [OF us l named plain, where ctx = ctx and uuids = uuids and query = query, folded bench_def] run by auto
qed

section \<open>What a shard does without\<close>

lemma remove_derived_files_of:
  assumes "remove_derived w = (Inr u, v)"
  shows "fmlookup (files v) g = (if g \<in> set derived_files then None else fmlookup (files w) g)"
proof -
  have step: "fmlookup (files v) g = (if g \<in> set fs then None else fmlookup (files w) g)"
    if "forM (\<lambda>f. bindM (getM (\<lambda>w. fs_exists w f)) (\<lambda>e. if e then fs_remove f else ret ())) fs w = (Inr u, v)" for fs w
    using that
  proof (induction fs arbitrary: w)
    case (Cons f fs)
    then obtain x where x: "(if fs_exists w f then fs_remove f else ret ()) w = (Inr (), x)"
      "forM (\<lambda>f. bindM (getM (\<lambda>w. fs_exists w f)) (\<lambda>e. if e then fs_remove f else ret ())) fs x = (Inr u, v)"
      by (auto simp: seqM_Inr bindM_Inr getM_Inr)
    have "fmlookup (files x) g = (if g = f then None else fmlookup (files w) g)"
      using x(1) by (auto simp: ret_Inr fs_exists_def fmlookup_dom'_iff dest: fs_remove_Inr split: if_splits)
    with Cons.IH [OF x(2)] show ?case by auto
  qed (simp add: ret_Inr)
  from step [OF assms [unfolded remove_derived_def]] show ?thesis .
qed

text \<open>A directory without its snapshot is that of the same log.\<close>

lemma store_inv_without_snapshot:
  assumes "store_inv E sl al x" "remove_derived w = (Inr u, v)" "files w = files (snd x)"
  shows "store_inv E sl al (fst x, v)"
proof -
  note I = store_invD [OF assms(1)]
  note F = remove_derived_files_of [OF assms(2), unfolded assms(3)]
  have 1: "represents E sl al (fst x, v) []"
    by (rule represents_files [OF I(1), of _ "st_manifest (fst x)" v]) (simp_all add: F derived_files_def)
  have 2: "durable E sl (fst x, v)" by (rule durable_frame [OF I(2)]) (simp_all add: F derived_files_def)
  have "snapshot_load (e_crc E) v = Inr None"
    using F [of SnapFile] by (simp add: snapshot_load_def fs_exists_def fmlookup_dom'_iff derived_files_def)
  with I 1 2 show ?thesis by (simp add: store_inv_def flushed_def snapshot_ok_def)
qed

lemma opened_without_derived:
  assumes i: "store_inv E sl al x" and E: "env_ok E" and n: "next_seq_of x < - 1"
    and w: "remove_derived w = (Inr u, v)" "files w = files (snd x)" and o: "store_open E (st_opts (fst x)) v = (Inr s, w')"
  shows "same_records x (s, w')"
proof -
  have v: "store_inv E sl al (fst x, v)" by (rule store_inv_without_snapshot [OF i w])
  have "next_seq_of (fst x, v) < - 1" using n by simp
  from reopen_world [OF v E this, of v s w'] o have
    R: "store_inv E sl al (s, w')" "st_maps s = st_maps (fst x)" "st_opts s = st_opts (fst x)" "aseg_id (st_active s) = active_id x"
    by simp_all
  show ?thesis by (rule same_log_records [OF i R(1)]) (use R in simp_all)
qed

text \<open>The same over the workspace directories of a pool, each of which is visited once.\<close>

lemma remove_derived_files_at:
  assumes "remove_derived_files P dirs p = (Inr u, q)" "ws \<in> set dirs" "distinct dirs"
  shows "remove_derived (dir_world P p ws) = (Inr (), dir_world P q ws)"
proof -
  let ?f = "\<lambda>ws p. case remove_derived (dir_world P p ws) of (r, w) \<Rightarrow> (r, p\<lparr>pl_dirs := fmupd ws w (pl_dirs p)\<rparr>)"
  have other: "forM ?f ds p = (Inr u, q) \<Longrightarrow> ws \<notin> set ds \<Longrightarrow> dir_world P q ws = dir_world P p ws" for ds p
  proof (induction ds arbitrary: p)
    case (Cons d ds)
    obtain r w where r: "remove_derived (dir_world P p d) = (r, w)" by (rule prod.exhaust)
    with Cons.prems have n: "forM ?f ds (p\<lparr>pl_dirs := fmupd d w (pl_dirs p)\<rparr>) = (Inr u, q)"
      by (auto simp: seqM_Inr)
    from Cons.IH [OF n] Cons.prems(2) show ?case by (auto simp: dir_world_def)
  qed (simp add: ret_Inr)
  show ?thesis
    using assms unfolding remove_derived_files_def
  proof (induction dirs arbitrary: p)
    case (Cons d ds)
    obtain r w where r: "remove_derived (dir_world P p d) = (r, w)" by (rule prod.exhaust)
    with Cons.prems(1) have n: "r = Inr ()" "forM ?f ds (p\<lparr>pl_dirs := fmupd d w (pl_dirs p)\<rparr>) = (Inr u, q)"
      by (auto simp: seqM_Inr)
    show ?case
    proof (cases "ws = d")
      case True
      with other [OF n(2)] Cons.prems(3) r n(1) show ?thesis by (simp add: dir_world_def)
    next
      case False
      with Cons.IH [OF n(2)] Cons.prems(2,3) show ?thesis by (simp add: dir_world_def)
    qed
  qed simp
qed

lemma remove_derived_clean:
  assumes "faults w = []"
  shows "\<exists>v. remove_derived w = (Inr (), v) \<and> faults v = []"
proof -
  have "\<exists>v. forM (\<lambda>f. bindM (getM (\<lambda>w. fs_exists w f)) (\<lambda>e. if e then fs_remove f else ret ())) fs w = (Inr (), v) \<and> faults v = []" for fs
    using assms
  proof (induction fs arbitrary: w)
    case (Cons f fs)
    have "\<exists>x. (if fs_exists w f then fs_remove f else ret ()) w = (Inr (), x) \<and> faults x = []"
      using Cons.prems by (auto simp: fs_remove_def io_def next_fault_def fs_exists_def ret_def)
    then obtain x where x: "(if fs_exists w f then fs_remove f else ret ()) w = (Inr (), x)" "faults x = []" by blast
    from Cons.IH [OF x(2)] x(1) show ?case by (simp add: seqM_def bindM_def getM_def)
  qed (simp add: ret_def)
  then show ?thesis by (simp add: remove_derived_def)
qed

end
