(* ===== verification/Bench_Properties.thy ===== *)
theory Bench_Properties
  imports Bench_Facts Shard_Samples Compact_Samples
begin

text \<open>
  The properties of the storage benchmark: that what it measures is what the server does, and that
  what it throws away before it measures a restart costs nothing but time.
\<close>

section \<open>The query\<close>

text \<open>
  C22: The query that the benchmark measures is the server's on one workspace without reranking:
  whatever it answers the server's query answers, documents, splits, summaries and order, and
  whatever the server answers it answers too, unless it panics at a distance that is not a number,
  which the server sorts as equal to every other.
\<close>

theorem benchmark_queries_like_the_server:
  assumes "usearch_ok (se_us (pe_shard P)) A" "allocation_of p a = Some l"
    and "reachable (se_env (pe_shard P)) opts (in_store (sh_inner (lv_shard l)), dir_world P p (lv_workspace l))"
    and "env_ok (se_env (pe_shard P))" "unat (so_n_embd opts) < 2 ^ 32" "\<not> unwrap_or (dq_rerank req) False"
    and "bench = run_query_shard (pe_shard P) (lv_shard l) (dir_world P p (lv_workspace l)) (dq_doc_ids req) query
      (query_top_k req) (unwrap_or (dq_search_mode req) SplitAndSummary) (unwrap_or (dq_verbose req) False)"
  shows "(\<forall>out. bench = Inr out \<longrightarrow> query_shards P ctx uuids req query [a] p = Inr out)
    \<and> (\<forall>out. query_shards P ctx uuids req query [a] p = Inr out \<longrightarrow> bench = Inr out \<or> bench = Inl Panicked)"
proof -
  have named: "splits_named (se_env (pe_shard P)) (in_store (sh_inner (lv_shard l))) (dir_world P p (lv_workspace l))"
    using reachable_splits_named [OF assms(3-5)] by simp
  show ?thesis
    using query_one_shard [OF assms(1,2) named assms(6)] bench_answers_the_same [OF assms(1,2) named assms(6)]
    unfolding assms(7) by blast
qed

text \<open>A shard whose log and index hold the split 20.\<close>

definition indexed_shard :: "sstate \<Rightarrow> (bool \<times> u64 list) shard" where
  "indexed_shard z = (sample_shard z)\<lparr>sh_inner := (sh_inner (sample_shard z))
     \<lparr>in_splits := (empty_index ESplit)\<lparr>vi_index := (False, [20])\<rparr>\<rparr>\<rparr>"

definition indexed_pool :: "sstate \<Rightarrow> (bool \<times> u64 list) pool" where
  "indexed_pool z = (sample_pool z)
     \<lparr>pl_heap := fmupd 0 \<lparr> lv_workspace = 5, lv_shard = indexed_shard z, lv_held = 0, lv_busy = False \<rparr> fmempty\<rparr>"

definition splits_request :: document_query_request where
  "splits_request = \<lparr> dq_input = [104], dq_model = [], dq_search_mode = Some SplitOnly, dq_top_k = Some 5,
     dq_workspace_ids = [5], dq_doc_ids = [], dq_rerank = None, dq_verbose = Some False \<rparr>"

lemma indexed_search:
  "search_splits sample_senv (indexed_shard z) (snd z) [0x3F800000] 5 None = Inr [(20, 0)]"
  by (simp add: search_splits_def shard_search_def vi_search_def check_query_def matches_of_def indexed_shard_def sample_shard_def
      index_of_def empty_index_def sample_senv_def sample_usearch_def im_collect_def im_extend_def im_insert_def)

lemma indexed_query:
  assumes "holds_doc sample_env x doc1 z"
  shows "\<exists>doc. run_query_shard sample_senv (indexed_shard z) (snd z) [] [0x3F800000] 5 SplitOnly False = Inr [doc]
    \<and> dd_document_id doc = 10"
proof -
  have st: "in_store (sh_inner (indexed_shard z)) = fst z" by (simp add: indexed_shard_def sample_shard_def)
  from assms have mz: "st_maps (fst z) = maps_after_insert sample_env x doc1" by (auto simp: holds_doc_def)
  let ?e = "ap_doc_entry (appended_here sample_env x doc1)"
  have e: "fmlookup (docs (st_maps (fst z))) 10 = Some ?e"
    unfolding mz by (simp add: maps_after_insert_def publish_def doc1_id)
  have e2: "de_split_ids ?e = [20]" "de_summary_ids ?e = None"
    by (simp_all add: appended_here_def appended_of_def Let_def doc1_def spl1_def)
  from holds_get_doc [OF assms sample_env_ok consistent1(2), of False] have
    g: "get_doc sample_env (fst z) (snd z) 10 False = Inr (Some (stored_doc sample_env (st_opts (fst x)) False doc1))"
    by (simp add: doc1_id)
  then have "get_splits sample_env (fst z) (snd z) [20] False = Inr (dd_splits (stored_doc sample_env (st_opts (fst x)) False doc1))"
    by (auto simp: get_doc_def e e2 bindR_Inr dest: arg_cong [where f = dd_splits])
  then have "get_splits sample_env (fst z) (snd z) [20] False = Inr [stored_split sample_env (st_opts (fst x)) False spl1]"
    by (simp add: stored_doc_def doc1_def)
  then have "get_split sample_env (fst z) (snd z) 20 False = Inr (Some (stored_split sample_env (st_opts (fst x)) False spl1))"
    by (auto simp: get_splits_def bindR_Inr split: option.splits)
  then obtain m f where m: "read_split sample_env (fst z) (snd z) 20 False = Inr (Some (m, f))" "sm_doc_id m = 10"
    by (auto simp: get_split_def bindR_Inr split_dto_of_def stored_split_def spl1_def split: option.splits)
  then show ?thesis
    by (simp add: run_query_shard_def Let_def indexed_search st senv_parts comparable_def im_collect_def im_extend_def im_insert_def
        im_keys_def im_get_def load_splits_def get_split_without_summaries_def group_by_doc_def im_push_def load_doc_def e e2
        split_dto_of_def List.map_filter_simps)
qed

lemma benchmark_queries_like_the_server_witness:
  "\<exists>z doc. reachable sample_env opts1 z \<and> dd_document_id doc = 10
     \<and> query_shards sample_penv sample_ctx (\<lambda>_. []) splits_request [0x3F800000] [0] (indexed_pool z) = Inr [doc]"
proof -
  obtain x z where z: "reachable sample_env opts1 z" "holds_doc sample_env x doc1 z" using sealed_sample by blast
  from indexed_query [OF z(2)] obtain doc where
    d: "run_query_shard sample_senv (indexed_shard z) (snd z) [] [0x3F800000] 5 SplitOnly False = Inr [doc]" "dd_document_id doc = 10"
    by blast
  have p: "pe_shard sample_penv = sample_senv" by (simp add: sample_penv_def)
  let ?l = "\<lparr> lv_workspace = 5, lv_shard = indexed_shard z, lv_held = 0, lv_busy = False \<rparr>"
  have a: "allocation_of (indexed_pool z) 0 = Some ?l" by (simp add: indexed_pool_def allocation_of_def)
  have w: "dir_world sample_penv (indexed_pool z) 5 = snd z" by (simp add: dir_world_def indexed_pool_def sample_pool_def)
  have st: "in_store (sh_inner (indexed_shard z)) = fst z" by (simp add: indexed_shard_def sample_shard_def)
  have r: "dq_doc_ids splits_request = []" "query_top_k splits_request = 5" "\<not> unwrap_or (dq_rerank splits_request) False"
    "unwrap_or (dq_search_mode splits_request) SplitAndSummary = SplitOnly" "\<not> unwrap_or (dq_verbose splits_request) False"
    by (simp_all add: splits_request_def query_top_k_def unwrap_or_def usize_of_i32_def)
  have us: "usearch_ok (se_us (pe_shard sample_penv)) sample_us_model" and E: "env_ok (se_env (pe_shard sample_penv))"
    by (simp_all add: p senv_parts sample_usearch_ok sample_env_ok)
  have zr: "reachable (se_env (pe_shard sample_penv)) opts1
      (in_store (sh_inner (lv_shard ?l)), dir_world sample_penv (indexed_pool z) (lv_workspace ?l))"
    using z(1) by (simp add: p senv_parts st w)
  note same = benchmark_queries_like_the_server [OF us a zr E opts1_dim r(3) refl, of "[0x3F800000]" sample_ctx "\<lambda>_. []"]
  have "run_query_shard (pe_shard sample_penv) (lv_shard ?l) (dir_world sample_penv (indexed_pool z) (lv_workspace ?l)) (dq_doc_ids splits_request)
      [0x3F800000] (query_top_k splits_request) (unwrap_or (dq_search_mode splits_request) SplitAndSummary)
      (unwrap_or (dq_verbose splits_request) False) = Inr [doc]"
    using d(1) by (simp add: p w r)
  with same have "query_shards sample_penv sample_ctx (\<lambda>_. []) splits_request [0x3F800000] [0] (indexed_pool z) = Inr [doc]" by blast
  with d(2) z(1) show ?thesis by blast
qed

section \<open>The corpus\<close>

text \<open>
  The benchmark reads back any corpus in the dialect it names: fields that are quoted, their
  quotes doubled, with commas and line ends inside, or plain, and rows that end in a line feed or
  in a carriage return and a line feed, come back field by field and row by row.
\<close>

theorem corpus_reads_back:
  assumes "list_all csv_row_ok rs"
  shows "parse_csv (write_csv rs) = map (map snd \<circ> snd) rs"
  by (rule parse_written [OF assms])

definition sample_rows :: "(bool \<times> (bool \<times> ustring) list) list" where
  "sample_rows = [(True, [(False, [105, 100]), (False, passage_header)]), (False, [(False, []), (True, [34, 44, 10, 97])])]"

lemma corpus_reads_back_witness:
  "parse_csv (write_csv sample_rows) = [[[105, 100], passage_header], [[], [34, 44, 10, 97]]]"
proof -
  have "list_all csv_row_ok sample_rows"
    by (simp add: sample_rows_def csv_row_ok_def csv_field_ok_def csv_plain_def passage_header_def)
  from corpus_reads_back [OF this] show ?thesis by (simp add: sample_rows_def)
qed

section \<open>Files that are derived\<close>

text \<open>
  C13: An undisturbed shard is its log: when the benchmark has removed the index files, their state
  and the snapshot of the maps from the directory of a shard that is reachable (no compaction, no
  crash inside an insert, no deletion, seal, snapshot or rewind that failed), an open that returns
  finds no snapshot and replays the log, reads every document as before, texts and vectors, and
  offers the same vectors to the indexes in the same order. A replayed torn insert or a compaction
  is outside of this: then the log alone can give other maps. The sequence counter is not at its
  end, and the embedding dimension is below 2 ^ 32.
\<close>

theorem derived_files_are_derived:
  assumes "reachable E opts x" "env_ok E" "unat (so_n_embd opts) < 2 ^ 32" "next_seq_of x < - 1"
    and "files (dir_world P p ws) = files (snd x)" "remove_derived_files P dirs p = (Inr u, q)" "ws \<in> set dirs" "distinct dirs"
    and "store_open E opts (dir_world P q ws) = (Inr s, w')"
  shows "snapshot_load (e_crc E) (dir_world P q ws) = Inr None
    \<and> get_doc E s w' d emb = get_doc E (fst x) (snd x) d emb
    \<and> for_each_live_vector E s w' kind f = for_each_live_vector E (fst x) (snd x) kind f"
proof -
  from reachable_inv [OF assms(1-3)] obtain sl al where i: "store_inv E sl al x" "st_opts (fst x) = opts" by blast
  note r = remove_derived_files_at [OF assms(6-8)]
  have "fmlookup (files (dir_world P q ws)) SnapFile = None"
    using remove_derived_files_of [OF r, of SnapFile] by (simp add: derived_files_def)
  then have "snapshot_load (e_crc E) (dir_world P q ws) = Inr None"
    by (simp add: snapshot_load_def fs_exists_def fmlookup_dom'_iff)
  moreover have "same_records x (s, w')"
    by (rule opened_without_derived [OF i(1) assms(2,4) r assms(5)]) (use assms(9) i(2) in simp)
  ultimately show ?thesis
    using get_doc_same [of x "(s, w')"] live_locs_same [of x "(s, w')"] by (simp add: for_each_live_vector_def)
qed

lemma derived_files_are_derived_witness:
  "\<exists>z q s w'. reachable sample_env opts1 z \<and> remove_derived_files sample_penv [5] (sample_pool z) = (Inr (), q)
     \<and> store_open sample_env opts1 (dir_world sample_penv q 5) = (Inr s, w')
     \<and> get_doc sample_env s w' 10 True = Inr (Some (stored_doc sample_env opts1 True doc1))"
proof -
  obtain x z where z: "reachable sample_env opts1 z" "faults (snd z) = []" "holds_doc sample_env x doc1 z"
    "st_opts (fst x) = opts1" "next_seq_of z = 4" using sealed_sample by blast
  from reachable_inv [OF z(1) sample_env_ok opts1_dim] obtain sl al where
    i: "store_inv sample_env sl al z" "st_opts (fst z) = opts1" by blast
  have w: "dir_world sample_penv (sample_pool z) 5 = snd z" by (simp add: dir_world_def sample_pool_def)
  from remove_derived_clean [OF z(2)] obtain v where v: "remove_derived (snd z) = (Inr (), v)" "faults v = []" by blast
  then obtain q where q: "remove_derived_files sample_penv [5] (sample_pool z) = (Inr (), q)"
    by (simp add: remove_derived_files_def w seqM_def bindM_def ret_def)
  have vq: "dir_world sample_penv q 5 = v"
    using remove_derived_files_at [OF q, of 5] v(1) by (simp add: w)
  have n: "next_seq_of z < - 1" using z(5) by simp
  then have "next_seq_of (fst z, v) < - 1" by simp
  from reopen_succeeds [OF store_inv_without_snapshot [OF i(1) v(1) refl] sample_env_ok this] v(2) i(2) obtain s w' where
    o: "store_open sample_env opts1 (dir_world sample_penv q 5) = (Inr s, w')" unfolding vq by auto
  from holds_get_doc [OF z(3) sample_env_ok consistent1(2)] z(4) have
    "get_doc sample_env (fst z) (snd z) 10 True = Inr (Some (stored_doc sample_env opts1 True doc1))" by (simp add: doc1_id)
  moreover have f: "files (dir_world sample_penv (sample_pool z) 5) = files (snd z)" by (simp add: w)
  have "ws \<in> set [ws]" "distinct [ws]" for ws :: uuid by simp_all
  from derived_files_are_derived [OF z(1) sample_env_ok opts1_dim n f q this o, of 10 True] have
    "get_doc sample_env s w' 10 True = get_doc sample_env (fst z) (snd z) 10 True" by blast
  ultimately show ?thesis using z(1) q o by metis
qed

end
