(* ===== verification/Spec2Isabelle.thy ===== *)
theory Spec2Isabelle
  imports Log_Properties Store_Properties Compact_Properties Shard_Properties Model_Properties Server_Properties Migrate_Properties Pool_Threads_Properties Bench_Properties
begin

text \<open>
  The embedding service: documents are split, embedded, summarised, stored in one record log per
  workspace, indexed, and found again by their nearest vectors. Its parts, from the disk up:

  The record log (\<open>embedding-store/src\<close>). \<open>Record_Frame\<close> is \<open>record.rs\<close>, the frame of one record and
  its checksum; \<open>Filesys\<close> what the store does to files, under a schedule of faults that makes any
  operation fail after any number of bytes; \<open>Segment\<close> is \<open>segment.rs\<close>, the active segment with its
  write buffer and the sealed segments; \<open>Maps\<close>, \<open>Manifest\<close>, \<open>Meta_Snapshot\<close> and \<open>Replay\<close> are the files
  of the same names; \<open>Store\<close> and \<open>Store_Read\<close> are \<open>store.rs\<close> and \<open>Compact\<close> is \<open>compact.rs\<close>. The data
  types of \<open>embedding-common/src/dtos\<close> and \<open>models\<close> are \<open>Dtos\<close>; \<open>Externals\<close> gathers the codecs, the
  checksum and the iteration orders of hash maps, which are not part of the sources, as fields of
  a record with the laws they are relied on for (\<open>env_ok\<close>).

  The shard. \<open>Soft_Float\<close> is IEEE 754 arithmetic on bit patterns, \<open>Ordered\<close> the standard library's
  stable sort, the orders the sources sort by and \<open>IndexMap\<close>; \<open>Vector_Index\<close> is \<open>vector_index.rs\<close> over
  a record of usearch functions, \<open>Shard\<close> is \<open>shard.rs\<close>, \<open>Pool\<close> is \<open>pool.rs\<close> with the reference counts
  of the shards made explicit.

  The service. \<open>Batching\<close> is the message loop of the two model workers (\<open>embedding_worker.rs\<close>,
  \<open>reranking_worker.rs\<close>) over a record of llama.cpp functions; \<open>Processing\<close> is
  \<open>embedding-processing/src/processing\<close>; \<open>Query\<close> is \<open>api/query.rs\<close>; \<open>Server\<close> holds the handlers of
  \<open>embedding-server/src/api\<close>, the messages of \<open>schema\<close> and the worker loop; \<open>Maintenance\<close> is
  \<open>maintenance.rs\<close>, \<open>storage_config.rs\<close> and what \<open>main.rs\<close> puts together. \<open>Migrate\<close> is \<open>migrate.rs\<close> with
  the settings and the exit status of its tool, over a record of RocksDB reads. \<open>Storage_Bench\<close> is what
  \<open>bin/storage_bench.rs\<close> computes: vectors, corpus, documents, its query and the files it removes.

  How the code is represented. A method on \<open>&mut self\<close> is a function from the state to an error or
  a value and the state it leaves, also on failure (\<open>Prelude\<close>); a panic is the error \<open>Panicked\<close>.
  Integers keep their width. A shard's lock is held for a whole operation, so operations of one
  shard are steps; where the code releases the lock between two steps, the model has two
  definitions. A directory is a map from file names to bytes with the bytes that are synced
  beside it. Third-party code is an argument: the MessagePack and JSON codecs, the checksum,
  half-precision conversion, hash order, usearch, llama.cpp, the splitter, LexRank, the hasher,
  the sockets (an exchange is the reply, if one arrived) and the clock.

  What is proved. \<open>Store_Log\<close> to \<open>Store_Progress\<close> carry the invariant of the store, that the
  segments hold the frames of a log and the maps are its replay, through every operation and
  every failure but those named below; \<open>Store_Properties\<close> states durability, crash safety, atomic
  failure and progress,
  \<open>Log_Properties\<close> the round trips of frames, vectors, snapshots and manifests and what torn inserts
  do. \<open>Compact_Facts\<close>, \<open>Compact_Swap\<close> and \<open>Compact_Reads\<close> follow every record that a compaction copies to the
  place the maps then name, \<open>Compact_Live\<close> shows that it goes through, \<open>Compact_Reopen\<close> that the next
  open trusts the snapshot which ends it, and \<open>Compact_Properties\<close> states that no answer changes,
  neither in the running store nor for whoever opens the directory next. \<open>Shard_Facts\<close> shows that log
  and indexes that hold the same ids still do after every acknowledged operation, \<open>Shard_Search\<close> that
  rebuilding fills empty indexes from the log and that a filtered search is exact when no id is
  listed twice. \<open>Pool_Facts\<close> shows that no two live shards share a directory and that the budget
  loop ends; \<open>Pool_Refs\<close> counts the references every operation takes and gives back.
  \<open>Pool_Threads\<close> lets any number of threads run the pool's operations at once, one step per lock
  section, with the gates and their clones explicit; \<open>Pool_Threads_Facts\<close> carries its invariant,
  \<open>Pool_Threads_Rest\<close> follows every call that has started to its end, and \<open>Pool_Threads_Properties\<close>
  states that openings exclude each other and that from every state the threads reach they can all
  finish and leave nothing behind. \<open>Batching_Facts\<close> shows that batching is invisible in the answers,
  of a library that answers rightly only in a context whose cache was cleared (\<open>llama_ok\<close>), and
  that a failed request leaves no tokens behind; \<open>Processing_Facts\<close> which vectors the parts of a
  processed document carry and when the store accepts it;
  \<open>Query_Facts\<close> that the cut over all shards keeps the nearest hits and that reranking attaches each
  score to its text. \<open>Server_Facts\<close>, \<open>Server_Compose\<close> and \<open>Service_Runs\<close> put the parts together: an
  acknowledged insertion is what a retrieval answers, before and after a power failure, every
  request is answered, and between two messages nothing is referenced from outside the pool.
  \<open>Migrate_Facts\<close> and \<open>Migrate_Properties\<close> show that every document that a filter row names meets one
  fate, read or refused with its own id and reason, that the report is made of these fates, and
  that what it counts as read is in the shards. \<open>Bench_Facts\<close> and
  \<open>Bench_Properties\<close> show that the benchmark's query answers like the server's, that its corpus
  reads back, and that a shard loses nothing with the files a restart can rebuild.
  \<open>Samples\<close>, \<open>Store_Samples\<close>, \<open>Store_Filled\<close>, \<open>Compact_Samples\<close>, \<open>Service_Samples\<close> and \<open>Shard_Samples\<close> are the
  concrete states, documents and libraries on which \<open>Store_Properties\<close>, \<open>Compact_Properties\<close>,
  \<open>Log_Properties\<close>, \<open>Shard_Properties\<close>, \<open>Model_Properties\<close> and \<open>Server_Properties\<close> show that their
  hypotheses hold.

  The scope of the store's claims. Most start from an undisturbed shard, \<open>reachable\<close> in
  \<open>Store_History\<close>: a first open, then, in any order, acknowledged inserts of documents whose parts
  name them, inserts refused or rewound, acknowledged deletions, seals and snapshots, syncs that
  worked or failed, and reopenings. A compaction, a crash inside an insert, and a deletion, seal,
  snapshot or rewind that failed are not steps of it, and there the claims can be false: after a
  failed seal the next open removes acknowledged records, and a torn insert that is followed by
  another of the same document replays to maps the running process did not have. What one
  operation does, or what an open makes of a crash, is stated for every state that satisfies the
  invariant. Reading back what was stored also needs the ids of a document's splits, and of its
  different summaries, to differ, which processing does not ensure.

  Bounds. The record loop and the budget loop are total or \<open>partial_function\<close>, with their ends
  proved; no fuel is used. The waiting loop of a shutdown is a \<open>partial_function\<close> over the clock.

  Not modelled: the progress output of the migration; the clock and the report of the benchmark;
  the smoke client, which drives the system from outside; brokers, clients and command lines,
  which set up processes and sockets; configuration files, arguments and tracing, which are
  declarations for other crates; loading of the models. That a store which has been compacted is
  again the replay of its log is not stated: two documents that name the same split id are each
  copied with it, and a replay of the new segment keeps one of the copies. What is read after the
  first compaction of an undisturbed shard, and after the open that follows it, is stated; a second
  compaction, and a replay of a compacted store whose snapshot is lost, are not. Interleavings
  inside a single shard operation are excluded by its lock; a poisoned lock is taken as a free one,
  as the code does. With threads, the pool's lock and a shard's lock are held for one step each and
  never block: that the code asks for them in one order only, gate, pool, shard, was read from it
  and is not a theorem.
\<close>

end
